(* ===== verification/Luaprof_Prelude.thy ===== *)
theory Luaprof_Prelude
  imports Main "HOL-Library.Word"
begin

text \<open>
  Shared vocabulary of the development: machine integers and pointers, the saturating
  counters (\<open>saturating_add\<close> is declared in \<open>cpu_core.c\<close>, \<open>memory_core.c\<close>, \<open>runtime.c\<close>
  and \<open>skynet_host.c\<close> with the same body), the FNV-style byte hash \<open>hash_bytes\<close> (same body
  in \<open>cpu_core.c\<close>, \<open>memory_core.c\<close> and \<open>pprof_exporter.c\<close>), the pointer mixer of
  \<open>memory_core.c\<close> and \<open>lua_symbols.c\<close>, and list facts that several components use.

  The target is the LP64 little-endian Linux ABI the Makefile builds for: \<open>int\<close> and enums
  are four bytes, pointers and \<open>size_t\<close> eight.
\<close>

unbundle bit_operations_syntax

named_theorems unat_sat \<open>what a saturating operation computes on natural numbers\<close>

type_synonym u8 = "8 word"
type_synonym u16 = "16 word"
type_synonym u32 = "32 word"
type_synonym u64 = "64 word"
type_synonym c_int = "32 word"
type_synonym pointer = "64 word"
type_synonym bytes = "8 word list"

abbreviation (input) NULL :: pointer where
  "NULL \<equiv> 0"

abbreviation (input) UINT64_MAX :: u64 where
  "UINT64_MAX \<equiv> - 1"

abbreviation (input) u64_max :: nat where
  "u64_max \<equiv> 18446744073709551615"

section \<open>Saturating counters\<close>

definition saturating_add :: "u64 \<Rightarrow> u64 \<Rightarrow> u64" where
  "saturating_add value increment =
     (if UINT64_MAX - value < increment then UINT64_MAX else value + increment)"

definition saturating_subtract :: "u64 \<Rightarrow> u64 \<Rightarrow> u64" where
  "saturating_subtract value decrement = (if value < decrement then 0 else value - decrement)"

lemma unat_UINT64_MAX [simp]: "unat UINT64_MAX = u64_max"
  by (simp add: unsigned_minus_1_eq_mask mask_eq_exp_minus_1)

lemma unat_le_u64_max [simp]: "unat (x :: u64) \<le> u64_max"
proof -
  have "unat x < 2 ^ LENGTH(64)" by (rule unsigned_less)
  then show ?thesis by simp
qed

lemma unat_saturating_add [unat_sat]:
  "unat (saturating_add a b) = min u64_max (unat a + unat b)"
proof -
  have m: "unat (UINT64_MAX - a) = u64_max - unat a"
    by (simp add: unat_sub word_le_nat_alt)
  show ?thesis
  proof (cases "UINT64_MAX - a < b")
    case True
    then have "u64_max < unat a + unat b"
      by (simp add: word_less_nat_alt m)
    with True show ?thesis by (simp add: saturating_add_def)
  next
    case False
    then have "unat b \<le> u64_max - unat a"
      by (simp add: word_less_nat_alt m)
    then have le: "unat a + unat b \<le> u64_max"
      using unat_le_u64_max [of a] by linarith
    then have "unat (a + b) = unat a + unat b"
      by (simp add: unat_word_ariths)
    with le False show ?thesis by (simp add: saturating_add_def)
  qed
qed

lemma unat_saturating_subtract [unat_sat]:
  "unat (saturating_subtract a b) = unat a - unat b"
  by (auto simp: saturating_subtract_def word_less_nat_alt unat_sub word_le_nat_alt)

lemma min_add_cap:
  "min (m::nat) (min m a + b) = min m (a + b)"
  by auto

lemma min_below_cap [simp]:
  "min 18446744073709551614 (min u64_max x) = min 18446744073709551614 (x :: nat)"
  by (simp add: min_def)

lemma saturating_add_0 [simp]: "saturating_add a 0 = a"
  by (simp add: saturating_add_def)

lemma saturating_add_ge: "a \<le> saturating_add a b"
  by (simp add: word_le_nat_alt unat_sat)

lemma saturating_add_0_left [simp]: "saturating_add 0 a = a"
  by (simp add: word_unat_eq_iff unat_sat)

section \<open>Bytes in memory and the byte hash\<close>

text \<open>The \<open>n\<close> bytes of an object in memory, least significant first.\<close>

definition le_bytes :: "nat \<Rightarrow> 'a::len word \<Rightarrow> bytes" where
  "le_bytes n w = map (\<lambda>i. ucast (drop_bit (8 * i) w)) [0..<n]"

lemma length_le_bytes [simp]: "length (le_bytes n w) = n"
  by (simp add: le_bytes_def)

primrec hash_bytes :: "u64 \<Rightarrow> bytes \<Rightarrow> u64" where
  "hash_bytes hash [] = hash"
| "hash_bytes hash (b # bs) = hash_bytes ((hash XOR ucast b) * 1099511628211) bs"

abbreviation (input) fnv_offset :: u64 where
  "fnv_offset \<equiv> 1469598103934665603"

lemma hash_bytes_append: "hash_bytes h (xs @ ys) = hash_bytes (hash_bytes h xs) ys"
  by (induction xs arbitrary: h) simp_all

text \<open>The pointer mixer shared by \<open>pointer_bucket\<close> and \<open>pointer_hash\<close>.\<close>

definition pointer_mix :: "pointer \<Rightarrow> u64" where
  "pointer_mix pointer =
     (let v0 = pointer;
          v1 = v0 XOR drop_bit 30 v0;
          v2 = v1 * 0xbf58476d1ce4e5b9;
          v3 = v2 XOR drop_bit 27 v2;
          v4 = v3 * 0x94d049bb133111eb
      in v4 XOR drop_bit 31 v4)"

section \<open>Buffers\<close>

text \<open>
  \<open>memcpy(buf + off, bs, n)\<close> into a buffer of which the list is the part written so far.
\<close>

definition write_at :: "nat \<Rightarrow> 'a list \<Rightarrow> 'a list \<Rightarrow> 'a list" where
  "write_at off bs buf = take off buf @ bs @ drop (off + length bs) buf"

definition read_at :: "nat \<Rightarrow> nat \<Rightarrow> 'a list \<Rightarrow> 'a list" where
  "read_at off n buf = take n (drop off buf)"

lemma write_at_end: "write_at (length buf) bs buf = buf @ bs"
  by (simp add: write_at_def)

lemma read_at_append_old:
  "off + n \<le> length buf \<Longrightarrow> read_at off n (buf @ bs) = read_at off n buf"
  by (simp add: read_at_def)

lemma read_at_append_new:
  "n \<le> length bs \<Longrightarrow> read_at (length buf) n (buf @ bs) = take n bs"
  by (simp add: read_at_def)

section \<open>Sums over tables\<close>

lemma sum_list_update_nat:
  fixes xs :: "'a list" and f :: "'a \<Rightarrow> nat"
  assumes "i < length xs"
  shows "sum_list (map f (xs[i := y])) + f (xs ! i) = sum_list (map f xs) + f y"
  using assms
proof (induction xs arbitrary: i)
  case Nil
  then show ?case by simp
next
  case (Cons x xs)
  then show ?case by (cases i) (auto simp: algebra_simps)
qed

lemma nth_le_sum_list:
  fixes f :: "'a \<Rightarrow> nat"
  assumes "i < length xs"
  shows "f (xs ! i) \<le> sum_list (map f xs)"
proof -
  from assms have "f (xs ! i) \<in> set (map f xs)" by simp
  then show ?thesis by (rule member_le_sum_list) simp
qed

lemma sum_list_cap_update:
  fixes f :: "'a \<Rightarrow> nat"
  assumes "i < length xs" and "f y = min m (f (xs ! i) + w)"
  shows "min m (sum_list (map f (xs[i := y]))) = min m (sum_list (map f xs) + w)"
  using sum_list_update_nat [OF assms(1), of f y] nth_le_sum_list [OF assms(1), of f] assms(2)
  by (auto simp: min_def split: if_splits)

lemma sum_used_slots:
  "sum_list (map (\<lambda>a. if used a then f a else 0) xs) = sum_list (map f (filter used xs))"
  for f :: "'a \<Rightarrow> nat"
  by (induction xs) simp_all

lemma length_filter_update:
  assumes "i < length xs" and "\<not> P (xs ! i)" and "P y"
  shows "length (filter P (xs[i := y])) = Suc (length (filter P xs))"
  using assms
proof (induction xs arbitrary: i)
  case Nil
  then show ?case by simp
next
  case (Cons x xs)
  then show ?case by (cases i) auto
qed

lemma filter_update_same:
  assumes "i < length xs" and "P (xs ! i)" and "P y"
  shows "length (filter P (xs[i := y])) = length (filter P xs)"
  using assms
proof (induction xs arbitrary: i)
  case Nil
  then show ?case by simp
next
  case (Cons x xs)
  then show ?case by (cases i) auto
qed

text \<open>The place of slot \<open>i\<close> among the slots that satisfy \<open>P\<close>, and an update there.\<close>

definition rank_of :: "('a \<Rightarrow> bool) \<Rightarrow> 'a list \<Rightarrow> nat \<Rightarrow> nat" where
  "rank_of P xs i = length (filter P (take i xs))"

lemma rank_of_less: "i < length xs \<Longrightarrow> P (xs ! i) \<Longrightarrow> rank_of P xs i < length (filter P xs)"
  unfolding rank_of_def
proof (induction xs arbitrary: i)
  case Nil
  then show ?case by simp
next
  case (Cons x xs)
  then show ?case by (cases i) auto
qed

lemma nth_rank_of: "i < length xs \<Longrightarrow> P (xs ! i) \<Longrightarrow> filter P xs ! rank_of P xs i = xs ! i"
  unfolding rank_of_def
proof (induction xs arbitrary: i)
  case Nil
  then show ?case by simp
next
  case (Cons x xs)
  then show ?case by (cases i) auto
qed

lemma filter_update_rank:
  "i < length xs \<Longrightarrow> P (xs ! i) \<Longrightarrow> P y \<Longrightarrow>
   filter P (xs[i := y]) = (filter P xs)[rank_of P xs i := y]"
  unfolding rank_of_def
proof (induction xs arbitrary: i)
  case Nil
  then show ?case by simp
next
  case (Cons x xs)
  then show ?case by (cases i) auto
qed

end
