(* ===== verification/Open_Addressing.thy ===== *)
theory Open_Addressing
  imports Luaprof_Prelude
begin

text \<open>
  Every fixed-size table of the profiler (symbols and stack aggregates in \<open>cpu_core.c\<close> and
  \<open>memory_core.c\<close>, the function and location tables of \<open>pprof_exporter.c\<close>, the symbol table
  of \<open>lua_symbols.c\<close>) is searched by the same loop: linear probing from the hash, over a
  power-of-two capacity, until a free slot or a matching one. This theory models that loop
  once and proves, in the locale \<open>open_table\<close>, what every table relies on: slots are never
  emptied, a stored key is found again at its index, two slots never share a key, and the
  loop gives up only when the table is full.
\<close>

unbundle bit_operations_syntax

section \<open>The probe loop\<close>

text \<open>\<open>(size_t)(hash + probe) & (CAPACITY - 1u)\<close> with capacity \<open>2 ^ bits\<close>.\<close>

definition probe_index :: "nat \<Rightarrow> u64 \<Rightarrow> nat \<Rightarrow> nat" where
  "probe_index bits hash probe = unat ((hash + of_nat probe) AND mask bits)"

text \<open>
  \<open>for (probe = 0; probe < CAPACITY; ++probe)\<close>: the first index whose slot stops the loop.
  The last argument counts the iterations left.
\<close>

primrec probe_loop :: "nat \<Rightarrow> (nat \<Rightarrow> bool) \<Rightarrow> u64 \<Rightarrow> nat \<Rightarrow> nat \<Rightarrow> nat option" where
  "probe_loop bits stop hash probe 0 = None"
| "probe_loop bits stop hash probe (Suc n) =
     (let index = probe_index bits hash probe
      in if stop index then Some index else probe_loop bits stop hash (Suc probe) n)"

definition find_slot :: "nat \<Rightarrow> ('s \<Rightarrow> bool) \<Rightarrow> ('s \<Rightarrow> bool) \<Rightarrow> 's list \<Rightarrow> u64 \<Rightarrow> nat option" where
  "find_slot bits used matches tbl hash =
     probe_loop bits (\<lambda>i. \<not> used (tbl ! i) \<or> matches (tbl ! i)) hash 0 (2 ^ bits)"

lemma probe_index_mod:
  assumes "bits \<le> 64"
  shows "probe_index bits hash probe = (unat hash + probe) mod 2 ^ bits"
proof -
  have d: "(2::nat) ^ bits dvd 2 ^ 64"
    using assms by (rule le_imp_power_dvd)
  have "probe_index bits hash probe = unat (take_bit bits (hash + of_nat probe))"
    by (simp add: probe_index_def take_bit_eq_mask)
  also have "\<dots> = take_bit bits (unat (hash + of_nat probe))"
    by (rule unsigned_take_bit_eq)
  also have "\<dots> = unat (hash + of_nat probe) mod 2 ^ bits"
    by (rule take_bit_eq_mod)
  also have "\<dots> = (unat hash + probe) mod 2 ^ 64 mod 2 ^ bits"
    by (simp add: unat_word_ariths unat_of_nat mod_add_right_eq)
  also have "\<dots> = (unat hash + probe) mod 2 ^ bits"
    using d by (rule mod_mod_cancel)
  finally show ?thesis .
qed

lemma probe_index_less: "bits \<le> 64 \<Longrightarrow> probe_index bits hash probe < 2 ^ bits"
  by (simp add: probe_index_mod)

lemma probe_index_onto:
  assumes "bits \<le> 64" and "i < 2 ^ bits"
  shows "\<exists>d<2 ^ bits. probe_index bits hash d = i"
proof -
  define c where "c = (2::nat) ^ bits"
  have c: "0 < c" by (simp add: c_def)
  define r where "r = unat hash mod c"
  define d where "d = (i + (c - r)) mod c"
  have r: "r < c" using c by (simp add: r_def)
  have "(unat hash + d) mod c = (r + (i + (c - r))) mod c"
    by (simp add: d_def r_def mod_add_eq mod_add_left_eq mod_add_right_eq)
  also have "r + (i + (c - r)) = i + c" using r by simp
  finally have "(unat hash + d) mod c = i"
    using assms(2) by (simp add: c_def)
  moreover have "d < c" using c by (simp add: d_def)
  ultimately show ?thesis
    using assms(1) by (auto simp: probe_index_mod c_def)
qed

lemma probe_loop_Some:
  "probe_loop bits stop hash p n = Some i \<Longrightarrow>
   \<exists>d<n. i = probe_index bits hash (p + d) \<and> stop i \<and>
     (\<forall>e<d. \<not> stop (probe_index bits hash (p + e)))"
proof (induction n arbitrary: p)
  case 0
  then show ?case by simp
next
  case (Suc n)
  show ?case
  proof (cases "stop (probe_index bits hash p)")
    case True
    with Suc.prems show ?thesis by (intro exI [of _ 0]) (simp add: Let_def)
  next
    case False
    with Suc.prems obtain d where d: "d < n" "i = probe_index bits hash (Suc p + d)" "stop i"
      "\<forall>e<d. \<not> stop (probe_index bits hash (Suc p + e))"
      using Suc.IH [of "Suc p"] by (auto simp: Let_def)
    have "\<not> stop (probe_index bits hash (p + e))" if "e < Suc d" for e
      using that d(4) False by (cases e) auto
    with d show ?thesis by (intro exI [of _ "Suc d"]) simp
  qed
qed

lemma probe_loop_None:
  "probe_loop bits stop hash p n = None \<longleftrightarrow> (\<forall>d<n. \<not> stop (probe_index bits hash (p + d)))"
proof (induction n arbitrary: p)
  case 0
  then show ?case by simp
next
  case (Suc n)
  then show ?case by (auto simp: Let_def All_less_Suc2)
qed

lemma probe_loop_hit:
  assumes "d < n" and "stop (probe_index bits hash (p + d))"
    and "\<forall>e<d. \<not> stop (probe_index bits hash (p + e))"
  shows "probe_loop bits stop hash p n = Some (probe_index bits hash (p + d))"
  using assms
proof (induction n arbitrary: p d)
  case 0
  then show ?case by simp
next
  case (Suc n)
  then show ?case
  proof (cases d)
    case 0
    with Suc.prems show ?thesis by (simp add: Let_def)
  next
    case (Suc d')
    have "\<not> stop (probe_index bits hash (p + 0))"
      using Suc.prems(3) Suc by blast
    then have n0: "\<not> stop (probe_index bits hash p)" by simp
    have "\<forall>e<d'. \<not> stop (probe_index bits hash (Suc p + e))"
      using Suc.prems(3) Suc by auto
    moreover have "d' < n" and "stop (probe_index bits hash (Suc p + d'))"
      using Suc.prems Suc by simp_all
    ultimately have "probe_loop bits stop hash (Suc p) n = Some (probe_index bits hash (Suc p + d'))"
      by (intro Suc.IH)
    with n0 Suc show ?thesis by (simp add: Let_def)
  qed
qed

text \<open>
  The loop of \<open>aggregate_at\<close>: \<open>if (used && wanted-- == 0) return slot\<close>.
\<close>

primrec nth_used :: "('s \<Rightarrow> bool) \<Rightarrow> 's list \<Rightarrow> nat \<Rightarrow> 's option" where
  "nth_used used [] wanted = None"
| "nth_used used (s # slots) wanted =
     (if used s then if wanted = 0 then Some s else nth_used used slots (wanted - 1)
      else nth_used used slots wanted)"

lemma nth_used_filter:
  "nth_used used slots w = (if w < length (filter used slots) then Some (filter used slots ! w) else None)"
proof (induction slots arbitrary: w)
  case Nil
  then show ?case by simp
next
  case (Cons s slots)
  then show ?case by (cases w) auto
qed

section \<open>Tables\<close>

text \<open>
  The invariant of a table: it has its capacity; a used slot carries the hash of its key and
  is reached from that hash over used slots only; no two used slots share a key.
\<close>

definition table_ok :: "nat \<Rightarrow> ('s \<Rightarrow> bool) \<Rightarrow> ('s \<Rightarrow> 'k) \<Rightarrow> ('s \<Rightarrow> u64) \<Rightarrow> ('k \<Rightarrow> u64) \<Rightarrow> 's list \<Rightarrow> bool" where
  "table_ok bits used key slot_hash khash tbl \<longleftrightarrow>
     length tbl = 2 ^ bits \<and>
     (\<forall>i<2 ^ bits. used (tbl ! i) \<longrightarrow>
        slot_hash (tbl ! i) = khash (key (tbl ! i)) \<and>
        (\<exists>d<2 ^ bits. i = probe_index bits (khash (key (tbl ! i))) d \<and>
           (\<forall>e<d. used (tbl ! probe_index bits (khash (key (tbl ! i))) e)))) \<and>
     (\<forall>i<2 ^ bits. \<forall>j<2 ^ bits.
        used (tbl ! i) \<and> used (tbl ! j) \<and> key (tbl ! i) = key (tbl ! j) \<longrightarrow> i = j)"


locale open_table =
  fixes bits :: nat
    and used :: "'s \<Rightarrow> bool"
    and key :: "'s \<Rightarrow> 'k"
    and slot_hash :: "'s \<Rightarrow> u64"
    and khash :: "'k \<Rightarrow> u64"
    and matches :: "'k \<Rightarrow> 's \<Rightarrow> bool"
  assumes bits_le: "bits \<le> 64"
    and matches_iff: "used s \<Longrightarrow> matches k s \<longleftrightarrow> slot_hash s = khash k \<and> key s = k"
begin

abbreviation ok :: "'s list \<Rightarrow> bool" where
  "ok \<equiv> table_ok bits used key slot_hash khash"

abbreviation slot_for :: "'k \<Rightarrow> 's list \<Rightarrow> nat option" where
  "slot_for k tbl \<equiv> find_slot bits used (matches k) tbl (khash k)"

abbreviation slot_idx :: "u64 \<Rightarrow> nat \<Rightarrow> nat" where
  "slot_idx \<equiv> probe_index bits"

lemma slot_idx_less [simp]: "slot_idx h d < 2 ^ bits"
  by (rule probe_index_less) (rule bits_le)

lemma ok_length: "ok tbl \<Longrightarrow> length tbl = 2 ^ bits"
  by (simp add: table_ok_def)

lemma ok_hash: "ok tbl \<Longrightarrow> i < 2 ^ bits \<Longrightarrow> used (tbl ! i) \<Longrightarrow>
    slot_hash (tbl ! i) = khash (key (tbl ! i))"
  by (simp add: table_ok_def)

lemma ok_path: "ok tbl \<Longrightarrow> i < 2 ^ bits \<Longrightarrow> used (tbl ! i) \<Longrightarrow>
    \<exists>d<2 ^ bits. i = slot_idx (khash (key (tbl ! i))) d \<and>
      (\<forall>e<d. used (tbl ! slot_idx (khash (key (tbl ! i))) e))"
  by (simp add: table_ok_def)

lemma ok_unique: "ok tbl \<Longrightarrow> i < 2 ^ bits \<Longrightarrow> j < 2 ^ bits \<Longrightarrow> used (tbl ! i) \<Longrightarrow>
    used (tbl ! j) \<Longrightarrow> key (tbl ! i) = key (tbl ! j) \<Longrightarrow> i = j"
  by (simp add: table_ok_def)

lemma ok_empty: "length tbl = 2 ^ bits \<Longrightarrow> \<forall>s\<in>set tbl. \<not> used s \<Longrightarrow> ok tbl"
  by (auto simp: table_ok_def)

text \<open>A used slot stops the loop for a key exactly when it holds that key.\<close>

lemma used_matches: "ok tbl \<Longrightarrow> i < 2 ^ bits \<Longrightarrow> used (tbl ! i) \<Longrightarrow>
    matches k (tbl ! i) \<longleftrightarrow> key (tbl ! i) = k"
  using ok_hash by (auto simp: matches_iff)

lemma slot_for_bound: "slot_for k tbl = Some i \<Longrightarrow> i < 2 ^ bits"
  unfolding find_slot_def by (auto dest!: probe_loop_Some)

lemma slot_for_present:
  assumes ok: "ok tbl" and i: "i < 2 ^ bits" and u: "used (tbl ! i)" and k: "key (tbl ! i) = k"
  shows "slot_for k tbl = Some i"
proof -
  let ?stop = "\<lambda>i. \<not> used (tbl ! i) \<or> matches k (tbl ! i)"
  from ok_path [OF ok i u] k obtain d where d: "d < 2 ^ bits" "i = slot_idx (khash k) d"
    and path: "\<And>e. e < d \<Longrightarrow> used (tbl ! slot_idx (khash k) e)"
    by auto
  define d0 where "d0 = (LEAST e. slot_idx (khash k) e = i)"
  have hit: "slot_idx (khash k) d0 = i" and le: "d0 \<le> d"
    unfolding d0_def using d(2) [symmetric] by (auto intro: LeastI Least_le)
  have "\<not> ?stop (slot_idx (khash k) e)" if e: "e < d0" for e
  proof -
    have ne: "slot_idx (khash k) e \<noteq> i"
      using e not_less_Least unfolding d0_def by blast
    have us: "used (tbl ! slot_idx (khash k) e)"
      using e le by (intro path) simp
    have "key (tbl ! slot_idx (khash k) e) \<noteq> k"
      using ok_unique [OF ok slot_idx_less i us u] ne k by blast
    then show ?thesis
      using us used_matches [OF ok slot_idx_less us] by simp
  qed
  then have "probe_loop bits ?stop (khash k) 0 (2 ^ bits) = Some (slot_idx (khash k) (0 + d0))"
    using d(1) le hit used_matches [OF ok i u] k by (intro probe_loop_hit) auto
  then show ?thesis using hit by (simp add: find_slot_def)
qed

lemma slot_for_used:
  assumes "ok tbl" and "slot_for k tbl = Some i" and "used (tbl ! i)"
  shows "key (tbl ! i) = k"
  using assms slot_for_bound [OF assms(2)] used_matches [OF assms(1)]
  unfolding find_slot_def by (auto dest!: probe_loop_Some)

text \<open>The loop stops at a free slot only for a key that no slot holds.\<close>

lemma slot_for_free:
  assumes "ok tbl" and "slot_for k tbl = Some i" and "\<not> used (tbl ! i)"
  shows "\<forall>j<2 ^ bits. used (tbl ! j) \<longrightarrow> key (tbl ! j) \<noteq> k"
  using slot_for_present [OF assms(1)] assms(2,3) by fastforce

text \<open>The loop fails only when every slot is used and none holds the key.\<close>

lemma slot_for_None:
  assumes "ok tbl"
  shows "slot_for k tbl = None \<longleftrightarrow> (\<forall>i<2 ^ bits. used (tbl ! i) \<and> key (tbl ! i) \<noteq> k)"
proof
  assume "slot_for k tbl = None"
  then have "\<forall>d<2 ^ bits. used (tbl ! slot_idx (khash k) d) \<and> \<not> matches k (tbl ! slot_idx (khash k) d)"
    by (simp add: find_slot_def probe_loop_None)
  then show "\<forall>i<2 ^ bits. used (tbl ! i) \<and> key (tbl ! i) \<noteq> k"
    using probe_index_onto [OF bits_le, of _ "khash k"] used_matches [OF assms] by metis
next
  assume a: "\<forall>i<2 ^ bits. used (tbl ! i) \<and> key (tbl ! i) \<noteq> k"
  then show "slot_for k tbl = None"
    using used_matches [OF assms] by (simp add: find_slot_def probe_loop_None)
qed

text \<open>Filling the free slot the loop found, and rewriting a slot in place, keep the table.\<close>

lemma ok_insert:
  assumes ok: "ok tbl" and f: "slot_for k tbl = Some i" and free: "\<not> used (tbl ! i)"
    and s: "used s" "key s = k" "slot_hash s = khash k"
  shows "ok (tbl[i := s])"
proof -
  note i = slot_for_bound [OF f]
  note len = ok_length [OF ok]
  have absent: "\<And>j. j < 2 ^ bits \<Longrightarrow> used (tbl ! j) \<Longrightarrow> key (tbl ! j) \<noteq> k"
    using slot_for_free [OF ok f free] by blast
  have mono: "used (tbl ! j) \<Longrightarrow> used (tbl[i := s] ! j)" if "j < 2 ^ bits" for j
    using that i len s by (cases "j = i") auto
  from f obtain d where d: "d < 2 ^ bits" "i = slot_idx (khash k) d"
    and path: "\<And>e. e < d \<Longrightarrow> used (tbl ! slot_idx (khash k) e)"
    unfolding find_slot_def by (auto dest!: probe_loop_Some)
  have "slot_hash (tbl[i := s] ! j) = khash (key (tbl[i := s] ! j)) \<and>
        (\<exists>d<2 ^ bits. j = slot_idx (khash (key (tbl[i := s] ! j))) d \<and>
          (\<forall>e<d. used (tbl[i := s] ! slot_idx (khash (key (tbl[i := s] ! j))) e)))"
    if j: "j < 2 ^ bits" and u: "used (tbl[i := s] ! j)" for j
  proof (cases "j = i")
    case True
    then show ?thesis using d path s i len mono by auto
  next
    case False
    with u have "used (tbl ! j)" by simp
    from ok_path [OF ok j this] ok_hash [OF ok j this] False show ?thesis
      using mono [OF slot_idx_less] by auto
  qed
  moreover have "j = j'" if "j < 2 ^ bits" "j' < 2 ^ bits" "used (tbl[i := s] ! j)"
    "used (tbl[i := s] ! j')" "key (tbl[i := s] ! j) = key (tbl[i := s] ! j')" for j j'
    using that ok_unique [OF ok, of j j'] absent s i len
    by (cases "j = i"; cases "j' = i") auto
  ultimately show ?thesis
    using len by (simp add: table_ok_def)
qed

lemma ok_rewrite:
  assumes ok: "ok tbl" and i: "i < 2 ^ bits" and u: "used (tbl ! i)"
    and s: "used s" "key s = key (tbl ! i)" "slot_hash s = slot_hash (tbl ! i)"
  shows "ok (tbl[i := s])"
proof -
  note len = ok_length [OF ok]
  have same: "used (tbl[i := s] ! j) = used (tbl ! j)" "key (tbl[i := s] ! j) = key (tbl ! j)"
    "slot_hash (tbl[i := s] ! j) = slot_hash (tbl ! j)" if "j < 2 ^ bits" for j
    using that i u s len by (auto simp: nth_list_update)
  show ?thesis
    unfolding table_ok_def using ok len
    by (auto simp: same table_ok_def)
qed

end

end
