(* ===== verification/Runtime_Types.thy ===== *)
theory Runtime_Types
  imports Luaprof_Prelude
begin

text \<open>
  The data types of \<open>include/luaprof/runtime.h\<close>: frames as captured from the VM, statistics,
  collector configuration, status codes and the views a stopped recording hands out.

  A \<open>const char *\<close> with its length is the list of bytes readable at the pointer (\<open>None\<close> for a
  null pointer) beside the length field, which the code reads on its own. The \<open>lp_vm_state\<close>
  and \<open>lp_collector_kind\<close> values are kept as machine words because the code tests them
  for being out of range.
\<close>

datatype lp_frame_kind = LP_FRAME_LUA | LP_FRAME_C

primrec frame_kind_code :: "lp_frame_kind \<Rightarrow> c_int" where
  "frame_kind_code LP_FRAME_LUA = 0"
| "frame_kind_code LP_FRAME_C = 1"

lemma frame_kind_code_inj: "frame_kind_code a = frame_kind_code b \<longleftrightarrow> a = b"
  by (cases a; cases b) simp_all

type_synonym lp_vm_state = c_int

abbreviation (input) LP_VM_HOST :: lp_vm_state where "LP_VM_HOST \<equiv> 0"
abbreviation (input) LP_VM_LUA :: lp_vm_state where "LP_VM_LUA \<equiv> 1"
abbreviation (input) LP_VM_C :: lp_vm_state where "LP_VM_C \<equiv> 2"
abbreviation (input) LP_VM_GC :: lp_vm_state where "LP_VM_GC \<equiv> 3"

type_synonym lp_collector_kind = c_int

abbreviation (input) LP_COLLECTOR_CPU :: lp_collector_kind where "LP_COLLECTOR_CPU \<equiv> 0"
abbreviation (input) LP_COLLECTOR_MEMORY :: lp_collector_kind where "LP_COLLECTOR_MEMORY \<equiv> 1"
abbreviation (input) LP_COLLECTOR_COUNT :: lp_collector_kind where "LP_COLLECTOR_COUNT \<equiv> 2"

datatype lp_status =
    LP_OK | LP_ERR_ARGUMENT | LP_ERR_BUSY | LP_ERR_INACTIVE | LP_ERR_STALE
  | LP_ERR_HOST | LP_ERR_CLOSED | LP_ERR_NOMEM

record lp_stack_frame =
  fr_kind :: lp_frame_kind
  fr_function :: pointer
  fr_cfunction :: pointer
  fr_source :: "bytes option"
  fr_source_length :: u64
  fr_name :: "bytes option"
  fr_name_length :: u64
  fr_linedefined :: c_int
  fr_currentline :: c_int

text \<open>\<open>lp_frame_view\<close> (and its two typedefs) has the fields of \<open>lp_stack_frame\<close>.\<close>

type_synonym lp_frame_view = lp_stack_frame

definition zero_frame :: lp_stack_frame where
  "zero_frame = \<lparr>fr_kind = LP_FRAME_LUA, fr_function = NULL, fr_cfunction = NULL,
     fr_source = None, fr_source_length = 0, fr_name = None, fr_name_length = 0,
     fr_linedefined = 0, fr_currentline = 0\<rparr>"

text \<open>The pointers of a frame are readable for the lengths that go with them.\<close>

definition frame_readable :: "lp_stack_frame \<Rightarrow> bool" where
  "frame_readable f \<longleftrightarrow>
     (\<forall>bs. fr_source f = Some bs \<longrightarrow> unat (fr_source_length f) \<le> length bs) \<and>
     (\<forall>bs. fr_name f = Some bs \<longrightarrow> unat (fr_name_length f) \<le> length bs)"

record lp_result_stats =
  st_safe_points :: u64
  st_pending_weight :: u64
  st_state_host :: u64
  st_state_lua :: u64
  st_state_c :: u64
  st_state_gc :: u64
  st_allocations :: u64
  st_reallocations :: u64
  st_frees :: u64
  st_allocation_failures :: u64
  st_memory_samples :: u64
  st_sampled_alloc_bytes :: u64
  st_alloc_space :: u64
  st_alloc_objects :: u64
  st_inuse_space :: u64
  st_inuse_objects :: u64
  st_live_map_overflows :: u64
  st_samples :: u64
  st_sample_host :: u64
  st_sample_lua :: u64
  st_sample_c :: u64
  st_sample_gc :: u64
  st_overrun_events :: u64
  st_overrun_ticks :: u64
  st_dropped_events :: u64
  st_unstable_events :: u64
  st_profiler_overhead_events :: u64
  st_stale_events :: u64
  st_timer_failures :: u64
  st_scheduler_workers :: u64
  st_stack_truncations :: u64
  st_aggregate_overflows :: u64
  st_symbol_overflows :: u64

definition zero_stats :: lp_result_stats where
  "zero_stats = \<lparr>st_safe_points = 0, st_pending_weight = 0, st_state_host = 0,
     st_state_lua = 0, st_state_c = 0, st_state_gc = 0, st_allocations = 0,
     st_reallocations = 0, st_frees = 0, st_allocation_failures = 0, st_memory_samples = 0,
     st_sampled_alloc_bytes = 0, st_alloc_space = 0, st_alloc_objects = 0,
     st_inuse_space = 0, st_inuse_objects = 0, st_live_map_overflows = 0, st_samples = 0,
     st_sample_host = 0, st_sample_lua = 0, st_sample_c = 0, st_sample_gc = 0,
     st_overrun_events = 0, st_overrun_ticks = 0, st_dropped_events = 0,
     st_unstable_events = 0, st_profiler_overhead_events = 0, st_stale_events = 0,
     st_timer_failures = 0, st_scheduler_workers = 0, st_stack_truncations = 0,
     st_aggregate_overflows = 0, st_symbol_overflows = 0\<rparr>"

record lp_cpu_sample_view =
  csv_state :: lp_vm_state
  csv_cfunction :: pointer
  csv_weight :: u64
  csv_depth :: nat

record lp_memory_sample_view =
  msv_alloc_space :: u64
  msv_alloc_objects :: u64
  msv_inuse_space :: u64
  msv_inuse_objects :: u64
  msv_sampled_bytes :: u64
  msv_sample_count :: u64
  msv_depth :: nat

text \<open>
  The configuration union is a record with both members: the code reads the member that
  the kind selects.
\<close>

record lp_collector_config =
  cfg_kind :: lp_collector_kind
  cfg_sample_hz :: u32
  cfg_sample_bytes :: u64
  cfg_track_free :: bool

definition zero_config :: lp_collector_config where
  "zero_config = \<lparr>cfg_kind = 0, cfg_sample_hz = 0, cfg_sample_bytes = 0, cfg_track_free = False\<rparr>"

section \<open>Compact frames\<close>

text \<open>
  \<open>lp_compact_frame\<close> is declared alike in \<open>cpu_core.c\<close> and \<open>memory_core.c\<close>: two four-byte
  members without padding, so that \<open>memcmp\<close> over an array of them is equality.
\<close>

record lp_compact_frame =
  cf_symbol :: u32
  cf_currentline :: c_int

definition compact_frame_bytes :: "lp_compact_frame \<Rightarrow> bytes" where
  "compact_frame_bytes f = le_bytes 4 (cf_symbol f) @ le_bytes 4 (cf_currentline f)"

end
