(* ===== verification/Symbol_Store.thy ===== *)
theory Symbol_Store
  imports Open_Addressing Runtime_Types
begin

text \<open>
  The symbol tables of \<open>cpu_core.c\<close> and \<open>memory_core.c\<close>. The two files declare the same
  structure (\<open>lp_cpu_symbol\<close> and \<open>lp_memory_symbol\<close>), the same limits and the same
  \<open>frame_hash\<close>, \<open>symbol_matches\<close> and \<open>intern_symbol\<close>; both profiles keep a
  \<open>lp_symbol_store\<close>: the symbol slots, the bounded text area with its fill level and its
  \<open>sources_full\<close> flag, and the counter \<open>stats.symbol_overflows\<close>.

  Shown here: interning keeps the store well formed; an id names exactly one symbol key,
  is never reassigned and always leads back to the frame's identity; the text area is
  never overrun and stored text never changes; id 0 is returned only when the table is full.
\<close>

definition SYMBOL_CAPACITY_BITS :: nat where "SYMBOL_CAPACITY_BITS = 12"
definition SYMBOL_CAPACITY :: nat where "SYMBOL_CAPACITY = 4096"
definition SOURCE_CAPACITY :: nat where "SOURCE_CAPACITY = 256 * 1024"
definition MAX_SOURCE_LENGTH :: nat where "MAX_SOURCE_LENGTH = 1024"
definition MAX_NAME_LENGTH :: nat where "MAX_NAME_LENGTH = 255"

abbreviation (input) LP_NO_SOURCE :: u32 where "LP_NO_SOURCE \<equiv> - 1"

lemmas store_limits = SYMBOL_CAPACITY_BITS_def SYMBOL_CAPACITY_def SOURCE_CAPACITY_def
  MAX_SOURCE_LENGTH_def MAX_NAME_LENGTH_def

record lp_symbol =
  sym_hash :: u64
  sym_function :: pointer
  sym_cfunction :: pointer
  sym_source_hash :: u64
  sym_original_source_length :: u64
  sym_source_offset :: u32
  sym_source_length :: u16
  sym_name_offset :: u32
  sym_name_length :: u16
  sym_linedefined :: c_int
  sym_kind :: lp_frame_kind
  sym_used :: bool

definition zero_symbol :: lp_symbol where
  "zero_symbol = \<lparr>sym_hash = 0, sym_function = NULL, sym_cfunction = NULL,
     sym_source_hash = 0, sym_original_source_length = 0, sym_source_offset = 0,
     sym_source_length = 0, sym_name_offset = 0, sym_name_length = 0, sym_linedefined = 0,
     sym_kind = LP_FRAME_LUA, sym_used = False\<rparr>"

record lp_symbol_store =
  ss_symbols :: "lp_symbol list"
  ss_sources :: bytes
  ss_source_used :: nat
  ss_sources_full :: bool
  ss_overflows :: u64

text \<open>The fresh store: zeroed slots and a text area nothing has been written to.\<close>

definition new_store :: lp_symbol_store where
  "new_store = \<lparr>ss_symbols = replicate SYMBOL_CAPACITY zero_symbol, ss_sources = [],
     ss_source_used = 0, ss_sources_full = False, ss_overflows = 0\<rparr>"

section \<open>Hashing and matching a frame\<close>

text \<open>The hash of the source text, of which at most \<open>MAX_SOURCE_LENGTH\<close> bytes count.\<close>

definition frame_source_hash :: "lp_stack_frame \<Rightarrow> u64" where
  "frame_source_hash frame =
     (case fr_source frame of
        None \<Rightarrow> fnv_offset
      | Some source \<Rightarrow>
          if fr_source_length frame = 0 then fnv_offset
          else let hash_length = (if unat (fr_source_length frame) > MAX_SOURCE_LENGTH
                                  then MAX_SOURCE_LENGTH else unat (fr_source_length frame))
               in hash_bytes fnv_offset (take hash_length source))"

definition frame_hash :: "lp_stack_frame \<Rightarrow> u64 \<Rightarrow> u64" where
  "frame_hash frame source_hash =
     (let h = fnv_offset;
          h = hash_bytes h (le_bytes 4 (frame_kind_code (fr_kind frame)));
          h = hash_bytes h (le_bytes 8 (fr_function frame));
          h = hash_bytes h (le_bytes 8 (fr_cfunction frame));
          h = hash_bytes h (le_bytes 4 (fr_linedefined frame));
          h = hash_bytes h (le_bytes 8 (fr_source_length frame))
      in hash_bytes h (le_bytes 8 source_hash))"

definition symbol_matches :: "lp_symbol \<Rightarrow> lp_stack_frame \<Rightarrow> u64 \<Rightarrow> bool" where
  "symbol_matches symbol frame source_hash \<longleftrightarrow>
     sym_kind symbol = fr_kind frame \<and>
     sym_function symbol = fr_function frame \<and>
     sym_cfunction symbol = fr_cfunction frame \<and>
     sym_linedefined symbol = fr_linedefined frame \<and>
     sym_original_source_length symbol = fr_source_length frame \<and>
     sym_source_hash symbol = source_hash"

section \<open>Copying text\<close>

text \<open>
  The block that \<open>intern_symbol\<close> runs for the source and again for the name: the copied
  text's offset and length (\<open>LP_NO_SOURCE\<close> and 0 when nothing is stored).
\<close>

definition store_text ::
  "nat \<Rightarrow> bytes option \<Rightarrow> u64 \<Rightarrow> lp_symbol_store \<Rightarrow> lp_symbol_store \<times> u32 \<times> u16" where
  "store_text max_length txt txt_length store =
     (case txt of
        None \<Rightarrow> (store, LP_NO_SOURCE, 0)
      | Some data \<Rightarrow>
          if txt_length = 0 \<or> ss_sources_full store then (store, LP_NO_SOURCE, 0)
          else
            let too_long = unat txt_length > max_length;
                copy_length = (if too_long then max_length else unat txt_length);
                store1 = (if too_long
                          then store\<lparr>ss_overflows := saturating_add (ss_overflows store) 1\<rparr>
                          else store)
            in if copy_length + 1 \<le> SOURCE_CAPACITY - ss_source_used store1
               then (store1\<lparr>ss_sources := write_at (ss_source_used store1)
                              (take copy_length data @ [0]) (ss_sources store1),
                            ss_source_used := ss_source_used store1 + copy_length + 1\<rparr>,
                     of_nat (ss_source_used store1), of_nat copy_length)
               else (store1\<lparr>ss_sources_full := True,
                            ss_overflows := saturating_add (ss_overflows store1) 1\<rparr>,
                     LP_NO_SOURCE, 0))"

section \<open>Interning\<close>

text \<open>The fields written into a free slot.\<close>

definition fill_symbol ::
  "lp_stack_frame \<Rightarrow> u64 \<Rightarrow> u64 \<Rightarrow> u32 \<Rightarrow> u16 \<Rightarrow> u32 \<Rightarrow> u16 \<Rightarrow> lp_symbol" where
  "fill_symbol frame hash source_hash source_offset source_length name_offset name_length =
     \<lparr>sym_hash = hash, sym_function = fr_function frame,
      sym_cfunction = fr_cfunction frame, sym_source_hash = source_hash,
      sym_original_source_length = fr_source_length frame,
      sym_source_offset = source_offset, sym_source_length = source_length,
      sym_name_offset = name_offset, sym_name_length = name_length,
      sym_linedefined = fr_linedefined frame, sym_kind = fr_kind frame, sym_used = True\<rparr>"

definition intern_symbol :: "lp_symbol_store \<Rightarrow> lp_stack_frame \<Rightarrow> lp_symbol_store \<times> u32" where
  "intern_symbol store frame =
     (let source_hash = frame_source_hash frame;
          hash = frame_hash frame source_hash
      in case find_slot SYMBOL_CAPACITY_BITS sym_used
                (\<lambda>symbol. sym_hash symbol = hash \<and> symbol_matches symbol frame source_hash)
                (ss_symbols store) hash of
           None \<Rightarrow> (store\<lparr>ss_overflows := saturating_add (ss_overflows store) 1\<rparr>, 0)
         | Some index \<Rightarrow>
             if sym_used (ss_symbols store ! index) then (store, of_nat index + 1)
             else
               let (store1, source_offset, source_length) =
                     store_text MAX_SOURCE_LENGTH (fr_source frame) (fr_source_length frame) store;
                   (store2, name_offset, name_length) =
                     store_text MAX_NAME_LENGTH (fr_name frame) (fr_name_length frame) store1;
                   symbol = fill_symbol frame hash source_hash source_offset source_length
                              name_offset name_length
               in (store2\<lparr>ss_symbols := (ss_symbols store2)[index := symbol]\<rparr>, of_nat index + 1))"

section \<open>Reading a symbol back\<close>

text \<open>A stored text as the view sees it: pointer into the text area and length.\<close>

definition stored_text :: "lp_symbol_store \<Rightarrow> u32 \<Rightarrow> u16 \<Rightarrow> bytes option" where
  "stored_text store offset len =
     (if offset = LP_NO_SOURCE then None
      else Some (read_at (unat offset) (unat len) (ss_sources store)))"

definition symbol_view :: "lp_symbol_store \<Rightarrow> lp_symbol \<Rightarrow> c_int \<Rightarrow> lp_frame_view" where
  "symbol_view store symbol currentline =
     \<lparr>fr_kind = sym_kind symbol, fr_function = sym_function symbol,
      fr_cfunction = sym_cfunction symbol,
      fr_source = stored_text store (sym_source_offset symbol) (sym_source_length symbol),
      fr_source_length = (if sym_source_offset symbol = LP_NO_SOURCE then 0
                          else ucast (sym_source_length symbol)),
      fr_name = stored_text store (sym_name_offset symbol) (sym_name_length symbol),
      fr_name_length = (if sym_name_offset symbol = LP_NO_SOURCE then 0
                        else ucast (sym_name_length symbol)),
      fr_linedefined = sym_linedefined symbol, fr_currentline = currentline\<rparr>"

section \<open>The key of a symbol\<close>

text \<open>
  What \<open>symbol_matches\<close> compares: kind, function, C function, line of definition, source
  length and source hash. The frame hash is a function of it.
\<close>

type_synonym symbol_key = "lp_frame_kind \<times> pointer \<times> pointer \<times> c_int \<times> u64 \<times> u64"

definition sym_key :: "lp_symbol \<Rightarrow> symbol_key" where
  "sym_key s = (sym_kind s, sym_function s, sym_cfunction s, sym_linedefined s,
     sym_original_source_length s, sym_source_hash s)"

definition frame_key :: "lp_stack_frame \<Rightarrow> symbol_key" where
  "frame_key f = (fr_kind f, fr_function f, fr_cfunction f, fr_linedefined f,
     fr_source_length f, frame_source_hash f)"

fun key_hash :: "symbol_key \<Rightarrow> u64" where
  "key_hash (kind, function, cfunction, linedefined, source_length, source_hash) =
     hash_bytes (hash_bytes (hash_bytes (hash_bytes (hash_bytes (hash_bytes fnv_offset
       (le_bytes 4 (frame_kind_code kind))) (le_bytes 8 function)) (le_bytes 8 cfunction))
       (le_bytes 4 linedefined)) (le_bytes 8 source_length)) (le_bytes 8 source_hash)"

definition key_matches :: "symbol_key \<Rightarrow> lp_symbol \<Rightarrow> bool" where
  "key_matches k s \<longleftrightarrow> sym_hash s = key_hash k \<and> sym_key s = k"

lemma frame_hash_key: "frame_hash f (frame_source_hash f) = key_hash (frame_key f)"
  by (simp add: frame_hash_def frame_key_def Let_def)

lemma symbol_matches_key:
  "symbol_matches s f (frame_source_hash f) \<longleftrightarrow> sym_key s = frame_key f"
  by (auto simp: symbol_matches_def sym_key_def frame_key_def)

interpretation symtab: open_table SYMBOL_CAPACITY_BITS sym_used sym_key sym_hash key_hash key_matches
  by unfold_locales (simp_all add: SYMBOL_CAPACITY_BITS_def key_matches_def)

lemma intern_slot:
  "find_slot SYMBOL_CAPACITY_BITS sym_used
     (\<lambda>s. sym_hash s = frame_hash f (frame_source_hash f) \<and> symbol_matches s f (frame_source_hash f))
     tbl (frame_hash f (frame_source_hash f)) = symtab.slot_for (frame_key f) tbl"
  by (simp add: frame_hash_key symbol_matches_key key_matches_def [abs_def])

section \<open>The store's invariant\<close>

text \<open>A text reference is null or lies, with its terminating NUL, in the written area.\<close>

definition text_ok :: "bytes \<Rightarrow> nat \<Rightarrow> u32 \<Rightarrow> u16 \<Rightarrow> bool" where
  "text_ok area max_length offset len \<longleftrightarrow>
     offset = LP_NO_SOURCE \<or>
     (unat offset + unat len < length area \<and> unat len \<le> max_length \<and>
      area ! (unat offset + unat len) = 0)"

definition symbol_text_ok :: "bytes \<Rightarrow> lp_symbol \<Rightarrow> bool" where
  "symbol_text_ok area s \<longleftrightarrow>
     text_ok area MAX_SOURCE_LENGTH (sym_source_offset s) (sym_source_length s) \<and>
     text_ok area MAX_NAME_LENGTH (sym_name_offset s) (sym_name_length s)"

definition store_ok :: "lp_symbol_store \<Rightarrow> bool" where
  "store_ok store \<longleftrightarrow>
     table_ok SYMBOL_CAPACITY_BITS sym_used sym_key sym_hash key_hash (ss_symbols store) \<and>
     length (ss_sources store) = ss_source_used store \<and>
     ss_source_used store \<le> SOURCE_CAPACITY \<and>
     (\<forall>s\<in>set (ss_symbols store). sym_used s \<longrightarrow> symbol_text_ok (ss_sources store) s)"

text \<open>What a later state keeps: written text, and every symbol in use.\<close>

definition store_extends :: "lp_symbol_store \<Rightarrow> lp_symbol_store \<Rightarrow> bool" where
  "store_extends store store' \<longleftrightarrow>
     (\<exists>added. ss_sources store' = ss_sources store @ added) \<and>
     (\<forall>i<SYMBOL_CAPACITY. sym_used (ss_symbols store ! i) \<longrightarrow>
        ss_symbols store' ! i = ss_symbols store ! i) \<and>
     ss_overflows store \<le> ss_overflows store'"

lemma capacity_bits: "2 ^ SYMBOL_CAPACITY_BITS = SYMBOL_CAPACITY"
  by (simp add: store_limits)

lemma store_ok_table: "store_ok s \<Longrightarrow> symtab.ok (ss_symbols s)"
  and store_ok_length: "store_ok s \<Longrightarrow> length (ss_symbols s) = SYMBOL_CAPACITY"
  by (auto simp: store_ok_def table_ok_def capacity_bits)

lemma new_store_ok: "store_ok new_store"
  by (simp add: store_ok_def new_store_def zero_symbol_def symtab.ok_empty capacity_bits)

lemma store_extends_refl [simp]: "store_extends s s"
  by (simp add: store_extends_def)

lemma store_extends_trans:
  "store_extends a b \<Longrightarrow> store_extends b c \<Longrightarrow> store_extends a c"
  unfolding store_extends_def by (metis append.assoc order_trans)

lemma text_ok_append: "text_ok area m off len \<Longrightarrow> text_ok (area @ added) m off len"
  by (auto simp: text_ok_def nth_append)

lemma symbol_text_ok_append: "symbol_text_ok area s \<Longrightarrow> symbol_text_ok (area @ added) s"
  by (simp add: symbol_text_ok_def text_ok_append)

section \<open>What copying a text does\<close>

text \<open>The four facts later proofs use about \<open>store_text\<close>, for the two limits in use.\<close>

lemma unat_of_nat_offset:
  assumes "n \<le> SOURCE_CAPACITY"
  shows "unat (of_nat n :: u32) = n" and "(of_nat n :: u32) \<noteq> LP_NO_SOURCE"
proof -
  have small: "n < 2 ^ 32" using assms by (simp add: store_limits)
  then show u: "unat (of_nat n :: u32) = n" by (simp add: unat_of_nat)
  show "(of_nat n :: u32) \<noteq> LP_NO_SOURCE"
  proof
    assume "(of_nat n :: u32) = LP_NO_SOURCE"
    then have "n = unat (LP_NO_SOURCE :: u32)" using u by simp
    also have "\<dots> = 4294967295" by (simp add: unsigned_minus_1_eq_mask mask_eq_exp_minus_1)
    finally show False using assms by (simp add: store_limits)
  qed
qed

lemma unat_of_nat_length: "n \<le> 1024 \<Longrightarrow> unat (of_nat n :: u16) = n"
  by (simp add: unat_of_nat)

lemma store_text_cases:
  assumes "store_text m txt n store = (store', off, len)"
    and "length (ss_sources store) = ss_source_used store"
  shows
    "(off = LP_NO_SOURCE \<and> len = 0 \<and> ss_sources store' = ss_sources store \<and>
        ss_source_used store' = ss_source_used store \<and>
        (txt = None \<or> n = 0 \<or> ss_sources_full store')) \<or>
     (\<exists>data. txt = Some data \<and> n \<noteq> 0 \<and>
        ss_source_used store + min m (unat n) + 1 \<le> SOURCE_CAPACITY \<and>
        ss_sources store' = ss_sources store @ take (min m (unat n)) data @ [0] \<and>
        ss_source_used store' = ss_source_used store + min m (unat n) + 1 \<and>
        off = of_nat (ss_source_used store) \<and> len = of_nat (min m (unat n)))"
  using assms
  by (auto simp: store_text_def Let_def write_at_end [of "ss_sources store", simplified assms(2)]
      min_def split: option.splits if_splits)

lemma store_text_frame:
  assumes "store_text m txt n store = (store', off, len)"
  shows "ss_symbols store' = ss_symbols store" and "ss_overflows store \<le> ss_overflows store'"
proof -
  have ge: "a \<le> saturating_add (saturating_add a 1) 1" for a
    using order_trans [OF saturating_add_ge saturating_add_ge] .
  show "ss_symbols store' = ss_symbols store"
    using assms by (auto simp: store_text_def Let_def split: option.splits if_splits)
  show "ss_overflows store \<le> ss_overflows store'"
    using assms ge saturating_add_ge
    by (auto simp: store_text_def Let_def split: option.splits if_splits)
qed

lemma store_text_ok:
  assumes st: "store_text m txt n store = (store', off, len)"
    and area: "length (ss_sources store) = ss_source_used store"
      "ss_source_used store \<le> SOURCE_CAPACITY"
    and readable: "\<forall>bs. txt = Some bs \<longrightarrow> unat n \<le> length bs" and m: "m \<le> 1024"
  shows "length (ss_sources store') = ss_source_used store'"
    and "ss_source_used store' \<le> SOURCE_CAPACITY"
    and "\<exists>added. ss_sources store' = ss_sources store @ added"
    and "text_ok (ss_sources store') m off len"
proof -
  let ?c = "min m (unat n)"
  have cap: "ss_source_used store + ?c + 1 \<le> SOURCE_CAPACITY \<Longrightarrow>
      unat (of_nat (ss_source_used store) :: u32) = ss_source_used store"
    by (intro unat_of_nat_offset) simp
  have len_c: "unat (of_nat ?c :: u16) = ?c"
    using m by (intro unat_of_nat_length) (simp add: min_le_iff_disj)
  from store_text_cases [OF st area(1)]
  show "length (ss_sources store') = ss_source_used store'"
    "ss_source_used store' \<le> SOURCE_CAPACITY"
    "\<exists>added. ss_sources store' = ss_sources store @ added"
    "text_ok (ss_sources store') m off len"
    using area readable cap len_c by (auto simp: text_ok_def nth_append)
qed

text \<open>
  Unless the area has filled up, the stored text is the frame's, cut at the limit.
\<close>

definition kept_text :: "nat \<Rightarrow> bytes option \<Rightarrow> u64 \<Rightarrow> bytes option" where
  "kept_text m txt n =
     (case txt of None \<Rightarrow> None
      | Some bs \<Rightarrow> if n = 0 then None else Some (take (min m (unat n)) bs))"

lemma store_text_content:
  assumes st: "store_text m txt n store = (store', off, len)"
    and area: "length (ss_sources store) = ss_source_used store"
      "ss_source_used store \<le> SOURCE_CAPACITY"
    and readable: "\<forall>bs. txt = Some bs \<longrightarrow> unat n \<le> length bs" and m: "m \<le> 1024"
    and open_area: "\<not> ss_sources_full store'"
  shows "stored_text store' off len = kept_text m txt n" and
    "off = LP_NO_SOURCE \<longleftrightarrow> kept_text m txt n = None" and
    "off \<noteq> LP_NO_SOURCE \<Longrightarrow> unat len = min m (unat n)"
proof -
  let ?c = "min m (unat n)"
  have len_c: "unat (of_nat ?c :: u16) = ?c"
    using m by (intro unat_of_nat_length) (simp add: min_le_iff_disj)
  have "(off = LP_NO_SOURCE \<and> kept_text m txt n = None) \<or>
    (off \<noteq> LP_NO_SOURCE \<and> unat len = ?c \<and> kept_text m txt n \<noteq> None \<and>
     stored_text store' off len = kept_text m txt n)"
    using store_text_cases [OF st area(1)]
  proof (elim disjE exE conjE)
    fix data
    assume d: "txt = Some data" "n \<noteq> 0" "ss_source_used store + ?c + 1 \<le> SOURCE_CAPACITY"
      "ss_sources store' = ss_sources store @ take ?c data @ [0]"
      "off = of_nat (ss_source_used store)" "len = of_nat ?c"
    have off: "unat off = length (ss_sources store)" "off \<noteq> LP_NO_SOURCE"
      using d unat_of_nat_offset [of "ss_source_used store"] area by auto
    have "?c \<le> length (take ?c data @ [0 :: u8])" using readable d(1) by auto
    from read_at_append_new [OF this, of "ss_sources store"]
    show ?thesis using d off readable len_c by (auto simp: stored_text_def kept_text_def)
  qed (use open_area in \<open>auto simp: kept_text_def split: option.split\<close>)
  then show "stored_text store' off len = kept_text m txt n"
    and "off = LP_NO_SOURCE \<longleftrightarrow> kept_text m txt n = None"
    and "off \<noteq> LP_NO_SOURCE \<Longrightarrow> unat len = min m (unat n)"
    by (auto simp: stored_text_def)
qed

section \<open>What interning does\<close>

text \<open>The three outcomes of \<open>intern_symbol\<close>: table full, symbol found, symbol inserted.\<close>

lemma intern_symbol_full:
  assumes "symtab.slot_for (frame_key f) (ss_symbols store) = None"
  shows "intern_symbol store f = (store\<lparr>ss_overflows := saturating_add (ss_overflows store) 1\<rparr>, 0)"
  using assms by (simp add: intern_symbol_def Let_def intern_slot)

lemma intern_symbol_found:
  assumes "symtab.slot_for (frame_key f) (ss_symbols store) = Some i" and "sym_used (ss_symbols store ! i)"
  shows "intern_symbol store f = (store, of_nat i + 1)"
  using assms by (simp add: intern_symbol_def Let_def intern_slot)

lemma intern_symbol_fresh:
  assumes "symtab.slot_for (frame_key f) (ss_symbols store) = Some i"
    and "\<not> sym_used (ss_symbols store ! i)"
  obtains store1 store2 so sl no nl symbol where
    "store_text MAX_SOURCE_LENGTH (fr_source f) (fr_source_length f) store = (store1, so, sl)"
    and "store_text MAX_NAME_LENGTH (fr_name f) (fr_name_length f) store1 = (store2, no, nl)"
    and "sym_key symbol = frame_key f" and "sym_hash symbol = key_hash (frame_key f)"
    and "sym_used symbol" and "sym_source_offset symbol = so" and "sym_source_length symbol = sl"
    and "sym_name_offset symbol = no" and "sym_name_length symbol = nl"
    and "intern_symbol store f =
      (store2\<lparr>ss_symbols := (ss_symbols store2)[i := symbol]\<rparr>, of_nat i + 1)"
proof -
  obtain store1 so sl where 1:
    "store_text MAX_SOURCE_LENGTH (fr_source f) (fr_source_length f) store = (store1, so, sl)"
    by (cases "store_text MAX_SOURCE_LENGTH (fr_source f) (fr_source_length f) store") auto
  obtain store2 no nl where 2:
    "store_text MAX_NAME_LENGTH (fr_name f) (fr_name_length f) store1 = (store2, no, nl)"
    by (cases "store_text MAX_NAME_LENGTH (fr_name f) (fr_name_length f) store1") auto
  let ?sym = "fill_symbol f (frame_hash f (frame_source_hash f)) (frame_source_hash f) so sl no nl"
  have "intern_symbol store f =
      (store2\<lparr>ss_symbols := (ss_symbols store2)[i := ?sym]\<rparr>, of_nat i + 1)"
    using assms by (simp add: intern_symbol_def Let_def intern_slot 1 2)
  then show ?thesis
    by (intro that [OF 1 2, of ?sym]) (simp_all add: fill_symbol_def sym_key_def frame_key_def
        frame_hash_key [unfolded frame_key_def])
qed

text \<open>Everything a caller needs, in one lemma.\<close>

lemma intern_symbol_correct:
  assumes ok: "store_ok store" and readable: "frame_readable f"
    and int: "intern_symbol store f = (store', sid)"
  shows "store_ok store' \<and> store_extends store store' \<and>
    (sid = 0 \<longleftrightarrow> symtab.slot_for (frame_key f) (ss_symbols store) = None) \<and>
    (sid \<noteq> 0 \<longrightarrow> unat sid - 1 < SYMBOL_CAPACITY \<and>
       symtab.slot_for (frame_key f) (ss_symbols store) = Some (unat sid - 1) \<and>
       sym_used (ss_symbols store' ! (unat sid - 1)) \<and>
       sym_key (ss_symbols store' ! (unat sid - 1)) = frame_key f)"
proof (cases "symtab.slot_for (frame_key f) (ss_symbols store)")
  case None
  then show ?thesis
    using int ok intern_symbol_full [OF None]
    by (auto simp: store_ok_def store_extends_def saturating_add_ge)
next
  case (Some i)
  note i = symtab.slot_for_bound [OF Some, unfolded capacity_bits]
  have sid: "unat (of_nat i + 1 :: u32) = Suc i"
    using i by (simp add: unat_word_ariths unat_of_nat store_limits)
  then have nz: "(of_nat i + 1 :: u32) \<noteq> 0" by (metis nat.distinct(1) unsigned_0)
  show ?thesis
  proof (cases "sym_used (ss_symbols store ! i)")
    case True
    with Some int ok sid nz i show ?thesis
      using symtab.slot_for_used [OF store_ok_table [OF ok] Some True]
      by (auto simp: intern_symbol_found)
  next
    case False
    from intern_symbol_fresh [OF Some False] obtain store1 store2 so sl no nl symbol where
      1: "store_text MAX_SOURCE_LENGTH (fr_source f) (fr_source_length f) store = (store1, so, sl)"
      and 2: "store_text MAX_NAME_LENGTH (fr_name f) (fr_name_length f) store1 = (store2, no, nl)"
      and sym: "sym_key symbol = frame_key f" "sym_hash symbol = key_hash (frame_key f)" "sym_used symbol"
        "sym_source_offset symbol = so" "sym_source_length symbol = sl"
        "sym_name_offset symbol = no" "sym_name_length symbol = nl"
      and eq: "intern_symbol store f =
        (store2\<lparr>ss_symbols := (ss_symbols store2)[i := symbol]\<rparr>, of_nat i + 1)" .
    have area: "length (ss_sources store) = ss_source_used store" "ss_source_used store \<le> SOURCE_CAPACITY"
      using ok by (auto simp: store_ok_def)
    have lim: "MAX_SOURCE_LENGTH \<le> 1024" "MAX_NAME_LENGTH \<le> 1024"
      by (simp_all add: store_limits)
    have r: "\<forall>bs. fr_source f = Some bs \<longrightarrow> unat (fr_source_length f) \<le> length bs"
      "\<forall>bs. fr_name f = Some bs \<longrightarrow> unat (fr_name_length f) \<le> length bs"
      using readable by (auto simp: frame_readable_def)
    note t1 = store_text_ok [OF 1 area r(1) lim(1)]
    note t2 = store_text_ok [OF 2 t1(1,2) r(2) lim(2)]
    have syms: "ss_symbols store2 = ss_symbols store"
      using store_text_frame(1) [OF 1] store_text_frame(1) [OF 2] by simp
    from t1(3) t2(3) obtain a1 a2 where
      a: "ss_sources store1 = ss_sources store @ a1" "ss_sources store2 = ss_sources store1 @ a2"
      by blast
    have fresh_ok: "symbol_text_ok (ss_sources store2) symbol"
      using t1(4) t2(4) sym a(2) by (simp add: symbol_text_ok_def text_ok_append)
    have len: "length (ss_symbols store) = SYMBOL_CAPACITY" using ok by (rule store_ok_length)
    have kept: "(ss_symbols store)[i := symbol] ! j = ss_symbols store ! j"
      if "sym_used (ss_symbols store ! j)" for j
      using that False by (cases "j = i") auto
    have "store_ok (store2\<lparr>ss_symbols := (ss_symbols store)[i := symbol]\<rparr>)"
      using symtab.ok_insert [OF store_ok_table [OF ok] Some False sym(3,1,2)] t2(1,2) fresh_ok a ok
      by (auto simp: store_ok_def symbol_text_ok_append dest!: set_update_subset_insert [THEN subsetD])
    moreover have "store_extends store (store2\<lparr>ss_symbols := (ss_symbols store)[i := symbol]\<rparr>)"
      using a False order_trans [OF store_text_frame(2) [OF 1] store_text_frame(2) [OF 2]]
      by (auto simp: store_extends_def kept)
    ultimately show ?thesis
      using int eq syms Some sid nz i sym len by auto
  qed
qed

lemmas intern_symbol_facts =
  intern_symbol_correct [THEN conjunct1]
  intern_symbol_correct [THEN conjunct2, THEN conjunct1]
  intern_symbol_correct [THEN conjunct2, THEN conjunct2, THEN conjunct1]
  intern_symbol_correct [THEN conjunct2, THEN conjunct2, THEN conjunct2, rule_format]

lemma stored_text_extends:
  assumes "store_extends store store'" and "text_ok (ss_sources store) m off len"
  shows "stored_text store' off len = stored_text store off len"
  using assms by (auto simp: store_extends_def text_ok_def stored_text_def read_at_append_old)

lemma symbol_view_extends:
  assumes "store_extends store store'" and "symbol_text_ok (ss_sources store) s"
  shows "symbol_view store' s line = symbol_view store s line"
  using assms
  by (auto simp: symbol_view_def symbol_text_ok_def dest!: stored_text_extends [OF assms(1)])

lemma used_symbol_text_ok:
  "store_ok store \<Longrightarrow> i < SYMBOL_CAPACITY \<Longrightarrow> sym_used (ss_symbols store ! i) \<Longrightarrow>
   symbol_text_ok (ss_sources store) (ss_symbols store ! i)"
  by (auto simp: store_ok_def table_ok_def capacity_bits)

text \<open>A symbol in use reads the same, text included, in every later store.\<close>

lemma symbol_view_stable:
  assumes "store_ok store" and "store_extends store store'" and "i < SYMBOL_CAPACITY"
    and "sym_used (ss_symbols store ! i)"
  shows "symbol_view store' (ss_symbols store' ! i) line = symbol_view store (ss_symbols store ! i) line"
  using assms symbol_view_extends [OF assms(2) used_symbol_text_ok [OF assms(1,3,4)]]
  by (simp add: store_extends_def)

text \<open>
  The frame a view shows for a freshly interned frame while the text area has room: the
  frame itself, its texts cut at the two limits, with the given current line.
\<close>

definition view_of_frame :: "lp_stack_frame \<Rightarrow> c_int \<Rightarrow> lp_frame_view" where
  "view_of_frame f line =
     (let source = kept_text MAX_SOURCE_LENGTH (fr_source f) (fr_source_length f);
          name = kept_text MAX_NAME_LENGTH (fr_name f) (fr_name_length f)
      in f\<lparr>fr_source := source,
           fr_source_length := (case source of None \<Rightarrow> 0 | Some bs \<Rightarrow> of_nat (length bs)),
           fr_name := name,
           fr_name_length := (case name of None \<Rightarrow> 0 | Some bs \<Rightarrow> of_nat (length bs)),
           fr_currentline := line\<rparr>)"

lemma kept_text_length:
  "kept_text m txt n = Some bs \<Longrightarrow> \<forall>bs. txt = Some bs \<longrightarrow> unat n \<le> length bs \<Longrightarrow>
   length bs = min m (unat n)"
  by (auto simp: kept_text_def split: option.splits if_splits)

lemma ucast_unat_length: "unat (len :: u16) = n \<Longrightarrow> (ucast len :: u64) = of_nat n"
  by (metis of_nat_unat)

lemma symbol_view_fresh:
  assumes ok: "store_ok store" and readable: "frame_readable f"
    and absent: "\<forall>i<SYMBOL_CAPACITY. sym_used (ss_symbols store ! i) \<longrightarrow> sym_key (ss_symbols store ! i) \<noteq> frame_key f"
    and int: "intern_symbol store f = (store', sid)" "sid \<noteq> 0"
    and room: "\<not> ss_sources_full store'"
  shows "symbol_view store' (ss_symbols store' ! (unat sid - 1)) line = view_of_frame f line"
proof -
  note slot = intern_symbol_facts(4) [OF ok readable int]
  let ?i = "unat sid - 1"
  have i: "?i < SYMBOL_CAPACITY" using slot by simp
  have free: "\<not> sym_used (ss_symbols store ! ?i)"
    using absent slot symtab.slot_for_used [OF store_ok_table [OF ok]] by blast
  have Some: "symtab.slot_for (frame_key f) (ss_symbols store) = Some ?i" using slot by simp
  from intern_symbol_fresh [OF Some free] obtain store1 store2 so sl no nl symbol where
    1: "store_text MAX_SOURCE_LENGTH (fr_source f) (fr_source_length f) store = (store1, so, sl)"
    and 2: "store_text MAX_NAME_LENGTH (fr_name f) (fr_name_length f) store1 = (store2, no, nl)"
    and sym: "sym_key symbol = frame_key f" "sym_hash symbol = key_hash (frame_key f)" "sym_used symbol"
      "sym_source_offset symbol = so" "sym_source_length symbol = sl"
      "sym_name_offset symbol = no" "sym_name_length symbol = nl"
    and eq: "intern_symbol store f =
      (store2\<lparr>ss_symbols := (ss_symbols store2)[?i := symbol]\<rparr>, of_nat ?i + 1)" .
  have area: "length (ss_sources store) = ss_source_used store" "ss_source_used store \<le> SOURCE_CAPACITY"
    using ok by (auto simp: store_ok_def)
  have lim: "MAX_SOURCE_LENGTH \<le> 1024" "MAX_NAME_LENGTH \<le> 1024"
    by (simp_all add: store_limits)
  have r: "\<forall>bs. fr_source f = Some bs \<longrightarrow> unat (fr_source_length f) \<le> length bs"
    "\<forall>bs. fr_name f = Some bs \<longrightarrow> unat (fr_name_length f) \<le> length bs"
    using readable by (auto simp: frame_readable_def)
  note t1 = store_text_ok [OF 1 area r(1) lim(1)]
  have full2: "\<not> ss_sources_full store2" using room int(1) eq by auto
  have full1: "\<not> ss_sources_full store1"
    using 2 full2 by (auto simp: store_text_def Let_def split: option.splits if_splits)
  note c1 = store_text_content [OF 1 area r(1) lim(1) full1]
  note c2 = store_text_content [OF 2 t1(1,2) r(2) lim(2) full2]
  obtain a where "ss_sources store2 = ss_sources store1 @ a"
    using store_text_ok(3) [OF 2 t1(1,2) r(2) lim(2)] by blast
  then have "stored_text store2 so sl = stored_text store1 so sl"
    using t1(4) by (auto simp: text_ok_def stored_text_def read_at_append_old)
  with c1 c2 have texts: "stored_text store2 so sl = kept_text MAX_SOURCE_LENGTH (fr_source f) (fr_source_length f)"
    "stored_text store2 no nl = kept_text MAX_NAME_LENGTH (fr_name f) (fr_name_length f)"
    by simp_all
  have s': "store' = store2\<lparr>ss_symbols := (ss_symbols store2)[?i := symbol]\<rparr>"
    using int(1) eq by simp
  have len: "length (ss_symbols store2) = SYMBOL_CAPACITY"
    using store_text_frame(1) [OF 1] store_text_frame(1) [OF 2] store_ok_length [OF ok] by simp
  have "stored_text store' off l = stored_text store2 off l" for off l
    by (simp add: s' stored_text_def)
  then show ?thesis
    using s' sym i len texts c1(2,3) c2(2,3) kept_text_length [OF _ r(1)] kept_text_length [OF _ r(2)]
    by (auto simp: symbol_view_def view_of_frame_def Let_def sym_key_def frame_key_def
        ucast_unat_length split: option.split)
qed

section \<open>Interning a stack\<close>

text \<open>
  The loop of \<open>lp_cpu_profile_record\<close> and \<open>lp_memory_profile_record\<close> over the captured frames:
  each frame becomes a compact frame, whose bytes are folded into the aggregate hash.
\<close>

primrec intern_frames ::
  "lp_symbol_store \<Rightarrow> lp_stack_frame list \<Rightarrow> u64 \<Rightarrow> lp_symbol_store \<times> lp_compact_frame list \<times> u64" where
  "intern_frames store [] hash = (store, [], hash)"
| "intern_frames store (frame # frames) hash =
     (let (store1, symbol) = intern_symbol store frame;
          compact = \<lparr>cf_symbol = symbol, cf_currentline = fr_currentline frame\<rparr>;
          (store2, rest, hash') =
            intern_frames store1 frames (hash_bytes hash (compact_frame_bytes compact))
      in (store2, compact # rest, hash'))"

definition hash_stack :: "u64 \<Rightarrow> lp_compact_frame list \<Rightarrow> u64" where
  "hash_stack = foldl (\<lambda>hash c. hash_bytes hash (compact_frame_bytes c))"

text \<open>A compact frame refers to nothing (id 0) or to a symbol in use.\<close>

definition compact_ok :: "lp_symbol_store \<Rightarrow> lp_compact_frame \<Rightarrow> bool" where
  "compact_ok store c \<longleftrightarrow>
     cf_symbol c = 0 \<or>
     (unat (cf_symbol c) \<le> SYMBOL_CAPACITY \<and> sym_used (ss_symbols store ! (unat (cf_symbol c) - 1)))"

text \<open>
  The compact frame stands for the frame: same line, and its symbol has the frame's key; it
  has no symbol only if the table is full.
\<close>

definition compact_for :: "lp_symbol_store \<Rightarrow> lp_stack_frame \<Rightarrow> lp_compact_frame \<Rightarrow> bool" where
  "compact_for store f c \<longleftrightarrow>
     cf_currentline c = fr_currentline f \<and>
     (cf_symbol c = 0 \<longrightarrow> (\<forall>i<SYMBOL_CAPACITY. sym_used (ss_symbols store ! i))) \<and>
     (cf_symbol c \<noteq> 0 \<longrightarrow>
        unat (cf_symbol c) \<le> SYMBOL_CAPACITY \<and>
        sym_used (ss_symbols store ! (unat (cf_symbol c) - 1)) \<and>
        sym_key (ss_symbols store ! (unat (cf_symbol c) - 1)) = frame_key f)"

lemma compact_for_ok: "compact_for store f c \<Longrightarrow> compact_ok store c"
  by (auto simp: compact_for_def compact_ok_def)

lemma id_index: "(sid :: u32) \<noteq> 0 \<Longrightarrow> unat sid \<le> SYMBOL_CAPACITY \<longleftrightarrow> unat sid - 1 < SYMBOL_CAPACITY"
  by (auto simp: unat_eq_0 store_limits)

lemma compact_ok_extends:
  assumes "store_extends store store'" and "compact_ok store c"
  shows "compact_ok store' c"
  using assms by (auto simp: compact_ok_def store_extends_def id_index)

lemma compact_for_extends:
  assumes "store_extends store store'" and "compact_for store f c"
  shows "compact_for store' f c"
  using assms by (auto simp: compact_for_def store_extends_def id_index)

lemma compact_list_ok:
  "list_all2 (compact_for store) fs cs \<Longrightarrow> \<forall>c\<in>set cs. compact_ok store c"
  by (induction rule: list_all2_induct) (auto intro: compact_for_ok)

lemma intern_frames_correct:
  assumes "store_ok store" and "\<forall>f\<in>set frames. frame_readable f"
    and "intern_frames store frames hash = (store', cs, hash')"
  shows "store_ok store' \<and> store_extends store store' \<and> list_all2 (compact_for store') frames cs \<and>
    hash' = hash_stack hash cs"
  using assms
proof (induction frames arbitrary: store hash cs)
  case Nil
  then show ?case by (simp add: hash_stack_def)
next
  case (Cons f fs)
  obtain store1 sid where 1: "intern_symbol store f = (store1, sid)"
    by (cases "intern_symbol store f")
  let ?c = "\<lparr>cf_symbol = sid, cf_currentline = fr_currentline f\<rparr>"
  obtain rest where 2: "intern_frames store1 fs (hash_bytes hash (compact_frame_bytes ?c)) = (store', rest, hash')"
    and cs: "cs = ?c # rest"
    using Cons.prems(3) 1 by (auto simp: Let_def split: prod.splits)
  have f: "frame_readable f" using Cons.prems(2) by simp
  note facts = intern_symbol_facts [OF Cons.prems(1) f 1]
  have rest: "store_ok store'" "store_extends store1 store'" "list_all2 (compact_for store') fs rest"
    "hash' = hash_stack (hash_bytes hash (compact_frame_bytes ?c)) rest"
    using Cons.IH [OF facts(1) _ 2] Cons.prems(2) by auto
  have "\<forall>i<SYMBOL_CAPACITY. sym_used (ss_symbols store1 ! i)" if "sid = 0"
    using facts(2,3) that symtab.slot_for_None [OF store_ok_table [OF Cons.prems(1)]]
    by (simp add: capacity_bits store_extends_def)
  then have "compact_for store1 f ?c"
    using facts(4) by (auto simp: compact_for_def id_index)
  then show ?case
    using rest cs facts(2) compact_for_extends store_extends_trans
    by (auto simp: hash_stack_def)
qed

section \<open>Interning again\<close>

text \<open>
  Once a frame has been interned, every later call for it returns the same id and leaves the
  slots and the text alone; only the overflow counter can move, when the table is full.
\<close>

lemma intern_symbol_again:
  assumes ok: "store_ok store" and f: "frame_readable f" and int: "intern_symbol store f = (store', sid)"
    and later: "store_extends store' later" "store_ok later"
  shows "\<exists>n. intern_symbol later f = (later\<lparr>ss_overflows := n\<rparr>, sid)"
proof (cases "sid = 0")
  case True
  then have "symtab.slot_for (frame_key f) (ss_symbols store) = None"
    using intern_symbol_facts(3) [OF ok f int] by simp
  then have full: "\<forall>i<SYMBOL_CAPACITY. sym_used (ss_symbols store ! i) \<and> sym_key (ss_symbols store ! i) \<noteq> frame_key f"
    using symtab.slot_for_None [OF store_ok_table [OF ok]] by (simp add: capacity_bits)
  have "store_extends store later"
    using intern_symbol_facts(2) [OF ok f int] later(1) by (rule store_extends_trans)
  with full have "\<forall>i<SYMBOL_CAPACITY. sym_used (ss_symbols later ! i) \<and> sym_key (ss_symbols later ! i) \<noteq> frame_key f"
    by (simp add: store_extends_def)
  then have "symtab.slot_for (frame_key f) (ss_symbols later) = None"
    using symtab.slot_for_None [OF store_ok_table [OF later(2)]] by (simp add: capacity_bits)
  then show ?thesis using True by (auto simp: intern_symbol_full)
next
  case False
  note facts = intern_symbol_facts(4) [OF ok f int False]
  let ?i = "unat sid - 1"
  have i: "?i < SYMBOL_CAPACITY" using facts by simp
  have u: "sym_used (ss_symbols later ! ?i)" "sym_key (ss_symbols later ! ?i) = frame_key f"
    using facts later(1) by (auto simp: store_extends_def)
  have "symtab.slot_for (frame_key f) (ss_symbols later) = Some ?i"
    using i u by (intro symtab.slot_for_present [OF store_ok_table [OF later(2)]]) (simp_all add: capacity_bits)
  from intern_symbol_found [OF this u(1)]
  have "intern_symbol later f = (later, of_nat ?i + 1)" .
  moreover have "(of_nat ?i + 1 :: u32) = sid"
    using False by (metis Suc_pred' add.commute bot_nat_0.not_eq_extremum of_nat_Suc of_nat_unat
        ucast_id unsigned_eq_0_iff)
  ultimately show ?thesis by (intro exI [of _ "ss_overflows later"]) simp
qed

lemma intern_frames_again:
  assumes "store_ok store" and "\<forall>f\<in>set frames. frame_readable f"
    and "intern_frames store frames hash = (store', cs, hash')"
    and "store_extends store' later" and "store_ok later"
  shows "\<exists>n. intern_frames later frames hash = (later\<lparr>ss_overflows := n\<rparr>, cs, hash')"
  using assms
proof (induction frames arbitrary: store hash cs later)
  case Nil
  then show ?case by (auto intro!: exI [of _ "ss_overflows later"])
next
  case (Cons f fs)
  obtain store1 sid where 1: "intern_symbol store f = (store1, sid)"
    by (cases "intern_symbol store f")
  let ?c = "\<lparr>cf_symbol = sid, cf_currentline = fr_currentline f\<rparr>"
  obtain rest where 2: "intern_frames store1 fs (hash_bytes hash (compact_frame_bytes ?c)) = (store', rest, hash')"
    and cs: "cs = ?c # rest"
    using Cons.prems(3) 1 by (auto simp: Let_def split: prod.splits)
  have f: "frame_readable f" and fs: "\<forall>f\<in>set fs. frame_readable f" using Cons.prems(2) by auto
  note facts = intern_symbol_facts [OF Cons.prems(1) f 1]
  have ext1: "store_extends store1 later"
    using intern_frames_correct [OF facts(1) fs 2] Cons.prems(4) store_extends_trans by blast
  from intern_symbol_again [OF Cons.prems(1) f 1 ext1 Cons.prems(5)] obtain n where
    n: "intern_symbol later f = (later\<lparr>ss_overflows := n\<rparr>, sid)" ..
  note facts' = intern_symbol_facts [OF Cons.prems(5) f n]
  from Cons.IH [OF facts(1) fs 2 store_extends_trans [OF Cons.prems(4) facts'(2)] facts'(1)]
  show ?case using n by (auto simp: cs Let_def)
qed

section \<open>Properties\<close>

lemma symbols_free_slot:
  assumes "store_ok store" and "i < SYMBOL_CAPACITY" and "\<not> sym_used (ss_symbols store ! i)"
    and "frame_readable f" and "intern_symbol store f = (store', sid)"
  shows "sid \<noteq> 0"
  using intern_symbol_facts(3) [OF assms(1,4,5)] symtab.slot_for_None [OF store_ok_table [OF assms(1)]]
    assms(2,3) by (auto simp: capacity_bits)

text \<open>
  Symbols round trip. A frame interned while its key is new and the text area has room
  reads back as itself, its source cut at 1024 bytes and its name at 255, and still does so
  after any further stack has been interned.
\<close>

theorem interned_frame_reads_back:
  assumes ok: "store_ok store" and f: "frame_readable f"
    and new: "\<forall>i<SYMBOL_CAPACITY. sym_used (ss_symbols store ! i) \<longrightarrow> sym_key (ss_symbols store ! i) \<noteq> frame_key f"
    and int: "intern_symbol store f = (store', sid)" "sid \<noteq> 0" "\<not> ss_sources_full store'"
    and later: "\<forall>g\<in>set stack. frame_readable g" "intern_frames store' stack hash = (later, compact, hash')"
  shows "symbol_view later (ss_symbols later ! (unat sid - 1)) line = view_of_frame f line"
proof -
  note facts = intern_symbol_facts [OF ok f int(1)]
  have "store_extends store' later" using intern_frames_correct [OF facts(1) later] by simp
  from symbol_view_stable [OF facts(1) this] facts(4) [OF int(2)]
  have "symbol_view later (ss_symbols later ! (unat sid - 1)) line =
      symbol_view store' (ss_symbols store' ! (unat sid - 1)) line" by simp
  also have "\<dots> = view_of_frame f line" by (rule symbol_view_fresh [OF ok f new int])
  finally show ?thesis .
qed

definition example_frame :: lp_stack_frame where
  "example_frame = \<lparr>fr_kind = LP_FRAME_LUA, fr_function = 4096, fr_cfunction = NULL,
     fr_source = Some [64, 97, 46, 108, 117, 97], fr_source_length = 6,
     fr_name = Some [102], fr_name_length = 1, fr_linedefined = 3, fr_currentline = 5\<rparr>"

lemma example_frame_readable [simp]: "frame_readable example_frame"
  by (simp add: frame_readable_def example_frame_def)

lemma new_store_slots [simp]: "i < SYMBOL_CAPACITY \<Longrightarrow> \<not> sym_used (ss_symbols new_store ! i)"
  by (simp add: new_store_def zero_symbol_def)

lemma store_text_fits:
  assumes "store_text max_length txt txt_length store = (store', offset, len)"
    and "\<not> ss_sources_full store" and "ss_source_used store + max_length + 1 \<le> SOURCE_CAPACITY"
  shows "\<not> ss_sources_full store' \<and> ss_source_used store' \<le> ss_source_used store + max_length + 1"
  using assms by (auto simp: store_text_def Let_def split: option.splits if_splits)

text \<open>Interning the example frame into a new store: the id, and the text area after it.\<close>

lemma example_interned:
  obtains store' sid where "intern_symbol new_store example_frame = (store', sid)" and "sid \<noteq> 0"
    and "\<not> ss_sources_full store'"
proof -
  obtain store' sid where int: "intern_symbol new_store example_frame = (store', sid)"
    by (cases "intern_symbol new_store example_frame")
  have "0 < SYMBOL_CAPACITY" by (simp add: store_limits)
  with int have nz: "sid \<noteq> 0"
    using symbols_free_slot [OF new_store_ok _ new_store_slots example_frame_readable] by blast
  then obtain i where i: "symtab.slot_for (frame_key example_frame) (ss_symbols new_store) = Some i"
    using intern_symbol_facts(4) [OF new_store_ok example_frame_readable int] by blast
  have free: "\<not> sym_used (ss_symbols new_store ! i)"
    using symtab.slot_for_bound [OF i] by (simp add: capacity_bits)
  from intern_symbol_fresh [OF i free] obtain store1 store2 so sl no nl symbol where
    1: "store_text MAX_SOURCE_LENGTH (fr_source example_frame) (fr_source_length example_frame) new_store = (store1, so, sl)"
    and 2: "store_text MAX_NAME_LENGTH (fr_name example_frame) (fr_name_length example_frame) store1 = (store2, no, nl)"
    and eq: "intern_symbol new_store example_frame =
      (store2\<lparr>ss_symbols := (ss_symbols store2)[i := symbol]\<rparr>, of_nat i + 1)" by metis
  have "\<not> ss_sources_full new_store \<and> ss_source_used new_store = 0" by (simp add: new_store_def)
  with store_text_fits [OF 1] store_text_fits [OF 2] have "\<not> ss_sources_full store2"
    by (simp add: store_limits)
  with eq int have "\<not> ss_sources_full store'" by auto
  with int nz show ?thesis by (rule that)
qed

lemma interned_frame_reads_back_witness:
  "\<exists>store' sid later compact hash'. intern_symbol new_store example_frame = (store', sid) \<and>
     intern_frames store' [example_frame, zero_frame] 0 = (later, compact, hash') \<and>
     symbol_view later (ss_symbols later ! (unat sid - 1)) 9 = example_frame\<lparr>fr_currentline := 9\<rparr>"
proof -
  obtain store' sid where int: "intern_symbol new_store example_frame = (store', sid)" "sid \<noteq> 0"
    "\<not> ss_sources_full store'" by (rule example_interned)
  obtain later compact hash' where later: "intern_frames store' [example_frame, zero_frame] 0 = (later, compact, hash')"
    by (metis prod_cases3)
  have "\<forall>g\<in>set [example_frame, zero_frame]. frame_readable g"
    by (simp add: frame_readable_def zero_frame_def [abs_def] example_frame_def [abs_def])
  then have "symbol_view later (ss_symbols later ! (unat sid - 1)) 9 = view_of_frame example_frame 9"
    by (intro interned_frame_reads_back [OF new_store_ok example_frame_readable _ int _ later]) simp_all
  also have "\<dots> = example_frame\<lparr>fr_currentline := 9\<rparr>"
    by (simp add: view_of_frame_def kept_text_def example_frame_def store_limits Let_def)
  finally show ?thesis using int later by blast
qed

text \<open>
  Symbol identity. Two interned frames have the same id exactly when kind, function, C
  function, definition line, source length and source hash agree.
\<close>

theorem interned_ids_identify:
  assumes ok: "store_ok store" and f: "frame_readable f" and g: "frame_readable g"
    and f_int: "intern_symbol store f = (store1, i)" "i \<noteq> 0"
    and g_int: "intern_symbol store1 g = (store2, j)" "j \<noteq> 0"
  shows "i = j \<longleftrightarrow> frame_key f = frame_key g"
proof -
  note first = intern_symbol_facts [OF ok f f_int(1)]
  note second = intern_symbol_facts [OF first(1) g g_int(1)]
  have kept: "sym_used (ss_symbols store2 ! (unat i - 1)) \<and> sym_key (ss_symbols store2 ! (unat i - 1)) = frame_key f"
    using first(4) [OF f_int(2)] second(2) by (auto simp: store_extends_def)
  let ?tbl = "ss_symbols store2"
  have i: "unat i - 1 < 2 ^ SYMBOL_CAPACITY_BITS" "sym_used (?tbl ! (unat i - 1))"
      "sym_key (?tbl ! (unat i - 1)) = frame_key f"
    using kept first(4) [OF f_int(2)] by (simp_all add: capacity_bits)
  have j: "unat j - 1 < 2 ^ SYMBOL_CAPACITY_BITS" "sym_used (?tbl ! (unat j - 1))"
      "sym_key (?tbl ! (unat j - 1)) = frame_key g"
    using second(4) [OF g_int(2)] by (simp_all add: capacity_bits)
  have "unat i - 1 = unat j - 1 \<longleftrightarrow> frame_key f = frame_key g"
    using symtab.ok_unique [OF store_ok_table [OF second(1)] i(1) j(1) i(2) j(2)] i(3) j(3) by metis
  moreover have "unat i - 1 = unat j - 1 \<longleftrightarrow> i = j"
  proof -
    have "0 < unat i" "0 < unat j" using f_int(2) g_int(2) by (simp_all add: unat_gt_0)
    then have "unat i - 1 = unat j - 1 \<longleftrightarrow> unat i = unat j" by linarith
    then show ?thesis by (simp add: word_unat_eq_iff)
  qed
  ultimately show ?thesis by simp
qed

lemma interned_ids_identify_witness:
  "\<exists>store1 i store2 j. intern_symbol new_store example_frame = (store1, i) \<and>
     intern_symbol store1 (example_frame\<lparr>fr_currentline := 77\<rparr>) = (store2, j) \<and> i = j"
proof -
  let ?g = "example_frame\<lparr>fr_currentline := 77\<rparr>"
  obtain store1 i where f: "intern_symbol new_store example_frame = (store1, i)" "i \<noteq> 0"
    by (rule example_interned)
  have g: "frame_readable ?g" using example_frame_readable by (simp add: frame_readable_def)
  have key: "frame_key ?g = frame_key example_frame"
    by (simp add: frame_key_def frame_source_hash_def example_frame_def)
  obtain n where "intern_symbol store1 example_frame = (store1\<lparr>ss_overflows := n\<rparr>, i)"
    using intern_symbol_again [OF new_store_ok example_frame_readable f(1) store_extends_refl
        intern_symbol_facts(1) [OF new_store_ok example_frame_readable f(1)]] ..
  obtain store2 j where g_int: "intern_symbol store1 ?g = (store2, j)" by (cases "intern_symbol store1 ?g")
  have ok1: "store_ok store1" by (rule intern_symbol_facts(1) [OF new_store_ok example_frame_readable f(1)])
  note first = intern_symbol_facts(4) [OF new_store_ok example_frame_readable f]
  have "symtab.slot_for (frame_key ?g) (ss_symbols store1) = Some (unat i - 1)"
    using first by (intro symtab.slot_for_present [OF store_ok_table [OF ok1]]) (simp_all add: capacity_bits key)
  then have "j \<noteq> 0" using intern_symbol_facts(3) [OF ok1 g g_int] by simp
  then show ?thesis
    using interned_ids_identify [OF new_store_ok example_frame_readable g f g_int] key f g_int by auto
qed

text \<open>
  Bounds of the text area. Whatever stacks are interned into a new store, at most 256 KiB
  of text are written, every text reference of a symbol in use lies with its terminating
  NUL inside the written part, sources are at most 1024 bytes and names at most 255.
\<close>

theorem text_area_bounded:
  assumes "\<forall>f\<in>set stack. frame_readable f" and "intern_frames new_store stack hash = (store, compact, hash')"
  shows "ss_source_used store \<le> 256 * 1024 \<and> length (ss_sources store) = ss_source_used store \<and>
    (\<forall>s\<in>set (ss_symbols store). sym_used s \<longrightarrow>
      text_ok (ss_sources store) 1024 (sym_source_offset s) (sym_source_length s) \<and>
      text_ok (ss_sources store) 255 (sym_name_offset s) (sym_name_length s))"
  using intern_frames_correct [OF new_store_ok assms]
  by (auto simp: store_ok_def symbol_text_ok_def store_limits)

lemma text_area_bounded_witness:
  "\<exists>store compact hash'. intern_frames new_store [example_frame] 0 = (store, compact, hash') \<and>
     ss_source_used store \<le> 262144"
proof -
  obtain store compact hash' where i: "intern_frames new_store [example_frame] 0 = (store, compact, hash')"
    by (metis prod_cases3)
  from text_area_bounded [OF _ i] i show ?thesis by auto
qed

end
