(* ===== verification/Live_Map.thy ===== *)
theory Live_Map
  imports Luaprof_Prelude
begin

text \<open>
  The table of tracked live allocations of \<open>src/memory_core.c\<close>: 16384 entries threaded by
  32-bit \<open>next\<close> indices into 32768 bucket chains and one free list. The walks over a chain are
  partial functions (the loops of the code stop only at \<open>LP_NO_LIVE_ENTRY\<close> or at the pointer),
  so that a corrupted chain would show as a walk that does not return; under the invariant
  \<open>live_ok\<close> every walk is shown to return.

  The table implements a finite map from pointers to weights: the locale \<open>live_map\<close> states the
  laws, and its interpretation at the end discharges them for the code's operations.
\<close>

definition LIVE_CAPACITY :: nat where "LIVE_CAPACITY = 16384"
definition LIVE_BUCKET_CAPACITY :: nat where "LIVE_BUCKET_CAPACITY = 32768"

lemmas live_limits = LIVE_CAPACITY_def LIVE_BUCKET_CAPACITY_def

abbreviation (input) LP_NO_LIVE_ENTRY :: u32 where "LP_NO_LIVE_ENTRY \<equiv> - 1"

record lp_memory_live_entry =
  le_pointer :: pointer
  le_space :: u64
  le_objects :: u64
  le_aggregate :: u32
  le_next :: u32

definition zero_live_entry :: lp_memory_live_entry where
  "zero_live_entry = \<lparr>le_pointer = NULL, le_space = 0, le_objects = 0, le_aggregate = 0, le_next = 0\<rparr>"

text \<open>The fields \<open>live_entries\<close>, \<open>live_buckets\<close>, \<open>live_free_head\<close>, \<open>live_count\<close> of a profile.\<close>

record live_table =
  lt_entries :: "lp_memory_live_entry list"
  lt_buckets :: "u32 list"
  lt_free_head :: u32
  lt_count :: nat

definition pointer_bucket :: "pointer \<Rightarrow> nat" where
  "pointer_bucket pointer = unat (pointer_mix pointer AND of_nat (LIVE_BUCKET_CAPACITY - 1))"

text \<open>
  The two loops of \<open>lp_memory_profile_new\<close> over the buckets and the entries: the second counts
  down and pushes each entry onto the free list.
\<close>

primrec thread_free :: "nat \<Rightarrow> lp_memory_live_entry list \<Rightarrow> u32 \<Rightarrow> lp_memory_live_entry list \<times> u32" where
  "thread_free 0 entries free_head = (entries, free_head)"
| "thread_free (Suc i) entries free_head =
     thread_free i (entries[i := (entries ! i)\<lparr>le_next := free_head\<rparr>]) (of_nat i)"

definition new_live_table :: live_table where
  "new_live_table =
     (let (entries, free_head) =
            thread_free LIVE_CAPACITY (replicate LIVE_CAPACITY zero_live_entry) LP_NO_LIVE_ENTRY
      in \<lparr>lt_entries = entries, lt_buckets = replicate LIVE_BUCKET_CAPACITY LP_NO_LIVE_ENTRY,
          lt_free_head = free_head, lt_count = 0\<rparr>)"

text \<open>The place a chain's next index is stored: the \<open>uint32_t *link\<close> of \<open>remove_live\<close>.\<close>

datatype live_link = Bucket_Link nat | Entry_Link nat

primrec read_link :: "live_table \<Rightarrow> live_link \<Rightarrow> u32" where
  "read_link t (Bucket_Link b) = lt_buckets t ! b"
| "read_link t (Entry_Link i) = le_next (lt_entries t ! i)"

primrec write_link :: "live_link \<Rightarrow> u32 \<Rightarrow> live_table \<Rightarrow> live_table" where
  "write_link (Bucket_Link b) v t = t\<lparr>lt_buckets := (lt_buckets t)[b := v]\<rparr>"
| "write_link (Entry_Link i) v t =
     t\<lparr>lt_entries := (lt_entries t)[i := (lt_entries t ! i)\<lparr>le_next := v\<rparr>]\<rparr>"

text \<open>
  The loop of \<open>remove_live\<close>: the link whose entry holds the pointer, if the chain has one.
  \<open>None\<close> stands for a loop that does not end.
\<close>

partial_function (option) find_link :: "live_table \<Rightarrow> pointer \<Rightarrow> live_link \<Rightarrow> live_link option option" where
  "find_link t pointer link =
     (let index = read_link t link
      in if index = LP_NO_LIVE_ENTRY then Some None
         else if le_pointer (lt_entries t ! unat index) = pointer then Some (Some link)
         else find_link t pointer (Entry_Link (unat index)))"

text \<open>The loop of \<open>add_live\<close>.\<close>

partial_function (option) find_entry :: "live_table \<Rightarrow> pointer \<Rightarrow> u32 \<Rightarrow> nat option option" where
  "find_entry t pointer index =
     (if index = LP_NO_LIVE_ENTRY then Some None
      else if le_pointer (lt_entries t ! unat index) = pointer then Some (Some (unat index))
      else find_entry t pointer (le_next (lt_entries t ! unat index)))"

text \<open>The table part of \<open>remove_live\<close>, once the loop has found the link.\<close>

definition unlink_entry :: "live_table \<Rightarrow> live_link \<Rightarrow> live_table" where
  "unlink_entry t link =
     (let index = read_link t link;
          t1 = write_link link (le_next (lt_entries t ! unat index)) t;
          entry = lt_entries t1 ! unat index
      in t1\<lparr>lt_entries := (lt_entries t1)[unat index := entry\<lparr>le_pointer := NULL, le_next := lt_free_head t1\<rparr>],
            lt_free_head := index,
            lt_count := lt_count t1 - 1\<rparr>)"

text \<open>The table part of \<open>add_live\<close>: rewriting a found entry, and taking one off the free list.\<close>

definition set_weight :: "u64 \<Rightarrow> u64 \<Rightarrow> u32 \<Rightarrow> lp_memory_live_entry \<Rightarrow> lp_memory_live_entry" where
  "set_weight space objects aggregate entry =
     entry\<lparr>le_space := space, le_objects := objects, le_aggregate := aggregate\<rparr>"

definition reweigh_entry :: "live_table \<Rightarrow> nat \<Rightarrow> u64 \<Rightarrow> u64 \<Rightarrow> u32 \<Rightarrow> live_table" where
  "reweigh_entry t index space objects aggregate =
     t\<lparr>lt_entries := (lt_entries t)[index := set_weight space objects aggregate (lt_entries t ! index)]\<rparr>"

definition link_entry :: "live_table \<Rightarrow> pointer \<Rightarrow> u64 \<Rightarrow> u64 \<Rightarrow> u32 \<Rightarrow> live_table" where
  "link_entry t pointer space objects aggregate =
     (let bucket = pointer_bucket pointer;
          index = lt_free_head t;
          entry = lt_entries t ! unat index
      in t\<lparr>lt_free_head := le_next entry,
           lt_entries := (lt_entries t)[unat index :=
             set_weight space objects aggregate entry\<lparr>le_pointer := pointer, le_next := lt_buckets t ! bucket\<rparr>],
           lt_buckets := (lt_buckets t)[bucket := index],
           lt_count := Suc (lt_count t)\<rparr>)"

section \<open>Chains\<close>

text \<open>The indices of the chain that starts at \<open>start\<close>.\<close>

primrec chain :: "lp_memory_live_entry list \<Rightarrow> u32 \<Rightarrow> nat list \<Rightarrow> bool" where
  "chain es start [] \<longleftrightarrow> start = LP_NO_LIVE_ENTRY"
| "chain es start (i # is) \<longleftrightarrow>
     start = of_nat i \<and> i < length es \<and> i < LIVE_CAPACITY \<and> chain es (le_next (es ! i)) is"

lemma index_word [simp]: "i < LIVE_CAPACITY \<Longrightarrow> unat (of_nat i :: u32) = i"
  by (simp add: unat_of_nat live_limits)

lemma index_not_end [simp]: "i < LIVE_CAPACITY \<Longrightarrow> (of_nat i :: u32) \<noteq> LP_NO_LIVE_ENTRY"
proof
  assume i: "i < LIVE_CAPACITY" and "(of_nat i :: u32) = - 1"
  then have "unat (of_nat i :: u32) = unat (- 1 :: u32)" by (simp only:)
  with i show False by (simp add: live_limits unsigned_minus_1_eq_mask mask_eq_exp_minus_1)
qed

lemma chain_cong:
  assumes "chain es start is" and "length es' = length es"
    and "\<And>i. i \<in> set is \<Longrightarrow> le_next (es' ! i) = le_next (es ! i)"
  shows "chain es' start is"
  using assms by (induction "is" arbitrary: start) auto

lemma chain_bound: "chain es start is \<Longrightarrow> i \<in> set is \<Longrightarrow> i < length es \<and> i < LIVE_CAPACITY"
  by (induction "is" arbitrary: start) auto

text \<open>Both walks over a chain return, and find the entry of the chain that holds the pointer.\<close>

lemma find_entry_chain:
  "chain (lt_entries t) start is \<Longrightarrow>
   find_entry t p start = Some (find (\<lambda>i. le_pointer (lt_entries t ! i) = p) is)"
proof (induction "is" arbitrary: start)
  case Nil
  then show ?case by (simp add: find_entry.simps)
next
  case (Cons i "is")
  then show ?case by (subst find_entry.simps) auto
qed

lemma find_link_chain:
  assumes "chain (lt_entries t) (read_link t link) is"
  shows "find_link t p link = Some (if \<exists>i\<in>set is. le_pointer (lt_entries t ! i) = p
    then Some (let xs = takeWhile (\<lambda>i. le_pointer (lt_entries t ! i) \<noteq> p) is
      in if xs = [] then link else Entry_Link (last xs)) else None)"
  using assms
proof (induction "is" arbitrary: link)
  case Nil
  then show ?case by (simp add: find_link.simps)
next
  case (Cons i "is")
  have i: "read_link t link = of_nat i" "i < LIVE_CAPACITY" "chain (lt_entries t) (read_link t (Entry_Link i)) is"
    using Cons.prems by auto
  show ?case
  proof (cases "le_pointer (lt_entries t ! i) = p")
    case True
    then show ?thesis using i by (subst find_link.simps) (simp add: Let_def)
  next
    case False
    have "find_link t p link = find_link t p (Entry_Link i)"
      using i False by (subst find_link.simps) (simp add: Let_def)
    with Cons.IH [OF i(3)] False show ?thesis by (auto simp: Let_def)
  qed
qed

text \<open>The links along a chain, and cutting an entry out of it.\<close>

lemma chain_split:
  assumes "chain es start (xs @ i # ys)"
  shows "chain es (le_next (es ! i)) ys \<and> i < length es \<and> i < LIVE_CAPACITY \<and>
    (if xs = [] then start else le_next (es ! last xs)) = of_nat i"
  using assms
proof (induction xs arbitrary: start)
  case Nil
  then show ?case by simp
next
  case (Cons x xs)
  then have "chain es (le_next (es ! x)) (xs @ i # ys)" by simp
  from Cons.IH [OF this] show ?case by (cases "xs = []") simp_all
qed

lemma chain_cut:
  assumes "chain es start (xs @ i # ys)" and "distinct (xs @ i # ys)" and "xs \<noteq> []"
  shows "chain (es[last xs := (es ! last xs)\<lparr>le_next := le_next (es ! i)\<rparr>]) start (xs @ ys)"
  using assms
proof (induction xs arbitrary: start)
  case Nil
  then show ?case by simp
next
  case (Cons x xs)
  show ?case
  proof (cases "xs = []")
    case True
    have "chain (es[x := (es ! x)\<lparr>le_next := le_next (es ! i)\<rparr>]) (le_next (es ! i)) ys"
    proof (rule chain_cong)
      show "chain es (le_next (es ! i)) ys" using chain_split [OF Cons.prems(1)] by simp
      show "le_next (es[x := (es ! x)\<lparr>le_next := le_next (es ! i)\<rparr>] ! j) = le_next (es ! j)"
        if "j \<in> set ys" for j using that Cons.prems(2) by (cases "j = x") simp_all
    qed simp
    with Cons.prems(1) True show ?thesis by simp
  next
    case False
    have "last xs \<in> set xs" using False by simp
    then have "x \<noteq> last xs" using Cons.prems(2) by auto
    moreover have "chain (es[last xs := (es ! last xs)\<lparr>le_next := le_next (es ! i)\<rparr>]) (le_next (es ! x)) (xs @ ys)"
      using Cons.prems(1,2) False by (intro Cons.IH) simp_all
    ultimately show ?thesis using Cons.prems(1) False by simp
  qed
qed

section \<open>The invariant\<close>

text \<open>
  The entries with a pointer are exactly those on the chain of the pointer's bucket, the ones
  without a pointer are exactly those on the free list, no pointer occurs twice, and
  \<open>live_count\<close> counts the former.
\<close>

definition live_slots :: "live_table \<Rightarrow> (pointer \<Rightarrow> bool) \<Rightarrow> nat set" where
  "live_slots t P = {i. i < LIVE_CAPACITY \<and> P (le_pointer (lt_entries t ! i))}"

definition chain_of :: "live_table \<Rightarrow> u32 \<Rightarrow> nat set \<Rightarrow> bool" where
  "chain_of t start S \<longleftrightarrow> (\<exists>is. chain (lt_entries t) start is \<and> distinct is \<and> set is = S)"

definition live_ok :: "live_table \<Rightarrow> bool" where
  "live_ok t \<longleftrightarrow>
     length (lt_entries t) = LIVE_CAPACITY \<and> length (lt_buckets t) = LIVE_BUCKET_CAPACITY \<and>
     (\<forall>b<LIVE_BUCKET_CAPACITY.
        chain_of t (lt_buckets t ! b) (live_slots t (\<lambda>p. p \<noteq> NULL \<and> pointer_bucket p = b))) \<and>
     chain_of t (lt_free_head t) (live_slots t (\<lambda>p. p = NULL)) \<and>
     (\<forall>i\<in>live_slots t (\<lambda>p. p \<noteq> NULL). \<forall>j\<in>live_slots t (\<lambda>p. p \<noteq> NULL).
        le_pointer (lt_entries t ! i) = le_pointer (lt_entries t ! j) \<longrightarrow> i = j) \<and>
     lt_count t = card (live_slots t (\<lambda>p. p \<noteq> NULL))"

lemma pointer_bucket_less [simp]: "pointer_bucket p < LIVE_BUCKET_CAPACITY"
proof -
  have "pointer_mix p AND of_nat (LIVE_BUCKET_CAPACITY - 1) \<le> of_nat (LIVE_BUCKET_CAPACITY - 1)"
    by (rule word_and_le1)
  then have "pointer_bucket p \<le> unat (of_nat (LIVE_BUCKET_CAPACITY - 1) :: u64)"
    unfolding pointer_bucket_def by (simp add: word_le_nat_alt)
  then show ?thesis by (simp add: live_limits)
qed

lemma finite_live_slots [simp]: "finite (live_slots t P)"
  by (simp add: live_slots_def)

lemma live_slots_iff: "i \<in> live_slots t P \<longleftrightarrow> i < LIVE_CAPACITY \<and> P (le_pointer (lt_entries t ! i))"
  by (simp add: live_slots_def)

lemma chain_ofI: "chain (lt_entries t) start is \<Longrightarrow> distinct is \<Longrightarrow> set is = S \<Longrightarrow> chain_of t start S"
  by (auto simp: chain_of_def)

text \<open>A chain survives a change of the table that leaves its entries' links alone.\<close>

lemma chain_of_cong:
  assumes "chain_of t start S" and "length (lt_entries t') = length (lt_entries t)"
    and "\<And>i. i \<in> S \<Longrightarrow> le_next (lt_entries t' ! i) = le_next (lt_entries t ! i)"
  shows "chain_of t' start S"
  using assms by (auto simp: chain_of_def intro: chain_cong)

lemma live_ok_length: "live_ok t \<Longrightarrow> length (lt_entries t) = LIVE_CAPACITY"
  by (simp add: live_ok_def)

lemma live_ok_bucket:
  "live_ok t \<Longrightarrow> b < LIVE_BUCKET_CAPACITY \<Longrightarrow>
   chain_of t (lt_buckets t ! b) (live_slots t (\<lambda>p. p \<noteq> NULL \<and> pointer_bucket p = b))"
  by (simp add: live_ok_def)

lemma live_ok_unique:
  assumes "live_ok t" and "i < LIVE_CAPACITY" and "j < LIVE_CAPACITY"
    and "le_pointer (lt_entries t ! i) = p" and "le_pointer (lt_entries t ! j) = p" and "p \<noteq> NULL"
  shows "i = j"
  using assms by (auto simp: live_ok_def live_slots_iff)

section \<open>The walks under the invariant\<close>

definition slot_of :: "live_table \<Rightarrow> pointer \<Rightarrow> nat option" where
  "slot_of t p = find (\<lambda>i. le_pointer (lt_entries t ! i) = p) [0..<LIVE_CAPACITY]"

lemma slot_of_iff:
  assumes "live_ok t" and "p \<noteq> NULL"
  shows "slot_of t p = Some i \<longleftrightarrow> i < LIVE_CAPACITY \<and> le_pointer (lt_entries t ! i) = p"
proof
  assume "slot_of t p = Some i"
  then show "i < LIVE_CAPACITY \<and> le_pointer (lt_entries t ! i) = p"
    by (auto simp: slot_of_def find_Some_iff)
next
  assume i: "i < LIVE_CAPACITY \<and> le_pointer (lt_entries t ! i) = p"
  then have "slot_of t p \<noteq> None" by (auto simp: slot_of_def find_None_iff)
  then obtain j where j: "slot_of t p = Some j" by blast
  then have "j < LIVE_CAPACITY" "le_pointer (lt_entries t ! j) = p"
    by (auto simp: slot_of_def find_Some_iff)
  with i j show "slot_of t p = Some i" using live_ok_unique [OF assms(1), of i j p] assms(2) by simp
qed

lemma slot_of_None: "slot_of t p = None \<longleftrightarrow> (\<forall>i<LIVE_CAPACITY. le_pointer (lt_entries t ! i) \<noteq> p)"
  by (auto simp: slot_of_def find_None_iff)

lemma find_entry_slot:
  assumes ok: "live_ok t" and p: "p \<noteq> NULL"
  shows "find_entry t p (lt_buckets t ! pointer_bucket p) = Some (slot_of t p)"
proof -
  from live_ok_bucket [OF ok pointer_bucket_less [of p]] obtain "is" where
    "is": "chain (lt_entries t) (lt_buckets t ! pointer_bucket p) is"
    "set is = live_slots t (\<lambda>q. q \<noteq> NULL \<and> pointer_bucket q = pointer_bucket p)"
    by (auto simp: chain_of_def)
  have "find (\<lambda>i. le_pointer (lt_entries t ! i) = p) is = slot_of t p"
  proof (cases "slot_of t p")
    case None
    then have "\<not> (\<exists>i\<in>set is. le_pointer (lt_entries t ! i) = p)"
      using "is"(2) by (auto simp: slot_of_None live_slots_iff)
    then have "find (\<lambda>i. le_pointer (lt_entries t ! i) = p) is = None"
      by (simp add: find_None_iff)
    with None show ?thesis by simp
  next
    case (Some i)
    then have i: "i < LIVE_CAPACITY" "le_pointer (lt_entries t ! i) = p"
      using slot_of_iff [OF ok p] by auto
    then have "find (\<lambda>i. le_pointer (lt_entries t ! i) = p) is \<noteq> None"
      using "is"(2) p by (auto simp: find_None_iff live_slots_iff)
    then obtain j where j: "find (\<lambda>i. le_pointer (lt_entries t ! i) = p) is = Some j" by blast
    then have "le_pointer (lt_entries t ! j) = p" "j \<in> set is"
      by (auto simp: find_Some_iff)
    then show ?thesis
      using live_ok_unique [OF ok _ i(1), of j p] i(2) p "is"(2) Some j by (auto simp: live_slots_iff)
  qed
  with find_entry_chain [OF "is"(1)] show ?thesis by simp
qed

lemma find_link_slot:
  assumes ok: "live_ok t" and p: "p \<noteq> NULL"
  shows "slot_of t p = None \<Longrightarrow> find_link t p (Bucket_Link (pointer_bucket p)) = Some None"
    and "slot_of t p = Some i \<Longrightarrow> \<exists>xs ys.
      find_link t p (Bucket_Link (pointer_bucket p)) =
        Some (Some (if xs = [] then Bucket_Link (pointer_bucket p) else Entry_Link (last xs))) \<and>
      chain (lt_entries t) (lt_buckets t ! pointer_bucket p) (xs @ i # ys) \<and> distinct (xs @ i # ys) \<and>
      set (xs @ i # ys) = live_slots t (\<lambda>q. q \<noteq> NULL \<and> pointer_bucket q = pointer_bucket p)"
proof -
  let ?b = "pointer_bucket p"
  from live_ok_bucket [OF ok pointer_bucket_less [of p]] obtain "is" where
    "is": "chain (lt_entries t) (read_link t (Bucket_Link ?b)) is" "distinct is"
    "set is = live_slots t (\<lambda>q. q \<noteq> NULL \<and> pointer_bucket q = ?b)"
    by (auto simp: chain_of_def)
  note walk = find_link_chain [OF "is"(1), of p]
  show "find_link t p (Bucket_Link ?b) = Some None" if "slot_of t p = None"
  proof -
    have "\<not> (\<exists>i\<in>set is. le_pointer (lt_entries t ! i) = p)"
      using that "is"(3) by (auto simp: slot_of_None live_slots_iff)
    with walk show ?thesis by simp
  qed
  show "\<exists>xs ys. find_link t p (Bucket_Link ?b) =
        Some (Some (if xs = [] then Bucket_Link ?b else Entry_Link (last xs))) \<and>
      chain (lt_entries t) (lt_buckets t ! ?b) (xs @ i # ys) \<and> distinct (xs @ i # ys) \<and>
      set (xs @ i # ys) = live_slots t (\<lambda>q. q \<noteq> NULL \<and> pointer_bucket q = ?b)" if i: "slot_of t p = Some i"
  proof -
    let ?P = "\<lambda>i. le_pointer (lt_entries t ! i) \<noteq> p"
    have i': "i < LIVE_CAPACITY" "\<not> ?P i" using i slot_of_iff [OF ok p] by auto
    then have "i \<in> set is" using "is"(3) p by (auto simp: live_slots_iff)
    then obtain xs ys where split: "is = xs @ i # ys" by (auto simp: in_set_conv_decomp)
    have "?P j" if "j \<in> set xs" for j
    proof -
      have "j \<noteq> i" "j < LIVE_CAPACITY" using that "is"(2,3) split by (auto simp: live_slots_iff)
      then show ?thesis using live_ok_unique [OF ok _ i'(1), of j p] i'(2) p by auto
    qed
    then have "takeWhile ?P is = xs" using i'(2) by (simp add: split takeWhile_tail)
    moreover have "\<exists>i\<in>set is. le_pointer (lt_entries t ! i) = p" using i'(2) split by auto
    ultimately show ?thesis using walk "is" split by (intro exI [of _ xs] exI [of _ ys]) (simp add: Let_def)
  qed
qed

section \<open>Removing, adding, reweighing\<close>

definition live_weight :: "lp_memory_live_entry \<Rightarrow> u64 \<times> u64 \<times> u32" where
  "live_weight e = (le_space e, le_objects e, le_aggregate e)"

text \<open>What each operation does to pointers and weights, and that the invariant is kept.\<close>

lemma live_okI:
  assumes "length (lt_entries t) = LIVE_CAPACITY" and "length (lt_buckets t) = LIVE_BUCKET_CAPACITY"
    and "\<And>b. b < LIVE_BUCKET_CAPACITY \<Longrightarrow>
      chain_of t (lt_buckets t ! b) (live_slots t (\<lambda>p. p \<noteq> NULL \<and> pointer_bucket p = b))"
    and "chain_of t (lt_free_head t) (live_slots t (\<lambda>p. p = NULL))"
    and "\<And>i j. i < LIVE_CAPACITY \<Longrightarrow> j < LIVE_CAPACITY \<Longrightarrow> le_pointer (lt_entries t ! i) \<noteq> NULL \<Longrightarrow>
      le_pointer (lt_entries t ! i) = le_pointer (lt_entries t ! j) \<Longrightarrow> i = j"
    and "lt_count t = card (live_slots t (\<lambda>p. p \<noteq> NULL))"
  shows "live_ok t"
  using assms by (auto simp: live_ok_def live_slots_iff)

lemma unlink_entry_fields:
  assumes link: "read_link t link = of_nat i" and i: "i < LIVE_CAPACITY"
    and len: "length (lt_entries t) = LIVE_CAPACITY"
    and other: "\<And>j. link = Entry_Link j \<Longrightarrow> j \<noteq> i \<and> j < LIVE_CAPACITY"
  shows "length (lt_entries (unlink_entry t link)) = LIVE_CAPACITY"
    and "length (lt_buckets (unlink_entry t link)) = length (lt_buckets t)"
    and "lt_free_head (unlink_entry t link) = of_nat i"
    and "lt_count (unlink_entry t link) = lt_count t - 1"
    and "lt_entries (unlink_entry t link) ! i = (lt_entries t ! i)\<lparr>le_pointer := NULL, le_next := lt_free_head t\<rparr>"
    and "j < LIVE_CAPACITY \<Longrightarrow> j \<noteq> i \<Longrightarrow> lt_entries (unlink_entry t link) ! j =
      (if link = Entry_Link j then (lt_entries t ! j)\<lparr>le_next := le_next (lt_entries t ! i)\<rparr> else lt_entries t ! j)"
    and "b < length (lt_buckets t) \<Longrightarrow> lt_buckets (unlink_entry t link) ! b =
      (if link = Bucket_Link b then le_next (lt_entries t ! i) else lt_buckets t ! b)"
  using link i len other by (cases link; simp add: unlink_entry_def Let_def)+

lemma unlink_ok:
  assumes ok: "live_ok t" and p: "p \<noteq> NULL"
    and c: "chain (lt_entries t) (lt_buckets t ! pointer_bucket p) (xs @ i # ys)" and d: "distinct (xs @ i # ys)"
    and S: "set (xs @ i # ys) = live_slots t (\<lambda>q. q \<noteq> NULL \<and> pointer_bucket q = pointer_bucket p)"
    and link: "link = (if xs = [] then Bucket_Link (pointer_bucket p) else Entry_Link (last xs))"
    and i: "le_pointer (lt_entries t ! i) = p"
  shows "read_link t link = of_nat i \<and> i < LIVE_CAPACITY \<and> live_ok (unlink_entry t link) \<and>
    (\<forall>j<LIVE_CAPACITY. le_pointer (lt_entries (unlink_entry t link) ! j) =
        (if j = i then NULL else le_pointer (lt_entries t ! j)) \<and>
      live_weight (lt_entries (unlink_entry t link) ! j) = live_weight (lt_entries t ! j))"
proof -
  let ?b = "pointer_bucket p" and ?t = "unlink_entry t link"
  let ?es = "lt_entries t" and ?es' = "lt_entries ?t"
  note len = live_ok_length [OF ok]
  have blen: "length (lt_buckets t) = LIVE_BUCKET_CAPACITY" using ok by (simp add: live_ok_def)
  have rd: "read_link t link = of_nat i" and ib: "i < LIVE_CAPACITY" and tail: "chain ?es (le_next (?es ! i)) ys"
    using chain_split [OF c] link by (auto split: if_splits)
  have last_in: "xs \<noteq> [] \<Longrightarrow> last xs \<in> set xs" by simp
  have other: "j \<noteq> i \<and> j < LIVE_CAPACITY \<and> j \<in> set xs" if "link = Entry_Link j" for j
    using that link last_in d chain_bound [OF c, of j] by (auto split: if_splits)
  note f = unlink_entry_fields [of t link i, OF rd ib len]
  have ptr: "le_pointer (?es' ! j) = (if j = i then NULL else le_pointer (?es ! j))"
    and wgt: "live_weight (?es' ! j) = live_weight (?es ! j)" if "j < LIVE_CAPACITY" for j
    using f(5) f(6) [of j] other that by (cases "j = i"; simp add: live_weight_def)+
  have slots: "live_slots ?t (\<lambda>q. q \<noteq> NULL \<and> Q q) = live_slots t (\<lambda>q. q \<noteq> NULL \<and> Q q) - {i}" for Q
    by (auto simp: live_slots_iff ptr split: if_splits)
  have next_same: "le_next (?es' ! j) = le_next (?es ! j)"
    if "j < LIVE_CAPACITY" "j \<noteq> i" "link \<noteq> Entry_Link j" for j
    using f(6) [of j] other that by simp
  have "live_ok ?t"
  proof (rule live_okI)
    show "length ?es' = LIVE_CAPACITY" "length (lt_buckets ?t) = LIVE_BUCKET_CAPACITY"
      using f(1,2) other blen by simp_all
    show "lt_count ?t = card (live_slots ?t (\<lambda>q. q \<noteq> NULL))"
    proof -
      have "i \<in> live_slots t (\<lambda>q. q \<noteq> NULL)" using i ib p by (simp add: live_slots_iff)
      then show ?thesis
        using f(4) other ok slots [of "\<lambda>_. True"] by (simp add: live_ok_def card_Diff_singleton)
    qed
    show "j = k" if "j < LIVE_CAPACITY" "k < LIVE_CAPACITY" "le_pointer (?es' ! j) \<noteq> NULL"
      "le_pointer (?es' ! j) = le_pointer (?es' ! k)" for j k
      using that live_ok_unique [OF ok, of j k] by (auto simp: ptr split: if_splits)
    show "chain_of ?t (lt_free_head ?t) (live_slots ?t (\<lambda>q. q = NULL))"
    proof -
      obtain fs where fs: "chain ?es (lt_free_head t) fs" "distinct fs" "set fs = live_slots t (\<lambda>q. q = NULL)"
        using ok by (auto simp: live_ok_def chain_of_def)
      have out: "i \<notin> set fs" "link \<noteq> Entry_Link j" if "j \<in> set fs" for j
        using that fs(3) i p other [of j] S by (auto simp: live_slots_iff)
      have "chain ?es' (lt_free_head t) fs"
      proof (rule chain_cong [OF fs(1)])
        show "length ?es' = length ?es" using f(1) other len by simp
        show "le_next (?es' ! j) = le_next (?es ! j)" if "j \<in> set fs" for j
          using that out chain_bound [OF fs(1)] by (intro next_same) auto
      qed
      then have "chain ?es' (of_nat i) (i # fs)" using f(1,5) other ib by simp
      moreover have "set (i # fs) = live_slots ?t (\<lambda>q. q = NULL)"
        using fs(3) ib by (auto simp: live_slots_iff ptr split: if_splits)
      moreover have "i \<notin> set fs" using fs(3) i p by (auto simp: live_slots_iff)
      ultimately show ?thesis
        using f(3) other fs(2) by (intro chain_ofI [of _ _ "i # fs"]) simp_all
    qed
    show "chain_of ?t (lt_buckets ?t ! b) (live_slots ?t (\<lambda>q. q \<noteq> NULL \<and> pointer_bucket q = b))"
      if b: "b < LIVE_BUCKET_CAPACITY" for b
    proof (cases "b = ?b")
      case False
      have "chain_of ?t (lt_buckets t ! b) (live_slots t (\<lambda>q. q \<noteq> NULL \<and> pointer_bucket q = b))"
      proof (rule chain_of_cong [OF live_ok_bucket [OF ok b]])
        show "length ?es' = length ?es" using f(1) other len by simp
        show "le_next (?es' ! j) = le_next (?es ! j)"
          if "j \<in> live_slots t (\<lambda>q. q \<noteq> NULL \<and> pointer_bucket q = b)" for j
        proof (rule next_same)
          show "j < LIVE_CAPACITY" "j \<noteq> i" using that i False by (auto simp: live_slots_iff)
          have "j \<notin> set (xs @ i # ys)" using that False S by (auto simp: live_slots_iff)
          then show "link \<noteq> Entry_Link j" using other by auto
        qed
      qed
      moreover have "lt_buckets ?t ! b = lt_buckets t ! b"
        using f(7) [of b] other b blen False link by (auto split: if_splits)
      moreover have "i \<notin> live_slots t (\<lambda>q. q \<noteq> NULL \<and> pointer_bucket q = b)"
        using i False by (simp add: live_slots_iff)
      ultimately show ?thesis by (simp add: slots)
    next
      case True
      let ?cut = "if xs = [] then ?es else ?es[last xs := (?es ! last xs)\<lparr>le_next := le_next (?es ! i)\<rparr>]"
      have "chain ?cut (lt_buckets ?t ! b) (xs @ ys)"
      proof (cases "xs = []")
        case True
        then show ?thesis using tail f(7) [of b] other b blen link \<open>b = ?b\<close> by simp
      next
        case False
        then show ?thesis using chain_cut [OF c d] f(7) [of b] other b blen link \<open>b = ?b\<close> by simp
      qed
      then have "chain ?es' (lt_buckets ?t ! b) (xs @ ys)"
      proof (rule chain_cong)
        show "length ?es' = length ?cut" using f(1) other len by simp
        show "le_next (?es' ! j) = le_next (?cut ! j)" if "j \<in> set (xs @ ys)" for j
        proof -
          have j: "j < LIVE_CAPACITY" "j \<noteq> i" using that d chain_bound [OF c, of j] by auto
          show ?thesis using f(6) [OF _ j] other j link len by (auto simp: nth_list_update)
        qed
      qed
      moreover have "set (xs @ ys) = live_slots ?t (\<lambda>q. q \<noteq> NULL \<and> pointer_bucket q = b)"
        using S d True by (auto simp: slots)
      ultimately show ?thesis using d by (intro chain_ofI [of _ _ "xs @ ys"]) simp_all
    qed
  qed
  then show ?thesis using rd ib ptr wgt by simp
qed

lemma reweigh_ok:
  assumes ok: "live_ok t" and i: "i < LIVE_CAPACITY"
  shows "live_ok (reweigh_entry t i space objects aggregate) \<and>
    (\<forall>j<LIVE_CAPACITY. le_pointer (lt_entries (reweigh_entry t i space objects aggregate) ! j) = le_pointer (lt_entries t ! j) \<and>
      live_weight (lt_entries (reweigh_entry t i space objects aggregate) ! j) =
        (if j = i then (space, objects, aggregate) else live_weight (lt_entries t ! j)))"
proof -
  let ?t = "reweigh_entry t i space objects aggregate"
  note len = live_ok_length [OF ok]
  have f: "lt_entries ?t ! j = (if j = i then set_weight space objects aggregate (lt_entries t ! i) else lt_entries t ! j)"
    if "j < LIVE_CAPACITY" for j
    using that i len by (simp add: reweigh_entry_def)
  have ptr: "le_pointer (lt_entries ?t ! j) = le_pointer (lt_entries t ! j)"
    and nxt: "le_next (lt_entries ?t ! j) = le_next (lt_entries t ! j)" if "j < LIVE_CAPACITY" for j
    using f [OF that] by (simp_all add: set_weight_def)
  have slots: "live_slots ?t P = live_slots t P" for P
    by (auto simp: live_slots_iff ptr)
  have same: "length (lt_entries ?t) = length (lt_entries t)" "lt_buckets ?t = lt_buckets t"
    "lt_free_head ?t = lt_free_head t" "lt_count ?t = lt_count t"
    by (simp_all add: reweigh_entry_def)
  have cc: "chain_of ?t start (live_slots t P)" if "chain_of t start (live_slots t P)" for start P
    using that same(1) by (rule chain_of_cong) (simp add: live_slots_iff nxt)
  have "live_ok ?t"
    unfolding live_ok_def slots same
    using ok cc by (auto simp: live_ok_def live_slots_iff ptr)
  then show ?thesis using ptr f by (simp add: live_weight_def set_weight_def)
qed

lemma link_ok:
  assumes ok: "live_ok t" and p: "p \<noteq> NULL" and free: "lt_free_head t \<noteq> LP_NO_LIVE_ENTRY"
    and absent: "slot_of t p = None"
  shows "\<exists>i<LIVE_CAPACITY. le_pointer (lt_entries t ! i) = NULL \<and>
    live_ok (link_entry t p space objects aggregate) \<and>
    (\<forall>j<LIVE_CAPACITY. le_pointer (lt_entries (link_entry t p space objects aggregate) ! j) =
        (if j = i then p else le_pointer (lt_entries t ! j)) \<and>
      live_weight (lt_entries (link_entry t p space objects aggregate) ! j) =
        (if j = i then (space, objects, aggregate) else live_weight (lt_entries t ! j)))"
proof -
  let ?b = "pointer_bucket p" and ?t = "link_entry t p space objects aggregate"
  note len = live_ok_length [OF ok]
  have blen: "length (lt_buckets t) = LIVE_BUCKET_CAPACITY" using ok by (simp add: live_ok_def)
  obtain fs where fs: "chain (lt_entries t) (lt_free_head t) fs" "distinct fs" "set fs = live_slots t (\<lambda>q. q = NULL)"
    using ok by (auto simp: live_ok_def chain_of_def)
  obtain i rest where i: "fs = i # rest" using fs(1) free by (cases fs) auto
  have hd: "lt_free_head t = of_nat i" "i < LIVE_CAPACITY" "chain (lt_entries t) (le_next (lt_entries t ! i)) rest"
    using fs(1) i by auto
  have inull: "le_pointer (lt_entries t ! i) = NULL" using fs(3) i by (auto simp: live_slots_iff)
  let ?e = "set_weight space objects aggregate (lt_entries t ! i)\<lparr>le_pointer := p, le_next := lt_buckets t ! ?b\<rparr>"
  have t: "lt_entries ?t = (lt_entries t)[i := ?e]" "lt_buckets ?t = (lt_buckets t)[?b := of_nat i]"
    "lt_free_head ?t = le_next (lt_entries t ! i)" "lt_count ?t = Suc (lt_count t)"
    using hd by (simp_all add: link_entry_def Let_def)
  have ptr: "le_pointer (lt_entries ?t ! j) = (if j = i then p else le_pointer (lt_entries t ! j))"
    and wgt: "live_weight (lt_entries ?t ! j) = (if j = i then (space, objects, aggregate) else live_weight (lt_entries t ! j))"
    if "j < LIVE_CAPACITY" for j
    using that len by (simp_all add: t live_weight_def set_weight_def)
  have slots: "live_slots ?t (\<lambda>q. q \<noteq> NULL \<and> Q q) =
      live_slots t (\<lambda>q. q \<noteq> NULL \<and> Q q) \<union> (if Q p then {i} else {})" for Q
    using hd(2) inull p by (auto simp: live_slots_iff ptr split: if_splits)
  have nxt: "le_next (lt_entries ?t ! j) = le_next (lt_entries t ! j)" if "j \<noteq> i" for j
    using that by (simp add: t)
  have "live_ok ?t"
  proof (rule live_okI)
    show "length (lt_entries ?t) = LIVE_CAPACITY" "length (lt_buckets ?t) = LIVE_BUCKET_CAPACITY"
      using len blen by (simp_all add: t)
    show "lt_count ?t = card (live_slots ?t (\<lambda>q. q \<noteq> NULL))"
      using slots [of "\<lambda>_. True"] ok inull by (simp add: t live_ok_def live_slots_iff)
    show "j = k" if "j < LIVE_CAPACITY" "k < LIVE_CAPACITY" "le_pointer (lt_entries ?t ! j) \<noteq> NULL"
      "le_pointer (lt_entries ?t ! j) = le_pointer (lt_entries ?t ! k)" for j k
      using that live_ok_unique [OF ok that(1,2) refl] absent by (auto simp: ptr slot_of_None split: if_splits)
    have "chain (lt_entries ?t) (le_next (lt_entries t ! i)) rest"
    proof (rule chain_cong [OF hd(3)])
      show "length (lt_entries ?t) = length (lt_entries t)" by (simp add: t(1))
      show "le_next (lt_entries ?t ! j) = le_next (lt_entries t ! j)" if "j \<in> set rest" for j
        using that fs(2) i by (intro nxt) auto
    qed
    moreover have "set rest = live_slots ?t (\<lambda>q. q = NULL)"
    proof -
      have "set rest = set fs - {i}" using fs(2) by (simp add: i)
      also have "\<dots> = live_slots ?t (\<lambda>q. q = NULL)"
        using p by (auto simp: fs(3) live_slots_iff ptr split: if_splits)
      finally show ?thesis .
    qed
    ultimately show "chain_of ?t (lt_free_head ?t) (live_slots ?t (\<lambda>q. q = NULL))"
      using fs(2) i by (intro chain_ofI [of _ _ rest]) (simp_all add: t(3))
    show "chain_of ?t (lt_buckets ?t ! b) (live_slots ?t (\<lambda>q. q \<noteq> NULL \<and> pointer_bucket q = b))"
      if b: "b < LIVE_BUCKET_CAPACITY" for b
    proof -
      have i_out: "i \<notin> live_slots t (\<lambda>q. q \<noteq> NULL \<and> pointer_bucket q = b)"
        using inull by (simp add: live_slots_iff)
      have "chain_of ?t (lt_buckets t ! b) (live_slots t (\<lambda>q. q \<noteq> NULL \<and> pointer_bucket q = b))"
      proof (rule chain_of_cong [OF live_ok_bucket [OF ok b]])
        show "length (lt_entries ?t) = length (lt_entries t)" by (simp add: t(1))
        show "le_next (lt_entries ?t ! j) = le_next (lt_entries t ! j)"
          if "j \<in> live_slots t (\<lambda>q. q \<noteq> NULL \<and> pointer_bucket q = b)" for j
          using that i_out by (intro nxt) auto
      qed
      then obtain "is" where "is": "chain (lt_entries ?t) (lt_buckets t ! b) is" "distinct is"
        "set is = live_slots t (\<lambda>q. q \<noteq> NULL \<and> pointer_bucket q = b)"
        by (auto simp: chain_of_def)
      show ?thesis
      proof (cases "b = ?b")
        case True
        then have "chain (lt_entries ?t) (of_nat i) (i # is)"
          using "is"(1) hd(2) len by (simp add: t(1))
        then show ?thesis
          using "is"(2,3) i_out True b blen slots [of "\<lambda>q. pointer_bucket q = b"]
          by (intro chain_ofI [of _ _ "i # is"]) (simp_all add: t(2))
      next
        case False
        then show ?thesis
          using "is" slots [of "\<lambda>q. pointer_bucket q = b"]
          by (intro chain_ofI [of _ _ "is"]) (simp_all add: t(2))
      qed
    qed
  qed
  then show ?thesis using hd(2) inull ptr wgt by (intro exI [of _ i]) simp
qed

lemma thread_free_chain:
  assumes "thread_free n es head = (es', head')" and "n \<le> length es" and "n \<le> LIVE_CAPACITY"
    and "chain es head rest" and "\<forall>r\<in>set rest. n \<le> r"
  shows "chain es' head' ([0..<n] @ rest) \<and> length es' = length es \<and>
    (\<forall>i. le_pointer (es' ! i) = le_pointer (es ! i))"
  using assms
proof (induction n arbitrary: es head rest)
  case 0
  then show ?case by simp
next
  case (Suc n)
  let ?es = "es[n := (es ! n)\<lparr>le_next := head\<rparr>]"
  have "chain ?es head rest"
    by (rule chain_cong [OF Suc.prems(4)]) (use Suc.prems(5) in \<open>auto simp: nth_list_update\<close>)
  then have "chain ?es (of_nat n) (n # rest)" using Suc.prems(2,3) by simp
  moreover have "\<forall>r\<in>set (n # rest). n \<le> r" using Suc.prems(5) by auto
  ultimately have "chain es' head' ([0..<n] @ n # rest) \<and> length es' = length ?es \<and>
      (\<forall>i. le_pointer (es' ! i) = le_pointer (?es ! i))"
    using Suc.prems(1,2,3) by (intro Suc.IH) simp_all
  moreover have "le_pointer (?es ! i) = le_pointer (es ! i)" for i
    using Suc.prems(2) by (cases "i = n") simp_all
  ultimately show ?case by simp
qed

lemma new_live_table_ok:
  "live_ok new_live_table \<and> (\<forall>i<LIVE_CAPACITY. le_pointer (lt_entries new_live_table ! i) = NULL)"
proof -
  obtain es head where run: "thread_free LIVE_CAPACITY (replicate LIVE_CAPACITY zero_live_entry) LP_NO_LIVE_ENTRY = (es, head)"
    by (cases "thread_free LIVE_CAPACITY (replicate LIVE_CAPACITY zero_live_entry) LP_NO_LIVE_ENTRY")
  have c: "chain es head ([0..<LIVE_CAPACITY] @ [])" "length es = LIVE_CAPACITY"
    "\<And>i. le_pointer (es ! i) = le_pointer (replicate LIVE_CAPACITY zero_live_entry ! i)"
    using thread_free_chain [OF run, of "[]"] by simp_all
  have t: "new_live_table = \<lparr>lt_entries = es, lt_buckets = replicate LIVE_BUCKET_CAPACITY LP_NO_LIVE_ENTRY,
      lt_free_head = head, lt_count = 0\<rparr>"
    by (simp add: new_live_table_def run)
  have null: "le_pointer (es ! i) = NULL" if "i < LIVE_CAPACITY" for i
    using c(3) [of i] that by (simp add: zero_live_entry_def)
  have used: "live_slots new_live_table (\<lambda>q. q \<noteq> NULL \<and> Q q) = {}" for Q
    by (auto simp: live_slots_iff t null)
  have "live_ok new_live_table"
  proof (rule live_okI)
    show "chain_of new_live_table (lt_free_head new_live_table) (live_slots new_live_table (\<lambda>q. q = NULL))"
      using c by (intro chain_ofI [of _ _ "[0..<LIVE_CAPACITY]"]) (auto simp: t live_slots_iff zero_live_entry_def)
    show "lt_count new_live_table = card (live_slots new_live_table (\<lambda>p. p \<noteq> NULL))"
      using used [of "\<lambda>_. True"] by (simp add: t)
    show "chain_of new_live_table (lt_buckets new_live_table ! b)
        (live_slots new_live_table (\<lambda>p. p \<noteq> NULL \<and> pointer_bucket p = b))"
      if "b < LIVE_BUCKET_CAPACITY" for b
      using that used by (intro chain_ofI [of _ _ "[]"]) (simp_all add: t)
  qed (simp_all add: t c zero_live_entry_def)
  then show ?thesis using null by (simp add: t)
qed

section \<open>The operations\<close>

text \<open>
  \<open>remove_live\<close> and \<open>add_live\<close> as far as they concern the table; the caller's part (theory
  \<open>Memory_Core\<close>) moves the weights they report in or out of the totals.
\<close>

definition live_remove :: "live_table \<Rightarrow> pointer \<Rightarrow> (live_table \<times> (u64 \<times> u64 \<times> u32) option) option" where
  "live_remove t pointer =
     (case find_link t pointer (Bucket_Link (pointer_bucket pointer)) of
        None \<Rightarrow> None
      | Some None \<Rightarrow> Some (t, None)
      | Some (Some link) \<Rightarrow>
          Some (unlink_entry t link, Some (live_weight (lt_entries t ! unat (read_link t link)))))"

datatype live_added = Replaced "u64 \<times> u64 \<times> u32" | Table_Full | Linked

definition live_add :: "live_table \<Rightarrow> pointer \<Rightarrow> u64 \<times> u64 \<times> u32 \<Rightarrow> (live_table \<times> live_added) option" where
  "live_add t pointer weight =
     (case weight of (space, objects, aggregate) \<Rightarrow>
        case find_entry t pointer (lt_buckets t ! pointer_bucket pointer) of
          None \<Rightarrow> None
        | Some (Some index) \<Rightarrow>
            Some (reweigh_entry t index space objects aggregate, Replaced (live_weight (lt_entries t ! index)))
        | Some None \<Rightarrow>
            if lt_free_head t = LP_NO_LIVE_ENTRY then Some (t, Table_Full)
            else Some (link_entry t pointer space objects aggregate, Linked))"

section \<open>The contract\<close>

text \<open>
  A table of live allocations as its client sees it: a finite map from pointers to weights of
  limited size, with a removal that reports the weight removed and an insertion that reports
  whether a weight was replaced, added, or the table is full.
\<close>

locale live_map =
  fixes inv :: "'t \<Rightarrow> bool"
    and entry_of :: "'t \<Rightarrow> pointer \<Rightarrow> (u64 \<times> u64 \<times> u32) option"
    and capacity :: nat
    and count :: "'t \<Rightarrow> nat"
    and remove :: "'t \<Rightarrow> pointer \<Rightarrow> ('t \<times> (u64 \<times> u64 \<times> u32) option) option"
    and add :: "'t \<Rightarrow> pointer \<Rightarrow> u64 \<times> u64 \<times> u32 \<Rightarrow> ('t \<times> live_added) option"
  assumes finite_entries: "inv t \<Longrightarrow> finite (dom (entry_of t))"
    and count_entries: "inv t \<Longrightarrow> count t = card (dom (entry_of t)) \<and> count t \<le> capacity"
    and remove_law: "inv t \<Longrightarrow> p \<noteq> NULL \<Longrightarrow>
      \<exists>t'. remove t p = Some (t', entry_of t p) \<and> inv t' \<and> entry_of t' = (entry_of t)(p := None)"
    and add_law: "inv t \<Longrightarrow> p \<noteq> NULL \<Longrightarrow>
      \<exists>t' r. add t p w = Some (t', r) \<and> inv t' \<and>
        r = (case entry_of t p of Some old \<Rightarrow> Replaced old
             | None \<Rightarrow> if count t = capacity then Table_Full else Linked) \<and>
        entry_of t' = (if r = Table_Full then entry_of t else (entry_of t)(p \<mapsto> w))"
begin

text \<open>A total over the live entries.\<close>

definition total :: "'t \<Rightarrow> (u64 \<times> u64 \<times> u32 \<Rightarrow> nat) \<Rightarrow> nat" where
  "total t f = (\<Sum>p\<in>dom (entry_of t). f (the (entry_of t p)))"

lemma total_forget:
  assumes "inv t" and "entry_of t' = (entry_of t)(p := None)"
  shows "total t f = total t' f + (case entry_of t p of None \<Rightarrow> 0 | Some w \<Rightarrow> f w)"
proof (cases "entry_of t p")
  case None
  then have "entry_of t' = entry_of t" using assms(2) by auto
  then show ?thesis using None by (simp add: total_def)
next
  case (Some w)
  have "total t f = f w + (\<Sum>q\<in>dom (entry_of t) - {p}. f (the (entry_of t q)))"
    unfolding total_def using finite_entries [OF assms(1)] Some by (subst sum.remove [of _ p]) auto
  also have "(\<Sum>q\<in>dom (entry_of t) - {p}. f (the (entry_of t q))) = total t' f"
    unfolding total_def assms(2) by (rule sum.cong) auto
  finally show ?thesis using Some by simp
qed

lemma total_member: "inv t \<Longrightarrow> entry_of t p = Some w \<Longrightarrow> f w \<le> total t f"
  unfolding total_def using finite_entries [of t] member_le_sum [of p "dom (entry_of t)" "\<lambda>p. f (the (entry_of t p))"]
  by force

lemma total_set:
  assumes "inv t" and "entry_of t' = (entry_of t)(p \<mapsto> w)"
  shows "total t' f + (case entry_of t p of None \<Rightarrow> 0 | Some old \<Rightarrow> f old) = total t f + f w"
proof -
  have rest: "(\<Sum>q\<in>dom (entry_of t) - {p}. f (the (entry_of t' q))) =
      (\<Sum>q\<in>dom (entry_of t) - {p}. f (the (entry_of t q)))"
    unfolding assms(2) by (rule sum.cong) auto
  have "total t' f = f w + (\<Sum>q\<in>dom (entry_of t) - {p}. f (the (entry_of t' q)))"
    unfolding total_def using finite_entries [OF assms(1)] assms(2)
    by (subst sum.remove [of _ p]) (auto intro!: sum.cong)
  moreover have "total t f = (case entry_of t p of None \<Rightarrow> 0 | Some old \<Rightarrow> f old) +
      (\<Sum>q\<in>dom (entry_of t) - {p}. f (the (entry_of t q)))"
  proof (cases "entry_of t p")
    case None
    then have "dom (entry_of t) - {p} = dom (entry_of t)" by auto
    then show ?thesis using None by (simp add: total_def)
  next
    case (Some old)
    then show ?thesis
      unfolding total_def using finite_entries [OF assms(1)] by (subst sum.remove [of _ p]) auto
  qed
  ultimately show ?thesis using rest by simp
qed

end

section \<open>The table fulfils the contract\<close>

definition live_entry :: "live_table \<Rightarrow> pointer \<Rightarrow> (u64 \<times> u64 \<times> u32) option" where
  "live_entry t p =
     (if p = NULL then None else map_option (\<lambda>i. live_weight (lt_entries t ! i)) (slot_of t p))"

lemma live_entry_slot:
  assumes "live_ok t" and "p \<noteq> NULL"
  shows "live_entry t p = Some w \<longleftrightarrow>
    (\<exists>i<LIVE_CAPACITY. le_pointer (lt_entries t ! i) = p \<and> live_weight (lt_entries t ! i) = w)"
  using slot_of_iff [OF assms] assms(2) by (auto simp: live_entry_def)

lemma live_entry_dom:
  assumes "live_ok t"
  shows "bij_betw (\<lambda>i. le_pointer (lt_entries t ! i)) (live_slots t (\<lambda>p. p \<noteq> NULL)) (dom (live_entry t))"
proof -
  have "inj_on (\<lambda>i. le_pointer (lt_entries t ! i)) (live_slots t (\<lambda>p. p \<noteq> NULL))"
    using live_ok_unique [OF assms] by (auto simp: inj_on_def live_slots_iff)
  moreover have "p \<in> dom (live_entry t) \<longleftrightarrow>
      p \<in> (\<lambda>i. le_pointer (lt_entries t ! i)) ` live_slots t (\<lambda>p. p \<noteq> NULL)" for p
  proof (cases "p = NULL")
    case True
    then show ?thesis by (auto simp: live_entry_def live_slots_iff)
  next
    case False
    then have "p \<in> dom (live_entry t) \<longleftrightarrow> slot_of t p \<noteq> None" by (simp add: live_entry_def domIff)
    also have "\<dots> \<longleftrightarrow> (\<exists>i<LIVE_CAPACITY. le_pointer (lt_entries t ! i) = p)" by (auto simp: slot_of_None)
    finally show ?thesis using False by (auto simp: live_slots_iff)
  qed
  ultimately show ?thesis by (auto simp: bij_betw_def)
qed

lemma live_entry_eqI:
  assumes "live_ok t'" and "\<And>q. q \<noteq> NULL \<Longrightarrow> live_entry t' q = m q" and "m NULL = None"
  shows "live_entry t' = m"
proof
  fix q
  show "live_entry t' q = m q"
  proof (cases "q = NULL")
    case True
    then show ?thesis by (simp add: assms(3) live_entry_def)
  next
    case False
    then show ?thesis by (rule assms(2))
  qed
qed

lemma live_count_dom:
  assumes "live_ok t"
  shows "lt_count t = card (dom (live_entry t)) \<and> lt_count t \<le> LIVE_CAPACITY"
proof -
  have "live_slots t (\<lambda>p. p \<noteq> NULL) \<subseteq> {..<LIVE_CAPACITY}" by (auto simp: live_slots_iff)
  then have "card (live_slots t (\<lambda>p. p \<noteq> NULL)) \<le> card {..<LIVE_CAPACITY}" by (intro card_mono) simp_all
  then show ?thesis
    using assms bij_betw_same_card [OF live_entry_dom [OF assms]] by (simp add: live_ok_def)
qed

lemma live_full_iff:
  assumes "live_ok t"
  shows "lt_free_head t = LP_NO_LIVE_ENTRY \<longleftrightarrow> lt_count t = LIVE_CAPACITY"
proof -
  obtain fs where fs: "chain (lt_entries t) (lt_free_head t) fs" "set fs = live_slots t (\<lambda>q. q = NULL)"
    using assms by (auto simp: live_ok_def chain_of_def)
  have "lt_free_head t = LP_NO_LIVE_ENTRY \<longleftrightarrow> fs = []"
    using fs(1) by (cases fs) auto
  also have "\<dots> \<longleftrightarrow> live_slots t (\<lambda>q. q = NULL) = {}" using fs(2) by auto
  also have "\<dots> \<longleftrightarrow> live_slots t (\<lambda>q. q \<noteq> NULL) = {..<LIVE_CAPACITY}" by (auto simp: live_slots_def)
  also have "\<dots> \<longleftrightarrow> card (live_slots t (\<lambda>q. q \<noteq> NULL)) = card {..<LIVE_CAPACITY}"
  proof
    assume c: "card (live_slots t (\<lambda>q. q \<noteq> NULL)) = card {..<LIVE_CAPACITY}"
    have "live_slots t (\<lambda>q. q \<noteq> NULL) \<subseteq> {..<LIVE_CAPACITY}" by (auto simp: live_slots_iff)
    with c show "live_slots t (\<lambda>q. q \<noteq> NULL) = {..<LIVE_CAPACITY}" by (intro card_subset_eq) simp_all
  qed simp
  also have "\<dots> \<longleftrightarrow> lt_count t = LIVE_CAPACITY" using assms by (simp add: live_ok_def)
  finally show ?thesis .
qed

lemma live_remove_law:
  assumes ok: "live_ok t" and p: "p \<noteq> NULL"
  shows "\<exists>t'. live_remove t p = Some (t', live_entry t p) \<and> live_ok t' \<and>
    live_entry t' = (live_entry t)(p := None)"
proof (cases "slot_of t p")
  case None
  then have "live_entry t p = None" by (simp add: live_entry_def)
  then show ?thesis
    using find_link_slot(1) [OF ok p None] ok by (simp add: live_remove_def fun_upd_idem)
next
  case (Some i)
  have i: "i < LIVE_CAPACITY" "le_pointer (lt_entries t ! i) = p" using Some slot_of_iff [OF ok p] by auto
  from find_link_slot(2) [OF ok p Some] obtain xs ys link where l:
    "find_link t p (Bucket_Link (pointer_bucket p)) = Some (Some link)"
    "link = (if xs = [] then Bucket_Link (pointer_bucket p) else Entry_Link (last xs))"
    "chain (lt_entries t) (lt_buckets t ! pointer_bucket p) (xs @ i # ys)" "distinct (xs @ i # ys)"
    "set (xs @ i # ys) = live_slots t (\<lambda>q. q \<noteq> NULL \<and> pointer_bucket q = pointer_bucket p)"
    by blast
  note u = unlink_ok [OF ok p l(3,4,5,2) i(2)]
  let ?t = "unlink_entry t link"
  have ok': "live_ok ?t" using u by simp
  have "live_remove t p = Some (?t, live_entry t p)"
    using l(1) u Some p i by (simp add: live_remove_def live_entry_def)
  moreover have "live_entry ?t = (live_entry t)(p := None)"
  proof (rule live_entry_eqI [OF ok'])
    fix q :: pointer assume q: "q \<noteq> NULL"
    show "live_entry ?t q = ((live_entry t)(p := None)) q"
    proof (cases "q = p")
      case True
      have "le_pointer (lt_entries ?t ! j) \<noteq> p" if "j < LIVE_CAPACITY" for j
        using u that p live_ok_unique [OF ok that i(1), of p] i(2) by auto
      then show ?thesis using True by (simp add: live_entry_def slot_of_None)
    next
      case False
      have "live_entry ?t q = Some w \<longleftrightarrow> live_entry t q = Some w" for w
        unfolding live_entry_slot [OF ok q] live_entry_slot [OF ok' q]
        using u i(2) q False by auto
      then show ?thesis using False by (metis fun_upd_other option.exhaust)
    qed
  qed (simp add: live_entry_def)
  ultimately show ?thesis using ok' by blast
qed

lemma live_entry_set:
  assumes ok: "live_ok t" and ok': "live_ok t'" and p: "p \<noteq> NULL" and i: "i < LIVE_CAPACITY"
    and ptr: "\<And>j. j < LIVE_CAPACITY \<Longrightarrow> le_pointer (lt_entries t' ! j) = (if j = i then p else le_pointer (lt_entries t ! j))"
    and wgt: "\<And>j. j < LIVE_CAPACITY \<Longrightarrow> live_weight (lt_entries t' ! j) = (if j = i then w else live_weight (lt_entries t ! j))"
    and old: "le_pointer (lt_entries t ! i) = p \<or> le_pointer (lt_entries t ! i) = NULL"
  shows "live_entry t' = (live_entry t)(p \<mapsto> w)"
proof (rule live_entry_eqI [OF ok'])
  fix q :: pointer assume q: "q \<noteq> NULL"
  show "live_entry t' q = ((live_entry t)(p \<mapsto> w)) q"
  proof (cases "q = p")
    case True
    have "live_entry t' p = Some w" unfolding live_entry_slot [OF ok' p] using i ptr wgt by auto
    then show ?thesis using True by simp
  next
    case False
    have "live_entry t' q = Some v \<longleftrightarrow> live_entry t q = Some v" for v
      unfolding live_entry_slot [OF ok q] live_entry_slot [OF ok' q] using old q False ptr wgt by auto
    then show ?thesis using False by (metis fun_upd_other option.exhaust)
  qed
qed (use p in \<open>simp add: live_entry_def\<close>)

lemma live_add_law:
  assumes ok: "live_ok t" and p: "p \<noteq> NULL"
  shows "\<exists>t' r. live_add t p w = Some (t', r) \<and> live_ok t' \<and>
    r = (case live_entry t p of Some old \<Rightarrow> Replaced old
         | None \<Rightarrow> if lt_count t = LIVE_CAPACITY then Table_Full else Linked) \<and>
    live_entry t' = (if r = Table_Full then live_entry t else (live_entry t)(p \<mapsto> w))"
proof -
  obtain space objects aggregate where w: "w = (space, objects, aggregate)" by (cases w)
  note walk = find_entry_slot [OF ok p]
  show ?thesis
  proof (cases "slot_of t p")
    case (Some i)
    have i: "i < LIVE_CAPACITY" "le_pointer (lt_entries t ! i) = p" using Some slot_of_iff [OF ok p] by auto
    note r = reweigh_ok [OF ok i(1), of space objects aggregate]
    have "live_entry (reweigh_entry t i space objects aggregate) = (live_entry t)(p \<mapsto> w)"
      using r i by (intro live_entry_set [OF ok _ p i(1)]) (auto simp: w)
    moreover have "live_entry t p = Some (live_weight (lt_entries t ! i))"
      using Some p by (simp add: live_entry_def)
    ultimately show ?thesis using walk Some r by (simp add: live_add_def w)
  next
    case None
    then have absent: "live_entry t p = None" by (simp add: live_entry_def)
    show ?thesis
    proof (cases "lt_free_head t = LP_NO_LIVE_ENTRY")
      case True
      then show ?thesis using walk None ok absent live_full_iff [OF ok] by (simp add: live_add_def w)
    next
      case False
      from link_ok [OF ok p False None, of space objects aggregate] obtain i where i:
        "i < LIVE_CAPACITY" "le_pointer (lt_entries t ! i) = NULL"
        "live_ok (link_entry t p space objects aggregate)"
        "\<forall>j<LIVE_CAPACITY. le_pointer (lt_entries (link_entry t p space objects aggregate) ! j) =
           (if j = i then p else le_pointer (lt_entries t ! j)) \<and>
         live_weight (lt_entries (link_entry t p space objects aggregate) ! j) =
           (if j = i then (space, objects, aggregate) else live_weight (lt_entries t ! j))"
        by blast
      have "live_entry (link_entry t p space objects aggregate) = (live_entry t)(p \<mapsto> w)"
        using i by (intro live_entry_set [OF ok _ p i(1)]) (auto simp: w)
      then show ?thesis
        using walk None i(3) absent False live_full_iff [OF ok] by (simp add: live_add_def w)
    qed
  qed
qed

lemma new_live_table_empty: "live_entry new_live_table q = None \<and> lt_count new_live_table = 0"
proof -
  have none: "live_entry new_live_table r = None" for r
    using new_live_table_ok by (auto simp: live_entry_def slot_of_None)
  then have "dom (live_entry new_live_table) = {}" by auto
  then have "lt_count new_live_table = 0" using live_count_dom new_live_table_ok by fastforce
  with none show ?thesis by simp
qed

interpretation live: live_map live_ok live_entry LIVE_CAPACITY lt_count live_remove live_add
proof
  fix t p w
  assume ok: "live_ok t"
  show "finite (dom (live_entry t))"
    using bij_betw_finite [OF live_entry_dom [OF ok]] by simp
  show "lt_count t = card (dom (live_entry t)) \<and> lt_count t \<le> LIVE_CAPACITY"
    by (rule live_count_dom [OF ok])
  show "\<exists>t'. live_remove t p = Some (t', live_entry t p) \<and> live_ok t' \<and> live_entry t' = (live_entry t)(p := None)"
    if "p \<noteq> NULL" by (rule live_remove_law [OF ok that])
  show "\<exists>t' r. live_add t p w = Some (t', r) \<and> live_ok t' \<and>
      r = (case live_entry t p of Some old \<Rightarrow> Replaced old
           | None \<Rightarrow> if lt_count t = LIVE_CAPACITY then Table_Full else Linked) \<and>
      live_entry t' = (if r = Table_Full then live_entry t else (live_entry t)(p \<mapsto> w))"
    if "p \<noteq> NULL" by (rule live_add_law [OF ok that])
qed

end
