(* ===== verification/Memory_Core.thy ===== *)
theory Memory_Core
  imports Symbol_Store Live_Map
begin

text \<open>
  The memory profile of \<open>src/memory_core.c\<close>: byte-driven sampling, stack aggregates over the
  symbol store, and the table of tracked live allocations. \<open>stats.symbol_overflows\<close> is kept
  with the symbol store (\<open>ss_overflows\<close>), \<open>live_entries\<close>, \<open>live_buckets\<close>, \<open>live_free_head\<close> and
  \<open>live_count\<close> are the option \<open>mp_live\<close> (\<open>None\<close> when the two arrays are not allocated). An
  operation that walks the live table returns an option, \<open>None\<close> for a walk that does not end;
  it is shown never to be \<open>None\<close>. Arithmetic on doubles is a parameter (record \<open>doubles\<close>).

  Shown here: the invariant of the profile under every operation, the four allocation totals
  against the exported aggregates, the two in-use totals against the live table and the
  exported aggregates while the allocation totals have not saturated, and the sampler.
\<close>

definition MEMORY_MAX_STACK_DEPTH :: nat where "MEMORY_MAX_STACK_DEPTH = 64"
definition MEMORY_AGGREGATE_BITS :: nat where "MEMORY_AGGREGATE_BITS = 11"
definition MEMORY_AGGREGATE_CAPACITY :: nat where "MEMORY_AGGREGATE_CAPACITY = 2048"

lemmas memory_limits = MEMORY_MAX_STACK_DEPTH_def MEMORY_AGGREGATE_BITS_def MEMORY_AGGREGATE_CAPACITY_def

section \<open>State\<close>

text \<open>The operations on \<open>double\<close>: conversions, a literal, arithmetic, comparisons and \<open>libm\<close>.\<close>

record 'd doubles =
  d_literal :: "int \<Rightarrow> 'd"
  d_of_u64 :: "u64 \<Rightarrow> 'd"
  d_to_u64 :: "'d \<Rightarrow> u64"
  d_neg :: "'d \<Rightarrow> 'd"
  d_add :: "'d \<Rightarrow> 'd \<Rightarrow> 'd"
  d_sub :: "'d \<Rightarrow> 'd \<Rightarrow> 'd"
  d_mul :: "'d \<Rightarrow> 'd \<Rightarrow> 'd"
  d_div :: "'d \<Rightarrow> 'd \<Rightarrow> 'd"
  d_less :: "'d \<Rightarrow> 'd \<Rightarrow> bool"
  d_le :: "'d \<Rightarrow> 'd \<Rightarrow> bool"
  d_floor :: "'d \<Rightarrow> 'd"
  d_log :: "'d \<Rightarrow> 'd"
  d_log1p :: "'d \<Rightarrow> 'd"
  d_expm1 :: "'d \<Rightarrow> 'd"

record lp_memory_aggregate =
  ma_hash :: u64
  ma_alloc_space :: u64
  ma_alloc_objects :: u64
  ma_inuse_space :: u64
  ma_inuse_objects :: u64
  ma_sampled_bytes :: u64
  ma_sample_count :: u64
  ma_depth :: u16
  ma_used :: bool
  ma_frames :: "lp_compact_frame list"

definition zero_memory_aggregate :: lp_memory_aggregate where
  "zero_memory_aggregate = \<lparr>ma_hash = 0, ma_alloc_space = 0, ma_alloc_objects = 0,
     ma_inuse_space = 0, ma_inuse_objects = 0, ma_sampled_bytes = 0, ma_sample_count = 0,
     ma_depth = 0, ma_used = False, ma_frames = []\<rparr>"

record lp_memory_profile =
  mp_store :: lp_symbol_store
  mp_aggregates :: "lp_memory_aggregate list"
  mp_live :: "live_table option"
  mp_sample_bytes :: u64
  mp_random_state :: u64
  mp_weight_random_state :: u64
  mp_bytes_until_sample :: u64
  mp_aggregate_count :: nat
  mp_stats :: lp_result_stats

section \<open>The sampler\<close>

text \<open>Both generators: add the increment to the state and mix the sum.\<close>

abbreviation (input) random_increment :: u64 where "random_increment \<equiv> 0x9e3779b97f4a7c15"

definition mix_random :: "u64 \<Rightarrow> u64" where
  "mix_random state =
     (let v1 = (state XOR drop_bit 30 state) * 0xbf58476d1ce4e5b9;
          v2 = (v1 XOR drop_bit 27 v1) * 0x94d049bb133111eb
      in v2 XOR drop_bit 31 v2)"

definition next_random :: "lp_memory_profile \<Rightarrow> lp_memory_profile \<times> u64" where
  "next_random profile =
     (let state = mp_random_state profile + random_increment
      in (profile\<lparr>mp_random_state := state\<rparr>, mix_random state))"

definition lp_memory_geometric_interval :: "'d doubles \<Rightarrow> u64 \<Rightarrow> u64 \<Rightarrow> u64" where
  "lp_memory_geometric_interval d mean random_bits =
     (if mean \<le> 1 then 1
      else
        let units = d_literal d 9007199254740993;
            uniform = d_div d (d_add d (d_of_u64 d (drop_bit 11 random_bits)) (d_literal d 1)) units;
            log_survival = d_log1p d (d_div d (d_neg d (d_literal d 1)) (d_of_u64 d mean));
            interval = d_add d (d_floor d (d_div d (d_log d uniform) log_survival)) (d_literal d 1)
        in if d_le d (d_of_u64 d UINT64_MAX) interval then UINT64_MAX
           else if d_le d interval (d_literal d 1) then 1
           else d_to_u64 d interval)"

definition lp_memory_sample_probability :: "'d doubles \<Rightarrow> u64 \<Rightarrow> u64 \<Rightarrow> 'd" where
  "lp_memory_sample_probability d mean allocation_size =
     (if allocation_size = 0 then d_literal d 0
      else if mean \<le> 1 then d_literal d 1
      else
        let exponent = d_mul d (d_of_u64 d allocation_size)
              (d_log1p d (d_div d (d_neg d (d_literal d 1)) (d_of_u64 d mean)));
            probability = d_neg d (d_expm1 d exponent)
        in if d_less d (d_literal d 1) probability then d_literal d 1 else probability)"

definition randomized_weight :: "'d doubles \<Rightarrow> lp_memory_profile \<Rightarrow> 'd \<Rightarrow> lp_memory_profile \<times> u64" where
  "randomized_weight d profile value =
     (if d_le d (d_of_u64 d UINT64_MAX) value then (profile, UINT64_MAX)
      else if d_le d value (d_literal d 1) then (profile, 1)
      else
        let integral = d_to_u64 d value;
            fraction = d_sub d value (d_of_u64 d integral);
            state = mp_weight_random_state profile + random_increment;
            random = mix_random state;
            uniform = d_div d (d_of_u64 d (drop_bit 11 random)) (d_literal d 9007199254740992)
        in (profile\<lparr>mp_weight_random_state := state\<rparr>,
            integral + (if d_less d uniform fraction then 1 else 0)))"

text \<open>The result, when true, carries the two weights; the callers pass both output pointers.\<close>

definition lp_memory_profile_should_sample ::
  "'d doubles \<Rightarrow> lp_memory_profile \<Rightarrow> u64 \<Rightarrow> lp_memory_profile \<times> (u64 \<times> u64) option" where
  "lp_memory_profile_should_sample d profile allocation_size =
     (if allocation_size = 0 then (profile, None)
      else if allocation_size < mp_bytes_until_sample profile
      then (profile\<lparr>mp_bytes_until_sample := mp_bytes_until_sample profile - allocation_size\<rparr>, None)
      else
        let (profile1, random) = next_random profile;
            profile2 = profile1\<lparr>mp_bytes_until_sample :=
              lp_memory_geometric_interval d (mp_sample_bytes profile1) random\<rparr>;
            probability = lp_memory_sample_probability d (mp_sample_bytes profile2) allocation_size;
            (profile3, weighted_space) =
              randomized_weight d profile2 (d_div d (d_of_u64 d allocation_size) probability);
            (profile4, weighted_objects) =
              randomized_weight d profile3 (d_div d (d_literal d 1) probability)
        in (profile4, Some (weighted_space, weighted_objects)))"

section \<open>Live allocations\<close>

definition subtract_live_weight :: "u64 \<times> u64 \<times> u32 \<Rightarrow> lp_memory_profile \<Rightarrow> lp_memory_profile" where
  "subtract_live_weight weight profile =
     (case weight of (space, objects, aggregate_index) \<Rightarrow>
        let i = unat aggregate_index;
            profile1 =
              (if i < MEMORY_AGGREGATE_CAPACITY
               then let a = mp_aggregates profile ! i
                    in profile\<lparr>mp_aggregates := (mp_aggregates profile)
                         [i := a\<lparr>ma_inuse_space := saturating_subtract (ma_inuse_space a) space,
                                 ma_inuse_objects := saturating_subtract (ma_inuse_objects a) objects\<rparr>]\<rparr>
               else profile);
            s = mp_stats profile1
        in profile1\<lparr>mp_stats := s\<lparr>st_inuse_space := saturating_subtract (st_inuse_space s) space,
             st_inuse_objects := saturating_subtract (st_inuse_objects s) objects\<rparr>\<rparr>)"

definition remove_live :: "lp_memory_profile \<Rightarrow> pointer \<Rightarrow> lp_memory_profile option" where
  "remove_live profile pointer =
     (case mp_live profile of
        None \<Rightarrow> Some profile
      | Some t \<Rightarrow>
          if pointer = NULL then Some profile
          else case live_remove t pointer of
                 None \<Rightarrow> None
               | Some (t', None) \<Rightarrow> Some profile
               | Some (t', Some weight) \<Rightarrow>
                   Some ((subtract_live_weight weight profile)\<lparr>mp_live := Some t'\<rparr>))"

text \<open>The code after the label \<open>add_weight\<close>.\<close>

definition add_weight :: "nat \<Rightarrow> u64 \<Rightarrow> u64 \<Rightarrow> lp_memory_profile \<Rightarrow> lp_memory_profile" where
  "add_weight i space objects profile =
     (let a = mp_aggregates profile ! i; s = mp_stats profile
      in profile\<lparr>mp_aggregates := (mp_aggregates profile)
             [i := a\<lparr>ma_inuse_space := saturating_add (ma_inuse_space a) space,
                     ma_inuse_objects := saturating_add (ma_inuse_objects a) objects\<rparr>],
           mp_stats := s\<lparr>st_inuse_space := saturating_add (st_inuse_space s) space,
             st_inuse_objects := saturating_add (st_inuse_objects s) objects\<rparr>\<rparr>)"

definition add_live ::
  "lp_memory_profile \<Rightarrow> pointer \<Rightarrow> u32 \<Rightarrow> u64 \<Rightarrow> u64 \<Rightarrow> lp_memory_profile option" where
  "add_live profile pointer aggregate_index weighted_space weighted_objects =
     (case mp_live profile of
        None \<Rightarrow> Some profile
      | Some t \<Rightarrow>
          if pointer = NULL then Some profile
          else case live_add t pointer (weighted_space, weighted_objects, aggregate_index) of
                 None \<Rightarrow> None
               | Some (t', Table_Full) \<Rightarrow>
                   Some (profile\<lparr>mp_stats := (mp_stats profile)
                     \<lparr>st_live_map_overflows := saturating_add (st_live_map_overflows (mp_stats profile)) 1\<rparr>\<rparr>)
               | Some (t', Linked) \<Rightarrow>
                   Some (add_weight (unat aggregate_index) weighted_space weighted_objects
                           (profile\<lparr>mp_live := Some t'\<rparr>))
               | Some (t', Replaced old) \<Rightarrow>
                   Some (add_weight (unat aggregate_index) weighted_space weighted_objects
                           ((subtract_live_weight old profile)\<lparr>mp_live := Some t'\<rparr>)))"

section \<open>Operations\<close>

text \<open>The state \<open>lp_memory_profile_new\<close> builds before it draws the first interval.\<close>

definition zero_memory_profile :: "u64 \<Rightarrow> u64 \<Rightarrow> bool \<Rightarrow> lp_memory_profile" where
  "zero_memory_profile sample_bytes seed track_free =
     \<lparr>mp_store = new_store,
      mp_aggregates = replicate MEMORY_AGGREGATE_CAPACITY zero_memory_aggregate,
      mp_live = (if track_free then Some new_live_table else None),
      mp_sample_bytes = sample_bytes, mp_random_state = seed,
      mp_weight_random_state = seed XOR 0xd1b54a32d192ed03, mp_bytes_until_sample = 0,
      mp_aggregate_count = 0, mp_stats = zero_stats\<rparr>"

text \<open>\<open>got_profile\<close> and \<open>got_arrays\<close> say whether the allocations succeed.\<close>

definition lp_memory_profile_new ::
  "'d doubles \<Rightarrow> bool \<Rightarrow> bool \<Rightarrow> u64 \<Rightarrow> u64 \<Rightarrow> bool \<Rightarrow> lp_memory_profile option" where
  "lp_memory_profile_new d got_profile got_arrays sample_bytes seed track_free =
     (if sample_bytes = 0 then None
      else if \<not> got_profile then None
      else if \<not> got_arrays then None
      else
        let (profile, random) = next_random (zero_memory_profile sample_bytes seed track_free)
        in Some (profile\<lparr>mp_bytes_until_sample := lp_memory_geometric_interval d sample_bytes random\<rparr>))"

definition lp_memory_profile_finish :: "lp_memory_profile \<Rightarrow> lp_memory_profile" where
  "lp_memory_profile_finish profile = profile\<lparr>mp_live := None\<rparr>"

definition lp_memory_profile_allocation_event ::
  "lp_memory_profile \<Rightarrow> pointer \<Rightarrow> pointer \<Rightarrow> u64 \<Rightarrow> bool \<Rightarrow> lp_memory_profile option" where
  "lp_memory_profile_allocation_event profile old_pointer new_pointer new_size success =
     (if mp_live profile = None \<or> \<not> success \<or> old_pointer = NULL then Some profile
      else if (new_pointer = NULL \<and> new_size = 0) \<or> (new_pointer \<noteq> NULL \<and> new_size \<noteq> 0)
      then remove_live profile old_pointer
      else Some profile)"

definition memory_aggregate_matches :: "lp_memory_aggregate \<Rightarrow> lp_compact_frame list \<Rightarrow> bool" where
  "memory_aggregate_matches aggregate frames \<longleftrightarrow>
     unat (ma_depth aggregate) = length frames \<and>
     take (length frames) (ma_frames aggregate) = frames"

text \<open>The bodies of the two branches of the probe loop: a matching slot, and a free one.\<close>

definition grow_aggregate :: "u64 \<Rightarrow> u64 \<Rightarrow> u64 \<Rightarrow> lp_memory_aggregate \<Rightarrow> lp_memory_aggregate" where
  "grow_aggregate weighted_space weighted_objects allocation_size a =
     a\<lparr>ma_alloc_space := saturating_add (ma_alloc_space a) weighted_space,
       ma_alloc_objects := saturating_add (ma_alloc_objects a) weighted_objects,
       ma_sampled_bytes := saturating_add (ma_sampled_bytes a) allocation_size,
       ma_sample_count := saturating_add (ma_sample_count a) 1\<rparr>"

definition fill_aggregate ::
  "u64 \<Rightarrow> lp_compact_frame list \<Rightarrow> u64 \<Rightarrow> u64 \<Rightarrow> u64 \<Rightarrow> lp_memory_aggregate \<Rightarrow> lp_memory_aggregate" where
  "fill_aggregate hash compact weighted_space weighted_objects allocation_size a =
     a\<lparr>ma_used := True, ma_hash := hash, ma_alloc_space := weighted_space,
       ma_alloc_objects := weighted_objects, ma_sampled_bytes := allocation_size,
       ma_sample_count := 1, ma_depth := of_nat (length compact), ma_frames := compact\<rparr>"

text \<open>The code after the label \<open>recorded\<close>, without the final call of \<open>add_live\<close>.\<close>

definition memory_recorded :: "u64 \<Rightarrow> u64 \<Rightarrow> u64 \<Rightarrow> bool \<Rightarrow> lp_result_stats \<Rightarrow> lp_result_stats" where
  "memory_recorded weighted_space weighted_objects allocation_size truncated s =
     (let s1 = s\<lparr>st_memory_samples := saturating_add (st_memory_samples s) 1,
           st_sampled_alloc_bytes := saturating_add (st_sampled_alloc_bytes s) allocation_size,
           st_alloc_space := saturating_add (st_alloc_space s) weighted_space,
           st_alloc_objects := saturating_add (st_alloc_objects s) weighted_objects\<rparr>
      in if truncated
         then s1\<lparr>st_stack_truncations := saturating_add (st_stack_truncations s1) 1\<rparr> else s1)"

definition lp_memory_profile_record ::
  "lp_memory_profile \<Rightarrow> pointer \<Rightarrow> lp_stack_frame list \<Rightarrow> bool \<Rightarrow> u64 \<Rightarrow> u64 \<Rightarrow> u64 \<Rightarrow>
   lp_memory_profile option" where
  "lp_memory_profile_record profile allocation_pointer frames truncated allocation_size
     weighted_space weighted_objects =
     (if allocation_size = 0 \<or> weighted_space = 0 \<or> weighted_objects = 0 then Some profile
      else
        let (frames, truncated) =
              (if length frames > MEMORY_MAX_STACK_DEPTH then (take MEMORY_MAX_STACK_DEPTH frames, True)
               else (frames, truncated));
            (store, compact, hash) = intern_frames (mp_store profile) frames fnv_offset;
            profile = profile\<lparr>mp_store := store\<rparr>
        in case find_slot MEMORY_AGGREGATE_BITS ma_used
                  (\<lambda>aggregate. ma_hash aggregate = hash \<and> memory_aggregate_matches aggregate compact)
                  (mp_aggregates profile) hash of
             None \<Rightarrow>
               Some (profile\<lparr>mp_stats := (mp_stats profile)
                 \<lparr>st_aggregate_overflows := saturating_add (st_aggregate_overflows (mp_stats profile)) 1\<rparr>\<rparr>)
           | Some index \<Rightarrow>
               let aggregate = mp_aggregates profile ! index;
                   profile1 =
                     (if ma_used aggregate
                      then profile\<lparr>mp_aggregates := (mp_aggregates profile)
                             [index := grow_aggregate weighted_space weighted_objects allocation_size aggregate]\<rparr>
                      else profile\<lparr>mp_aggregates := (mp_aggregates profile)
                             [index := fill_aggregate hash compact weighted_space weighted_objects
                                allocation_size aggregate],
                             mp_aggregate_count := Suc (mp_aggregate_count profile)\<rparr>);
                   profile2 = profile1\<lparr>mp_stats := memory_recorded weighted_space weighted_objects
                     allocation_size truncated (mp_stats profile1)\<rparr>
               in add_live profile2 allocation_pointer (of_nat index) weighted_space weighted_objects)"

definition lp_memory_profile_merge_stats :: "lp_memory_profile \<Rightarrow> lp_result_stats \<Rightarrow> lp_result_stats" where
  "lp_memory_profile_merge_stats profile stats =
     (let s = mp_stats profile
      in stats\<lparr>st_memory_samples := st_memory_samples s,
           st_sampled_alloc_bytes := st_sampled_alloc_bytes s, st_alloc_space := st_alloc_space s,
           st_alloc_objects := st_alloc_objects s, st_inuse_space := st_inuse_space s,
           st_inuse_objects := st_inuse_objects s, st_live_map_overflows := st_live_map_overflows s,
           st_stack_truncations := st_stack_truncations s,
           st_aggregate_overflows := st_aggregate_overflows s,
           st_symbol_overflows := ss_overflows (mp_store profile)\<rparr>)"

section \<open>Views\<close>

definition lp_memory_profile_sample_count :: "lp_memory_profile \<Rightarrow> nat" where
  "lp_memory_profile_sample_count profile = mp_aggregate_count profile"

definition memory_aggregate_at :: "lp_memory_profile \<Rightarrow> nat \<Rightarrow> lp_memory_aggregate option" where
  "memory_aggregate_at profile wanted =
     (if wanted \<ge> mp_aggregate_count profile then None
      else nth_used ma_used (mp_aggregates profile) wanted)"

definition lp_memory_profile_sample :: "lp_memory_profile \<Rightarrow> nat \<Rightarrow> lp_memory_sample_view option" where
  "lp_memory_profile_sample profile index =
     map_option (\<lambda>a. \<lparr>msv_alloc_space = ma_alloc_space a, msv_alloc_objects = ma_alloc_objects a,
         msv_inuse_space = ma_inuse_space a, msv_inuse_objects = ma_inuse_objects a,
         msv_sampled_bytes = ma_sampled_bytes a, msv_sample_count = ma_sample_count a,
         msv_depth = unat (ma_depth a)\<rparr>)
       (memory_aggregate_at profile index)"

text \<open>Other than \<open>lp_cpu_profile_frame\<close>, this view fails for a frame that has no symbol.\<close>

definition lp_memory_profile_frame :: "lp_memory_profile \<Rightarrow> nat \<Rightarrow> nat \<Rightarrow> lp_frame_view option" where
  "lp_memory_profile_frame profile sample_index frame_index =
     (case memory_aggregate_at profile sample_index of
        None \<Rightarrow> None
      | Some aggregate \<Rightarrow>
          if frame_index \<ge> unat (ma_depth aggregate) then None
          else
            let compact = ma_frames aggregate ! frame_index;
                symbol_id = cf_symbol compact
            in if symbol_id = 0 \<or> unat symbol_id > SYMBOL_CAPACITY then None
               else
                 let symbol = ss_symbols (mp_store profile) ! (unat symbol_id - 1)
                 in if \<not> sym_used symbol then None
                    else Some (symbol_view (mp_store profile) symbol (cf_currentline compact)))"

definition lp_memory_profile_bytes_until_sample :: "lp_memory_profile \<Rightarrow> u64" where
  "lp_memory_profile_bytes_until_sample profile = mp_bytes_until_sample profile"

definition lp_memory_profile_tracks_live :: "lp_memory_profile \<Rightarrow> bool" where
  "lp_memory_profile_tracks_live profile \<longleftrightarrow> mp_live profile \<noteq> None"

definition lp_memory_profile_live_capacity :: "lp_memory_profile \<Rightarrow> nat" where
  "lp_memory_profile_live_capacity profile =
     (if lp_memory_profile_tracks_live profile then LIVE_CAPACITY else 0)"

section \<open>The aggregate table\<close>

type_synonym memory_key = "nat \<times> lp_compact_frame list"

definition ma_key :: "lp_memory_aggregate \<Rightarrow> memory_key" where
  "ma_key a = (unat (ma_depth a), take (unat (ma_depth a)) (ma_frames a))"

definition memory_key_hash :: "memory_key \<Rightarrow> u64" where
  "memory_key_hash k = hash_stack fnv_offset (snd k)"

definition memory_key_matches :: "memory_key \<Rightarrow> lp_memory_aggregate \<Rightarrow> bool" where
  "memory_key_matches k a \<longleftrightarrow> ma_hash a = memory_key_hash k \<and> ma_key a = k"

lemma memory_aggregate_matches_key:
  "memory_aggregate_matches a frames \<longleftrightarrow> ma_key a = (length frames, frames)"
  by (auto simp: memory_aggregate_matches_def ma_key_def)

interpretation memtab: open_table MEMORY_AGGREGATE_BITS ma_used ma_key ma_hash memory_key_hash memory_key_matches
  by unfold_locales (simp_all add: memory_limits memory_key_matches_def)

lemma memory_capacity_bits: "2 ^ MEMORY_AGGREGATE_BITS = MEMORY_AGGREGATE_CAPACITY"
  by (simp add: memory_limits)

section \<open>The invariant\<close>

definition memory_aggregate_ok :: "lp_symbol_store \<Rightarrow> lp_memory_aggregate \<Rightarrow> bool" where
  "memory_aggregate_ok store a \<longleftrightarrow>
     (if ma_used a
      then unat (ma_depth a) = length (ma_frames a) \<and> length (ma_frames a) \<le> MEMORY_MAX_STACK_DEPTH \<and>
        (\<forall>c\<in>set (ma_frames a). compact_ok store c)
      else a = zero_memory_aggregate)"

text \<open>The live table is sound and refers to aggregates in use.\<close>

definition memory_live_ok :: "lp_memory_aggregate list \<Rightarrow> live_table option \<Rightarrow> bool" where
  "memory_live_ok as l \<longleftrightarrow>
     (case l of None \<Rightarrow> True
      | Some t \<Rightarrow> live_ok t \<and>
          (\<forall>p space objects i. live_entry t p = Some (space, objects, i) \<longrightarrow>
             unat i < MEMORY_AGGREGATE_CAPACITY \<and> ma_used (as ! unat i)))"

definition memory_shape_ok :: "lp_memory_profile \<Rightarrow> bool" where
  "memory_shape_ok p \<longleftrightarrow>
     store_ok (mp_store p) \<and>
     table_ok MEMORY_AGGREGATE_BITS ma_used ma_key ma_hash memory_key_hash (mp_aggregates p) \<and>
     mp_aggregate_count p = length (filter ma_used (mp_aggregates p)) \<and>
     (\<forall>a\<in>set (mp_aggregates p). memory_aggregate_ok (mp_store p) a) \<and>
     memory_live_ok (mp_aggregates p) (mp_live p)"

text \<open>The four totals that only grow: the sum of the aggregates' fields, up to the maximum.\<close>

definition memory_counts_ok :: "lp_memory_aggregate list \<Rightarrow> lp_result_stats \<Rightarrow> bool" where
  "memory_counts_ok as s \<longleftrightarrow>
     unat (st_memory_samples s) = min u64_max (sum_list (map (unat \<circ> ma_sample_count) as)) \<and>
     unat (st_sampled_alloc_bytes s) = min u64_max (sum_list (map (unat \<circ> ma_sampled_bytes) as)) \<and>
     unat (st_alloc_space s) = min u64_max (sum_list (map (unat \<circ> ma_alloc_space) as)) \<and>
     unat (st_alloc_objects s) = min u64_max (sum_list (map (unat \<circ> ma_alloc_objects) as))"

text \<open>
  The in-use numbers: \<open>xs\<close> are the aggregates' fields, \<open>v\<close> the counter, \<open>tot i\<close> the weight of
  the live entries of aggregate \<open>i\<close> and \<open>bound\<close> the allocation total, not saturated.
\<close>

definition inuse_nums :: "u64 list \<Rightarrow> u64 \<Rightarrow> (nat \<Rightarrow> nat) \<Rightarrow> nat \<Rightarrow> bool" where
  "inuse_nums xs v tot bound \<longleftrightarrow>
     unat v = sum_list (map unat xs) \<and> unat v \<le> bound \<and> bound < u64_max \<and>
     (\<forall>i<length xs. unat (xs ! i) = tot i)"

lemma inuse_nums_subtract:
  assumes nums: "inuse_nums xs v tot bound" and i: "i < length xs" and w: "unat w \<le> tot i"
  shows "inuse_nums (xs[i := saturating_subtract (xs ! i) w]) (saturating_subtract v w)
    (tot(i := tot i - unat w)) bound"
proof -
  have xi: "unat (xs ! i) = tot i" using nums i by (simp add: inuse_nums_def)
  have le: "unat (xs ! i) \<le> unat v"
    using nums nth_le_sum_list [OF i, of unat] by (simp add: inuse_nums_def)
  have "sum_list (map unat (xs[i := saturating_subtract (xs ! i) w])) + unat (xs ! i) =
      sum_list (map unat xs) + (unat (xs ! i) - unat w)"
    using sum_list_update_nat [OF i, of unat "saturating_subtract (xs ! i) w"] by (simp add: unat_sat)
  then show ?thesis
    using nums w xi le i unfolding inuse_nums_def
    by (auto simp: unat_sat nth_list_update)
qed

lemma inuse_nums_add:
  assumes nums: "inuse_nums xs v tot bound" and i: "i < length xs" and w: "bound + unat w < u64_max"
  shows "inuse_nums (xs[i := saturating_add (xs ! i) w]) (saturating_add v w)
    (tot(i := tot i + unat w)) (bound + unat w)"
proof -
  have le: "unat (xs ! i) \<le> unat v" "unat v \<le> bound"
    using nums nth_le_sum_list [OF i, of unat] by (simp_all add: inuse_nums_def)
  have no_sat: "unat (saturating_add (xs ! i) w) = unat (xs ! i) + unat w"
      "unat (saturating_add v w) = unat v + unat w"
    using le w by (auto simp: unat_sat min_def)
  have "sum_list (map unat (xs[i := saturating_add (xs ! i) w])) + unat (xs ! i) =
      sum_list (map unat xs) + (unat (xs ! i) + unat w)"
    using sum_list_update_nat [OF i, of unat "saturating_add (xs ! i) w"] no_sat(1) by simp
  then show ?thesis
    using nums w i no_sat unfolding inuse_nums_def by (auto simp: nth_list_update)
qed

lemma inuse_nums_cong:
  assumes "inuse_nums xs v tot bound" and "\<And>i. i < length xs \<Longrightarrow> tot' i = tot i"
    and "bound \<le> bound'" and "bound' < u64_max"
  shows "inuse_nums xs v tot' bound'"
  using assms by (auto simp: inuse_nums_def)

text \<open>The weights of the live entries of aggregate \<open>i\<close>.\<close>

fun space_in :: "nat \<Rightarrow> u64 \<times> u64 \<times> u32 \<Rightarrow> nat" where
  "space_in i (space, objects, a) = (if unat a = i then unat space else 0)"

fun objects_in :: "nat \<Rightarrow> u64 \<times> u64 \<times> u32 \<Rightarrow> nat" where
  "objects_in i (space, objects, a) = (if unat a = i then unat objects else 0)"

definition live_total :: "live_table option \<Rightarrow> (u64 \<times> u64 \<times> u32 \<Rightarrow> nat) \<Rightarrow> nat \<Rightarrow> nat" where
  "live_total l f fallback = (case l of None \<Rightarrow> fallback | Some t \<Rightarrow> live.total t f)"

definition memory_space_ok :: "lp_memory_profile \<Rightarrow> bool" where
  "memory_space_ok p \<longleftrightarrow>
     (unat (st_alloc_space (mp_stats p)) < u64_max \<longrightarrow>
      inuse_nums (map ma_inuse_space (mp_aggregates p)) (st_inuse_space (mp_stats p))
        (\<lambda>i. live_total (mp_live p) (space_in i) (unat (ma_inuse_space (mp_aggregates p ! i))))
        (unat (st_alloc_space (mp_stats p))))"

definition memory_objects_ok :: "lp_memory_profile \<Rightarrow> bool" where
  "memory_objects_ok p \<longleftrightarrow>
     (unat (st_alloc_objects (mp_stats p)) < u64_max \<longrightarrow>
      inuse_nums (map ma_inuse_objects (mp_aggregates p)) (st_inuse_objects (mp_stats p))
        (\<lambda>i. live_total (mp_live p) (objects_in i) (unat (ma_inuse_objects (mp_aggregates p ! i))))
        (unat (st_alloc_objects (mp_stats p))))"

definition memory_profile_ok :: "lp_memory_profile \<Rightarrow> bool" where
  "memory_profile_ok p \<longleftrightarrow>
     memory_shape_ok p \<and> memory_counts_ok (mp_aggregates p) (mp_stats p) \<and>
     memory_space_ok p \<and> memory_objects_ok p"

lemma zero_memory_profile_ok: "memory_profile_ok (zero_memory_profile sample_bytes seed track_free)"
proof -
  let ?p = "zero_memory_profile sample_bytes seed track_free"
  have empty: "live_entry new_live_table q = None" for q using new_live_table_empty by simp
  then have dom: "dom (live_entry new_live_table) = {}" by auto
  have "memory_live_ok (mp_aggregates ?p) (mp_live ?p)"
    using new_live_table_ok empty by (simp add: memory_live_ok_def zero_memory_profile_def)
  then have "memory_shape_ok ?p"
    by (auto simp: memory_shape_ok_def zero_memory_profile_def new_store_ok memtab.ok_empty
        memory_capacity_bits zero_memory_aggregate_def memory_aggregate_ok_def)
  moreover have "memory_counts_ok (mp_aggregates ?p) (mp_stats ?p)"
    by (simp add: memory_counts_ok_def zero_memory_profile_def zero_memory_aggregate_def zero_stats_def
        sum_list_replicate)
  moreover have "memory_space_ok ?p" "memory_objects_ok ?p"
    by (auto simp: memory_space_ok_def memory_objects_ok_def inuse_nums_def zero_memory_profile_def
        zero_memory_aggregate_def zero_stats_def sum_list_replicate live_total_def live.total_def dom)
  ultimately show ?thesis by (simp add: memory_profile_ok_def)
qed

section \<open>Moving weights in and out of the totals\<close>

text \<open>Writing the two in-use fields of an aggregate in use.\<close>

definition with_inuse :: "u64 \<Rightarrow> u64 \<Rightarrow> lp_memory_aggregate \<Rightarrow> lp_memory_aggregate" where
  "with_inuse space objects a = a\<lparr>ma_inuse_space := space, ma_inuse_objects := objects\<rparr>"

lemma with_inuse_fields [simp]:
  "ma_used (with_inuse x y a) = ma_used a" "ma_key (with_inuse x y a) = ma_key a"
  "ma_hash (with_inuse x y a) = ma_hash a" "ma_inuse_space (with_inuse x y a) = x"
  "ma_inuse_objects (with_inuse x y a) = y" "ma_sample_count (with_inuse x y a) = ma_sample_count a"
  "ma_sampled_bytes (with_inuse x y a) = ma_sampled_bytes a" "ma_alloc_space (with_inuse x y a) = ma_alloc_space a"
  "ma_alloc_objects (with_inuse x y a) = ma_alloc_objects a" "ma_depth (with_inuse x y a) = ma_depth a"
  "ma_frames (with_inuse x y a) = ma_frames a"
  by (simp_all add: with_inuse_def ma_key_def)

lemma map_update_same:
  "i < length xs \<Longrightarrow> f y = f (xs ! i) \<Longrightarrow> map f (xs[i := y]) = map f xs"
  by (metis list_update_id map_update)

lemma with_inuse_shape:
  assumes shape: "memory_shape_ok p" and i: "i < MEMORY_AGGREGATE_CAPACITY" "ma_used (mp_aggregates p ! i)"
    and live: "memory_live_ok (mp_aggregates p) l"
    and q: "mp_aggregates q = (mp_aggregates p)[i := with_inuse x y (mp_aggregates p ! i)]"
      "mp_store q = mp_store p" "mp_aggregate_count q = mp_aggregate_count p" "mp_live q = l"
  shows "memory_shape_ok q"
proof -
  have tab: "memtab.ok (mp_aggregates p)" using shape by (simp add: memory_shape_ok_def)
  have len: "length (mp_aggregates p) = MEMORY_AGGREGATE_CAPACITY"
    using memtab.ok_length [OF tab] memory_capacity_bits by simp
  have used: "ma_used (mp_aggregates q ! j) = ma_used (mp_aggregates p ! j)" for j
    using i len by (cases "j = i") (simp_all add: q)
  have "memory_aggregate_ok (mp_store p) (mp_aggregates p ! i)"
    using shape i len by (simp add: memory_shape_ok_def)
  then have "memory_aggregate_ok (mp_store p) (with_inuse x y (mp_aggregates p ! i))"
    using i by (simp add: memory_aggregate_ok_def)
  moreover have "memtab.ok (mp_aggregates q)"
    using i unfolding q by (intro memtab.ok_rewrite [OF tab]) (simp_all add: memory_capacity_bits)
  moreover have "length (filter ma_used (mp_aggregates q)) = length (filter ma_used (mp_aggregates p))"
    unfolding q using i len by (intro filter_update_same) simp_all
  moreover have "memory_live_ok (mp_aggregates q) l"
    using live by (cases l) (simp_all add: memory_live_ok_def used)
  ultimately show ?thesis
    using shape unfolding memory_shape_ok_def q(2-4)
    by (auto simp: q(1) dest!: set_update_subset_insert [THEN subsetD])
qed

lemma with_inuse_counts:
  assumes "i < length as"
  shows "memory_counts_ok (as[i := with_inuse x y (as ! i)]) s \<longleftrightarrow> memory_counts_ok as s"
  using assms by (simp add: memory_counts_ok_def map_update_same)

lemma memory_counts_stats:
  assumes "st_memory_samples s' = st_memory_samples s" and "st_sampled_alloc_bytes s' = st_sampled_alloc_bytes s"
    and "st_alloc_space s' = st_alloc_space s" and "st_alloc_objects s' = st_alloc_objects s"
  shows "memory_counts_ok as s' \<longleftrightarrow> memory_counts_ok as s"
  using assms by (simp add: memory_counts_ok_def)

lemma subtract_live_weight_fields:
  assumes "unat a < MEMORY_AGGREGATE_CAPACITY"
  shows "mp_aggregates (subtract_live_weight (space, objects, a) p) =
      (mp_aggregates p)[unat a := with_inuse
        (saturating_subtract (ma_inuse_space (mp_aggregates p ! unat a)) space)
        (saturating_subtract (ma_inuse_objects (mp_aggregates p ! unat a)) objects) (mp_aggregates p ! unat a)]"
    and "mp_stats (subtract_live_weight (space, objects, a) p) = (mp_stats p)
      \<lparr>st_inuse_space := saturating_subtract (st_inuse_space (mp_stats p)) space,
       st_inuse_objects := saturating_subtract (st_inuse_objects (mp_stats p)) objects\<rparr>"
    and "mp_store (subtract_live_weight (space, objects, a) p) = mp_store p"
    and "mp_aggregate_count (subtract_live_weight (space, objects, a) p) = mp_aggregate_count p"
    and "mp_live (subtract_live_weight (space, objects, a) p) = mp_live p"
  using assms by (simp_all add: subtract_live_weight_def Let_def with_inuse_def)

lemma add_weight_fields:
  shows "mp_aggregates (add_weight i space objects p) =
      (mp_aggregates p)[i := with_inuse
        (saturating_add (ma_inuse_space (mp_aggregates p ! i)) space)
        (saturating_add (ma_inuse_objects (mp_aggregates p ! i)) objects) (mp_aggregates p ! i)]"
    and "mp_stats (add_weight i space objects p) = (mp_stats p)
      \<lparr>st_inuse_space := saturating_add (st_inuse_space (mp_stats p)) space,
       st_inuse_objects := saturating_add (st_inuse_objects (mp_stats p)) objects\<rparr>"
    and "mp_store (add_weight i space objects p) = mp_store p"
    and "mp_aggregate_count (add_weight i space objects p) = mp_aggregate_count p"
    and "mp_live (add_weight i space objects p) = mp_live p"
  by (simp_all add: add_weight_def Let_def with_inuse_def)

text \<open>The in-use numbers of a profile against given totals.\<close>

definition space_nums :: "lp_memory_profile \<Rightarrow> (nat \<Rightarrow> nat) \<Rightarrow> nat \<Rightarrow> bool" where
  "space_nums p tot bound \<longleftrightarrow> inuse_nums (map ma_inuse_space (mp_aggregates p)) (st_inuse_space (mp_stats p)) tot bound"

definition objects_nums :: "lp_memory_profile \<Rightarrow> (nat \<Rightarrow> nat) \<Rightarrow> nat \<Rightarrow> bool" where
  "objects_nums p tot bound \<longleftrightarrow> inuse_nums (map ma_inuse_objects (mp_aggregates p)) (st_inuse_objects (mp_stats p)) tot bound"

lemma subtract_nums:
  assumes "unat a < length (mp_aggregates p)" and "length (mp_aggregates p) = MEMORY_AGGREGATE_CAPACITY"
  shows "space_nums p tot bound \<Longrightarrow> unat space \<le> tot (unat a) \<Longrightarrow>
      space_nums (subtract_live_weight (space, objects, a) p) (tot(unat a := tot (unat a) - unat space)) bound"
    and "objects_nums p tot bound \<Longrightarrow> unat objects \<le> tot (unat a) \<Longrightarrow>
      objects_nums (subtract_live_weight (space, objects, a) p) (tot(unat a := tot (unat a) - unat objects)) bound"
  using assms inuse_nums_subtract [of "map ma_inuse_space (mp_aggregates p)" _ tot bound "unat a" space]
    inuse_nums_subtract [of "map ma_inuse_objects (mp_aggregates p)" _ tot bound "unat a" objects]
  by (simp_all add: space_nums_def objects_nums_def subtract_live_weight_fields map_update)

lemma add_nums:
  assumes "i < length (mp_aggregates p)"
  shows "space_nums p tot bound \<Longrightarrow> bound + unat space < u64_max \<Longrightarrow>
      space_nums (add_weight i space objects p) (tot(i := tot i + unat space)) (bound + unat space)"
    and "objects_nums p tot bound \<Longrightarrow> bound + unat objects < u64_max \<Longrightarrow>
      objects_nums (add_weight i space objects p) (tot(i := tot i + unat objects)) (bound + unat objects)"
  using assms inuse_nums_add [of "map ma_inuse_space (mp_aggregates p)" _ tot bound i space]
    inuse_nums_add [of "map ma_inuse_objects (mp_aggregates p)" _ tot bound i objects]
  by (simp_all add: space_nums_def objects_nums_def add_weight_fields map_update)

section \<open>Removing a live allocation\<close>

abbreviation space_tot :: "lp_memory_profile \<Rightarrow> nat \<Rightarrow> nat" where
  "space_tot p i \<equiv> live_total (mp_live p) (space_in i) (unat (ma_inuse_space (mp_aggregates p ! i)))"

abbreviation objects_tot :: "lp_memory_profile \<Rightarrow> nat \<Rightarrow> nat" where
  "objects_tot p i \<equiv> live_total (mp_live p) (objects_in i) (unat (ma_inuse_objects (mp_aggregates p ! i)))"

text \<open>
  The in-use numbers are right, and the allocation total, if not saturated, has room for
  another weight \<open>w\<close> that is not in use yet.
\<close>

definition space_due :: "lp_memory_profile \<Rightarrow> u64 \<Rightarrow> bool" where
  "space_due p w \<longleftrightarrow> (unat (st_alloc_space (mp_stats p)) < u64_max \<longrightarrow>
     (\<exists>bound. bound + unat w \<le> unat (st_alloc_space (mp_stats p)) \<and> space_nums p (space_tot p) bound))"

definition objects_due :: "lp_memory_profile \<Rightarrow> u64 \<Rightarrow> bool" where
  "objects_due p w \<longleftrightarrow> (unat (st_alloc_objects (mp_stats p)) < u64_max \<longrightarrow>
     (\<exists>bound. bound + unat w \<le> unat (st_alloc_objects (mp_stats p)) \<and> objects_nums p (objects_tot p) bound))"

lemma space_due_ok: "space_due p w \<Longrightarrow> memory_space_ok p"
  unfolding space_due_def memory_space_ok_def space_nums_def by (auto elim!: inuse_nums_cong)

lemma objects_due_ok: "objects_due p w \<Longrightarrow> memory_objects_ok p"
  unfolding objects_due_def memory_objects_ok_def objects_nums_def by (auto elim!: inuse_nums_cong)

lemma memory_ok_length:
  assumes "memory_shape_ok p" shows "length (mp_aggregates p) = MEMORY_AGGREGATE_CAPACITY"
  using assms memtab.ok_length memory_capacity_bits by (simp add: memory_shape_ok_def)

lemma space_nums_cong:
  "space_nums p tot bound \<Longrightarrow> mp_aggregates q = mp_aggregates p \<Longrightarrow> mp_stats q = mp_stats p \<Longrightarrow>
   (\<And>i. i < length (mp_aggregates p) \<Longrightarrow> tot' i = tot i) \<Longrightarrow> space_nums q tot' bound"
  by (auto simp: space_nums_def inuse_nums_def)

lemma objects_nums_cong:
  "objects_nums p tot bound \<Longrightarrow> mp_aggregates q = mp_aggregates p \<Longrightarrow> mp_stats q = mp_stats p \<Longrightarrow>
   (\<And>i. i < length (mp_aggregates p) \<Longrightarrow> tot' i = tot i) \<Longrightarrow> objects_nums q tot' bound"
  by (auto simp: objects_nums_def inuse_nums_def)

text \<open>Taking the weight of pointer \<open>x\<close> out, with the table \<open>t'\<close> that no longer has \<open>x\<close>.\<close>

lemma subtract_live_ok:
  assumes shape: "memory_shape_ok p" and counts: "memory_counts_ok (mp_aggregates p) (mp_stats p)"
    and l: "mp_live p = Some t" and w: "live_entry t x = Some (space, objects, a)"
    and t': "live_ok t'" "live_entry t' = (live_entry t)(x := None)"
    and q: "q = (subtract_live_weight (space, objects, a) p)\<lparr>mp_live := Some t'\<rparr>"
  shows "memory_shape_ok q" and "memory_counts_ok (mp_aggregates q) (mp_stats q)"
    and "space_due p v \<Longrightarrow> space_due q v" and "objects_due p v' \<Longrightarrow> objects_due q v'"
proof -
  have ok: "live_ok t" using shape l by (simp add: memory_shape_ok_def memory_live_ok_def)
  note len = memory_ok_length [OF shape]
  have a: "unat a < MEMORY_AGGREGATE_CAPACITY" "ma_used (mp_aggregates p ! unat a)"
    using shape l w by (auto simp: memory_shape_ok_def memory_live_ok_def)
  note f = subtract_live_weight_fields [OF a(1), of space objects p]
  have "memory_live_ok (mp_aggregates p) (Some t')"
    using shape l t' by (auto simp: memory_shape_ok_def memory_live_ok_def)
  then show "memory_shape_ok q"
    by (intro with_inuse_shape [OF shape a]) (simp_all add: q f)
  show "memory_counts_ok (mp_aggregates q) (mp_stats q)"
    using counts a len
    by (simp add: q f with_inuse_counts memory_counts_stats [of "mp_stats p\<lparr>st_inuse_space := x, st_inuse_objects := y\<rparr>" "mp_stats p" for x y])
  have forget: "live.total t g = live.total t' g + g (space, objects, a)" for g
    using live.total_forget [OF ok t'(2), of g] w by simp
  show "space_due q v" if due: "space_due p v"
    unfolding space_due_def
  proof
    assume "unat (st_alloc_space (mp_stats q)) < u64_max"
    then have "unat (st_alloc_space (mp_stats p)) < u64_max" by (simp add: q f)
    with due obtain bound where b: "bound + unat v \<le> unat (st_alloc_space (mp_stats p))"
        "space_nums p (space_tot p) bound" by (auto simp: space_due_def)
    have "unat space \<le> space_tot p (unat a)" using forget [of "space_in (unat a)"] by (simp add: live_total_def l)
    from subtract_nums(1) [OF _ len b(2) this] a len
    have "space_nums (subtract_live_weight (space, objects, a) p)
        ((space_tot p)(unat a := space_tot p (unat a) - unat space)) bound" by simp
    then have "space_nums q (space_tot q) bound"
    proof (rule space_nums_cong)
      show "space_tot q i = ((space_tot p)(unat a := space_tot p (unat a) - unat space)) i" for i
        using forget [of "space_in i"] by (auto simp: live_total_def l q)
    qed (simp_all add: q)
    then show "\<exists>bound. bound + unat v \<le> unat (st_alloc_space (mp_stats q)) \<and> space_nums q (space_tot q) bound"
      using b(1) by (intro exI [of _ bound]) (simp add: q f)
  qed
  show "objects_due q v'" if due: "objects_due p v'"
    unfolding objects_due_def
  proof
    assume "unat (st_alloc_objects (mp_stats q)) < u64_max"
    then have "unat (st_alloc_objects (mp_stats p)) < u64_max" by (simp add: q f)
    with due obtain bound where b: "bound + unat v' \<le> unat (st_alloc_objects (mp_stats p))"
        "objects_nums p (objects_tot p) bound" by (auto simp: objects_due_def)
    have "unat objects \<le> objects_tot p (unat a)" using forget [of "objects_in (unat a)"] by (simp add: live_total_def l)
    from subtract_nums(2) [OF _ len b(2) this] a len
    have "objects_nums (subtract_live_weight (space, objects, a) p)
        ((objects_tot p)(unat a := objects_tot p (unat a) - unat objects)) bound" by simp
    then have "objects_nums q (objects_tot q) bound"
    proof (rule objects_nums_cong)
      show "objects_tot q i = ((objects_tot p)(unat a := objects_tot p (unat a) - unat objects)) i" for i
        using forget [of "objects_in i"] by (auto simp: live_total_def l q)
    qed (simp_all add: q)
    then show "\<exists>bound. bound + unat v' \<le> unat (st_alloc_objects (mp_stats q)) \<and> objects_nums q (objects_tot q) bound"
      using b(1) by (intro exI [of _ bound]) (simp add: q f)
  qed
qed

lemma memory_ok_due: "memory_profile_ok p \<longleftrightarrow> memory_shape_ok p \<and>
    memory_counts_ok (mp_aggregates p) (mp_stats p) \<and> space_due p 0 \<and> objects_due p 0"
proof -
  have "memory_space_ok p \<Longrightarrow> space_due p 0"
    unfolding memory_space_ok_def space_due_def space_nums_def by auto
  moreover have "memory_objects_ok p \<Longrightarrow> objects_due p 0"
    unfolding memory_objects_ok_def objects_due_def objects_nums_def by auto
  ultimately show ?thesis
    using space_due_ok objects_due_ok unfolding memory_profile_ok_def by blast
qed

lemma remove_live_ok:
  assumes ok: "memory_profile_ok p"
  shows "\<exists>p'. remove_live p x = Some p' \<and> memory_profile_ok p'"
proof (cases "mp_live p")
  case None
  then show ?thesis using ok by (simp add: remove_live_def)
next
  case (Some t)
  have lok: "live_ok t" using ok Some by (simp add: memory_profile_ok_def memory_shape_ok_def memory_live_ok_def)
  show ?thesis
  proof (cases "x = NULL")
    case True
    then show ?thesis using ok Some by (simp add: remove_live_def)
  next
    case False
    from live.remove_law [OF lok False] obtain t' where t':
      "live_remove t x = Some (t', live_entry t x)" "live_ok t'" "live_entry t' = (live_entry t)(x := None)"
      by blast
    show ?thesis
    proof (cases "live_entry t x")
      case None
      then show ?thesis using t' Some False ok by (simp add: remove_live_def)
    next
      case w: (Some w)
      obtain space objects a where [simp]: "w = (space, objects, a)" by (cases w)
      let ?q = "(subtract_live_weight w p)\<lparr>mp_live := Some t'\<rparr>"
      have "memory_profile_ok ?q"
        using ok subtract_live_ok [OF _ _ Some w [simplified] t'(2,3), of ?q]
        by (simp add: memory_ok_due)
      then show ?thesis using t' Some False w by (simp add: remove_live_def)
    qed
  qed
qed

section \<open>Adding a live allocation\<close>

lemma index_u32 [simp]: "i < MEMORY_AGGREGATE_CAPACITY \<Longrightarrow> unat (of_nat i :: u32) = i"
  by (simp add: unat_of_nat memory_limits)

lemma add_weight_ok:
  assumes shape: "memory_shape_ok p" and counts: "memory_counts_ok (mp_aggregates p) (mp_stats p)"
    and due: "space_due p space" "objects_due p objects"
    and i: "i < MEMORY_AGGREGATE_CAPACITY" "ma_used (mp_aggregates p ! i)"
    and l: "mp_live p = Some t" and x: "live_entry t x = None"
    and t': "live_ok t'" "live_entry t' = (live_entry t)(x \<mapsto> (space, objects, of_nat i))"
    and q: "q = add_weight i space objects (p\<lparr>mp_live := Some t'\<rparr>)"
  shows "memory_profile_ok q"
proof -
  have ok: "live_ok t" using shape l by (simp add: memory_shape_ok_def memory_live_ok_def)
  note len = memory_ok_length [OF shape]
  note f = add_weight_fields [of i space objects "p\<lparr>mp_live := Some t'\<rparr>"]
  have "memory_live_ok (mp_aggregates p) (Some t')"
    using shape l t' i by (auto simp: memory_shape_ok_def memory_live_ok_def)
  then have "memory_shape_ok q"
    by (intro with_inuse_shape [OF shape i]) (simp_all add: q f)
  moreover have "memory_counts_ok (mp_aggregates q) (mp_stats q)"
    using counts i len
    by (simp add: q f with_inuse_counts memory_counts_stats [of "mp_stats p\<lparr>st_inuse_space := x, st_inuse_objects := y\<rparr>" "mp_stats p" for x y])
  moreover have set: "live.total t' g = live.total t g + g (space, objects, of_nat i)" for g
    using live.total_set [OF ok t'(2), of g] x by simp
  have "memory_space_ok q"
    unfolding memory_space_ok_def
  proof
    assume a: "unat (st_alloc_space (mp_stats q)) < u64_max"
    then have ap: "unat (st_alloc_space (mp_stats p)) < u64_max" by (simp add: q f)
    with due(1) obtain bound where b: "bound + unat space \<le> unat (st_alloc_space (mp_stats p))"
        "space_nums p (space_tot p) bound" by (auto simp: space_due_def)
    have "space_nums (p\<lparr>mp_live := Some t'\<rparr>) (space_tot p) bound"
      by (rule space_nums_cong [OF b(2)]) simp_all
    from add_nums(1) [OF _ this, of i space] b(1) ap i len
    have "space_nums q ((space_tot p)(i := space_tot p i + unat space)) (bound + unat space)"
      by (simp add: q)
    then have "space_nums q (space_tot q) (bound + unat space)"
    proof (rule space_nums_cong)
      show "space_tot q j = ((space_tot p)(i := space_tot p i + unat space)) j"
        if "j < length (mp_aggregates q)" for j
        using set [of "space_in j"] i(1) by (auto simp: live_total_def l q f)
    qed simp_all
    with b(1) a show "inuse_nums (map ma_inuse_space (mp_aggregates q)) (st_inuse_space (mp_stats q)) (space_tot q)
        (unat (st_alloc_space (mp_stats q)))"
      unfolding space_nums_def by (auto simp: q f elim!: inuse_nums_cong)
  qed
  moreover have "memory_objects_ok q"
    unfolding memory_objects_ok_def
  proof
    assume a: "unat (st_alloc_objects (mp_stats q)) < u64_max"
    then have ap: "unat (st_alloc_objects (mp_stats p)) < u64_max" by (simp add: q f)
    with due(2) obtain bound where b: "bound + unat objects \<le> unat (st_alloc_objects (mp_stats p))"
        "objects_nums p (objects_tot p) bound" by (auto simp: objects_due_def)
    have "objects_nums (p\<lparr>mp_live := Some t'\<rparr>) (objects_tot p) bound"
      by (rule objects_nums_cong [OF b(2)]) simp_all
    from add_nums(2) [OF _ this, of i objects] b(1) ap i len
    have "objects_nums q ((objects_tot p)(i := objects_tot p i + unat objects)) (bound + unat objects)"
      by (simp add: q)
    then have "objects_nums q (objects_tot q) (bound + unat objects)"
    proof (rule objects_nums_cong)
      show "objects_tot q j = ((objects_tot p)(i := objects_tot p i + unat objects)) j"
        if "j < length (mp_aggregates q)" for j
        using set [of "objects_in j"] i(1) by (auto simp: live_total_def l q f)
    qed simp_all
    with b(1) a show "inuse_nums (map ma_inuse_objects (mp_aggregates q)) (st_inuse_objects (mp_stats q)) (objects_tot q)
        (unat (st_alloc_objects (mp_stats q)))"
      unfolding objects_nums_def by (auto simp: q f elim!: inuse_nums_cong)
  qed
  ultimately show ?thesis by (simp add: memory_profile_ok_def)
qed

lemma memory_stats_ok:
  assumes "memory_profile_ok p" and "st_memory_samples s' = st_memory_samples (mp_stats p)"
    and "st_sampled_alloc_bytes s' = st_sampled_alloc_bytes (mp_stats p)"
    and "st_alloc_space s' = st_alloc_space (mp_stats p)" and "st_alloc_objects s' = st_alloc_objects (mp_stats p)"
    and "st_inuse_space s' = st_inuse_space (mp_stats p)" and "st_inuse_objects s' = st_inuse_objects (mp_stats p)"
  shows "memory_profile_ok (p\<lparr>mp_stats := s'\<rparr>)"
  using assms by (auto simp: memory_profile_ok_def memory_shape_ok_def memory_counts_ok_def
      memory_space_ok_def memory_objects_ok_def)

lemma add_live_ok:
  assumes shape: "memory_shape_ok p" and counts: "memory_counts_ok (mp_aggregates p) (mp_stats p)"
    and due: "space_due p space" "objects_due p objects"
    and i: "i < MEMORY_AGGREGATE_CAPACITY" "ma_used (mp_aggregates p ! i)"
  shows "\<exists>p'. add_live p x (of_nat i) space objects = Some p' \<and> memory_profile_ok p'"
proof -
  have ok: "memory_profile_ok p"
    using shape counts space_due_ok [OF due(1)] objects_due_ok [OF due(2)] by (simp add: memory_profile_ok_def)
  show ?thesis
  proof (cases "mp_live p = None \<or> x = NULL")
    case True
    then show ?thesis using ok by (auto simp: add_live_def split: option.split)
  next
    case False
    then obtain t where t: "mp_live p = Some t" by auto
    let ?w = "(space, objects, of_nat i :: u32)"
    have lok: "live_ok t" using shape t by (simp add: memory_shape_ok_def memory_live_ok_def)
    from live.add_law [OF lok, of x ?w] False obtain t' r where r: "live_add t x ?w = Some (t', r)"
      "live_ok t'" "r = (case live_entry t x of Some old \<Rightarrow> Replaced old
         | None \<Rightarrow> if lt_count t = LIVE_CAPACITY then Table_Full else Linked)"
      "live_entry t' = (if r = Table_Full then live_entry t else (live_entry t)(x \<mapsto> ?w))"
      by blast
    show ?thesis
    proof (cases r)
      case (Replaced old)
      obtain so oo a where old: "old = (so, oo, a)" by (cases old)
      have w: "live_entry t x = Some (so, oo, a)"
        using r(3) Replaced old by (auto split: option.splits if_splits)
      from live.remove_law [OF lok, of x] False obtain t'' where
        t'': "live_ok t''" "live_entry t'' = (live_entry t)(x := None)" by auto
      let ?p = "(subtract_live_weight old p)\<lparr>mp_live := Some t''\<rparr>"
      note sub = subtract_live_ok [OF shape counts t w t'', of ?p, unfolded old, OF refl]
      have a: "unat a < MEMORY_AGGREGATE_CAPACITY"
        using shape t w by (auto simp: memory_shape_ok_def memory_live_ok_def)
      have used: "ma_used (mp_aggregates ?p ! i)"
        using i subtract_live_weight_fields(1) [OF a, of so oo p] memory_ok_length [OF shape] old
        by (cases "unat a = i") simp_all
      have "memory_profile_ok (add_weight i space objects (?p\<lparr>mp_live := Some t'\<rparr>))"
        using sub due i used r(2,4) t'' Replaced old
        by (intro add_weight_ok [of ?p space objects i t'' x t']) simp_all
      then show ?thesis using r(1) t False Replaced i by (simp add: add_live_def)
    next
      case Table_Full
      have "memory_profile_ok (p\<lparr>mp_stats := (mp_stats p)
          \<lparr>st_live_map_overflows := saturating_add (st_live_map_overflows (mp_stats p)) 1\<rparr>\<rparr>)"
        by (rule memory_stats_ok [OF ok]) simp_all
      then show ?thesis using r(1) t False Table_Full by (simp add: add_live_def)
    next
      case Linked
      then have "live_entry t x = None" using r(3) by (auto split: option.splits)
      then have "memory_profile_ok (add_weight i space objects (p\<lparr>mp_live := Some t'\<rparr>))"
        using r(2,4) Linked by (intro add_weight_ok [OF shape counts due i t]) simp_all
      then show ?thesis using r(1) t False Linked i by (simp add: add_live_def)
    qed
  qed
qed

section \<open>Recording a sampled allocation\<close>

text \<open>The part of \<open>lp_memory_profile_record\<close> after the stack is compacted.\<close>

definition memory_file ::
  "lp_memory_profile \<Rightarrow> pointer \<Rightarrow> lp_compact_frame list \<Rightarrow> bool \<Rightarrow> u64 \<Rightarrow> u64 \<Rightarrow> u64 \<Rightarrow>
   lp_memory_profile option" where
  "memory_file p x compact truncated asize ws wo =
     (let k = (length compact, compact); s = mp_stats p
      in case memtab.slot_for k (mp_aggregates p) of
           None \<Rightarrow> Some (p\<lparr>mp_stats := s\<lparr>st_aggregate_overflows := saturating_add (st_aggregate_overflows s) 1\<rparr>\<rparr>)
         | Some i \<Rightarrow>
             let a = mp_aggregates p ! i;
                 b = (if ma_used a then grow_aggregate ws wo asize a
                      else fill_aggregate (memory_key_hash k) compact ws wo asize a);
                 n = (if ma_used a then mp_aggregate_count p else Suc (mp_aggregate_count p))
             in add_live (p\<lparr>mp_aggregates := (mp_aggregates p)[i := b], mp_aggregate_count := n,
                    mp_stats := memory_recorded ws wo asize truncated s\<rparr>) x (of_nat i) ws wo)"

lemma record_by_memory_file:
  assumes "asize \<noteq> 0" and "ws \<noteq> 0" and "wo \<noteq> 0"
    and "store_ok (mp_store p)" and "\<forall>f\<in>set frames. frame_readable f"
    and "intern_frames (mp_store p) (take MEMORY_MAX_STACK_DEPTH frames) fnv_offset = (store, cs, h)"
  shows "lp_memory_profile_record p x frames truncated asize ws wo =
    memory_file (p\<lparr>mp_store := store\<rparr>) x cs (truncated \<or> length frames > MEMORY_MAX_STACK_DEPTH) asize ws wo"
proof -
  have "\<forall>f\<in>set (take MEMORY_MAX_STACK_DEPTH frames). frame_readable f"
    using assms(5) by (auto dest: in_set_takeD)
  then have h: "h = memory_key_hash (length cs, cs)"
    using intern_frames_correct [OF assms(4) _ assms(6)] by (simp add: memory_key_hash_def)
  have slot: "find_slot MEMORY_AGGREGATE_BITS ma_used
      (\<lambda>a. ma_hash a = h \<and> memory_aggregate_matches a cs) tbl h =
    memtab.slot_for (length cs, cs) tbl" for tbl
    by (simp add: memory_key_matches_def [abs_def] memory_aggregate_matches_key h)
  show ?thesis
  proof (cases "length frames > MEMORY_MAX_STACK_DEPTH")
    case True
    with assms(1-3,6) show ?thesis
      unfolding lp_memory_profile_record_def memory_file_def
      by (simp add: slot Let_def h [symmetric] split: option.split)
  next
    case False
    then have "take MEMORY_MAX_STACK_DEPTH frames = frames" by simp
    with False assms(1-3,6) show ?thesis
      unfolding lp_memory_profile_record_def memory_file_def
      by (simp add: slot Let_def h [symmetric] split: option.split)
  qed
qed

lemma memory_recorded_fields [simp]:
  "st_memory_samples (memory_recorded ws wo asize tr s) = saturating_add (st_memory_samples s) 1"
  "st_sampled_alloc_bytes (memory_recorded ws wo asize tr s) = saturating_add (st_sampled_alloc_bytes s) asize"
  "st_alloc_space (memory_recorded ws wo asize tr s) = saturating_add (st_alloc_space s) ws"
  "st_alloc_objects (memory_recorded ws wo asize tr s) = saturating_add (st_alloc_objects s) wo"
  "st_inuse_space (memory_recorded ws wo asize tr s) = st_inuse_space s"
  "st_inuse_objects (memory_recorded ws wo asize tr s) = st_inuse_objects s"
  "st_aggregate_overflows (memory_recorded ws wo asize tr s) = st_aggregate_overflows s"
  by (simp_all add: memory_recorded_def Let_def)

text \<open>One more sample in slot \<open>i\<close>: the four growing totals.\<close>

lemma memory_counts_step:
  assumes counts: "memory_counts_ok as s" and i: "i < length as"
    and gain: "unat (ma_sample_count b) = min u64_max (unat (ma_sample_count (as ! i)) + 1)"
      "unat (ma_sampled_bytes b) = min u64_max (unat (ma_sampled_bytes (as ! i)) + unat asize)"
      "unat (ma_alloc_space b) = min u64_max (unat (ma_alloc_space (as ! i)) + unat ws)"
      "unat (ma_alloc_objects b) = min u64_max (unat (ma_alloc_objects (as ! i)) + unat wo)"
  shows "memory_counts_ok (as[i := b]) (memory_recorded ws wo asize tr s)"
proof -
  note step = sum_list_cap_update [OF i, of "unat \<circ> f" for f, unfolded comp_def]
  show ?thesis
    using counts unfolding memory_counts_ok_def
    by (simp add: comp_def unat_sat min_add_cap step [of ma_sample_count, OF gain(1)] step [of ma_sampled_bytes, OF gain(2)]
        step [of ma_alloc_space, OF gain(3)] step [of ma_alloc_objects, OF gain(4)])
qed

text \<open>A slot gains a sample without touching its in-use fields: the weight is then due.\<close>

lemma space_due_step:
  assumes "memory_space_ok p" and "i < length (mp_aggregates p)"
    and "ma_inuse_space b = ma_inuse_space (mp_aggregates p ! i)"
    and q: "q = p\<lparr>mp_aggregates := (mp_aggregates p)[i := b], mp_aggregate_count := n,
      mp_stats := memory_recorded ws wo asize tr (mp_stats p)\<rparr>"
  shows "space_due q ws"
  unfolding space_due_def
proof
  assume a: "unat (st_alloc_space (mp_stats q)) < u64_max"
  then have b: "unat (st_alloc_space (mp_stats p)) + unat ws = unat (st_alloc_space (mp_stats q))"
    by (simp add: q unat_sat)
  then have "unat (st_alloc_space (mp_stats p)) < u64_max" using a by simp
  then have "space_nums p (space_tot p) (unat (st_alloc_space (mp_stats p)))"
    using assms(1) by (simp add: memory_space_ok_def space_nums_def)
  moreover have "map ma_inuse_space (mp_aggregates q) = map ma_inuse_space (mp_aggregates p)"
    using assms(2,3) by (simp add: q map_update_same)
  moreover have "space_tot q j = space_tot p j" for j
    using assms(2,3) by (cases "j = i") (simp_all add: q live_total_def)
  ultimately show "\<exists>bound. bound + unat ws \<le> unat (st_alloc_space (mp_stats q)) \<and> space_nums q (space_tot q) bound"
    using b by (intro exI [of _ "unat (st_alloc_space (mp_stats p))"]) (simp add: space_nums_def q)
qed

lemma objects_due_step:
  assumes "memory_objects_ok p" and "i < length (mp_aggregates p)"
    and "ma_inuse_objects b = ma_inuse_objects (mp_aggregates p ! i)"
    and q: "q = p\<lparr>mp_aggregates := (mp_aggregates p)[i := b], mp_aggregate_count := n,
      mp_stats := memory_recorded ws wo asize tr (mp_stats p)\<rparr>"
  shows "objects_due q wo"
  unfolding objects_due_def
proof
  assume a: "unat (st_alloc_objects (mp_stats q)) < u64_max"
  then have b: "unat (st_alloc_objects (mp_stats p)) + unat wo = unat (st_alloc_objects (mp_stats q))"
    by (simp add: q unat_sat)
  then have "unat (st_alloc_objects (mp_stats p)) < u64_max" using a by simp
  then have "objects_nums p (objects_tot p) (unat (st_alloc_objects (mp_stats p)))"
    using assms(1) by (simp add: memory_objects_ok_def objects_nums_def)
  moreover have "map ma_inuse_objects (mp_aggregates q) = map ma_inuse_objects (mp_aggregates p)"
    using assms(2,3) by (simp add: q map_update_same)
  moreover have "objects_tot q j = objects_tot p j" for j
    using assms(2,3) by (cases "j = i") (simp_all add: q live_total_def)
  ultimately show "\<exists>bound. bound + unat wo \<le> unat (st_alloc_objects (mp_stats q)) \<and> objects_nums q (objects_tot q) bound"
    using b by (intro exI [of _ "unat (st_alloc_objects (mp_stats p))"]) (simp add: objects_nums_def q)
qed

lemma memory_file_ok:
  assumes ok: "memory_profile_ok p"
    and cs: "\<forall>c\<in>set cs. compact_ok (mp_store p) c" "length cs \<le> MEMORY_MAX_STACK_DEPTH"
  shows "\<exists>p'. memory_file p x cs tr asize ws wo = Some p' \<and> memory_profile_ok p'"
proof -
  let ?k = "(length cs, cs)" and ?as = "mp_aggregates p"
  have shape: "memory_shape_ok p" and counts: "memory_counts_ok ?as (mp_stats p)"
    and sp: "memory_space_ok p" and ob: "memory_objects_ok p"
    using ok by (simp_all add: memory_profile_ok_def)
  have tab: "memtab.ok ?as" using shape by (simp add: memory_shape_ok_def)
  note len = memory_ok_length [OF shape]
  have depth: "unat (of_nat (length cs) :: u16) = length cs"
    using cs(2) by (simp add: unat_of_nat memory_limits)
  show ?thesis
  proof (cases "memtab.slot_for ?k ?as")
    case None
    then show ?thesis
      using memory_stats_ok [OF ok, of "(mp_stats p)\<lparr>st_aggregate_overflows := v\<rparr>" for v]
      by (simp add: memory_file_def Let_def)
  next
    case (Some i)
    have i: "i < MEMORY_AGGREGATE_CAPACITY" using memtab.slot_for_bound [OF Some] memory_capacity_bits by simp
    define a where "a = ?as ! i"
    define b where "b = (if ma_used a then grow_aggregate ws wo asize a
        else fill_aggregate (memory_key_hash ?k) cs ws wo asize a)"
    define n where "n = (if ma_used a then mp_aggregate_count p else Suc (mp_aggregate_count p))"
    let ?q = "p\<lparr>mp_aggregates := ?as[i := b], mp_aggregate_count := n,
      mp_stats := memory_recorded ws wo asize tr (mp_stats p)\<rparr>"
    have aok: "memory_aggregate_ok (mp_store p) a"
      using shape i len by (simp add: memory_shape_ok_def a_def)
    have zero: "\<not> ma_used a \<Longrightarrow> a = zero_memory_aggregate" using aok by (simp add: memory_aggregate_ok_def)
    have bused: "ma_used b" by (simp add: b_def grow_aggregate_def fill_aggregate_def)
    have key: "ma_key b = ?k" and bok: "memory_aggregate_ok (mp_store p) b"
      and tab': "memtab.ok (?as[i := b])" and cnt: "n = length (filter ma_used (?as[i := b]))"
    proof -
      show "ma_key b = ?k"
        using memtab.slot_for_used [OF tab Some] depth
        by (auto simp: b_def a_def grow_aggregate_def fill_aggregate_def ma_key_def)
      show "memory_aggregate_ok (mp_store p) b"
        using aok cs depth by (auto simp: b_def memory_aggregate_ok_def grow_aggregate_def fill_aggregate_def)
      show "memtab.ok (?as[i := b])"
      proof (cases "ma_used a")
        case True
        then show ?thesis
          using i by (intro memtab.ok_rewrite [OF tab])
            (simp_all add: memory_capacity_bits b_def a_def grow_aggregate_def ma_key_def)
      next
        case False
        then show ?thesis
          using bused \<open>ma_key b = ?k\<close>
          by (intro memtab.ok_insert [OF tab Some]) (simp_all add: b_def a_def fill_aggregate_def)
      qed
      show "n = length (filter ma_used (?as[i := b]))"
        using shape i len bused
        by (simp add: n_def a_def memory_shape_ok_def filter_update_same length_filter_update)
    qed
    have used_mono: "ma_used (?as ! j) \<Longrightarrow> ma_used (?as[i := b] ! j)" for j
      using bused i len by (cases "j = i") simp_all
    have "memory_live_ok (?as[i := b]) (mp_live p)"
      using shape used_mono unfolding memory_shape_ok_def memory_live_ok_def
      by (cases "mp_live p") fastforce+
    then have "memory_shape_ok ?q"
      using shape bok tab' cnt
      by (auto simp: memory_shape_ok_def dest!: set_update_subset_insert [THEN subsetD])
    moreover have "memory_counts_ok (mp_aggregates ?q) (mp_stats ?q)"
    proof -
      have "memory_counts_ok (?as[i := b]) (memory_recorded ws wo asize tr (mp_stats p))"
        using counts i len zero
        by (intro memory_counts_step) (auto simp: b_def a_def grow_aggregate_def fill_aggregate_def unat_sat
            zero_memory_aggregate_def min_absorb2)
      then show ?thesis by simp
    qed
    moreover have "space_due ?q ws" "objects_due ?q wo"
      using i len by (auto intro!: space_due_step [OF sp, where i = i and b = b] objects_due_step [OF ob, where i = i and b = b]
          simp: b_def a_def grow_aggregate_def fill_aggregate_def)
    ultimately have "\<exists>p'. add_live ?q x (of_nat i) ws wo = Some p' \<and> memory_profile_ok p'"
      using i len bused by (intro add_live_ok) simp_all
    moreover have "memory_file p x cs tr asize ws wo = add_live ?q x (of_nat i) ws wo"
      using Some by (simp add: memory_file_def Let_def a_def b_def n_def)
    ultimately show ?thesis by simp
  qed
qed

lemma memory_store_step_ok:
  assumes "memory_profile_ok p" and "store_ok store" and "store_extends (mp_store p) store"
  shows "memory_profile_ok (p\<lparr>mp_store := store\<rparr>)"
proof -
  have "memory_aggregate_ok (mp_store p) a \<Longrightarrow> memory_aggregate_ok store a" for a
    using assms(3) by (auto simp: memory_aggregate_ok_def compact_ok_extends)
  then show ?thesis
    using assms(1,2) by (auto simp: memory_profile_ok_def memory_shape_ok_def memory_space_ok_def memory_objects_ok_def)
qed

text \<open>How every call of \<open>lp_memory_profile_record\<close> with non-zero arguments runs.\<close>

lemma memory_record_run:
  assumes ok: "memory_profile_ok p" and readable: "\<forall>f\<in>set frames. frame_readable f"
    and nz: "asize \<noteq> 0" "ws \<noteq> 0" "wo \<noteq> 0"
  obtains store cs where
    "lp_memory_profile_record p x frames truncated asize ws wo =
       memory_file (p\<lparr>mp_store := store\<rparr>) x cs (truncated \<or> length frames > MEMORY_MAX_STACK_DEPTH) asize ws wo"
    and "memory_profile_ok (p\<lparr>mp_store := store\<rparr>)" and "store_extends (mp_store p) store"
    and "list_all2 (compact_for store) (take MEMORY_MAX_STACK_DEPTH frames) cs"
proof -
  let ?fs = "take MEMORY_MAX_STACK_DEPTH frames"
  have sok: "store_ok (mp_store p)" using ok by (simp add: memory_profile_ok_def memory_shape_ok_def)
  obtain store cs h where int: "intern_frames (mp_store p) ?fs fnv_offset = (store, cs, h)"
    by (metis prod_cases3)
  have "\<forall>f\<in>set ?fs. frame_readable f" using readable by (auto dest: in_set_takeD)
  from intern_frames_correct [OF sok this int] record_by_memory_file [OF nz sok readable int]
    memory_store_step_ok [OF ok, of store]
  show ?thesis by (intro that) auto
qed

lemma memory_record_ok:
  assumes ok: "memory_profile_ok p" and readable: "\<forall>f\<in>set frames. frame_readable f"
  shows "\<exists>p'. lp_memory_profile_record p x frames truncated asize ws wo = Some p' \<and> memory_profile_ok p'"
proof (cases "asize = 0 \<or> ws = 0 \<or> wo = 0")
  case True
  then show ?thesis using ok by (auto simp: lp_memory_profile_record_def)
next
  case False
  then have nz: "asize \<noteq> 0" "ws \<noteq> 0" "wo \<noteq> 0" by auto
  from memory_record_run [OF ok readable nz, of x truncated] obtain store cs where
    r: "lp_memory_profile_record p x frames truncated asize ws wo =
       memory_file (p\<lparr>mp_store := store\<rparr>) x cs (truncated \<or> length frames > MEMORY_MAX_STACK_DEPTH) asize ws wo"
    "memory_profile_ok (p\<lparr>mp_store := store\<rparr>)"
    "list_all2 (compact_for store) (take MEMORY_MAX_STACK_DEPTH frames) cs"
    by metis
  have "length cs \<le> MEMORY_MAX_STACK_DEPTH" using list_all2_lengthD [OF r(3)] by simp
  then show ?thesis
    using memory_file_ok [OF r(2)] compact_list_ok [OF r(3)] by (simp add: r(1))
qed

section \<open>The other operations keep the invariant\<close>

lemma memory_ok_sampler:
  assumes "memory_profile_ok p"
  shows "memory_profile_ok (p\<lparr>mp_bytes_until_sample := v\<rparr>)" and "memory_profile_ok (p\<lparr>mp_random_state := v\<rparr>)"
    and "memory_profile_ok (p\<lparr>mp_weight_random_state := v\<rparr>)"
  using assms by (simp_all add: memory_profile_ok_def memory_shape_ok_def memory_space_ok_def memory_objects_ok_def)

lemma lp_memory_profile_new_ok:
  "lp_memory_profile_new d g1 g2 sample_bytes seed track = Some p \<Longrightarrow> memory_profile_ok p"
  by (auto simp: lp_memory_profile_new_def next_random_def Let_def zero_memory_profile_ok
      intro!: memory_ok_sampler split: if_splits)

lemma randomized_weight_ok:
  "memory_profile_ok p \<Longrightarrow> memory_profile_ok (fst (randomized_weight d p v))"
  by (auto simp: randomized_weight_def Let_def intro: memory_ok_sampler)

lemma should_sample_ok:
  assumes "memory_profile_ok p"
  shows "memory_profile_ok (fst (lp_memory_profile_should_sample d p asize))"
  using assms
  by (simp add: lp_memory_profile_should_sample_def next_random_def Let_def case_prod_beta
      memory_ok_sampler randomized_weight_ok)

lemma allocation_event_ok:
  "memory_profile_ok p \<Longrightarrow> \<exists>p'. lp_memory_profile_allocation_event p old new n success = Some p' \<and> memory_profile_ok p'"
  using remove_live_ok [of p old] by (auto simp: lp_memory_profile_allocation_event_def)

text \<open>Freeing the live table keeps the in-use numbers as they are.\<close>

lemma finish_ok:
  assumes "memory_profile_ok p"
  shows "memory_profile_ok (lp_memory_profile_finish p)"
  using assms
  by (auto simp: memory_profile_ok_def lp_memory_profile_finish_def memory_shape_ok_def memory_live_ok_def
      memory_space_ok_def memory_objects_ok_def live_total_def inuse_nums_def)

section \<open>Runs and exports\<close>

datatype memory_call =
    Sample_Call u64
  | Record_Call pointer "lp_stack_frame list" bool u64 u64 u64
  | Event_Call pointer pointer u64 bool

primrec memory_step :: "'d doubles \<Rightarrow> lp_memory_profile \<Rightarrow> memory_call \<Rightarrow> lp_memory_profile option" where
  "memory_step d p (Sample_Call asize) = Some (fst (lp_memory_profile_should_sample d p asize))"
| "memory_step d p (Record_Call x frames truncated asize ws wo) =
     lp_memory_profile_record p x frames truncated asize ws wo"
| "memory_step d p (Event_Call old new asize success) =
     lp_memory_profile_allocation_event p old new asize success"

primrec memory_run :: "'d doubles \<Rightarrow> lp_memory_profile \<Rightarrow> memory_call list \<Rightarrow> lp_memory_profile option" where
  "memory_run d p [] = Some p"
| "memory_run d p (call # calls) =
     (case memory_step d p call of None \<Rightarrow> None | Some p' \<Rightarrow> memory_run d p' calls)"

primrec call_readable :: "memory_call \<Rightarrow> bool" where
  "call_readable (Sample_Call asize) = True"
| "call_readable (Record_Call x frames truncated asize ws wo) = (\<forall>f\<in>set frames. frame_readable f)"
| "call_readable (Event_Call old new asize success) = True"

lemma memory_step_ok:
  assumes "memory_profile_ok p" and "call_readable call"
  shows "\<exists>p'. memory_step d p call = Some p' \<and> memory_profile_ok p'"
  using assms by (cases call) (simp_all add: should_sample_ok memory_record_ok allocation_event_ok)

lemma memory_run_ok:
  "memory_profile_ok p \<Longrightarrow> \<forall>call\<in>set calls. call_readable call \<Longrightarrow>
   \<exists>p'. memory_run d p calls = Some p' \<and> memory_profile_ok p'"
proof (induction calls arbitrary: p)
  case Nil
  then show ?case by simp
next
  case (Cons call calls)
  then obtain p1 where "memory_step d p call = Some p1" "memory_profile_ok p1"
    using memory_step_ok [of p call d] by auto
  with Cons show ?case by simp
qed

lemma memory_run_new_ok:
  assumes "lp_memory_profile_new d True True sample_bytes seed track = Some p0"
    and "\<forall>call\<in>set calls. call_readable call" and "memory_run d p0 calls = Some p"
  shows "memory_profile_ok p"
  using memory_run_ok [OF lp_memory_profile_new_ok [OF assms(1)] assms(2), of d] assms(3) by simp

text \<open>A field of the exported samples, in export order.\<close>

definition exported_field :: "(lp_memory_sample_view \<Rightarrow> u64) \<Rightarrow> lp_memory_profile \<Rightarrow> nat list" where
  "exported_field f p =
     map (\<lambda>i. case lp_memory_profile_sample p i of None \<Rightarrow> 0 | Some v \<Rightarrow> unat (f v))
       [0..<lp_memory_profile_sample_count p]"

lemma memory_aggregate_at_filter:
  "memory_shape_ok p \<Longrightarrow> memory_aggregate_at p i =
     (if i < mp_aggregate_count p then Some (filter ma_used (mp_aggregates p) ! i) else None)"
  by (simp add: memory_aggregate_at_def nth_used_filter memory_shape_ok_def)

definition view_of_aggregate :: "lp_memory_aggregate \<Rightarrow> lp_memory_sample_view" where
  "view_of_aggregate a = \<lparr>msv_alloc_space = ma_alloc_space a, msv_alloc_objects = ma_alloc_objects a,
     msv_inuse_space = ma_inuse_space a, msv_inuse_objects = ma_inuse_objects a,
     msv_sampled_bytes = ma_sampled_bytes a, msv_sample_count = ma_sample_count a,
     msv_depth = unat (ma_depth a)\<rparr>"

lemma exported_field_sum:
  assumes shape: "memory_shape_ok p" and f: "\<And>a. f (view_of_aggregate a) = g a" "g zero_memory_aggregate = 0"
  shows "sum_list (exported_field f p) = sum_list (map (unat \<circ> g) (mp_aggregates p))"
proof -
  let ?used = "filter ma_used (mp_aggregates p)"
  have "exported_field f p = map (\<lambda>i. unat (g (?used ! i))) [0..<length ?used]"
    using shape f(1) [unfolded view_of_aggregate_def]
    by (auto simp: exported_field_def lp_memory_profile_sample_def memory_aggregate_at_filter
        lp_memory_profile_sample_count_def memory_shape_ok_def)
  also have "\<dots> = map (unat \<circ> g) ?used" by (rule nth_equalityI) simp_all
  finally have "sum_list (exported_field f p) =
      sum_list (map (\<lambda>a. if ma_used a then (unat \<circ> g) a else 0) (mp_aggregates p))"
    by (simp add: sum_used_slots comp_def)
  also have "\<dots> = sum_list (map (unat \<circ> g) (mp_aggregates p))"
  proof (intro arg_cong [of _ _ sum_list] map_cong refl)
    fix a assume "a \<in> set (mp_aggregates p)"
    then have "memory_aggregate_ok (mp_store p) a" using shape by (simp add: memory_shape_ok_def)
    then show "(if ma_used a then (unat \<circ> g) a else 0) = (unat \<circ> g) a"
      using f(2) by (auto simp: memory_aggregate_ok_def split: if_splits)
  qed
  finally show ?thesis .
qed

lemmas exported_sums =
  exported_field_sum [where f = msv_sample_count and g = ma_sample_count]
  exported_field_sum [where f = msv_sampled_bytes and g = ma_sampled_bytes]
  exported_field_sum [where f = msv_alloc_space and g = ma_alloc_space]
  exported_field_sum [where f = msv_alloc_objects and g = ma_alloc_objects]
  exported_field_sum [where f = msv_inuse_space and g = ma_inuse_space]
  exported_field_sum [where f = msv_inuse_objects and g = ma_inuse_objects]

section \<open>A tracked allocation\<close>

lemma add_live_linked:
  assumes ok: "live_ok t" and l: "mp_live p = Some t" and x: "x \<noteq> NULL" "live_entry t x = None"
    and room: "lt_count t < LIVE_CAPACITY" and i: "i < MEMORY_AGGREGATE_CAPACITY"
  shows "\<exists>t'. add_live p x (of_nat i) ws wo = Some (add_weight i ws wo (p\<lparr>mp_live := Some t'\<rparr>)) \<and>
    live_ok t' \<and> live_entry t' = (live_entry t)(x \<mapsto> (ws, wo, of_nat i))"
proof -
  from live.add_law [OF ok x(1), of "(ws, wo, of_nat i)"] room x(2) obtain t' where
    "live_add t x (ws, wo, of_nat i) = Some (t', Linked)" "live_ok t'"
    "live_entry t' = (live_entry t)(x \<mapsto> (ws, wo, of_nat i))"
    by auto
  then show ?thesis using l x i by (intro exI [of _ t']) (simp add: add_live_def)
qed

lemma remove_live_tracked:
  assumes ok: "live_ok t" and l: "mp_live p = Some t" and x: "x \<noteq> NULL" "live_entry t x = Some w"
  shows "\<exists>t'. remove_live p x = Some ((subtract_live_weight w p)\<lparr>mp_live := Some t'\<rparr>) \<and>
    live_ok t' \<and> live_entry t' = (live_entry t)(x := None)"
proof -
  from live.remove_law [OF ok x(1)] x(2) obtain t' where
    "live_remove t x = Some (t', Some w)" "live_ok t'" "live_entry t' = (live_entry t)(x := None)"
    by auto
  then show ?thesis using l x by (intro exI [of _ t']) (simp add: remove_live_def)
qed

lemma memory_room:
  assumes "memory_shape_ok p" and "mp_aggregate_count p < MEMORY_AGGREGATE_CAPACITY"
  shows "memtab.slot_for k (mp_aggregates p) \<noteq> None"
proof
  have tab: "memtab.ok (mp_aggregates p)" using assms(1) by (simp add: memory_shape_ok_def)
  assume "memtab.slot_for k (mp_aggregates p) = None"
  then have "\<forall>a\<in>set (mp_aggregates p). ma_used a"
    using memtab.slot_for_None [OF tab] memtab.ok_length [OF tab] by (auto simp: in_set_conv_nth)
  then have "filter ma_used (mp_aggregates p) = mp_aggregates p" by simp
  then show False
    using assms memtab.ok_length [OF tab] by (simp add: memory_shape_ok_def memory_capacity_bits)
qed

text \<open>
  A recorded allocation whose aggregate has room: the counters move as in \<open>memory_recorded\<close>
  and the weight is added for the pointer.
\<close>

lemma memory_record_tracks:
  assumes ok: "memory_profile_ok p" and readable: "\<forall>f\<in>set frames. frame_readable f"
    and nz: "asize \<noteq> 0" "ws \<noteq> 0" "wo \<noteq> 0" and room: "mp_aggregate_count p < MEMORY_AGGREGATE_CAPACITY"
    and l: "mp_live p = Some t" and x: "x \<noteq> NULL" "live_entry t x = None" and free: "lt_count t < LIVE_CAPACITY"
  shows "\<exists>q i t' tr.
    lp_memory_profile_record p x frames truncated asize ws wo = Some (add_weight i ws wo (q\<lparr>mp_live := Some t'\<rparr>)) \<and>
    mp_stats q = memory_recorded ws wo asize tr (mp_stats p) \<and> i < MEMORY_AGGREGATE_CAPACITY \<and>
    live_ok t' \<and> live_entry t' = (live_entry t)(x \<mapsto> (ws, wo, of_nat i))"
proof -
  have lok: "live_ok t" using ok l by (simp add: memory_profile_ok_def memory_shape_ok_def memory_live_ok_def)
  from memory_record_run [OF ok readable nz, of x truncated] obtain store cs where
    r: "lp_memory_profile_record p x frames truncated asize ws wo =
       memory_file (p\<lparr>mp_store := store\<rparr>) x cs (truncated \<or> length frames > MEMORY_MAX_STACK_DEPTH) asize ws wo"
    "memory_profile_ok (p\<lparr>mp_store := store\<rparr>)"
    by metis
  have "memory_shape_ok (p\<lparr>mp_store := store\<rparr>)" using r(2) by (simp add: memory_profile_ok_def)
  from memory_room [OF this, of "(length cs, cs)"] room
  obtain i where i: "memtab.slot_for (length cs, cs) (mp_aggregates p) = Some i" by auto
  have ib: "i < MEMORY_AGGREGATE_CAPACITY" using memtab.slot_for_bound [OF i] memory_capacity_bits by simp
  define q where "q = p\<lparr>mp_store := store,
    mp_aggregates := (mp_aggregates p)[i := if ma_used (mp_aggregates p ! i)
      then grow_aggregate ws wo asize (mp_aggregates p ! i)
      else fill_aggregate (memory_key_hash (length cs, cs)) cs ws wo asize (mp_aggregates p ! i)],
    mp_aggregate_count := (if ma_used (mp_aggregates p ! i) then mp_aggregate_count p else Suc (mp_aggregate_count p)),
    mp_stats := memory_recorded ws wo asize (truncated \<or> length frames > MEMORY_MAX_STACK_DEPTH) (mp_stats p)\<rparr>"
  have "lp_memory_profile_record p x frames truncated asize ws wo = add_live q x (of_nat i) ws wo"
    using i by (simp add: r(1) memory_file_def Let_def q_def)
  moreover obtain t' where "add_live q x (of_nat i) ws wo = Some (add_weight i ws wo (q\<lparr>mp_live := Some t'\<rparr>))"
    "live_ok t'" "live_entry t' = (live_entry t)(x \<mapsto> (ws, wo, of_nat i))"
    using add_live_linked [OF lok _ x free ib, of q ws wo] l by (auto simp: q_def)
  ultimately show ?thesis
    using ib by (intro exI [of _ q] exI [of _ i] exI [of _ t']
        exI [of _ "truncated \<or> length frames > MEMORY_MAX_STACK_DEPTH"]) (simp add: q_def)
qed

section \<open>Properties\<close>

text \<open>
  C38: Termination. From a new profile, every sequence of sampling decisions, recorded
  allocations and allocation events returns: no walk over the chains of the live table runs
  forever, whatever pointers the allocator reports.
\<close>

theorem memory_calls_return:
  assumes "lp_memory_profile_new d True True sample_bytes seed track = Some p0"
    and "\<forall>call\<in>set calls. call_readable call"
  shows "\<exists>p. memory_run d p0 calls = Some p"
  using memory_run_ok [OF lp_memory_profile_new_ok [OF assms(1)] assms(2)] by blast

lemma memory_ok_totals:
  assumes "memory_profile_ok p"
  shows "unat (st_memory_samples (mp_stats p)) = min u64_max (sum_list (exported_field msv_sample_count p)) \<and>
    unat (st_sampled_alloc_bytes (mp_stats p)) = min u64_max (sum_list (exported_field msv_sampled_bytes p)) \<and>
    unat (st_alloc_space (mp_stats p)) = min u64_max (sum_list (exported_field msv_alloc_space p)) \<and>
    unat (st_alloc_objects (mp_stats p)) = min u64_max (sum_list (exported_field msv_alloc_objects p))"
proof -
  have "memory_shape_ok p" "memory_counts_ok (mp_aggregates p) (mp_stats p)"
    using assms by (simp_all add: memory_profile_ok_def)
  then show ?thesis
    by (simp add: memory_counts_ok_def exported_sums view_of_aggregate_def zero_memory_aggregate_def)
qed

lemma memory_ok_inuse:
  assumes ok: "memory_profile_ok q"
  shows "(st_alloc_space (mp_stats q) \<noteq> UINT64_MAX \<longrightarrow>
      unat (st_inuse_space (mp_stats q)) = sum_list (exported_field msv_inuse_space q) \<and>
      st_inuse_space (mp_stats q) \<le> st_alloc_space (mp_stats q)) \<and>
    (st_alloc_objects (mp_stats q) \<noteq> UINT64_MAX \<longrightarrow>
      unat (st_inuse_objects (mp_stats q)) = sum_list (exported_field msv_inuse_objects q) \<and>
      st_inuse_objects (mp_stats q) \<le> st_alloc_objects (mp_stats q))"
proof -
  have shape: "memory_shape_ok q" using ok by (simp add: memory_profile_ok_def)
  have max: "unat v < u64_max" if "v \<noteq> UINT64_MAX" for v :: u64
    using that unat_le_u64_max [of v] by (metis le_neq_implies_less unat_UINT64_MAX word_unat_eq_iff)
  show ?thesis
    using ok max [of "st_alloc_space (mp_stats q)"] max [of "st_alloc_objects (mp_stats q)"]
    by (auto simp: memory_profile_ok_def memory_space_ok_def memory_objects_ok_def inuse_nums_def
        exported_sums [OF shape] view_of_aggregate_def zero_memory_aggregate_def word_le_nat_alt comp_def)
qed

text \<open>
  Conservation of the allocation totals. After any such sequence the four totals
  \<open>memory_samples\<close>, \<open>sampled_alloc_bytes\<close>, \<open>alloc_space\<close> and \<open>alloc_objects\<close> equal the sums of the
  exported fields, each up to the 64-bit maximum, where it stays.
\<close>

theorem memory_totals_match_export:
  assumes "lp_memory_profile_new d True True sample_bytes seed track = Some p0"
    and "\<forall>call\<in>set calls. call_readable call" and "memory_run d p0 calls = Some p"
  shows "unat (st_memory_samples (mp_stats p)) = min u64_max (sum_list (exported_field msv_sample_count p)) \<and>
    unat (st_sampled_alloc_bytes (mp_stats p)) = min u64_max (sum_list (exported_field msv_sampled_bytes p)) \<and>
    unat (st_alloc_space (mp_stats p)) = min u64_max (sum_list (exported_field msv_alloc_space p)) \<and>
    unat (st_alloc_objects (mp_stats p)) = min u64_max (sum_list (exported_field msv_alloc_objects p))"
  by (rule memory_ok_totals [OF memory_run_new_ok [OF assms]])

text \<open>
  C18: Conservation of the in-use totals. While \<open>alloc_space\<close> has not reached the 64-bit
  maximum, \<open>inuse_space\<close> is exactly the sum of the exported \<open>inuse_space\<close> fields and at most
  \<open>alloc_space\<close>; the same for the objects. Finishing the profile (freeing the live table) changes none of it.
\<close>

theorem memory_inuse_match_export:
  assumes "lp_memory_profile_new d True True sample_bytes seed track = Some p0"
    and "\<forall>call\<in>set calls. call_readable call" and "memory_run d p0 calls = Some p"
    and q: "q = p \<or> q = lp_memory_profile_finish p"
  shows "(st_alloc_space (mp_stats q) \<noteq> UINT64_MAX \<longrightarrow>
      unat (st_inuse_space (mp_stats q)) = sum_list (exported_field msv_inuse_space q) \<and>
      st_inuse_space (mp_stats q) \<le> st_alloc_space (mp_stats q)) \<and>
    (st_alloc_objects (mp_stats q) \<noteq> UINT64_MAX \<longrightarrow>
      unat (st_inuse_objects (mp_stats q)) = sum_list (exported_field msv_inuse_objects q) \<and>
      st_inuse_objects (mp_stats q) \<le> st_alloc_objects (mp_stats q))"
proof -
  have "memory_profile_ok q" using memory_run_new_ok [OF assms(1-3)] finish_ok q by blast
  then show ?thesis by (rule memory_ok_inuse)
qed

text \<open>
  C37: Life of a tracked allocation. While the tables have room and the allocation totals are
  not saturated, recording a sampled allocation at a pointer that is not tracked raises the
  in-use totals by exactly its weights, and the event that the pointer was freed, or moved by
  a reallocation, takes them back to exactly their former values; the allocation totals keep
  the sample.
\<close>

theorem tracked_allocation_lifecycle:
  assumes ok: "memory_profile_ok p" and readable: "\<forall>f\<in>set frames. frame_readable f"
    and nz: "asize \<noteq> 0" "ws \<noteq> 0" "wo \<noteq> 0" and room: "mp_aggregate_count p < MEMORY_AGGREGATE_CAPACITY"
    and l: "mp_live p = Some t" and x: "x \<noteq> NULL" "live_entry t x = None" and free: "lt_count t < LIVE_CAPACITY"
    and p1: "lp_memory_profile_record p x frames truncated asize ws wo = Some p1"
    and unsaturated: "st_alloc_space (mp_stats p1) \<noteq> UINT64_MAX" "st_alloc_objects (mp_stats p1) \<noteq> UINT64_MAX"
    and event: "(new = NULL \<and> n = 0) \<or> (new \<noteq> NULL \<and> n \<noteq> 0)"
      "lp_memory_profile_allocation_event p1 x new n True = Some p2"
  shows "unat (st_inuse_space (mp_stats p1)) = unat (st_inuse_space (mp_stats p)) + unat ws \<and>
    unat (st_inuse_objects (mp_stats p1)) = unat (st_inuse_objects (mp_stats p)) + unat wo \<and>
    st_inuse_space (mp_stats p2) = st_inuse_space (mp_stats p) \<and>
    st_inuse_objects (mp_stats p2) = st_inuse_objects (mp_stats p) \<and>
    st_alloc_space (mp_stats p2) = saturating_add (st_alloc_space (mp_stats p)) ws \<and>
    st_alloc_objects (mp_stats p2) = saturating_add (st_alloc_objects (mp_stats p)) wo"
proof -
  from memory_record_tracks [OF ok readable nz room l x free, of truncated] p1 obtain q i t' tr where
    q: "p1 = add_weight i ws wo (q\<lparr>mp_live := Some t'\<rparr>)" "mp_stats q = memory_recorded ws wo asize tr (mp_stats p)"
      "i < MEMORY_AGGREGATE_CAPACITY" "live_ok t'" "live_entry t' = (live_entry t)(x \<mapsto> (ws, wo, of_nat i))"
    by (metis option.inject)
  note f = add_weight_fields [of i ws wo "q\<lparr>mp_live := Some t'\<rparr>"]
  have ok1: "memory_profile_ok p1" using memory_record_ok [OF ok readable] p1 by (metis option.inject)
  have max: "unat v < u64_max" if "v \<noteq> UINT64_MAX" for v :: u64
    using that unat_le_u64_max [of v] by (metis le_neq_implies_less unat_UINT64_MAX word_unat_eq_iff)
  have exact: "unat (st_inuse_space (mp_stats p1)) < u64_max" "unat (st_inuse_objects (mp_stats p1)) < u64_max"
    using ok1 max [OF unsaturated(1)] max [OF unsaturated(2)]
    unfolding memory_profile_ok_def memory_space_ok_def memory_objects_ok_def inuse_nums_def by linarith+
  have up: "unat (st_inuse_space (mp_stats p1)) = unat (st_inuse_space (mp_stats p)) + unat ws"
      "unat (st_inuse_objects (mp_stats p1)) = unat (st_inuse_objects (mp_stats p)) + unat wo"
    using exact by (simp_all add: q f unat_sat min_def split: if_splits)
  have "mp_live p1 = Some t'" "live_entry t' x = Some (ws, wo, of_nat i)" by (simp_all add: q f)
  from remove_live_tracked [OF q(4) this(1) x(1) this(2)] obtain t'' where
    "remove_live p1 x = Some ((subtract_live_weight (ws, wo, of_nat i) p1)\<lparr>mp_live := Some t''\<rparr>)" by blast
  moreover have "lp_memory_profile_allocation_event p1 x new n True = remove_live p1 x"
    using \<open>mp_live p1 = Some t'\<close> x event(1) by (auto simp: lp_memory_profile_allocation_event_def)
  ultimately have p2: "p2 = (subtract_live_weight (ws, wo, of_nat i) p1)\<lparr>mp_live := Some t''\<rparr>"
    using event(2) by simp
  note g = subtract_live_weight_fields(2) [of "of_nat i" ws wo p1]
  have "unat (st_inuse_space (mp_stats p2)) = unat (st_inuse_space (mp_stats p))"
      "unat (st_inuse_objects (mp_stats p2)) = unat (st_inuse_objects (mp_stats p))"
    using g q(3) up by (simp_all add: p2 unat_sat)
  then show ?thesis using up g q(2,3) by (simp add: p2 q(1) f word_unat_eq_iff)
qed

lemma memory_example_ok: "memory_profile_ok (zero_memory_profile 1 7 True)"
  by (rule zero_memory_profile_ok)

lemma tracked_allocation_lifecycle_witness:
  "\<exists>p1 p2. lp_memory_profile_record (zero_memory_profile 1 7 True) 64 [] False 100 100 1 = Some p1 \<and>
    lp_memory_profile_allocation_event p1 64 NULL 0 True = Some p2 \<and>
    unat (st_inuse_space (mp_stats p1)) = 100 \<and> st_inuse_space (mp_stats p2) = 0 \<and>
    st_alloc_space (mp_stats p2) = 100"
proof -
  let ?p = "zero_memory_profile 1 7 True"
  have empty: "live_entry new_live_table (64 :: pointer) = None" "lt_count new_live_table < LIVE_CAPACITY"
    using new_live_table_empty by (simp_all add: live_limits)
  have p: "mp_live ?p = Some new_live_table" "mp_aggregate_count ?p < MEMORY_AGGREGATE_CAPACITY"
    "mp_stats ?p = zero_stats"
    by (simp_all add: zero_memory_profile_def memory_limits)
  from memory_record_tracks [OF memory_example_ok _ _ _ _ p(2,1) _ empty, of "[]" 100 100 1 False]
  obtain q i t' tr where r: "lp_memory_profile_record ?p 64 [] False 100 100 1 =
      Some (add_weight i 100 1 (q\<lparr>mp_live := Some t'\<rparr>))" "mp_stats q = memory_recorded 100 1 100 tr zero_stats"
    using p(3) by fastforce
  let ?p1 = "add_weight i 100 1 (q\<lparr>mp_live := Some t'\<rparr>)"
  have alloc: "st_alloc_space (mp_stats ?p1) = 100" "st_alloc_objects (mp_stats ?p1) = 1"
    by (simp_all add: add_weight_fields r(2) zero_stats_def)
  have "memory_profile_ok ?p1" using memory_record_ok [OF memory_example_ok, of "[]" 64 False 100 100 1] r(1) by simp
  from allocation_event_ok [OF this] obtain p2 where
    p2: "lp_memory_profile_allocation_event ?p1 64 NULL 0 True = Some p2" by blast
  show ?thesis
    using tracked_allocation_lifecycle [OF memory_example_ok _ _ _ _ p(2,1) _ empty r(1) _ _ _ p2] alloc r(1) p2
    by (simp add: p(3) zero_stats_def)
qed

end
