(* ===== verification/Cpu_Core.thy ===== *)
theory Cpu_Core
  imports Symbol_Store
begin

text \<open>
  The CPU profile of \<open>src/cpu_core.c\<close>: stack aggregates in an open-addressing table of 2048
  slots over the symbol store, with the counters of \<open>lp_result_stats\<close>. The counter
  \<open>stats.symbol_overflows\<close> of a profile is kept with its symbol store (\<open>ss_overflows\<close>). A
  captured stack is the list of its frames, whose length is the code's \<open>depth\<close> argument; an
  aggregate's frame array is the list of the entries copied into it. A function that returns
  \<open>bool\<close> with an output parameter returns an option. The null checks on the profile are made
  where the profile pointer is kept (theory \<open>Runtime\<close>).

  Shown here: the invariant of the profile under every operation, conservation of the sample
  counters against the exported aggregates, the accounting of every recorded sample, and
  what the views return.
\<close>

definition CPU_MAX_STACK_DEPTH :: nat where "CPU_MAX_STACK_DEPTH = 64"
definition CPU_AGGREGATE_BITS :: nat where "CPU_AGGREGATE_BITS = 11"
definition CPU_AGGREGATE_CAPACITY :: nat where "CPU_AGGREGATE_CAPACITY = 2048"

lemmas cpu_limits = CPU_MAX_STACK_DEPTH_def CPU_AGGREGATE_BITS_def CPU_AGGREGATE_CAPACITY_def

record lp_cpu_aggregate =
  ca_hash :: u64
  ca_weight :: u64
  ca_cfunction :: pointer
  ca_depth :: u16
  ca_state :: lp_vm_state
  ca_used :: bool
  ca_frames :: "lp_compact_frame list"

definition zero_cpu_aggregate :: lp_cpu_aggregate where
  "zero_cpu_aggregate = \<lparr>ca_hash = 0, ca_weight = 0, ca_cfunction = NULL, ca_depth = 0,
     ca_state = 0, ca_used = False, ca_frames = []\<rparr>"

record lp_cpu_profile =
  cp_store :: lp_symbol_store
  cp_aggregates :: "lp_cpu_aggregate list"
  cp_aggregate_count :: nat
  cp_stats :: lp_result_stats

definition cpu_aggregate_matches ::
  "lp_cpu_aggregate \<Rightarrow> lp_vm_state \<Rightarrow> pointer \<Rightarrow> lp_compact_frame list \<Rightarrow> bool" where
  "cpu_aggregate_matches aggregate state cfunction frames \<longleftrightarrow>
     ca_state aggregate = state \<and> ca_cfunction aggregate = cfunction \<and>
     unat (ca_depth aggregate) = length frames \<and>
     take (length frames) (ca_frames aggregate) = frames"

definition zero_cpu_profile :: lp_cpu_profile where
  "zero_cpu_profile = \<lparr>cp_store = new_store,
     cp_aggregates = replicate CPU_AGGREGATE_CAPACITY zero_cpu_aggregate,
     cp_aggregate_count = 0, cp_stats = zero_stats\<rparr>"

text \<open>The four arguments say which of the four allocations succeed.\<close>

definition lp_cpu_profile_new :: "bool \<Rightarrow> bool \<Rightarrow> bool \<Rightarrow> bool \<Rightarrow> lp_cpu_profile option" where
  "lp_cpu_profile_new got_profile got_symbols got_aggregates got_sources =
     (if \<not> got_profile then None
      else if \<not> got_symbols \<or> \<not> got_aggregates \<or> \<not> got_sources then None
      else Some zero_cpu_profile)"

text \<open>The code after the label \<open>recorded\<close>.\<close>

definition bump_state_sample :: "lp_vm_state \<Rightarrow> lp_result_stats \<Rightarrow> lp_result_stats" where
  "bump_state_sample state stats =
     (if state = LP_VM_HOST then stats\<lparr>st_sample_host := saturating_add (st_sample_host stats) 1\<rparr>
      else if state = LP_VM_LUA then stats\<lparr>st_sample_lua := saturating_add (st_sample_lua stats) 1\<rparr>
      else if state = LP_VM_C then stats\<lparr>st_sample_c := saturating_add (st_sample_c stats) 1\<rparr>
      else stats\<lparr>st_sample_gc := saturating_add (st_sample_gc stats) 1\<rparr>)"

definition cpu_recorded :: "lp_vm_state \<Rightarrow> bool \<Rightarrow> lp_result_stats \<Rightarrow> lp_result_stats" where
  "cpu_recorded state truncated stats =
     (let stats1 = stats\<lparr>st_samples := saturating_add (st_samples stats) 1\<rparr>;
          stats2 = bump_state_sample state stats1
      in if truncated
         then stats2\<lparr>st_stack_truncations := saturating_add (st_stack_truncations stats2) 1\<rparr>
         else stats2)"

definition lp_cpu_profile_record ::
  "lp_cpu_profile \<Rightarrow> lp_vm_state \<Rightarrow> pointer \<Rightarrow> lp_stack_frame list \<Rightarrow> bool \<Rightarrow> lp_cpu_profile" where
  "lp_cpu_profile_record profile state cfunction frames truncated =
     (if state < LP_VM_HOST \<or> state > LP_VM_GC then profile
      else
        let (frames, truncated) =
              (if length frames > CPU_MAX_STACK_DEPTH then (take CPU_MAX_STACK_DEPTH frames, True)
               else (frames, truncated));
            hash0 = hash_bytes (hash_bytes fnv_offset (le_bytes 4 state)) (le_bytes 8 cfunction);
            (store, compact, hash) = intern_frames (cp_store profile) frames hash0;
            profile = profile\<lparr>cp_store := store\<rparr>
        in case find_slot CPU_AGGREGATE_BITS ca_used
                  (\<lambda>aggregate. ca_hash aggregate = hash \<and>
                     cpu_aggregate_matches aggregate state cfunction compact)
                  (cp_aggregates profile) hash of
             None \<Rightarrow>
               profile\<lparr>cp_stats := (cp_stats profile)
                 \<lparr>st_aggregate_overflows := saturating_add (st_aggregate_overflows (cp_stats profile)) 1\<rparr>\<rparr>
           | Some index \<Rightarrow>
               let aggregate = cp_aggregates profile ! index;
                   profile1 =
                     (if ca_used aggregate
                      then profile\<lparr>cp_aggregates := (cp_aggregates profile)
                             [index := aggregate\<lparr>ca_weight := saturating_add (ca_weight aggregate) 1\<rparr>]\<rparr>
                      else profile\<lparr>cp_aggregates := (cp_aggregates profile)
                             [index := \<lparr>ca_hash = hash, ca_weight = 1, ca_cfunction = cfunction,
                                ca_depth = of_nat (length compact), ca_state = state,
                                ca_used = True, ca_frames = compact\<rparr>],
                             cp_aggregate_count := Suc (cp_aggregate_count profile)\<rparr>)
               in profile1\<lparr>cp_stats := cpu_recorded state truncated (cp_stats profile1)\<rparr>)"

definition lp_cpu_profile_quality ::
  "lp_cpu_profile \<Rightarrow> u64 \<Rightarrow> u64 \<Rightarrow> u64 \<Rightarrow> u64 \<Rightarrow> u64 \<Rightarrow> lp_cpu_profile" where
  "lp_cpu_profile_quality profile dropped unstable profiler_overhead overrun_events overrun_ticks =
     (let s = cp_stats profile
      in profile\<lparr>cp_stats := s
           \<lparr>st_dropped_events := saturating_add (st_dropped_events s) dropped,
            st_unstable_events := saturating_add (st_unstable_events s) unstable,
            st_profiler_overhead_events :=
              saturating_add (st_profiler_overhead_events s) profiler_overhead,
            st_overrun_events := saturating_add (st_overrun_events s) overrun_events,
            st_overrun_ticks := saturating_add (st_overrun_ticks s) overrun_ticks\<rparr>\<rparr>)"

definition lp_cpu_profile_merge_stats :: "lp_cpu_profile \<Rightarrow> lp_result_stats \<Rightarrow> lp_result_stats" where
  "lp_cpu_profile_merge_stats profile stats =
     (let s = cp_stats profile
      in stats\<lparr>st_samples := st_samples s, st_sample_host := st_sample_host s,
           st_sample_lua := st_sample_lua s, st_sample_c := st_sample_c s,
           st_sample_gc := st_sample_gc s, st_overrun_events := st_overrun_events s,
           st_overrun_ticks := st_overrun_ticks s, st_dropped_events := st_dropped_events s,
           st_unstable_events := st_unstable_events s,
           st_profiler_overhead_events := st_profiler_overhead_events s,
           st_stack_truncations := st_stack_truncations s,
           st_aggregate_overflows := st_aggregate_overflows s,
           st_symbol_overflows := ss_overflows (cp_store profile)\<rparr>)"

definition lp_cpu_profile_sample_count :: "lp_cpu_profile \<Rightarrow> nat" where
  "lp_cpu_profile_sample_count profile = cp_aggregate_count profile"

definition cpu_aggregate_at :: "lp_cpu_profile \<Rightarrow> nat \<Rightarrow> lp_cpu_aggregate option" where
  "cpu_aggregate_at profile wanted =
     (if wanted \<ge> cp_aggregate_count profile then None
      else nth_used ca_used (cp_aggregates profile) wanted)"

definition lp_cpu_profile_sample :: "lp_cpu_profile \<Rightarrow> nat \<Rightarrow> lp_cpu_sample_view option" where
  "lp_cpu_profile_sample profile index =
     (case cpu_aggregate_at profile index of
        None \<Rightarrow> None
      | Some aggregate \<Rightarrow>
          Some \<lparr>csv_state = ca_state aggregate, csv_cfunction = ca_cfunction aggregate,
                csv_weight = ca_weight aggregate, csv_depth = unat (ca_depth aggregate)\<rparr>)"

definition lp_cpu_profile_frame :: "lp_cpu_profile \<Rightarrow> nat \<Rightarrow> nat \<Rightarrow> lp_frame_view option" where
  "lp_cpu_profile_frame profile sample_index frame_index =
     (case cpu_aggregate_at profile sample_index of
        None \<Rightarrow> None
      | Some aggregate \<Rightarrow>
          if frame_index \<ge> unat (ca_depth aggregate) then None
          else
            let compact = ca_frames aggregate ! frame_index;
                symbol_id = cf_symbol compact
            in if symbol_id = 0 \<or> unat symbol_id > SYMBOL_CAPACITY
               then Some (zero_frame\<lparr>fr_currentline := cf_currentline compact\<rparr>)
               else Some (symbol_view (cp_store profile)
                      (ss_symbols (cp_store profile) ! (unat symbol_id - 1))
                      (cf_currentline compact)))"

section \<open>The aggregate table\<close>

type_synonym cpu_key = "lp_vm_state \<times> pointer \<times> nat \<times> lp_compact_frame list"

definition ca_key :: "lp_cpu_aggregate \<Rightarrow> cpu_key" where
  "ca_key a = (ca_state a, ca_cfunction a, unat (ca_depth a), take (unat (ca_depth a)) (ca_frames a))"

fun cpu_key_hash :: "cpu_key \<Rightarrow> u64" where
  "cpu_key_hash (state, cfunction, n, frames) =
     hash_stack (hash_bytes (hash_bytes fnv_offset (le_bytes 4 state)) (le_bytes 8 cfunction)) frames"

definition cpu_key_matches :: "cpu_key \<Rightarrow> lp_cpu_aggregate \<Rightarrow> bool" where
  "cpu_key_matches k a \<longleftrightarrow> ca_hash a = cpu_key_hash k \<and> ca_key a = k"

lemma ca_key_weight [simp]: "ca_key (a\<lparr>ca_weight := w\<rparr>) = ca_key a"
  by (simp add: ca_key_def)

lemma cpu_aggregate_matches_key:
  "cpu_aggregate_matches a state cfunction frames \<longleftrightarrow>
   ca_key a = (state, cfunction, length frames, frames)"
  by (auto simp: cpu_aggregate_matches_def ca_key_def)

interpretation cputab: open_table CPU_AGGREGATE_BITS ca_used ca_key ca_hash cpu_key_hash cpu_key_matches
  by unfold_locales (simp_all add: cpu_limits cpu_key_matches_def)

lemma cpu_capacity_bits: "2 ^ CPU_AGGREGATE_BITS = CPU_AGGREGATE_CAPACITY"
  by (simp add: cpu_limits)

section \<open>The invariant\<close>

text \<open>The weight an aggregate contributes to the samples of one VM state, or of all.\<close>

definition cpu_weight :: "lp_cpu_aggregate \<Rightarrow> nat" where
  "cpu_weight a = (if ca_used a then unat (ca_weight a) else 0)"

definition cpu_weight_in :: "lp_vm_state \<Rightarrow> lp_cpu_aggregate \<Rightarrow> nat" where
  "cpu_weight_in state a = (if ca_used a \<and> ca_state a = state then unat (ca_weight a) else 0)"

definition cpu_aggregate_ok :: "lp_symbol_store \<Rightarrow> lp_cpu_aggregate \<Rightarrow> bool" where
  "cpu_aggregate_ok store a \<longleftrightarrow>
     unat (ca_depth a) = length (ca_frames a) \<and> length (ca_frames a) \<le> CPU_MAX_STACK_DEPTH \<and>
     ca_state a \<le> LP_VM_GC \<and> ca_weight a \<noteq> 0 \<and> (\<forall>c\<in>set (ca_frames a). compact_ok store c)"

text \<open>
  The shape of a profile, and the four counters against the weights: a counter is the sum of
  the weights it stands for, or has reached its maximum.
\<close>

definition cpu_shape_ok :: "lp_cpu_profile \<Rightarrow> bool" where
  "cpu_shape_ok p \<longleftrightarrow>
     store_ok (cp_store p) \<and>
     table_ok CPU_AGGREGATE_BITS ca_used ca_key ca_hash cpu_key_hash (cp_aggregates p) \<and>
     cp_aggregate_count p = length (filter ca_used (cp_aggregates p)) \<and>
     (\<forall>a\<in>set (cp_aggregates p). ca_used a \<longrightarrow> cpu_aggregate_ok (cp_store p) a)"

definition cpu_counts_ok :: "lp_cpu_profile \<Rightarrow> bool" where
  "cpu_counts_ok p \<longleftrightarrow>
     unat (st_samples (cp_stats p)) = min u64_max (sum_list (map cpu_weight (cp_aggregates p))) \<and>
     unat (st_sample_host (cp_stats p)) =
       min u64_max (sum_list (map (cpu_weight_in LP_VM_HOST) (cp_aggregates p))) \<and>
     unat (st_sample_lua (cp_stats p)) =
       min u64_max (sum_list (map (cpu_weight_in LP_VM_LUA) (cp_aggregates p))) \<and>
     unat (st_sample_c (cp_stats p)) =
       min u64_max (sum_list (map (cpu_weight_in LP_VM_C) (cp_aggregates p))) \<and>
     unat (st_sample_gc (cp_stats p)) =
       min u64_max (sum_list (map (cpu_weight_in LP_VM_GC) (cp_aggregates p)))"

definition cpu_profile_ok :: "lp_cpu_profile \<Rightarrow> bool" where
  "cpu_profile_ok p \<longleftrightarrow> cpu_shape_ok p \<and> cpu_counts_ok p"

lemma cpu_aggregate_ok_extends:
  "store_extends store store' \<Longrightarrow> cpu_aggregate_ok store a \<Longrightarrow> cpu_aggregate_ok store' a"
  by (auto simp: cpu_aggregate_ok_def compact_ok_extends)

lemma lp_cpu_profile_new_ok: "lp_cpu_profile_new a b c d = Some p \<Longrightarrow> cpu_profile_ok p"
  by (auto simp: lp_cpu_profile_new_def zero_cpu_profile_def cpu_profile_ok_def cpu_shape_ok_def cpu_counts_ok_def
      new_store_ok cputab.ok_empty cpu_capacity_bits zero_cpu_aggregate_def zero_stats_def
      sum_list_replicate cpu_weight_def cpu_weight_in_def split: if_splits)

section \<open>Recording a sample\<close>

text \<open>
  The part of \<open>lp_cpu_profile_record\<close> after the stack is compacted, so that its three
  outcomes (table full, aggregate found, aggregate inserted) can be treated apart.
\<close>

definition cpu_clip :: "lp_stack_frame list \<Rightarrow> bool \<Rightarrow> lp_stack_frame list \<times> bool" where
  "cpu_clip frames truncated =
     (if length frames > CPU_MAX_STACK_DEPTH then (take CPU_MAX_STACK_DEPTH frames, True)
      else (frames, truncated))"

definition cpu_file ::
  "lp_cpu_profile \<Rightarrow> lp_vm_state \<Rightarrow> pointer \<Rightarrow> lp_compact_frame list \<Rightarrow> bool \<Rightarrow> lp_cpu_profile" where
  "cpu_file p state cfunction compact truncated =
     (let k = (state, cfunction, length compact, compact); s = cp_stats p
      in case cputab.slot_for k (cp_aggregates p) of
           None \<Rightarrow> p\<lparr>cp_stats := s\<lparr>st_aggregate_overflows := saturating_add (st_aggregate_overflows s) 1\<rparr>\<rparr>
         | Some i \<Rightarrow>
             let a = cp_aggregates p ! i
             in if ca_used a
                then p\<lparr>cp_aggregates := (cp_aggregates p)[i := a\<lparr>ca_weight := saturating_add (ca_weight a) 1\<rparr>],
                       cp_stats := cpu_recorded state truncated s\<rparr>
                else p\<lparr>cp_aggregates := (cp_aggregates p)[i :=
                         \<lparr>ca_hash = cpu_key_hash k, ca_weight = 1, ca_cfunction = cfunction,
                          ca_depth = of_nat (length compact), ca_state = state, ca_used = True,
                          ca_frames = compact\<rparr>],
                       cp_aggregate_count := Suc (cp_aggregate_count p),
                       cp_stats := cpu_recorded state truncated s\<rparr>)"

lemma record_by_file:
  assumes "state \<le> LP_VM_GC" and "cpu_clip frames truncated = (fs, tr)"
    and "store_ok (cp_store p)" and "\<forall>f\<in>set frames. frame_readable f"
    and "intern_frames (cp_store p) fs
      (hash_bytes (hash_bytes fnv_offset (le_bytes 4 state)) (le_bytes 8 cfunction)) = (store, cs, h)"
  shows "lp_cpu_profile_record p state cfunction frames truncated =
    cpu_file (p\<lparr>cp_store := store\<rparr>) state cfunction cs tr"
proof -
  have "\<forall>f\<in>set fs. frame_readable f"
    using assms(2,4) by (auto simp: cpu_clip_def dest: in_set_takeD split: if_splits)
  then have h: "h = cpu_key_hash (state, cfunction, length cs, cs)"
    using intern_frames_correct [OF assms(3) _ assms(5)] by simp
  have s: "\<not> state < LP_VM_HOST \<and> \<not> state > LP_VM_GC" using assms(1) by (simp add: not_less)
  have slot: "find_slot CPU_AGGREGATE_BITS ca_used
      (\<lambda>a. ca_hash a = h \<and> cpu_aggregate_matches a state cfunction cs) tbl h =
    cputab.slot_for (state, cfunction, length cs, cs) tbl" for tbl
    by (simp add: cpu_key_matches_def [abs_def] cpu_aggregate_matches_key h)
  show ?thesis
    unfolding lp_cpu_profile_record_def cpu_file_def
    using s assms(2) [unfolded cpu_clip_def]
    by (simp add: assms(5) slot Let_def h [symmetric] del: cpu_key_hash.simps split: option.split)
qed

lemma cpu_recorded_counters [simp]:
  "st_samples (cpu_recorded state tr s) = saturating_add (st_samples s) 1"
  "st_aggregate_overflows (cpu_recorded state tr s) = st_aggregate_overflows s"
  "st_sample_host (cpu_recorded state tr s) =
     (if state = LP_VM_HOST then saturating_add (st_sample_host s) 1 else st_sample_host s)"
  "st_sample_lua (cpu_recorded state tr s) =
     (if state = LP_VM_LUA then saturating_add (st_sample_lua s) 1 else st_sample_lua s)"
  "st_sample_c (cpu_recorded state tr s) =
     (if state = LP_VM_C then saturating_add (st_sample_c s) 1 else st_sample_c s)"
  "st_stack_truncations (cpu_recorded state tr s) =
     (if tr then saturating_add (st_stack_truncations s) 1 else st_stack_truncations s)"
  by (simp_all add: cpu_recorded_def bump_state_sample_def Let_def)

lemma cpu_recorded_gc [simp]:
  "state \<le> LP_VM_GC \<Longrightarrow> st_sample_gc (cpu_recorded state tr s) =
     (if state = LP_VM_GC then saturating_add (st_sample_gc s) 1 else st_sample_gc s)"
proof -
  assume "state \<le> LP_VM_GC"
  then have "state = 0 \<or> state = 1 \<or> state = 2 \<or> state = 3" by unat_arith
  then show ?thesis by (auto simp: cpu_recorded_def bump_state_sample_def Let_def)
qed

text \<open>Counting one more sample of a state, when one table slot gains that sample.\<close>

lemma cpu_counts_step:
  assumes counts: "cpu_counts_ok p" and i: "i < length (cp_aggregates p)" and state: "state \<le> LP_VM_GC"
    and gain: "cpu_weight a = min u64_max (cpu_weight (cp_aggregates p ! i) + 1)"
      "\<And>s. cpu_weight_in s a =
        min u64_max (cpu_weight_in s (cp_aggregates p ! i) + (if s = state then 1 else 0))"
  shows "cpu_counts_ok (p\<lparr>cp_aggregates := (cp_aggregates p)[i := a], cp_aggregate_count := n,
    cp_stats := cpu_recorded state tr (cp_stats p)\<rparr>)"
proof -
  note total = sum_list_cap_update [OF i, of cpu_weight, OF gain(1)]
  note per_state = sum_list_cap_update [OF i, of "cpu_weight_in s" for s, OF gain(2)]
  show ?thesis
    using counts state unfolding cpu_counts_ok_def
    by (simp add: total per_state unat_sat)
qed

lemma cpu_file_ok:
  assumes ok: "cpu_profile_ok p" and state: "state \<le> LP_VM_GC"
    and cs: "\<forall>c\<in>set cs. compact_ok (cp_store p) c" "length cs \<le> CPU_MAX_STACK_DEPTH"
  shows "cpu_profile_ok (cpu_file p state cfunction cs tr)"
proof -
  let ?k = "(state, cfunction, length cs, cs)"
  have shape: "cpu_shape_ok p" and counts: "cpu_counts_ok p"
    using ok by (simp_all add: cpu_profile_ok_def)
  have tab: "cputab.ok (cp_aggregates p)" using shape by (simp add: cpu_shape_ok_def)
  have len: "length (cp_aggregates p) = CPU_AGGREGATE_CAPACITY"
    using cputab.ok_length [OF tab] cpu_capacity_bits by simp
  have depth: "unat (of_nat (length cs) :: u16) = length cs"
    using cs(2) by (simp add: unat_of_nat cpu_limits)
  show ?thesis
  proof (cases "cputab.slot_for ?k (cp_aggregates p)")
    case None
    then show ?thesis
      using ok by (simp add: Let_def cpu_file_def cpu_profile_ok_def cpu_shape_ok_def cpu_counts_ok_def)
  next
    case (Some i)
    have i: "i < CPU_AGGREGATE_CAPACITY" using cputab.slot_for_bound [OF Some] cpu_capacity_bits by simp
    let ?a = "cp_aggregates p ! i"
    show ?thesis
    proof (cases "ca_used ?a")
      case True
      let ?b = "?a\<lparr>ca_weight := saturating_add (ca_weight ?a) 1\<rparr>"
      have key: "ca_key ?a = ?k" by (rule cputab.slot_for_used [OF tab Some True])
      have aok: "cpu_aggregate_ok (cp_store p) ?a"
        using shape True i len by (simp add: cpu_shape_ok_def)
      have "0 < unat (ca_weight ?b)" by (simp add: unat_sat)
      then have "ca_weight ?b \<noteq> 0" by (metis less_numeral_extra(3) unsigned_0)
      then have "cpu_aggregate_ok (cp_store p) ?b"
        using aok by (simp add: cpu_aggregate_ok_def)
      moreover have "cputab.ok ((cp_aggregates p)[i := ?b])"
        using i True by (intro cputab.ok_rewrite [OF tab]) (simp_all add: cpu_capacity_bits ca_key_def)
      ultimately have "cpu_shape_ok (cpu_file p state cfunction cs tr)"
        using shape True i len Some
        by (auto simp: cpu_file_def Let_def cpu_shape_ok_def filter_update_same
            dest!: set_update_subset_insert [THEN subsetD])
      moreover have "cpu_counts_ok (cpu_file p state cfunction cs tr)"
        using cpu_counts_step [OF counts _ state, where i = i and a = ?b and n = "cp_aggregate_count p"] key True i len Some
        by (auto simp: cpu_file_def Let_def cpu_weight_def cpu_weight_in_def unat_sat ca_key_def)
      ultimately show ?thesis by (simp add: cpu_profile_ok_def)
    next
      case False
      let ?b = "\<lparr>ca_hash = cpu_key_hash ?k, ca_weight = 1, ca_cfunction = cfunction,
        ca_depth = of_nat (length cs), ca_state = state, ca_used = True, ca_frames = cs\<rparr>"
      have "cpu_aggregate_ok (cp_store p) ?b"
        using cs state depth by (simp add: cpu_aggregate_ok_def)
      moreover have "cputab.ok ((cp_aggregates p)[i := ?b])"
        using depth by (intro cputab.ok_insert [OF tab Some False]) (simp_all add: ca_key_def)
      ultimately have "cpu_shape_ok (cpu_file p state cfunction cs tr)"
        using shape False i len Some
        by (auto simp: cpu_file_def Let_def cpu_shape_ok_def length_filter_update
            dest!: set_update_subset_insert [THEN subsetD])
      moreover have "cpu_counts_ok (cpu_file p state cfunction cs tr)"
        using cpu_counts_step [OF counts _ state, where i = i and a = ?b and n = "Suc (cp_aggregate_count p)"] False i len Some
        by (auto simp: cpu_file_def Let_def cpu_weight_def cpu_weight_in_def)
      ultimately show ?thesis by (simp add: cpu_profile_ok_def)
    qed
  qed
qed

lemma cpu_store_step_ok:
  assumes "cpu_profile_ok p" and "store_ok store" and "store_extends (cp_store p) store"
  shows "cpu_profile_ok (p\<lparr>cp_store := store\<rparr>)"
  using assms by (auto simp: cpu_profile_ok_def cpu_shape_ok_def cpu_counts_ok_def cpu_aggregate_ok_extends)

text \<open>How every valid call of \<open>lp_cpu_profile_record\<close> runs.\<close>

lemma cpu_record_run:
  assumes ok: "cpu_profile_ok p" and state: "state \<le> LP_VM_GC"
    and readable: "\<forall>f\<in>set frames. frame_readable f"
  obtains store cs where
    "lp_cpu_profile_record p state cfunction frames truncated =
       cpu_file (p\<lparr>cp_store := store\<rparr>) state cfunction cs (truncated \<or> length frames > CPU_MAX_STACK_DEPTH)"
    and "store_ok store" and "store_extends (cp_store p) store"
    and "list_all2 (compact_for store) (take CPU_MAX_STACK_DEPTH frames) cs"
    and "\<exists>h. intern_frames (cp_store p) (take CPU_MAX_STACK_DEPTH frames)
      (hash_bytes (hash_bytes fnv_offset (le_bytes 4 state)) (le_bytes 8 cfunction)) = (store, cs, h)"
proof -
  let ?fs = "take CPU_MAX_STACK_DEPTH frames"
  have clip: "cpu_clip frames truncated = (?fs, truncated \<or> length frames > CPU_MAX_STACK_DEPTH)"
    by (simp add: cpu_clip_def)
  have sok: "store_ok (cp_store p)" using ok by (simp add: cpu_profile_ok_def cpu_shape_ok_def)
  obtain store cs h where int: "intern_frames (cp_store p) ?fs
      (hash_bytes (hash_bytes fnv_offset (le_bytes 4 state)) (le_bytes 8 cfunction)) = (store, cs, h)"
    by (metis prod_cases3)
  have "\<forall>f\<in>set ?fs. frame_readable f" using readable by (auto dest: in_set_takeD)
  from intern_frames_correct [OF sok this int] record_by_file [OF state clip sok readable int]
  show ?thesis by (intro that) (auto simp: int)
qed

lemma cpu_record_ok:
  assumes "cpu_profile_ok p" and "\<forall>f\<in>set frames. frame_readable f"
  shows "cpu_profile_ok (lp_cpu_profile_record p state cfunction frames truncated)"
proof (cases "state \<le> LP_VM_GC")
  case True
  from cpu_record_run [OF assms(1) True assms(2), of cfunction truncated] obtain store cs where
    r: "lp_cpu_profile_record p state cfunction frames truncated =
       cpu_file (p\<lparr>cp_store := store\<rparr>) state cfunction cs (truncated \<or> length frames > CPU_MAX_STACK_DEPTH)"
    "store_ok store" "store_extends (cp_store p) store"
    "list_all2 (compact_for store) (take CPU_MAX_STACK_DEPTH frames) cs" .
  have "length cs \<le> CPU_MAX_STACK_DEPTH" using list_all2_lengthD [OF r(4)] by simp
  then show ?thesis
    using cpu_file_ok [OF cpu_store_step_ok [OF assms(1) r(2,3)] True] compact_list_ok [OF r(4)]
    by (simp add: r(1))
next
  case False
  then show ?thesis using assms(1) by (simp add: lp_cpu_profile_record_def not_le)
qed

section \<open>Reading a profile\<close>

lemma cpu_aggregate_at_filter:
  "cpu_shape_ok p \<Longrightarrow> cpu_aggregate_at p i =
     (if i < cp_aggregate_count p then Some (filter ca_used (cp_aggregates p) ! i) else None)"
  by (simp add: cpu_aggregate_at_def nth_used_filter cpu_shape_ok_def)

lemma cpu_aggregate_at_used:
  assumes "cpu_shape_ok p" and "cpu_aggregate_at p i = Some a"
  shows "a \<in> set (cp_aggregates p) \<and> ca_used a \<and> cpu_aggregate_ok (cp_store p) a"
proof -
  have "a \<in> set (filter ca_used (cp_aggregates p))"
    using assms by (auto simp: cpu_aggregate_at_filter cpu_shape_ok_def simp del: set_filter split: if_splits)
  then show ?thesis using assms(1) by (simp add: cpu_shape_ok_def)
qed

lemma cpu_sample_exists:
  "cpu_shape_ok p \<Longrightarrow> lp_cpu_profile_sample p i \<noteq> None \<longleftrightarrow> i < lp_cpu_profile_sample_count p"
  by (simp add: lp_cpu_profile_sample_def cpu_aggregate_at_filter lp_cpu_profile_sample_count_def)

text \<open>Every used slot is exported, at the index of its place among the used ones.\<close>

lemma cpu_aggregate_at_reaches:
  assumes "cpu_shape_ok p" and "a \<in> set (cp_aggregates p)" and "ca_used a"
  shows "\<exists>i<lp_cpu_profile_sample_count p. cpu_aggregate_at p i = Some a"
proof -
  have "a \<in> set (filter ca_used (cp_aggregates p))" using assms(2,3) by simp
  then obtain i where "i < length (filter ca_used (cp_aggregates p))" "filter ca_used (cp_aggregates p) ! i = a"
    by (auto simp: in_set_conv_nth simp del: set_filter)
  then show ?thesis
    using assms(1) by (auto simp: cpu_aggregate_at_filter cpu_shape_ok_def lp_cpu_profile_sample_count_def)
qed

text \<open>The exported weights, in export order.\<close>

definition exported_weights :: "lp_cpu_profile \<Rightarrow> nat list" where
  "exported_weights p =
     map (\<lambda>i. case lp_cpu_profile_sample p i of None \<Rightarrow> 0 | Some v \<Rightarrow> unat (csv_weight v))
       [0..<lp_cpu_profile_sample_count p]"

lemma exported_weights_sum:
  assumes "cpu_shape_ok p"
  shows "sum_list (exported_weights p) = sum_list (map cpu_weight (cp_aggregates p))"
proof -
  let ?used = "filter ca_used (cp_aggregates p)"
  have "exported_weights p = map (\<lambda>i. unat (ca_weight (?used ! i))) [0..<length ?used]"
    using assms
    by (auto simp: exported_weights_def lp_cpu_profile_sample_def cpu_aggregate_at_filter
        lp_cpu_profile_sample_count_def cpu_shape_ok_def)
  also have "\<dots> = map (unat \<circ> ca_weight) ?used"
    by (rule nth_equalityI) simp_all
  finally show ?thesis
    by (simp add: cpu_weight_def [abs_def] sum_used_slots comp_def)
qed

section \<open>Runs of recorded samples\<close>

type_synonym cpu_call = "lp_vm_state \<times> pointer \<times> lp_stack_frame list \<times> bool"

primrec cpu_record_all :: "lp_cpu_profile \<Rightarrow> cpu_call list \<Rightarrow> lp_cpu_profile" where
  "cpu_record_all p [] = p"
| "cpu_record_all p (call # calls) =
     (case call of (state, cfunction, frames, truncated) \<Rightarrow>
        cpu_record_all (lp_cpu_profile_record p state cfunction frames truncated) calls)"

definition calls_readable :: "cpu_call list \<Rightarrow> bool" where
  "calls_readable calls \<longleftrightarrow> (\<forall>(state, cfunction, frames, truncated)\<in>set calls. \<forall>f\<in>set frames. frame_readable f)"

lemma cpu_record_all_ok:
  "cpu_profile_ok p \<Longrightarrow> calls_readable calls \<Longrightarrow> cpu_profile_ok (cpu_record_all p calls)"
proof (induction calls arbitrary: p)
  case Nil
  then show ?case by simp
next
  case (Cons call calls)
  obtain st cf fs tr where call: "call = (st, cf, fs, tr)" by (cases call)
  have "cpu_profile_ok (lp_cpu_profile_record p st cf fs tr)"
    using Cons.prems by (intro cpu_record_ok) (auto simp: calls_readable_def call)
  with Cons show ?case by (simp add: call calls_readable_def)
qed

lemma cpu_file_accounts:
  "(st_samples (cp_stats (cpu_file p state cf cs tr)) = saturating_add (st_samples (cp_stats p)) 1 \<and>
      st_aggregate_overflows (cp_stats (cpu_file p state cf cs tr)) = st_aggregate_overflows (cp_stats p)) \<or>
   (st_samples (cp_stats (cpu_file p state cf cs tr)) = st_samples (cp_stats p) \<and>
      st_aggregate_overflows (cp_stats (cpu_file p state cf cs tr)) =
        saturating_add (st_aggregate_overflows (cp_stats p)) 1)"
  by (simp add: cpu_file_def Let_def split: option.split)

lemma cpu_record_accounts:
  assumes "cpu_profile_ok p" and "\<forall>f\<in>set frames. frame_readable f" and "state \<le> LP_VM_GC"
    and "unat (st_samples (cp_stats p)) + unat (st_aggregate_overflows (cp_stats p)) < u64_max"
  shows "unat (st_samples (cp_stats (lp_cpu_profile_record p state cf frames tr))) +
     unat (st_aggregate_overflows (cp_stats (lp_cpu_profile_record p state cf frames tr))) =
     Suc (unat (st_samples (cp_stats p)) + unat (st_aggregate_overflows (cp_stats p)))"
proof -
  from cpu_record_run [OF assms(1,3,2), of cf tr] obtain store cs where
    r: "lp_cpu_profile_record p state cf frames tr =
      cpu_file (p\<lparr>cp_store := store\<rparr>) state cf cs (tr \<or> length frames > CPU_MAX_STACK_DEPTH)"
    by metis
  show ?thesis
    using cpu_file_accounts [of "p\<lparr>cp_store := store\<rparr>" state cf cs "tr \<or> length frames > CPU_MAX_STACK_DEPTH"] assms(4)
    by (auto simp: r unat_sat)
qed

lemma cpu_record_all_accounts:
  assumes "cpu_profile_ok p" and "calls_readable calls" and "\<forall>(st, cf, fs, tr)\<in>set calls. st \<le> LP_VM_GC"
    and "unat (st_samples (cp_stats p)) + unat (st_aggregate_overflows (cp_stats p)) + length calls \<le> u64_max"
  shows "unat (st_samples (cp_stats (cpu_record_all p calls))) +
      unat (st_aggregate_overflows (cp_stats (cpu_record_all p calls))) =
     unat (st_samples (cp_stats p)) + unat (st_aggregate_overflows (cp_stats p)) + length calls"
  using assms
proof (induction calls arbitrary: p)
  case Nil
  then show ?case by simp
next
  case (Cons call calls)
  obtain st cf fs tr where call: "call = (st, cf, fs, tr)" by (cases call)
  have hyps: "\<forall>f\<in>set fs. frame_readable f" "st \<le> LP_VM_GC"
    using Cons.prems(2,3) by (auto simp: calls_readable_def call)
  have step: "unat (st_samples (cp_stats (lp_cpu_profile_record p st cf fs tr))) +
     unat (st_aggregate_overflows (cp_stats (lp_cpu_profile_record p st cf fs tr))) =
     Suc (unat (st_samples (cp_stats p)) + unat (st_aggregate_overflows (cp_stats p)))"
    using Cons.prems(1,4) hyps by (intro cpu_record_accounts) auto
  have "cpu_profile_ok (lp_cpu_profile_record p st cf fs tr)"
    using Cons.prems(1) hyps by (intro cpu_record_ok) auto
  from Cons.IH [OF this] step Cons.prems show ?case
    by (simp add: call calls_readable_def)
qed

section \<open>Where a sample ends up\<close>

text \<open>
  When the aggregate table has room for the stack, the sample sits in a used slot with
  exactly its state, C function and compact frames.
\<close>

lemma cpu_file_stored:
  assumes ok: "cpu_profile_ok p" and cs: "length cs \<le> CPU_MAX_STACK_DEPTH"
    and slot: "cputab.slot_for (state, cfunction, length cs, cs) (cp_aggregates p) = Some i"
  shows "i < CPU_AGGREGATE_CAPACITY \<and> ca_used (cp_aggregates (cpu_file p state cfunction cs tr) ! i) \<and>
    ca_key (cp_aggregates (cpu_file p state cfunction cs tr) ! i) = (state, cfunction, length cs, cs) \<and>
    cp_store (cpu_file p state cfunction cs tr) = cp_store p"
proof -
  have tab: "cputab.ok (cp_aggregates p)" using ok by (simp add: cpu_profile_ok_def cpu_shape_ok_def)
  have i: "i < CPU_AGGREGATE_CAPACITY" using cputab.slot_for_bound [OF slot] cpu_capacity_bits by simp
  have len: "length (cp_aggregates p) = CPU_AGGREGATE_CAPACITY"
    using cputab.ok_length [OF tab] cpu_capacity_bits by simp
  have depth: "unat (of_nat (length cs) :: u16) = length cs"
    using cs by (simp add: unat_of_nat cpu_limits)
  show ?thesis
  proof (cases "ca_used (cp_aggregates p ! i)")
    case True
    then show ?thesis
      using slot i len cputab.slot_for_used [OF tab slot True]
      by (simp add: cpu_file_def Let_def)
  next
    case False
    then show ?thesis
      using slot i len depth by (simp add: cpu_file_def Let_def ca_key_def)
  qed
qed

lemma cpu_room:
  assumes "cpu_shape_ok p" and "cp_aggregate_count p < CPU_AGGREGATE_CAPACITY"
  shows "cputab.slot_for k (cp_aggregates p) \<noteq> None"
proof
  have tab: "cputab.ok (cp_aggregates p)" using assms(1) by (simp add: cpu_shape_ok_def)
  assume "cputab.slot_for k (cp_aggregates p) = None"
  then have "\<forall>a\<in>set (cp_aggregates p). ca_used a"
    using cputab.slot_for_None [OF tab] cputab.ok_length [OF tab] by (auto simp: in_set_conv_nth)
  then have "filter ca_used (cp_aggregates p) = cp_aggregates p" by simp
  then show False
    using assms cputab.ok_length [OF tab] by (simp add: cpu_shape_ok_def cpu_capacity_bits)
qed

text \<open>The view of a compact frame of the profile.\<close>

lemma cpu_frame_view:
  assumes "cpu_aggregate_at p i = Some a" and "j < unat (ca_depth a)"
  shows "lp_cpu_profile_frame p i j =
    (let c = ca_frames a ! j
     in if cf_symbol c = 0 \<or> unat (cf_symbol c) > SYMBOL_CAPACITY
        then Some (zero_frame\<lparr>fr_currentline := cf_currentline c\<rparr>)
        else Some (symbol_view (cp_store p) (ss_symbols (cp_store p) ! (unat (cf_symbol c) - 1)) (cf_currentline c)))"
  using assms by (simp add: lp_cpu_profile_frame_def Let_def)

text \<open>A view shows the frame's identity and current line.\<close>

definition same_frame :: "lp_frame_view \<Rightarrow> lp_stack_frame \<Rightarrow> bool" where
  "same_frame v f \<longleftrightarrow>
     fr_kind v = fr_kind f \<and> fr_function v = fr_function f \<and> fr_cfunction v = fr_cfunction f \<and>
     fr_linedefined v = fr_linedefined f \<and> fr_currentline v = fr_currentline f"

lemma compact_for_view:
  assumes "compact_for store f c" and "cf_symbol c \<noteq> 0"
  shows "same_frame (symbol_view store (ss_symbols store ! (unat (cf_symbol c) - 1)) (cf_currentline c)) f"
  using assms by (auto simp: compact_for_def same_frame_def symbol_view_def sym_key_def frame_key_def)

text \<open>
  The slot a recorded sample lands in, and the place where it is exported.
\<close>

lemma cpu_record_lands:
  assumes ok: "cpu_profile_ok p" and readable: "\<forall>f\<in>set frames. frame_readable f"
    and state: "state \<le> LP_VM_GC" and room: "cp_aggregate_count p < CPU_AGGREGATE_CAPACITY"
    and p': "p' = lp_cpu_profile_record p state cfunction frames truncated"
  obtains cs k where "list_all2 (compact_for (cp_store p')) (take CPU_MAX_STACK_DEPTH frames) cs"
    and "k < CPU_AGGREGATE_CAPACITY" and "ca_used (cp_aggregates p' ! k)"
    and "ca_key (cp_aggregates p' ! k) = (state, cfunction, length cs, cs)"
    and "store_extends (cp_store p) (cp_store p')"
    and "\<exists>h. intern_frames (cp_store p) (take CPU_MAX_STACK_DEPTH frames)
      (hash_bytes (hash_bytes fnv_offset (le_bytes 4 state)) (le_bytes 8 cfunction)) = (cp_store p', cs, h)"
proof -
  from cpu_record_run [OF ok state readable, of cfunction truncated] obtain store cs where
    r: "p' = cpu_file (p\<lparr>cp_store := store\<rparr>) state cfunction cs (truncated \<or> length frames > CPU_MAX_STACK_DEPTH)"
    "store_ok store" "store_extends (cp_store p) store"
    "list_all2 (compact_for store) (take CPU_MAX_STACK_DEPTH frames) cs"
    "\<exists>h. intern_frames (cp_store p) (take CPU_MAX_STACK_DEPTH frames)
      (hash_bytes (hash_bytes fnv_offset (le_bytes 4 state)) (le_bytes 8 cfunction)) = (store, cs, h)"
    using p' by metis
  let ?q = "p\<lparr>cp_store := store\<rparr>"
  have q: "cpu_profile_ok ?q" by (rule cpu_store_step_ok [OF ok r(2,3)])
  have lim: "length cs \<le> CPU_MAX_STACK_DEPTH" using list_all2_lengthD [OF r(4)] by simp
  have "cputab.slot_for (state, cfunction, length cs, cs) (cp_aggregates ?q) \<noteq> None"
    using q room by (intro cpu_room) (simp_all add: cpu_profile_ok_def)
  then obtain k where k: "cputab.slot_for (state, cfunction, length cs, cs) (cp_aggregates ?q) = Some k"
    by blast
  note stored = cpu_file_stored [OF q lim k, of "truncated \<or> length frames > CPU_MAX_STACK_DEPTH", folded r(1)]
  show ?thesis using that [of cs k] stored r by simp
qed

text \<open>The view of a frame whose compact frame stands for \<open>f\<close>.\<close>

lemma cpu_frame_shown:
  assumes i: "cpu_aggregate_at p i = Some a" and j: "j < unat (ca_depth a)"
    and ok: "store_ok (cp_store p)" and c: "compact_for (cp_store p) f (ca_frames a ! j)"
  shows "\<exists>v. lp_cpu_profile_frame p i j = Some v \<and> fr_currentline v = fr_currentline f \<and>
    (same_frame v f \<or> v = zero_frame\<lparr>fr_currentline := fr_currentline f\<rparr> \<and>
      (\<forall>s\<in>set (ss_symbols (cp_store p)). sym_used s))"
proof (cases "cf_symbol (ca_frames a ! j) = 0")
  case True
  have "\<forall>s\<in>set (ss_symbols (cp_store p)). sym_used s"
    using c True store_ok_length [OF ok] by (auto simp: compact_for_def in_set_conv_nth)
  then show ?thesis
    using c True cpu_frame_view [OF i j] by (simp add: Let_def compact_for_def zero_frame_def)
next
  case False
  then show ?thesis
    using compact_for_view [OF c False] c cpu_frame_view [OF i j]
    by (auto simp: Let_def compact_for_def same_frame_def)
qed

text \<open>Raising the weight of slot \<open>k\<close>, as the exported samples show it.\<close>

lemma cpu_bump_exported:
  assumes shape: "cpu_shape_ok p" and k: "k < CPU_AGGREGATE_CAPACITY" "ca_used (cp_aggregates p ! k)"
    and upd: "cp_aggregates q = (cp_aggregates p)[k := (cp_aggregates p ! k)
      \<lparr>ca_weight := saturating_add (ca_weight (cp_aggregates p ! k)) 1\<rparr>]"
    "cp_aggregate_count q = cp_aggregate_count p"
    and key: "ca_key (cp_aggregates p ! k) = (state, cfunction, n, cs)"
  shows "lp_cpu_profile_sample_count q = lp_cpu_profile_sample_count p \<and>
    (\<exists>i view. lp_cpu_profile_sample p i = Some view \<and> csv_state view = state \<and> csv_cfunction view = cfunction \<and>
      lp_cpu_profile_sample q i = Some (view\<lparr>csv_weight := saturating_add (csv_weight view) 1\<rparr>) \<and>
      (\<forall>j. j \<noteq> i \<longrightarrow> lp_cpu_profile_sample q j = lp_cpu_profile_sample p j))"
proof -
  let ?xs = "cp_aggregates p" and ?a = "cp_aggregates p ! k"
  let ?b = "?a\<lparr>ca_weight := saturating_add (ca_weight ?a) 1\<rparr>"
  have len: "k < length ?xs"
    using shape cputab.ok_length k by (simp add: cpu_shape_ok_def cpu_capacity_bits)
  define i where "i = rank_of ca_used ?xs k"
  have count: "cp_aggregate_count p = length (filter ca_used ?xs)" using shape by (simp add: cpu_shape_ok_def)
  have i: "i < length (filter ca_used ?xs)" "filter ca_used ?xs ! i = ?a"
    using rank_of_less [of k ?xs ca_used] nth_rank_of [of k ?xs ca_used] len k by (simp_all add: i_def)
  have upd': "filter ca_used (cp_aggregates q) = (filter ca_used ?xs)[i := ?b]"
    using filter_update_rank [of k ?xs ca_used ?b] len k upd by (simp add: i_def)
  have q_at: "cpu_aggregate_at q j = (if j < cp_aggregate_count p then Some ((filter ca_used ?xs)[i := ?b] ! j) else None)" for j
    using upd(2) upd' count by (simp add: cpu_aggregate_at_def nth_used_filter)
  show ?thesis
    using i key upd(2) count q_at cpu_aggregate_at_filter [OF shape]
    by (intro conjI exI [of _ i] exI [of _ "\<lparr>csv_state = ca_state ?a, csv_cfunction = ca_cfunction ?a,
        csv_weight = ca_weight ?a, csv_depth = unat (ca_depth ?a)\<rparr>"])
      (auto simp: lp_cpu_profile_sample_def lp_cpu_profile_sample_count_def ca_key_def)
qed

section \<open>Properties\<close>

text \<open>Calls for the witnesses: a sample in Lua with one frame, and one in the collector.\<close>

definition example_calls :: "(lp_vm_state \<times> pointer \<times> lp_stack_frame list \<times> bool) list" where
  "example_calls = [(LP_VM_LUA, NULL, [example_frame], False), (LP_VM_GC, NULL, [], True)]"

lemma example_calls_readable: "calls_readable example_calls"
  by (simp add: example_calls_def calls_readable_def)

lemma lp_cpu_profile_new_all: "lp_cpu_profile_new True True True True = Some zero_cpu_profile"
  by (simp add: lp_cpu_profile_new_def)

lemma zero_cpu_profile_ok: "cpu_profile_ok zero_cpu_profile"
  by (rule lp_cpu_profile_new_ok [OF lp_cpu_profile_new_all])

lemma zero_cpu_profile_room: "cp_aggregate_count zero_cpu_profile < CPU_AGGREGATE_CAPACITY"
  by (simp add: zero_cpu_profile_def cpu_limits)

lemma cpu_ok_totals:
  assumes ok: "cpu_profile_ok p"
  shows "unat (st_samples (cp_stats p)) = min u64_max (sum_list (exported_weights p)) \<and>
    unat (st_samples (cp_stats p)) =
      min u64_max (unat (st_sample_host (cp_stats p)) + unat (st_sample_lua (cp_stats p)) +
        unat (st_sample_c (cp_stats p)) + unat (st_sample_gc (cp_stats p)))"
proof -
  have shape: "cpu_shape_ok p" and counts: "cpu_counts_ok p"
    using ok by (simp_all add: cpu_profile_ok_def)
  have split: "cpu_weight a = cpu_weight_in LP_VM_HOST a + cpu_weight_in LP_VM_LUA a +
      cpu_weight_in LP_VM_C a + cpu_weight_in LP_VM_GC a" if "a \<in> set (cp_aggregates p)" for a
  proof (cases "ca_used a")
    case True
    then have "ca_state a \<le> LP_VM_GC" using shape that by (auto simp: cpu_shape_ok_def cpu_aggregate_ok_def)
    then have "ca_state a = 0 \<or> ca_state a = 1 \<or> ca_state a = 2 \<or> ca_state a = 3" by unat_arith
    with True show ?thesis by (auto simp: cpu_weight_def cpu_weight_in_def)
  qed (simp add: cpu_weight_def cpu_weight_in_def)
  have "sum_list (map cpu_weight (cp_aggregates p)) =
      sum_list (map (\<lambda>a. cpu_weight_in LP_VM_HOST a + cpu_weight_in LP_VM_LUA a +
        cpu_weight_in LP_VM_C a + cpu_weight_in LP_VM_GC a) (cp_aggregates p))"
    using split by (intro arg_cong [of _ _ sum_list] map_cong) simp_all
  then have parts: "sum_list (map cpu_weight (cp_aggregates p)) =
      sum_list (map (cpu_weight_in LP_VM_HOST) (cp_aggregates p)) +
      sum_list (map (cpu_weight_in LP_VM_LUA) (cp_aggregates p)) +
      sum_list (map (cpu_weight_in LP_VM_C) (cp_aggregates p)) +
      sum_list (map (cpu_weight_in LP_VM_GC) (cp_aggregates p))"
    by (simp add: sum_list_addf)
  show ?thesis
    using counts exported_weights_sum [OF shape] parts unfolding cpu_counts_ok_def by linarith
qed

text \<open>
  C17: Conservation. After any sequence of recorded samples the counter \<open>samples\<close> equals the
  sum of the weights of the exported aggregates, and also the sum of the four counters per VM
  state; each of these is exact until it reaches the 64-bit maximum, where it stays.
\<close>

theorem cpu_stats_match_export:
  assumes "lp_cpu_profile_new True True True True = Some p0" and "calls_readable calls"
    and "p = cpu_record_all p0 calls"
  shows "unat (st_samples (cp_stats p)) = min u64_max (sum_list (exported_weights p)) \<and>
    unat (st_samples (cp_stats p)) =
      min u64_max (unat (st_sample_host (cp_stats p)) + unat (st_sample_lua (cp_stats p)) +
        unat (st_sample_c (cp_stats p)) + unat (st_sample_gc (cp_stats p)))"
proof -
  have "cpu_profile_ok p" using assms lp_cpu_profile_new_ok cpu_record_all_ok by blast
  then show ?thesis by (rule cpu_ok_totals)
qed

lemma cpu_stats_match_export_witness:
  "unat (st_samples (cp_stats (cpu_record_all zero_cpu_profile example_calls))) =
    min u64_max (sum_list (exported_weights (cpu_record_all zero_cpu_profile example_calls)))"
  using cpu_stats_match_export [OF lp_cpu_profile_new_all example_calls_readable refl] by blast

text \<open>
  Accounting. Every call with a valid VM state adds one to exactly one of \<open>samples\<close> and
  \<open>aggregate_overflows\<close>: from a fresh profile their sum is the number of calls.
\<close>

theorem cpu_every_sample_accounted:
  assumes "lp_cpu_profile_new True True True True = Some p0" and "calls_readable calls"
    and "\<forall>(state, cfunction, frames, truncated)\<in>set calls. state \<le> LP_VM_GC"
    and "length calls \<le> u64_max"
  shows "unat (st_samples (cp_stats (cpu_record_all p0 calls))) +
    unat (st_aggregate_overflows (cp_stats (cpu_record_all p0 calls))) = length calls"
proof -
  have "st_samples (cp_stats p0) = 0" "st_aggregate_overflows (cp_stats p0) = 0"
    using assms(1) by (auto simp: lp_cpu_profile_new_def zero_cpu_profile_def zero_stats_def)
  then show ?thesis
    using cpu_record_all_accounts [OF lp_cpu_profile_new_ok [OF assms(1)] assms(2,3)] assms(4) by simp
qed

lemma cpu_every_sample_accounted_witness:
  "unat (st_samples (cp_stats (cpu_record_all zero_cpu_profile example_calls))) +
    unat (st_aggregate_overflows (cp_stats (cpu_record_all zero_cpu_profile example_calls))) = 2"
  using cpu_every_sample_accounted [OF lp_cpu_profile_new_all example_calls_readable]
  by (simp add: example_calls_def)

text \<open>
  Export of a recorded stack. While the aggregate table has room, a recorded sample is
  exported as an aggregate with its state and C function, of depth at most 64, whose frame
  views carry, frame by frame, the current line, and the kind, functions and definition line
  of the captured frame; a frame loses its identity only when the symbol table is full.
\<close>

theorem cpu_record_exports_stack:
  assumes ok: "cpu_profile_ok p" and readable: "\<forall>f\<in>set frames. frame_readable f"
    and state: "state \<le> LP_VM_GC" and room: "cp_aggregate_count p < CPU_AGGREGATE_CAPACITY"
    and p': "p' = lp_cpu_profile_record p state cfunction frames truncated"
  shows "\<exists>i view. lp_cpu_profile_sample p' i = Some view \<and> csv_state view = state \<and>
    csv_cfunction view = cfunction \<and> csv_depth view = min CPU_MAX_STACK_DEPTH (length frames) \<and>
    (\<forall>j<csv_depth view. \<exists>v. lp_cpu_profile_frame p' i j = Some v \<and>
       fr_currentline v = fr_currentline (frames ! j) \<and>
       (same_frame v (frames ! j) \<or>
        v = zero_frame\<lparr>fr_currentline := fr_currentline (frames ! j)\<rparr> \<and>
        (\<forall>s\<in>set (ss_symbols (cp_store p')). sym_used s)))"
proof -
  from cpu_record_lands [OF ok readable state room p'] obtain cs k where
    cs: "list_all2 (compact_for (cp_store p')) (take CPU_MAX_STACK_DEPTH frames) cs"
    and k: "k < CPU_AGGREGATE_CAPACITY" "ca_used (cp_aggregates p' ! k)"
      "ca_key (cp_aggregates p' ! k) = (state, cfunction, length cs, cs)" .
  have shape: "cpu_shape_ok p'"
    using cpu_record_ok [OF ok readable] p' by (simp add: cpu_profile_ok_def)
  let ?a = "cp_aggregates p' ! k"
  have klen: "k < length (cp_aggregates p')"
    using k cputab.ok_length shape by (simp add: cpu_shape_ok_def cpu_capacity_bits)
  then obtain i where i: "cpu_aggregate_at p' i = Some ?a"
    using cpu_aggregate_at_reaches [OF shape nth_mem [OF klen]] k by blast
  have a: "ca_state ?a = state" "ca_cfunction ?a = cfunction" "unat (ca_depth ?a) = length cs" "ca_frames ?a = cs"
    using k cpu_aggregate_at_used [OF shape i] by (auto simp: ca_key_def cpu_aggregate_ok_def)
  have len: "length cs = min CPU_MAX_STACK_DEPTH (length frames)"
    using list_all2_lengthD [OF cs] by simp
  have "store_ok (cp_store p')" using shape by (simp add: cpu_shape_ok_def)
  then have "\<forall>j<length cs. \<exists>v. lp_cpu_profile_frame p' i j = Some v \<and>
      fr_currentline v = fr_currentline (frames ! j) \<and>
      (same_frame v (frames ! j) \<or> v = zero_frame\<lparr>fr_currentline := fr_currentline (frames ! j)\<rparr> \<and>
        (\<forall>s\<in>set (ss_symbols (cp_store p')). sym_used s))"
    using a len list_all2_nthD2 [OF cs] by (intro allI impI cpu_frame_shown [OF i]) auto
  then show ?thesis
    using i a len
    by (intro exI [of _ i] exI [of _ "\<lparr>csv_state = state, csv_cfunction = cfunction,
        csv_weight = ca_weight ?a, csv_depth = length cs\<rparr>"])
      (auto simp: lp_cpu_profile_sample_def)
qed

lemma cpu_record_exports_stack_witness:
  "\<exists>i view. lp_cpu_profile_sample
      (lp_cpu_profile_record zero_cpu_profile LP_VM_LUA NULL [example_frame] False) i = Some view \<and>
    csv_state view = LP_VM_LUA \<and> csv_depth view = 1"
  using cpu_record_exports_stack [OF zero_cpu_profile_ok _ _ zero_cpu_profile_room refl,
      of "[example_frame]" LP_VM_LUA NULL False]
  by (auto simp: cpu_limits)

text \<open>
  Aggregation. Recording the same stack again adds one to the weight of the aggregate
  that holds it and changes no other exported sample; no new aggregate appears.
\<close>

theorem cpu_same_stack_counts_once:
  assumes ok: "cpu_profile_ok p" and readable: "\<forall>f\<in>set frames. frame_readable f"
    and state: "state \<le> LP_VM_GC" and room: "cp_aggregate_count p < CPU_AGGREGATE_CAPACITY"
    and p': "p' = lp_cpu_profile_record p state cfunction frames truncated"
    and p'': "p'' = lp_cpu_profile_record p' state cfunction frames truncated'"
  shows "lp_cpu_profile_sample_count p'' = lp_cpu_profile_sample_count p' \<and>
    (\<exists>i view. lp_cpu_profile_sample p' i = Some view \<and> csv_state view = state \<and>
      csv_cfunction view = cfunction \<and>
      lp_cpu_profile_sample p'' i = Some (view\<lparr>csv_weight := saturating_add (csv_weight view) 1\<rparr>) \<and>
      (\<forall>j. j \<noteq> i \<longrightarrow> lp_cpu_profile_sample p'' j = lp_cpu_profile_sample p' j))"
proof -
  from cpu_record_lands [OF ok readable state room p'] obtain cs k where
    cs: "list_all2 (compact_for (cp_store p')) (take CPU_MAX_STACK_DEPTH frames) cs"
    and k: "k < CPU_AGGREGATE_CAPACITY" "ca_used (cp_aggregates p' ! k)"
      "ca_key (cp_aggregates p' ! k) = (state, cfunction, length cs, cs)"
    and int: "\<exists>h. intern_frames (cp_store p) (take CPU_MAX_STACK_DEPTH frames)
      (hash_bytes (hash_bytes fnv_offset (le_bytes 4 state)) (le_bytes 8 cfunction)) = (cp_store p', cs, h)" .
  have ok': "cpu_profile_ok p'" using cpu_record_ok [OF ok readable] p' by simp
  then have shape: "cpu_shape_ok p'" and sok: "store_ok (cp_store p')" and tab: "cputab.ok (cp_aggregates p')"
    by (auto simp: cpu_profile_ok_def cpu_shape_ok_def)
  have sok0: "store_ok (cp_store p)" using ok by (simp add: cpu_profile_ok_def cpu_shape_ok_def)
  have r: "\<forall>f\<in>set (take CPU_MAX_STACK_DEPTH frames). frame_readable f"
    using readable by (auto dest: in_set_takeD)
  obtain n h where again: "intern_frames (cp_store p') (take CPU_MAX_STACK_DEPTH frames)
      (hash_bytes (hash_bytes fnv_offset (le_bytes 4 state)) (le_bytes 8 cfunction)) =
      ((cp_store p')\<lparr>ss_overflows := n\<rparr>, cs, h)"
    using int intern_frames_again [OF sok0 r _ store_extends_refl sok] by blast
  let ?tr = "truncated' \<or> length frames > CPU_MAX_STACK_DEPTH"
  have clip: "cpu_clip frames truncated' = (take CPU_MAX_STACK_DEPTH frames, ?tr)"
    by (simp add: cpu_clip_def)
  have run: "p'' = cpu_file (p'\<lparr>cp_store := (cp_store p')\<lparr>ss_overflows := n\<rparr>\<rparr>) state cfunction cs ?tr"
    using record_by_file [OF state clip sok readable again] p'' by simp
  have "cputab.slot_for (state, cfunction, length cs, cs) (cp_aggregates p') = Some k"
    using k by (intro cputab.slot_for_present [OF tab]) (simp_all add: cpu_capacity_bits)
  then have upd: "cp_aggregates p'' = (cp_aggregates p')[k := (cp_aggregates p' ! k)
      \<lparr>ca_weight := saturating_add (ca_weight (cp_aggregates p' ! k)) 1\<rparr>]"
    "cp_aggregate_count p'' = cp_aggregate_count p'"
    using k by (simp_all add: run cpu_file_def Let_def)
  show ?thesis by (rule cpu_bump_exported [OF shape k(1,2) upd, of state cfunction "length cs" cs])
    (use k(3) in simp_all)
qed

lemma cpu_same_stack_counts_once_witness:
  "\<exists>i view. lp_cpu_profile_sample (lp_cpu_profile_record (lp_cpu_profile_record zero_cpu_profile
      LP_VM_LUA NULL [example_frame] False) LP_VM_LUA NULL [example_frame] True) i =
    Some (view\<lparr>csv_weight := saturating_add (csv_weight view) 1\<rparr>) \<and> csv_state view = LP_VM_LUA"
  using cpu_same_stack_counts_once [OF zero_cpu_profile_ok _ _ zero_cpu_profile_room refl refl,
      of "[example_frame]" LP_VM_LUA NULL False True]
  by auto

end
