(* ===== verification/Runtime.thy ===== *)
theory Runtime
  imports Memory_Core Cpu_Core
begin

text \<open>
  The recorder of \<open>src/runtime.c\<close>: one slot per collector kind with its configuration, counters
  and profile, started and stopped under a generation number. A null runtime pointer is not
  modelled (every operation takes an existing runtime), nor are null output pointers.

  The host is a parameter: the two function pointers of \<open>lp_host_ops\<close>, each of which may call
  back into the recording functions, in order, before it returns; \<open>runtime_call\<close> lists these
  functions. What the environment decides when a recording is started (allocations, the
  doubles, the address of the runtime) is the record \<open>start_env\<close>. Results are options, \<open>None\<close>
  for a walk over the live table that does not end; it is shown never to occur.

  Shown here: the slots' invariant under every operation, what start and stop return and do
  on every branch, freshness of generations, and that stale calls change nothing.
\<close>

section \<open>State\<close>

datatype runtime_call =
    Safe_Point u64 u32
  | State_Change u64 lp_vm_state
  | Allocation u64 pointer pointer u64 bool
  | Reconcile_Live u64 pointer pointer u64 bool
  | Sample_Candidate u64 pointer u64 bool
  | Memory_Sample u64 pointer "lp_stack_frame list" bool u64 u64 u64
  | Cpu_Sample u64 lp_vm_state pointer "lp_stack_frame list" bool
  | Cpu_Quality u64 u64 u64 u64 u64 u64
  | Cpu_Scheduler_Quality u64 u64 u64 u64

record lp_host_ops =
  ho_start_collector :: "(pointer \<Rightarrow> u64 \<Rightarrow> lp_collector_config \<Rightarrow> runtime_call list \<times> lp_status) option"
  ho_stop_collector :: "(pointer \<Rightarrow> lp_collector_kind \<Rightarrow> u64 \<Rightarrow> runtime_call list) option"

record lp_collector_slot =
  cs_active :: bool
  cs_generation :: u64
  cs_config :: lp_collector_config
  cs_stats :: lp_result_stats
  cs_cpu_profile :: "lp_cpu_profile option"
  cs_memory_profile :: "lp_memory_profile option"

definition zero_slot :: lp_collector_slot where
  "zero_slot = \<lparr>cs_active = False, cs_generation = 0, cs_config = zero_config, cs_stats = zero_stats,
     cs_cpu_profile = None, cs_memory_profile = None\<rparr>"

record lp_runtime =
  rt_main_state :: pointer
  rt_host_ops :: lp_host_ops
  rt_next_generation :: u64
  rt_closing :: bool
  rt_collectors :: "lp_collector_slot list"

text \<open>\<open>private_data\<close> is one of the two profiles, by the kind of the result.\<close>

record lp_result =
  res_kind :: lp_collector_kind
  res_generation :: u64
  res_config :: lp_collector_config
  res_stats :: lp_result_stats
  res_cpu :: "lp_cpu_profile option"
  res_memory :: "lp_memory_profile option"

definition valid_kind :: "lp_collector_kind \<Rightarrow> bool" where
  "valid_kind kind \<longleftrightarrow> kind \<ge> LP_COLLECTOR_CPU \<and> kind < LP_COLLECTOR_COUNT"

definition collector :: "lp_runtime \<Rightarrow> lp_collector_kind \<Rightarrow> lp_collector_slot" where
  "collector runtime kind = rt_collectors runtime ! unat kind"

definition set_collector :: "lp_collector_kind \<Rightarrow> lp_collector_slot \<Rightarrow> lp_runtime \<Rightarrow> lp_runtime" where
  "set_collector kind slot runtime =
     runtime\<lparr>rt_collectors := (rt_collectors runtime)[unat kind := slot]\<rparr>"

definition lp_runtime_new :: "bool \<Rightarrow> pointer \<Rightarrow> lp_host_ops option \<Rightarrow> lp_runtime option" where
  "lp_runtime_new got_runtime main_state host_ops =
     (if \<not> got_runtime then None
      else Some \<lparr>rt_main_state = main_state,
        rt_host_ops = (case host_ops of None \<Rightarrow> \<lparr>ho_start_collector = None, ho_stop_collector = None\<rparr>
                       | Some ops \<Rightarrow> ops),
        rt_next_generation = 0, rt_closing = False, rt_collectors = [zero_slot, zero_slot]\<rparr>)"

section \<open>Recording functions\<close>

text \<open>The check at the head of each recording function.\<close>

definition current_slot :: "lp_runtime \<Rightarrow> lp_collector_kind \<Rightarrow> u64 \<Rightarrow> lp_collector_slot option" where
  "current_slot runtime kind generation =
     (let slot = collector runtime kind
      in if \<not> cs_active slot \<or> cs_generation slot \<noteq> generation then None else Some slot)"

definition lp_runtime_safe_point :: "lp_runtime \<Rightarrow> u64 \<Rightarrow> u32 \<Rightarrow> lp_runtime" where
  "lp_runtime_safe_point runtime generation pending =
     (case current_slot runtime LP_COLLECTOR_CPU generation of
        None \<Rightarrow> runtime
      | Some slot \<Rightarrow>
          if pending = 0 then runtime
          else
            let s = cs_stats slot
            in set_collector LP_COLLECTOR_CPU (slot\<lparr>cs_stats := s
                 \<lparr>st_safe_points := saturating_add (st_safe_points s) 1,
                  st_pending_weight := saturating_add (st_pending_weight s) (ucast pending)\<rparr>\<rparr>) runtime)"

definition lp_runtime_state_change :: "lp_runtime \<Rightarrow> u64 \<Rightarrow> lp_vm_state \<Rightarrow> lp_runtime" where
  "lp_runtime_state_change runtime generation state =
     (case current_slot runtime LP_COLLECTOR_CPU generation of
        None \<Rightarrow> runtime
      | Some slot \<Rightarrow>
          let s = cs_stats slot;
              put = (\<lambda>s'. set_collector LP_COLLECTOR_CPU (slot\<lparr>cs_stats := s'\<rparr>) runtime)
          in if state = LP_VM_HOST then put (s\<lparr>st_state_host := saturating_add (st_state_host s) 1\<rparr>)
             else if state = LP_VM_LUA then put (s\<lparr>st_state_lua := saturating_add (st_state_lua s) 1\<rparr>)
             else if state = LP_VM_C then put (s\<lparr>st_state_c := saturating_add (st_state_c s) 1\<rparr>)
             else if state = LP_VM_GC then put (s\<lparr>st_state_gc := saturating_add (st_state_gc s) 1\<rparr>)
             else runtime)"

definition lp_runtime_memory_reconcile_live ::
  "lp_runtime \<Rightarrow> u64 \<Rightarrow> pointer \<Rightarrow> pointer \<Rightarrow> u64 \<Rightarrow> bool \<Rightarrow> lp_runtime option" where
  "lp_runtime_memory_reconcile_live runtime generation old_pointer new_pointer new_size success =
     (case current_slot runtime LP_COLLECTOR_MEMORY generation of
        None \<Rightarrow> Some runtime
      | Some slot \<Rightarrow>
          (case cs_memory_profile slot of
             None \<Rightarrow> Some runtime
           | Some profile \<Rightarrow>
               map_option (\<lambda>profile'. set_collector LP_COLLECTOR_MEMORY
                   (slot\<lparr>cs_memory_profile := Some profile'\<rparr>) runtime)
                 (lp_memory_profile_allocation_event profile old_pointer new_pointer new_size success)))"

definition lp_runtime_allocation ::
  "lp_runtime \<Rightarrow> u64 \<Rightarrow> pointer \<Rightarrow> pointer \<Rightarrow> u64 \<Rightarrow> bool \<Rightarrow> lp_runtime option" where
  "lp_runtime_allocation runtime generation old_pointer new_pointer new_size success =
     (case current_slot runtime LP_COLLECTOR_MEMORY generation of
        None \<Rightarrow> Some runtime
      | Some slot \<Rightarrow>
          let s = cs_stats slot;
              put = (\<lambda>s'. lp_runtime_memory_reconcile_live
                (set_collector LP_COLLECTOR_MEMORY (slot\<lparr>cs_stats := s'\<rparr>) runtime)
                generation old_pointer new_pointer new_size success)
          in if \<not> success
             then put (s\<lparr>st_allocation_failures := saturating_add (st_allocation_failures s) 1\<rparr>)
             else if old_pointer = NULL \<and> new_pointer \<noteq> NULL \<and> new_size \<noteq> 0
             then put (s\<lparr>st_allocations := saturating_add (st_allocations s) 1\<rparr>)
             else if old_pointer \<noteq> NULL \<and> new_pointer = NULL \<and> new_size = 0
             then put (s\<lparr>st_frees := saturating_add (st_frees s) 1\<rparr>)
             else if old_pointer \<noteq> NULL \<and> new_pointer \<noteq> NULL \<and> new_size \<noteq> 0
             then put (s\<lparr>st_reallocations := saturating_add (st_reallocations s) 1\<rparr>)
             else Some runtime)"

definition lp_runtime_memory_sample_candidate ::
  "'d doubles \<Rightarrow> lp_runtime \<Rightarrow> u64 \<Rightarrow> pointer \<Rightarrow> u64 \<Rightarrow> bool \<Rightarrow> lp_runtime \<times> (u64 \<times> u64) option" where
  "lp_runtime_memory_sample_candidate d runtime generation new_pointer new_size success =
     (if \<not> success \<or> new_pointer = NULL \<or> new_size = 0 then (runtime, None)
      else case current_slot runtime LP_COLLECTOR_MEMORY generation of
        None \<Rightarrow> (runtime, None)
      | Some slot \<Rightarrow>
          (case cs_memory_profile slot of
             None \<Rightarrow> (runtime, None)
           | Some profile \<Rightarrow>
               let (profile', weights) = lp_memory_profile_should_sample d profile new_size
               in (set_collector LP_COLLECTOR_MEMORY (slot\<lparr>cs_memory_profile := Some profile'\<rparr>) runtime,
                   weights)))"

definition lp_runtime_memory_sample ::
  "lp_runtime \<Rightarrow> u64 \<Rightarrow> pointer \<Rightarrow> lp_stack_frame list \<Rightarrow> bool \<Rightarrow> u64 \<Rightarrow> u64 \<Rightarrow> u64 \<Rightarrow> lp_runtime option" where
  "lp_runtime_memory_sample runtime generation allocation_pointer frames truncated allocation_size
     weighted_space weighted_objects =
     (case current_slot runtime LP_COLLECTOR_MEMORY generation of
        None \<Rightarrow> Some runtime
      | Some slot \<Rightarrow>
          (case cs_memory_profile slot of
             None \<Rightarrow> Some runtime
           | Some profile \<Rightarrow>
               map_option (\<lambda>profile'. set_collector LP_COLLECTOR_MEMORY
                   (slot\<lparr>cs_memory_profile := Some profile'\<rparr>) runtime)
                 (lp_memory_profile_record profile allocation_pointer frames truncated
                    allocation_size weighted_space weighted_objects)))"

definition lp_runtime_cpu_sample ::
  "lp_runtime \<Rightarrow> u64 \<Rightarrow> lp_vm_state \<Rightarrow> pointer \<Rightarrow> lp_stack_frame list \<Rightarrow> bool \<Rightarrow> lp_runtime" where
  "lp_runtime_cpu_sample runtime generation state cfunction frames truncated =
     (case current_slot runtime LP_COLLECTOR_CPU generation of
        None \<Rightarrow> runtime
      | Some slot \<Rightarrow>
          (case cs_cpu_profile slot of
             None \<Rightarrow> runtime
           | Some profile \<Rightarrow> set_collector LP_COLLECTOR_CPU (slot\<lparr>cs_cpu_profile :=
               Some (lp_cpu_profile_record profile state cfunction frames truncated)\<rparr>) runtime))"

definition lp_runtime_cpu_quality ::
  "lp_runtime \<Rightarrow> u64 \<Rightarrow> u64 \<Rightarrow> u64 \<Rightarrow> u64 \<Rightarrow> u64 \<Rightarrow> u64 \<Rightarrow> lp_runtime" where
  "lp_runtime_cpu_quality runtime generation dropped unstable profiler_overhead overrun_events overrun_ticks =
     (case current_slot runtime LP_COLLECTOR_CPU generation of
        None \<Rightarrow> runtime
      | Some slot \<Rightarrow>
          (case cs_cpu_profile slot of
             None \<Rightarrow> runtime
           | Some profile \<Rightarrow> set_collector LP_COLLECTOR_CPU (slot\<lparr>cs_cpu_profile :=
               Some (lp_cpu_profile_quality profile dropped unstable profiler_overhead overrun_events
                 overrun_ticks)\<rparr>) runtime))"

definition lp_runtime_cpu_scheduler_quality ::
  "lp_runtime \<Rightarrow> u64 \<Rightarrow> u64 \<Rightarrow> u64 \<Rightarrow> u64 \<Rightarrow> lp_runtime" where
  "lp_runtime_cpu_scheduler_quality runtime generation stale timer_failures workers =
     (case current_slot runtime LP_COLLECTOR_CPU generation of
        None \<Rightarrow> runtime
      | Some slot \<Rightarrow>
          let s = cs_stats slot;
              s1 = s\<lparr>st_stale_events := saturating_add (st_stale_events s) stale,
                st_timer_failures := saturating_add (st_timer_failures s) timer_failures\<rparr>;
              s2 = (if workers > st_scheduler_workers s1 then s1\<lparr>st_scheduler_workers := workers\<rparr> else s1)
          in set_collector LP_COLLECTOR_CPU (slot\<lparr>cs_stats := s2\<rparr>) runtime)"

text \<open>A call of a recording function, and the calls a host makes one after the other.\<close>

primrec runtime_apply :: "'d doubles \<Rightarrow> runtime_call \<Rightarrow> lp_runtime \<Rightarrow> lp_runtime option" where
  "runtime_apply d (Safe_Point g pending) runtime = Some (lp_runtime_safe_point runtime g pending)"
| "runtime_apply d (State_Change g state) runtime = Some (lp_runtime_state_change runtime g state)"
| "runtime_apply d (Allocation g old new n success) runtime = lp_runtime_allocation runtime g old new n success"
| "runtime_apply d (Reconcile_Live g old new n success) runtime =
     lp_runtime_memory_reconcile_live runtime g old new n success"
| "runtime_apply d (Sample_Candidate g new n success) runtime =
     Some (fst (lp_runtime_memory_sample_candidate d runtime g new n success))"
| "runtime_apply d (Memory_Sample g x frames truncated n ws wo) runtime =
     lp_runtime_memory_sample runtime g x frames truncated n ws wo"
| "runtime_apply d (Cpu_Sample g state cfunction frames truncated) runtime =
     Some (lp_runtime_cpu_sample runtime g state cfunction frames truncated)"
| "runtime_apply d (Cpu_Quality g dropped unstable overhead events ticks) runtime =
     Some (lp_runtime_cpu_quality runtime g dropped unstable overhead events ticks)"
| "runtime_apply d (Cpu_Scheduler_Quality g stale failures workers) runtime =
     Some (lp_runtime_cpu_scheduler_quality runtime g stale failures workers)"

primrec runtime_calls :: "'d doubles \<Rightarrow> runtime_call list \<Rightarrow> lp_runtime \<Rightarrow> lp_runtime option" where
  "runtime_calls d [] runtime = Some runtime"
| "runtime_calls d (call # calls) runtime =
     (case runtime_apply d call runtime of None \<Rightarrow> None | Some runtime' \<Rightarrow> runtime_calls d calls runtime')"

section \<open>Lifecycle\<close>

text \<open>
  What the environment decides in a start: which allocations succeed (of the CPU profile: the
  profile, symbols, aggregates and sources; of the memory profile: the profile, its arrays),
  and the address of the runtime, which goes into the seed.
\<close>

record start_env =
  se_cpu :: "bool \<times> bool \<times> bool \<times> bool"
  se_memory :: "bool \<times> bool"
  se_address :: u64

text \<open>The increment of \<open>++runtime->next_generation\<close>, which skips zero.\<close>

definition bump_generation :: "u64 \<Rightarrow> u64" where
  "bump_generation next = (if next + 1 = 0 then 1 else next + 1)"

definition new_profiles ::
  "'d doubles \<Rightarrow> start_env \<Rightarrow> lp_collector_config \<Rightarrow> u64 \<Rightarrow> lp_collector_slot \<Rightarrow> lp_collector_slot option" where
  "new_profiles d env config seed slot =
     (if cfg_kind config = LP_COLLECTOR_CPU
      then (case se_cpu env of (a, b, c, e) \<Rightarrow>
        map_option (\<lambda>profile. slot\<lparr>cs_cpu_profile := Some profile\<rparr>) (lp_cpu_profile_new a b c e))
      else (case se_memory env of (a, b) \<Rightarrow>
        map_option (\<lambda>profile. slot\<lparr>cs_memory_profile := Some profile\<rparr>)
          (lp_memory_profile_new d a b (cfg_sample_bytes config) seed (cfg_track_free config))))"

text \<open>
  The state is the runtime and the global \<open>memory_seed_counter\<close>; the result adds the status
  and the generation, written only on success.
\<close>

definition lp_runtime_start ::
  "'d doubles \<Rightarrow> start_env \<Rightarrow> lp_runtime \<Rightarrow> u64 \<Rightarrow> pointer \<Rightarrow> lp_collector_config \<Rightarrow>
   (lp_runtime \<times> u64 \<times> lp_status \<times> u64 option) option" where
  "lp_runtime_start d env runtime seed_counter current_state config =
     (let kind = cfg_kind config
      in if \<not> valid_kind kind then Some (runtime, seed_counter, LP_ERR_ARGUMENT, None)
         else if kind = LP_COLLECTOR_MEMORY \<and> cfg_sample_bytes config = 0
         then Some (runtime, seed_counter, LP_ERR_ARGUMENT, None)
         else if kind = LP_COLLECTOR_CPU \<and> (cfg_sample_hz config = 0 \<or> cfg_sample_hz config > 10000)
         then Some (runtime, seed_counter, LP_ERR_ARGUMENT, None)
         else if rt_closing runtime then Some (runtime, seed_counter, LP_ERR_CLOSED, None)
         else if cs_active (collector runtime kind) then Some (runtime, seed_counter, LP_ERR_BUSY, None)
         else
           let next = bump_generation (rt_next_generation runtime);
               runtime1 = runtime\<lparr>rt_next_generation := next\<rparr>;
               slot = (collector runtime kind)\<lparr>cs_active := True, cs_generation := next, cs_config := config\<rparr>;
               seed_counter1 = (if kind = LP_COLLECTOR_CPU then seed_counter
                                else seed_counter + random_increment);
               seed = seed_counter XOR (se_address env XOR next)
           in case new_profiles d env config seed slot of
                None \<Rightarrow> Some (set_collector kind zero_slot runtime1, seed_counter1, LP_ERR_NOMEM, None)
              | Some slot1 \<Rightarrow>
                  let runtime2 = set_collector kind slot1 runtime1
                  in case ho_start_collector (rt_host_ops runtime2) of
                       None \<Rightarrow> Some (runtime2, seed_counter1, LP_OK, Some next)
                     | Some start \<Rightarrow>
                         let (calls, status) = start
                               (if current_state = NULL then rt_main_state runtime2 else current_state)
                               next config
                         in case runtime_calls d calls runtime2 of
                              None \<Rightarrow> None
                            | Some runtime3 \<Rightarrow>
                                if status \<noteq> LP_OK
                                then Some (set_collector kind zero_slot runtime3, seed_counter1,
                                  if status = LP_ERR_NOMEM then status else LP_ERR_HOST, None)
                                else Some (runtime3, seed_counter1, LP_OK, Some next))"

text \<open>The callback of a stop, when the host has one.\<close>

definition host_stop ::
  "'d doubles \<Rightarrow> pointer \<Rightarrow> lp_collector_kind \<Rightarrow> u64 \<Rightarrow> lp_runtime \<Rightarrow> lp_runtime option" where
  "host_stop d state kind generation runtime =
     (case ho_stop_collector (rt_host_ops runtime) of
        None \<Rightarrow> Some runtime
      | Some stop \<Rightarrow> runtime_calls d (stop state kind generation) runtime)"

definition lp_runtime_stop ::
  "'d doubles \<Rightarrow> lp_runtime \<Rightarrow> pointer \<Rightarrow> lp_collector_kind \<Rightarrow> u64 \<Rightarrow>
   (lp_runtime \<times> lp_status \<times> lp_result option) option" where
  "lp_runtime_stop d runtime current_state kind generation =
     (if \<not> valid_kind kind \<or> generation = 0 then Some (runtime, LP_ERR_ARGUMENT, None)
      else if rt_closing runtime then Some (runtime, LP_ERR_CLOSED, None)
      else if \<not> cs_active (collector runtime kind) then Some (runtime, LP_ERR_INACTIVE, None)
      else if cs_generation (collector runtime kind) \<noteq> generation then Some (runtime, LP_ERR_STALE, None)
      else
        case host_stop d (if current_state = NULL then rt_main_state runtime else current_state)
               kind generation runtime of
          None \<Rightarrow> None
        | Some runtime1 \<Rightarrow>
            let slot = collector runtime1 kind;
                stats = (if kind = LP_COLLECTOR_CPU
                         then (case cs_cpu_profile slot of None \<Rightarrow> cs_stats slot
                               | Some profile \<Rightarrow> lp_cpu_profile_merge_stats profile (cs_stats slot))
                         else (case cs_memory_profile slot of None \<Rightarrow> cs_stats slot
                               | Some profile \<Rightarrow> lp_memory_profile_merge_stats profile (cs_stats slot)));
                memory = (if kind = LP_COLLECTOR_CPU then cs_memory_profile slot
                          else map_option lp_memory_profile_finish (cs_memory_profile slot))
            in Some (set_collector kind zero_slot runtime1, LP_OK,
                 Some \<lparr>res_kind = kind, res_generation = generation, res_config = cs_config slot,
                   res_stats = stats,
                   res_cpu = (if kind = LP_COLLECTOR_CPU then cs_cpu_profile slot else None),
                   res_memory = (if kind = LP_COLLECTOR_CPU then None else memory)\<rparr>))"

text \<open>
  The loop of \<open>lp_runtime_delete\<close> over the kinds; the state is the one before the final \<open>free\<close>.
\<close>

definition delete_collector :: "'d doubles \<Rightarrow> lp_collector_kind \<Rightarrow> lp_runtime \<Rightarrow> lp_runtime option" where
  "delete_collector d kind runtime =
     (if \<not> cs_active (collector runtime kind) then Some runtime
      else
        map_option (\<lambda>runtime1. set_collector kind ((collector runtime1 kind)
            \<lparr>cs_cpu_profile := None, cs_memory_profile := None, cs_active := False\<rparr>) runtime1)
          (host_stop d (rt_main_state runtime) kind (cs_generation (collector runtime kind)) runtime))"

definition lp_runtime_delete :: "'d doubles \<Rightarrow> lp_runtime \<Rightarrow> lp_runtime option" where
  "lp_runtime_delete d runtime =
     (case delete_collector d LP_COLLECTOR_CPU (runtime\<lparr>rt_closing := True\<rparr>) of
        None \<Rightarrow> None
      | Some runtime1 \<Rightarrow> delete_collector d LP_COLLECTOR_MEMORY runtime1)"

section \<open>Queries and results\<close>

definition lp_runtime_active :: "lp_runtime \<Rightarrow> lp_collector_kind \<Rightarrow> bool" where
  "lp_runtime_active runtime kind \<longleftrightarrow> valid_kind kind \<and> cs_active (collector runtime kind)"

definition lp_runtime_generation :: "lp_runtime \<Rightarrow> lp_collector_kind \<Rightarrow> u64" where
  "lp_runtime_generation runtime kind =
     (if \<not> valid_kind kind then 0 else cs_generation (collector runtime kind))"

definition lp_result_dispose :: "lp_result \<Rightarrow> lp_result" where
  "lp_result_dispose result = result\<lparr>res_cpu := None, res_memory := None\<rparr>"

definition lp_result_cpu_sample_count :: "lp_result \<Rightarrow> nat" where
  "lp_result_cpu_sample_count result =
     (if res_kind result \<noteq> LP_COLLECTOR_CPU then 0
      else case res_cpu result of None \<Rightarrow> 0 | Some profile \<Rightarrow> lp_cpu_profile_sample_count profile)"

definition lp_result_cpu_sample :: "lp_result \<Rightarrow> nat \<Rightarrow> lp_cpu_sample_view option" where
  "lp_result_cpu_sample result index =
     (if res_kind result \<noteq> LP_COLLECTOR_CPU then None
      else Option.bind (res_cpu result) (\<lambda>profile. lp_cpu_profile_sample profile index))"

definition lp_result_cpu_frame :: "lp_result \<Rightarrow> nat \<Rightarrow> nat \<Rightarrow> lp_frame_view option" where
  "lp_result_cpu_frame result sample_index frame_index =
     (if res_kind result \<noteq> LP_COLLECTOR_CPU then None
      else Option.bind (res_cpu result) (\<lambda>profile. lp_cpu_profile_frame profile sample_index frame_index))"

definition lp_result_memory_sample_count :: "lp_result \<Rightarrow> nat" where
  "lp_result_memory_sample_count result =
     (if res_kind result \<noteq> LP_COLLECTOR_MEMORY then 0
      else case res_memory result of None \<Rightarrow> 0 | Some profile \<Rightarrow> lp_memory_profile_sample_count profile)"

definition lp_result_memory_sample :: "lp_result \<Rightarrow> nat \<Rightarrow> lp_memory_sample_view option" where
  "lp_result_memory_sample result index =
     (if res_kind result \<noteq> LP_COLLECTOR_MEMORY then None
      else Option.bind (res_memory result) (\<lambda>profile. lp_memory_profile_sample profile index))"

definition lp_result_memory_frame :: "lp_result \<Rightarrow> nat \<Rightarrow> nat \<Rightarrow> lp_frame_view option" where
  "lp_result_memory_frame result sample_index frame_index =
     (if res_kind result \<noteq> LP_COLLECTOR_MEMORY then None
      else Option.bind (res_memory result) (\<lambda>profile. lp_memory_profile_frame profile sample_index frame_index))"

primrec lp_status_string :: "lp_status \<Rightarrow> string" where
  "lp_status_string LP_OK = ''ok''"
| "lp_status_string LP_ERR_ARGUMENT = ''invalid argument''"
| "lp_status_string LP_ERR_BUSY = ''collector is already running''"
| "lp_status_string LP_ERR_INACTIVE = ''collector is not running''"
| "lp_status_string LP_ERR_STALE = ''stale recorder generation''"
| "lp_status_string LP_ERR_HOST = ''host failed to start collector''"
| "lp_status_string LP_ERR_CLOSED = ''profile runtime is closed''"
| "lp_status_string LP_ERR_NOMEM = ''out of memory''"

section \<open>The invariant\<close>

text \<open>
  An inactive slot is all zero; an active one has a generation and the profile of its kind,
  which satisfies its own invariant.
\<close>

definition slot_ok :: "lp_collector_kind \<Rightarrow> lp_collector_slot \<Rightarrow> bool" where
  "slot_ok kind slot \<longleftrightarrow>
     (if cs_active slot
      then cs_generation slot \<noteq> 0 \<and> cfg_kind (cs_config slot) = kind \<and>
        (if kind = LP_COLLECTOR_CPU
         then cs_memory_profile slot = None \<and> (\<exists>p. cs_cpu_profile slot = Some p \<and> cpu_profile_ok p)
         else cs_cpu_profile slot = None \<and> (\<exists>p. cs_memory_profile slot = Some p \<and> memory_profile_ok p))
      else slot = zero_slot)"

definition runtime_ok :: "lp_runtime \<Rightarrow> bool" where
  "runtime_ok rt \<longleftrightarrow> length (rt_collectors rt) = 2 \<and>
     slot_ok LP_COLLECTOR_CPU (collector rt LP_COLLECTOR_CPU) \<and>
     slot_ok LP_COLLECTOR_MEMORY (collector rt LP_COLLECTOR_MEMORY)"

text \<open>Two runtimes with the same recordings: only counters and profiles differ.\<close>

definition same_recordings :: "lp_runtime \<Rightarrow> lp_runtime \<Rightarrow> bool" where
  "same_recordings rt rt' \<longleftrightarrow>
     rt_main_state rt' = rt_main_state rt \<and> rt_host_ops rt' = rt_host_ops rt \<and>
     rt_next_generation rt' = rt_next_generation rt \<and> rt_closing rt' = rt_closing rt \<and>
     (\<forall>kind\<in>{LP_COLLECTOR_CPU, LP_COLLECTOR_MEMORY}.
        cs_active (collector rt' kind) = cs_active (collector rt kind) \<and>
        cs_generation (collector rt' kind) = cs_generation (collector rt kind) \<and>
        cs_config (collector rt' kind) = cs_config (collector rt kind))"

lemma same_recordings_refl [simp]: "same_recordings rt rt"
  by (simp add: same_recordings_def)

lemma same_recordings_trans: "same_recordings a b \<Longrightarrow> same_recordings b c \<Longrightarrow> same_recordings a c"
  by (simp add: same_recordings_def)

lemma valid_kind_iff: "valid_kind k \<longleftrightarrow> k = LP_COLLECTOR_CPU \<or> k = LP_COLLECTOR_MEMORY"
proof -
  have "k < 2 \<longleftrightarrow> k = 0 \<or> k = 1" by unat_arith
  then show ?thesis by (simp add: valid_kind_def)
qed

lemma valid_kinds [simp]: "valid_kind LP_COLLECTOR_CPU" "valid_kind LP_COLLECTOR_MEMORY"
  by (simp_all add: valid_kind_iff)

lemma collector_set [simp]:
  "length (rt_collectors rt) = 2 \<Longrightarrow> valid_kind k \<Longrightarrow> valid_kind j \<Longrightarrow>
   collector (set_collector k slot rt) j = (if j = k then slot else collector rt j)"
  by (auto simp: collector_def set_collector_def valid_kind_iff)

lemma set_collector_fields [simp]:
  "rt_main_state (set_collector k slot rt) = rt_main_state rt"
  "rt_host_ops (set_collector k slot rt) = rt_host_ops rt"
  "rt_next_generation (set_collector k slot rt) = rt_next_generation rt"
  "rt_closing (set_collector k slot rt) = rt_closing rt"
  "length (rt_collectors (set_collector k slot rt)) = length (rt_collectors rt)"
  by (simp_all add: set_collector_def)

lemma zero_slot_ok [simp]: "slot_ok k zero_slot"
  by (simp add: slot_ok_def zero_slot_def)

lemma runtime_ok_slot: "runtime_ok rt \<Longrightarrow> valid_kind k \<Longrightarrow> slot_ok k (collector rt k)"
  by (auto simp: runtime_ok_def valid_kind_iff)

lemma runtime_ok_set: "runtime_ok rt \<Longrightarrow> valid_kind k \<Longrightarrow> slot_ok k slot \<Longrightarrow> runtime_ok (set_collector k slot rt)"
  by (auto simp: runtime_ok_def valid_kind_iff)

lemma lp_runtime_new_ok: "lp_runtime_new True main_state ops = Some rt \<Longrightarrow> runtime_ok rt"
  by (auto simp: lp_runtime_new_def runtime_ok_def collector_def)

text \<open>Rewriting the counters or the profile of a current slot keeps everything.\<close>

lemma current_slot_Some:
  assumes "current_slot rt k g = Some slot"
  shows "slot = collector rt k" and "cs_active slot" and "cs_generation slot = g"
  using assms by (auto simp: current_slot_def Let_def split: if_splits)

lemma record_in_slot:
  assumes ok: "runtime_ok rt" and k: "valid_kind k" and cur: "current_slot rt k g = Some slot"
    and slot': "cs_active slot' = cs_active slot" "cs_generation slot' = cs_generation slot"
      "cs_config slot' = cs_config slot"
      "k = LP_COLLECTOR_CPU \<Longrightarrow> cs_memory_profile slot' = cs_memory_profile slot \<and>
         (\<exists>p. cs_cpu_profile slot' = Some p \<and> cpu_profile_ok p)"
      "k = LP_COLLECTOR_MEMORY \<Longrightarrow> cs_cpu_profile slot' = cs_cpu_profile slot \<and>
         (\<exists>p. cs_memory_profile slot' = Some p \<and> memory_profile_ok p)"
  shows "runtime_ok (set_collector k slot' rt) \<and> same_recordings rt (set_collector k slot' rt)"
proof -
  note c = current_slot_Some [OF cur]
  have "slot_ok k slot" using runtime_ok_slot [OF ok k] c(1) by simp
  then have "slot_ok k slot'" using c slot' k by (auto simp: slot_ok_def valid_kind_iff)
  moreover have len: "length (rt_collectors rt) = 2" using ok by (simp add: runtime_ok_def)
  have "same_recordings rt (set_collector k slot' rt)"
    using collector_set [OF len k] slot'(1-3) c(1) by (auto simp: same_recordings_def valid_kind_iff)
  ultimately show ?thesis using runtime_ok_set [OF ok k] by simp
qed

lemma cpu_slot_profile:
  assumes "runtime_ok rt" and "current_slot rt LP_COLLECTOR_CPU g = Some slot"
  obtains p where "cs_cpu_profile slot = Some p" and "cpu_profile_ok p"
  using runtime_ok_slot [OF assms(1), of LP_COLLECTOR_CPU] current_slot_Some [OF assms(2)]
  by (auto simp: slot_ok_def valid_kind_iff)

lemma memory_slot_profile:
  assumes "runtime_ok rt" and "current_slot rt LP_COLLECTOR_MEMORY g = Some slot"
  obtains p where "cs_memory_profile slot = Some p" and "memory_profile_ok p"
  using runtime_ok_slot [OF assms(1), of LP_COLLECTOR_MEMORY] current_slot_Some [OF assms(2)]
  by (auto simp: slot_ok_def valid_kind_iff)

lemma cpu_quality_ok: "cpu_profile_ok p \<Longrightarrow> cpu_profile_ok (lp_cpu_profile_quality p a b c e f)"
  by (simp add: lp_cpu_profile_quality_def Let_def cpu_profile_ok_def cpu_shape_ok_def cpu_counts_ok_def)

text \<open>A step that returns, keeps the invariant and the recordings.\<close>

definition records_ok :: "lp_runtime \<Rightarrow> lp_runtime option \<Rightarrow> bool" where
  "records_ok rt res \<longleftrightarrow> (\<exists>rt'. res = Some rt' \<and> runtime_ok rt' \<and> same_recordings rt rt')"

lemma records_ok_same [simp]: "records_ok rt (Some rt) \<longleftrightarrow> runtime_ok rt"
  by (simp add: records_ok_def)

lemma safe_point_ok: "runtime_ok rt \<Longrightarrow> records_ok rt (Some (lp_runtime_safe_point rt g n))"
proof (cases "current_slot rt LP_COLLECTOR_CPU g")
  case (Some slot)
  assume ok: "runtime_ok rt"
  obtain p where p: "cs_cpu_profile slot = Some p" "cpu_profile_ok p" by (rule cpu_slot_profile [OF ok Some])
  show ?thesis
    using ok p record_in_slot [OF ok _ Some, of "slot\<lparr>cs_stats := s\<rparr>" for s]
    by (simp add: lp_runtime_safe_point_def Some Let_def records_ok_def valid_kind_iff)
qed (simp add: lp_runtime_safe_point_def)

lemma state_change_ok: "runtime_ok rt \<Longrightarrow> records_ok rt (Some (lp_runtime_state_change rt g s))"
proof (cases "current_slot rt LP_COLLECTOR_CPU g")
  case (Some slot)
  assume ok: "runtime_ok rt"
  obtain p where p: "cs_cpu_profile slot = Some p" "cpu_profile_ok p" by (rule cpu_slot_profile [OF ok Some])
  show ?thesis
    using ok p record_in_slot [OF ok _ Some, of "slot\<lparr>cs_stats := s\<rparr>" for s]
    by (simp add: lp_runtime_state_change_def Some Let_def records_ok_def valid_kind_iff)
qed (simp add: lp_runtime_state_change_def)

lemma scheduler_quality_ok: "runtime_ok rt \<Longrightarrow> records_ok rt (Some (lp_runtime_cpu_scheduler_quality rt g a b c))"
proof (cases "current_slot rt LP_COLLECTOR_CPU g")
  case (Some slot)
  assume ok: "runtime_ok rt"
  obtain p where p: "cs_cpu_profile slot = Some p" "cpu_profile_ok p" by (rule cpu_slot_profile [OF ok Some])
  show ?thesis
    using ok p record_in_slot [OF ok _ Some, of "slot\<lparr>cs_stats := s\<rparr>" for s]
    by (simp add: lp_runtime_cpu_scheduler_quality_def Some Let_def records_ok_def valid_kind_iff)
qed (simp add: lp_runtime_cpu_scheduler_quality_def)

lemma runtime_cpu_quality_ok: "runtime_ok rt \<Longrightarrow> records_ok rt (Some (lp_runtime_cpu_quality rt g a b c e f))"
proof (cases "current_slot rt LP_COLLECTOR_CPU g")
  case (Some slot)
  assume ok: "runtime_ok rt"
  obtain p where p: "cs_cpu_profile slot = Some p" "cpu_profile_ok p" by (rule cpu_slot_profile [OF ok Some])
  show ?thesis
    using ok p cpu_quality_ok [OF p(2)] record_in_slot [OF ok _ Some, of "slot\<lparr>cs_cpu_profile := s\<rparr>" for s]
    by (simp add: lp_runtime_cpu_quality_def Some records_ok_def valid_kind_iff)
qed (simp add: lp_runtime_cpu_quality_def)

lemma cpu_sample_ok:
  assumes ok: "runtime_ok rt" and r: "\<forall>f\<in>set frames. frame_readable f"
  shows "records_ok rt (Some (lp_runtime_cpu_sample rt g state cfunction frames tr))"
proof (cases "current_slot rt LP_COLLECTOR_CPU g")
  case (Some slot)
  obtain p where p: "cs_cpu_profile slot = Some p" "cpu_profile_ok p" by (rule cpu_slot_profile [OF ok Some])
  show ?thesis
    using ok p cpu_record_ok [OF p(2) r] record_in_slot [OF ok _ Some, of "slot\<lparr>cs_cpu_profile := s\<rparr>" for s]
    by (simp add: lp_runtime_cpu_sample_def Some records_ok_def valid_kind_iff)
qed (simp add: ok lp_runtime_cpu_sample_def)

lemma reconcile_ok:
  assumes ok: "runtime_ok rt"
  shows "records_ok rt (lp_runtime_memory_reconcile_live rt g old new n success)"
proof (cases "current_slot rt LP_COLLECTOR_MEMORY g")
  case (Some slot)
  obtain p where p: "cs_memory_profile slot = Some p" "memory_profile_ok p" by (rule memory_slot_profile [OF ok Some])
  from allocation_event_ok [OF p(2)] obtain p' where
    "lp_memory_profile_allocation_event p old new n success = Some p'" "memory_profile_ok p'" by blast
  then show ?thesis
    using p record_in_slot [OF ok _ Some, of "slot\<lparr>cs_memory_profile := Some p'\<rparr>"]
    by (simp add: lp_runtime_memory_reconcile_live_def Some records_ok_def valid_kind_iff)
qed (simp add: ok lp_runtime_memory_reconcile_live_def)

lemma records_ok_trans:
  "runtime_ok rt1 \<Longrightarrow> same_recordings rt rt1 \<Longrightarrow> records_ok rt1 res \<Longrightarrow> records_ok rt res"
  unfolding records_ok_def using same_recordings_trans by blast

lemma allocation_ok:
  assumes ok: "runtime_ok rt"
  shows "records_ok rt (lp_runtime_allocation rt g old new n success)"
proof (cases "current_slot rt LP_COLLECTOR_MEMORY g")
  case (Some slot)
  obtain p where p: "cs_memory_profile slot = Some p" "memory_profile_ok p" by (rule memory_slot_profile [OF ok Some])
  have "records_ok rt (lp_runtime_memory_reconcile_live
      (set_collector LP_COLLECTOR_MEMORY (slot\<lparr>cs_stats := s\<rparr>) rt) g old' new' n' b)" for s old' new' n' b
    using p record_in_slot [OF ok _ Some, of "slot\<lparr>cs_stats := s\<rparr>"]
    by (intro records_ok_trans [OF _ _ reconcile_ok]) (simp_all add: valid_kind_iff)
  then show ?thesis
    using ok by (simp add: lp_runtime_allocation_def Some Let_def)
qed (simp add: ok lp_runtime_allocation_def)

lemma sample_candidate_ok:
  assumes ok: "runtime_ok rt"
  shows "records_ok rt (Some (fst (lp_runtime_memory_sample_candidate d rt g new n success)))"
proof (cases "current_slot rt LP_COLLECTOR_MEMORY g")
  case (Some slot)
  obtain p where p: "cs_memory_profile slot = Some p" "memory_profile_ok p" by (rule memory_slot_profile [OF ok Some])
  show ?thesis
    using p ok should_sample_ok [OF p(2), of d n]
      record_in_slot [OF ok _ Some, of "slot\<lparr>cs_memory_profile := Some (fst (lp_memory_profile_should_sample d p n))\<rparr>"]
    by (simp add: lp_runtime_memory_sample_candidate_def Some records_ok_def valid_kind_iff case_prod_beta)
qed (simp add: ok lp_runtime_memory_sample_candidate_def)

lemma memory_sample_ok:
  assumes ok: "runtime_ok rt" and r: "\<forall>f\<in>set frames. frame_readable f"
  shows "records_ok rt (lp_runtime_memory_sample rt g x frames tr n ws wo)"
proof (cases "current_slot rt LP_COLLECTOR_MEMORY g")
  case (Some slot)
  obtain p where p: "cs_memory_profile slot = Some p" "memory_profile_ok p" by (rule memory_slot_profile [OF ok Some])
  from memory_record_ok [OF p(2) r] obtain p' where
    "lp_memory_profile_record p x frames tr n ws wo = Some p'" "memory_profile_ok p'" by blast
  then show ?thesis
    using p record_in_slot [OF ok _ Some, of "slot\<lparr>cs_memory_profile := Some p'\<rparr>"]
    by (simp add: lp_runtime_memory_sample_def Some records_ok_def valid_kind_iff)
qed (simp add: ok lp_runtime_memory_sample_def)

text \<open>The stacks a call carries are readable.\<close>

fun runtime_call_readable :: "runtime_call \<Rightarrow> bool" where
  "runtime_call_readable (Memory_Sample g x frames tr n ws wo) = (\<forall>f\<in>set frames. frame_readable f)"
| "runtime_call_readable (Cpu_Sample g state cfunction frames tr) = (\<forall>f\<in>set frames. frame_readable f)"
| "runtime_call_readable call = True"

lemma runtime_apply_ok:
  assumes "runtime_ok rt" and "runtime_call_readable call"
  shows "records_ok rt (runtime_apply d call rt)"
  using assms
  by (cases call) (simp_all add: safe_point_ok state_change_ok scheduler_quality_ok runtime_cpu_quality_ok
      cpu_sample_ok reconcile_ok allocation_ok sample_candidate_ok memory_sample_ok)

lemma runtime_calls_ok:
  "runtime_ok rt \<Longrightarrow> \<forall>call\<in>set calls. runtime_call_readable call \<Longrightarrow> records_ok rt (runtime_calls d calls rt)"
proof (induction calls arbitrary: rt)
  case Nil
  then show ?case by simp
next
  case (Cons call calls)
  then obtain rt1 where 1: "runtime_apply d call rt = Some rt1" "runtime_ok rt1" "same_recordings rt rt1"
    using runtime_apply_ok [of rt call d] by (auto simp: records_ok_def)
  then show ?case using Cons.IH [OF 1(2)] Cons.prems(2) records_ok_trans [OF 1(2,3)] by simp
qed

text \<open>The calls a host makes in its two callbacks carry readable stacks.\<close>

definition host_readable :: "lp_host_ops \<Rightarrow> bool" where
  "host_readable ops \<longleftrightarrow>
     (\<forall>start. ho_start_collector ops = Some start \<longrightarrow>
        (\<forall>s g c. \<forall>call\<in>set (fst (start s g c)). runtime_call_readable call)) \<and>
     (\<forall>stop. ho_stop_collector ops = Some stop \<longrightarrow>
        (\<forall>s k g. \<forall>call\<in>set (stop s k g). runtime_call_readable call))"

lemma host_stop_ok:
  assumes "runtime_ok rt" and "host_readable (rt_host_ops rt)"
  shows "records_ok rt (host_stop d s k g rt)"
proof (cases "ho_stop_collector (rt_host_ops rt)")
  case None
  then show ?thesis using assms by (simp add: host_stop_def)
next
  case (Some stop)
  then have "\<forall>call\<in>set (stop s k g). runtime_call_readable call"
    using assms(2) by (simp add: host_readable_def)
  from runtime_calls_ok [OF assms(1) this] Some show ?thesis by (simp add: host_stop_def)
qed

section \<open>Starting\<close>

lemma bump_generation_nonzero [simp]: "bump_generation n \<noteq> 0"
  by (simp add: bump_generation_def)

lemma bump_generation_unat: "unat n < u64_max \<Longrightarrow> unat (bump_generation n) = unat n + 1"
proof -
  assume a: "unat n < u64_max"
  then have "unat (n + 1) = unat n + 1" by (simp add: unat_word_ariths)
  moreover from this have "n + 1 \<noteq> 0" by (metis add_is_0 one_neq_zero unat_0)
  ultimately show ?thesis by (simp add: bump_generation_def)
qed

lemma new_profiles_ok:
  assumes k: "valid_kind (cfg_kind config)" and slot: "cs_cpu_profile slot = None" "cs_memory_profile slot = None"
    "cs_active slot" "cs_generation slot \<noteq> 0" "cs_config slot = config"
    and new: "new_profiles d env config seed slot = Some slot'"
  shows "slot_ok (cfg_kind config) slot' \<and> cs_active slot' \<and> cs_generation slot' = cs_generation slot \<and>
    cs_config slot' = config \<and> cs_stats slot' = cs_stats slot"
  using assms lp_cpu_profile_new_ok lp_memory_profile_new_ok
  by (auto simp: new_profiles_def slot_ok_def valid_kind_iff split: if_splits prod.splits)

text \<open>The checks a start makes before it touches the slot.\<close>

definition start_refused :: "lp_runtime \<Rightarrow> lp_collector_config \<Rightarrow> lp_status option" where
  "start_refused rt config =
     (if \<not> valid_kind (cfg_kind config) \<or>
         cfg_kind config = LP_COLLECTOR_MEMORY \<and> cfg_sample_bytes config = 0 \<or>
         cfg_kind config = LP_COLLECTOR_CPU \<and> (cfg_sample_hz config = 0 \<or> cfg_sample_hz config > 10000)
      then Some LP_ERR_ARGUMENT
      else if rt_closing rt then Some LP_ERR_CLOSED
      else if cs_active (collector rt (cfg_kind config)) then Some LP_ERR_BUSY else None)"

text \<open>How a start ends that is not refused.\<close>

lemma start_cases:
  assumes ok: "runtime_ok rt" and host: "host_readable (rt_host_ops rt)"
    and go: "start_refused rt config = None"
  obtains rt' seed' status gen where
    "lp_runtime_start d env rt seed state config = Some (rt', seed', status, gen)"
    and "runtime_ok rt'" and "rt_host_ops rt' = rt_host_ops rt" and "rt_closing rt' = rt_closing rt"
    and "rt_next_generation rt' = bump_generation (rt_next_generation rt)"
    and "\<forall>k. valid_kind k \<and> k \<noteq> cfg_kind config \<longrightarrow>
      cs_active (collector rt' k) = cs_active (collector rt k) \<and>
      cs_generation (collector rt' k) = cs_generation (collector rt k) \<and>
      cs_config (collector rt' k) = cs_config (collector rt k)"
    and "status = LP_OK \<and> gen = Some (bump_generation (rt_next_generation rt)) \<and>
        cs_active (collector rt' (cfg_kind config)) \<and>
        cs_generation (collector rt' (cfg_kind config)) = bump_generation (rt_next_generation rt) \<and>
        cs_config (collector rt' (cfg_kind config)) = config \<and>
        (ho_start_collector (rt_host_ops rt) = None \<longrightarrow> cs_stats (collector rt' (cfg_kind config)) = zero_stats)
      \<or> (status = LP_ERR_NOMEM \<or> status = LP_ERR_HOST) \<and> gen = None \<and>
        collector rt' (cfg_kind config) = zero_slot"
proof -
  let ?k = "cfg_kind config" and ?g = "bump_generation (rt_next_generation rt)"
  have k: "valid_kind ?k" and idle: "\<not> cs_active (collector rt ?k)" and "\<not> rt_closing rt"
    using go by (auto simp: start_refused_def split: if_splits)
  have zero: "collector rt ?k = zero_slot" using runtime_ok_slot [OF ok k] idle by (simp add: slot_ok_def)
  let ?rt1 = "rt\<lparr>rt_next_generation := ?g\<rparr>"
  let ?slot = "zero_slot\<lparr>cs_active := True, cs_generation := ?g, cs_config := config\<rparr>"
  let ?seed = "seed XOR (se_address env XOR ?g)"
  let ?seed' = "if ?k = LP_COLLECTOR_CPU then seed else seed + random_increment"
  have ok1: "runtime_ok ?rt1" using ok by (simp add: runtime_ok_def collector_def)
  then have len: "length (rt_collectors ?rt1) = 2" by (simp add: runtime_ok_def)
  have col1: "collector ?rt1 j = collector rt j" for j by (simp add: collector_def)
  have start: "lp_runtime_start d env rt seed state config =
      (case new_profiles d env config ?seed ?slot of
         None \<Rightarrow> Some (set_collector ?k zero_slot ?rt1, ?seed', LP_ERR_NOMEM, None)
       | Some slot1 \<Rightarrow>
           case ho_start_collector (rt_host_ops rt) of
             None \<Rightarrow> Some (set_collector ?k slot1 ?rt1, ?seed', LP_OK, Some ?g)
           | Some start \<Rightarrow>
               let (calls, status) = start (if state = NULL then rt_main_state rt else state) ?g config
               in case runtime_calls d calls (set_collector ?k slot1 ?rt1) of
                    None \<Rightarrow> None
                  | Some rt3 \<Rightarrow>
                      if status \<noteq> LP_OK
                      then Some (set_collector ?k zero_slot rt3, ?seed',
                        if status = LP_ERR_NOMEM then status else LP_ERR_HOST, None)
                      else Some (rt3, ?seed', LP_OK, Some ?g))"
  proof -
    have g: "(\<not> valid_kind ?k) = False" "(?k = LP_COLLECTOR_MEMORY \<and> cfg_sample_bytes config = 0) = False"
      "(?k = LP_COLLECTOR_CPU \<and> (cfg_sample_hz config = 0 \<or> cfg_sample_hz config > 10000)) = False"
      "rt_closing rt = False" "cs_active zero_slot = False"
      using go idle zero by (auto simp: start_refused_def split: if_splits)
    show ?thesis
      unfolding lp_runtime_start_def Let_def
      by (simp only: g zero if_False) (simp cong: option.case_cong if_cong split del: if_split)
  qed
  show ?thesis
  proof (cases "new_profiles d env config ?seed ?slot")
    case None
    then show ?thesis
      using start ok1 k len
      by (intro that [of "set_collector ?k zero_slot ?rt1" ?seed' LP_ERR_NOMEM None])
        (auto simp: runtime_ok_set col1)
  next
    case (Some slot1)
    have s1: "slot_ok ?k slot1" "cs_active slot1" "cs_generation slot1 = ?g" "cs_config slot1 = config" "cs_stats slot1 = zero_stats"
      using new_profiles_ok [OF k _ _ _ _ _ Some] by (simp_all add: zero_slot_def)
    let ?rt2 = "set_collector ?k slot1 ?rt1"
    have ok2: "runtime_ok ?rt2" by (rule runtime_ok_set [OF ok1 k s1(1)])
    show ?thesis
    proof (cases "ho_start_collector (rt_host_ops rt)")
      case None
      then show ?thesis
        using start Some ok2 k len s1
        by (intro that [of ?rt2 ?seed' LP_OK "Some ?g"]) (auto simp: col1)
    next
      case h: (Some start')
      obtain calls status where run: "start' (if state = NULL then rt_main_state rt else state) ?g config = (calls, status)"
        by (cases "start' (if state = NULL then rt_main_state rt else state) ?g config")
      have "\<forall>call\<in>set calls. runtime_call_readable call"
        using host h run unfolding host_readable_def by (metis fst_conv)
      from runtime_calls_ok [OF ok2 this, of d] obtain rt3 where
        rt3: "runtime_calls d calls ?rt2 = Some rt3" "runtime_ok rt3" "same_recordings ?rt2 rt3"
        by (auto simp: records_ok_def)
      have len3: "length (rt_collectors rt3) = 2" using rt3(2) by (simp add: runtime_ok_def)
      have same: "cs_active (collector rt3 j) = cs_active (collector ?rt2 j)"
        "cs_generation (collector rt3 j) = cs_generation (collector ?rt2 j)"
        "cs_config (collector rt3 j) = cs_config (collector ?rt2 j)" if "valid_kind j" for j
        using rt3(3) that by (auto simp: same_recordings_def valid_kind_iff)
      have env: "rt_host_ops rt3 = rt_host_ops rt" "rt_closing rt3 = rt_closing rt" "rt_next_generation rt3 = ?g"
        using rt3(3) by (simp_all add: same_recordings_def)
      have result: "lp_runtime_start d env rt seed state config =
          (if status \<noteq> LP_OK then Some (set_collector ?k zero_slot rt3, ?seed',
             if status = LP_ERR_NOMEM then status else LP_ERR_HOST, None)
           else Some (rt3, ?seed', LP_OK, Some ?g))"
        using start Some h run rt3(1) by simp
      show ?thesis
      proof (cases "status = LP_OK")
        case True
        then show ?thesis
          using result rt3(2) env k len s1 h
          by (intro that [of rt3 ?seed' LP_OK "Some ?g"]) (auto simp: same col1)
      next
        case False
        then show ?thesis
          using result rt3(2) env k len len3
          by (intro that [of "set_collector ?k zero_slot rt3" ?seed'
                "if status = LP_ERR_NOMEM then status else LP_ERR_HOST" None])
            (auto simp: same col1 runtime_ok_set)
      qed
    qed
  qed
qed

lemma start_refused_result:
  "start_refused rt config = Some status \<Longrightarrow>
   lp_runtime_start d env rt seed state config = Some (rt, seed, status, None) \<and> status \<noteq> LP_OK"
  unfolding lp_runtime_start_def start_refused_def Let_def by (auto split: if_splits)

section \<open>Stopping\<close>

definition stop_refused :: "lp_runtime \<Rightarrow> lp_collector_kind \<Rightarrow> u64 \<Rightarrow> lp_status option" where
  "stop_refused rt kind g =
     (if \<not> valid_kind kind \<or> g = 0 then Some LP_ERR_ARGUMENT
      else if rt_closing rt then Some LP_ERR_CLOSED
      else if \<not> cs_active (collector rt kind) then Some LP_ERR_INACTIVE
      else if cs_generation (collector rt kind) \<noteq> g then Some LP_ERR_STALE else None)"

lemma stop_refused_result:
  "stop_refused rt kind g = Some status \<Longrightarrow>
   lp_runtime_stop d rt state kind g = Some (rt, status, None) \<and> status \<noteq> LP_OK"
  unfolding lp_runtime_stop_def stop_refused_def by (auto split: if_splits)

text \<open>A sound result: the profile of its kind, with the merged counters.\<close>

definition result_ok :: "lp_result \<Rightarrow> bool" where
  "result_ok res \<longleftrightarrow>
     (res_kind res = LP_COLLECTOR_CPU \<and>
        (\<exists>p s. res_cpu res = Some p \<and> cpu_profile_ok p \<and> res_stats res = lp_cpu_profile_merge_stats p s)) \<or>
     (res_kind res = LP_COLLECTOR_MEMORY \<and>
        (\<exists>p s. res_memory res = Some p \<and> memory_profile_ok p \<and> res_stats res = lp_memory_profile_merge_stats p s))"

lemma stop_cases:
  assumes ok: "runtime_ok rt" and host: "host_readable (rt_host_ops rt)" and go: "stop_refused rt kind g = None"
  obtains rt' res where
    "lp_runtime_stop d rt state kind g = Some (rt', LP_OK, Some res)"
    and "runtime_ok rt'" and "rt_host_ops rt' = rt_host_ops rt" and "rt_closing rt' = rt_closing rt"
    and "rt_next_generation rt' = rt_next_generation rt" and "collector rt' kind = zero_slot"
    and "\<forall>k. valid_kind k \<and> k \<noteq> kind \<longrightarrow>
      cs_active (collector rt' k) = cs_active (collector rt k) \<and>
      cs_generation (collector rt' k) = cs_generation (collector rt k) \<and>
      cs_config (collector rt' k) = cs_config (collector rt k)"
    and "result_ok res" and "res_kind res = kind" and "res_generation res = g"
    and "res_config res = cs_config (collector rt kind)"
proof -
  have k: "valid_kind kind" and act: "cs_active (collector rt kind)" and gen: "cs_generation (collector rt kind) = g"
    and g: "(\<not> valid_kind kind \<or> g = 0) = False" "rt_closing rt = False"
      "(\<not> cs_active (collector rt kind)) = False" "(cs_generation (collector rt kind) \<noteq> g) = False"
    using go by (auto simp: stop_refused_def split: if_splits)
  let ?s = "if state = NULL then rt_main_state rt else state"
  from host_stop_ok [OF ok host, of d ?s kind g] obtain rt1 where
    rt1: "host_stop d ?s kind g rt = Some rt1" "runtime_ok rt1" "same_recordings rt rt1"
    by (auto simp: records_ok_def)
  let ?slot = "collector rt1 kind"
  have same: "cs_active (collector rt1 j) = cs_active (collector rt j)"
    "cs_generation (collector rt1 j) = cs_generation (collector rt j)"
    "cs_config (collector rt1 j) = cs_config (collector rt j)" if "valid_kind j" for j
    using rt1(3) that by (auto simp: same_recordings_def valid_kind_iff)
  have len: "length (rt_collectors rt1) = 2" using rt1(2) by (simp add: runtime_ok_def)
  have slot: "slot_ok kind ?slot" by (rule runtime_ok_slot [OF rt1(2) k])
  define res where "res = \<lparr>res_kind = kind, res_generation = g, res_config = cs_config ?slot,
    res_stats = (if kind = LP_COLLECTOR_CPU
        then (case cs_cpu_profile ?slot of None \<Rightarrow> cs_stats ?slot
              | Some profile \<Rightarrow> lp_cpu_profile_merge_stats profile (cs_stats ?slot))
        else (case cs_memory_profile ?slot of None \<Rightarrow> cs_stats ?slot
              | Some profile \<Rightarrow> lp_memory_profile_merge_stats profile (cs_stats ?slot))),
    res_cpu = (if kind = LP_COLLECTOR_CPU then cs_cpu_profile ?slot else None),
    res_memory = (if kind = LP_COLLECTOR_CPU then None
      else if kind = LP_COLLECTOR_CPU then cs_memory_profile ?slot
      else map_option lp_memory_profile_finish (cs_memory_profile ?slot))\<rparr>"
  have run: "lp_runtime_stop d rt state kind g = Some (set_collector kind zero_slot rt1, LP_OK, Some res)"
    unfolding lp_runtime_stop_def by (simp only: g if_False rt1(1)) (simp add: res_def Let_def)
  have "result_ok res"
  proof (cases "kind = LP_COLLECTOR_CPU")
    case True
    then obtain p where "cs_cpu_profile ?slot = Some p" "cpu_profile_ok p"
      using slot act same k by (auto simp: slot_ok_def)
    then show ?thesis using True by (auto simp: result_ok_def res_def)
  next
    case False
    then have kind: "kind = LP_COLLECTOR_MEMORY" using k by (simp add: valid_kind_iff)
    then obtain p where p: "cs_memory_profile ?slot = Some p" "memory_profile_ok p"
      using slot act same k by (auto simp: slot_ok_def)
    have "lp_memory_profile_merge_stats p s = lp_memory_profile_merge_stats (lp_memory_profile_finish p) s" for s
      by (simp add: lp_memory_profile_merge_stats_def lp_memory_profile_finish_def)
    then show ?thesis using kind p finish_ok [OF p(2)] by (auto simp: result_ok_def res_def)
  qed
  then show ?thesis
    using run rt1(2,3) k len
    by (intro that [of "set_collector kind zero_slot rt1" res])
      (auto simp: runtime_ok_set same same_recordings_def res_def)
qed

section \<open>Histories\<close>

datatype runtime_op =
    Start_Op start_env pointer lp_collector_config
  | Stop_Op pointer lp_collector_kind u64
  | Call_Op runtime_call

text \<open>The generations that the starts of a history returned, oldest first.\<close>

primrec run_op :: "'d doubles \<Rightarrow> runtime_op \<Rightarrow> lp_runtime \<times> u64 \<Rightarrow> ((lp_runtime \<times> u64) \<times> u64 list) option" where
  "run_op d (Start_Op env state config) w =
     map_option (\<lambda>(rt', seed', status, gen). ((rt', seed'), case gen of None \<Rightarrow> [] | Some g \<Rightarrow> [g]))
       (lp_runtime_start d env (fst w) (snd w) state config)"
| "run_op d (Stop_Op state kind g) w =
     map_option (\<lambda>(rt', status, res). ((rt', snd w), [])) (lp_runtime_stop d (fst w) state kind g)"
| "run_op d (Call_Op call) w = map_option (\<lambda>rt'. ((rt', snd w), [])) (runtime_apply d call (fst w))"

primrec runtime_history ::
  "'d doubles \<Rightarrow> runtime_op list \<Rightarrow> lp_runtime \<times> u64 \<Rightarrow> ((lp_runtime \<times> u64) \<times> u64 list) option" where
  "runtime_history d [] w = Some (w, [])"
| "runtime_history d (act # acts) w =
     (case run_op d act w of
        None \<Rightarrow> None
      | Some (w1, gens) \<Rightarrow> map_option (\<lambda>(w2, gens'). (w2, gens @ gens')) (runtime_history d acts w1))"

primrec op_readable :: "runtime_op \<Rightarrow> bool" where
  "op_readable (Start_Op env state config) = True"
| "op_readable (Stop_Op state kind g) = True"
| "op_readable (Call_Op call) = runtime_call_readable call"

lemma run_op_ok:
  assumes ok: "runtime_ok rt" and host: "host_readable (rt_host_ops rt)" and act: "op_readable act"
  shows "\<exists>rt' seed' gens. run_op d act (rt, seed) = Some ((rt', seed'), gens) \<and> runtime_ok rt' \<and>
    rt_host_ops rt' = rt_host_ops rt \<and>
    (rt_next_generation rt' = rt_next_generation rt \<and> gens = [] \<or>
     rt_next_generation rt' = bump_generation (rt_next_generation rt) \<and> (gens = [] \<or> gens = [rt_next_generation rt']))"
proof (cases act)
  case (Start_Op env state config)
  show ?thesis
  proof (cases "start_refused rt config")
    case None
    obtain rt' seed' status gen where r: "lp_runtime_start d env rt seed state config = Some (rt', seed', status, gen)"
      "runtime_ok rt'" "rt_host_ops rt' = rt_host_ops rt"
      "rt_next_generation rt' = bump_generation (rt_next_generation rt)"
      "gen = Some (bump_generation (rt_next_generation rt)) \<or> gen = None"
      by (rule start_cases [OF ok host None, of d env seed state]) blast
    then show ?thesis by (auto simp: Start_Op)
  next
    case (Some status)
    then show ?thesis using start_refused_result [OF Some, of d env seed state] ok by (simp add: Start_Op)
  qed
next
  case (Stop_Op state kind g)
  show ?thesis
  proof (cases "stop_refused rt kind g")
    case None
    obtain rt' res where "lp_runtime_stop d rt state kind g = Some (rt', LP_OK, Some res)"
      "runtime_ok rt'" "rt_host_ops rt' = rt_host_ops rt" "rt_next_generation rt' = rt_next_generation rt"
      by (rule stop_cases [OF ok host None, of d state])
    then show ?thesis by (simp add: Stop_Op)
  next
    case (Some status)
    then show ?thesis using stop_refused_result [OF Some, of d state] ok by (simp add: Stop_Op)
  qed
next
  case (Call_Op call)
  then show ?thesis
    using runtime_apply_ok [OF ok, of call d] act by (auto simp: records_ok_def same_recordings_def)
qed

lemma runtime_history_ok:
  "runtime_ok rt \<Longrightarrow> host_readable (rt_host_ops rt) \<Longrightarrow> \<forall>act\<in>set acts. op_readable act \<Longrightarrow>
   \<exists>rt' seed' gens. runtime_history d acts (rt, seed) = Some ((rt', seed'), gens) \<and> runtime_ok rt'"
proof (induction acts arbitrary: rt seed)
  case Nil
  then show ?case by simp
next
  case (Cons act acts)
  from run_op_ok [OF Cons.prems(1,2), of act d seed] Cons.prems(3) obtain rt1 seed1 gens where
    1: "run_op d act (rt, seed) = Some ((rt1, seed1), gens)" "runtime_ok rt1" "rt_host_ops rt1 = rt_host_ops rt"
    by auto
  from Cons.IH [OF 1(2), of seed1] Cons.prems 1 show ?case by auto
qed

lemma runtime_history_generations:
  "runtime_ok rt \<Longrightarrow> host_readable (rt_host_ops rt) \<Longrightarrow> \<forall>act\<in>set acts. op_readable act \<Longrightarrow>
   unat (rt_next_generation rt) + length acts \<le> u64_max \<Longrightarrow>
   runtime_history d acts (rt, seed) = Some (w', gens) \<Longrightarrow>
   distinct gens \<and> (\<forall>g\<in>set gens. unat (rt_next_generation rt) < unat g)"
proof (induction acts arbitrary: rt seed w' gens)
  case Nil
  then show ?case by simp
next
  case (Cons act acts)
  let ?n = "rt_next_generation rt"
  have bump: "unat (bump_generation ?n) = unat ?n + 1" using Cons.prems(4) by (intro bump_generation_unat) simp
  from run_op_ok [OF Cons.prems(1,2), of act d seed] Cons.prems(3) obtain rt1 seed1 gens1 where
    1: "run_op d act (rt, seed) = Some ((rt1, seed1), gens1)" "runtime_ok rt1" "rt_host_ops rt1 = rt_host_ops rt"
    "rt_next_generation rt1 = ?n \<and> gens1 = [] \<or>
     rt_next_generation rt1 = bump_generation ?n \<and> (gens1 = [] \<or> gens1 = [rt_next_generation rt1])"
    by auto
  obtain gens2 where 2: "runtime_history d acts (rt1, seed1) = Some (w', gens2)" "gens = gens1 @ gens2"
    using Cons.prems(5) 1(1) by auto
  have "unat (rt_next_generation rt1) + length acts \<le> u64_max" using 1(4) bump Cons.prems(4) by auto
  from Cons.IH [OF 1(2) _ _ this 2(1)] Cons.prems(2,3) 1(3) have
    IH: "distinct gens2 \<and> (\<forall>g\<in>set gens2. unat (rt_next_generation rt1) < unat g)" by simp
  show ?case using IH 1(4) bump 2(2) by fastforce
qed

section \<open>Properties\<close>

text \<open>
  Every history returns. From a new runtime, any sequence of starts, stops and recording
  calls returns, whatever allocations fail and whatever the host calls back, and keeps the
  invariant: an inactive slot is all zero, an active one has a generation and the profile of
  its kind in a consistent state.
\<close>

theorem runtime_history_returns:
  assumes "lp_runtime_new True main_state ops = Some rt" and "host_readable (rt_host_ops rt)"
    and "\<forall>act\<in>set acts. op_readable act"
  shows "\<exists>rt' seed' gens. runtime_history d acts (rt, seed) = Some ((rt', seed'), gens) \<and> runtime_ok rt'"
  using runtime_history_ok [OF lp_runtime_new_ok [OF assms(1)] assms(2,3)] by blast

text \<open>
  Generations are unique. In a history of fewer than \<open>2 ^ 64\<close> operations the generations
  of all successful starts, of both kinds, are non-zero and pairwise different.
\<close>

theorem generations_are_unique:
  assumes "lp_runtime_new True main_state ops = Some rt" and "host_readable (rt_host_ops rt)"
    and "\<forall>act\<in>set acts. op_readable act" and "length acts \<le> u64_max"
    and "runtime_history d acts (rt, seed) = Some (w, gens)"
  shows "distinct gens \<and> 0 \<notin> set gens"
proof -
  have "rt_next_generation rt = 0" using assms(1) by (auto simp: lp_runtime_new_def)
  then have "distinct gens \<and> (\<forall>g\<in>set gens. 0 < unat g)"
    using runtime_history_generations [OF lp_runtime_new_ok [OF assms(1)] assms(2,3) _ assms(5)] assms(4) by simp
  then show ?thesis by auto
qed

text \<open>The kind a recording call belongs to, and the generation it carries.\<close>

primrec call_kind :: "runtime_call \<Rightarrow> lp_collector_kind" where
  "call_kind (Safe_Point g pending) = LP_COLLECTOR_CPU"
| "call_kind (State_Change g state) = LP_COLLECTOR_CPU"
| "call_kind (Allocation g old new n success) = LP_COLLECTOR_MEMORY"
| "call_kind (Reconcile_Live g old new n success) = LP_COLLECTOR_MEMORY"
| "call_kind (Sample_Candidate g new n success) = LP_COLLECTOR_MEMORY"
| "call_kind (Memory_Sample g x frames truncated n ws wo) = LP_COLLECTOR_MEMORY"
| "call_kind (Cpu_Sample g state cfunction frames truncated) = LP_COLLECTOR_CPU"
| "call_kind (Cpu_Quality g dropped unstable overhead events ticks) = LP_COLLECTOR_CPU"
| "call_kind (Cpu_Scheduler_Quality g stale failures workers) = LP_COLLECTOR_CPU"

primrec call_generation :: "runtime_call \<Rightarrow> u64" where
  "call_generation (Safe_Point g pending) = g"
| "call_generation (State_Change g state) = g"
| "call_generation (Allocation g old new n success) = g"
| "call_generation (Reconcile_Live g old new n success) = g"
| "call_generation (Sample_Candidate g new n success) = g"
| "call_generation (Memory_Sample g x frames truncated n ws wo) = g"
| "call_generation (Cpu_Sample g state cfunction frames truncated) = g"
| "call_generation (Cpu_Quality g dropped unstable overhead events ticks) = g"
| "call_generation (Cpu_Scheduler_Quality g stale failures workers) = g"

text \<open>
  C36: Stale calls change nothing. A recording call that carries a generation other than the
  one of the active recorder of its kind, or finds no recorder active, leaves the whole
  runtime as it is, and a sampling question is answered with no.
\<close>

theorem stale_calls_change_nothing:
  assumes "\<not> lp_runtime_active rt (call_kind call) \<or> lp_runtime_generation rt (call_kind call) \<noteq> call_generation call"
  shows "runtime_apply d call rt = Some rt \<and>
    (\<forall>g new n success. call = Sample_Candidate g new n success \<longrightarrow>
       lp_runtime_memory_sample_candidate d rt g new n success = (rt, None))"
proof -
  have "current_slot rt (call_kind call) (call_generation call) = None"
    using assms by (cases call) (auto simp: current_slot_def lp_runtime_active_def lp_runtime_generation_def Let_def)
  then show ?thesis
    by (cases call) (simp_all add: lp_runtime_safe_point_def lp_runtime_state_change_def lp_runtime_allocation_def
        lp_runtime_memory_reconcile_live_def lp_runtime_memory_sample_candidate_def lp_runtime_memory_sample_def
        lp_runtime_cpu_sample_def lp_runtime_cpu_quality_def lp_runtime_cpu_scheduler_quality_def)
qed

text \<open>
  A failed start leaves nothing behind. A start that does not return \<open>LP_OK\<close> returns no
  generation; refused by a check (bad argument, closed runtime, busy recorder) it changes
  neither the runtime nor the seed counter; failing later (out of memory, host failure) it
  leaves the recorder of its kind inactive with an all-zero slot and the other kind's
  recording alone.
\<close>

theorem failed_start_leaves_nothing:
  assumes ok: "runtime_ok rt" and host: "host_readable (rt_host_ops rt)"
    and start: "lp_runtime_start d env rt seed state config = Some (rt', seed', status, gen)"
    and fails: "status \<noteq> LP_OK"
  shows "gen = None \<and>
    (status \<in> {LP_ERR_ARGUMENT, LP_ERR_CLOSED, LP_ERR_BUSY} \<and> rt' = rt \<and> seed' = seed \<or>
     status \<in> {LP_ERR_NOMEM, LP_ERR_HOST} \<and> collector rt' (cfg_kind config) = zero_slot \<and>
     (\<forall>k. valid_kind k \<and> k \<noteq> cfg_kind config \<longrightarrow>
        lp_runtime_active rt' k = lp_runtime_active rt k \<and>
        lp_runtime_generation rt' k = lp_runtime_generation rt k))"
proof (cases "start_refused rt config")
  case (Some s)
  then have "status = s" "rt' = rt" "seed' = seed" "gen = None"
    using start_refused_result [OF Some, of d env seed state] start by auto
  moreover have "s \<in> {LP_ERR_ARGUMENT, LP_ERR_CLOSED, LP_ERR_BUSY}"
    using Some by (auto simp: start_refused_def split: if_splits)
  ultimately show ?thesis by simp
next
  case None
  obtain rt1 seed1 s g where
    r: "lp_runtime_start d env rt seed state config = Some (rt1, seed1, s, g)"
    and others: "\<forall>k. valid_kind k \<and> k \<noteq> cfg_kind config \<longrightarrow>
      cs_active (collector rt1 k) = cs_active (collector rt k) \<and>
      cs_generation (collector rt1 k) = cs_generation (collector rt k)"
    and result: "s = LP_OK \<or>
      (s = LP_ERR_NOMEM \<or> s = LP_ERR_HOST) \<and> g = None \<and> collector rt1 (cfg_kind config) = zero_slot"
    by (rule start_cases [OF ok host None, of d env seed state]) blast
  have eq: "rt1 = rt'" "s = status" "g = gen" using r start by simp_all
  show ?thesis
    using others result fails unfolding eq by (auto simp: lp_runtime_active_def lp_runtime_generation_def)
qed

text \<open>
  A recorder is exclusive and stops once. After a successful start the recorder is active
  under the returned non-zero generation; starting the kind again is refused as busy, stopping
  it under another generation as stale, both without effect; stopping it under its generation
  returns its result, leaves the slot free, and a second stop finds it inactive. The other
  kind's recording is not touched.
\<close>

theorem recorder_is_exclusive:
  assumes ok: "runtime_ok rt" and host: "host_readable (rt_host_ops rt)"
    and start: "lp_runtime_start d env rt seed state config = Some (rt1, seed1, LP_OK, gen)"
  shows "\<exists>g. gen = Some g \<and> g \<noteq> 0 \<and> lp_runtime_active rt1 (cfg_kind config) \<and>
    lp_runtime_generation rt1 (cfg_kind config) = g \<and>
    lp_runtime_start d env' rt1 seed1 state' config = Some (rt1, seed1, LP_ERR_BUSY, None) \<and>
    (\<forall>g'. g' \<noteq> 0 \<and> g' \<noteq> g \<longrightarrow>
       lp_runtime_stop d rt1 state' (cfg_kind config) g' = Some (rt1, LP_ERR_STALE, None)) \<and>
    (\<exists>rt2 res. lp_runtime_stop d rt1 state' (cfg_kind config) g = Some (rt2, LP_OK, Some res) \<and>
       res_kind res = cfg_kind config \<and> res_generation res = g \<and> res_config res = config \<and>
       \<not> lp_runtime_active rt2 (cfg_kind config) \<and>
       lp_runtime_stop d rt2 state' (cfg_kind config) g = Some (rt2, LP_ERR_INACTIVE, None) \<and>
       (\<forall>k. valid_kind k \<and> k \<noteq> cfg_kind config \<longrightarrow>
          lp_runtime_active rt2 k = lp_runtime_active rt k \<and>
          lp_runtime_generation rt2 k = lp_runtime_generation rt k))"
proof -
  have go: "start_refused rt config = None"
    using start start_refused_result [of rt config _ d env seed state] by (cases "start_refused rt config") auto
  let ?k = "cfg_kind config" and ?g = "bump_generation (rt_next_generation rt)"
  have s: "runtime_ok rt1" "rt_host_ops rt1 = rt_host_ops rt" "rt_closing rt1 = rt_closing rt" "gen = Some ?g"
    "cs_active (collector rt1 ?k)" "cs_generation (collector rt1 ?k) = ?g" "cs_config (collector rt1 ?k) = config"
    "\<forall>k. valid_kind k \<and> k \<noteq> ?k \<longrightarrow> cs_active (collector rt1 k) = cs_active (collector rt k) \<and>
      cs_generation (collector rt1 k) = cs_generation (collector rt k)"
    using start by (auto intro: start_cases [OF ok host go, of d env seed state])
  have k: "valid_kind ?k" and arg: "start_refused rt1 config = Some LP_ERR_BUSY"
    using go s(3,5) by (auto simp: start_refused_def split: if_splits)
  have host1: "host_readable (rt_host_ops rt1)" using host s(2) by simp
  have stop: "stop_refused rt1 ?k ?g = None" and closing: "\<not> rt_closing rt1"
    using k s go by (auto simp: stop_refused_def start_refused_def split: if_splits)
  obtain rt2 res where t: "lp_runtime_stop d rt1 state' ?k ?g = Some (rt2, LP_OK, Some res)"
    "rt_closing rt2 = rt_closing rt1" "collector rt2 ?k = zero_slot" "res_kind res = ?k" "res_generation res = ?g"
    "res_config res = config"
    "\<forall>k. valid_kind k \<and> k \<noteq> ?k \<longrightarrow> cs_active (collector rt2 k) = cs_active (collector rt1 k) \<and>
      cs_generation (collector rt2 k) = cs_generation (collector rt1 k)"
    by (rule stop_cases [OF s(1) host1 stop, of d state']) (use s(7) in auto)
  have idle: "stop_refused rt2 ?k ?g = Some LP_ERR_INACTIVE"
    using t k closing by (simp add: stop_refused_def zero_slot_def)
  have stale: "stop_refused rt1 ?k g' = Some LP_ERR_STALE" if "g' \<noteq> 0" "g' \<noteq> ?g" for g'
    using that s k closing by (simp add: stop_refused_def)
  show ?thesis
    using s t k start_refused_result [OF arg, of d env' seed1 state'] stop_refused_result [OF idle, of d state']
      stop_refused_result [OF stale, of _ d state']
    by (intro exI [of _ ?g] conjI exI [of _ rt2] exI [of _ res] allI impI)
      (auto simp: lp_runtime_active_def lp_runtime_generation_def zero_slot_def)
qed

section \<open>Witnesses\<close>

text \<open>A runtime without host callbacks, a CPU configuration, and an environment where every allocation succeeds.\<close>

definition example_runtime :: lp_runtime where
  "example_runtime = \<lparr>rt_main_state = 4096,
     rt_host_ops = \<lparr>ho_start_collector = None, ho_stop_collector = None\<rparr>,
     rt_next_generation = 0, rt_closing = False, rt_collectors = [zero_slot, zero_slot]\<rparr>"

definition example_config :: lp_collector_config where
  "example_config = \<lparr>cfg_kind = LP_COLLECTOR_CPU, cfg_sample_hz = 100, cfg_sample_bytes = 0, cfg_track_free = False\<rparr>"

definition example_env :: start_env where
  "example_env = \<lparr>se_cpu = (True, True, True, True), se_memory = (True, True), se_address = 8192\<rparr>"

text \<open>Doubles on which no arithmetic is performed in these examples.\<close>

definition trivial_doubles :: "int doubles" where
  "trivial_doubles = \<lparr>d_literal = (\<lambda>n. n), d_of_u64 = uint, d_to_u64 = of_int, d_neg = uminus, d_add = (+),
     d_sub = (-), d_mul = (*), d_div = (div), d_less = (<), d_le = (\<le>), d_floor = (\<lambda>x. x),
     d_log = (\<lambda>x. x), d_log1p = (\<lambda>x. x), d_expm1 = (\<lambda>x. x)\<rparr>"

lemma example_runtime_new: "lp_runtime_new True 4096 None = Some example_runtime"
  by (simp add: lp_runtime_new_def example_runtime_def)

lemma example_runtime_ok: "runtime_ok example_runtime"
  by (rule lp_runtime_new_ok [OF example_runtime_new])

lemma example_host_readable: "host_readable (rt_host_ops example_runtime)"
  by (simp add: host_readable_def example_runtime_def)

lemma example_start:
  obtains rt1 where "lp_runtime_start d example_env example_runtime 5 NULL example_config = Some (rt1, 5, LP_OK, Some 1)"
  by (simp add: lp_runtime_start_def example_runtime_def example_config_def example_env_def Let_def collector_def
      zero_slot_def new_profiles_def lp_cpu_profile_new_def bump_generation_def)

lemma runtime_history_returns_witness:
  "\<exists>rt' seed' gens. runtime_history trivial_doubles
     [Start_Op example_env NULL example_config, Call_Op (Safe_Point 1 3), Stop_Op NULL LP_COLLECTOR_CPU 1]
     (example_runtime, 5) = Some ((rt', seed'), gens) \<and> runtime_ok rt'"
  by (rule runtime_history_returns [OF example_runtime_new example_host_readable]) simp

lemma generations_are_unique_witness:
  "\<exists>w gens. runtime_history trivial_doubles
     [Start_Op example_env NULL example_config, Stop_Op NULL LP_COLLECTOR_CPU 1, Start_Op example_env NULL example_config]
     (example_runtime, 5) = Some (w, gens) \<and> distinct gens \<and> 0 \<notin> set gens"
proof -
  let ?acts = "[Start_Op example_env NULL example_config, Stop_Op NULL LP_COLLECTOR_CPU 1,
    Start_Op example_env NULL example_config]"
  obtain w gens where w: "runtime_history trivial_doubles ?acts (example_runtime, 5) = Some (w, gens)"
    using runtime_history_ok [OF example_runtime_ok example_host_readable, of ?acts trivial_doubles 5] by auto
  then show ?thesis
    using generations_are_unique [OF example_runtime_new example_host_readable _ _ w] by simp
qed

lemma stale_calls_change_nothing_witness:
  "runtime_apply trivial_doubles (Safe_Point 7 3) example_runtime = Some example_runtime"
  using stale_calls_change_nothing [of example_runtime "Safe_Point 7 3" trivial_doubles]
  by (simp add: lp_runtime_generation_def example_runtime_def collector_def zero_slot_def)

lemma failed_start_leaves_nothing_witness:
  "\<exists>rt'. lp_runtime_start trivial_doubles (example_env\<lparr>se_cpu := (True, False, True, True)\<rparr>) example_runtime 5 NULL
     example_config = Some (rt', 5, LP_ERR_NOMEM, None) \<and> collector rt' LP_COLLECTOR_CPU = zero_slot"
proof -
  obtain rt' where rt': "lp_runtime_start trivial_doubles (example_env\<lparr>se_cpu := (True, False, True, True)\<rparr>)
      example_runtime 5 NULL example_config = Some (rt', 5, LP_ERR_NOMEM, None)"
    by (simp add: lp_runtime_start_def example_runtime_def example_config_def example_env_def Let_def collector_def
        zero_slot_def new_profiles_def lp_cpu_profile_new_def bump_generation_def)
  then show ?thesis
    using failed_start_leaves_nothing [OF example_runtime_ok example_host_readable rt'] by (simp add: example_config_def)
qed

lemma recorder_is_exclusive_witness:
  "\<exists>rt1. lp_runtime_start trivial_doubles example_env example_runtime 5 NULL example_config = Some (rt1, 5, LP_OK, Some 1) \<and>
     lp_runtime_active rt1 LP_COLLECTOR_CPU \<and>
     lp_runtime_stop trivial_doubles rt1 NULL LP_COLLECTOR_CPU 2 = Some (rt1, LP_ERR_STALE, None)"
proof -
  obtain rt1 where rt1: "lp_runtime_start trivial_doubles example_env example_runtime 5 NULL example_config =
      Some (rt1, 5, LP_OK, Some 1)" by (rule example_start)
  show ?thesis
    using recorder_is_exclusive [OF example_runtime_ok example_host_readable rt1, where env' = example_env and state' = NULL] rt1
    by (auto simp: example_config_def)
qed

end
