(* ===== verification/Recording_Results.thy ===== *)
theory Recording_Results
  imports Runtime
begin

text \<open>
  Properties that span the runtime and the two cores: what a stopped recording hands out
  through the accessors \<open>lp_result_*\<close> of \<open>src/runtime.c\<close> agrees with its statistics, after any
  history of starts, stops and recording calls.
\<close>

text \<open>The values of a field over all samples of a result, in the order of their index.\<close>

definition result_cpu_weights :: "lp_result \<Rightarrow> nat list" where
  "result_cpu_weights res =
     map (\<lambda>i. case lp_result_cpu_sample res i of None \<Rightarrow> 0 | Some v \<Rightarrow> unat (csv_weight v))
       [0..<lp_result_cpu_sample_count res]"

definition result_memory_field :: "(lp_memory_sample_view \<Rightarrow> u64) \<Rightarrow> lp_result \<Rightarrow> nat list" where
  "result_memory_field f res =
     map (\<lambda>i. case lp_result_memory_sample res i of None \<Rightarrow> 0 | Some v \<Rightarrow> unat (f v))
       [0..<lp_result_memory_sample_count res]"

text \<open>The weights of the samples in one VM state, 0 for the others.\<close>

definition result_state_weights :: "lp_vm_state \<Rightarrow> lp_result \<Rightarrow> nat list" where
  "result_state_weights state res =
     map (\<lambda>i. case lp_result_cpu_sample res i of None \<Rightarrow> 0 | Some v \<Rightarrow> if csv_state v = state then unat (csv_weight v) else 0)
       [0..<lp_result_cpu_sample_count res]"

lemma result_cpu_weights_profile:
  "res_kind res = LP_COLLECTOR_CPU \<Longrightarrow> res_cpu res = Some p \<Longrightarrow> result_cpu_weights res = exported_weights p"
  by (simp add: result_cpu_weights_def exported_weights_def lp_result_cpu_sample_def lp_result_cpu_sample_count_def)

lemma result_memory_field_profile:
  "res_kind res = LP_COLLECTOR_MEMORY \<Longrightarrow> res_memory res = Some p \<Longrightarrow> result_memory_field f res = exported_field f p"
  by (simp add: result_memory_field_def exported_field_def lp_result_memory_sample_def lp_result_memory_sample_count_def)

lemma stopped_result_ok:
  assumes "runtime_ok rt" and "host_readable (rt_host_ops rt)"
    and "lp_runtime_stop d rt state kind g = Some (rt', LP_OK, Some res)"
  shows "result_ok res \<and> res_kind res = kind"
proof (cases "stop_refused rt kind g")
  case None
  from assms(1,2) None show ?thesis by (rule stop_cases [of rt kind g d state]) (use assms(3) in auto)
next
  case (Some s)
  then show ?thesis using stop_refused_result [OF Some, of d state] assms(3) by simp
qed

lemma history_host_ops:
  "runtime_ok rt \<Longrightarrow> host_readable (rt_host_ops rt) \<Longrightarrow> \<forall>act\<in>set acts. op_readable act \<Longrightarrow>
   runtime_history d acts (rt, seed) = Some ((rt', seed'), gens) \<Longrightarrow>
   runtime_ok rt' \<and> rt_host_ops rt' = rt_host_ops rt"
proof (induction acts arbitrary: rt seed gens)
  case Nil
  then show ?case by simp
next
  case (Cons act acts)
  from run_op_ok [OF Cons.prems(1,2), of act d seed] Cons.prems(3) obtain rt1 seed1 gs where
    1: "run_op d act (rt, seed) = Some ((rt1, seed1), gs)" "runtime_ok rt1" "rt_host_ops rt1 = rt_host_ops rt"
    by auto
  from Cons.prems(4) 1(1) obtain gs' where "runtime_history d acts (rt1, seed1) = Some ((rt', seed'), gs')"
    by (auto split: option.splits prod.splits)
  from Cons.IH [OF 1(2) _ _ this] Cons.prems 1(3) show ?case by simp
qed

text \<open>The totals of a sound result are the sums over its samples.\<close>

lemma cpu_result_sums:
  assumes "result_ok res" and "res_kind res = LP_COLLECTOR_CPU"
  shows "unat (st_samples (res_stats res)) = min u64_max (sum_list (result_cpu_weights res)) \<and>
    unat (st_samples (res_stats res)) =
      min u64_max (unat (st_sample_host (res_stats res)) + unat (st_sample_lua (res_stats res)) +
        unat (st_sample_c (res_stats res)) + unat (st_sample_gc (res_stats res)))"
proof -
  obtain p s where "res_cpu res = Some p" "cpu_profile_ok p" "res_stats res = lp_cpu_profile_merge_stats p s"
    using assms by (auto simp: result_ok_def)
  then show ?thesis
    using assms(2) cpu_ok_totals [of p] by (simp add: result_cpu_weights_profile lp_cpu_profile_merge_stats_def Let_def)
qed

lemma result_state_weights_sum:
  assumes "res_kind res = LP_COLLECTOR_CPU" and "res_cpu res = Some p" and "cpu_shape_ok p"
  shows "sum_list (result_state_weights state res) = sum_list (map (cpu_weight_in state) (cp_aggregates p))"
proof -
  let ?used = "filter ca_used (cp_aggregates p)" and ?w = "\<lambda>a. if ca_state a = state then unat (ca_weight a) else 0"
  have "result_state_weights state res = map (\<lambda>i. ?w (?used ! i)) [0..<length ?used]"
    using assms
    by (auto simp: result_state_weights_def lp_result_cpu_sample_def lp_result_cpu_sample_count_def lp_cpu_profile_sample_def
        cpu_aggregate_at_filter lp_cpu_profile_sample_count_def cpu_shape_ok_def)
  also have "\<dots> = map ?w ?used" by (rule nth_equalityI) simp_all
  finally have "sum_list (result_state_weights state res) = sum_list (map (\<lambda>a. if ca_used a then ?w a else 0) (cp_aggregates p))"
    by (simp add: sum_used_slots)
  also have "(\<lambda>a. if ca_used a then ?w a else 0) = cpu_weight_in state" by (auto simp: cpu_weight_in_def)
  finally show ?thesis .
qed

lemma cpu_result_state_sums:
  assumes "result_ok res" and "res_kind res = LP_COLLECTOR_CPU"
  shows "unat (st_sample_host (res_stats res)) = min u64_max (sum_list (result_state_weights LP_VM_HOST res))"
    "unat (st_sample_lua (res_stats res)) = min u64_max (sum_list (result_state_weights LP_VM_LUA res))"
    "unat (st_sample_c (res_stats res)) = min u64_max (sum_list (result_state_weights LP_VM_C res))"
    "unat (st_sample_gc (res_stats res)) = min u64_max (sum_list (result_state_weights LP_VM_GC res))"
proof -
  obtain p s where p: "res_cpu res = Some p" "cpu_profile_ok p" "res_stats res = lp_cpu_profile_merge_stats p s"
    using assms by (auto simp: result_ok_def)
  then have "cpu_shape_ok p" "cpu_counts_ok p" by (simp_all add: cpu_profile_ok_def)
  then show "unat (st_sample_host (res_stats res)) = min u64_max (sum_list (result_state_weights LP_VM_HOST res))"
    "unat (st_sample_lua (res_stats res)) = min u64_max (sum_list (result_state_weights LP_VM_LUA res))"
    "unat (st_sample_c (res_stats res)) = min u64_max (sum_list (result_state_weights LP_VM_C res))"
    "unat (st_sample_gc (res_stats res)) = min u64_max (sum_list (result_state_weights LP_VM_GC res))"
    using p by (simp_all add: result_state_weights_sum [OF assms(2)] cpu_counts_ok_def lp_cpu_profile_merge_stats_def Let_def)
qed

lemma memory_result_sums:
  assumes "result_ok res" and "res_kind res = LP_COLLECTOR_MEMORY"
  shows "unat (st_memory_samples (res_stats res)) = min u64_max (sum_list (result_memory_field msv_sample_count res)) \<and>
    unat (st_sampled_alloc_bytes (res_stats res)) = min u64_max (sum_list (result_memory_field msv_sampled_bytes res)) \<and>
    unat (st_alloc_space (res_stats res)) = min u64_max (sum_list (result_memory_field msv_alloc_space res)) \<and>
    unat (st_alloc_objects (res_stats res)) = min u64_max (sum_list (result_memory_field msv_alloc_objects res)) \<and>
    (st_alloc_space (res_stats res) \<noteq> UINT64_MAX \<longrightarrow>
      unat (st_inuse_space (res_stats res)) = sum_list (result_memory_field msv_inuse_space res)) \<and>
    (st_alloc_objects (res_stats res) \<noteq> UINT64_MAX \<longrightarrow>
      unat (st_inuse_objects (res_stats res)) = sum_list (result_memory_field msv_inuse_objects res))"
proof -
  obtain p s where "res_memory res = Some p" "memory_profile_ok p" "res_stats res = lp_memory_profile_merge_stats p s"
    using assms by (auto simp: result_ok_def)
  then show ?thesis
    using assms(2) memory_ok_totals [of p] memory_ok_inuse [of p]
    by (simp add: result_memory_field_profile lp_memory_profile_merge_stats_def Let_def)
qed

text \<open>
  C24: the CPU result adds up. After any history, a successful stop of the CPU recorder hands
  out a result whose \<open>samples\<close> is the sum of the weights of all its samples, and the sum of
  the four counters per VM state, each up to the 64-bit maximum.
\<close>

theorem stopped_cpu_result_adds_up:
  assumes "lp_runtime_new True main_state ops = Some rt" and "host_readable (rt_host_ops rt)"
    and "\<forall>act\<in>set acts. op_readable act"
    and "runtime_history d acts (rt, seed) = Some ((rt1, seed1), gens)"
    and "lp_runtime_stop d rt1 state LP_COLLECTOR_CPU g = Some (rt2, LP_OK, Some res)"
  shows "unat (st_samples (res_stats res)) = min u64_max (sum_list (result_cpu_weights res)) \<and>
    unat (st_samples (res_stats res)) =
      min u64_max (unat (st_sample_host (res_stats res)) + unat (st_sample_lua (res_stats res)) +
        unat (st_sample_c (res_stats res)) + unat (st_sample_gc (res_stats res)))"
proof -
  have "result_ok res \<and> res_kind res = LP_COLLECTOR_CPU"
    using history_host_ops [OF lp_runtime_new_ok [OF assms(1)] assms(2-4)] assms(2,5)
    by (metis stopped_result_ok)
  then show ?thesis using cpu_result_sums by blast
qed

text \<open>
  C23: the memory result adds up. After any history, a successful stop of the memory recorder
  hands out a result whose allocation totals (samples, sampled bytes, space, objects) are the sums
  over its samples, up to the 64-bit maximum, and whose in-use totals are the exact sums as long as the allocation totals stayed
  below the maximum, although the live table is gone by then.
\<close>

theorem stopped_memory_result_adds_up:
  assumes "lp_runtime_new True main_state ops = Some rt" and "host_readable (rt_host_ops rt)"
    and "\<forall>act\<in>set acts. op_readable act"
    and "runtime_history d acts (rt, seed) = Some ((rt1, seed1), gens)"
    and "lp_runtime_stop d rt1 state LP_COLLECTOR_MEMORY g = Some (rt2, LP_OK, Some res)"
  shows "unat (st_memory_samples (res_stats res)) = min u64_max (sum_list (result_memory_field msv_sample_count res)) \<and>
    unat (st_sampled_alloc_bytes (res_stats res)) = min u64_max (sum_list (result_memory_field msv_sampled_bytes res)) \<and>
    unat (st_alloc_space (res_stats res)) = min u64_max (sum_list (result_memory_field msv_alloc_space res)) \<and>
    unat (st_alloc_objects (res_stats res)) = min u64_max (sum_list (result_memory_field msv_alloc_objects res)) \<and>
    (st_alloc_space (res_stats res) \<noteq> UINT64_MAX \<longrightarrow>
      unat (st_inuse_space (res_stats res)) = sum_list (result_memory_field msv_inuse_space res)) \<and>
    (st_alloc_objects (res_stats res) \<noteq> UINT64_MAX \<longrightarrow>
      unat (st_inuse_objects (res_stats res)) = sum_list (result_memory_field msv_inuse_objects res))"
proof -
  have "result_ok res \<and> res_kind res = LP_COLLECTOR_MEMORY"
    using history_host_ops [OF lp_runtime_new_ok [OF assms(1)] assms(2-4)] assms(2,5)
    by (metis stopped_result_ok)
  then show ?thesis using memory_result_sums by blast
qed

section \<open>Witnesses\<close>

definition example_memory_config :: lp_collector_config where
  "example_memory_config = \<lparr>cfg_kind = LP_COLLECTOR_MEMORY, cfg_sample_hz = 0, cfg_sample_bytes = 1, cfg_track_free = True\<rparr>"

lemma example_memory_start:
  "\<exists>rt1 seed1. lp_runtime_start trivial_doubles example_env example_runtime 5 NULL example_memory_config =
     Some (rt1, seed1, LP_OK, Some 1)"
proof -
  obtain p where "lp_memory_profile_new trivial_doubles True True 1 (5 XOR 8192 XOR 1) True = Some p"
    by (simp add: lp_memory_profile_new_def case_prod_beta)
  then show ?thesis
    by (simp add: lp_runtime_start_def example_runtime_def example_memory_config_def example_env_def Let_def
        collector_def zero_slot_def new_profiles_def bump_generation_def)
qed

text \<open>A recorder started from the example runtime, and its stop.\<close>

lemma example_stop:
  assumes "lp_runtime_start d env example_runtime 5 NULL config = Some (rt1, seed1, LP_OK, Some g)"
  shows "runtime_history d [Start_Op env NULL config] (example_runtime, 5) = Some ((rt1, seed1), [g])"
    and "\<exists>rt2 res. lp_runtime_stop d rt1 NULL (cfg_kind config) g = Some (rt2, LP_OK, Some res)"
proof -
  show "runtime_history d [Start_Op env NULL config] (example_runtime, 5) = Some ((rt1, seed1), [g])"
    using assms by simp
  have go: "start_refused example_runtime config = None"
    using start_refused_result [of example_runtime config _ d env 5 NULL] assms
    by (cases "start_refused example_runtime config") (auto simp: start_refused_def split: if_splits)
  have k: "valid_kind (cfg_kind config)" and nc: "\<not> rt_closing example_runtime"
    using go by (auto simp: start_refused_def split: if_splits)
  have "runtime_ok rt1 \<and> rt_host_ops rt1 = rt_host_ops example_runtime \<and> stop_refused rt1 (cfg_kind config) g = None"
    by (rule start_cases [OF example_runtime_ok example_host_readable go, of d env 5 NULL])
      (use assms k nc in \<open>auto simp: stop_refused_def bump_generation_def\<close>)
  then have s: "runtime_ok rt1" "host_readable (rt_host_ops rt1)" "stop_refused rt1 (cfg_kind config) g = None"
    using example_host_readable by auto
  show "\<exists>rt2 res. lp_runtime_stop d rt1 NULL (cfg_kind config) g = Some (rt2, LP_OK, Some res)"
    by (rule stop_cases [OF s, of d NULL]) blast
qed

lemma stopped_cpu_result_adds_up_witness:
  "\<exists>rt1 seed1 rt2 res.
     runtime_history trivial_doubles [Start_Op example_env NULL example_config] (example_runtime, 5) =
       Some ((rt1, seed1), [1]) \<and>
     lp_runtime_stop trivial_doubles rt1 NULL LP_COLLECTOR_CPU 1 = Some (rt2, LP_OK, Some res) \<and>
     unat (st_samples (res_stats res)) = min u64_max (sum_list (result_cpu_weights res))"
proof -
  obtain rt1 where rt1: "lp_runtime_start trivial_doubles example_env example_runtime 5 NULL example_config =
      Some (rt1, 5, LP_OK, Some 1)" by (rule example_start)
  from example_stop(2) [OF rt1] obtain rt2 res where
    stop: "lp_runtime_stop trivial_doubles rt1 NULL LP_COLLECTOR_CPU 1 = Some (rt2, LP_OK, Some res)"
    by (auto simp: example_config_def)
  show ?thesis
    using stopped_cpu_result_adds_up [OF example_runtime_new example_host_readable _ example_stop(1) [OF rt1] stop]
      example_stop(1) [OF rt1] stop by auto
qed

lemma stopped_memory_result_adds_up_witness:
  "\<exists>rt1 seed1 rt2 res.
     runtime_history trivial_doubles [Start_Op example_env NULL example_memory_config] (example_runtime, 5) =
       Some ((rt1, seed1), [1]) \<and>
     lp_runtime_stop trivial_doubles rt1 NULL LP_COLLECTOR_MEMORY 1 = Some (rt2, LP_OK, Some res) \<and>
     unat (st_alloc_space (res_stats res)) = min u64_max (sum_list (result_memory_field msv_alloc_space res))"
proof -
  obtain rt1 seed1 where rt1: "lp_runtime_start trivial_doubles example_env example_runtime 5 NULL example_memory_config =
      Some (rt1, seed1, LP_OK, Some 1)" using example_memory_start by blast
  from example_stop(2) [OF rt1] obtain rt2 res where
    stop: "lp_runtime_stop trivial_doubles rt1 NULL LP_COLLECTOR_MEMORY 1 = Some (rt2, LP_OK, Some res)"
    by (auto simp: example_memory_config_def)
  show ?thesis
    using stopped_memory_result_adds_up [OF example_runtime_new example_host_readable _ example_stop(1) [OF rt1] stop]
      example_stop(1) [OF rt1] stop by auto
qed

end
