(* ===== verification/Native_Symbol.thy ===== *)
theory Native_Symbol
  imports Luaprof_Prelude
begin

text \<open>
  The native symbol resolver of \<open>src/native_symbol.c\<close>: the mapping an address lies in, and the
  name of the nearest function symbol of the ELF file, for both ELF classes. A mapped file is
  its list of bytes. Every read of it goes through \<open>peek\<close>, which is \<open>None\<close> when it would leave
  the file; the outer option of the functions below is \<open>None\<close> exactly when some read did. What
  the dynamic linker, \<open>readlink\<close>, \<open>sysconf\<close>, \<open>dladdr\<close> and the file system answer is the
  parameter \<open>native_env\<close>.

  Shown here: no file content makes the parser read outside the mapped file, the symbol found
  is the nearest one that contains the address, and a mapping that is reported contains it.
\<close>

section \<open>Reading a file\<close>

text \<open>An unsigned field of \<open>n\<close> bytes, least significant first.\<close>

definition peek :: "bytes \<Rightarrow> nat \<Rightarrow> nat \<Rightarrow> nat option" where
  "peek data off n =
     (if off + n \<le> length data
      then Some (foldr (\<lambda>b v. unat b + 256 * v) (take n (drop off data)) 0) else None)"

text \<open>The fields of \<open>Elf64_Ehdr\<close>, \<open>Elf64_Shdr\<close> and \<open>Elf64_Sym\<close> (and the 32-bit ones) that the code reads.\<close>

record elf_section =
  sh_type :: nat
  sh_offset :: nat
  sh_size :: nat
  sh_link :: nat
  sh_entsize :: nat

record elf_symbol =
  st_name :: nat
  st_info :: nat
  st_shndx :: nat
  st_value :: nat
  st_size :: nat

text \<open>The layout of a class: the sizes of the structs, and offset and width of each field.\<close>

record elf_layout =
  el_ehdr :: nat
  el_shdr :: nat
  el_sym :: nat
  el_shoff :: "nat \<times> nat"
  el_shentsize :: "nat \<times> nat"
  el_shnum :: "nat \<times> nat"
  el_sh_type :: "nat \<times> nat"
  el_sh_offset :: "nat \<times> nat"
  el_sh_size :: "nat \<times> nat"
  el_sh_link :: "nat \<times> nat"
  el_sh_entsize :: "nat \<times> nat"
  el_st_name :: "nat \<times> nat"
  el_st_info :: "nat \<times> nat"
  el_st_shndx :: "nat \<times> nat"
  el_st_value :: "nat \<times> nat"
  el_st_size :: "nat \<times> nat"
  el_max :: nat

definition elf64 :: elf_layout where
  "elf64 = \<lparr>el_ehdr = 64, el_shdr = 64, el_sym = 24, el_shoff = (40, 8), el_shentsize = (58, 2),
     el_shnum = (60, 2), el_sh_type = (4, 4), el_sh_offset = (24, 8), el_sh_size = (32, 8),
     el_sh_link = (40, 4), el_sh_entsize = (56, 8), el_st_name = (0, 4), el_st_info = (4, 1),
     el_st_shndx = (6, 2), el_st_value = (8, 8), el_st_size = (16, 8), el_max = 2 ^ 64 - 1\<rparr>"

definition elf32 :: elf_layout where
  "elf32 = \<lparr>el_ehdr = 52, el_shdr = 40, el_sym = 16, el_shoff = (32, 4), el_shentsize = (46, 2),
     el_shnum = (48, 2), el_sh_type = (4, 4), el_sh_offset = (16, 4), el_sh_size = (20, 4),
     el_sh_link = (24, 4), el_sh_entsize = (36, 4), el_st_name = (0, 4), el_st_info = (12, 1),
     el_st_shndx = (14, 2), el_st_value = (4, 4), el_st_size = (8, 4), el_max = 2 ^ 32 - 1\<rparr>"

definition elf_field :: "bytes \<Rightarrow> nat \<Rightarrow> nat \<times> nat \<Rightarrow> nat option" where
  "elf_field data off f = peek data (off + fst f) (snd f)"

definition read_section :: "elf_layout \<Rightarrow> bytes \<Rightarrow> nat \<Rightarrow> elf_section option" where
  "read_section l data off =
     (case (elf_field data off (el_sh_type l), elf_field data off (el_sh_offset l), elf_field data off (el_sh_size l),
            elf_field data off (el_sh_link l), elf_field data off (el_sh_entsize l)) of
        (Some t, Some ofs, Some sz, Some link, Some entsize) \<Rightarrow>
          Some \<lparr>sh_type = t, sh_offset = ofs, sh_size = sz, sh_link = link, sh_entsize = entsize\<rparr>
      | _ \<Rightarrow> None)"

definition read_symbol :: "elf_layout \<Rightarrow> bytes \<Rightarrow> nat \<Rightarrow> elf_symbol option" where
  "read_symbol l data off =
     (case (elf_field data off (el_st_name l), elf_field data off (el_st_info l), elf_field data off (el_st_shndx l),
            elf_field data off (el_st_value l), elf_field data off (el_st_size l)) of
        (Some name, Some info, Some shndx, Some v, Some sz) \<Rightarrow>
          Some \<lparr>st_name = name, st_info = info, st_shndx = shndx, st_value = v, st_size = sz\<rparr>
      | _ \<Rightarrow> None)"

section \<open>The nearest symbol\<close>

definition range_valid :: "nat \<Rightarrow> nat \<Rightarrow> nat \<Rightarrow> nat \<Rightarrow> bool" where
  "range_valid offset count item_size file_size \<longleftrightarrow>
     item_size \<noteq> 0 \<and> offset \<le> file_size \<and> count \<le> (file_size - offset) div item_size"

text \<open>\<open>strings\<close> is the offset of the string section in the file.\<close>

definition valid_string :: "bytes \<Rightarrow> nat \<Rightarrow> nat \<Rightarrow> nat \<Rightarrow> bool" where
  "valid_string data strings strings_size offset \<longleftrightarrow>
     offset < strings_size \<and> 0 \<in> set (take (strings_size - offset) (drop (strings + offset) data))"

abbreviation (input) SHT_SYMTAB :: nat where "SHT_SYMTAB \<equiv> 2"
abbreviation (input) SHT_DYNSYM :: nat where "SHT_DYNSYM \<equiv> 11"
abbreviation (input) STT_FUNC :: nat where "STT_FUNC \<equiv> 2"
abbreviation (input) STT_GNU_IFUNC :: nat where "STT_GNU_IFUNC \<equiv> 10"

text \<open>The first test of the inner loop, and the second one without the comparison to the best.\<close>

definition is_function :: "elf_symbol \<Rightarrow> nat \<Rightarrow> bool" where
  "is_function s address \<longleftrightarrow>
     (st_info s mod 16 = STT_FUNC \<or> st_info s mod 16 = STT_GNU_IFUNC) \<and>
     st_name s \<noteq> 0 \<and> st_shndx s \<noteq> 0 \<and> st_value s \<le> address"

definition covers :: "elf_symbol \<Rightarrow> nat \<Rightarrow> bool" where
  "covers s address \<longleftrightarrow> st_size s = 0 \<or> address - st_value s < st_size s"

text \<open>
  The inner loop over the symbols of one table, from their indices still to come. The state is
  \<open>best\<close>, an offset in the file, and \<open>best_distance\<close>; the flag tells that the function returned.
\<close>

primrec scan_symbols ::
  "elf_layout \<Rightarrow> bytes \<Rightarrow> nat \<Rightarrow> nat \<Rightarrow> nat \<Rightarrow> nat \<Rightarrow> nat list \<Rightarrow> nat option \<times> nat \<Rightarrow>
   (bool \<times> nat option \<times> nat) option" where
  "scan_symbols l data strings strings_size symbols address [] state = Some (False, state)"
| "scan_symbols l data strings strings_size symbols address (j # js) state =
     (case read_symbol l data (symbols + j * el_sym l) of
        None \<Rightarrow> None
      | Some s \<Rightarrow>
          if \<not> is_function s address
          then scan_symbols l data strings strings_size symbols address js state
          else
            let distance = address - st_value s
            in if \<not> covers s address \<or> distance > snd state \<or>
                  \<not> valid_string data strings strings_size (st_name s)
               then scan_symbols l data strings strings_size symbols address js state
               else if distance = 0 then Some (True, Some (strings + st_name s), distance)
               else scan_symbols l data strings strings_size symbols address js
                      (Some (strings + st_name s), distance))"

text \<open>The outer loop over the sections.\<close>

primrec scan_sections ::
  "elf_layout \<Rightarrow> bytes \<Rightarrow> nat \<Rightarrow> nat \<Rightarrow> nat \<Rightarrow> nat list \<Rightarrow> nat option \<times> nat \<Rightarrow> nat option option" where
  "scan_sections l data shoff shnum address [] state = Some (fst state)"
| "scan_sections l data shoff shnum address (i # is) state =
     (case read_section l data (shoff + i * el_shdr l) of
        None \<Rightarrow> None
      | Some section \<Rightarrow>
          if (sh_type section \<noteq> SHT_SYMTAB \<and> sh_type section \<noteq> SHT_DYNSYM) \<or>
             sh_entsize section \<noteq> el_sym l \<or> sh_link section \<ge> shnum \<or>
             \<not> range_valid (sh_offset section) (sh_size section div el_sym l) (el_sym l) (length data)
          then scan_sections l data shoff shnum address is state
          else
            case read_section l data (shoff + sh_link section * el_shdr l) of
              None \<Rightarrow> None
            | Some strings_section \<Rightarrow>
                if \<not> range_valid (sh_offset strings_section) (sh_size strings_section) 1 (length data)
                then scan_sections l data shoff shnum address is state
                else
                  case scan_symbols l data (sh_offset strings_section) (sh_size strings_section)
                         (sh_offset section) address [0..<sh_size section div el_sym l] state of
                    None \<Rightarrow> None
                  | Some (returned, state') \<Rightarrow>
                      if returned then Some (fst state')
                      else scan_sections l data shoff shnum address is state')"

definition find_elf_symbol :: "elf_layout \<Rightarrow> bytes \<Rightarrow> nat \<Rightarrow> nat option option" where
  "find_elf_symbol l data address =
     (if length data < el_ehdr l then Some None
      else
        case (elf_field data 0 (el_shentsize l), elf_field data 0 (el_shoff l), elf_field data 0 (el_shnum l)) of
          (Some shentsize, Some shoff, Some shnum) \<Rightarrow>
            if shentsize \<noteq> el_shdr l \<or> \<not> range_valid shoff shnum (el_shdr l) (length data)
            then Some None
            else scan_sections l data shoff shnum address [0..<shnum] (None, el_max l)
        | _ \<Rightarrow> None)"

text \<open>The two functions of the source, which differ in the structs and in the width of the address.\<close>

definition find_elf64_symbol :: "bytes \<Rightarrow> u64 \<Rightarrow> nat option option" where
  "find_elf64_symbol data address = find_elf_symbol elf64 data (unat address)"

definition find_elf32_symbol :: "bytes \<Rightarrow> u32 \<Rightarrow> nat option option" where
  "find_elf32_symbol data address = find_elf_symbol elf32 data (unat address)"

section \<open>Resolving an address\<close>

record lp_native_symbol =
  ns_name :: bytes
  ns_path :: bytes
  ns_mapping_start :: u64
  ns_mapping_limit :: u64
  ns_mapping_offset :: u64
  ns_has_mapping :: bool

definition LP_NATIVE_NAME_CAPACITY :: nat where "LP_NATIVE_NAME_CAPACITY = 256"
definition LP_NATIVE_PATH_CAPACITY :: nat where "LP_NATIVE_PATH_CAPACITY = 4096"

definition zero_native_symbol :: lp_native_symbol where
  "zero_native_symbol = \<lparr>ns_name = [], ns_path = [], ns_mapping_start = 0, ns_mapping_limit = 0,
     ns_mapping_offset = 0, ns_has_mapping = False\<rparr>"

text \<open>\<open>copy_text\<close> from a string of which the list is the bytes before its terminator.\<close>

definition copy_text :: "nat \<Rightarrow> bytes option \<Rightarrow> bytes" where
  "copy_text capacity source =
     (case source of None \<Rightarrow> []
      | Some text \<Rightarrow> if length text \<ge> capacity then take (capacity - 1) text else text)"

record elf_phdr =
  ph_load :: bool
  ph_vaddr :: u64
  ph_memsz :: u64
  ph_offset :: u64

record phdr_info =
  dlpi_addr :: u64
  dlpi_name :: "bytes option"
  dlpi_phdr :: "elf_phdr list"

record dl_info =
  dli_fname :: "bytes option"
  dli_sname :: "bytes option"
  dli_fbase :: u64

text \<open>
  What the system answers: the page size, the loaded objects in their order, the target of
  \<open>/proc/self/exe\<close> (not empty; \<open>readlink\<close> cuts it at the size it is given), \<open>dladdr\<close>, and the content of a file
  that can be opened and mapped.
\<close>

record native_env =
  ne_page_size :: "64 word"
  ne_objects :: "phdr_info list"
  ne_exe :: "bytes option"
  ne_dladdr :: "pointer \<Rightarrow> dl_info option"
  ne_file :: "bytes \<Rightarrow> bytes option"

text \<open>The loop over the program headers: whether one contains the address, and the extent.\<close>

definition segment_step :: "u64 \<Rightarrow> u64 \<Rightarrow> u64 \<Rightarrow> elf_phdr \<Rightarrow> bool \<times> u64 \<times> u64 \<times> u64 \<Rightarrow> bool \<times> u64 \<times> u64 \<times> u64" where
  "segment_step base address page_mask header state =
     (case state of (contains, start, limit, offset) \<Rightarrow>
        if \<not> ph_load header then state
        else
          let segment_start = base + (ph_vaddr header AND NOT page_mask);
              segment_limit = base + ((ph_vaddr header + ph_memsz header + page_mask) AND NOT page_mask);
              contains = (contains \<or> (address \<ge> segment_start \<and> address < segment_limit));
              (start, offset) = (if segment_start < start then (segment_start, ph_offset header AND NOT page_mask)
                                 else (start, offset));
              limit = (if segment_limit > limit then segment_limit else limit)
          in (contains, start, limit, offset))"

text \<open>\<open>find_mapping\<close>: \<open>None\<close> for the return value 0, else the symbol and the load bias.\<close>

definition find_mapping :: "native_env \<Rightarrow> u64 \<Rightarrow> phdr_info \<Rightarrow> lp_native_symbol \<Rightarrow> (lp_native_symbol \<times> u64) option" where
  "find_mapping env address info symbol =
     (let page_mask = (if 0 <s ne_page_size env then ne_page_size env - 1 else 4095);
          (contains, start, limit, offset) =
            fold (segment_step (dlpi_addr info) address page_mask) (dlpi_phdr info) (False, UINT64_MAX, 0, 0)
      in if \<not> contains then None
         else
           let s1 = symbol\<lparr>ns_mapping_start := start, ns_mapping_limit := limit, ns_mapping_offset := offset,
                 ns_has_mapping := (start \<noteq> UINT64_MAX \<and> limit > start)\<rparr>;
               s2 = (case dlpi_name info of
                       Some (c # cs) \<Rightarrow> s1\<lparr>ns_path := copy_text LP_NATIVE_PATH_CAPACITY (Some (c # cs))\<rparr>
                     | _ \<Rightarrow> (case ne_exe env of None \<Rightarrow> s1 | Some path \<Rightarrow> s1\<lparr>ns_path := take (LP_NATIVE_PATH_CAPACITY - 1) path\<rparr>))
           in Some (s2, dlpi_addr info))"

text \<open>\<open>dl_iterate_phdr\<close> calls it for one object after the other until it returns 1.\<close>

primrec iterate_mappings ::
  "native_env \<Rightarrow> u64 \<Rightarrow> phdr_info list \<Rightarrow> lp_native_symbol \<Rightarrow> (lp_native_symbol \<times> u64) option" where
  "iterate_mappings env address [] symbol = None"
| "iterate_mappings env address (info # infos) symbol =
     (case find_mapping env address info symbol of
        None \<Rightarrow> iterate_mappings env address infos symbol
      | Some r \<Rightarrow> Some r)"

text \<open>The text at an offset of the file, up to its terminator; \<open>None\<close> if it has none.\<close>

definition file_text :: "bytes \<Rightarrow> nat \<Rightarrow> bytes option" where
  "file_text data off =
     (if 0 \<in> set (drop off data) then Some (takeWhile (\<lambda>b. b \<noteq> 0) (drop off data)) else None)"

text \<open>\<open>EI_CLASS\<close> is byte 4 of the identification; an empty file fails the test of \<open>st_size\<close>.\<close>

definition resolve_elf_name :: "native_env \<Rightarrow> u64 \<Rightarrow> lp_native_symbol \<Rightarrow> lp_native_symbol option" where
  "resolve_elf_name env relative_address symbol =
     (if ns_path symbol = [] then Some symbol
      else case ne_file env (ns_path symbol) of
             None \<Rightarrow> Some symbol
           | Some data \<Rightarrow>
               if data = [] then Some symbol
               else
                 let name = (if length data \<ge> 16 \<and> take 4 data = [0x7f, 0x45, 0x4c, 0x46]
                             then if data ! 4 = 2 then find_elf64_symbol data relative_address
                                  else if data ! 4 = 1 \<and> relative_address \<le> 0xffffffff
                                  then find_elf32_symbol data (ucast relative_address)
                                  else Some None
                             else Some None)
                 in case name of
                      None \<Rightarrow> None
                    | Some None \<Rightarrow> Some symbol
                    | Some (Some off) \<Rightarrow>
                        map_option (\<lambda>text. symbol\<lparr>ns_name := copy_text LP_NATIVE_NAME_CAPACITY (Some text)\<rparr>)
                          (file_text data off))"

definition lp_native_symbol_resolve :: "native_env \<Rightarrow> pointer \<Rightarrow> (bool \<times> lp_native_symbol) option" where
  "lp_native_symbol_resolve env address =
     (if address = NULL then Some (False, zero_native_symbol)
      else
        let found = iterate_mappings env address (ne_objects env) zero_native_symbol;
            (symbol, load_bias) = (case found of None \<Rightarrow> (zero_native_symbol, 0) | Some r \<Rightarrow> r);
            (symbol, load_bias) =
              (case ne_dladdr env address of
                 None \<Rightarrow> (symbol, load_bias)
               | Some info \<Rightarrow>
                   (let s1 = (if ns_path symbol = [] \<and> dli_fname info \<noteq> None
                              then symbol\<lparr>ns_path := copy_text LP_NATIVE_PATH_CAPACITY (dli_fname info)\<rparr>
                              else symbol);
                        s2 = (if dli_sname info \<noteq> None
                              then s1\<lparr>ns_name := copy_text LP_NATIVE_NAME_CAPACITY (dli_sname info)\<rparr>
                              else s1)
                    in (s2, if found = None \<and> dli_fbase info \<noteq> 0 then dli_fbase info else load_bias)))
        in map_option (\<lambda>symbol. (ns_name symbol \<noteq> [] \<or> ns_has_mapping symbol, symbol))
             (if ns_name symbol = [] then resolve_elf_name env (address - load_bias) symbol else Some symbol))"

section \<open>The symbols that are considered\<close>

text \<open>
  Distance and name offset of every symbol of one table that contains the address, and of all
  tables the code looks at; the reads are those of the code, without their order or the best so far.
\<close>

definition table_candidates :: "elf_layout \<Rightarrow> bytes \<Rightarrow> nat \<Rightarrow> nat \<Rightarrow> nat \<Rightarrow> nat \<Rightarrow> nat list \<Rightarrow> (nat \<times> nat) list" where
  "table_candidates l data strings strings_size symbols address js =
     concat (map (\<lambda>j. case read_symbol l data (symbols + j * el_sym l) of
         None \<Rightarrow> []
       | Some s \<Rightarrow>
           if is_function s address \<and> covers s address \<and> valid_string data strings strings_size (st_name s)
           then [(address - st_value s, strings + st_name s)] else []) js)"

definition section_candidates :: "elf_layout \<Rightarrow> bytes \<Rightarrow> nat \<Rightarrow> nat \<Rightarrow> nat \<Rightarrow> nat \<Rightarrow> (nat \<times> nat) list" where
  "section_candidates l data shoff shnum address i =
     (case read_section l data (shoff + i * el_shdr l) of
        None \<Rightarrow> []
      | Some section \<Rightarrow>
          if (sh_type section = SHT_SYMTAB \<or> sh_type section = SHT_DYNSYM) \<and>
             sh_entsize section = el_sym l \<and> sh_link section < shnum \<and>
             range_valid (sh_offset section) (sh_size section div el_sym l) (el_sym l) (length data)
          then (case read_section l data (shoff + sh_link section * el_shdr l) of
                  None \<Rightarrow> []
                | Some strings \<Rightarrow>
                    if range_valid (sh_offset strings) (sh_size strings) 1 (length data)
                    then table_candidates l data (sh_offset strings) (sh_size strings) (sh_offset section) address
                           [0..<sh_size section div el_sym l]
                    else [])
          else [])"

definition elf_candidates :: "elf_layout \<Rightarrow> bytes \<Rightarrow> nat \<Rightarrow> (nat \<times> nat) list" where
  "elf_candidates l data address =
     (if length data < el_ehdr l then []
      else
        case (elf_field data 0 (el_shentsize l), elf_field data 0 (el_shoff l), elf_field data 0 (el_shnum l)) of
          (Some shentsize, Some shoff, Some shnum) \<Rightarrow>
            if shentsize = el_shdr l \<and> range_valid shoff shnum (el_shdr l) (length data)
            then concat (map (section_candidates l data shoff shnum address) [0..<shnum]) else []
        | _ \<Rightarrow> [])"

text \<open>The best of what was seen: the initial value, or a candidate of least distance.\<close>

definition best_of :: "nat \<Rightarrow> (nat \<times> nat) list \<Rightarrow> nat option \<times> nat \<Rightarrow> bool" where
  "best_of limit seen state \<longleftrightarrow>
     (case fst state of
        None \<Rightarrow> seen = [] \<and> snd state = limit
      | Some off \<Rightarrow> (snd state, off) \<in> set seen \<and> (\<forall>c\<in>set seen. snd state \<le> fst c))"

definition nearest :: "(nat \<times> nat) list \<Rightarrow> nat option \<Rightarrow> bool" where
  "nearest cands best \<longleftrightarrow>
     (case best of None \<Rightarrow> cands = [] | Some off \<Rightarrow> \<exists>d. (d, off) \<in> set cands \<and> (\<forall>c\<in>set cands. d \<le> fst c))"

lemma best_of_nearest: "best_of limit seen state \<Longrightarrow> nearest seen (fst state)"
  by (auto simp: best_of_def nearest_def split: option.splits)

definition layout_ok :: "elf_layout \<Rightarrow> bool" where
  "layout_ok l \<longleftrightarrow>
     (\<forall>f\<in>{el_shoff l, el_shentsize l, el_shnum l}. fst f + snd f \<le> el_ehdr l) \<and>
     (\<forall>f\<in>{el_sh_type l, el_sh_offset l, el_sh_size l, el_sh_link l, el_sh_entsize l}. fst f + snd f \<le> el_shdr l) \<and>
     (\<forall>f\<in>{el_st_name l, el_st_info l, el_st_shndx l, el_st_value l, el_st_size l}. fst f + snd f \<le> el_sym l)"

lemma layouts_ok [simp]: "layout_ok elf64" "layout_ok elf32"
  by (simp_all add: layout_ok_def elf64_def elf32_def)

lemma field_in_file: "off + (fst f + snd f) \<le> length data \<Longrightarrow> \<exists>v. elf_field data off f = Some v"
  by (simp add: elf_field_def peek_def)

lemma item_in_range:
  assumes "range_valid offset count item file_size" and "i < count" and "width \<le> item"
  shows "offset + i * item + width \<le> file_size"
proof -
  have "(i + 1) * item \<le> count * item" using assms(2) by (intro mult_right_mono) simp_all
  also have "count * item \<le> (file_size - offset) div item * item"
    using assms(1) by (intro mult_right_mono) (simp_all add: range_valid_def)
  also have "\<dots> \<le> file_size - offset" by (rule div_times_less_eq_dividend)
  finally have "i * item + item \<le> file_size - offset" by simp
  moreover have "offset \<le> file_size" using assms(1) by (simp add: range_valid_def)
  ultimately show ?thesis using assms(3) by linarith
qed

lemma read_section_in_file:
  assumes l: "layout_ok l" and in_file: "off + el_shdr l \<le> length data"
  shows "\<exists>s. read_section l data off = Some s"
proof -
  have "off + (fst f + snd f) \<le> length data"
    if "f \<in> {el_sh_type l, el_sh_offset l, el_sh_size l, el_sh_link l, el_sh_entsize l}" for f
    using l in_file that unfolding layout_ok_def by (meson add_left_mono le_trans)
  then have "\<exists>v. elf_field data off f = Some v"
    if "f \<in> {el_sh_type l, el_sh_offset l, el_sh_size l, el_sh_link l, el_sh_entsize l}" for f
    using field_in_file that by blast
  then obtain a b c d e where "elf_field data off (el_sh_type l) = Some a" "elf_field data off (el_sh_offset l) = Some b"
    "elf_field data off (el_sh_size l) = Some c" "elf_field data off (el_sh_link l) = Some d"
    "elf_field data off (el_sh_entsize l) = Some e" by (meson insertCI)
  then show ?thesis by (simp add: read_section_def)
qed

lemma read_symbol_in_file:
  assumes l: "layout_ok l" and in_file: "off + el_sym l \<le> length data"
  shows "\<exists>s. read_symbol l data off = Some s"
proof -
  have "off + (fst f + snd f) \<le> length data"
    if "f \<in> {el_st_name l, el_st_info l, el_st_shndx l, el_st_value l, el_st_size l}" for f
    using l in_file that unfolding layout_ok_def by (meson add_left_mono le_trans)
  then have "\<exists>v. elf_field data off f = Some v"
    if "f \<in> {el_st_name l, el_st_info l, el_st_shndx l, el_st_value l, el_st_size l}" for f
    using field_in_file that by blast
  then obtain a b c d e where "elf_field data off (el_st_name l) = Some a" "elf_field data off (el_st_info l) = Some b"
    "elf_field data off (el_st_shndx l) = Some c" "elf_field data off (el_st_value l) = Some d"
    "elf_field data off (el_st_size l) = Some e" by (meson insertCI)
  then show ?thesis by (simp add: read_symbol_def)
qed

lemma best_of_take:
  assumes "best_of limit seen state" and "d \<le> snd state"
  shows "best_of limit (seen @ [(d, off)]) (Some off, d)"
  using assms by (auto simp: best_of_def split: option.splits)

lemma best_of_skip:
  assumes "best_of limit seen state" and "snd state < d" and "d \<le> limit"
  shows "best_of limit (seen @ [(d, off)]) state"
  using assms by (auto simp: best_of_def split: option.splits)

lemma scan_symbols_best:
  assumes l: "layout_ok l" and a: "address \<le> el_max l"
    and in_file: "\<forall>j\<in>set js. symbols + j * el_sym l + el_sym l \<le> length data"
    and "best_of (el_max l) seen state"
  shows "\<exists>ret state'. scan_symbols l data strings strings_size symbols address js state = Some (ret, state') \<and>
    (if ret then \<exists>off. state' = (Some off, 0) \<and>
         (0, off) \<in> set (table_candidates l data strings strings_size symbols address js)
     else best_of (el_max l) (seen @ table_candidates l data strings strings_size symbols address js) state')"
  using in_file assms(4)
proof (induction js arbitrary: state seen)
  case Nil
  then show ?case by (intro exI [of _ False] exI [of _ state]) (simp add: table_candidates_def)
next
  case (Cons j js)
  let ?cands = "table_candidates l data strings strings_size symbols address"
  obtain s where s: "read_symbol l data (symbols + j * el_sym l) = Some s"
    using read_symbol_in_file [OF l, of "symbols + j * el_sym l" data] Cons.prems(1) by auto
  let ?d = "address - st_value s" and ?off = "strings + st_name s"
  define here where "here = ?cands [j]"
  have cands: "?cands (j # js) = here @ ?cands js" by (simp add: here_def table_candidates_def)
  have in_rest: "\<forall>k\<in>set js. symbols + k * el_sym l + el_sym l \<le> length data"
    using Cons.prems(1) by simp
  have rest: "\<exists>ret state'. scan_symbols l data strings strings_size symbols address js st = Some (ret, state') \<and>
    (if ret then \<exists>off. state' = (Some off, 0) \<and> (0, off) \<in> set (?cands (j # js))
     else best_of (el_max l) (seen @ ?cands (j # js)) state')"
    if st: "best_of (el_max l) (seen @ here) st" for st
  proof -
    obtain ret state' where r: "scan_symbols l data strings strings_size symbols address js st = Some (ret, state')"
      "if ret then \<exists>off. state' = (Some off, 0) \<and> (0, off) \<in> set (?cands js)
       else best_of (el_max l) ((seen @ here) @ ?cands js) state'"
      using Cons.IH [OF in_rest st] by auto
    then show ?thesis by (cases ret) (auto simp: cands)
  qed
  show ?case
  proof (cases "is_function s address \<and> covers s address \<and> valid_string data strings strings_size (st_name s)")
    case False
    then have "here = []" using s by (auto simp: here_def table_candidates_def)
    then show ?thesis
      using False s rest [of state] Cons.prems(2) by (auto simp: Let_def)
  next
    case True
    then have here: "here = [(?d, ?off)]" using s by (simp add: here_def table_candidates_def)
    show ?thesis
    proof (cases "?d > snd state")
      case True: True
      then show ?thesis
        using s rest [of state] best_of_skip [OF Cons.prems(2) True, of ?off] a here by (auto simp: Let_def)
    next
      case le: False
      show ?thesis
      proof (cases "?d = 0")
        case zero: True
        then show ?thesis using s True le here cands by (auto simp: Let_def)
      next
        case False
        then show ?thesis
          using s True le rest [of "(Some ?off, ?d)"] best_of_take [OF Cons.prems(2), of ?d ?off] here
          by (simp add: Let_def)
      qed
    qed
  qed
qed

lemma scan_sections_best:
  assumes l: "layout_ok l" "el_sym l \<noteq> 0" and a: "address \<le> el_max l"
    and sections: "range_valid shoff shnum (el_shdr l) (length data)"
    and "\<forall>i\<in>set is. i < shnum" and "best_of (el_max l) seen state"
  shows "\<exists>best. scan_sections l data shoff shnum address is state = Some best \<and>
    nearest (seen @ concat (map (section_candidates l data shoff shnum address) is)) best"
  using assms(5,6)
proof (induction "is" arbitrary: state seen)
  case Nil
  then show ?case by (simp add: best_of_nearest)
next
  case (Cons i "is")
  let ?cands = "section_candidates l data shoff shnum address"
  let ?goal = "\<lambda>r. \<exists>best. r = Some best \<and>
    nearest (seen @ ?cands i @ concat (map ?cands is)) best"
  have at: "shoff + k * el_shdr l + el_shdr l \<le> length data" if "k < shnum" for k
    using item_in_range [OF sections that le_refl] .
  obtain sec where sec: "read_section l data (shoff + i * el_shdr l) = Some sec"
    using read_section_in_file [OF l(1) at, of i] Cons.prems(1) by auto
  have in_rest: "\<forall>k\<in>set is. k < shnum" using Cons.prems(1) by simp
  have rest: "?goal (scan_sections l data shoff shnum address is st)" if "best_of (el_max l) (seen @ ?cands i) st" for st
    using Cons.IH [OF in_rest that] by auto
  have "?goal (scan_sections l data shoff shnum address (i # is) state)"
  proof (cases "(sh_type sec = SHT_SYMTAB \<or> sh_type sec = SHT_DYNSYM) \<and>
      sh_entsize sec = el_sym l \<and> sh_link sec < shnum \<and>
      range_valid (sh_offset sec) (sh_size sec div el_sym l) (el_sym l) (length data)")
    case False
    then have "?cands i = []" using sec by (auto simp: section_candidates_def)
    then show ?thesis using False sec rest [of state] Cons.prems(2) by auto
  next
    case table: True
    then obtain strings where strings: "read_section l data (shoff + sh_link sec * el_shdr l) = Some strings"
      using read_section_in_file [OF l(1) at] by blast
    show ?thesis
    proof (cases "range_valid (sh_offset strings) (sh_size strings) 1 (length data)")
      case False
      then have "?cands i = []" using sec strings by (simp add: section_candidates_def)
      then show ?thesis using False table sec strings rest [of state] Cons.prems(2) by auto
    next
      case True
      let ?js = "[0..<sh_size sec div el_sym l]"
      let ?here = "table_candidates l data (sh_offset strings) (sh_size strings) (sh_offset sec) address ?js"
      have here: "?cands i = ?here" using sec strings table True by (simp add: section_candidates_def)
      have "\<forall>j\<in>set ?js. sh_offset sec + j * el_sym l + el_sym l \<le> length data"
        using item_in_range [of "sh_offset sec" "sh_size sec div el_sym l" "el_sym l" "length data"] table by simp
      from scan_symbols_best [OF l(1) a this Cons.prems(2), of "sh_offset strings" "sh_size strings"]
      obtain ret state' where r: "scan_symbols l data (sh_offset strings) (sh_size strings) (sh_offset sec) address ?js state =
          Some (ret, state')"
        "if ret then \<exists>off. state' = (Some off, 0) \<and> (0, off) \<in> set ?here else best_of (el_max l) (seen @ ?here) state'"
        by blast
      show ?thesis
      proof (cases ret)
        case True
        then show ?thesis using r sec strings table \<open>range_valid _ _ 1 _\<close> here by (auto simp: nearest_def)
      next
        case False
        then show ?thesis using r sec strings table True here rest [of state'] by auto
      qed
    qed
  qed
  then show ?case by (simp only: concat.simps list.map append_assoc)
qed

lemma find_elf_symbol_best:
  assumes l: "layout_ok l" "el_sym l \<noteq> 0" and a: "address \<le> el_max l"
  shows "\<exists>best. find_elf_symbol l data address = Some best \<and>
    nearest (elf_candidates l data address) best"
proof (cases "length data < el_ehdr l")
  case True
  then show ?thesis by (simp add: find_elf_symbol_def elf_candidates_def nearest_def)
next
  case False
  then have "\<exists>v. elf_field data 0 f = Some v" if "f \<in> {el_shoff l, el_shentsize l, el_shnum l}" for f
    using l(1) that unfolding layout_ok_def by (intro field_in_file) fastforce
  then obtain shoff shentsize shnum where h: "elf_field data 0 (el_shoff l) = Some shoff"
    "elf_field data 0 (el_shentsize l) = Some shentsize" "elf_field data 0 (el_shnum l) = Some shnum" by (meson insertCI)
  show ?thesis
  proof (cases "shentsize = el_shdr l \<and> range_valid shoff shnum (el_shdr l) (length data)")
    case False
    then show ?thesis using h \<open>\<not> length data < el_ehdr l\<close> by (auto simp: find_elf_symbol_def elf_candidates_def nearest_def)
  next
    case True
    have "best_of (el_max l) [] (None, el_max l)" by (simp add: best_of_def)
    from scan_sections_best [OF l a _ _ this, of shoff shnum data "[0..<shnum]"] True
    moreover have "elf_candidates l data address = concat (map (section_candidates l data shoff shnum address) [0..<shnum])"
      "find_elf_symbol l data address = scan_sections l data shoff shnum address [0..<shnum] (None, el_max l)"
      using h True \<open>\<not> length data < el_ehdr l\<close> by (simp_all add: elf_candidates_def find_elf_symbol_def)
    ultimately show ?thesis by (simp add: Let_def)
  qed
qed

lemma unat_max_64: "unat (a :: u64) \<le> el_max elf64"
  by (simp add: elf64_def)

lemma unat_max_32: "unat (a :: u32) \<le> el_max elf32"
proof -
  have "unat a < 2 ^ LENGTH(32)" by (rule unsigned_less)
  then show ?thesis by (simp add: elf32_def)
qed

lemma sym_sizes [simp]: "el_sym elf64 \<noteq> 0" "el_sym elf32 \<noteq> 0"
  by (simp_all add: elf64_def elf32_def)

text \<open>
  C33: whatever bytes the file holds, the search for a symbol reads only inside the file, and
  finds a function symbol that contains the address at the least distance before it, or none
  if the tables have none.
\<close>

theorem elf_symbol_is_nearest:
  "(\<exists>best. find_elf64_symbol data address = Some best \<and>
      nearest (elf_candidates elf64 data (unat address)) best) \<and>
   (\<exists>best. find_elf32_symbol data address32 = Some best \<and>
      nearest (elf_candidates elf32 data (unat address32)) best)"
  using find_elf_symbol_best [of elf64 "unat address" data] find_elf_symbol_best [of elf32 "unat address32" data]
    unat_max_64 unat_max_32
  by (simp add: find_elf64_symbol_def find_elf32_symbol_def)

section \<open>The resolver\<close>

text \<open>A candidate's name ends inside the file.\<close>

lemma table_candidate_text:
  assumes "(d, off) \<in> set (table_candidates l data strings n symbols address js)"
  shows "0 \<in> set (drop off data)"
proof -
  obtain s :: elf_symbol where "valid_string data strings n (st_name s)" "off = strings + st_name s"
    using assms unfolding table_candidates_def by (auto simp: option.case_eq_if split: if_split_asm)
  then show ?thesis by (auto simp: valid_string_def dest: in_set_takeD)
qed

lemma section_candidate_text:
  assumes "(d, off) \<in> set (section_candidates l data shoff shnum address i)"
  shows "0 \<in> set (drop off data)"
proof -
  have "read_section l data (shoff + i * el_shdr l) \<noteq> None"
    by (rule notI) (use assms in \<open>simp add: section_candidates_def\<close>)
  then obtain sec where sec: "read_section l data (shoff + i * el_shdr l) = Some sec" by blast
  have "read_section l data (shoff + sh_link sec * el_shdr l) \<noteq> None"
    by (rule notI) (use assms in \<open>simp only: section_candidates_def sec option.case if_cancel list.set empty_iff\<close>)
  then obtain strings where strings: "read_section l data (shoff + sh_link sec * el_shdr l) = Some strings" by blast
  have "\<exists>js. (d, off) \<in> set (table_candidates l data (sh_offset strings) (sh_size strings) (sh_offset sec) address js)"
    using assms unfolding section_candidates_def sec option.case strings
    by (simp split: if_split_asm) blast
  then show ?thesis using table_candidate_text by blast
qed

lemma candidate_text:
  assumes "(d, off) \<in> set (elf_candidates l data address)"
  shows "\<exists>text. file_text data off = Some text"
proof -
  obtain shoff shnum i where "(d, off) \<in> set (section_candidates l data shoff shnum address i)"
    using assms unfolding elf_candidates_def by (auto simp: option.case_eq_if split: if_split_asm)
  then have "0 \<in> set (drop off data)" by (rule section_candidate_text)
  then show ?thesis by (simp add: file_text_def)
qed

lemma find_elf_symbol_text:
  assumes "layout_ok l" "el_sym l \<noteq> 0" "address \<le> el_max l"
  shows "\<exists>best. find_elf_symbol l data address = Some best \<and>
    (\<forall>off. best = Some off \<longrightarrow> (\<exists>text. file_text data off = Some text))"
proof -
  obtain best where best: "find_elf_symbol l data address = Some best" "nearest (elf_candidates l data address) best"
    using find_elf_symbol_best [OF assms] by blast
  have "\<exists>text. file_text data off = Some text" if "best = Some off" for off
    using best(2) that candidate_text [of _ off l data address] by (auto simp: nearest_def)
  then show ?thesis using best(1) by blast
qed

lemma resolve_elf_name_ok:
  "\<exists>s. resolve_elf_name env rel symbol = Some s \<and> (s = symbol \<or>
     (\<exists>name. s = symbol\<lparr>ns_name := copy_text LP_NATIVE_NAME_CAPACITY (Some name)\<rparr>))"
proof -
  have "\<exists>best. find_elf64_symbol data rel = Some best \<and>
      (\<forall>off. best = Some off \<longrightarrow> (\<exists>text. file_text data off = Some text))"
    "\<exists>best. find_elf32_symbol data (ucast rel) = Some best \<and>
      (\<forall>off. best = Some off \<longrightarrow> (\<exists>text. file_text data off = Some text))" for data
    using find_elf_symbol_text [of elf64 "unat rel" data] unat_max_64
      find_elf_symbol_text [of elf32 "unat (ucast rel :: u32)" data] unat_max_32
    by (simp_all add: find_elf64_symbol_def find_elf32_symbol_def)
  note finds = this
  show ?thesis
  proof (cases "ns_path symbol = [] \<or> ne_file env (ns_path symbol) = None \<or> ne_file env (ns_path symbol) = Some []")
    case True
    then show ?thesis by (auto simp: resolve_elf_name_def)
  next
    case False
    then obtain data where data: "ne_file env (ns_path symbol) = Some data" "data \<noteq> []" by auto
    define name where "name = (if length data \<ge> 16 \<and> take 4 data = [0x7f, 0x45, 0x4c, 0x46]
        then if data ! 4 = 2 then find_elf64_symbol data rel
             else if data ! 4 = 1 \<and> rel \<le> 0xffffffff then find_elf32_symbol data (ucast rel) else Some None
        else Some None)"
    have "\<exists>best. name = Some best \<and> (\<forall>off. best = Some off \<longrightarrow> (\<exists>text. file_text data off = Some text))"
      using finds [of data] by (simp add: name_def)
    then obtain best where "name = Some best" "\<forall>off. best = Some off \<longrightarrow> (\<exists>text. file_text data off = Some text)"
      by blast
    moreover have "resolve_elf_name env rel symbol =
      (case name of None \<Rightarrow> None | Some None \<Rightarrow> Some symbol
       | Some (Some off) \<Rightarrow>
           map_option (\<lambda>text. symbol\<lparr>ns_name := copy_text LP_NATIVE_NAME_CAPACITY (Some text)\<rparr>) (file_text data off))"
      unfolding resolve_elf_name_def Let_def name_def using False data by simp
    ultimately show ?thesis by (cases best) auto
  qed
qed

lemma length_copy_text: "0 < capacity \<Longrightarrow> length (copy_text capacity source) < capacity"
  by (auto simp: copy_text_def split: option.split)

text \<open>The extent of an object that contains the address contains the address.\<close>

lemma segment_step_extent:
  assumes "case st of (contains, start, limit, offset) \<Rightarrow> contains \<longrightarrow> start \<le> address \<and> address < limit"
  shows "case segment_step base address page_mask header st of
    (contains, start, limit, offset) \<Rightarrow> contains \<longrightarrow> start \<le> address \<and> address < limit"
  using assms by (auto simp: segment_step_def Let_def split: if_splits prod.splits)

lemma segments_extent:
  assumes "case st of (contains, start, limit, offset) \<Rightarrow> contains \<longrightarrow> start \<le> address \<and> address < limit"
  shows "case fold (segment_step base address page_mask) headers st of
    (contains, start, limit, offset) \<Rightarrow> contains \<longrightarrow> start \<le> address \<and> address < limit"
  using assms
proof (induction headers arbitrary: st)
  case Nil
  then show ?case by simp
next
  case (Cons header headers)
  show ?case by (simp only: fold_simps) (rule Cons.IH [OF segment_step_extent [OF Cons.prems]])
qed

definition mapping_matches :: "u64 \<Rightarrow> lp_native_symbol \<Rightarrow> bool" where
  "mapping_matches address s \<longleftrightarrow>
     (ns_has_mapping s \<longleftrightarrow> ns_mapping_start s \<le> address \<and> address < ns_mapping_limit s)"

lemma find_mapping_matches:
  assumes "find_mapping env address info s = Some (s', b)" and "ns_name s = []"
  shows "mapping_matches address s' \<and> ns_name s' = []"
proof -
  define mask where "mask = (if 0 <s ne_page_size env then ne_page_size env - 1 else 4095)"
  obtain contains start limit offset where r:
    "fold (segment_step (dlpi_addr info) address mask) (dlpi_phdr info) (False, UINT64_MAX, 0, 0) =
       (contains, start, limit, offset)" by (metis prod_cases4)
  have c: "contains \<longrightarrow> start \<le> address \<and> address < limit"
    using segments_extent [where st = "(False, UINT64_MAX, 0, 0)" and address = address and base = "dlpi_addr info" and page_mask = mask and headers = "dlpi_phdr info"] r by simp
  have "contains" using assms(1) r by (auto simp: find_mapping_def mask_def [symmetric] Let_def split: if_splits)
  then have "start \<le> address" "address < limit" "start \<noteq> UINT64_MAX" "start < limit"
    using c by (auto simp: word_less_nat_alt word_le_nat_alt) (use unat_le_u64_max [of limit] in linarith)
  then show ?thesis
    using assms r \<open>contains\<close>
    by (auto simp: find_mapping_def mask_def [symmetric] Let_def mapping_matches_def split: option.splits list.splits)
qed

lemma iterate_mappings_matches:
  "iterate_mappings env address infos s = Some (s', b) \<Longrightarrow> ns_name s = [] \<Longrightarrow>
   mapping_matches address s' \<and> ns_name s' = []"
  by (induction infos) (auto split: option.splits dest: find_mapping_matches)

lemma find_mapping_path:
  "find_mapping env address info s = Some (s', b) \<Longrightarrow> length (ns_path s) < LP_NATIVE_PATH_CAPACITY \<Longrightarrow>
   length (ns_path s') < LP_NATIVE_PATH_CAPACITY"
  using length_copy_text [of LP_NATIVE_PATH_CAPACITY]
  by (auto simp: find_mapping_def LP_NATIVE_PATH_CAPACITY_def Let_def split: if_splits option.splits list.splits prod.splits)

lemma iterate_mappings_path:
  "iterate_mappings env address infos s = Some (s', b) \<Longrightarrow> length (ns_path s) < LP_NATIVE_PATH_CAPACITY \<Longrightarrow>
   length (ns_path s') < LP_NATIVE_PATH_CAPACITY"
  by (induction infos) (auto split: option.splits dest: find_mapping_path)

lemma native_path_length:
  assumes "lp_native_symbol_resolve env address = Some (found, symbol)"
  shows "length (ns_path symbol) < LP_NATIVE_PATH_CAPACITY"
proof -
  have z: "length (ns_path zero_native_symbol) < LP_NATIVE_PATH_CAPACITY"
    by (simp add: zero_native_symbol_def LP_NATIVE_PATH_CAPACITY_def)
  have found: "length (ns_path s) < LP_NATIVE_PATH_CAPACITY"
    if "iterate_mappings env address (ne_objects env) zero_native_symbol = Some (s, b)" for s b
    using iterate_mappings_path [OF that z] .
  have keep: "ns_path s = ns_path symbol" if "resolve_elf_name env rel s = Some symbol" for rel s
    using resolve_elf_name_ok [of env rel s] that by auto
  show ?thesis
    using assms z found keep length_copy_text [of LP_NATIVE_PATH_CAPACITY]
    by (auto simp: lp_native_symbol_resolve_def LP_NATIVE_PATH_CAPACITY_def Let_def
        split: if_splits option.splits prod.splits dest!: keep [symmetric])
qed

text \<open>
  The resolver returns for every address, whatever the loaded files contain: the name fits
  its buffer, a mapping is reported exactly when its range contains the address, and the
  result is true exactly when there is a name or a mapping.
\<close>

theorem native_symbol_resolves:
  "\<exists>found symbol. lp_native_symbol_resolve env address = Some (found, symbol) \<and>
     length (ns_name symbol) < LP_NATIVE_NAME_CAPACITY \<and>
     (ns_has_mapping symbol \<longleftrightarrow> ns_mapping_start symbol \<le> address \<and> address < ns_mapping_limit symbol) \<and>
     (\<not> found \<longleftrightarrow> ns_name symbol = [] \<and> \<not> ns_has_mapping symbol)"
proof (cases "address = NULL")
  case True
  then show ?thesis
    by (intro exI [of _ False] exI [of _ zero_native_symbol])
      (simp add: lp_native_symbol_resolve_def zero_native_symbol_def LP_NATIVE_NAME_CAPACITY_def)
next
  case False
  define found where "found = iterate_mappings env address (ne_objects env) zero_native_symbol"
  define first where "first = (case found of None \<Rightarrow> (zero_native_symbol, 0) | Some r \<Rightarrow> r)"
  have first: "mapping_matches address (fst first) \<and> ns_name (fst first) = []"
    using iterate_mappings_matches [of env address "ne_objects env" zero_native_symbol] False
    by (cases found) (auto simp: first_def found_def mapping_matches_def zero_native_symbol_def)
  define second where "second = (case ne_dladdr env address of
      None \<Rightarrow> first
    | Some info \<Rightarrow>
        (let s1 = (if ns_path (fst first) = [] \<and> dli_fname info \<noteq> None
                   then (fst first)\<lparr>ns_path := copy_text LP_NATIVE_PATH_CAPACITY (dli_fname info)\<rparr> else fst first);
             s2 = (if dli_sname info \<noteq> None
                   then s1\<lparr>ns_name := copy_text LP_NATIVE_NAME_CAPACITY (dli_sname info)\<rparr> else s1)
         in (s2, if found = None \<and> dli_fbase info \<noteq> 0 then dli_fbase info else snd first)))"
  have second: "mapping_matches address (fst second) \<and> length (ns_name (fst second)) < LP_NATIVE_NAME_CAPACITY"
    using first length_copy_text [of LP_NATIVE_NAME_CAPACITY]
    by (auto simp: second_def Let_def mapping_matches_def LP_NATIVE_NAME_CAPACITY_def split: option.split)
  have run: "lp_native_symbol_resolve env address =
      map_option (\<lambda>s. (ns_name s \<noteq> [] \<or> ns_has_mapping s, s))
        (if ns_name (fst second) = [] then resolve_elf_name env (address - snd second) (fst second) else Some (fst second))"
    unfolding lp_native_symbol_resolve_def Let_def found_def [symmetric] first_def [symmetric] second_def
    using False by (simp add: case_prod_beta Let_def split del: if_split cong: option.case_cong if_cong)
  show ?thesis
    using second resolve_elf_name_ok [of env "address - snd second" "fst second"]
      length_copy_text [of LP_NATIVE_NAME_CAPACITY]
    by (auto simp: run mapping_matches_def LP_NATIVE_NAME_CAPACITY_def)
qed

end
