(* ===== verification/Protobuf_Wire.thy ===== *)
theory Protobuf_Wire
  imports Luaprof_Prelude
begin

text \<open>
  The output buffers of \<open>src/pprof_exporter.c\<close> and the protobuf wire format they are filled
  with. An allocation may fail: the outcomes of the calls to come are a list of booleans,
  which counts as successful once it is used up. A buffer that failed stays failed and the
  writers leave it alone.

  Each writer is shown to append exactly the bytes of a pure encoding, unless the buffer
  fails, and not to fail when memory is available; the pure encoding is shown to be
  inverted by a parser written from the wire format.
\<close>

section \<open>Memory\<close>

type_synonym memory = "bool list"

definition take_alloc :: "memory \<Rightarrow> bool \<times> memory" where
  "take_alloc m = (case m of [] \<Rightarrow> (True, []) | got # rest \<Rightarrow> (got, rest))"

lemma take_alloc_Nil [simp]: "take_alloc [] = (True, [])"
  by (simp add: take_alloc_def)

text \<open>
  The doubling loop of \<open>grow_array\<close>; \<open>None\<close> is its \<open>return false\<close>. It starts at 16 or at a
  capacity that is not zero; from zero it would not end, and the definition stops there.
\<close>

function double_capacity :: "nat \<Rightarrow> nat \<Rightarrow> nat option" where
  "double_capacity n wanted =
     (if n = 0 \<or> \<not> n < wanted then Some n
      else if n > u64_max div 2 then None
      else double_capacity (n * 2) wanted)"
  by auto
termination
  by (relation "measure (\<lambda>(n, wanted). wanted - n)") auto

declare double_capacity.simps [simp del]

text \<open>Success, the new capacity, and the memory left; the array itself is not touched.\<close>

definition grow_array :: "nat \<Rightarrow> nat \<Rightarrow> nat \<Rightarrow> memory \<Rightarrow> bool \<times> nat \<times> memory" where
  "grow_array capacity wanted item_size m =
     (if wanted \<le> capacity then (True, capacity, m)
      else case double_capacity (if capacity = 0 then 16 else capacity) wanted of
             None \<Rightarrow> (False, capacity, m)
           | Some next \<Rightarrow>
               if next > u64_max div item_size then (False, capacity, m)
               else let (got, m') = take_alloc m
                    in if got then (True, next, m') else (False, capacity, m'))"

lemma double_capacity_enough: "double_capacity n wanted = Some c \<Longrightarrow> n \<noteq> 0 \<Longrightarrow> wanted \<le> c \<and> n \<le> c"
proof (induction n wanted rule: double_capacity.induct)
  case (1 n wanted)
  have "double_capacity n wanted =
     (if n = 0 \<or> \<not> n < wanted then Some n
      else if n > u64_max div 2 then None
      else double_capacity (n * 2) wanted)" by (rule double_capacity.simps)
  then show ?case using 1 by (auto split: if_splits)
qed

lemma double_capacity_bound:
  "n \<noteq> 0 \<Longrightarrow> n \<le> 2 * wanted + 16 \<Longrightarrow> wanted \<le> u64_max div 2 \<Longrightarrow>
   \<exists>c. double_capacity n wanted = Some c \<and> c \<le> 2 * wanted + 16"
proof (induction n wanted rule: double_capacity.induct)
  case (1 n wanted)
  then show ?case by (subst double_capacity.simps) auto
qed

text \<open>While sizes stay far below the address space and memory is there, an array grows.\<close>

lemma grow_array_succeeds:
  assumes "wanted * item_size \<le> u64_max div 4" and "item_size \<noteq> 0" and "item_size \<le> 1024"
  shows "\<exists>c. grow_array capacity wanted item_size [] = (True, c, []) \<and> wanted \<le> c"
proof (cases "wanted \<le> capacity")
  case True
  then show ?thesis by (simp add: grow_array_def)
next
  case False
  let ?start = "if capacity = 0 then 16 else capacity"
  have "wanted \<le> wanted * item_size" using assms(2) by simp
  then have w: "wanted \<le> u64_max div 4" using assms(1) by linarith
  then have "wanted \<le> u64_max div 2" by simp
  moreover have "?start \<noteq> 0" "?start \<le> 2 * wanted + 16" using False by auto
  ultimately obtain c where c: "double_capacity ?start wanted = Some c" "c \<le> 2 * wanted + 16"
    using double_capacity_bound [of ?start wanted] by auto
  have "c * item_size \<le> (2 * wanted + 16) * item_size" using c(2) by (rule mult_right_mono) simp
  also have "\<dots> = 2 * (wanted * item_size) + 16 * item_size" by (simp add: algebra_simps)
  also have "\<dots> \<le> u64_max" using assms(1,3) by simp
  finally have "c \<le> u64_max div item_size" using assms(2) by (simp add: less_eq_div_iff_mult_less_eq)
  then show ?thesis
    using False c double_capacity_enough [OF c(1)] by (auto simp: grow_array_def)
qed

lemma grow_array_enough: "grow_array capacity wanted item_size m = (True, c, m') \<Longrightarrow> wanted \<le> c"
  by (auto simp: grow_array_def split: if_splits option.splits prod.splits dest: double_capacity_enough)

section \<open>Buffers\<close>

record lp_buffer =
  buf_data :: bytes
  buf_capacity :: nat
  buf_failed :: bool

definition zero_buffer :: lp_buffer where
  "zero_buffer = \<lparr>buf_data = [], buf_capacity = 0, buf_failed = False\<rparr>"

text \<open>A buffer and the memory: what a writer changes.\<close>

type_synonym sink = "lp_buffer \<times> memory"

definition buffer_reserve :: "nat \<Rightarrow> sink \<Rightarrow> bool \<times> sink" where
  "buffer_reserve additional out =
     (let (buffer, m) = out
      in if buf_failed buffer then (False, out)
         else if additional > u64_max - length (buf_data buffer) then (False, buffer\<lparr>buf_failed := True\<rparr>, m)
         else let (grown, capacity, m') = grow_array (buf_capacity buffer) (length (buf_data buffer) + additional) 1 m
              in if grown then (True, buffer\<lparr>buf_capacity := capacity\<rparr>, m')
                 else (False, buffer\<lparr>buf_failed := True\<rparr>, m'))"

definition buffer_append :: "bytes \<Rightarrow> sink \<Rightarrow> sink" where
  "buffer_append data out =
     (if data = [] then out
      else let (reserved, buffer, m) = buffer_reserve (length data) out
           in if \<not> reserved then (buffer, m) else (buffer\<lparr>buf_data := buf_data buffer @ data\<rparr>, m))"

text \<open>The loop of \<open>buffer_varint\<close>: the bytes it leaves in \<open>encoded\<close>.\<close>

function varint_bytes :: "u64 \<Rightarrow> bytes" where
  "varint_bytes v =
     (let low = ucast (v AND 0x7f); rest = drop_bit 7 v
      in if rest \<noteq> 0 then (low OR 0x80) # varint_bytes rest else [low])"
  by auto
termination
proof (relation "measure unat")
  fix v x xa :: u64 and xb :: u8
  assume "xa = drop_bit 7 v" "xa \<noteq> 0"
  then have "unat v div 128 \<noteq> 0" by (simp add: unat_eq_0 [symmetric] drop_bit_eq_div unat_div)
  then show "(xa, v) \<in> measure unat"
    using \<open>xa = drop_bit 7 v\<close> by (simp add: drop_bit_eq_div unat_div)
qed simp

declare varint_bytes.simps [simp del]

definition buffer_varint :: "u64 \<Rightarrow> sink \<Rightarrow> sink" where
  "buffer_varint value = buffer_append (varint_bytes value)"

definition buffer_key :: "u32 \<Rightarrow> u32 \<Rightarrow> sink \<Rightarrow> sink" where
  "buffer_key field wire = buffer_varint (push_bit 3 (ucast field) OR ucast wire)"

definition buffer_field_varint :: "u32 \<Rightarrow> u64 \<Rightarrow> sink \<Rightarrow> sink" where
  "buffer_field_varint field value out = buffer_varint value (buffer_key field 0 out)"

definition buffer_field_bytes :: "u32 \<Rightarrow> bytes \<Rightarrow> sink \<Rightarrow> sink" where
  "buffer_field_bytes field data out =
     buffer_append data (buffer_varint (of_nat (length data)) (buffer_key field 2 out))"

definition buffer_field_message :: "u32 \<Rightarrow> lp_buffer \<Rightarrow> sink \<Rightarrow> sink" where
  "buffer_field_message field message = buffer_field_bytes field (buf_data message)"

section \<open>What a writer writes\<close>

text \<open>
  \<open>emits bs f\<close>: unless the buffer fails, \<open>f\<close> appends \<open>bs\<close> to a buffer that had not failed, and
  keeps it within its capacity; and with memory it does not fail, while the total stays below
  a quarter of the address space.
\<close>

abbreviation (input) size_limit :: nat where "size_limit \<equiv> 4611686018427387903"

definition buffer_ok :: "lp_buffer \<Rightarrow> bool" where
  "buffer_ok b \<longleftrightarrow> length (buf_data b) \<le> buf_capacity b \<and> buf_capacity b \<le> u64_max"

definition emits_at :: "bytes \<Rightarrow> lp_buffer \<Rightarrow> memory \<Rightarrow> sink \<Rightarrow> bool" where
  "emits_at bs b m out \<longleftrightarrow>
     (\<not> buf_failed (fst out) \<longrightarrow>
        \<not> buf_failed b \<and> buf_data (fst out) = buf_data b @ bs \<and> (buffer_ok b \<longrightarrow> buffer_ok (fst out))) \<and>
     (m = [] \<and> \<not> buf_failed b \<and> length (buf_data b) + length bs \<le> size_limit \<longrightarrow>
        snd out = [] \<and> \<not> buf_failed (fst out))"

definition emits :: "bytes \<Rightarrow> (sink \<Rightarrow> sink) \<Rightarrow> bool" where
  "emits bs f \<longleftrightarrow> (\<forall>b m. emits_at bs b m (f (b, m)))"

lemma emits_written:
  "emits bs f \<Longrightarrow> f (b, m) = (b', m') \<Longrightarrow> \<not> buf_failed b' \<Longrightarrow> \<not> buf_failed b \<and> buf_data b' = buf_data b @ bs"
  by (metis emits_def emits_at_def fst_conv)

lemma emits_ok: "emits bs f \<Longrightarrow> f (b, m) = (b', m') \<Longrightarrow> \<not> buf_failed b' \<Longrightarrow> buffer_ok b \<Longrightarrow> buffer_ok b'"
  by (metis emits_def emits_at_def fst_conv)

lemma emits_succeeds:
  "emits bs f \<Longrightarrow> f (b, []) = (b', m') \<Longrightarrow> \<not> buf_failed b \<Longrightarrow> length (buf_data b) + length bs \<le> size_limit \<Longrightarrow>
   m' = [] \<and> \<not> buf_failed b' \<and> buf_data b' = buf_data b @ bs"
  by (metis emits_def emits_at_def fst_conv snd_conv)

lemma emitsI: "(\<And>b m b' m'. f (b, m) = (b', m') \<Longrightarrow> emits_at bs b m (b', m')) \<Longrightarrow> emits bs f"
  unfolding emits_def by (metis surj_pair)

lemma emits_comp:
  assumes f: "emits bs f" and g: "emits cs g"
  shows "emits (bs @ cs) (\<lambda>out. g (f out))"
proof (rule emitsI)
  fix b m b2 m2
  assume gf: "g (f (b, m)) = (b2, m2)"
  obtain b1 m1 where 1: "f (b, m) = (b1, m1)" by fastforce
  then have 2: "g (b1, m1) = (b2, m2)" using gf by simp
  show "emits_at (bs @ cs) b m (b2, m2)"
    using emits_written [OF f 1] emits_written [OF g 2] emits_ok [OF f 1] emits_ok [OF g 2]
      emits_succeeds [OF f, of b b1 m1] emits_succeeds [OF g, of b1 b2 m2] 1 2
    by (auto simp: emits_at_def)
qed

lemma emits_id: "emits [] (\<lambda>out. out)"
  by (simp add: emits_def emits_at_def)

lemma emits_append: "emits bs (buffer_append bs)"
proof (rule emitsI)
  fix b m b' m'
  assume r: "buffer_append bs (b, m) = (b', m')"
  show "emits_at bs b m (b', m')"
  proof (cases "bs = [] \<or> buf_failed b")
    case True
    then show ?thesis using r by (cases "bs = []") (auto simp: buffer_append_def buffer_reserve_def emits_at_def)
  next
    case False
    let ?n = "length (buf_data b) + length bs"
    obtain grown c m1 where g: "grow_array (buf_capacity b) ?n 1 m = (grown, c, m1)" by (rule prod_cases3)
    have "grown \<Longrightarrow> ?n \<le> c \<and> (buf_capacity b \<le> u64_max \<longrightarrow> c \<le> u64_max)"
      using g grow_array_enough [of "buf_capacity b" ?n 1 m c m1]
      by (auto simp: grow_array_def split: if_splits option.splits prod.splits)
    then show ?thesis
      using False r g grow_array_succeeds [of ?n 1 "buf_capacity b"]
      by (cases grown) (auto simp: buffer_append_def buffer_reserve_def emits_at_def buffer_ok_def split: if_splits)
  qed
qed

definition key_bytes :: "u32 \<Rightarrow> u32 \<Rightarrow> bytes" where
  "key_bytes field wire = varint_bytes (push_bit 3 (ucast field) OR ucast wire)"

lemma emits_varint: "emits (varint_bytes v) (buffer_varint v)"
  unfolding buffer_varint_def by (rule emits_append)

lemma emits_key: "emits (key_bytes field wire) (buffer_key field wire)"
  unfolding buffer_key_def key_bytes_def by (rule emits_varint)

text \<open>The two kinds of field the exporter writes.\<close>

datatype wire_value = Varint u64 | Message bytes

primrec field_bytes :: "u32 \<times> wire_value \<Rightarrow> bytes" where
  "field_bytes (field, v) =
     (case v of Varint n \<Rightarrow> key_bytes field 0 @ varint_bytes n
      | Message bs \<Rightarrow> key_bytes field 2 @ varint_bytes (of_nat (length bs)) @ bs)"

lemma emits_field_varint: "emits (field_bytes (field, Varint v)) (buffer_field_varint field v)"
  using emits_comp [OF emits_key emits_varint] by (simp add: buffer_field_varint_def [abs_def])

lemma emits_field_bytes: "emits (field_bytes (field, Message bs)) (buffer_field_bytes field bs)"
  using emits_comp [OF emits_comp [OF emits_key emits_varint] emits_append]
  by (simp add: buffer_field_bytes_def [abs_def])

lemma emits_fold: "(\<And>x. x \<in> set xs \<Longrightarrow> emits (e x) (f x)) \<Longrightarrow> emits (concat (map e xs)) (fold f xs)"
proof (induction xs)
  case Nil
  then show ?case using emits_id by (simp add: id_def)
next
  case (Cons x xs)
  have "emits (e x @ concat (map e xs)) (\<lambda>out. fold f xs (f x out))" using Cons by (intro emits_comp) simp_all
  then show ?case by (simp add: comp_def)
qed

text \<open>
  A message is built in a buffer of its own, then written as a field, and marks the outer
  buffer as failed when it failed.
\<close>

definition write_message :: "u32 \<Rightarrow> (sink \<Rightarrow> sink) \<Rightarrow> sink \<Rightarrow> sink" where
  "write_message field f out =
     (let (profile, m) = out; (message, m1) = f (zero_buffer, m);
          (profile1, m2) = buffer_field_message field message (profile, m1)
      in (if buf_failed message then profile1\<lparr>buf_failed := True\<rparr> else profile1, m2))"

lemma field_bytes_longer: "length bs \<le> length (field_bytes (field, Message bs))"
  by simp

lemma zero_buffer_simps [simp]: "\<not> buf_failed zero_buffer" "buf_data zero_buffer = []" "buffer_ok zero_buffer"
  by (simp_all add: zero_buffer_def buffer_ok_def)

lemma buffer_ok_failed [simp]: "buffer_ok (b\<lparr>buf_failed := x\<rparr>) = buffer_ok b"
  by (simp add: buffer_ok_def)

lemma emits_message:
  assumes f: "emits bs f"
  shows "emits (field_bytes (field, Message bs)) (write_message field f)"
proof (rule emitsI)
  fix b m b' m'
  assume w: "write_message field f (b, m) = (b', m')"
  obtain msg m1 where 1: "f (zero_buffer, m) = (msg, m1)" by fastforce
  obtain b2 m2 where 2: "buffer_field_bytes field (buf_data msg) (b, m1) = (b2, m2)" by fastforce
  have b': "b' = (if buf_failed msg then b2\<lparr>buf_failed := True\<rparr> else b2)" "m' = m2"
    using w 1 2 by (auto simp: write_message_def buffer_field_message_def)
  show "emits_at (field_bytes (field, Message bs)) b m (b', m')"
  proof (cases "buf_failed msg")
    case True
    then show ?thesis using b' emits_succeeds [OF f, of zero_buffer msg m1] 1 by (auto simp: emits_at_def)
  next
    case False
    have msg: "buf_data msg = bs" using emits_written [OF f 1 False] by simp
    show ?thesis
      using False b' emits_written [OF emits_field_bytes 2] emits_succeeds [OF emits_field_bytes, of field bs b b2 m2]
        emits_ok [OF emits_field_bytes 2] emits_succeeds [OF f, of zero_buffer msg m1] 1 2
      unfolding msg by (auto simp: emits_at_def)
  qed
qed

section \<open>Reading it back\<close>

text \<open>
  A parser of the wire format: little-endian groups of seven bits, and fields with wire types
  0 (varint) and 2 (length-delimited).
\<close>

primrec parse_varint :: "bytes \<Rightarrow> (u64 \<times> bytes) option" where
  "parse_varint [] = None"
| "parse_varint (b # bs) =
     (if b AND 0x80 = 0 then Some (ucast b, bs)
      else case parse_varint bs of None \<Rightarrow> None
           | Some (v, rest) \<Rightarrow> Some (ucast (b AND 0x7f) OR push_bit 7 v, rest))"

lemma and_7f: "v AND 0x7f = take_bit 7 v" for v :: "'a::len word"
  by (simp add: take_bit_eq_mask mask_eq_exp_minus_1)

lemma bit_80: "bit (0x80 :: int) n \<longleftrightarrow> n = 7"
proof -
  have "(0x80 :: int) = push_bit 7 1" by simp
  then show ?thesis by (simp only: bit_push_bit_iff) (auto simp: bit_1_iff)
qed

text \<open>The two kinds of byte of a varint.\<close>

lemma varint_last:
  "(ucast (take_bit 7 v) :: u8) AND 0x80 = 0 \<and> ucast (ucast (take_bit 7 v) :: u8) = take_bit 7 v" for v :: u64
proof
  show "(ucast (take_bit 7 v) :: u8) AND 0x80 = 0"
    by (rule bit_word_eqI) (auto simp: bit_and_iff bit_ucast_iff bit_take_bit_iff bit_80)
  show "ucast (ucast (take_bit 7 v) :: u8) = take_bit 7 v"
    by (rule bit_word_eqI) (auto simp: bit_ucast_iff bit_take_bit_iff)
qed

lemma varint_more:
  "((ucast (take_bit 7 v) :: u8) OR 0x80) AND 0x80 \<noteq> 0 \<and>
   ucast (((ucast (take_bit 7 v) :: u8) OR 0x80) AND 0x7f) = take_bit 7 v" for v :: u64
proof
  have "bit (((ucast (take_bit 7 v) :: u8) OR 0x80) AND 0x80) 7"
    by (simp add: bit_and_iff bit_or_iff bit_80)
  then show "((ucast (take_bit 7 v) :: u8) OR 0x80) AND 0x80 \<noteq> 0" by force
  show "ucast (((ucast (take_bit 7 v) :: u8) OR 0x80) AND 0x7f) = take_bit 7 v"
    unfolding and_7f
    by (rule bit_word_eqI) (auto simp: bit_and_iff bit_or_iff bit_ucast_iff bit_take_bit_iff bit_80)
qed

lemma varint_bytes_last: "drop_bit 7 v = 0 \<Longrightarrow> varint_bytes v = [ucast (take_bit 7 v)]"
  by (subst varint_bytes.simps) (simp add: and_7f)

lemma varint_bytes_more:
  "drop_bit 7 v \<noteq> 0 \<Longrightarrow> varint_bytes v = (ucast (take_bit 7 v) OR 0x80) # varint_bytes (drop_bit 7 v)"
  by (subst varint_bytes.simps) (simp add: and_7f)

lemma split_7: "take_bit 7 v OR push_bit 7 (drop_bit 7 v) = v" for v :: u64
proof (rule bit_word_eqI)
  fix n :: nat
  assume "n < LENGTH(64)"
  then show "bit (take_bit 7 v OR push_bit 7 (drop_bit 7 v)) n = bit v n"
    by (cases "n < 7") (simp_all add: bit_or_iff bit_take_bit_iff bit_push_bit_iff bit_drop_bit_eq)
qed

lemma parse_varint_bytes: "parse_varint (varint_bytes v @ rest) = Some (v, rest)"
proof (induction v arbitrary: rest rule: varint_bytes.induct)
  case (1 v)
  show ?case
  proof (cases "drop_bit 7 v = 0")
    case True
    then show ?thesis using varint_last [of v] split_7 [of v] by (simp add: varint_bytes_last)
  next
    case False
    then have "parse_varint (varint_bytes (drop_bit 7 v) @ rest) = Some (drop_bit 7 v, rest)"
      using 1 by simp
    then show ?thesis using varint_more [of v] split_7 [of v] False by (simp add: varint_bytes_more)
  qed
qed

text \<open>A 64-bit value takes at most the ten bytes that \<open>encoded\<close> has.\<close>

lemma length_varint_le:
  "unat v < 128 ^ Suc k \<Longrightarrow> 1 \<le> length (varint_bytes v) \<and> length (varint_bytes v) \<le> Suc k"
proof (induction k arbitrary: v)
  case 0
  then have "drop_bit 7 v = 0" by (simp add: unat_eq_0 [symmetric] drop_bit_eq_div unat_div)
  then show ?case by (simp add: varint_bytes_last)
next
  case (Suc k)
  show ?case
  proof (cases "drop_bit 7 v = 0")
    case True
    then show ?thesis by (simp add: varint_bytes_last)
  next
    case False
    have "unat (drop_bit 7 v) < 128 ^ Suc k"
      using Suc.prems by (simp add: drop_bit_eq_div unat_div less_mult_imp_div_less mult.commute)
    from Suc.IH [OF this] False show ?thesis by (simp add: varint_bytes_more)
  qed
qed

lemma length_varint_bytes: "1 \<le> length (varint_bytes v) \<and> length (varint_bytes v) \<le> 10"
proof -
  have "unat v < 128 ^ Suc 9" using unat_le_u64_max [of v] by (simp del: unat_le_u64_max)
  from length_varint_le [OF this] show ?thesis by simp
qed

text \<open>Field number, wire type and payload, for as long as there is input.\<close>

function parse_fields :: "bytes \<Rightarrow> (u32 \<times> wire_value) list option" where
  "parse_fields bs =
     (if bs = [] then Some []
      else case parse_varint bs of
        None \<Rightarrow> None
      | Some (key, bs1) \<Rightarrow>
          if length bs \<le> length bs1 then None
          else case parse_varint bs1 of
            None \<Rightarrow> None
          | Some (n, bs2) \<Rightarrow>
              if length bs1 \<le> length bs2 then None
              else if key AND 7 = 0
              then map_option (Cons (ucast (drop_bit 3 key), Varint n)) (parse_fields bs2)
              else if key AND 7 = 2 \<and> unat n \<le> length bs2
              then map_option (Cons (ucast (drop_bit 3 key), Message (take (unat n) bs2)))
                     (parse_fields (drop (unat n) bs2))
              else None)"
  by auto
termination
  by (relation "measure length") auto

declare parse_fields.simps [simp del]

text \<open>A field number of the exporter's, below 2 to the 29.\<close>

lemma bit_below: "\<not> bit w n" if "unat w < 2 ^ k" "k \<le> n" for w :: "'a::len word"
proof -
  have "unat w < 2 ^ n" using that by (meson less_le_trans one_le_numeral power_increasing)
  then have "\<not> bit (unat w) n" by (simp add: bit_iff_odd)
  then show ?thesis by (simp add: bit_unsigned_iff)
qed

lemma key_parts:
  fixes field wire :: u32
  assumes "unat field < 2 ^ 29" and "unat wire < 2 ^ 3"
  defines "key \<equiv> push_bit 3 (ucast field) OR (ucast wire :: u64)"
  shows "key AND 7 = ucast wire" and "ucast (drop_bit 3 key) = field"
proof -
  have 7: "(7 :: u64) = mask 3" by (simp add: mask_eq_exp_minus_1)
  have wire: "bit wire n \<Longrightarrow> n < 3" and field: "bit field n \<Longrightarrow> n < 29" for n
    using bit_below [OF assms(1), of n] bit_below [OF assms(2), of n] not_less by blast+
  show "key AND 7 = ucast wire"
    unfolding 7 take_bit_eq_mask [symmetric] key_def
    by (rule bit_word_eqI)
      (auto simp: bit_or_iff bit_take_bit_iff bit_push_bit_iff bit_ucast_iff dest: wire)
  show "ucast (drop_bit 3 key) = field"
    unfolding key_def
    by (rule bit_word_eqI)
      (auto simp: bit_or_iff bit_drop_bit_eq bit_push_bit_iff bit_ucast_iff dest: wire field)
qed

lemma varint_bytes_nonempty [simp]: "varint_bytes v \<noteq> []"
  using length_varint_bytes [of v] by auto

lemma key_bytes_nonempty [simp]: "key_bytes field wire \<noteq> []"
  by (simp add: key_bytes_def)

text \<open>What can be read back: small field numbers, and payloads whose length is a \<open>size_t\<close>.\<close>

primrec wire_ok :: "u32 \<times> wire_value \<Rightarrow> bool" where
  "wire_ok (field, v) \<longleftrightarrow>
     unat field < 536870912 \<and> (case v of Varint _ \<Rightarrow> True | Message bs \<Rightarrow> length bs \<le> u64_max)"

lemma parse_fields_Nil: "parse_fields [] = Some []"
  by (subst parse_fields.simps) simp

lemma parse_fields_step:
  assumes "wire_ok f"
  shows "parse_fields (field_bytes f @ rest) = map_option (Cons f) (parse_fields rest)"
proof -
  obtain field v where f: "f = (field, v)" by (cases f)
  note small = assms [unfolded f wire_ok.simps]
  show ?thesis
  proof (cases v)
    case (Varint n)
    let ?tail = "varint_bytes n @ rest"
    have key: "parse_varint (field_bytes f @ rest) = Some (push_bit 3 (ucast field) OR ucast (0 :: u32), ?tail)"
      using parse_varint_bytes by (simp add: f Varint key_bytes_def)
    have "length ?tail < length (field_bytes f @ rest)"
      by (simp add: f Varint)
    moreover have "length rest < length ?tail" by simp
    ultimately show ?thesis
      using key_parts [of field 0] small
      by (subst parse_fields.simps) (auto simp: key parse_varint_bytes, simp_all add: f Varint)
  next
    case (Message bs)
    let ?tail = "varint_bytes (of_nat (length bs)) @ bs @ rest"
    have key: "parse_varint (field_bytes f @ rest) = Some (push_bit 3 (ucast field) OR ucast (2 :: u32), ?tail)"
      using parse_varint_bytes by (simp add: f Message key_bytes_def)
    have n: "unat (of_nat (length bs) :: u64) = length bs"
      using small Message by (simp add: unat_of_nat take_bit_nat_eq_self_iff)
    have "length ?tail < length (field_bytes f @ rest)"
      by (simp add: f Message)
    moreover have "length (bs @ rest) < length ?tail" by simp
    ultimately show ?thesis
      using key_parts [of field 2] small
      by (subst parse_fields.simps) (auto simp: key parse_varint_bytes n, simp_all add: f Message)
  qed
qed

text \<open>Any sequence of varint and length-delimited fields that the exporter's encoding
  writes one after the other is read back by the wire-format parser, field for field.\<close>

lemma wire_fields_read_back:
  assumes "list_all wire_ok fs"
  shows "parse_fields (concat (map field_bytes fs)) = Some fs"
  using assms by (induction fs) (simp_all del: field_bytes.simps wire_ok.simps add: parse_fields_Nil parse_fields_step)

lemma wire_fields_read_back_witness:
  "parse_fields (concat (map field_bytes [(1, Varint 300), (2, Message [7, 8])])) =
     Some [(1, Varint 300), (2, Message [7, 8])]"
  by (rule wire_fields_read_back) simp

end
