(* ===== verification/Pprof_Model.thy ===== *)
theory Pprof_Model
  imports Runtime Native_Symbol Protobuf_Wire Open_Addressing
begin

text \<open>
  The export model of \<open>src/pprof_exporter.c\<close>: what \<open>model_init\<close> builds from a stopped recording
  before anything is written, that is the string table, the interned functions, locations and
  mappings, the samples with their values, and the metadata.

  A text with a length is the list of its bytes; a C string is the list of its bytes before
  the terminating zero, so that \<open>strcmp\<close> with a literal is equality. An \<open>int64_t\<close> is a 64-bit
  word read as signed; the index of a string is -1 when there is none. The model carries the
  outcomes of the allocations to come (\<open>em_memory\<close>), which the code asks of \<open>malloc\<close>.
  The loader's view of the process, and the callback that names C functions, are parameters.
\<close>

unbundle bit_operations_syntax

section \<open>Text\<close>

definition ascii :: "string \<Rightarrow> bytes" where
  "ascii = map of_char"

definition c_text :: "bytes \<Rightarrow> bytes" where
  "c_text = takeWhile (\<lambda>b. b \<noteq> 0)"

definition digit :: "nat \<Rightarrow> u8" where
  "digit d = of_nat (if d < 10 then 48 + d else 87 + d)"

fun digits :: "nat \<Rightarrow> nat \<Rightarrow> bytes" where
  "digits base n = (if base < 2 \<or> n < base then [digit n] else digits base (n div base) @ [digit (n mod base)])"

declare digits.simps [simp del]

definition decimal_u64 :: "u64 \<Rightarrow> bytes" where
  "decimal_u64 n = digits 10 (unat n)"

definition decimal_int :: "'a::len word \<Rightarrow> bytes" where
  "decimal_int n = (if sint n < 0 then ascii ''-'' @ digits 10 (nat (- sint n)) else digits 10 (nat (sint n)))"

definition hex_u64 :: "u64 \<Rightarrow> bytes" where
  "hex_u64 n = digits 16 (unat n)"

text \<open>
  \<open>%.*s\<close> with \<open>(int)length\<close>: at most so many bytes, and not past a zero byte; a negative
  precision counts as none.
\<close>

definition printed :: "u64 \<Rightarrow> bytes \<Rightarrow> bytes" where
  "printed len bs =
     (let precision = sint (ucast len :: c_int)
      in if precision < 0 then c_text bs else c_text (take (nat precision) bs))"

text \<open>What \<open>snprintf\<close> leaves in a buffer.\<close>

definition snprintf :: "nat \<Rightarrow> bytes \<Rightarrow> bytes" where
  "snprintf capacity bs = take (capacity - 1) bs"

section \<open>Data\<close>

record lp_frame_desc =
  fd_kind :: lp_frame_kind
  fd_function :: pointer
  fd_cfunction :: pointer
  fd_source :: "bytes option"
  fd_source_length :: u64
  fd_name :: "bytes option"
  fd_name_length :: u64
  fd_linedefined :: c_int
  fd_currentline :: c_int
  fd_synthetic :: "bytes option"

record lp_export_function =
  ef_hash :: u64
  ef_id :: u64
  ef_kind :: lp_frame_kind
  ef_function :: pointer
  ef_cfunction :: pointer
  ef_source :: "bytes option"
  ef_source_length :: u64
  ef_linedefined :: c_int
  ef_synthetic :: "bytes option"
  ef_name :: u64
  ef_filename :: u64
  ef_mapping_index :: u32

record lp_export_mapping =
  ep_id :: u64
  ep_start :: u64
  ep_limit :: u64
  ep_offset :: u64
  ep_filename :: u64
  ep_has_functions :: bool
  ep_has_filenames :: bool
  ep_has_line_numbers :: bool

record lp_export_location =
  el_id :: u64
  el_function_index :: u32
  el_mapping_index :: u32
  el_line :: c_int
  el_address :: u64

text \<open>\<open>es_locations\<close> is the written part of the array.\<close>

record lp_export_sample =
  es_locations :: "u64 list"
  es_depth :: nat
  es_values :: "u64 list"

text \<open>The callback of \<open>lp_export_symbols\<close>: a text and the length it reports.\<close>

type_synonym lp_export_symbols = "(pointer \<Rightarrow> bytes option \<times> u64) option"

record lp_export_model =
  em_strings :: "bytes list"
  em_string_capacity :: nat
  em_functions :: "lp_export_function list"
  em_function_capacity :: nat
  em_function_hash :: "u32 list"
  em_locations :: "lp_export_location list"
  em_location_capacity :: nat
  em_location_hash :: "u32 list"
  em_samples :: "lp_export_sample list"
  em_sample_capacity :: nat
  em_mappings :: "lp_export_mapping list"
  em_mapping_capacity :: nat
  em_symbols :: "lp_export_symbols option"
  em_sample_names :: "bytes list"
  em_sample_units :: "bytes list"
  em_sample_name_indices :: "u64 list"
  em_value_count :: nat
  em_default_value :: nat
  em_period_type :: u64
  em_period_unit :: u64
  em_period :: u64
  em_comments :: "u64 list"
  em_failed :: bool
  em_failure :: bytes
  em_memory :: memory

definition LP_EXPORT_STACK_DEPTH :: nat where "LP_EXPORT_STACK_DEPTH = 65"
definition FUNCTION_HASH_BITS :: nat where "FUNCTION_HASH_BITS = 14"
definition LOCATION_HASH_BITS :: nat where "LOCATION_HASH_BITS = 18"
definition LP_EXPORT_COMMENT_CAPACITY :: nat where "LP_EXPORT_COMMENT_CAPACITY = 15"

definition zero_model :: "memory \<Rightarrow> lp_export_model" where
  "zero_model memory = \<lparr>em_strings = [], em_string_capacity = 0, em_functions = [], em_function_capacity = 0,
     em_function_hash = [], em_locations = [], em_location_capacity = 0, em_location_hash = [],
     em_samples = [], em_sample_capacity = 0, em_mappings = [], em_mapping_capacity = 0,
     em_symbols = None, em_sample_names = replicate 4 [], em_sample_units = replicate 4 [],
     em_sample_name_indices = replicate 4 0, em_value_count = 0, em_default_value = 0, em_period_type = 0,
     em_period_unit = 0, em_period = 0, em_comments = [], em_failed = False, em_failure = [],
     em_memory = memory\<rparr>"

section \<open>Strings and mappings\<close>

definition model_fail :: "string \<Rightarrow> lp_export_model \<Rightarrow> lp_export_model" where
  "model_fail message model =
     (if \<not> em_failed model then model\<lparr>em_failed := True, em_failure := snprintf 160 (ascii message)\<rparr> else model)"

text \<open>\<open>malloc\<close> and \<open>calloc\<close>.\<close>

definition model_alloc :: "lp_export_model \<Rightarrow> bool \<times> lp_export_model" where
  "model_alloc model = (let (got, m) = take_alloc (em_memory model) in (got, model\<lparr>em_memory := m\<rparr>))"

definition grow_strings :: "lp_export_model \<Rightarrow> bool \<times> lp_export_model" where
  "grow_strings model =
     (let (grown, capacity, m) = grow_array (em_string_capacity model) (length (em_strings model) + 1) 16 (em_memory model)
      in (grown, model\<lparr>em_string_capacity := capacity, em_memory := m\<rparr>))"

definition add_string :: "bytes \<Rightarrow> lp_export_model \<Rightarrow> u64 \<times> lp_export_model" where
  "add_string text model =
     (let (ready, model1) = (if em_failed model then (False, model) else grow_strings model)
      in if \<not> ready then (- 1, model_fail ''out of memory while building string table'' model1)
         else
           let (got, model2) = model_alloc model1
           in if \<not> got then (- 1, model_fail ''out of memory while copying profile string'' model2)
              else (of_nat (length (em_strings model2)), model2\<lparr>em_strings := em_strings model2 @ [text]\<rparr>))"

definition add_literal :: "bytes \<Rightarrow> lp_export_model \<Rightarrow> u64 \<times> lp_export_model" where
  "add_literal text = add_string (c_text text)"

text \<open>The test of the loop of \<open>intern_mapping\<close>.\<close>

definition same_mapping :: "lp_export_model \<Rightarrow> u64 \<Rightarrow> u64 \<Rightarrow> u64 \<Rightarrow> bytes \<Rightarrow> lp_export_mapping \<Rightarrow> bool" where
  "same_mapping model start limit offset filename mapping \<longleftrightarrow>
     ep_start mapping = start \<and> ep_limit mapping = limit \<and> ep_offset mapping = offset \<and>
     em_strings model ! unat (ep_filename mapping) = filename"

primrec first_index :: "('a \<Rightarrow> bool) \<Rightarrow> 'a list \<Rightarrow> nat option" where
  "first_index P [] = None"
| "first_index P (x # xs) = (if P x then Some 0 else map_option Suc (first_index P xs))"

definition intern_mapping ::
  "u64 \<Rightarrow> u64 \<Rightarrow> u64 \<Rightarrow> bytes \<Rightarrow> bool \<Rightarrow> bool \<Rightarrow> bool \<Rightarrow> lp_export_model \<Rightarrow> u32 \<times> lp_export_model" where
  "intern_mapping start limit offset filename has_functions has_filenames has_line_numbers model =
     (case first_index (same_mapping model start limit offset filename) (em_mappings model) of
        Some i \<Rightarrow>
          let mapping = em_mappings model ! i
          in (of_nat i, model\<lparr>em_mappings := (em_mappings model)[i := mapping
               \<lparr>ep_has_functions := ep_has_functions mapping \<or> has_functions,
                ep_has_filenames := ep_has_filenames mapping \<or> has_filenames,
                ep_has_line_numbers := ep_has_line_numbers mapping \<or> has_line_numbers\<rparr>]\<rparr>)
      | None \<Rightarrow>
          let (grown, capacity, m) = grow_array (em_mapping_capacity model) (length (em_mappings model) + 1) 48 (em_memory model);
              model1 = model\<lparr>em_mapping_capacity := capacity, em_memory := m\<rparr>
          in if \<not> grown then (- 1, model_fail ''out of memory while building mappings'' model1)
             else
               let (file_index, model2) = add_string filename model1
               in if file_index <s 0 then (- 1, model2)
                  else
                    let index = of_nat (length (em_mappings model2)) :: u32
                    in (index, model2\<lparr>em_mappings := em_mappings model2 @
                         [\<lparr>ep_id = ucast index + 1, ep_start = start, ep_limit = limit, ep_offset = offset,
                           ep_filename = file_index, ep_has_functions = has_functions,
                           ep_has_filenames = has_filenames, ep_has_line_numbers = has_line_numbers\<rparr>]\<rparr>))"

section \<open>Functions\<close>

definition export_frame_hash :: "lp_frame_desc \<Rightarrow> u64" where
  "export_frame_hash frame =
     (let hash = hash_bytes fnv_offset (le_bytes 4 (frame_kind_code (fd_kind frame)));
          hash = hash_bytes hash (le_bytes 8 (fd_function frame));
          hash = hash_bytes hash (le_bytes 8 (fd_cfunction frame));
          hash = hash_bytes hash (le_bytes 4 (fd_linedefined frame))
      in case fd_synthetic frame of
           Some synthetic \<Rightarrow> hash_bytes hash synthetic
         | None \<Rightarrow>
             (case fd_source frame of
                Some source \<Rightarrow> hash_bytes hash (take (unat (fd_source_length frame)) source)
              | None \<Rightarrow> hash))"

definition function_matches :: "lp_export_function \<Rightarrow> lp_frame_desc \<Rightarrow> u64 \<Rightarrow> bool" where
  "function_matches function frame hash =
     (if ef_hash function \<noteq> hash \<or> ef_kind function \<noteq> fd_kind frame \<or>
         ef_function function \<noteq> fd_function frame \<or> ef_cfunction function \<noteq> fd_cfunction frame \<or>
         ef_linedefined function \<noteq> fd_linedefined frame \<or>
         ef_source_length function \<noteq> fd_source_length frame
      then False
      else if ef_synthetic function \<noteq> None \<or> fd_synthetic frame \<noteq> None
      then ef_synthetic function \<noteq> None \<and> ef_synthetic function = fd_synthetic frame
      else ef_source_length function = 0 \<or>
        (case (ef_source function, fd_source frame) of
           (Some a, Some b) \<Rightarrow>
             take (unat (ef_source_length function)) a = take (unat (ef_source_length function)) b
         | _ \<Rightarrow> False))"

text \<open>The test \<open>text != NULL && length != 0\<close>.\<close>

definition present :: "bytes option \<Rightarrow> u64 \<Rightarrow> bytes option" where
  "present text len = (if len \<noteq> 0 then text else None)"

text \<open>The mark \<open>@\<close> or \<open>=\<close>, which Lua puts before a file or chunk name, is skipped.\<close>

definition skip_mark :: "bytes \<Rightarrow> u64 \<Rightarrow> bytes \<times> u64" where
  "skip_mark source len =
     (if (source ! 0 = 64 \<or> source ! 0 = 61) \<and> len > 1 then (drop 1 source, len - 1) else (source, len))"

definition lua_name_of :: "lp_export_symbols option \<Rightarrow> pointer \<Rightarrow> bytes option \<times> u64" where
  "lua_name_of symbols cfunction =
     (case symbols of
        Some (Some cfunction_name) \<Rightarrow> cfunction_name cfunction
      | _ \<Rightarrow> (None, 0))"

text \<open>The resolver always returns a value, so that the first case does not arise.\<close>

definition native_of :: "native_env \<Rightarrow> pointer \<Rightarrow> bool \<times> lp_native_symbol" where
  "native_of env address =
     (case lp_native_symbol_resolve env address of None \<Rightarrow> (False, zero_native_symbol) | Some r \<Rightarrow> r)"

text \<open>The contents of \<open>name\<close> and of \<open>filename\<close> at the end of \<open>format_function\<close>.\<close>

definition format_name :: "native_env \<Rightarrow> lp_export_symbols option \<Rightarrow> lp_frame_desc \<Rightarrow> bytes" where
  "format_name env symbols frame = snprintf 1200
     (case fd_synthetic frame of
        Some synthetic \<Rightarrow> synthetic
      | None \<Rightarrow>
          if fd_kind frame = LP_FRAME_C then
            let (lua, lua_length) = lua_name_of symbols (fd_cfunction frame);
                native = ns_name (snd (native_of env (fd_cfunction frame)));
                native_text = printed (of_nat (length native)) native
            in (case present lua lua_length of
                  Some lua_name \<Rightarrow>
                    if native \<noteq> [] \<and> (unat lua_length \<noteq> length native \<or> take (unat lua_length) lua_name \<noteq> native)
                    then printed lua_length lua_name @ ascii '' ['' @ native_text @ ascii '']''
                    else printed lua_length lua_name
                | None \<Rightarrow>
                    if native \<noteq> [] then native_text
                    else ascii ''lua_CFunction@0x'' @ hex_u64 (fd_cfunction frame))
          else
            (case present (fd_name frame) (fd_name_length frame) of
               Some name \<Rightarrow> printed (fd_name_length frame) name
             | None \<Rightarrow>
                 (case present (fd_source frame) (fd_source_length frame) of
                    Some marked \<Rightarrow>
                      let (source, len) = skip_mark marked (fd_source_length frame)
                      in if fd_linedefined frame = 0 then ascii ''main chunk''
                         else ascii ''lua:'' @ printed len source @ ascii '':'' @ decimal_int (fd_linedefined frame)
                  | None \<Rightarrow>
                      ascii ''lua_function@0x'' @ hex_u64 (fd_function frame) @ ascii '':'' @
                        decimal_int (fd_linedefined frame))))"

definition format_filename :: "native_env \<Rightarrow> lp_frame_desc \<Rightarrow> bytes" where
  "format_filename env frame =
     (if fd_synthetic frame \<noteq> None then ascii ''[luaprof]''
      else if fd_kind frame = LP_FRAME_C then
        let (native_found, native) = native_of env (fd_cfunction frame)
        in if native_found \<and> ns_path native \<noteq> [] then ns_path native else ascii ''[C]''
      else
        (case present (fd_source frame) (fd_source_length frame) of
           Some marked \<Rightarrow>
             let (source, len) = skip_mark marked (fd_source_length frame) in take (unat len) source
         | None \<Rightarrow> ascii ''[unknown]''))"

text \<open>The mapping of a C function; 0 is the one that stands for the profiler itself.\<close>

definition format_mapping :: "native_env \<Rightarrow> lp_frame_desc \<Rightarrow> lp_export_model \<Rightarrow> u32 \<times> lp_export_model" where
  "format_mapping env frame model =
     (if fd_synthetic frame = None \<and> fd_kind frame = LP_FRAME_C then
        let native = snd (native_of env (fd_cfunction frame))
        in if ns_has_mapping native \<and> ns_path native \<noteq> []
           then intern_mapping (ns_mapping_start native) (ns_mapping_limit native) (ns_mapping_offset native)
             (ns_path native) (snd (lua_name_of (em_symbols model) (fd_cfunction frame)) \<noteq> 0 \<or> ns_name native \<noteq> [])
             False False model
           else (0, model)
      else (0, model))"

text \<open>Success, the indices of name and filename, the index of the mapping.\<close>

definition format_function ::
  "native_env \<Rightarrow> lp_frame_desc \<Rightarrow> lp_export_model \<Rightarrow> (bool \<times> u64 \<times> u64 \<times> u32) \<times> lp_export_model" where
  "format_function env frame model =
     (let (mapping_index, model1) = format_mapping env frame model
      in if mapping_index = - 1 then ((False, - 1, - 1, mapping_index), model1)
         else
           let (name_index, model2) = add_literal (format_name env (em_symbols model) frame) model1;
               (filename_index, model3) = add_string (format_filename env frame) model2
           in ((\<not> em_failed model3, name_index, filename_index, mapping_index), model3))"

definition intern_function :: "native_env \<Rightarrow> lp_frame_desc \<Rightarrow> lp_export_model \<Rightarrow> u32 \<times> lp_export_model" where
  "intern_function env frame model =
     (let hash = export_frame_hash frame
      in case find_slot FUNCTION_HASH_BITS (\<lambda>stored. stored \<noteq> 0)
                (\<lambda>stored. function_matches (em_functions model ! unat (stored - 1)) frame hash)
                (em_function_hash model) hash of
           None \<Rightarrow> (- 1, model_fail ''function table capacity exceeded'' model)
         | Some slot \<Rightarrow>
             let stored = em_function_hash model ! slot
             in if stored \<noteq> 0 then (stored - 1, model)
                else
                  let (grown, capacity, m) = grow_array (em_function_capacity model)
                        (length (em_functions model) + 1) 96 (em_memory model);
                      model1 = model\<lparr>em_function_capacity := capacity, em_memory := m\<rparr>
                  in if \<not> grown then (- 1, model_fail ''out of memory while building functions'' model1)
                     else
                       let ((formatted, name, filename, mapping_index), model2) = format_function env frame model1
                       in if \<not> formatted then (- 1, model2)
                          else
                            let index = of_nat (length (em_functions model2)) :: u32
                            in (index, model2
                                 \<lparr>em_functions := em_functions model2 @
                                    [\<lparr>ef_hash = hash, ef_id = ucast index + 1, ef_kind = fd_kind frame,
                                      ef_function = fd_function frame, ef_cfunction = fd_cfunction frame,
                                      ef_source = fd_source frame, ef_source_length = fd_source_length frame,
                                      ef_linedefined = fd_linedefined frame, ef_synthetic = fd_synthetic frame,
                                      ef_name = name, ef_filename = filename, ef_mapping_index = mapping_index\<rparr>],
                                  em_function_hash := (em_function_hash model2)[slot := index + 1]\<rparr>))"

section \<open>Locations\<close>

definition location_hash :: "u32 \<Rightarrow> c_int \<Rightarrow> u64" where
  "location_hash function_index line =
     hash_bytes (hash_bytes fnv_offset (le_bytes 4 function_index)) (le_bytes 4 line)"

definition intern_location :: "native_env \<Rightarrow> lp_frame_desc \<Rightarrow> lp_export_model \<Rightarrow> u64 \<times> lp_export_model" where
  "intern_location env frame model0 =
     (let (function_index, model) = intern_function env frame model0
      in if function_index = - 1 then (0, model)
         else
           let line = (if 0 <s fd_currentline frame then fd_currentline frame else 0);
               hash = location_hash function_index line
           in case find_slot LOCATION_HASH_BITS (\<lambda>stored. stored \<noteq> 0)
                     (\<lambda>stored. let location = em_locations model ! unat (stored - 1)
                       in el_function_index location = function_index \<and> el_line location = line)
                     (em_location_hash model) hash of
                None \<Rightarrow> (0, model_fail ''location table capacity exceeded'' model)
              | Some slot \<Rightarrow>
                  let stored = em_location_hash model ! slot
                  in if stored \<noteq> 0 then (el_id (em_locations model ! unat (stored - 1)), model)
                     else
                       let (grown, capacity, m) = grow_array (em_location_capacity model)
                             (length (em_locations model) + 1) 32 (em_memory model);
                           model1 = model\<lparr>em_location_capacity := capacity, em_memory := m\<rparr>
                       in if \<not> grown then (0, model_fail ''out of memory while building locations'' model1)
                          else
                            let index = of_nat (length (em_locations model1)) :: u32
                            in (ucast index + 1, model1
                                 \<lparr>em_locations := em_locations model1 @
                                    [\<lparr>el_id = ucast index + 1, el_function_index = function_index,
                                      el_mapping_index = ef_mapping_index (em_functions model1 ! unat function_index),
                                      el_line = line,
                                      el_address = (if fd_kind frame = LP_FRAME_C then fd_cfunction frame else 0)\<rparr>],
                                  em_location_hash := (em_location_hash model1)[slot := index + 1]\<rparr>))"

section \<open>Samples\<close>

abbreviation (input) i64_max :: u64 where "i64_max \<equiv> 0x7fffffffffffffff"

definition clamp_i64 :: "u64 \<Rightarrow> u64" where
  "clamp_i64 value = (if value > i64_max then i64_max else value)"

definition multiply_i64 :: "u64 \<Rightarrow> u64 \<Rightarrow> u64" where
  "multiply_i64 left right = (if left \<noteq> 0 \<and> right > i64_max div left then i64_max else left * right)"

definition frame_desc :: "lp_frame_view \<Rightarrow> lp_frame_desc" where
  "frame_desc frame = \<lparr>fd_kind = fr_kind frame, fd_function = fr_function frame, fd_cfunction = fr_cfunction frame,
     fd_source = fr_source frame, fd_source_length = fr_source_length frame, fd_name = fr_name frame,
     fd_name_length = fr_name_length frame, fd_linedefined = fr_linedefined frame,
     fd_currentline = fr_currentline frame, fd_synthetic = None\<rparr>"

definition synthetic_desc :: "string \<Rightarrow> lp_frame_desc" where
  "synthetic_desc name = \<lparr>fd_kind = LP_FRAME_LUA, fd_function = NULL, fd_cfunction = NULL, fd_source = None,
     fd_source_length = 0, fd_name = None, fd_name_length = 0, fd_linedefined = 0, fd_currentline = 0,
     fd_synthetic = Some (ascii name)\<rparr>"

definition cfunction_desc :: "pointer \<Rightarrow> lp_frame_desc" where
  "cfunction_desc cfunction = \<lparr>fd_kind = LP_FRAME_C, fd_function = NULL, fd_cfunction = cfunction, fd_source = None,
     fd_source_length = 0, fd_name = None, fd_name_length = 0, fd_linedefined = - 1, fd_currentline = - 1,
     fd_synthetic = None\<rparr>"

text \<open>The loop over the frames of a sample, up to the first that fails; then success.\<close>

primrec intern_locations ::
  "native_env \<Rightarrow> lp_frame_desc list \<Rightarrow> lp_export_model \<Rightarrow> (bool \<times> u64 list) \<times> lp_export_model" where
  "intern_locations env [] model = ((True, []), model)"
| "intern_locations env (frame # frames) model =
     (let (location, model1) = intern_location env frame model
      in if location = 0 then ((False, [0]), model1)
         else let ((done_all, locations), model2) = intern_locations env frames model1
              in ((done_all, location # locations), model2))"

definition append_export_sample ::
  "native_env \<Rightarrow> lp_frame_desc list \<Rightarrow> u64 list \<Rightarrow> lp_export_model \<Rightarrow> bool \<times> lp_export_model" where
  "append_export_sample env frames values model =
     (let (grown, capacity, m) =
            (if length frames > LP_EXPORT_STACK_DEPTH then (False, em_sample_capacity model, em_memory model)
             else grow_array (em_sample_capacity model) (length (em_samples model) + 1) 560 (em_memory model));
          model1 = model\<lparr>em_sample_capacity := capacity, em_memory := m\<rparr>
      in if \<not> grown then (False, model_fail ''out of memory while building samples'' model1)
         else
           let index = length (em_samples model1);
               sample = \<lparr>es_locations = [], es_depth = 0, es_values = replicate 4 0\<rparr>;
               ((done_all, locations), model2) =
                 intern_locations env frames (model1\<lparr>em_samples := em_samples model1 @ [sample]\<rparr>);
               sample1 = sample\<lparr>es_locations := locations\<rparr>;
               sample2 = (if done_all
                 then sample1\<lparr>es_depth := length frames,
                   es_values := take (em_value_count model2) values @ replicate (4 - em_value_count model2) 0\<rparr>
                 else sample1)
           in (done_all, model2\<lparr>em_samples := (em_samples model2)[index := sample2]\<rparr>))"

text \<open>
  \<open>captured[j]\<close>: a frame of the sample, or a zeroed Lua frame where the result has none.
\<close>

definition captured_frame :: "lp_result \<Rightarrow> nat \<Rightarrow> nat \<Rightarrow> lp_frame_view" where
  "captured_frame res i j = (case lp_result_cpu_frame res i j of None \<Rightarrow> zero_frame | Some frame \<Rightarrow> frame)"

text \<open>The value of \<open>captured_start\<close> after the loop.\<close>

definition captured_start :: "lp_cpu_sample_view \<Rightarrow> lp_frame_view list \<Rightarrow> nat" where
  "captured_start sample captured =
     fold (\<lambda>j start. if csv_state sample = LP_VM_C \<and> csv_cfunction sample \<noteq> NULL \<and> start = 0 \<and>
         fr_kind (captured ! j) = LP_FRAME_C \<and> fr_cfunction (captured ! j) = csv_cfunction sample
       then j + 1 else start) [0..<length captured] 0"

definition captured_desc :: "lp_frame_view \<Rightarrow> lp_frame_desc" where
  "captured_desc frame =
     (if fr_source frame = None \<and> fr_function frame = NULL \<and> fr_cfunction frame = NULL
      then synthetic_desc ''[unknown frame]'' else frame_desc frame)"

text \<open>The array \<open>frames\<close> that is appended for a sample.\<close>

definition cpu_frames :: "lp_result \<Rightarrow> nat \<Rightarrow> lp_cpu_sample_view \<Rightarrow> lp_frame_desc list" where
  "cpu_frames res i sample =
     (let captured = map (captured_frame res i) [0..<csv_depth sample];
          frames0 = (if csv_state sample = LP_VM_HOST then [synthetic_desc ''[host]'']
                     else if csv_state sample = LP_VM_GC then [synthetic_desc ''[gc]''] else []);
          frames1 = (if csv_state sample = LP_VM_C \<and> csv_cfunction sample \<noteq> NULL
                     then frames0 @ [cfunction_desc (csv_cfunction sample)] else frames0);
          frames2 = frames1 @ take (LP_EXPORT_STACK_DEPTH - length frames1)
                      (map captured_desc (drop (captured_start sample captured) captured))
      in if frames2 = [] then [synthetic_desc ''[lua]''] else frames2)"

definition build_cpu_sample :: "native_env \<Rightarrow> lp_result \<Rightarrow> u64 \<Rightarrow> nat \<Rightarrow> lp_export_model \<Rightarrow> bool \<times> lp_export_model" where
  "build_cpu_sample env res period i model =
     (case lp_result_cpu_sample res i of
        None \<Rightarrow> (False, model_fail ''invalid CPU sample view'' model)
      | Some sample \<Rightarrow>
          if csv_depth sample \<ge> LP_EXPORT_STACK_DEPTH
          then (False, model_fail ''CPU sample stack is too deep'' model)
          else append_export_sample env (cpu_frames res i sample)
            [clamp_i64 (csv_weight sample), multiply_i64 (csv_weight sample) period, 0, 0] model)"

text \<open>A \<open>for\<close> loop whose body may return false.\<close>

primrec while_ok :: "('a \<Rightarrow> 'm \<Rightarrow> bool \<times> 'm) \<Rightarrow> 'a list \<Rightarrow> 'm \<Rightarrow> bool \<times> 'm" where
  "while_ok body [] model = (True, model)"
| "while_ok body (i # indices) model =
     (let (ok, model1) = body i model in if ok then while_ok body indices model1 else (False, model1))"

definition build_cpu_samples :: "native_env \<Rightarrow> lp_result \<Rightarrow> lp_export_model \<Rightarrow> bool \<times> lp_export_model" where
  "build_cpu_samples env res =
     while_ok (build_cpu_sample env res (1000000000 div ucast (cfg_sample_hz (res_config res))))
       [0..<lp_result_cpu_sample_count res]"

definition memory_frames :: "lp_result \<Rightarrow> nat \<Rightarrow> lp_memory_sample_view \<Rightarrow> lp_frame_desc list" where
  "memory_frames res i sample =
     (let frames = map (\<lambda>j. case lp_result_memory_frame res i j of
            None \<Rightarrow> synthetic_desc ''[unknown frame]''
          | Some captured \<Rightarrow> frame_desc captured) [0..<msv_depth sample]
      in if frames = [] then [synthetic_desc ''[allocation]''] else frames)"

definition build_memory_sample :: "native_env \<Rightarrow> lp_result \<Rightarrow> nat \<Rightarrow> lp_export_model \<Rightarrow> bool \<times> lp_export_model" where
  "build_memory_sample env res i model =
     (case lp_result_memory_sample res i of
        None \<Rightarrow> (False, model_fail ''invalid memory sample view'' model)
      | Some sample \<Rightarrow>
          if msv_depth sample \<ge> LP_EXPORT_STACK_DEPTH
          then (False, model_fail ''memory sample stack is too deep'' model)
          else append_export_sample env (memory_frames res i sample)
            [clamp_i64 (msv_alloc_objects sample), clamp_i64 (msv_alloc_space sample),
             clamp_i64 (msv_inuse_objects sample), clamp_i64 (msv_inuse_space sample)] model)"

definition build_memory_samples :: "native_env \<Rightarrow> lp_result \<Rightarrow> lp_export_model \<Rightarrow> bool \<times> lp_export_model" where
  "build_memory_samples env res =
     while_ok (build_memory_sample env res) [0..<lp_result_memory_sample_count res]"

section \<open>The model of a result\<close>

definition select_metric :: "bytes option \<Rightarrow> lp_export_model \<Rightarrow> bool \<times> lp_export_model" where
  "select_metric requested model =
     (case requested of
        None \<Rightarrow> (True, model)
      | Some name \<Rightarrow>
          (case first_index (\<lambda>sample_name. name = sample_name) (take (em_value_count model) (em_sample_names model)) of
             Some i \<Rightarrow> (True, model\<lparr>em_default_value := i\<rparr>)
           | None \<Rightarrow> (False, model_fail ''sample is not available for this result kind'' model)))"

definition add_comment :: "bytes \<Rightarrow> lp_export_model \<Rightarrow> lp_export_model" where
  "add_comment text model =
     (if length (em_comments model) = LP_EXPORT_COMMENT_CAPACITY then model_fail ''too many profile comments'' model
      else let (index, model1) = add_literal text model
           in model1\<lparr>em_comments := em_comments model1 @ [index]\<rparr>)"

definition cpu_quality_fields :: "lp_result \<Rightarrow> (string \<times> u64) list" where
  "cpu_quality_fields res =
     (let stats = res_stats res
      in [(''sample_hz'', ucast (cfg_sample_hz (res_config res))),
          (''samples'', st_samples stats),
          (''overrun_events'', st_overrun_events stats),
          (''overrun_ticks'', st_overrun_ticks stats),
          (''dropped_events'', st_dropped_events stats),
          (''unstable_events'', st_unstable_events stats),
          (''profiler_overhead_events'', st_profiler_overhead_events stats),
          (''stale_events'', st_stale_events stats),
          (''timer_failures'', st_timer_failures stats),
          (''stack_truncations'', st_stack_truncations stats),
          (''aggregate_overflows'', st_aggregate_overflows stats),
          (''symbol_overflows'', st_symbol_overflows stats),
          (''scheduler_workers'', st_scheduler_workers stats)])"

definition quality_text :: "string \<times> u64 \<Rightarrow> bytes" where
  "quality_text entry = ascii ''luaprof.cpu.'' @ ascii (fst entry) @ ascii ''='' @ decimal_u64 (snd entry)"

primrec add_quality_fields :: "(string \<times> u64) list \<Rightarrow> lp_export_model \<Rightarrow> lp_export_model" where
  "add_quality_fields [] model = model"
| "add_quality_fields (entry # entries) model =
     (if length (quality_text entry) \<ge> 96 then model_fail ''cannot format CPU quality metadata'' model
      else add_quality_fields entries (add_comment (quality_text entry) model))"

definition add_cpu_quality :: "lp_result \<Rightarrow> lp_export_model \<Rightarrow> lp_export_model" where
  "add_cpu_quality res model =
     add_quality_fields (cpu_quality_fields res) (add_comment (ascii ''luaprof.metadata.version=1'') model)"

text \<open>The metadata of the two kinds of result.\<close>

definition cpu_metadata :: "lp_result \<Rightarrow> lp_export_model \<Rightarrow> lp_export_model" where
  "cpu_metadata res model0 =
     (let model = model0\<lparr>em_sample_names := [ascii ''samples'', ascii ''cpu'', [], []],
            em_sample_units := [ascii ''count'', ascii ''nanoseconds'', [], []],
            em_value_count := 2, em_default_value := 1\<rparr>;
          (period_type, model1) = add_literal (ascii ''cpu'') model;
          (period_unit, model2) = add_literal (ascii ''nanoseconds'') model1;
          model3 = model2\<lparr>em_period_type := period_type, em_period_unit := period_unit,
            em_period := 1000000000 div ucast (cfg_sample_hz (res_config res))\<rparr>
      in add_cpu_quality res (add_comment (ascii ''luaprof CPU sampling profile'') model3))"

definition memory_metadata :: "lp_result \<Rightarrow> lp_export_model \<Rightarrow> lp_export_model" where
  "memory_metadata res model0 =
     (let model = model0\<lparr>em_sample_names := [ascii ''alloc_objects'', ascii ''alloc_space'',
              ascii ''inuse_objects'', ascii ''inuse_space''],
            em_sample_units := [ascii ''count'', ascii ''bytes'', ascii ''count'', ascii ''bytes''],
            em_value_count := 4, em_default_value := (if cfg_track_free (res_config res) then 3 else 1)\<rparr>;
          (period_type, model1) = add_literal (ascii ''space'') model;
          (period_unit, model2) = add_literal (ascii ''bytes'') model1;
          model3 = model2\<lparr>em_period_type := period_type, em_period_unit := period_unit,
            em_period := clamp_i64 (cfg_sample_bytes (res_config res))\<rparr>
      in add_comment (ascii ''luaprof memory sampling profile'') model3)"

text \<open>The loop over the values: the name's index is kept, the unit only added.\<close>

definition add_value_name :: "nat \<Rightarrow> lp_export_model \<Rightarrow> lp_export_model" where
  "add_value_name i model =
     (let (index, model1) = add_literal (em_sample_names model ! i) model;
          model2 = model1\<lparr>em_sample_name_indices := (em_sample_name_indices model1)[i := index]\<rparr>
      in snd (add_literal (em_sample_units model2 ! i) model2))"

text \<open>The two tables of \<open>calloc\<close>; both calls are made before the check.\<close>

definition model_tables :: "lp_export_model \<Rightarrow> bool \<times> lp_export_model" where
  "model_tables model =
     (let (got_functions, model1) = model_alloc model; (got_locations, model2) = model_alloc model1
      in if \<not> got_functions \<or> \<not> got_locations
         then (False, model_fail ''out of memory while creating export tables'' model2)
         else (True, model2\<lparr>em_function_hash := replicate (2 ^ FUNCTION_HASH_BITS) 0,
                em_location_hash := replicate (2 ^ LOCATION_HASH_BITS) 0\<rparr>))"

definition model_init ::
  "native_env \<Rightarrow> memory \<Rightarrow> lp_result \<Rightarrow> bytes option \<Rightarrow> lp_export_symbols option \<Rightarrow> bool \<times> lp_export_model" where
  "model_init env memory res sample_type symbols =
     (let model = (zero_model memory)\<lparr>em_symbols := symbols\<rparr>
      in if res_kind res = LP_COLLECTOR_CPU \<and> cfg_sample_hz (res_config res) = 0 \<or>
            res_kind res = LP_COLLECTOR_MEMORY \<and> cfg_sample_bytes (res_config res) = 0
         then (False, model_fail ''invalid result sampling configuration'' model)
         else
           let (got, model1) = model_tables model
           in if \<not> got then (False, model1)
              else
                let (_, model2) = add_literal [] model1;
                    (mapping, model3) = intern_mapping 0 0 0 (ascii ''luaprof'') True True True model2
                in if mapping = - 1 then (False, model3)
                   else if res_kind res \<noteq> LP_COLLECTOR_CPU \<and> res_kind res \<noteq> LP_COLLECTOR_MEMORY
                   then (False, model_fail ''invalid result kind'' model3)
                   else
                     let model4 = (if res_kind res = LP_COLLECTOR_CPU then cpu_metadata res model3
                                   else memory_metadata res model3);
                         model5 = fold add_value_name [0..<em_value_count model4] model4;
                         (selected, model6) = select_metric sample_type model5
                     in if \<not> selected \<or> em_failed model6 then (False, model6)
                        else if res_kind res = LP_COLLECTOR_CPU then build_cpu_samples env res model6
                        else build_memory_samples env res model6)"

end
