(* ===== verification/Pprof_Refinement.thy ===== *)
theory Pprof_Refinement
  imports Pprof_Model "HOL-Library.Sublist"
begin

text \<open>
  What the export model means. Every index in it is valid: a location names a function and a
  mapping that exist, a function its name and file in the string table, a sample only
  locations that exist. And it represents the result it was built from: each sample's
  locations denote, one by one, the frames that the exporter derived for it, in order, with
  its values. The name of a function is the formatted name of a frame of that function.
\<close>

unbundle bit_operations_syntax

section \<open>What a location denotes\<close>

type_synonym function_key = "lp_frame_kind \<times> pointer \<times> pointer \<times> c_int \<times> u64 \<times> bytes option \<times> bytes"

definition source_text :: "bytes option \<Rightarrow> u64 \<Rightarrow> bytes option \<Rightarrow> bytes" where
  "source_text source len synthetic =
     (if synthetic \<noteq> None then [] else case source of None \<Rightarrow> [] | Some bs \<Rightarrow> take (unat len) bs)"

definition function_key :: "lp_export_function \<Rightarrow> function_key" where
  "function_key f = (ef_kind f, ef_function f, ef_cfunction f, ef_linedefined f, ef_source_length f,
     ef_synthetic f, source_text (ef_source f) (ef_source_length f) (ef_synthetic f))"

definition desc_key :: "lp_frame_desc \<Rightarrow> function_key" where
  "desc_key d = (fd_kind d, fd_function d, fd_cfunction d, fd_linedefined d, fd_source_length d,
     fd_synthetic d, source_text (fd_source d) (fd_source_length d) (fd_synthetic d))"

lemma function_matches_key: "function_matches f d h \<Longrightarrow> function_key f = desc_key d"
  by (auto simp: function_matches_def function_key_def desc_key_def source_text_def
      split: if_splits option.splits prod.splits)

definition shown_line :: "lp_frame_desc \<Rightarrow> c_int" where
  "shown_line d = (if 0 <s fd_currentline d then fd_currentline d else 0)"

definition shown_address :: "lp_frame_desc \<Rightarrow> u64" where
  "shown_address d = (if fd_kind d = LP_FRAME_C then fd_cfunction d else 0)"

definition denotes :: "lp_export_model \<Rightarrow> u64 \<Rightarrow> lp_frame_desc \<Rightarrow> bool" where
  "denotes model loc d \<longleftrightarrow>
     loc \<noteq> 0 \<and> unat loc \<le> length (em_locations model) \<and>
     (let location = em_locations model ! (unat loc - 1)
      in unat (el_function_index location) < length (em_functions model) \<and>
         function_key (em_functions model ! unat (el_function_index location)) = desc_key d \<and>
         el_line location = shown_line d \<and> el_address location = shown_address d)"

definition sample_denotes :: "lp_export_model \<Rightarrow> lp_export_sample \<Rightarrow> lp_frame_desc list \<times> u64 list \<Rightarrow> bool" where
  "sample_denotes model s spec \<longleftrightarrow>
     es_depth s = length (fst spec) \<and> list_all2 (denotes model) (es_locations s) (fst spec) \<and>
     es_values s = take (em_value_count model) (snd spec) @ replicate (4 - em_value_count model) 0"

section \<open>Invariant\<close>

definition string_at :: "lp_export_model \<Rightarrow> u64 \<Rightarrow> bytes \<Rightarrow> bool" where
  "string_at model w text \<longleftrightarrow> unat w < length (em_strings model) \<and> em_strings model ! unat w = text"

definition strings_ok :: "lp_export_model \<Rightarrow> bool" where
  "strings_ok model \<longleftrightarrow>
     length (em_strings model) \<le> em_string_capacity model \<and> em_string_capacity model \<le> u64_max div 16"

definition mappings_ok :: "lp_export_model \<Rightarrow> bool" where
  "mappings_ok model \<longleftrightarrow>
     (\<forall>i<length (em_mappings model). ep_id (em_mappings model ! i) = of_nat (i + 1) \<and>
        unat (ep_filename (em_mappings model ! i)) < length (em_strings model))"

text \<open>The mapping that belongs to a frame: that of its native symbol, or the first.\<close>

definition mapping_for :: "native_env \<Rightarrow> lp_export_model \<Rightarrow> lp_frame_desc \<Rightarrow> nat \<Rightarrow> bool" where
  "mapping_for env model d i \<longleftrightarrow>
     i < length (em_mappings model) \<and>
     (let native = snd (native_of env (fd_cfunction d)); mapping = em_mappings model ! i
      in if fd_synthetic d = None \<and> fd_kind d = LP_FRAME_C \<and> ns_has_mapping native \<and> ns_path native \<noteq> []
         then ep_start mapping = ns_mapping_start native \<and> ep_limit mapping = ns_mapping_limit native \<and>
           ep_offset mapping = ns_mapping_offset native \<and> string_at model (ep_filename mapping) (ns_path native)
         else i = 0)"

definition function_ok :: "native_env \<Rightarrow> lp_export_model \<Rightarrow> lp_export_function \<Rightarrow> bool" where
  "function_ok env model f \<longleftrightarrow>
     (\<exists>d. desc_key d = function_key f \<and>
        string_at model (ef_name f) (c_text (format_name env (em_symbols model) d)) \<and>
        string_at model (ef_filename f) (format_filename env d) \<and>
        mapping_for env model d (unat (ef_mapping_index f)))"

definition functions_ok :: "native_env \<Rightarrow> lp_export_model \<Rightarrow> bool" where
  "functions_ok env model \<longleftrightarrow>
     (\<forall>i<length (em_functions model). ef_id (em_functions model ! i) = of_nat (i + 1) \<and>
        function_ok env model (em_functions model ! i))"

text \<open>A hash array of indices plus one into a list of \<open>n\<close> entries, each entered once.\<close>

definition index_table_ok :: "nat \<Rightarrow> nat \<Rightarrow> u32 list \<Rightarrow> bool" where
  "index_table_ok bits n tbl \<longleftrightarrow>
     length tbl = 2 ^ bits \<and> length (filter (\<lambda>s. s \<noteq> 0) tbl) = n \<and> (\<forall>s\<in>set tbl. unat s \<le> n)"

definition location_ok :: "lp_export_model \<Rightarrow> lp_export_location \<Rightarrow> bool" where
  "location_ok model l \<longleftrightarrow>
     unat (el_function_index l) < length (em_functions model) \<and>
     (let f = em_functions model ! unat (el_function_index l)
      in el_mapping_index l = ef_mapping_index f \<and>
         el_address l = (if ef_kind f = LP_FRAME_C then ef_cfunction f else 0))"

definition locations_ok :: "lp_export_model \<Rightarrow> bool" where
  "locations_ok model \<longleftrightarrow>
     (\<forall>i<length (em_locations model). el_id (em_locations model ! i) = of_nat (i + 1) \<and>
        location_ok model (em_locations model ! i))"

definition tables_ok :: "native_env \<Rightarrow> lp_export_model \<Rightarrow> bool" where
  "tables_ok env model \<longleftrightarrow>
     strings_ok model \<and> mappings_ok model \<and> functions_ok env model \<and> locations_ok model \<and>
     em_mappings model \<noteq> [] \<and> length (em_mappings model) \<le> length (em_functions model) + 1 \<and>
     index_table_ok FUNCTION_HASH_BITS (length (em_functions model)) (em_function_hash model) \<and>
     index_table_ok LOCATION_HASH_BITS (length (em_locations model)) (em_location_hash model)"

section \<open>Tables only grow\<close>

definition mapping_core :: "lp_export_mapping \<Rightarrow> u64 \<times> u64 \<times> u64 \<times> u64 \<times> u64" where
  "mapping_core mapping = (ep_id mapping, ep_start mapping, ep_limit mapping, ep_offset mapping, ep_filename mapping)"

definition em_header ::
  "lp_export_model \<Rightarrow> lp_export_symbols option \<times> bytes list \<times> bytes list \<times> u64 list \<times> nat \<times> nat \<times> u64 \<times> u64 \<times> u64 \<times> u64 list" where
  "em_header model = (em_symbols model, em_sample_names model, em_sample_units model, em_sample_name_indices model,
     em_value_count model, em_default_value model, em_period_type model, em_period_unit model, em_period model,
     em_comments model)"

definition extends :: "lp_export_model \<Rightarrow> lp_export_model \<Rightarrow> bool" where
  "extends m m' \<longleftrightarrow>
     prefix (em_strings m) (em_strings m') \<and> prefix (em_functions m) (em_functions m') \<and>
     prefix (em_locations m) (em_locations m') \<and>
     prefix (map mapping_core (em_mappings m)) (map mapping_core (em_mappings m')) \<and>
     em_header m' = em_header m"

lemma extends_refl [simp]: "extends m m"
  by (simp add: extends_def)

lemma extends_trans: "extends a b \<Longrightarrow> extends b c \<Longrightarrow> extends a c"
  by (auto simp: extends_def intro: prefix_order.trans)

lemma prefix_nth: "prefix xs ys \<Longrightarrow> i < length xs \<Longrightarrow> ys ! i = xs ! i"
  by (auto simp: prefix_def nth_append)

lemma extends_lengths:
  assumes "extends m m'"
  shows "length (em_strings m) \<le> length (em_strings m')" "length (em_functions m) \<le> length (em_functions m')"
    "length (em_locations m) \<le> length (em_locations m')" "length (em_mappings m) \<le> length (em_mappings m')"
  using assms by (auto simp: extends_def dest: prefix_length_le)

lemma extends_functions: "extends m m' \<Longrightarrow> i < length (em_functions m) \<Longrightarrow> em_functions m' ! i = em_functions m ! i"
  by (auto simp: extends_def intro: prefix_nth)

lemma extends_locations: "extends m m' \<Longrightarrow> i < length (em_locations m) \<Longrightarrow> em_locations m' ! i = em_locations m ! i"
  by (auto simp: extends_def intro: prefix_nth)

lemma extends_mappings:
  assumes "extends m m'" "i < length (em_mappings m)"
  shows "mapping_core (em_mappings m' ! i) = mapping_core (em_mappings m ! i)"
proof -
  have "prefix (map mapping_core (em_mappings m)) (map mapping_core (em_mappings m'))"
    using assms(1) by (simp add: extends_def)
  from prefix_nth [OF this, of i] extends_lengths(4) [OF assms(1)] assms(2) show ?thesis by simp
qed

lemma extends_symbols: "extends m m' \<Longrightarrow> em_symbols m' = em_symbols m"
  by (simp add: extends_def em_header_def)

lemma extends_string: "extends m m' \<Longrightarrow> string_at m w t \<Longrightarrow> string_at m' w t"
  using prefix_nth extends_lengths(1) by (fastforce simp: string_at_def extends_def)

lemma extends_mapping_for: "extends m m' \<Longrightarrow> mapping_for env m d i \<Longrightarrow> mapping_for env m' d i"
  using extends_lengths(4) [of m m'] extends_mappings [of m m' i] extends_string [of m m']
  by (auto simp: mapping_for_def Let_def mapping_core_def)

lemma extends_function_ok: "extends m m' \<Longrightarrow> function_ok env m f \<Longrightarrow> function_ok env m' f"
  unfolding function_ok_def using extends_symbols [of m m'] extends_string extends_mapping_for by metis

lemma extends_location_ok: "extends m m' \<Longrightarrow> location_ok m l \<Longrightarrow> location_ok m' l"
  using extends_lengths(2) [of m m'] extends_functions [of m m'] by (auto simp: location_ok_def Let_def)

lemma extends_denotes: "extends m m' \<Longrightarrow> denotes m loc d \<Longrightarrow> denotes m' loc d"
proof -
  assume e: "extends m m'" and d: "denotes m loc d"
  then have "unat loc \<noteq> 0" "unat loc \<le> length (em_locations m)" by (auto simp: denotes_def unat_eq_0)
  then have "unat loc - 1 < length (em_locations m)" by linarith
  then show "denotes m' loc d"
    using d extends_lengths(2,3) [OF e] extends_functions [OF e] extends_locations [OF e]
    by (auto simp: denotes_def Let_def)
qed

text \<open>Growing a list whose capacity is kept.\<close>

lemma grow_array_limit:
  assumes "grow_array capacity wanted item_size m = (True, c, m')" and "capacity \<le> u64_max div item_size"
  shows "wanted \<le> c \<and> c \<le> u64_max div item_size"
  using assms grow_array_enough [OF assms(1)]
  by (auto simp: grow_array_def split: if_splits option.splits prod.splits)

lemma add_string_cases:
  assumes "strings_ok m" and "add_string t m = (w, m')"
  obtains "w = - 1" "em_failed m'"
  | c mem where "m' = m\<lparr>em_string_capacity := c, em_memory := mem, em_strings := em_strings m @ [t]\<rparr>"
      "strings_ok m'" "unat w = length (em_strings m)" "\<not> w <s 0" "\<not> em_failed m"
proof (cases "w = - 1 \<and> em_failed m'")
  case True
  then show ?thesis using that(1) by simp
next
  case False
  obtain grown c mem where g: "grow_array (em_string_capacity m) (length (em_strings m) + 1) 16 (em_memory m) = (grown, c, mem)"
    by (rule prod_cases3)
  obtain got mem' where a: "take_alloc mem = (got, mem')" by fastforce
  have ok: "grown" "got" "\<not> em_failed m"
    using False assms(2) g a
    by (auto simp: add_string_def grow_strings_def model_alloc_def model_fail_def split: if_splits)
  have m': "m' = m\<lparr>em_string_capacity := c, em_memory := mem', em_strings := em_strings m @ [t]\<rparr>"
    and w: "w = of_nat (length (em_strings m))"
    using ok assms(2) g a by (simp_all add: add_string_def grow_strings_def model_alloc_def)
  have c: "length (em_strings m) + 1 \<le> c" "c \<le> u64_max div 16"
    using grow_array_limit [of "em_string_capacity m" "length (em_strings m) + 1" 16 "em_memory m" c mem] ok g assms(1)
    by (auto simp: strings_ok_def)
  have n: "unat w = length (em_strings m)"
    using c by (simp add: w unat_of_nat take_bit_nat_eq_self_iff)
  have "sint w = uint w"
    unfolding sint_uint by (rule signed_take_bit_int_eq_self) (use c n in \<open>simp_all flip: uint_nat add: uint_nat\<close>)
  then have "\<not> w <s 0" by (simp add: word_sless_alt)
  then show ?thesis using that(2) [of mem' c] m' n c ok by (auto simp: strings_ok_def)
qed

section \<open>Mappings\<close>

definition same_tables :: "lp_export_model \<Rightarrow> lp_export_model \<Rightarrow> bool" where
  "same_tables m m' \<longleftrightarrow>
     em_functions m' = em_functions m \<and> em_function_hash m' = em_function_hash m \<and>
     em_locations m' = em_locations m \<and> em_location_hash m' = em_location_hash m \<and>
     em_samples m' = em_samples m"

lemma same_tables_trans: "same_tables a b \<Longrightarrow> same_tables b c \<Longrightarrow> same_tables a c"
  by (simp add: same_tables_def)

lemma model_fail_simps [simp]:
  "em_functions (model_fail t m) = em_functions m" "em_strings (model_fail t m) = em_strings m"
  "em_samples (model_fail t m) = em_samples m" "em_comments (model_fail t m) = em_comments m"
  "em_failed (model_fail t m)"
  by (simp_all add: model_fail_def)

lemma first_index_Some: "first_index P xs = Some i \<Longrightarrow> i < length xs \<and> P (xs ! i)"
  by (induction xs arbitrary: i) (auto split: if_splits)

lemma ucast_plus_1: "unat w = n \<Longrightarrow> ucast w + 1 = (of_nat (n + 1) :: u64)" for w :: u32
  by auto

lemma intern_mapping_ok:
  assumes ok: "strings_ok m" "mappings_ok m" and n: "length (em_mappings m) < 4294967295"
    and r: "intern_mapping start limit offset file a b c m = (w, m')" and w: "w \<noteq> - 1"
  shows "strings_ok m' \<and> mappings_ok m' \<and> extends m m' \<and> same_tables m m' \<and>
    em_failed m' = em_failed m \<and> length (em_mappings m') \<le> length (em_mappings m) + 1 \<and>
    unat w < length (em_mappings m') \<and> ep_start (em_mappings m' ! unat w) = start \<and>
    ep_limit (em_mappings m' ! unat w) = limit \<and> ep_offset (em_mappings m' ! unat w) = offset \<and>
    string_at m' (ep_filename (em_mappings m' ! unat w)) file"
proof (cases "first_index (same_mapping m start limit offset file) (em_mappings m)")
  case (Some i)
  have i: "i < length (em_mappings m)" "same_mapping m start limit offset file (em_mappings m ! i)"
    using first_index_Some [OF Some] by auto
  let ?p = "(em_mappings m ! i)\<lparr>ep_has_functions := ep_has_functions (em_mappings m ! i) \<or> a,
    ep_has_filenames := ep_has_filenames (em_mappings m ! i) \<or> b,
    ep_has_line_numbers := ep_has_line_numbers (em_mappings m ! i) \<or> c\<rparr>"
  have m': "m' = m\<lparr>em_mappings := (em_mappings m)[i := ?p]\<rparr>" and w': "w = of_nat i"
    using r Some by (simp_all add: intern_mapping_def Let_def)
  have unat: "unat w = i" using i n by (simp add: w' unat_of_nat take_bit_nat_eq_self_iff)
  have core: "map mapping_core ((em_mappings m)[i := ?p]) = map mapping_core (em_mappings m)"
    using i by (intro nth_equalityI) (auto simp: nth_list_update mapping_core_def)
  have "mappings_ok m'"
    using ok(2) i(1) unfolding mappings_ok_def m' by (auto simp: nth_list_update)
  then show ?thesis
    using ok i unat core by (auto simp: m' strings_ok_def extends_def em_header_def same_tables_def string_at_def
        same_mapping_def mappings_ok_def)
next
  case None
  obtain grown cap mem where g: "grow_array (em_mapping_capacity m) (length (em_mappings m) + 1) 48 (em_memory m) = (grown, cap, mem)"
    by (rule prod_cases3)
  have grown using r w None g by (auto simp: intern_mapping_def Let_def split: if_splits)
  let ?m1 = "m\<lparr>em_mapping_capacity := cap, em_memory := mem\<rparr>"
  obtain idx m2 where s: "add_string file ?m1 = (idx, m2)" by fastforce
  have pos: "\<not> idx <s 0" using r w None g s \<open>grown\<close> by (auto simp: intern_mapping_def Let_def)
  have "strings_ok ?m1" using ok(1) by (simp add: strings_ok_def)
  then show ?thesis
  proof (rule add_string_cases [OF _ s])
    assume "idx = - 1" "em_failed m2"
    then show ?thesis using pos by (simp add: word_sless_alt)
  next
    fix c' mem'
    assume 2: "m2 = ?m1\<lparr>em_string_capacity := c', em_memory := mem', em_strings := em_strings ?m1 @ [file]\<rparr>"
      "strings_ok m2" "unat idx = length (em_strings ?m1)"
    let ?index = "of_nat (length (em_mappings m)) :: u32"
    let ?p = "\<lparr>ep_id = ucast ?index + 1, ep_start = start, ep_limit = limit, ep_offset = offset,
      ep_filename = idx, ep_has_functions = a, ep_has_filenames = b, ep_has_line_numbers = c\<rparr>"
    have m': "m' = m2\<lparr>em_mappings := em_mappings m @ [?p]\<rparr>" and w': "w = ?index"
      using r None g s \<open>grown\<close> pos 2(1) by (auto simp: intern_mapping_def Let_def)
    have unat: "unat w = length (em_mappings m)" using n by (simp add: w' unat_of_nat take_bit_nat_eq_self_iff)
    then have id: "ep_id ?p = of_nat (length (em_mappings m) + 1)" unfolding w' by (auto dest: ucast_plus_1)
    have "mappings_ok m'"
      using ok(2) 2(3) id unfolding mappings_ok_def m' 2(1)
      by (auto simp: nth_append less_Suc_eq intro: less_SucI simp del: of_nat_Suc lp_export_mapping.select_convs(1))
    then show ?thesis
      using ok 2 unat by (auto simp: m' strings_ok_def extends_def em_header_def same_tables_def string_at_def)
  qed
qed

section \<open>Functions\<close>

lemma add_string_ok:
  assumes "strings_ok m" "mappings_ok m" "add_string t m = (w, m')" "\<not> em_failed m'"
  shows "strings_ok m' \<and> mappings_ok m' \<and> extends m m' \<and> same_tables m m' \<and> em_mappings m' = em_mappings m \<and>
    string_at m' w t \<and> \<not> em_failed m"
proof (rule add_string_cases [OF assms(1,3)])
  assume "em_failed m'"
  then show ?thesis using assms(4) by simp
next
  fix c mem
  assume "m' = m\<lparr>em_string_capacity := c, em_memory := mem, em_strings := em_strings m @ [t]\<rparr>" "strings_ok m'"
    "unat w = length (em_strings m)" "\<not> em_failed m"
  then show ?thesis using assms(2)
    by (auto simp: extends_def em_header_def same_tables_def string_at_def mappings_ok_def)
qed

lemma format_mapping_ok:
  assumes ok: "strings_ok m" "mappings_ok m" "em_mappings m \<noteq> []" "length (em_mappings m) < 4294967295"
    and r: "format_mapping env d m = (w, m')" and w: "w \<noteq> - 1"
  shows "strings_ok m' \<and> mappings_ok m' \<and> extends m m' \<and> same_tables m m' \<and> em_failed m' = em_failed m \<and>
    length (em_mappings m') \<le> length (em_mappings m) + 1 \<and> mapping_for env m' d (unat w)"
proof (cases "fd_synthetic d = None \<and> fd_kind d = LP_FRAME_C \<and>
    ns_has_mapping (snd (native_of env (fd_cfunction d))) \<and> ns_path (snd (native_of env (fd_cfunction d))) \<noteq> []")
  case True
  then have "intern_mapping (ns_mapping_start (snd (native_of env (fd_cfunction d))))
      (ns_mapping_limit (snd (native_of env (fd_cfunction d)))) (ns_mapping_offset (snd (native_of env (fd_cfunction d))))
      (ns_path (snd (native_of env (fd_cfunction d))))
      (snd (lua_name_of (em_symbols m) (fd_cfunction d)) \<noteq> 0 \<or> ns_name (snd (native_of env (fd_cfunction d))) \<noteq> [])
      False False m = (w, m')"
    using r by (simp add: format_mapping_def Let_def)
  from intern_mapping_ok [OF ok(1,2,4) this w] show ?thesis using True by (simp add: mapping_for_def)
next
  case False
  then have "w = 0" "m' = m" using r by (auto simp: format_mapping_def Let_def split: if_splits)
  then show ?thesis using ok False by (auto simp: mapping_for_def same_tables_def)
qed

lemma format_function_ok:
  assumes ok: "strings_ok m" "mappings_ok m" "em_mappings m \<noteq> []" "length (em_mappings m) < 4294967295"
    and r: "format_function env d m = ((True, name, file, mi), m')"
  shows "strings_ok m' \<and> mappings_ok m' \<and> extends m m' \<and> same_tables m m' \<and>
    length (em_mappings m') \<le> length (em_mappings m) + 1 \<and> mapping_for env m' d (unat mi) \<and>
    string_at m' name (c_text (format_name env (em_symbols m) d)) \<and> string_at m' file (format_filename env d) \<and>
    \<not> em_failed m \<and> \<not> em_failed m'"
proof -
  obtain w m1 where 1: "format_mapping env d m = (w, m1)" by fastforce
  obtain name' m2 where 2: "add_string (c_text (format_name env (em_symbols m) d)) m1 = (name', m2)" by fastforce
  obtain file' m3 where 3: "add_string (format_filename env d) m2 = (file', m3)" by fastforce
  have w: "w \<noteq> - 1" and eqs: "name' = name" "file' = file" "w = mi" "m3 = m'" "\<not> em_failed m'"
    using r 1 2 3 by (auto simp: format_function_def add_literal_def split: if_splits)
  note a = format_mapping_ok [OF ok 1 w]
  have f2: "\<not> em_failed m2"
    using 3 eqs by (auto simp: add_string_def split: if_splits)
  note b = add_string_ok [OF _ _ 2 f2]
  note c = add_string_ok [OF _ _ 3]
  have "extends m m'" "extends m1 m'" "extends m2 m'"
    using a b c eqs by (meson extends_trans)+
  then show ?thesis
    using a b c eqs extends_mapping_for [of m1 m' env d "unat mi"] extends_string [of m2 m' name]
    by (auto intro: same_tables_trans)
qed

lemma find_slot_bound: "find_slot bits used matches tbl h = Some i \<Longrightarrow> bits \<le> 64 \<Longrightarrow> i < 2 ^ bits"
  unfolding find_slot_def by (auto dest!: probe_loop_Some intro: probe_index_less)

lemma find_slot_stop: "find_slot bits used matches tbl h = Some i \<Longrightarrow> \<not> used (tbl ! i) \<or> matches (tbl ! i)"
  unfolding find_slot_def by (auto dest!: probe_loop_Some)

text \<open>Entering one more list entry at a free slot of its hash array.\<close>

lemma index_table_entry:
  assumes "index_table_ok bits n tbl" and "i < 2 ^ bits" and "tbl ! i \<noteq> 0"
  shows "unat (tbl ! i - 1) < n"
proof -
  have "unat (tbl ! i) \<le> n" using assms by (simp add: index_table_ok_def)
  moreover have "unat (tbl ! i) \<noteq> 0" using assms(3) by (simp add: unat_eq_0)
  moreover have "unat (tbl ! i - 1) = unat (tbl ! i) - 1"
    using assms(3) by (simp add: unat_minus_one)
  ultimately show ?thesis by linarith
qed

lemma index_table_free:
  assumes "index_table_ok bits n tbl" and "i < 2 ^ bits" and "tbl ! i = 0"
  shows "n < 2 ^ bits"
proof -
  have "i < length tbl" using assms by (simp add: index_table_ok_def)
  then have "length (filter (\<lambda>s. s \<noteq> 0) tbl) < length tbl"
    using assms(3) nth_mem [of i tbl] by (intro length_filter_less [of "tbl ! i"]) simp_all
  then show ?thesis using assms by (simp add: index_table_ok_def)
qed

lemma index_table_insert:
  assumes "index_table_ok bits n tbl" and "i < 2 ^ bits" and "tbl ! i = 0" and "bits \<le> 20"
  shows "index_table_ok bits (Suc n) (tbl[i := of_nat n + 1])"
proof -
  have n: "n < 2 ^ bits" by (rule index_table_free [OF assms(1-3)])
  also have "(2 :: nat) ^ bits \<le> 2 ^ 20" using assms(4) by (intro power_increasing) simp_all
  finally have "n < 2 ^ 20" .
  then have u: "unat (of_nat n + 1 :: u32) = Suc n"
  proof -
    have "of_nat n + 1 = (of_nat (Suc n) :: u32)" by simp
    moreover have "unat (of_nat (Suc n) :: u32) = Suc n"
      using \<open>n < 2 ^ 20\<close> by (simp add: unat_of_nat del: of_nat_Suc)
    ultimately show ?thesis by (simp add: add.commute)
  qed
  then have nonzero: "of_nat n + 1 \<noteq> (0 :: u32)" by auto
  have "unat s \<le> Suc n" if "s \<in> set (tbl[i := of_nat n + 1])" for s
  proof (cases "s = of_nat n + 1")
    case True
    then show ?thesis using u by simp
  next
    case False
    then have "s \<in> set tbl" using that set_update_subset_insert [of tbl i "of_nat n + 1"] by auto
    then have "unat s \<le> n" using assms(1) by (simp add: index_table_ok_def)
    then show ?thesis by simp
  qed
  moreover have "length (filter (\<lambda>s. s \<noteq> 0) (tbl[i := of_nat n + 1])) = Suc n"
    using assms nonzero length_filter_update [of i tbl "\<lambda>s. s \<noteq> 0" "of_nat n + 1"] by (simp add: index_table_ok_def)
  ultimately show ?thesis using assms(1) by (simp add: index_table_ok_def)
qed

text \<open>Growing strings and mappings leaves functions and locations valid.\<close>

lemma functions_ok_extends: "functions_ok env m \<Longrightarrow> extends m m' \<Longrightarrow> em_functions m' = em_functions m \<Longrightarrow> functions_ok env m'"
  unfolding functions_ok_def using extends_function_ok by auto

lemma functions_ok_snoc:
  assumes "functions_ok env m" "extends m m'" "em_functions m' = em_functions m @ [f]"
    "ef_id f = of_nat (length (em_functions m) + 1)" "function_ok env m' f"
  shows "functions_ok env m'"
proof -
  have "ef_id (em_functions m' ! i) = of_nat (i + 1) \<and> function_ok env m' (em_functions m' ! i)"
    if "i < length (em_functions m')" for i
  proof (cases "i < length (em_functions m)")
    case True
    then show ?thesis using assms(1,3) extends_function_ok [OF assms(2)] by (auto simp: functions_ok_def nth_append)
  next
    case False
    then have "i = length (em_functions m)" using that assms(3) by simp
    then show ?thesis using assms(3-5) by simp
  qed
  then show ?thesis by (simp add: functions_ok_def)
qed

lemma locations_ok_extends: "locations_ok m \<Longrightarrow> extends m m' \<Longrightarrow> em_locations m' = em_locations m \<Longrightarrow> locations_ok m'"
  unfolding locations_ok_def using extends_location_ok by auto

lemma tables_ok_mappings:
  assumes "tables_ok env m"
  shows "length (em_mappings m) \<le> 16385"
proof -
  have "length (em_functions m) \<le> 16384"
    using assms length_filter_le [of "\<lambda>s. s \<noteq> 0" "em_function_hash m"]
    by (simp add: tables_ok_def index_table_ok_def FUNCTION_HASH_BITS_def)
  then show ?thesis using assms by (simp add: tables_ok_def)
qed

lemma extends_capacity: "extends m (m\<lparr>em_function_capacity := c, em_memory := mem\<rparr>)"
  by (simp add: extends_def em_header_def)

lemma intern_function_ok:
  assumes ok: "tables_ok env m" and r: "intern_function env d m = (w, m')" and w: "w \<noteq> - 1"
  shows "tables_ok env m' \<and> extends m m' \<and> em_samples m' = em_samples m \<and>
    unat w < length (em_functions m') \<and> function_key (em_functions m' ! unat w) = desc_key d"
proof -
  let ?h = "export_frame_hash d" and ?tbl = "em_function_hash m" and ?n = "length (em_functions m)"
  have tbl: "index_table_ok FUNCTION_HASH_BITS ?n ?tbl" using ok by (simp add: tables_ok_def)
  let ?find = "find_slot FUNCTION_HASH_BITS (\<lambda>stored. stored \<noteq> 0)
      (\<lambda>stored. function_matches (em_functions m ! unat (stored - 1)) d ?h) ?tbl ?h"
  obtain slot where f: "?find = Some slot"
    using r w by (cases ?find) (auto simp: intern_function_def)
  have slot: "slot < 2 ^ FUNCTION_HASH_BITS" using find_slot_bound [OF f] by (simp add: FUNCTION_HASH_BITS_def)
  show ?thesis
  proof (cases "?tbl ! slot = 0")
    case False
    then have "w = ?tbl ! slot - 1" "m' = m" using r f by (auto simp: intern_function_def Let_def)
    moreover have "function_matches (em_functions m ! unat (?tbl ! slot - 1)) d ?h"
      using find_slot_stop [OF f] False by simp
    ultimately show ?thesis
      using ok index_table_entry [OF tbl slot False] by (simp add: function_matches_key)
  next
    case True
    obtain grown cap mem where g: "grow_array (em_function_capacity m) (?n + 1) 96 (em_memory m) = (grown, cap, mem)"
      by (rule prod_cases3)
    let ?m1 = "m\<lparr>em_function_capacity := cap, em_memory := mem\<rparr>"
    obtain ok2 name filename mi m2 where ff: "format_function env d ?m1 = ((ok2, name, filename, mi), m2)"
      by (metis prod_cases4 surj_pair)
    have good: grown ok2 using r f True g ff w by (auto simp: intern_function_def Let_def split: if_splits)
    have m1: "strings_ok ?m1" "mappings_ok ?m1" "em_mappings ?m1 \<noteq> []" "length (em_mappings ?m1) < 4294967295"
      using ok tables_ok_mappings [OF ok] by (simp_all add: tables_ok_def strings_ok_def mappings_ok_def)
    note F = format_function_ok [OF m1 ff [unfolded good(2)[THEN eqTrueI]]]
    have same: "em_functions m2 = em_functions m" "em_function_hash m2 = ?tbl" "em_locations m2 = em_locations m"
      "em_location_hash m2 = em_location_hash m" "em_samples m2 = em_samples m"
      using F by (simp_all add: same_tables_def)
    let ?index = "of_nat ?n :: u32"
    let ?f = "\<lparr>ef_hash = ?h, ef_id = ucast ?index + 1, ef_kind = fd_kind d, ef_function = fd_function d,
      ef_cfunction = fd_cfunction d, ef_source = fd_source d, ef_source_length = fd_source_length d,
      ef_linedefined = fd_linedefined d, ef_synthetic = fd_synthetic d, ef_name = name, ef_filename = filename,
      ef_mapping_index = mi\<rparr>"
    have m': "m' = m2\<lparr>em_functions := em_functions m @ [?f], em_function_hash := ?tbl[slot := ?index + 1]\<rparr>"
      and w': "w = ?index"
      using r f True g ff good same by (auto simp: intern_function_def Let_def)
    have n: "?n < 2 ^ FUNCTION_HASH_BITS" by (rule index_table_free [OF tbl slot True])
    then have unat: "unat w = ?n"
      by (simp add: w' unat_of_nat take_bit_nat_eq_self_iff FUNCTION_HASH_BITS_def)
    have e2: "extends m m2" using F extends_trans [OF extends_capacity] by blast
    have e': "extends m2 m'" by (simp add: m' same extends_def em_header_def)
    then have e: "extends m m'" using e2 extends_trans by blast
    have key: "function_key ?f = desc_key d" by (simp add: function_key_def desc_key_def)
    have sym: "em_symbols m' = em_symbols m" by (rule extends_symbols [OF e])
    have fok: "function_ok env m' ?f"
      unfolding function_ok_def
      using F key extends_string [OF e'] extends_mapping_for [OF e'] sym
      by (intro exI [of _ d]) (simp del: )
    have "functions_ok env m'"
      using ok e fok unat by (intro functions_ok_snoc [of env m m' ?f]) (auto simp: tables_ok_def m' w' dest: ucast_plus_1)
    moreover have "locations_ok m'"
      using ok e by (intro locations_ok_extends [of m m']) (simp_all add: tables_ok_def m' same)
    moreover have "index_table_ok FUNCTION_HASH_BITS (Suc ?n) (?tbl[slot := ?index + 1])"
      by (rule index_table_insert [OF tbl slot True]) (simp add: FUNCTION_HASH_BITS_def)
    moreover have "strings_ok m'" "mappings_ok m'" using F by (simp_all add: m' strings_ok_def mappings_ok_def)
    moreover have "em_mappings m' \<noteq> []" using F by (auto simp: m' mapping_for_def)
    ultimately show ?thesis
      using ok e F unat key same by (simp add: tables_ok_def m')
  qed
qed

section \<open>Locations\<close>

lemma locations_ok_snoc:
  assumes "locations_ok m" "extends m m'" "em_locations m' = em_locations m @ [l]"
    "el_id l = of_nat (length (em_locations m) + 1)" "location_ok m' l"
  shows "locations_ok m'"
proof -
  have "el_id (em_locations m' ! i) = of_nat (i + 1) \<and> location_ok m' (em_locations m' ! i)"
    if "i < length (em_locations m')" for i
  proof (cases "i < length (em_locations m)")
    case True
    then show ?thesis using assms(1,3) extends_location_ok [OF assms(2)] by (auto simp: locations_ok_def nth_append)
  next
    case False
    then have "i = length (em_locations m)" using that assms(3) by simp
    then show ?thesis using assms(3-5) by simp
  qed
  then show ?thesis by (simp add: locations_ok_def)
qed

lemma tables_ok_locations:
  assumes "tables_ok env m"
  shows "length (em_locations m) \<le> 262144"
  using assms length_filter_le [of "\<lambda>s. s \<noteq> 0" "em_location_hash m"]
  by (simp add: tables_ok_def index_table_ok_def LOCATION_HASH_BITS_def)

text \<open>A location whose function and line are the frame's denotes it.\<close>

lemma denotes_index:
  assumes "locations_ok m" "i < length (em_locations m)" "length (em_locations m) \<le> 262144"
    and "function_key (em_functions m ! unat (el_function_index (em_locations m ! i))) = desc_key d"
    and "el_line (em_locations m ! i) = shown_line d"
  shows "denotes m (el_id (em_locations m ! i)) d"
proof -
  have l: "el_id (em_locations m ! i) = of_nat (i + 1)" "location_ok m (em_locations m ! i)"
    using assms(1,2) by (simp_all add: locations_ok_def)
  have u: "unat (of_nat (i + 1) :: u64) = i + 1" using assms(2,3) by (simp add: unat_of_nat take_bit_nat_eq_self_iff del: of_nat_Suc of_nat_add)
  have "of_nat (i + 1) \<noteq> (0 :: u64)" using u by (metis add_is_0 unat_0 zero_neq_one)
  moreover have "ef_kind (em_functions m ! unat (el_function_index (em_locations m ! i))) = fd_kind d"
    "ef_cfunction (em_functions m ! unat (el_function_index (em_locations m ! i))) = fd_cfunction d"
    using assms(4) by (auto simp: function_key_def desc_key_def)
  ultimately show ?thesis
    unfolding denotes_def l(1) u Let_def
    using assms l(2) by (simp add: location_ok_def Let_def shown_address_def)
qed

lemma intern_location_ok:
  assumes ok: "tables_ok env m0" and r: "intern_location env d m0 = (w, m')" and w: "w \<noteq> 0"
  shows "tables_ok env m' \<and> extends m0 m' \<and> em_samples m' = em_samples m0 \<and> denotes m' w d"
proof -
  obtain fi m where fi: "intern_function env d m0 = (fi, m)" by fastforce
  have nz: "fi \<noteq> - 1" using r w fi by (auto simp: intern_location_def)
  note F = intern_function_ok [OF ok fi nz]
  let ?line = "shown_line d" and ?tbl = "em_location_hash m" and ?n = "length (em_locations m)"
  let ?h = "location_hash fi ?line"
  have tbl: "index_table_ok LOCATION_HASH_BITS ?n ?tbl" using F by (simp add: tables_ok_def)
  let ?find = "find_slot LOCATION_HASH_BITS (\<lambda>stored. stored \<noteq> 0)
      (\<lambda>stored. let location = em_locations m ! unat (stored - 1)
        in el_function_index location = fi \<and> el_line location = ?line) ?tbl ?h"
  obtain slot where f: "?find = Some slot"
    using r w fi nz by (cases ?find) (auto simp: intern_location_def shown_line_def Let_def)
  have slot: "slot < 2 ^ LOCATION_HASH_BITS" using find_slot_bound [OF f] by (simp add: LOCATION_HASH_BITS_def)
  show ?thesis
  proof (cases "?tbl ! slot = 0")
    case False
    let ?i = "unat (?tbl ! slot - 1)"
    have r': "w = el_id (em_locations m ! ?i)" "m' = m"
      using r f fi nz False by (auto simp: intern_location_def shown_line_def [symmetric] Let_def)
    have i: "?i < ?n" by (rule index_table_entry [OF tbl slot False])
    have "el_function_index (em_locations m ! ?i) = fi" "el_line (em_locations m ! ?i) = ?line"
      using find_slot_stop [OF f] False by (simp_all add: Let_def)
    then show ?thesis
      using F i tables_ok_locations [of env m] by (auto simp: r' tables_ok_def intro!: denotes_index)
  next
    case True
    obtain grown cap mem where g: "grow_array (em_location_capacity m) (?n + 1) 32 (em_memory m) = (grown, cap, mem)"
      by (rule prod_cases3)
    have good: grown using r f fi nz True g w by (auto simp: intern_location_def shown_line_def [symmetric] Let_def split: if_splits)
    let ?index = "of_nat ?n :: u32"
    let ?l = "\<lparr>el_id = ucast ?index + 1, el_function_index = fi,
      el_mapping_index = ef_mapping_index (em_functions m ! unat fi), el_line = ?line, el_address = shown_address d\<rparr>"
    have m': "m' = m\<lparr>em_location_capacity := cap, em_memory := mem, em_locations := em_locations m @ [?l],
        em_location_hash := ?tbl[slot := ?index + 1]\<rparr>" and w': "w = ucast ?index + 1"
      using r f fi nz True g good
      by (auto simp: intern_location_def shown_line_def [symmetric] shown_address_def Let_def)
    have n: "?n < 2 ^ LOCATION_HASH_BITS" by (rule index_table_free [OF tbl slot True])
    then have unat: "unat ?index = ?n"
      by (simp add: unat_of_nat take_bit_nat_eq_self_iff LOCATION_HASH_BITS_def)
    have e: "extends m m'" by (simp add: m' extends_def em_header_def)
    have id: "el_id ?l = of_nat (?n + 1)" using unat by (auto dest: ucast_plus_1)
    have kinds: "ef_kind (em_functions m ! unat fi) = fd_kind d" "ef_cfunction (em_functions m ! unat fi) = fd_cfunction d"
      using F by (auto simp: function_key_def desc_key_def)
    have lok: "location_ok m' ?l"
      using F kinds by (simp add: location_ok_def Let_def m' shown_address_def)
    have locs: "locations_ok m'"
      by (rule locations_ok_snoc [OF _ e _ id lok]) (use F in \<open>simp_all add: tables_ok_def m'\<close>)
    have "functions_ok env m'"
      using F e by (intro functions_ok_extends [of env m m']) (simp_all add: tables_ok_def m')
    moreover have "index_table_ok LOCATION_HASH_BITS (Suc ?n) (?tbl[slot := ?index + 1])"
      by (rule index_table_insert [OF tbl slot True]) (simp add: LOCATION_HASH_BITS_def)
    ultimately have t: "tables_ok env m'"
      using F locs by (simp add: tables_ok_def m' strings_ok_def mappings_ok_def)
    have "denotes m' (el_id (em_locations m' ! ?n)) d"
      using F locs n tables_ok_locations [OF t] by (intro denotes_index) (simp_all add: m')
    then show ?thesis using t F e w' extends_trans [of m0 m m'] by (simp add: m')
  qed
qed

section \<open>Samples\<close>

lemma intern_locations_ok:
  assumes "tables_ok env m" and "intern_locations env frames m = ((True, locs), m')"
  shows "tables_ok env m' \<and> extends m m' \<and> em_samples m' = em_samples m \<and> list_all2 (denotes m') locs frames"
  using assms
proof (induction frames arbitrary: m locs)
  case Nil
  then show ?case by simp
next
  case (Cons d frames)
  obtain w m1 where 1: "intern_location env d m = (w, m1)" by fastforce
  obtain b locs' m2 where 2: "intern_locations env frames m1 = ((b, locs'), m2)" by (metis surj_pair)
  have r: "w \<noteq> 0" b "locs = w # locs'" "m2 = m'" using Cons.prems(2) 1 2 by (auto split: if_splits)
  note a = intern_location_ok [OF Cons.prems(1) 1 r(1)]
  have "tables_ok env m1" using a by simp
  from Cons.IH [OF this] 2 r have
    b: "tables_ok env m' \<and> extends m1 m' \<and> em_samples m' = em_samples m1 \<and> list_all2 (denotes m') locs' frames"
    by simp
  show ?case using a b r extends_trans [of m m1 m'] extends_denotes [of m1 m' w d] by auto
qed

lemma extends_sample_denotes: "extends m m' \<Longrightarrow> sample_denotes m s spec \<Longrightarrow> sample_denotes m' s spec"
  unfolding sample_denotes_def
  using extends_denotes [of m m'] by (auto simp: extends_def em_header_def elim: list_all2_mono)

definition samples_denote :: "lp_export_model \<Rightarrow> (lp_frame_desc list \<times> u64 list) list \<Rightarrow> bool" where
  "samples_denote model specs \<longleftrightarrow> list_all2 (sample_denotes model) (em_samples model) specs"

lemma tables_ok_samples: "tables_ok env (m\<lparr>em_samples := s\<rparr>) = tables_ok env m"
  by (simp add: tables_ok_def strings_ok_def mappings_ok_def functions_ok_def function_ok_def locations_ok_def
      location_ok_def string_at_def mapping_for_def)

lemma tables_ok_capacity: "tables_ok env (m\<lparr>em_sample_capacity := c, em_memory := mem\<rparr>) = tables_ok env m"
  by (simp add: tables_ok_def strings_ok_def mappings_ok_def functions_ok_def function_ok_def locations_ok_def
      location_ok_def string_at_def mapping_for_def Let_def)

lemma append_export_sample_ok:
  assumes ok: "tables_ok env m"
    and r: "append_export_sample env frames values m = (True, m')"
  shows "tables_ok env m' \<and> extends m m' \<and> length frames \<le> 65 \<and>
    (samples_denote m specs \<longrightarrow> samples_denote m' (specs @ [(frames, values)]))"
proof -
  define g where "g = (if length frames > LP_EXPORT_STACK_DEPTH then (False, em_sample_capacity m, em_memory m)
             else grow_array (em_sample_capacity m) (length (em_samples m) + 1) 560 (em_memory m))"
  obtain grown cap mem where gg: "g = (grown, cap, mem)" by (rule prod_cases3)
  let ?m1 = "m\<lparr>em_sample_capacity := cap, em_memory := mem\<rparr>"
  let ?s = "\<lparr>es_locations = [], es_depth = 0, es_values = replicate 4 0\<rparr>"
  obtain b locs m2 where i: "intern_locations env frames (?m1\<lparr>em_samples := em_samples ?m1 @ [?s]\<rparr>) = ((b, locs), m2)"
    by (metis surj_pair)
  have good: grown b using r gg i by (auto simp: append_export_sample_def g_def [symmetric] Let_def split: if_splits)
  let ?s2 = "?s\<lparr>es_locations := locs, es_depth := length frames,
    es_values := take (em_value_count m2) values @ replicate (4 - em_value_count m2) 0\<rparr>"
  have m': "m' = m2\<lparr>em_samples := (em_samples m2)[length (em_samples m) := ?s2]\<rparr>"
    using r gg i good by (auto simp: append_export_sample_def g_def [symmetric] Let_def)
  have "tables_ok env (?m1\<lparr>em_samples := em_samples ?m1 @ [?s]\<rparr>)"
    using ok unfolding tables_ok_samples tables_ok_capacity .
  from intern_locations_ok [OF this i [unfolded good(2)[THEN eqTrueI]]]
  have I: "tables_ok env m2" "extends m m2" "em_samples m2 = em_samples m @ [?s]" "list_all2 (denotes m2) locs frames"
    by (simp_all add: extends_def em_header_def)
  have e: "extends m2 m'" by (simp add: m' extends_def em_header_def)
  then have em: "extends m m'" using I(2) extends_trans by blast
  have "list_all2 (denotes m') locs frames" using I(4) extends_denotes [OF e] by (auto elim: list_all2_mono)
  then have "sample_denotes m' ?s2 (frames, values)" by (simp add: sample_denotes_def m')
  moreover have "list_all2 (sample_denotes m') (em_samples m) specs" if "samples_denote m specs"
    using that extends_sample_denotes [OF em] by (auto simp: samples_denote_def elim: list_all2_mono)
  ultimately have "samples_denote m specs \<longrightarrow> samples_denote m' (specs @ [(frames, values)])"
    by (simp add: samples_denote_def m' I(3) list_all2_appendI)
  moreover have "length frames \<le> 65" using good gg by (auto simp: g_def LP_EXPORT_STACK_DEPTH_def split: if_splits)
  ultimately show ?thesis using I(1) em by (simp add: m' tables_ok_samples)
qed

section \<open>The samples of a result\<close>

text \<open>What is exported for sample \<open>i\<close>: frames, leaf first, and values.\<close>

definition cpu_spec :: "lp_result \<Rightarrow> nat \<Rightarrow> lp_frame_desc list \<times> u64 list" where
  "cpu_spec res i =
     (case lp_result_cpu_sample res i of
        None \<Rightarrow> ([], [0, 0, 0, 0])
      | Some sample \<Rightarrow> (cpu_frames res i sample,
          [clamp_i64 (csv_weight sample),
           multiply_i64 (csv_weight sample) (1000000000 div ucast (cfg_sample_hz (res_config res))), 0, 0]))"

definition memory_spec :: "lp_result \<Rightarrow> nat \<Rightarrow> lp_frame_desc list \<times> u64 list" where
  "memory_spec res i =
     (case lp_result_memory_sample res i of
        None \<Rightarrow> ([], [0, 0, 0, 0])
      | Some sample \<Rightarrow> (memory_frames res i sample,
          [clamp_i64 (msv_alloc_objects sample), clamp_i64 (msv_alloc_space sample),
           clamp_i64 (msv_inuse_objects sample), clamp_i64 (msv_inuse_space sample)]))"

definition result_spec :: "lp_result \<Rightarrow> (lp_frame_desc list \<times> u64 list) list" where
  "result_spec res =
     (if res_kind res = LP_COLLECTOR_CPU then map (cpu_spec res) [0..<lp_result_cpu_sample_count res]
      else map (memory_spec res) [0..<lp_result_memory_sample_count res])"

lemma while_ok_samples:
  assumes step: "\<And>i m m' specs. tables_ok env m \<Longrightarrow> samples_denote m specs \<Longrightarrow> body i m = (True, m') \<Longrightarrow>
      tables_ok env m' \<and> extends m m' \<and> samples_denote m' (specs @ [f i])"
    and "tables_ok env m" "samples_denote m specs" "while_ok body is m = (True, m')"
  shows "tables_ok env m' \<and> extends m m' \<and> samples_denote m' (specs @ map f is)"
  using assms(2-)
proof (induction "is" arbitrary: m specs)
  case Nil
  then show ?case by simp
next
  case (Cons i "is")
  obtain b m1 where 1: "body i m = (b, m1)" by fastforce
  then have r: b "while_ok body is m1 = (True, m')" using Cons.prems(3) by (auto split: if_splits)
  note a = step [OF Cons.prems(1,2) 1 [unfolded r(1)[THEN eqTrueI]]]
  have "tables_ok env m1" "samples_denote m1 (specs @ [f i])" using a by simp_all
  from Cons.IH [OF this r(2)] show ?case using a extends_trans [of m m1 m'] by auto
qed

lemma build_samples_ok:
  assumes "tables_ok env m" "em_samples m = []"
    and "(if res_kind res = LP_COLLECTOR_CPU then build_cpu_samples env res m else build_memory_samples env res m) = (True, m')"
  shows "tables_ok env m' \<and> extends m m' \<and> samples_denote m' (result_spec res)"
proof -
  let ?period = "1000000000 div ucast (cfg_sample_hz (res_config res))"
  have cpu: "tables_ok env m' \<and> extends m m' \<and> samples_denote m' (specs @ [cpu_spec res i])"
    if "tables_ok env m" "samples_denote m specs" "build_cpu_sample env res ?period i m = (True, m')" for i m m' specs
    using that append_export_sample_ok [OF that(1)]
    by (auto simp: build_cpu_sample_def cpu_spec_def split: option.splits if_splits)
  have mem: "tables_ok env m' \<and> extends m m' \<and> samples_denote m' (specs @ [memory_spec res i])"
    if "tables_ok env m" "samples_denote m specs" "build_memory_sample env res i m = (True, m')" for i m m' specs
    using that append_export_sample_ok [OF that(1)]
    by (auto simp: build_memory_sample_def memory_spec_def split: option.splits if_splits)
  have none: "samples_denote m []" using assms(2) by (simp add: samples_denote_def)
  show ?thesis
  proof (cases "res_kind res = LP_COLLECTOR_CPU")
    case True
    then show ?thesis
      using while_ok_samples [where f = "cpu_spec res", OF cpu assms(1) none] assms(3)
      by (simp add: build_cpu_samples_def result_spec_def)
  next
    case False
    then show ?thesis
      using while_ok_samples [where f = "memory_spec res", OF mem assms(1) none] assms(3)
      by (simp add: build_memory_samples_def result_spec_def)
  qed
qed

section \<open>Metadata\<close>

text \<open>
  The metadata is added without looking at failures; they are looked at in the end. \<open>meta\<close>
  relates the model before and after such a step.
\<close>

definition comments_ok :: "lp_export_model \<Rightarrow> bool" where
  "comments_ok m \<longleftrightarrow> length (em_comments m) \<le> LP_EXPORT_COMMENT_CAPACITY \<and>
     (\<forall>c\<in>set (em_comments m). unat c < length (em_strings m))"

definition meta :: "lp_export_model \<Rightarrow> lp_export_model \<Rightarrow> bool" where
  "meta m m' \<longleftrightarrow>
     (\<not> em_failed m' \<longrightarrow> \<not> em_failed m \<and>
       (strings_ok m \<and> comments_ok m \<longrightarrow> strings_ok m' \<and> comments_ok m' \<and>
          prefix (em_strings m) (em_strings m') \<and> same_tables m m' \<and> em_mappings m' = em_mappings m))"

lemma meta_refl: "meta m m"
  by (simp add: meta_def same_tables_def)

lemma meta_trans: "meta a b \<Longrightarrow> meta b c \<Longrightarrow> meta a c"
  by (auto simp: meta_def intro: same_tables_trans prefix_order.trans)

lemma meta_string: "meta m m' \<Longrightarrow> \<not> em_failed m' \<Longrightarrow> strings_ok m \<Longrightarrow> comments_ok m \<Longrightarrow> string_at m w t \<Longrightarrow> string_at m' w t"
  using prefix_nth prefix_length_le by (fastforce simp: meta_def string_at_def)

lemma add_string_keeps [simp]:
  "em_comments (snd (add_string t m)) = em_comments m"
  "em_symbols (snd (add_string t m)) = em_symbols m"
  "em_sample_names (snd (add_string t m)) = em_sample_names m"
  "em_sample_units (snd (add_string t m)) = em_sample_units m"
  "em_sample_name_indices (snd (add_string t m)) = em_sample_name_indices m"
  "em_value_count (snd (add_string t m)) = em_value_count m"
  "em_default_value (snd (add_string t m)) = em_default_value m"
  "em_period_type (snd (add_string t m)) = em_period_type m"
  "em_period_unit (snd (add_string t m)) = em_period_unit m"
  "em_period (snd (add_string t m)) = em_period m"
  "em_mappings (snd (add_string t m)) = em_mappings m"
  by (simp_all add: add_string_def grow_strings_def model_alloc_def model_fail_def case_prod_beta Let_def)

lemma add_literal_keeps:
  assumes "add_literal t m = (w, m')"
  shows "em_symbols m' = em_symbols m \<and> em_sample_names m' = em_sample_names m \<and>
    em_sample_units m' = em_sample_units m \<and> em_sample_name_indices m' = em_sample_name_indices m \<and>
    em_value_count m' = em_value_count m \<and> em_default_value m' = em_default_value m \<and>
    em_comments m' = em_comments m"
proof -
  have "m' = snd (add_string (c_text t) m)" using assms by (simp add: add_literal_def)
  then show ?thesis by simp
qed

lemma add_literal_meta: "meta m (snd (add_literal t m))"
proof -
  obtain w m' where r: "add_string (c_text t) m = (w, m')" by fastforce
  have sticky: "em_failed m \<Longrightarrow> em_failed m'" using r by (auto simp: add_string_def)
  show ?thesis
  proof (cases "strings_ok m")
    case True
    from True r show ?thesis
    proof (rule add_string_cases)
      assume "em_failed m'"
      then show ?thesis using r by (simp add: meta_def add_literal_def)
    next
      fix c mem
      assume "m' = m\<lparr>em_string_capacity := c, em_memory := mem, em_strings := em_strings m @ [c_text t]\<rparr>" "strings_ok m'"
      then show ?thesis
        using r sticky by (auto simp: meta_def add_literal_def comments_ok_def same_tables_def)
    qed
  next
    case False
    then show ?thesis using sticky r by (auto simp: meta_def add_literal_def)
  qed
qed

lemma add_literal_string:
  assumes "add_literal t m = (w, m')" "strings_ok m" "\<not> em_failed m'"
  shows "string_at m' w (c_text t)"
  by (rule add_string_cases [OF assms(2) assms(1) [unfolded add_literal_def]]) (use assms(3) in \<open>simp_all add: string_at_def\<close>)

lemma add_comment_keeps [simp]:
  "em_symbols (add_comment t m) = em_symbols m"
  "em_sample_names (add_comment t m) = em_sample_names m"
  "em_sample_units (add_comment t m) = em_sample_units m"
  "em_sample_name_indices (add_comment t m) = em_sample_name_indices m"
  "em_value_count (add_comment t m) = em_value_count m"
  "em_default_value (add_comment t m) = em_default_value m"
  "em_period_type (add_comment t m) = em_period_type m"
  "em_period_unit (add_comment t m) = em_period_unit m"
  "em_period (add_comment t m) = em_period m"
  by (simp_all add: add_comment_def add_literal_def case_prod_beta Let_def model_fail_def)

lemma add_comment_meta: "meta m (add_comment t m)"
proof (cases "length (em_comments m) = LP_EXPORT_COMMENT_CAPACITY")
  case True
  then show ?thesis by (simp add: add_comment_def meta_def)
next
  case False
  obtain w m1 where 1: "add_literal t m = (w, m1)" by fastforce
  then have r: "add_comment t m = m1\<lparr>em_comments := em_comments m1 @ [w]\<rparr>" using False by (simp add: add_comment_def)
  have "meta m m1" using add_literal_meta [of m t] 1 by simp
  moreover have "string_at m1 w (c_text t)" if "strings_ok m" "\<not> em_failed m1"
    using add_literal_string [OF 1] that by simp
  moreover have "em_comments m1 = em_comments m" using add_literal_keeps [OF 1] by simp
  ultimately show ?thesis using False
    by (auto simp: r meta_def comments_ok_def same_tables_def strings_ok_def string_at_def)
qed

lemma add_quality_keeps [simp]:
  "em_symbols (add_quality_fields es m) = em_symbols m \<and> em_sample_names (add_quality_fields es m) = em_sample_names m \<and>
   em_sample_units (add_quality_fields es m) = em_sample_units m \<and>
   em_sample_name_indices (add_quality_fields es m) = em_sample_name_indices m \<and>
   em_value_count (add_quality_fields es m) = em_value_count m \<and>
   em_default_value (add_quality_fields es m) = em_default_value m \<and>
   em_period_type (add_quality_fields es m) = em_period_type m \<and>
   em_period_unit (add_quality_fields es m) = em_period_unit m \<and> em_period (add_quality_fields es m) = em_period m"
  by (induction es arbitrary: m) (simp_all add: model_fail_def)

lemma add_quality_meta: "meta m (add_quality_fields es m)"
proof (induction es arbitrary: m)
  case Nil
  then show ?case by (simp add: meta_refl)
next
  case (Cons e es)
  show ?case using meta_trans [OF add_comment_meta Cons.IH] by (simp add: meta_def)
qed

definition result_names :: "lp_result \<Rightarrow> bytes list" where
  "result_names res = map ascii (if res_kind res = LP_COLLECTOR_CPU then [''samples'', ''cpu'']
     else [''alloc_objects'', ''alloc_space'', ''inuse_objects'', ''inuse_space''])"

definition result_units :: "lp_result \<Rightarrow> bytes list" where
  "result_units res = map ascii (if res_kind res = LP_COLLECTOR_CPU then [''count'', ''nanoseconds'']
     else [''count'', ''bytes'', ''count'', ''bytes''])"

definition period_texts :: "lp_result \<Rightarrow> bytes \<times> bytes" where
  "period_texts res = (if res_kind res = LP_COLLECTOR_CPU then (ascii ''cpu'', ascii ''nanoseconds'')
     else (ascii ''space'', ascii ''bytes''))"

lemma c_text_literals:
  "c_text (ascii ''samples'') = ascii ''samples''" "c_text (ascii ''cpu'') = ascii ''cpu''"
  "c_text (ascii ''alloc_objects'') = ascii ''alloc_objects''" "c_text (ascii ''alloc_space'') = ascii ''alloc_space''"
  "c_text (ascii ''inuse_objects'') = ascii ''inuse_objects''" "c_text (ascii ''inuse_space'') = ascii ''inuse_space''"
  "c_text (ascii ''count'') = ascii ''count''" "c_text (ascii ''nanoseconds'') = ascii ''nanoseconds''"
  "c_text (ascii ''bytes'') = ascii ''bytes''" "c_text (ascii ''space'') = ascii ''space''" "c_text [] = []"
  by (simp_all add: c_text_def ascii_def)

text \<open>The metadata's indices are those of the texts that belong to the kind of the result.\<close>

definition header_ok :: "lp_result \<Rightarrow> lp_export_model \<Rightarrow> bool" where
  "header_ok res m \<longleftrightarrow>
     comments_ok m \<and> string_at m 0 [] \<and>
     em_value_count m = length (result_names res) \<and> em_default_value m < em_value_count m \<and>
     (\<forall>i<em_value_count m. string_at m (em_sample_name_indices m ! i) (result_names res ! i) \<and>
        em_sample_units m ! i = result_units res ! i \<and> result_units res ! i \<in> set (em_strings m)) \<and>
     string_at m (em_period_type m) (fst (period_texts res)) \<and> string_at m (em_period_unit m) (snd (period_texts res)) \<and>
     em_mappings m \<noteq> [] \<and> string_at m (ep_filename (em_mappings m ! 0)) (ascii ''luaprof'')"

lemma meta_update:
  "em_failed (f m) = em_failed m \<Longrightarrow> em_strings (f m) = em_strings m \<Longrightarrow> em_string_capacity (f m) = em_string_capacity m \<Longrightarrow>
   em_comments (f m) = em_comments m \<Longrightarrow> em_mappings (f m) = em_mappings m \<Longrightarrow> same_tables m (f m) \<Longrightarrow> meta m (f m)"
  by (simp add: meta_def strings_ok_def comments_ok_def)

text \<open>What the metadata of a kind leaves.\<close>

definition metadata_ok :: "lp_result \<Rightarrow> lp_export_model \<Rightarrow> lp_export_model \<Rightarrow> bool" where
  "metadata_ok res m m' \<longleftrightarrow>
     meta m m' \<and> em_symbols m' = em_symbols m \<and> em_sample_name_indices m' = em_sample_name_indices m \<and>
     em_value_count m' = length (result_names res) \<and> em_default_value m' < em_value_count m' \<and>
     take (em_value_count m') (em_sample_names m') = result_names res \<and>
     take (em_value_count m') (em_sample_units m') = result_units res \<and>
     (\<not> em_failed m' \<and> strings_ok m \<and> comments_ok m \<longrightarrow>
        string_at m' (em_period_type m') (fst (period_texts res)) \<and> string_at m' (em_period_unit m') (snd (period_texts res)))"

text \<open>The two literals for the period, then comments.\<close>

lemma period_steps:
  assumes t: "add_literal a m = (w, m1)" and u: "add_literal b m1 = (v, m2)"
    and up: "meta m2 m3" "meta m3 m'" and texts: "c_text a = a" "c_text b = b"
    and start: "meta m0 m"
  shows "meta m0 m'"
    and "\<not> em_failed m' \<Longrightarrow> strings_ok m0 \<Longrightarrow> comments_ok m0 \<Longrightarrow> string_at m' w a \<and> string_at m' v b"
proof -
  have s1: "meta m m1" "meta m1 m2" using add_literal_meta [of m a] add_literal_meta [of m1 b] t u by simp_all
  then show "meta m0 m'" using up start meta_trans by blast
  assume f: "\<not> em_failed m'" "strings_ok m0" "comments_ok m0"
  have nf: "\<not> em_failed m3" "\<not> em_failed m2" "\<not> em_failed m1" "\<not> em_failed m"
    using f(1) up s1 by (auto simp: meta_def)
  have ok: "strings_ok m \<and> comments_ok m" "strings_ok m1 \<and> comments_ok m1" "strings_ok m2 \<and> comments_ok m2"
    using nf f start s1 by (auto simp: meta_def)
  have "string_at m1 w a" "string_at m2 v b"
    using add_literal_string [OF t] add_literal_string [OF u] ok nf texts by auto
  then show "string_at m' w a \<and> string_at m' v b"
    using meta_string [OF s1(2)] meta_string [OF meta_trans [OF up]] ok nf f by blast
qed

lemma cpu_metadata_ok:
  assumes "res_kind res = LP_COLLECTOR_CPU"
  shows "metadata_ok res m (cpu_metadata res m)"
proof -
  let ?m = "m\<lparr>em_sample_names := [ascii ''samples'', ascii ''cpu'', [], []],
            em_sample_units := [ascii ''count'', ascii ''nanoseconds'', [], []],
            em_value_count := 2, em_default_value := 1\<rparr>"
  obtain w m1 where t: "add_literal (ascii ''cpu'') ?m = (w, m1)" by fastforce
  obtain v m2 where u: "add_literal (ascii ''nanoseconds'') m1 = (v, m2)" by fastforce
  let ?m3 = "m2\<lparr>em_period_type := w, em_period_unit := v,
    em_period := 1000000000 div ucast (cfg_sample_hz (res_config res))\<rparr>"
  let ?m' = "add_cpu_quality res (add_comment (ascii ''luaprof CPU sampling profile'') ?m3)"
  have r: "cpu_metadata res m = ?m'" using t u by (simp add: cpu_metadata_def)
  have metas: "meta m ?m" "meta m2 ?m3" by (rule meta_update; simp add: same_tables_def)+
  have "meta ?m3 ?m'" unfolding add_cpu_quality_def
    by (meson add_comment_meta add_quality_meta meta_trans)
  note p = period_steps [OF t u metas(2) this _ _ metas(1)]
  have fields: "em_symbols m2 = em_symbols m" "em_sample_name_indices m2 = em_sample_name_indices m"
    "em_sample_names m2 = [ascii ''samples'', ascii ''cpu'', [], []]"
    "em_sample_units m2 = [ascii ''count'', ascii ''nanoseconds'', [], []]"
    "em_value_count m2 = 2" "em_default_value m2 = 1"
    using add_literal_keeps [OF t] add_literal_keeps [OF u] by simp_all
  show ?thesis
    unfolding metadata_ok_def r using p fields assms
    by (simp add: add_cpu_quality_def result_names_def result_units_def period_texts_def c_text_literals)
qed

lemma memory_metadata_ok:
  assumes "res_kind res \<noteq> LP_COLLECTOR_CPU"
  shows "metadata_ok res m (memory_metadata res m)"
proof -
  let ?names = "[ascii ''alloc_objects'', ascii ''alloc_space'', ascii ''inuse_objects'', ascii ''inuse_space'']"
  let ?units = "[ascii ''count'', ascii ''bytes'', ascii ''count'', ascii ''bytes'']"
  let ?m = "m\<lparr>em_sample_names := ?names, em_sample_units := ?units,
            em_value_count := 4, em_default_value := (if cfg_track_free (res_config res) then 3 else 1)\<rparr>"
  obtain w m1 where t: "add_literal (ascii ''space'') ?m = (w, m1)" by fastforce
  obtain v m2 where u: "add_literal (ascii ''bytes'') m1 = (v, m2)" by fastforce
  let ?m3 = "m2\<lparr>em_period_type := w, em_period_unit := v,
    em_period := clamp_i64 (cfg_sample_bytes (res_config res))\<rparr>"
  let ?m' = "add_comment (ascii ''luaprof memory sampling profile'') ?m3"
  have r: "memory_metadata res m = ?m'" using t u by (simp add: memory_metadata_def)
  have metas: "meta m ?m" "meta m2 ?m3" by (rule meta_update; simp add: same_tables_def)+
  note p = period_steps [OF t u metas(2) add_comment_meta _ _ metas(1)]
  have fields: "em_symbols m2 = em_symbols m" "em_sample_name_indices m2 = em_sample_name_indices m"
    "em_sample_names m2 = ?names" "em_sample_units m2 = ?units" "em_value_count m2 = 4" "em_default_value m2 < 4"
    using add_literal_keeps [OF t] add_literal_keeps [OF u] by simp_all
  show ?thesis
    unfolding metadata_ok_def r using p fields assms
    by (simp add: result_names_def result_units_def period_texts_def c_text_literals)
qed

text \<open>The names and units of the values.\<close>

lemma add_value_name_keeps [simp]:
  "em_symbols (add_value_name i m) = em_symbols m"
  "em_sample_names (add_value_name i m) = em_sample_names m"
  "em_sample_units (add_value_name i m) = em_sample_units m"
  "em_value_count (add_value_name i m) = em_value_count m"
  "em_default_value (add_value_name i m) = em_default_value m"
  "em_period_type (add_value_name i m) = em_period_type m"
  "em_period_unit (add_value_name i m) = em_period_unit m"
  "length (em_sample_name_indices (add_value_name i m)) = length (em_sample_name_indices m)"
  by (simp_all add: add_value_name_def add_literal_def case_prod_beta Let_def)

lemma fold_value_names_keeps [simp]:
  "em_symbols (fold add_value_name is m) = em_symbols m \<and>
   em_sample_names (fold add_value_name is m) = em_sample_names m \<and>
   em_sample_units (fold add_value_name is m) = em_sample_units m \<and>
   em_value_count (fold add_value_name is m) = em_value_count m \<and>
   em_default_value (fold add_value_name is m) = em_default_value m \<and>
   em_period_type (fold add_value_name is m) = em_period_type m \<and>
   em_period_unit (fold add_value_name is m) = em_period_unit m \<and>
   length (em_sample_name_indices (fold add_value_name is m)) = length (em_sample_name_indices m)"
  by (induction "is" arbitrary: m) simp_all

lemma add_value_name_ok:
  assumes "i < length (em_sample_name_indices m)"
  shows "meta m (add_value_name i m)"
    and "\<not> em_failed (add_value_name i m) \<Longrightarrow> strings_ok m \<Longrightarrow> comments_ok m \<Longrightarrow>
      string_at (add_value_name i m) (em_sample_name_indices (add_value_name i m) ! i) (c_text (em_sample_names m ! i)) \<and>
      c_text (em_sample_units m ! i) \<in> set (em_strings (add_value_name i m)) \<and>
      (\<forall>j. j \<noteq> i \<longrightarrow> em_sample_name_indices (add_value_name i m) ! j = em_sample_name_indices m ! j)"
proof -
  obtain w m1 where t: "add_literal (em_sample_names m ! i) m = (w, m1)" by fastforce
  let ?m2 = "m1\<lparr>em_sample_name_indices := (em_sample_name_indices m1)[i := w]\<rparr>"
  obtain v m3 where u: "add_literal (em_sample_units m ! i) ?m2 = (v, m3)" by fastforce
  have k: "em_sample_units m1 = em_sample_units m" "em_sample_name_indices m1 = em_sample_name_indices m"
    using add_literal_keeps [OF t] by simp_all
  have k3: "em_sample_name_indices m3 = (em_sample_name_indices m)[i := w]"
    using add_literal_keeps [OF u] k by simp
  have r: "add_value_name i m = m3" using t u k by (simp add: add_value_name_def)
  have s: "meta m m1" "meta m1 ?m2" "meta ?m2 m3"
    using add_literal_meta [of m "em_sample_names m ! i"] add_literal_meta [of ?m2 "em_sample_units m ! i"] t u
    by (auto simp: meta_def strings_ok_def comments_ok_def same_tables_def)
  then show "meta m (add_value_name i m)" unfolding r using meta_trans by blast
  assume f: "\<not> em_failed (add_value_name i m)" "strings_ok m" "comments_ok m"
  then have nf: "\<not> em_failed m3" "\<not> em_failed ?m2" "\<not> em_failed m1" using s by (auto simp: r meta_def)
  then have ok: "strings_ok m1 \<and> comments_ok m1" "strings_ok ?m2 \<and> comments_ok ?m2" using s f by (auto simp: meta_def)
  have "string_at m1 w (c_text (em_sample_names m ! i))" using add_literal_string [OF t] nf f by simp
  then have "string_at m3 w (c_text (em_sample_names m ! i))"
    using meta_string [OF meta_trans [OF s(2,3)]] nf ok by blast
  moreover have "string_at m3 v (c_text (em_sample_units m ! i))" using add_literal_string [OF u] nf ok by simp
  then have "c_text (em_sample_units m ! i) \<in> set (em_strings m3)" by (metis nth_mem string_at_def)
  ultimately show "string_at (add_value_name i m) (em_sample_name_indices (add_value_name i m) ! i) (c_text (em_sample_names m ! i)) \<and>
      c_text (em_sample_units m ! i) \<in> set (em_strings (add_value_name i m)) \<and>
      (\<forall>j. j \<noteq> i \<longrightarrow> em_sample_name_indices (add_value_name i m) ! j = em_sample_name_indices m ! j)"
    unfolding r k3 using assms by (auto simp: string_at_def)
qed

lemma fold_value_names_ok:
  assumes "n \<le> length (em_sample_name_indices m)"
  shows "meta m (fold add_value_name [0..<n] m) \<and>
    (\<not> em_failed (fold add_value_name [0..<n] m) \<and> strings_ok m \<and> comments_ok m \<longrightarrow>
      (\<forall>i<n. string_at (fold add_value_name [0..<n] m) (em_sample_name_indices (fold add_value_name [0..<n] m) ! i)
          (c_text (em_sample_names m ! i)) \<and>
        c_text (em_sample_units m ! i) \<in> set (em_strings (fold add_value_name [0..<n] m))))"
  using assms
proof (induction n)
  case 0
  then show ?case by (simp add: meta_refl)
next
  case (Suc n)
  let ?m = "fold add_value_name [0..<n] m" let ?m' = "add_value_name n ?m"
  have m': "fold add_value_name [0..<Suc n] m = ?m'" by simp
  have IH: "meta m ?m" using Suc by simp
  have n: "n < length (em_sample_name_indices ?m)" using Suc.prems by simp
  note v = add_value_name_ok [OF n]
  have "string_at ?m' (em_sample_name_indices ?m' ! i) (c_text (em_sample_names m ! i)) \<and>
      c_text (em_sample_units m ! i) \<in> set (em_strings ?m')"
    if f: "\<not> em_failed ?m'" "strings_ok m" "comments_ok m" and i: "i < Suc n" for i
  proof -
    have nf: "\<not> em_failed ?m" using f(1) v(1) by (auto simp: meta_def)
    then have ok: "strings_ok ?m" "comments_ok ?m" using f IH by (auto simp: meta_def)
    note w = v(2) [OF f(1) ok]
    show ?thesis
    proof (cases "i = n")
      case True
      then show ?thesis using w by simp
    next
      case False
      then have i': "i < n" using i by simp
      then have "string_at ?m (em_sample_name_indices ?m ! i) (c_text (em_sample_names m ! i))"
        "c_text (em_sample_units m ! i) \<in> set (em_strings ?m)"
        using Suc nf f by auto
      moreover have "set (em_strings ?m) \<subseteq> set (em_strings ?m')"
        using v(1) f(1) ok by (auto simp: meta_def dest: set_mono_prefix)
      ultimately show ?thesis using meta_string [OF v(1) f(1) ok] w False by auto
    qed
  qed
  then show ?case unfolding m' using meta_trans [OF IH v(1)] by blast
qed

lemma first_index_take: "first_index P (take n xs) = Some i \<Longrightarrow> i < n"
  using first_index_Some [of P "take n xs" i] by simp

text \<open>The first steps: the empty string, and the mapping that stands for the profiler.\<close>

lemma model_start_ok:
  assumes t: "model_tables ((zero_model memory)\<lparr>em_symbols := symbols\<rparr>) = (True, m1)"
    and s: "add_literal [] m1 = (w, m2)" and i: "intern_mapping 0 0 0 (ascii ''luaprof'') True True True m2 = (v, m3)"
    and nf: "v \<noteq> - 1"
  shows "tables_ok env m3 \<and> em_functions m3 = [] \<and> em_locations m3 = [] \<and> comments_ok m3 \<and> em_samples m3 = [] \<and> string_at m3 0 [] \<and>
    em_symbols m3 = symbols \<and> length (em_sample_name_indices m3) = 4 \<and>
    string_at m3 (ep_filename (em_mappings m3 ! 0)) (ascii ''luaprof'')"
proof -
  obtain mem where m1: "m1 = (zero_model mem)\<lparr>em_symbols := symbols,
      em_function_hash := replicate (2 ^ FUNCTION_HASH_BITS) 0, em_location_hash := replicate (2 ^ LOCATION_HASH_BITS) 0\<rparr>"
    using t by (auto simp: model_tables_def model_alloc_def zero_model_def case_prod_beta Let_def split: if_splits)
  have ok1: "strings_ok m1" "mappings_ok m1" by (simp_all add: m1 zero_model_def strings_ok_def mappings_ok_def)
  show ?thesis
  proof (rule add_string_cases [OF ok1(1) s [unfolded add_literal_def]])
    assume "em_failed m2"
    moreover have "m2 = snd (add_string (c_text []) m1)" using s by (simp add: add_literal_def)
    then have "em_mappings m2 = []" by (simp add: m1 zero_model_def)
    ultimately have "v = - 1"
      using i by (auto simp: intern_mapping_def add_string_def Let_def word_sless_alt split: prod.splits if_splits)
    then show ?thesis using nf by simp
  next
    fix c mem'
    assume 2: "m2 = m1\<lparr>em_string_capacity := c, em_memory := mem', em_strings := em_strings m1 @ [c_text []]\<rparr>"
      "strings_ok m2" "unat w = length (em_strings m1)" "\<not> em_failed m1"
    have "mappings_ok m2" "em_mappings m2 = []" by (simp_all add: 2(1) m1 zero_model_def mappings_ok_def)
    from intern_mapping_ok [OF 2(2) this(1) _ i nf] this(2)
    have I: "strings_ok m3" "mappings_ok m3" "extends m2 m3" "same_tables m2 m3"
      "length (em_mappings m3) \<le> 1" "unat v < length (em_mappings m3)"
      "string_at m3 (ep_filename (em_mappings m3 ! unat v)) (ascii ''luaprof'')" by simp_all
    have "string_at m2 0 []" by (simp add: 2(1) string_at_def m1 zero_model_def c_text_def)
    then have "string_at m3 0 []" by (rule extends_string [OF I(3)])
    moreover have "comments_ok m3" "em_symbols m3 = symbols" "length (em_sample_name_indices m3) = 4"
      using I(3) by (simp_all add: extends_def em_header_def 2(1) m1 zero_model_def comments_ok_def)
    moreover have "unat v = 0" "em_mappings m3 \<noteq> []" using I(5,6) by auto
    moreover have "em_samples m3 = []" "em_functions m3 = []" "em_locations m3 = []" using I(4) by (simp_all add: same_tables_def 2(1) m1 zero_model_def)
    moreover have "tables_ok env m3"
      using I by (simp add: tables_ok_def same_tables_def 2(1) m1 zero_model_def functions_ok_def locations_ok_def
          index_table_ok_def) (auto simp: extends_def)
    ultimately show ?thesis using I(7) by simp
  qed
qed

lemma select_metric_ok:
  assumes "select_metric requested m = (True, m')" and "em_default_value m < em_value_count m"
  shows "\<exists>d. m' = m\<lparr>em_default_value := d\<rparr> \<and> d < em_value_count m"
proof (cases requested)
  case None
  then show ?thesis using assms by (intro exI [of _ "em_default_value m"]) (simp add: select_metric_def)
next
  case (Some name)
  then show ?thesis using assms by (auto simp: select_metric_def split: option.splits dest: first_index_take)
qed

lemma result_names_length: "length (result_names res) \<le> 4"
  by (simp add: result_names_def)

lemma result_names_c_text: "i < length (result_names res) \<Longrightarrow> c_text (result_names res ! i) = result_names res ! i"
  by (auto simp: result_names_def less_Suc_eq c_text_literals split: if_splits)

lemma result_units_c_text: "i < length (result_names res) \<Longrightarrow> c_text (result_units res ! i) = result_units res ! i"
  by (auto simp: result_names_def result_units_def less_Suc_eq c_text_literals split: if_splits)

lemma model_header_ok:
  assumes m3: "tables_ok env m3" "comments_ok m3" "string_at m3 0 []" "em_functions m3 = []" "em_locations m3 = []"
      "length (em_sample_name_indices m3) = 4" "string_at m3 (ep_filename (em_mappings m3 ! 0)) (ascii ''luaprof'')"
    and m4: "metadata_ok res m3 m4"
    and m5: "m5 = fold add_value_name [0..<em_value_count m4] m4"
    and m6: "m6 = m5\<lparr>em_default_value := d\<rparr>" "d < em_value_count m5" "\<not> em_failed m6"
  shows "tables_ok env m6 \<and> header_ok res m6 \<and> em_samples m6 = em_samples m3 \<and> em_symbols m6 = em_symbols m3 \<and>
    em_functions m6 = [] \<and> em_locations m6 = []"
proof -
  have keep: "em_symbols m5 = em_symbols m4" "em_sample_names m5 = em_sample_names m4"
    "em_sample_units m5 = em_sample_units m4" "em_value_count m5 = em_value_count m4"
    "em_period_type m5 = em_period_type m4" "em_period_unit m5 = em_period_unit m4"
    by (simp_all add: m5)
  have count: "em_value_count m4 = length (result_names res)" using m4 by (simp add: metadata_ok_def)
  have n: "em_value_count m4 \<le> length (em_sample_name_indices m4)"
    using m4 m3(6) result_names_length [of res] by (simp add: metadata_ok_def)
  have nf5: "\<not> em_failed m5" using m6 by simp
  have s34: "meta m3 m4" using m4 by (simp add: metadata_ok_def)
  have s45: "meta m4 m5" using fold_value_names_ok [OF n] m5 by simp
  have nf4: "\<not> em_failed m4" using s45 nf5 by (simp add: meta_def)
  have ok3: "strings_ok m3" using m3(1) by (simp add: tables_ok_def)
  have ok4: "strings_ok m4" "comments_ok m4" using s34 nf4 ok3 m3(2) by (simp_all add: meta_def)
  have s35: "meta m3 m5" using s34 s45 meta_trans by blast
  have g: "strings_ok m5" "comments_ok m5" "prefix (em_strings m3) (em_strings m5)" "same_tables m3 m5"
    "em_mappings m5 = em_mappings m3" using s35 nf5 ok3 m3(2) by (simp_all add: meta_def)
  note up = meta_string [OF s35 nf5 ok3 m3(2)]
  note up4 = meta_string [OF s45 nf5 ok4]
  have period: "string_at m5 (em_period_type m5) (fst (period_texts res))" "string_at m5 (em_period_unit m5) (snd (period_texts res))"
    using m4 nf4 ok3 m3(2) keep up4 by (simp_all add: metadata_ok_def)
  have texts: "string_at m5 (em_sample_name_indices m5 ! i) (result_names res ! i) \<and>
      em_sample_units m5 ! i = result_units res ! i \<and> result_units res ! i \<in> set (em_strings m5)"
    if i: "i < length (result_names res)" for i
  proof -
    have "take (length (result_names res)) (em_sample_names m4) = result_names res"
      "take (length (result_names res)) (em_sample_units m4) = result_units res"
      using m4 count by (simp_all add: metadata_ok_def)
    then have "em_sample_names m4 ! i = result_names res ! i" "em_sample_units m4 ! i = result_units res ! i"
      using i by (metis nth_take)+
    then show ?thesis
      using fold_value_names_ok [OF n, folded m5] nf5 ok4 i result_names_c_text [OF i] result_units_c_text [OF i] keep
      by (auto simp: count)
  qed
  have "mappings_ok m6"
    using m3(1) g by (auto simp: tables_ok_def mappings_ok_def m6(1) dest: prefix_length_le order.strict_trans2)
  then have "tables_ok env m6"
    using m3 g by (simp add: tables_ok_def m6(1) same_tables_def strings_ok_def functions_ok_def locations_ok_def)
  moreover have "header_ok res m6"
    using g up [OF m3(3)] up [OF m3(7)] period texts m6 keep count m3(1)
    by (simp add: header_ok_def comments_ok_def string_at_def tables_ok_def)
  ultimately show ?thesis using g m3(4,5) m4 keep by (simp add: m6(1) same_tables_def metadata_ok_def)
qed

lemma header_ok_extends: "header_ok res m \<Longrightarrow> extends m m' \<Longrightarrow> header_ok res m'"
proof -
  assume h: "header_ok res m" and e: "extends m m'"
  have hdr: "em_header m' = em_header m" and p: "prefix (em_strings m) (em_strings m')" using e by (simp_all add: extends_def)
  have f: "em_comments m' = em_comments m" "em_value_count m' = em_value_count m" "em_default_value m' = em_default_value m"
    "em_sample_name_indices m' = em_sample_name_indices m" "em_sample_units m' = em_sample_units m"
    "em_period_type m' = em_period_type m" "em_period_unit m' = em_period_unit m"
    using hdr by (simp_all add: em_header_def)
  have "em_mappings m \<noteq> []" using h by (simp add: header_ok_def)
  then have "ep_filename (em_mappings m' ! 0) = ep_filename (em_mappings m ! 0)" "em_mappings m' \<noteq> []"
    using extends_mappings [OF e, of 0] extends_lengths(4) [OF e] by (auto simp: mapping_core_def)
  then show "header_ok res m'"
    using h extends_string [OF e] prefix_length_le [OF p] set_mono_prefix [OF p]
    unfolding header_ok_def comments_ok_def f by (auto intro: order.strict_trans2)
qed

text \<open>
  The export model represents the result: when \<open>model_init\<close> succeeds, every index in the
  model is valid (names, files, mappings, functions, locations, comments, the names and units
  of the values), the tables are complete, and the samples are, in order, the samples of the
  result: each has the values of the result, and its locations denote the frames derived from
  the captured stack, frame by frame.
\<close>

lemma export_model_represents_result:
  assumes "model_init env memory res sample_type symbols = (True, model)"
  shows "tables_ok env model \<and> header_ok res model \<and> samples_denote model (result_spec res) \<and>
    em_symbols model = symbols"
proof -
  let ?m0 = "(zero_model memory)\<lparr>em_symbols := symbols\<rparr>"
  obtain got m1 where t: "model_tables ?m0 = (got, m1)" by fastforce
  obtain w m2 where s: "add_literal [] m1 = (w, m2)" by fastforce
  obtain v m3 where i: "intern_mapping 0 0 0 (ascii ''luaprof'') True True True m2 = (v, m3)" by fastforce
  define m4 where "m4 = (if res_kind res = LP_COLLECTOR_CPU then cpu_metadata res m3 else memory_metadata res m3)"
  define m5 where "m5 = fold add_value_name [0..<em_value_count m4] m4"
  obtain b m6 where sel: "select_metric sample_type m5 = (b, m6)" by fastforce
  have g: got "v \<noteq> - 1" b "\<not> em_failed m6"
    and build: "(if res_kind res = LP_COLLECTOR_CPU then build_cpu_samples env res m6 else build_memory_samples env res m6) = (True, model)"
    using assms t s i sel by (auto simp: model_init_def m4_def [symmetric] m5_def [symmetric] Let_def split: if_splits)
  have md: "metadata_ok res m3 m4" using cpu_metadata_ok memory_metadata_ok by (simp add: m4_def)
  then have "em_default_value m5 < em_value_count m5" by (simp add: m5_def metadata_ok_def)
  then obtain d where m6: "m6 = m5\<lparr>em_default_value := d\<rparr>" "d < em_value_count m5"
    using select_metric_ok [of sample_type m5 m6] sel g by auto
  have start: "tables_ok env m3 \<and> em_functions m3 = [] \<and> em_locations m3 = [] \<and> comments_ok m3 \<and>
      em_samples m3 = [] \<and> string_at m3 0 [] \<and> em_symbols m3 = symbols \<and> length (em_sample_name_indices m3) = 4 \<and>
      string_at m3 (ep_filename (em_mappings m3 ! 0)) (ascii ''luaprof'')"
    using t g(1) by (intro model_start_ok [OF _ s i g(2), of symbols memory]) simp
  have M: "tables_ok env m6 \<and> header_ok res m6 \<and> em_samples m6 = [] \<and> em_symbols m6 = symbols"
    using model_header_ok [OF _ _ _ _ _ _ _ md m5_def m6 g(4), of env] start by simp
  then have B: "tables_ok env model \<and> extends m6 model \<and> samples_denote model (result_spec res)"
    using build_samples_ok [OF _ _ build] by simp
  then show ?thesis using M header_ok_extends [of res m6 model] extends_symbols [of m6 model] by simp
qed

end
