(* ===== verification/Pprof_Encode.thy ===== *)
theory Pprof_Encode
  imports Pprof_Model
begin

text \<open>
  \<open>encode_profile\<close> of \<open>src/pprof_exporter.c\<close> and the \<open>emit_\<close> functions it calls, a decoder of
  the messages of \<open>profile.proto\<close> that the exporter writes, and the round trip between them:
  decoding the bytes of an encoded model gives back its samples, mappings, locations,
  functions, strings and metadata.
\<close>

unbundle bit_operations_syntax

section \<open>The writers\<close>

text \<open>A field that is written only when it is not the default.\<close>

definition write_if :: "bool \<Rightarrow> (sink \<Rightarrow> sink) \<Rightarrow> sink \<Rightarrow> sink" where
  "write_if c f out = (if c then f out else out)"

definition emit_value_type :: "u32 \<Rightarrow> u64 \<Rightarrow> u64 \<Rightarrow> sink \<Rightarrow> sink" where
  "emit_value_type field type unit =
     write_message field (\<lambda>out. buffer_field_varint 2 unit (buffer_field_varint 1 type out))"

text \<open>The buffer \<open>packed\<close> is used twice, and keeps its capacity and its failure.\<close>

definition emit_sample :: "nat \<Rightarrow> lp_export_sample \<Rightarrow> sink \<Rightarrow> sink" where
  "emit_sample value_count sample out =
     (let (profile, m) = out;
          (packed, m1) = fold buffer_varint (take (es_depth sample) (es_locations sample)) (zero_buffer, m);
          (message, m2) = buffer_field_message 1 packed (zero_buffer, m1);
          (packed2, m3) = fold buffer_varint (take value_count (es_values sample)) (packed\<lparr>buf_data := []\<rparr>, m2);
          (message2, m4) = buffer_field_message 2 packed2 (message, m3);
          (profile1, m5) = buffer_field_message 2 message2 (profile, m4)
      in (if buf_failed message2 \<or> buf_failed packed2 then profile1\<lparr>buf_failed := True\<rparr> else profile1, m5))"

text \<open>
  The line of a location is a message of its own; that it failed is noted in the profile, here
  by way of the location's buffer.
\<close>

definition emit_location :: "lp_export_model \<Rightarrow> lp_export_location \<Rightarrow> sink \<Rightarrow> sink" where
  "emit_location model location =
     write_message 4 (\<lambda>message.
       write_message 4 (\<lambda>line.
           write_if (el_line location \<noteq> 0) (buffer_field_varint 2 (scast (el_line location)))
             (buffer_field_varint 1 (ef_id (em_functions model ! unat (el_function_index location))) line))
         (write_if (el_address location \<noteq> 0) (buffer_field_varint 3 (el_address location))
           (buffer_field_varint 2 (ep_id (em_mappings model ! unat (el_mapping_index location)))
             (buffer_field_varint 1 (el_id location) message))))"

definition emit_mapping :: "lp_export_mapping \<Rightarrow> sink \<Rightarrow> sink" where
  "emit_mapping mapping =
     write_message 3 (\<lambda>message.
       write_if (ep_has_line_numbers mapping) (buffer_field_varint 9 1)
         (write_if (ep_has_filenames mapping) (buffer_field_varint 8 1)
           (write_if (ep_has_functions mapping) (buffer_field_varint 7 1)
             (buffer_field_varint 5 (ep_filename mapping)
               (write_if (ep_offset mapping \<noteq> 0) (buffer_field_varint 4 (ep_offset mapping))
                 (write_if (ep_limit mapping \<noteq> 0) (buffer_field_varint 3 (ep_limit mapping))
                   (write_if (ep_start mapping \<noteq> 0) (buffer_field_varint 2 (ep_start mapping))
                     (buffer_field_varint 1 (ep_id mapping) message))))))))"

definition emit_function :: "lp_export_function \<Rightarrow> sink \<Rightarrow> sink" where
  "emit_function function =
     write_message 5 (\<lambda>message.
       write_if (0 <s ef_linedefined function) (buffer_field_varint 5 (scast (ef_linedefined function)))
         (buffer_field_varint 4 (ef_filename function)
           (buffer_field_varint 3 (ef_name function)
             (buffer_field_varint 2 (ef_name function)
               (buffer_field_varint 1 (ef_id function) message)))))"

text \<open>The index of the unit of value \<open>i\<close>: the first string that compares equal.\<close>

definition unit_index :: "lp_export_model \<Rightarrow> nat \<Rightarrow> u64 option" where
  "unit_index model i =
     map_option of_nat (first_index (\<lambda>s. c_text s = c_text (em_sample_units model ! i)) (em_strings model))"

primrec encode_value_types :: "lp_export_model \<Rightarrow> nat list \<Rightarrow> sink \<Rightarrow> bool \<times> sink" where
  "encode_value_types model [] out = (True, out)"
| "encode_value_types model (i # indices) out =
     (case unit_index model i of
        None \<Rightarrow> (False, out)
      | Some unit \<Rightarrow>
          encode_value_types model indices (emit_value_type 1 (em_sample_name_indices model ! i) unit out))"

definition encode_profile :: "lp_export_model \<Rightarrow> sink \<Rightarrow> bool \<times> sink" where
  "encode_profile model out0 =
     (let (found, out1) = encode_value_types model [0..<em_value_count model] out0
      in if \<not> found then (False, out1)
         else
           let out2 = fold (emit_sample (em_value_count model)) (em_samples model) out1;
               out3 = fold emit_mapping (em_mappings model) out2;
               out4 = fold (emit_location model) (em_locations model) out3;
               out5 = fold emit_function (em_functions model) out4;
               out6 = fold (buffer_field_bytes 6) (em_strings model) out5;
               out7 = emit_value_type 11 (em_period_type model) (em_period_unit model) out6;
               out8 = buffer_field_varint 12 (em_period model) out7;
               out9 = fold (buffer_field_varint 13) (em_comments model) out8;
               out10 = buffer_field_varint 14 (em_sample_name_indices model ! em_default_value model) out9
           in (\<not> buf_failed (fst out10), out10))"

section \<open>The messages\<close>

definition fields_bytes :: "(u32 \<times> wire_value) list \<Rightarrow> bytes" where
  "fields_bytes fs = concat (map field_bytes fs)"

definition field_if :: "bool \<Rightarrow> u32 \<times> wire_value \<Rightarrow> (u32 \<times> wire_value) list" where
  "field_if c f = (if c then [f] else [])"

definition message_field :: "u32 \<Rightarrow> (u32 \<times> wire_value) list \<Rightarrow> u32 \<times> wire_value" where
  "message_field field fs = (field, Message (fields_bytes fs))"

definition value_type_field :: "u32 \<Rightarrow> u64 \<Rightarrow> u64 \<Rightarrow> u32 \<times> wire_value" where
  "value_type_field field type unit = message_field field [(1, Varint type), (2, Varint unit)]"

definition packed_bytes :: "u64 list \<Rightarrow> bytes" where
  "packed_bytes vs = concat (map varint_bytes vs)"

definition sample_fields :: "nat \<Rightarrow> lp_export_sample \<Rightarrow> (u32 \<times> wire_value) list" where
  "sample_fields value_count s =
     [(1, Message (packed_bytes (take (es_depth s) (es_locations s)))),
      (2, Message (packed_bytes (take value_count (es_values s))))]"

definition line_fields :: "lp_export_model \<Rightarrow> lp_export_location \<Rightarrow> (u32 \<times> wire_value) list" where
  "line_fields model l =
     (1, Varint (ef_id (em_functions model ! unat (el_function_index l)))) #
     field_if (el_line l \<noteq> 0) (2, Varint (scast (el_line l)))"

definition location_fields :: "lp_export_model \<Rightarrow> lp_export_location \<Rightarrow> (u32 \<times> wire_value) list" where
  "location_fields model l =
     [(1, Varint (el_id l)), (2, Varint (ep_id (em_mappings model ! unat (el_mapping_index l))))] @
      field_if (el_address l \<noteq> 0) (3, Varint (el_address l)) @ [message_field 4 (line_fields model l)]"

definition mapping_fields :: "lp_export_mapping \<Rightarrow> (u32 \<times> wire_value) list" where
  "mapping_fields p =
     (1, Varint (ep_id p)) # field_if (ep_start p \<noteq> 0) (2, Varint (ep_start p)) @
      field_if (ep_limit p \<noteq> 0) (3, Varint (ep_limit p)) @ field_if (ep_offset p \<noteq> 0) (4, Varint (ep_offset p)) @
      (5, Varint (ep_filename p)) # field_if (ep_has_functions p) (7, Varint 1) @
      field_if (ep_has_filenames p) (8, Varint 1) @ field_if (ep_has_line_numbers p) (9, Varint 1)"

definition function_fields :: "lp_export_function \<Rightarrow> (u32 \<times> wire_value) list" where
  "function_fields f =
     [(1, Varint (ef_id f)), (2, Varint (ef_name f)), (3, Varint (ef_name f)), (4, Varint (ef_filename f))] @
      field_if (0 <s ef_linedefined f) (5, Varint (scast (ef_linedefined f)))"

definition profile_fields :: "lp_export_model \<Rightarrow> (u32 \<times> wire_value) list" where
  "profile_fields model =
     map (\<lambda>i. value_type_field 1 (em_sample_name_indices model ! i) (the (unit_index model i))) [0..<em_value_count model] @
     map (\<lambda>s. message_field 2 (sample_fields (em_value_count model) s)) (em_samples model) @
     map (\<lambda>p. message_field 3 (mapping_fields p)) (em_mappings model) @
     map (\<lambda>l. message_field 4 (location_fields model l)) (em_locations model) @
     map (\<lambda>f. message_field 5 (function_fields f)) (em_functions model) @
     map (\<lambda>s. (6, Message s)) (em_strings model) @
     [value_type_field 11 (em_period_type model) (em_period_unit model), (12, Varint (em_period model))] @
     map (\<lambda>c. (13, Varint c)) (em_comments model) @
     [(14, Varint (em_sample_name_indices model ! em_default_value model))]"

lemma fields_bytes_simps [simp]:
  "fields_bytes [] = []" "fields_bytes (f # fs) = field_bytes f @ fields_bytes fs"
  "fields_bytes (fs @ gs) = fields_bytes fs @ fields_bytes gs"
  by (simp_all add: fields_bytes_def)

named_theorems emits_intros \<open>what a writer emits\<close>

lemma emits_start [emits_intros]: "emits (fields_bytes []) (\<lambda>out. out)"
  using emits_id by simp

lemma emits_write [emits_intros]:
  "emits (fields_bytes fs) f \<Longrightarrow>
   emits (fields_bytes (fs @ [(field, Varint v)])) (\<lambda>out. buffer_field_varint field v (f out))"
  using emits_comp [OF _ emits_field_varint, of "fields_bytes fs" f field v] by simp

lemma emits_write_if [emits_intros]:
  "emits (fields_bytes fs) f \<Longrightarrow>
   emits (fields_bytes (fs @ field_if c (field, Varint v))) (\<lambda>out. write_if c (buffer_field_varint field v) (f out))"
  using emits_comp [OF _ emits_field_varint, of "fields_bytes fs" f field v] by (simp add: write_if_def field_if_def)

lemma emits_write_message [emits_intros]:
  "emits (fields_bytes fs) f \<Longrightarrow> emits (fields_bytes ms) g \<Longrightarrow>
   emits (fields_bytes (fs @ [message_field field ms])) (\<lambda>out. write_message field g (f out))"
  using emits_comp [OF _ emits_message, of "fields_bytes fs" f "fields_bytes ms" g field]
  by (simp add: message_field_def del: field_bytes.simps)

lemma emits_fields: "emits (fields_bytes gs) f \<Longrightarrow> gs = fs \<Longrightarrow> emits (fields_bytes fs) f"
  by simp

lemma emits_one: "emits (fields_bytes fs) f \<Longrightarrow> emits (field_bytes (message_field field fs)) (write_message field f)"
  using emits_message [of "fields_bytes fs" f field] by (simp add: message_field_def del: field_bytes.simps)

lemma emits_value_type: "emits (field_bytes (value_type_field field type unit)) (emit_value_type field type unit)"
  unfolding emit_value_type_def value_type_field_def
  by (rule emits_one, rule emits_fields, (rule emits_intros)+) simp

lemma emits_location: "emits (field_bytes (message_field 4 (location_fields model l))) (emit_location model l)"
  unfolding emit_location_def location_fields_def line_fields_def
  by (rule emits_one, rule emits_fields, (rule emits_intros)+) simp

lemma emits_mapping: "emits (field_bytes (message_field 3 (mapping_fields p))) (emit_mapping p)"
  unfolding emit_mapping_def mapping_fields_def
  by (rule emits_one, rule emits_fields, (rule emits_intros)+) simp

lemma emits_function: "emits (field_bytes (message_field 5 (function_fields f))) (emit_function f)"
  unfolding emit_function_def function_fields_def
  by (rule emits_one, rule emits_fields, (rule emits_intros)+) simp

lemma emits_packed: "emits (packed_bytes vs) (fold buffer_varint vs)"
  unfolding packed_bytes_def by (rule emits_fold) (rule emits_varint)

lemma emits_sample: "emits (field_bytes (message_field 2 (sample_fields n s))) (emit_sample n s)"
proof (rule emitsI)
  fix b m b' m'
  assume r: "emit_sample n s (b, m) = (b', m')"
  let ?ids = "take (es_depth s) (es_locations s)" and ?vals = "take n (es_values s)"
  let ?one = "field_bytes (1, Message (packed_bytes ?ids))" and ?two = "field_bytes (2, Message (packed_bytes ?vals))"
  obtain p m1 where 1: "fold buffer_varint ?ids (zero_buffer, m) = (p, m1)" by fastforce
  obtain g m2 where 2: "buffer_field_bytes 1 (buf_data p) (zero_buffer, m1) = (g, m2)" by fastforce
  obtain q m3 where 3: "fold buffer_varint ?vals (p\<lparr>buf_data := []\<rparr>, m2) = (q, m3)" by fastforce
  obtain h m4 where 4: "buffer_field_bytes 2 (buf_data q) (g, m3) = (h, m4)" by fastforce
  obtain c m5 where 5: "buffer_field_bytes 2 (buf_data h) (b, m4) = (c, m5)" by fastforce
  have b': "b' = (if buf_failed h \<or> buf_failed q then c\<lparr>buf_failed := True\<rparr> else c)" "m' = m5"
    using r 1 2 3 4 5 by (auto simp: emit_sample_def buffer_field_message_def)
  note E = emits_packed emits_field_bytes emits_packed emits_field_bytes emits_field_bytes
  have full: "field_bytes (message_field 2 (sample_fields n s)) = field_bytes (2, Message (?one @ ?two))"
    by (simp add: sample_fields_def message_field_def del: field_bytes.simps)
  show "emits_at (field_bytes (message_field 2 (sample_fields n s))) b m (b', m')"
  proof (cases "buf_failed h \<or> buf_failed q")
    case False
    have w3: "\<not> buf_failed p" "buf_data q = packed_bytes ?vals" using emits_written [OF E(3) 3] False by auto
    then have w1: "buf_data p = packed_bytes ?ids" using emits_written [OF E(1) 1] by simp
    have w4: "\<not> buf_failed g" "buf_data h = buf_data g @ ?two" using emits_written [OF E(4) 4] False w3 by auto
    then have h: "buf_data h = ?one @ ?two" using emits_written [OF E(2) 2] w1 by simp
    have ok: "b' = c" using b' False by simp
    have "m5 = [] \<and> \<not> buf_failed c"
      if m: "m = []" "\<not> buf_failed b" "length (buf_data b) + length (field_bytes (2, Message (?one @ ?two))) \<le> size_limit"
    proof -
      have "length (packed_bytes ?ids) \<le> size_limit" "length (packed_bytes ?vals) \<le> size_limit"
        "length ?one \<le> size_limit" "length ?one + length ?two \<le> size_limit" using m(3) by auto
      note sz = this
      have "m1 = []" using emits_succeeds [OF E(1) 1 [unfolded m(1)]] sz by simp
      then have "m2 = []" using emits_succeeds [OF E(2), of 1 "buf_data p" zero_buffer g m2] 2 sz w1 by simp
      then have "m3 = []" using emits_succeeds [OF E(3), of "?vals" "p\<lparr>buf_data := []\<rparr>" q m3] 3 sz w3 by simp
      then have "m4 = []"
        using emits_succeeds [OF E(4), of 2 "buf_data q" g h m4] 4 sz w3 w4 emits_written [OF E(2) 2] w1 by simp
      then show ?thesis using emits_succeeds [OF E(5), of 2 "buf_data h" b c m5] 5 m h by simp
    qed
    then show ?thesis
      using emits_written [OF E(5) 5] emits_ok [OF E(5) 5] b'(2) h unfolding full ok emits_at_def by auto
  next
    case True
    have "\<not> (m = [] \<and> length (field_bytes (2, Message (?one @ ?two))) \<le> size_limit)"
    proof
      assume m: "m = [] \<and> length (field_bytes (2, Message (?one @ ?two))) \<le> size_limit"
      then have sz: "length (packed_bytes ?ids) \<le> size_limit" "length (packed_bytes ?vals) \<le> size_limit"
        "length ?one \<le> size_limit" "length ?one + length ?two \<le> size_limit" by auto
      have s1: "m1 = []" "\<not> buf_failed p" "buf_data p = packed_bytes ?ids"
        using emits_succeeds [OF E(1), of ?ids zero_buffer p m1] 1 m sz by auto
      then have s2: "m2 = []" "\<not> buf_failed g" "buf_data g = ?one"
        using emits_succeeds [OF E(2), of 1 "buf_data p" zero_buffer g m2] 2 sz by auto
      then have s3: "m3 = []" "\<not> buf_failed q" "buf_data q = packed_bytes ?vals"
        using emits_succeeds [OF E(3), of "?vals" "p\<lparr>buf_data := []\<rparr>" q m3] 3 sz s1 by auto
      then have "\<not> buf_failed h"
        using emits_succeeds [OF E(4), of 2 "buf_data q" g h m4] 4 sz s2 by auto
      then show False using True s3 by simp
    qed
    then show ?thesis using True b' unfolding full emits_at_def by auto
  qed
qed

text \<open>The whole profile.\<close>

lemma encode_value_types_fold:
  "encode_value_types model is out = (b, out') \<Longrightarrow>
   b = (\<forall>i\<in>set is. unit_index model i \<noteq> None) \<and>
   (b \<longrightarrow> out' = fold (\<lambda>i. emit_value_type 1 (em_sample_name_indices model ! i) (the (unit_index model i))) is out)"
  by (induction "is" arbitrary: out) (auto split: option.splits)

lemma emits_then: "emits bs f \<Longrightarrow> emits (fields_bytes fs) g \<Longrightarrow> bs = fields_bytes gs \<Longrightarrow> emits (fields_bytes (gs @ fs)) (\<lambda>out. g (f out))"
  using emits_comp [of bs f "fields_bytes fs" g] by simp

lemma emits_fold_fields:
  "(\<And>x. emits (field_bytes (w x)) (f x)) \<Longrightarrow> emits (fields_bytes fs) g \<Longrightarrow>
   emits (fields_bytes (fs @ map w xs)) (\<lambda>out. fold f xs (g out))"
  using emits_comp [of "fields_bytes fs" g "concat (map (\<lambda>x. field_bytes (w x)) xs)" "fold f xs"]
    emits_fold [of xs "\<lambda>x. field_bytes (w x)" f]
  by (simp add: fields_bytes_def comp_def del: field_bytes.simps)

lemma emits_next_field:
  "emits (field_bytes w) f \<Longrightarrow> emits (fields_bytes fs) g \<Longrightarrow> emits (fields_bytes (fs @ [w])) (\<lambda>out. f (g out))"
  using emits_comp [of "fields_bytes fs" g "field_bytes w" f] by simp

lemma encode_profile_emits:
  "\<exists>F. emits (fields_bytes (profile_fields model)) F \<and>
    (\<forall>out b out'. encode_profile model out = (b, out') \<longrightarrow>
       (b \<longrightarrow> out' = F out \<and> \<not> buf_failed (fst out')) \<and>
       (\<not> b \<longrightarrow> (\<exists>i<em_value_count model. unit_index model i = None) \<or> out' = F out \<and> buf_failed (fst out')))"
proof -
  let ?types = "fold (\<lambda>i. emit_value_type 1 (em_sample_name_indices model ! i) (the (unit_index model i))) [0..<em_value_count model]"
  define F where "F = (\<lambda>out0.
    buffer_field_varint 14 (em_sample_name_indices model ! em_default_value model)
      (fold (buffer_field_varint 13) (em_comments model)
        (buffer_field_varint 12 (em_period model)
          (emit_value_type 11 (em_period_type model) (em_period_unit model)
            (fold (buffer_field_bytes 6) (em_strings model)
              (fold emit_function (em_functions model)
                (fold (emit_location model) (em_locations model)
                  (fold emit_mapping (em_mappings model)
                    (fold (emit_sample (em_value_count model)) (em_samples model) (?types out0))))))))))"
  have "emits (fields_bytes (profile_fields model)) F"
    unfolding F_def
    by (rule emits_fields,
        (rule emits_next_field [OF emits_field_varint] emits_fold_fields [OF emits_field_varint]
        emits_next_field [OF emits_value_type] emits_fold_fields [OF emits_field_bytes] emits_fold_fields [OF emits_function]
        emits_fold_fields [OF emits_location] emits_fold_fields [OF emits_mapping] emits_fold_fields [OF emits_sample]
        emits_fold_fields [OF emits_value_type] emits_start)+) (simp add: profile_fields_def)
  moreover have "(b \<longrightarrow> out' = F out \<and> \<not> buf_failed (fst out')) \<and>
       (\<not> b \<longrightarrow> (\<exists>i<em_value_count model. unit_index model i = None) \<or> out' = F out \<and> buf_failed (fst out'))"
    if r: "encode_profile model out = (b, out')" for out b out'
  proof -
    obtain found out1 where t: "encode_value_types model [0..<em_value_count model] out = (found, out1)" by (rule prod.exhaust)
    note v = encode_value_types_fold [OF t]
    show ?thesis
    proof (cases found)
      case True
      then have "out1 = ?types out" using v by blast
      then show ?thesis using r t True by (auto simp: encode_profile_def F_def Let_def)
    next
      case False
      then show ?thesis using r t v by (auto simp: encode_profile_def)
    qed
  qed
  ultimately show ?thesis by blast
qed

section \<open>The decoder\<close>

text \<open>The values of a varint field, and of a length-delimited field, among the fields read.\<close>

definition varints :: "u32 \<Rightarrow> (u32 \<times> wire_value) list \<Rightarrow> u64 list" where
  "varints n fs = concat (map (\<lambda>(k, w). case w of Varint v \<Rightarrow> if k = n then [v] else [] | Message _ \<Rightarrow> []) fs)"

definition messages :: "u32 \<Rightarrow> (u32 \<times> wire_value) list \<Rightarrow> bytes list" where
  "messages n fs = concat (map (\<lambda>(k, w). case w of Varint _ \<Rightarrow> [] | Message bs \<Rightarrow> if k = n then [bs] else []) fs)"

text \<open>A varint field that is missing is 0; of several, the last counts.\<close>

definition varint_of :: "u32 \<Rightarrow> (u32 \<times> wire_value) list \<Rightarrow> u64" where
  "varint_of n fs = (if varints n fs = [] then 0 else last (varints n fs))"

function parse_packed :: "bytes \<Rightarrow> u64 list option" where
  "parse_packed bs =
     (if bs = [] then Some []
      else case parse_varint bs of
        None \<Rightarrow> None
      | Some (v, rest) \<Rightarrow> if length bs \<le> length rest then None else map_option (Cons v) (parse_packed rest))"
  by auto
termination
  by (relation "measure length") auto

declare parse_packed.simps [simp del]

type_synonym pprof_sample = "u64 list \<times> u64 list"

text \<open>Id, name, system name, file name, first line.\<close>

type_synonym pprof_function = "u64 \<times> u64 \<times> u64 \<times> u64 \<times> u64"

text \<open>Id, mapping, address, and the lines, each a function with a line number.\<close>

type_synonym pprof_location = "u64 \<times> u64 \<times> u64 \<times> (u64 \<times> u64) list"

record pprof =
  pp_sample_types :: "(u64 \<times> u64) list"
  pp_samples :: "pprof_sample list"
  pp_mappings :: "lp_export_mapping list"
  pp_locations :: "pprof_location list"
  pp_functions :: "pprof_function list"
  pp_strings :: "bytes list"
  pp_period_types :: "(u64 \<times> u64) list"
  pp_period :: u64
  pp_comments :: "u64 list"
  pp_default_sample_type :: u64

definition decode_pair :: "bytes \<Rightarrow> (u64 \<times> u64) option" where
  "decode_pair bs = map_option (\<lambda>fs. (varint_of 1 fs, varint_of 2 fs)) (parse_fields bs)"

definition decode_all :: "(bytes \<Rightarrow> 'a option) \<Rightarrow> u32 \<Rightarrow> (u32 \<times> wire_value) list \<Rightarrow> 'a list option" where
  "decode_all decode n fs = those (map decode (messages n fs))"

definition decode_sample :: "bytes \<Rightarrow> pprof_sample option" where
  "decode_sample bs =
     (case parse_fields bs of
        None \<Rightarrow> None
      | Some fs \<Rightarrow>
          (case (decode_all parse_packed 1 fs, decode_all parse_packed 2 fs) of
             (Some ids, Some vals) \<Rightarrow> Some (concat ids, concat vals)
           | _ \<Rightarrow> None))"

definition decode_mapping :: "bytes \<Rightarrow> lp_export_mapping option" where
  "decode_mapping bs = map_option (\<lambda>fs.
     \<lparr>ep_id = varint_of 1 fs, ep_start = varint_of 2 fs, ep_limit = varint_of 3 fs, ep_offset = varint_of 4 fs,
      ep_filename = varint_of 5 fs, ep_has_functions = varint_of 7 fs \<noteq> 0,
      ep_has_filenames = varint_of 8 fs \<noteq> 0, ep_has_line_numbers = varint_of 9 fs \<noteq> 0\<rparr>) (parse_fields bs)"

definition decode_location :: "bytes \<Rightarrow> pprof_location option" where
  "decode_location bs =
     (case parse_fields bs of
        None \<Rightarrow> None
      | Some fs \<Rightarrow>
          map_option (\<lambda>lines. (varint_of 1 fs, varint_of 2 fs, varint_of 3 fs, lines)) (decode_all decode_pair 4 fs))"

definition decode_function :: "bytes \<Rightarrow> pprof_function option" where
  "decode_function bs = map_option (\<lambda>fs.
     (varint_of 1 fs, varint_of 2 fs, varint_of 3 fs, varint_of 4 fs, varint_of 5 fs)) (parse_fields bs)"

definition decode_profile :: "bytes \<Rightarrow> pprof option" where
  "decode_profile bs =
     (case parse_fields bs of
        None \<Rightarrow> None
      | Some fs \<Rightarrow>
          (case (decode_all decode_pair 1 fs, decode_all decode_sample 2 fs, decode_all decode_mapping 3 fs,
                 decode_all decode_location 4 fs, decode_all decode_function 5 fs, decode_all decode_pair 11 fs) of
             (Some types, Some samples, Some mappings, Some locations, Some functions, Some periods) \<Rightarrow>
               Some \<lparr>pp_sample_types = types, pp_samples = samples, pp_mappings = mappings,
                 pp_locations = locations, pp_functions = functions, pp_strings = messages 6 fs,
                 pp_period_types = periods, pp_period = varint_of 12 fs, pp_comments = varints 13 fs,
                 pp_default_sample_type = varint_of 14 fs\<rparr>
           | _ \<Rightarrow> None))"

text \<open>What a model says, as a profile.\<close>

definition pprof_of :: "lp_export_model \<Rightarrow> pprof" where
  "pprof_of model =
     \<lparr>pp_sample_types = map (\<lambda>i. (em_sample_name_indices model ! i, the (unit_index model i))) [0..<em_value_count model],
      pp_samples = map (\<lambda>s. (take (es_depth s) (es_locations s), take (em_value_count model) (es_values s))) (em_samples model),
      pp_mappings = em_mappings model,
      pp_locations = map (\<lambda>l. (el_id l, ep_id (em_mappings model ! unat (el_mapping_index l)), el_address l,
        [(ef_id (em_functions model ! unat (el_function_index l)), scast (el_line l))])) (em_locations model),
      pp_functions = map (\<lambda>f. (ef_id f, ef_name f, ef_name f, ef_filename f,
        if 0 <s ef_linedefined f then scast (ef_linedefined f) else 0)) (em_functions model),
      pp_strings = em_strings model,
      pp_period_types = [(em_period_type model, em_period_unit model)],
      pp_period = em_period model, pp_comments = em_comments model,
      pp_default_sample_type = em_sample_name_indices model ! em_default_value model\<rparr>"

section \<open>Round trip\<close>

lemma varints_simps [simp]:
  "varints n [] = []" "varints n ((k, Varint v) # fs) = (if k = n then v # varints n fs else varints n fs)"
  "varints n ((k, Message bs) # fs) = varints n fs" "varints n (fs @ gs) = varints n fs @ varints n gs"
  "varints n (message_field k ms # fs) = varints n fs"
  by (simp_all add: varints_def message_field_def)

lemma messages_simps [simp]:
  "messages n [] = []" "messages n ((k, Varint v) # fs) = messages n fs"
  "messages n ((k, Message bs) # fs) = (if k = n then bs # messages n fs else messages n fs)"
  "messages n (fs @ gs) = messages n fs @ messages n gs"
  "messages n (message_field k ms # fs) = (if k = n then fields_bytes ms # messages n fs else messages n fs)"
  by (simp_all add: messages_def message_field_def)

lemma map_fields [simp]:
  "varints n (map (\<lambda>x. message_field k (g x)) xs) = []"
  "varints n (map (\<lambda>x. (k, Message (h x))) xs) = []"
  "varints n (map (\<lambda>x. (k, Varint (v x))) xs) = (if k = n then map v xs else [])"
  "messages n (map (\<lambda>x. message_field k (g x)) xs) = (if k = n then map (\<lambda>x. fields_bytes (g x)) xs else [])"
  "messages n (map (\<lambda>x. (k, Message (h x))) xs) = (if k = n then map h xs else [])"
  "messages n (map (\<lambda>x. (k, Varint (v x))) xs) = []"
  by (induction xs; cases "k = n"; simp)+

lemma field_if_simps [simp]:
  "varints n (field_if c (k, Varint v)) = (if c \<and> k = n then [v] else [])" "messages n (field_if c (k, Varint v)) = []"
  by (simp_all add: field_if_def)

lemma parse_packed_bytes: "parse_packed (packed_bytes vs) = Some vs"
proof (induction vs)
  case Nil
  then show ?case by (subst parse_packed.simps) (simp add: packed_bytes_def)
next
  case (Cons v vs)
  have "packed_bytes (v # vs) = varint_bytes v @ packed_bytes vs" by (simp add: packed_bytes_def)
  then show ?case using Cons by (subst parse_packed.simps) (auto simp: parse_varint_bytes)
qed

text \<open>Fields that are read back: small numbers, and a total length that is a \<open>size_t\<close>.\<close>

definition numbers_ok :: "(u32 \<times> wire_value) list \<Rightarrow> bool" where
  "numbers_ok fs \<longleftrightarrow> (\<forall>f\<in>set fs. unat (fst f) < 536870912)"

lemma length_message: "(k, Message bs) \<in> set fs \<Longrightarrow> length bs \<le> length (fields_bytes fs)"
proof (induction fs)
  case Nil
  then show ?case by simp
next
  case (Cons f fs)
  then show ?case by auto
qed

lemma parse_fields_bytes:
  assumes "numbers_ok fs" and "length (fields_bytes fs) \<le> u64_max"
  shows "parse_fields (fields_bytes fs) = Some fs"
proof -
  have "list_all wire_ok fs"
    unfolding list_all_iff
  proof
    fix f
    assume f: "f \<in> set fs"
    obtain k w where "f = (k, w)" by fastforce
    then show "wire_ok f"
      using f assms length_message [of k _ fs] by (fastforce simp: numbers_ok_def split: wire_value.split)
  qed
  then show ?thesis unfolding fields_bytes_def
    by (induction fs) (simp_all del: field_bytes.simps wire_ok.simps add: parse_fields_Nil parse_fields_step)
qed

lemma those_map: "(\<And>x. x \<in> set xs \<Longrightarrow> f x = Some (g x)) \<Longrightarrow> those (map f xs) = Some (map g xs)"
  by (induction xs) auto

abbreviation (input) fits :: "(u32 \<times> wire_value) list \<Rightarrow> bool" where
  "fits fs \<equiv> length (fields_bytes fs) \<le> u64_max"

lemma numbers_ok_field_if [simp]: "numbers_ok (field_if c (k, w) @ fs) \<longleftrightarrow> (c \<longrightarrow> unat k < 536870912) \<and> numbers_ok fs"
  by (auto simp: numbers_ok_def field_if_def)

lemma numbers_ok_simps [simp]: "numbers_ok []" "numbers_ok (f # fs) \<longleftrightarrow> unat (fst f) < 536870912 \<and> numbers_ok fs"
  "numbers_ok (fs @ gs) \<longleftrightarrow> numbers_ok fs \<and> numbers_ok gs"
  by (auto simp: numbers_ok_def)

lemma fst_message_field [simp]: "fst (message_field k ms) = k"
  by (simp add: message_field_def)

lemma numbers_ok_one [simp]: "numbers_ok (field_if c (k, w)) \<longleftrightarrow> (c \<longrightarrow> unat k < 536870912)"
  by (auto simp: numbers_ok_def field_if_def)

lemma decode_pair_bytes: "fits [(1, Varint a), (2, Varint b)] \<Longrightarrow> decode_pair (fields_bytes [(1, Varint a), (2, Varint b)]) = Some (a, b)"
  unfolding decode_pair_def by (subst parse_fields_bytes) (simp_all add: varint_of_def)

lemma decode_line_bytes:
  "fits (line_fields model l) \<Longrightarrow> decode_pair (fields_bytes (line_fields model l)) =
     Some (ef_id (em_functions model ! unat (el_function_index l)), scast (el_line l))"
  unfolding decode_pair_def by (subst parse_fields_bytes) (auto simp: varint_of_def line_fields_def)

lemma decode_mapping_bytes: "fits (mapping_fields p) \<Longrightarrow> decode_mapping (fields_bytes (mapping_fields p)) = Some p"
  unfolding decode_mapping_def by (subst parse_fields_bytes) (auto simp: varint_of_def mapping_fields_def)

lemma decode_function_bytes:
  "fits (function_fields f) \<Longrightarrow> decode_function (fields_bytes (function_fields f)) =
     Some (ef_id f, ef_name f, ef_name f, ef_filename f, if 0 <s ef_linedefined f then scast (ef_linedefined f) else 0)"
  unfolding decode_function_def by (subst parse_fields_bytes) (auto simp: varint_of_def function_fields_def)

lemma decode_location_bytes:
  assumes "fits (location_fields model l)"
  shows "decode_location (fields_bytes (location_fields model l)) =
     Some (el_id l, ep_id (em_mappings model ! unat (el_mapping_index l)), el_address l,
       [(ef_id (em_functions model ! unat (el_function_index l)), scast (el_line l))])"
proof -
  have "(4, Message (fields_bytes (line_fields model l))) \<in> set (location_fields model l)"
    by (simp add: location_fields_def message_field_def)
  then have "fits (line_fields model l)" using assms length_message by (meson order.trans)
  then show ?thesis
    unfolding decode_location_def
    by (subst parse_fields_bytes)
      (use assms in \<open>auto simp: varint_of_def location_fields_def decode_all_def decode_line_bytes line_fields_def [symmetric] simp del: fields_bytes_simps\<close>)
qed

lemma decode_sample_bytes:
  assumes "fits (sample_fields n s)"
  shows "decode_sample (fields_bytes (sample_fields n s)) = Some (take (es_depth s) (es_locations s), take n (es_values s))"
  unfolding decode_sample_def
  by (subst parse_fields_bytes)
    (use assms in \<open>simp_all add: sample_fields_def decode_all_def parse_packed_bytes del: fields_bytes_simps\<close>)

lemma profile_message_fits:
  "fits (profile_fields model) \<Longrightarrow> message_field k fs \<in> set (profile_fields model) \<Longrightarrow> fits fs"
  using length_message [of k "fields_bytes fs" "profile_fields model"] by (simp add: message_field_def)

lemma decode_profile_fields:
  assumes "fits (profile_fields model)"
  shows "decode_profile (fields_bytes (profile_fields model)) = Some (pprof_of model)"
proof -
  note fit = profile_message_fits [OF assms]
  have types: "those (map (\<lambda>i. decode_pair (fields_bytes [(1, Varint (em_sample_name_indices model ! i)),
        (2, Varint (the (unit_index model i)))])) [0..<em_value_count model]) = Some (pp_sample_types (pprof_of model))"
    unfolding pprof_of_def pprof.simps
    by (intro those_map decode_pair_bytes fit [of 1]) (auto simp: profile_fields_def value_type_field_def)
  have samples: "those (map (\<lambda>s. decode_sample (fields_bytes (sample_fields (em_value_count model) s))) (em_samples model)) =
      Some (pp_samples (pprof_of model))"
    unfolding pprof_of_def pprof.simps
    by (intro those_map decode_sample_bytes fit [of 2]) (auto simp: profile_fields_def)
  have mappings: "those (map (\<lambda>p. decode_mapping (fields_bytes (mapping_fields p))) (em_mappings model)) =
      Some (map (\<lambda>p. p) (em_mappings model))"
    by (intro those_map decode_mapping_bytes fit [of 3]) (auto simp: profile_fields_def)
  have locations: "those (map (\<lambda>l. decode_location (fields_bytes (location_fields model l))) (em_locations model)) =
      Some (pp_locations (pprof_of model))"
    unfolding pprof_of_def pprof.simps
    by (intro those_map decode_location_bytes fit [of 4]) (auto simp: profile_fields_def)
  have funs: "those (map (\<lambda>f. decode_function (fields_bytes (function_fields f))) (em_functions model)) =
      Some (pp_functions (pprof_of model))"
    unfolding pprof_of_def pprof.simps
    by (intro those_map decode_function_bytes fit [of 5]) (auto simp: profile_fields_def)
  have period: "decode_pair (fields_bytes [(1, Varint (em_period_type model)), (2, Varint (em_period_unit model))]) =
      Some (em_period_type model, em_period_unit model)"
    by (intro decode_pair_bytes fit [of 11]) (simp add: profile_fields_def value_type_field_def)
  have all: "messages 1 (profile_fields model) = map (\<lambda>i. fields_bytes [(1, Varint (em_sample_name_indices model ! i)),
        (2, Varint (the (unit_index model i)))]) [0..<em_value_count model]"
    "messages 2 (profile_fields model) = map (\<lambda>s. fields_bytes (sample_fields (em_value_count model) s)) (em_samples model)"
    "messages 3 (profile_fields model) = map (\<lambda>p. fields_bytes (mapping_fields p)) (em_mappings model)"
    "messages 4 (profile_fields model) = map (\<lambda>l. fields_bytes (location_fields model l)) (em_locations model)"
    "messages 5 (profile_fields model) = map (\<lambda>f. fields_bytes (function_fields f)) (em_functions model)"
    "messages 6 (profile_fields model) = em_strings model"
    "messages 11 (profile_fields model) = [fields_bytes [(1, Varint (em_period_type model)), (2, Varint (em_period_unit model))]]"
    "varint_of 12 (profile_fields model) = em_period model" "varints 13 (profile_fields model) = em_comments model"
    "varint_of 14 (profile_fields model) = em_sample_name_indices model ! em_default_value model"
    by (simp_all add: profile_fields_def value_type_field_def varint_of_def del: fields_bytes_simps)
  have "numbers_ok (profile_fields model)"
    by (auto simp: numbers_ok_def profile_fields_def value_type_field_def)
  from parse_fields_bytes [OF this assms] show ?thesis
    unfolding decode_profile_def decode_all_def
    by (simp add: all comp_def types samples mappings locations funs period del: fields_bytes_simps)
      (simp add: pprof_of_def)
qed

lemma encode_profile_data:
  assumes "encode_profile model (zero_buffer, memory) = (True, (profile, memory'))"
  shows "buf_data profile = fields_bytes (profile_fields model) \<and> fits (profile_fields model)"
proof -
  obtain F where F: "emits (fields_bytes (profile_fields model)) F"
    "\<And>out b out'. encode_profile model out = (b, out') \<Longrightarrow> b \<Longrightarrow> out' = F out \<and> \<not> buf_failed (fst out')"
    using encode_profile_emits by blast
  have r: "F (zero_buffer, memory) = (profile, memory')" "\<not> buf_failed profile"
    using F(2) [OF assms] by simp_all
  have data: "buf_data profile = fields_bytes (profile_fields model)" using emits_written [OF F(1) r] by simp
  moreover have "buffer_ok profile" using emits_ok [OF F(1) r] by simp
  ultimately show ?thesis by (simp add: buffer_ok_def)
qed

text \<open>With memory, and units that are among the strings, encoding a model of sane size succeeds.\<close>

lemma encode_profile_succeeds:
  assumes "\<forall>i<em_value_count model. unit_index model i \<noteq> None"
    and "length (fields_bytes (profile_fields model)) \<le> size_limit"
  shows "\<exists>profile. encode_profile model (zero_buffer, []) = (True, (profile, []))"
proof -
  obtain F where F: "emits (fields_bytes (profile_fields model)) F"
    "\<And>out b out'. encode_profile model out = (b, out') \<Longrightarrow> (b \<longrightarrow> out' = F out) \<and>
       (\<not> b \<longrightarrow> (\<exists>i<em_value_count model. unit_index model i = None) \<or> out' = F out \<and> buf_failed (fst out'))"
    using encode_profile_emits by blast
  obtain b profile m where r: "encode_profile model (zero_buffer, []) = (b, (profile, m))" by (metis surj_pair)
  obtain q m' where q: "F (zero_buffer, []) = (q, m')" by (rule prod.exhaust)
  have "m' = [] \<and> \<not> buf_failed q" using emits_succeeds [OF F(1) q] assms(2) by simp
  then show ?thesis using F(2) [OF r] assms(1) q r by auto
qed

text \<open>
  C34: what the exporter encodes can be decoded, and decodes to the model. If \<open>encode_profile\<close>
  returns true, a reader of \<open>profile.proto\<close> finds in the bytes exactly the sample types, samples,
  mappings, locations with their lines, functions, strings, period, comments and default sample
  type of the model.
\<close>

theorem encoded_profile_decodes:
  assumes "encode_profile model (zero_buffer, memory) = (True, (profile, memory'))"
  shows "decode_profile (buf_data profile) = Some (pprof_of model)"
  using encode_profile_data [OF assms] decode_profile_fields by simp

definition example_model :: lp_export_model where
  "example_model = (zero_model [])\<lparr>em_strings := [[], [99], [102, 58, 103]],
     em_mappings := [\<lparr>ep_id = 1, ep_start = 4096, ep_limit = 8192, ep_offset = 0, ep_filename = 1,
       ep_has_functions = True, ep_has_filenames = False, ep_has_line_numbers = False\<rparr>],
     em_functions := [\<lparr>ef_hash = 0, ef_id = 1, ef_kind = LP_FRAME_LUA, ef_function = 8, ef_cfunction = 0,
       ef_source = None, ef_source_length = 0, ef_linedefined = - 1, ef_synthetic = None, ef_name = 2,
       ef_filename = 1, ef_mapping_index = 0\<rparr>],
     em_locations := [\<lparr>el_id = 1, el_function_index = 0, el_mapping_index = 0, el_line = 300, el_address = 0\<rparr>],
     em_samples := [\<lparr>es_locations = [1, 1], es_depth = 2, es_values = [5, 0, 0, 0]\<rparr>],
     em_value_count := 1, em_sample_name_indices := [2, 0, 0, 0], em_sample_units := [[99], [], [], []]\<rparr>"

lemma encoded_profile_decodes_witness:
  "\<exists>profile. encode_profile example_model (zero_buffer, []) = (True, (profile, [])) \<and>
     decode_profile (buf_data profile) = Some (pprof_of example_model) \<and>
     pp_samples (pprof_of example_model) = [([1, 1], [5])]"
proof -
  have "length (fields_bytes (profile_fields example_model)) \<le> size_limit"
    by (simp add: example_model_def zero_model_def profile_fields_def value_type_field_def message_field_def
        sample_fields_def mapping_fields_def location_fields_def line_fields_def function_fields_def field_if_def
        unit_index_def c_text_def)
      (simp add: key_bytes_def packed_bytes_def varint_bytes.simps Let_def)
  then obtain profile where "encode_profile example_model (zero_buffer, []) = (True, (profile, []))"
    using encode_profile_succeeds [of example_model]
    by (auto simp: example_model_def zero_model_def unit_index_def c_text_def)
  then show ?thesis using encoded_profile_decodes [of example_model "[]" profile "[]"]
    by (auto simp: example_model_def zero_model_def pprof_of_def)
qed

end
