(* ===== verification/Pprof_Roundtrip.thy ===== *)
theory Pprof_Roundtrip
  imports Pprof_Refinement Pprof_Encode
begin

text \<open>
  From a result to the reader of its profile: the model built by \<open>model_init\<close> and encoded by
  \<open>encode_profile\<close> is decoded again, and the samples a reader sees, with their locations
  resolved through the ids and the string table, are those of the result.
\<close>

unbundle bit_operations_syntax

section \<open>Reading a profile\<close>

text \<open>Name, file name, line and address of a location, as a reader looks them up by id.\<close>

definition resolve_location :: "pprof \<Rightarrow> u64 \<Rightarrow> (bytes \<times> bytes \<times> u64 \<times> u64) option" where
  "resolve_location p loc =
     (case find (\<lambda>l. fst l = loc) (pp_locations p) of
        Some (_, _, address, [(fid, line)]) \<Rightarrow>
          (case find (\<lambda>f. fst f = fid) (pp_functions p) of
             Some (_, name, _, file, _) \<Rightarrow>
               if unat name < length (pp_strings p) \<and> unat file < length (pp_strings p)
               then Some (pp_strings p ! unat name, pp_strings p ! unat file, line, address) else None
           | None \<Rightarrow> None)
      | _ \<Rightarrow> None)"

text \<open>
  A location shows a frame: its line and address are the frame's, and it has the name and file
  formatted for a frame of the same function (the first one that was seen).
\<close>

definition shows_frame :: "native_env \<Rightarrow> lp_export_symbols option \<Rightarrow> pprof \<Rightarrow> u64 \<Rightarrow> lp_frame_desc \<Rightarrow> bool" where
  "shows_frame env symbols p loc d \<longleftrightarrow>
     (\<exists>d'. desc_key d' = desc_key d \<and>
        resolve_location p loc =
          Some (c_text (format_name env symbols d'), format_filename env d', scast (shown_line d), shown_address d))"

definition shows_sample ::
  "native_env \<Rightarrow> lp_export_symbols option \<Rightarrow> pprof \<Rightarrow> u64 list \<times> u64 list \<Rightarrow> lp_frame_desc list \<times> u64 list \<Rightarrow> bool" where
  "shows_sample env symbols p s spec \<longleftrightarrow>
     list_all2 (shows_frame env symbols p) (fst s) (fst spec) \<and>
     snd s = take (length (pp_sample_types p)) (snd spec)"

text \<open>The names and units of the values.\<close>

definition shown_types :: "pprof \<Rightarrow> (bytes \<times> bytes) list" where
  "shown_types p = map (\<lambda>(name, unit). (pp_strings p ! unat name, c_text (pp_strings p ! unat unit))) (pp_sample_types p)"

definition shows_result :: "native_env \<Rightarrow> lp_export_symbols option \<Rightarrow> lp_result \<Rightarrow> pprof \<Rightarrow> bool" where
  "shows_result env symbols res p \<longleftrightarrow>
     shown_types p = zip (result_names res) (result_units res) \<and>
     list_all2 (shows_sample env symbols p) (pp_samples p) (result_spec res) \<and>
     pp_strings p \<noteq> [] \<and> pp_strings p ! 0 = []"

section \<open>Lookup by id\<close>

lemma find_by_id:
  assumes "\<forall>i<length xs. g (xs ! i) = (of_nat (i + 1) :: u64)" and "k < length xs" and "length xs \<le> 262144"
  shows "find (\<lambda>x. g x = of_nat (k + 1)) xs = Some (xs ! k)"
proof -
  have inj: "of_nat (i + 1) \<noteq> (of_nat (k + 1) :: u64)" if "i < k" for i
  proof
    assume "of_nat (i + 1) = (of_nat (k + 1) :: u64)"
    then have "unat (of_nat (i + 1) :: u64) = unat (of_nat (k + 1) :: u64)" by simp
    then show False using that assms(2,3) by (simp add: unat_of_nat take_bit_nat_eq_self_iff del: of_nat_Suc of_nat_add)
  qed
  show ?thesis
    unfolding find_Some_iff using assms(1,2) inj by (intro exI [of _ k]) (auto simp del: of_nat_Suc of_nat_add)
qed

lemma of_nat_unat_pred: "loc \<noteq> 0 \<Longrightarrow> of_nat (unat loc - 1 + 1) = loc" for loc :: u64
proof -
  assume "loc \<noteq> 0"
  then have "unat loc \<noteq> 0" by (simp add: unat_eq_0)
  then have "unat loc - 1 + 1 = unat loc" by linarith
  then show ?thesis by simp
qed

lemma denotes_shows:
  assumes ok: "tables_ok env m" and d: "denotes m loc d"
  shows "shows_frame env (em_symbols m) (pprof_of m) loc d"
proof -
  define i where "i = unat loc - 1"
  have "loc \<noteq> 0" "unat loc \<le> length (em_locations m)" using d by (auto simp: denotes_def)
  moreover from this have "unat loc \<noteq> 0" by (simp add: unat_eq_0)
  ultimately have loc: "loc = of_nat (i + 1)" "i < length (em_locations m)"
    using of_nat_unat_pred [of loc] unfolding i_def by (simp, linarith)
  define l where "l = em_locations m ! i"
  define k where "k = unat (el_function_index l)"
  have k: "k < length (em_functions m)" "function_key (em_functions m ! k) = desc_key d"
    "el_line l = shown_line d" "el_address l = shown_address d"
    using d by (simp_all add: denotes_def Let_def l_def i_def k_def)
  have ids: "\<forall>i<length (em_locations m). el_id (em_locations m ! i) = of_nat (i + 1)"
    "\<forall>i<length (em_functions m). ef_id (em_functions m ! i) = of_nat (i + 1)"
    "function_ok env m (em_functions m ! k)"
    using ok k(1) by (simp_all add: tables_ok_def locations_ok_def functions_ok_def)
  have len: "length (em_locations m) \<le> 262144" "length (em_functions m) \<le> 262144"
    using ok length_filter_le [of "\<lambda>s. s \<noteq> 0" "em_location_hash m"] length_filter_le [of "\<lambda>s. s \<noteq> 0" "em_function_hash m"]
    by (auto simp: tables_ok_def index_table_ok_def FUNCTION_HASH_BITS_def LOCATION_HASH_BITS_def)
  let ?pl = "\<lambda>l. (el_id l, ep_id (em_mappings m ! unat (el_mapping_index l)), el_address l,
        [(ef_id (em_functions m ! unat (el_function_index l)), scast (el_line l) :: u64)])"
  let ?pf = "\<lambda>f. (ef_id f, ef_name f, ef_name f, ef_filename f, if 0 <s ef_linedefined f then scast (ef_linedefined f) else (0 :: u64))"
  have fl: "find (\<lambda>x. fst x = loc) (map ?pl (em_locations m)) = Some (?pl l)"
    unfolding loc(1) using find_by_id [of "map ?pl (em_locations m)" fst i] ids(1) len(1) loc(2) by (simp add: l_def)
  have ff: "find (\<lambda>x. fst x = ef_id (em_functions m ! k)) (map ?pf (em_functions m)) = Some (?pf (em_functions m ! k))"
    using find_by_id [of "map ?pf (em_functions m)" fst k] ids(2) len(2) k(1) by simp
  from ids(3) obtain d' where d': "desc_key d' = function_key (em_functions m ! k)"
    "string_at m (ef_name (em_functions m ! k)) (c_text (format_name env (em_symbols m) d'))"
    "string_at m (ef_filename (em_functions m ! k)) (format_filename env d')"
    unfolding function_ok_def by blast
  have "resolve_location (pprof_of m) loc = Some (c_text (format_name env (em_symbols m) d'),
      format_filename env d', scast (shown_line d), shown_address d)"
    unfolding resolve_location_def pprof_of_def pprof.simps fl
    using ff d'(2,3) k by (simp add: k_def [symmetric] string_at_def del: find.simps)
  then show ?thesis unfolding shows_frame_def using d'(1) k(2) by auto
qed

lemma first_index_exists: "(\<exists>x\<in>set xs. P x) \<Longrightarrow> \<exists>i. first_index P xs = Some i"
  by (induction xs) auto

lemma model_units:
  assumes "header_ok res m" and "i < em_value_count m"
  shows "unit_index m i \<noteq> None"
proof -
  have u: "em_sample_units m ! i = result_units res ! i" "result_units res ! i \<in> set (em_strings m)"
    using assms by (simp_all add: header_ok_def)
  then show ?thesis
    using first_index_exists [of "em_strings m" "\<lambda>s. c_text s = c_text (result_units res ! i)"]
    by (auto simp: unit_index_def)
qed

lemma model_shows_result:
  assumes "model_init env memory res sample_type symbols = (True, model)"
    and "encode_profile model (zero_buffer, memory1) = (True, (profile, memory2))"
  shows "\<exists>p. decode_profile (buf_data profile) = Some p \<and> shows_result env symbols res p"
proof -
  note rep = export_model_represents_result [OF assms(1)]
  have data: "decode_profile (buf_data profile) = Some (pprof_of model)"
    using encode_profile_data [OF assms(2)] decode_profile_fields by simp
  have ok: "tables_ok env model" "em_symbols model = symbols" and hdr: "header_ok res model" using rep by simp_all
  have count: "em_value_count model = length (result_names res)" "length (result_names res) = length (result_units res)"
    using hdr by (simp_all add: header_ok_def result_names_def result_units_def)
  have unit: "c_text (em_strings model ! unat (the (unit_index model i))) = result_units res ! i"
    if i: "i < em_value_count model" for i
  proof -
    have u: "em_sample_units model ! i = result_units res ! i" "result_units res ! i \<in> set (em_strings model)"
      "c_text (result_units res ! i) = result_units res ! i"
      using hdr i result_units_c_text [of i res] count by (simp_all add: header_ok_def)
    obtain j where j: "first_index (\<lambda>s. c_text s = c_text (result_units res ! i)) (em_strings model) = Some j"
      using first_index_exists [of "em_strings model" "\<lambda>s. c_text s = c_text (result_units res ! i)"] u(2) by blast
    have "j < length (em_strings model)" "c_text (em_strings model ! j) = result_units res ! i"
      using first_index_Some [OF j] u(3) by simp_all
    moreover have "length (em_strings model) \<le> u64_max div 16" using ok(1) by (simp add: tables_ok_def strings_ok_def)
    ultimately show ?thesis using j u(1) by (simp add: unit_index_def unat_of_nat take_bit_nat_eq_self_iff)
  qed
  have types: "shown_types (pprof_of model) = zip (result_names res) (result_units res)"
    by (rule nth_equalityI)
      (use hdr count unit in \<open>auto simp: shown_types_def pprof_of_def header_ok_def string_at_def\<close>)
  have samples: "list_all2 (shows_sample env symbols (pprof_of model)) (pp_samples (pprof_of model)) (result_spec res)"
  proof -
    have one: "shows_sample env symbols (pprof_of model)
        (take (es_depth s) (es_locations s), take (em_value_count model) (es_values s)) spec"
      if "sample_denotes model s spec" "spec \<in> set (result_spec res)" for s spec
    proof -
      have l: "list_all2 (denotes model) (es_locations s) (fst spec)" "es_depth s = length (fst spec)"
        "es_values s = take (em_value_count model) (snd spec) @ replicate (4 - em_value_count model) 0"
        using that(1) by (simp_all add: sample_denotes_def)
      have "es_depth s = length (es_locations s)" using l list_all2_lengthD by fastforce
      moreover have "list_all2 (shows_frame env symbols (pprof_of model)) (es_locations s) (fst spec)"
        using l(1) denotes_shows [OF ok(1)] ok(2) by (auto elim: list_all2_mono)
      moreover have "length (snd spec) = 4"
        using that(2) by (auto simp: result_spec_def cpu_spec_def memory_spec_def split: if_splits option.splits)
      ultimately show ?thesis using l(3) by (simp add: shows_sample_def pprof_of_def)
    qed
    have "list_all2 (sample_denotes model) (em_samples model) (result_spec res)" using rep by (simp add: samples_denote_def)
    from list.rel_mono_strong [OF this one] show ?thesis by (simp add: pprof_of_def list_all2_map1)
  qed
  have "pp_strings (pprof_of model) \<noteq> [] \<and> pp_strings (pprof_of model) ! 0 = []"
    using hdr by (auto simp: header_ok_def string_at_def pprof_of_def)
  then show ?thesis using data types samples by (auto simp: shows_result_def)
qed

text \<open>
  C20: the profile shows the result. When \<open>model_init\<close> and \<open>encode_profile\<close> both succeed, a
  reader that decodes the bytes sees the sample types of the result's kind, and exactly the
  samples of the result, in order: the locations of each, looked up by id, have one by one the
  names, files, lines and addresses of the frames derived from the captured stack, and its
  values are those of the sample.
\<close>

theorem exported_profile_shows_result:
  assumes "model_init env memory res sample_type symbols = (True, model)"
    and "encode_profile model (zero_buffer, memory1) = (True, (profile, memory2))"
  shows "\<exists>p. decode_profile (buf_data profile) = Some p \<and> shows_result env symbols res p"
  by (rule model_shows_result [OF assms])

end
