(* ===== verification/Pprof_Progress.thy ===== *)
theory Pprof_Progress
  imports Pprof_Roundtrip
begin

text \<open>
  The exporter makes progress: for a sound result and a metric that its kind has, while no
  allocation fails and the stacks have no more frames in all than the function table has slots,
  \<open>model_init\<close> returns true: no table fills up, and the comments fit.
\<close>

unbundle bit_operations_syntax

section \<open>With memory\<close>

text \<open>Not failed, with memory, and at most \<open>k\<close> strings, none of them long.\<close>

abbreviation (input) text_limit :: nat where "text_limit \<equiv> 70000"

definition ready :: "nat \<Rightarrow> lp_export_model \<Rightarrow> bool" where
  "ready k m \<longleftrightarrow> em_memory m = [] \<and> \<not> em_failed m \<and> length (em_strings m) \<le> k \<and>
     (\<forall>s\<in>set (em_strings m). length s \<le> text_limit)"

abbreviation (input) many :: nat where "many \<equiv> 1000000000"

lemma grow_one:
  assumes "n \<le> many" and "item_size \<noteq> 0" and "item_size \<le> 1024"
  shows "\<exists>c. grow_array capacity (n + 1) item_size [] = (True, c, [])"
proof -
  have "(n + 1) * item_size \<le> (many + 1) * 1024" using assms by (intro mult_le_mono) simp_all
  then show ?thesis using grow_array_succeeds [of "n + 1" item_size capacity] assms by auto
qed

lemma add_string_ready:
  assumes "ready k m" and "k \<le> many"
  shows "\<exists>c. add_string t m =
    (of_nat (length (em_strings m)), m\<lparr>em_string_capacity := c, em_strings := em_strings m @ [t]\<rparr>)"
proof -
  obtain c where "grow_array (em_string_capacity m) (length (em_strings m) + 1) 16 [] = (True, c, [])"
    using grow_one [of "length (em_strings m)" 16 "em_string_capacity m"] assms by (auto simp: ready_def)
  moreover have "m\<lparr>em_memory := []\<rparr> = m" using assms by (simp add: ready_def)
  ultimately show ?thesis
    using assms by (intro exI [of _ c]) (simp add: add_string_def grow_strings_def model_alloc_def ready_def)
qed

lemma ready_add: "ready k m \<Longrightarrow> length t \<le> text_limit \<Longrightarrow> ready (Suc k) (m\<lparr>em_string_capacity := c, em_strings := em_strings m @ [t]\<rparr>)"
  by (simp add: ready_def)

lemma ready_mono: "ready k m \<Longrightarrow> k \<le> l \<Longrightarrow> ready l m"
  by (simp add: ready_def)

lemma of_nat_not_max: "n < 4294967295 \<Longrightarrow> of_nat n \<noteq> (- 1 :: u32)"
proof
  assume n: "n < 4294967295" and eq: "of_nat n = (- 1 :: u32)"
  have "unat (of_nat n :: u32) = n" using n by (simp add: unat_of_nat take_bit_nat_eq_self_iff)
  then show False using n unfolding eq by (simp add: unsigned_minus_1_eq_mask mask_eq_exp_minus_1)
qed

lemma small_nonnegative: "n \<le> many \<Longrightarrow> \<not> (of_nat n :: u64) <s 0"
proof -
  assume n: "n \<le> many"
  then have u: "uint (of_nat n :: u64) = int n" by (simp add: uint_nat unat_of_nat take_bit_nat_eq_self_iff)
  have "sint (of_nat n :: u64) = uint (of_nat n :: u64)"
    unfolding sint_uint by (rule signed_take_bit_int_eq_self) (use n u in simp_all)
  then show ?thesis by (simp add: word_sless_alt)
qed

lemma intern_mapping_ready:
  assumes "ready k m" and "k \<le> many" and "length (em_mappings m) \<le> 100000" and "length t \<le> text_limit"
  shows "\<exists>w m'. intern_mapping s l off t a b c m = (w, m') \<and> w \<noteq> - 1 \<and> ready (Suc k) m'"
proof (cases "first_index (same_mapping m s l off t) (em_mappings m)")
  case (Some i)
  then have "i < 4294967295" using first_index_Some [OF Some] assms(3) by simp
  then show ?thesis
    using Some assms(1) of_nat_not_max [of i] by (auto simp: intern_mapping_def Let_def ready_def)
next
  case None
  obtain cap where g: "grow_array (em_mapping_capacity m) (length (em_mappings m) + 1) 48 [] = (True, cap, [])"
    using grow_one [of "length (em_mappings m)" 48 "em_mapping_capacity m"] assms by auto
  let ?m1 = "m\<lparr>em_mapping_capacity := cap, em_memory := []\<rparr>"
  have r: "ready k ?m1" using assms by (simp add: ready_def)
  obtain c' where s: "add_string t ?m1 =
      (of_nat (length (em_strings ?m1)), ?m1\<lparr>em_string_capacity := c', em_strings := em_strings ?m1 @ [t]\<rparr>)"
    using add_string_ready [OF r assms(2)] by blast
  have "\<not> (of_nat (length (em_strings m)) :: u64) <s 0" "of_nat (length (em_mappings m)) \<noteq> (- 1 :: u32)"
    using small_nonnegative assms by (auto simp: ready_def intro!: of_nat_not_max)
  then show ?thesis
    using None g s assms(1,4) by (auto simp: intern_mapping_def ready_def Let_def)
qed

lemma c_text_length: "length (c_text bs) \<le> length bs"
  by (simp add: c_text_def length_takeWhile_le)

lemma format_name_length: "length (format_name env symbols d) \<le> 1199"
  by (simp add: format_name_def snprintf_def)

lemma native_of_path: "length (ns_path (snd (native_of env address))) \<le> 4095"
proof (cases "lp_native_symbol_resolve env address")
  case None
  then show ?thesis by (simp add: native_of_def zero_native_symbol_def)
next
  case (Some r)
  then show ?thesis using native_path_length [of env address "fst r" "snd r"]
    by (simp add: native_of_def LP_NATIVE_PATH_CAPACITY_def)
qed

lemma native_of_path': "native_of env address = (b, s) \<Longrightarrow> length (ns_path s) \<le> 4095"
  using native_of_path [of env address] by simp

text \<open>A frame whose source has a 16-bit length, as the symbol store keeps it.\<close>

definition desc_short :: "lp_frame_desc \<Rightarrow> bool" where
  "desc_short d \<longleftrightarrow> unat (fd_source_length d) \<le> 65535"

lemma format_filename_length: "desc_short d \<Longrightarrow> length (format_filename env d) \<le> text_limit"
proof -
  assume short: "desc_short d"
  have skip: "unat (snd (skip_mark bs (fd_source_length d))) \<le> 65535" for bs
  proof (cases "fd_source_length d > 1")
    case True
    then have "unat (fd_source_length d - 1) = unat (fd_source_length d) - 1"
      by (intro unat_minus_one) auto
    then show ?thesis using short by (auto simp: skip_mark_def desc_short_def)
  qed (use short in \<open>simp add: skip_mark_def desc_short_def\<close>)
  have "length (take (unat (snd (skip_mark bs (fd_source_length d)))) x) \<le> text_limit" for bs and x :: bytes
    using skip [of bs] by simp
  then show ?thesis
    by (auto simp: format_filename_def ascii_def Let_def case_prod_beta split: option.split
        intro: order.trans [OF native_of_path])
qed

lemma format_function_ready:
  assumes short: "desc_short d" and rdy: "ready k m" "k + 3 \<le> many" and maps: "length (em_mappings m) \<le> 100000"
  shows "\<exists>w v u m'. format_function env d m = ((True, w, v, u), m') \<and> ready (k + 3) m'"
proof -
  have "\<exists>w m1. format_mapping env d m = (w, m1) \<and> w \<noteq> - 1 \<and> ready (Suc k) m1"
    using intern_mapping_ready [OF rdy(1) _ maps] rdy(2) ready_mono [OF rdy(1), of "Suc k"]
      order.trans [OF native_of_path] by (auto simp: format_mapping_def Let_def)
  then obtain w m1 where 1: "format_mapping env d m = (w, m1)" "w \<noteq> - 1" "ready (Suc k) m1" by blast
  have le: "Suc k \<le> many" "Suc (Suc k) \<le> many" using rdy(2) by simp_all
  let ?a = "c_text (format_name env (em_symbols m) d)" and ?b = "format_filename env d"
  obtain c where 2: "add_string ?a m1 = (of_nat (length (em_strings m1)), m1\<lparr>em_string_capacity := c, em_strings := em_strings m1 @ [?a]\<rparr>)"
    using add_string_ready [OF 1(3), of ?a] le by blast
  let ?m2 = "m1\<lparr>em_string_capacity := c, em_strings := em_strings m1 @ [?a]\<rparr>"
  have short: "length ?a \<le> text_limit" "length ?b \<le> text_limit"
    using order.trans [OF c_text_length format_name_length, of env "em_symbols m" d] format_filename_length [OF short] by simp_all
  have r2: "ready (Suc (Suc k)) ?m2" by (rule ready_add [OF 1(3) short(1)])
  obtain c' where 3: "add_string ?b ?m2 = (of_nat (length (em_strings ?m2)), ?m2\<lparr>em_string_capacity := c', em_strings := em_strings ?m2 @ [?b]\<rparr>)"
    using add_string_ready [OF r2, of ?b] le by blast
  have "ready (k + 3) (?m2\<lparr>em_string_capacity := c', em_strings := em_strings ?m2 @ [?b]\<rparr>)"
    using ready_add [OF r2 short(2)] by (simp add: numeral_3_eq_3)
  then show ?thesis using 1 2 3 by (auto simp: format_function_def add_literal_def ready_def)
qed

text \<open>A hash array with room has a free slot on every probe sequence.\<close>

lemma find_slot_room:
  assumes "index_table_ok bits n tbl" and "n < 2 ^ bits" and "bits \<le> 64"
  shows "\<exists>i. find_slot bits (\<lambda>s. s \<noteq> 0) matches tbl h = Some i"
proof (rule ccontr)
  assume "\<nexists>i. find_slot bits (\<lambda>s. s \<noteq> 0) matches tbl h = Some i"
  then have "find_slot bits (\<lambda>s. s \<noteq> 0) matches tbl h = None" by simp
  then have all: "\<forall>d<2 ^ bits. tbl ! probe_index bits h d \<noteq> 0" by (simp add: find_slot_def probe_loop_None)
  have "tbl ! i \<noteq> 0" if "i < 2 ^ bits" for i
    using all probe_index_onto [OF assms(3) that, of h] by blast
  then have "filter (\<lambda>s. s \<noteq> 0) tbl = tbl"
    using assms(1) by (auto simp: index_table_ok_def filter_id_conv in_set_conv_nth)
  then show False using assms(1,2) by (simp add: index_table_ok_def)
qed

section \<open>Frames\<close>

lemma intern_function_ready:
  assumes short: "desc_short d" and ok: "tables_ok env m" and r: "ready k m" "k + 3 \<le> many" and n: "length (em_functions m) < 16384"
  shows "\<exists>w m'. intern_function env d m = (w, m') \<and> w \<noteq> - 1 \<and> ready (k + 3) m' \<and>
    length (em_functions m') \<le> length (em_functions m) + 1 \<and> em_locations m' = em_locations m"
proof -
  let ?h = "export_frame_hash d" and ?tbl = "em_function_hash m" and ?n = "length (em_functions m)"
  have tbl: "index_table_ok FUNCTION_HASH_BITS ?n ?tbl" using ok by (simp add: tables_ok_def)
  let ?find = "find_slot FUNCTION_HASH_BITS (\<lambda>stored. stored \<noteq> 0)
      (\<lambda>stored. function_matches (em_functions m ! unat (stored - 1)) d ?h) ?tbl ?h"
  obtain slot where f: "?find = Some slot"
    using find_slot_room [OF tbl] n by (auto simp: FUNCTION_HASH_BITS_def)
  have slot: "slot < 2 ^ FUNCTION_HASH_BITS" using find_slot_bound [OF f] by (simp add: FUNCTION_HASH_BITS_def)
  show ?thesis
  proof (cases "?tbl ! slot = 0")
    case False
    have "unat (?tbl ! slot - 1) < 16384" using index_table_entry [OF tbl slot False] n by simp
    then have "?tbl ! slot - 1 \<noteq> - 1" by (auto simp: unsigned_minus_1_eq_mask mask_eq_exp_minus_1)
    then show ?thesis using f False ready_mono [OF r(1), of "k + 3"] by (simp add: intern_function_def Let_def)
  next
    case True
    obtain cap where g: "grow_array (em_function_capacity m) (?n + 1) 96 [] = (True, cap, [])"
      using grow_one [of ?n 96 "em_function_capacity m"] n by auto
    let ?m1 = "m\<lparr>em_function_capacity := cap, em_memory := []\<rparr>"
    have r1: "ready k ?m1" "length (em_mappings ?m1) \<le> 100000"
      using r tables_ok_mappings [OF ok] by (simp_all add: ready_def)
    obtain w v u m2 where ff: "format_function env d ?m1 = ((True, w, v, u), m2)" "ready (k + 3) m2"
      using format_function_ready [OF short r1(1) r(2) r1(2)] by blast
    have m1: "strings_ok ?m1" "mappings_ok ?m1" "em_mappings ?m1 \<noteq> []" "length (em_mappings ?m1) < 4294967295"
      using ok tables_ok_mappings [OF ok] by (simp_all add: tables_ok_def strings_ok_def mappings_ok_def)
    have same: "em_functions m2 = em_functions m" "em_locations m2 = em_locations m"
      using format_function_ok [OF m1 ff(1)] by (simp_all add: same_tables_def)
    have "of_nat ?n \<noteq> (- 1 :: u32)" using n by (intro of_nat_not_max) simp
    then show ?thesis
      using f True g ff same r(1) by (auto simp: intern_function_def Let_def ready_def)
  qed
qed

lemma intern_location_ready:
  assumes short: "desc_short d" and ok: "tables_ok env m0" and r: "ready k m0" "k + 3 \<le> many"
    and n: "length (em_functions m0) < 16384" "length (em_locations m0) < 16384"
  shows "\<exists>w m'. intern_location env d m0 = (w, m') \<and> w \<noteq> 0 \<and> ready (k + 3) m' \<and>
    length (em_functions m') \<le> length (em_functions m0) + 1 \<and> length (em_locations m') \<le> length (em_locations m0) + 1"
proof -
  obtain fi m where fi: "intern_function env d m0 = (fi, m)" "fi \<noteq> - 1" "ready (k + 3) m"
    "length (em_functions m) \<le> length (em_functions m0) + 1" "em_locations m = em_locations m0"
    using intern_function_ready [OF short ok r n(1)] by blast
  note F = intern_function_ok [OF ok fi(1,2)]
  let ?line = "shown_line d" and ?tbl = "em_location_hash m" and ?n = "length (em_locations m)"
  let ?h = "location_hash fi ?line"
  have tbl: "index_table_ok LOCATION_HASH_BITS ?n ?tbl" using F by (simp add: tables_ok_def)
  let ?find = "find_slot LOCATION_HASH_BITS (\<lambda>stored. stored \<noteq> 0)
      (\<lambda>stored. let location = em_locations m ! unat (stored - 1)
        in el_function_index location = fi \<and> el_line location = ?line) ?tbl ?h"
  obtain slot where f: "?find = Some slot"
    using find_slot_room [OF tbl] n fi(5) by (auto simp: LOCATION_HASH_BITS_def)
  have slot: "slot < 2 ^ LOCATION_HASH_BITS" using find_slot_bound [OF f] by (simp add: LOCATION_HASH_BITS_def)
  have ids: "of_nat (i + 1) \<noteq> (0 :: u64)" if "i < 100000" for i
  proof
    assume "of_nat (i + 1) = (0 :: u64)"
    then have "unat (of_nat (i + 1) :: u64) = 0" by simp
    then show False using that by (simp add: unat_of_nat take_bit_nat_eq_self_iff del: of_nat_Suc of_nat_add)
  qed
  show ?thesis
  proof (cases "?tbl ! slot = 0")
    case False
    have i: "unat (?tbl ! slot - 1) < ?n" by (rule index_table_entry [OF tbl slot False])
    then have "el_id (em_locations m ! unat (?tbl ! slot - 1)) \<noteq> 0"
      using F ids [of "unat (?tbl ! slot - 1)"] n fi(5) by (simp add: tables_ok_def locations_ok_def)
    then show ?thesis
      using fi f False by (simp add: intern_location_def shown_line_def [symmetric] Let_def)
  next
    case True
    obtain cap where g: "grow_array (em_location_capacity m) (?n + 1) 32 [] = (True, cap, [])"
      using grow_one [of ?n 32 "em_location_capacity m"] n fi(5) by auto
    have u: "unat (of_nat ?n :: u32) = ?n" using n fi(5) by (simp add: unat_of_nat take_bit_nat_eq_self_iff)
    have "ucast (of_nat ?n :: u32) + 1 \<noteq> (0 :: u64)"
      unfolding ucast_plus_1 [OF u] using ids [of ?n] n fi(5) by simp
    then show ?thesis
      using fi f True g by (auto simp: intern_location_def shown_line_def [symmetric] Let_def ready_def)
  qed
qed

lemma intern_locations_ready:
  assumes "\<forall>d\<in>set frames. desc_short d" "tables_ok env m" "ready k m" "k + 3 * length frames \<le> many"
    and "length (em_functions m) + length frames \<le> 16384" "length (em_locations m) + length frames \<le> 16384"
  shows "\<exists>locs m'. intern_locations env frames m = ((True, locs), m') \<and> ready (k + 3 * length frames) m' \<and>
    length (em_functions m') \<le> length (em_functions m) + length frames \<and>
    length (em_locations m') \<le> length (em_locations m) + length frames"
  using assms
proof (induction frames arbitrary: m k)
  case Nil
  then show ?case by simp
next
  case (Cons d frames)
  obtain w m1 where 1: "intern_location env d m = (w, m1)" "w \<noteq> 0" "ready (k + 3) m1"
    "length (em_functions m1) \<le> length (em_functions m) + 1" "length (em_locations m1) \<le> length (em_locations m) + 1"
    using intern_location_ready [OF _ Cons.prems(2,3), of d] Cons.prems by auto
  have "tables_ok env m1" using intern_location_ok [OF Cons.prems(2) 1(1,2)] by simp
  from Cons.IH [OF _ this 1(3)] 1(4,5) Cons.prems obtain locs m2 where
    2: "intern_locations env frames m1 = ((True, locs), m2)" "ready (k + 3 + 3 * length frames) m2"
    "length (em_functions m2) \<le> length (em_functions m1) + length frames"
    "length (em_locations m2) \<le> length (em_locations m1) + length frames" by auto
  then show ?case using 1 by (auto simp: ready_def)
qed

section \<open>Samples\<close>

text \<open>Room for so many more frames and samples.\<close>

definition room :: "nat \<Rightarrow> nat \<Rightarrow> lp_export_model \<Rightarrow> bool" where
  "room frames samples m \<longleftrightarrow>
     (\<exists>k. ready k m \<and> k + 3 * frames \<le> many) \<and> length (em_functions m) + frames \<le> 16384 \<and>
     length (em_locations m) + frames \<le> 16384 \<and> length (em_samples m) + samples \<le> many"

lemma append_export_sample_ready:
  assumes short: "\<forall>d\<in>set frames. desc_short d" and ok: "tables_ok env m" and room: "room (length frames + fs) (Suc n) m" and len: "length frames \<le> 65"
  shows "\<exists>m'. append_export_sample env frames vals m = (True, m') \<and> room fs n m'"
proof -
  obtain k where k: "ready k m" "k + 3 * (length frames + fs) \<le> many" using room by (auto simp: room_def)
  obtain cap where g: "grow_array (em_sample_capacity m) (length (em_samples m) + 1) 560 [] = (True, cap, [])"
    using grow_one [of "length (em_samples m)" 560 "em_sample_capacity m"] room by (auto simp: room_def)
  let ?s = "\<lparr>es_locations = [], es_depth = 0, es_values = replicate 4 0\<rparr>"
  let ?m1 = "m\<lparr>em_sample_capacity := cap, em_memory := []\<rparr>"
  let ?m2 = "?m1\<lparr>em_samples := em_samples ?m1 @ [?s]\<rparr>"
  have t: "tables_ok env ?m2" using ok unfolding tables_ok_samples tables_ok_capacity .
  have "ready k ?m2" using k(1) by (simp add: ready_def)
  from intern_locations_ready [OF short t this] room k(2) obtain locs m3 where
    3: "intern_locations env frames ?m2 = ((True, locs), m3)" "ready (k + 3 * length frames) m3"
    "length (em_functions m3) \<le> length (em_functions m) + length frames"
    "length (em_locations m3) \<le> length (em_locations m) + length frames" by (auto simp: room_def)
  have "em_samples m3 = em_samples m @ [?s]" using intern_locations_ok [OF t 3(1)] by simp
  then show ?thesis
    using room k g 3 len
    by (auto simp: append_export_sample_def Let_def LP_EXPORT_STACK_DEPTH_def room_def ready_def
        intro!: exI [of _ "k + 3 * length frames"])
qed

lemma while_ok_ready:
  assumes step: "\<And>i m fs n. i \<in> set is \<Longrightarrow> tables_ok env m \<Longrightarrow> room (g i + fs) (Suc n) m \<Longrightarrow>
      \<exists>m'. body i m = (True, m') \<and> tables_ok env m' \<and> room fs n m'"
    and "tables_ok env m" "room (sum_list (map g is) + fs) (length is + n) m"
  shows "\<exists>m'. while_ok body is m = (True, m') \<and> room fs n m'"
  using assms
proof (induction "is" arbitrary: m)
  case Nil
  then show ?case by simp
next
  case (Cons i "is")
  have "room (g i + (sum_list (map g is) + fs)) (Suc (length is + n)) m" using Cons.prems(3) by (simp add: add.assoc)
  then obtain m1 where 1: "body i m = (True, m1)" "tables_ok env m1" "room (sum_list (map g is) + fs) (length is + n) m1"
    using Cons.prems(1) [of i m "sum_list (map g is) + fs" "length is + n"] Cons.prems(2) by auto
  have "\<exists>m'. while_ok body is m1 = (True, m') \<and> room fs n m'"
    using Cons.IH [OF _ 1(2,3)] Cons.prems(1) by simp
  then show ?case using 1(1) by simp
qed

text \<open>The samples of a sound result are all there, and none is deeper than 64 frames.\<close>

lemma nth_used_in: "nth_used used slots w = Some a \<Longrightarrow> a \<in> set slots \<and> used a"
  using nth_mem [of w "filter used slots"] by (auto simp: nth_used_filter split: if_splits)

lemma cpu_sample_there:
  assumes "result_ok res" "res_kind res = LP_COLLECTOR_CPU" "i < lp_result_cpu_sample_count res"
  shows "\<exists>sample. lp_result_cpu_sample res i = Some sample \<and> csv_depth sample \<le> 64"
proof -
  obtain p where p: "res_cpu res = Some p" "cpu_profile_ok p" using assms(1,2) by (auto simp: result_ok_def)
  have shape: "cp_aggregate_count p = length (filter ca_used (cp_aggregates p))"
    "\<forall>a\<in>set (cp_aggregates p). ca_used a \<longrightarrow> cpu_aggregate_ok (cp_store p) a"
    using p(2) by (simp_all add: cpu_profile_ok_def cpu_shape_ok_def)
  have i: "i < cp_aggregate_count p"
    using assms(2,3) p(1) by (simp add: lp_result_cpu_sample_count_def lp_cpu_profile_sample_count_def)
  then obtain a where a: "nth_used ca_used (cp_aggregates p) i = Some a" using shape(1) by (simp add: nth_used_filter)
  have "unat (ca_depth a) \<le> 64" using nth_used_in [OF a] shape(2) by (auto simp: cpu_aggregate_ok_def CPU_MAX_STACK_DEPTH_def)
  then show ?thesis using assms(2) p(1) a i
    by (simp add: lp_result_cpu_sample_def lp_cpu_profile_sample_def cpu_aggregate_at_def)
qed

lemma memory_sample_there:
  assumes "result_ok res" "res_kind res = LP_COLLECTOR_MEMORY" "i < lp_result_memory_sample_count res"
  shows "\<exists>sample. lp_result_memory_sample res i = Some sample \<and> msv_depth sample \<le> 64"
proof -
  obtain p where p: "res_memory res = Some p" "memory_profile_ok p" using assms(1,2) by (auto simp: result_ok_def)
  have shape: "mp_aggregate_count p = length (filter ma_used (mp_aggregates p))"
    "\<forall>a\<in>set (mp_aggregates p). memory_aggregate_ok (mp_store p) a"
    using p(2) by (simp_all add: memory_profile_ok_def memory_shape_ok_def)
  have i: "i < mp_aggregate_count p"
    using assms(2,3) p(1) by (simp add: lp_result_memory_sample_count_def lp_memory_profile_sample_count_def)
  then obtain a where a: "nth_used ma_used (mp_aggregates p) i = Some a" using shape(1) by (simp add: nth_used_filter)
  have "unat (ma_depth a) \<le> 64"
    using nth_used_in [OF a] shape(2) by (fastforce simp: memory_aggregate_ok_def MEMORY_MAX_STACK_DEPTH_def)
  then show ?thesis using assms(2) p(1) a i
    by (simp add: lp_result_memory_sample_def lp_memory_profile_sample_def memory_aggregate_at_def)
qed

lemma length_cpu_frames: "csv_depth sample \<le> 64 \<Longrightarrow> length (cpu_frames res i sample) \<le> 65"
  by (auto simp: cpu_frames_def Let_def LP_EXPORT_STACK_DEPTH_def)

lemma length_memory_frames: "msv_depth sample \<le> 64 \<Longrightarrow> length (memory_frames res i sample) \<le> 65"
  by (simp add: memory_frames_def Let_def)

definition frame_total :: "lp_result \<Rightarrow> nat" where
  "frame_total res = sum_list (map (\<lambda>spec. length (fst spec)) (result_spec res))"

lemma stored_length: "unat (ucast (w :: u16) :: u64) \<le> 65535"
proof -
  have "unat w < 2 ^ LENGTH(16)" by (rule unsigned_less)
  moreover have "unat (ucast w :: u64) \<le> unat w" by (simp add: unsigned_ucast_eq take_bit_nat_less_eq_self)
  ultimately show ?thesis by simp
qed

lemma synthetic_short [simp]: "desc_short (synthetic_desc t)" "desc_short (cfunction_desc f)"
  by (simp_all add: desc_short_def synthetic_desc_def cfunction_desc_def)

lemma view_short: "desc_short (frame_desc (symbol_view store symbol line))"
  using stored_length by (simp add: desc_short_def frame_desc_def symbol_view_def)

lemma zero_short: "desc_short (frame_desc (zero_frame\<lparr>fr_currentline := line\<rparr>))" "desc_short (frame_desc zero_frame)"
  by (simp_all add: desc_short_def frame_desc_def zero_frame_def)

lemma cpu_frame_short: "lp_result_cpu_frame res i j = Some v \<Longrightarrow> desc_short (frame_desc v)"
  using view_short zero_short
  by (auto simp: lp_result_cpu_frame_def lp_cpu_profile_frame_def Let_def bind_eq_Some_conv split: if_splits option.splits)

lemma memory_frame_short: "lp_result_memory_frame res i j = Some v \<Longrightarrow> desc_short (frame_desc v)"
  using view_short
  by (auto simp: lp_result_memory_frame_def lp_memory_profile_frame_def Let_def bind_eq_Some_conv split: if_splits option.splits)

lemma captured_short: "desc_short (captured_desc (captured_frame res i j))"
  using zero_short cpu_frame_short
  by (auto simp: captured_desc_def captured_frame_def split: option.splits)

lemma cpu_frames_short: "d \<in> set (cpu_frames res i sample) \<Longrightarrow> desc_short d"
  by (auto simp: cpu_frames_def Let_def captured_short split: if_splits dest!: in_set_takeD in_set_dropD)

lemma memory_frames_short: "d \<in> set (memory_frames res i sample) \<Longrightarrow> desc_short d"
  by (auto simp: memory_frames_def Let_def split: if_splits option.splits dest: memory_frame_short)

lemma build_samples_ready:
  assumes res: "result_ok res" and t: "tables_ok env m" and room: "room (frame_total res) (length (result_spec res)) m"
  shows "\<exists>m'. (if res_kind res = LP_COLLECTOR_CPU then build_cpu_samples env res m else build_memory_samples env res m) = (True, m') \<and> room 0 0 m'"
proof (cases "res_kind res = LP_COLLECTOR_CPU")
  case True
  let ?period = "1000000000 div ucast (cfg_sample_hz (res_config res))"
  have step: "\<exists>m'. build_cpu_sample env res ?period i m = (True, m') \<and> tables_ok env m' \<and> room fs n m'"
    if i: "i \<in> set [0..<lp_result_cpu_sample_count res]" and t: "tables_ok env m"
      and r: "room (length (fst (cpu_spec res i)) + fs) (Suc n) m" for i m fs n
  proof -
    have "i < lp_result_cpu_sample_count res" using i by simp
    then obtain sample where s: "lp_result_cpu_sample res i = Some sample" "csv_depth sample \<le> 64"
      using cpu_sample_there [OF res True] by blast
    let ?vals = "[clamp_i64 (csv_weight sample), multiply_i64 (csv_weight sample) ?period, 0, 0]"
    have "room (length (cpu_frames res i sample) + fs) (Suc n) m" using r s(1) by (simp add: cpu_spec_def)
    then obtain m' where m': "append_export_sample env (cpu_frames res i sample) ?vals m = (True, m')" "room fs n m'"
      using append_export_sample_ready [OF _ t _ length_cpu_frames [OF s(2)]] cpu_frames_short by blast
    moreover have "tables_ok env m'" using append_export_sample_ok [OF t m'(1)] by simp
    ultimately show ?thesis using s by (auto simp: build_cpu_sample_def LP_EXPORT_STACK_DEPTH_def)
  qed
  have "room (sum_list (map (\<lambda>i. length (fst (cpu_spec res i))) [0..<lp_result_cpu_sample_count res]) + 0)
      (length [0..<lp_result_cpu_sample_count res] + 0) m"
    using room True by (simp add: frame_total_def result_spec_def comp_def)
  from while_ok_ready [OF step t this] show ?thesis using True by (simp add: build_cpu_samples_def)
next
  case False
  then have mem: "res_kind res = LP_COLLECTOR_MEMORY" using res by (auto simp: result_ok_def)
  have step: "\<exists>m'. build_memory_sample env res i m = (True, m') \<and> tables_ok env m' \<and> room fs n m'"
    if i: "i \<in> set [0..<lp_result_memory_sample_count res]" and t: "tables_ok env m"
      and r: "room (length (fst (memory_spec res i)) + fs) (Suc n) m" for i m fs n
  proof -
    have "i < lp_result_memory_sample_count res" using i by simp
    then obtain sample where s: "lp_result_memory_sample res i = Some sample" "msv_depth sample \<le> 64"
      using memory_sample_there [OF res mem] by blast
    let ?vals = "[clamp_i64 (msv_alloc_objects sample), clamp_i64 (msv_alloc_space sample),
             clamp_i64 (msv_inuse_objects sample), clamp_i64 (msv_inuse_space sample)]"
    have "room (length (memory_frames res i sample) + fs) (Suc n) m" using r s(1) by (simp add: memory_spec_def)
    then obtain m' where m': "append_export_sample env (memory_frames res i sample) ?vals m = (True, m')" "room fs n m'"
      using append_export_sample_ready [OF _ t _ length_memory_frames [OF s(2)]] memory_frames_short by blast
    moreover have "tables_ok env m'" using append_export_sample_ok [OF t m'(1)] by simp
    ultimately show ?thesis using s by (auto simp: build_memory_sample_def LP_EXPORT_STACK_DEPTH_def)
  qed
  have "room (sum_list (map (\<lambda>i. length (fst (memory_spec res i))) [0..<lp_result_memory_sample_count res]) + 0)
      (length [0..<lp_result_memory_sample_count res] + 0) m"
    using room False by (simp add: frame_total_def result_spec_def comp_def)
  from while_ok_ready [OF step t this] show ?thesis using False by (simp add: build_memory_samples_def)
qed

section \<open>Metadata\<close>

lemma add_literal_ready:
  assumes "ready k m" and "k \<le> many" and "length t \<le> text_limit"
  shows "\<exists>w m'. add_literal t m = (w, m') \<and> ready (Suc k) m' \<and> em_comments m' = em_comments m"
proof -
  obtain c where "add_string (c_text t) m =
      (of_nat (length (em_strings m)), m\<lparr>em_string_capacity := c, em_strings := em_strings m @ [c_text t]\<rparr>)"
    using add_string_ready [OF assms(1,2)] by blast
  moreover have "length (c_text t) \<le> text_limit" using assms(3) c_text_length [of t] by simp
  ultimately show ?thesis using ready_add [OF assms(1)] by (auto simp: add_literal_def)
qed

lemma add_comment_ready:
  assumes "ready k m" "k \<le> many" "length (em_comments m) < 15" "length t \<le> text_limit"
  shows "ready (Suc k) (add_comment t m) \<and> length (em_comments (add_comment t m)) = Suc (length (em_comments m))"
proof -
  obtain w m' where "add_literal t m = (w, m')" "ready (Suc k) m'" "em_comments m' = em_comments m"
    using add_literal_ready [OF assms(1,2,4)] by blast
  then show ?thesis using assms(3) by (simp add: add_comment_def LP_EXPORT_COMMENT_CAPACITY_def ready_def)
qed

lemma length_digits: "n < 10 ^ Suc k \<Longrightarrow> length (digits 10 n) \<le> Suc k"
proof (induction k arbitrary: n)
  case 0
  then show ?case by (subst digits.simps) simp
next
  case (Suc k)
  have "n div 10 < 10 ^ Suc k" using Suc.prems by (simp add: less_mult_imp_div_less mult.commute)
  from Suc.IH [OF this] show ?case by (subst digits.simps) simp
qed

lemma length_decimal: "length (decimal_u64 v) \<le> 20"
proof -
  have "unat v < 10 ^ Suc 19" using unat_le_u64_max [of v] by (simp del: unat_le_u64_max)
  from length_digits [OF this] show ?thesis by (simp add: decimal_u64_def)
qed

lemma quality_text_fits: "e \<in> set (cpu_quality_fields res) \<Longrightarrow> length (quality_text e) < 96"
  using length_decimal [of "snd e"] by (auto simp: cpu_quality_fields_def quality_text_def ascii_def Let_def)

lemma add_quality_ready:
  assumes "\<forall>e\<in>set es. length (quality_text e) < 96" "ready k m" "k + length es \<le> many"
    and "length (em_comments m) + length es \<le> 15"
  shows "ready (k + length es) (add_quality_fields es m)"
  using assms
proof (induction es arbitrary: k m)
  case Nil
  then show ?case by simp
next
  case (Cons e es)
  have "ready (Suc k) (add_comment (quality_text e) m)"
    "length (em_comments (add_comment (quality_text e) m)) = Suc (length (em_comments m))"
    using add_comment_ready [OF Cons.prems(2), of "quality_text e"] Cons.prems by auto
  then show ?case using Cons.IH [of "Suc k" "add_comment (quality_text e) m"] Cons.prems by auto
qed

lemma ready_update [simp]:
  "ready k (m\<lparr>em_sample_names := a\<rparr>) = ready k m" "ready k (m\<lparr>em_sample_units := b\<rparr>) = ready k m"
  "ready k (m\<lparr>em_value_count := n\<rparr>) = ready k m" "ready k (m\<lparr>em_default_value := n\<rparr>) = ready k m"
  "ready k (m\<lparr>em_period_type := v\<rparr>) = ready k m" "ready k (m\<lparr>em_period_unit := v\<rparr>) = ready k m"
  "ready k (m\<lparr>em_period := v\<rparr>) = ready k m" "ready k (m\<lparr>em_sample_name_indices := is\<rparr>) = ready k m"
  by (simp_all add: ready_def)

text \<open>One comment, the version, and one for each of the thirteen counters: all fifteen.\<close>

lemma cpu_metadata_ready:
  assumes "ready k m" "k \<le> 1000" "em_comments m = []"
  shows "ready (k + 17) (cpu_metadata res m)"
proof -
  let ?m = "m\<lparr>em_sample_names := [ascii ''samples'', ascii ''cpu'', [], []],
            em_sample_units := [ascii ''count'', ascii ''nanoseconds'', [], []],
            em_value_count := 2, em_default_value := 1\<rparr>"
  have r: "ready k ?m" "em_comments ?m = []" using assms by simp_all
  obtain w m1 where 1: "add_literal (ascii ''cpu'') ?m = (w, m1)" "ready (Suc k) m1" "em_comments m1 = []"
    using add_literal_ready [OF r(1), of "ascii ''cpu''"] r(2) assms(2) by (auto simp: ascii_def)
  obtain v m2 where 2: "add_literal (ascii ''nanoseconds'') m1 = (v, m2)" "ready (Suc (Suc k)) m2" "em_comments m2 = []"
    using add_literal_ready [OF 1(2), of "ascii ''nanoseconds''"] 1(3) assms(2) by (auto simp: ascii_def)
  let ?m3 = "m2\<lparr>em_period_type := w, em_period_unit := v, em_period := 1000000000 div ucast (cfg_sample_hz (res_config res))\<rparr>"
  have 3: "ready (Suc (Suc k)) ?m3" "em_comments ?m3 = []" using 2 by simp_all
  let ?m4 = "add_comment (ascii ''luaprof CPU sampling profile'') ?m3"
  have 4: "ready (Suc (Suc (Suc k))) ?m4" "length (em_comments ?m4) = 1"
    using add_comment_ready [OF 3(1), of "ascii ''luaprof CPU sampling profile''"] 3(2) assms(2) by (auto simp: ascii_def)
  let ?m5 = "add_comment (ascii ''luaprof.metadata.version=1'') ?m4"
  have 5: "ready (Suc (Suc (Suc (Suc k)))) ?m5" "length (em_comments ?m5) = 2"
    using add_comment_ready [OF 4(1), of "ascii ''luaprof.metadata.version=1''"] 4(2) assms(2) by (auto simp: ascii_def)
  have "length (cpu_quality_fields res) = 13" by (simp add: cpu_quality_fields_def Let_def)
  then have "ready (k + 17) (add_quality_fields (cpu_quality_fields res) ?m5)"
    using add_quality_ready [OF _ 5(1), of "cpu_quality_fields res"] quality_text_fits 5(2) assms(2)
    by (auto simp: add.commute)
  then show ?thesis using 1(1) 2(1) by (simp add: cpu_metadata_def add_cpu_quality_def)
qed

lemma memory_metadata_ready:
  assumes "ready k m" "k \<le> 1000" "em_comments m = []"
  shows "ready (k + 17) (memory_metadata res m)"
proof -
  let ?m = "m\<lparr>em_sample_names := [ascii ''alloc_objects'', ascii ''alloc_space'', ascii ''inuse_objects'', ascii ''inuse_space''],
            em_sample_units := [ascii ''count'', ascii ''bytes'', ascii ''count'', ascii ''bytes''],
            em_value_count := 4, em_default_value := (if cfg_track_free (res_config res) then 3 else 1)\<rparr>"
  have r: "ready k ?m" "em_comments ?m = []" using assms by simp_all
  obtain w m1 where 1: "add_literal (ascii ''space'') ?m = (w, m1)" "ready (Suc k) m1" "em_comments m1 = []"
    using add_literal_ready [OF r(1), of "ascii ''space''"] r(2) assms(2) by (auto simp: ascii_def)
  obtain v m2 where 2: "add_literal (ascii ''bytes'') m1 = (v, m2)" "ready (Suc (Suc k)) m2" "em_comments m2 = []"
    using add_literal_ready [OF 1(2), of "ascii ''bytes''"] 1(3) assms(2) by (auto simp: ascii_def)
  let ?m3 = "m2\<lparr>em_period_type := w, em_period_unit := v, em_period := clamp_i64 (cfg_sample_bytes (res_config res))\<rparr>"
  have 3: "ready (Suc (Suc k)) ?m3" "em_comments ?m3 = []" using 2 by simp_all
  have "ready (Suc (Suc (Suc k))) (add_comment (ascii ''luaprof memory sampling profile'') ?m3)"
    using add_comment_ready [OF 3(1), of "ascii ''luaprof memory sampling profile''"] 3(2) assms(2) by (auto simp: ascii_def)
  then have "ready (k + 17) (add_comment (ascii ''luaprof memory sampling profile'') ?m3)" by (rule ready_mono) simp
  then show ?thesis using 1(1) 2(1) by (simp add: memory_metadata_def)
qed

lemma add_value_names_ready:
  "ready k m \<Longrightarrow> \<forall>i\<in>set is. length (em_sample_names m ! i) \<le> text_limit \<and> length (em_sample_units m ! i) \<le> text_limit \<Longrightarrow> k + 2 * length is \<le> many \<Longrightarrow> ready (k + 2 * length is) (fold add_value_name is m)"
proof (induction "is" arbitrary: k m)
  case Nil
  then show ?case by simp
next
  case (Cons i "is")
  obtain w m1 where 1: "add_literal (em_sample_names m ! i) m = (w, m1)" "ready (Suc k) m1"
    using add_literal_ready [OF Cons.prems(1), of "em_sample_names m ! i"] Cons.prems(2,3) by auto
  let ?m2 = "m1\<lparr>em_sample_name_indices := (em_sample_name_indices m1)[i := w]\<rparr>"
  have "ready (Suc k) ?m2" using 1(2) by simp
  then obtain v m3 where 3: "add_literal (em_sample_units ?m2 ! i) ?m2 = (v, m3)" "ready (Suc (Suc k)) m3"
    using add_literal_ready [of "Suc k" ?m2 "em_sample_units ?m2 ! i"] Cons.prems(2,3) add_literal_keeps [OF 1(1)] by auto
  have "add_value_name i m = m3" using 1(1) 3(1) by (simp add: add_value_name_def)
  then show ?case using Cons.IH [OF 3(2)] Cons.prems(2,3) add_literal_keeps [OF 1(1)] add_literal_keeps [OF 3(1)] by simp
qed

section \<open>The model of a sound result\<close>

definition rate_ok :: "lp_result \<Rightarrow> bool" where
  "rate_ok res \<longleftrightarrow>
     (if res_kind res = LP_COLLECTOR_CPU then cfg_sample_hz (res_config res) \<noteq> 0
      else cfg_sample_bytes (res_config res) \<noteq> 0)"

definition metric_ok :: "lp_result \<Rightarrow> bytes option \<Rightarrow> bool" where
  "metric_ok res sample_type \<longleftrightarrow> (case sample_type of None \<Rightarrow> True | Some name \<Rightarrow> name \<in> set (result_names res))"

lemma cpu_frames_nonempty: "cpu_frames res i sample \<noteq> []"
proof -
  have "(if xs = [] then [d] else xs) \<noteq> []" for xs :: "lp_frame_desc list" and d by simp
  then show ?thesis unfolding cpu_frames_def Let_def .
qed

lemma memory_frames_nonempty: "memory_frames res i sample \<noteq> []"
proof -
  have "(if xs = [] then [d] else xs) \<noteq> []" for xs :: "lp_frame_desc list" and d by simp
  then show ?thesis unfolding memory_frames_def Let_def .
qed

lemma specs_have_frames:
  assumes "result_ok res" and spec: "spec \<in> set (result_spec res)"
  shows "fst spec \<noteq> []"
proof (cases "res_kind res = LP_COLLECTOR_CPU")
  case True
  have "fst (cpu_spec res i) \<noteq> []" if "i < lp_result_cpu_sample_count res" for i
    using cpu_sample_there [OF assms(1) True that] cpu_frames_nonempty by (auto simp: cpu_spec_def)
  then show ?thesis using True spec by (auto simp: result_spec_def)
next
  case False
  then have mem: "res_kind res = LP_COLLECTOR_MEMORY" using assms(1) by (auto simp: result_ok_def)
  have "fst (memory_spec res i) \<noteq> []" if "i < lp_result_memory_sample_count res" for i
    using memory_sample_there [OF assms(1) mem that] memory_frames_nonempty by (auto simp: memory_spec_def)
  then show ?thesis using False spec by (auto simp: result_spec_def)
qed

lemma specs_nonempty:
  assumes "result_ok res"
  shows "length (result_spec res) \<le> frame_total res"
proof -
  have "\<forall>x\<in>set xs. 1 \<le> f x \<Longrightarrow> length xs \<le> sum_list (map f xs)" for xs :: "'x list" and f :: "'x \<Rightarrow> nat"
    by (induction xs) auto
  from this [of "result_spec res" "\<lambda>spec. length (fst spec)"] show ?thesis
    unfolding frame_total_def using specs_have_frames [OF assms] by (auto simp: Suc_le_eq)
qed

lemma model_start_ready:
  "\<exists>m1 w m2 v m3. model_tables ((zero_model [])\<lparr>em_symbols := symbols\<rparr>) = (True, m1) \<and>
    add_literal [] m1 = (w, m2) \<and> intern_mapping 0 0 0 (ascii ''luaprof'') True True True m2 = (v, m3) \<and>
    v \<noteq> - 1 \<and> ready 2 m3 \<and> em_comments m3 = []"
proof -
  let ?m1 = "(zero_model [])\<lparr>em_symbols := symbols, em_function_hash := replicate (2 ^ FUNCTION_HASH_BITS) 0,
      em_location_hash := replicate (2 ^ LOCATION_HASH_BITS) 0\<rparr>"
  have 1: "model_tables ((zero_model [])\<lparr>em_symbols := symbols\<rparr>) = (True, ?m1)"
    by (simp add: model_tables_def model_alloc_def zero_model_def)
  have r1: "ready 0 ?m1" by (simp add: ready_def zero_model_def)
  obtain c where 2: "add_string (c_text []) ?m1 =
      (of_nat (length (em_strings ?m1)), ?m1\<lparr>em_string_capacity := c, em_strings := em_strings ?m1 @ [c_text []]\<rparr>)"
    using add_string_ready [OF r1] by blast
  let ?m2 = "?m1\<lparr>em_string_capacity := c, em_strings := em_strings ?m1 @ [c_text []]\<rparr>"
  have r2: "ready 1 ?m2" "length (em_mappings ?m2) \<le> 100000" using ready_add [OF r1, of "c_text []" c] by (simp_all add: zero_model_def c_text_def)
  obtain v m3 where 3: "intern_mapping 0 0 0 (ascii ''luaprof'') True True True ?m2 = (v, m3)" "v \<noteq> - 1" "ready 2 m3"
    using intern_mapping_ready [OF r2(1) _ r2(2), of "ascii ''luaprof''" 0 0 0 True True True]
    by (auto simp: numeral_2_eq_2 ascii_def)
  have ok1: "strings_ok ?m1" by (simp add: zero_model_def strings_ok_def)
  have ok2: "strings_ok ?m2" "mappings_ok ?m2"
    by (rule add_string_cases [OF ok1 2]) (use r2 in \<open>auto simp: ready_def zero_model_def mappings_ok_def\<close>)
  then have "em_comments m3 = []"
    using intern_mapping_ok [OF ok2 _ 3(1,2)] by (simp add: extends_def em_header_def zero_model_def)
  then show ?thesis using 1 2 3 by (auto simp: add_literal_def)
qed

lemma first_index_found: "x \<in> set xs \<Longrightarrow> \<exists>i. first_index (\<lambda>y. x = y) xs = Some i"
  by (induction xs) auto

lemma result_texts_short:
  "i < length (result_names res) \<Longrightarrow> length (result_names res ! i) \<le> text_limit \<and> length (result_units res ! i) \<le> text_limit"
  by (auto simp: result_names_def result_units_def ascii_def less_Suc_eq split: if_splits)

lemma model_init_succeeds:
  assumes "result_ok res" and "rate_ok res" and "metric_ok res sample_type" and "frame_total res \<le> 16384"
  shows "\<exists>model. model_init env [] res sample_type symbols = (True, model) \<and> room 0 0 model"
proof -
  obtain m1 w m2 v m3 where start: "model_tables ((zero_model [])\<lparr>em_symbols := symbols\<rparr>) = (True, m1)"
    "add_literal [] m1 = (w, m2)" "intern_mapping 0 0 0 (ascii ''luaprof'') True True True m2 = (v, m3)"
    "v \<noteq> - 1" "ready 2 m3" "em_comments m3 = []" using model_start_ready by metis
  have kind: "res_kind res = LP_COLLECTOR_CPU \<or> res_kind res = LP_COLLECTOR_MEMORY" using assms(1) by (auto simp: result_ok_def)
  define m4 where "m4 = (if res_kind res = LP_COLLECTOR_CPU then cpu_metadata res m3 else memory_metadata res m3)"
  define m5 where "m5 = fold add_value_name [0..<em_value_count m4] m4"
  have md: "metadata_ok res m3 m4" using cpu_metadata_ok memory_metadata_ok by (simp add: m4_def)
  have r4: "ready 19 m4" using cpu_metadata_ready [OF start(5)] memory_metadata_ready [OF start(5)] start(6) by (simp add: m4_def)
  have count: "em_value_count m4 \<le> 4" using md result_names_length [of res] by (simp add: metadata_ok_def)
  have "ready (19 + 2 * length [0..<em_value_count m4]) m5" unfolding m5_def
  proof (rule add_value_names_ready [OF r4])
    have "take (em_value_count m4) (em_sample_names m4) = result_names res \<and>
        take (em_value_count m4) (em_sample_units m4) = result_units res \<and> em_value_count m4 = length (result_names res)"
      using md unfolding metadata_ok_def by blast
    then have "em_sample_names m4 ! i = result_names res ! i \<and> em_sample_units m4 ! i = result_units res ! i \<and>
        i < length (result_names res)" if "i < em_value_count m4" for i
      using that by (metis nth_take)
    then show "\<forall>i\<in>set [0..<em_value_count m4]. length (em_sample_names m4 ! i) \<le> text_limit \<and>
        length (em_sample_units m4 ! i) \<le> text_limit"
      using result_texts_short by (auto simp del: result_texts_short)
  qed (use count in simp)
  then have r5: "ready 27 m5" by (rule ready_mono) (use count in simp)
  have keep: "em_value_count m5 = em_value_count m4" "em_sample_names m5 = em_sample_names m4"
    "em_default_value m5 = em_default_value m4" by (simp_all add: m5_def)
  have names: "take (em_value_count m5) (em_sample_names m5) = result_names res"
    using md unfolding metadata_ok_def keep by blast
  have "\<exists>m6. select_metric sample_type m5 = (True, m6)"
  proof (cases sample_type)
    case None
    then show ?thesis by (simp add: select_metric_def)
  next
    case (Some name)
    then obtain i where "first_index (\<lambda>y. name = y) (result_names res) = Some i"
      using assms(3) first_index_found [of name] by (auto simp: metric_ok_def)
    then show ?thesis using Some names by (simp add: select_metric_def)
  qed
  then obtain m6 where sel: "select_metric sample_type m5 = (True, m6)" by blast
  have "em_default_value m5 < em_value_count m5" using md keep by (simp add: metadata_ok_def)
  then obtain d where m6: "m6 = m5\<lparr>em_default_value := d\<rparr>" "d < em_value_count m5" using select_metric_ok [OF sel] by blast
  have r6: "ready 27 m6" using r5 by (simp add: m6(1))
  have nf: "\<not> em_failed m6" using r6 by (simp add: ready_def)
  note S = model_start_ok [OF start(1-4), where env = env]
  have M: "tables_ok env m6 \<and> header_ok res m6 \<and> em_samples m6 = [] \<and> em_symbols m6 = symbols \<and>
      em_functions m6 = [] \<and> em_locations m6 = []"
    using model_header_ok [OF _ _ _ _ _ _ _ md m5_def m6 nf, of env] S by simp
  have "length (result_spec res) \<le> many" using specs_nonempty [OF assms(1)] assms(4) by simp
  then have "room (frame_total res) (length (result_spec res)) m6"
    using M r6 assms(4) by (auto simp: room_def intro!: exI [of _ 27])
  then obtain model where
    "(if res_kind res = LP_COLLECTOR_CPU then build_cpu_samples env res m6 else build_memory_samples env res m6) = (True, model)" "room 0 0 model"
    using build_samples_ready [OF assms(1)] M by blast
  then show ?thesis
    using start sel nf kind assms(2)
    by (auto simp: model_init_def m4_def [symmetric] m5_def [symmetric] Let_def rate_ok_def)
qed

section \<open>The size of the encoding\<close>

lemma length_key: "length (key_bytes field wire) \<le> 10"
  unfolding key_bytes_def using length_varint_bytes by blast

lemma length_varint_field: "length (field_bytes (k, Varint v)) \<le> 20"
  using length_key [of k 0] length_varint_bytes [of v] by simp

lemma length_message_field: "length (field_bytes (k, Message bs)) \<le> 20 + length bs"
  using length_key [of k 2] length_varint_bytes [of "of_nat (length bs)"] by simp

lemma length_fields_map:
  "(\<And>x. x \<in> set xs \<Longrightarrow> length (field_bytes (w x)) \<le> c) \<Longrightarrow> length (fields_bytes (map w xs)) \<le> c * length xs"
proof (induction xs)
  case Nil
  then show ?case by simp
next
  case (Cons x xs)
  have "length (field_bytes (w x)) \<le> c" "length (fields_bytes (map w xs)) \<le> c * length xs" using Cons by simp_all
  then show ?case by simp
qed

lemma length_fields_varints: "\<forall>f\<in>set fs. \<exists>k v. f = (k, Varint v) \<Longrightarrow> length (fields_bytes fs) \<le> 20 * length fs"
  using length_fields_map [of fs "\<lambda>f. f" 20] length_varint_field by fastforce

lemma length_packed: "length (packed_bytes vs) \<le> 10 * length vs"
proof (induction vs)
  case Nil
  then show ?case by (simp add: packed_bytes_def)
next
  case (Cons v vs)
  then show ?case using length_varint_bytes [of v] by (simp add: packed_bytes_def)
qed

lemma length_value_type: "length (field_bytes (value_type_field k a b)) \<le> 60"
  using length_message_field [of k "fields_bytes [(1, Varint a), (2, Varint b)]"]
    length_fields_varints [of "[(1, Varint a), (2, Varint b)]"]
  by (simp add: value_type_field_def message_field_def del: field_bytes.simps fields_bytes_simps)

lemma length_sample_field:
  assumes "es_depth s \<le> 65" "n \<le> 4"
  shows "length (field_bytes (message_field 2 (sample_fields n s))) \<le> 800"
proof -
  let ?a = "packed_bytes (take (es_depth s) (es_locations s))" and ?b = "packed_bytes (take n (es_values s))"
  have "length ?a \<le> 650" "length ?b \<le> 40"
    using length_packed [of "take (es_depth s) (es_locations s)"] length_packed [of "take n (es_values s)"] assms by auto
  then have "length (fields_bytes (sample_fields n s)) \<le> 730"
    using length_message_field [of 1 ?a] length_message_field [of 2 ?b]
    by (simp add: sample_fields_def del: field_bytes.simps)
  then show ?thesis using length_message_field [of 2 "fields_bytes (sample_fields n s)"]
    by (simp add: message_field_def del: field_bytes.simps)
qed

lemma length_mapping_field: "length (field_bytes (message_field 3 (mapping_fields p))) \<le> 200"
proof -
  have "length (fields_bytes (mapping_fields p)) \<le> 20 * length (mapping_fields p)"
    by (rule length_fields_varints) (auto simp: mapping_fields_def field_if_def)
  moreover have "length (mapping_fields p) \<le> 8" by (simp add: mapping_fields_def field_if_def)
  ultimately show ?thesis using length_message_field [of 3 "fields_bytes (mapping_fields p)"]
    by (simp add: message_field_def del: field_bytes.simps)
qed

lemma length_function_field: "length (field_bytes (message_field 5 (function_fields f))) \<le> 200"
proof -
  have "length (fields_bytes (function_fields f)) \<le> 20 * length (function_fields f)"
    by (rule length_fields_varints) (auto simp: function_fields_def field_if_def)
  moreover have "length (function_fields f) \<le> 5" by (simp add: function_fields_def field_if_def)
  ultimately show ?thesis using length_message_field [of 5 "fields_bytes (function_fields f)"]
    by (simp add: message_field_def del: field_bytes.simps)
qed

lemma length_location_field: "length (field_bytes (message_field 4 (location_fields m l))) \<le> 200"
proof -
  have "length (fields_bytes (line_fields m l)) \<le> 20 * length (line_fields m l)"
    by (rule length_fields_varints) (auto simp: line_fields_def field_if_def)
  moreover have "length (line_fields m l) \<le> 2" by (simp add: line_fields_def field_if_def)
  ultimately have "length (field_bytes (message_field 4 (line_fields m l))) \<le> 60"
    using length_message_field [of 4 "fields_bytes (line_fields m l)"]
    by (simp add: message_field_def del: field_bytes.simps)
  moreover have "length (fields_bytes (field_if (el_address l \<noteq> 0) (3, Varint (el_address l)))) \<le> 20"
    using length_varint_field [of 3 "el_address l"] by (simp add: field_if_def del: field_bytes.simps)
  ultimately have "length (fields_bytes (location_fields m l)) \<le> 120"
    using length_varint_field [of 1 "el_id l"] length_varint_field [of 2 "ep_id (em_mappings m ! unat (el_mapping_index l))"]
    by (simp add: location_fields_def del: field_bytes.simps)
  then show ?thesis using length_message_field [of 4 "fields_bytes (location_fields m l)"]
    by (simp add: message_field_def del: field_bytes.simps)
qed

lemma profile_size:
  assumes t: "tables_ok env m" and samples: "\<forall>s\<in>set (em_samples m). es_depth s \<le> 65" "length (em_samples m) \<le> many"
    and vc: "em_value_count m \<le> 4" and room: "room 0 0 m" and c: "length (em_comments m) \<le> 15"
  shows "length (fields_bytes (profile_fields m)) \<le> size_limit"
proof -
  have l: "length (em_mappings m) \<le> 16385" "length (em_locations m) \<le> 16384" "length (em_functions m) \<le> 16384"
    "length (em_strings m) \<le> many" "\<forall>s\<in>set (em_strings m). length s \<le> text_limit"
    using tables_ok_mappings [OF t] room by (auto simp: room_def ready_def)
  have "length (fields_bytes (map (\<lambda>i. value_type_field 1 (em_sample_name_indices m ! i) (the (unit_index m i))) [0..<em_value_count m])) \<le> 60 * 4"
    using length_fields_map [of "[0..<em_value_count m]" "\<lambda>i. value_type_field 1 (em_sample_name_indices m ! i) (the (unit_index m i))" 60]
      length_value_type vc by auto
  moreover have "length (fields_bytes (map (\<lambda>s. message_field 2 (sample_fields (em_value_count m) s)) (em_samples m))) \<le> 800 * many"
    using length_fields_map [of "em_samples m" "\<lambda>s. message_field 2 (sample_fields (em_value_count m) s)" 800]
      length_sample_field samples vc by (fastforce simp del: field_bytes.simps)
  moreover have "length (fields_bytes (map (\<lambda>p. message_field 3 (mapping_fields p)) (em_mappings m))) \<le> 200 * 16385"
    using length_fields_map [of "em_mappings m" "\<lambda>p. message_field 3 (mapping_fields p)" 200] length_mapping_field l(1)
    by (fastforce simp del: field_bytes.simps)
  moreover have "length (fields_bytes (map (\<lambda>p. message_field 4 (location_fields m p)) (em_locations m))) \<le> 200 * 16384"
    using length_fields_map [of "em_locations m" "\<lambda>p. message_field 4 (location_fields m p)" 200] length_location_field l(2)
    by (fastforce simp del: field_bytes.simps)
  moreover have "length (fields_bytes (map (\<lambda>p. message_field 5 (function_fields p)) (em_functions m))) \<le> 200 * 16384"
    using length_fields_map [of "em_functions m" "\<lambda>p. message_field 5 (function_fields p)" 200] length_function_field l(3)
    by (fastforce simp del: field_bytes.simps)
  moreover have "length (fields_bytes (map (\<lambda>s. (6, Message s)) (em_strings m))) \<le> 70020 * many"
  proof -
    have "length (field_bytes (6, Message s)) \<le> 70020" if "s \<in> set (em_strings m)" for s
      using length_message_field [of 6 s] l(5) that by fastforce
    then show ?thesis using length_fields_map [of "em_strings m" "\<lambda>s. (6, Message s)" 70020] l(4)
      by (fastforce simp del: field_bytes.simps)
  qed
  moreover have "length (fields_bytes (map (\<lambda>c. (13, Varint c)) (em_comments m))) \<le> 20 * 15"
    using length_fields_map [of "em_comments m" "\<lambda>c. (13, Varint c)" 20] length_varint_field c
    by (fastforce simp del: field_bytes.simps)
  moreover have "length (fields_bytes [value_type_field 11 (em_period_type m) (em_period_unit m), (12, Varint (em_period m))]) \<le> 80"
    using length_value_type [of 11 "em_period_type m" "em_period_unit m"] length_varint_field [of 12 "em_period m"]
    by (simp del: field_bytes.simps)
  moreover have "length (fields_bytes [(14, Varint (em_sample_name_indices m ! em_default_value m))]) \<le> 20"
    using length_varint_field [of 14] by (simp del: field_bytes.simps)
  ultimately show ?thesis unfolding profile_fields_def fields_bytes_simps(3) length_append by linarith
qed

section \<open>Exporting a sound result\<close>

lemma result_spec_depth:
  assumes "result_ok res" and "spec \<in> set (result_spec res)"
  shows "length (fst spec) \<le> 65"
proof (cases "res_kind res = LP_COLLECTOR_CPU")
  case True
  then obtain i where i: "i < lp_result_cpu_sample_count res" "spec = cpu_spec res i"
    using assms(2) by (auto simp: result_spec_def)
  obtain sample where "lp_result_cpu_sample res i = Some sample" "csv_depth sample \<le> 64"
    using cpu_sample_there [OF assms(1) True i(1)] by blast
  then show ?thesis using length_cpu_frames by (simp add: i(2) cpu_spec_def)
next
  case False
  then obtain i where i: "i < lp_result_memory_sample_count res" "spec = memory_spec res i"
    using assms(2) by (auto simp: result_spec_def)
  have "res_kind res = LP_COLLECTOR_MEMORY" using False assms(1) by (auto simp: result_ok_def)
  then obtain sample where "lp_result_memory_sample res i = Some sample" "msv_depth sample \<le> 64"
    using memory_sample_there [OF assms(1) _ i(1)] by blast
  then show ?thesis using length_memory_frames by (simp add: i(2) memory_spec_def)
qed

lemma export_succeeds:
  assumes "result_ok res" and "rate_ok res" and "metric_ok res sample_type" and "frame_total res \<le> 16384"
  shows "\<exists>model profile. model_init env [] res sample_type symbols = (True, model) \<and> em_memory model = [] \<and>
    encode_profile model (zero_buffer, []) = (True, (profile, []))"
proof -
  obtain model where m: "model_init env [] res sample_type symbols = (True, model)" "room 0 0 model"
    using model_init_succeeds [OF assms] by blast
  note rep = export_model_represents_result [OF m(1)]
  have t: "tables_ok env model" and hdr: "header_ok res model"
    and den: "list_all2 (sample_denotes model) (em_samples model) (result_spec res)"
    using rep by (simp_all add: samples_denote_def)
  have "es_depth s \<le> 65" if s: "s \<in> set (em_samples model)" for s
  proof -
    obtain i where i: "i < length (em_samples model)" "s = em_samples model ! i" using s by (auto simp: in_set_conv_nth)
    then have "result_spec res ! i \<in> set (result_spec res)" "sample_denotes model s (result_spec res ! i)"
      using den by (simp_all add: list_all2_conv_all_nth)
    then show ?thesis using result_spec_depth [OF assms(1)] by (auto simp: sample_denotes_def)
  qed
  moreover have "length (em_samples model) \<le> many"
    using list_all2_lengthD [OF den] specs_nonempty [OF assms(1)] assms(4) by simp
  moreover have "em_value_count model \<le> 4" "length (em_comments model) \<le> 15"
    using hdr result_names_length [of res] by (simp_all add: header_ok_def comments_ok_def LP_EXPORT_COMMENT_CAPACITY_def)
  ultimately have size: "length (fields_bytes (profile_fields model)) \<le> size_limit"
    using profile_size [OF t] m(2) by blast
  have "\<forall>i<em_value_count model. unit_index model i \<noteq> None" using model_units [OF hdr] by blast
  moreover have "em_memory model = []" using m(2) by (auto simp: room_def ready_def)
  ultimately show ?thesis using encode_profile_succeeds [OF _ size] m(1) by blast
qed

text \<open>
  A sound result can be exported. If no allocation fails, the result is one that a stopped
  recording hands out, its sampling rate is not zero, the metric asked for is one of its kind
  (or none is asked for), and its stacks have at most 16384 frames in all, then \<open>model_init\<close>
  returns true, no table fills up, and \<open>encode_profile\<close> returns true for the model.
\<close>

theorem sound_result_is_exported:
  assumes "result_ok res" and "rate_ok res" and "metric_ok res sample_type" and "frame_total res \<le> 16384"
  shows "\<exists>model profile. model_init env [] res sample_type symbols = (True, model) \<and>
    encode_profile model (zero_buffer, []) = (True, (profile, []))"
  using export_succeeds [OF assms] by blast

lemma frame_total_le:
  assumes "result_ok res" shows "frame_total res \<le> 65 * length (result_spec res)"
proof -
  have "sum_list (map f xs) \<le> 65 * length xs" if "\<forall>x\<in>set xs. f x \<le> 65" for f :: "'x \<Rightarrow> nat" and xs
    using that by (induction xs) auto
  from this [of "result_spec res" "\<lambda>spec. length (fst spec)"] show ?thesis
    unfolding frame_total_def using result_spec_depth [OF assms] by simp
qed

section \<open>Witnesses\<close>

text \<open>A process without loaded objects and files.\<close>

definition example_native :: native_env where
  "example_native = \<lparr>ne_page_size = 4096, ne_objects = [], ne_exe = None, ne_dladdr = (\<lambda>address. None),
     ne_file = (\<lambda>path. None)\<rparr>"

text \<open>The result of a recording of one sample in Lua, with one frame.\<close>

definition example_profile :: lp_cpu_profile where
  "example_profile = lp_cpu_profile_record zero_cpu_profile LP_VM_LUA NULL [example_frame] False"

definition example_result :: lp_result where
  "example_result = \<lparr>res_kind = LP_COLLECTOR_CPU, res_generation = 1, res_config = example_config,
     res_stats = lp_cpu_profile_merge_stats example_profile zero_stats, res_cpu = Some example_profile,
     res_memory = None\<rparr>"

lemma example_profile_ok: "cpu_profile_ok example_profile"
  unfolding example_profile_def by (rule cpu_record_ok [OF zero_cpu_profile_ok]) simp

lemma record_count: "cp_aggregate_count (lp_cpu_profile_record p state cfunction frames truncated) \<le> Suc (cp_aggregate_count p)"
  by (simp add: lp_cpu_profile_record_def Let_def case_prod_beta split: option.split)

lemma example_count: "lp_result_cpu_sample_count example_result \<le> 1"
  using record_count [of zero_cpu_profile LP_VM_LUA NULL "[example_frame]" False]
  by (simp add: lp_result_cpu_sample_count_def example_result_def lp_cpu_profile_sample_count_def example_profile_def
      zero_cpu_profile_def)

lemma example_result_sound:
  "result_ok example_result \<and> rate_ok example_result \<and> metric_ok example_result (Some (ascii ''samples'')) \<and>
   frame_total example_result \<le> 16384"
proof -
  have ok: "result_ok example_result" using example_profile_ok by (auto simp: result_ok_def example_result_def)
  have "frame_total example_result \<le> 65 * length (result_spec example_result)" by (rule frame_total_le [OF ok])
  moreover have "length (result_spec example_result) \<le> 1"
    using example_count by (simp add: result_spec_def example_result_def)
  ultimately have "frame_total example_result \<le> 16384" by simp
  then show ?thesis using ok
    by (simp add: rate_ok_def metric_ok_def result_names_def example_result_def example_config_def)
qed

lemma sound_result_is_exported_witness:
  "\<exists>model profile. model_init example_native [] example_result (Some (ascii ''samples'')) None = (True, model) \<and>
    encode_profile model (zero_buffer, []) = (True, (profile, []))"
  using sound_result_is_exported [of example_result "Some (ascii ''samples'')" example_native None] example_result_sound by blast

lemma exported_profile_shows_result_witness:
  "\<exists>model profile p. model_init example_native [] example_result (Some (ascii ''samples'')) None = (True, model) \<and>
    encode_profile model (zero_buffer, []) = (True, (profile, [])) \<and>
    decode_profile (buf_data profile) = Some p \<and> shows_result example_native None example_result p"
proof -
  obtain model profile where m: "model_init example_native [] example_result (Some (ascii ''samples'')) None = (True, model)"
    "encode_profile model (zero_buffer, []) = (True, (profile, []))"
    using export_succeeds [of example_result "Some (ascii ''samples'')" example_native None] example_result_sound by blast
  show ?thesis using m exported_profile_shows_result [OF m] by blast
qed

end
