(* ===== verification/Pprof_Files.thy ===== *)
theory Pprof_Files
  imports Pprof_Progress
begin

text \<open>
  The end of an export in \<open>src/pprof_exporter.c\<close>: the temporary file beside the destination, the
  two formats written to it, and its renaming. The file system is a map from paths to nodes;
  what the system calls answer is a parameter, \<open>export_sys\<close>, and so is the compression of zlib
  (\<open>xe_gzfile\<close>: the file left by a stream of bytes). The error texts are constructors of
  \<open>export_error\<close>; \<open>None\<close> stands for the return value true.

  Shown: whatever call fails, the file system is as before, and no temporary file is left; on
  success the destination holds the whole export and nothing else has changed.
\<close>

unbundle bit_operations_syntax

section \<open>Files\<close>

datatype file_node = Regular bytes u32 | Symlink | Other_Node

type_synonym files = "bytes \<Rightarrow> file_node option"

datatype export_error =
    Invalid_Arguments
  | Cannot_Build bytes
  | Encode_Memory
  | Path_Too_Long
  | Temporary_Memory
  | Cannot_Create
  | Not_Replaceable
  | Cannot_Preserve
  | Cannot_Inspect
  | Cannot_Initialize
  | Cannot_Write
  | Cannot_Finish
  | Cannot_Replace

text \<open>
  \<open>xe_suffix\<close>: the six characters \<open>mkstemp\<close> chose, if it succeeded. \<open>xe_gzwrite\<close>: what the call
  for a chunk of a length at an offset returns. The other fields: whether a call succeeds.
\<close>

record export_sys =
  xe_suffix :: "bytes option"
  xe_lstat :: bool
  xe_fchmod :: bool
  xe_unlink :: bool
  xe_stream :: bool
  xe_gzwrite :: "nat \<Rightarrow> nat \<Rightarrow> int"
  xe_gzclose :: bool
  xe_gzfile :: "bytes \<Rightarrow> bytes"
  xe_output :: bool
  xe_fclose :: bool
  xe_rename :: bool

definition unlink_file :: "export_sys \<Rightarrow> bytes \<Rightarrow> files \<Rightarrow> files" where
  "unlink_file sys path fs = (if xe_unlink sys then fs(path := None) else fs)"

text \<open>Offset just behind the last slash, 0 without one.\<close>

definition directory_length :: "bytes \<Rightarrow> nat" where
  "directory_length path = length path - length (takeWhile (\<lambda>b. b \<noteq> 47) (rev path))"

definition temporary_name :: "bytes \<Rightarrow> bytes \<Rightarrow> bytes" where
  "temporary_name path chosen = take (directory_length path) path @ ascii ''.luaprof-tmp-'' @ chosen"

text \<open>
  An error, or the path of the open temporary file. \<open>mkstemp\<close> makes a file of mode 0600. The
  suffix with its terminator takes 20 bytes.
\<close>

definition open_temporary_file ::
  "export_sys \<Rightarrow> bytes \<Rightarrow> memory \<Rightarrow> files \<Rightarrow> (export_error + bytes) \<times> files" where
  "open_temporary_file sys path memory fs =
     (if directory_length path > u64_max - 20 then (Inl Path_Too_Long, fs)
      else if \<not> fst (take_alloc memory) then (Inl Temporary_Memory, fs)
      else case xe_suffix sys of
        None \<Rightarrow> (Inl Cannot_Create, fs)
      | Some chosen \<Rightarrow>
          let candidate = temporary_name path chosen;
              fs1 = fs(candidate := Some (Regular [] 0x180))
          in if xe_lstat sys then
               (case fs1 path of
                  None \<Rightarrow> (Inr candidate, fs1)
                | Some Other_Node \<Rightarrow> (Inl Not_Replaceable, unlink_file sys candidate fs1)
                | Some Symlink \<Rightarrow> (Inr candidate, fs1)
                | Some (Regular content mode) \<Rightarrow>
                    if xe_fchmod sys
                    then (Inr candidate, fs1(candidate := Some (Regular [] (mode AND 0x1ff))))
                    else (Inl Cannot_Preserve, unlink_file sys candidate fs1))
             else (Inl Cannot_Inspect, unlink_file sys candidate fs1))"

definition discard_temporary_file :: "export_sys \<Rightarrow> bytes \<Rightarrow> files \<Rightarrow> files" where
  "discard_temporary_file sys temporary_path fs = unlink_file sys temporary_path fs"

definition commit_temporary_file ::
  "export_sys \<Rightarrow> bytes \<Rightarrow> bytes \<Rightarrow> files \<Rightarrow> export_error option \<times> files" where
  "commit_temporary_file sys temporary_path path fs =
     (if \<not> xe_rename sys then (Some Cannot_Replace, discard_temporary_file sys temporary_path fs)
      else (None, (fs(temporary_path := None))(path := fs temporary_path)))"

text \<open>The content of the open file changes, its mode does not.\<close>

definition write_content :: "bytes \<Rightarrow> bytes \<Rightarrow> files \<Rightarrow> files" where
  "write_content path content fs =
     (case fs path of Some (Regular _ mode) \<Rightarrow> fs(path := Some (Regular content mode)) | _ \<Rightarrow> fs)"

section \<open>The two formats\<close>

text \<open>
  The loop of \<open>write_gzip\<close>: whether it went through, and the bytes the stream has taken. A
  chunk is at most \<open>INT_MAX\<close> bytes.
\<close>

function gz_loop :: "export_sys \<Rightarrow> bytes \<Rightarrow> nat \<Rightarrow> bytes \<Rightarrow> bool \<times> bytes" where
  "gz_loop sys data offset accepted =
     (if offset \<ge> length data then (True, accepted)
      else
        let remaining = length data - offset;
            chunk = (if remaining > 2147483647 then 2147483647 else remaining);
            written = xe_gzwrite sys offset chunk
        in if written \<le> 0 then (False, accepted)
           else gz_loop sys data (offset + nat written) (accepted @ take (nat written) (drop offset data)))"
  by auto
termination
  by (relation "measure (\<lambda>(sys, data, offset, accepted). length data - offset)") auto

declare gz_loop.simps [simp del]

definition write_gzip :: "export_sys \<Rightarrow> bytes \<Rightarrow> bytes \<Rightarrow> files \<Rightarrow> export_error option \<times> files" where
  "write_gzip sys temporary_path data fs =
     (if \<not> xe_stream sys then (Some Cannot_Initialize, fs)
      else
        let (finished, accepted) = gz_loop sys data 0 [];
            fs1 = write_content temporary_path (xe_gzfile sys accepted) fs
        in if \<not> finished then (Some Cannot_Write, fs1)
           else if \<not> xe_gzclose sys then (Some Cannot_Finish, fs1)
           else (None, fs1))"

definition write_folded_name :: "bytes \<Rightarrow> bytes" where
  "write_folded_name name = map (\<lambda>b. if b = 59 \<or> b = 10 \<or> b = 13 then 95 else b) (c_text name)"

text \<open>The loop \<open>for (j = depth; j-- != 0;)\<close>.\<close>

primrec folded_frames :: "lp_export_model \<Rightarrow> lp_export_sample \<Rightarrow> nat \<Rightarrow> bytes" where
  "folded_frames model sample 0 = []"
| "folded_frames model sample (Suc j) =
     (let location = em_locations model ! (unat (es_locations sample ! j - 1));
          function = em_functions model ! unat (el_function_index location)
      in (if j + 1 \<noteq> es_depth sample then ascii '';'' else []) @
         write_folded_name (em_strings model ! unat (ef_name function)) @ folded_frames model sample j)"

definition folded_line :: "lp_export_model \<Rightarrow> lp_export_sample \<Rightarrow> bytes" where
  "folded_line model sample =
     (let value = es_values sample ! em_default_value model
      in if value = 0 then []
         else folded_frames model sample (es_depth sample) @ ascii '' '' @ decimal_int value @ [10])"

definition folded_text :: "lp_export_model \<Rightarrow> bytes" where
  "folded_text model = concat (map (folded_line model) (em_samples model))"

text \<open>When an output call fails, what has reached the file does not matter: it is removed.\<close>

definition write_folded :: "export_sys \<Rightarrow> bytes \<Rightarrow> lp_export_model \<Rightarrow> files \<Rightarrow> export_error option \<times> files" where
  "write_folded sys temporary_path model fs =
     (if \<not> xe_stream sys then (Some Cannot_Initialize, fs)
      else
        let fs1 = (if xe_output sys then write_content temporary_path (folded_text model) fs else fs)
        in if \<not> xe_fclose sys \<or> \<not> xe_output sys then (Some Cannot_Finish, fs1)
           else (None, fs1))"

section \<open>The export\<close>

type_synonym lp_export_format = c_int

abbreviation (input) LP_EXPORT_PPROF :: lp_export_format where "LP_EXPORT_PPROF \<equiv> 0"
abbreviation (input) LP_EXPORT_FOLDED :: lp_export_format where "LP_EXPORT_FOLDED \<equiv> 1"

text \<open>Opening, writing with \<open>write\<close>, then committing or discarding.\<close>

definition export_file ::
  "export_sys \<Rightarrow> bytes \<Rightarrow> memory \<Rightarrow> (bytes \<Rightarrow> files \<Rightarrow> export_error option \<times> files) \<Rightarrow> files \<Rightarrow> export_error option \<times> files" where
  "export_file sys path memory write fs =
     (case open_temporary_file sys path memory fs of
        (Inl failure, fs1) \<Rightarrow> (Some failure, fs1)
      | (Inr temporary_path, fs1) \<Rightarrow>
          (case write temporary_path fs1 of
             (None, fs2) \<Rightarrow> commit_temporary_file sys temporary_path path fs2
           | (Some failure, fs2) \<Rightarrow> (Some failure, discard_temporary_file sys temporary_path fs2)))"

definition lp_export_result_with_symbols ::
  "export_sys \<Rightarrow> native_env \<Rightarrow> memory \<Rightarrow> lp_result option \<Rightarrow> bytes option \<Rightarrow> lp_export_format \<Rightarrow> bytes option \<Rightarrow>
   lp_export_symbols option \<Rightarrow> files \<Rightarrow> export_error option \<times> files" where
  "lp_export_result_with_symbols sys env memory result path format sample_type symbols fs =
     (case (result, path) of
        (Some res, Some (c # cs)) \<Rightarrow>
          if (res_cpu res = None \<and> res_memory res = None) \<or> (format \<noteq> LP_EXPORT_PPROF \<and> format \<noteq> LP_EXPORT_FOLDED)
          then (Some Invalid_Arguments, fs)
          else
            let (built, model) = model_init env memory res sample_type symbols
            in if \<not> built
               then (Some (Cannot_Build (if em_failure model = [] then ascii ''cannot build profile'' else em_failure model)), fs)
               else if format = LP_EXPORT_FOLDED
               then export_file sys (c # cs) (em_memory model) (\<lambda>temporary_path. write_folded sys temporary_path model) fs
               else
                 let (encoded, profile, memory1) = encode_profile model (zero_buffer, em_memory model)
                 in if \<not> encoded then (Some Encode_Memory, fs)
                    else export_file sys (c # cs) memory1 (\<lambda>temporary_path. write_gzip sys temporary_path (buf_data profile)) fs
      | _ \<Rightarrow> (Some Invalid_Arguments, fs))"

definition lp_export_result ::
  "export_sys \<Rightarrow> native_env \<Rightarrow> memory \<Rightarrow> lp_result option \<Rightarrow> bytes option \<Rightarrow> lp_export_format \<Rightarrow> bytes option \<Rightarrow>
   files \<Rightarrow> export_error option \<times> files" where
  "lp_export_result sys env memory result path format sample_type fs =
     lp_export_result_with_symbols sys env memory result path format sample_type None fs"

section \<open>What a file export leaves\<close>

text \<open>
  What the export relies on: \<open>mkstemp\<close> opens a file that did not exist (\<open>O_EXCL\<close>), the temporary
  file can be removed, and \<open>gzwrite\<close> takes no more than it is given.
\<close>

definition sys_ok :: "export_sys \<Rightarrow> bytes \<Rightarrow> files \<Rightarrow> bool" where
  "sys_ok sys path fs \<longleftrightarrow>
     (\<forall>chosen. xe_suffix sys = Some chosen \<longrightarrow> fs (temporary_name path chosen) = None) \<and> xe_unlink sys \<and>
     (\<forall>offset chunk. xe_gzwrite sys offset chunk \<le> int chunk)"

text \<open>The mode of the exported file: that of a regular file it replaces, else \<open>mkstemp\<close>'s.\<close>

definition export_mode :: "bytes \<Rightarrow> files \<Rightarrow> u32" where
  "export_mode path fs = (case fs path of Some (Regular _ mode) \<Rightarrow> mode AND 0x1ff | _ \<Rightarrow> 0x180)"

definition exported :: "bytes \<Rightarrow> bytes \<Rightarrow> files \<Rightarrow> export_error option \<times> files \<Rightarrow> bool" where
  "exported path content fs r \<longleftrightarrow>
     (case fst r of
        None \<Rightarrow> snd r = fs(path := Some (Regular content (export_mode path fs)))
      | Some _ \<Rightarrow> snd r = fs)"

text \<open>A writer leaves the temporary file as the only one that changed, whole if it succeeds.\<close>

definition writes :: "(bytes \<Rightarrow> files \<Rightarrow> export_error option \<times> files) \<Rightarrow> bytes \<Rightarrow> bool" where
  "writes write content \<longleftrightarrow>
     (\<forall>p fs old mode. fs p = Some (Regular old mode) \<longrightarrow>
        (\<exists>err c. write p fs = (err, fs(p := Some (Regular c mode))) \<and> (err = None \<longrightarrow> c = content)))"

lemma writesD:
  "writes write content \<Longrightarrow> fs p = Some (Regular old mode) \<Longrightarrow>
   \<exists>err c. write p fs = (err, fs(p := Some (Regular c mode))) \<and> (err = None \<longrightarrow> c = content)"
  by (simp add: writes_def)

lemma open_temporary_file_cases:
  assumes ok: "sys_ok sys path fs" and run: "open_temporary_file sys path memory fs = (r, fs1)"
  obtains failure where "r = Inl failure" "fs1 = fs"
    | t where "r = Inr t" "fs t = None" "fs1 = fs(t := Some (Regular [] (export_mode path fs)))"
proof (cases "xe_suffix sys")
  case None
  then show thesis using run that(1) by (auto simp: open_temporary_file_def split: if_splits)
next
  case (Some chosen)
  let ?t = "temporary_name path chosen"
  have t: "fs ?t = None" "xe_unlink sys" using ok Some by (simp_all add: sys_ok_def)
  have undo: "unlink_file sys ?t (fs(?t := x)) = fs" for x
    using t by (auto simp: unlink_file_def fun_eq_iff)
  have undo2: "unlink_file sys ?t (fs(?t := x, ?t := y)) = fs" for x y
    using t by (auto simp: unlink_file_def fun_eq_iff)
  have new: "fs path = None" if "?t = path" using t(1) that by simp
  have "(\<exists>failure. (r, fs1) = (Inl failure, fs)) \<or>
      (r, fs1) = (Inr ?t, fs(?t := Some (Regular [] (export_mode path fs))))"
  proof (cases "?t = path")
    case True
    then show ?thesis
      using run Some undo undo2 new[OF True] unfolding open_temporary_file_def
      by (auto simp: Let_def export_mode_def split: if_splits)
  next
    case False
    then show ?thesis
      using run Some undo undo2 unfolding open_temporary_file_def
      by (auto simp: Let_def export_mode_def split: if_splits option.splits file_node.splits)
  qed
  then show thesis using that t(1) by auto
qed

lemma gz_loop_accepts:
  assumes "\<forall>offset chunk. xe_gzwrite sys offset chunk \<le> int chunk"
    and "accepted = take offset data" and "offset \<le> length data"
  shows "fst (gz_loop sys data offset accepted) \<Longrightarrow> snd (gz_loop sys data offset accepted) = data"
  using assms
proof (induction sys data offset accepted rule: gz_loop.induct)
  case (1 sys data offset accepted)
  define chunk where "chunk = (if length data - offset > 2147483647 then 2147483647 else length data - offset)"
  define w where "w = xe_gzwrite sys offset chunk"
  show ?case
  proof (cases "offset \<ge> length data")
    case True
    then show ?thesis using 1 by (simp add: gz_loop.simps)
  next
    case more: False
    show ?thesis
    proof (cases "w \<le> 0")
      case True
      then have "\<not> fst (gz_loop sys data offset accepted)"
        using more by (subst gz_loop.simps) (simp add: w_def chunk_def Let_def)
      then show ?thesis using "1.prems"(1) by simp
    next
      case False
      have "w \<le> int chunk" "chunk \<le> length data - offset"
        using "1.prems"(2) by (auto simp: w_def chunk_def)
      then have le: "offset + nat w \<le> length data" using more by linarith
      have step: "gz_loop sys data offset accepted =
          gz_loop sys data (offset + nat w) (accepted @ take (nat w) (drop offset data))"
        using more False by (subst gz_loop.simps) (simp add: w_def chunk_def Let_def)
      have "snd (gz_loop sys data (offset + nat w) (accepted @ take (nat w) (drop offset data))) = data"
        using "1.IH" [OF more refl chunk_def refl, folded w_def, OF False] "1.prems" le step
        by (simp add: take_add w_def)
      then show ?thesis using step by simp
    qed
  qed
qed

lemma regular_unchanged: "fs p = Some (Regular old mode) \<Longrightarrow> \<exists>c. fs = fs(p := Some (Regular c mode))"
  by (rule exI [of _ old]) (simp add: fun_upd_idem)

lemma write_content_at:
  "fs p = Some (Regular old mode) \<Longrightarrow> write_content p c fs = fs(p := Some (Regular c mode))"
  by (simp add: write_content_def)

lemma write_gzip_writes:
  assumes "sys_ok sys path fs0"
  shows "writes (\<lambda>t. write_gzip sys t data) (xe_gzfile sys data)"
proof -
  have "snd (gz_loop sys data 0 []) = data" if "fst (gz_loop sys data 0 [])"
    using gz_loop_accepts [of sys "[]" 0 data] assms that by (simp add: sys_ok_def)
  then show ?thesis
    unfolding writes_def write_gzip_def
    by (auto simp: write_content_at Let_def regular_unchanged split: prod.splits)
qed

lemma write_folded_writes: "writes (\<lambda>t. write_folded sys t model) (folded_text model)"
  unfolding writes_def write_folded_def by (auto simp: write_content_at Let_def regular_unchanged)

lemma commit_temporary_file_at:
  assumes "xe_unlink sys" "fs t = None"
  shows "exported path c fs (commit_temporary_file sys t path (fs(t := Some (Regular c (export_mode path fs)))))"
  using assms
  by (auto simp: exported_def commit_temporary_file_def discard_temporary_file_def unlink_file_def
      fun_eq_iff)

lemma export_file_exports:
  assumes ok: "sys_ok sys path fs" and w: "writes write content"
  shows "exported path content fs (export_file sys path memory write fs)"
proof -
  obtain r fs1 where run: "open_temporary_file sys path memory fs = (r, fs1)" by fastforce
  from ok run show ?thesis
  proof (cases rule: open_temporary_file_cases)
    case (1 failure)
    then show ?thesis using run by (simp add: export_file_def exported_def)
  next
    case (2 t)
    obtain err c where wr: "write t fs1 = (err, fs1(t := Some (Regular c (export_mode path fs))))"
      and c: "err = None \<longrightarrow> c = content"
      using writesD [OF w, of fs1 t] 2(3) by fastforce
    have unlink: "xe_unlink sys" using ok by (simp add: sys_ok_def)
    show ?thesis
    proof (cases err)
      case None
      then show ?thesis
        using run 2 wr c commit_temporary_file_at [of sys fs t path content] unlink
        by (simp add: export_file_def)
    next
      case (Some failure)
      then show ?thesis
        using run 2 wr unlink
        by (simp add: export_file_def exported_def discard_temporary_file_def unlink_file_def fun_upd_idem)
    qed
  qed
qed

text \<open>When nothing fails: no system call, and the destination may be replaced.\<close>

definition sys_works :: "export_sys \<Rightarrow> bytes \<Rightarrow> files \<Rightarrow> bool" where
  "sys_works sys path fs \<longleftrightarrow>
     sys_ok sys path fs \<and> path \<noteq> [] \<and> length path \<le> u64_max - 20 \<and> fs path \<noteq> Some Other_Node \<and>
     xe_suffix sys \<noteq> None \<and> xe_lstat sys \<and> xe_fchmod sys \<and> xe_stream sys \<and>
     (\<forall>offset chunk. 0 < chunk \<longrightarrow> 0 < xe_gzwrite sys offset chunk) \<and> xe_gzclose sys \<and>
     xe_output sys \<and> xe_fclose sys \<and> xe_rename sys"

lemma open_temporary_file_works:
  assumes "sys_works sys path fs"
  shows "\<exists>t fs1. open_temporary_file sys path [] fs = (Inr t, fs1)"
proof -
  have short: "\<not> directory_length path > u64_max - 20"
    using assms diff_le_self [of "length path"] unfolding sys_works_def directory_length_def
    by (meson le_trans not_le)
  obtain chosen where chosen: "xe_suffix sys = Some chosen" using assms by (auto simp: sys_works_def)
  have calls: "xe_lstat sys" "xe_fchmod sys" using assms by (simp_all add: sys_works_def)
  let ?fs1 = "fs(temporary_name path chosen := Some (Regular [] 0x180))"
  have node: "?fs1 path \<noteq> Some Other_Node" using assms by (simp add: sys_works_def)
  have run: "open_temporary_file sys path [] fs =
      (case ?fs1 path of
         None \<Rightarrow> (Inr (temporary_name path chosen), ?fs1)
       | Some Other_Node \<Rightarrow> (Inl Not_Replaceable, unlink_file sys (temporary_name path chosen) ?fs1)
       | Some Symlink \<Rightarrow> (Inr (temporary_name path chosen), ?fs1)
       | Some (Regular content mode) \<Rightarrow>
           (Inr (temporary_name path chosen), ?fs1(temporary_name path chosen := Some (Regular [] (mode AND 0x1ff)))))"
    unfolding open_temporary_file_def Let_def chosen option.case
    by (simp only: short calls if_False if_True take_alloc_Nil fst_conv not_True_eq_False)
  show ?thesis
  proof (cases "?fs1 path")
    case None
    then show ?thesis unfolding run None by simp
  next
    case (Some n)
    show ?thesis using node unfolding run Some by (cases n) simp_all
  qed
qed

lemma gz_loop_works:
  assumes "\<forall>offset chunk. 0 < chunk \<longrightarrow> 0 < xe_gzwrite sys offset chunk"
  shows "fst (gz_loop sys data offset accepted)"
  using assms
proof (induction sys data offset accepted rule: gz_loop.induct)
  case (1 sys data offset accepted)
  show ?case
  proof (cases "offset \<ge> length data")
    case False
    let ?w = "xe_gzwrite sys offset (if length data - offset > 2147483647 then 2147483647 else length data - offset)"
    have "\<not> ?w \<le> 0" using False "1.prems" by (simp add: not_le)
    then show ?thesis
      using "1.IH" [OF False refl refl refl] "1.prems" False
      by (subst gz_loop.simps) (simp add: Let_def)
  qed (simp add: gz_loop.simps)
qed

lemma write_gzip_works: "sys_works sys path fs \<Longrightarrow> fst (write_gzip sys t data fs1) = None"
  using gz_loop_works [of sys data 0 "[]"] by (auto simp: write_gzip_def sys_works_def split: prod.splits)

lemma export_file_works:
  assumes works: "sys_works sys path fs" and writes: "\<And>t fs1. fst (write t fs1) = None"
  shows "fst (export_file sys path [] write fs) = None"
proof -
  obtain t fs1 where o: "open_temporary_file sys path [] fs = (Inr t, fs1)"
    using open_temporary_file_works [OF works] by blast
  obtain fs2 where "write t fs1 = (None, fs2)" using writes [of t fs1] by (cases "write t fs1") auto
  then show ?thesis using o works by (simp add: export_file_def commit_temporary_file_def sys_works_def)
qed

lemma lp_export_result_works:
  assumes works: "sys_works sys path fs" and res: "res_cpu res \<noteq> None \<or> res_memory res \<noteq> None"
    and init: "model_init env [] res sample_type symbols = (True, model)" "em_memory model = []"
    and encode: "encode_profile model (zero_buffer, []) = (True, profile, [])"
  shows "lp_export_result_with_symbols sys env [] (Some res) (Some path) LP_EXPORT_PPROF sample_type symbols fs =
    (None, fs(path := Some (Regular (xe_gzfile sys (buf_data profile)) (export_mode path fs))))"
proof -
  have ok: "sys_ok sys path fs" and ne: "path \<noteq> []" using works by (simp_all add: sys_works_def)
  let ?r = "export_file sys path [] (\<lambda>t. write_gzip sys t (buf_data profile)) fs"
  have "fst ?r = None" by (rule export_file_works [OF works write_gzip_works [OF works]])
  moreover have "exported path (xe_gzfile sys (buf_data profile)) fs ?r"
    by (rule export_file_exports [OF ok write_gzip_writes [OF ok]])
  ultimately have "?r = (None, fs(path := Some (Regular (xe_gzfile sys (buf_data profile)) (export_mode path fs))))"
    by (cases ?r) (simp add: exported_def)
  moreover have "lp_export_result_with_symbols sys env [] (Some res) (Some path) LP_EXPORT_PPROF sample_type symbols fs = ?r"
    using ne res init encode by (cases path) (auto simp: lp_export_result_with_symbols_def)
  ultimately show ?thesis by simp
qed

text \<open>
  What an export may leave: after a failure, the files as they were; after a success, one file
  changed, the destination, which holds the folded text of the model, or the compression of a
  profile that shows the result.
\<close>

definition export_outcome ::
  "export_sys \<Rightarrow> native_env \<Rightarrow> memory \<Rightarrow> lp_result option \<Rightarrow> bytes option \<Rightarrow> lp_export_format \<Rightarrow> bytes option \<Rightarrow>
   lp_export_symbols option \<Rightarrow> files \<Rightarrow> export_error option \<times> files \<Rightarrow> bool" where
  "export_outcome sys env memory result path format sample_type symbols fs r \<longleftrightarrow>
     (case r of
        (Some failure, fs1) \<Rightarrow> fs1 = fs
      | (None, fs1) \<Rightarrow>
          (\<exists>res destination model content.
             result = Some res \<and> path = Some destination \<and>
             model_init env memory res sample_type symbols = (True, model) \<and>
             fs1 = fs(destination := Some (Regular content (export_mode destination fs))) \<and>
             (if format = LP_EXPORT_FOLDED then content = folded_text model
              else format = LP_EXPORT_PPROF \<and>
                (\<exists>profile p. content = xe_gzfile sys profile \<and> decode_profile profile = Some p \<and>
                   shows_result env symbols res p))))"

lemma exported_outcome:
  assumes "exported destination content fs r" "model_init env memory res sample_type symbols = (True, model)"
    and "if format = LP_EXPORT_FOLDED then content = folded_text model
         else format = LP_EXPORT_PPROF \<and>
           (\<exists>profile p. content = xe_gzfile sys profile \<and> decode_profile profile = Some p \<and>
              shows_result env symbols res p)"
  shows "export_outcome sys env memory (Some res) (Some destination) format sample_type symbols fs r"
proof (cases "fst r")
  case None
  then have "r = (None, fs(destination := Some (Regular content (export_mode destination fs))))"
    using assms(1) by (cases r) (simp add: exported_def)
  then show ?thesis
    unfolding export_outcome_def using assms(2,3)
    by (simp only: prod.case option.case) (intro exI conjI, auto simp del: fun_upd_apply)
next
  case (Some failure)
  then have "r = (Some failure, fs)" using assms(1) by (cases r) (simp add: exported_def)
  then show ?thesis by (simp add: export_outcome_def)
qed

lemma export_outcome_failure:
  "export_outcome sys env memory result path format sample_type symbols fs (Some failure, fs)"
  by (simp add: export_outcome_def)

text \<open>
  C21: an export is all or nothing. If the temporary name is fresh and the temporary file can be
  removed, then whatever else fails (an argument, an allocation, the building of the model, the
  opening, the permissions, a write, the closing, the renaming), the files are as before: no
  partial destination and no temporary file. If it succeeds, the destination, with its
  permissions if it was there, holds the complete export, and no other file has changed.
\<close>

theorem export_is_all_or_nothing:
  assumes "\<forall>destination. path = Some destination \<longrightarrow> sys_ok sys destination fs"
  shows "export_outcome sys env memory result path format sample_type symbols fs
    (lp_export_result_with_symbols sys env memory result path format sample_type symbols fs)"
proof (cases "\<exists>res c cs. result = Some res \<and> path = Some (c # cs) \<and> \<not> (res_cpu res = None \<and> res_memory res = None) \<and>
    (format = LP_EXPORT_PPROF \<or> format = LP_EXPORT_FOLDED)")
  case False
  then show ?thesis
    by (auto simp: lp_export_result_with_symbols_def export_outcome_failure split: option.splits list.splits)
next
  case True
  then obtain res c cs where args: "result = Some res" "path = Some (c # cs)"
    "\<not> (res_cpu res = None \<and> res_memory res = None)" "format = LP_EXPORT_PPROF \<or> format = LP_EXPORT_FOLDED"
    by blast
  then have ok: "sys_ok sys (c # cs) fs" using assms by simp
  obtain built model where m: "model_init env memory res sample_type symbols = (built, model)" by fastforce
  show ?thesis
  proof (cases built)
    case False
    then show ?thesis using args m
      by (auto simp: lp_export_result_with_symbols_def export_outcome_failure)
  next
    case built: True
    then have init: "model_init env memory res sample_type symbols = (True, model)" using m by simp
    show ?thesis
    proof (cases "format = LP_EXPORT_FOLDED")
      case True
      have "lp_export_result_with_symbols sys env memory result path format sample_type symbols fs =
          export_file sys (c # cs) (em_memory model) (\<lambda>t. write_folded sys t model) fs"
        using args init True by (auto simp: lp_export_result_with_symbols_def)
      then show ?thesis
        using args True exported_outcome [OF export_file_exports [OF ok write_folded_writes] init]
        by simp
    next
      case False
      obtain encoded profile memory1 where
        e: "encode_profile model (zero_buffer, em_memory model) = (encoded, profile, memory1)"
        using prod_cases3 by blast
      show ?thesis
      proof (cases encoded)
        case True
        then have "\<exists>p. decode_profile (buf_data profile) = Some p \<and> shows_result env symbols res p"
          by (intro model_shows_result [OF init]) (use e in simp)
        moreover have "lp_export_result_with_symbols sys env memory result path format sample_type symbols fs =
            export_file sys (c # cs) memory1 (\<lambda>t. write_gzip sys t (buf_data profile)) fs"
          using args init False e True by (auto simp: lp_export_result_with_symbols_def)
        ultimately show ?thesis
          using args False
            exported_outcome [OF export_file_exports [OF ok write_gzip_writes [OF ok, of "buf_data profile"]] init,
              of format sys memory1]
          by auto
      next
        case failed: False
        then show ?thesis using args init False e
          by (auto simp: lp_export_result_with_symbols_def export_outcome_failure)
      qed
    qed
  qed
qed

text \<open>
  The witness replaces a file of mode 0640 by the profile of the example; the second half of it
  is the same export with a \<open>gzclose\<close> that fails.
\<close>

definition example_sys :: export_sys where
  "example_sys = \<lparr>xe_suffix = Some [97, 98, 99, 100, 101, 102], xe_lstat = True, xe_fchmod = True, xe_unlink = True,
     xe_stream = True, xe_gzwrite = (\<lambda>offset chunk. int chunk), xe_gzclose = True, xe_gzfile = (\<lambda>content. 31 # content),
     xe_output = True, xe_fclose = True, xe_rename = True\<rparr>"

definition example_files :: files where
  "example_files = [ascii ''a/p'' \<mapsto> Regular [1, 2] 0x1a0]"

lemma example_sys_ok: "sys_ok (example_sys\<lparr>xe_gzclose := close\<rparr>) (ascii ''a/p'') example_files"
  by (simp add: sys_ok_def example_sys_def example_files_def temporary_name_def directory_length_def ascii_def)

lemma export_is_all_or_nothing_witness:
  "export_outcome example_sys example_native [] (Some example_result) (Some (ascii ''a/p'')) LP_EXPORT_PPROF None None example_files
     (lp_export_result_with_symbols example_sys example_native [] (Some example_result) (Some (ascii ''a/p'')) LP_EXPORT_PPROF
        None None example_files) \<and>
   export_outcome (example_sys\<lparr>xe_gzclose := False\<rparr>) example_native [] (Some example_result) (Some (ascii ''a/p''))
     LP_EXPORT_PPROF None None example_files
     (lp_export_result_with_symbols (example_sys\<lparr>xe_gzclose := False\<rparr>) example_native [] (Some example_result) (Some (ascii ''a/p''))
        LP_EXPORT_PPROF None None example_files)"
  using export_is_all_or_nothing [of "Some (ascii ''a/p'')" example_sys example_files]
    export_is_all_or_nothing [of "Some (ascii ''a/p'')" "example_sys\<lparr>xe_gzclose := False\<rparr>" example_files]
    example_sys_ok [of True] example_sys_ok [of False]
  by (simp add: example_sys_def)

end
