(* ===== verification/Pprof_Folded.thy ===== *)
theory Pprof_Folded
  imports Pprof_Files
begin

text \<open>
  The folded format of \<open>write_folded\<close> in \<open>src/pprof_exporter.c\<close>, read back: a reader that splits
  the text into lines, a line at its last space, and the stack at the semicolons, finds one entry
  for each sample whose selected value is not zero, in order, with the names of its frames from
  the outermost to the innermost, and the value. A name cannot forge a frame or a line.
\<close>

section \<open>A reader of the folded format\<close>

text \<open>The pieces between the separators: one more than there are separators.\<close>

fun split_at :: "u8 \<Rightarrow> bytes \<Rightarrow> bytes list" where
  "split_at separator [] = [[]]"
| "split_at separator (b # bs) =
     (if b = separator then [] # split_at separator bs
      else (case split_at separator bs of [] \<Rightarrow> [[b]] | piece # pieces \<Rightarrow> (b # piece) # pieces))"

definition last_space :: "bytes \<Rightarrow> bytes \<times> bytes" where
  "last_space line =
     (let digits = rev (takeWhile (\<lambda>b. b \<noteq> 32) (rev line))
      in (take (length line - length digits - 1) line, digits))"

definition read_folded :: "bytes \<Rightarrow> (bytes list \<times> bytes) list" where
  "read_folded text = map (\<lambda>line. let (stack, value) = last_space line in (split_at 59 stack, value)) (butlast (split_at 10 text))"

text \<open>A frame has the name of the first frame with its key.\<close>

definition shown_name :: "native_env \<Rightarrow> lp_export_symbols option \<Rightarrow> bytes \<Rightarrow> lp_frame_desc \<Rightarrow> bool" where
  "shown_name env symbols name d \<longleftrightarrow> (\<exists>d'. desc_key d' = desc_key d \<and> name = c_text (format_name env symbols d'))"

fun folded_entry :: "nat \<Rightarrow> bytes list \<times> u64 list \<Rightarrow> bytes list \<times> bytes" where
  "folded_entry metric (names, values) = (rev (map write_folded_name names), decimal_int (values ! metric))"

definition folded_shows :: "native_env \<Rightarrow> lp_export_symbols option \<Rightarrow> nat \<Rightarrow> lp_result \<Rightarrow> bytes \<Rightarrow> bool" where
  "folded_shows env symbols metric res text \<longleftrightarrow>
     (\<exists>samples.
        list_all2 (\<lambda>sample spec. list_all2 (shown_name env symbols) (fst sample) (fst spec) \<and> snd sample = snd spec)
          samples (result_spec res) \<and>
        read_folded text = map (folded_entry metric) (filter (\<lambda>sample. snd sample ! metric \<noteq> 0) samples))"

lemma split_at_piece: "separator \<notin> set piece \<Longrightarrow> split_at separator piece = [piece]"
  by (induction piece) auto

lemma split_at_append:
  "separator \<notin> set piece \<Longrightarrow> split_at separator (piece @ separator # rest) = piece # split_at separator rest"
  by (induction piece) auto

lemma split_at_lines:
  "\<forall>line\<in>set lines. separator \<notin> set line \<Longrightarrow>
   butlast (split_at separator (concat (map (\<lambda>line. line @ [separator]) lines))) = lines"
  by (induction lines) (auto simp: split_at_append split: list.splits)

text \<open>The names of a stack, separated.\<close>

fun joined :: "bytes list \<Rightarrow> bytes" where
  "joined [] = []"
| "joined [piece] = piece"
| "joined (piece # pieces) = piece @ 59 # joined pieces"

lemma split_joined: "pieces \<noteq> [] \<Longrightarrow> \<forall>piece\<in>set pieces. 59 \<notin> set piece \<Longrightarrow> split_at 59 (joined pieces) = pieces"
  by (induction pieces rule: joined.induct) (auto simp: split_at_piece split_at_append)

lemma last_space_joined: "32 \<notin> set value \<Longrightarrow> last_space (stack @ 32 # value) = (stack, value)"
proof -
  assume "32 \<notin> set value"
  then have "takeWhile (\<lambda>b. b \<noteq> 32) (rev value @ 32 # rev stack) = rev value"
    by (subst takeWhile_append2) auto
  then show ?thesis by (simp add: last_space_def)
qed

lemma write_folded_name_clean: "59 \<notin> set (write_folded_name name)" "10 \<notin> set (write_folded_name name)"
  by (auto simp: write_folded_name_def)

lemma digits_text: "b \<in> set (digits 10 n) \<Longrightarrow> b \<noteq> 32 \<and> b \<noteq> 10"
proof (induction "10 :: nat" n rule: digits.induct)
  case (1 n)
  have d: "digit d \<noteq> 32 \<and> digit d \<noteq> 10" if "d < 10" for d
  proof -
    have "unat (digit d) = 48 + d"
      using that by (simp add: digit_def unat_of_nat take_bit_nat_eq_self_iff del: of_nat_add)
    then show ?thesis using that by auto
  qed
  show ?case
  proof (cases "n < 10")
    case True
    then show ?thesis using 1(2) d by (subst (asm) digits.simps) auto
  next
    case False
    then have "b \<in> set (digits 10 (n div 10)) \<or> b = digit (n mod 10)"
      using 1(2) by (subst (asm) digits.simps) auto
    then show ?thesis using 1(1) False d by auto
  qed
qed

lemma decimal_int_text: "32 \<notin> set (decimal_int v)" "10 \<notin> set (decimal_int v)"
  using digits_text by (auto simp: decimal_int_def ascii_def)

section \<open>What the exporter writes\<close>

definition name_at :: "lp_export_model \<Rightarrow> u64 \<Rightarrow> bytes" where
  "name_at model loc =
     em_strings model ! unat (ef_name (em_functions model ! unat (el_function_index (em_locations model ! unat (loc - 1)))))"

lemma joined_Cons: "joined (piece # pieces) = piece @ concat (map (\<lambda>p. 59 # p) pieces)"
proof (induction pieces arbitrary: piece)
  case (Cons q qs)
  then show ?case using Cons [of q] by simp
qed simp

lemma folded_frames_inner:
  "j < es_depth s \<Longrightarrow> folded_frames model s j =
     concat (map (\<lambda>i. 59 # write_folded_name (name_at model (es_locations s ! i))) (rev [0..<j]))"
  by (induction j) (simp_all add: name_at_def Let_def ascii_def)

lemma folded_frames_joined:
  assumes "es_depth s = length (es_locations s)" "es_locations s \<noteq> []"
  shows "folded_frames model s (es_depth s) =
    joined (rev (map (\<lambda>loc. write_folded_name (name_at model loc)) (es_locations s)))"
proof -
  obtain d where d: "es_depth s = Suc d"
    using assms by (metis length_0_conv not0_implies_Suc)
  let ?n = "\<lambda>i. write_folded_name (name_at model (es_locations s ! i))"
  have "map (\<lambda>loc. write_folded_name (name_at model loc)) (es_locations s) = map ?n [0..<Suc d]"
    using assms(1) d by (auto intro!: nth_equalityI simp del: upt_Suc)
  then have "joined (rev (map (\<lambda>loc. write_folded_name (name_at model loc)) (es_locations s))) =
      ?n d @ concat (map (\<lambda>p. 59 # p) (rev (map ?n [0..<d])))"
    by (simp add: joined_Cons)
  also have "\<dots> = folded_frames model s (es_depth s)"
    using d by (simp add: folded_frames_inner name_at_def Let_def ascii_def rev_map o_def)
  finally show ?thesis by simp
qed

lemma read_folded_lines:
  assumes "\<forall>(pieces, v)\<in>set lines. pieces \<noteq> [] \<and> (\<forall>piece\<in>set pieces. 59 \<notin> set piece \<and> 10 \<notin> set piece)"
  shows "read_folded (concat (map (\<lambda>(pieces, v). joined pieces @ 32 # decimal_int v @ [10]) lines)) =
    map (\<lambda>(pieces, v :: u64). (pieces, decimal_int v)) lines"
proof -
  have clean: "10 \<notin> set (joined pieces)" if "\<forall>piece\<in>set pieces. 10 \<notin> set piece" for pieces
    using that by (induction pieces rule: joined.induct) auto
  let ?body = "\<lambda>(pieces, v). joined pieces @ 32 # decimal_int v"
  have "concat (map (\<lambda>(pieces, v). joined pieces @ 32 # decimal_int v @ [10]) lines) =
      concat (map (\<lambda>line. line @ [10]) (map ?body lines))"
    by (induction lines) auto
  moreover have "\<forall>line\<in>set (map ?body lines). 10 \<notin> set line"
    using assms clean decimal_int_text by fastforce
  ultimately have "read_folded (concat (map (\<lambda>(pieces, v). joined pieces @ 32 # decimal_int v @ [10]) lines)) =
      map (\<lambda>line. let (stack, value) = last_space line in (split_at 59 stack, value)) (map ?body lines)"
    unfolding read_folded_def using split_at_lines by metis
  also have "\<dots> = map (\<lambda>(pieces, v). (pieces, decimal_int v)) lines"
    using assms by (auto simp: last_space_joined decimal_int_text split_joined)
  finally show ?thesis .
qed

lemma folded_text_lines:
  assumes "\<forall>s\<in>set (em_samples model). es_depth s = length (es_locations s) \<and> es_locations s \<noteq> []"
  shows "folded_text model =
    concat (map (\<lambda>(pieces, v). joined pieces @ 32 # decimal_int v @ [10])
      (map (\<lambda>s. (rev (map (\<lambda>loc. write_folded_name (name_at model loc)) (es_locations s)), es_values s ! em_default_value model))
        (filter (\<lambda>s. es_values s ! em_default_value model \<noteq> 0) (em_samples model))))"
proof -
  have line: "folded_line model s = (if es_values s ! em_default_value model = 0 then []
      else joined (rev (map (\<lambda>loc. write_folded_name (name_at model loc)) (es_locations s))) @ 32 #
        decimal_int (es_values s ! em_default_value model) @ [10])"
    if "es_depth s = length (es_locations s)" "es_locations s \<noteq> []" for s
    using folded_frames_joined [OF that] by (simp add: folded_line_def Let_def ascii_def)
  have "concat (map (folded_line model) samples) =
    concat (map (\<lambda>(pieces, v). joined pieces @ 32 # decimal_int v @ [10])
      (map (\<lambda>s. (rev (map (\<lambda>loc. write_folded_name (name_at model loc)) (es_locations s)), es_values s ! em_default_value model))
        (filter (\<lambda>s. es_values s ! em_default_value model \<noteq> 0) samples)))"
    if "\<forall>s\<in>set samples. es_depth s = length (es_locations s) \<and> es_locations s \<noteq> []" for samples
    using that by (induction samples) (simp_all add: line)
  then show ?thesis using assms unfolding folded_text_def by blast
qed

lemma denotes_name:
  assumes ok: "tables_ok env model" and d: "denotes model loc d"
  shows "shown_name env (em_symbols model) (name_at model loc) d"
proof -
  have "loc \<noteq> 0" using d by (simp add: denotes_def)
  then have loc: "unat (loc - 1) = unat loc - 1" by (simp add: unat_minus_one)
  define k where "k = unat (el_function_index (em_locations model ! (unat loc - 1)))"
  have k: "k < length (em_functions model)" "function_key (em_functions model ! k) = desc_key d"
    using d by (simp_all add: denotes_def Let_def k_def)
  then have "function_ok env model (em_functions model ! k)"
    using ok by (simp add: tables_ok_def functions_ok_def)
  then obtain d' where "desc_key d' = function_key (em_functions model ! k)"
    "string_at model (ef_name (em_functions model ! k)) (c_text (format_name env (em_symbols model) d'))"
    unfolding function_ok_def by blast
  moreover have "name_at model loc = em_strings model ! unat (ef_name (em_functions model ! k))"
    unfolding name_at_def loc k_def ..
  ultimately show "shown_name env (em_symbols model) (name_at model loc) d"
    using k(2) by (auto simp: shown_name_def string_at_def)
qed

lemma samples_shown:
  assumes "list_all2 (sample_denotes model) ss specs" and ok: "tables_ok env model"
    and metric: "metric < em_value_count model" "em_value_count model \<le> 4"
    and four: "\<forall>spec\<in>set specs. length (snd spec) = 4"
  shows "\<exists>samples.
    list_all2 (\<lambda>sample spec. list_all2 (shown_name env (em_symbols model)) (fst sample) (fst spec) \<and> snd sample = snd spec)
      samples specs \<and>
    map (\<lambda>s. (rev (map (\<lambda>loc. write_folded_name (name_at model loc)) (es_locations s)), decimal_int (es_values s ! metric)))
      (filter (\<lambda>s. es_values s ! metric \<noteq> 0) ss) =
    map (folded_entry metric) (filter (\<lambda>sample. snd sample ! metric \<noteq> 0) samples)"
  using assms(1) four
proof (induction rule: list_all2_induct)
  case Nil
  then show ?case by simp
next
  case (Cons s ss spec specs)
  then obtain samples where IH:
    "list_all2 (\<lambda>sample spec. list_all2 (shown_name env (em_symbols model)) (fst sample) (fst spec) \<and> snd sample = snd spec)
      samples specs"
    "map (\<lambda>s. (rev (map (\<lambda>loc. write_folded_name (name_at model loc)) (es_locations s)), decimal_int (es_values s ! metric)))
      (filter (\<lambda>s. es_values s ! metric \<noteq> 0) ss) =
    map (folded_entry metric) (filter (\<lambda>sample. snd sample ! metric \<noteq> 0) samples)"
    by auto
  have l: "list_all2 (denotes model) (es_locations s) (fst spec)"
    "es_values s = take (em_value_count model) (snd spec) @ replicate (4 - em_value_count model) 0"
    using Cons(1) by (simp_all add: sample_denotes_def)
  have "list_all2 (shown_name env (em_symbols model)) (map (name_at model) (es_locations s)) (fst spec)"
    using l(1) denotes_name [OF ok] unfolding list_all2_map1 by (auto elim: list_all2_mono)
  moreover have "es_values s ! metric = snd spec ! metric"
    using l(2) metric Cons.prems by (simp add: nth_append)
  ultimately show ?case
    using IH by (intro exI [of _ "(map (name_at model) (es_locations s), snd spec) # samples"]) (auto simp: o_def)
qed

text \<open>
  C32: the folded file shows the result. The exporter's text, read line by line, has one entry
  for each sample of the result whose selected value is not zero, in order: its stack is the
  names of the frames derived from the captured stack, outermost first, with the separators in
  names replaced, and its number is the value. No name can forge a frame, a line or a value.
\<close>

theorem folded_file_shows_result:
  assumes "result_ok res" and "model_init env memory res sample_type symbols = (True, model)"
  shows "folded_shows env symbols (em_default_value model) res (folded_text model)"
proof -
  let ?metric = "em_default_value model"
  note rep = export_model_represents_result [OF assms(2)]
  have ok: "tables_ok env model" and den: "list_all2 (sample_denotes model) (em_samples model) (result_spec res)"
    and sym: "em_symbols model = symbols" and metric: "?metric < em_value_count model" "em_value_count model \<le> 4"
    using rep result_names_length [of res] by (simp_all add: samples_denote_def header_ok_def)
  have four: "\<forall>spec\<in>set (result_spec res). length (snd spec) = 4"
    by (auto simp: result_spec_def cpu_spec_def memory_spec_def split: option.splits)
  have stacks: "\<forall>s\<in>set (em_samples model). es_depth s = length (es_locations s) \<and> es_locations s \<noteq> []"
  proof
    fix s assume "s \<in> set (em_samples model)"
    then obtain spec where "sample_denotes model s spec" "spec \<in> set (result_spec res)"
      using den by (metis in_set_conv_nth list_all2_conv_all_nth)
    then have "list_all2 (denotes model) (es_locations s) (fst spec)" "es_depth s = length (fst spec)" "fst spec \<noteq> []"
      using specs_have_frames [OF assms(1)] by (simp_all add: sample_denotes_def)
    then show "es_depth s = length (es_locations s) \<and> es_locations s \<noteq> []"
      using list_all2_lengthD by fastforce
  qed
  have "read_folded (folded_text model) =
    map (\<lambda>s. (rev (map (\<lambda>loc. write_folded_name (name_at model loc)) (es_locations s)), decimal_int (es_values s ! ?metric)))
      (filter (\<lambda>s. es_values s ! ?metric \<noteq> 0) (em_samples model))"
    unfolding folded_text_lines [OF stacks]
    by (subst read_folded_lines) (use stacks write_folded_name_clean in \<open>auto simp: o_def\<close>)
  then show ?thesis
    using samples_shown [OF den ok metric four] unfolding sym folded_shows_def by simp
qed

lemma folded_file_shows_result_witness:
  "\<exists>model. model_init example_native [] example_result (Some (ascii ''samples'')) None = (True, model) \<and>
     folded_shows example_native None (em_default_value model) example_result (folded_text model)"
proof -
  obtain model where m: "model_init example_native [] example_result (Some (ascii ''samples'')) None = (True, model)"
    using export_succeeds [of example_result "Some (ascii ''samples'')" example_native None] example_result_sound by blast
  show ?thesis using m folded_file_shows_result [OF _ m] example_result_sound by blast
qed

end
