(* ===== verification/Recorded_Export.thy ===== *)
theory Recorded_Export
  imports Recording_Results Pprof_Folded
begin

text \<open>
  The properties that span the runtime, the two cores and the exporter: what is recorded through
  \<open>src/runtime.c\<close> and stopped can be exported by \<open>src/pprof_exporter.c\<close>.
\<close>

section \<open>The configuration of a recording\<close>

text \<open>The rate of an active recorder was checked when it was started.\<close>

definition config_checked :: "lp_collector_kind \<Rightarrow> lp_collector_config \<Rightarrow> bool" where
  "config_checked kind config \<longleftrightarrow>
     (if kind = LP_COLLECTOR_CPU then cfg_sample_hz config \<noteq> 0 else cfg_sample_bytes config \<noteq> 0)"

definition rates_checked :: "lp_runtime \<Rightarrow> bool" where
  "rates_checked rt \<longleftrightarrow>
     (\<forall>kind. valid_kind kind \<and> cs_active (collector rt kind) \<longrightarrow> config_checked kind (cs_config (collector rt kind)))"

lemma rates_checked_change:
  assumes "rates_checked rt"
    and "\<forall>k. valid_kind k \<and> k \<noteq> kind \<longrightarrow>
      cs_active (collector rt' k) = cs_active (collector rt k) \<and> cs_config (collector rt' k) = cs_config (collector rt k)"
    and "cs_active (collector rt' kind) \<longrightarrow> config_checked kind (cs_config (collector rt' kind))"
  shows "rates_checked rt'"
  using assms unfolding rates_checked_def by metis

lemma rates_checked_new: "lp_runtime_new True main_state ops = Some rt \<Longrightarrow> rates_checked rt"
  using lp_runtime_new_ok [of main_state ops rt]
  by (auto simp: rates_checked_def runtime_ok_def slot_ok_def valid_kind_iff lp_runtime_new_def collector_def zero_slot_def)

lemma zero_slot_inactive [simp]: "\<not> cs_active zero_slot"
  by (simp add: zero_slot_def)

lemma run_op_rates:
  assumes ok: "runtime_ok rt" and host: "host_readable (rt_host_ops rt)" and act: "op_readable act"
    and rates: "rates_checked rt" and run: "run_op d act (rt, seed) = Some ((rt', seed'), gens)"
  shows "rates_checked rt'"
proof (cases act)
  case (Start_Op env state config)
  show ?thesis
  proof (cases "start_refused rt config")
    case None
    have checked: "config_checked (cfg_kind config) config"
      using None by (auto simp: start_refused_def config_checked_def valid_kind_iff split: if_splits)
    show ?thesis
    proof (rule start_cases [OF ok host None, of d env seed state])
      fix rt1 seed1 status gen
      assume "lp_runtime_start d env rt seed state config = Some (rt1, seed1, status, gen)"
        and others: "\<forall>k. valid_kind k \<and> k \<noteq> cfg_kind config \<longrightarrow>
          cs_active (collector rt1 k) = cs_active (collector rt k) \<and>
          cs_generation (collector rt1 k) = cs_generation (collector rt k) \<and>
          cs_config (collector rt1 k) = cs_config (collector rt k)"
        and this_one: "status = LP_OK \<and> gen = Some (bump_generation (rt_next_generation rt)) \<and>
            cs_active (collector rt1 (cfg_kind config)) \<and>
            cs_generation (collector rt1 (cfg_kind config)) = bump_generation (rt_next_generation rt) \<and>
            cs_config (collector rt1 (cfg_kind config)) = config \<and>
            (ho_start_collector (rt_host_ops rt) = None \<longrightarrow> cs_stats (collector rt1 (cfg_kind config)) = zero_stats)
          \<or> (status = LP_ERR_NOMEM \<or> status = LP_ERR_HOST) \<and> gen = None \<and> collector rt1 (cfg_kind config) = zero_slot"
      then have "rt' = rt1" using run by (simp add: Start_Op)
      then show ?thesis
        using rates_checked_change [OF rates, of "cfg_kind config" rt1] others this_one checked by auto
    qed
  next
    case (Some status)
    then show ?thesis using start_refused_result [OF Some, of d env seed state] run rates by (simp add: Start_Op)
  qed
next
  case (Stop_Op state kind g)
  show ?thesis
  proof (cases "stop_refused rt kind g")
    case None
    show ?thesis
      by (rule stop_cases [OF ok host None, of d state])
        (use run rates_checked_change [OF rates, of kind rt'] in \<open>auto simp: Stop_Op\<close>)
  next
    case (Some status)
    then show ?thesis using stop_refused_result [OF Some, of d state] run rates by (simp add: Stop_Op)
  qed
next
  case (Call_Op call)
  then have "same_recordings rt rt'"
    using runtime_apply_ok [OF ok, of call d] act run by (auto simp: records_ok_def)
  then show ?thesis using rates by (auto simp: rates_checked_def same_recordings_def valid_kind_iff)
qed

lemma history_rates:
  "runtime_ok rt \<Longrightarrow> host_readable (rt_host_ops rt) \<Longrightarrow> \<forall>act\<in>set acts. op_readable act \<Longrightarrow> rates_checked rt \<Longrightarrow>
   runtime_history d acts (rt, seed) = Some ((rt', seed'), gens) \<Longrightarrow> rates_checked rt'"
proof (induction acts arbitrary: rt seed gens)
  case Nil
  then show ?case by simp
next
  case (Cons act acts)
  from run_op_ok [OF Cons.prems(1,2), of act d seed] Cons.prems(3) obtain rt1 seed1 gs where
    1: "run_op d act (rt, seed) = Some ((rt1, seed1), gs)" "runtime_ok rt1" "rt_host_ops rt1 = rt_host_ops rt"
    by auto
  from Cons.prems(5) 1(1) obtain gs' where 2: "runtime_history d acts (rt1, seed1) = Some ((rt', seed'), gs')"
    by (auto split: option.splits prod.splits)
  have "rates_checked rt1" using run_op_rates [OF Cons.prems(1,2) _ Cons.prems(4) 1(1)] Cons.prems(3) by simp
  then show ?case using Cons.IH [OF 1(2) _ _ _ 2] Cons.prems(2,3) 1(3) by simp
qed

lemma stopped_rate_ok:
  assumes ok: "runtime_ok rt" and host: "host_readable (rt_host_ops rt)" and rates: "rates_checked rt"
    and stop: "lp_runtime_stop d rt state kind g = Some (rt', LP_OK, Some res)"
  shows "rate_ok res"
proof (cases "stop_refused rt kind g")
  case None
  have go: "valid_kind kind" "cs_active (collector rt kind)" using None by (auto simp: stop_refused_def split: if_splits)
  then have "config_checked kind (cs_config (collector rt kind))" using rates by (simp add: rates_checked_def)
  moreover have "res_kind res = kind \<and> res_config res = cs_config (collector rt kind)"
    by (rule stop_cases [OF ok host None, of d state]) (use stop in auto)
  ultimately show ?thesis by (auto simp: rate_ok_def config_checked_def)
next
  case (Some status)
  then show ?thesis using stop_refused_result [OF Some, of d state] stop by simp
qed

section \<open>From the recorder to the file\<close>

text \<open>
  What was recorded is in the file. After any history of starts, stops and recording calls,
  the result of a successful stop can be exported: if no allocation and no system call fails, the
  metric asked for is one of the result's kind and the stacks have at most 16384 frames in all,
  the export succeeds, nothing but the destination changes, and the destination is the
  compression of a profile in which a reader finds the sample types of the kind and exactly the
  samples of the result, frame by frame.
\<close>

theorem recorded_profile_reaches_file:
  assumes "lp_runtime_new True main_state ops = Some rt" and "host_readable (rt_host_ops rt)"
    and "\<forall>act\<in>set acts. op_readable act"
    and "runtime_history d acts (rt, seed) = Some ((rt1, seed1), gens)"
    and "lp_runtime_stop d rt1 state kind g = Some (rt2, LP_OK, Some res)"
    and "metric_ok res sample_type" and "frame_total res \<le> 16384" and "sys_works sys path fs"
  shows "\<exists>profile p.
    lp_export_result_with_symbols sys env [] (Some res) (Some path) LP_EXPORT_PPROF sample_type symbols fs =
      (None, fs(path := Some (Regular (xe_gzfile sys profile) (export_mode path fs)))) \<and>
    decode_profile profile = Some p \<and> shows_result env symbols res p"
proof -
  have host: "runtime_ok rt1 \<and> rt_host_ops rt1 = rt_host_ops rt"
    by (rule history_host_ops [OF lp_runtime_new_ok [OF assms(1)] assms(2-4)])
  have "rates_checked rt1"
    by (rule history_rates [OF lp_runtime_new_ok [OF assms(1)] assms(2,3) rates_checked_new [OF assms(1)] assms(4)])
  then have rate: "rate_ok res" using stopped_rate_ok [OF _ _ _ assms(5)] host assms(2) by simp
  have ok: "result_ok res" using stopped_result_ok [OF _ _ assms(5)] host assms(2) by simp
  then have profile: "res_cpu res \<noteq> None \<or> res_memory res \<noteq> None" by (auto simp: result_ok_def)
  obtain model buffer where m: "model_init env [] res sample_type symbols = (True, model)" "em_memory model = []"
    "encode_profile model (zero_buffer, []) = (True, (buffer, []))"
    using export_succeeds [OF ok rate assms(6,7)] by blast
  show ?thesis
    using lp_export_result_works [OF assms(8) profile m] model_shows_result [OF m(1,3)] by blast
qed

text \<open>A CPU recording of one sample with one frame, then the stop.\<close>

definition example_session :: "runtime_op list" where
  "example_session = [Start_Op example_env NULL example_config, Call_Op (Cpu_Sample 1 LP_VM_LUA NULL [example_frame] False)]"

definition example_slot :: lp_collector_slot where
  "example_slot = zero_slot\<lparr>cs_active := True, cs_generation := 1, cs_config := example_config,
     cs_cpu_profile := Some example_profile\<rparr>"

lemma example_session_runs:
  "runtime_history trivial_doubles example_session (example_runtime, 5) =
     Some ((example_runtime\<lparr>rt_next_generation := 1, rt_collectors := [example_slot, zero_slot]\<rparr>, 5), [1])"
  by (simp add: example_session_def lp_runtime_start_def example_runtime_def example_config_def example_env_def
      Let_def collector_def set_collector_def new_profiles_def lp_cpu_profile_new_all bump_generation_def
      lp_runtime_cpu_sample_def current_slot_def example_slot_def example_profile_def)

lemma example_session_stops:
  "\<exists>rt2. lp_runtime_stop trivial_doubles
     (example_runtime\<lparr>rt_next_generation := 1, rt_collectors := [example_slot, zero_slot]\<rparr>) NULL LP_COLLECTOR_CPU 1 =
   Some (rt2, LP_OK, Some example_result)"
  by (simp add: lp_runtime_stop_def example_runtime_def Let_def collector_def host_stop_def example_slot_def
      example_result_def zero_slot_def)

lemma recorded_profile_reaches_file_witness:
  "\<exists>rt1 rt2 res profile p.
     runtime_history trivial_doubles example_session (example_runtime, 5) = Some ((rt1, 5), [1]) \<and>
     lp_runtime_stop trivial_doubles rt1 NULL LP_COLLECTOR_CPU 1 = Some (rt2, LP_OK, Some res) \<and>
     lp_export_result_with_symbols example_sys example_native [] (Some res) (Some (ascii ''a/p'')) LP_EXPORT_PPROF None None example_files =
       (None, example_files(ascii ''a/p'' := Some (Regular (xe_gzfile example_sys profile) 0x1a0))) \<and>
     decode_profile profile = Some p \<and> shows_result example_native None res p"
proof -
  obtain rt2 where stop: "lp_runtime_stop trivial_doubles
     (example_runtime\<lparr>rt_next_generation := 1, rt_collectors := [example_slot, zero_slot]\<rparr>) NULL LP_COLLECTOR_CPU 1 =
   Some (rt2, LP_OK, Some example_result)" using example_session_stops by blast
  have works: "sys_works example_sys (ascii ''a/p'') example_files"
    using example_sys_ok [of True] by (simp add: sys_works_def example_sys_def example_files_def ascii_def)
  have mode: "export_mode (ascii ''a/p'') example_files = 0x1a0"
    by (simp add: export_mode_def example_files_def)
  have readable: "\<forall>act\<in>set example_session. op_readable act"
    by (simp add: example_session_def)
  have "metric_ok example_result None" "frame_total example_result \<le> 16384"
    using example_result_sound by (simp_all add: metric_ok_def)
  then obtain profile p where
    "lp_export_result_with_symbols example_sys example_native [] (Some example_result) (Some (ascii ''a/p'')) LP_EXPORT_PPROF None None
       example_files =
       (None, example_files(ascii ''a/p'' := Some (Regular (xe_gzfile example_sys profile) 0x1a0)))"
    "decode_profile profile = Some p" "shows_result example_native None example_result p"
    using recorded_profile_reaches_file [OF example_runtime_new example_host_readable readable example_session_runs stop _ _ works,
        of None example_native None] mode by auto
  then show ?thesis using example_session_runs stop by blast
qed

end
