(* ===== verification/Memory_Sampling.thy ===== *)
theory Memory_Sampling
  imports Complex_Main Memory_Core
begin

text \<open>
  The byte-driven sampler of \<open>src/memory_core.c\<close> over sequences of allocations: the countdown to
  the next sampled byte, and the exact mode with \<open>sample_bytes\<close> one. The doubles remain the
  parameter of \<open>Memory_Core\<close>; what the exact mode needs of them is \<open>exact_doubles\<close>, which the
  real numbers satisfy.
\<close>

text \<open>A run of sampling decisions over allocation sizes, with the decisions.\<close>

primrec sample_sizes ::
  "'d doubles \<Rightarrow> lp_memory_profile \<Rightarrow> u64 list \<Rightarrow> lp_memory_profile \<times> (u64 \<times> u64) option list" where
  "sample_sizes d p [] = (p, [])"
| "sample_sizes d p (n # ns) =
     (let (p1, r) = lp_memory_profile_should_sample d p n; (p2, rs) = sample_sizes d p1 ns in (p2, r # rs))"

text \<open>
  The countdown. No allocation of a sequence is sampled exactly when their sizes together
  stay below \<open>bytes_until_sample\<close>; the counter then has gone down by that total.
\<close>

theorem sampler_countdown:
  assumes "mp_bytes_until_sample p \<noteq> 0"
  shows "((\<forall>r\<in>set (snd (sample_sizes d p ns)). r = None) \<longleftrightarrow>
      sum_list (map unat ns) < unat (mp_bytes_until_sample p)) \<and>
    (sum_list (map unat ns) < unat (mp_bytes_until_sample p) \<longrightarrow>
      unat (mp_bytes_until_sample (fst (sample_sizes d p ns))) + sum_list (map unat ns) =
      unat (mp_bytes_until_sample p))"
  using assms
proof (induction ns arbitrary: p)
  case Nil
  then show ?case by (simp add: unat_gt_0)
next
  case (Cons n ns)
  show ?case
  proof (cases "n \<noteq> 0 \<and> \<not> n < mp_bytes_until_sample p")
    case True
    then have "snd (lp_memory_profile_should_sample d p n) \<noteq> None"
      by (simp add: lp_memory_profile_should_sample_def Let_def case_prod_beta)
    then show ?thesis
      using True by (auto simp: Let_def case_prod_beta word_less_nat_alt)
  next
    case False
    let ?p = "p\<lparr>mp_bytes_until_sample := mp_bytes_until_sample p - n\<rparr>"
    have run: "lp_memory_profile_should_sample d p n = (?p, None)"
      using False by (auto simp: lp_memory_profile_should_sample_def)
    have less: "n < mp_bytes_until_sample p" using False Cons.prems by (auto simp: word_gt_0)
    then have sub: "unat (mp_bytes_until_sample p - n) = unat (mp_bytes_until_sample p) - unat n"
        "unat n < unat (mp_bytes_until_sample p)"
      by (simp_all add: unat_sub word_less_nat_alt less_imp_le)
    then have "mp_bytes_until_sample p - n \<noteq> 0" by (metis unat_0 zero_less_diff less_irrefl)
    then show ?thesis
      using Cons.IH [of ?p] sub by (auto simp: run Let_def case_prod_beta)
  qed
qed

text \<open>
  What exact sampling needs of the doubles: integers up to \<open>2 ^ 53\<close> are represented exactly,
  in order, below \<open>2 ^ 64\<close>; dividing by one and subtracting from itself are exact; a quotient
  of non-negative numbers is not negative.
\<close>

abbreviation (input) exact_limit :: u64 where "exact_limit \<equiv> 9007199254740992"

definition exact_doubles :: "'d doubles \<Rightarrow> bool" where
  "exact_doubles d \<longleftrightarrow>
     d_of_u64 d 0 = d_literal d 0 \<and> d_of_u64 d 1 = d_literal d 1 \<and>
     (\<forall>n\<le>exact_limit. d_to_u64 d (d_of_u64 d n) = n \<and> d_div d (d_of_u64 d n) (d_literal d 1) = d_of_u64 d n \<and>
        d_sub d (d_of_u64 d n) (d_of_u64 d n) = d_literal d 0 \<and> \<not> d_le d (d_of_u64 d UINT64_MAX) (d_of_u64 d n) \<and>
        (d_le d (d_of_u64 d n) (d_literal d 1) \<longleftrightarrow> n \<le> 1) \<and>
        \<not> d_less d (d_div d (d_of_u64 d n) (d_literal d 9007199254740992)) (d_literal d 0))"

lemma random_53_bits: "drop_bit 11 (r :: u64) \<le> exact_limit"
proof -
  have "unat (drop_bit 11 r) = unat r div 2 ^ 11" by (simp add: drop_bit_eq_div unat_div)
  also have "\<dots> \<le> u64_max div 2 ^ 11" by (intro div_le_mono unat_le_u64_max)
  finally show ?thesis by (simp add: word_le_nat_alt)
qed

lemma exact_doublesD:
  assumes "exact_doubles d" and "n \<le> exact_limit"
  shows "d_to_u64 d (d_of_u64 d n) = n" and "d_div d (d_of_u64 d n) (d_literal d 1) = d_of_u64 d n"
    and "d_sub d (d_of_u64 d n) (d_of_u64 d n) = d_literal d 0"
    and "\<not> d_le d (d_of_u64 d UINT64_MAX) (d_of_u64 d n)"
    and "d_le d (d_of_u64 d n) (d_literal d 1) \<longleftrightarrow> n \<le> 1"
    and "\<not> d_less d (d_div d (d_of_u64 d n) (d_literal d 9007199254740992)) (d_literal d 0)"
  using assms by (simp_all add: exact_doubles_def)

lemma randomized_weight_exact:
  assumes d: "exact_doubles d" and n: "n \<noteq> 0" "n \<le> exact_limit"
  shows "snd (randomized_weight d p (d_of_u64 d n)) = n \<and>
    mp_bytes_until_sample (fst (randomized_weight d p (d_of_u64 d n))) = mp_bytes_until_sample p \<and>
    mp_sample_bytes (fst (randomized_weight d p (d_of_u64 d n))) = mp_sample_bytes p"
proof (cases "n = 1")
  case True
  then show ?thesis using exact_doublesD(4,5) [OF d n(2)] by (simp add: randomized_weight_def)
next
  case False
  have "0 < unat n" using n(1) by (simp add: unat_gt_0)
  moreover have "unat n \<noteq> 1" using False by (metis unat_1 word_unat_eq_iff)
  ultimately have "\<not> n \<le> 1" by (simp add: word_le_nat_alt)
  then show ?thesis
    using exact_doublesD(1,3-5) [OF d n(2)] exact_doublesD(6) [OF d random_53_bits]
    by (simp add: randomized_weight_def Let_def)
qed

text \<open>
  Exact mode. With \<open>sample_bytes\<close> one, every allocation of at least one byte is sampled
  and its weights are exactly its size and one object, for sizes up to \<open>2 ^ 53\<close>.
\<close>

theorem sample_bytes_one_is_exact:
  assumes d: "exact_doubles d" and new: "lp_memory_profile_new d True True 1 seed track = Some p"
    and ns: "\<forall>n\<in>set ns. n \<le> exact_limit"
  shows "snd (sample_sizes d p ns) = map (\<lambda>n. if n = 0 then None else Some (n, 1)) ns"
proof -
  have interval: "lp_memory_geometric_interval d 1 r = 1" for r by (simp add: lp_memory_geometric_interval_def)
  have "mp_bytes_until_sample p = 1 \<and> mp_sample_bytes p = 1"
    using new by (auto simp: lp_memory_profile_new_def next_random_def Let_def interval zero_memory_profile_def)
  then show ?thesis using ns
  proof (induction ns arbitrary: p)
    case Nil
    then show ?case by simp
  next
    case (Cons n ns)
    show ?case
    proof (cases "n = 0")
      case True
      then show ?thesis
        using Cons by (simp add: lp_memory_profile_should_sample_def Let_def case_prod_beta)
    next
      case False
      then have "\<not> n < 1" by (simp add: word_less_nat_alt unat_gt_0)
      define p2 where "p2 = p\<lparr>mp_random_state := mp_random_state p + random_increment, mp_bytes_until_sample := 1\<rparr>"
      define p3 where "p3 = fst (randomized_weight d p2 (d_of_u64 d n))"
      have one: "1 \<le> exact_limit" by simp
      have p3: "snd (randomized_weight d p2 (d_of_u64 d n)) = n" "mp_bytes_until_sample p3 = 1" "mp_sample_bytes p3 = 1"
        using randomized_weight_exact [OF d False, of p2] Cons.prems by (simp_all add: p2_def p3_def)
      have p4: "snd (randomized_weight d p3 (d_of_u64 d 1)) = 1"
        "mp_bytes_until_sample (fst (randomized_weight d p3 (d_of_u64 d 1))) = 1"
        "mp_sample_bytes (fst (randomized_weight d p3 (d_of_u64 d 1))) = 1"
        using randomized_weight_exact [OF d _ one, of p3] p3 by simp_all
      have div: "d_div d (d_of_u64 d n) (d_literal d 1) = d_of_u64 d n" "d_div d (d_literal d 1) (d_literal d 1) = d_of_u64 d 1"
        using d Cons.prems exact_doublesD(2) [OF d, of n] exact_doublesD(2) [OF d one]
        by (simp_all add: exact_doubles_def)
      have "lp_memory_profile_should_sample d p n =
          (fst (randomized_weight d p3 (d_of_u64 d 1)), Some (n, 1))"
        using False \<open>\<not> n < 1\<close> Cons.prems p3(1) p4(1)
        by (simp add: lp_memory_profile_should_sample_def next_random_def interval Let_def case_prod_beta
            lp_memory_sample_probability_def div p2_def p3_def)
      then show ?thesis
        using Cons.IH [of "fst (randomized_weight d p3 (d_of_u64 d 1))"] Cons.prems(2) p4 False
        by (simp add: Let_def case_prod_beta)
    qed
  qed
qed


section \<open>Witnesses\<close>

text \<open>The real numbers as doubles of unlimited precision and range.\<close>

definition real_doubles :: "real doubles" where
  "real_doubles = \<lparr>d_literal = real_of_int, d_of_u64 = (\<lambda>n. real (unat n)),
     d_to_u64 = (\<lambda>x. of_nat (nat \<lfloor>x\<rfloor>)), d_neg = uminus, d_add = (+), d_sub = (-), d_mul = (*),
     d_div = (/), d_less = (<), d_le = (\<le>), d_floor = (\<lambda>x. real_of_int \<lfloor>x\<rfloor>), d_log = ln,
     d_log1p = (\<lambda>x. ln (1 + x)), d_expm1 = (\<lambda>x. exp x - 1)\<rparr>"

lemma real_doubles_exact: "exact_doubles real_doubles"
proof -
  have le: "unat n \<le> 1 \<longleftrightarrow> n \<le> 1" for n :: u64 by (simp add: word_le_nat_alt)
  have "\<not> u64_max \<le> unat n" if "n \<le> exact_limit" for n :: u64
    using that by (simp add: word_le_nat_alt)
  moreover have "real (unat n) \<le> 1 \<longleftrightarrow> n \<le> 1" for n :: u64
    using le [of n] by (metis of_nat_1 of_nat_le_iff)
  moreover have "nat \<lfloor>real (unat n)\<rfloor> = unat n" for n :: u64 by (simp del: of_nat_unat)
  ultimately show ?thesis
    by (auto simp: exact_doubles_def real_doubles_def simp del: of_nat_unat)
      (simp_all add: of_nat_unat)
qed

lemma sampler_countdown_witness:
  "unat (mp_bytes_until_sample (fst (sample_sizes real_doubles
     (zero_memory_profile 8 7 False\<lparr>mp_bytes_until_sample := 100\<rparr>) [40, 0, 59]))) + 99 = 100"
  using sampler_countdown [of "zero_memory_profile 8 7 False\<lparr>mp_bytes_until_sample := 100\<rparr>" real_doubles "[40, 0, 59]"]
  by simp

lemma sample_bytes_one_is_exact_witness:
  "\<exists>p. lp_memory_profile_new real_doubles True True 1 7 False = Some p \<and>
     snd (sample_sizes real_doubles p [5, 0, 4096]) = [Some (5, 1), None, Some (4096, 1)]"
proof -
  obtain p where p: "lp_memory_profile_new real_doubles True True 1 7 False = Some p"
    by (simp add: lp_memory_profile_new_def case_prod_beta)
  show ?thesis using sample_bytes_one_is_exact [OF real_doubles_exact p, of "[5, 0, 4096]"] p by simp
qed

text \<open>A sampled allocation of ten bytes at one address, freed again.\<close>

definition example_run :: "memory_call list" where
  "example_run = [Sample_Call 10, Record_Call 64 [example_frame] False 10 10 1, Event_Call 64 NULL 0 True]"

lemma example_run_readable: "\<forall>call\<in>set example_run. call_readable call"
  by (simp add: example_run_def)

lemma example_run_returns:
  obtains p0 p where "lp_memory_profile_new real_doubles True True 1 7 True = Some p0"
    and "memory_run real_doubles p0 example_run = Some p"
proof -
  obtain p0 where p0: "lp_memory_profile_new real_doubles True True 1 7 True = Some p0"
    by (simp add: lp_memory_profile_new_def case_prod_beta)
  then show ?thesis
    using memory_run_ok [OF lp_memory_profile_new_ok [OF p0] example_run_readable, of real_doubles] that by blast
qed

lemma memory_calls_return_witness:
  "\<exists>p0 p. lp_memory_profile_new real_doubles True True 1 7 True = Some p0 \<and>
     memory_run real_doubles p0 example_run = Some p"
proof -
  obtain p0 where p0: "lp_memory_profile_new real_doubles True True 1 7 True = Some p0"
    by (simp add: lp_memory_profile_new_def case_prod_beta)
  then show ?thesis using memory_calls_return [OF p0 example_run_readable] by blast
qed

lemma memory_totals_match_export_witness:
  "\<exists>p0 p. lp_memory_profile_new real_doubles True True 1 7 True = Some p0 \<and>
     memory_run real_doubles p0 example_run = Some p \<and>
     unat (st_memory_samples (mp_stats p)) = min u64_max (sum_list (exported_field msv_sample_count p))"
proof -
  obtain p0 p where p: "lp_memory_profile_new real_doubles True True 1 7 True = Some p0"
    "memory_run real_doubles p0 example_run = Some p" by (rule example_run_returns)
  then show ?thesis using memory_totals_match_export [OF p(1) example_run_readable p(2)] by blast
qed

lemma memory_inuse_match_export_witness:
  "\<exists>p0 p. lp_memory_profile_new real_doubles True True 1 7 True = Some p0 \<and>
     memory_run real_doubles p0 example_run = Some p \<and>
     (st_alloc_space (mp_stats p) \<noteq> UINT64_MAX \<longrightarrow>
       unat (st_inuse_space (mp_stats (lp_memory_profile_finish p))) =
       sum_list (exported_field msv_inuse_space (lp_memory_profile_finish p)))"
proof -
  obtain p0 p where p: "lp_memory_profile_new real_doubles True True 1 7 True = Some p0"
    "memory_run real_doubles p0 example_run = Some p" by (rule example_run_returns)
  have "mp_stats (lp_memory_profile_finish p) = mp_stats p" by (simp add: lp_memory_profile_finish_def)
  then show ?thesis
    using memory_inuse_match_export [OF p(1) example_run_readable p(2) disjI2 [OF refl]] p by auto
qed

end
