(* ===== verification/Tick_Ring.thy ===== *)
theory Tick_Ring
  imports Luaprof_Prelude
begin

text \<open>
  The ring of 4096 tick events that a signal handler fills and the owner thread drains, as
  \<open>src/thread_timer.c\<close> and \<open>src/skynet_host.c\<close> both have it: two free-running 64-bit sequence
  numbers, whose difference is the number of events and whose low 12 bits index the array.

  The locale \<open>tick_queue\<close> states what the clients rely on, a bounded first-in first-out queue;
  its interpretation shows it for the ring, including the wrap-around of both sequences.
\<close>

definition LP_TICK_RING_CAPACITY :: nat where "LP_TICK_RING_CAPACITY = 4096"

record 'e tick_ring =
  ring_events :: "'e list"
  ring_write :: u64
  ring_read :: u64

definition ring_index :: "u64 \<Rightarrow> nat" where
  "ring_index s = unat (s AND of_nat (LP_TICK_RING_CAPACITY - 1))"

definition new_ring :: "'e \<Rightarrow> 'e tick_ring" where
  "new_ring e = \<lparr>ring_events = replicate LP_TICK_RING_CAPACITY e, ring_write = 0, ring_read = 0\<rparr>"

text \<open>The producer's part of the signal handler: \<open>None\<close> when the ring is full.\<close>

definition ring_push :: "'e \<Rightarrow> 'e tick_ring \<Rightarrow> 'e tick_ring option" where
  "ring_push e r =
     (if unat (ring_write r - ring_read r) \<ge> LP_TICK_RING_CAPACITY then None
      else Some (r\<lparr>ring_events := (ring_events r)[ring_index (ring_write r) := e],
                   ring_write := ring_write r + 1\<rparr>))"

text \<open>The consumer: \<open>None\<close> when the ring is empty.\<close>

definition ring_next :: "'e tick_ring \<Rightarrow> ('e \<times> 'e tick_ring) option" where
  "ring_next r =
     (if ring_read r = ring_write r then None
      else Some (ring_events r ! ring_index (ring_read r), r\<lparr>ring_read := ring_read r + 1\<rparr>))"

section \<open>The contract\<close>

text \<open>What a producer and a consumer do, one after the other, in any order.\<close>

datatype 'e queue_step = Push 'e | Next

locale tick_queue =
  fixes inv :: "'q \<Rightarrow> bool"
    and contents :: "'q \<Rightarrow> 'e list"
    and capacity :: nat
    and push :: "'e \<Rightarrow> 'q \<Rightarrow> 'q option"
    and pop :: "'q \<Rightarrow> ('e \<times> 'q) option"
  assumes bounded: "inv q \<Longrightarrow> length (contents q) \<le> capacity"
    and push_full: "inv q \<Longrightarrow> push e q = None \<longleftrightarrow> length (contents q) = capacity"
    and push_law: "inv q \<Longrightarrow> push e q = Some q' \<Longrightarrow> inv q' \<and> contents q' = contents q @ [e]"
    and pop_empty: "inv q \<Longrightarrow> pop q = None \<longleftrightarrow> contents q = []"
    and pop_law: "inv q \<Longrightarrow> pop q = Some (e, q') \<Longrightarrow> inv q' \<and> contents q = e # contents q'"
begin

text \<open>A run: the queue, the events accepted, the events delivered.\<close>

primrec run :: "'e queue_step list \<Rightarrow> 'q \<Rightarrow> 'q \<times> 'e list \<times> 'e list" where
  "run [] q = (q, [], [])"
| "run (s # ss) q =
     (case s of
        Push e \<Rightarrow>
          (case push e q of
             None \<Rightarrow> run ss q
           | Some q1 \<Rightarrow> let (q2, ins, outs) = run ss q1 in (q2, e # ins, outs))
      | Next \<Rightarrow>
          (case pop q of
             None \<Rightarrow> run ss q
           | Some (e, q1) \<Rightarrow> let (q2, ins, outs) = run ss q1 in (q2, ins, e # outs)))"

text \<open>Nothing accepted is lost, duplicated or reordered.\<close>

lemma run_fifo:
  "inv q \<Longrightarrow> run ss q = (q', ins, outs) \<Longrightarrow> inv q' \<and> contents q @ ins = outs @ contents q'"
proof (induction ss arbitrary: q ins outs)
  case Nil
  then show ?case by simp
next
  case (Cons s ss)
  show ?case
  proof (cases s)
    case (Push e)
    show ?thesis
    proof (cases "push e q")
      case None
      then show ?thesis using Cons Push by simp
    next
      case (Some q1)
      obtain ins1 where 1: "run ss q1 = (q', ins1, outs)" "ins = e # ins1"
        using Cons.prems(2) Push Some by (auto simp: Let_def split: prod.splits)
      from push_law [OF Cons.prems(1) Some] Cons.IH [OF _ 1(1)] 1(2) show ?thesis by simp
    qed
  next
    case Next
    show ?thesis
    proof (cases "pop q")
      case None
      then show ?thesis using Cons Next by simp
    next
      case (Some r)
      obtain e q1 where r: "r = (e, q1)" by (cases r)
      obtain outs1 where 1: "run ss q1 = (q', ins, outs1)" "outs = e # outs1"
        using Cons.prems(2) Next Some r by (auto simp: Let_def split: prod.splits)
      from pop_law [OF Cons.prems(1) Some [unfolded r]] Cons.IH [OF _ 1(1)] 1(2) show ?thesis by simp
    qed
  qed
qed

lemma pop_push: "inv q \<Longrightarrow> contents q = [] \<Longrightarrow> push e q = Some q' \<Longrightarrow> pop q' \<noteq> None \<and> fst (the (pop q')) = e"
  using push_law [of q e q'] pop_empty [of q'] pop_law [of q'] by fastforce

end

section \<open>The ring fulfils the contract\<close>

definition ring_length :: "'e tick_ring \<Rightarrow> nat" where
  "ring_length r = unat (ring_write r - ring_read r)"

definition ring_contents :: "'e tick_ring \<Rightarrow> 'e list" where
  "ring_contents r = map (\<lambda>k. ring_events r ! ring_index (ring_read r + of_nat k)) [0..<ring_length r]"

definition ring_ok :: "'e tick_ring \<Rightarrow> bool" where
  "ring_ok r \<longleftrightarrow> length (ring_events r) = LP_TICK_RING_CAPACITY \<and> ring_length r \<le> LP_TICK_RING_CAPACITY"

lemma ring_index_mod: "ring_index s = unat s mod LP_TICK_RING_CAPACITY"
proof -
  have "s AND of_nat (LP_TICK_RING_CAPACITY - 1) = take_bit 12 s"
    by (simp add: LP_TICK_RING_CAPACITY_def take_bit_eq_mask mask_eq_exp_minus_1)
  then show ?thesis
    by (simp add: ring_index_def LP_TICK_RING_CAPACITY_def take_bit_eq_mod unat_mod)
qed

lemma ring_index_less [simp]: "ring_index s < LP_TICK_RING_CAPACITY"
  by (simp add: ring_index_mod LP_TICK_RING_CAPACITY_def)

lemma unat_add_mod_capacity:
  "unat (a + b) mod LP_TICK_RING_CAPACITY = (unat a + unat b) mod LP_TICK_RING_CAPACITY" for a :: u64
proof -
  have "unat (a + b) = (unat a + unat b) mod 2 ^ 64" by (simp add: unat_word_ariths)
  moreover have "LP_TICK_RING_CAPACITY dvd 2 ^ 64" by (simp add: LP_TICK_RING_CAPACITY_def)
  ultimately show ?thesis by (simp only: mod_mod_cancel)
qed

lemma add_mod_cancel:
  assumes "(a + j) mod n = (a + k) mod n" and "j < n" and "k < n"
  shows "j = (k :: nat)"
proof -
  have "\<not> j < k" if "(a + j) mod n = (a + k) mod n" "k < n" for j k :: nat
  proof
    assume "j < k"
    then have "n dvd (a + k) - (a + j)" using that by (subst mod_eq_dvd_iff_nat [symmetric]) simp_all
    with \<open>j < k\<close> that(2) show False by (auto dest: dvd_imp_le)
  qed
  from this [of j k] this [of k j] assms show ?thesis by simp
qed

lemma ring_index_add:
  "k < LP_TICK_RING_CAPACITY + 1 \<Longrightarrow> ring_index (s + of_nat k) = (unat s + k) mod LP_TICK_RING_CAPACITY"
proof -
  assume "k < LP_TICK_RING_CAPACITY + 1"
  then have "unat (of_nat k :: u64) = k" by (simp add: unat_of_nat LP_TICK_RING_CAPACITY_def)
  then show ?thesis by (simp only: ring_index_mod unat_add_mod_capacity)
qed

lemma ring_index_distinct:
  assumes "j < LP_TICK_RING_CAPACITY" and "k < LP_TICK_RING_CAPACITY"
    and "ring_index (s + of_nat j) = ring_index (s + of_nat k)"
  shows "j = k"
  using assms by (intro add_mod_cancel [of "unat s" j LP_TICK_RING_CAPACITY k]) (simp_all add: ring_index_add)

lemma new_ring_ok [simp]: "ring_ok (new_ring e) \<and> ring_contents (new_ring e) = []"
  by (simp add: ring_ok_def new_ring_def ring_contents_def ring_length_def)

lemma length_ring_contents [simp]: "length (ring_contents r) = ring_length r"
  by (simp add: ring_contents_def)

lemma ring_length_zero: "ring_length r = 0 \<longleftrightarrow> ring_read r = ring_write r"
  unfolding ring_length_def unat_eq_0 by auto

lemma ring_write_at: "ring_write r = ring_read r + of_nat (ring_length r)"
  by (simp add: ring_length_def)

lemma ring_push_contents:
  assumes ok: "ring_ok r" and push: "ring_push e r = Some r'"
  shows "ring_ok r' \<and> ring_contents r' = ring_contents r @ [e]"
proof -
  let ?n = "ring_length r" and ?es = "ring_events r"
  have n: "?n < LP_TICK_RING_CAPACITY"
    and r': "r' = r\<lparr>ring_events := ?es[ring_index (ring_write r) := e], ring_write := ring_write r + 1\<rparr>"
    using push by (auto simp: ring_push_def ring_length_def split: if_splits)
  have "unat (ring_write r + 1 - ring_read r) = Suc ?n"
  proof -
    have "ring_write r + 1 - ring_read r = of_nat (Suc ?n)" by (simp add: ring_length_def algebra_simps)
    then show ?thesis using n by (simp add: unat_of_nat LP_TICK_RING_CAPACITY_def del: of_nat_Suc)
  qed
  then have len: "ring_length r' = Suc ?n" by (simp add: ring_length_def r')
  have at: "ring_index (ring_write r) = ring_index (ring_read r + of_nat ?n)" by (simp add: ring_write_at [symmetric])
  have entry: "ring_events r' ! ring_index (ring_read r + of_nat k) =
      (ring_contents r @ [e]) ! k" if k: "k < Suc ?n" for k
  proof (cases "k = ?n")
    case True
    then show ?thesis using ok at by (simp add: r' ring_ok_def nth_append)
  next
    case False
    then have "k < ?n" using k by simp
    moreover from this have "ring_index (ring_read r + of_nat k) \<noteq> ring_index (ring_write r)"
      using ring_index_distinct [of k ?n "ring_read r"] n at by auto
    ultimately show ?thesis by (simp add: r' nth_append) (simp add: ring_contents_def)
  qed
  have "ring_read r' = ring_read r" by (simp add: r')
  then have "ring_contents r' ! k = (ring_contents r @ [e]) ! k" if "k < Suc ?n" for k
    using entry [OF that] that by (simp add: ring_contents_def [of r'] len del: upt_Suc)
  then have "ring_contents r' = ring_contents r @ [e]"
    by (intro nth_equalityI) (simp_all add: len)
  then show ?thesis using ok n len by (simp add: ring_ok_def r')
qed

lemma ring_next_contents:
  assumes ok: "ring_ok r" and "ring_next r = Some (e, r')"
  shows "ring_ok r' \<and> ring_contents r = e # ring_contents r'"
proof -
  have ne: "ring_read r \<noteq> ring_write r" and e: "e = ring_events r ! ring_index (ring_read r)"
    and r': "r' = r\<lparr>ring_read := ring_read r + 1\<rparr>"
    using assms(2) by (auto simp: ring_next_def split: if_splits)
  have "ring_length r \<noteq> 0" using ne by (simp add: ring_length_zero)
  then obtain n where n: "ring_length r = Suc n" by (cases "ring_length r") auto
  have "ring_write r - (ring_read r + 1) = of_nat n"
  proof -
    have "ring_write r - ring_read r = of_nat (Suc n)" by (metis n of_nat_unat ring_length_def ucast_id)
    then show ?thesis by (simp add: algebra_simps)
  qed
  then have len: "ring_length r' = n"
    using ok n by (simp add: ring_length_def r' ring_ok_def unat_of_nat LP_TICK_RING_CAPACITY_def)
  have "ring_contents r = map (\<lambda>k. ring_events r ! ring_index (ring_read r + of_nat k)) (0 # map Suc [0..<n])"
    by (simp add: ring_contents_def n upt_conv_Cons map_Suc_upt del: upt_Suc)
  then have "ring_contents r = e # ring_contents r'"
    by (simp add: e ring_contents_def [of r'] len) (simp add: r' algebra_simps)
  then show ?thesis using ok len n by (simp add: ring_ok_def r')
qed

interpretation ring: tick_queue ring_ok ring_contents LP_TICK_RING_CAPACITY ring_push ring_next
proof
  fix q q' :: "'a tick_ring" and e
  assume ok: "ring_ok q"
  show "length (ring_contents q) \<le> LP_TICK_RING_CAPACITY" using ok by (simp add: ring_ok_def)
  show "ring_push e q = None \<longleftrightarrow> length (ring_contents q) = LP_TICK_RING_CAPACITY"
    using ok by (auto simp: ring_push_def ring_length_def ring_ok_def)
  show "ring_ok q' \<and> ring_contents q' = ring_contents q @ [e]" if "ring_push e q = Some q'"
    by (rule ring_push_contents [OF ok that])
  show "ring_next q = None \<longleftrightarrow> ring_contents q = []"
    using ring_length_zero [of q] by (simp add: ring_next_def ring_contents_def)
  show "ring_ok q' \<and> ring_contents q = e # ring_contents q'" if "ring_next q = Some (e, q')"
    by (rule ring_next_contents [OF ok that])
qed

end
