(* ===== verification/Thread_Timer.thy ===== *)
theory Thread_Timer
  imports Runtime_Types Tick_Ring
begin

text \<open>
  One per-thread CPU timer of \<open>src/thread_timer.c\<close>. Its signal is delivered to the thread that
  owns the timer, so a tick runs as a whole between two memory accesses of that thread; the
  owner's operations are therefore also given as sequences of single accesses, and the step
  relation \<open>timer_step\<close> interleaves them with ticks. \<open>lua_profile_request\<close> is an output of the
  handler. A counter update by compare-and-swap is one saturating addition.

  Shown here, by rule induction over the steps: no event is torn, the ring delivers the
  accepted events in order, and every tick is counted once.
\<close>

section \<open>One timer\<close>

record lp_tick_event =
  te_state :: pointer
  te_vm_state :: lp_vm_state
  te_cfunction :: pointer

definition zero_tick_event :: lp_tick_event where
  "zero_tick_event = \<lparr>te_state = NULL, te_vm_state = LP_VM_HOST, te_cfunction = NULL\<rparr>"

record lp_thread_timer =
  tt_ring :: "lp_tick_event tick_ring"
  tt_dropped :: u64
  tt_unstable :: u64
  tt_profiler_overhead :: u64
  tt_overrun_events :: u64
  tt_overrun_ticks :: u64
  tt_slot_version :: u64
  tt_slot_state :: pointer
  tt_slot_cfunction :: pointer
  tt_slot_vm_state :: c_int
  tt_active :: bool
  tt_draining_events :: bool
  tt_timer_created :: bool
  tt_signal_acquired :: bool
  tt_signal_slot :: int

text \<open>\<open>siginfo_t\<close>: whether \<open>si_code\<close> is \<open>SI_TIMER\<close>, the overrun count, and \<open>sival_ptr\<close>.\<close>

record siginfo =
  si_timer :: bool
  si_overrun :: c_int
  si_value :: pointer

definition event_overrun :: "siginfo \<Rightarrow> u32" where
  "event_overrun info = (if sint (si_overrun info) \<le> 0 then 0 else si_overrun info)"

definition record_overrun :: "siginfo \<Rightarrow> lp_thread_timer \<Rightarrow> lp_thread_timer" where
  "record_overrun info t =
     (let overrun = event_overrun info
      in if overrun \<noteq> 0
         then t\<lparr>tt_overrun_events := saturating_add (tt_overrun_events t) 1,
                tt_overrun_ticks := saturating_add (tt_overrun_ticks t) (ucast overrun)\<rparr>
         else t)"

definition add_unstable :: "lp_thread_timer \<Rightarrow> lp_thread_timer" where
  "add_unstable t = t\<lparr>tt_unstable := saturating_add (tt_unstable t) 1\<rparr>"

definition add_dropped :: "lp_thread_timer \<Rightarrow> lp_thread_timer" where
  "add_dropped t = t\<lparr>tt_dropped := saturating_add (tt_dropped t) 1\<rparr>"

text \<open>
  The handler from \<open>record_overrun\<close> on, for a registered active timer: the timer and the
  argument of \<open>lua_profile_request\<close>, if it is called. The second load of \<open>slot_version\<close> sees
  the value of the first, since the owner does not run in between.
\<close>

definition handle_tick :: "siginfo \<Rightarrow> lp_thread_timer \<Rightarrow> lp_thread_timer \<times> pointer option" where
  "handle_tick info timer =
     (let t = record_overrun info timer
      in if tt_draining_events t
         then (t\<lparr>tt_profiler_overhead := saturating_add (tt_profiler_overhead t) 1\<rparr>, None)
         else if tt_slot_version t AND 1 \<noteq> 0 then (add_unstable t, None)
         else
           let L = tt_slot_state t; cfunction = tt_slot_cfunction t; vm_state = tt_slot_vm_state t
           in if L = NULL \<or> sint vm_state < 0 \<or> sint vm_state > 3 \<or> (vm_state = LP_VM_C \<and> cfunction = NULL)
              then (add_unstable t, None)
              else
                (case ring_push \<lparr>te_state = L, te_vm_state = vm_state, te_cfunction = cfunction\<rparr> (tt_ring t) of
                   None \<Rightarrow> (add_dropped t, Some L)
                 | Some ring \<Rightarrow> (t\<lparr>tt_ring := ring\<rparr>, Some L)))"

definition zero_thread_timer :: lp_thread_timer where
  "zero_thread_timer = \<lparr>tt_ring = new_ring zero_tick_event, tt_dropped = 0, tt_unstable = 0,
     tt_profiler_overhead = 0, tt_overrun_events = 0, tt_overrun_ticks = 0, tt_slot_version = 0,
     tt_slot_state = NULL, tt_slot_cfunction = NULL, tt_slot_vm_state = LP_VM_HOST, tt_active = False,
     tt_draining_events = True, tt_timer_created = False, tt_signal_acquired = False,
     tt_signal_slot = -1\<rparr>"

definition lp_thread_timer_new :: "bool \<Rightarrow> bool \<Rightarrow> lp_thread_timer option" where
  "lp_thread_timer_new got_timer got_events =
     (if \<not> got_timer then None else if \<not> got_events then None else Some zero_thread_timer)"

text \<open>The five accesses of \<open>lp_thread_timer_publish_state\<close>.\<close>

definition publish_1 :: "lp_thread_timer \<Rightarrow> lp_thread_timer" where
  "publish_1 t = t\<lparr>tt_slot_version := tt_slot_version t + 1\<rparr>"

definition publish_2 :: "lp_tick_event \<Rightarrow> lp_thread_timer \<Rightarrow> lp_thread_timer" where
  "publish_2 e t = t\<lparr>tt_slot_state := te_state e\<rparr>"

definition publish_3 :: "lp_tick_event \<Rightarrow> lp_thread_timer \<Rightarrow> lp_thread_timer" where
  "publish_3 e t = t\<lparr>tt_slot_cfunction := te_cfunction e\<rparr>"

definition publish_4 :: "lp_tick_event \<Rightarrow> lp_thread_timer \<Rightarrow> lp_thread_timer" where
  "publish_4 e t = t\<lparr>tt_slot_vm_state := te_vm_state e\<rparr>"

definition publish_5 :: "lp_thread_timer \<Rightarrow> lp_thread_timer" where
  "publish_5 t = t\<lparr>tt_slot_version := tt_slot_version t + 1\<rparr>"

definition lp_thread_timer_publish_state :: "lp_thread_timer \<Rightarrow> lp_tick_event \<Rightarrow> lp_thread_timer" where
  "lp_thread_timer_publish_state t e = publish_5 (publish_4 e (publish_3 e (publish_2 e (publish_1 t))))"

definition lp_thread_timer_next :: "lp_thread_timer \<Rightarrow> (lp_tick_event \<times> lp_thread_timer) option" where
  "lp_thread_timer_next t = map_option (\<lambda>(e, ring). (e, t\<lparr>tt_ring := ring\<rparr>)) (ring_next (tt_ring t))"

definition lp_thread_timer_begin_event_drain :: "lp_thread_timer \<Rightarrow> lp_thread_timer" where
  "lp_thread_timer_begin_event_drain t = t\<lparr>tt_draining_events := True\<rparr>"

definition lp_thread_timer_end_event_drain :: "lp_thread_timer \<Rightarrow> lp_thread_timer" where
  "lp_thread_timer_end_event_drain t = t\<lparr>tt_draining_events := False\<rparr>"

text \<open>The five counters, in the order of the output parameters (the callers pass all five).\<close>

definition lp_thread_timer_take_quality ::
  "lp_thread_timer \<Rightarrow> lp_thread_timer \<times> (u64 \<times> u64 \<times> u64 \<times> u64 \<times> u64)" where
  "lp_thread_timer_take_quality t =
     (t\<lparr>tt_dropped := 0, tt_unstable := 0, tt_profiler_overhead := 0, tt_overrun_events := 0,
        tt_overrun_ticks := 0\<rparr>,
      (tt_dropped t, tt_unstable t, tt_profiler_overhead t, tt_overrun_events t, tt_overrun_ticks t))"

section \<open>Ticks between the owner's accesses\<close>

text \<open>
  Where the owner thread stands inside an operation: within \<open>lp_thread_timer_publish_state\<close>
  after the given number of its accesses, or within \<open>lp_thread_timer_next\<close> after the test or
  after the copy.
\<close>

datatype owner_place = Between | Publishing nat lp_tick_event | Looking | Copied lp_tick_event

text \<open>
  A timer with its owner, and the history of both: the states published in full, the events
  the ring accepted and those handed out, the number of ticks, and the ticks in counters
  already taken.
\<close>

record timer_run =
  tr_timer :: lp_thread_timer
  tr_place :: owner_place
  tr_published :: "lp_tick_event list"
  tr_accepted :: "lp_tick_event list"
  tr_delivered :: "lp_tick_event list"
  tr_ticks :: nat
  tr_taken :: nat

definition start_run :: timer_run where
  "start_run = \<lparr>tr_timer = zero_thread_timer, tr_place = Between, tr_published = [],
     tr_accepted = [], tr_delivered = [], tr_ticks = 0, tr_taken = 0\<rparr>"

text \<open>The events a tick added to the ring.\<close>

definition new_events :: "lp_thread_timer \<Rightarrow> lp_thread_timer \<Rightarrow> lp_tick_event list" where
  "new_events t t' = drop (ring_length (tt_ring t)) (ring_contents (tt_ring t'))"

inductive timer_step :: "timer_run \<Rightarrow> timer_run \<Rightarrow> bool" where
  tick: "handle_tick info (tr_timer r) = (t, request) \<Longrightarrow>
    timer_step r (r\<lparr>tr_timer := t, tr_accepted := tr_accepted r @ new_events (tr_timer r) t,
                    tr_ticks := tr_ticks r + 1\<rparr>)"
| discarded: "timer_step r (r\<lparr>tr_timer := add_dropped (record_overrun info (tr_timer r)),
                              tr_ticks := tr_ticks r + 1\<rparr>)"
| publish1: "tr_place r = Between \<Longrightarrow>
    timer_step r (r\<lparr>tr_timer := publish_1 (tr_timer r), tr_place := Publishing 1 e\<rparr>)"
| publish2: "tr_place r = Publishing 1 e \<Longrightarrow>
    timer_step r (r\<lparr>tr_timer := publish_2 e (tr_timer r), tr_place := Publishing 2 e\<rparr>)"
| publish3: "tr_place r = Publishing 2 e \<Longrightarrow>
    timer_step r (r\<lparr>tr_timer := publish_3 e (tr_timer r), tr_place := Publishing 3 e\<rparr>)"
| publish4: "tr_place r = Publishing 3 e \<Longrightarrow>
    timer_step r (r\<lparr>tr_timer := publish_4 e (tr_timer r), tr_place := Publishing 4 e\<rparr>)"
| publish5: "tr_place r = Publishing 4 e \<Longrightarrow>
    timer_step r (r\<lparr>tr_timer := publish_5 (tr_timer r), tr_place := Between,
                    tr_published := tr_published r @ [e]\<rparr>)"
| next1: "tr_place r = Between \<Longrightarrow> ring_read (tt_ring (tr_timer r)) \<noteq> ring_write (tt_ring (tr_timer r)) \<Longrightarrow>
    timer_step r (r\<lparr>tr_place := Looking\<rparr>)"
| next2: "tr_place r = Looking \<Longrightarrow>
    timer_step r (r\<lparr>tr_place := Copied (ring_events (tt_ring (tr_timer r)) !
                                       ring_index (ring_read (tt_ring (tr_timer r))))\<rparr>)"
| next3: "tr_place r = Copied e \<Longrightarrow>
    timer_step r (r\<lparr>tr_timer := (tr_timer r)\<lparr>tt_ring := (tt_ring (tr_timer r))
                      \<lparr>ring_read := ring_read (tt_ring (tr_timer r)) + 1\<rparr>\<rparr>,
                    tr_place := Between, tr_delivered := tr_delivered r @ [e]\<rparr>)"
| begin_drain: "tr_place r = Between \<Longrightarrow>
    timer_step r (r\<lparr>tr_timer := lp_thread_timer_begin_event_drain (tr_timer r)\<rparr>)"
| end_drain: "tr_place r = Between \<Longrightarrow>
    timer_step r (r\<lparr>tr_timer := lp_thread_timer_end_event_drain (tr_timer r)\<rparr>)"
| take_dropped: "tr_place r = Between \<Longrightarrow>
    timer_step r (r\<lparr>tr_timer := (tr_timer r)\<lparr>tt_dropped := 0\<rparr>,
                    tr_taken := tr_taken r + unat (tt_dropped (tr_timer r))\<rparr>)"
| take_unstable: "tr_place r = Between \<Longrightarrow>
    timer_step r (r\<lparr>tr_timer := (tr_timer r)\<lparr>tt_unstable := 0\<rparr>,
                    tr_taken := tr_taken r + unat (tt_unstable (tr_timer r))\<rparr>)"
| take_overhead: "tr_place r = Between \<Longrightarrow>
    timer_step r (r\<lparr>tr_timer := (tr_timer r)\<lparr>tt_profiler_overhead := 0\<rparr>,
                    tr_taken := tr_taken r + unat (tt_profiler_overhead (tr_timer r))\<rparr>)"
| take_overruns: "tr_place r = Between \<Longrightarrow>
    timer_step r (r\<lparr>tr_timer := (tr_timer r)\<lparr>tt_overrun_events := 0, tt_overrun_ticks := 0\<rparr>\<rparr>)"

text \<open>The single accesses, one after the other without a tick, are the operations.\<close>

definition slot_event :: "lp_thread_timer \<Rightarrow> lp_tick_event" where
  "slot_event t = \<lparr>te_state = tt_slot_state t, te_vm_state = tt_slot_vm_state t,
     te_cfunction = tt_slot_cfunction t\<rparr>"

text \<open>The states the handler accepts.\<close>

definition event_valid :: "lp_tick_event \<Rightarrow> bool" where
  "event_valid e \<longleftrightarrow> te_state e \<noteq> NULL \<and> 0 \<le> sint (te_vm_state e) \<and> sint (te_vm_state e) \<le> 3 \<and>
     (te_vm_state e = LP_VM_C \<longrightarrow> te_cfunction e \<noteq> NULL)"

lemmas step_chain = converse_rtranclp_into_rtranclp [of timer_step]
lemmas step_last = r_into_rtranclp [of timer_step]

lemma steps_are_publish_state:
  assumes "tr_place r = Between"
  shows "timer_step\<^sup>*\<^sup>* r (r\<lparr>tr_timer := lp_thread_timer_publish_state (tr_timer r) e,
                           tr_published := tr_published r @ [e]\<rparr>)"
proof -
  let ?r = "\<lambda>t k. r\<lparr>tr_timer := t, tr_place := Publishing k e\<rparr>"
  let ?t1 = "publish_1 (tr_timer r)"
  let ?t2 = "publish_2 e ?t1" let ?t3 = "publish_3 e ?t2" let ?t4 = "publish_4 e ?t3"
  have s1: "timer_step r (?r ?t1 1)" using assms by (rule publish1)
  have s2: "timer_step (?r ?t1 1) (?r ?t2 2)" using publish2 [of "?r ?t1 1" e] by simp
  have s3: "timer_step (?r ?t2 2) (?r ?t3 3)" using publish3 [of "?r ?t2 2" e] by simp
  have s4: "timer_step (?r ?t3 3) (?r ?t4 4)" using publish4 [of "?r ?t3 3" e] by simp
  have s5: "timer_step (?r ?t4 4) (r\<lparr>tr_timer := publish_5 ?t4, tr_published := tr_published r @ [e]\<rparr>)"
    using publish5 [of "?r ?t4 4" e] assms by (cases r) simp
  show ?thesis
    unfolding lp_thread_timer_publish_state_def
    by (rule step_chain [OF s1 step_chain [OF s2 step_chain [OF s3 step_chain [OF s4 step_last [OF s5]]]]])
qed

lemma steps_are_next:
  assumes "tr_place r = Between" and "lp_thread_timer_next (tr_timer r) = Some (e, t)"
  shows "timer_step\<^sup>*\<^sup>* r (r\<lparr>tr_timer := t, tr_delivered := tr_delivered r @ [e]\<rparr>)"
proof -
  let ?ring = "tt_ring (tr_timer r)"
  have ne: "ring_read ?ring \<noteq> ring_write ?ring" and e: "e = ring_events ?ring ! ring_index (ring_read ?ring)"
    and t: "t = (tr_timer r)\<lparr>tt_ring := ?ring\<lparr>ring_read := ring_read ?ring + 1\<rparr>\<rparr>"
    using assms(2) by (auto simp: lp_thread_timer_next_def ring_next_def split: if_splits)
  have s1: "timer_step r (r\<lparr>tr_place := Looking\<rparr>)" using assms(1) ne by (rule next1)
  have s2: "timer_step (r\<lparr>tr_place := Looking\<rparr>) (r\<lparr>tr_place := Copied e\<rparr>)"
    using next2 [of "r\<lparr>tr_place := Looking\<rparr>"] by (simp add: e)
  have s3: "timer_step (r\<lparr>tr_place := Copied e\<rparr>) (r\<lparr>tr_timer := t, tr_delivered := tr_delivered r @ [e]\<rparr>)"
    using next3 [of "r\<lparr>tr_place := Copied e\<rparr>" e] assms(1) by (cases r) (simp add: t)
  show ?thesis by (rule step_chain [OF s1 step_chain [OF s2 step_last [OF s3]]])
qed

section \<open>What every interleaving keeps\<close>

text \<open>The slot while the owner stands at a place: its version is odd inside a publication.\<close>

definition published_ok :: "timer_run \<Rightarrow> bool" where
  "published_ok r \<longleftrightarrow>
     (case tr_place r of
        Publishing k e \<Rightarrow>
          odd (unat (tt_slot_version (tr_timer r))) \<and> k \<in> {1, 2, 3, 4} \<and>
          (k \<ge> 2 \<longrightarrow> tt_slot_state (tr_timer r) = te_state e) \<and>
          (k \<ge> 3 \<longrightarrow> tt_slot_cfunction (tr_timer r) = te_cfunction e) \<and>
          (k \<ge> 4 \<longrightarrow> tt_slot_vm_state (tr_timer r) = te_vm_state e)
      | _ \<Rightarrow>
          even (unat (tt_slot_version (tr_timer r))) \<and>
          (if tr_published r = [] then tt_slot_state (tr_timer r) = NULL
           else slot_event (tr_timer r) = last (tr_published r)))"

definition reader_ok :: "timer_run \<Rightarrow> bool" where
  "reader_ok r \<longleftrightarrow>
     (case tr_place r of
        Looking \<Rightarrow> ring_contents (tt_ring (tr_timer r)) \<noteq> []
      | Copied e \<Rightarrow> ring_contents (tt_ring (tr_timer r)) \<noteq> [] \<and> hd (ring_contents (tt_ring (tr_timer r))) = e
      | _ \<Rightarrow> True)"

definition accepted_ok :: "timer_run \<Rightarrow> bool" where
  "accepted_ok r \<longleftrightarrow>
     ring_ok (tt_ring (tr_timer r)) \<and>
     tr_accepted r = tr_delivered r @ ring_contents (tt_ring (tr_timer r)) \<and>
     (\<forall>e \<in> set (tr_accepted r). e \<in> set (tr_published r) \<and> event_valid e)"

definition counted_ok :: "timer_run \<Rightarrow> bool" where
  "counted_ok r \<longleftrightarrow>
     (tr_ticks r \<le> u64_max \<longrightarrow>
      tr_ticks r = length (tr_accepted r) + unat (tt_dropped (tr_timer r)) + unat (tt_unstable (tr_timer r)) +
                   unat (tt_profiler_overhead (tr_timer r)) + tr_taken r)"

lemma odd_version: "v AND 1 \<noteq> 0 \<longleftrightarrow> odd (unat v)" for v :: u64
proof -
  have "v AND 1 = take_bit 1 v" by (simp add: take_bit_eq_mask mask_eq_exp_minus_1)
  then have "unat (v AND 1) = unat v mod 2" by (simp add: take_bit_eq_mod unat_mod)
  then show ?thesis by (metis odd_iff_mod_2_eq_one parity_cases unat_eq_0 zero_neq_one)
qed

lemma unat_plus_1_parity: "even (unat (v + 1)) \<longleftrightarrow> odd (unat v)" for v :: u64
proof -
  have "unat (v + 1) = Suc (unat v) mod 18446744073709551616" by (simp add: unat_word_ariths)
  moreover have "even (n mod 18446744073709551616) \<longleftrightarrow> even n" for n :: nat by (simp add: dvd_mod_iff)
  ultimately show ?thesis by (simp only:) simp
qed

lemma next_fields [simp]:
  "tt_ring (record_overrun info t) = tt_ring t" "tt_slot_version (record_overrun info t) = tt_slot_version t"
  "tt_slot_state (record_overrun info t) = tt_slot_state t"
  "tt_slot_cfunction (record_overrun info t) = tt_slot_cfunction t"
  "tt_slot_vm_state (record_overrun info t) = tt_slot_vm_state t"
  "tt_dropped (record_overrun info t) = tt_dropped t" "tt_unstable (record_overrun info t) = tt_unstable t"
  "tt_profiler_overhead (record_overrun info t) = tt_profiler_overhead t"
  "tt_draining_events (record_overrun info t) = tt_draining_events t"
  by (simp_all add: record_overrun_def Let_def)

text \<open>The four outcomes of a tick.\<close>

lemma tick_cases:
  assumes "handle_tick info t = (t', request)"
  obtains
    (overhead) "tt_draining_events t"
      "t' = (record_overrun info t)\<lparr>tt_profiler_overhead := saturating_add (tt_profiler_overhead t) 1\<rparr>" "request = None"
  | (unstable) "\<not> tt_draining_events t" "odd (unat (tt_slot_version t)) \<or> \<not> event_valid (slot_event t)"
      "t' = add_unstable (record_overrun info t)" "request = None"
  | (dropped) "\<not> tt_draining_events t" "even (unat (tt_slot_version t))" "event_valid (slot_event t)"
      "ring_push (slot_event t) (tt_ring t) = None" "t' = add_dropped (record_overrun info t)"
      "request = Some (tt_slot_state t)"
  | (accepted) ring where "\<not> tt_draining_events t" "even (unat (tt_slot_version t))" "event_valid (slot_event t)"
      "ring_push (slot_event t) (tt_ring t) = Some ring" "t' = (record_overrun info t)\<lparr>tt_ring := ring\<rparr>"
      "request = Some (tt_slot_state t)"
proof -
  have valid: "event_valid (slot_event t) \<longleftrightarrow> \<not> (tt_slot_state t = NULL \<or> sint (tt_slot_vm_state t) < 0 \<or>
      sint (tt_slot_vm_state t) > 3 \<or> (tt_slot_vm_state t = LP_VM_C \<and> tt_slot_cfunction t = NULL))"
    by (auto simp: event_valid_def slot_event_def)
  show ?thesis
  proof (cases "tt_draining_events t \<or> odd (unat (tt_slot_version t)) \<or> \<not> event_valid (slot_event t)")
    case True
    then show ?thesis using assms overhead unstable
      by (auto simp: handle_tick_def Let_def odd_version valid split: if_splits)
  next
    case False
    then have "\<not> (tt_slot_state t = NULL \<or> sint (tt_slot_vm_state t) < 0 \<or>
      sint (tt_slot_vm_state t) > 3 \<or> (tt_slot_vm_state t = LP_VM_C \<and> tt_slot_cfunction t = NULL))"
      "\<not> tt_draining_events t" "\<not> tt_slot_version t AND 1 \<noteq> 0" using valid odd_version by auto
    then have "(t', request) = (case ring_push (slot_event t) (tt_ring t) of
          None \<Rightarrow> (add_dropped (record_overrun info t), Some (tt_slot_state t))
        | Some ring \<Rightarrow> ((record_overrun info t)\<lparr>tt_ring := ring\<rparr>, Some (tt_slot_state t)))"
      using assms by (cases "tt_slot_vm_state t = LP_VM_C") (simp_all add: handle_tick_def Let_def slot_event_def)
    then show ?thesis using False dropped accepted by (cases "ring_push (slot_event t) (tt_ring t)") auto
  qed
qed

lemma handle_tick_accepts:
  assumes "\<not> tt_draining_events t" "even (unat (tt_slot_version t))" "event_valid (slot_event t)"
    and "ring_push (slot_event t) (tt_ring t) = Some ring"
  shows "handle_tick info t = ((record_overrun info t)\<lparr>tt_ring := ring\<rparr>, Some (tt_slot_state t))"
proof -
  obtain t' request where h: "handle_tick info t = (t', request)" by fastforce
  then have "(t', request) = ((record_overrun info t)\<lparr>tt_ring := ring\<rparr>, Some (tt_slot_state t))"
    by (cases rule: tick_cases) (use assms in auto)
  with h show ?thesis by simp
qed

lemma tick_ring:
  assumes "handle_tick info t = (t', request)" and "ring_ok (tt_ring t)"
  shows "ring_ok (tt_ring t') \<and> ring_contents (tt_ring t') = ring_contents (tt_ring t) @ new_events t t'"
    and "new_events t t' = [] \<or> new_events t t' = [slot_event t] \<and> even (unat (tt_slot_version t)) \<and>
           event_valid (slot_event t)"
  using assms(1)
  by (cases rule: tick_cases;
      use assms(2) ring_push_contents [OF assms(2), of "slot_event t"] in
        \<open>force simp: new_events_def add_unstable_def add_dropped_def\<close>)+

lemma tick_counters:
  assumes "handle_tick info t = (t', request)" and "ring_ok (tt_ring t)"
    and "unat (tt_dropped t) + unat (tt_unstable t) + unat (tt_profiler_overhead t) < u64_max"
  shows "length (new_events t t') + unat (tt_dropped t') + unat (tt_unstable t') + unat (tt_profiler_overhead t') =
         Suc (unat (tt_dropped t) + unat (tt_unstable t) + unat (tt_profiler_overhead t))"
  using assms(1)
  by (cases rule: tick_cases;
      use assms(2,3) ring_push_contents [OF assms(2), of "slot_event t"] in
        \<open>force simp: new_events_def add_unstable_def add_dropped_def unat_sat\<close>)

lemma tick_slot:
  assumes "handle_tick info t = (t', request)"
  shows "tt_slot_version t' = tt_slot_version t" "tt_slot_state t' = tt_slot_state t"
    "tt_slot_vm_state t' = tt_slot_vm_state t" "tt_slot_cfunction t' = tt_slot_cfunction t"
  using assms
  by (cases rule: tick_cases; simp add: add_unstable_def add_dropped_def)+

lemmas publish_defs = publish_1_def publish_2_def publish_3_def publish_4_def publish_5_def
lemmas drain_defs = lp_thread_timer_begin_event_drain_def lp_thread_timer_end_event_drain_def

text \<open>Outside a publication a valid slot is the state published last.\<close>

lemma slot_is_published:
  assumes "published_ok r" and "even (unat (tt_slot_version (tr_timer r)))" and "event_valid (slot_event (tr_timer r))"
  shows "tr_published r \<noteq> [] \<and> slot_event (tr_timer r) = last (tr_published r)"
  using assms
  by (auto simp: published_ok_def event_valid_def slot_event_def split: owner_place.splits if_splits)

lemma published_ok_step:
  assumes "timer_step r r'" and "published_ok r"
  shows "published_ok r'"
  using assms
proof (induction rule: timer_step.cases)
  case (tick info r t request)
  then show ?thesis
    using tick_slot [OF tick(3)] by (auto simp: published_ok_def slot_event_def split: owner_place.splits if_splits)
qed (auto simp: published_ok_def publish_defs drain_defs unat_plus_1_parity slot_event_def add_dropped_def
       split: owner_place.splits if_splits)

lemma reader_ok_step:
  assumes "timer_step r r'" and "reader_ok r" and "ring_ok (tt_ring (tr_timer r))"
  shows "reader_ok r'"
  using assms
proof (induction rule: timer_step.cases)
  case (tick info r t request)
  then show ?thesis
    using tick_ring(1) [OF tick(3)] by (auto simp: reader_ok_def split: owner_place.splits)
next
  case (next1 r)
  then show ?thesis using ring.pop_empty [of "tt_ring (tr_timer r)"] by (auto simp: reader_ok_def ring_next_def)
next
  case (next2 r)
  then show ?thesis
    using ring.pop_empty [of "tt_ring (tr_timer r)"] ring_next_contents [of "tt_ring (tr_timer r)"]
    by (force simp: reader_ok_def ring_next_def split: if_splits)
qed (simp_all add: reader_ok_def publish_defs drain_defs add_dropped_def split: owner_place.splits)

lemma next3_ring:
  assumes "ring_ok q" and "ring_contents q \<noteq> []"
  shows "ring_ok (q\<lparr>ring_read := ring_read q + 1\<rparr>) \<and>
         ring_contents q = hd (ring_contents q) # ring_contents (q\<lparr>ring_read := ring_read q + 1\<rparr>)"
proof -
  have "ring_next q \<noteq> None" using assms ring.pop_empty by blast
  then obtain e where "ring_next q = Some (e, q\<lparr>ring_read := ring_read q + 1\<rparr>)"
    by (auto simp: ring_next_def split: if_splits)
  from ring_next_contents [OF assms(1) this] show ?thesis by simp
qed

lemma accepted_ok_step:
  assumes "timer_step r r'" and "accepted_ok r" and "published_ok r" and "reader_ok r"
  shows "accepted_ok r'"
  using assms
proof (induction rule: timer_step.cases)
  case (tick info r t request)
  then have ok: "ring_ok (tt_ring (tr_timer r))" by (simp add: accepted_ok_def)
  from tick_ring [OF tick(3) ok] slot_is_published [of r] tick show ?thesis
    by (auto simp: accepted_ok_def)
next
  case (next3 r e)
  then show ?thesis using next3_ring [of "tt_ring (tr_timer r)"] by (auto simp: accepted_ok_def reader_ok_def)
qed (auto simp: accepted_ok_def publish_defs drain_defs add_dropped_def)

lemma counted_ok_step:
  assumes "timer_step r r'" and "counted_ok r" and "ring_ok (tt_ring (tr_timer r))"
  shows "counted_ok r'"
  using assms
proof (induction rule: timer_step.cases)
  case (tick info r t request)
  then show ?thesis using tick_counters [OF tick(3)] by (auto simp: counted_ok_def)
qed (auto simp: counted_ok_def publish_defs drain_defs add_dropped_def unat_sat)

definition run_ok :: "timer_run \<Rightarrow> bool" where
  "run_ok r \<longleftrightarrow> published_ok r \<and> reader_ok r \<and> accepted_ok r \<and> counted_ok r"

lemma run_ok_start: "run_ok start_run"
  by (simp add: run_ok_def start_run_def published_ok_def reader_ok_def accepted_ok_def counted_ok_def
      zero_thread_timer_def)

lemma run_ok_reachable: "timer_step\<^sup>*\<^sup>* start_run r \<Longrightarrow> run_ok r"
proof (induction rule: rtranclp_induct)
  case base
  show ?case by (rule run_ok_start)
next
  case (step r r')
  have "ring_ok (tt_ring (tr_timer r))" using step(3) by (simp add: run_ok_def accepted_ok_def)
  then show ?case
    using step published_ok_step reader_ok_step accepted_ok_step counted_ok_step
    by (simp add: run_ok_def)
qed

text \<open>
  C19: whatever the owner was doing when a tick came, the ring gets nothing, or the one state
  published last and in full, which is a valid one: no event mixes two publications, although
  the slot is written one field at a time.
\<close>

theorem no_torn_event:
  assumes "timer_step\<^sup>*\<^sup>* start_run r" and "handle_tick info (tr_timer r) = (t, request)"
  shows "ring_contents (tt_ring t) = ring_contents (tt_ring (tr_timer r)) \<or>
         tr_published r \<noteq> [] \<and> event_valid (last (tr_published r)) \<and>
         request = Some (te_state (last (tr_published r))) \<and>
         ring_contents (tt_ring t) = ring_contents (tt_ring (tr_timer r)) @ [last (tr_published r)]"
proof -
  have ok: "published_ok r" "ring_ok (tt_ring (tr_timer r))"
    using run_ok_reachable [OF assms(1)] by (simp_all add: run_ok_def accepted_ok_def)
  show ?thesis
    using assms(2)
  proof (cases rule: tick_cases)
    case (accepted ring)
    then show ?thesis
      using slot_is_published [OF ok(1)] ring_push_contents [OF ok(2), of "slot_event (tr_timer r)"]
      by (metis lp_thread_timer.select_convs(1) lp_thread_timer.surjective lp_thread_timer.update_convs(1)
          lp_tick_event.select_convs(1) slot_event_def)
  qed (simp_all add: add_unstable_def add_dropped_def)
qed

text \<open>
  The owner receives the accepted events in order, none lost, doubled or invented; at most
  4096 wait, and every one of them had been published.
\<close>

theorem events_delivered_in_order:
  assumes "timer_step\<^sup>*\<^sup>* start_run r"
  shows "tr_accepted r = tr_delivered r @ ring_contents (tt_ring (tr_timer r)) \<and>
         length (ring_contents (tt_ring (tr_timer r))) \<le> LP_TICK_RING_CAPACITY \<and>
         set (tr_delivered r) \<subseteq> set (tr_published r)"
  using run_ok_reachable [OF assms] by (auto simp: run_ok_def accepted_ok_def ring_ok_def)

text \<open>
  C35: every tick ends in exactly one place, the ring or one of the counters for dropped,
  unstable and profiler-overhead ticks, whenever the counters are taken.
\<close>

theorem every_tick_counted_once:
  assumes "timer_step\<^sup>*\<^sup>* start_run r" and "tr_ticks r \<le> u64_max"
  shows "tr_ticks r = length (tr_accepted r) + unat (tt_dropped (tr_timer r)) +
           unat (tt_unstable (tr_timer r)) + unat (tt_profiler_overhead (tr_timer r)) + tr_taken r"
  using run_ok_reachable [OF assms(1)] assms(2) by (simp add: run_ok_def counted_ok_def)

text \<open>An example: the owner publishes a state, leaves the guard, is ticked and takes the event.\<close>

definition example_event :: lp_tick_event where
  "example_event = \<lparr>te_state = 4096, te_vm_state = LP_VM_C, te_cfunction = 77\<rparr>"

definition example_info :: "pointer \<Rightarrow> siginfo" where
  "example_info p = \<lparr>si_timer = True, si_overrun = 2, si_value = p\<rparr>"

definition example_published :: timer_run where
  "example_published = start_run
     \<lparr>tr_timer := lp_thread_timer_end_event_drain (lp_thread_timer_publish_state zero_thread_timer example_event),
      tr_published := [example_event]\<rparr>"

definition example_ticked :: timer_run where
  "example_ticked = (let t = fst (handle_tick (example_info 1) (tr_timer example_published))
     in example_published\<lparr>tr_timer := t, tr_accepted := new_events (tr_timer example_published) t, tr_ticks := 1\<rparr>)"

lemma example_published_reachable: "timer_step\<^sup>*\<^sup>* start_run example_published"
proof -
  have "timer_step\<^sup>*\<^sup>* start_run (start_run\<lparr>tr_timer := lp_thread_timer_publish_state zero_thread_timer example_event,
      tr_published := [example_event]\<rparr>)" (is "timer_step\<^sup>*\<^sup>* _ ?r")
    using steps_are_publish_state [of start_run example_event] by (simp add: start_run_def)
  moreover have "timer_step ?r example_published"
    using end_drain [of ?r] by (simp add: example_published_def start_run_def)
  ultimately show ?thesis by (rule rtranclp.rtrancl_into_rtrancl)
qed

lemma example_push: "ring_push example_event (new_ring zero_tick_event) = Some (the (ring_push example_event (new_ring zero_tick_event)))"
  "ring_contents (the (ring_push example_event (new_ring zero_tick_event))) = [example_event]"
proof -
  obtain q where q: "ring_push example_event (new_ring zero_tick_event) = Some q"
    by (simp add: ring_push_def new_ring_def LP_TICK_RING_CAPACITY_def)
  with ring_push_contents [OF _ q]
  show "ring_push example_event (new_ring zero_tick_event) = Some (the (ring_push example_event (new_ring zero_tick_event)))"
    "ring_contents (the (ring_push example_event (new_ring zero_tick_event))) = [example_event]"
    by simp_all
qed

lemma example_tick:
  "handle_tick (example_info 1) (tr_timer example_published) =
     ((record_overrun (example_info 1) (tr_timer example_published))
        \<lparr>tt_ring := the (ring_push example_event (new_ring zero_tick_event))\<rparr>, Some 4096)"
proof -
  let ?t = "tr_timer example_published"
  have "\<not> tt_draining_events ?t" "tt_slot_version ?t = 2" "tt_ring ?t = new_ring zero_tick_event"
    "slot_event ?t = example_event"
    by (simp_all add: example_published_def drain_defs lp_thread_timer_publish_state_def publish_defs
        zero_thread_timer_def slot_event_def example_event_def)
  moreover have "tt_slot_state ?t = 4096" "event_valid example_event"
    by (simp_all add: example_published_def drain_defs lp_thread_timer_publish_state_def publish_defs
        example_event_def event_valid_def sint_uint)
  ultimately show ?thesis using handle_tick_accepts [of ?t _ "example_info 1"] example_push(1) by simp
qed

lemma example_ticked_reachable: "timer_step\<^sup>*\<^sup>* start_run example_ticked"
proof -
  have "timer_step example_published example_ticked"
    using tick [OF example_tick]
    by (simp add: example_ticked_def example_published_def start_run_def Let_def example_tick [unfolded example_published_def start_run_def, simplified])
  with example_published_reachable show ?thesis by (rule rtranclp.rtrancl_into_rtrancl)
qed

lemma no_torn_event_witness:
  "timer_step\<^sup>*\<^sup>* start_run example_published \<and>
   (let t = fst (handle_tick (example_info 1) (tr_timer example_published))
    in ring_contents (tt_ring t) = [example_event] \<and> last (tr_published example_published) = example_event)"
  using no_torn_event [OF example_published_reachable example_tick] example_published_reachable example_push(2)
  by (simp add: example_tick) (simp add: example_published_def)

lemma events_delivered_in_order_witness:
  "timer_step\<^sup>*\<^sup>* start_run example_ticked \<and> tr_accepted example_ticked = [example_event] \<and>
   tr_accepted example_ticked = tr_delivered example_ticked @ ring_contents (tt_ring (tr_timer example_ticked))"
proof -
  have "tr_timer example_ticked = fst (handle_tick (example_info 1) (tr_timer example_published))"
    "tr_delivered example_ticked = []"
    by (simp_all add: example_ticked_def Let_def) (simp add: example_published_def start_run_def)
  then show ?thesis
    using events_delivered_in_order [OF example_ticked_reachable] example_ticked_reachable example_push(2)
    by (simp add: example_tick)
qed

lemma every_tick_counted_once_witness:
  "tr_ticks example_ticked = 1 \<and>
   1 = length (tr_accepted example_ticked) + unat (tt_dropped (tr_timer example_ticked)) +
       unat (tt_unstable (tr_timer example_ticked)) + unat (tt_profiler_overhead (tr_timer example_ticked)) +
       tr_taken example_ticked"
proof -
  have "tr_ticks example_ticked = 1" by (simp add: example_ticked_def Let_def)
  then show ?thesis using every_tick_counted_once [OF example_ticked_reachable] by simp
qed

end
