(* ===== verification/Timer_Registry.thy ===== *)
theory Timer_Registry
  imports Thread_Timer
begin

text \<open>
  The process-wide part of \<open>src/thread_timer.c\<close>: the registry of active timers, the count of
  signal users, the installed signal action and the thread-local \<open>active_thread_timer\<close> form the
  \<open>timer_world\<close>, in which timers have addresses. System calls are parameters: the records
  \<open>arm_env\<close> and \<open>disarm_env\<close> hold what they return. An operation is one step: the functions
  below hold \<open>signal_lock\<close> where they touch the registry, and a thread's ticks come between its
  operations or are what a disarm finds pending. The two functions under \<open>LUAPROF_TESTING\<close> are
  not modelled.

  Shown here: the invariant of the registry under every operation, that the handler never
  touches a deleted timer, that a disarmed or deleted timer receives no tick, that a failed
  arm changes nothing, and the range of the timer period.
\<close>

section \<open>Timers of the process\<close>

record timer_world =
  tw_timers :: "pointer \<Rightarrow> lp_thread_timer option"
  tw_active_timers :: "pointer list"
  tw_signal_users :: u32
  tw_handler_installed :: bool
  tw_thread_timer :: "nat \<Rightarrow> pointer"

definition LP_ACTIVE_TIMER_CAPACITY :: nat where "LP_ACTIVE_TIMER_CAPACITY = 64"

definition initial_world :: timer_world where
  "initial_world = \<lparr>tw_timers = (\<lambda>_. None), tw_active_timers = replicate LP_ACTIVE_TIMER_CAPACITY NULL,
     tw_signal_users = 0, tw_handler_installed = False, tw_thread_timer = (\<lambda>_. NULL)\<rparr>"

definition put_timer :: "pointer \<Rightarrow> lp_thread_timer \<Rightarrow> timer_world \<Rightarrow> timer_world" where
  "put_timer p t w = w\<lparr>tw_timers := (tw_timers w)(p \<mapsto> t)\<rparr>"

text \<open>
  The whole handler. The outer option is \<open>None\<close> when it would read a timer that does not
  exist (any more).
\<close>

definition timer_signal_handler ::
  "siginfo option \<Rightarrow> timer_world \<Rightarrow> (timer_world \<times> pointer option) option" where
  "timer_signal_handler info w =
     (case info of
        None \<Rightarrow> Some (w, None)
      | Some i \<Rightarrow>
          if \<not> si_timer i then Some (w, None)
          else
            let p = si_value i; registered = p \<in> set (tw_active_timers w)
            in if \<not> registered \<or> p = NULL then Some (w, None)
               else case tw_timers w p of
                      None \<Rightarrow> None
                    | Some t \<Rightarrow>
                        if \<not> tt_active t then Some (w, None)
                        else let (t', request) = handle_tick i t in Some (put_timer p t' w, request))"

record arm_env =
  ae_signal_in_range :: bool
  ae_action_is_default :: bool
  ae_action_set :: bool
  ae_mask_set :: bool
  ae_was_blocked :: bool
  ae_timer_created :: bool
  ae_timer_started :: bool

text \<open>The first free place of the registry.\<close>

definition free_place :: "pointer list \<Rightarrow> nat option" where
  "free_place timers = find (\<lambda>i. timers ! i = NULL) [0..<LP_ACTIVE_TIMER_CAPACITY]"

definition acquire_timer_signal :: "arm_env \<Rightarrow> pointer \<Rightarrow> lp_thread_timer \<Rightarrow> timer_world \<Rightarrow> timer_world \<times> lp_status" where
  "acquire_timer_signal env p t w =
     (let first = tw_signal_users w = 0;
          status = (if first \<and> \<not> (ae_signal_in_range env \<and> ae_action_is_default env \<and> ae_action_set env)
                    then LP_ERR_HOST else LP_OK);
          w1 = (if first \<and> status = LP_OK then w\<lparr>tw_handler_installed := True\<rparr> else w)
      in if status \<noteq> LP_OK then (w1, status)
         else case free_place (tw_active_timers w1) of
                None \<Rightarrow>
                  (put_timer p (t\<lparr>tt_signal_slot := -1\<rparr>)
                     (if first then w1\<lparr>tw_handler_installed := False\<rparr> else w1), LP_ERR_HOST)
              | Some i \<Rightarrow>
                  (put_timer p (t\<lparr>tt_signal_slot := int i\<rparr>)
                     (w1\<lparr>tw_active_timers := (tw_active_timers w1)[i := p],
                         tw_signal_users := tw_signal_users w1 + 1\<rparr>), LP_OK))"

definition release_timer_signal :: "pointer \<Rightarrow> lp_thread_timer \<Rightarrow> timer_world \<Rightarrow> timer_world" where
  "release_timer_signal p t w =
     (let w1 = (if tt_signal_slot t \<ge> 0
                then put_timer p (t\<lparr>tt_signal_slot := -1\<rparr>)
                       (w\<lparr>tw_active_timers := (tw_active_timers w)[nat (tt_signal_slot t) := NULL]\<rparr>)
                else put_timer p t w);
          users = tw_signal_users w1 - 1
      in w1\<lparr>tw_signal_users := users,
            tw_handler_installed := (if users = 0 then False else tw_handler_installed w1)\<rparr>)"

text \<open>Seconds and nanoseconds of the period of \<open>sample_hz\<close>.\<close>

definition timer_interval :: "u32 \<Rightarrow> u64 \<times> u64" where
  "timer_interval sample_hz =
     (let interval_ns = 1000000000 div (ucast sample_hz :: u64)
      in (interval_ns div 1000000000, interval_ns mod 1000000000))"

text \<open>
  The thread \<open>me\<close> arms the timer at \<open>p\<close>; the result carries the period the kernel timer was
  started with.
\<close>

definition lp_thread_timer_arm ::
  "arm_env \<Rightarrow> nat \<Rightarrow> pointer \<Rightarrow> u32 \<Rightarrow> timer_world \<Rightarrow> timer_world \<times> lp_status \<times> (u64 \<times> u64) option" where
  "lp_thread_timer_arm env me p sample_hz w =
     (case tw_timers w p of
        None \<Rightarrow> (w, LP_ERR_ARGUMENT, None)
      | Some t \<Rightarrow>
          if sample_hz = 0 \<or> tt_timer_created t then (w, LP_ERR_ARGUMENT, None)
          else if tw_thread_timer w me \<noteq> NULL then (w, LP_ERR_HOST, None)
          else
            let (w1, status) = acquire_timer_signal env p t w
            in if status \<noteq> LP_OK then (w1, status, None)
               else
                 let t1 = (the (tw_timers w1 p))\<lparr>tt_signal_acquired := True\<rparr>
                 in if \<not> ae_mask_set env \<or> ae_was_blocked env
                    then (release_timer_signal p (t1\<lparr>tt_signal_acquired := False\<rparr>) w1, LP_ERR_HOST, None)
                    else if \<not> ae_timer_created env \<or> \<not> ae_timer_started env
                    then (release_timer_signal p (t1\<lparr>tt_timer_created := False, tt_active :=
                            (if ae_timer_created env then False else tt_active t1),
                            tt_signal_acquired := False\<rparr>) w1, LP_ERR_HOST, None)
                    else ((put_timer p (t1\<lparr>tt_timer_created := True, tt_active := True\<rparr>) w1)
                            \<lparr>tw_thread_timer := (tw_thread_timer w1)(me := p)\<rparr>,
                          LP_OK, Some (timer_interval sample_hz)))"

text \<open>
  What the system calls of a disarm return: the signal the first wait takes, if any, whether
  the timer could be stopped, and the signals the loop takes.
\<close>

record disarm_env =
  de_first :: "siginfo option"
  de_stopped :: bool
  de_rest :: "siginfo list"

definition discard_signal :: "pointer \<Rightarrow> siginfo \<Rightarrow> lp_thread_timer \<Rightarrow> lp_thread_timer" where
  "discard_signal p info t =
     (if si_timer info \<and> si_value info = p then add_dropped (record_overrun info t) else t)"

definition lp_thread_timer_disarm :: "disarm_env \<Rightarrow> nat \<Rightarrow> pointer \<Rightarrow> timer_world \<Rightarrow> timer_world" where
  "lp_thread_timer_disarm env me p w =
     (case tw_timers w p of
        None \<Rightarrow> w
      | Some t \<Rightarrow>
          if \<not> tt_signal_acquired t then w
          else
            let t1 = t\<lparr>tt_active := False\<rparr>;
                t2 = (if tt_timer_created t1
                      then let t' = (case de_first env of None \<Rightarrow> t1 | Some info \<Rightarrow> discard_signal p info t1)
                           in if \<not> de_stopped env then t'\<lparr>tt_timer_created := False\<rparr> else t'
                      else t1);
                t3 = fold (discard_signal p) (de_rest env) t2;
                t4 = (if tt_timer_created t3 then t3\<lparr>tt_timer_created := False\<rparr> else t3);
                w1 = (if tw_thread_timer w me = p
                      then w\<lparr>tw_thread_timer := (tw_thread_timer w)(me := NULL)\<rparr> else w)
            in release_timer_signal p (t4\<lparr>tt_signal_acquired := False\<rparr>) w1)"

text \<open>Deleting: disarm, then the timer no longer exists.\<close>

definition lp_thread_timer_delete :: "disarm_env \<Rightarrow> nat \<Rightarrow> pointer \<Rightarrow> timer_world \<Rightarrow> timer_world" where
  "lp_thread_timer_delete env me p w =
     (case tw_timers w p of
        None \<Rightarrow> w
      | Some t \<Rightarrow> let w1 = lp_thread_timer_disarm env me p w
                in w1\<lparr>tw_timers := (tw_timers w1)(p := None)\<rparr>)"

section \<open>The registry's invariant\<close>

definition timer_ok :: "timer_world \<Rightarrow> pointer \<Rightarrow> lp_thread_timer \<Rightarrow> bool" where
  "timer_ok w p t \<longleftrightarrow>
     (if tt_signal_acquired t
      then (\<exists>i < LP_ACTIVE_TIMER_CAPACITY. tt_signal_slot t = int i \<and> tw_active_timers w ! i = p) \<and>
        tt_active t \<and> tt_timer_created t
      else tt_signal_slot t = -1 \<and> \<not> tt_active t \<and> \<not> tt_timer_created t)"

definition place_ok :: "timer_world \<Rightarrow> nat \<Rightarrow> bool" where
  "place_ok w i \<longleftrightarrow>
     (tw_active_timers w ! i \<noteq> NULL \<longrightarrow>
      (\<exists>t. tw_timers w (tw_active_timers w ! i) = Some t \<and> tt_signal_acquired t \<and> tt_signal_slot t = int i))"

definition users_of :: "timer_world \<Rightarrow> nat" where
  "users_of w = length (filter (\<lambda>p. p \<noteq> NULL) (tw_active_timers w))"

definition world_ok :: "timer_world \<Rightarrow> bool" where
  "world_ok w \<longleftrightarrow>
     length (tw_active_timers w) = LP_ACTIVE_TIMER_CAPACITY \<and>
     tw_timers w NULL = None \<and>
     (\<forall>p t. tw_timers w p = Some t \<longrightarrow> timer_ok w p t) \<and>
     (\<forall>i < LP_ACTIVE_TIMER_CAPACITY. place_ok w i) \<and>
     unat (tw_signal_users w) = users_of w \<and>
     (tw_handler_installed w \<longleftrightarrow> tw_signal_users w \<noteq> 0)"

text \<open>What a tick and the owner's operations keep of a timer.\<close>

definition same_registration :: "lp_thread_timer \<Rightarrow> lp_thread_timer \<Rightarrow> bool" where
  "same_registration t t' \<longleftrightarrow>
     tt_signal_acquired t' = tt_signal_acquired t \<and> tt_signal_slot t' = tt_signal_slot t \<and>
     tt_active t' = tt_active t \<and> tt_timer_created t' = tt_timer_created t"

lemma world_ok_initial: "world_ok initial_world"
  by (simp add: world_ok_def initial_world_def LP_ACTIVE_TIMER_CAPACITY_def place_ok_def users_of_def)

lemma world_ok_put:
  assumes "world_ok w" and "tw_timers w p = Some t" and "same_registration t t'"
  shows "world_ok (put_timer p t' w)"
  using assms
  by (auto simp: world_ok_def put_timer_def timer_ok_def place_ok_def users_of_def same_registration_def)

lemma world_ok_registered:
  assumes "world_ok w" and "p \<in> set (tw_active_timers w)" and "p \<noteq> NULL"
  shows "\<exists>t. tw_timers w p = Some t \<and> tt_signal_acquired t"
  using assms by (force simp: world_ok_def place_ok_def in_set_conv_nth)

lemma world_ok_unregistered:
  assumes "world_ok w" and "tw_timers w p = None \<or> \<not> tt_signal_acquired (the (tw_timers w p))" and "p \<noteq> NULL"
  shows "p \<notin> set (tw_active_timers w)"
  using world_ok_registered [OF assms(1) _ assms(3)] assms(2) by auto

lemma same_registration_refl [simp]: "same_registration t t"
  by (simp add: same_registration_def)

lemma same_registration_trans:
  "same_registration t t' \<Longrightarrow> same_registration t' t'' \<Longrightarrow> same_registration t t''"
  by (simp add: same_registration_def)

lemma same_registration_overrun [simp]: "same_registration t (record_overrun info t)"
  by (simp add: same_registration_def record_overrun_def Let_def)

lemma same_registration_tick: "handle_tick info t = (t', request) \<Longrightarrow> same_registration t t'"
  using same_registration_overrun [of t info]
  by (auto elim!: tick_cases simp: same_registration_def add_unstable_def add_dropped_def)

lemma same_registration_discard [simp]: "same_registration t (discard_signal p info t)"
  using same_registration_overrun [of t info] by (auto simp: discard_signal_def same_registration_def add_dropped_def)

lemma same_registration_discards: "same_registration t (fold (discard_signal p) infos t)"
proof (induction infos arbitrary: t)
  case (Cons info infos)
  show ?case by (simp, rule same_registration_trans [OF same_registration_discard Cons.IH])
qed simp

lemma world_ok_timer: "world_ok w \<Longrightarrow> tw_timers w p = Some t \<Longrightarrow> timer_ok w p t \<and> p \<noteq> NULL"
  by (auto simp: world_ok_def)

text \<open>Taking a free place, and giving it back.\<close>

lemma free_place_Some:
  "free_place timers = Some i \<Longrightarrow> i < LP_ACTIVE_TIMER_CAPACITY \<and> timers ! i = NULL"
  by (auto simp: free_place_def find_Some_iff)

lemma free_place_None:
  "length timers = LP_ACTIVE_TIMER_CAPACITY \<Longrightarrow> free_place timers = None \<Longrightarrow> p \<in> set timers \<Longrightarrow> p \<noteq> NULL"
  by (auto simp: free_place_def find_None_iff in_set_conv_nth)

lemma length_filter_clear:
  "i < length ps \<Longrightarrow> ps ! i \<noteq> NULL \<Longrightarrow>
   Suc (length (filter (\<lambda>p. p \<noteq> NULL) (ps[i := NULL]))) = length (filter (\<lambda>p. p \<noteq> NULL) ps)"
  for ps :: "pointer list"
proof (induction ps arbitrary: i)
  case (Cons q ps)
  then show ?case by (cases i) auto
qed simp

lemma users_of_register:
  "length (tw_active_timers w) = LP_ACTIVE_TIMER_CAPACITY \<Longrightarrow> i < LP_ACTIVE_TIMER_CAPACITY \<Longrightarrow>
   tw_active_timers w ! i = NULL \<Longrightarrow> p \<noteq> NULL \<Longrightarrow> tw_active_timers w' = (tw_active_timers w)[i := p] \<Longrightarrow>
   users_of w' = Suc (users_of w)"
  by (simp add: users_of_def length_filter_update)

lemma users_bound: "length (tw_active_timers w) = LP_ACTIVE_TIMER_CAPACITY \<Longrightarrow> users_of w \<le> 64"
  using length_filter_le [of "\<lambda>p. p \<noteq> NULL" "tw_active_timers w"]
  by (simp add: users_of_def LP_ACTIVE_TIMER_CAPACITY_def)

text \<open>
  The world with \<open>p\<close> at place \<open>i\<close>, as an acquire leaves it, and the world a release leaves.
\<close>

definition registered_world :: "timer_world \<Rightarrow> pointer \<Rightarrow> nat \<Rightarrow> lp_thread_timer \<Rightarrow> timer_world" where
  "registered_world w p i t =
     put_timer p t (w\<lparr>tw_active_timers := (tw_active_timers w)[i := p],
                      tw_signal_users := tw_signal_users w + 1, tw_handler_installed := True\<rparr>)"

lemma world_ok_register:
  assumes ok: "world_ok w" and p: "tw_timers w p = Some t" "\<not> tt_signal_acquired t"
    and i: "i < LP_ACTIVE_TIMER_CAPACITY" "tw_active_timers w ! i = NULL"
    and t': "tt_signal_acquired t'" "tt_signal_slot t' = int i" "tt_active t'" "tt_timer_created t'"
  shows "world_ok (registered_world w p i t')"
proof -
  let ?w = "registered_world w p i t'"
  have len: "length (tw_active_timers w) = LP_ACTIVE_TIMER_CAPACITY" and "p \<noteq> NULL"
    using ok p by (auto simp: world_ok_def)
  have users: "users_of ?w = Suc (users_of w)"
    by (rule users_of_register [OF len i \<open>p \<noteq> NULL\<close>]) (simp add: registered_world_def put_timer_def)
  have "unat (tw_signal_users w + 1) = Suc (users_of w)"
    using ok users_bound [OF len] by (simp add: world_ok_def unat_word_ariths)
  moreover have "timer_ok ?w q s" if "tw_timers ?w q = Some s" for q s
  proof (cases "q = p")
    case True
    then show ?thesis using that i t' len
      by (auto simp: registered_world_def put_timer_def timer_ok_def)
  next
    case False
    then have q: "tw_timers w q = Some s" using that by (simp add: registered_world_def put_timer_def)
    then have "timer_ok w q s" "q \<noteq> NULL" using ok by (auto simp: world_ok_def)
    then show ?thesis using i len
      by (auto simp: timer_ok_def registered_world_def put_timer_def nth_list_update)
  qed
  moreover have "place_ok ?w j" if "j < LP_ACTIVE_TIMER_CAPACITY" for j
    using ok that p i t' len world_ok_unregistered [OF ok _ \<open>p \<noteq> NULL\<close>]
    by (auto simp: world_ok_def place_ok_def registered_world_def put_timer_def nth_list_update)
  ultimately show ?thesis
    using ok users len \<open>p \<noteq> NULL\<close>
    by (auto simp: world_ok_def registered_world_def put_timer_def unat_eq_0 [symmetric])
qed

text \<open>A release of a registered timer.\<close>

lemma world_ok_release:
  assumes ok: "world_ok w" and p: "tw_timers w p = Some t" "tt_signal_acquired t"
    and t': "\<not> tt_signal_acquired t'" "tt_signal_slot t' = tt_signal_slot t" "\<not> tt_active t'" "\<not> tt_timer_created t'"
  shows "world_ok (release_timer_signal p t' w)"
    and "release_timer_signal p t' w =
         put_timer p (t'\<lparr>tt_signal_slot := -1\<rparr>)
           (w\<lparr>tw_active_timers := (tw_active_timers w)[nat (tt_signal_slot t) := NULL],
              tw_signal_users := tw_signal_users w - 1,
              tw_handler_installed := (tw_signal_users w \<noteq> 1)\<rparr>)"
proof -
  obtain i where i: "i < LP_ACTIVE_TIMER_CAPACITY" "tt_signal_slot t = int i" "tw_active_timers w ! i = p"
    using world_ok_timer [OF ok p(1)] p(2) by (auto simp: timer_ok_def)
  have len: "length (tw_active_timers w) = LP_ACTIVE_TIMER_CAPACITY" and "p \<noteq> NULL"
    using ok p by (auto simp: world_ok_def)
  have "p \<in> set (tw_active_timers w)" using i len nth_mem [of i "tw_active_timers w"] by simp
  then have "users_of w \<noteq> 0" using \<open>p \<noteq> NULL\<close> by (auto simp: users_of_def filter_empty_conv)
  then have installed: "tw_handler_installed w" "tw_signal_users w \<noteq> 0"
    using ok unfolding world_ok_def by (metis unat_0)+
  let ?w = "release_timer_signal p t' w"
  have released: "?w = put_timer p (t'\<lparr>tt_signal_slot := -1\<rparr>)
           (w\<lparr>tw_active_timers := (tw_active_timers w)[nat (tt_signal_slot t) := NULL],
              tw_signal_users := tw_signal_users w - 1,
              tw_handler_installed := (tw_signal_users w \<noteq> 1)\<rparr>)"
    using i(2) installed by (simp add: release_timer_signal_def t' put_timer_def Let_def)
  then show "?w = put_timer p (t'\<lparr>tt_signal_slot := -1\<rparr>)
           (w\<lparr>tw_active_timers := (tw_active_timers w)[nat (tt_signal_slot t) := NULL],
              tw_signal_users := tw_signal_users w - 1,
              tw_handler_installed := (tw_signal_users w \<noteq> 1)\<rparr>)" .
  have users: "Suc (users_of ?w) = users_of w"
    using length_filter_clear [of i "tw_active_timers w"] i len \<open>p \<noteq> NULL\<close>
    by (simp add: users_of_def released put_timer_def)
  have "unat (tw_signal_users w - 1) = users_of ?w"
    using ok users installed(2) by (simp add: world_ok_def unat_sub unat_minus_one)
  moreover have "timer_ok ?w q s" if "tw_timers ?w q = Some s" for q s
  proof (cases "q = p")
    case True
    then show ?thesis using that t' by (auto simp: released put_timer_def timer_ok_def)
  next
    case False
    then have q: "tw_timers w q = Some s" using that by (simp add: released put_timer_def)
    then have "timer_ok w q s" using ok by (auto simp: world_ok_def)
    then show ?thesis using i len False by (auto simp: timer_ok_def released put_timer_def nth_list_update)
  qed
  moreover have "place_ok ?w j" if "j < LP_ACTIVE_TIMER_CAPACITY" for j
  proof (cases "j = i")
    case True
    then show ?thesis using i len by (simp add: place_ok_def released put_timer_def)
  next
    case False
    have "place_ok w j" using ok that by (auto simp: world_ok_def)
    then show ?thesis using False i p by (auto simp: place_ok_def released put_timer_def)
  qed
  moreover have "tw_handler_installed ?w \<longleftrightarrow> tw_signal_users ?w \<noteq> 0" by (simp add: released put_timer_def)
  moreover have "tw_timers ?w NULL = None" "length (tw_active_timers ?w) = LP_ACTIVE_TIMER_CAPACITY"
    "tw_signal_users ?w = tw_signal_users w - 1"
    using ok len \<open>p \<noteq> NULL\<close> by (simp_all add: released put_timer_def world_ok_def)
  ultimately show "world_ok ?w" by (simp add: world_ok_def)
qed

text \<open>An acquire of a timer that is not registered.\<close>

lemma acquire_cases:
  assumes ok: "world_ok w" and p: "tw_timers w p = Some t" "\<not> tt_signal_acquired t"
  obtains (failed) "acquire_timer_signal env p t w = (w, LP_ERR_HOST)"
  | (registered) i where "i < LP_ACTIVE_TIMER_CAPACITY" "tw_active_timers w ! i = NULL"
      "acquire_timer_signal env p t w = (registered_world w p i (t\<lparr>tt_signal_slot := int i\<rparr>), LP_OK)"
proof (cases "free_place (tw_active_timers w)")
  case None
  have len: "length (tw_active_timers w) = LP_ACTIVE_TIMER_CAPACITY" using ok by (simp add: world_ok_def)
  have "tt_signal_slot t = -1" using world_ok_timer [OF ok p(1)] p(2) by (simp add: timer_ok_def)
  then have "t\<lparr>tt_signal_slot := -1\<rparr> = t" by (cases t) simp
  then have put: "put_timer p (t\<lparr>tt_signal_slot := -1\<rparr>) w = w"
    using p by (cases w) (simp add: put_timer_def fun_upd_idem)
  have "users_of w = length (tw_active_timers w)"
    unfolding users_of_def using free_place_None [OF len None] by (auto intro: arg_cong [where f = length] filter_True)
  then have "tw_signal_users w \<noteq> 0" using ok len by (auto simp: world_ok_def LP_ACTIVE_TIMER_CAPACITY_def)
  then show thesis using failed None put by (simp add: acquire_timer_signal_def Let_def)
next
  case (Some i)
  note i = free_place_Some [OF this]
  show thesis
  proof (cases "tw_signal_users w = 0 \<and> \<not> (ae_signal_in_range env \<and> ae_action_is_default env \<and> ae_action_set env)")
    case True
    then show thesis using failed by (simp add: acquire_timer_signal_def Let_def)
  next
    case False
    have "tw_handler_installed w" if "tw_signal_users w \<noteq> 0" using ok that by (simp add: world_ok_def)
    then have "acquire_timer_signal env p t w = (registered_world w p i (t\<lparr>tt_signal_slot := int i\<rparr>), LP_OK)"
      using False Some
      by (cases w; cases "tw_signal_users w = 0")
        (auto simp: acquire_timer_signal_def Let_def put_timer_def registered_world_def)
    then show thesis using i registered by blast
  qed
qed

lemma put_timer_twice [simp]: "put_timer p t (put_timer p s w) = put_timer p t w"
  by (simp add: put_timer_def)

lemma put_timer_same: "tw_timers w p = Some t \<Longrightarrow> put_timer p t w = w"
  by (cases w) (simp add: put_timer_def fun_upd_idem)

text \<open>Releasing what was just registered restores the world.\<close>

lemma release_registered:
  assumes ok: "world_ok w" and p: "tw_timers w p = Some t" and i: "i < LP_ACTIVE_TIMER_CAPACITY" "tw_active_timers w ! i = NULL"
    and t': "tt_signal_slot t' = int i" "t'\<lparr>tt_signal_slot := -1\<rparr> = t"
  shows "release_timer_signal p t' (registered_world w p i s) = w"
proof -
  have "(tw_active_timers w)[i := NULL] = tw_active_timers w"
    using i(2) by (metis list_update_id)
  moreover have "(tw_signal_users w = 0) = (\<not> tw_handler_installed w)" using ok by (simp add: world_ok_def)
  ultimately show ?thesis
    using put_timer_same [OF p] t'
    by (cases w) (auto simp: release_timer_signal_def registered_world_def Let_def put_timer_def)
qed

lemma arm_cases:
  assumes ok: "world_ok w" and arm: "lp_thread_timer_arm env me p hz w = (w', status, period)"
  obtains (failed) "status \<noteq> LP_OK" "w' = w" "period = None"
  | (armed) t i where "status = LP_OK" "period = Some (timer_interval hz)" "hz \<noteq> 0"
      "tw_timers w p = Some t" "\<not> tt_signal_acquired t" "tw_thread_timer w me = NULL"
      "i < LP_ACTIVE_TIMER_CAPACITY" "tw_active_timers w ! i = NULL"
      "w' = (registered_world w p i (t\<lparr>tt_signal_slot := int i, tt_signal_acquired := True,
                tt_timer_created := True, tt_active := True\<rparr>))
              \<lparr>tw_thread_timer := (tw_thread_timer w)(me := p)\<rparr>"
proof (cases "tw_timers w p")
  case None
  then show thesis using arm failed by (simp add: lp_thread_timer_arm_def)
next
  case (Some t)
  show thesis
  proof (cases "hz = 0 \<or> tt_timer_created t \<or> tw_thread_timer w me \<noteq> NULL")
    case True
    then show thesis using arm failed Some by (auto simp: lp_thread_timer_arm_def split: if_splits)
  next
    case False
    have t: "timer_ok w p t" using world_ok_timer [OF ok Some] by simp
    then have na: "\<not> tt_signal_acquired t" "\<not> tt_active t" "tt_signal_slot t = -1" "\<not> tt_timer_created t"
      using False by (auto simp: timer_ok_def split: if_splits)
    show thesis
      using ok Some na(1)
    proof (cases rule: acquire_cases [where env = env])
      case failed
      then show thesis using arm Some False that(1) by (simp add: lp_thread_timer_arm_def)
    next
      case (registered i)
      let ?t = "t\<lparr>tt_signal_slot := int i, tt_signal_acquired := True\<rparr>"
      note restored = release_registered [OF ok Some registered(1,2)]
      have 1: "release_timer_signal p (?t\<lparr>tt_signal_acquired := False\<rparr>)
          (registered_world w p i (t\<lparr>tt_signal_slot := int i\<rparr>)) = w"
        by (rule restored) (insert na, (cases t, simp)+)
      have 2: "release_timer_signal p (?t\<lparr>tt_timer_created := False, tt_active := (if ae_timer_created env then False else tt_active ?t),
            tt_signal_acquired := False\<rparr>) (registered_world w p i (t\<lparr>tt_signal_slot := int i\<rparr>)) = w"
        by (rule restored) (insert na, (cases t, simp)+)
      have at: "tw_timers (registered_world w p i (t\<lparr>tt_signal_slot := int i\<rparr>)) p = Some (t\<lparr>tt_signal_slot := int i\<rparr>)"
        "put_timer p s (registered_world w p i (t\<lparr>tt_signal_slot := int i\<rparr>)) = registered_world w p i s"
        "tw_thread_timer (registered_world w p i s) = tw_thread_timer w" for s
        by (simp_all add: registered_world_def) (simp_all add: put_timer_def)
      show thesis
      proof (cases "ae_mask_set env \<and> \<not> ae_was_blocked env \<and> ae_timer_created env \<and> ae_timer_started env")
        case True
        then show thesis
          using arm Some False registered at that(2) [OF _ _ _ Some na(1) _ registered(1,2)]
          by (simp add: lp_thread_timer_arm_def)
      next
        case failing: False
        have "(w', status, period) = (w, LP_ERR_HOST, None)"
          using arm Some False registered at 1 2 failing
          by (cases "ae_mask_set env"; cases "ae_was_blocked env") (simp_all add: lp_thread_timer_arm_def Let_def)
        then show thesis using that(1) by simp
      qed
    qed
  qed
qed

lemma world_ok_thread [simp]: "world_ok (w\<lparr>tw_thread_timer := f\<rparr>) = world_ok w"
  by (simp add: world_ok_def timer_ok_def place_ok_def users_of_def)

lemma world_ok_arm:
  assumes "world_ok w" and "lp_thread_timer_arm env me p hz w = (w', status, period)"
  shows "world_ok w'"
  using assms
proof (cases rule: arm_cases)
  case (armed t i)
  then show ?thesis using world_ok_register [OF assms(1) armed(4,5,7,8)] by simp
qed (use assms in simp)

text \<open>A disarmed timer is neither registered nor active; only its counters have changed.\<close>

definition only_counters :: "lp_thread_timer \<Rightarrow> lp_thread_timer \<Rightarrow> bool" where
  "only_counters t t' \<longleftrightarrow>
     tt_ring t' = tt_ring t \<and> tt_slot_version t' = tt_slot_version t \<and> slot_event t' = slot_event t \<and>
     tt_draining_events t' = tt_draining_events t \<and> tt_unstable t' = tt_unstable t \<and>
     tt_profiler_overhead t' = tt_profiler_overhead t"

lemma only_counters_discards: "only_counters t (fold (discard_signal p) infos t)"
proof (induction infos arbitrary: t)
  case (Cons info infos)
  have "only_counters t (discard_signal p info t)"
    by (simp add: only_counters_def discard_signal_def record_overrun_def Let_def add_dropped_def slot_event_def)
  then show ?case using Cons [of "discard_signal p info t"] by (simp add: only_counters_def)
qed (simp add: only_counters_def)

definition not_acquired :: "timer_world \<Rightarrow> pointer \<Rightarrow> bool" where
  "not_acquired w p \<longleftrightarrow> (\<forall>t. tw_timers w p = Some t \<longrightarrow> \<not> tt_signal_acquired t)"

lemma disarm_cases:
  assumes ok: "world_ok w"
  obtains (unchanged) "lp_thread_timer_disarm env me p w = w"
      "not_acquired w p"
  | (disarmed) t t' where "tw_timers w p = Some t" "tt_signal_acquired t" "only_counters t t'"
      "\<not> tt_signal_acquired t'" "tt_signal_slot t' = -1" "\<not> tt_active t'" "\<not> tt_timer_created t'"
      "lp_thread_timer_disarm env me p w =
         put_timer p t' (w\<lparr>tw_active_timers := (tw_active_timers w)[nat (tt_signal_slot t) := NULL],
            tw_signal_users := tw_signal_users w - 1, tw_handler_installed := (tw_signal_users w \<noteq> 1),
            tw_thread_timer := (if tw_thread_timer w me = p then (tw_thread_timer w)(me := NULL)
                                else tw_thread_timer w)\<rparr>)"
      "world_ok (lp_thread_timer_disarm env me p w)"
proof (cases "not_acquired w p")
  case True
  then have id: "lp_thread_timer_disarm env me p w = w"
    by (simp add: lp_thread_timer_disarm_def not_acquired_def split: option.splits)
  show thesis using True by (rule unchanged [OF id])
next
  case False
  then obtain t where t: "tw_timers w p = Some t" "tt_signal_acquired t" by (auto simp: not_acquired_def)
  have created: "tt_timer_created t" using world_ok_timer [OF ok t(1)] t(2) by (simp add: timer_ok_def)
  define infos where "infos = (case de_first env of None \<Rightarrow> [] | Some info \<Rightarrow> [info])"
  define t1 where "t1 = fold (discard_signal p) infos (t\<lparr>tt_active := False\<rparr>)"
  define t2 where "t2 = (if de_stopped env then t1 else t1\<lparr>tt_timer_created := False\<rparr>)"
  define t3 where "t3 = fold (discard_signal p) (de_rest env) t2"
  define t4 where "t4 = (if tt_timer_created t3 then t3\<lparr>tt_timer_created := False\<rparr> else t3)\<lparr>tt_signal_acquired := False\<rparr>"
  define w1 where "w1 = (if tw_thread_timer w me = p then w\<lparr>tw_thread_timer := (tw_thread_timer w)(me := NULL)\<rparr> else w)"
  have disarm: "lp_thread_timer_disarm env me p w = release_timer_signal p t4 w1"
    using t created
    by (cases "de_first env"; cases "de_stopped env")
      (simp_all add: lp_thread_timer_disarm_def t4_def t3_def t2_def t1_def infos_def w1_def Let_def cong: if_cong split del: if_split)
  have "same_registration (t\<lparr>tt_active := False\<rparr>) t1" "same_registration t2 t3"
    by (simp_all add: t1_def t3_def same_registration_discards)
  then have reg: "\<not> tt_signal_acquired t4" "tt_signal_slot t4 = tt_signal_slot t" "\<not> tt_active t4" "\<not> tt_timer_created t4"
    by (auto simp: t4_def t2_def same_registration_def split: if_splits)
  have "only_counters (t\<lparr>tt_active := False\<rparr>) t1" "only_counters t2 t3"
    by (simp_all add: t1_def t3_def only_counters_discards)
  then have only: "only_counters t (t4\<lparr>tt_signal_slot := -1\<rparr>)"
    by (auto simp: t4_def t2_def only_counters_def slot_event_def)
  have w1: "world_ok w1" "tw_timers w1 p = Some t" using ok t by (simp_all add: w1_def)
  note rel = world_ok_release [OF w1 t(2) reg]
  show thesis
  proof (rule disarmed [OF t only])
    show "lp_thread_timer_disarm env me p w = put_timer p (t4\<lparr>tt_signal_slot := -1\<rparr>)
       (w\<lparr>tw_active_timers := (tw_active_timers w)[nat (tt_signal_slot t) := NULL],
          tw_signal_users := tw_signal_users w - 1, tw_handler_installed := (tw_signal_users w \<noteq> 1),
          tw_thread_timer := (if tw_thread_timer w me = p then (tw_thread_timer w)(me := NULL)
                              else tw_thread_timer w)\<rparr>)"
      unfolding disarm rel(2) by (simp add: w1_def put_timer_def)
  qed (use reg rel(1) disarm in simp_all)
qed

lemma world_ok_disarm: "world_ok w \<Longrightarrow> world_ok (lp_thread_timer_disarm env me p w)"
  by (cases rule: disarm_cases [of w env me p]) simp_all

text \<open>A timer that is not acquired can be freed.\<close>

lemma world_ok_forget:
  assumes ok: "world_ok w" and "not_acquired w p"
  shows "world_ok (w\<lparr>tw_timers := (tw_timers w)(p := None)\<rparr>)"
proof -
  have "place_ok (w\<lparr>tw_timers := (tw_timers w)(p := None)\<rparr>) i" if "i < LP_ACTIVE_TIMER_CAPACITY" for i
  proof -
    have "place_ok w i" using ok that by (simp add: world_ok_def)
    then show ?thesis using assms(2) by (auto simp: place_ok_def not_acquired_def)
  qed
  then show ?thesis using ok by (auto simp: world_ok_def timer_ok_def users_of_def)
qed

lemma disarmed_not_acquired:
  assumes "world_ok w"
  shows "not_acquired (lp_thread_timer_disarm env me p w) p"
  using assms by (cases rule: disarm_cases [of w env me p]) (simp_all add: put_timer_def not_acquired_def)

lemma world_ok_delete: "world_ok w \<Longrightarrow> world_ok (lp_thread_timer_delete env me p w)"
  using world_ok_forget [OF world_ok_disarm disarmed_not_acquired]
  by (simp add: lp_thread_timer_delete_def Let_def split: option.split)

lemma world_ok_handler:
  assumes "world_ok w"
  shows "\<exists>w' request. timer_signal_handler info w = Some (w', request) \<and> world_ok w'"
proof (cases "info = None \<or> \<not> si_timer (the info) \<or> si_value (the info) \<notin> set (tw_active_timers w) \<or> si_value (the info) = NULL")
  case True
  then show ?thesis using assms by (cases info) (auto simp: timer_signal_handler_def Let_def)
next
  case False
  then obtain i where i: "info = Some i" "si_value i \<in> set (tw_active_timers w)" "si_value i \<noteq> NULL" "si_timer i" by auto
  from world_ok_registered [OF assms i(2,3)] obtain t where t: "tw_timers w (si_value i) = Some t" by blast
  obtain t' request where h: "handle_tick i t = (t', request)" by fastforce
  show ?thesis
    using assms i t h world_ok_put [OF assms t same_registration_tick [OF h]]
    by (simp add: timer_signal_handler_def)
qed

section \<open>Histories of the timers of a process\<close>

text \<open>
  One call, or one signal. An address from the allocator is not in use. The owner's calls on
  a timer that does not exist are those with a null pointer; any other use of a freed pointer
  is outside the model, except in the handler, where it is the result \<open>None\<close>.
\<close>

datatype owner_call = Publish lp_tick_event | NextEvent | BeginDrain | EndDrain | TakeQuality

definition owner_apply :: "owner_call \<Rightarrow> lp_thread_timer \<Rightarrow> lp_thread_timer" where
  "owner_apply c t =
     (case c of
        Publish e \<Rightarrow> lp_thread_timer_publish_state t e
      | NextEvent \<Rightarrow> (case lp_thread_timer_next t of None \<Rightarrow> t | Some (e, t') \<Rightarrow> t')
      | BeginDrain \<Rightarrow> lp_thread_timer_begin_event_drain t
      | EndDrain \<Rightarrow> lp_thread_timer_end_event_drain t
      | TakeQuality \<Rightarrow> fst (lp_thread_timer_take_quality t))"

datatype timer_op =
    NewTimer pointer bool bool
  | ArmTimer arm_env nat pointer u32
  | DisarmTimer disarm_env nat pointer
  | DeleteTimer disarm_env nat pointer
  | OwnerCall owner_call pointer
  | Signal "siginfo option"

definition timer_op_step :: "timer_op \<Rightarrow> timer_world \<Rightarrow> timer_world option" where
  "timer_op_step op w =
     (case op of
        NewTimer p got_timer got_events \<Rightarrow>
          Some (if p = NULL \<or> tw_timers w p \<noteq> None then w
                else case lp_thread_timer_new got_timer got_events of None \<Rightarrow> w | Some t \<Rightarrow> put_timer p t w)
      | ArmTimer env me p hz \<Rightarrow> Some (fst (lp_thread_timer_arm env me p hz w))
      | DisarmTimer env me p \<Rightarrow> Some (lp_thread_timer_disarm env me p w)
      | DeleteTimer env me p \<Rightarrow> Some (lp_thread_timer_delete env me p w)
      | OwnerCall c p \<Rightarrow> Some (case tw_timers w p of None \<Rightarrow> w | Some t \<Rightarrow> put_timer p (owner_apply c t) w)
      | Signal info \<Rightarrow> map_option fst (timer_signal_handler info w))"

primrec timer_history :: "timer_op list \<Rightarrow> timer_world \<Rightarrow> timer_world option" where
  "timer_history [] w = Some w"
| "timer_history (op # ops) w = (case timer_op_step op w of None \<Rightarrow> None | Some w' \<Rightarrow> timer_history ops w')"

lemma same_registration_owner: "same_registration t (owner_apply c t)"
  by (auto simp: same_registration_def owner_apply_def lp_thread_timer_publish_state_def publish_defs drain_defs
      lp_thread_timer_take_quality_def lp_thread_timer_next_def split: owner_call.split option.splits)

lemma world_ok_new:
  assumes ok: "world_ok w" and "p \<noteq> NULL" and free: "tw_timers w p = None"
  shows "world_ok (put_timer p zero_thread_timer w)"
proof -
  have "place_ok (put_timer p zero_thread_timer w) i" if "i < LP_ACTIVE_TIMER_CAPACITY" for i
  proof -
    have "place_ok w i" using ok that by (simp add: world_ok_def)
    then show ?thesis using free by (auto simp: place_ok_def put_timer_def)
  qed
  then show ?thesis
    using assms by (auto simp: world_ok_def put_timer_def timer_ok_def users_of_def zero_thread_timer_def)
qed

lemma world_ok_op:
  assumes "world_ok w"
  shows "\<exists>w'. timer_op_step op w = Some w' \<and> world_ok w'"
proof (cases op)
  case (NewTimer p a b)
  then show ?thesis using assms world_ok_new [of w p] by (auto simp: timer_op_step_def lp_thread_timer_new_def)
next
  case (ArmTimer env me p hz)
  obtain w' s d where "lp_thread_timer_arm env me p hz w = (w', s, d)" by (rule prod_cases3)
  then show ?thesis using ArmTimer world_ok_arm [OF assms] by (simp add: timer_op_step_def)
next
  case (OwnerCall c p)
  then show ?thesis using assms world_ok_put [OF assms _ same_registration_owner]
    by (simp add: timer_op_step_def split: option.split)
next
  case (Signal info)
  then show ?thesis using world_ok_handler [OF assms, of info] by (auto simp: timer_op_step_def)
qed (use assms world_ok_disarm world_ok_delete in \<open>simp_all add: timer_op_step_def\<close>)

lemma world_ok_history:
  "world_ok w \<Longrightarrow> \<exists>w'. timer_history ops w = Some w' \<and> world_ok w'"
proof (induction ops arbitrary: w)
  case (Cons op ops)
  from world_ok_op [OF Cons.prems, of op] obtain w1 where "timer_op_step op w = Some w1" "world_ok w1" by blast
  with Cons.IH [of w1] show ?case by simp
qed simp

lemma history_world_ok: "timer_history ops initial_world = Some w \<Longrightarrow> world_ok w"
  using world_ok_history [OF world_ok_initial, of ops] by auto

lemma registered_are_active:
  assumes "world_ok w"
  shows "set (tw_active_timers w) - {NULL} = {p. \<exists>t. tw_timers w p = Some t \<and> tt_active t}"
proof (intro set_eqI iffI)
  fix p
  assume "p \<in> set (tw_active_timers w) - {NULL}"
  then obtain t where "tw_timers w p = Some t" "tt_signal_acquired t" using world_ok_registered [OF assms] by auto
  then show "p \<in> {p. \<exists>t. tw_timers w p = Some t \<and> tt_active t}"
    using world_ok_timer [OF assms] by (auto simp: timer_ok_def)
next
  fix p
  assume "p \<in> {p. \<exists>t. tw_timers w p = Some t \<and> tt_active t}"
  then obtain t where t: "tw_timers w p = Some t" "tt_active t" by auto
  then have "timer_ok w p t" "p \<noteq> NULL" using world_ok_timer [OF assms] by auto
  then obtain i where "i < LP_ACTIVE_TIMER_CAPACITY" "tw_active_timers w ! i = p"
    using t(2) by (auto simp: timer_ok_def split: if_splits)
  then show "p \<in> set (tw_active_timers w) - {NULL}"
    using assms \<open>p \<noteq> NULL\<close> nth_mem [of i "tw_active_timers w"] by (auto simp: world_ok_def)
qed

text \<open>
  C30: whatever calls and signals happen, the signal handler never reads a timer that was
  deleted; the registry holds exactly the active timers, the count of signal users is their
  number, and the signal action is installed exactly while there is one.
\<close>

theorem registry_holds_the_active_timers:
  "\<exists>w. timer_history ops initial_world = Some w \<and>
       set (tw_active_timers w) - {NULL} = {p. \<exists>t. tw_timers w p = Some t \<and> tt_active t} \<and>
       unat (tw_signal_users w) = length (filter (\<lambda>p. p \<noteq> NULL) (tw_active_timers w)) \<and>
       (tw_handler_installed w \<longleftrightarrow> tw_signal_users w \<noteq> 0)"
  using world_ok_history [OF world_ok_initial, of ops] registered_are_active
  by (auto simp: world_ok_def users_of_def)

text \<open>
  C39: an arm that fails, for whatever reason, leaves everything as it was: the registry, the
  signal action, the timer and the thread's active timer.
\<close>

theorem failed_arm_changes_nothing:
  assumes "timer_history ops initial_world = Some w"
    and "lp_thread_timer_arm env me p hz w = (w', status, period)" and "status \<noteq> LP_OK"
  shows "w' = w"
  using history_world_ok [OF assms(1)] assms(2)
  by (cases rule: arm_cases) (use assms(3) in simp_all)

text \<open>
  C40: after a timer was disarmed or deleted, a signal that names it has no effect: it neither
  changes anything nor requests a profile.
\<close>

theorem no_tick_after_disarm:
  assumes "timer_history ops initial_world = Some w" and "si_value info = p"
  shows "timer_signal_handler (Some info) (lp_thread_timer_disarm env me p w) =
           Some (lp_thread_timer_disarm env me p w, None) \<and>
         timer_signal_handler (Some info) (lp_thread_timer_delete env me p w) =
           Some (lp_thread_timer_delete env me p w, None) \<and>
         tw_timers (lp_thread_timer_delete env me p w) p = None"
proof -
  have gone: "timer_signal_handler (Some info) v = Some (v, None)" if v: "world_ok v" "not_acquired v p" for v
  proof (cases "p = NULL")
    case True
    then show ?thesis using assms(2) by (simp add: timer_signal_handler_def Let_def)
  next
    case False
    then have "p \<notin> set (tw_active_timers v)"
      using world_ok_registered [OF v(1)] v(2) by (auto simp: not_acquired_def)
    then show ?thesis using assms(2) by (simp add: timer_signal_handler_def Let_def)
  qed
  note ok = history_world_ok [OF assms(1)]
  have "tw_timers (lp_thread_timer_delete env me p w) p = None"
    by (simp add: lp_thread_timer_delete_def Let_def split: option.split)
  then show ?thesis
    using gone [OF world_ok_disarm disarmed_not_acquired] gone [OF world_ok_delete] ok
    by (auto simp: not_acquired_def)
qed

text \<open>
  A timer armed and then disarmed by its thread leaves the registry, the signal action,
  the thread's active timer and all other timers as they were before; the events it had in
  its ring stay there to be drained.
\<close>

theorem disarm_undoes_arm:
  assumes "timer_history ops initial_world = Some w"
    and "lp_thread_timer_arm env me p hz w = (w', LP_OK, period)"
  shows "\<exists>t t'. tw_timers w p = Some t \<and> tt_ring t' = tt_ring t \<and>
           lp_thread_timer_disarm env' me p w' = put_timer p t' w \<and> \<not> tt_active t' \<and> \<not> tt_signal_acquired t'"
proof -
  note ok = history_world_ok [OF assms(1)]
  show ?thesis
    using ok assms(2)
  proof (cases rule: arm_cases)
    case (armed t i)
    let ?t = "t\<lparr>tt_signal_slot := int i, tt_signal_acquired := True, tt_timer_created := True, tt_active := True\<rparr>"
    have at: "tw_timers w' p = Some ?t" by (simp add: armed(9) registered_world_def put_timer_def)
    have ok': "world_ok w'" by (rule world_ok_arm [OF ok assms(2)])
    show ?thesis
      using ok'
    proof (cases rule: disarm_cases [where env = env' and me = me and p = p])
      case (disarmed s t')
      have "(tw_active_timers w)[i := NULL] = tw_active_timers w" using armed(8) by (metis list_update_id)
      moreover have "tw_handler_installed w = (tw_signal_users w \<noteq> 0)" using ok by (simp add: world_ok_def)
      moreover have "(tw_thread_timer w)(me := NULL) = tw_thread_timer w" using armed(6) by (metis fun_upd_triv)
      ultimately have "lp_thread_timer_disarm env' me p w' = put_timer p t' w"
        using disarmed(1,8) at by (cases w) (auto simp: armed(9) registered_world_def put_timer_def)
      moreover have "tt_ring t' = tt_ring t" using disarmed(1,3) at by (auto simp: only_counters_def)
      ultimately show ?thesis using armed(4) disarmed(4,6) by blast
    qed (use at in \<open>simp add: not_acquired_def\<close>)
  qed simp
qed

text \<open>
  The period handed to the kernel is the whole number of nanoseconds of \<open>1 / sample_hz\<close>, a
  normalised time; it is zero, which for the kernel means a timer that never fires, exactly
  for a rate of zero or above one tick per nanosecond.
\<close>

theorem timer_interval_is_period:
  "unat (fst (timer_interval hz)) * 1000000000 + unat (snd (timer_interval hz)) = 1000000000 div unat hz \<and>
   unat (snd (timer_interval hz)) < 1000000000 \<and>
   (timer_interval hz = (0, 0) \<longleftrightarrow> hz = 0 \<or> 1000000000 < unat hz)"
proof -
  let ?n = "1000000000 div (ucast hz :: u64)"
  have small: "unat hz < 2 ^ LENGTH(32)" by (rule unsigned_less)
  then have up: "unat (ucast hz :: u64) = unat hz"
    by (simp add: unsigned_ucast_eq take_bit_nat_eq_self_iff unsigned_take_bit_eq)
  then have n: "unat ?n = 1000000000 div unat hz" by (simp add: unat_div up)
  have parts: "unat (fst (timer_interval hz)) = (1000000000 div unat hz) div 1000000000"
    "unat (snd (timer_interval hz)) = (1000000000 div unat hz) mod 1000000000"
    by (simp_all add: timer_interval_def Let_def unat_div unat_mod up)
  have "timer_interval hz = (0, 0) \<longleftrightarrow> unat (fst (timer_interval hz)) = 0 \<and> unat (snd (timer_interval hz)) = 0"
    unfolding unat_eq_0 by (cases "timer_interval hz") simp
  also have "\<dots> \<longleftrightarrow> 1000000000 div unat hz = 0" by (simp only: parts) (metis div_mult_mod_eq div_0 mod_0 mult_0 add_0)
  also have "\<dots> \<longleftrightarrow> hz = 0 \<or> 1000000000 < unat hz" by (auto simp: div_eq_0_iff unat_eq_0)
  finally show ?thesis by (simp add: parts)
qed

section \<open>Witnesses\<close>

definition example_arm :: arm_env where
  "example_arm = \<lparr>ae_signal_in_range = True, ae_action_is_default = True, ae_action_set = True,
     ae_mask_set = True, ae_was_blocked = False, ae_timer_created = True, ae_timer_started = True\<rparr>"

definition example_disarm :: disarm_env where
  "example_disarm = \<lparr>de_first = Some (example_info 4096), de_stopped = True, de_rest = []\<rparr>"

definition example_world :: timer_world where
  "example_world = put_timer 4096 zero_thread_timer initial_world"

definition example_armed :: timer_world where
  "example_armed = fst (lp_thread_timer_arm example_arm 0 4096 100 example_world)"

lemma example_world_history: "timer_history [NewTimer 4096 True True] initial_world = Some example_world"
  by (simp add: timer_op_step_def lp_thread_timer_new_def example_world_def initial_world_def)

lemma example_free_place: "free_place (replicate LP_ACTIVE_TIMER_CAPACITY NULL) = Some 0"
  by (simp add: free_place_def LP_ACTIVE_TIMER_CAPACITY_def upt_rec)

lemma example_arm_ok:
  "lp_thread_timer_arm example_arm 0 4096 100 example_world = (example_armed, LP_OK, Some (timer_interval 100))"
proof -
  have "snd (lp_thread_timer_arm example_arm 0 4096 100 example_world) = (LP_OK, Some (timer_interval 100))"
    by (simp add: lp_thread_timer_arm_def example_world_def put_timer_def initial_world_def zero_thread_timer_def
        acquire_timer_signal_def example_arm_def Let_def example_free_place)
  then show ?thesis by (simp add: example_armed_def prod_eq_iff)
qed

lemma example_armed_history:
  "timer_history [NewTimer 4096 True True, ArmTimer example_arm 0 4096 100] initial_world = Some example_armed"
proof -
  have "timer_op_step (NewTimer 4096 True True) initial_world = Some example_world"
    using example_world_history by (simp split: option.splits)
  then show ?thesis by (simp add: timer_op_step_def example_arm_ok)
qed

lemma failed_arm_changes_nothing_witness:
  "snd (lp_thread_timer_arm (example_arm\<lparr>ae_timer_started := False\<rparr>) 0 4096 100 example_world) = (LP_ERR_HOST, None) \<and>
   fst (lp_thread_timer_arm (example_arm\<lparr>ae_timer_started := False\<rparr>) 0 4096 100 example_world) = example_world"
proof -
  let ?arm = "lp_thread_timer_arm (example_arm\<lparr>ae_timer_started := False\<rparr>) 0 4096 100 example_world"
  have s: "snd ?arm = (LP_ERR_HOST, None)"
    by (simp add: lp_thread_timer_arm_def example_world_def put_timer_def initial_world_def zero_thread_timer_def
        acquire_timer_signal_def example_arm_def Let_def example_free_place)
  then have "?arm = (fst ?arm, LP_ERR_HOST, None)" by (metis prod.collapse)
  from failed_arm_changes_nothing [OF example_world_history this] s show ?thesis by simp
qed

lemma no_tick_after_disarm_witness:
  "tw_signal_users example_armed = 1 \<and>
   timer_signal_handler (Some (example_info 4096)) (lp_thread_timer_disarm example_disarm 0 4096 example_armed) =
     Some (lp_thread_timer_disarm example_disarm 0 4096 example_armed, None)"
proof -
  have "tw_signal_users example_armed = 1"
    by (simp add: example_armed_def lp_thread_timer_arm_def example_world_def put_timer_def initial_world_def
        zero_thread_timer_def acquire_timer_signal_def example_arm_def Let_def example_free_place)
  then show ?thesis
    using no_tick_after_disarm [OF example_armed_history, of "example_info 4096" 4096 example_disarm 0]
    by (simp add: example_info_def)
qed

lemma disarm_undoes_arm_witness:
  "\<exists>t'. tt_ring t' = new_ring zero_tick_event \<and>
        lp_thread_timer_disarm example_disarm 0 4096 example_armed = put_timer 4096 t' example_world"
  using disarm_undoes_arm [OF example_world_history example_arm_ok, of example_disarm]
  by (auto simp: example_world_def put_timer_def zero_thread_timer_def)

end
