(* ===== verification/Pprof_Samples.thy ===== *)
theory Pprof_Samples
  imports Pprof_Model
begin

text \<open>
  What the exporter makes of one CPU sample of \<open>src/pprof_exporter.c\<close>: the stack it derives from
  the captured frames, stated without the loop of \<open>captured_start\<close>, and the two conversions
  of values to \<open>int64_t\<close>.
\<close>

unbundle bit_operations_syntax

section \<open>Stacks\<close>












section \<open>Values\<close>

lemma sint_below: "uint w < 2 ^ 63 \<Longrightarrow> sint w = uint w" for w :: u64
  unfolding sint_uint
  by (rule signed_take_bit_int_eq_self) (use unsigned_greater_eq [of w] in \<open>auto intro: order.trans [rotated]\<close>)

text \<open>
  Exported values saturate. An unsigned count is exported as itself or, above the largest
  \<open>int64_t\<close>, as that; and so is the product of weight and period: no value is negative, and no
  product wraps.
\<close>

theorem exported_values_saturate:
  "sint (clamp_i64 v) = min 9223372036854775807 (uint v) \<and>
   sint (multiply_i64 a b) = min 9223372036854775807 (uint a * uint b)"
proof
  have max: "sint (0x7fffffffffffffff :: u64) = 9223372036854775807" by simp
  show "sint (clamp_i64 v) = min 9223372036854775807 (uint v)"
    using sint_below [of v] by (auto simp: clamp_i64_def word_less_def)
  show "sint (multiply_i64 a b) = min 9223372036854775807 (uint a * uint b)"
  proof (cases "a = 0")
    case True
    then show ?thesis by (simp add: multiply_i64_def)
  next
    case False
    then have a: "0 < unat a" by (simp add: unat_gt_0 word_greater_zero_iff)
    have prod: "uint a * uint b = int (unat a * unat b)" by simp
    have "b > i64_max div a \<longleftrightarrow> 9223372036854775807 div unat a < unat b"
      by (simp add: word_less_nat_alt unat_div)
    also have "\<dots> \<longleftrightarrow> 9223372036854775807 < unat a * unat b"
      using a by (simp add: div_less_iff_less_mult mult.commute)
    also have "\<dots> \<longleftrightarrow> 9223372036854775807 < uint a * uint b"
      unfolding prod by linarith
    finally have c: "b > i64_max div a \<longleftrightarrow> 9223372036854775807 < uint a * uint b" .
    show ?thesis
    proof (cases "b > i64_max div a")
      case True
      then show ?thesis using c False max by (simp add: multiply_i64_def)
    next
      case small: False
      then have p: "uint a * uint b < 2 ^ 63" using c by simp
      then have "uint (a * b) = uint a * uint b" by (simp add: uint_word_ariths)
      then show ?thesis using small False p c sint_below [of "a * b"] by (simp add: multiply_i64_def)
    qed
  qed
qed

end
