(* ===== verification/Pprof_Valid.thy ===== *)
theory Pprof_Valid
  imports Pprof_Progress
begin

text \<open>
  The rules that a reader of \<open>profile.proto\<close> checks before it uses a profile (every reference has
  its target, ids are distinct and not zero, samples have one value per sample type), and the proof
  that what \<open>src/pprof_exporter.c\<close> encodes satisfies them.
\<close>

section \<open>A well-formed profile\<close>

definition ids_ok :: "u64 list \<Rightarrow> bool" where
  "ids_ok ids \<longleftrightarrow> 0 \<notin> set ids \<and> distinct ids"

definition text_ok :: "pprof \<Rightarrow> u64 \<Rightarrow> bool" where
  "text_ok p text \<longleftrightarrow> unat text < length (pp_strings p)"

fun sample_ok :: "pprof \<Rightarrow> pprof_sample \<Rightarrow> bool" where
  "sample_ok p (locations, values) \<longleftrightarrow>
     length values = length (pp_sample_types p) \<and> set locations \<subseteq> set (map fst (pp_locations p))"

fun location_valid :: "pprof \<Rightarrow> pprof_location \<Rightarrow> bool" where
  "location_valid p (_, mapping, _, lines) \<longleftrightarrow>
     mapping \<in> set (map ep_id (pp_mappings p)) \<and> lines \<noteq> [] \<and> set (map fst lines) \<subseteq> set (map fst (pp_functions p))"

fun function_valid :: "pprof \<Rightarrow> pprof_function \<Rightarrow> bool" where
  "function_valid p (_, name, system_name, filename, _) \<longleftrightarrow> text_ok p name \<and> text_ok p system_name \<and> text_ok p filename"

definition valid_pprof :: "pprof \<Rightarrow> bool" where
  "valid_pprof p \<longleftrightarrow>
     pp_strings p \<noteq> [] \<and> hd (pp_strings p) = [] \<and>
     list_all (\<lambda>(type, unit). text_ok p type \<and> text_ok p unit) (pp_sample_types p @ pp_period_types p) \<and>
     pp_default_sample_type p \<in> set (map fst (pp_sample_types p)) \<and>
     list_all (text_ok p) (pp_comments p) \<and>
     list_all (sample_ok p) (pp_samples p) \<and>
     ids_ok (map ep_id (pp_mappings p)) \<and> list_all (\<lambda>m. text_ok p (ep_filename m)) (pp_mappings p) \<and>
     ids_ok (map fst (pp_locations p)) \<and> list_all (location_valid p) (pp_locations p) \<and>
     ids_ok (map fst (pp_functions p)) \<and> list_all (function_valid p) (pp_functions p)"

lemma counted_ids_ok:
  assumes "\<forall>i<length xs. xs ! i = of_nat (i + 1)" and "length xs < 1000000000"
  shows "ids_ok xs"
proof -
  have u: "unat (xs ! i) = i + 1" if "i < length xs" for i
    using assms that by (simp add: unat_of_nat take_bit_nat_eq_self_iff del: of_nat_Suc of_nat_add)
  have "xs ! i \<noteq> 0" if "i < length xs" for i using u [OF that] by (metis Suc_eq_plus1 nat.distinct(1) unat_0)
  moreover have "xs ! i \<noteq> xs ! j" if "i < length xs" "j < length xs" "i \<noteq> j" for i j
    using u [OF that(1)] u [OF that(2)] that(3) by auto
  ultimately show ?thesis unfolding ids_ok_def distinct_conv_nth by (metis in_set_conv_nth)
qed

lemma unit_index_text:
  assumes "unit_index m i \<noteq> None" and "length (em_strings m) \<le> u64_max"
  shows "unat (the (unit_index m i)) < length (em_strings m)"
proof -
  obtain j where j: "first_index (\<lambda>s. c_text s = c_text (em_sample_units m ! i)) (em_strings m) = Some j"
    using assms(1) by (auto simp: unit_index_def)
  then have "j < length (em_strings m)" using first_index_Some by blast
  then show ?thesis using j assms(2) by (simp add: unit_index_def unat_of_nat take_bit_nat_eq_self_iff)
qed

lemma tables_ok_lengths:
  assumes "tables_ok env m"
  shows "length (em_locations m) \<le> 262144" "length (em_functions m) \<le> 262144" "length (em_mappings m) \<le> 262145"
    "length (em_strings m) \<le> u64_max"
  using assms length_filter_le [of "\<lambda>s. s \<noteq> 0" "em_location_hash m"] length_filter_le [of "\<lambda>s. s \<noteq> 0" "em_function_hash m"]
  by (auto simp: tables_ok_def index_table_ok_def FUNCTION_HASH_BITS_def LOCATION_HASH_BITS_def strings_ok_def)

lemma tables_ids:
  assumes "tables_ok env m"
  shows "ids_ok (map ep_id (em_mappings m))" "ids_ok (map el_id (em_locations m))" "ids_ok (map ef_id (em_functions m))"
  using assms tables_ok_lengths [OF assms]
  by (auto intro!: counted_ids_ok simp: tables_ok_def mappings_ok_def locations_ok_def functions_ok_def
      simp del: of_nat_Suc of_nat_add)

text \<open>References inside the tables.\<close>

lemma table_references:
  assumes ok: "tables_ok env m"
  shows "\<forall>l\<in>set (em_locations m). unat (el_function_index l) < length (em_functions m) \<and>
      unat (el_mapping_index l) < length (em_mappings m)"
    and "\<forall>f\<in>set (em_functions m). unat (ef_name f) < length (em_strings m) \<and> unat (ef_filename f) < length (em_strings m)"
    and "\<forall>p\<in>set (em_mappings m). unat (ep_filename p) < length (em_strings m)"
proof -
  have f: "\<forall>i<length (em_functions m). function_ok env m (em_functions m ! i)"
    and l: "\<forall>i<length (em_locations m). location_ok m (em_locations m ! i)"
    and p: "mappings_ok m"
    using ok by (simp_all add: tables_ok_def functions_ok_def locations_ok_def)
  show "\<forall>l\<in>set (em_locations m). unat (el_function_index l) < length (em_functions m) \<and>
      unat (el_mapping_index l) < length (em_mappings m)"
    using l f by (fastforce simp: in_set_conv_nth location_ok_def function_ok_def mapping_for_def Let_def)
  show "\<forall>f\<in>set (em_functions m). unat (ef_name f) < length (em_strings m) \<and> unat (ef_filename f) < length (em_strings m)"
    using f by (fastforce simp: in_set_conv_nth function_ok_def string_at_def)
  show "\<forall>p\<in>set (em_mappings m). unat (ep_filename p) < length (em_strings m)"
    using p by (auto simp: in_set_conv_nth mappings_ok_def)
qed

lemma denoted_location:
  assumes "tables_ok env m" and d: "denotes m loc d"
  shows "loc \<in> set (map el_id (em_locations m))"
proof -
  have "loc \<noteq> 0" and len: "unat loc \<le> length (em_locations m)" using d by (simp_all add: denotes_def)
  then have i: "unat loc - 1 < length (em_locations m)" 
    using unat_eq_0 [of loc] by linarith
  then have "el_id (em_locations m ! (unat loc - 1)) = loc"
    using assms(1) of_nat_unat_pred [OF \<open>loc \<noteq> 0\<close>] unfolding tables_ok_def locations_ok_def by metis
  then show ?thesis using i by (metis length_map nth_map nth_mem)
qed

lemma samples_valid:
  assumes ok: "tables_ok env m" and den: "list_all2 (sample_denotes m) (em_samples m) specs"
    and four: "\<forall>spec\<in>set specs. length (snd spec) = 4" and count: "em_value_count m \<le> 4"
  shows "list_all (sample_ok (pprof_of m)) (pp_samples (pprof_of m))"
proof -
  have "sample_ok (pprof_of m) (take (es_depth s) (es_locations s), take (em_value_count m) (es_values s))"
    if s: "s \<in> set (em_samples m)" for s
  proof -
    obtain spec where spec: "sample_denotes m s spec" "spec \<in> set specs"
      using den s by (metis in_set_conv_nth list_all2_conv_all_nth)
    then have l: "list_all2 (denotes m) (es_locations s) (fst spec)"
      "es_values s = take (em_value_count m) (snd spec) @ replicate (4 - em_value_count m) 0"
      by (simp_all add: sample_denotes_def)
    have "set (es_locations s) \<subseteq> set (map el_id (em_locations m))"
      using l(1) denoted_location [OF ok] by (metis in_set_conv_nth list_all2_conv_all_nth subsetI)
    then have "set (take (es_depth s) (es_locations s)) \<subseteq> set (map fst (pp_locations (pprof_of m)))"
      using set_take_subset [of "es_depth s" "es_locations s"] by (auto simp: pprof_of_def image_image)
    moreover have "length (es_values s) = 4" using l(2) four spec(2) count by simp
    ultimately show ?thesis using count by (simp add: pprof_of_def)
  qed
  then show ?thesis by (simp add: pprof_of_def list_all_iff)
qed

lemma result_spec_values: "\<forall>spec\<in>set (result_spec res). length (snd spec) = 4"
  by (auto simp: result_spec_def cpu_spec_def memory_spec_def split: option.splits)

lemma pprof_of_valid:
  assumes init: "model_init env memory res sample_type symbols = (True, model)"
  shows "valid_pprof (pprof_of model)"
proof -
  note rep = export_model_represents_result [OF init]
  have ok: "tables_ok env model" and hdr: "header_ok res model"
    and den: "list_all2 (sample_denotes model) (em_samples model) (result_spec res)"
    and count: "em_value_count model \<le> 4"
    using rep result_names_length [of res] by (simp_all add: samples_denote_def header_ok_def)
  note refs = table_references [OF ok]
  have locations: "list_all (location_valid (pprof_of model)) (pp_locations (pprof_of model))"
    using refs(1) by (auto simp: pprof_of_def list_all_iff)
  have funcs: "list_all (function_valid (pprof_of model)) (pp_functions (pprof_of model))"
    using refs(2) by (auto simp: pprof_of_def list_all_iff text_ok_def)
  have mappings: "list_all (\<lambda>m. text_ok (pprof_of model) (ep_filename m)) (pp_mappings (pprof_of model))"
    using refs(3) by (auto simp: pprof_of_def list_all_iff text_ok_def)
  have ids: "ids_ok (map ep_id (pp_mappings (pprof_of model)))" "ids_ok (map fst (pp_locations (pprof_of model)))"
    "ids_ok (map fst (pp_functions (pprof_of model)))"
    using tables_ids [OF ok] by (simp_all add: pprof_of_def o_def)
  have types: "list_all (\<lambda>(type, unit). text_ok (pprof_of model) type \<and> text_ok (pprof_of model) unit)
      (pp_sample_types (pprof_of model) @ pp_period_types (pprof_of model))"
    using hdr unit_index_text [OF model_units [OF hdr] tables_ok_lengths(4) [OF ok]]
    by (auto simp: pprof_of_def list_all_iff text_ok_def header_ok_def string_at_def)
  have metric: "pp_default_sample_type (pprof_of model) \<in> set (map fst (pp_sample_types (pprof_of model)))"
    using hdr by (auto simp: pprof_of_def header_ok_def)
  have comments: "list_all (text_ok (pprof_of model)) (pp_comments (pprof_of model))"
    using hdr by (auto simp: pprof_of_def header_ok_def comments_ok_def list_all_iff text_ok_def)
  have empty: "pp_strings (pprof_of model) \<noteq> [] \<and> hd (pp_strings (pprof_of model)) = []"
    using hdr by (cases "em_strings model") (auto simp: pprof_of_def header_ok_def string_at_def)
  show ?thesis
    unfolding valid_pprof_def
    using locations funcs mappings ids types metric comments empty
      samples_valid [OF ok den result_spec_values count] by blast
qed

text \<open>
  C22: the exported profile is well-formed. When \<open>model_init\<close> and \<open>encode_profile\<close> both succeed,
  the bytes decode to a profile that passes all checks of a reader: the first string is empty,
  every index of a text is inside the string table, mapping, location and function ids are
  distinct and not zero, every reference to one of them has its target, each location has a line,
  each sample has one value per sample type, and the default metric is one of the sample types.
\<close>

theorem exported_profile_is_valid:
  assumes "model_init env memory res sample_type symbols = (True, model)"
    and "encode_profile model (zero_buffer, memory1) = (True, (profile, memory2))"
  shows "\<exists>p. decode_profile (buf_data profile) = Some p \<and> valid_pprof p"
  using encode_profile_data [OF assms(2)] decode_profile_fields pprof_of_valid [OF assms(1)] by simp

lemma exported_profile_is_valid_witness:
  "\<exists>model profile p. model_init example_native [] example_result (Some (ascii ''samples'')) None = (True, model) \<and>
    encode_profile model (zero_buffer, []) = (True, (profile, [])) \<and>
    decode_profile (buf_data profile) = Some p \<and> valid_pprof p"
proof -
  obtain model profile where m: "model_init example_native [] example_result (Some (ascii ''samples'')) None = (True, model)"
    "encode_profile model (zero_buffer, []) = (True, (profile, []))"
    using export_succeeds [of example_result "Some (ascii ''samples'')" example_native None] example_result_sound by blast
  show ?thesis using m exported_profile_is_valid [OF m] by blast
qed

end
