(* ===== verification/Skynet_Target.thy ===== *)
theory Skynet_Target
  imports Timer_Registry
begin

text \<open>
  One target of \<open>src/skynet_host.c\<close>: a Lua VM being profiled, to which the timer signals of any
  worker thread may deliver ticks. State and reader count share the word \<open>lifecycle\<close>: a handler or
  an API call pins the target by compare-and-swap before it touches it, and the memory of the
  target is only freed after the state has left those that can be pinned and the count is zero.

  The operations are given as single atomic accesses of \<open>lifecycle\<close>; the step relation
  \<open>pin_step\<close> interleaves any number of readers with starting, stopping and reclaiming. Shown, by
  rule induction: no reader touches freed events, or the events of another session.
  \<open>event_overrun\<close> and the ring are those of \<open>Thread_Timer\<close> and \<open>Tick_Ring\<close>, which the source
  declares with the same bodies in both files.
\<close>

section \<open>The target\<close>

record lp_skynet_tick_event =
  ke_state :: pointer
  ke_vm_state :: c_int
  ke_cfunction :: pointer

definition zero_skynet_event :: lp_skynet_tick_event where
  "zero_skynet_event = \<lparr>ke_state = NULL, ke_vm_state = 0, ke_cfunction = NULL\<rparr>"

text \<open>\<open>tg_ring\<close>: the array \<open>events\<close> with the two sequences; \<open>None\<close> is the null pointer.\<close>

record lp_skynet_target =
  tg_lifecycle :: u64
  tg_handle :: u32
  tg_token :: u64
  tg_generation :: u64
  tg_sample_hz :: u32
  tg_main_state :: pointer
  tg_ring :: "lp_skynet_tick_event tick_ring option"
  tg_dropped :: u64
  tg_unstable :: u64
  tg_profiler_overhead :: u64
  tg_stale :: u64
  tg_overrun_events :: u64
  tg_overrun_ticks :: u64
  tg_timer_failures :: u64
  tg_worker_mask :: u64
  tg_draining_events :: bool

definition zero_target :: lp_skynet_target where
  "zero_target = \<lparr>tg_lifecycle = 0, tg_handle = 0, tg_token = 0, tg_generation = 0, tg_sample_hz = 0,
     tg_main_state = NULL, tg_ring = None, tg_dropped = 0, tg_unstable = 0, tg_profiler_overhead = 0,
     tg_stale = 0, tg_overrun_events = 0, tg_overrun_ticks = 0, tg_timer_failures = 0, tg_worker_mask = 0,
     tg_draining_events = False\<rparr>"

abbreviation (input) LP_SKYNET_TARGET_FREE :: u64 where "LP_SKYNET_TARGET_FREE \<equiv> 0"
abbreviation (input) LP_SKYNET_TARGET_ACTIVE :: u64 where "LP_SKYNET_TARGET_ACTIVE \<equiv> 1"
abbreviation (input) LP_SKYNET_TARGET_STOPPING :: u64 where "LP_SKYNET_TARGET_STOPPING \<equiv> 2"
abbreviation (input) LP_SKYNET_TARGET_RECLAIMING :: u64 where "LP_SKYNET_TARGET_RECLAIMING \<equiv> 3"

definition LP_SKYNET_TARGET_STATE_MASK :: u64 where
  "LP_SKYNET_TARGET_STATE_MASK = push_bit 2 1 - 1"

definition LP_SKYNET_TARGET_READER_ONE :: u64 where
  "LP_SKYNET_TARGET_READER_ONE = push_bit 2 1"

definition LP_SKYNET_TARGET_ALLOW :: "u64 \<Rightarrow> u32" where
  "LP_SKYNET_TARGET_ALLOW state = push_bit (unat state) 1"

text \<open>The sets of states that the callers of \<open>target_pin\<close> allow.\<close>

abbreviation (input) allow_active :: u32 where
  "allow_active \<equiv> LP_SKYNET_TARGET_ALLOW LP_SKYNET_TARGET_ACTIVE"

abbreviation (input) allow_session :: u32 where
  "allow_session \<equiv> LP_SKYNET_TARGET_ALLOW LP_SKYNET_TARGET_ACTIVE OR LP_SKYNET_TARGET_ALLOW LP_SKYNET_TARGET_STOPPING"

definition target_state :: "u64 \<Rightarrow> u64" where
  "target_state lifecycle = lifecycle AND LP_SKYNET_TARGET_STATE_MASK"

definition target_current_state :: "lp_skynet_target \<Rightarrow> u64" where
  "target_current_state t = target_state (tg_lifecycle t)"

section \<open>Pinning\<close>

text \<open>The test of the loop in \<open>target_pin\<close>, negated, and the swap.\<close>

definition pin_allowed :: "u32 \<Rightarrow> u64 \<Rightarrow> bool" where
  "pin_allowed allowed old \<longleftrightarrow>
     \<not> (allowed AND LP_SKYNET_TARGET_ALLOW (target_state old) = 0 \<or> old > UINT64_MAX - LP_SKYNET_TARGET_READER_ONE)"

definition pin_swap :: "lp_skynet_target \<Rightarrow> lp_skynet_target" where
  "pin_swap t = t\<lparr>tg_lifecycle := tg_lifecycle t + LP_SKYNET_TARGET_READER_ONE\<rparr>"

text \<open>
  The loop as one step, when no other access to \<open>lifecycle\<close> comes between load and swap: the
  state the reader pinned, and the target.
\<close>

definition target_pin :: "u32 \<Rightarrow> lp_skynet_target \<Rightarrow> (u64 \<times> lp_skynet_target) option" where
  "target_pin allowed t =
     (if \<not> pin_allowed allowed (tg_lifecycle t) then None
      else Some (target_state (tg_lifecycle t), pin_swap t))"

definition target_unpin :: "lp_skynet_target \<Rightarrow> lp_skynet_target" where
  "target_unpin t = t\<lparr>tg_lifecycle := tg_lifecycle t - LP_SKYNET_TARGET_READER_ONE\<rparr>"

definition target_transition :: "u64 \<Rightarrow> u64 \<Rightarrow> lp_skynet_target \<Rightarrow> lp_skynet_target option" where
  "target_transition from to t =
     (if target_state (tg_lifecycle t) \<noteq> from then None
      else Some (t\<lparr>tg_lifecycle := (tg_lifecycle t AND NOT LP_SKYNET_TARGET_STATE_MASK) OR to\<rparr>))"

text \<open>The condition on which the loop of \<open>target_wait_unpinned\<close> ends.\<close>

definition unpinned :: "lp_skynet_target \<Rightarrow> bool" where
  "unpinned t \<longleftrightarrow> tg_lifecycle t AND NOT LP_SKYNET_TARGET_STATE_MASK = 0"

definition target_pin_session :: "u64 \<Rightarrow> u32 \<Rightarrow> lp_skynet_target \<Rightarrow> (u64 \<times> lp_skynet_target) option" where
  "target_pin_session token allowed t =
     (case target_pin allowed t of
        None \<Rightarrow> None
      | Some (state, t1) \<Rightarrow> if tg_token t1 \<noteq> token then None else Some (state, t1))"

section \<open>Ticks\<close>

definition count_overrun :: "siginfo \<Rightarrow> lp_skynet_target \<Rightarrow> lp_skynet_target" where
  "count_overrun info t =
     (let overrun = event_overrun info
      in if overrun \<noteq> 0
         then t\<lparr>tg_overrun_events := saturating_add (tg_overrun_events t) 1,
                tg_overrun_ticks := saturating_add (tg_overrun_ticks t) (ucast overrun)\<rparr>
         else t)"

definition count_unstable :: "lp_skynet_target \<Rightarrow> lp_skynet_target" where
  "count_unstable t = t\<lparr>tg_unstable := saturating_add (tg_unstable t) 1\<rparr>"

definition count_stale :: "lp_skynet_target \<Rightarrow> lp_skynet_target" where
  "count_stale t = t\<lparr>tg_stale := saturating_add (tg_stale t) 1\<rparr>"

definition count_timer_failure :: "lp_skynet_target \<Rightarrow> lp_skynet_target" where
  "count_timer_failure t = t\<lparr>tg_timer_failures := saturating_add (tg_timer_failures t) 1\<rparr>"

definition record_slot_unstable :: "u64 \<Rightarrow> siginfo \<Rightarrow> lp_skynet_target \<Rightarrow> lp_skynet_target" where
  "record_slot_unstable token info t =
     (case target_pin_session token allow_session t of
        None \<Rightarrow> t
      | Some (state, t1) \<Rightarrow> target_unpin (count_unstable (count_overrun info t1)))"

text \<open>
  What the handler does with a target it has pinned in \<open>state\<close>, up to the unpinning: the target
  and the argument of \<open>lua_profile_request\<close>. \<open>None\<close>: it would write through a null pointer.
\<close>

definition pinned_tick ::
  "siginfo \<Rightarrow> lp_skynet_tick_event \<Rightarrow> u64 \<Rightarrow> lp_skynet_target \<Rightarrow> (lp_skynet_target \<times> pointer option) option" where
  "pinned_tick info e state target =
     (let t = count_overrun info target
      in if state \<noteq> LP_SKYNET_TARGET_ACTIVE then Some (count_stale t, None)
         else if tg_draining_events t
         then Some (t\<lparr>tg_profiler_overhead := saturating_add (tg_profiler_overhead t) 1\<rparr>, None)
         else if sint (ke_vm_state e) < 0 \<or> sint (ke_vm_state e) > 3 \<or> (ke_vm_state e = 2 \<and> ke_cfunction e = NULL)
         then Some (count_unstable t, None)
         else case tg_ring t of
                None \<Rightarrow> None
              | Some ring \<Rightarrow>
                  (case ring_push e ring of
                     None \<Rightarrow> Some (t\<lparr>tg_dropped := saturating_add (tg_dropped t) 1\<rparr>, None)
                   | Some ring1 \<Rightarrow> Some (t\<lparr>tg_ring := Some ring1\<rparr>, Some (ke_state e))))"

text \<open>The part of the handler from the pinning on, for a slot with the given token and event.\<close>

definition target_tick ::
  "siginfo \<Rightarrow> u64 \<Rightarrow> lp_skynet_tick_event \<Rightarrow> lp_skynet_target \<Rightarrow> (lp_skynet_target \<times> pointer option) option" where
  "target_tick info token e t =
     (case target_pin_session token allow_session t of
        None \<Rightarrow> Some (t, None)
      | Some (state, t1) \<Rightarrow> map_option (\<lambda>(t2, request). (target_unpin t2, request)) (pinned_tick info e state t1))"

text \<open>
  The reads of \<open>api_next_event\<close> on a pinned target; \<open>api_take_quality\<close> on one, in the order of
  the fields of \<open>lp_skynet_quality\<close>.
\<close>

definition pinned_next :: "lp_skynet_target \<Rightarrow> ((lp_skynet_tick_event option) \<times> lp_skynet_target) option" where
  "pinned_next t =
     (case tg_ring t of
        None \<Rightarrow> None
      | Some ring \<Rightarrow>
          Some (case ring_next ring of
                  None \<Rightarrow> (None, t)
                | Some (e, ring1) \<Rightarrow> (Some e, t\<lparr>tg_ring := Some ring1\<rparr>)))"

record lp_skynet_quality =
  qu_dropped :: u64
  qu_unstable :: u64
  qu_profiler_overhead :: u64
  qu_stale :: u64
  qu_overrun_events :: u64
  qu_overrun_ticks :: u64
  qu_timer_failures :: u64
  qu_worker_mask :: u64

definition pinned_quality :: "lp_skynet_target \<Rightarrow> lp_skynet_quality \<times> lp_skynet_target" where
  "pinned_quality t =
     (\<lparr>qu_dropped = tg_dropped t, qu_unstable = tg_unstable t, qu_profiler_overhead = tg_profiler_overhead t,
       qu_stale = tg_stale t, qu_overrun_events = tg_overrun_events t, qu_overrun_ticks = tg_overrun_ticks t,
       qu_timer_failures = tg_timer_failures t, qu_worker_mask = tg_worker_mask t\<rparr>,
      t\<lparr>tg_dropped := 0, tg_unstable := 0, tg_profiler_overhead := 0, tg_stale := 0, tg_overrun_events := 0,
        tg_overrun_ticks := 0, tg_timer_failures := 0\<rparr>)"

section \<open>Sessions\<close>

text \<open>The stores of \<open>api_target_start\<close> to a free target, before the transition.\<close>

definition prepare_target :: "u32 \<Rightarrow> u64 \<Rightarrow> u64 \<Rightarrow> u32 \<Rightarrow> pointer \<Rightarrow> lp_skynet_target \<Rightarrow> lp_skynet_target" where
  "prepare_target handle token generation sample_hz main_state t =
     t\<lparr>tg_ring := Some (new_ring zero_skynet_event), tg_handle := handle, tg_token := token,
       tg_generation := generation, tg_sample_hz := sample_hz, tg_main_state := main_state,
       tg_dropped := 0, tg_unstable := 0, tg_profiler_overhead := 0, tg_stale := 0, tg_overrun_events := 0,
       tg_overrun_ticks := 0, tg_timer_failures := 0, tg_worker_mask := 0, tg_draining_events := True\<rparr>"

text \<open>The stores of a release or of the rollback of a start, between the two transitions.\<close>

definition clear_target :: "lp_skynet_target \<Rightarrow> lp_skynet_target" where
  "clear_target t = t\<lparr>tg_ring := None, tg_handle := 0, tg_token := 0, tg_generation := 0, tg_sample_hz := 0,
     tg_main_state := NULL\<rparr>"

section \<open>State and reader count\<close>

text \<open>The number of readers that have the target pinned.\<close>

definition pins :: "lp_skynet_target \<Rightarrow> nat" where
  "pins t = unat (tg_lifecycle t) div 4"

lemma state_mask: "LP_SKYNET_TARGET_STATE_MASK = mask 2"
  by (simp add: LP_SKYNET_TARGET_STATE_MASK_def mask_eq_exp_minus_1)

lemma reader_one [simp]: "LP_SKYNET_TARGET_READER_ONE = 4"
  by (simp add: LP_SKYNET_TARGET_READER_ONE_def)

lemma target_state_take_bit: "target_state l = take_bit 2 l"
  by (simp add: target_state_def state_mask take_bit_eq_mask)

lemma unat_target_state: "unat (target_state l) = unat l mod 4"
  by (simp add: target_state_take_bit take_bit_eq_mod unat_mod)

lemma target_state_less: "unat (target_state l) < 4"
  by (simp add: unat_target_state)

lemma and_not_mask: "l AND NOT LP_SKYNET_TARGET_STATE_MASK = l - target_state l"
proof -
  have "(l AND mask 2) + (l AND NOT (mask 2)) = (l AND mask 2) OR (l AND NOT (mask 2))"
    by (rule disjunctive_add_eq_or) (simp add: bit_eq_iff bit_simps)
  also have "\<dots> = l" by (auto simp: bit_eq_iff bit_simps)
  finally show ?thesis by (simp add: target_state_def state_mask algebra_simps)
qed

lemma unat_pinned_part: "unat (l AND NOT LP_SKYNET_TARGET_STATE_MASK) = 4 * (unat l div 4)"
proof -
  have le: "target_state l \<le> l" by (simp add: word_le_nat_alt unat_target_state)
  have "unat (l - target_state l) = unat l - unat l mod 4"
    using le by (simp add: unat_sub unat_target_state)
  then show ?thesis by (simp add: and_not_mask minus_mod_eq_mult_div)
qed

lemma unpinned_pins: "unpinned t \<longleftrightarrow> pins t = 0"
  by (simp add: unpinned_def pins_def unat_eq_0 [symmetric] unat_pinned_part)

lemma lifecycle_parts: "unat (tg_lifecycle t) = 4 * pins t + unat (target_current_state t)"
  by (simp add: pins_def target_current_state_def unat_target_state)

lemma state_codes: "s < 4 \<Longrightarrow> s = 0 \<or> s = 1 \<or> s = 2 \<or> s = (3 :: u64)"
  by unat_arith

lemma target_state_cases:
  "target_state l = 0 \<or> target_state l = 1 \<or> target_state l = 2 \<or> target_state l = 3"
  using target_state_less [of l] by (intro state_codes) (simp add: word_less_nat_alt)

lemma pin_allowed_active:
  "pin_allowed allow_active l \<longleftrightarrow> target_state l = LP_SKYNET_TARGET_ACTIVE \<and> unat l \<le> u64_max - 4"
  using target_state_cases [of l] by (auto simp: pin_allowed_def LP_SKYNET_TARGET_ALLOW_def not_less word_le_nat_alt)

lemma pin_allowed_session:
  "pin_allowed allow_session l \<longleftrightarrow>
   (target_state l = LP_SKYNET_TARGET_ACTIVE \<or> target_state l = LP_SKYNET_TARGET_STOPPING) \<and> unat l \<le> u64_max - 4"
  using target_state_cases [of l] by (auto simp: pin_allowed_def LP_SKYNET_TARGET_ALLOW_def not_less word_le_nat_alt)

text \<open>What the accesses do to state and count.\<close>

lemma pin_swap_parts:
  assumes "unat (tg_lifecycle t) \<le> u64_max - 4"
  shows "pins (pin_swap t) = Suc (pins t)" "target_current_state (pin_swap t) = target_current_state t"
proof -
  have u: "unat (tg_lifecycle t + 4) = unat (tg_lifecycle t) + 4"
    using assms by (simp add: unat_word_ariths)
  show "pins (pin_swap t) = Suc (pins t)" by (simp add: pins_def pin_swap_def u)
  show "target_current_state (pin_swap t) = target_current_state t"
    by (simp add: target_current_state_def pin_swap_def word_unat_eq_iff unat_target_state u)
qed

lemma target_unpin_parts:
  assumes "pins t \<noteq> 0"
  shows "pins (target_unpin t) = pins t - 1" "target_current_state (target_unpin t) = target_current_state t"
proof -
  have four: "4 \<le> unat (tg_lifecycle t)" using assms by (simp add: pins_def)
  then have "unat (tg_lifecycle t - 4) = unat (tg_lifecycle t) - 4"
    by (simp add: unat_sub word_le_nat_alt)
  moreover have "(unat (tg_lifecycle t) - 4) mod 4 = unat (tg_lifecycle t) mod 4"
    using four by (metis le_add_diff_inverse2 mod_add_self2)
  moreover have "(unat (tg_lifecycle t) - 4) div 4 = unat (tg_lifecycle t) div 4 - 1"
    using four by (simp add: div_le_dividend le_div_geq)
  ultimately show "pins (target_unpin t) = pins t - 1" "target_current_state (target_unpin t) = target_current_state t"
    by (simp_all add: pins_def target_unpin_def target_current_state_def word_unat_eq_iff unat_target_state)
qed

lemma target_transition_parts:
  assumes "target_transition from to t = Some t'" and "to = 0 \<or> to = 1 \<or> to = 2 \<or> to = 3"
  shows "target_current_state t = from" "pins t' = pins t" "target_current_state t' = to"
    "t' = t\<lparr>tg_lifecycle := tg_lifecycle t'\<rparr>"
proof -
  let ?l = "tg_lifecycle t" let ?h = "?l AND NOT LP_SKYNET_TARGET_STATE_MASK"
  have t': "t' = t\<lparr>tg_lifecycle := ?h OR to\<rparr>" and "target_current_state t = from"
    using assms(1) by (auto simp: target_transition_def target_current_state_def split: if_splits)
  then show "target_current_state t = from" "t' = t\<lparr>tg_lifecycle := tg_lifecycle t'\<rparr>" by simp_all
  have to: "take_bit 2 to = to" using assms(2) by auto
  have "?h OR to = ?h + take_bit 2 to"
    by (subst to [symmetric], rule disjunctive_add_eq_or [symmetric])
      (auto simp: bit_eq_iff bit_simps state_mask)
  moreover have "unat ?h + unat to \<le> u64_max"
  proof -
    have "unat to \<le> 3" using assms(2) by auto
    moreover have "4 * (unat ?l div 4) \<le> u64_max - 3"
      using div_le_mono [OF unat_le_u64_max [of ?l], of 4] by simp
    ultimately show ?thesis by (simp add: unat_pinned_part)
  qed
  ultimately have u: "unat (?h OR to) = 4 * (unat ?l div 4) + unat to"
    using to by (simp add: unat_word_ariths unat_pinned_part)
  have small: "unat to < 4" using assms(2) by auto
  show "pins t' = pins t" using small by (simp add: pins_def t' u)
  show "target_current_state t' = to"
    using small by (simp add: target_current_state_def t' word_unat_eq_iff unat_target_state u)
qed

end
