(* ===== verification/Skynet_Pins.thy ===== *)
theory Skynet_Pins
  imports Skynet_Target
begin

text \<open>
  The life of one target of \<open>src/skynet_host.c\<close> under concurrent access: any number of readers
  (signal handlers and API calls on any thread) pin and unpin it in single atomic accesses to
  \<open>lifecycle\<close>, while \<open>api_target_start\<close>, \<open>api_target_quiesce\<close>, \<open>api_target_release\<close> and
  \<open>rollback_target_start\<close>, which hold \<open>host_lock\<close>, start, stop and reclaim it.

  Shown, by rule induction over the steps: a reader that holds a pin finds the events of its own
  session, from a reclaimed target nobody reads, and after a quiesce has returned nobody can add
  an event any more.
\<close>

section \<open>Readers and control\<close>

text \<open>What a reader compares after pinning: the token, the handle, or nothing.\<close>

datatype pin_check = By_Token u64 | By_Handle u32 | Unchecked

fun check_ok :: "pin_check \<Rightarrow> lp_skynet_target \<Rightarrow> bool" where
  "check_ok (By_Token token) t \<longleftrightarrow> tg_token t = token"
| "check_ok (By_Handle handle) t \<longleftrightarrow> tg_handle t = handle"
| "check_ok Unchecked t \<longleftrightarrow> True"

text \<open>
  A reader after it has loaded \<open>lifecycle\<close>, after its swap (with the state it pinned), and
  after the comparison has succeeded.
\<close>

datatype reader_place =
    Idle
  | Loaded pin_check u32 u64
  | Pinned pin_check u64
  | Using pin_check u64

datatype control_place = Resting | Prepared | Reclaiming | Cleared

text \<open>\<open>pr_waiting\<close>: a quiesce waits; \<open>pr_drained\<close>: one has returned since the last start.\<close>

record pin_run =
  pr_target :: lp_skynet_target
  pr_readers :: "nat \<Rightarrow> reader_place"
  pr_control :: control_place
  pr_waiting :: bool
  pr_drained :: bool

definition start_pins :: pin_run where
  "start_pins = \<lparr>pr_target = zero_target, pr_readers = (\<lambda>_. Idle), pr_control = Resting,
     pr_waiting = False, pr_drained = False\<rparr>"

abbreviation (input) put_reader :: "nat \<Rightarrow> reader_place \<Rightarrow> pin_run \<Rightarrow> pin_run" where
  "put_reader k place r \<equiv> r\<lparr>pr_readers := (pr_readers r)(k := place)\<rparr>"

inductive pin_step :: "pin_run \<Rightarrow> pin_run \<Rightarrow> bool" where
  load: "pr_readers r k = Idle \<Longrightarrow> allowed = allow_active \<or> allowed = allow_session \<Longrightarrow>
    pin_step r (put_reader k (Loaded check allowed (tg_lifecycle (pr_target r))) r)"
| give_up: "pr_readers r k = Loaded check allowed old \<Longrightarrow> \<not> pin_allowed allowed old \<Longrightarrow>
    pin_step r (put_reader k Idle r)"
| retry: "pr_readers r k = Loaded check allowed old \<Longrightarrow> pin_allowed allowed old \<Longrightarrow>
    pin_step r (put_reader k (Loaded check allowed (tg_lifecycle (pr_target r))) r)"
| swap: "pr_readers r k = Loaded check allowed old \<Longrightarrow> pin_allowed allowed old \<Longrightarrow>
    tg_lifecycle (pr_target r) = old \<Longrightarrow>
    pin_step r (put_reader k (Pinned check (target_state old)) (r\<lparr>pr_target := pin_swap (pr_target r)\<rparr>))"
| reject: "pr_readers r k = Pinned check state \<Longrightarrow> \<not> check_ok check (pr_target r) \<Longrightarrow>
    pin_step r (put_reader k Idle (r\<lparr>pr_target := target_unpin (pr_target r)\<rparr>))"
| accept: "pr_readers r k = Pinned check state \<Longrightarrow> check_ok check (pr_target r) \<Longrightarrow>
    pin_step r (put_reader k (Using check state) r)"
| tick: "pr_readers r k = Using check state \<Longrightarrow> pinned_tick info e state (pr_target r) = Some (t, request) \<Longrightarrow>
    pin_step r (r\<lparr>pr_target := t\<rparr>)"
| unstable: "pr_readers r k = Using check state \<Longrightarrow>
    pin_step r (r\<lparr>pr_target := count_unstable (count_overrun info (pr_target r))\<rparr>)"
| stale: "pr_readers r k = Using check state \<Longrightarrow>
    pin_step r (r\<lparr>pr_target := count_stale (count_overrun info (pr_target r))\<rparr>)"
| failure: "pr_readers r k = Using check state \<Longrightarrow>
    pin_step r (r\<lparr>pr_target := count_timer_failure (pr_target r)\<rparr>)"
| take_event: "pr_readers r k = Using check state \<Longrightarrow> pinned_next (pr_target r) = Some (e, t) \<Longrightarrow>
    pin_step r (r\<lparr>pr_target := t\<rparr>)"
| take_quality: "pr_readers r k = Using check state \<Longrightarrow>
    pin_step r (r\<lparr>pr_target := snd (pinned_quality (pr_target r))\<rparr>)"
| drain: "pr_readers r k = Using check state \<Longrightarrow>
    pin_step r (r\<lparr>pr_target := (pr_target r)\<lparr>tg_draining_events := draining\<rparr>\<rparr>)"
| worker: "pr_readers r k = Using check state \<Longrightarrow>
    pin_step r (r\<lparr>pr_target := (pr_target r)\<lparr>tg_worker_mask := worker_mask\<rparr>\<rparr>)"
| unpin: "pr_readers r k = Using check state \<Longrightarrow>
    pin_step r (put_reader k Idle (r\<lparr>pr_target := target_unpin (pr_target r)\<rparr>))"
| start1: "pr_control r = Resting \<Longrightarrow> tg_lifecycle (pr_target r) = LP_SKYNET_TARGET_FREE \<Longrightarrow>
    pin_step r (r\<lparr>pr_target := prepare_target handle token generation sample_hz main_state (pr_target r),
                  pr_control := Prepared, pr_drained := False\<rparr>)"
| start2: "pr_control r = Prepared \<Longrightarrow>
    target_transition LP_SKYNET_TARGET_FREE LP_SKYNET_TARGET_ACTIVE (pr_target r) = Some t \<Longrightarrow>
    pin_step r (r\<lparr>pr_target := t, pr_control := Resting\<rparr>)"
| quiesce1: "pr_control r = Resting \<Longrightarrow>
    target_transition LP_SKYNET_TARGET_ACTIVE LP_SKYNET_TARGET_STOPPING (pr_target r) = Some t \<Longrightarrow>
    pin_step r (r\<lparr>pr_target := t, pr_waiting := True\<rparr>)"
| quiesce2: "pr_waiting r \<Longrightarrow> unpinned (pr_target r) \<Longrightarrow>
    pin_step r (r\<lparr>pr_waiting := False,
                  pr_drained := (target_current_state (pr_target r) = LP_SKYNET_TARGET_STOPPING \<or> pr_drained r)\<rparr>)"
| release: "pr_control r = Resting \<Longrightarrow>
    target_transition LP_SKYNET_TARGET_STOPPING LP_SKYNET_TARGET_RECLAIMING (pr_target r) = Some t \<Longrightarrow>
    pin_step r (r\<lparr>pr_target := t, pr_control := Reclaiming\<rparr>)"
| rollback: "pr_control r = Resting \<Longrightarrow>
    target_transition LP_SKYNET_TARGET_ACTIVE LP_SKYNET_TARGET_RECLAIMING (pr_target r) = Some t \<Longrightarrow>
    pin_step r (r\<lparr>pr_target := t, pr_control := Reclaiming\<rparr>)"
| reclaim: "pr_control r = Reclaiming \<Longrightarrow> unpinned (pr_target r) \<Longrightarrow>
    pin_step r (r\<lparr>pr_target := clear_target (pr_target r), pr_control := Cleared\<rparr>)"
| free: "pr_control r = Cleared \<Longrightarrow>
    target_transition LP_SKYNET_TARGET_RECLAIMING LP_SKYNET_TARGET_FREE (pr_target r) = Some t \<Longrightarrow>
    pin_step r (r\<lparr>pr_target := t, pr_control := Resting\<rparr>)"

section \<open>The invariant\<close>

fun holds :: "reader_place \<Rightarrow> u64 \<Rightarrow> bool" where
  "holds (Pinned check state) s \<longleftrightarrow> s = state"
| "holds (Using check state) s \<longleftrightarrow> s = state"
| "holds _ s \<longleftrightarrow> False"

definition holders :: "pin_run \<Rightarrow> nat set" where
  "holders r = {k. \<exists>s. holds (pr_readers r k) s}"

definition live :: "pin_run \<Rightarrow> bool" where
  "live r \<longleftrightarrow>
     target_current_state (pr_target r) = LP_SKYNET_TARGET_ACTIVE \<or>
     target_current_state (pr_target r) = LP_SKYNET_TARGET_STOPPING \<or> pr_control r = Reclaiming"

definition control_ok :: "pin_run \<Rightarrow> bool" where
  "control_ok r \<longleftrightarrow>
     (pr_control r = Resting \<longrightarrow> target_current_state (pr_target r) \<noteq> LP_SKYNET_TARGET_RECLAIMING) \<and>
     (pr_control r = Prepared \<longrightarrow> target_current_state (pr_target r) = LP_SKYNET_TARGET_FREE \<and> \<not> pr_drained r) \<and>
     (pr_control r = Reclaiming \<or> pr_control r = Cleared \<longrightarrow>
        target_current_state (pr_target r) = LP_SKYNET_TARGET_RECLAIMING)"

definition reader_sound :: "pin_run \<Rightarrow> reader_place \<Rightarrow> bool" where
  "reader_sound r place \<longleftrightarrow>
     (case place of
        Idle \<Rightarrow> True
      | Loaded check allowed old \<Rightarrow> allowed = allow_active \<or> allowed = allow_session
      | Pinned check state \<Rightarrow> \<not> (pr_drained r \<and> state = LP_SKYNET_TARGET_ACTIVE)
      | Using check state \<Rightarrow> check_ok check (pr_target r) \<and> \<not> (pr_drained r \<and> state = LP_SKYNET_TARGET_ACTIVE))"

definition pins_ok :: "pin_run \<Rightarrow> bool" where
  "pins_ok r \<longleftrightarrow>
     finite (holders r) \<and> pins (pr_target r) = card (holders r) \<and>
     control_ok r \<and>
     (if live r then \<exists>ring. tg_ring (pr_target r) = Some ring \<and> ring_ok ring else holders r = {}) \<and>
     (pr_control r = Prepared \<longrightarrow> (\<exists>ring. tg_ring (pr_target r) = Some ring \<and> ring_ok ring)) \<and>
     (pr_drained r \<longrightarrow> target_current_state (pr_target r) \<noteq> LP_SKYNET_TARGET_ACTIVE) \<and>
     (\<forall>k. reader_sound r (pr_readers r k))"

lemma pins_ok_start: "pins_ok start_pins"
  by (simp add: pins_ok_def start_pins_def holders_def pins_def zero_target_def control_ok_def live_def
      target_current_state_def target_state_def reader_sound_def)

section \<open>Preservation\<close>

lemma holders_put:
  "holders (put_reader k place r) = (if \<exists>s. holds place s then insert k (holders r) else holders r - {k})"
  by (auto simp: holders_def split: if_splits)

lemma holders_target [simp]: "holders (r\<lparr>pr_target := t\<rparr>) = holders r"
  by (simp add: holders_def)

lemma using_holds: "pr_readers r k = Using check state \<Longrightarrow> k \<in> holders r"
  "pr_readers r k = Pinned check state \<Longrightarrow> k \<in> holders r"
  by (auto simp: holders_def)

lemma live_if_held: "pins_ok r \<Longrightarrow> k \<in> holders r \<Longrightarrow> live r"
  by (auto simp: pins_ok_def split: if_splits)

text \<open>What the uses of a pinned target keep of it.\<close>

definition same_session :: "lp_skynet_target \<Rightarrow> lp_skynet_target \<Rightarrow> bool" where
  "same_session t t' \<longleftrightarrow>
     tg_lifecycle t' = tg_lifecycle t \<and> tg_handle t' = tg_handle t \<and> tg_token t' = tg_token t \<and>
     ((\<exists>ring. tg_ring t = Some ring \<and> ring_ok ring) \<longrightarrow> (\<exists>ring. tg_ring t' = Some ring \<and> ring_ok ring))"

lemma same_session_check: "same_session t t' \<Longrightarrow> check_ok check t' = check_ok check t"
  by (cases check) (auto simp: same_session_def)

lemma same_session_counts [simp]:
  "same_session t (count_unstable t)" "same_session t (count_stale t)" "same_session t (count_timer_failure t)"
  "same_session t (count_overrun info t)" "same_session t (t\<lparr>tg_draining_events := b\<rparr>)"
  "same_session t (t\<lparr>tg_worker_mask := m\<rparr>)" "same_session t (snd (pinned_quality t))"
  "same_session t (t\<lparr>tg_profiler_overhead := x\<rparr>)" "same_session t (t\<lparr>tg_dropped := x\<rparr>)"
  by (simp_all add: same_session_def count_unstable_def count_stale_def count_timer_failure_def count_overrun_def
      pinned_quality_def Let_def)

lemma same_session_trans: "same_session a b \<Longrightarrow> same_session b c \<Longrightarrow> same_session a c"
  by (simp add: same_session_def)

lemma same_session_ring:
  "ring_ok ring \<Longrightarrow> same_session t (t\<lparr>tg_ring := Some ring\<rparr>)"
  by (simp add: same_session_def)

lemma same_session_tick:
  assumes "pinned_tick info e state t = Some (t', request)" and ring: "tg_ring t = Some ring" "ring_ok ring"
  shows "same_session t t'"
proof -
  let ?t = "count_overrun info t"
  have r: "tg_ring ?t = Some ring" using ring by (simp add: count_overrun_def Let_def)
  have "same_session ?t t'"
    using assms(1) r ring_push_contents [OF ring(2), of e] same_session_ring
    by (auto simp: pinned_tick_def Let_def split: if_splits option.splits)
  then show ?thesis by (rule same_session_trans [OF same_session_counts(4)])
qed

lemma same_session_next:
  assumes "pinned_next t = Some (e, t')" and ring: "tg_ring t = Some ring" "ring_ok ring"
  shows "same_session t t'"
  using assms ring_next_contents [OF ring(2)] same_session_ring
  by (auto simp: pinned_next_def same_session_def split: option.splits)

lemma live_ring:
  assumes "pins_ok r" and "k \<in> holders r"
  obtains ring where "tg_ring (pr_target r) = Some ring" "ring_ok ring"
  using assms live_if_held [OF assms] by (auto simp: pins_ok_def)

lemma pins_ok_use:
  assumes ok: "pins_ok r" and k: "k \<in> holders r" and same: "same_session (pr_target r) t"
  shows "pins_ok (r\<lparr>pr_target := t\<rparr>)"
proof -
  have l: "tg_lifecycle t = tg_lifecycle (pr_target r)" using same by (simp add: same_session_def)
  then have [simp]: "pins t = pins (pr_target r)" "target_current_state t = target_current_state (pr_target r)"
    by (simp_all add: pins_def target_current_state_def)
  have "reader_sound (r\<lparr>pr_target := t\<rparr>) place = reader_sound r place" for place
    using same_session_check [OF same] by (cases place) (simp_all add: reader_sound_def)
  moreover have "live r" by (rule live_if_held [OF ok k])
  moreover have "\<exists>ring. tg_ring t = Some ring \<and> ring_ok ring"
    using live_ring [OF ok k] same by (auto simp: same_session_def)
  ultimately show ?thesis using ok by (simp add: pins_ok_def control_ok_def live_def)
qed

lemma pins_ok_move:
  assumes ok: "pins_ok r" and "\<forall>s. holds place s = holds (pr_readers r k) s" and "reader_sound r place"
  shows "pins_ok (put_reader k place r)"
proof -
  have "holders (put_reader k place r) = holders r"
    using assms(2) by (auto simp: holders_def)
  moreover have "reader_sound (put_reader k place r) p = reader_sound r p" for p
    by (cases p) (simp_all add: reader_sound_def)
  ultimately show ?thesis using ok assms(3) by (simp add: pins_ok_def control_ok_def live_def)
qed

lemma check_ok_lifecycle [simp]: "check_ok check (t\<lparr>tg_lifecycle := l\<rparr>) = check_ok check t"
  by (cases check) simp_all

lemma pins_ok_unpin:
  assumes ok: "pins_ok r" and k: "k \<in> holders r"
  shows "pins_ok (put_reader k Idle (r\<lparr>pr_target := target_unpin (pr_target r)\<rparr>))"
proof -
  let ?t = "target_unpin (pr_target r)" let ?r = "put_reader k Idle (r\<lparr>pr_target := ?t\<rparr>)"
  have fin: "finite (holders r)" and card: "pins (pr_target r) = card (holders r)" using ok by (simp_all add: pins_ok_def)
  have "card (holders r) \<noteq> 0" using fin k by auto
  then have t: "pins ?t = card (holders r) - 1" "target_current_state ?t = target_current_state (pr_target r)"
    using target_unpin_parts [of "pr_target r"] card by simp_all
  have holders: "holders ?r = holders r - {k}" by (auto simp: holders_def)
  have sound: "reader_sound ?r p = reader_sound r p" for p
    by (cases p) (simp_all add: reader_sound_def target_unpin_def)
  have "live ?r \<longleftrightarrow> live r" by (simp add: live_def t)
  then have "live ?r" using live_if_held [OF ok k] by simp
  moreover have "reader_sound ?r (pr_readers ?r j)" for j
  proof (cases "j = k")
    case True
    then show ?thesis by (simp add: reader_sound_def)
  next
    case False
    then show ?thesis using ok unfolding sound by (simp add: pins_ok_def)
  qed
  moreover have "tg_ring ?t = tg_ring (pr_target r)" by (simp add: target_unpin_def)
  ultimately show ?thesis
    using ok fin k live_if_held [OF ok k] holders t by (simp add: pins_ok_def control_ok_def)
qed

lemma pins_ok_swap:
  assumes ok: "pins_ok r" and k: "pr_readers r k = Loaded check allowed old" and allowed: "pin_allowed allowed old"
    and old: "tg_lifecycle (pr_target r) = old"
  shows "pins_ok (put_reader k (Pinned check (target_state old)) (r\<lparr>pr_target := pin_swap (pr_target r)\<rparr>))"
proof -
  let ?t = "pin_swap (pr_target r)" let ?r = "put_reader k (Pinned check (target_state old)) (r\<lparr>pr_target := ?t\<rparr>)"
  have "allowed = allow_active \<or> allowed = allow_session"
  proof -
    have "reader_sound r (pr_readers r k)" using ok by (simp add: pins_ok_def)
    then show ?thesis by (simp add: k reader_sound_def)
  qed
  then have st: "target_state old = LP_SKYNET_TARGET_ACTIVE \<or> target_state old = LP_SKYNET_TARGET_STOPPING"
    and room: "unat (tg_lifecycle (pr_target r)) \<le> u64_max - 4"
    using allowed old pin_allowed_active [of old] pin_allowed_session [of old] by blast+
  have cur: "target_current_state (pr_target r) = target_state old"
    using old by (simp add: target_current_state_def)
  have t: "pins ?t = Suc (pins (pr_target r))" "target_current_state ?t = target_current_state (pr_target r)"
    by (rule pin_swap_parts [OF room])+
  have "k \<notin> holders r" using k by (simp add: holders_def)
  moreover have holders: "holders ?r = insert k (holders r)" by (auto simp: holders_def)
  moreover have "live r" using st cur by (auto simp: live_def)
  moreover have "live ?r \<longleftrightarrow> live r" by (simp add: live_def t)
  moreover have sound: "reader_sound ?r p = reader_sound r p" for p
    by (cases p) (simp_all add: reader_sound_def pin_swap_def)
  moreover have "reader_sound ?r (pr_readers ?r j)" for j
  proof (cases "j = k")
    case True
    then show ?thesis using ok cur by (auto simp: reader_sound_def pins_ok_def)
  next
    case False
    then show ?thesis using ok unfolding sound by (simp add: pins_ok_def)
  qed
  ultimately show ?thesis
    using ok t by (simp add: pins_ok_def control_ok_def pin_swap_def)
qed

lemma sound_if_not_held: "\<forall>s. \<not> holds place s \<Longrightarrow> reader_sound r place \<Longrightarrow> reader_sound r' place"
  by (cases place) (simp_all add: reader_sound_def)

lemma sound_if_no_holders: "pins_ok r \<Longrightarrow> holders r = {} \<Longrightarrow> reader_sound r' (pr_readers r k)"
  using sound_if_not_held [of "pr_readers r k" r r'] by (auto simp: pins_ok_def holders_def)

text \<open>A transition of the state by the control, which leaves everything else of the target.\<close>

lemma pins_ok_transition:
  assumes ok: "pins_ok r" and tr: "target_transition from to (pr_target r) = Some t"
    and to: "to = 0 \<or> to = 1 \<or> to = 2 \<or> to = 3"
    and r': "r' = r\<lparr>pr_target := t, pr_control := control, pr_waiting := waiting\<rparr>"
    and control: "control_ok r'" and drained: "pr_drained r \<longrightarrow> to \<noteq> LP_SKYNET_TARGET_ACTIVE"
    and still: "live r' \<Longrightarrow> live r \<or> pr_control r = Prepared" and gone: "\<not> live r' \<Longrightarrow> holders r = {}"
    and prepared: "control \<noteq> Prepared"
  shows "pins_ok r'"
proof -
  note t = target_transition_parts [OF tr to]
  have ring: "tg_ring t = tg_ring (pr_target r)" by (subst t(4)) simp
  have holders: "holders r' = holders r" by (simp add: r' holders_def)
  have check: "check_ok c t = check_ok c (pr_target r)" for c by (subst t(4)) simp
  have "reader_sound r' p = reader_sound r p" for p
    by (cases p) (simp_all add: reader_sound_def r' check)
  then show ?thesis
    using ok t(2,3) ring holders control drained still gone prepared
    by (auto simp: pins_ok_def r' split: if_splits)
qed

lemma pins_ok_step: "pin_step r r' \<Longrightarrow> pins_ok r \<Longrightarrow> pins_ok r'"
proof (induction rule: pin_step.induct)
  case (load r k allowed check)
  then show ?case by (intro pins_ok_move) (auto simp: reader_sound_def)
next
  case (give_up r k check allowed old)
  then show ?case by (intro pins_ok_move) (auto simp: reader_sound_def)
next
  case (retry r k check allowed old)
  have "reader_sound r (pr_readers r k)" using retry.prems by (simp add: pins_ok_def)
  then show ?case using retry by (intro pins_ok_move) (auto simp: reader_sound_def)
next
  case (swap r k check allowed old)
  then show ?case by (intro pins_ok_swap)
next
  case (reject r k check state)
  then show ?case using pins_ok_unpin [OF _ using_holds(2)] by blast
next
  case (accept r k check state)
  have "reader_sound r (pr_readers r k)" using accept.prems by (simp add: pins_ok_def)
  then show ?case using accept by (intro pins_ok_move) (auto simp: reader_sound_def)
next
  case (tick r k check state info e t request)
  obtain ring where "tg_ring (pr_target r) = Some ring" "ring_ok ring"
    using live_ring [OF tick.prems using_holds(1) [OF tick.hyps(1)]] .
  then show ?case using pins_ok_use [OF tick.prems using_holds(1) [OF tick.hyps(1)]] same_session_tick [OF tick.hyps(2)] by blast
next
  case (unstable r k check state info)
  then show ?case
    using pins_ok_use [OF _ using_holds(1)] same_session_trans [OF same_session_counts(4) same_session_counts(1)] by blast
next
  case (stale r k check state info)
  then show ?case
    using pins_ok_use [OF _ using_holds(1)] same_session_trans [OF same_session_counts(4) same_session_counts(2)] by blast
next
  case (failure r k check state)
  then show ?case using pins_ok_use [OF _ using_holds(1)] same_session_counts(3) by blast
next
  case (take_event r k check state e t)
  obtain ring where "tg_ring (pr_target r) = Some ring" "ring_ok ring"
    using live_ring [OF take_event.prems using_holds(1) [OF take_event.hyps(1)]] .
  then show ?case
    using pins_ok_use [OF take_event.prems using_holds(1) [OF take_event.hyps(1)]] same_session_next [OF take_event.hyps(2)] by blast
next
  case (take_quality r k check state)
  then show ?case using pins_ok_use [OF _ using_holds(1)] same_session_counts(7) by blast
next
  case (drain r k check state draining)
  then show ?case using pins_ok_use [OF _ using_holds(1)] same_session_counts(5) by blast
next
  case (worker r k check state worker_mask)
  then show ?case using pins_ok_use [OF _ using_holds(1)] same_session_counts(6) by blast
next
  case (unpin r k check state)
  then show ?case using pins_ok_unpin [OF _ using_holds(1)] by blast
next
  case (start1 r handle token generation sample_hz main_state)
  let ?t = "prepare_target handle token generation sample_hz main_state (pr_target r)"
  let ?r = "r\<lparr>pr_target := ?t, pr_control := Prepared, pr_drained := False\<rparr>"
  have cur: "target_current_state (pr_target r) = 0" "pins (pr_target r) = 0"
    using start1.hyps(2) by (simp_all add: target_current_state_def target_state_def pins_def)
  then have empty: "holders r = {}" using start1 by (auto simp: pins_ok_def live_def split: if_splits)
  have t: "target_current_state ?t = 0" "pins ?t = 0"
    using cur by (simp_all add: target_current_state_def pins_def prepare_target_def)
  have "reader_sound ?r (pr_readers r j)" for j by (rule sound_if_no_holders [OF start1.prems empty])
  moreover have "holders ?r = {}" using empty by (simp add: holders_def)
  moreover have "\<exists>ring. tg_ring ?t = Some ring \<and> ring_ok ring" by (simp add: prepare_target_def)
  ultimately show ?case by (simp add: pins_ok_def control_ok_def live_def t)
next
  case (start2 r t)
  note t = target_transition_parts [OF start2.hyps(2)]
  show ?case
    by (rule pins_ok_transition [OF start2.prems start2.hyps(2), where control = Resting and waiting = "pr_waiting r"])
      (use start2 t in \<open>auto simp: control_ok_def live_def pins_ok_def\<close>)
next
  case (quiesce1 r t)
  note t = target_transition_parts [OF quiesce1.hyps(2)]
  show ?case
    by (rule pins_ok_transition [OF quiesce1.prems quiesce1.hyps(2), where control = Resting and waiting = True])
      (use quiesce1 t in \<open>auto simp: control_ok_def live_def pins_ok_def\<close>)
next
  case (quiesce2 r)
  have "holders r = {}" using quiesce2 by (auto simp: pins_ok_def unpinned_pins)
  then have "reader_sound r' (pr_readers r j)" for j r' by (rule sound_if_no_holders [OF quiesce2.prems])
  then show ?case using quiesce2
    by (auto simp: pins_ok_def control_ok_def live_def holders_def)
next
  case (release r t)
  note t = target_transition_parts [OF release.hyps(2)]
  show ?case
    by (rule pins_ok_transition [OF release.prems release.hyps(2), where control = Reclaiming and waiting = "pr_waiting r"])
      (use release t in \<open>auto simp: control_ok_def live_def pins_ok_def\<close>)
next
  case (rollback r t)
  note t = target_transition_parts [OF rollback.hyps(2)]
  show ?case
    by (rule pins_ok_transition [OF rollback.prems rollback.hyps(2), where control = Reclaiming and waiting = "pr_waiting r"])
      (use rollback t in \<open>auto simp: control_ok_def live_def pins_ok_def\<close>)
next
  case (reclaim r)
  let ?t = "clear_target (pr_target r)" let ?r = "r\<lparr>pr_target := ?t, pr_control := Cleared\<rparr>"
  have empty: "holders r = {}" using reclaim by (auto simp: pins_ok_def unpinned_pins)
  have st: "target_current_state (pr_target r) = 3" using reclaim by (simp add: pins_ok_def control_ok_def)
  have t: "target_current_state ?t = 3" "pins ?t = pins (pr_target r)"
    using st by (simp_all add: clear_target_def target_current_state_def pins_def)
  have "reader_sound ?r (pr_readers r j)" for j by (rule sound_if_no_holders [OF reclaim.prems empty])
  moreover have "holders ?r = {}" using empty by (simp add: holders_def)
  ultimately show ?case using reclaim.prems empty by (simp add: pins_ok_def control_ok_def live_def t)
next
  case (free r t)
  note t = target_transition_parts [OF free.hyps(2)]
  show ?case
    by (rule pins_ok_transition [OF free.prems free.hyps(2), where control = Resting and waiting = "pr_waiting r"])
      (use free t in \<open>auto simp: control_ok_def live_def pins_ok_def split: if_splits\<close>)
qed

lemma pins_ok_reachable: "pin_step\<^sup>*\<^sup>* start_pins r \<Longrightarrow> pins_ok r"
  by (induction rule: rtranclp_induct) (auto intro: pins_ok_start pins_ok_step)

section \<open>Properties\<close>

text \<open>
  C25: no use after reclaim. However readers and control interleave: a reader that has pinned the
  target and compared it finds the events in memory, of the session it asked for, so that neither
  a tick nor the delivery of an event goes through a null pointer; and once a quiesce has
  returned, no reader is left that pinned the target while it was active.
\<close>

theorem pinned_target_is_alive:
  assumes "pin_step\<^sup>*\<^sup>* start_pins r" and "pr_readers r k = Using check state"
  shows "tg_ring (pr_target r) \<noteq> None \<and> check_ok check (pr_target r) \<and>
    (\<forall>info e. pinned_tick info e state (pr_target r) \<noteq> None) \<and> pinned_next (pr_target r) \<noteq> None \<and>
    \<not> (pr_drained r \<and> state = LP_SKYNET_TARGET_ACTIVE)"
proof -
  have ok: "pins_ok r" by (rule pins_ok_reachable [OF assms(1)])
  obtain ring where ring: "tg_ring (pr_target r) = Some ring" using live_ring [OF ok using_holds(1) [OF assms(2)]] .
  then have "tg_ring (count_overrun info (pr_target r)) = Some ring" for info by (simp add: count_overrun_def Let_def)
  then have "\<forall>info e. pinned_tick info e state (pr_target r) \<noteq> None"
    by (auto simp: pinned_tick_def Let_def split: option.splits)
  moreover have "reader_sound r (Using check state)" using ok assms(2) unfolding pins_ok_def by metis
  ultimately show ?thesis using ring by (simp add: pinned_next_def reader_sound_def)
qed

lemma pins_target_cong: "tg_lifecycle t = tg_lifecycle t' \<Longrightarrow> pins t = pins t'"
  by (simp add: pins_def)

lemma reclaiming_step:
  assumes ok: "pins_ok r" and rec: "pr_control r = Reclaiming" and step: "pin_step r r'"
  shows "pins (pr_target r') \<le> pins (pr_target r)"
proof -
  have ok': "pins_ok r'" by (rule pins_ok_step [OF step ok])
  have st: "target_current_state (pr_target r) = 3" using ok rec by (simp add: pins_ok_def control_ok_def)
  have "holders r' \<subseteq> holders r"
    using step
  proof cases
    case (swap k check allowed old)
    have "reader_sound r (pr_readers r k)" using ok by (simp add: pins_ok_def)
    then have "allowed = allow_active \<or> allowed = allow_session" by (simp add: swap(2) reader_sound_def)
    then have False
      using swap(3,4) st pin_allowed_active [of old] pin_allowed_session [of old] by (auto simp: target_current_state_def)
    then show ?thesis ..
  qed (auto simp: holders_def split: if_splits)
  then have "card (holders r') \<le> card (holders r)" using ok by (intro card_mono) (simp_all add: pins_ok_def)
  then show ?thesis using ok ok' by (simp add: pins_ok_def)
qed

lemma reader_lets_go:
  assumes ok: "pins_ok r" and k: "k \<in> holders r"
  shows "\<exists>r'. pin_step\<^sup>*\<^sup>* r r' \<and> pr_control r' = pr_control r \<and> pins (pr_target r') = pins (pr_target r) - 1"
proof -
  have fin: "finite (holders r)" "pins (pr_target r) = card (holders r)" using ok by (simp_all add: pins_ok_def)
  then have n: "pins (target_unpin (pr_target r)) = pins (pr_target r) - 1"
    using k by (intro target_unpin_parts) auto
  have one: "\<exists>r'. pin_step\<^sup>*\<^sup>* s r' \<and> pr_control r' = pr_control s \<and> pins (pr_target r') = pins (pr_target s) - 1"
    if "pr_readers s k = Using check state" "pr_target s = pr_target r" for s check state
    using unpin [OF that(1)] n that(2)
    by (intro exI [of _ "put_reader k Idle (s\<lparr>pr_target := target_unpin (pr_target s)\<rparr>)"]) (auto intro: r_into_rtranclp)
  obtain state where "holds (pr_readers r k) state" using k by (auto simp: holders_def)
  then consider check where "pr_readers r k = Pinned check state" | check where "pr_readers r k = Using check state"
    by (cases "pr_readers r k") auto
  then show ?thesis
  proof cases
    case 1
    show ?thesis
    proof (cases "check_ok check (pr_target r)")
      case True
      let ?s = "put_reader k (Using check state) r"
      have "pin_step r ?s" by (rule accept [OF 1 True])
      then show ?thesis using one [of ?s check state] by (auto intro: converse_rtranclp_into_rtranclp)
    next
      case False
      show ?thesis
        using reject [OF 1 False] n
        by (intro exI [of _ "put_reader k Idle (r\<lparr>pr_target := target_unpin (pr_target r)\<rparr>)"]) (auto intro: r_into_rtranclp)
    qed
  next
    case 2
    then show ?thesis using one [of r] by simp
  qed
qed

text \<open>
  The wait of a reclaim ends. While a target is being reclaimed no step of any thread pins it
  again, so that the count never rises, and as long as it is not zero a reader can let go: the
  loop of \<open>target_wait_unpinned\<close> waits only for readers that are already inside.
\<close>

theorem reclaim_wait_ends:
  assumes "pin_step\<^sup>*\<^sup>* start_pins r" and "pr_control r = Reclaiming"
  shows "(\<forall>r'. pin_step r r' \<longrightarrow> pins (pr_target r') \<le> pins (pr_target r)) \<and>
    (unpinned (pr_target r) \<or>
     (\<exists>r'. pin_step\<^sup>*\<^sup>* r r' \<and> pr_control r' = Reclaiming \<and> pins (pr_target r') = pins (pr_target r) - 1))"
proof -
  have ok: "pins_ok r" by (rule pins_ok_reachable [OF assms(1)])
  have "\<exists>k. k \<in> holders r" if "\<not> unpinned (pr_target r)"
  proof -
    have "card (holders r) \<noteq> 0" using that ok unfolding unpinned_pins pins_ok_def by metis
    then show ?thesis by (metis all_not_in_conv card.empty)
  qed
  then show ?thesis using reclaiming_step [OF ok assms(2)] reader_lets_go [OF ok] assms(2) by metis
qed

text \<open>What remains of the queued events: none, or the queue after some deliveries.\<close>

definition only_drained :: "lp_skynet_target \<Rightarrow> lp_skynet_target \<Rightarrow> bool" where
  "only_drained t t' \<longleftrightarrow>
     (case tg_ring t' of
        None \<Rightarrow> True
      | Some ring' \<Rightarrow> \<exists>ring n. tg_ring t = Some ring \<and> ring_contents ring' = drop n (ring_contents ring))"

lemma only_drained_same: "tg_ring t' = tg_ring t \<Longrightarrow> only_drained t t'"
  by (auto simp: only_drained_def split: option.split intro: exI [of _ 0])

text \<open>
  After a quiesce the events are only drained. Once a quiesce has returned, and until the
  next start, each step of any thread leaves the queued events as they are, or takes some off
  the front, or reclaims them.
\<close>

theorem quiesced_events_only_drain:
  assumes "pin_step\<^sup>*\<^sup>* start_pins r" and "pr_drained r" and "pin_step r r'" and "pr_drained r'"
  shows "only_drained (pr_target r) (pr_target r')"
proof -
  have ok: "pins_ok r" by (rule pins_ok_reachable [OF assms(1)])
  show ?thesis
    using assms(3)
  proof cases
    case (tick k check state info e t request)
    have "reader_sound r (Using check state)" using ok tick(2) unfolding pins_ok_def by metis
    then have "state \<noteq> LP_SKYNET_TARGET_ACTIVE" using assms(2) by (simp add: reader_sound_def)
    then have "tg_ring t = tg_ring (pr_target r)"
      using tick(3) by (auto simp: pinned_tick_def Let_def count_stale_def count_overrun_def)
    then show ?thesis using only_drained_same tick(1) by simp
  next
    case (take_event k check state e t)
    obtain ring where ring: "tg_ring (pr_target r) = Some ring" "ring_ok ring"
      using live_ring [OF ok using_holds(1) [OF take_event(2)]] .
    show ?thesis
    proof (cases "ring_next ring")
      case None
      then show ?thesis using take_event ring only_drained_same by (simp add: pinned_next_def)
    next
      case (Some p)
      obtain e1 ring1 where p: "p = (e1, ring1)" by (cases p)
      have "ring_contents ring1 = drop 1 (ring_contents ring)" using ring_next_contents [OF ring(2)] Some p by simp
      then show ?thesis using take_event ring Some p by (auto simp: pinned_next_def only_drained_def)
    qed
  next
    case (start1 handle token generation sample_hz main_state)
    then show ?thesis using assms(4) by simp
  next
    case (reclaim)
    then show ?thesis by (simp add: clear_target_def only_drained_def)
  qed (auto intro!: only_drained_same simp: pin_swap_def target_unpin_def count_unstable_def count_stale_def count_timer_failure_def
      count_overrun_def Let_def pinned_quality_def target_transition_def split: if_splits)
qed

section \<open>Witnesses\<close>

text \<open>A run in which a reader pins a started target, and the target is then stopped and reclaimed.\<close>

definition started_pins :: pin_run where
  "started_pins = start_pins\<lparr>pr_target := (prepare_target 5 7 1 100 4096 zero_target)\<lparr>tg_lifecycle := 1\<rparr>\<rparr>"

definition used_pins :: "u64 \<Rightarrow> pin_run" where
  "used_pins lifecycle = put_reader 0 (Using (By_Token 7) LP_SKYNET_TARGET_ACTIVE)
     (started_pins\<lparr>pr_target := (pr_target started_pins)\<lparr>tg_lifecycle := lifecycle\<rparr>\<rparr>)"

lemma transition_codes:
  "target_state 0 = 0" "target_state 1 = 1" "target_state 2 = 2" "target_state 5 = 1" "target_state 7 = 3"
  "NOT LP_SKYNET_TARGET_STATE_MASK = - 4"
  by (simp_all add: target_state_def LP_SKYNET_TARGET_STATE_MASK_def)

lemma started_pins_reachable: "pin_step\<^sup>*\<^sup>* start_pins started_pins"
proof -
  let ?t = "prepare_target 5 7 1 100 4096 zero_target"
  let ?r = "start_pins\<lparr>pr_target := ?t, pr_control := Prepared\<rparr>"
  have "pin_step start_pins ?r"
    using start1 [of start_pins 5 7 1 100 4096] by (simp add: start_pins_def zero_target_def)
  moreover have "pin_step ?r started_pins"
    using start2 [of ?r "?t\<lparr>tg_lifecycle := 1\<rparr>"]
    by (simp add: target_transition_def prepare_target_def zero_target_def transition_codes started_pins_def start_pins_def)
  ultimately show ?thesis by (auto intro: converse_rtranclp_into_rtranclp)
qed

lemma used_pins_reachable: "pin_step\<^sup>*\<^sup>* start_pins (used_pins 5)"
proof -
  let ?l = "put_reader 0 (Loaded (By_Token 7) allow_session 1) started_pins"
  let ?p = "put_reader 0 (Pinned (By_Token 7) 1) (started_pins\<lparr>pr_target := (pr_target started_pins)\<lparr>tg_lifecycle := 5\<rparr>\<rparr>)"
  have allowed: "pin_allowed allow_session 1" by (simp add: pin_allowed_session transition_codes)
  have "pin_step started_pins ?l"
    using load [of started_pins 0 allow_session "By_Token 7"] by (simp add: started_pins_def start_pins_def)
  moreover have "pin_step ?l ?p"
    using swap [of ?l 0 "By_Token 7" allow_session 1] allowed
    by (simp add: started_pins_def start_pins_def pin_swap_def transition_codes)
  moreover have "pin_step ?p (used_pins 5)"
    using accept [of ?p 0 "By_Token 7" 1] by (simp add: started_pins_def used_pins_def prepare_target_def)
  ultimately show ?thesis using started_pins_reachable by (auto intro: rtranclp.rtrancl_into_rtrancl)
qed

lemma pinned_target_is_alive_witness:
  "pin_step\<^sup>*\<^sup>* start_pins (used_pins 5) \<and> tg_ring (pr_target (used_pins 5)) \<noteq> None \<and>
   check_ok (By_Token 7) (pr_target (used_pins 5))"
  using pinned_target_is_alive [of "used_pins 5" 0 "By_Token 7" 1] used_pins_reachable by (simp add: used_pins_def)

text \<open>The same target while it is rolled back with the reader inside.\<close>

lemma reclaim_wait_ends_witness:
  "let r = (used_pins 7)\<lparr>pr_control := Reclaiming\<rparr>
   in pin_step\<^sup>*\<^sup>* start_pins r \<and> \<not> unpinned (pr_target r) \<and>
      (\<exists>r'. pin_step\<^sup>*\<^sup>* r r' \<and> pr_control r' = Reclaiming \<and> pins (pr_target r') = 0)"
proof -
  let ?r = "(used_pins 7)\<lparr>pr_control := Reclaiming\<rparr>"
  have "pin_step (used_pins 5) ?r"
    using rollback [of "used_pins 5" "pr_target (used_pins 7)"]
    by (simp add: used_pins_def started_pins_def start_pins_def target_transition_def transition_codes)
  then have r: "pin_step\<^sup>*\<^sup>* start_pins ?r" using used_pins_reachable by (rule rtranclp.rtrancl_into_rtrancl [rotated])
  have "pins (pr_target ?r) = 1" by (simp add: pins_def used_pins_def)
  then show ?thesis using reclaim_wait_ends [OF r] r by (auto simp: unpinned_pins)
qed

text \<open>The target is stopped before any reader comes, and the quiesce returns.\<close>

lemma quiesced_events_only_drain_witness:
  "let t = pr_target started_pins; r = started_pins\<lparr>pr_target := t\<lparr>tg_lifecycle := 2\<rparr>, pr_drained := True\<rparr>;
       r' = put_reader 0 (Loaded Unchecked allow_session 2) r
   in pin_step\<^sup>*\<^sup>* start_pins r \<and> pin_step r r' \<and> only_drained (pr_target r) (pr_target r')"
proof -
  let ?t = "(pr_target started_pins)\<lparr>tg_lifecycle := 2\<rparr>"
  let ?q = "started_pins\<lparr>pr_target := ?t, pr_waiting := True\<rparr>"
  let ?r = "started_pins\<lparr>pr_target := ?t, pr_drained := True\<rparr>"
  let ?r' = "put_reader 0 (Loaded Unchecked allow_session 2) ?r"
  have "pin_step started_pins ?q"
    using quiesce1 [of started_pins ?t]
    by (simp add: started_pins_def start_pins_def target_transition_def transition_codes)
  moreover have "pin_step ?q ?r"
    using quiesce2 [of ?q]
    by (simp add: started_pins_def start_pins_def unpinned_pins pins_def target_current_state_def transition_codes)
  ultimately have r: "pin_step\<^sup>*\<^sup>* start_pins ?r" using started_pins_reachable by (auto intro: rtranclp.rtrancl_into_rtrancl)
  have step: "pin_step ?r ?r'"
    using load [of ?r 0 allow_session Unchecked] by (simp add: started_pins_def start_pins_def)
  have "only_drained (pr_target ?r) (pr_target ?r')"
    by (rule quiesced_events_only_drain [OF r _ step]) simp_all
  then show ?thesis using r step by (simp add: Let_def)
qed

end
