(* ===== verification/Skynet_Host.thy ===== *)
theory Skynet_Host
  imports Skynet_Target
begin

text \<open>
  The host part of \<open>src/skynet_host.c\<close>: the table of targets, the registry of workers, the
  counters under \<open>host_lock\<close>, and the thread-local \<open>current_worker\<close> and \<open>current_handle\<close>, with
  every entry point of \<open>lp_skynet_host_api\<close> and of the dispatch boundaries. A pointer to a target
  is its index. System calls are parameters (\<open>host_env\<close>). An operation is one step: what comes
  between the accesses of different threads to one target is the subject of \<open>Skynet_Pins\<close>, what
  a tick finds between the stores of \<open>publish_slot\<close> that of \<open>Skynet_Slot\<close>.

  An operation that waits for a pin to be given back, or reads through a null or freed pointer,
  is \<open>None\<close>. The functions under \<open>LUAPROF_TESTING\<close> are not modelled.
\<close>

section \<open>State\<close>

definition LP_SKYNET_TARGET_CAPACITY :: nat where "LP_SKYNET_TARGET_CAPACITY = 128"
definition LP_SKYNET_WORKER_CAPACITY :: nat where "LP_SKYNET_WORKER_CAPACITY = 64"

text \<open>\<open>wk_timer\<close> is the interval the kernel timer of the worker was last set to.\<close>

record lp_skynet_worker =
  wk_timer :: "u64 \<times> u64"
  wk_worker_id :: u32
  wk_armed_hz :: u32
  wk_signal_slot :: int
  wk_active :: bool
  wk_slot_version :: u64
  wk_slot_target :: "nat option"
  wk_slot_token :: u64
  wk_slot_quality_target :: "nat option"
  wk_slot_quality_token :: u64
  wk_slot_state :: pointer
  wk_slot_cfunction :: pointer
  wk_slot_vm_state :: c_int

definition zero_worker :: lp_skynet_worker where
  "zero_worker = \<lparr>wk_timer = (0, 0), wk_worker_id = 0, wk_armed_hz = 0, wk_signal_slot = 0, wk_active = False,
     wk_slot_version = 0, wk_slot_target = None, wk_slot_token = 0, wk_slot_quality_target = None,
     wk_slot_quality_token = 0, wk_slot_state = NULL, wk_slot_cfunction = NULL, wk_slot_vm_state = 0\<rparr>"

record skynet_host =
  sh_targets :: "lp_skynet_target list"
  sh_workers :: "pointer list"
  sh_heap :: "pointer \<Rightarrow> lp_skynet_worker option"
  sh_active_targets :: u32
  sh_active_sample_hz :: u32
  sh_host_failed :: bool
  sh_next_token :: u64
  sh_signal_users :: u32
  sh_handler_installed :: bool
  sh_current_worker :: "nat \<Rightarrow> pointer"
  sh_current_handle :: "nat \<Rightarrow> u32"

definition initial_host :: skynet_host where
  "initial_host = \<lparr>sh_targets = replicate LP_SKYNET_TARGET_CAPACITY zero_target,
     sh_workers = replicate LP_SKYNET_WORKER_CAPACITY NULL, sh_heap = (\<lambda>_. None), sh_active_targets = 0,
     sh_active_sample_hz = 0, sh_host_failed = False, sh_next_token = 0, sh_signal_users = 0,
     sh_handler_installed = False, sh_current_worker = (\<lambda>_. NULL), sh_current_handle = (\<lambda>_. 0)\<rparr>"

text \<open>What the system calls of an operation return, and the signals it finds pending.\<close>

record host_env =
  he_worker_memory :: bool
  he_events_memory :: bool
  he_signal_in_range :: bool
  he_action_is_default :: bool
  he_action_set :: bool
  he_mask_read :: bool
  he_was_blocked :: bool
  he_timer_created :: bool
  he_blocked :: bool
  he_pending :: "siginfo list"
  he_settime :: bool

definition upd_target :: "nat \<Rightarrow> (lp_skynet_target \<Rightarrow> lp_skynet_target) \<Rightarrow> skynet_host \<Rightarrow> skynet_host" where
  "upd_target i f h = h\<lparr>sh_targets := (sh_targets h)[i := f (sh_targets h ! i)]\<rparr>"

definition upd_worker :: "pointer \<Rightarrow> (lp_skynet_worker \<Rightarrow> lp_skynet_worker) \<Rightarrow> skynet_host \<Rightarrow> skynet_host" where
  "upd_worker p f h = h\<lparr>sh_heap := (sh_heap h)(p := map_option f (sh_heap h p))\<rparr>"

definition free_worker :: "pointer \<Rightarrow> skynet_host \<Rightarrow> skynet_host" where
  "free_worker p h = h\<lparr>sh_heap := (sh_heap h)(p := None)\<rparr>"

text \<open>The worker of a thread, which the thread itself created and has not freed.\<close>

definition worker_at :: "pointer \<Rightarrow> skynet_host \<Rightarrow> lp_skynet_worker" where
  "worker_at p h = the (sh_heap h p)"

definition host_failure :: "skynet_host \<Rightarrow> skynet_host" where
  "host_failure h = h\<lparr>sh_host_failed := True\<rparr>"

section \<open>The signal handler\<close>

definition registered_worker :: "pointer \<Rightarrow> skynet_host \<Rightarrow> bool" where
  "registered_worker p h \<longleftrightarrow> p \<in> set (sh_workers h)"

definition slot_event_of :: "lp_skynet_worker \<Rightarrow> lp_skynet_tick_event" where
  "slot_event_of w = \<lparr>ke_state = wk_slot_state w, ke_vm_state = wk_slot_vm_state w, ke_cfunction = wk_slot_cfunction w\<rparr>"

text \<open>
  The handler from the loads of the slot on. It runs on the worker's own thread, so that the
  second load of \<open>slot_version\<close> sees the value of the first.
\<close>

definition worker_tick :: "siginfo \<Rightarrow> lp_skynet_worker \<Rightarrow> skynet_host \<Rightarrow> (skynet_host \<times> pointer option) option" where
  "worker_tick info w h =
     (if wk_slot_version w AND 1 \<noteq> 0
      then Some (case wk_slot_quality_target w of
                   None \<Rightarrow> h
                 | Some q \<Rightarrow> upd_target q (record_slot_unstable (wk_slot_quality_token w) info) h, None)
      else case wk_slot_target w of
             None \<Rightarrow> Some (h, None)
           | Some i \<Rightarrow>
               if wk_slot_state w = NULL then Some (h, None)
               else map_option (\<lambda>(t, request). (upd_target i (\<lambda>_. t) h, request))
                      (target_tick info (wk_slot_token w) (slot_event_of w) (sh_targets h ! i)))"

definition skynet_signal_handler :: "siginfo option \<Rightarrow> skynet_host \<Rightarrow> (skynet_host \<times> pointer option) option" where
  "skynet_signal_handler info h =
     (case info of
        None \<Rightarrow> Some (h, None)
      | Some i \<Rightarrow>
          if \<not> si_timer i then Some (h, None)
          else
            let p = si_value i
            in if p = NULL \<or> \<not> registered_worker p h then Some (h, None)
               else case sh_heap h p of
                      None \<Rightarrow> None
                    | Some w \<Rightarrow> if \<not> wk_active w then Some (h, None) else worker_tick i w h)"

section \<open>Registration of workers\<close>

definition free_worker_place :: "pointer list \<Rightarrow> nat option" where
  "free_worker_place ps = find (\<lambda>i. ps ! i = NULL) [0..<LP_SKYNET_WORKER_CAPACITY]"

definition acquire_signal :: "host_env \<Rightarrow> pointer \<Rightarrow> skynet_host \<Rightarrow> bool \<times> skynet_host" where
  "acquire_signal env p h =
     (let first = sh_signal_users h = 0;
          ready = (if first then he_signal_in_range env \<and> he_action_is_default env \<and> he_action_set env else True);
          h1 = (if first \<and> ready then h\<lparr>sh_handler_installed := True\<rparr> else h);
          h2 = upd_worker p (\<lambda>w. w\<lparr>wk_signal_slot := -1\<rparr>) h1
      in if \<not> ready then (False, h2)
         else case free_worker_place (sh_workers h2) of
                None \<Rightarrow> (False, if first then h2\<lparr>sh_handler_installed := False\<rparr> else h2)
              | Some i \<Rightarrow>
                  (True, (upd_worker p (\<lambda>w. w\<lparr>wk_signal_slot := int i\<rparr>) h2)
                     \<lparr>sh_workers := (sh_workers h2)[i := p], sh_signal_users := sh_signal_users h2 + 1\<rparr>))"

definition release_signal :: "pointer \<Rightarrow> skynet_host \<Rightarrow> skynet_host" where
  "release_signal p h =
     (let slot = wk_signal_slot (worker_at p h);
          h1 = (if slot \<ge> 0
                then (upd_worker p (\<lambda>w. w\<lparr>wk_signal_slot := -1\<rparr>) h)\<lparr>sh_workers := (sh_workers h)[nat slot := NULL]\<rparr>
                else h)
      in if sh_signal_users h1 > 0
         then let users = sh_signal_users h1 - 1
              in h1\<lparr>sh_signal_users := users,
                    sh_handler_installed := (if users = 0 then False else sh_handler_installed h1)\<rparr>
         else h1)"

section \<open>The published slot\<close>

text \<open>The nine stores of \<open>publish_slot\<close> to the worker, in order.\<close>

definition publish_stores ::
  "nat option \<Rightarrow> u64 \<Rightarrow> pointer \<Rightarrow> c_int \<Rightarrow> pointer \<Rightarrow> (lp_skynet_worker \<Rightarrow> lp_skynet_worker) list" where
  "publish_stores target token state vm_state cfunction =
     [\<lambda>w. w\<lparr>wk_slot_version := wk_slot_version w + 1\<rparr>,
      \<lambda>w. w\<lparr>wk_slot_target := target\<rparr>,
      \<lambda>w. w\<lparr>wk_slot_token := token\<rparr>,
      \<lambda>w. w\<lparr>wk_slot_state := state\<rparr>,
      \<lambda>w. w\<lparr>wk_slot_cfunction := cfunction\<rparr>,
      \<lambda>w. w\<lparr>wk_slot_vm_state := vm_state\<rparr>,
      \<lambda>w. w\<lparr>wk_slot_version := wk_slot_version w + 1\<rparr>,
      \<lambda>w. w\<lparr>wk_slot_quality_token := token\<rparr>,
      \<lambda>w. w\<lparr>wk_slot_quality_target := target\<rparr>]"

definition publish_slot ::
  "pointer \<Rightarrow> nat option \<Rightarrow> u64 \<Rightarrow> pointer \<Rightarrow> c_int \<Rightarrow> pointer \<Rightarrow> skynet_host \<Rightarrow> skynet_host" where
  "publish_slot p target token state vm_state cfunction h =
     (if p = NULL then h
      else
        let h1 = upd_worker p (fold (\<lambda>store w. store w) (publish_stores target token state vm_state cfunction)) h;
            id = wk_worker_id (worker_at p h1)
        in case target of
             None \<Rightarrow> h1
           | Some i \<Rightarrow>
               if unat id < LP_SKYNET_WORKER_CAPACITY
               then upd_target i (\<lambda>t. t\<lparr>tg_worker_mask := tg_worker_mask t OR push_bit (unat id) 1\<rparr>) h1
               else h1)"

definition block_worker_signal :: "host_env \<Rightarrow> nat \<Rightarrow> skynet_host \<Rightarrow> bool" where
  "block_worker_signal env me h = (if sh_current_worker h me = NULL then False else he_blocked env)"

definition discard_tick :: "pointer \<Rightarrow> siginfo \<Rightarrow> lp_skynet_target \<Rightarrow> lp_skynet_target" where
  "discard_tick p info t =
     (if si_timer info \<and> si_value info = p then count_stale (count_overrun info t) else t)"

definition discard_pending :: "host_env \<Rightarrow> pointer \<Rightarrow> nat option \<Rightarrow> u64 \<Rightarrow> skynet_host \<Rightarrow> skynet_host" where
  "discard_pending env p target token h =
     (case target of
        None \<Rightarrow> h
      | Some i \<Rightarrow>
          (case target_pin_session token allow_session (sh_targets h ! i) of
             None \<Rightarrow> h
           | Some (state, t) \<Rightarrow> upd_target i (\<lambda>_. target_unpin (fold (discard_tick p) (he_pending env) t)) h))"

section \<open>The kernel timer of a worker\<close>

definition record_active_timer_failure :: "skynet_host \<Rightarrow> skynet_host" where
  "record_active_timer_failure h =
     h\<lparr>sh_targets := map (\<lambda>t. case target_pin allow_active t of
                             None \<Rightarrow> t
                           | Some (state, t1) \<Rightarrow> target_unpin (count_timer_failure t1)) (sh_targets h)\<rparr>"

text \<open>The period is computed as in \<open>lp_thread_timer_arm\<close>.\<close>

definition sync_worker_timer :: "host_env \<Rightarrow> pointer \<Rightarrow> skynet_host \<Rightarrow> bool \<times> skynet_host" where
  "sync_worker_timer env p h =
     (if p = NULL then (True, h)
      else
        let w = worker_at p h; count = sh_active_targets h; hz = sh_active_sample_hz h
        in if count = 0 \<or> hz = 0
           then if wk_armed_hz w \<noteq> 0
                then if \<not> he_settime env then (False, record_active_timer_failure (host_failure h))
                     else (True, upd_worker p (\<lambda>w. w\<lparr>wk_timer := (0, 0), wk_armed_hz := 0\<rparr>) h)
                else (True, h)
           else if wk_armed_hz w = hz then (True, h)
           else if \<not> he_settime env then (False, record_active_timer_failure (host_failure h))
           else (True, upd_worker p (\<lambda>w. w\<lparr>wk_timer := timer_interval hz, wk_armed_hz := hz\<rparr>) h))"

section \<open>Finding and pinning a target\<close>

definition pin_active_handle :: "u32 \<Rightarrow> skynet_host \<Rightarrow> (nat \<times> skynet_host) option" where
  "pin_active_handle handle h =
     map_option (\<lambda>i. (i, upd_target i pin_swap h))
       (find (\<lambda>i. let t = sh_targets h ! i
                  in target_current_state t = LP_SKYNET_TARGET_ACTIVE \<and> tg_handle t = handle \<and>
                     pin_allowed allow_active (tg_lifecycle t)) [0..<LP_SKYNET_TARGET_CAPACITY])"

definition pin_token :: "u64 \<Rightarrow> bool \<Rightarrow> skynet_host \<Rightarrow> (nat \<times> skynet_host) option" where
  "pin_token token allow_stopping h =
     (let allowed = (if allow_stopping then allow_session else allow_active)
      in map_option (\<lambda>i. (i, upd_target i pin_swap h))
           (find (\<lambda>i. let t = sh_targets h ! i
                      in allowed AND LP_SKYNET_TARGET_ALLOW (target_current_state t) \<noteq> 0 \<and> tg_token t = token \<and>
                         pin_allowed allowed (tg_lifecycle t)) [0..<LP_SKYNET_TARGET_CAPACITY]))"

section \<open>Workers and dispatch\<close>

text \<open>\<open>p\<close>: the address \<open>calloc\<close> returns, when it succeeds.\<close>

definition lp_skynet_host_worker_start :: "host_env \<Rightarrow> nat \<Rightarrow> u32 \<Rightarrow> pointer \<Rightarrow> skynet_host \<Rightarrow> skynet_host" where
  "lp_skynet_host_worker_start env me worker_id p h =
     (if sh_current_worker h me \<noteq> NULL \<or> sh_host_failed h then h
      else if \<not> he_worker_memory env then host_failure h
      else
        let w = zero_worker\<lparr>wk_worker_id := worker_id, wk_signal_slot := -1, wk_slot_vm_state := 0\<rparr>;
            (acquired, h1) = acquire_signal env p (h\<lparr>sh_heap := (sh_heap h)(p \<mapsto> w)\<rparr>)
        in if \<not> acquired then host_failure (free_worker p h1)
           else if \<not> he_mask_read env \<or> he_was_blocked env then host_failure (free_worker p (release_signal p h1))
           else if \<not> he_timer_created env then host_failure (free_worker p (release_signal p h1))
           else
             let h2 = (upd_worker p (\<lambda>w. w\<lparr>wk_active := True\<rparr>) h1)
                        \<lparr>sh_current_worker := (sh_current_worker h1)(me := p)\<rparr>
             in snd (sync_worker_timer env p h2))"

definition lp_skynet_host_worker_stop :: "nat \<Rightarrow> skynet_host \<Rightarrow> skynet_host" where
  "lp_skynet_host_worker_stop me h =
     (let p = sh_current_worker h me
      in if p = NULL then h
         else
           let h1 = publish_slot p None 0 NULL 0 NULL h;
               h2 = upd_worker p (\<lambda>w. w\<lparr>wk_active := False, wk_timer := (0, 0)\<rparr>) h1;
               h3 = h2\<lparr>sh_current_worker := (sh_current_worker h2)(me := NULL),
                       sh_current_handle := (sh_current_handle h2)(me := 0)\<rparr>
           in free_worker p (release_signal p h3))"

text \<open>
  The common start of \<open>lp_skynet_host_dispatch_enter\<close> and \<open>lp_skynet_host_dispatch_leave\<close> and of the
  second part of \<open>api_target_start\<close>: the slot is cleared, and the ticks pending for its old owner
  are discarded.
\<close>

definition clear_slot :: "host_env \<Rightarrow> nat \<Rightarrow> skynet_host \<Rightarrow> skynet_host" where
  "clear_slot env me h =
     (let p = sh_current_worker h me;
          blocked = block_worker_signal env me h;
          previous_target = wk_slot_target (worker_at p h);
          previous_token = wk_slot_token (worker_at p h);
          h1 = publish_slot p None 0 NULL 0 NULL h
      in if blocked then discard_pending env p previous_target previous_token h1 else h1)"

definition lp_skynet_host_dispatch_enter :: "host_env \<Rightarrow> nat \<Rightarrow> u32 \<Rightarrow> skynet_host \<Rightarrow> skynet_host" where
  "lp_skynet_host_dispatch_enter env me handle h =
     (let h0 = h\<lparr>sh_current_handle := (sh_current_handle h)(me := handle)\<rparr>; p = sh_current_worker h0 me
      in if p = NULL then h0
         else
           let h1 = snd (sync_worker_timer env p (clear_slot env me h0))
           in case pin_active_handle handle h1 of
                None \<Rightarrow> h1
              | Some (i, h2) \<Rightarrow>
                  let t = sh_targets h2 ! i
                  in upd_target i target_unpin (publish_slot p (Some i) (tg_token t) (tg_main_state t) 0 NULL h2))"

definition lp_skynet_host_dispatch_leave :: "host_env \<Rightarrow> nat \<Rightarrow> skynet_host \<Rightarrow> skynet_host" where
  "lp_skynet_host_dispatch_leave env me h =
     (let p = sh_current_worker h me;
          h1 = (if p \<noteq> NULL then snd (sync_worker_timer env p (clear_slot env me h)) else h)
      in h1\<lparr>sh_current_handle := (sh_current_handle h1)(me := 0)\<rparr>)"

section \<open>The interface of the bridge\<close>

definition api_current_handle :: "nat \<Rightarrow> skynet_host \<Rightarrow> u32" where
  "api_current_handle me h = (if sh_current_worker h me = NULL then 0 else sh_current_handle h me)"

text \<open>One active target less.\<close>

definition drop_active :: "skynet_host \<Rightarrow> skynet_host" where
  "drop_active h =
     (let count = (if sh_active_targets h > 0 then sh_active_targets h - 1 else sh_active_targets h)
      in h\<lparr>sh_active_targets := count, sh_active_sample_hz := (if count = 0 then 0 else sh_active_sample_hz h)\<rparr>)"

text \<open>From the wait for the readers on; \<open>None\<close> when it does not end.\<close>

definition reclaim_target :: "lp_skynet_target \<Rightarrow> lp_skynet_target option" where
  "reclaim_target t =
     (if \<not> unpinned t then None
      else
        let t1 = clear_target t
        in Some (case target_transition LP_SKYNET_TARGET_RECLAIMING LP_SKYNET_TARGET_FREE t1 of None \<Rightarrow> t1 | Some t2 \<Rightarrow> t2))"

definition rollback_target_start :: "nat \<Rightarrow> u64 \<Rightarrow> skynet_host \<Rightarrow> skynet_host option" where
  "rollback_target_start i token h =
     (let t = sh_targets h ! i
      in if target_current_state t = LP_SKYNET_TARGET_ACTIVE \<and> tg_token t = token
         then case target_transition LP_SKYNET_TARGET_ACTIVE LP_SKYNET_TARGET_RECLAIMING t of
                None \<Rightarrow> Some h
              | Some t1 \<Rightarrow> map_option (\<lambda>t2. upd_target i (\<lambda>_. t2) (drop_active h)) (reclaim_target t1)
         else Some h)"

text \<open>The loop over the targets: an error if the handle is in use, else the first free target.\<close>

definition select_target :: "u32 \<Rightarrow> skynet_host \<Rightarrow> nat option" where
  "select_target handle h =
     (if list_ex (\<lambda>t. target_current_state t \<noteq> LP_SKYNET_TARGET_FREE \<and> tg_handle t = handle) (sh_targets h) then None
      else find (\<lambda>i. tg_lifecycle (sh_targets h ! i) = LP_SKYNET_TARGET_FREE) [0..<LP_SKYNET_TARGET_CAPACITY])"

definition bump_token :: "u64 \<Rightarrow> u64" where
  "bump_token n = (if n + 1 = 0 then n + 1 + 1 else n + 1)"

text \<open>
  The part of \<open>api_target_start\<close> under the lock, after the checks: the target \<open>i\<close> becomes active;
  \<open>None\<close> when it cannot.
\<close>

definition activate_target ::
  "nat \<Rightarrow> u32 \<Rightarrow> u64 \<Rightarrow> u64 \<Rightarrow> u32 \<Rightarrow> pointer \<Rightarrow> skynet_host \<Rightarrow> bool \<times> skynet_host" where
  "activate_target i handle token generation sample_hz main_state h =
     (let t = prepare_target handle token generation sample_hz main_state (sh_targets h ! i)
      in case target_transition LP_SKYNET_TARGET_FREE LP_SKYNET_TARGET_ACTIVE t of
           None \<Rightarrow> (False, upd_target i (\<lambda>_. t\<lparr>tg_ring := None\<rparr>) h)
         | Some t1 \<Rightarrow>
             (True, (upd_target i (\<lambda>_. t1) h)
                \<lparr>sh_active_sample_hz := sample_hz, sh_active_targets := sh_active_targets h + 1\<rparr>))"

text \<open>\<open>has_token\<close>: whether the output parameter is there. The token is the output, on success.\<close>

definition api_target_start ::
  "host_env \<Rightarrow> nat \<Rightarrow> u32 \<Rightarrow> pointer \<Rightarrow> u64 \<Rightarrow> u32 \<Rightarrow> bool \<Rightarrow> skynet_host \<Rightarrow> (u64 option \<times> skynet_host) option" where
  "api_target_start env me handle main_state generation sample_hz has_token h =
     (let p = sh_current_worker h me
      in if handle = 0 \<or> main_state = NULL \<or> generation = 0 \<or> sample_hz = 0 \<or> \<not> has_token \<or> p = NULL \<or>
            sh_current_handle h me \<noteq> handle \<or> sh_host_failed h
         then Some (None, h)
         else if sh_active_targets h \<noteq> 0 \<and> sh_active_sample_hz h \<noteq> sample_hz then Some (None, h)
         else case select_target handle h of
                None \<Rightarrow> Some (None, h)
              | Some i \<Rightarrow>
                  if \<not> he_events_memory env then Some (None, h)
                  else
                    let token = bump_token (sh_next_token h);
                        (activated, h1) = activate_target i handle token generation sample_hz main_state
                                            (h\<lparr>sh_next_token := token\<rparr>)
                    in if \<not> activated then Some (None, h1)
                       else
                         let (synced, h2) = sync_worker_timer env p (clear_slot env me h1)
                         in if \<not> synced then map_option (\<lambda>h3. (None, h3)) (rollback_target_start i token h2)
                            else Some (Some token, publish_slot p (Some i) token main_state 0 NULL h2))"

definition find_target :: "u64 \<Rightarrow> u64 \<Rightarrow> skynet_host \<Rightarrow> nat option" where
  "find_target state token h =
     find (\<lambda>i. target_current_state (sh_targets h ! i) = state \<and> tg_token (sh_targets h ! i) = token)
       [0..<LP_SKYNET_TARGET_CAPACITY]"

definition api_target_quiesce :: "host_env \<Rightarrow> nat \<Rightarrow> u64 \<Rightarrow> skynet_host \<Rightarrow> (bool \<times> skynet_host) option" where
  "api_target_quiesce env me token h =
     (case find_target LP_SKYNET_TARGET_ACTIVE token h of
        None \<Rightarrow> Some (False, h)
      | Some i \<Rightarrow>
          (case target_transition LP_SKYNET_TARGET_ACTIVE LP_SKYNET_TARGET_STOPPING (sh_targets h ! i) of
             None \<Rightarrow> Some (False, h)
           | Some t \<Rightarrow>
               let h1 = drop_active (upd_target i (\<lambda>_. t) h);
                   p = sh_current_worker h1 me;
                   h2 = (if p \<noteq> NULL \<and> wk_slot_target (worker_at p h1) = Some i
                         then publish_slot p None 0 NULL 0 NULL h1 else h1);
                   h3 = (if p \<noteq> NULL \<and> block_worker_signal env me h1
                         then discard_pending env p (Some i) token h2 else h2);
                   (synced, h4) = sync_worker_timer env p h3;
                   h5 = (if \<not> synced then upd_target i count_timer_failure h4 else h4)
               in if \<not> unpinned (sh_targets h5 ! i) then None else Some (True, h5)))"

definition api_target_release :: "u64 \<Rightarrow> skynet_host \<Rightarrow> skynet_host option" where
  "api_target_release token h =
     (case find_target LP_SKYNET_TARGET_STOPPING token h of
        None \<Rightarrow> Some h
      | Some i \<Rightarrow>
          (case target_transition LP_SKYNET_TARGET_STOPPING LP_SKYNET_TARGET_RECLAIMING (sh_targets h ! i) of
             None \<Rightarrow> Some h
           | Some t \<Rightarrow> map_option (\<lambda>t1. upd_target i (\<lambda>_. t1) h) (reclaim_target t)))"

definition api_publish_state ::
  "nat \<Rightarrow> u64 \<Rightarrow> pointer \<Rightarrow> c_int \<Rightarrow> pointer \<Rightarrow> skynet_host \<Rightarrow> skynet_host" where
  "api_publish_state me token state vm_state cfunction h =
     (case pin_token token False h of
        None \<Rightarrow> h
      | Some (i, h1) \<Rightarrow>
          if sh_current_worker h1 me = NULL \<or> sh_current_handle h1 me \<noteq> tg_handle (sh_targets h1 ! i)
          then upd_target i target_unpin h1
          else upd_target i target_unpin
                 (publish_slot (sh_current_worker h1 me) (Some i) token state vm_state cfunction h1))"

text \<open>An access to the target of a session, between pin and unpin.\<close>

definition with_token :: "u64 \<Rightarrow> (lp_skynet_target \<Rightarrow> lp_skynet_target) \<Rightarrow> skynet_host \<Rightarrow> skynet_host" where
  "with_token token f h =
     (case pin_token token True h of
        None \<Rightarrow> h
      | Some (i, h1) \<Rightarrow> upd_target i target_unpin (upd_target i f h1))"

definition api_begin_event_drain :: "u64 \<Rightarrow> skynet_host \<Rightarrow> skynet_host" where
  "api_begin_event_drain token h = with_token token (\<lambda>t. t\<lparr>tg_draining_events := True\<rparr>) h"

definition api_end_event_drain :: "u64 \<Rightarrow> skynet_host \<Rightarrow> skynet_host" where
  "api_end_event_drain token h = with_token token (\<lambda>t. t\<lparr>tg_draining_events := False\<rparr>) h"

text \<open>\<open>has_event\<close>: whether the output parameter is there.\<close>

definition api_next_event ::
  "u64 \<Rightarrow> bool \<Rightarrow> skynet_host \<Rightarrow> (lp_skynet_tick_event option \<times> skynet_host) option" where
  "api_next_event token has_event h =
     (case pin_token token True h of
        None \<Rightarrow> Some (None, h)
      | Some (i, h1) \<Rightarrow>
          if \<not> has_event then Some (None, upd_target i target_unpin h1)
          else map_option (\<lambda>(e, t). (e, upd_target i target_unpin (upd_target i (\<lambda>_. t) h1)))
                 (pinned_next (sh_targets h1 ! i)))"

definition zero_quality :: lp_skynet_quality where
  "zero_quality = \<lparr>qu_dropped = 0, qu_unstable = 0, qu_profiler_overhead = 0, qu_stale = 0, qu_overrun_events = 0,
     qu_overrun_ticks = 0, qu_timer_failures = 0, qu_worker_mask = 0\<rparr>"

definition api_take_quality :: "u64 \<Rightarrow> skynet_host \<Rightarrow> lp_skynet_quality \<times> skynet_host" where
  "api_take_quality token h =
     (case pin_token token True h of
        None \<Rightarrow> (zero_quality, h)
      | Some (i, h1) \<Rightarrow>
          let (quality, t) = pinned_quality (sh_targets h1 ! i)
          in (quality, upd_target i target_unpin (upd_target i (\<lambda>_. t) h1)))"

definition lp_skynet_host_get_api :: "u32 \<Rightarrow> bool" where
  "lp_skynet_host_get_api abi_version \<longleftrightarrow> abi_version = 3"

end
