(* ===== verification/Lua_Bridge.thy ===== *)
theory Lua_Bridge
  imports Runtime Timer_Registry Skynet_Host "HOL-Library.Monad_Syntax"
begin

text \<open>
  \<open>src/skynet_backend.c\<close> and \<open>src/lua_bridge.c\<close>: the hooks the Lua VM calls, and the host
  operations of the runtime. The bridge drives either the timer of its thread or, when the
  process has a skynet host, a session of it; it hands what it records to the runtime as a
  sequence of recording calls (\<open>runtime_call\<close>).

  \<open>lua_profile_capturestack\<close> and \<open>lua_setprofilehooks\<close> belong to the patched VM: the first is a
  parameter, the second the field \<open>bw_hooks\<close>. A function that would use a deleted timer, or wait
  for ever, is \<open>None\<close>.
\<close>

section \<open>The skynet backend\<close>

datatype lp_skynet_backend_status =
    LP_SKYNET_BACKEND_ABSENT | LP_SKYNET_BACKEND_COMPATIBLE | LP_SKYNET_BACKEND_INCOMPATIBLE

text \<open>
  The statics: whether \<open>pthread_once\<close> has run, whether \<open>resolved_api\<close> is set, and the status.
  The symbol found by \<open>dlsym\<close>, if any, is the function from the version asked for to the version
  of the interface it returns.
\<close>

record skynet_backend =
  sb_resolved :: bool
  sb_api :: bool
  sb_status :: lp_skynet_backend_status

definition initial_backend :: skynet_backend where
  "initial_backend = \<lparr>sb_resolved = False, sb_api = False, sb_status = LP_SKYNET_BACKEND_ABSENT\<rparr>"

definition LP_SKYNET_HOST_ABI_VERSION :: u32 where "LP_SKYNET_HOST_ABI_VERSION = 3"

definition resolve_api :: "(u32 \<Rightarrow> u32 option) option \<Rightarrow> bool \<Rightarrow> skynet_backend \<Rightarrow> skynet_backend" where
  "resolve_api symbol dl_failed b =
     (case symbol of
        None \<Rightarrow> b
      | Some get_api \<Rightarrow>
          if dl_failed then b
          else
            let b1 = b\<lparr>sb_status := LP_SKYNET_BACKEND_INCOMPATIBLE\<rparr>
            in case get_api LP_SKYNET_HOST_ABI_VERSION of
                 None \<Rightarrow> b1
               | Some abi_version \<Rightarrow>
                   if abi_version = LP_SKYNET_HOST_ABI_VERSION
                   then b1\<lparr>sb_api := True, sb_status := LP_SKYNET_BACKEND_COMPATIBLE\<rparr>
                   else b1)"

definition lp_skynet_backend_resolve ::
  "(u32 \<Rightarrow> u32 option) option \<Rightarrow> bool \<Rightarrow> skynet_backend \<Rightarrow> (bool \<times> lp_skynet_backend_status) \<times> skynet_backend" where
  "lp_skynet_backend_resolve symbol dl_failed b =
     (let b1 = (if sb_resolved b then b else (resolve_api symbol dl_failed b)\<lparr>sb_resolved := True\<rparr>)
      in ((sb_api b1, sb_status b1), b1))"

section \<open>The bridge and its world\<close>

record lp_lua_bridge =
  lb_runtime :: pointer
  lb_cpu_timer :: pointer
  lb_scheduler_api :: bool
  lb_main_state :: pointer
  lb_cpu_generation :: u64
  lb_scheduler_token :: u64
  lb_memory_generation :: u64
  lb_profiler_work_depth :: u32
  lb_cpu_active :: bool
  lb_memory_active :: bool
  lb_scheduler_incompatible :: bool

text \<open>The types of the patched VM; \<open>lua_ProfileHooks\<close> holds which of the hooks are set.\<close>

record lua_ProfileFrame =
  lf_function :: pointer
  lf_source :: "bytes option"
  lf_source_length :: u64
  lf_name :: "bytes option"
  lf_name_length :: u64
  lf_cfunction :: pointer
  lf_linedefined :: c_int
  lf_currentline :: c_int
  lf_kind :: u8

record lua_ProfileAllocEvent =
  le_old_pointer :: pointer
  le_new_pointer :: pointer
  le_old_size :: u64
  le_new_size :: u64
  le_success :: u8

record lua_ProfileHooks =
  hk_safe_point :: bool
  hk_state_change :: bool
  hk_allocation :: bool

record bridge_world =
  bw_bridge :: lp_lua_bridge
  bw_timers :: timer_world
  bw_host :: skynet_host
  bw_hooks :: "lua_ProfileHooks option"

text \<open>
  The thread, and what the VM and the system calls of one operation return: the stacks of the
  coroutines, the address and the outcome of the two allocations of \<open>lp_thread_timer_new\<close>.
\<close>

record bridge_env =
  be_me :: nat
  be_capture :: "pointer \<Rightarrow> nat \<Rightarrow> lua_ProfileFrame list \<times> c_int"
  be_timer_address :: pointer
  be_timer_memory :: "bool \<times> bool"
  be_arm :: arm_env
  be_disarm :: disarm_env
  be_host :: host_env

definition upd_bridge :: "(lp_lua_bridge \<Rightarrow> lp_lua_bridge) \<Rightarrow> bridge_world \<Rightarrow> bridge_world" where
  "upd_bridge f w = w\<lparr>bw_bridge := f (bw_bridge w)\<rparr>"

text \<open>An operation on the timer of the bridge, which does nothing for a null pointer.\<close>

definition with_timer :: "(lp_thread_timer \<Rightarrow> lp_thread_timer) \<Rightarrow> bridge_world \<Rightarrow> bridge_world option" where
  "with_timer f w =
     (let p = lb_cpu_timer (bw_bridge w)
      in if p = NULL then Some w
         else case tw_timers (bw_timers w) p of
                None \<Rightarrow> None
              | Some t \<Rightarrow> Some (w\<lparr>bw_timers := put_timer p (f t) (bw_timers w)\<rparr>))"

section \<open>Recording\<close>

definition LP_CAPTURE_STACK_DEPTH :: nat where "LP_CAPTURE_STACK_DEPTH = 64"

text \<open>A frame is either of the two kinds the VM has.\<close>

definition frame_of :: "lua_ProfileFrame \<Rightarrow> lp_stack_frame" where
  "frame_of c = \<lparr>fr_kind = (if lf_kind c = 0 then LP_FRAME_LUA else LP_FRAME_C), fr_function = lf_function c,
     fr_cfunction = lf_cfunction c, fr_source = lf_source c, fr_source_length = lf_source_length c,
     fr_name = lf_name c, fr_name_length = lf_name_length c, fr_linedefined = lf_linedefined c,
     fr_currentline = lf_currentline c\<rparr>"

definition capture_stack :: "bridge_env \<Rightarrow> pointer \<Rightarrow> lp_stack_frame list \<times> bool" where
  "capture_stack env state =
     (let (captured, was_truncated) = be_capture env state LP_CAPTURE_STACK_DEPTH
      in (map frame_of captured, was_truncated \<noteq> 0))"

definition scheduler_active :: "lp_lua_bridge \<Rightarrow> bool" where
  "scheduler_active b \<longleftrightarrow> lb_scheduler_api b \<and> lb_scheduler_token b \<noteq> 0"

definition record_thread_quality :: "bridge_world \<Rightarrow> (runtime_call \<times> bridge_world) option" where
  "record_thread_quality w =
     (let b = bw_bridge w; p = lb_cpu_timer b
      in if p = NULL then Some (Cpu_Quality (lb_cpu_generation b) 0 0 0 0 0, w)
         else case tw_timers (bw_timers w) p of
                None \<Rightarrow> None
              | Some t \<Rightarrow>
                  let (t1, (dropped, unstable, overhead, events, ticks)) = lp_thread_timer_take_quality t
                  in Some (Cpu_Quality (lb_cpu_generation b) dropped unstable overhead events ticks,
                       w\<lparr>bw_timers := put_timer p t1 (bw_timers w)\<rparr>))"

definition record_cpu_event :: "bridge_env \<Rightarrow> u64 \<Rightarrow> pointer \<Rightarrow> lp_vm_state \<Rightarrow> pointer \<Rightarrow> runtime_call" where
  "record_cpu_event env generation state vm_state cfunction =
     (let (frames, truncated) = (if vm_state \<noteq> LP_VM_HOST then capture_stack env state else ([], False))
      in Cpu_Sample generation vm_state cfunction frames truncated)"

text \<open>The loop of \<open>drain_thread_timer\<close>.\<close>

function drain_timer :: "(lp_tick_event \<Rightarrow> runtime_call) \<Rightarrow> lp_thread_timer \<Rightarrow> runtime_call list \<times> lp_thread_timer" where
  "drain_timer record_event t =
     (case lp_thread_timer_next t of
        None \<Rightarrow> ([], t)
      | Some (e, t1) \<Rightarrow> let (calls, t2) = drain_timer record_event t1 in (record_event e # calls, t2))"
  by pat_completeness auto

lemma ring_next_shorter: "ring_next r = Some (e, r') \<Longrightarrow> ring_length r' < ring_length r"
proof -
  assume "ring_next r = Some (e, r')"
  then have ne: "ring_write r - ring_read r \<noteq> 0" and r': "r' = r\<lparr>ring_read := ring_read r + 1\<rparr>"
    by (auto simp: ring_next_def split: if_splits)
  have "ring_length r' = unat (ring_write r - (ring_read r + 1))" by (simp add: ring_length_def r')
  also have "ring_write r - (ring_read r + 1) = (ring_write r - ring_read r) - 1" by (simp add: algebra_simps)
  finally have "ring_length r' = unat ((ring_write r - ring_read r) - 1)" .
  also have "\<dots> < ring_length r" using ne by (simp add: ring_length_def unat_minus_one unat_gt_0)
  finally show ?thesis by simp
qed

termination drain_timer
  by (relation "measure (\<lambda>(_, t). ring_length (tt_ring t))")
    (auto simp: lp_thread_timer_next_def dest: ring_next_shorter)

declare drain_timer.simps [simp del]

definition drain_thread_timer :: "bridge_env \<Rightarrow> bridge_world \<Rightarrow> (runtime_call list \<times> bridge_world) option" where
  "drain_thread_timer env w =
     (let b = bw_bridge w; p = lb_cpu_timer b;
          record_event = (\<lambda>e. record_cpu_event env (lb_cpu_generation b) (te_state e) (te_vm_state e) (te_cfunction e))
      in do {
           (calls, w1) \<leftarrow>
             (if p = NULL then Some ([], w)
              else case tw_timers (bw_timers w) p of
                     None \<Rightarrow> None
                   | Some t \<Rightarrow> let (calls, t1) = drain_timer record_event t
                              in Some (calls, w\<lparr>bw_timers := put_timer p t1 (bw_timers w)\<rparr>));
           (quality, w2) \<leftarrow> record_thread_quality w1;
           Some (calls @ [quality], w2)
         })"

function worker_count :: "u64 \<Rightarrow> u64" where
  "worker_count m = (if m = 0 then 0 else worker_count (m AND (m - 1)) + 1)"
  by pat_completeness auto

lemma clear_lowest_bit: "m \<noteq> 0 \<Longrightarrow> unat (m AND (m - 1)) < unat m" for m :: u64
proof -
  assume ne: "m \<noteq> 0"
  have "m AND (m - 1) \<le> m - 1" by (rule word_and_le1)
  then have "unat (m AND (m - 1)) \<le> unat (m - 1)" by (simp add: word_le_nat_alt)
  also have "\<dots> < unat m" using ne by (simp add: unat_minus_one unat_gt_0)
  finally show ?thesis .
qed

termination worker_count
  by (relation "measure unat") (auto intro: clear_lowest_bit)

declare worker_count.simps [simp del]

text \<open>The loop counts the bits that are set.\<close>

lemma clear_lowest_bit_even: "n \<noteq> 0 \<Longrightarrow> (2 * n) AND (2 * n - 1) = 2 * (n AND (n - 1))" for n :: nat
proof -
  assume "n \<noteq> 0"
  then have "2 * n - 1 = 1 + 2 * (n - 1)" by simp
  then show ?thesis by (simp add: and_rec [of "2 * n"])
qed

lemma clear_lowest_bit_odd: "(1 + 2 * n) AND (2 * n) = 2 * n" for n :: nat
  by (simp add: and_rec [of "Suc (2 * n)"])

definition bits_set :: "nat \<Rightarrow> nat \<Rightarrow> nat" where
  "bits_set k n = length (filter (bit n) [0..<k])"

lemma bits_set_Suc: "bits_set (Suc k) n = (if odd n then 1 else 0) + bits_set k (n div 2)"
proof -
  have "filter (bit n) [0..<Suc k] = (if odd n then [0] else []) @ filter (bit n) (map Suc [0..<k])"
    by (simp add: upt_conv_Cons map_Suc_upt bit_0 del: upt_Suc)
  then show ?thesis by (simp add: bits_set_def filter_map o_def bit_Suc)
qed

lemma bits_set_clear: "n \<noteq> 0 \<Longrightarrow> n < 2 ^ k \<Longrightarrow> bits_set k n = Suc (bits_set k (n AND (n - 1)))"
proof (induction k arbitrary: n)
  case (Suc k)
  show ?case
  proof (cases "odd n")
    case True
    then obtain m where m: "n = 1 + 2 * m" by (metis oddE add.commute)
    then show ?thesis using clear_lowest_bit_odd [of m] by (simp add: bits_set_Suc)
  next
    case False
    then obtain m where m: "n = 2 * m" by (auto elim: evenE)
    then have "m \<noteq> 0" "m < 2 ^ k" using Suc.prems by auto
    from Suc.IH [OF this] clear_lowest_bit_even [OF this(1)] show ?thesis by (simp add: m bits_set_Suc)
  qed
qed simp

text \<open>
  The number of workers reported for a recording is the number of bits set in the mask of
  workers that delivered a tick, so each worker counts once.
\<close>

theorem worker_count_is_popcount: "unat (worker_count workers) = length (filter (bit workers) [0..<64])"
proof -
  have bits: "unat (worker_count m) = bits_set 64 (unat m)" for m
  proof (induction m rule: worker_count.induct)
    case (1 m)
    show ?case
    proof (cases "m = 0")
      case True
      then show ?thesis by (simp add: worker_count.simps [of 0] bits_set_def)
    next
      case False
      have "unat (m AND (m - 1)) = unat m AND (unat m - 1)" using False by (simp add: unat_minus_one unsigned_and_eq)
      then have "bits_set 64 (unat m) = Suc (bits_set 64 (unat (m AND (m - 1))))"
        using bits_set_clear [of "unat m" 64] False unsigned_less [of m] by (simp add: unat_eq_0)
      moreover have "bits_set 64 (unat m) \<le> 64" unfolding bits_set_def using length_filter_le [of _ "[0..<64]"] by simp
      ultimately show ?thesis using 1 [OF False] False
        by (simp add: worker_count.simps [of m] unat_word_ariths)
    qed
  qed
  show ?thesis unfolding bits bits_set_def by (simp add: bit_unsigned_iff cong: filter_cong)
qed

text \<open>The loop of \<open>drain_scheduler\<close>.\<close>

partial_function (option) drain_session ::
  "(lp_skynet_tick_event \<Rightarrow> runtime_call) \<Rightarrow> u64 \<Rightarrow> skynet_host \<Rightarrow> (runtime_call list \<times> skynet_host) option" where
  "drain_session record_event token h =
     (case api_next_event token True h of
        None \<Rightarrow> None
      | Some (None, h1) \<Rightarrow> Some ([], h1)
      | Some (Some e, h1) \<Rightarrow>
          do { (calls, h2) \<leftarrow> drain_session record_event token h1; Some (record_event e # calls, h2) })"

definition drain_scheduler :: "bridge_env \<Rightarrow> bridge_world \<Rightarrow> (runtime_call list \<times> bridge_world) option" where
  "drain_scheduler env w =
     (let b = bw_bridge w; token = lb_scheduler_token b; generation = lb_cpu_generation b;
          record_event = (\<lambda>e. record_cpu_event env generation (ke_state e) (ke_vm_state e) (ke_cfunction e))
      in do {
           (calls, h1) \<leftarrow> drain_session record_event token (bw_host w);
           let (quality, h2) = api_take_quality token h1;
           Some (calls @
             [Cpu_Quality generation (qu_dropped quality) (qu_unstable quality) (qu_profiler_overhead quality)
                (qu_overrun_events quality) (qu_overrun_ticks quality),
              Cpu_Scheduler_Quality generation (qu_stale quality) (qu_timer_failures quality)
                (worker_count (qu_worker_mask quality))],
             w\<lparr>bw_host := h2\<rparr>)
         })"

definition drain_cpu :: "bridge_env \<Rightarrow> bridge_world \<Rightarrow> (runtime_call list \<times> bridge_world) option" where
  "drain_cpu env w = (if scheduler_active (bw_bridge w) then drain_scheduler env w else drain_thread_timer env w)"

section \<open>Profiler work\<close>

definition begin_event_drain :: "bridge_world \<Rightarrow> bridge_world option" where
  "begin_event_drain w =
     (if scheduler_active (bw_bridge w)
      then Some (w\<lparr>bw_host := api_begin_event_drain (lb_scheduler_token (bw_bridge w)) (bw_host w)\<rparr>)
      else with_timer lp_thread_timer_begin_event_drain w)"

definition end_event_drain :: "bridge_world \<Rightarrow> bridge_world option" where
  "end_event_drain w =
     (if scheduler_active (bw_bridge w)
      then Some (w\<lparr>bw_host := api_end_event_drain (lb_scheduler_token (bw_bridge w)) (bw_host w)\<rparr>)
      else with_timer lp_thread_timer_end_event_drain w)"

text \<open>\<open>has_bridge\<close>: whether the argument is not the null pointer.\<close>

definition lp_lua_bridge_begin_profiler_work :: "bool \<Rightarrow> bridge_world \<Rightarrow> (bool \<times> bridge_world) option" where
  "lp_lua_bridge_begin_profiler_work has_bridge w =
     (if \<not> has_bridge then Some (False, w)
      else
        let depth = lb_profiler_work_depth (bw_bridge w);
            w1 = upd_bridge (\<lambda>b. b\<lparr>lb_profiler_work_depth := depth + 1\<rparr>) w
        in if depth = 0 \<and> lb_cpu_active (bw_bridge w1) then map_option (\<lambda>w2. (True, w2)) (begin_event_drain w1)
           else Some (True, w1))"

definition lp_lua_bridge_end_profiler_work :: "bool \<Rightarrow> bool \<Rightarrow> bridge_world \<Rightarrow> bridge_world option" where
  "lp_lua_bridge_end_profiler_work has_bridge entered w =
     (if \<not> has_bridge \<or> \<not> entered \<or> lb_profiler_work_depth (bw_bridge w) = 0 then Some w
      else
        let depth = lb_profiler_work_depth (bw_bridge w) - 1;
            w1 = upd_bridge (\<lambda>b. b\<lparr>lb_profiler_work_depth := depth\<rparr>) w
        in if depth = 0 \<and> lb_cpu_active (bw_bridge w1) then end_event_drain w1 else Some w1)"

section \<open>The hooks\<close>

definition safe_point :: "bridge_env \<Rightarrow> u32 \<Rightarrow> bridge_world \<Rightarrow> (runtime_call list \<times> bridge_world) option" where
  "safe_point env pending w = do {
     (entered, w1) \<leftarrow> lp_lua_bridge_begin_profiler_work True w;
     let call = Safe_Point (lb_cpu_generation (bw_bridge w1)) pending;
     (calls, w2) \<leftarrow> drain_cpu env w1;
     w3 \<leftarrow> lp_lua_bridge_end_profiler_work True entered w2;
     Some (call # calls, w3)
   }"

definition state_change ::
  "bridge_env \<Rightarrow> pointer \<Rightarrow> c_int \<Rightarrow> pointer \<Rightarrow> bridge_world \<Rightarrow> (runtime_call list \<times> bridge_world) option" where
  "state_change env L state cfunction w =
     (if state = LP_VM_HOST \<and> L \<noteq> lb_main_state (bw_bridge w) \<and> \<not> scheduler_active (bw_bridge w)
      then do {
        (entered, w1) \<leftarrow> lp_lua_bridge_begin_profiler_work True w;
        w2 \<leftarrow> with_timer (\<lambda>t. lp_thread_timer_publish_state t
               \<lparr>te_state = lb_main_state (bw_bridge w1), te_vm_state = LP_VM_HOST, te_cfunction = NULL\<rparr>) w1;
        let call = State_Change (lb_cpu_generation (bw_bridge w2)) LP_VM_HOST;
        (calls, w3) \<leftarrow> drain_thread_timer env w2;
        w4 \<leftarrow> lp_lua_bridge_end_profiler_work True entered w3;
        Some (call # calls, w4)
      }
      else do {
        w1 \<leftarrow> (if scheduler_active (bw_bridge w)
               then Some (w\<lparr>bw_host := api_publish_state (be_me env) (lb_scheduler_token (bw_bridge w)) L state cfunction
                              (bw_host w)\<rparr>)
               else with_timer (\<lambda>t. lp_thread_timer_publish_state t
                      \<lparr>te_state = L, te_vm_state = state, te_cfunction = cfunction\<rparr>) w);
        let call = State_Change (lb_cpu_generation (bw_bridge w1)) state;
        if state = LP_VM_HOST \<and> scheduler_active (bw_bridge w1)
        then do {
          (entered, w2) \<leftarrow> lp_lua_bridge_begin_profiler_work True w1;
          (calls, w3) \<leftarrow> drain_cpu env w2;
          w4 \<leftarrow> lp_lua_bridge_end_profiler_work True entered w3;
          Some (call # calls, w4)
        }
        else Some ([call], w1)
      })"

text \<open>
  Whether an allocation is sampled is decided by the runtime, so that the hook needs it; the
  calls are those it makes, in order.
\<close>

definition allocation ::
  "'d doubles \<Rightarrow> bridge_env \<Rightarrow> lp_runtime \<Rightarrow> pointer \<Rightarrow> lua_ProfileAllocEvent \<Rightarrow> bridge_world \<Rightarrow>
   (runtime_call list \<times> bridge_world) option" where
  "allocation d env runtime L event w =
     (let generation = lb_memory_generation (bw_bridge w); success = le_success event \<noteq> 0
      in if lb_profiler_work_depth (bw_bridge w) \<noteq> 0
         then Some ([Reconcile_Live generation (le_old_pointer event) (le_new_pointer event) (le_new_size event) success], w)
         else do {
           (entered, w1) \<leftarrow> lp_lua_bridge_begin_profiler_work True w;
           let call1 = Allocation generation (le_old_pointer event) (le_new_pointer event) (le_new_size event) success;
           let call2 = Sample_Candidate generation (le_new_pointer event) (le_new_size event) success;
           runtime1 \<leftarrow> runtime_apply d call1 runtime;
           let weights = snd (lp_runtime_memory_sample_candidate d runtime1 generation (le_new_pointer event)
                                (le_new_size event) success);
           let calls = (case weights of
                          None \<Rightarrow> []
                        | Some (weighted_space, weighted_objects) \<Rightarrow>
                            let (frames, truncated) = capture_stack env L
                            in [Memory_Sample generation (le_new_pointer event) frames truncated (le_new_size event)
                                  weighted_space weighted_objects]);
           w2 \<leftarrow> lp_lua_bridge_end_profiler_work True entered w1;
           Some ([call1, call2] @ calls, w2)
         })"

definition apply_hooks :: "bridge_world \<Rightarrow> bridge_world" where
  "apply_hooks w =
     (let b = bw_bridge w;
          hooks0 = \<lparr>hk_safe_point = False, hk_state_change = False, hk_allocation = False\<rparr>;
          hooks1 = (if lb_cpu_active b then hooks0\<lparr>hk_safe_point := True, hk_state_change := True\<rparr> else hooks0);
          hooks2 = (if lb_memory_active b then hooks1\<lparr>hk_allocation := True\<rparr> else hooks1)
      in if \<not> lb_cpu_active b \<and> \<not> lb_memory_active b then w\<lparr>bw_hooks := None\<rparr>
         else w\<lparr>bw_hooks := Some hooks2\<rparr>)"

section \<open>The host operations of the runtime\<close>

text \<open>The two ways of getting ticks, up to \<open>cpu_active = true\<close>; \<open>Inl\<close> is the early return.\<close>

definition acquire_ticks :: "bridge_env \<Rightarrow> u64 \<Rightarrow> u32 \<Rightarrow> bridge_world \<Rightarrow> ((lp_status \<times> bridge_world) + bridge_world) option" where
  "acquire_ticks env generation sample_hz w =
     (let b = bw_bridge w
      in if lb_scheduler_incompatible b then Some (Inl (LP_ERR_HOST, w))
         else if lb_scheduler_api b
         then
           let handle = api_current_handle (be_me env) (bw_host w)
           in if handle = 0 then Some (Inl (LP_ERR_HOST, w))
              else case api_target_start (be_host env) (be_me env) handle (lb_main_state b) generation sample_hz True (bw_host w) of
                     None \<Rightarrow> None
                   | Some (None, h) \<Rightarrow> Some (Inl (LP_ERR_HOST, w\<lparr>bw_host := h\<rparr>))
                   | Some (Some token, h) \<Rightarrow>
                       Some (Inr (upd_bridge (\<lambda>b. b\<lparr>lb_scheduler_token := token\<rparr>) (w\<lparr>bw_host := h\<rparr>)))
         else case lp_thread_timer_new (fst (be_timer_memory env)) (snd (be_timer_memory env)) of
                None \<Rightarrow> Some (Inl (LP_ERR_NOMEM, upd_bridge (\<lambda>b. b\<lparr>lb_cpu_timer := NULL\<rparr>) w))
              | Some t \<Rightarrow>
                  Some (Inr (upd_bridge (\<lambda>b. b\<lparr>lb_cpu_timer := be_timer_address env\<rparr>)
                    (w\<lparr>bw_timers := put_timer (be_timer_address env) t (bw_timers w)\<rparr>))))"

definition start_collector ::
  "bridge_env \<Rightarrow> u64 \<Rightarrow> lp_collector_config \<Rightarrow> bridge_world \<Rightarrow> (lp_status \<times> bridge_world) option" where
  "start_collector env generation config w =
     (if cfg_kind config = LP_COLLECTOR_CPU
      then
        (case acquire_ticks env generation (cfg_sample_hz config) w of
           None \<Rightarrow> None
         | Some (Inl r) \<Rightarrow> Some r
         | Some (Inr w1) \<Rightarrow>
             let w2 = apply_hooks (upd_bridge (\<lambda>b. b\<lparr>lb_cpu_active := True, lb_cpu_generation := generation\<rparr>) w1)
             in if \<not> scheduler_active (bw_bridge w2)
                then
                  let p = lb_cpu_timer (bw_bridge w2);
                      (timers, status, period) = lp_thread_timer_arm (be_arm env) (be_me env) p (cfg_sample_hz config) (bw_timers w2);
                      w3 = w2\<lparr>bw_timers := timers\<rparr>
                  in if status \<noteq> LP_OK
                     then
                       let w4 = apply_hooks (upd_bridge (\<lambda>b. b\<lparr>lb_cpu_active := False, lb_cpu_generation := 0\<rparr>) w3)
                       in Some (status, upd_bridge (\<lambda>b. b\<lparr>lb_cpu_timer := NULL\<rparr>)
                            (w4\<lparr>bw_timers := lp_thread_timer_delete (be_disarm env) (be_me env) p (bw_timers w4)\<rparr>))
                     else if lb_profiler_work_depth (bw_bridge w3) = 0
                     then map_option (\<lambda>w4. (LP_OK, w4)) (end_event_drain w3)
                     else Some (LP_OK, w3)
                else if lb_profiler_work_depth (bw_bridge w2) = 0
                then map_option (\<lambda>w4. (LP_OK, w4)) (end_event_drain w2)
                else Some (LP_OK, w2))
      else
        Some (LP_OK, apply_hooks (upd_bridge (\<lambda>b. b\<lparr>lb_memory_active := True, lb_memory_generation := generation\<rparr>) w)))"

text \<open>The part of \<open>stop_collector\<close> that ends the ticks of the current CPU recording.\<close>

definition stop_ticks :: "bridge_env \<Rightarrow> bridge_world \<Rightarrow> (runtime_call list \<times> bridge_world) option" where
  "stop_ticks env w =
     (if scheduler_active (bw_bridge w)
      then do {
        (entered, w1) \<leftarrow> lp_lua_bridge_begin_profiler_work True w;
        (quiesced, h) \<leftarrow> api_target_quiesce (be_host env) (be_me env) (lb_scheduler_token (bw_bridge w1)) (bw_host w1);
        (calls, w2) \<leftarrow> drain_cpu env (w1\<lparr>bw_host := h\<rparr>);
        w3 \<leftarrow> lp_lua_bridge_end_profiler_work True entered w2;
        Some (calls, w3)
      }
      else drain_thread_timer env
             (w\<lparr>bw_timers := lp_thread_timer_disarm (be_disarm env) (be_me env) (lb_cpu_timer (bw_bridge w)) (bw_timers w)\<rparr>))"

definition stop_collector ::
  "bridge_env \<Rightarrow> lp_collector_kind \<Rightarrow> u64 \<Rightarrow> bridge_world \<Rightarrow> (runtime_call list \<times> bridge_world) option" where
  "stop_collector env kind generation w = do {
     (calls, w1) \<leftarrow>
       (if kind = LP_COLLECTOR_CPU \<and> lb_cpu_generation (bw_bridge w) = generation
        then map_option (\<lambda>(calls, w1). (calls,
               upd_bridge (\<lambda>b. b\<lparr>lb_cpu_active := False, lb_cpu_generation := 0\<rparr>) w1)) (stop_ticks env w)
        else Some ([], w));
     let w2 = (if kind = LP_COLLECTOR_MEMORY \<and> lb_memory_generation (bw_bridge w1) = generation
               then upd_bridge (\<lambda>b. b\<lparr>lb_memory_active := False, lb_memory_generation := 0\<rparr>) w1 else w1);
     let w3 = apply_hooks w2;
     if kind = LP_COLLECTOR_CPU
     then if lb_scheduler_token (bw_bridge w3) \<noteq> 0
          then map_option (\<lambda>h. (calls, upd_bridge (\<lambda>b. b\<lparr>lb_scheduler_token := 0\<rparr>) (w3\<lparr>bw_host := h\<rparr>)))
                 (api_target_release (lb_scheduler_token (bw_bridge w3)) (bw_host w3))
          else Some (calls, upd_bridge (\<lambda>b. b\<lparr>lb_cpu_timer := NULL\<rparr>)
                 (w3\<lparr>bw_timers := lp_thread_timer_delete (be_disarm env) (be_me env) (lb_cpu_timer (bw_bridge w3)) (bw_timers w3)\<rparr>))
     else Some (calls, w3)
   }"

text \<open>\<open>memset\<close>, then the fields; the backend as far as \<open>lp_skynet_backend_resolve\<close> returns it.\<close>

definition lp_lua_bridge_init :: "bool \<times> lp_skynet_backend_status \<Rightarrow> pointer \<Rightarrow> lp_lua_bridge" where
  "lp_lua_bridge_init backend main_state =
     \<lparr>lb_runtime = NULL, lb_cpu_timer = NULL, lb_scheduler_api = fst backend, lb_main_state = main_state,
      lb_cpu_generation = 0, lb_scheduler_token = 0, lb_memory_generation = 0, lb_profiler_work_depth = 0,
      lb_cpu_active = False, lb_memory_active = False,
      lb_scheduler_incompatible = (snd backend = LP_SKYNET_BACKEND_INCOMPATIBLE)\<rparr>"

definition lp_lua_bridge_bind :: "pointer \<Rightarrow> lp_lua_bridge \<Rightarrow> lp_lua_bridge" where
  "lp_lua_bridge_bind runtime b = b\<lparr>lb_runtime := runtime\<rparr>"

end
