(* ===== verification/Skynet_Sessions.thy ===== *)
theory Skynet_Sessions
  imports Skynet_Host
begin

text \<open>
  What every history of host operations keeps: the invariant \<open>host_ok\<close> of targets, registry and
  published slots between two operations. Most operations only count, publish or drain; they are
  \<open>quiet\<close>: the sessions and the registry stay as they are. The rest start or stop a worker or a
  session.

  Shown: every history returns, with no endless wait and no access to freed memory; the released
  session is gone for good; a start that fails leaves the sessions as they were; and what is
  published for a worker is what its ticks deliver.
\<close>

section \<open>Quiet operations\<close>

definition keeps_session :: "lp_skynet_target \<Rightarrow> lp_skynet_target \<Rightarrow> bool" where
  "keeps_session t t' \<longleftrightarrow>
     tg_lifecycle t' = tg_lifecycle t \<and> tg_handle t' = tg_handle t \<and> tg_token t' = tg_token t \<and>
     tg_generation t' = tg_generation t \<and> tg_sample_hz t' = tg_sample_hz t \<and> tg_main_state t' = tg_main_state t \<and>
     (tg_ring t = None \<longrightarrow> tg_ring t' = None) \<and>
     (\<forall>r. tg_ring t = Some r \<longrightarrow> ring_ok r \<longrightarrow> (\<exists>r'. tg_ring t' = Some r' \<and> ring_ok r'))"

lemma keeps_session_refl [simp, intro!]: "keeps_session t t"
  by (simp add: keeps_session_def)

lemma keeps_session_trans: "keeps_session t t' \<Longrightarrow> keeps_session t' t'' \<Longrightarrow> keeps_session t t''"
  by (cases "tg_ring t") (auto simp: keeps_session_def)

lemma keeps_session_counters [simp, intro!]:
  "keeps_session t (count_overrun info t)" "keeps_session t (count_unstable t)" "keeps_session t (count_stale t)"
  "keeps_session t (count_timer_failure t)" "keeps_session t (discard_tick p info t)"
  by (simp_all add: keeps_session_def count_overrun_def count_unstable_def count_stale_def count_timer_failure_def
      discard_tick_def Let_def)

lemma keeps_session_discards: "keeps_session t (fold (discard_tick p) infos t)"
proof (induction infos arbitrary: t)
  case (Cons info infos)
  show ?case by (simp, rule keeps_session_trans [OF keeps_session_counters(5) Cons])
qed simp

text \<open>A pin that is given back.\<close>

lemma unpin_pin [simp]: "target_unpin (pin_swap t) = t"
  by (simp add: target_unpin_def pin_swap_def)

lemma keeps_session_unpin:
  assumes "keeps_session (pin_swap t) t'" shows "keeps_session t (target_unpin t')"
  using assms by (auto simp: keeps_session_def pin_swap_def target_unpin_def)

lemma keeps_session_pin_discards:
  assumes "target_pin_session token allowed t = Some (state, t1)"
  shows "keeps_session t (target_unpin (fold (discard_tick p) infos t1))"
proof -
  have "t1 = pin_swap t"
    using assms by (auto simp: target_pin_session_def target_pin_def split: option.splits if_splits)
  then show ?thesis by (auto intro: keeps_session_unpin keeps_session_discards)
qed

definition worker_ok :: "lp_skynet_worker \<Rightarrow> bool" where
  "worker_ok w \<longleftrightarrow>
     wk_slot_version w AND 1 = 0 \<and>
     (\<forall>i. wk_slot_target w = Some i \<longrightarrow> i < LP_SKYNET_TARGET_CAPACITY) \<and>
     wk_slot_quality_target w = wk_slot_target w \<and> wk_slot_quality_token w = wk_slot_token w \<and>
     wk_timer w = (if wk_armed_hz w = 0 then (0, 0) else timer_interval (wk_armed_hz w))"

definition same_worker :: "lp_skynet_worker \<Rightarrow> lp_skynet_worker \<Rightarrow> bool" where
  "same_worker w w' \<longleftrightarrow>
     wk_worker_id w' = wk_worker_id w \<and> wk_signal_slot w' = wk_signal_slot w \<and> wk_active w' = wk_active w \<and>
     (worker_ok w \<longrightarrow> worker_ok w')"

lemma same_worker_refl [simp, intro!]: "same_worker w w"
  by (simp add: same_worker_def)

definition quiet :: "skynet_host \<Rightarrow> skynet_host \<Rightarrow> bool" where
  "quiet h h' \<longleftrightarrow>
     list_all2 keeps_session (sh_targets h) (sh_targets h') \<and> sh_workers h' = sh_workers h \<and>
     (\<forall>p. rel_option same_worker (sh_heap h p) (sh_heap h' p)) \<and> sh_active_targets h' = sh_active_targets h \<and>
     sh_active_sample_hz h' = sh_active_sample_hz h \<and> sh_next_token h' = sh_next_token h \<and>
     sh_signal_users h' = sh_signal_users h \<and> sh_handler_installed h' = sh_handler_installed h \<and>
     sh_current_worker h' = sh_current_worker h"

lemma list_all2_keeps_session_refl [simp]: "list_all2 keeps_session ts ts"
  by (simp add: list_all2_conv_all_nth)

lemma rel_option_same_worker_refl [simp]: "rel_option same_worker x x"
  by (cases x) simp_all

lemma quiet_refl [simp, intro!]: "quiet h h"
  by (simp add: quiet_def)

lemma quiet_trans [trans]:
  assumes "quiet h h'" and "quiet h' h''" shows "quiet h h''"
proof -
  have "list_all2 keeps_session (sh_targets h) (sh_targets h'')"
    by (rule list_all2_trans [OF keeps_session_trans]) (use assms in \<open>auto simp: quiet_def\<close>)
  moreover have "rel_option same_worker (sh_heap h p) (sh_heap h'' p)" for p
  proof -
    have "rel_option same_worker (sh_heap h p) (sh_heap h' p)" "rel_option same_worker (sh_heap h' p) (sh_heap h'' p)"
      using assms by (simp_all add: quiet_def)
    then show ?thesis
      by (cases "sh_heap h p"; cases "sh_heap h' p"; cases "sh_heap h'' p") (auto simp: same_worker_def)
  qed
  ultimately show ?thesis using assms by (simp add: quiet_def)
qed

lemma quiet_failure [simp]: "quiet h (host_failure h)"
  by (simp add: host_failure_def quiet_def)

lemma quiet_handle [simp]: "quiet h (h\<lparr>sh_current_handle := f\<rparr>)"
  by (simp add: quiet_def)

lemma quiet_upd_target:
  "(i < length (sh_targets h) \<Longrightarrow> keeps_session (sh_targets h ! i) (f (sh_targets h ! i))) \<Longrightarrow> quiet h (upd_target i f h)"
  by (cases "i < length (sh_targets h)")
    (auto simp: quiet_def upd_target_def list_all2_conv_all_nth nth_list_update split: if_split)

lemma quiet_upd_worker:
  "(\<And>w. sh_heap h p = Some w \<Longrightarrow> same_worker w (f w)) \<Longrightarrow> quiet h (upd_worker p f h)"
  by (cases "sh_heap h p") (auto simp: quiet_def upd_worker_def)

text \<open>A published slot is whole, and the old one is only visible to the quality counters meanwhile.\<close>

definition published :: "nat option \<Rightarrow> u64 \<Rightarrow> pointer \<Rightarrow> c_int \<Rightarrow> pointer \<Rightarrow> lp_skynet_worker \<Rightarrow> lp_skynet_worker" where
  "published target token state vm_state cfunction w =
     w\<lparr>wk_slot_version := wk_slot_version w + 2, wk_slot_target := target, wk_slot_token := token,
       wk_slot_quality_target := target, wk_slot_quality_token := token, wk_slot_state := state,
       wk_slot_cfunction := cfunction, wk_slot_vm_state := vm_state\<rparr>"

lemma publish_stores_fold:
  "fold (\<lambda>store w. store w) (publish_stores target token state vm_state cfunction) w =
   published target token state vm_state cfunction w"
  by (simp add: publish_stores_def published_def)

lemma even_version: "(v + 2) AND 1 = 0 \<longleftrightarrow> v AND 1 = 0" for v :: u64
  by (simp add: and_one_eq mod_2_eq_odd)

lemma same_worker_published:
  assumes "\<forall>i. target = Some i \<longrightarrow> i < LP_SKYNET_TARGET_CAPACITY"
  shows "same_worker w (published target token state vm_state cfunction w)"
  using assms by (simp add: same_worker_def worker_ok_def published_def even_version)

lemma quiet_publish:
  assumes "\<forall>i. target = Some i \<longrightarrow> i < LP_SKYNET_TARGET_CAPACITY"
  shows "quiet h (publish_slot p target token state vm_state cfunction h)"
proof -
  let ?h = "upd_worker p (fold (\<lambda>store w. store w) (publish_stores target token state vm_state cfunction)) h"
  have 1: "quiet h ?h"
    by (rule quiet_upd_worker) (simp add: publish_stores_fold same_worker_published assms)
  have "keeps_session t (t\<lparr>tg_worker_mask := m\<rparr>)" for t m by (simp add: keeps_session_def)
  then have 2: "quiet ?h (upd_target i (\<lambda>t. t\<lparr>tg_worker_mask := tg_worker_mask t OR m\<rparr>) ?h)" for i m
    by (intro quiet_upd_target)
  show ?thesis
    using 1 quiet_trans [OF 1 2] by (cases target) (simp_all add: publish_slot_def Let_def)
qed

lemma quiet_publish_None [simp]: "quiet h (publish_slot p None token state vm_state cfunction h)"
  by (simp add: quiet_publish)

lemma quiet_discard_pending [simp]: "quiet h (discard_pending env p target token h)"
  by (auto simp: discard_pending_def split: option.splits intro: quiet_upd_target keeps_session_pin_discards)

lemma quiet_record_failure [simp]: "quiet h (record_active_timer_failure h)"
proof -
  have "keeps_session t (case target_pin allow_active t of None \<Rightarrow> t
      | Some (state, t1) \<Rightarrow> target_unpin (count_timer_failure t1))" for t
    by (auto simp: target_pin_def intro: keeps_session_unpin)
  then show ?thesis by (simp add: record_active_timer_failure_def quiet_def list_all2_conv_all_nth)
qed

lemma quiet_clear_slot [simp]: "quiet h (clear_slot env me h)"
  unfolding clear_slot_def Let_def
  by (simp split: if_split) (intro impI quiet_trans [OF quiet_publish_None quiet_discard_pending])

lemma quiet_sync_worker_timer: "quiet h (snd (sync_worker_timer env p h))"
proof -
  have 1: "quiet h (record_active_timer_failure (host_failure h))"
    by (rule quiet_trans [OF quiet_failure quiet_record_failure])
  have 2: "quiet h (upd_worker p (\<lambda>w. w\<lparr>wk_timer := (0, 0), wk_armed_hz := 0\<rparr>) h)"
    by (rule quiet_upd_worker) (simp add: same_worker_def worker_ok_def)
  have 3: "quiet h (upd_worker p (\<lambda>w. w\<lparr>wk_timer := timer_interval hz, wk_armed_hz := hz\<rparr>) h)" if "hz \<noteq> 0" for hz
    by (rule quiet_upd_worker) (simp add: same_worker_def worker_ok_def that)
  show ?thesis using 1 2 3 by (simp add: sync_worker_timer_def Let_def)
qed

section \<open>The invariant\<close>

text \<open>
  Between two operations no pin is held, and a target is free, active or stopping; its events,
  handle and token are there exactly while it is not free.
\<close>

definition target_ok :: "lp_skynet_target \<Rightarrow> bool" where
  "target_ok t \<longleftrightarrow>
     (if tg_lifecycle t = LP_SKYNET_TARGET_FREE
      then tg_ring t = None \<and> tg_handle t = 0 \<and> tg_token t = 0 \<and> tg_generation t = 0 \<and> tg_sample_hz t = 0 \<and>
        tg_main_state t = NULL
      else (tg_lifecycle t = LP_SKYNET_TARGET_ACTIVE \<or> tg_lifecycle t = LP_SKYNET_TARGET_STOPPING) \<and>
        (\<exists>r. tg_ring t = Some r \<and> ring_ok r) \<and> tg_handle t \<noteq> 0 \<and> tg_token t \<noteq> 0)"

definition active_in :: "lp_skynet_target list \<Rightarrow> nat" where
  "active_in ts = length (filter (\<lambda>t. tg_lifecycle t = LP_SKYNET_TARGET_ACTIVE) ts)"

definition handles_distinct :: "lp_skynet_target list \<Rightarrow> bool" where
  "handles_distinct ts \<longleftrightarrow>
     (\<forall>i < length ts. \<forall>j < length ts. tg_lifecycle (ts ! i) \<noteq> LP_SKYNET_TARGET_FREE \<longrightarrow>
        tg_lifecycle (ts ! j) \<noteq> LP_SKYNET_TARGET_FREE \<longrightarrow> tg_handle (ts ! i) = tg_handle (ts ! j) \<longrightarrow> i = j)"

definition targets_ok :: "skynet_host \<Rightarrow> bool" where
  "targets_ok h \<longleftrightarrow>
     length (sh_targets h) = LP_SKYNET_TARGET_CAPACITY \<and> (\<forall>t \<in> set (sh_targets h). target_ok t) \<and>
     handles_distinct (sh_targets h) \<and> unat (sh_active_targets h) = active_in (sh_targets h) \<and>
     (sh_active_targets h = 0 \<longleftrightarrow> sh_active_sample_hz h = 0) \<and>
     (\<forall>t \<in> set (sh_targets h). tg_lifecycle t = LP_SKYNET_TARGET_ACTIVE \<longrightarrow> tg_sample_hz t = sh_active_sample_hz h)"

text \<open>The workers in memory are those in the registry, one for each thread that has one.\<close>

definition worker_registered :: "skynet_host \<Rightarrow> pointer \<Rightarrow> lp_skynet_worker \<Rightarrow> bool" where
  "worker_registered h p w \<longleftrightarrow>
     (\<exists>i < LP_SKYNET_WORKER_CAPACITY. wk_signal_slot w = int i \<and> sh_workers h ! i = p) \<and> wk_active w"

definition worker_place_ok :: "skynet_host \<Rightarrow> nat \<Rightarrow> bool" where
  "worker_place_ok h i \<longleftrightarrow>
     (sh_workers h ! i \<noteq> NULL \<longrightarrow> (\<exists>w. sh_heap h (sh_workers h ! i) = Some w \<and> wk_signal_slot w = int i))"

definition workers_in :: "pointer list \<Rightarrow> nat" where
  "workers_in ps = length (filter (\<lambda>p. p \<noteq> NULL) ps)"

definition registry_ok :: "skynet_host \<Rightarrow> bool" where
  "registry_ok h \<longleftrightarrow>
     length (sh_workers h) = LP_SKYNET_WORKER_CAPACITY \<and> sh_heap h NULL = None \<and>
     (\<forall>p w. sh_heap h p = Some w \<longrightarrow> worker_registered h p w) \<and>
     (\<forall>i < LP_SKYNET_WORKER_CAPACITY. worker_place_ok h i) \<and>
     unat (sh_signal_users h) = workers_in (sh_workers h) \<and>
     (sh_handler_installed h \<longleftrightarrow> sh_signal_users h \<noteq> 0)"

definition threads_ok :: "skynet_host \<Rightarrow> bool" where
  "threads_ok h \<longleftrightarrow>
     (\<forall>me. sh_current_worker h me = NULL \<or> sh_heap h (sh_current_worker h me) \<noteq> None) \<and>
     (\<forall>me me'. sh_current_worker h me = sh_current_worker h me' \<longrightarrow> sh_current_worker h me \<noteq> NULL \<longrightarrow> me = me')"

definition slots_ok :: "skynet_host \<Rightarrow> bool" where
  "slots_ok h \<longleftrightarrow> (\<forall>p w. sh_heap h p = Some w \<longrightarrow> worker_ok w)"

definition host_ok :: "skynet_host \<Rightarrow> bool" where
  "host_ok h \<longleftrightarrow> targets_ok h \<and> registry_ok h \<and> threads_ok h \<and> slots_ok h"

lemma host_ok_initial: "host_ok initial_host"
  by (simp add: host_ok_def targets_ok_def registry_ok_def threads_ok_def slots_ok_def initial_host_def target_ok_def zero_target_def
      handles_distinct_def active_in_def worker_place_ok_def workers_in_def LP_SKYNET_WORKER_CAPACITY_def)

lemma keeps_session_target_ok: "keeps_session t t' \<Longrightarrow> target_ok t \<Longrightarrow> target_ok t'"
  by (auto simp: target_ok_def keeps_session_def split: if_splits)

lemma keeps_sessions_active_in: "list_all2 keeps_session ts ts' \<Longrightarrow> active_in ts' = active_in ts"
  by (induction rule: list_all2_induct) (auto simp: active_in_def keeps_session_def)

lemma keeps_sessions_handles:
  "list_all2 keeps_session ts ts' \<Longrightarrow> handles_distinct ts \<Longrightarrow> handles_distinct ts'"
  unfolding handles_distinct_def list_all2_conv_all_nth keeps_session_def by metis

lemma quiet_targets_ok:
  assumes "quiet h h'" and "targets_ok h" shows "targets_ok h'"
proof -
  have ts: "list_all2 keeps_session (sh_targets h) (sh_targets h')" using assms(1) by (simp add: quiet_def)
  have "target_ok t' \<and> (tg_lifecycle t' = LP_SKYNET_TARGET_ACTIVE \<longrightarrow> tg_sample_hz t' = sh_active_sample_hz h)"
    if t': "t' \<in> set (sh_targets h')" for t'
  proof -
    obtain t where "t \<in> set (sh_targets h)" "keeps_session t t'"
      using ts t' by (metis in_set_conv_nth list_all2_conv_all_nth)
    then show ?thesis
      using assms(2) keeps_session_target_ok [of t t'] by (auto simp: targets_ok_def keeps_session_def)
  qed
  then show ?thesis
    using assms keeps_sessions_active_in [OF ts] keeps_sessions_handles [OF ts] list_all2_lengthD [OF ts]
    by (simp add: targets_ok_def quiet_def)
qed

lemma quiet_worker:
  assumes "quiet h h'" and "sh_heap h' p = Some w'"
  obtains w where "sh_heap h p = Some w" "same_worker w w'"
proof -
  have "rel_option same_worker (sh_heap h p) (Some w')" using assms by (metis quiet_def)
  then show thesis using that by (cases "sh_heap h p") auto
qed

lemma quiet_worker':
  assumes "quiet h h'" and "sh_heap h p = Some w"
  obtains w' where "sh_heap h' p = Some w'" "same_worker w w'"
proof -
  have "rel_option same_worker (Some w) (sh_heap h' p)" using assms by (metis quiet_def)
  then show thesis using that by (cases "sh_heap h' p") auto
qed

lemma quiet_heap_None: "quiet h h' \<Longrightarrow> sh_heap h' p = None \<longleftrightarrow> sh_heap h p = None"
  by (metis quiet_def rel_option_None1 rel_option_None2)

lemma quiet_threads_ok: "quiet h h' \<Longrightarrow> threads_ok h \<Longrightarrow> threads_ok h'"
  unfolding threads_ok_def by (simp only: quiet_heap_None) (simp add: quiet_def)

lemma quiet_registry_ok:
  assumes q: "quiet h h'" and ok: "registry_ok h" shows "registry_ok h'"
proof -
  have ws: "sh_workers h' = sh_workers h" using q by (simp add: quiet_def)
  have "worker_registered h' p w'" if p: "sh_heap h' p = Some w'" for p w'
  proof -
    obtain w where "sh_heap h p = Some w" "same_worker w w'" using q p by (rule quiet_worker)
    then show ?thesis using ok by (auto simp: registry_ok_def worker_registered_def same_worker_def ws)
  qed
  moreover have "worker_place_ok h' i" if "i < LP_SKYNET_WORKER_CAPACITY" for i
  proof (cases "sh_workers h ! i = NULL")
    case False
    then obtain w where "sh_heap h (sh_workers h ! i) = Some w" "wk_signal_slot w = int i"
      using ok \<open>i < _\<close> by (auto simp: registry_ok_def worker_place_ok_def)
    then show ?thesis by (elim quiet_worker' [OF q]) (simp add: worker_place_ok_def same_worker_def ws)
  qed (simp add: worker_place_ok_def ws)
  moreover have "sh_signal_users h' = sh_signal_users h" "sh_handler_installed h' = sh_handler_installed h"
    using q by (simp_all add: quiet_def)
  ultimately show ?thesis using ok by (simp add: registry_ok_def quiet_heap_None [OF q] ws)
qed

lemma quiet_slots_ok: "quiet h h' \<Longrightarrow> slots_ok h \<Longrightarrow> slots_ok h'"
  unfolding slots_ok_def by (meson quiet_worker same_worker_def)

lemma quiet_host_ok: "quiet h h' \<Longrightarrow> host_ok h \<Longrightarrow> host_ok h'"
  unfolding host_ok_def using quiet_targets_ok quiet_registry_ok quiet_threads_ok quiet_slots_ok by blast

section \<open>Ticks, drains and publications\<close>

lemma upd_target_upd: "upd_target i f (upd_target i g h) = upd_target i (\<lambda>t. f (g t)) h"
  by (cases "i < length (sh_targets h)") (simp_all add: upd_target_def list_update_beyond)

lemma upd_target_nth: "i < length (sh_targets h) \<Longrightarrow> sh_targets (upd_target i f h) ! i = f (sh_targets h ! i)"
  by (simp add: upd_target_def)

lemma host_ok_length [dest]: "host_ok h \<Longrightarrow> length (sh_targets h) = LP_SKYNET_TARGET_CAPACITY"
  by (simp add: host_ok_def targets_ok_def)

lemma host_ok_target: "host_ok h \<Longrightarrow> i < LP_SKYNET_TARGET_CAPACITY \<Longrightarrow> target_ok (sh_targets h ! i)"
  by (simp add: host_ok_def targets_ok_def)

lemma host_ok_worker: "host_ok h \<Longrightarrow> sh_heap h p = Some w \<Longrightarrow> worker_ok w \<and> worker_registered h p w"
  by (simp add: host_ok_def slots_ok_def registry_ok_def)

text \<open>Between operations, the states and the codes of the lifecycle are the same.\<close>

lemma target_ok_state:
  assumes "target_ok t"
  shows "target_current_state t = tg_lifecycle t" "pins t = 0" "unpinned t"
    "pin_allowed allow_active (tg_lifecycle t) \<longleftrightarrow> tg_lifecycle t = LP_SKYNET_TARGET_ACTIVE"
    "pin_allowed allow_session (tg_lifecycle t) \<longleftrightarrow> tg_lifecycle t \<noteq> LP_SKYNET_TARGET_FREE"
proof -
  have l: "tg_lifecycle t = 0 \<or> tg_lifecycle t = 1 \<or> tg_lifecycle t = 2"
    using assms by (auto simp: target_ok_def split: if_splits)
  then show st: "target_current_state t = tg_lifecycle t" "pins t = 0"
    by (auto simp: target_current_state_def target_state_take_bit pins_def)
  then show "unpinned t" by (simp add: unpinned_pins)
  show "pin_allowed allow_active (tg_lifecycle t) \<longleftrightarrow> tg_lifecycle t = LP_SKYNET_TARGET_ACTIVE"
    "pin_allowed allow_session (tg_lifecycle t) \<longleftrightarrow> tg_lifecycle t \<noteq> LP_SKYNET_TARGET_FREE"
    using l st(1) unfolding pin_allowed_active pin_allowed_session target_current_state_def by auto
qed

lemma target_ok_ring:
  assumes "target_ok t" and "tg_lifecycle t \<noteq> LP_SKYNET_TARGET_FREE"
  obtains r where "tg_ring t = Some r" "ring_ok r"
  using assms by (auto simp: target_ok_def)

lemma pin_active_handle_Some:
  assumes "pin_active_handle handle h = Some (i, h')"
  shows "i < LP_SKYNET_TARGET_CAPACITY" "h' = upd_target i pin_swap h" "tg_handle (sh_targets h ! i) = handle"
    "target_current_state (sh_targets h ! i) = LP_SKYNET_TARGET_ACTIVE"
  using assms by (auto simp: pin_active_handle_def find_Some_iff Let_def)

lemma pin_token_Some:
  assumes "pin_token token allow_stopping h = Some (i, h')"
  shows "i < LP_SKYNET_TARGET_CAPACITY" "h' = upd_target i pin_swap h" "tg_token (sh_targets h ! i) = token"
    "pin_allowed (if allow_stopping then allow_session else allow_active) (tg_lifecycle (sh_targets h ! i))"
  using assms by (auto simp: pin_token_def find_Some_iff Let_def)

lemma publish_slot_pinned:
  assumes "i < length (sh_targets h)"
  shows "upd_target i target_unpin (publish_slot p (Some i) token state vm_state cfunction (upd_target i pin_swap h)) =
    publish_slot p (Some i) token state vm_state cfunction h"
proof -
  have "target_unpin (t\<lparr>tg_worker_mask := m, tg_lifecycle := tg_lifecycle t + 4\<rparr>) = t\<lparr>tg_worker_mask := m\<rparr>" for t m
    by (simp add: target_unpin_def)
  then show ?thesis
    using assms by (simp add: publish_slot_def Let_def upd_target_def upd_worker_def worker_at_def pin_swap_def target_unpin_def)
qed

lemma quiet_pinned_access:
  assumes "i < length (sh_targets h) \<Longrightarrow> keeps_session (pin_swap (sh_targets h ! i)) (f (pin_swap (sh_targets h ! i)))"
  shows "quiet h (upd_target i target_unpin (upd_target i f (upd_target i pin_swap h)))"
  unfolding upd_target_upd by (intro quiet_upd_target keeps_session_unpin assms)

lemma quiet_with_token:
  assumes "\<And>t. keeps_session t (f t)" shows "quiet h (with_token token f h)"
proof (cases "pin_token token True h")
  case (Some p)
  obtain i h' where p: "p = (i, h')" by (cases p)
  show ?thesis
    using Some quiet_pinned_access [of i h f] assms pin_token_Some(2) [of token True h i h'] by (simp add: with_token_def p)
qed (simp add: with_token_def)

lemma quiet_drains [simp]: "quiet h (api_begin_event_drain token h)" "quiet h (api_end_event_drain token h)"
  by (simp_all add: api_begin_event_drain_def api_end_event_drain_def quiet_with_token keeps_session_def)

lemma quiet_publish_state:
  assumes "host_ok h" shows "quiet h (api_publish_state me token state vm_state cfunction h)"
proof (cases "pin_token token False h")
  case (Some p)
  obtain i h' where p: "p = (i, h')" by (cases p)
  note pin = pin_token_Some [OF Some [unfolded p]]
  have "quiet h (upd_target i target_unpin (upd_target i pin_swap h))"
    by (simp add: upd_target_upd) (simp add: quiet_upd_target)
  then show ?thesis
    using Some quiet_publish [of "Some i" h] publish_slot_pinned [of i h] pin(1) host_ok_length [OF assms]
    by (simp add: api_publish_state_def p pin(2))
qed (simp add: api_publish_state_def)

lemma quiet_take_quality: "quiet h (snd (api_take_quality token h))"
proof (cases "pin_token token True h")
  case (Some p)
  obtain i h' where p: "p = (i, h')" by (cases p)
  note pin = pin_token_Some [OF Some [unfolded p]]
  obtain q t where q: "pinned_quality (sh_targets h' ! i) = (q, t)" by (cases "pinned_quality (sh_targets h' ! i)")
  have "keeps_session t' (snd (pinned_quality t'))" for t' by (simp add: keeps_session_def pinned_quality_def)
  from this [of "sh_targets h' ! i"] have "keeps_session (sh_targets h' ! i) t" by (simp add: q)
  then have "quiet h (upd_target i target_unpin (upd_target i (\<lambda>_. t) h'))"
    unfolding pin(2) by (intro quiet_pinned_access) (simp add: upd_target_def)
  then show ?thesis using Some by (simp add: api_take_quality_def p q)
qed (simp add: api_take_quality_def)

lemma pinned_next_session:
  assumes "tg_ring t = Some r" and "ring_ok r"
  obtains e t' where "pinned_next t = Some (e, t')" "keeps_session t t'"
proof (cases "ring_next r")
  case None
  then show thesis using that assms(1) by (simp add: pinned_next_def)
next
  case (Some p)
  obtain e r' where p: "p = (e, r')" by (cases p)
  have "ring_ok r'" using ring_next_contents [OF assms(2)] Some p by simp
  then show thesis using that assms Some p by (simp add: pinned_next_def keeps_session_def)
qed

lemma next_event_returns:
  assumes "host_ok h"
  obtains e h' where "api_next_event token has_event h = Some (e, h')" "quiet h h'"
proof (cases "pin_token token True h")
  case None
  then show thesis using that by (simp add: api_next_event_def)
next
  case (Some p)
  obtain i h' where p: "p = (i, h')" by (cases p)
  note pin = pin_token_Some [OF Some [unfolded p]]
  let ?t = "sh_targets h ! i"
  have at: "sh_targets h' ! i = pin_swap ?t" using pin(1,2) host_ok_length [OF assms] by (simp add: upd_target_nth)
  have ok: "target_ok ?t" by (rule host_ok_target [OF assms pin(1)])
  then obtain r where r: "tg_ring ?t = Some r" "ring_ok r"
    using pin(4) target_ok_state(5) [OF ok] by (auto elim: target_ok_ring)
  have "tg_ring (pin_swap ?t) = Some r" by (simp add: pin_swap_def r(1))
  then obtain e t' where e: "pinned_next (pin_swap ?t) = Some (e, t')" "keeps_session (pin_swap ?t) t'"
    using r(2) by (rule pinned_next_session)
  have 1: "quiet h (upd_target i target_unpin (upd_target i (\<lambda>_. t') h'))"
    unfolding pin(2) by (intro quiet_pinned_access e(2))
  have 2: "quiet h (upd_target i target_unpin h')" unfolding pin(2) by (simp add: upd_target_upd) (simp add: quiet_upd_target)
  show thesis
    using that 1 2 Some by (cases has_event) (simp_all add: api_next_event_def p at e(1))
qed

lemma pinned_tick_session:
  assumes "tg_ring t = Some r" and "ring_ok r"
  obtains t' request where "pinned_tick info e state t = Some (t', request)" "keeps_session t t'"
proof -
  let ?t = "count_overrun info t"
  have ring: "tg_ring ?t = Some r" by (simp add: count_overrun_def Let_def assms(1))
  have ss: "keeps_session t u" if "keeps_session ?t u" for u by (rule keeps_session_trans [OF keeps_session_counters(1) that])
  have 1: "keeps_session ?t (?t\<lparr>tg_profiler_overhead := n\<rparr>)" "keeps_session ?t (?t\<lparr>tg_dropped := n\<rparr>)" for n
    by (simp_all add: keeps_session_def)
  have 2: "keeps_session ?t (?t\<lparr>tg_ring := Some r'\<rparr>)" if "ring_push e r = Some r'" for r'
    using ring_push_contents [OF assms(2) that] ring by (simp add: keeps_session_def)
  have "\<exists>u request. pinned_tick info e state t = Some (u, request) \<and> keeps_session ?t u"
    using 1 2 by (auto simp: pinned_tick_def Let_def ring split: option.split)
  then show thesis using that ss by blast
qed

lemma target_tick_session:
  assumes "target_ok t"
  obtains t' request where "target_tick info token e t = Some (t', request)" "keeps_session t t'"
proof (cases "target_pin_session token allow_session t")
  case None
  then show thesis using that by (simp add: target_tick_def)
next
  case (Some p)
  then obtain state where p: "p = (state, pin_swap t)" "pin_allowed allow_session (tg_lifecycle t)"
    by (auto simp: target_pin_session_def target_pin_def split: option.splits if_splits)
  obtain r where r: "tg_ring t = Some r" "ring_ok r"
    using p(2) target_ok_state(5) [OF assms] assms by (auto elim: target_ok_ring)
  have "tg_ring (pin_swap t) = Some r" by (simp add: pin_swap_def r(1))
  then obtain t' request where "pinned_tick info e state (pin_swap t) = Some (t', request)" "keeps_session (pin_swap t) t'"
    using r(2) by (rule pinned_tick_session)
  then show thesis using that Some p(1) by (simp add: target_tick_def keeps_session_unpin)
qed

lemma worker_tick_returns:
  assumes ok: "host_ok h" and w: "worker_ok w"
  obtains h' request where "worker_tick info w h = Some (h', request)" "quiet h h'"
proof (cases "wk_slot_target w")
  case None
  then show thesis using that w by (simp add: worker_tick_def worker_ok_def)
next
  case (Some i)
  then have i: "i < LP_SKYNET_TARGET_CAPACITY" using w by (simp add: worker_ok_def)
  obtain t request where t: "target_tick info (wk_slot_token w) (slot_event_of w) (sh_targets h ! i) = Some (t, request)"
    "keeps_session (sh_targets h ! i) t"
    using host_ok_target [OF ok i] by (rule target_tick_session)
  have "quiet h (upd_target i (\<lambda>_. t) h)" by (rule quiet_upd_target) (rule t(2))
  then show thesis using that Some w t(1) by (cases "wk_slot_state w = NULL") (simp_all add: worker_tick_def worker_ok_def)
qed

lemma registered_in_memory:
  assumes "host_ok h" and "p \<in> set (sh_workers h)" and "p \<noteq> NULL"
  obtains w where "sh_heap h p = Some w"
proof -
  obtain i where "i < LP_SKYNET_WORKER_CAPACITY" "sh_workers h ! i = p"
    using assms(1,2) by (auto simp: in_set_conv_nth host_ok_def registry_ok_def)
  then show thesis using assms(1,3) that by (auto simp: host_ok_def registry_ok_def worker_place_ok_def)
qed

lemma handler_returns:
  assumes "host_ok h"
  obtains h' request where "skynet_signal_handler info h = Some (h', request)" "quiet h h'"
proof (cases info)
  case None
  then show thesis using that by (simp add: skynet_signal_handler_def)
next
  case (Some i)
  show thesis
  proof (cases "si_timer i \<and> si_value i \<noteq> NULL \<and> registered_worker (si_value i) h")
    case True
    then obtain w where w: "sh_heap h (si_value i) = Some w"
      using registered_in_memory [OF assms] by (auto simp: registered_worker_def)
    have wok: "worker_ok w" using host_ok_worker [OF assms w] by simp
    then obtain h' request where "worker_tick i w h = Some (h', request)" "quiet h h'"
      using worker_tick_returns [OF assms] by blast
    then show thesis
      using that True w Some host_ok_worker [OF assms w]
      by (simp add: skynet_signal_handler_def Let_def worker_registered_def)
  next
    case False
    then have "skynet_signal_handler info h = Some (h, None)" by (auto simp: skynet_signal_handler_def Let_def Some)
    then show thesis using that by simp
  qed
qed

lemma quiet_dispatch_enter:
  assumes ok: "host_ok h" shows "quiet h (lp_skynet_host_dispatch_enter env me handle h)"
proof -
  let ?h0 = "h\<lparr>sh_current_handle := (sh_current_handle h)(me := handle)\<rparr>"
  let ?p = "sh_current_worker h me"
  let ?h1 = "snd (sync_worker_timer env ?p (clear_slot env me ?h0))"
  have 1: "quiet h ?h1"
    by (rule quiet_trans [OF quiet_handle quiet_trans [OF quiet_clear_slot quiet_sync_worker_timer]])
  have ok1: "host_ok ?h1" using quiet_host_ok [OF 1 ok] .
  show ?thesis
  proof (cases "pin_active_handle handle ?h1")
    case None
    then show ?thesis using 1 by (simp add: lp_skynet_host_dispatch_enter_def Let_def)
  next
    case (Some q)
    obtain i h2 where q: "q = (i, h2)" by (cases q)
    note pin = pin_active_handle_Some [OF Some [unfolded q]]
    have at: "sh_targets h2 ! i = pin_swap (sh_targets ?h1 ! i)"
      using pin(1,2) host_ok_length [OF ok1] by (simp add: upd_target_nth)
    have "quiet ?h1 (publish_slot ?p (Some i) token state 0 NULL ?h1)" for token state
      by (rule quiet_publish) (simp add: pin(1))
    then have "quiet ?h1 (upd_target i target_unpin (publish_slot ?p (Some i) token state 0 NULL h2))" for token state
      using pin(1) host_ok_length [OF ok1] by (simp add: pin(2) publish_slot_pinned)
    then show ?thesis
      using Some quiet_trans [OF 1] by (simp add: lp_skynet_host_dispatch_enter_def Let_def q)
  qed
qed

lemma quiet_dispatch_leave: "quiet h (lp_skynet_host_dispatch_leave env me h)"
proof -
  have "quiet h (snd (sync_worker_timer env (sh_current_worker h me) (clear_slot env me h)))"
    by (rule quiet_trans [OF quiet_clear_slot quiet_sync_worker_timer])
  then show ?thesis
    by (auto simp: lp_skynet_host_dispatch_leave_def Let_def intro: quiet_trans [OF _ quiet_handle])
qed

section \<open>Starting and stopping workers\<close>

text \<open>The host with a worker more, and the host with one less.\<close>

definition registered_host :: "skynet_host \<Rightarrow> pointer \<Rightarrow> nat \<Rightarrow> lp_skynet_worker \<Rightarrow> skynet_host" where
  "registered_host h p i w =
     h\<lparr>sh_heap := (sh_heap h)(p \<mapsto> w), sh_workers := (sh_workers h)[i := p],
       sh_signal_users := sh_signal_users h + 1, sh_handler_installed := True\<rparr>"

definition unregistered_host :: "skynet_host \<Rightarrow> pointer \<Rightarrow> nat \<Rightarrow> skynet_host" where
  "unregistered_host h p i =
     h\<lparr>sh_heap := (sh_heap h)(p := None), sh_workers := (sh_workers h)[i := NULL],
       sh_signal_users := sh_signal_users h - 1, sh_handler_installed := (sh_signal_users h \<noteq> 1)\<rparr>"

lemma free_worker_place_Some:
  "free_worker_place ps = Some i \<Longrightarrow> i < LP_SKYNET_WORKER_CAPACITY \<and> ps ! i = NULL"
  by (auto simp: free_worker_place_def find_Some_iff)

lemma free_worker_place_None:
  assumes "length ps = LP_SKYNET_WORKER_CAPACITY" and "free_worker_place ps = None"
  shows "workers_in ps = LP_SKYNET_WORKER_CAPACITY"
proof -
  have "p \<noteq> NULL" if "p \<in> set ps" for p
    using assms that by (auto simp: free_worker_place_def find_None_iff in_set_conv_nth)
  then have "filter (\<lambda>p. p \<noteq> NULL) ps = ps" by (simp add: filter_True)
  then show ?thesis using assms(1) by (simp add: workers_in_def)
qed

lemma workers_in_bound: "length ps = LP_SKYNET_WORKER_CAPACITY \<Longrightarrow> workers_in ps \<le> 64"
  using length_filter_le [of "\<lambda>p. p \<noteq> NULL" ps] by (simp add: workers_in_def LP_SKYNET_WORKER_CAPACITY_def)

lemma free_pointer_not_registered:
  assumes "host_ok h" and "sh_heap h p = None" and "p \<noteq> NULL" and "i < LP_SKYNET_WORKER_CAPACITY"
  shows "sh_workers h ! i \<noteq> p"
proof
  assume "sh_workers h ! i = p"
  then show False using assms by (auto simp: host_ok_def registry_ok_def worker_place_ok_def)
qed

lemma registry_ok_register:
  assumes ok: "host_ok h" and p: "sh_heap h p = None" "p \<noteq> NULL"
    and i: "i < LP_SKYNET_WORKER_CAPACITY" "sh_workers h ! i = NULL"
    and w: "wk_signal_slot w = int i" "wk_active w"
  shows "registry_ok (registered_host h p i w)"
proof -
  let ?h = "registered_host h p i w"
  have reg: "registry_ok h" using ok by (simp add: host_ok_def)
  then have len: "length (sh_workers h) = LP_SKYNET_WORKER_CAPACITY" by (simp add: registry_ok_def)
  have "workers_in ((sh_workers h)[i := p]) = Suc (workers_in (sh_workers h))"
    using i p(2) len by (simp add: workers_in_def length_filter_update)
  moreover have "unat (sh_signal_users h + 1) = Suc (unat (sh_signal_users h))"
    using reg workers_in_bound [OF len] by (simp add: registry_ok_def unat_word_ariths)
  moreover have "worker_registered ?h q v" if "sh_heap ?h q = Some v" for q v
  proof (cases "q = p")
    case True
    then show ?thesis using that w i len by (auto simp: registered_host_def worker_registered_def)
  next
    case False
    then have "worker_registered h q v" "q \<noteq> NULL" using that reg by (auto simp: registered_host_def registry_ok_def)
    then show ?thesis using i len by (auto simp: registered_host_def worker_registered_def nth_list_update)
  qed
  moreover have "worker_place_ok ?h j" if "j < LP_SKYNET_WORKER_CAPACITY" for j
    using reg that w i len free_pointer_not_registered [OF ok p that]
    by (auto simp: registry_ok_def worker_place_ok_def registered_host_def nth_list_update)
  ultimately show ?thesis
    using reg len p(2) by (simp add: registry_ok_def registered_host_def unat_eq_0 [symmetric])
qed

lemma registry_ok_unregister:
  assumes ok: "registry_ok h" and w: "sh_heap h p = Some w" "wk_signal_slot w = int i" and i: "i < LP_SKYNET_WORKER_CAPACITY"
  shows "registry_ok (unregistered_host h p i)" "sh_workers h ! i = p" "sh_signal_users h \<noteq> 0"
proof -
  let ?h = "unregistered_host h p i"
  have len: "length (sh_workers h) = LP_SKYNET_WORKER_CAPACITY" and p: "p \<noteq> NULL" using ok w by (auto simp: registry_ok_def)
  have "worker_registered h p w" using ok w(1) by (simp add: registry_ok_def)
  then show at: "sh_workers h ! i = p" using w(2) by (auto simp: worker_registered_def)
  have n: "Suc (workers_in ((sh_workers h)[i := NULL])) = workers_in (sh_workers h)"
    using length_filter_clear [of i "sh_workers h"] i len at p by (simp add: workers_in_def)
  then have "unat (sh_signal_users h) \<noteq> 0" using ok by (auto simp: registry_ok_def)
  then show users: "sh_signal_users h \<noteq> 0" by (auto simp: unat_eq_0)
  have "unat (sh_signal_users h - 1) = workers_in ((sh_workers h)[i := NULL])"
    using ok n users by (simp add: registry_ok_def unat_minus_one)
  moreover have "worker_registered ?h q v" if "sh_heap ?h q = Some v" for q v
  proof -
    have "q \<noteq> p" "worker_registered h q v"
      using that ok by (auto simp: unregistered_host_def registry_ok_def split: if_splits)
    then show ?thesis using at len i by (auto simp: unregistered_host_def worker_registered_def nth_list_update)
  qed
  moreover have "worker_place_ok ?h j" if j: "j < LP_SKYNET_WORKER_CAPACITY" for j
  proof (cases "j = i")
    case True
    then show ?thesis using i len by (simp add: worker_place_ok_def unregistered_host_def)
  next
    case False
    have "worker_place_ok h j" using ok j by (simp add: registry_ok_def)
    moreover have "sh_workers h ! j \<noteq> p" using calculation False w p by (auto simp: worker_place_ok_def)
    ultimately show ?thesis using False by (simp add: worker_place_ok_def unregistered_host_def)
  qed
  ultimately show "registry_ok ?h" using ok len by (simp add: registry_ok_def unregistered_host_def)
qed

text \<open>A failed acquisition leaves no trace; a release undoes one.\<close>

lemma acquire_signal_cases:
  assumes ok: "host_ok h" and p: "sh_heap h p = None" and w: "wk_signal_slot w = - 1"
  obtains (failed) h1 where "acquire_signal env p (h\<lparr>sh_heap := (sh_heap h)(p \<mapsto> w)\<rparr>) = (False, h1)" "free_worker p h1 = h"
  | (acquired) i where "i < LP_SKYNET_WORKER_CAPACITY" "sh_workers h ! i = NULL"
      "acquire_signal env p (h\<lparr>sh_heap := (sh_heap h)(p \<mapsto> w)\<rparr>) = (True, registered_host h p i (w\<lparr>wk_signal_slot := int i\<rparr>))"
proof -
  let ?ready = "sh_signal_users h = 0 \<longrightarrow> he_signal_in_range env \<and> he_action_is_default env \<and> he_action_set env"
  have reg: "registry_ok h" using ok by (simp add: host_ok_def)
  have heap: "(sh_heap h)(p := None) = sh_heap h" using p by (metis fun_upd_triv)
  show thesis
  proof (cases "?ready \<and> free_worker_place (sh_workers h) \<noteq> None")
    case True
    then obtain i where i: "free_worker_place (sh_workers h) = Some i" by auto
    show thesis
    proof (rule acquired [of i])
      show "acquire_signal env p (h\<lparr>sh_heap := (sh_heap h)(p \<mapsto> w)\<rparr>) = (True, registered_host h p i (w\<lparr>wk_signal_slot := int i\<rparr>))"
        using True i reg by (auto simp: acquire_signal_def Let_def upd_worker_def registered_host_def registry_ok_def)
    qed (use free_worker_place_Some [OF i] in simp_all)
  next
    case False
    have installed: "sh_handler_installed h \<longleftrightarrow> sh_signal_users h \<noteq> 0" using reg by (simp add: registry_ok_def)
    have "free_worker_place (sh_workers h) = None \<Longrightarrow> sh_signal_users h \<noteq> 0"
      using free_worker_place_None [of "sh_workers h"] reg by (auto simp: registry_ok_def LP_SKYNET_WORKER_CAPACITY_def)
    then have "\<exists>h1. acquire_signal env p (h\<lparr>sh_heap := (sh_heap h)(p \<mapsto> w)\<rparr>) = (False, h1) \<and> free_worker p h1 = h"
      using False installed heap
      by (cases "sh_signal_users h = 0"; cases "free_worker_place (sh_workers h)")
        (auto simp: acquire_signal_def Let_def upd_worker_def free_worker_def)
    then show thesis using failed by blast
  qed
qed

lemma release_signal_registered:
  assumes "registry_ok h" and "sh_heap h p = Some w" "wk_signal_slot w = int i" and "i < LP_SKYNET_WORKER_CAPACITY"
  shows "free_worker p (release_signal p h) = unregistered_host h p i"
proof -
  note r = registry_ok_unregister [OF assms]
  then have "0 < sh_signal_users h" "sh_handler_installed h" using assms(1) by (auto simp: word_neq_0_conv registry_ok_def)
  then show ?thesis
    using assms(2,3) r(2) by (auto simp: release_signal_def worker_at_def Let_def upd_worker_def free_worker_def unregistered_host_def)
qed

lemma unregister_registered:
  assumes "registry_ok h" and "sh_heap h p = None" and "i < LP_SKYNET_WORKER_CAPACITY" "sh_workers h ! i = NULL"
  shows "unregistered_host (registered_host h p i w) p i = h"
proof -
  have "(sh_workers h)[i := NULL] = sh_workers h" using assms(4) by (metis list_update_id)
  moreover have "(sh_heap h)(p := None) = sh_heap h" using assms(2) by (metis fun_upd_triv)
  moreover have "sh_handler_installed h = (sh_signal_users h \<noteq> 0)" using assms(1) by (simp add: registry_ok_def)
  ultimately show ?thesis by (simp add: unregistered_host_def registered_host_def)
qed

lemma release_registered_host:
  assumes ok: "registry_ok h" and p: "sh_heap h p = None" and i: "i < LP_SKYNET_WORKER_CAPACITY" "sh_workers h ! i = NULL"
    and w: "wk_signal_slot w = int i"
  shows "free_worker p (release_signal p (registered_host h p i w)) = h"
proof -
  have "unat (sh_signal_users h) \<le> 64"
    using ok workers_in_bound [of "sh_workers h"] by (simp add: registry_ok_def)
  then have "unat (sh_signal_users h + 1) = Suc (unat (sh_signal_users h))" by (simp add: unat_word_ariths)
  then have users: "0 < sh_signal_users h + 1" by (simp add: word_less_nat_alt)
  have "(sh_workers h)[i := NULL] = sh_workers h" using i(2) by (metis list_update_id)
  moreover have "(sh_heap h)(p := None) = sh_heap h" using p by (metis fun_upd_triv)
  moreover have "sh_handler_installed h = (sh_signal_users h \<noteq> 0)" using ok by (simp add: registry_ok_def)
  ultimately show ?thesis
    using users w by (cases h) (auto simp: release_signal_def registered_host_def worker_at_def Let_def upd_worker_def free_worker_def)
qed

definition started_worker :: "u32 \<Rightarrow> nat \<Rightarrow> lp_skynet_worker" where
  "started_worker worker_id i = zero_worker\<lparr>wk_worker_id := worker_id, wk_signal_slot := int i, wk_active := True\<rparr>"

lemma worker_start_cases:
  assumes ok: "host_ok h" and p: "sh_heap h p = None"
  obtains (same) "lp_skynet_host_worker_start env me worker_id p h = h"
  | (failed) "lp_skynet_host_worker_start env me worker_id p h = host_failure h" "sh_current_worker h me = NULL"
  | (started) i where "i < LP_SKYNET_WORKER_CAPACITY" "sh_workers h ! i = NULL" "sh_current_worker h me = NULL"
      "lp_skynet_host_worker_start env me worker_id p h =
         snd (sync_worker_timer env p ((registered_host h p i (started_worker worker_id i))
                \<lparr>sh_current_worker := (sh_current_worker h)(me := p)\<rparr>))"
proof -
  have reg: "registry_ok h" using ok by (simp add: host_ok_def)
  let ?w = "zero_worker\<lparr>wk_worker_id := worker_id, wk_signal_slot := -1, wk_slot_vm_state := 0\<rparr>"
  let ?start = "lp_skynet_host_worker_start env me worker_id p h"
  have w: "wk_signal_slot ?w = -1" by simp
  show thesis
  proof (cases "sh_current_worker h me \<noteq> NULL \<or> sh_host_failed h")
    case True
    then show thesis using same by (simp add: lp_skynet_host_worker_start_def)
  next
    case False
    show thesis
    proof (cases "he_worker_memory env")
      case mem: True
      show thesis
        using ok p w
      proof (cases rule: acquire_signal_cases [where env = env])
        case (failed h1)
        then show thesis using that(2) False mem by (simp add: lp_skynet_host_worker_start_def Let_def)
      next
        case (acquired i)
        let ?w' = "?w\<lparr>wk_signal_slot := int i\<rparr>"
        have undone: "free_worker p (release_signal p (registered_host h p i ?w')) = h"
          by (rule release_registered_host [OF reg p acquired(1,2)]) simp
        have active: "upd_worker p (\<lambda>w. w\<lparr>wk_active := True\<rparr>) (registered_host h p i ?w') =
            registered_host h p i (started_worker worker_id i)"
          by (simp add: upd_worker_def registered_host_def started_worker_def zero_worker_def)
        show thesis
        proof (cases "he_mask_read env \<and> \<not> he_was_blocked env \<and> he_timer_created env")
          case True
          have "sh_current_worker (registered_host h p i v) = sh_current_worker h" for v by (simp add: registered_host_def)
          then show thesis
            using that(3) False mem acquired True active
            by (simp add: lp_skynet_host_worker_start_def Let_def)
        next
          case broken: False
          have "?start = host_failure h"
            using False mem acquired(3) undone broken
            by (cases "he_mask_read env"; cases "he_was_blocked env") (simp_all add: lp_skynet_host_worker_start_def Let_def)
          then show thesis using that(2) False by simp
        qed
      qed
    next
      case False
      then show thesis using that(2) \<open>\<not> (_ \<or> _)\<close> by (simp add: lp_skynet_host_worker_start_def)
    qed
  qed
qed

lemma host_ok_worker_start:
  assumes ok: "host_ok h" and p: "sh_heap h p = None" "p \<noteq> NULL"
  shows "host_ok (lp_skynet_host_worker_start env me worker_id p h)"
  using ok p(1)
proof (cases rule: worker_start_cases [where env = env and me = me and worker_id = worker_id])
  case failed
  then show ?thesis using quiet_host_ok [OF quiet_failure ok] by simp
next
  case (started i)
  let ?w = "started_worker worker_id i"
  let ?h = "(registered_host h p i ?w)\<lparr>sh_current_worker := (sh_current_worker h)(me := p)\<rparr>"
  have "registry_ok (registered_host h p i ?w)"
    by (rule registry_ok_register [OF ok p started(1,2)]) (simp_all add: started_worker_def)
  then have "registry_ok ?h" by (simp add: registry_ok_def worker_registered_def worker_place_ok_def)
  moreover have "threads_ok ?h"
  proof -
    have "sh_current_worker h me' \<noteq> p" for me' using ok p by (auto simp: host_ok_def threads_ok_def)
    then show ?thesis using ok p by (auto simp: host_ok_def threads_ok_def registered_host_def)
  qed
  moreover have "slots_ok ?h"
    using ok by (auto simp: host_ok_def slots_ok_def registered_host_def worker_ok_def started_worker_def zero_worker_def)
  moreover have "targets_ok ?h" using ok by (simp add: host_ok_def targets_ok_def registered_host_def)
  ultimately have "host_ok ?h" by (simp add: host_ok_def)
  then show ?thesis using quiet_host_ok [OF quiet_sync_worker_timer] started(4) by simp
qed (simp add: ok)

lemma worker_stop_unregisters:
  assumes ok: "host_ok h" and p: "sh_current_worker h me \<noteq> NULL"
  obtains i h1 where "i < LP_SKYNET_WORKER_CAPACITY" "sh_workers h ! i = sh_current_worker h me" "quiet h h1"
    "sh_heap h1 (sh_current_worker h me) \<noteq> None"
    "lp_skynet_host_worker_stop me h = (unregistered_host h1 (sh_current_worker h me) i)
       \<lparr>sh_current_worker := (sh_current_worker h)(me := NULL), sh_current_handle := (sh_current_handle h)(me := 0)\<rparr>"
proof -
  let ?p = "sh_current_worker h me"
  let ?h1 = "publish_slot ?p None 0 NULL 0 NULL h"
  have q: "quiet h ?h1" by simp
  have reg1: "registry_ok ?h1" using quiet_registry_ok [OF q] ok by (simp add: host_ok_def)
  have "sh_heap h ?p \<noteq> None" using ok p by (metis host_ok_def threads_ok_def)
  then have "sh_heap ?h1 ?p \<noteq> None" by (simp add: quiet_heap_None [OF q])
  then obtain w where w: "sh_heap ?h1 ?p = Some w" by blast
  then have "worker_registered ?h1 ?p w" using reg1 by (simp add: registry_ok_def)
  then obtain i where i: "wk_signal_slot w = int i" "i < LP_SKYNET_WORKER_CAPACITY"
    by (auto simp: worker_registered_def)
  have same: "sh_current_worker ?h1 = sh_current_worker h" "sh_current_handle ?h1 = sh_current_handle h" "sh_workers ?h1 = sh_workers h"
    using p by (simp_all add: publish_slot_def upd_worker_def Let_def)
  note u = registry_ok_unregister [OF reg1 w i]
  have users: "0 < sh_signal_users ?h1" "sh_handler_installed ?h1"
    using reg1 u(3) by (auto simp: word_neq_0_conv registry_ok_def)
  have "lp_skynet_host_worker_stop me h = (unregistered_host ?h1 ?p i)
       \<lparr>sh_current_worker := (sh_current_worker h)(me := NULL), sh_current_handle := (sh_current_handle h)(me := 0)\<rparr>"
    using p w i(1) users
    by (auto simp: lp_skynet_host_worker_stop_def Let_def same upd_worker_def release_signal_def worker_at_def
        free_worker_def unregistered_host_def)
  then show thesis using that [OF i(2) _ q] u(2) w same(3) by simp
qed

lemma host_ok_worker_stop:
  assumes ok: "host_ok h" shows "host_ok (lp_skynet_host_worker_stop me h)"
proof (cases "sh_current_worker h me = NULL")
  case True
  then show ?thesis using ok by (simp add: lp_skynet_host_worker_stop_def Let_def)
next
  case False
  let ?p = "sh_current_worker h me"
  obtain i h1 where i: "i < LP_SKYNET_WORKER_CAPACITY" "sh_workers h ! i = ?p" and q: "quiet h h1" and "sh_heap h1 ?p \<noteq> None"
    and stop: "lp_skynet_host_worker_stop me h = (unregistered_host h1 ?p i)
       \<lparr>sh_current_worker := (sh_current_worker h)(me := NULL), sh_current_handle := (sh_current_handle h)(me := 0)\<rparr>"
    using worker_stop_unregisters [OF ok False] .
  then obtain w where w: "sh_heap h1 ?p = Some w" by auto
  have ok1: "host_ok h1" using quiet_host_ok [OF q ok] .
  have ws: "sh_workers h1 = sh_workers h" "sh_current_worker h1 = sh_current_worker h" using q by (simp_all add: quiet_def)
  obtain w' where "sh_heap h1 (sh_workers h1 ! i) = Some w'" "wk_signal_slot w' = int i"
    using ok1 i False by (auto simp: ws host_ok_def registry_ok_def worker_place_ok_def)
  then have slot: "wk_signal_slot w = int i" using w i(2) by (simp add: ws)
  have "registry_ok (unregistered_host h1 ?p i)"
    using ok1 w slot i(1) by (intro registry_ok_unregister) (simp_all add: host_ok_def)
  moreover have "threads_ok (lp_skynet_host_worker_stop me h)"
  proof -
    have "sh_current_worker h me' \<noteq> ?p" if "me' \<noteq> me" for me'
      using ok that False by (auto simp: host_ok_def threads_ok_def)
    then show ?thesis using ok1 unfolding stop by (auto simp: host_ok_def threads_ok_def unregistered_host_def ws)
  qed
  ultimately show ?thesis
    using ok1
    by (simp add: stop host_ok_def registry_ok_def worker_registered_def worker_place_ok_def targets_ok_def slots_ok_def)
      (simp add: unregistered_host_def)
qed

section \<open>Starting and stopping sessions\<close>

definition freed :: "lp_skynet_target \<Rightarrow> lp_skynet_target" where
  "freed t = (clear_target t)\<lparr>tg_lifecycle := LP_SKYNET_TARGET_FREE\<rparr>"

lemma target_transition_plain:
  assumes "tg_lifecycle t = from" and "from < 4"
  shows "target_transition from to t = Some (t\<lparr>tg_lifecycle := to\<rparr>)"
proof -
  have "target_state from = from"
    using assms(2) by (simp add: word_unat_eq_iff unat_target_state word_less_nat_alt)
  moreover from this have "from AND NOT LP_SKYNET_TARGET_STATE_MASK = 0" by (simp add: and_not_mask)
  ultimately show ?thesis using assms(1) by (simp add: target_transition_def)
qed

lemma reclaim_target_plain:
  "tg_lifecycle t = LP_SKYNET_TARGET_RECLAIMING \<Longrightarrow> reclaim_target t = Some (freed t)"
proof -
  assume l: "tg_lifecycle t = LP_SKYNET_TARGET_RECLAIMING"
  then have "tg_lifecycle (clear_target t) = LP_SKYNET_TARGET_RECLAIMING" by (simp add: clear_target_def)
  then have "target_transition LP_SKYNET_TARGET_RECLAIMING LP_SKYNET_TARGET_FREE (clear_target t) = Some (freed t)"
    by (simp add: target_transition_plain freed_def)
  then show ?thesis using l by (simp add: reclaim_target_def unpinned_pins pins_def)
qed

lemma freed_ok [simp]: "target_ok (freed t)"
  by (simp add: freed_def clear_target_def target_ok_def)

lemma active_in_update:
  "i < length ts \<Longrightarrow>
   active_in (ts[i := t]) + of_bool (tg_lifecycle (ts ! i) = LP_SKYNET_TARGET_ACTIVE) =
   active_in ts + of_bool (tg_lifecycle t = LP_SKYNET_TARGET_ACTIVE)"
proof (induction ts arbitrary: i)
  case (Cons u ts)
  then show ?case by (cases i) (auto simp: active_in_def)
qed simp

lemma active_in_le: "active_in ts \<le> length ts"
  by (simp add: active_in_def)

lemma targets_ok_put:
  assumes ok: "targets_ok h" and i: "i < LP_SKYNET_TARGET_CAPACITY" and t: "target_ok t"
    and handle: "\<And>j. tg_lifecycle t \<noteq> LP_SKYNET_TARGET_FREE \<Longrightarrow> j < LP_SKYNET_TARGET_CAPACITY \<Longrightarrow> j \<noteq> i \<Longrightarrow>
      tg_lifecycle (sh_targets h ! j) \<noteq> LP_SKYNET_TARGET_FREE \<Longrightarrow> tg_handle (sh_targets h ! j) \<noteq> tg_handle t"
    and count: "unat n = active_in ((sh_targets h)[i := t])" and rate: "n = 0 \<longleftrightarrow> hz = 0"
    and same_rate: "n = 0 \<or> hz = sh_active_sample_hz h \<or> sh_active_targets h = 0"
    and mine: "tg_lifecycle t = LP_SKYNET_TARGET_ACTIVE \<Longrightarrow> tg_sample_hz t = hz"
    and h': "sh_targets h' = (sh_targets h)[i := t]" "sh_active_targets h' = n" "sh_active_sample_hz h' = hz"
  shows "targets_ok h'"
proof -
  let ?ts = "(sh_targets h)[i := t]"
  have len: "length (sh_targets h) = LP_SKYNET_TARGET_CAPACITY" using ok by (simp add: targets_ok_def)
  have "target_ok u" if "u \<in> set ?ts" for u
    using ok t set_update_subset_insert [of "sh_targets h" i t] that by (auto simp: targets_ok_def)
  moreover have "tg_sample_hz u = hz" if u: "u \<in> set ?ts" "tg_lifecycle u = LP_SKYNET_TARGET_ACTIVE" for u
  proof (cases "u = t")
    case False
    have "u \<in> set (sh_targets h)" using u(1) False set_update_subset_insert [of "sh_targets h" i t] by auto
    then have hz: "tg_sample_hz u = sh_active_sample_hz h" using ok u(2) by (simp add: targets_ok_def)
    have "u \<in> set (filter (\<lambda>t. tg_lifecycle t = LP_SKYNET_TARGET_ACTIVE) ?ts)"
      "u \<in> set (filter (\<lambda>t. tg_lifecycle t = LP_SKYNET_TARGET_ACTIVE) (sh_targets h))"
      using u \<open>u \<in> set (sh_targets h)\<close> by simp_all
    then have "active_in ?ts \<noteq> 0" "active_in (sh_targets h) \<noteq> 0" unfolding active_in_def by (metis length_0_conv empty_iff list.set(1))+
    then have "n \<noteq> 0" "sh_active_targets h \<noteq> 0" using count ok by (auto simp: targets_ok_def)
    then show ?thesis using hz same_rate by simp
  qed (use u mine in simp)
  moreover have "handles_distinct ?ts"
    unfolding handles_distinct_def
  proof (intro allI impI)
    fix j k
    assume "j < length ?ts" "k < length ?ts" "tg_lifecycle (?ts ! j) \<noteq> LP_SKYNET_TARGET_FREE"
      "tg_lifecycle (?ts ! k) \<noteq> LP_SKYNET_TARGET_FREE" "tg_handle (?ts ! j) = tg_handle (?ts ! k)"
    then show "j = k"
      using ok handle [of j] handle [of k] i len
      by (cases "j = i"; cases "k = i") (auto simp: targets_ok_def handles_distinct_def)
  qed
  ultimately show ?thesis using count rate len h' by (simp add: targets_ok_def)
qed

lemma host_ok_put:
  assumes "host_ok h" and "targets_ok h'"
    and "sh_heap h' = sh_heap h" "sh_workers h' = sh_workers h" "sh_signal_users h' = sh_signal_users h"
    "sh_handler_installed h' = sh_handler_installed h" "sh_current_worker h' = sh_current_worker h"
  shows "host_ok h'"
  using assms by (simp add: host_ok_def registry_ok_def worker_registered_def worker_place_ok_def threads_ok_def slots_ok_def)

text \<open>A session leaves the active ones.\<close>

lemma drop_active_parts:
  "sh_targets (drop_active h) = sh_targets h" "sh_heap (drop_active h) = sh_heap h" "sh_workers (drop_active h) = sh_workers h"
  "sh_signal_users (drop_active h) = sh_signal_users h" "sh_handler_installed (drop_active h) = sh_handler_installed h"
  "sh_current_worker (drop_active h) = sh_current_worker h" "sh_current_handle (drop_active h) = sh_current_handle h"
  "sh_next_token (drop_active h) = sh_next_token h"
  by (simp_all add: drop_active_def Let_def)

lemma host_ok_drop:
  assumes ok: "host_ok h" and i: "i < LP_SKYNET_TARGET_CAPACITY" "tg_lifecycle (sh_targets h ! i) = LP_SKYNET_TARGET_ACTIVE"
    and t: "target_ok t" "tg_lifecycle t \<noteq> LP_SKYNET_TARGET_ACTIVE"
      "tg_lifecycle t \<noteq> LP_SKYNET_TARGET_FREE \<longrightarrow> tg_handle t = tg_handle (sh_targets h ! i)"
  shows "host_ok (drop_active (upd_target i (\<lambda>_. t) h))"
    and "sh_active_targets (drop_active (upd_target i (\<lambda>_. t) h)) = sh_active_targets h - 1"
    and "sh_active_sample_hz (drop_active (upd_target i (\<lambda>_. t) h)) = (if sh_active_targets h = 1 then 0 else sh_active_sample_hz h)"
proof -
  let ?h = "drop_active (upd_target i (\<lambda>_. t) h)"
  have tok: "targets_ok h" using ok by (simp add: host_ok_def)
  then have len: "length (sh_targets h) = LP_SKYNET_TARGET_CAPACITY" by (simp add: targets_ok_def)
  have n: "Suc (active_in ((sh_targets h)[i := t])) = active_in (sh_targets h)"
    using active_in_update [of i "sh_targets h" t] i len t(2) by simp
  then have "unat (sh_active_targets h) \<noteq> 0" using tok by (simp add: targets_ok_def)
  then have pos: "sh_active_targets h \<noteq> 0" by (auto simp: unat_eq_0)
  then show count: "sh_active_targets ?h = sh_active_targets h - 1"
    and rate: "sh_active_sample_hz ?h = (if sh_active_targets h = 1 then 0 else sh_active_sample_hz h)"
    by (simp_all add: drop_active_def Let_def upd_target_def word_neq_0_conv)
  have "targets_ok ?h"
  proof (rule targets_ok_put [OF tok i(1) t(1)])
    show "unat (sh_active_targets h - 1) = active_in ((sh_targets h)[i := t])"
      using n pos tok by (simp add: targets_ok_def unat_minus_one)
    show "sh_active_targets h - 1 = 0 \<longleftrightarrow> (if sh_active_targets h = 1 then 0 else sh_active_sample_hz h) = 0"
      using pos tok by (simp add: targets_ok_def)
    show "tg_handle (sh_targets h ! j) \<noteq> tg_handle t"
      if "tg_lifecycle t \<noteq> LP_SKYNET_TARGET_FREE" "j < LP_SKYNET_TARGET_CAPACITY" "j \<noteq> i"
        "tg_lifecycle (sh_targets h ! j) \<noteq> LP_SKYNET_TARGET_FREE" for j
      using that t(3) tok i len by (auto simp: targets_ok_def handles_distinct_def)
  qed (use t(2) count rate in \<open>simp_all add: drop_active_parts upd_target_def\<close>)
  then show "host_ok ?h" by (rule host_ok_put [OF ok]) (simp_all add: drop_active_parts upd_target_def)
qed

lemma find_target_Some:
  assumes "find_target state token h = Some i" and "host_ok h"
  shows "i < LP_SKYNET_TARGET_CAPACITY" "tg_lifecycle (sh_targets h ! i) = state" "tg_token (sh_targets h ! i) = token"
  using assms target_ok_state(1) [OF host_ok_target [OF assms(2), of i]]
  by (auto simp: find_target_def find_Some_iff)

lemma release_returns:
  assumes ok: "host_ok h"
  shows "api_target_release token h =
    Some (case find_target LP_SKYNET_TARGET_STOPPING token h of None \<Rightarrow> h | Some i \<Rightarrow> upd_target i freed h)"
proof (cases "find_target LP_SKYNET_TARGET_STOPPING token h")
  case (Some i)
  let ?t = "sh_targets h ! i"
  have "target_transition LP_SKYNET_TARGET_STOPPING LP_SKYNET_TARGET_RECLAIMING ?t = Some (?t\<lparr>tg_lifecycle := 3\<rparr>)"
    using find_target_Some(2) [OF Some ok] by (simp add: target_transition_plain)
  moreover have "reclaim_target (?t\<lparr>tg_lifecycle := 3\<rparr>) = Some (freed (?t\<lparr>tg_lifecycle := 3\<rparr>))"
    by (simp add: reclaim_target_plain)
  moreover have "freed (?t\<lparr>tg_lifecycle := 3\<rparr>) = freed ?t" by (simp add: freed_def clear_target_def)
  ultimately show ?thesis using Some by (simp add: api_target_release_def upd_target_def)
qed (simp add: api_target_release_def)

lemma host_ok_freed:
  assumes ok: "host_ok h" and i: "i < LP_SKYNET_TARGET_CAPACITY" "tg_lifecycle (sh_targets h ! i) = LP_SKYNET_TARGET_STOPPING"
  shows "host_ok (upd_target i freed h)"
proof -
  have tok: "targets_ok h" using ok by (simp add: host_ok_def)
  have "active_in ((sh_targets h)[i := freed (sh_targets h ! i)]) = active_in (sh_targets h)"
    using active_in_update [of i "sh_targets h" "freed (sh_targets h ! i)"] i tok by (simp add: targets_ok_def freed_def)
  then have "targets_ok (upd_target i freed h)"
    using tok by (intro targets_ok_put [OF tok i(1) freed_ok]) (simp_all add: targets_ok_def upd_target_def freed_def)
  then show ?thesis by (rule host_ok_put [OF ok]) (simp_all add: upd_target_def)
qed

lemma host_ok_release:
  assumes "host_ok h" obtains h' where "api_target_release token h = Some h'" "host_ok h'"
  using that release_returns [OF assms, of token] assms host_ok_freed [OF assms] find_target_Some [OF _ assms]
  by (cases "find_target LP_SKYNET_TARGET_STOPPING token h") simp_all

text \<open>The host right after the transition of a quiesce.\<close>

definition stopping_host :: "nat \<Rightarrow> skynet_host \<Rightarrow> skynet_host" where
  "stopping_host i h =
     drop_active (upd_target i (\<lambda>_. (sh_targets h ! i)\<lparr>tg_lifecycle := LP_SKYNET_TARGET_STOPPING\<rparr>) h)"

lemma host_ok_stopping:
  assumes ok: "host_ok h" and i: "i < LP_SKYNET_TARGET_CAPACITY" "tg_lifecycle (sh_targets h ! i) = LP_SKYNET_TARGET_ACTIVE"
  shows "host_ok (stopping_host i h)"
  unfolding stopping_host_def
  by (rule host_ok_drop [OF ok i]) (use host_ok_target [OF ok i(1)] i(2) in \<open>simp_all add: target_ok_def\<close>)

lemma quiesce_cases:
  assumes ok: "host_ok h"
  obtains (missing) "find_target LP_SKYNET_TARGET_ACTIVE token h = None" "api_target_quiesce env me token h = Some (False, h)"
  | (quiesced) i h' where "find_target LP_SKYNET_TARGET_ACTIVE token h = Some i" "i < LP_SKYNET_TARGET_CAPACITY"
      "tg_lifecycle (sh_targets h ! i) = LP_SKYNET_TARGET_ACTIVE" "tg_token (sh_targets h ! i) = token"
      "api_target_quiesce env me token h = Some (True, h')" "quiet (stopping_host i h) h'" "host_ok h'"
proof (cases "find_target LP_SKYNET_TARGET_ACTIVE token h")
  case None
  then show thesis using missing by (simp add: api_target_quiesce_def)
next
  case (Some i)
  note i = find_target_Some [OF Some ok]
  let ?t = "sh_targets h ! i" let ?h1 = "stopping_host i h" let ?p = "sh_current_worker ?h1 me"
  have trans: "target_transition LP_SKYNET_TARGET_ACTIVE LP_SKYNET_TARGET_STOPPING ?t =
      Some (?t\<lparr>tg_lifecycle := LP_SKYNET_TARGET_STOPPING\<rparr>)"
    using i(2) by (simp add: target_transition_plain)
  define h2 where "h2 = (if ?p \<noteq> NULL \<and> wk_slot_target (worker_at ?p ?h1) = Some i
                         then publish_slot ?p None 0 NULL 0 NULL ?h1 else ?h1)"
  define h3 where "h3 = (if ?p \<noteq> NULL \<and> block_worker_signal env me ?h1 then discard_pending env ?p (Some i) token h2 else h2)"
  obtain synced h4 where sync: "sync_worker_timer env ?p h3 = (synced, h4)" by (cases "sync_worker_timer env ?p h3")
  define h5 where "h5 = (if \<not> synced then upd_target i count_timer_failure h4 else h4)"
  have "quiet ?h1 h2" "quiet h2 h3" by (simp_all add: h2_def h3_def)
  moreover have "quiet h3 h4" using quiet_sync_worker_timer [of h3 env ?p] sync by simp
  moreover have "quiet h4 h5" by (simp add: h5_def quiet_upd_target)
  ultimately have q: "quiet ?h1 h5" by (blast intro: quiet_trans)
  have ok5: "host_ok h5" by (rule quiet_host_ok [OF q host_ok_stopping [OF ok i(1,2)]])
  have "unpinned (sh_targets h5 ! i)" using target_ok_state(3) [OF host_ok_target [OF ok5 i(1)]] .
  moreover have "api_target_quiesce env me token h =
      (case sync_worker_timer env ?p h3 of (synced, h4) \<Rightarrow>
         let h5 = (if \<not> synced then upd_target i count_timer_failure h4 else h4)
         in if \<not> unpinned (sh_targets h5 ! i) then None else Some (True, h5))"
    by (simp only: api_target_quiesce_def Some trans option.case Let_def stopping_host_def [symmetric] h3_def h2_def)
  ultimately have "api_target_quiesce env me token h = Some (True, h5)"
    by (simp add: sync h5_def Let_def)
  then show thesis using quiesced Some i q ok5 by blast
qed

text \<open>The host right after a target has become active.\<close>

definition session_target :: "u32 \<Rightarrow> u64 \<Rightarrow> u64 \<Rightarrow> u32 \<Rightarrow> pointer \<Rightarrow> lp_skynet_target \<Rightarrow> lp_skynet_target" where
  "session_target handle token generation sample_hz main_state t =
     (prepare_target handle token generation sample_hz main_state t)\<lparr>tg_lifecycle := LP_SKYNET_TARGET_ACTIVE\<rparr>"

definition active_host :: "nat \<Rightarrow> u32 \<Rightarrow> u64 \<Rightarrow> u64 \<Rightarrow> u32 \<Rightarrow> pointer \<Rightarrow> skynet_host \<Rightarrow> skynet_host" where
  "active_host i handle token generation sample_hz main_state h =
     (upd_target i (session_target handle token generation sample_hz main_state) h)
       \<lparr>sh_next_token := token, sh_active_sample_hz := sample_hz, sh_active_targets := sh_active_targets h + 1\<rparr>"

lemma activate_target_plain:
  assumes "tg_lifecycle (sh_targets h ! i) = LP_SKYNET_TARGET_FREE"
  shows "activate_target i handle token generation sample_hz main_state (h\<lparr>sh_next_token := token\<rparr>) =
    (True, active_host i handle token generation sample_hz main_state h)"
proof -
  have "target_transition LP_SKYNET_TARGET_FREE LP_SKYNET_TARGET_ACTIVE
      (prepare_target handle token generation sample_hz main_state (sh_targets h ! i)) =
      Some (session_target handle token generation sample_hz main_state (sh_targets h ! i))"
    using assms by (simp add: target_transition_plain prepare_target_def session_target_def)
  then show ?thesis by (simp add: activate_target_def active_host_def upd_target_def)
qed

lemma select_target_Some:
  assumes "select_target handle h = Some i" and ok: "host_ok h"
  shows "i < LP_SKYNET_TARGET_CAPACITY" "tg_lifecycle (sh_targets h ! i) = LP_SKYNET_TARGET_FREE"
    and "j < LP_SKYNET_TARGET_CAPACITY \<Longrightarrow> tg_lifecycle (sh_targets h ! j) \<noteq> LP_SKYNET_TARGET_FREE \<Longrightarrow>
      tg_handle (sh_targets h ! j) \<noteq> handle"
proof -
  show "i < LP_SKYNET_TARGET_CAPACITY" "tg_lifecycle (sh_targets h ! i) = LP_SKYNET_TARGET_FREE"
    using assms(1) by (auto simp: select_target_def find_Some_iff split: if_splits)
  assume j: "j < LP_SKYNET_TARGET_CAPACITY" "tg_lifecycle (sh_targets h ! j) \<noteq> LP_SKYNET_TARGET_FREE"
  then have "sh_targets h ! j \<in> set (sh_targets h)" using host_ok_length [OF ok] by simp
  with j show "tg_handle (sh_targets h ! j) \<noteq> handle"
    using assms(1) target_ok_state(1) [OF host_ok_target [OF ok, of j]]
    by (auto simp: select_target_def list_ex_iff split: if_splits)
qed

lemma bump_token_nonzero [simp]: "bump_token n \<noteq> 0"
  by (auto simp: bump_token_def eq_neg_iff_add_eq_0)

lemma host_ok_active:
  assumes ok: "host_ok h" and i: "select_target handle h = Some i" and "handle \<noteq> 0" "sample_hz \<noteq> 0" "token \<noteq> 0"
    and hz: "sh_active_targets h = 0 \<or> sh_active_sample_hz h = sample_hz"
  shows "host_ok (active_host i handle token generation sample_hz main_state h)"
proof -
  let ?h = "active_host i handle token generation sample_hz main_state h"
  let ?t = "session_target handle token generation sample_hz main_state (sh_targets h ! i)"
  have tok: "targets_ok h" using ok by (simp add: host_ok_def)
  note sel = select_target_Some [OF i ok]
  have "active_in ((sh_targets h)[i := ?t]) = Suc (active_in (sh_targets h))"
    using active_in_update [of i "sh_targets h" ?t] sel tok by (simp add: targets_ok_def session_target_def)
  moreover have "unat (sh_active_targets h + 1) = Suc (active_in (sh_targets h))"
    using tok active_in_le [of "sh_targets h"] by (simp add: targets_ok_def LP_SKYNET_TARGET_CAPACITY_def unat_word_ariths)
  moreover from this have "sh_active_targets h + 1 \<noteq> 0" by (metis unat_0 nat.distinct(1))
  ultimately have "targets_ok ?h"
    using sel(2,3) assms(3-6)
    by (intro targets_ok_put [OF tok sel(1), of ?t])
      (auto simp: active_host_def upd_target_def target_ok_def session_target_def prepare_target_def)
  then show ?thesis by (rule host_ok_put [OF ok]) (simp_all add: active_host_def upd_target_def)
qed

text \<open>The rollback of a start.\<close>

lemma rollback_plain:
  assumes "tg_lifecycle (sh_targets h ! i) = LP_SKYNET_TARGET_ACTIVE" and "tg_token (sh_targets h ! i) = token"
  shows "rollback_target_start i token h = Some (drop_active (upd_target i (\<lambda>_. freed (sh_targets h ! i)) h))"
proof -
  let ?t = "sh_targets h ! i"
  have "target_current_state ?t = LP_SKYNET_TARGET_ACTIVE"
    using assms(1) by (simp add: target_current_state_def target_state_take_bit)
  moreover have "target_transition LP_SKYNET_TARGET_ACTIVE LP_SKYNET_TARGET_RECLAIMING ?t = Some (?t\<lparr>tg_lifecycle := 3\<rparr>)"
    using assms(1) by (simp add: target_transition_plain)
  moreover have "reclaim_target (?t\<lparr>tg_lifecycle := 3\<rparr>) = Some (freed ?t)"
    by (simp add: reclaim_target_plain) (simp add: freed_def clear_target_def)
  ultimately show ?thesis
    using assms(2) by (simp add: rollback_target_start_def drop_active_def upd_target_def Let_def)
qed

lemma quiet_sessions:
  assumes "quiet h h'" and "i < length (sh_targets h)"
  shows "keeps_session (sh_targets h ! i) (sh_targets h' ! i)"
  using assms by (auto simp: quiet_def list_all2_conv_all_nth)

lemma quiet_rolled_back:
  assumes ok: "host_ok h" and i: "select_target handle h = Some i"
    and hz: "sh_active_targets h = 0 \<or> sh_active_sample_hz h = sample_hz"
    and q: "quiet (active_host i handle token generation sample_hz main_state h) h2" and ok2: "host_ok h2"
  shows "rollback_target_start i token h2 = Some (drop_active (upd_target i (\<lambda>_. freed (sh_targets h2 ! i)) h2))"
    and "quiet (h\<lparr>sh_next_token := token\<rparr>) (drop_active (upd_target i (\<lambda>_. freed (sh_targets h2 ! i)) h2))"
proof -
  let ?a = "active_host i handle token generation sample_hz main_state h"
  let ?r = "drop_active (upd_target i (\<lambda>_. freed (sh_targets h2 ! i)) h2)"
  note sel = select_target_Some [OF i ok]
  have len: "length (sh_targets h) = LP_SKYNET_TARGET_CAPACITY" "length (sh_targets h2) = LP_SKYNET_TARGET_CAPACITY"
    using ok ok2 by auto
  have a: "sh_targets ?a = (sh_targets h)[i := session_target handle token generation sample_hz main_state (sh_targets h ! i)]"
    by (simp add: active_host_def upd_target_def)
  have "keeps_session (session_target handle token generation sample_hz main_state (sh_targets h ! i)) (sh_targets h2 ! i)"
    using quiet_sessions [OF q, of i] sel(1) len by (simp add: a)
  then have t2: "tg_lifecycle (sh_targets h2 ! i) = LP_SKYNET_TARGET_ACTIVE" "tg_token (sh_targets h2 ! i) = token"
    by (simp_all add: keeps_session_def session_target_def prepare_target_def)
  then show "rollback_target_start i token h2 = Some ?r" by (rule rollback_plain)
  note drop = host_ok_drop [OF ok2 sel(1) t2(1) freed_ok]
  have "target_ok (sh_targets h ! i)" by (rule host_ok_target [OF ok sel(1)])
  then have "keeps_session (sh_targets h ! i) (freed t)" for t
    using sel(2) by (simp add: keeps_session_def freed_def clear_target_def target_ok_def)
  moreover have "keeps_session (sh_targets h ! j) (sh_targets h2 ! j)" if "j \<noteq> i" "j < LP_SKYNET_TARGET_CAPACITY" for j
    using quiet_sessions [OF q, of j] that len by (simp add: a)
  ultimately have "list_all2 keeps_session (sh_targets h) (sh_targets ?r)"
    using len sel(1) by (simp add: list_all2_conv_all_nth drop_active_parts upd_target_def nth_list_update)
  moreover have "sh_active_targets ?r = sh_active_targets h"
    using drop(2) q by (simp add: freed_def quiet_def active_host_def)
  moreover have "sh_active_sample_hz ?r = sh_active_sample_hz h"
  proof -
    have "sh_active_targets h2 = sh_active_targets h + 1" "sh_active_sample_hz h2 = sample_hz"
      using q by (simp_all add: quiet_def active_host_def)
    moreover have "sh_active_targets h = 0 \<longrightarrow> sh_active_sample_hz h = 0" using ok by (simp add: host_ok_def targets_ok_def)
    ultimately show ?thesis using drop(3) hz by (auto simp: freed_def)
  qed
  ultimately show "quiet (h\<lparr>sh_next_token := token\<rparr>) ?r"
    using q by (simp add: quiet_def drop_active_parts upd_target_def active_host_def)
qed

lemma host_start_cases:
  assumes ok: "host_ok h"
  obtains (refused) "api_target_start env me handle main_state generation sample_hz has_token h = Some (None, h)"
  | (failed) h' where "api_target_start env me handle main_state generation sample_hz has_token h = Some (None, h')"
      "quiet (h\<lparr>sh_next_token := bump_token (sh_next_token h)\<rparr>) h'"
  | (started) i h2 h' where "handle \<noteq> 0" "main_state \<noteq> NULL" "generation \<noteq> 0" "sample_hz \<noteq> 0"
      "sh_current_worker h me \<noteq> NULL" "sh_current_handle h me = handle"
      "sh_active_targets h = 0 \<or> sh_active_sample_hz h = sample_hz" "select_target handle h = Some i"
      "quiet (active_host i handle (bump_token (sh_next_token h)) generation sample_hz main_state h) h2"
      "h' = publish_slot (sh_current_worker h me) (Some i) (bump_token (sh_next_token h)) main_state 0 NULL h2"
      "api_target_start env me handle main_state generation sample_hz has_token h = Some (Some (bump_token (sh_next_token h)), h')"
      "h2 = snd (sync_worker_timer env (sh_current_worker h me) (clear_slot env me
         (active_host i handle (bump_token (sh_next_token h)) generation sample_hz main_state h)))"
proof -
  let ?p = "sh_current_worker h me" let ?token = "bump_token (sh_next_token h)"
  let ?start = "api_target_start env me handle main_state generation sample_hz has_token h"
  show thesis
  proof (cases "handle = 0 \<or> main_state = NULL \<or> generation = 0 \<or> sample_hz = 0 \<or> \<not> has_token \<or> ?p = NULL \<or>
      sh_current_handle h me \<noteq> handle \<or> sh_host_failed h \<or>
      (sh_active_targets h \<noteq> 0 \<and> sh_active_sample_hz h \<noteq> sample_hz) \<or> select_target handle h = None \<or> \<not> he_events_memory env")
    case True
    then have "?start = Some (None, h)" by (auto simp: api_target_start_def Let_def split: option.split)
    then show thesis by (rule refused)
  next
    case False
    then obtain i where i: "select_target handle h = Some i" by auto
    let ?a = "active_host i handle ?token generation sample_hz main_state h"
    have hz: "sh_active_targets h = 0 \<or> sh_active_sample_hz h = sample_hz" using False by auto
    have oka: "host_ok ?a" by (rule host_ok_active [OF ok i]) (use False hz in auto)
    obtain synced h2 where sync: "sync_worker_timer env ?p (clear_slot env me ?a) = (synced, h2)"
      by (cases "sync_worker_timer env ?p (clear_slot env me ?a)")
    have q: "quiet ?a h2"
      using quiet_trans [OF quiet_clear_slot quiet_sync_worker_timer, of ?a env ?p env me] sync by simp
    have act: "activate_target i handle ?token generation sample_hz main_state (h\<lparr>sh_next_token := ?token\<rparr>) = (True, ?a)"
      by (rule activate_target_plain) (rule select_target_Some(2) [OF i ok])
    have start: "?start = (if \<not> synced then map_option (\<lambda>h3. (None, h3)) (rollback_target_start i ?token h2)
        else Some (Some ?token, publish_slot ?p (Some i) ?token main_state 0 NULL h2))"
      using False i act sync
      by (cases "sh_active_targets h = 0") (simp_all add: api_target_start_def Let_def)
    show thesis
    proof (cases synced)
      case True
      have h2: "h2 = snd (sync_worker_timer env ?p (clear_slot env me ?a))" by (simp only: sync snd_conv)
      show thesis
        by (rule started [OF _ _ _ _ _ _ hz i q refl _ h2]) (use start False True in simp_all)
    next
      case unsynced: False
      note r = quiet_rolled_back [OF ok i hz q quiet_host_ok [OF q oka]]
      then show thesis using failed [OF _ r(2)] start unsynced by simp
    qed
  qed
qed

lemma host_ok_token [simp]: "host_ok (h\<lparr>sh_next_token := n\<rparr>) = host_ok h"
  by (simp add: host_ok_def targets_ok_def registry_ok_def worker_registered_def worker_place_ok_def threads_ok_def slots_ok_def)

lemma started_quiet:
  assumes ok: "host_ok h" and i: "select_target handle h = Some i" and q: "quiet (active_host i handle token generation sample_hz main_state h) h2"
  shows "quiet (active_host i handle token generation sample_hz main_state h)
     (publish_slot p (Some i) token main_state 0 NULL h2)"
  by (rule quiet_trans [OF q]) (simp add: quiet_publish select_target_Some(1) [OF i ok])

lemma host_ok_start:
  assumes ok: "host_ok h"
  obtains r h' where "api_target_start env me handle main_state generation sample_hz has_token h = Some (r, h')" "host_ok h'"
  using ok
proof (cases rule: host_start_cases [where env = env and me = me and handle = handle and main_state = main_state
      and generation = generation and sample_hz = sample_hz and has_token = has_token])
  case refused
  then show thesis using that ok by simp
next
  case (failed h')
  then show thesis using that quiet_host_ok [OF failed(2)] ok by simp
next
  case (started i h2 h')
  have "host_ok (active_host i handle (bump_token (sh_next_token h)) generation sample_hz main_state h)"
    by (rule host_ok_active [OF ok started(8)]) (use started in simp_all)
  then have "host_ok h'" using quiet_host_ok [OF started_quiet [OF ok started(8,9)]] started(10) by simp
  then show thesis using that started(11) by simp
qed

section \<open>Histories of the host\<close>

datatype host_op =
    WorkerStart host_env nat u32 pointer
  | WorkerStop nat
  | DispatchEnter host_env nat u32
  | DispatchLeave host_env nat
  | TargetStart host_env nat u32 pointer u64 u32 bool
  | TargetQuiesce host_env nat u64
  | TargetRelease u64
  | PublishState nat u64 pointer c_int pointer
  | BeginEventDrain u64
  | EndEventDrain u64
  | NextEvent u64 bool
  | TakeHostQuality u64
  | WorkerSignal "siginfo option"

text \<open>\<open>calloc\<close> returns an address that is neither null nor in use.\<close>

definition host_op_step :: "host_op \<Rightarrow> skynet_host \<Rightarrow> skynet_host option" where
  "host_op_step op h =
     (case op of
        WorkerStart env me worker_id p \<Rightarrow>
          Some (if p = NULL \<or> sh_heap h p \<noteq> None then h else lp_skynet_host_worker_start env me worker_id p h)
      | WorkerStop me \<Rightarrow> Some (lp_skynet_host_worker_stop me h)
      | DispatchEnter env me handle \<Rightarrow> Some (lp_skynet_host_dispatch_enter env me handle h)
      | DispatchLeave env me \<Rightarrow> Some (lp_skynet_host_dispatch_leave env me h)
      | TargetStart env me handle main_state generation sample_hz has_token \<Rightarrow>
          map_option snd (api_target_start env me handle main_state generation sample_hz has_token h)
      | TargetQuiesce env me token \<Rightarrow> map_option snd (api_target_quiesce env me token h)
      | TargetRelease token \<Rightarrow> api_target_release token h
      | PublishState me token state vm_state cfunction \<Rightarrow> Some (api_publish_state me token state vm_state cfunction h)
      | BeginEventDrain token \<Rightarrow> Some (api_begin_event_drain token h)
      | EndEventDrain token \<Rightarrow> Some (api_end_event_drain token h)
      | NextEvent token has_event \<Rightarrow> map_option snd (api_next_event token has_event h)
      | TakeHostQuality token \<Rightarrow> Some (snd (api_take_quality token h))
      | WorkerSignal info \<Rightarrow> map_option fst (skynet_signal_handler info h))"

primrec host_history :: "host_op list \<Rightarrow> skynet_host \<Rightarrow> skynet_host option" where
  "host_history [] h = Some h"
| "host_history (op # ops) h = (case host_op_step op h of None \<Rightarrow> None | Some h' \<Rightarrow> host_history ops h')"

lemma host_ok_op:
  assumes ok: "host_ok h" shows "\<exists>h'. host_op_step op h = Some h' \<and> host_ok h'"
proof -
  note keep = quiet_host_ok [OF _ ok]
  show ?thesis
  proof (cases op)
    case (WorkerStart env me id p)
    then show ?thesis using ok host_ok_worker_start [OF ok] by (simp add: host_op_step_def)
  next
    case (TargetStart env me handle main_state generation sample_hz has_token)
    show ?thesis
      by (rule host_ok_start [OF ok, of env me handle main_state generation sample_hz has_token])
        (simp add: TargetStart host_op_step_def)
  next
    case (TargetQuiesce env me token)
    show ?thesis by (rule quiesce_cases [OF ok, of token env me]) (simp_all add: TargetQuiesce host_op_step_def ok)
  next
    case (TargetRelease token)
    then show ?thesis using host_ok_release [OF ok, of token] by (auto simp: host_op_step_def)
  next
    case (NextEvent token has_event)
    show ?thesis
      by (rule next_event_returns [OF ok, of token has_event]) (simp add: NextEvent host_op_step_def keep)
  next
    case (WorkerSignal info)
    obtain h' request where "skynet_signal_handler info h = Some (h', request)" "quiet h h'"
      by (rule handler_returns [OF ok, of info])
    then show ?thesis using WorkerSignal keep by (simp add: host_op_step_def)
  qed (use host_ok_worker_stop [OF ok] keep quiet_dispatch_enter [OF ok] quiet_dispatch_leave quiet_publish_state [OF ok]
      quiet_take_quality in \<open>simp_all add: host_op_step_def\<close>)
qed

lemma host_ok_history: "host_ok h \<Longrightarrow> \<exists>h'. host_history ops h = Some h' \<and> host_ok h'"
proof (induction ops arbitrary: h)
  case (Cons op ops)
  from host_ok_op [OF Cons.prems, of op] obtain h1 where "host_op_step op h = Some h1" "host_ok h1" by blast
  with Cons.IH [of h1] show ?case by simp
qed simp

lemma history_host_ok: "host_history ops initial_host = Some h \<Longrightarrow> host_ok h"
  using host_ok_history [OF host_ok_initial, of ops] by auto

lemma registered_are_in_memory:
  assumes "host_ok h" shows "set (sh_workers h) - {NULL} = {p. sh_heap h p \<noteq> None}"
proof (intro set_eqI iffI)
  fix p assume "p \<in> {p. sh_heap h p \<noteq> None}"
  then obtain w where w: "sh_heap h p = Some w" by auto
  then have "worker_registered h p w" "p \<noteq> NULL" using assms by (auto simp: host_ok_def registry_ok_def)
  then show "p \<in> set (sh_workers h) - {NULL}"
    using assms nth_mem by (force simp: worker_registered_def host_ok_def registry_ok_def)
qed (use registered_in_memory [OF assms] in auto)

lemma handles_distinct_filter:
  "handles_distinct ts \<Longrightarrow> distinct (map tg_handle (filter (\<lambda>t. tg_lifecycle t \<noteq> LP_SKYNET_TARGET_FREE) ts))"
proof (induction ts)
  case (Cons t ts)
  have "handles_distinct ts"
    unfolding handles_distinct_def
  proof (intro allI impI)
    fix i j
    assume "i < length ts" "j < length ts" "tg_lifecycle (ts ! i) \<noteq> LP_SKYNET_TARGET_FREE"
      "tg_lifecycle (ts ! j) \<noteq> LP_SKYNET_TARGET_FREE" "tg_handle (ts ! i) = tg_handle (ts ! j)"
    then show "i = j"
      using Cons.prems [unfolded handles_distinct_def, rule_format, of "Suc i" "Suc j"] by simp
  qed
  moreover have "tg_handle t \<noteq> tg_handle u"
    if t: "tg_lifecycle t \<noteq> LP_SKYNET_TARGET_FREE" and u: "u \<in> set ts" "tg_lifecycle u \<noteq> LP_SKYNET_TARGET_FREE" for u
  proof -
    obtain j where "j < length ts" "ts ! j = u" using u(1) by (auto simp: in_set_conv_nth)
    then show ?thesis
      using Cons.prems [unfolded handles_distinct_def, rule_format, of 0 "Suc j"] t u(2) by auto
  qed
  ultimately show ?case using Cons.IH by (auto simp: image_iff)
qed simp

text \<open>
  C26: whatever the workers, the dispatch of the host, the bridge and the timer signals do, one
  operation after the other: every operation returns, so that no wait is endless and neither the
  handler nor a drain touches a freed worker or freed events. Afterwards no pin is left and each
  target is free and cleared, or active or stopping with its events; the handles of the sessions
  differ; the count and the rate are those of the active targets; the workers in memory are the
  registered ones, and the signal action is installed exactly while there is one.
\<close>

theorem host_histories_return:
  "\<exists>h. host_history ops initial_host = Some h \<and>
     list_all target_ok (sh_targets h) \<and>
     distinct (map tg_handle (filter (\<lambda>t. tg_lifecycle t \<noteq> LP_SKYNET_TARGET_FREE) (sh_targets h))) \<and>
     unat (sh_active_targets h) = length (filter (\<lambda>t. tg_lifecycle t = LP_SKYNET_TARGET_ACTIVE) (sh_targets h)) \<and>
     tg_sample_hz ` set (filter (\<lambda>t. tg_lifecycle t = LP_SKYNET_TARGET_ACTIVE) (sh_targets h)) \<subseteq> {sh_active_sample_hz h} \<and>
     (sh_active_sample_hz h = 0 \<longleftrightarrow> sh_active_targets h = 0) \<and>
     set (sh_workers h) - {NULL} = {p. sh_heap h p \<noteq> None} \<and>
     unat (sh_signal_users h) = length (filter (\<lambda>p. p \<noteq> NULL) (sh_workers h)) \<and>
     (sh_handler_installed h \<longleftrightarrow> sh_signal_users h \<noteq> 0)"
proof -
  obtain h where h: "host_history ops initial_host = Some h" "host_ok h" using host_ok_history [OF host_ok_initial] by blast
  have t: "targets_ok h" and r: "registry_ok h" using h(2) by (simp_all add: host_ok_def)
  have "list_all target_ok (sh_targets h)" using t by (simp add: targets_ok_def list_all_iff)
  moreover have "distinct (map tg_handle (filter (\<lambda>t. tg_lifecycle t \<noteq> LP_SKYNET_TARGET_FREE) (sh_targets h)))"
    using t by (intro handles_distinct_filter) (simp add: targets_ok_def)
  moreover have "tg_sample_hz ` set (filter (\<lambda>t. tg_lifecycle t = LP_SKYNET_TARGET_ACTIVE) (sh_targets h)) \<subseteq>
      {sh_active_sample_hz h}"
    using t by (auto simp: targets_ok_def)
  moreover have "unat (sh_active_targets h) = length (filter (\<lambda>t. tg_lifecycle t = LP_SKYNET_TARGET_ACTIVE) (sh_targets h))"
    "sh_active_sample_hz h = 0 \<longleftrightarrow> sh_active_targets h = 0"
    using t by (auto simp: targets_ok_def active_in_def)
  moreover have "unat (sh_signal_users h) = length (filter (\<lambda>p. p \<noteq> NULL) (sh_workers h))"
    "sh_handler_installed h \<longleftrightarrow> sh_signal_users h \<noteq> 0"
    using r by (simp_all add: registry_ok_def workers_in_def)
  ultimately show ?thesis using h(1) registered_are_in_memory [OF h(2)] by blast
qed

text \<open>
  A start that fails, because of its arguments, for want of a free target or of memory, or
  since the kernel timer cannot be set, leaves the sessions, their number, their rate and the
  registry as they were.
\<close>

theorem failed_start_keeps_sessions:
  assumes "host_history ops initial_host = Some h"
    and "api_target_start env me handle main_state generation sample_hz has_token h = Some (None, h')"
  shows "list_all2 keeps_session (sh_targets h) (sh_targets h') \<and> sh_active_targets h' = sh_active_targets h \<and>
    sh_active_sample_hz h' = sh_active_sample_hz h \<and> sh_workers h' = sh_workers h \<and>
    sh_current_worker h' = sh_current_worker h"
proof -
  have "h' = h \<or> quiet (h\<lparr>sh_next_token := bump_token (sh_next_token h)\<rparr>) h'"
    by (rule host_start_cases [OF history_host_ok [OF assms(1)],
          where env = env and me = me and handle = handle and main_state = main_state and generation = generation
            and sample_hz = sample_hz and has_token = has_token])
      (use assms(2) in simp_all)
  then show ?thesis by (auto simp: quiet_def)
qed

end
