(* ===== verification/Skynet_Tokens.thy ===== *)
theory Skynet_Tokens
  imports Skynet_Sessions
begin

text \<open>
  Tokens of sessions: they name a session in every call of the bridge and in the slots of the
  workers. As long as the counter has not wrapped around, they are unique for the life of the
  process, so that nothing that still names a released session can reach a later one.

  Shown also: how a tick gets from the signal to the drain. The last section holds the runs the
  properties are applied to.
\<close>

section \<open>Uniqueness\<close>

definition tokens :: "skynet_host \<Rightarrow> u64 list" where
  "tokens h = map tg_token (sh_targets h)"

text \<open>At most the counter; and different, except that zero is the token of every free target.\<close>

definition tokens_ok :: "skynet_host \<Rightarrow> bool" where
  "tokens_ok h \<longleftrightarrow>
     (\<forall>k \<in> set (tokens h). k \<le> sh_next_token h) \<and>
     (\<forall>i < length (tokens h). \<forall>j < length (tokens h). tokens h ! i \<noteq> 0 \<longrightarrow> tokens h ! i = tokens h ! j \<longrightarrow> i = j)"

lemma tokens_ok_initial: "tokens_ok initial_host"
  by (simp add: tokens_ok_def tokens_def initial_host_def zero_target_def)

lemma quiet_tokens: "quiet h h' \<Longrightarrow> tokens h' = tokens h \<and> sh_next_token h' = sh_next_token h"
  by (auto simp: quiet_def tokens_def keeps_session_def list_all2_conv_all_nth intro!: nth_equalityI)

lemma length_tokens: "host_ok h \<Longrightarrow> length (tokens h) = LP_SKYNET_TARGET_CAPACITY"
  by (simp add: tokens_def host_ok_length)

text \<open>What one operation does to the tokens.\<close>

definition token_step :: "skynet_host \<Rightarrow> skynet_host \<Rightarrow> bool" where
  "token_step h h' \<longleftrightarrow>
     (let fresh = bump_token (sh_next_token h)
      in tokens h' = tokens h \<and> sh_next_token h' \<in> {sh_next_token h, fresh} \<or>
         (\<exists>i. tokens h' = (tokens h)[i := 0] \<and> sh_next_token h' = sh_next_token h) \<or>
         (\<exists>i < length (tokens h). tokens h ! i = 0 \<and> tokens h' = (tokens h)[i := fresh] \<and> sh_next_token h' = fresh))"

lemma quiet_token_step: "quiet h h' \<Longrightarrow> token_step h h'"
  using quiet_tokens by (simp add: token_step_def Let_def)

lemma token_step_start:
  assumes ok: "host_ok h" and "api_target_start env me handle main_state generation sample_hz has_token h = Some (r, h')"
  shows "token_step h h'"
  using ok
proof (cases rule: host_start_cases [where env = env and me = me and handle = handle and main_state = main_state
      and generation = generation and sample_hz = sample_hz and has_token = has_token])
  case refused
  then show ?thesis using assms(2) quiet_token_step by simp
next
  case (failed h1)
  then show ?thesis using assms(2) quiet_tokens [OF failed(2)] by (simp add: token_step_def tokens_def Let_def)
next
  case (started i h2 h1)
  let ?fresh = "bump_token (sh_next_token h)"
  note sel = select_target_Some [OF started(8) ok]
  have "tokens (active_host i handle ?fresh generation sample_hz main_state h) = (tokens h)[i := ?fresh]"
    by (simp add: tokens_def active_host_def upd_target_def map_update session_target_def prepare_target_def)
  moreover have "sh_next_token (active_host i handle ?fresh generation sample_hz main_state h) = ?fresh"
    by (simp add: active_host_def)
  moreover have "tokens h ! i = 0"
    using host_ok_target [OF ok sel(1)] sel(1,2) host_ok_length [OF ok] by (simp add: tokens_def target_ok_def)
  moreover have "h' = h1" using started(11) assms(2) by simp
  ultimately show ?thesis
    using quiet_tokens [OF started_quiet [OF ok started(8,9)]] started(10) sel(1) length_tokens [OF ok]
    by (auto simp: token_step_def Let_def)
qed

lemma stopping_tokens: "tokens (stopping_host i h) = tokens h" "sh_next_token (stopping_host i h) = sh_next_token h"
proof -
  have "(map tg_token (sh_targets h))[i := tg_token (sh_targets h ! i)] = map tg_token (sh_targets h)"
    by (cases "i < length (sh_targets h)") (simp_all add: list_update_beyond, metis list_update_id nth_map)
  then show "tokens (stopping_host i h) = tokens h"
    by (simp add: tokens_def stopping_host_def drop_active_parts upd_target_def map_update)
  show "sh_next_token (stopping_host i h) = sh_next_token h"
    by (simp add: stopping_host_def drop_active_parts upd_target_def)
qed

lemma token_step_op:
  assumes ok: "host_ok h" and op: "host_op_step op h = Some h'"
  shows "token_step h h'"
proof (cases op)
  case (WorkerStart env me id p)
  show ?thesis
  proof (cases "p = NULL \<or> sh_heap h p \<noteq> None")
    case True
    then show ?thesis using op WorkerStart quiet_token_step by (simp add: host_op_step_def)
  next
    case False
    then have "sh_heap h p = None" by simp
    with ok have "tokens h' = tokens h \<and> sh_next_token h' = sh_next_token h"
    proof (cases rule: worker_start_cases [where env = env and me = me and worker_id = id])
      case (started i)
      let ?h = "(registered_host h p i (started_worker id i))\<lparr>sh_current_worker := (sh_current_worker h)(me := p)\<rparr>"
      have "h' = snd (sync_worker_timer env p ?h)" using op WorkerStart False started by (simp add: host_op_step_def)
      then show ?thesis
        using quiet_tokens [OF quiet_sync_worker_timer [of ?h env p]] by (simp add: tokens_def registered_host_def)
    next
      case failed
      then show ?thesis using op WorkerStart False quiet_tokens [OF quiet_failure [of h]] by (simp add: host_op_step_def)
    qed (use op WorkerStart False in \<open>simp add: host_op_step_def\<close>)
    then show ?thesis by (simp add: token_step_def Let_def)
  qed
next
  case (WorkerStop me)
  have "tokens h' = tokens h \<and> sh_next_token h' = sh_next_token h"
  proof (cases "sh_current_worker h me = NULL")
    case True
    then show ?thesis using op WorkerStop by (simp add: host_op_step_def lp_skynet_host_worker_stop_def Let_def)
  next
    case False
    obtain i h1 where "i < LP_SKYNET_WORKER_CAPACITY" "sh_workers h ! i = sh_current_worker h me" and q: "quiet h h1"
      and "sh_heap h1 (sh_current_worker h me) \<noteq> None"
      and stop: "lp_skynet_host_worker_stop me h = (unregistered_host h1 (sh_current_worker h me) i)
       \<lparr>sh_current_worker := (sh_current_worker h)(me := NULL), sh_current_handle := (sh_current_handle h)(me := 0)\<rparr>"
      using worker_stop_unregisters [OF ok False] .
    have "h' = lp_skynet_host_worker_stop me h" using op WorkerStop by (simp add: host_op_step_def)
    then show ?thesis using quiet_tokens [OF q] by (simp add: stop unregistered_host_def tokens_def)
  qed
  then show ?thesis by (simp add: token_step_def Let_def)
next
  case (TargetStart env me handle main_state generation sample_hz has_token)
  then show ?thesis using op token_step_start [OF ok] by (auto simp: host_op_step_def)
next
  case (TargetQuiesce env me token)
  show ?thesis
  proof (rule quiesce_cases [OF ok, of token env me], goal_cases missing quiesced)
    case missing
    then show ?case using op TargetQuiesce quiet_token_step by (simp add: host_op_step_def)
  next
    case (quiesced i h1)
    then show ?case
      using op TargetQuiesce quiet_tokens [of "stopping_host i h" h1] stopping_tokens
      by (simp add: host_op_step_def token_step_def Let_def)
  qed
next
  case (TargetRelease token)
  have "tokens (upd_target i freed h) = (tokens h)[i := 0]" "sh_next_token (upd_target i freed h) = sh_next_token h" for i
    by (simp_all add: tokens_def upd_target_def map_update freed_def clear_target_def)
  then show ?thesis
    using op TargetRelease release_returns [OF ok, of token] quiet_token_step [OF quiet_refl]
    by (cases "find_target LP_SKYNET_TARGET_STOPPING token h") (auto simp: host_op_step_def token_step_def Let_def)
next
  case (NextEvent token has_event)
  show ?thesis
    by (rule next_event_returns [OF ok, of token has_event])
      (use op NextEvent quiet_token_step in \<open>simp add: host_op_step_def\<close>)
next
  case (WorkerSignal info)
  show ?thesis
    by (rule handler_returns [OF ok, of info]) (use op WorkerSignal quiet_token_step in \<open>simp add: host_op_step_def\<close>)
qed (use op quiet_token_step quiet_dispatch_enter [OF ok] quiet_dispatch_leave quiet_publish_state [OF ok]
    quiet_take_quality in \<open>auto simp: host_op_step_def\<close>)

text \<open>A token that was handed out, and whose session is gone.\<close>

definition token_gone :: "u64 \<Rightarrow> skynet_host \<Rightarrow> bool" where
  "token_gone k h \<longleftrightarrow> k \<noteq> 0 \<and> k \<le> sh_next_token h \<and> k \<notin> set (tokens h)"

lemma bump_token_plain: "unat n < u64_max \<Longrightarrow> bump_token n = n + 1 \<and> unat (n + 1) = Suc (unat n)"
proof -
  assume "unat n < u64_max"
  then have "unat (n + 1) = Suc (unat n)" by (simp add: unat_word_ariths)
  moreover from this have "n + 1 \<noteq> 0" by (metis unat_0 nat.distinct(1))
  ultimately show ?thesis by (simp add: bump_token_def)
qed

lemma token_step_keeps:
  assumes step: "token_step h h'" and ok: "tokens_ok h" and small: "unat (sh_next_token h) < u64_max"
  shows "tokens_ok h'" "unat (sh_next_token h') \<le> Suc (unat (sh_next_token h))" "token_gone k h \<Longrightarrow> token_gone k h'"
proof -
  let ?fresh = "bump_token (sh_next_token h)"
  note b = bump_token_plain [OF small]
  have less: "k < ?fresh" if "k \<le> sh_next_token h" for k
    using that b by (simp add: word_less_nat_alt word_le_nat_alt)
  have up: "k \<le> sh_next_token h'" if "k \<le> sh_next_token h" for k
    using step that less [OF that] by (auto simp: token_step_def Let_def)
  have below: "k \<le> sh_next_token h" if "k \<in> set (tokens h)" for k using ok that by (simp add: tokens_ok_def)
  consider (same) "tokens h' = tokens h" | (freed) i where "tokens h' = (tokens h)[i := 0]"
    | (fresh) i where "i < length (tokens h)" "tokens h' = (tokens h)[i := ?fresh]" "sh_next_token h' = ?fresh"
    using step by (auto simp: token_step_def Let_def)
  then have "tokens_ok h' \<and> (token_gone k h \<longrightarrow> token_gone k h')"
  proof cases
    case same
    then show ?thesis using ok up by (simp add: tokens_ok_def token_gone_def)
  next
    case (freed i)
    have sub: "set ((tokens h)[i := 0]) \<subseteq> insert 0 (set (tokens h))" by (rule set_update_subset_insert)
    have "a = b" if "a < length (tokens h)" "b < length (tokens h)" "(tokens h)[i := 0] ! a \<noteq> 0"
      "(tokens h)[i := 0] ! a = (tokens h)[i := 0] ! b" for a b
      using that ok by (cases "a = i"; cases "b = i") (auto simp: tokens_ok_def)
    moreover have "l \<le> sh_next_token h'" if "l \<in> set ((tokens h)[i := 0])" for l
      using subsetD [OF sub that] up [OF below] by auto
    moreover have "k \<noteq> 0 \<longrightarrow> k \<notin> set (tokens h) \<longrightarrow> k \<notin> set ((tokens h)[i := 0])" using sub by blast
    ultimately show ?thesis using freed up by (simp add: tokens_ok_def token_gone_def)
  next
    case (fresh i)
    have sub: "set ((tokens h)[i := ?fresh]) \<subseteq> insert ?fresh (set (tokens h))" by (rule set_update_subset_insert)
    have ne: "tokens h ! a \<noteq> ?fresh" if "a < length (tokens h)" for a
      using less [OF below [OF nth_mem [OF that]]] by simp
    have "a = b" if "a < length (tokens h)" "b < length (tokens h)" "(tokens h)[i := ?fresh] ! a \<noteq> 0"
      "(tokens h)[i := ?fresh] ! a = (tokens h)[i := ?fresh] ! b" for a b
      using that ok ne [of a] ne [of b] fresh(1) by (cases "a = i"; cases "b = i") (auto simp: tokens_ok_def)
    moreover have "l \<le> sh_next_token h'" if "l \<in> set ((tokens h)[i := ?fresh])" for l
      using subsetD [OF sub that] up [OF below] fresh(3) by auto
    moreover have "k \<le> sh_next_token h \<longrightarrow> k \<notin> set (tokens h) \<longrightarrow> k \<notin> set ((tokens h)[i := ?fresh])"
      using sub less [of k] by blast
    ultimately show ?thesis using fresh(2) up by (simp add: tokens_ok_def token_gone_def)
  qed
  then show "tokens_ok h'" "token_gone k h \<Longrightarrow> token_gone k h'" by simp_all
  show "unat (sh_next_token h') \<le> Suc (unat (sh_next_token h))"
    using step b by (auto simp: token_step_def Let_def)
qed

lemma history_tokens:
  assumes "host_history ops h = Some h'" and "host_ok h" and "tokens_ok h"
    and "unat (sh_next_token h) + length ops \<le> u64_max"
  shows "tokens_ok h' \<and> host_ok h' \<and> unat (sh_next_token h') \<le> unat (sh_next_token h) + length ops \<and>
    (token_gone k h \<longrightarrow> token_gone k h')"
  using assms
proof (induction ops arbitrary: h)
  case (Cons op ops)
  obtain h1 where h1: "host_op_step op h = Some h1" "host_ok h1" using host_ok_op [OF Cons.prems(2), of op] by blast
  have small: "unat (sh_next_token h) < u64_max" using Cons.prems(4) by simp
  note step = token_step_keeps [OF token_step_op [OF Cons.prems(2) h1(1)] Cons.prems(3) small]
  have "host_history ops h1 = Some h'" using Cons.prems(1) h1(1) by simp
  from Cons.IH [OF this h1(2) step(1)] step(2,3) Cons.prems(4) show ?case by simp
qed simp

lemma initial_history:
  assumes "host_history ops initial_host = Some h" and "length ops < u64_max"
  shows "host_ok h" "tokens_ok h" "unat (sh_next_token h) \<le> length ops" "unat (sh_next_token h) < u64_max"
proof -
  have "sh_next_token initial_host = 0" by (simp add: initial_host_def)
  then have "tokens_ok h \<and> host_ok h \<and> unat (sh_next_token h) \<le> length ops"
    using history_tokens [OF assms(1) host_ok_initial tokens_ok_initial] assms(2) by auto
  then show "host_ok h" "tokens_ok h" "unat (sh_next_token h) \<le> length ops" "unat (sh_next_token h) < u64_max"
    using assms(2) by auto
qed

section \<open>A released session\<close>

lemma gone_session:
  assumes "token_gone k h" and "host_ok h"
  shows "pin_token k allow_stopping h = None" "find_target state k h = None"
    "t \<in> set (sh_targets h) \<Longrightarrow> target_pin_session k allowed t = None"
proof -
  have other: "tg_token t \<noteq> k" if "t \<in> set (sh_targets h)" for t
    using assms(1) that by (auto simp: token_gone_def tokens_def)
  then have "tg_token (sh_targets h ! i) \<noteq> k" if "i < LP_SKYNET_TARGET_CAPACITY" for i
    using that host_ok_length [OF assms(2)] by simp
  then show "pin_token k allow_stopping h = None" "find_target state k h = None"
    by (auto simp: pin_token_def find_target_def find_None_iff Let_def)
  show "target_pin_session k allowed t = None" if "t \<in> set (sh_targets h)"
    using other [OF that] by (auto simp: target_pin_session_def target_pin_def pin_swap_def split: option.split)
qed

lemma find_unique: "P i \<Longrightarrow> i < n \<Longrightarrow> (\<And>j. j < n \<Longrightarrow> P j \<Longrightarrow> j = i) \<Longrightarrow> find P [0..<n] = Some i"
proof -
  assume i: "P i" "i < n" and only: "\<And>j. j < n \<Longrightarrow> P j \<Longrightarrow> j = i"
  have "\<not> P j" if "j < i" for j using only [of j] i(2) that by auto
  then show ?thesis using i by (auto simp: find_Some_iff)
qed

lemma token_index:
  assumes "host_ok h" and "tokens_ok h" and "i < LP_SKYNET_TARGET_CAPACITY" "j < LP_SKYNET_TARGET_CAPACITY"
    and "tg_token (sh_targets h ! i) = k" "tg_token (sh_targets h ! j) = k" and "k \<noteq> 0"
  shows "i = j"
  using assms host_ok_length [OF assms(1)] by (simp add: tokens_ok_def tokens_def)

lemma find_target_unique:
  assumes ok: "host_ok h" and tok: "tokens_ok h" and i: "i < LP_SKYNET_TARGET_CAPACITY"
    and l: "tg_lifecycle (sh_targets h ! i) = state" and k: "tg_token (sh_targets h ! i) = k" "k \<noteq> 0"
  shows "find_target state k h = Some i"
  unfolding find_target_def
proof (rule find_unique [OF _ i])
  show "target_current_state (sh_targets h ! i) = state \<and> tg_token (sh_targets h ! i) = k"
    using target_ok_state(1) [OF host_ok_target [OF ok i]] l k by simp
  fix j
  assume "j < LP_SKYNET_TARGET_CAPACITY" "target_current_state (sh_targets h ! j) = state \<and> tg_token (sh_targets h ! j) = k"
  then show "j = i" using token_index [OF ok tok _ i _ k] by blast
qed

text \<open>A token is not zero exactly while its target is not free, so that its holder can pin it.\<close>

lemma pin_token_unique:
  assumes ok: "host_ok h" and tok: "tokens_ok h" and i: "i < LP_SKYNET_TARGET_CAPACITY"
    and k: "tg_token (sh_targets h ! i) = k" "k \<noteq> 0"
    and l: "allow_stopping \<or> tg_lifecycle (sh_targets h ! i) = LP_SKYNET_TARGET_ACTIVE"
  shows "pin_token k allow_stopping h = Some (i, upd_target i pin_swap h)"
proof -
  let ?allowed = "if allow_stopping then allow_session else allow_active"
  let ?P = "\<lambda>i. let t = sh_targets h ! i in ?allowed AND LP_SKYNET_TARGET_ALLOW (target_current_state t) \<noteq> 0 \<and> tg_token t = k \<and>
      pin_allowed ?allowed (tg_lifecycle t)"
  note st = target_ok_state [OF host_ok_target [OF ok i]]
  have "tg_lifecycle (sh_targets h ! i) \<noteq> LP_SKYNET_TARGET_FREE"
    using host_ok_target [OF ok i] k by (auto simp: target_ok_def)
  then have pin: "pin_allowed ?allowed (tg_lifecycle (sh_targets h ! i))" using st(4,5) l by auto
  then have "?allowed AND LP_SKYNET_TARGET_ALLOW (target_current_state (sh_targets h ! i)) \<noteq> 0"
    by (simp only: pin_allowed_def target_current_state_def de_Morgan_disj not_not simp_thms)
  with pin k(1) have "?P i" unfolding Let_def by blast
  then have "find ?P [0..<LP_SKYNET_TARGET_CAPACITY] = Some i"
  proof (rule find_unique [OF _ i])
    fix j
    assume "j < LP_SKYNET_TARGET_CAPACITY" "?P j"
    then show "j = i" using token_index [OF ok tok _ i _ k] unfolding Let_def by blast
  qed
  then show ?thesis unfolding pin_token_def Let_def by simp
qed

text \<open>
  C27: a released session is gone for good. After a quiesce and a release, and whatever happens
  then for as long as the counter of tokens does not wrap around, every call with its token has
  no effect and finds nothing, and no tick whose slot still holds the token reaches any target.
\<close>

theorem released_session_is_gone:
  assumes "host_history ops initial_host = Some h" and "length ops + length ops' < u64_max"
    and "api_target_quiesce env me token h = Some (True, h1)" and "api_target_release token h1 = Some h2"
    and "host_history ops' h2 = Some h3"
  shows "api_next_event token has_event h3 = Some (None, h3) \<and> api_take_quality token h3 = (zero_quality, h3) \<and>
    api_begin_event_drain token h3 = h3 \<and> api_end_event_drain token h3 = h3 \<and>
    api_publish_state me' token state vm_state cfunction h3 = h3 \<and>
    api_target_quiesce env' me' token h3 = Some (False, h3) \<and> api_target_release token h3 = Some h3 \<and>
    (\<forall>t \<in> set (sh_targets h3). target_tick info token e t = Some (t, None))"
proof -
  have len64: "length ops < u64_max" using assms(2) by simp
  note ok = initial_history(1) [OF assms(1) len64] and tok = initial_history(2) [OF assms(1) len64]
    and small = initial_history(3) [OF assms(1) len64]
  obtain i where i: "i < LP_SKYNET_TARGET_CAPACITY" "tg_lifecycle (sh_targets h ! i) = LP_SKYNET_TARGET_ACTIVE"
    "tg_token (sh_targets h ! i) = token" and q: "quiet (stopping_host i h) h1" and ok1: "host_ok h1"
    by (rule quiesce_cases [OF ok, of token env me]) (use assms(3) in simp_all)
  have h1: "tokens h1 = tokens h" "sh_next_token h1 = sh_next_token h" using quiet_tokens [OF q] stopping_tokens by simp_all
  then have tok1: "tokens_ok h1" using tok by (simp add: tokens_ok_def)
  have "token \<noteq> 0" using host_ok_target [OF ok i(1)] i(2,3) by (simp add: target_ok_def)
  have len: "length (sh_targets h) = LP_SKYNET_TARGET_CAPACITY" "length (sh_targets h1) = LP_SKYNET_TARGET_CAPACITY"
    using ok ok1 by auto
  have "keeps_session (sh_targets (stopping_host i h) ! i) (sh_targets h1 ! i)"
    using quiet_sessions [OF q, of i] i(1) len by (simp add: stopping_host_def drop_active_parts upd_target_def)
  then have t1: "tg_lifecycle (sh_targets h1 ! i) = LP_SKYNET_TARGET_STOPPING" "tg_token (sh_targets h1 ! i) = token"
    using i len by (simp_all add: keeps_session_def stopping_host_def drop_active_parts upd_target_def)
  have "find_target LP_SKYNET_TARGET_STOPPING token h1 = Some i"
    by (rule find_target_unique [OF ok1 tok1 i(1) t1 \<open>token \<noteq> 0\<close>])
  then have h2: "h2 = upd_target i freed h1" using release_returns [OF ok1, of token] assms(4) by simp
  then have ok2: "host_ok h2" using host_ok_freed [OF ok1 i(1) t1(1)] by simp
  have tokens2: "tokens h2 = (tokens h1)[i := 0]" "sh_next_token h2 = sh_next_token h"
    by (simp_all add: h2 h1 tokens_def upd_target_def map_update freed_def clear_target_def)
  have step: "token_step h1 h2" using tokens2 h1(2) by (auto simp: token_step_def Let_def)
  have "token \<in> set (tokens h)" using i(1,3) len by (auto simp: tokens_def)
  then have le: "token \<le> sh_next_token h" using tok by (simp add: tokens_ok_def)
  have other: "tokens h1 ! j \<noteq> token" if "j < LP_SKYNET_TARGET_CAPACITY" "j \<noteq> i" for j
    using token_index [OF ok1 tok1 that(1) i(1) _ t1(2) \<open>token \<noteq> 0\<close>] that len by (auto simp: tokens_def)
  have "token \<notin> set (tokens h2)"
  proof
    assume "token \<in> set (tokens h2)"
    then obtain j where j: "j < LP_SKYNET_TARGET_CAPACITY" "(tokens h1)[i := 0] ! j = token"
      using length_tokens [OF ok1] by (auto simp: tokens2(1) in_set_conv_nth)
    then show False
      using other [OF j(1)] \<open>token \<noteq> 0\<close> length_tokens [OF ok1] i(1) by (cases "j = i") simp_all
  qed
  then have gone: "token_gone token h2" using le tokens2(2) \<open>token \<noteq> 0\<close> by (simp add: token_gone_def)
  have tok2: "tokens_ok h2"
    using small len64 h1(2) by (intro token_step_keeps(1) [OF step tok1]) simp
  have h3: "host_ok h3" "token_gone token h3"
    using history_tokens [OF assms(5) ok2 tok2, of token] gone small assms(2) tokens2(2) by simp_all
  note none = gone_session [OF h3(2,1)]
  show ?thesis
    using none by (simp add: api_next_event_def api_take_quality_def api_begin_event_drain_def api_end_event_drain_def
        with_token_def api_publish_state_def api_target_quiesce_def api_target_release_def target_tick_def)
qed

section \<open>From the signal to the drain\<close>

lemma upd_target_same [simp]: "upd_target i (\<lambda>t. t) h = h"
  by (cases h) (simp add: upd_target_def)

lemma with_token_at:
  assumes "host_ok h" "tokens_ok h" "i < LP_SKYNET_TARGET_CAPACITY" "tg_token (sh_targets h ! i) = k" "k \<noteq> 0"
  shows "with_token k f h = upd_target i (\<lambda>t. target_unpin (f (pin_swap t))) h"
  by (simp add: with_token_def pin_token_unique [OF assms, of True] upd_target_upd)

lemma next_event_at:
  assumes "host_ok h" "tokens_ok h" "i < LP_SKYNET_TARGET_CAPACITY" "tg_token (sh_targets h ! i) = k" "k \<noteq> 0"
    and r: "tg_ring (sh_targets h ! i) = Some r"
  shows "api_next_event k True h =
    Some (case ring_next r of None \<Rightarrow> (None, h) | Some (e, r') \<Rightarrow> (Some e, upd_target i (\<lambda>t. t\<lparr>tg_ring := Some r'\<rparr>) h))"
proof -
  let ?t = "sh_targets h ! i"
  have at: "sh_targets (upd_target i pin_swap h) ! i = pin_swap ?t"
    using host_ok_length [OF assms(1)] assms(3) by (simp add: upd_target_nth)
  have r': "tg_ring (pin_swap ?t) = Some r" by (simp add: pin_swap_def r)
  have "target_unpin ((pin_swap t)\<lparr>tg_ring := x\<rparr>) = t\<lparr>tg_ring := x\<rparr>" for t x by (simp add: target_unpin_def pin_swap_def)
  moreover have "upd_target i (\<lambda>t. (sh_targets h ! i)\<lparr>tg_ring := x\<rparr>) h = upd_target i (\<lambda>t. t\<lparr>tg_ring := x\<rparr>) h" for x
    by (simp add: upd_target_def)
  moreover have "upd_target i (\<lambda>t. sh_targets h ! i) h = h" by (cases h) (simp add: upd_target_def)
  ultimately show ?thesis
    by (cases "ring_next r")
      (simp_all add: api_next_event_def pin_token_unique [OF assms(1-5), of True] upd_target_upd at pinned_next_def r' split: prod.split)
qed

text \<open>The queues are only touched by ticks and drains, and the drain flags by drains.\<close>

definition queues :: "skynet_host \<Rightarrow> (lp_skynet_tick_event tick_ring option \<times> bool) list" where
  "queues h = map (\<lambda>t. (tg_ring t, tg_draining_events t)) (sh_targets h)"

lemma queues_upd_target:
  "(i < length (sh_targets h) \<Longrightarrow> tg_ring (f (sh_targets h ! i)) = tg_ring (sh_targets h ! i) \<and>
     tg_draining_events (f (sh_targets h ! i)) = tg_draining_events (sh_targets h ! i)) \<Longrightarrow>
   queues (upd_target i f h) = queues h"
  by (cases "i < length (sh_targets h)")
    (auto simp: queues_def upd_target_def map_update list_update_beyond intro!: list_update_same_conv [THEN iffD2])

lemma queues_upd_worker [simp]: "queues (upd_worker p f h) = queues h"
  by (simp add: queues_def upd_worker_def)

lemma queues_publish [simp]: "queues (publish_slot p target token state vm_state cfunction h) = queues h"
  by (simp add: publish_slot_def Let_def queues_upd_target split: option.split)

lemma queues_discards:
  "tg_ring (fold (discard_tick p) infos t) = tg_ring t \<and>
   tg_draining_events (fold (discard_tick p) infos t) = tg_draining_events t"
  by (induction infos arbitrary: t) (simp_all add: discard_tick_def count_stale_def count_overrun_def Let_def)

lemma queues_discard_pending [simp]: "queues (discard_pending env p target token h) = queues h"
proof -
  have "tg_ring (target_unpin (fold (discard_tick p) infos u)) = tg_ring t \<and>
      tg_draining_events (target_unpin (fold (discard_tick p) infos u)) = tg_draining_events t"
    if "target_pin_session token allowed t = Some (state, u)" for t u state allowed infos
    using that
    by (auto simp: target_unpin_def queues_discards target_pin_session_def target_pin_def pin_swap_def
        split: option.splits if_splits)
  then show ?thesis by (auto simp: discard_pending_def queues_upd_target split: option.split)
qed

lemma queues_clear_slot [simp]: "queues (clear_slot env me h) = queues h"
  by (simp add: clear_slot_def Let_def)

lemma queues_sync [simp]: "queues (snd (sync_worker_timer env p h)) = queues h"
proof -
  have "queues (record_active_timer_failure (host_failure h)) = queues h"
    by (auto simp: queues_def record_active_timer_failure_def host_failure_def target_pin_def pin_swap_def target_unpin_def
        count_timer_failure_def)
  then show ?thesis by (simp add: sync_worker_timer_def Let_def)
qed

lemma publish_stores_published:
  "fold (\<lambda>store w. store w) (publish_stores target token state vm_state cfunction) = published target token state vm_state cfunction"
  by (rule ext) (rule publish_stores_fold)

lemma publish_slot_worker:
  "p \<noteq> NULL \<Longrightarrow> sh_heap (publish_slot p target token state vm_state cfunction h) p =
     map_option (published target token state vm_state cfunction) (sh_heap h p)"
  by (simp add: publish_slot_def Let_def upd_worker_def upd_target_def publish_stores_published split: option.split)

text \<open>
  A tick on the worker whose slot names an active session that does not drain: the event is
  queued behind the ones there.
\<close>

lemma tick_is_queued:
  assumes ok: "host_ok h" and info: "si_timer info" and w: "sh_heap h (si_value info) = Some w" "wk_slot_target w = Some i"
      "wk_slot_state w \<noteq> NULL" and vm: "0 \<le> sint (wk_slot_vm_state w)" "sint (wk_slot_vm_state w) \<le> 3"
      "wk_slot_vm_state w = 2 \<longrightarrow> wk_slot_cfunction w \<noteq> NULL"
    and t: "tg_lifecycle (sh_targets h ! i) = LP_SKYNET_TARGET_ACTIVE" "tg_token (sh_targets h ! i) = wk_slot_token w"
      "\<not> tg_draining_events (sh_targets h ! i)" "tg_ring (sh_targets h ! i) = Some r"
    and push: "ring_push (slot_event_of w) r = Some r'"
  shows "skynet_signal_handler (Some info) h =
    Some (upd_target i (\<lambda>t. (count_overrun info t)\<lparr>tg_ring := Some r'\<rparr>) h, Some (wk_slot_state w))"
proof -
  let ?p = "si_value info" let ?t = "sh_targets h ! i"
  have wok: "worker_ok w" "worker_registered h ?p w" using host_ok_worker [OF ok w(1)] by simp_all
  then have i: "i < LP_SKYNET_TARGET_CAPACITY" using w(2) by (simp add: worker_ok_def)
  have "?p \<noteq> NULL" "registered_worker ?p h"
    using registered_are_in_memory [OF ok] w(1) by (auto simp: registered_worker_def)
  then have "skynet_signal_handler (Some info) h = worker_tick info w h"
    using info w(1) wok(2) by (simp add: skynet_signal_handler_def worker_registered_def)
  also have "\<dots> = map_option (\<lambda>(t, request). (upd_target i (\<lambda>_. t) h, request)) (target_tick info (wk_slot_token w) (slot_event_of w) ?t)"
    using wok(1) w(2,3) by (simp add: worker_tick_def worker_ok_def)
  also have "target_tick info (wk_slot_token w) (slot_event_of w) ?t =
      Some ((count_overrun info ?t)\<lparr>tg_ring := Some r'\<rparr>, Some (wk_slot_state w))"
  proof -
    have "target_pin_session (wk_slot_token w) allow_session ?t = Some (LP_SKYNET_TARGET_ACTIVE, pin_swap ?t)"
      using target_ok_state [OF host_ok_target [OF ok i]] t(1,2)
      by (simp add: target_pin_session_def target_pin_def target_current_state_def) (simp add: pin_swap_def)
    moreover have "tg_ring (count_overrun info (pin_swap ?t)) = Some r" "\<not> tg_draining_events (count_overrun info (pin_swap ?t))"
      using t(3,4) by (simp_all add: count_overrun_def Let_def pin_swap_def)
    moreover have "target_unpin ((count_overrun info (pin_swap ?t))\<lparr>tg_ring := Some r'\<rparr>) = (count_overrun info ?t)\<lparr>tg_ring := Some r'\<rparr>"
      by (simp add: target_unpin_def count_overrun_def Let_def pin_swap_def)
    ultimately show ?thesis
      using push vm by (auto simp: target_tick_def pinned_tick_def Let_def slot_event_of_def)
  qed
  finally show ?thesis by (simp add: upd_target_def)
qed

text \<open>What a session finds after its start.\<close>

lemma started_session:
  assumes ok: "host_ok h" and tok: "tokens_ok h" and small: "unat (sh_next_token h) < u64_max"
    and start: "api_target_start env me handle main_state generation sample_hz has_token h = Some (Some token, h')"
  obtains i w where "i < LP_SKYNET_TARGET_CAPACITY" "host_ok h'" "tokens_ok h'" "token \<noteq> 0" "main_state \<noteq> NULL"
    "tg_lifecycle (sh_targets h' ! i) = LP_SKYNET_TARGET_ACTIVE" "tg_token (sh_targets h' ! i) = token"
    "tg_ring (sh_targets h' ! i) = Some (new_ring zero_skynet_event)" "tg_draining_events (sh_targets h' ! i)"
    "sh_current_worker h me \<noteq> NULL"
    "sh_heap h' (sh_current_worker h me) = Some (published (Some i) token main_state 0 NULL w)"
  using ok
proof (cases rule: host_start_cases [where env = env and me = me and handle = handle and main_state = main_state
      and generation = generation and sample_hz = sample_hz and has_token = has_token])
  case (started i h2 h1)
  let ?p = "sh_current_worker h me"
  let ?a = "active_host i handle token generation sample_hz main_state h"
  have eq: "token = bump_token (sh_next_token h)" "h1 = h'" using start started(11) by simp_all
  note sel = select_target_Some [OF started(8) ok]
  have q: "quiet ?a h'" using started_quiet [OF ok started(8,9)] started(10) eq by simp
  have token: "token \<noteq> 0" using eq(1) by simp
  have "host_ok ?a" using host_ok_active [OF ok started(8,1,4) token started(7)] .
  then have ok': "host_ok h'" by (rule quiet_host_ok [OF q])
  have tok': "tokens_ok h'" by (rule token_step_keeps(1) [OF token_step_start [OF ok start] tok small])
  have at: "sh_targets ?a ! i = session_target handle token generation sample_hz main_state (sh_targets h ! i)"
    using sel(1) host_ok_length [OF ok] by (simp add: active_host_def upd_target_def)
  have "keeps_session (sh_targets ?a ! i) (sh_targets h' ! i)"
    using quiet_sessions [OF q, of i] sel(1) host_ok_length [OF ok] by (simp add: active_host_def upd_target_def)
  then have t: "tg_lifecycle (sh_targets h' ! i) = LP_SKYNET_TARGET_ACTIVE" "tg_token (sh_targets h' ! i) = token"
    by (simp_all add: at keeps_session_def session_target_def prepare_target_def)
  have "queues h' = queues ?a" using started(10,12) eq by simp
  then have "queues h' ! i = queues ?a ! i" by simp
  then have ring: "tg_ring (sh_targets h' ! i) = Some (new_ring zero_skynet_event)" "tg_draining_events (sh_targets h' ! i)"
    using at sel(1) host_ok_length [OF ok] host_ok_length [OF ok']
    by (simp_all add: queues_def active_host_def upd_target_def session_target_def prepare_target_def)
  have "sh_heap h ?p \<noteq> None" using ok started(5) by (metis host_ok_def threads_ok_def)
  then have "sh_heap ?a ?p \<noteq> None" by (simp add: active_host_def upd_target_def)
  then have "sh_heap h2 ?p \<noteq> None" using quiet_heap_None [OF started(9)] eq(1) by simp
  then obtain w where "sh_heap h2 ?p = Some w" by blast
  then have "sh_heap h' ?p = Some (published (Some i) token main_state 0 NULL w)"
    using publish_slot_worker [OF started(5)] started(10) eq by simp
  then show thesis using that sel(1) ok' tok' token started(2,5) t ring by blast
qed (use start in simp_all)

text \<open>
  C29: a tick reaches the drain. After a session has started on a worker and its drain has ended,
  a signal of the worker's timer requests a profile of the main state; the next drain then
  delivers exactly the event of the published slot, once.
\<close>

theorem tick_reaches_drain:
  assumes "host_history ops initial_host = Some h" and "length ops < u64_max"
    and "api_target_start env me handle main_state generation sample_hz has_token h = Some (Some token, h1)"
    and "si_timer info" and "si_value info = sh_current_worker h me"
  shows "\<exists>h2 h3. skynet_signal_handler (Some info) (api_end_event_drain token h1) = Some (h2, Some main_state) \<and>
    api_next_event token True h2 = Some (Some \<lparr>ke_state = main_state, ke_vm_state = 0, ke_cfunction = NULL\<rparr>, h3) \<and>
    api_next_event token True h3 = Some (None, h3)"
proof -
  note ok = initial_history(1) [OF assms(1,2)] and tok = initial_history(2) [OF assms(1,2)]
    and small = initial_history(4) [OF assms(1,2)]
  obtain i w where i: "i < LP_SKYNET_TARGET_CAPACITY" and ok1: "host_ok h1" and tok1: "tokens_ok h1" and k: "token \<noteq> 0" "main_state \<noteq> NULL"
    and t1: "tg_lifecycle (sh_targets h1 ! i) = LP_SKYNET_TARGET_ACTIVE" "tg_token (sh_targets h1 ! i) = token"
      "tg_ring (sh_targets h1 ! i) = Some (new_ring zero_skynet_event)"
    and p: "sh_current_worker h me \<noteq> NULL"
    and w: "sh_heap h1 (sh_current_worker h me) = Some (published (Some i) token main_state 0 NULL w)"
    by (rule started_session [OF ok tok small assms(3)])
  let ?e = "\<lparr>ke_state = main_state, ke_vm_state = 0, ke_cfunction = NULL\<rparr> :: lp_skynet_tick_event"
  let ?w = "published (Some i) token main_state 0 NULL w"
  let ?h1 = "api_end_event_drain token h1"
  have len: "length (sh_targets h1) = LP_SKYNET_TARGET_CAPACITY" using ok1 by auto
  have h1: "?h1 = upd_target i (\<lambda>t. t\<lparr>tg_draining_events := False\<rparr>) h1"
    unfolding api_end_event_drain_def with_token_at [OF ok1 tok1 i t1(2) k(1)] by (simp add: target_unpin_def pin_swap_def)
  have ok2: "host_ok ?h1" using quiet_host_ok [OF quiet_drains(2) ok1] .
  have "\<not> ring_push ?e (new_ring zero_skynet_event) = None"
    using ring.push_full [of "new_ring zero_skynet_event" ?e] by (simp add: LP_TICK_RING_CAPACITY_def)
  then obtain r where r: "ring_push ?e (new_ring zero_skynet_event) = Some r" by blast
  have contents: "ring_ok r" "ring_contents r = [?e]" using ring_push_contents [OF _ r] by simp_all
  define h2 where "h2 = upd_target i (\<lambda>t. (count_overrun info t)\<lparr>tg_ring := Some r\<rparr>) ?h1"
  have tick: "skynet_signal_handler (Some info) ?h1 = Some (h2, Some main_state)"
    using tick_is_queued [OF ok2 assms(4), of ?w i "new_ring zero_skynet_event" r] w i t1 k len r
    by (simp add: assms(5) h1 upd_target_def published_def slot_event_of_def h2_def)
  have at2: "sh_targets h2 ! i = (count_overrun info ((sh_targets h1 ! i)\<lparr>tg_draining_events := False\<rparr>))\<lparr>tg_ring := Some r\<rparr>"
    using i len by (simp add: h2_def h1 upd_target_def)
  have t2: "tg_lifecycle (sh_targets h2 ! i) = LP_SKYNET_TARGET_ACTIVE" "tg_token (sh_targets h2 ! i) = token"
    "tg_ring (sh_targets h2 ! i) = Some r"
    using t1(1,2) by (simp_all add: at2 count_overrun_def Let_def)
  have q2: "quiet ?h1 h2" using handler_returns [OF ok2, of "Some info"] tick by fastforce
  have ok3: "host_ok h2" by (rule quiet_host_ok [OF q2 ok2])
  have tok3: "tokens_ok h2" using quiet_tokens [OF quiet_trans [OF quiet_drains(2) q2]] tok1 by (simp add: tokens_ok_def)
  obtain r' where r': "ring_next r = Some (?e, r')" "ring_ok r'" "ring_contents r' = []"
  proof (cases "ring_next r")
    case None
    then have "ring_contents r = []" using ring.pop_empty [OF contents(1)] by simp
    then show thesis using contents(2) by simp
  next
    case (Some x)
    obtain e r1 where x: "x = (e, r1)" by (cases x)
    then show thesis using that Some ring_next_contents [OF contents(1)] contents(2) by auto
  qed
  define h3 where "h3 = upd_target i (\<lambda>t. t\<lparr>tg_ring := Some r'\<rparr>) h2"
  have first: "api_next_event token True h2 = Some (Some ?e, h3)"
    using next_event_at [OF ok3 tok3 i t2(2) k(1) t2(3)] r'(1) by (simp add: h3_def)
  have q3: "quiet h2 h3" by (rule next_event_returns [OF ok3, of token True]) (use first in simp)
  have tok4: "tokens_ok h3" using quiet_tokens [OF q3] tok3 by (simp add: tokens_ok_def)
  have at3: "sh_targets h3 ! i = (sh_targets h2 ! i)\<lparr>tg_ring := Some r'\<rparr>"
    using i host_ok_length [OF ok3] by (simp add: h3_def upd_target_def)
  have "ring_next r' = None" using ring.pop_empty [OF r'(2)] r'(3) by simp
  then have "api_next_event token True h3 = Some (None, h3)"
    using next_event_at [OF quiet_host_ok [OF q3 ok3] tok4 i _ k(1), of r'] t2(2) by (simp add: at3)
  then show ?thesis using tick first by blast
qed

end
