(* ===== verification/Bridge_Sources.thy ===== *)
theory Bridge_Sources
  imports Lua_Bridge Skynet_Tokens
begin

text \<open>
  What the bridge needs of a source of ticks, as an interface: a queue, a flag that is set while
  the profiler is at work, and the loop that takes the queue. The timer of a thread and a session
  of the skynet host are both such sources. Proved once for the interface: during the work of the
  profiler nothing is queued, and the loop takes exactly what was queued before.
\<close>

section \<open>The interface\<close>

text \<open>Ticks that come one after the other.\<close>

primrec run_ticks :: "('i \<Rightarrow> 's \<Rightarrow> 's option) \<Rightarrow> 'i list \<Rightarrow> 's \<Rightarrow> 's option" where
  "run_ticks tick [] s = Some s"
| "run_ticks tick (i # is) s = Option.bind (tick i s) (run_ticks tick is)"

text \<open>\<open>rec\<close>: the call an event is recorded with; \<open>report\<close>: the calls for the counters.\<close>

locale tick_source =
  fixes ok :: "'s \<Rightarrow> bool"
    and queued :: "'s \<Rightarrow> 'e list"
    and draining :: "'s \<Rightarrow> bool"
    and rec :: "'e \<Rightarrow> runtime_call"
    and report :: "'s \<Rightarrow> runtime_call list"
    and begin_drain :: "'s \<Rightarrow> 's option"
    and end_drain :: "'s \<Rightarrow> 's option"
    and take_all :: "'s \<Rightarrow> (runtime_call list \<times> 's) option"
    and tick :: "'i \<Rightarrow> 's \<Rightarrow> 's option"
  assumes begin_law: "ok s \<Longrightarrow> \<exists>s'. begin_drain s = Some s' \<and> ok s' \<and> draining s' \<and> queued s' = queued s"
    and end_law: "ok s \<Longrightarrow> \<exists>s'. end_drain s = Some s' \<and> ok s' \<and> \<not> draining s' \<and> queued s' = queued s"
    and take_law: "ok s \<Longrightarrow> \<exists>s'. take_all s = Some (map rec (queued s) @ report s, s') \<and> ok s' \<and> queued s' = [] \<and>
      draining s' = draining s"
    and tick_law: "ok s \<Longrightarrow> \<exists>s'. tick i s = Some s' \<and> ok s' \<and> draining s' = draining s \<and>
      (draining s \<longrightarrow> queued s' = queued s) \<and> (\<exists>es. queued s' = queued s @ es)"
begin

lemma ticks_while_draining:
  "ok s \<Longrightarrow> draining s \<Longrightarrow> \<exists>s'. run_ticks tick is s = Some s' \<and> ok s' \<and> draining s' \<and> queued s' = queued s"
proof (induction "is" arbitrary: s)
  case (Cons i "is")
  obtain s1 where s1: "tick i s = Some s1" "ok s1" "draining s1" "queued s1 = queued s"
    using tick_law [OF Cons.prems(1), of i] Cons.prems(2) by auto
  then show ?case using Cons.IH [OF s1(2,3)] by simp
qed simp

lemma ticks_append:
  "ok s \<Longrightarrow> \<exists>s' es. run_ticks tick is s = Some s' \<and> ok s' \<and> draining s' = draining s \<and> queued s' = queued s @ es"
proof (induction "is" arbitrary: s)
  case (Cons i "is")
  obtain s1 es where s1: "tick i s = Some s1" "ok s1" "draining s1 = draining s" "queued s1 = queued s @ es"
    using tick_law [OF Cons.prems, of i] by auto
  obtain s2 es' where "run_ticks tick is s1 = Some s2" "ok s2" "draining s2 = draining s1" "queued s2 = queued s1 @ es'"
    using Cons.IH [OF s1(2)] by blast
  then show ?case using s1 by simp
qed simp

text \<open>The work of the profiler, with ticks at both places where they may come.\<close>

lemma work_takes_the_queue:
  assumes "ok s"
  obtains s1 s2 s3 s4 s' where "begin_drain s = Some s1" "run_ticks tick before s1 = Some s2"
    "take_all s2 = Some (map rec (queued s) @ report s2, s3)" "run_ticks tick after s3 = Some s4"
    "end_drain s4 = Some s'" "ok s'" "queued s' = []" "\<not> draining s'"
proof -
  obtain s1 where s1: "begin_drain s = Some s1" "ok s1" "draining s1" "queued s1 = queued s"
    using begin_law [OF assms] by blast
  obtain s2 where s2: "run_ticks tick before s1 = Some s2" "ok s2" "draining s2" "queued s2 = queued s"
    using ticks_while_draining [OF s1(2,3), of before] s1(4) by auto
  obtain s3 where s3: "take_all s2 = Some (map rec (queued s) @ report s2, s3)" "ok s3" "queued s3 = []" "draining s3"
    using take_law [OF s2(2)] s2(3,4) by auto
  obtain s4 where s4: "run_ticks tick after s3 = Some s4" "ok s4" "queued s4 = []"
    using ticks_while_draining [OF s3(2,4), of after] s3(3) by auto
  obtain s' where "end_drain s4 = Some s'" "ok s'" "\<not> draining s'" "queued s' = []"
    using end_law [OF s4(2)] s4(3) by auto
  then show thesis using that s1 s2 s3 s4 by blast
qed

end

section \<open>The timer of a thread\<close>

definition timer_queue :: "lp_thread_timer \<Rightarrow> lp_tick_event list" where
  "timer_queue t = ring_contents (tt_ring t)"

definition timer_ready :: "lp_thread_timer \<Rightarrow> bool" where
  "timer_ready t \<longleftrightarrow> ring_ok (tt_ring t)"

lemma timer_next_cases:
  assumes "timer_ready t"
  obtains "lp_thread_timer_next t = None" "timer_queue t = []"
  | e r where "lp_thread_timer_next t = Some (e, t\<lparr>tt_ring := r\<rparr>)" "timer_queue t = e # ring_contents r" "ring_ok r"
proof (cases "ring_next (tt_ring t)")
  case None
  then have "timer_queue t = []"
    using ring.pop_empty [of "tt_ring t"] assms by (simp add: timer_ready_def timer_queue_def)
  then show thesis using that(1) None by (simp add: lp_thread_timer_next_def)
next
  case (Some p)
  obtain e r where p: "p = (e, r)" by (cases p)
  then show thesis
    using that(2) Some ring_next_contents [of "tt_ring t" e r] assms
    by (simp add: lp_thread_timer_next_def timer_ready_def timer_queue_def)
qed

lemma drain_timer_takes:
  "timer_ready t \<Longrightarrow> \<exists>r. drain_timer f t = (map f (timer_queue t), t\<lparr>tt_ring := r\<rparr>) \<and> ring_ok r \<and> ring_contents r = []"
proof (induction "length (timer_queue t)" arbitrary: t rule: less_induct)
  case less
  show ?case
    using less.prems
  proof (cases rule: timer_next_cases)
    case 1
    then show ?thesis
      using less.prems by (intro exI [of _ "tt_ring t"]) (simp add: drain_timer.simps [of f t] timer_ready_def timer_queue_def)
  next
    case (2 e r)
    let ?t = "t\<lparr>tt_ring := r\<rparr>"
    have "length (timer_queue ?t) < length (timer_queue t)" "timer_ready ?t"
      using 2 by (simp_all add: timer_queue_def timer_ready_def)
    from less.hyps [OF this] obtain r' where "drain_timer f ?t = (map f (timer_queue ?t), ?t\<lparr>tt_ring := r'\<rparr>)" "ring_ok r'" "ring_contents r' = []"
      by blast
    then show ?thesis using 2 by (auto simp: drain_timer.simps [of f t] timer_queue_def intro!: exI [of _ r'])
  qed
qed

lemma handle_tick_queue:
  assumes "timer_ready t"
  shows "timer_ready (fst (handle_tick i t))" "tt_draining_events (fst (handle_tick i t)) = tt_draining_events t"
    "tt_draining_events t \<Longrightarrow> timer_queue (fst (handle_tick i t)) = timer_queue t"
    "\<exists>es. timer_queue (fst (handle_tick i t)) = timer_queue t @ es"
proof -
  let ?t = "record_overrun i t"
  have same: "tt_ring ?t = tt_ring t" "tt_draining_events ?t = tt_draining_events t" by (simp_all add: record_overrun_def Let_def)
  have push: "ring_ok r \<and> ring_contents r = ring_contents (tt_ring t) @ [e]" if "ring_push e (tt_ring t) = Some r" for e r
    using ring_push_contents [OF _ that] assms by (simp add: timer_ready_def)
  show "timer_ready (fst (handle_tick i t))" "tt_draining_events (fst (handle_tick i t)) = tt_draining_events t"
    "\<exists>es. timer_queue (fst (handle_tick i t)) = timer_queue t @ es"
    using assms push
    by (auto simp: handle_tick_def Let_def same add_unstable_def add_dropped_def timer_ready_def timer_queue_def split: option.split)
  show "timer_queue (fst (handle_tick i t)) = timer_queue t" if "tt_draining_events t"
    using that by (simp add: handle_tick_def Let_def same timer_queue_def)
qed

interpretation timer_source: tick_source timer_ready timer_queue tt_draining_events f "\<lambda>_. []"
  "\<lambda>t. Some (lp_thread_timer_begin_event_drain t)" "\<lambda>t. Some (lp_thread_timer_end_event_drain t)"
  "\<lambda>t. Some (drain_timer f t)" "\<lambda>i t. Some (fst (handle_tick i t))" for f
proof
  fix t :: lp_thread_timer
  assume ok: "timer_ready t"
  show "\<exists>t'. Some (drain_timer f t) = Some (map f (timer_queue t) @ [], t') \<and> timer_ready t' \<and> timer_queue t' = [] \<and>
      tt_draining_events t' = tt_draining_events t"
    using drain_timer_takes [OF ok, of f] by (auto simp: timer_ready_def timer_queue_def)
  show "\<exists>t'. Some (fst (handle_tick i t)) = Some t' \<and> timer_ready t' \<and> tt_draining_events t' = tt_draining_events t \<and>
      (tt_draining_events t \<longrightarrow> timer_queue t' = timer_queue t) \<and> (\<exists>es. timer_queue t' = timer_queue t @ es)" for i
    using handle_tick_queue [OF ok] by auto
qed (simp_all add: timer_ready_def timer_queue_def lp_thread_timer_begin_event_drain_def lp_thread_timer_end_event_drain_def)

section \<open>A session of the skynet host\<close>

text \<open>Target \<open>i\<close> holds the session of token \<open>k\<close>, which is active or stopping.\<close>

definition session_ok :: "u64 \<Rightarrow> nat \<Rightarrow> skynet_host \<Rightarrow> bool" where
  "session_ok k i h \<longleftrightarrow>
     host_ok h \<and> tokens_ok h \<and> i < LP_SKYNET_TARGET_CAPACITY \<and> k \<noteq> 0 \<and> tg_token (sh_targets h ! i) = k"

definition session_queue :: "nat \<Rightarrow> skynet_host \<Rightarrow> lp_skynet_tick_event list" where
  "session_queue i h = (case tg_ring (sh_targets h ! i) of None \<Rightarrow> [] | Some r \<Rightarrow> ring_contents r)"

definition session_draining :: "nat \<Rightarrow> skynet_host \<Rightarrow> bool" where
  "session_draining i h = tg_draining_events (sh_targets h ! i)"

lemma session_ok_quiet:
  assumes ok: "session_ok k i h" and q: "quiet h h'" shows "session_ok k i h'"
proof -
  have i: "i < length (sh_targets h)" using ok host_ok_length [of h] by (simp add: session_ok_def)
  have "host_ok h'" using quiet_host_ok [OF q] ok by (simp add: session_ok_def)
  moreover have "tokens_ok h'" using quiet_tokens [OF q] ok by (simp add: session_ok_def tokens_ok_def)
  moreover have "keeps_session (sh_targets h ! i) (sh_targets h' ! i)" by (rule quiet_sessions [OF q i])
  ultimately show ?thesis using ok by (simp add: session_ok_def keeps_session_def)
qed

lemma session_ok_ring:
  assumes "session_ok k i h"
  obtains r where "tg_ring (sh_targets h ! i) = Some r" "ring_ok r" "session_queue i h = ring_contents r"
proof -
  have "target_ok (sh_targets h ! i)" using assms host_ok_target by (simp add: session_ok_def)
  then show thesis
    using that assms by (auto simp: target_ok_def session_ok_def session_queue_def split: if_splits)
qed

lemma session_ok_at: "session_ok k i h \<Longrightarrow> sh_targets (upd_target i f h) ! i = f (sh_targets h ! i)"
  using host_ok_length [of h] by (simp add: session_ok_def upd_target_def)

lemma session_next:
  assumes ok: "session_ok k i h" and r: "tg_ring (sh_targets h ! i) = Some r"
  shows "api_next_event k True h =
    Some (case ring_next r of None \<Rightarrow> (None, h) | Some (e, r') \<Rightarrow> (Some e, upd_target i (\<lambda>t. t\<lparr>tg_ring := Some r'\<rparr>) h))"
  using ok r by (intro next_event_at) (simp_all add: session_ok_def)

text \<open>A drain leaves everything but the queue of its target as it is.\<close>

lemma upd_target_ring_twice:
  "upd_target i (\<lambda>t. t\<lparr>tg_ring := x\<rparr>) (upd_target i (\<lambda>t. t\<lparr>tg_ring := y\<rparr>) h) = upd_target i (\<lambda>t. t\<lparr>tg_ring := x\<rparr>) h"
  by (simp add: upd_target_upd)

lemma drain_session_takes:
  "session_ok k i h \<Longrightarrow>
   \<exists>r. drain_session f k h = Some (map f (session_queue i h), upd_target i (\<lambda>t. t\<lparr>tg_ring := Some r\<rparr>) h) \<and>
     session_ok k i (upd_target i (\<lambda>t. t\<lparr>tg_ring := Some r\<rparr>) h) \<and> ring_contents r = []"
proof (induction "length (session_queue i h)" arbitrary: h rule: less_induct)
  case less
  obtain r where r: "tg_ring (sh_targets h ! i) = Some r" "ring_ok r" "session_queue i h = ring_contents r"
    using session_ok_ring [OF less.prems] .
  note step = session_next [OF less.prems r(1)]
  show ?case
  proof (cases "ring_next r")
    case None
    then have "ring_contents r = []" using ring.pop_empty [OF r(2)] by simp
    moreover have "upd_target i (\<lambda>t. t\<lparr>tg_ring := Some r\<rparr>) h = h"
    proof -
      have "(sh_targets h ! i)\<lparr>tg_ring := Some r\<rparr> = sh_targets h ! i" by (subst r(1) [symmetric]) simp
      then show ?thesis by (cases h) (simp add: upd_target_def)
    qed
    ultimately show ?thesis
      using step None less.prems r(3) by (intro exI [of _ r]) (simp add: drain_session.simps [of f k h])
  next
    case (Some p)
    obtain e r1 where p: "p = (e, r1)" by (cases p)
    note next_law = ring_next_contents [OF r(2) Some [unfolded p]]
    let ?h = "upd_target i (\<lambda>t. t\<lparr>tg_ring := Some r1\<rparr>) h"
    have "quiet h ?h" using r(1,2) next_law by (intro quiet_upd_target) (simp add: keeps_session_def)
    then have ok: "session_ok k i ?h" by (rule session_ok_quiet [OF less.prems])
    have queue: "session_queue i ?h = ring_contents r1" by (simp add: session_queue_def session_ok_at [OF less.prems])
    then have "length (session_queue i ?h) < length (session_queue i h)" using r(3) next_law by simp
    from less.hyps [OF this ok] obtain r' where
      "drain_session f k ?h = Some (map f (session_queue i ?h), upd_target i (\<lambda>t. t\<lparr>tg_ring := Some r'\<rparr>) ?h)"
      "session_ok k i (upd_target i (\<lambda>t. t\<lparr>tg_ring := Some r'\<rparr>) ?h)" "ring_contents r' = []" by blast
    then show ?thesis
      using step Some p r(3) next_law queue
      by (intro exI [of _ r']) (simp add: drain_session.simps [of f k h] upd_target_ring_twice)
  qed
qed

text \<open>What a tick does to a target.\<close>

lemma target_tick_queue:
  assumes "target_tick info token e t = Some (t', request)" and "tg_ring t = Some r" and "ring_ok r"
  shows "tg_draining_events t' = tg_draining_events t \<and>
    (\<exists>r' es. tg_ring t' = Some r' \<and> ring_contents r' = ring_contents r @ es \<and> (tg_draining_events t \<longrightarrow> es = []))"
proof (cases "target_pin_session token allow_session t")
  case None
  then show ?thesis using assms by (simp add: target_tick_def)
next
  case (Some p)
  then obtain state where p: "p = (state, pin_swap t)"
    by (auto simp: target_pin_session_def target_pin_def split: option.splits if_splits)
  let ?c = "count_overrun info (pin_swap t)"
  have c: "tg_ring ?c = Some r" "tg_draining_events ?c = tg_draining_events t"
    using assms(2) by (simp_all add: count_overrun_def Let_def pin_swap_def)
  obtain u where u: "pinned_tick info e state (pin_swap t) = Some (u, request)" "t' = target_unpin u"
    using assms(1) Some p by (auto simp: target_tick_def)
  have "tg_draining_events u = tg_draining_events t \<and>
    (\<exists>r' es. tg_ring u = Some r' \<and> ring_contents r' = ring_contents r @ es \<and> (tg_draining_events t \<longrightarrow> es = []))"
    using u(1) c ring_push_contents [OF assms(3), of e]
    by (auto simp: pinned_tick_def Let_def count_stale_def count_unstable_def split: if_splits option.splits)
  then show ?thesis by (simp add: u(2) target_unpin_def)
qed

lemma worker_tick_cases:
  assumes "worker_tick info w h = Some (h', request)"
  obtains "h' = h"
  | q where "h' = upd_target q (record_slot_unstable (wk_slot_quality_token w) info) h"
  | j t where "target_tick info (wk_slot_token w) (slot_event_of w) (sh_targets h ! j) = Some (t, request)"
      "h' = upd_target j (\<lambda>_. t) h"
proof (cases "wk_slot_version w AND 1 = 0")
  case False
  show thesis
  proof (cases "wk_slot_quality_target w")
    case None
    then show thesis using assms False that(1) by (simp add: worker_tick_def)
  next
    case (Some q)
    then have "h' = upd_target q (record_slot_unstable (wk_slot_quality_token w) info) h"
      using assms False by (simp add: worker_tick_def)
    then show thesis by (rule that(2))
  qed
next
  case True
  show thesis
  proof (cases "wk_slot_target w = None \<or> wk_slot_state w = NULL")
    case True
    then show thesis
      using assms that(1) \<open>wk_slot_version w AND 1 = 0\<close> by (cases "wk_slot_target w") (simp_all add: worker_tick_def)
  next
    case False
    then show thesis using assms that(3) True by (auto simp: worker_tick_def)
  qed
qed

lemma handler_on_target:
  assumes ok: "session_ok k i h" and tick: "skynet_signal_handler info h = Some (h', request)"
  shows "session_draining i h' = session_draining i h \<and>
    (\<exists>es. session_queue i h' = session_queue i h @ es \<and> (session_draining i h \<longrightarrow> es = []))"
proof -
  obtain r where r: "tg_ring (sh_targets h ! i) = Some r" "ring_ok r" "session_queue i h = ring_contents r"
    using session_ok_ring [OF ok] .
  have len: "length (sh_targets h) = LP_SKYNET_TARGET_CAPACITY" using ok host_ok_length by (simp add: session_ok_def)
  have unstable: "tg_ring (record_slot_unstable token inf t) = tg_ring t \<and>
      tg_draining_events (record_slot_unstable token inf t) = tg_draining_events t" for token inf t
    by (auto simp: record_slot_unstable_def target_pin_session_def target_pin_def pin_swap_def target_unpin_def
        count_unstable_def count_overrun_def Let_def split: option.split)
  have same: ?thesis if "sh_targets h' ! i = sh_targets h ! i"
    using that by (simp add: session_queue_def session_draining_def)
  have worker: ?thesis if "worker_tick inf w h = Some (h', request)" for inf w
  proof -
    show ?thesis
      using that
    proof (cases rule: worker_tick_cases)
      case 1
      then show ?thesis using same by simp
    next
      case (2 q)
      show ?thesis
      proof (cases "q = i")
        case True
        then show ?thesis using 2 unstable session_ok_at [OF ok] by (simp add: session_queue_def session_draining_def)
      next
        case False
        then show ?thesis using same 2 by (simp add: upd_target_def)
      qed
    next
      case (3 j t)
      show ?thesis
      proof (cases "j = i")
        case True
        then show ?thesis
          using target_tick_queue [OF 3(1)] r 3(2) session_ok_at [OF ok]
          by (auto simp: session_queue_def session_draining_def)
      next
        case False
        then show ?thesis using same 3(2) by (simp add: upd_target_def)
      qed
    qed
  qed
  show ?thesis
    using tick same worker
    by (auto simp: skynet_signal_handler_def Let_def split: option.splits if_splits)
qed

text \<open>Publishing and quiescing leave the queues as they are.\<close>

lemma queues_at: "queues h' = queues h \<Longrightarrow> session_ok k i h \<Longrightarrow> session_ok k i h' \<Longrightarrow>
    session_queue i h' = session_queue i h \<and> session_draining i h' = session_draining i h"
proof -
  assume q: "queues h' = queues h" and ok: "session_ok k i h" "session_ok k i h'"
  have "i < length (sh_targets h)" "i < length (sh_targets h')" using ok host_ok_length by (auto simp: session_ok_def)
  then have "(tg_ring (sh_targets h' ! i), tg_draining_events (sh_targets h' ! i)) =
      (tg_ring (sh_targets h ! i), tg_draining_events (sh_targets h ! i))"
    using arg_cong [OF q, of "\<lambda>xs. xs ! i"] by (simp add: queues_def)
  then show ?thesis by (simp add: session_queue_def session_draining_def)
qed

lemma queues_publish_state: "host_ok h \<Longrightarrow> queues (api_publish_state me token state vm_state cfunction h) = queues h"
proof (cases "pin_token token False h")
  case (Some p)
  assume ok: "host_ok h"
  obtain i h' where p: "p = (i, h')" by (cases p)
  note pin = pin_token_Some [OF Some [unfolded p]]
  have "upd_target i target_unpin (upd_target i pin_swap h) = h" by (simp add: upd_target_upd)
  then show ?thesis
    using Some publish_slot_pinned [of i h] pin(1) host_ok_length [OF ok]
    by (simp add: api_publish_state_def p pin(2))
qed (simp add: api_publish_state_def)

lemma queues_quiesce:
  assumes "api_target_quiesce env me token h = Some (done', h')" shows "queues h' = queues h"
proof (cases "find_target LP_SKYNET_TARGET_ACTIVE token h")
  case None
  then show ?thesis using assms by (simp add: api_target_quiesce_def)
next
  case (Some i)
  have drop: "queues (drop_active h) = queues h" for h by (simp add: queues_def drop_active_def Let_def)
  show ?thesis
  proof (cases "target_transition LP_SKYNET_TARGET_ACTIVE LP_SKYNET_TARGET_STOPPING (sh_targets h ! i)")
    case None
    then show ?thesis using assms Some by (simp add: api_target_quiesce_def)
  next
    case t: (Some t)
    let ?h1 = "drop_active (upd_target i (\<lambda>_. t) h)" let ?p = "sh_current_worker ?h1 me"
    let ?h2 = "if ?p \<noteq> NULL \<and> wk_slot_target (worker_at ?p ?h1) = Some i then publish_slot ?p None 0 NULL 0 NULL ?h1 else ?h1"
    let ?h3 = "if ?p \<noteq> NULL \<and> block_worker_signal env me ?h1 then discard_pending env ?p (Some i) token ?h2 else ?h2"
    obtain synced h4 where sync: "sync_worker_timer env ?p ?h3 = (synced, h4)" by (cases "sync_worker_timer env ?p ?h3")
    let ?h5 = "if \<not> synced then upd_target i count_timer_failure h4 else h4"
    have "h' = ?h5"
      using assms Some t sync unfolding api_target_quiesce_def
      by (simp only: option.case prod.case Let_def) (simp split: if_splits)
    moreover have "queues ?h5 = queues h4" by (simp add: queues_upd_target count_timer_failure_def)
    moreover have "queues h4 = queues ?h3" using queues_sync [of env ?p ?h3] by (simp add: sync)
    moreover have "queues ?h3 = queues ?h1" by simp
    moreover have "queues ?h1 = queues h"
      using t by (simp add: drop) (auto simp: queues_upd_target target_transition_def split: if_splits)
    ultimately show ?thesis by (simp only:)
  qed
qed

text \<open>The two calls that set the flag.\<close>

lemma drain_flag_at:
  assumes "session_ok k i h"
  shows "api_begin_event_drain k h = upd_target i (\<lambda>t. t\<lparr>tg_draining_events := True\<rparr>) h"
    "api_end_event_drain k h = upd_target i (\<lambda>t. t\<lparr>tg_draining_events := False\<rparr>) h"
proof -
  have "with_token k (\<lambda>t. t\<lparr>tg_draining_events := d\<rparr>) h = upd_target i (\<lambda>t. t\<lparr>tg_draining_events := d\<rparr>) h" for d
    using assms by (subst with_token_at [of h i k]) (simp_all add: session_ok_def target_unpin_def pin_swap_def)
  then show "api_begin_event_drain k h = upd_target i (\<lambda>t. t\<lparr>tg_draining_events := True\<rparr>) h"
    "api_end_event_drain k h = upd_target i (\<lambda>t. t\<lparr>tg_draining_events := False\<rparr>) h"
    by (simp_all add: api_begin_event_drain_def api_end_event_drain_def)
qed

interpretation session_source: tick_source "session_ok k i" "session_queue i" "session_draining i" f "\<lambda>_. []"
  "\<lambda>h. Some (api_begin_event_drain k h)" "\<lambda>h. Some (api_end_event_drain k h)" "drain_session f k"
  "\<lambda>info h. map_option fst (skynet_signal_handler info h)" for f k i
proof
  fix h
  assume ok: "session_ok k i h"
  show "\<exists>h'. Some (api_begin_event_drain k h) = Some h' \<and> session_ok k i h' \<and> session_draining i h' \<and>
      session_queue i h' = session_queue i h"
    using session_ok_quiet [OF ok quiet_drains(1) [of h k]] session_ok_at [OF ok]
    by (simp add: drain_flag_at [OF ok] session_draining_def session_queue_def)
  show "\<exists>h'. Some (api_end_event_drain k h) = Some h' \<and> session_ok k i h' \<and> \<not> session_draining i h' \<and>
      session_queue i h' = session_queue i h"
    using session_ok_quiet [OF ok quiet_drains(2) [of h k]] session_ok_at [OF ok]
    by (simp add: drain_flag_at [OF ok] session_draining_def session_queue_def)
  show "\<exists>h'. drain_session f k h = Some (map f (session_queue i h) @ [], h') \<and> session_ok k i h' \<and> session_queue i h' = [] \<and>
      session_draining i h' = session_draining i h"
    using drain_session_takes [OF ok, of f] session_ok_at [OF ok] by (auto simp: session_queue_def session_draining_def)
  show "\<exists>h'. map_option fst (skynet_signal_handler info h) = Some h' \<and> session_ok k i h' \<and>
      session_draining i h' = session_draining i h \<and> (session_draining i h \<longrightarrow> session_queue i h' = session_queue i h) \<and>
      (\<exists>es. session_queue i h' = session_queue i h @ es)" for info
  proof -
    have host: "host_ok h" using ok by (simp add: session_ok_def)
    obtain h' request where h': "skynet_signal_handler info h = Some (h', request)" "quiet h h'"
      by (rule handler_returns [OF host])
    then show ?thesis using session_ok_quiet [OF ok h'(2)] handler_on_target [OF ok h'(1)] by auto
  qed
qed

end
