(* ===== verification/Bridge_Work.thy ===== *)
theory Bridge_Work
  imports Bridge_Sources
begin

text \<open>
  The bridge on top of its source of ticks: in both modes a bridge is itself a \<open>tick_source\<close>, so
  that what is proved for the interface holds for the hooks, the guard of the profiler's own work
  and the two host operations. The invariant \<open>bridge_ok\<close> relates the fields of the bridge, the
  hooks of the VM, the timer or session, and the depth of the profiler's work.
\<close>

section \<open>The source of a bridge\<close>

text \<open>What an event of either source holds: the state, the kind of code and the C function.\<close>

type_synonym tick_view = "pointer \<times> lp_vm_state \<times> pointer"

abbreviation timer_view :: "lp_tick_event \<Rightarrow> tick_view" where
  "timer_view e \<equiv> (te_state e, te_vm_state e, te_cfunction e)"

abbreviation session_view :: "lp_skynet_tick_event \<Rightarrow> tick_view" where
  "session_view e \<equiv> (ke_state e, ke_vm_state e, ke_cfunction e)"

definition recorded :: "bridge_env \<Rightarrow> u64 \<Rightarrow> tick_view \<Rightarrow> runtime_call" where
  "recorded env generation v = record_cpu_event env generation (fst v) (fst (snd v)) (snd (snd v))"

definition bridge_timer :: "bridge_world \<Rightarrow> lp_thread_timer option" where
  "bridge_timer w = (if lb_cpu_timer (bw_bridge w) = NULL then None else tw_timers (bw_timers w) (lb_cpu_timer (bw_bridge w)))"

definition parts_ok :: "bridge_world \<Rightarrow> bool" where
  "parts_ok w \<longleftrightarrow> world_ok (bw_timers w) \<and> host_ok (bw_host w) \<and> tokens_ok (bw_host w)"

text \<open>The source is there: the session of the token is at target \<open>i\<close>, or the timer exists.\<close>

definition source_ok :: "nat \<Rightarrow> bridge_world \<Rightarrow> bool" where
  "source_ok i w \<longleftrightarrow>
     (if scheduler_active (bw_bridge w) then session_ok (lb_scheduler_token (bw_bridge w)) i (bw_host w)
      else \<exists>t. bridge_timer w = Some t \<and> timer_ready t)"

definition source_events :: "nat \<Rightarrow> bridge_world \<Rightarrow> tick_view list" where
  "source_events i w =
     (if scheduler_active (bw_bridge w) then map session_view (session_queue i (bw_host w))
      else case bridge_timer w of None \<Rightarrow> [] | Some t \<Rightarrow> map timer_view (timer_queue t))"

definition source_draining :: "nat \<Rightarrow> bridge_world \<Rightarrow> bool" where
  "source_draining i w \<longleftrightarrow>
     (if scheduler_active (bw_bridge w) then session_draining i (bw_host w)
      else case bridge_timer w of None \<Rightarrow> False | Some t \<Rightarrow> tt_draining_events t)"

text \<open>Whether ticks may come: the session is active, or the timer is.\<close>

definition source_live :: "nat \<Rightarrow> bridge_world \<Rightarrow> bool" where
  "source_live i w \<longleftrightarrow>
     (if scheduler_active (bw_bridge w) then tg_lifecycle (sh_targets (bw_host w) ! i) = LP_SKYNET_TARGET_ACTIVE
      else case bridge_timer w of None \<Rightarrow> False | Some t \<Rightarrow> tt_active t)"

text \<open>The calls for the counters of the source.\<close>

definition quality_calls :: "nat \<Rightarrow> bridge_world \<Rightarrow> runtime_call list" where
  "quality_calls i w =
     (let g = lb_cpu_generation (bw_bridge w); s = sh_targets (bw_host w) ! i
      in if scheduler_active (bw_bridge w)
         then [Cpu_Quality g (tg_dropped s) (tg_unstable s) (tg_profiler_overhead s) (tg_overrun_events s) (tg_overrun_ticks s),
               Cpu_Scheduler_Quality g (tg_stale s) (tg_timer_failures s) (worker_count (tg_worker_mask s))]
         else case bridge_timer w of
                None \<Rightarrow> []
              | Some t \<Rightarrow> [Cpu_Quality g (tt_dropped t) (tt_unstable t) (tt_profiler_overhead t)
                           (tt_overrun_events t) (tt_overrun_ticks t)])"

text \<open>A signal: the process has the handler of its mode.\<close>

definition bridge_tick :: "siginfo option \<Rightarrow> bridge_world \<Rightarrow> bridge_world option" where
  "bridge_tick info w =
     (if lb_scheduler_api (bw_bridge w)
      then map_option (\<lambda>(h, request). w\<lparr>bw_host := h\<rparr>) (skynet_signal_handler info (bw_host w))
      else map_option (\<lambda>(timers, request). w\<lparr>bw_timers := timers\<rparr>) (timer_signal_handler info (bw_timers w)))"

section \<open>Changes of one of the two parts\<close>

text \<open>What the operations on the source leave as it is.\<close>

definition source_step :: "nat \<Rightarrow> bridge_world \<Rightarrow> bridge_world \<Rightarrow> bool" where
  "source_step i w w' \<longleftrightarrow>
     bw_bridge w' = bw_bridge w \<and> bw_hooks w' = bw_hooks w \<and> parts_ok w' \<and> source_ok i w' \<and>
     (source_live i w' \<longleftrightarrow> source_live i w) \<and>
     (if scheduler_active (bw_bridge w)
      then bw_timers w' = bw_timers w \<and> sh_next_token (bw_host w') = sh_next_token (bw_host w) \<and>
        tg_lifecycle (sh_targets (bw_host w') ! i) = tg_lifecycle (sh_targets (bw_host w) ! i)
      else bw_host w' = bw_host w)"

lemma source_step_trans: "source_step i w w' \<Longrightarrow> source_step i w' w'' \<Longrightarrow> source_step i w w''"
  by (simp add: source_step_def)

lemma source_step_timer:
  assumes ok: "parts_ok w" "source_ok i w" and mode: "\<not> scheduler_active (bw_bridge w)"
    and t: "bridge_timer w = Some t" and t': "same_registration t t'" "timer_ready t'"
    and w': "w' = w\<lparr>bw_timers := put_timer (lb_cpu_timer (bw_bridge w)) t' (bw_timers w)\<rparr>"
  shows "source_step i w w'" "bridge_timer w' = Some t'"
proof -
  have p: "lb_cpu_timer (bw_bridge w) \<noteq> NULL" "tw_timers (bw_timers w) (lb_cpu_timer (bw_bridge w)) = Some t"
    using t by (auto simp: bridge_timer_def split: if_splits)
  show "bridge_timer w' = Some t'" by (simp add: w' p(1) bridge_timer_def put_timer_def)
  then show "source_step i w w'"
    using ok mode t t' world_ok_put [OF _ p(2) t'(1)] p
    by (simp add: source_step_def w' parts_ok_def source_ok_def source_live_def same_registration_def)
qed

lemma session_step_live:
  assumes "quiet h h'" and "session_ok k i h"
  shows "tg_lifecycle (sh_targets h' ! i) = tg_lifecycle (sh_targets h ! i)"
  using quiet_sessions [OF assms(1), of i] assms(2) host_ok_length [of h]
  by (auto simp: session_ok_def keeps_session_def)

lemma source_step_session:
  assumes ok: "parts_ok w" "source_ok i w" and mode: "scheduler_active (bw_bridge w)"
    and q: "quiet (bw_host w) h" and w': "w' = w\<lparr>bw_host := h\<rparr>"
  shows "source_step i w w'"
proof -
  have s: "session_ok (lb_scheduler_token (bw_bridge w)) i (bw_host w)" using ok mode by (simp add: source_ok_def)
  show ?thesis
    using ok mode session_ok_quiet [OF s q] session_step_live [OF q s] quiet_tokens [OF q]
    by (simp add: source_step_def w' parts_ok_def source_ok_def source_live_def session_ok_def)
qed

section \<open>Beginning and ending a drain, and the drain\<close>

lemma take_quality_at:
  assumes "session_ok k i h"
  shows "api_take_quality k h =
    (fst (pinned_quality (sh_targets h ! i)), upd_target i (\<lambda>t. snd (pinned_quality t)) h)"
proof -
  have "pin_token k True h = Some (i, upd_target i pin_swap h)"
    using assms by (intro pin_token_unique) (simp_all add: session_ok_def)
  moreover have "sh_targets (upd_target i pin_swap h) ! i = pin_swap (sh_targets h ! i)"
    by (rule session_ok_at [OF assms])
  moreover have "target_unpin (snd (pinned_quality (pin_swap t))) = snd (pinned_quality t)"
    "fst (pinned_quality (pin_swap t)) = fst (pinned_quality t)" for t
    by (simp_all add: pinned_quality_def pin_swap_def target_unpin_def)
  ultimately show ?thesis
    by (simp add: api_take_quality_def case_prod_beta upd_target_upd) (simp add: upd_target_def)
qed

lemma drain_scheduler_takes:
  assumes ok: "parts_ok w" "source_ok i w" and mode: "scheduler_active (bw_bridge w)"
  shows "\<exists>w'. drain_scheduler env w =
      Some (map (recorded env (lb_cpu_generation (bw_bridge w))) (source_events i w) @ quality_calls i w, w') \<and>
    source_step i w w' \<and> source_events i w' = [] \<and> source_draining i w' = source_draining i w"
proof -
  let ?k = "lb_scheduler_token (bw_bridge w)" let ?h = "bw_host w"
  have s: "session_ok ?k i ?h" using ok mode by (simp add: source_ok_def)
  let ?f = "\<lambda>e. record_cpu_event env (lb_cpu_generation (bw_bridge w)) (ke_state e) (ke_vm_state e) (ke_cfunction e)"
  obtain r where r: "drain_session ?f ?k ?h = Some (map ?f (session_queue i ?h), upd_target i (\<lambda>t. t\<lparr>tg_ring := Some r\<rparr>) ?h)"
    "session_ok ?k i (upd_target i (\<lambda>t. t\<lparr>tg_ring := Some r\<rparr>) ?h)" "ring_contents r = []"
    using drain_session_takes [OF s] by blast
  let ?h1 = "upd_target i (\<lambda>t. t\<lparr>tg_ring := Some r\<rparr>) ?h"
  define h2 where "h2 = upd_target i (\<lambda>t. snd (pinned_quality t)) ?h1"
  have take: "api_take_quality ?k ?h1 = (fst (pinned_quality (sh_targets ?h1 ! i)), h2)"
    unfolding h2_def by (rule take_quality_at [OF r(2)])
  have "ring_ok r" by (rule session_ok_ring [OF r(2)]) (simp add: session_ok_at [OF s])
  moreover obtain r0 where "tg_ring (sh_targets ?h ! i) = Some r0" using session_ok_ring [OF s] .
  ultimately have quiet1: "quiet ?h ?h1" by (intro quiet_upd_target) (simp add: keeps_session_def)
  have "quiet ?h1 h2" using quiet_take_quality [of ?h1 ?k] by (simp only: take snd_conv)
  with quiet1 have quiet: "quiet ?h h2" by (rule quiet_trans)
  have at: "sh_targets ?h1 ! i = (sh_targets ?h ! i)\<lparr>tg_ring := Some r\<rparr>"
    "sh_targets h2 ! i = snd (pinned_quality ((sh_targets ?h ! i)\<lparr>tg_ring := Some r\<rparr>))"
    using session_ok_at [OF s] session_ok_at [OF r(2)] by (simp_all add: h2_def)
  have events: "map ?f (session_queue i ?h) = map (recorded env (lb_cpu_generation (bw_bridge w))) (source_events i w)"
    using mode by (simp add: source_events_def recorded_def)
  have run: "drain_scheduler env w =
      Some (map (recorded env (lb_cpu_generation (bw_bridge w))) (source_events i w) @ quality_calls i w, w\<lparr>bw_host := h2\<rparr>)"
    using mode by (simp add: drain_scheduler_def r(1) take Let_def at(1) pinned_quality_def quality_calls_def events)
  have "source_step i w (w\<lparr>bw_host := h2\<rparr>)"
    by (rule source_step_session [OF ok mode quiet refl])
  moreover have "source_events i (w\<lparr>bw_host := h2\<rparr>) = []" "source_draining i (w\<lparr>bw_host := h2\<rparr>) = source_draining i w"
    using mode r(3) by (simp_all add: source_events_def source_draining_def session_queue_def session_draining_def at pinned_quality_def)
  ultimately show ?thesis using run by blast
qed

lemma drain_timer_mode:
  assumes ok: "parts_ok w" "source_ok i w" and mode: "\<not> scheduler_active (bw_bridge w)"
  shows "\<exists>w'. drain_thread_timer env w =
      Some (map (recorded env (lb_cpu_generation (bw_bridge w))) (source_events i w) @ quality_calls i w, w') \<and>
    source_step i w w' \<and> source_events i w' = [] \<and> source_draining i w' = source_draining i w"
proof -
  let ?p = "lb_cpu_timer (bw_bridge w)"
  let ?f = "\<lambda>e. record_cpu_event env (lb_cpu_generation (bw_bridge w)) (te_state e) (te_vm_state e) (te_cfunction e)"
  obtain t where t: "bridge_timer w = Some t" "timer_ready t" using ok mode by (auto simp: source_ok_def)
  then have p: "?p \<noteq> NULL" "tw_timers (bw_timers w) ?p = Some t" by (auto simp: bridge_timer_def split: if_splits)
  obtain r where r: "drain_timer ?f t = (map ?f (timer_queue t), t\<lparr>tt_ring := r\<rparr>)" "ring_ok r" "ring_contents r = []"
    using drain_timer_takes [OF t(2)] by blast
  define t1 where "t1 = fst (lp_thread_timer_take_quality (t\<lparr>tt_ring := r\<rparr>))"
  have t1: "same_registration t t1" "timer_ready t1" "timer_queue t1 = []" "tt_draining_events t1 = tt_draining_events t"
    using r(2,3) by (simp_all add: t1_def lp_thread_timer_take_quality_def same_registration_def timer_ready_def timer_queue_def)
  define w' where "w' = w\<lparr>bw_timers := put_timer ?p t1 (bw_timers w)\<rparr>"
  have events: "map ?f (timer_queue t) = map (recorded env (lb_cpu_generation (bw_bridge w))) (source_events i w)"
    using mode t by (simp add: source_events_def recorded_def)
  have run: "drain_thread_timer env w =
      Some (map (recorded env (lb_cpu_generation (bw_bridge w))) (source_events i w) @ quality_calls i w, w')"
    unfolding drain_thread_timer_def Let_def
    using mode p t(1)
    by (simp add: r(1) events record_thread_quality_def lp_thread_timer_take_quality_def Let_def t1_def w'_def put_timer_def quality_calls_def)
  note step = source_step_timer [OF ok mode t(1) t1(1,2) w'_def]
  have "source_events i w' = []" "source_draining i w' = source_draining i w"
    using step mode t(1) t1(3,4) by (simp_all add: source_step_def source_events_def source_draining_def)
  then show ?thesis using run step(1) by blast
qed

lemma drain_cpu_takes:
  assumes ok: "parts_ok w" "source_ok i w"
  shows "\<exists>w'. drain_cpu env w =
      Some (map (recorded env (lb_cpu_generation (bw_bridge w))) (source_events i w) @ quality_calls i w, w') \<and>
    source_step i w w' \<and> source_events i w' = [] \<and> source_draining i w' = source_draining i w"
  using drain_scheduler_takes [OF ok] drain_timer_mode [OF ok] by (simp add: drain_cpu_def)

lemma drain_flag_source:
  assumes ok: "parts_ok w" "source_ok i w"
    and change: "change = (if scheduler_active (bw_bridge w)
       then Some (w\<lparr>bw_host := upd_target i (\<lambda>t. t\<lparr>tg_draining_events := d\<rparr>) (bw_host w)\<rparr>)
       else with_timer (\<lambda>t. t\<lparr>tt_draining_events := d\<rparr>) w)"
  shows "\<exists>w'. change = Some w' \<and> source_step i w w' \<and> source_draining i w' = d \<and>
    source_events i w' = source_events i w \<and> quality_calls i w' = quality_calls i w"
proof (cases "scheduler_active (bw_bridge w)")
  case True
  let ?k = "lb_scheduler_token (bw_bridge w)"
  let ?h = "upd_target i (\<lambda>t. t\<lparr>tg_draining_events := d\<rparr>) (bw_host w)"
  have s: "session_ok ?k i (bw_host w)" using ok True by (simp add: source_ok_def)
  note at = session_ok_at [OF s, of "\<lambda>t. t\<lparr>tg_draining_events := d\<rparr>"]
  have "quiet (bw_host w) ?h" by (rule quiet_upd_target) (simp add: keeps_session_def)
  then have "source_step i w (w\<lparr>bw_host := ?h\<rparr>)" by (rule source_step_session [OF ok True _ refl])
  then show ?thesis
    using True at by (simp add: change source_draining_def session_draining_def source_events_def session_queue_def quality_calls_def Let_def)
next
  case False
  obtain t where t: "bridge_timer w = Some t" "timer_ready t" using ok False by (auto simp: source_ok_def)
  let ?t = "t\<lparr>tt_draining_events := d\<rparr>"
  define w' where "w' = w\<lparr>bw_timers := put_timer (lb_cpu_timer (bw_bridge w)) ?t (bw_timers w)\<rparr>"
  have "same_registration t ?t" "timer_ready ?t" using t(2) by (simp_all add: same_registration_def timer_ready_def)
  note step = source_step_timer [OF ok False t(1) this w'_def]
  have "change = Some w'"
    using False t(1) by (auto simp: change with_timer_def bridge_timer_def w'_def Let_def split: if_splits)
  moreover have "source_draining i w' = d" "source_events i w' = source_events i w" "quality_calls i w' = quality_calls i w"
    using step False t(1)
    by (simp_all add: source_step_def source_draining_def source_events_def quality_calls_def timer_queue_def)
  ultimately show ?thesis using step(1) by blast
qed

lemma begin_drain_source:
  assumes ok: "parts_ok w" "source_ok i w"
  shows "\<exists>w'. begin_event_drain w = Some w' \<and> source_step i w w' \<and> source_draining i w' \<and>
    source_events i w' = source_events i w \<and> quality_calls i w' = quality_calls i w"
proof -
  have "begin_event_drain w = (if scheduler_active (bw_bridge w)
      then Some (w\<lparr>bw_host := upd_target i (\<lambda>t. t\<lparr>tg_draining_events := True\<rparr>) (bw_host w)\<rparr>)
      else with_timer (\<lambda>t. t\<lparr>tt_draining_events := True\<rparr>) w)"
    using ok drain_flag_at [of "lb_scheduler_token (bw_bridge w)" i "bw_host w"]
    by (simp add: begin_event_drain_def source_ok_def lp_thread_timer_begin_event_drain_def [abs_def])
  from drain_flag_source [OF ok this] show ?thesis by simp
qed

lemma end_drain_source:
  assumes ok: "parts_ok w" "source_ok i w"
  shows "\<exists>w'. end_event_drain w = Some w' \<and> source_step i w w' \<and> \<not> source_draining i w' \<and>
    source_events i w' = source_events i w \<and> quality_calls i w' = quality_calls i w"
proof -
  have "end_event_drain w = (if scheduler_active (bw_bridge w)
      then Some (w\<lparr>bw_host := upd_target i (\<lambda>t. t\<lparr>tg_draining_events := False\<rparr>) (bw_host w)\<rparr>)
      else with_timer (\<lambda>t. t\<lparr>tt_draining_events := False\<rparr>) w)"
    using ok drain_flag_at [of "lb_scheduler_token (bw_bridge w)" i "bw_host w"]
    by (simp add: end_event_drain_def source_ok_def lp_thread_timer_end_event_drain_def [abs_def])
  from drain_flag_source [OF ok this] show ?thesis by simp
qed

section \<open>Ticks\<close>

lemma timer_signal_cases:
  assumes "timer_signal_handler info w = Some (w', request)"
  obtains "w' = w" | j t where "tw_timers w (si_value j) = Some t" "w' = put_timer (si_value j) (fst (handle_tick j t)) w"
proof (cases info)
  case None
  then show thesis using assms that(1) by (simp add: timer_signal_handler_def)
next
  case (Some j)
  show thesis
  proof (cases "tw_timers w (si_value j)")
    case None
    then show thesis using assms Some that(1) by (simp add: timer_signal_handler_def Let_def split: if_splits)
  next
    case t: (Some t)
    obtain t' r where h: "handle_tick j t = (t', r)" by (cases "handle_tick j t")
    have "w' = w \<or> w' = put_timer (si_value j) t' w"
      using assms Some t h by (auto simp: timer_signal_handler_def Let_def split: if_splits)
    then show thesis using that t h by fastforce
  qed
qed

text \<open>A signal for another timer leaves this one as it is.\<close>

lemma timer_signal_source:
  assumes ok: "parts_ok w" "source_ok i w" and mode: "\<not> scheduler_active (bw_bridge w)"
  shows "\<exists>timers request. timer_signal_handler info (bw_timers w) = Some (timers, request) \<and>
    (let w' = w\<lparr>bw_timers := timers\<rparr>
     in source_step i w w' \<and> source_draining i w' = source_draining i w \<and>
        (source_draining i w \<longrightarrow> source_events i w' = source_events i w) \<and>
        (\<exists>es. source_events i w' = source_events i w @ es))"
proof -
  let ?p = "lb_cpu_timer (bw_bridge w)"
  obtain t where t: "bridge_timer w = Some t" "timer_ready t" using ok mode by (auto simp: source_ok_def)
  have p: "?p \<noteq> NULL" "tw_timers (bw_timers w) ?p = Some t" using t by (auto simp: bridge_timer_def split: if_splits)
  have tw: "world_ok (bw_timers w)" using ok by (simp add: parts_ok_def)
  obtain timers request where run: "timer_signal_handler info (bw_timers w) = Some (timers, request)" "world_ok timers"
    using world_ok_handler [OF tw, of info] by blast
  obtain t' where t': "tw_timers timers ?p = Some t'" "t' = t \<or> (\<exists>j. t' = fst (handle_tick j t))"
  proof -
    from run(1) have "tw_timers timers ?p = Some t \<or> (\<exists>j. tw_timers timers ?p = Some (fst (handle_tick j t)))"
      by (cases rule: timer_signal_cases) (use p(2) in \<open>auto simp: put_timer_def\<close>)
    then show thesis using that by blast
  qed
  let ?w = "w\<lparr>bw_timers := timers\<rparr>"
  have at: "bridge_timer ?w = Some t'" using t'(1) p(1) by (simp add: bridge_timer_def)
  have same: "same_registration t t'"
    using t'(2) same_registration_tick by (metis prod.collapse same_registration_refl)
  have queue: "timer_ready t'" "tt_draining_events t' = tt_draining_events t"
    "tt_draining_events t \<longrightarrow> timer_queue t' = timer_queue t" "\<exists>es. timer_queue t' = timer_queue t @ es"
    using t'(2) t(2) handle_tick_queue [OF t(2)] by auto
  have "source_step i w ?w"
    using ok mode at queue(1) same t(1) run(2)
    by (simp add: source_step_def parts_ok_def source_ok_def source_live_def same_registration_def)
  moreover have "source_draining i ?w = source_draining i w"
    "source_draining i w \<longrightarrow> source_events i ?w = source_events i w" "\<exists>es. source_events i ?w = source_events i w @ es"
    using mode at t(1) queue by (auto simp: source_draining_def source_events_def)
  ultimately show ?thesis using run(1) by auto
qed

lemma tick_source_law:
  assumes ok: "parts_ok w" "source_ok i w" and api: "lb_scheduler_token (bw_bridge w) \<noteq> 0 \<or> \<not> lb_scheduler_api (bw_bridge w)"
  shows "\<exists>w'. bridge_tick info w = Some w' \<and> source_step i w w' \<and> source_draining i w' = source_draining i w \<and>
    (source_draining i w \<longrightarrow> source_events i w' = source_events i w) \<and> (\<exists>es. source_events i w' = source_events i w @ es)"
proof (cases "scheduler_active (bw_bridge w)")
  case True
  let ?k = "lb_scheduler_token (bw_bridge w)"
  have s: "session_ok ?k i (bw_host w)" and host: "host_ok (bw_host w)"
    using ok True by (simp_all add: source_ok_def parts_ok_def)
  obtain h request where h: "skynet_signal_handler info (bw_host w) = Some (h, request)" "quiet (bw_host w) h"
    by (rule handler_returns [OF host])
  note q = handler_on_target [OF s h(1)]
  have "source_step i w (w\<lparr>bw_host := h\<rparr>)"
    by (rule source_step_session [OF ok True h(2) refl])
  then show ?thesis
    using True h(1) q by (auto simp: bridge_tick_def scheduler_active_def source_draining_def source_events_def)
next
  case False
  then have "\<not> lb_scheduler_api (bw_bridge w)" using api by (auto simp: scheduler_active_def)
  then show ?thesis using timer_signal_source [OF ok False, of info] by (auto simp: bridge_tick_def Let_def)
qed

text \<open>The source of a bridge, with everything but its queue and its counters fixed.\<close>

definition source_of :: "nat \<Rightarrow> lp_lua_bridge \<Rightarrow> bridge_world \<Rightarrow> bool" where
  "source_of i b w \<longleftrightarrow>
     bw_bridge w = b \<and> parts_ok w \<and> source_ok i w \<and> (lb_scheduler_token b \<noteq> 0 \<or> \<not> lb_scheduler_api b)"

interpretation bridge_source: tick_source "source_of i b" "source_events i" "source_draining i"
  "recorded env (lb_cpu_generation b)" "quality_calls i" begin_event_drain end_event_drain "drain_cpu env" bridge_tick
  for i b env
proof
  fix w
  assume ok: "source_of i b w"
  then have w: "parts_ok w" "source_ok i w" and b: "bw_bridge w = b" "lb_scheduler_token b \<noteq> 0 \<or> \<not> lb_scheduler_api b"
    by (simp_all add: source_of_def)
  have keep: "source_of i b w'" if "source_step i w w'" for w'
    using that b by (simp add: source_step_def source_of_def)
  show "\<exists>w'. begin_event_drain w = Some w' \<and> source_of i b w' \<and> source_draining i w' \<and> source_events i w' = source_events i w"
    using begin_drain_source [OF w] keep by blast
  show "\<exists>w'. end_event_drain w = Some w' \<and> source_of i b w' \<and> \<not> source_draining i w' \<and> source_events i w' = source_events i w"
    using end_drain_source [OF w] keep by blast
  show "\<exists>w'. drain_cpu env w = Some (map (recorded env (lb_cpu_generation b)) (source_events i w) @ quality_calls i w, w') \<and>
      source_of i b w' \<and> source_events i w' = [] \<and> source_draining i w' = source_draining i w"
    using drain_cpu_takes [OF w, of env] keep unfolding b(1) by blast
  show "\<exists>w'. bridge_tick info w = Some w' \<and> source_of i b w' \<and> source_draining i w' = source_draining i w \<and>
      (source_draining i w \<longrightarrow> source_events i w' = source_events i w) \<and> (\<exists>es. source_events i w' = source_events i w @ es)" for info
    using tick_source_law [OF w, of info] keep b by blast
qed

section \<open>The invariant\<close>

definition wanted_hooks :: "lp_lua_bridge \<Rightarrow> lua_ProfileHooks option" where
  "wanted_hooks b =
     (if \<not> lb_cpu_active b \<and> \<not> lb_memory_active b then None
      else Some \<lparr>hk_safe_point = lb_cpu_active b, hk_state_change = lb_cpu_active b, hk_allocation = lb_memory_active b\<rparr>)"

lemma apply_hooks_wanted: "apply_hooks w = w\<lparr>bw_hooks := wanted_hooks (bw_bridge w)\<rparr>"
  by (simp add: apply_hooks_def wanted_hooks_def Let_def)

text \<open>
  A CPU recording has a live source, in one of the two modes, which drains exactly while the
  profiler is at work; without one there is neither session nor timer.
\<close>

definition cpu_source :: "nat \<Rightarrow> bridge_world \<Rightarrow> bool" where
  "cpu_source i w \<longleftrightarrow>
     source_ok i w \<and> source_live i w \<and> (source_draining i w \<longleftrightarrow> lb_profiler_work_depth (bw_bridge w) \<noteq> 0)"

definition mode_ok :: "lp_lua_bridge \<Rightarrow> bool" where
  "mode_ok b \<longleftrightarrow>
     (if lb_scheduler_api b then lb_cpu_timer b = NULL \<and> (lb_scheduler_token b \<noteq> 0 \<longleftrightarrow> lb_cpu_active b)
      else lb_scheduler_token b = 0 \<and> (lb_cpu_timer b \<noteq> NULL \<longleftrightarrow> lb_cpu_active b)) \<and>
     (lb_cpu_active b \<longleftrightarrow> lb_cpu_generation b \<noteq> 0) \<and> (lb_memory_active b \<longleftrightarrow> lb_memory_generation b \<noteq> 0)"

definition bridge_ok :: "bridge_world \<Rightarrow> bool" where
  "bridge_ok w \<longleftrightarrow>
     parts_ok w \<and> bw_hooks w = wanted_hooks (bw_bridge w) \<and> mode_ok (bw_bridge w) \<and>
     (lb_cpu_active (bw_bridge w) \<longrightarrow> (\<exists>i. cpu_source i w))"

lemma source_of_bridge: "bridge_ok w \<Longrightarrow> lb_cpu_active (bw_bridge w) \<Longrightarrow> source_ok i w \<Longrightarrow> source_of i (bw_bridge w) w"
  by (auto simp: bridge_ok_def source_of_def mode_ok_def split: if_splits)

text \<open>The session has one target.\<close>

lemma source_unique:
  assumes "source_ok i w" "source_ok j w" "scheduler_active (bw_bridge w)" shows "i = j"
  using assms token_index [of "bw_host w" i j] by (simp add: source_ok_def session_ok_def)

lemma cpu_source_any:
  assumes "bridge_ok w" "lb_cpu_active (bw_bridge w)" "source_ok i w" shows "cpu_source i w"
proof -
  obtain j where j: "cpu_source j w" using assms by (auto simp: bridge_ok_def)
  show ?thesis
  proof (cases "scheduler_active (bw_bridge w)")
    case True
    then have "i = j" using source_unique assms(3) j by (simp add: cpu_source_def)
    then show ?thesis using j by simp
  next
    case False
    then show ?thesis using j assms(3) by (simp add: cpu_source_def source_live_def source_draining_def)
  qed
qed

text \<open>The depth and the hooks do not concern the source.\<close>

definition at_depth :: "u32 \<Rightarrow> bridge_world \<Rightarrow> bridge_world" where
  "at_depth d w = upd_bridge (\<lambda>b. b\<lparr>lb_profiler_work_depth := d\<rparr>) w"

lemma at_depth_fields [simp]:
  "bw_bridge (at_depth d w) = (bw_bridge w)\<lparr>lb_profiler_work_depth := d\<rparr>" "bw_hooks (at_depth d w) = bw_hooks w"
  "bw_timers (at_depth d w) = bw_timers w" "bw_host (at_depth d w) = bw_host w"
  by (simp_all add: at_depth_def upd_bridge_def)

lemma at_depth_source [simp]:
  "parts_ok (at_depth d w) = parts_ok w" "source_ok i (at_depth d w) = source_ok i w"
  "source_events i (at_depth d w) = source_events i w" "source_draining i (at_depth d w) = source_draining i w"
  "source_live i (at_depth d w) = source_live i w" "quality_calls i (at_depth d w) = quality_calls i w"
  by (simp_all add: parts_ok_def source_ok_def source_events_def source_draining_def source_live_def quality_calls_def
      bridge_timer_def scheduler_active_def Let_def)

lemma at_depth_mode [simp]:
  "mode_ok (b\<lparr>lb_profiler_work_depth := d\<rparr>) = mode_ok b" "wanted_hooks (b\<lparr>lb_profiler_work_depth := d\<rparr>) = wanted_hooks b"
  "scheduler_active (b\<lparr>lb_profiler_work_depth := d\<rparr>) = scheduler_active b"
  by (simp_all add: mode_ok_def wanted_hooks_def scheduler_active_def)

section \<open>The guard of the profiler's work\<close>

text \<open>
  A change of the depth, with the source as it was but for the flag: what an accepted begin and
  the matching end do.
\<close>

definition work_step :: "u32 \<Rightarrow> bridge_world \<Rightarrow> bridge_world \<Rightarrow> bool" where
  "work_step d w w' \<longleftrightarrow>
     bridge_ok w' \<and> bw_bridge w' = (bw_bridge w)\<lparr>lb_profiler_work_depth := d\<rparr> \<and>
     (lb_cpu_active (bw_bridge w) \<longrightarrow>
       (\<forall>i. source_ok i w \<longrightarrow> source_ok i w' \<and> source_events i w' = source_events i w \<and> quality_calls i w' = quality_calls i w))"

lemma work_step_same_flag:
  assumes ok: "bridge_ok w" and same: "lb_cpu_active (bw_bridge w) \<Longrightarrow> d \<noteq> 0 \<longleftrightarrow> lb_profiler_work_depth (bw_bridge w) \<noteq> 0"
  shows "work_step d w (at_depth d w)"
  using assms by (auto simp: work_step_def bridge_ok_def cpu_source_def)

lemma work_step_flag:
  assumes ok: "bridge_ok w" and act: "lb_cpu_active (bw_bridge w)"
    and flag: "\<And>v i. parts_ok v \<Longrightarrow> source_ok i v \<Longrightarrow> \<exists>v'. change v = Some v' \<and> source_step i v v' \<and>
      source_draining i v' = (d \<noteq> 0) \<and> source_events i v' = source_events i v \<and> quality_calls i v' = quality_calls i v"
  shows "\<exists>w'. change (at_depth d w) = Some w' \<and> work_step d w w'"
proof -
  obtain j where j: "cpu_source j w" using ok act by (auto simp: bridge_ok_def)
  have at: "\<exists>v'. change (at_depth d w) = Some v' \<and> source_step i (at_depth d w) v' \<and> source_draining i v' = (d \<noteq> 0) \<and>
      source_events i v' = source_events i w \<and> quality_calls i v' = quality_calls i w" if "source_ok i w" for i
    using flag [of "at_depth d w" i] ok that by (simp add: bridge_ok_def)
  obtain w' where w': "change (at_depth d w) = Some w'" "source_step j (at_depth d w) w'" "source_draining j w' = (d \<noteq> 0)"
    using at [of j] j by (auto simp: cpu_source_def)
  have "cpu_source j w'" using w'(2,3) j by (simp add: cpu_source_def source_step_def)
  moreover have "source_ok i w' \<and> source_events i w' = source_events i w \<and> quality_calls i w' = quality_calls i w"
    if "source_ok i w" for i using at [OF that] w'(1) by (auto simp: source_step_def)
  ultimately show ?thesis
    using w'(1,2) ok by (auto simp: work_step_def bridge_ok_def source_step_def)
qed

lemma begin_work:
  assumes ok: "bridge_ok w" and room: "lb_profiler_work_depth (bw_bridge w) + 1 \<noteq> 0"
  shows "\<exists>w'. lp_lua_bridge_begin_profiler_work True w = Some (True, w') \<and>
    work_step (lb_profiler_work_depth (bw_bridge w) + 1) w w'"
proof -
  let ?d = "lb_profiler_work_depth (bw_bridge w)"
  have run: "lp_lua_bridge_begin_profiler_work True w =
      (if ?d = 0 \<and> lb_cpu_active (bw_bridge w) then map_option (\<lambda>w2. (True, w2)) (begin_event_drain (at_depth (?d + 1) w))
       else Some (True, at_depth (?d + 1) w))"
    by (simp add: lp_lua_bridge_begin_profiler_work_def at_depth_def upd_bridge_def Let_def)
  show ?thesis
  proof (cases "?d = 0 \<and> lb_cpu_active (bw_bridge w)")
    case True
    then obtain w' where "begin_event_drain (at_depth (?d + 1) w) = Some w'" "work_step (?d + 1) w w'"
      using work_step_flag [OF ok, of begin_event_drain "?d + 1"] begin_drain_source room by auto
    then show ?thesis using run True by simp
  next
    case False
    then show ?thesis using run work_step_same_flag [OF ok, of "?d + 1"] room by auto
  qed
qed

lemma end_work:
  assumes ok: "bridge_ok w" and depth: "lb_profiler_work_depth (bw_bridge w) \<noteq> 0"
  shows "\<exists>w'. lp_lua_bridge_end_profiler_work True True w = Some w' \<and>
    work_step (lb_profiler_work_depth (bw_bridge w) - 1) w w'"
proof -
  let ?d = "lb_profiler_work_depth (bw_bridge w)"
  have run: "lp_lua_bridge_end_profiler_work True True w =
      (if ?d - 1 = 0 \<and> lb_cpu_active (bw_bridge w) then end_event_drain (at_depth (?d - 1) w) else Some (at_depth (?d - 1) w))"
    using depth by (simp add: lp_lua_bridge_end_profiler_work_def at_depth_def upd_bridge_def Let_def)
  show ?thesis
  proof (cases "?d - 1 = 0 \<and> lb_cpu_active (bw_bridge w)")
    case True
    then obtain w' where "end_event_drain (at_depth (?d - 1) w) = Some w'" "work_step (?d - 1) w w'"
      using work_step_flag [OF ok, of end_event_drain "?d - 1"] end_drain_source by auto
    then show ?thesis using run True by simp
  next
    case False
    then show ?thesis using run work_step_same_flag [OF ok, of "?d - 1"] depth by auto
  qed
qed

section \<open>The hooks\<close>

lemma source_step_bridge:
  assumes ok: "bridge_ok w" and step: "source_step i w w'"
    and i: "source_ok i w" and act: "lb_cpu_active (bw_bridge w)" and drain: "source_draining i w' = source_draining i w"
  shows "bridge_ok w'"
proof -
  have "cpu_source i w" by (rule cpu_source_any [OF ok act i])
  then have "cpu_source i w'" using step drain by (simp add: cpu_source_def source_step_def)
  then show ?thesis using ok step by (auto simp: bridge_ok_def source_step_def)
qed

lemma drain_bridge:
  assumes ok: "bridge_ok w" and act: "lb_cpu_active (bw_bridge w)" and i: "source_ok i w"
  shows "\<exists>w'. drain_cpu env w =
      Some (map (recorded env (lb_cpu_generation (bw_bridge w))) (source_events i w) @ quality_calls i w, w') \<and>
    bridge_ok w' \<and> bw_bridge w' = bw_bridge w \<and> source_ok i w' \<and> source_events i w' = []"
  using drain_cpu_takes [of w i env] source_step_bridge [OF ok _ i act] ok i
  by (auto simp: bridge_ok_def source_step_def)

text \<open>The part that the hooks share: begin the work, drain, end the work.\<close>

lemma work_drains:
  assumes ok: "bridge_ok w" and room: "lb_profiler_work_depth (bw_bridge w) + 1 \<noteq> 0"
    and act: "lb_cpu_active (bw_bridge w)" and i: "source_ok i w"
  obtains w1 w2 w3 where "lp_lua_bridge_begin_profiler_work True w = Some (True, w1)"
    "bw_bridge w1 = (bw_bridge w)\<lparr>lb_profiler_work_depth := lb_profiler_work_depth (bw_bridge w) + 1\<rparr>" "bridge_ok w1" "source_ok i w1"
    "drain_cpu env w1 = Some (map (recorded env (lb_cpu_generation (bw_bridge w))) (source_events i w) @ quality_calls i w, w2)"
    "lp_lua_bridge_end_profiler_work True True w2 = Some w3"
    "bridge_ok w3" "bw_bridge w3 = bw_bridge w" "source_ok i w3" "source_events i w3 = []"
proof -
  let ?d = "lb_profiler_work_depth (bw_bridge w)"
  obtain w1 where w1: "lp_lua_bridge_begin_profiler_work True w = Some (True, w1)" "work_step (?d + 1) w w1"
    using begin_work [OF ok room] by blast
  then have b1: "bw_bridge w1 = (bw_bridge w)\<lparr>lb_profiler_work_depth := ?d + 1\<rparr>" "bridge_ok w1" "source_ok i w1"
    "source_events i w1 = source_events i w" "quality_calls i w1 = quality_calls i w"
    using act i by (auto simp: work_step_def)
  obtain w2 where w2: "drain_cpu env w1 =
      Some (map (recorded env (lb_cpu_generation (bw_bridge w))) (source_events i w) @ quality_calls i w, w2)"
    "bridge_ok w2" "bw_bridge w2 = bw_bridge w1" "source_ok i w2" "source_events i w2 = []"
    using drain_bridge [OF b1(2) _ b1(3), of env] act b1 by auto
  obtain w3 where w3: "lp_lua_bridge_end_profiler_work True True w2 = Some w3"
    "work_step (lb_profiler_work_depth (bw_bridge w2) - 1) w2 w3"
    using end_work [OF w2(2)] room b1(1) w2(3) by auto
  then have "bridge_ok w3" "bw_bridge w3 = bw_bridge w" "source_ok i w3" "source_events i w3 = []"
    using act w2(3-5) b1(1) by (auto simp: work_step_def)
  then show thesis using that w1(1) b1(1-3) w2(1) w3(1) by blast
qed

lemma safe_point_result:
  assumes ok: "bridge_ok w" and room: "lb_profiler_work_depth (bw_bridge w) + 1 \<noteq> 0"
    and act: "lb_cpu_active (bw_bridge w)" and i: "source_ok i w"
  shows "\<exists>w'. safe_point env pending w =
      Some (Safe_Point (lb_cpu_generation (bw_bridge w)) pending #
        map (recorded env (lb_cpu_generation (bw_bridge w))) (source_events i w) @ quality_calls i w, w') \<and>
    bridge_ok w' \<and> bw_bridge w' = bw_bridge w \<and> source_ok i w' \<and> source_events i w' = []"
proof -
  obtain w1 w2 w3 where w: "lp_lua_bridge_begin_profiler_work True w = Some (True, w1)"
    "bw_bridge w1 = (bw_bridge w)\<lparr>lb_profiler_work_depth := lb_profiler_work_depth (bw_bridge w) + 1\<rparr>"
    "drain_cpu env w1 = Some (map (recorded env (lb_cpu_generation (bw_bridge w))) (source_events i w) @ quality_calls i w, w2)"
    "lp_lua_bridge_end_profiler_work True True w2 = Some w3"
    "bridge_ok w3" "bw_bridge w3 = bw_bridge w" "source_ok i w3" "source_events i w3 = []"
    by (rule work_drains [OF ok room act i, of env])
  then show ?thesis by (simp add: safe_point_def)
qed

text \<open>Publishing a state, in both modes.\<close>

definition publish_state ::
  "bridge_env \<Rightarrow> pointer \<Rightarrow> c_int \<Rightarrow> pointer \<Rightarrow> bridge_world \<Rightarrow> bridge_world option" where
  "publish_state env L state cfunction w =
     (if scheduler_active (bw_bridge w)
      then Some (w\<lparr>bw_host := api_publish_state (be_me env) (lb_scheduler_token (bw_bridge w)) L state cfunction (bw_host w)\<rparr>)
      else with_timer (\<lambda>t. lp_thread_timer_publish_state t \<lparr>te_state = L, te_vm_state = state, te_cfunction = cfunction\<rparr>) w)"

lemma publish_bridge:
  assumes ok: "bridge_ok w" and act: "lb_cpu_active (bw_bridge w)" and i: "source_ok i w"
  shows "\<exists>w'. publish_state env L state cfunction w = Some w' \<and> bridge_ok w' \<and> bw_bridge w' = bw_bridge w \<and>
    source_ok i w' \<and> source_events i w' = source_events i w"
proof -
  have parts: "parts_ok w" using ok by (simp add: bridge_ok_def)
  have "\<exists>w'. publish_state env L state cfunction w = Some w' \<and> source_step i w w' \<and>
      source_draining i w' = source_draining i w \<and> source_events i w' = source_events i w"
  proof (cases "scheduler_active (bw_bridge w)")
    case True
    let ?k = "lb_scheduler_token (bw_bridge w)"
    let ?h = "api_publish_state (be_me env) ?k L state cfunction (bw_host w)"
    have s: "session_ok ?k i (bw_host w)" "host_ok (bw_host w)" using i True parts by (simp_all add: source_ok_def parts_ok_def)
    note q = quiet_publish_state [OF s(2), of "be_me env" ?k L state cfunction]
    note s' = session_ok_quiet [OF s(1) q]
    have "source_step i w (w\<lparr>bw_host := ?h\<rparr>)"
      by (rule source_step_session [OF parts i True q refl])
    then show ?thesis
      using True queues_at [OF queues_publish_state [OF s(2)] s(1) s']
      by (simp add: publish_state_def source_draining_def source_events_def)
  next
    case False
    obtain t where t: "bridge_timer w = Some t" "timer_ready t" using i False by (auto simp: source_ok_def)
    let ?t = "lp_thread_timer_publish_state t \<lparr>te_state = L, te_vm_state = state, te_cfunction = cfunction\<rparr>"
    define w' where "w' = w\<lparr>bw_timers := put_timer (lb_cpu_timer (bw_bridge w)) ?t (bw_timers w)\<rparr>"
    have same: "same_registration t ?t" "tt_ring ?t = tt_ring t" "tt_draining_events ?t = tt_draining_events t"
      by (simp_all add: same_registration_def lp_thread_timer_publish_state_def publish_defs)
    then have "timer_ready ?t" using t(2) by (simp add: timer_ready_def)
    note step = source_step_timer [OF parts i False t(1) same(1) this w'_def]
    have "publish_state env L state cfunction w = Some w'"
      using False t(1) by (auto simp: publish_state_def with_timer_def bridge_timer_def w'_def Let_def split: if_splits)
    moreover have "source_draining i w' = source_draining i w" "source_events i w' = source_events i w"
      using step False t(1) same by (simp_all add: source_step_def source_draining_def source_events_def timer_queue_def)
    ultimately show ?thesis using step(1) by blast
  qed
  then show ?thesis using source_step_bridge [OF ok _ i act] by (auto simp: source_step_def)
qed

text \<open>The calls of a hook that carry a stack.\<close>

definition is_sample :: "runtime_call \<Rightarrow> bool" where
  "is_sample call =
     (case call of Cpu_Sample g s c fs tr \<Rightarrow> True | Memory_Sample g p fs tr n ws wo \<Rightarrow> True | _ \<Rightarrow> False)"

lemma samples_of_drain:
  "filter is_sample (map (recorded env g) vs @ quality_calls i w) = map (recorded env g) vs"
proof -
  have "is_sample (recorded env g v)" for v
    by (simp add: recorded_def record_cpu_event_def is_sample_def split: prod.split)
  moreover have "\<not> is_sample call" if "call \<in> set (quality_calls i w)" for call
    using that by (auto simp: quality_calls_def Let_def is_sample_def split: if_splits option.splits)
  ultimately show ?thesis by (simp add: filter_False filter_True)
qed

text \<open>A state change drains when the VM goes back to its host: always, or for a coroutine.\<close>

definition change_drains :: "pointer \<Rightarrow> c_int \<Rightarrow> bridge_world \<Rightarrow> bool" where
  "change_drains L state w \<longleftrightarrow>
     state = LP_VM_HOST \<and> (scheduler_active (bw_bridge w) \<or> L \<noteq> lb_main_state (bw_bridge w))"

lemma state_change_coroutine:
  assumes ok: "bridge_ok w" and room: "lb_profiler_work_depth (bw_bridge w) + 1 \<noteq> 0"
    and act: "lb_cpu_active (bw_bridge w)" and i: "source_ok i w"
    and L: "L \<noteq> lb_main_state (bw_bridge w)" and mode: "\<not> scheduler_active (bw_bridge w)"
  obtains w1 w2 w3 w' calls where "state_change env L LP_VM_HOST cfunction w =
      Some (State_Change (lb_cpu_generation (bw_bridge w)) LP_VM_HOST # calls, w')"
    "filter is_sample calls = map (recorded env (lb_cpu_generation (bw_bridge w))) (source_events i w)"
    "publish_state env (lb_main_state (bw_bridge w)) LP_VM_HOST NULL w1 = Some w2" "bw_bridge w2 = bw_bridge w1"
    "bw_bridge w1 = (bw_bridge w)\<lparr>lb_profiler_work_depth := lb_profiler_work_depth (bw_bridge w) + 1\<rparr>"
    "drain_cpu env w2 = Some (calls, w3)" "lp_lua_bridge_end_profiler_work True True w3 = Some w'"
    "source_ok i w1" "bridge_ok w'" "bw_bridge w' = bw_bridge w" "source_ok i w'" "source_events i w' = []"
proof -
  let ?d = "lb_profiler_work_depth (bw_bridge w)" let ?g = "lb_cpu_generation (bw_bridge w)"
  obtain w1 where w1: "lp_lua_bridge_begin_profiler_work True w = Some (True, w1)" "work_step (?d + 1) w w1"
    using begin_work [OF ok room] by blast
  then have b1: "bw_bridge w1 = (bw_bridge w)\<lparr>lb_profiler_work_depth := ?d + 1\<rparr>" "bridge_ok w1" "source_ok i w1"
    "source_events i w1 = source_events i w" using act i by (auto simp: work_step_def)
  obtain w2 where w2: "publish_state env (lb_main_state (bw_bridge w)) LP_VM_HOST NULL w1 = Some w2" "bridge_ok w2"
    "bw_bridge w2 = bw_bridge w1" "source_ok i w2" "source_events i w2 = source_events i w1"
    using publish_bridge [OF b1(2) _ b1(3), of env "lb_main_state (bw_bridge w)" LP_VM_HOST NULL] act b1(1) by auto
  obtain w3 where w3: "drain_cpu env w2 = Some (map (recorded env ?g) (source_events i w) @ quality_calls i w2, w3)"
    "bridge_ok w3" "bw_bridge w3 = bw_bridge w2" "source_ok i w3" "source_events i w3 = []"
    using drain_bridge [OF w2(2) _ w2(4), of env] act b1 w2(3,5) by auto
  obtain w' where w': "lp_lua_bridge_end_profiler_work True True w3 = Some w'" "work_step (lb_profiler_work_depth (bw_bridge w3) - 1) w3 w'"
    using end_work [OF w3(2)] room b1(1) w2(3) w3(3) by auto
  have "scheduler_active (bw_bridge w1) = False" "scheduler_active (bw_bridge w2) = False"
    using mode w2(3) by (simp_all add: b1(1))
  then have "state_change env L LP_VM_HOST cfunction w =
      Some (State_Change ?g LP_VM_HOST # map (recorded env ?g) (source_events i w) @ quality_calls i w2, w')"
    using L mode w1(1) w2(1,3) w3(1) w'(1) b1(1)
    by (simp add: state_change_def publish_state_def drain_cpu_def)
  moreover have "bridge_ok w'" "bw_bridge w' = bw_bridge w" "source_ok i w'" "source_events i w' = []"
    using act b1(1) w2(3) w3(3-5) w'(2) by (auto simp: work_step_def)
  ultimately show thesis using that w2(1,3) b1(1,3) w3(1) w'(1) samples_of_drain by blast
qed

lemma state_change_result:
  assumes ok: "bridge_ok w" and room: "lb_profiler_work_depth (bw_bridge w) + 1 \<noteq> 0"
    and act: "lb_cpu_active (bw_bridge w)" and i: "source_ok i w"
  shows "\<exists>calls w'. state_change env L state cfunction w =
      Some (State_Change (lb_cpu_generation (bw_bridge w)) state # calls, w') \<and>
    bridge_ok w' \<and> bw_bridge w' = bw_bridge w \<and> source_ok i w' \<and>
    filter is_sample calls =
      (if change_drains L state w then map (recorded env (lb_cpu_generation (bw_bridge w))) (source_events i w) else []) \<and>
    source_events i w' = (if change_drains L state w then [] else source_events i w)"
proof (cases "state = LP_VM_HOST \<and> L \<noteq> lb_main_state (bw_bridge w) \<and> \<not> scheduler_active (bw_bridge w)")
  case True
  then have L: "L \<noteq> lb_main_state (bw_bridge w)" "\<not> scheduler_active (bw_bridge w)" by simp_all
  show ?thesis
    by (rule state_change_coroutine [OF ok room act i L, of env cfunction]) (use True in \<open>simp add: change_drains_def\<close>)
next
  case False
  let ?g = "lb_cpu_generation (bw_bridge w)"
  obtain w1 where w1: "publish_state env L state cfunction w = Some w1" "bridge_ok w1" "bw_bridge w1 = bw_bridge w"
    "source_ok i w1" "source_events i w1 = source_events i w"
    using publish_bridge [OF ok act i, of env L state cfunction] by blast
  have run: "state_change env L state cfunction w =
      (if state = LP_VM_HOST \<and> scheduler_active (bw_bridge w1)
       then do {
         (entered, w2) \<leftarrow> lp_lua_bridge_begin_profiler_work True w1;
         (calls, w3) \<leftarrow> drain_cpu env w2;
         w4 \<leftarrow> lp_lua_bridge_end_profiler_work True entered w3;
         Some (State_Change ?g state # calls, w4)
       }
       else Some ([State_Change ?g state], w1))"
    unfolding state_change_def publish_state_def [symmetric]
    by (simp only: False if_False w1(1,3) Option.bind.bind_lunit Let_def)
  show ?thesis
  proof (cases "state = LP_VM_HOST \<and> scheduler_active (bw_bridge w1)")
    case True
    have "lb_profiler_work_depth (bw_bridge w1) + 1 \<noteq> 0" "lb_cpu_active (bw_bridge w1)" using room act w1(3) by simp_all
    then obtain v1 v2 v3 where v: "lp_lua_bridge_begin_profiler_work True w1 = Some (True, v1)"
      "drain_cpu env v1 = Some (map (recorded env ?g) (source_events i w) @ quality_calls i w1, v2)"
      "lp_lua_bridge_end_profiler_work True True v2 = Some v3"
      "bridge_ok v3" "bw_bridge v3 = bw_bridge w" "source_ok i v3" "source_events i v3 = []"
      using work_drains [OF w1(2) _ _ w1(4), of env] unfolding w1(3,5) by metis
    have "change_drains L state w" using True w1(3) by (simp add: change_drains_def)
    then show ?thesis using True run v by (simp add: samples_of_drain del: filter_append)
  next
    case no: False
    have "\<not> change_drains L state w" using no False w1(3) by (auto simp: change_drains_def)
    moreover have "state_change env L state cfunction w = Some ([State_Change ?g state], w1)"
      by (simp only: run if_not_P [OF no])
    ultimately show ?thesis using w1 by simp
  qed
qed

text \<open>The allocation hook: inside the profiler's own work it only keeps the live table right.\<close>

lemma allocation_result:
  assumes ok: "bridge_ok w" and rt: "runtime_ok rt"
  shows "\<exists>calls w'. allocation d env rt L event w = Some (calls, w') \<and> bridge_ok w' \<and> bw_bridge w' = bw_bridge w \<and>
    (lb_cpu_active (bw_bridge w) \<longrightarrow> (\<forall>i. source_ok i w \<longrightarrow> source_ok i w' \<and> source_events i w' = source_events i w)) \<and>
    (\<forall>call \<in> set calls. is_sample call \<longrightarrow>
      (\<exists>g p n ws wo. call = Memory_Sample g p (fst (capture_stack env L)) (snd (capture_stack env L)) n ws wo))"
proof (cases "lb_profiler_work_depth (bw_bridge w) = 0")
  case False
  then show ?thesis using ok by (simp add: allocation_def Let_def is_sample_def)
next
  case True
  let ?g = "lb_memory_generation (bw_bridge w)"
  let ?call = "Allocation ?g (le_old_pointer event) (le_new_pointer event) (le_new_size event) (le_success event \<noteq> 0)"
  have room: "lb_profiler_work_depth (bw_bridge w) + 1 \<noteq> 0" using True by simp
  obtain w1 where w1: "lp_lua_bridge_begin_profiler_work True w = Some (True, w1)" "work_step 1 w w1"
    using begin_work [OF ok room] True by auto
  then have b1: "bw_bridge w1 = (bw_bridge w)\<lparr>lb_profiler_work_depth := 1\<rparr>" "bridge_ok w1" by (simp_all add: work_step_def)
  obtain rt1 where rt1: "runtime_apply d ?call rt = Some rt1"
    using runtime_apply_ok [OF rt, of ?call d] by (auto simp: records_ok_def)
  obtain w2 where w2: "lp_lua_bridge_end_profiler_work True True w1 = Some w2" "work_step 0 w1 w2"
    using end_work [OF b1(2)] b1(1) by auto
  have b2: "bridge_ok w2" "bw_bridge w2 = bw_bridge w" using w2(2) b1(1) True by (simp_all add: work_step_def)
  let ?weights = "snd (lp_runtime_memory_sample_candidate d rt1 ?g (le_new_pointer event) (le_new_size event) (le_success event \<noteq> 0))"
  have "\<exists>calls. allocation d env rt L event w = Some (calls, w2) \<and> (\<forall>call \<in> set calls. is_sample call \<longrightarrow>
      (\<exists>g p n ws wo. call = Memory_Sample g p (fst (capture_stack env L)) (snd (capture_stack env L)) n ws wo))"
  proof (cases ?weights)
    case None
    then show ?thesis using True w1(1) rt1 w2(1) by (simp add: allocation_def Let_def is_sample_def)
  next
    case (Some x)
    obtain ws wo where "x = (ws, wo)" by (cases x)
    then show ?thesis
      using True w1(1) rt1 w2(1) Some by (simp add: allocation_def Let_def is_sample_def case_prod_beta)
  qed
  moreover have "source_ok i w2 \<and> source_events i w2 = source_events i w" if "lb_cpu_active (bw_bridge w)" "source_ok i w" for i
    using that w1(2) w2(2) b1(1) by (auto simp: work_step_def)
  ultimately show ?thesis using b2 by blast
qed

end
