(* ===== verification/Bridge_Collectors.thy ===== *)
theory Bridge_Collectors
  imports Bridge_Work
begin

text \<open>
  The two host operations of the runtime, \<open>start_collector\<close> and \<open>stop_collector\<close> of
  \<open>src/lua_bridge.c\<close>: a start that fails leaves the bridge, its timers and its hooks as they were;
  a stop records what is still queued and leaves neither timer nor session behind.
\<close>

section \<open>Starting\<close>

text \<open>The bridge with a recording more, and with one less.\<close>

definition recording_bridge :: "lp_collector_kind \<Rightarrow> u64 \<Rightarrow> lp_lua_bridge \<Rightarrow> lp_lua_bridge" where
  "recording_bridge kind generation b =
     (if kind = LP_COLLECTOR_CPU then b\<lparr>lb_cpu_active := True, lb_cpu_generation := generation\<rparr>
      else b\<lparr>lb_memory_active := True, lb_memory_generation := generation\<rparr>)"

definition idle_bridge :: "lp_collector_kind \<Rightarrow> lp_lua_bridge \<Rightarrow> lp_lua_bridge" where
  "idle_bridge kind b =
     (if kind = LP_COLLECTOR_CPU
      then b\<lparr>lb_cpu_active := False, lb_cpu_generation := 0, lb_scheduler_token := 0, lb_cpu_timer := NULL\<rparr>
      else b\<lparr>lb_memory_active := False, lb_memory_generation := 0\<rparr>)"

text \<open>The bridge without the handle of its source.\<close>

definition sourceless :: "lp_lua_bridge \<Rightarrow> lp_lua_bridge" where
  "sourceless b = b\<lparr>lb_scheduler_token := 0, lb_cpu_timer := NULL\<rparr>"

text \<open>\<open>malloc\<close> returns an address that is neither null nor in use; the counter of tokens has room.\<close>

definition start_possible :: "bridge_env \<Rightarrow> bridge_world \<Rightarrow> bool" where
  "start_possible env w \<longleftrightarrow>
     be_timer_address env \<noteq> NULL \<and> tw_timers (bw_timers w) (be_timer_address env) = None \<and>
     unat (sh_next_token (bw_host w)) < u64_max"

lemma idle_sourceless: "mode_ok b \<Longrightarrow> \<not> lb_cpu_active b \<Longrightarrow> sourceless b = b"
  by (auto simp: mode_ok_def sourceless_def split: if_splits)

text \<open>The end of a start: the hooks, and the flag when the profiler is not at work.\<close>

lemma finish_start:
  assumes parts: "parts_ok w" and i: "source_ok i w" "source_live i w" "source_draining i w"
    and mode: "mode_ok (bw_bridge w)" and hooks: "bw_hooks w = wanted_hooks (bw_bridge w)"
  shows "\<exists>w'. (if lb_profiler_work_depth (bw_bridge w) = 0 then map_option (\<lambda>w'. (LP_OK, w')) (end_event_drain w)
               else Some (LP_OK, w)) = Some (LP_OK, w') \<and> bridge_ok w' \<and> bw_bridge w' = bw_bridge w"
proof (cases "lb_profiler_work_depth (bw_bridge w) = 0")
  case True
  obtain w' where "end_event_drain w = Some w'" "source_step i w w'" "\<not> source_draining i w'"
    using end_drain_source [OF parts i(1)] by blast
  then show ?thesis using True i(2) mode hooks by (auto simp: bridge_ok_def cpu_source_def source_step_def)
next
  case False
  then show ?thesis using assms by (auto simp: bridge_ok_def cpu_source_def)
qed

lemma start_in_thread:
  assumes ok: "bridge_ok w" and idle: "\<not> lb_cpu_active (bw_bridge w)" and mode: "\<not> lb_scheduler_api (bw_bridge w)"
    and g: "generation \<noteq> 0" and fresh: "start_possible env w" and cpu: "cfg_kind config = LP_COLLECTOR_CPU"
  shows "\<exists>status w'. start_collector env generation config w = Some (status, w') \<and>
    (status \<noteq> LP_OK \<and> w' = w \<or>
     status = LP_OK \<and> bridge_ok w' \<and> bw_host w' = bw_host w \<and>
       bw_bridge w' = recording_bridge LP_COLLECTOR_CPU generation ((bw_bridge w)\<lparr>lb_cpu_timer := be_timer_address env\<rparr>))"
proof (cases "lb_scheduler_incompatible (bw_bridge w)")
  case True
  then show ?thesis by (simp add: start_collector_def cpu acquire_ticks_def Let_def)
next
  case compatible: False
  let ?p = "be_timer_address env" let ?hz = "cfg_sample_hz config" let ?b = "bw_bridge w"
  have b: "lb_scheduler_token ?b = 0" "lb_cpu_timer ?b = NULL" "lb_cpu_generation ?b = 0" "mode_ok ?b"
    using ok idle mode by (auto simp: bridge_ok_def mode_ok_def)
  have p: "?p \<noteq> NULL" "tw_timers (bw_timers w) ?p = None" using fresh by (simp_all add: start_possible_def)
  have tw: "world_ok (bw_timers w)" using ok by (simp add: bridge_ok_def parts_ok_def)
  have same: "upd_bridge (\<lambda>b. b\<lparr>lb_cpu_timer := NULL\<rparr>) w = w"
    using b(2) by (cases w, cases "bw_bridge w") (simp add: upd_bridge_def)
  show ?thesis
  proof (cases "lp_thread_timer_new (fst (be_timer_memory env)) (snd (be_timer_memory env))")
    case None
    then show ?thesis using compatible mode same by (simp add: start_collector_def cpu acquire_ticks_def Let_def)
  next
    case (Some t)
    then have t: "t = zero_thread_timer" by (simp add: lp_thread_timer_new_def split: if_splits)
    let ?T = "put_timer ?p zero_thread_timer (bw_timers w)"
    have okT: "world_ok ?T" by (rule world_ok_new [OF tw p])
    let ?b2 = "recording_bridge LP_COLLECTOR_CPU generation (?b\<lparr>lb_cpu_timer := ?p\<rparr>)"
    obtain timers status period where arm: "lp_thread_timer_arm (be_arm env) (be_me env) ?p ?hz ?T = (timers, status, period)"
      by (rule prod_cases3)
    have inactive: "\<not> scheduler_active ?b2" by (simp add: scheduler_active_def recording_bridge_def mode)
    define w3 where "w3 = w\<lparr>bw_bridge := ?b2, bw_hooks := wanted_hooks ?b2, bw_timers := timers\<rparr>"
    have run: "start_collector env generation config w =
        (if status \<noteq> LP_OK
         then Some (status, upd_bridge (\<lambda>b. b\<lparr>lb_cpu_timer := NULL\<rparr>)
           ((apply_hooks (upd_bridge (\<lambda>b. b\<lparr>lb_cpu_active := False, lb_cpu_generation := 0\<rparr>) w3))
             \<lparr>bw_timers := lp_thread_timer_delete (be_disarm env) (be_me env) ?p timers\<rparr>))
         else if lb_profiler_work_depth (bw_bridge w3) = 0 then map_option (\<lambda>w'. (LP_OK, w')) (end_event_drain w3)
         else Some (LP_OK, w3))"
      using compatible mode inactive Some t arm
      by (simp add: start_collector_def cpu acquire_ticks_def Let_def apply_hooks_wanted upd_bridge_def recording_bridge_def w3_def)
    show ?thesis
      using okT arm
    proof (cases rule: arm_cases)
      case failed
      have "lp_thread_timer_delete (be_disarm env) (be_me env) ?p timers = bw_timers w"
        unfolding failed(2) using p
        by (cases "bw_timers w")
          (simp add: lp_thread_timer_delete_def lp_thread_timer_disarm_def put_timer_def zero_thread_timer_def Let_def fun_upd_idem)
      then have "start_collector env generation config w = Some (status, w)"
        using run failed(1) ok b idle
        by (cases w, cases "bw_bridge w")
          (simp add: apply_hooks_wanted upd_bridge_def w3_def recording_bridge_def bridge_ok_def wanted_hooks_def)
      then show ?thesis using failed(1) by blast
    next
      case (armed t' j)
      then have t': "t' = zero_thread_timer" by (simp add: put_timer_def)
      let ?t = "zero_thread_timer\<lparr>tt_signal_slot := int j, tt_signal_acquired := True, tt_timer_created := True, tt_active := True\<rparr>"
      have "tw_timers timers ?p = Some ?t" by (simp add: armed(9) t' registered_world_def put_timer_def)
      then have at: "bridge_timer w3 = Some ?t" using p(1) by (simp add: bridge_timer_def w3_def recording_bridge_def)
      have parts: "parts_ok w3" using ok world_ok_arm [OF okT arm] by (simp add: bridge_ok_def parts_ok_def w3_def)
      have "mode_ok ?b2" using b p(1) mode g by (simp add: mode_ok_def recording_bridge_def)
      then have "\<exists>w'. (if lb_profiler_work_depth (bw_bridge w3) = 0 then map_option (\<lambda>w'. (LP_OK, w')) (end_event_drain w3)
               else Some (LP_OK, w3)) = Some (LP_OK, w') \<and> bridge_ok w' \<and> bw_bridge w' = bw_bridge w3"
        using parts inactive at
        by (intro finish_start [of w3 0])
          (simp_all add: source_ok_def source_live_def source_draining_def w3_def timer_ready_def zero_thread_timer_def)
      then obtain w' where w': "start_collector env generation config w = Some (LP_OK, w')" "bridge_ok w'" "bw_bridge w' = ?b2"
        using run armed(1) by (auto simp: w3_def)
      have "bw_host w' = bw_host w"
        using w'(1) run armed(1) inactive
        by (auto simp: w3_def end_event_drain_def with_timer_def Let_def split: if_splits option.splits)
      then show ?thesis using w' by blast
    qed
  qed
qed

lemma start_in_scheduler:
  assumes ok: "bridge_ok w" and idle: "\<not> lb_cpu_active (bw_bridge w)" and mode: "lb_scheduler_api (bw_bridge w)"
    and g: "generation \<noteq> 0" and fresh: "start_possible env w" and cpu: "cfg_kind config = LP_COLLECTOR_CPU"
  shows "\<exists>status w'. start_collector env generation config w = Some (status, w') \<and> bridge_ok w' \<and> bw_timers w' = bw_timers w \<and>
    (status \<noteq> LP_OK \<and> bw_bridge w' = bw_bridge w \<and> bw_hooks w' = bw_hooks w \<and>
       (bw_host w' = bw_host w \<or>
        quiet ((bw_host w)\<lparr>sh_next_token := bump_token (sh_next_token (bw_host w))\<rparr>) (bw_host w')) \<or>
     status = LP_OK \<and>
       (\<exists>token. bw_bridge w' = recording_bridge LP_COLLECTOR_CPU generation ((bw_bridge w)\<lparr>lb_scheduler_token := token\<rparr>)))"
proof (cases "lb_scheduler_incompatible (bw_bridge w) \<or> api_current_handle (be_me env) (bw_host w) = 0")
  case True
  then have "acquire_ticks env generation (cfg_sample_hz config) w = Some (Inl (LP_ERR_HOST, w))"
    using mode by (auto simp: acquire_ticks_def Let_def)
  then show ?thesis using ok by (simp add: start_collector_def cpu)
next
  case False
  let ?b = "bw_bridge w" let ?h = "bw_host w" let ?handle = "api_current_handle (be_me env) ?h"
  have b: "lb_scheduler_token ?b = 0" "lb_cpu_timer ?b = NULL" "lb_cpu_generation ?b = 0" "mode_ok ?b"
    using ok idle mode by (auto simp: bridge_ok_def mode_ok_def)
  have host: "host_ok ?h" "tokens_ok ?h" and tw: "world_ok (bw_timers w)" using ok by (simp_all add: bridge_ok_def parts_ok_def)
  have small: "unat (sh_next_token ?h) < u64_max" using fresh by (simp add: start_possible_def)
  let ?start = "api_target_start (be_host env) (be_me env) ?handle (lb_main_state ?b) generation (cfg_sample_hz config) True ?h"
  obtain r h where start: "?start = Some (r, h)" "host_ok h" by (rule host_ok_start [OF host(1)])
  have tok: "tokens_ok h" by (rule token_step_keeps(1) [OF token_step_start [OF host(1) start(1)] host(2) small])
  show ?thesis
  proof (cases r)
    case None
    have "h = ?h \<or> quiet (?h\<lparr>sh_next_token := bump_token (sh_next_token ?h)\<rparr>) h"
      using host(1)
      by (cases rule: host_start_cases [where env = "be_host env" and me = "be_me env" and handle = ?handle
            and main_state = "lb_main_state ?b" and generation = generation and sample_hz = "cfg_sample_hz config" and has_token = True])
        (use start None in auto)
    moreover have "start_collector env generation config w = Some (LP_ERR_HOST, w\<lparr>bw_host := h\<rparr>)"
      using False mode start(1) None by (simp add: start_collector_def cpu acquire_ticks_def Let_def)
    moreover have "bridge_ok (w\<lparr>bw_host := h\<rparr>)" using ok idle start(2) tok by (simp add: bridge_ok_def parts_ok_def)
    ultimately show ?thesis by auto
  next
    case (Some token)
    obtain i where i: "i < LP_SKYNET_TARGET_CAPACITY" "token \<noteq> 0" "tg_token (sh_targets h ! i) = token"
      "tg_lifecycle (sh_targets h ! i) = LP_SKYNET_TARGET_ACTIVE" "tg_draining_events (sh_targets h ! i)"
      by (rule started_session [OF host small start(1) [unfolded Some]])
    let ?b2 = "recording_bridge LP_COLLECTOR_CPU generation (?b\<lparr>lb_scheduler_token := token\<rparr>)"
    have active: "scheduler_active ?b2" using i(2) mode by (simp add: scheduler_active_def recording_bridge_def)
    define w2 where "w2 = w\<lparr>bw_host := h, bw_bridge := ?b2, bw_hooks := wanted_hooks ?b2\<rparr>"
    have run: "start_collector env generation config w =
        (if lb_profiler_work_depth (bw_bridge w2) = 0 then map_option (\<lambda>w'. (LP_OK, w')) (end_event_drain w2)
         else Some (LP_OK, w2))"
      using False mode start(1) Some active
      by (simp add: start_collector_def cpu acquire_ticks_def Let_def apply_hooks_wanted upd_bridge_def recording_bridge_def w2_def)
    have "parts_ok w2" using tw start(2) tok by (simp add: parts_ok_def w2_def)
    moreover have "mode_ok ?b2" using b mode g i(2) by (simp add: mode_ok_def recording_bridge_def)
    ultimately obtain w' where w': "start_collector env generation config w = Some (LP_OK, w')" "bridge_ok w'" "bw_bridge w' = ?b2"
      using finish_start [of w2 i] run active i start(2) tok
      by (auto simp: source_ok_def source_live_def source_draining_def w2_def session_ok_def session_draining_def recording_bridge_def)
    have "bw_timers w' = bw_timers w"
      using w'(1) run active by (auto simp: w2_def end_event_drain_def split: if_splits)
    then show ?thesis using w' by blast
  qed
qed

lemma start_memory:
  assumes ok: "bridge_ok w" and g: "generation \<noteq> 0" and kind: "cfg_kind config \<noteq> LP_COLLECTOR_CPU"
  shows "\<exists>w'. start_collector env generation config w = Some (LP_OK, w') \<and> bridge_ok w' \<and>
    bw_bridge w' = recording_bridge (cfg_kind config) generation (bw_bridge w)"
proof -
  let ?b = "recording_bridge (cfg_kind config) generation (bw_bridge w)"
  let ?w = "w\<lparr>bw_bridge := ?b, bw_hooks := wanted_hooks ?b\<rparr>"
  have same: "parts_ok ?w = parts_ok w" "cpu_source i ?w = cpu_source i w" for i
    using kind
    by (simp_all add: parts_ok_def cpu_source_def source_ok_def source_live_def source_draining_def bridge_timer_def
        scheduler_active_def recording_bridge_def)
  have "start_collector env generation config w = Some (LP_OK, ?w)"
    using kind by (simp add: start_collector_def apply_hooks_wanted upd_bridge_def recording_bridge_def)
  moreover have "bridge_ok ?w"
    using ok kind g by (auto simp: bridge_ok_def same) (auto simp: mode_ok_def recording_bridge_def)
  ultimately show ?thesis by auto
qed

section \<open>Stopping\<close>

lemma stop_memory:
  assumes ok: "bridge_ok w" and g: "lb_memory_generation (bw_bridge w) = generation"
  shows "\<exists>w'. stop_collector env LP_COLLECTOR_MEMORY generation w = Some ([], w') \<and> bridge_ok w' \<and>
    bw_bridge w' = idle_bridge LP_COLLECTOR_MEMORY (bw_bridge w)"
proof -
  let ?b = "idle_bridge LP_COLLECTOR_MEMORY (bw_bridge w)"
  let ?w = "w\<lparr>bw_bridge := ?b, bw_hooks := wanted_hooks ?b\<rparr>"
  have kind: "LP_COLLECTOR_MEMORY \<noteq> LP_COLLECTOR_CPU" by simp
  have same: "parts_ok ?w = parts_ok w" "cpu_source i ?w = cpu_source i w" for i
    by (simp_all add: parts_ok_def cpu_source_def source_ok_def source_live_def source_draining_def bridge_timer_def
        scheduler_active_def idle_bridge_def kind)
  have "stop_collector env LP_COLLECTOR_MEMORY generation w = Some ([], ?w)"
    using g kind by (simp add: stop_collector_def apply_hooks_wanted upd_bridge_def idle_bridge_def)
  moreover have "bridge_ok ?w"
    using ok kind by (auto simp: bridge_ok_def same) (auto simp: mode_ok_def idle_bridge_def)
  ultimately show ?thesis by auto
qed

text \<open>A disarmed timer still has its queue.\<close>

lemma disarm_keeps_queue:
  assumes ok: "world_ok tw" and t: "tw_timers tw p = Some t"
  shows "\<exists>t'. tw_timers (lp_thread_timer_disarm env me p tw) p = Some t' \<and> only_counters t t' \<and> \<not> tt_active t'"
  using ok
proof (cases rule: disarm_cases [where env = env and me = me and p = p])
  case unchanged
  then have "\<not> tt_active t"
    using world_ok_timer [OF ok t] t by (auto simp: not_acquired_def timer_ok_def)
  moreover have "only_counters t t" by (simp add: only_counters_def)
  ultimately show ?thesis using unchanged t by auto
next
  case (disarmed u t')
  then show ?thesis using t by (auto simp: put_timer_def)
qed

lemma stop_in_thread:
  assumes ok: "bridge_ok w" and mode: "\<not> lb_scheduler_api (bw_bridge w)" and act: "lb_cpu_active (bw_bridge w)"
    and g: "lb_cpu_generation (bw_bridge w) = generation"
  shows "\<exists>calls w'. stop_collector env LP_COLLECTOR_CPU generation w = Some (calls, w') \<and> bridge_ok w' \<and>
    bw_bridge w' = idle_bridge LP_COLLECTOR_CPU (bw_bridge w) \<and> bw_host w' = bw_host w \<and>
    tw_timers (bw_timers w') (lb_cpu_timer (bw_bridge w)) = None \<and>
    filter is_sample calls = map (recorded env generation) (source_events i w)"
proof -
  let ?b = "bw_bridge w" let ?p = "lb_cpu_timer ?b"
  have inactive: "\<not> scheduler_active ?b" using mode by (simp add: scheduler_active_def)
  have parts: "parts_ok w" and mok: "mode_ok ?b" using ok by (simp_all add: bridge_ok_def)
  obtain t where t: "bridge_timer w = Some t" "timer_ready t"
    using ok act inactive by (auto simp: bridge_ok_def cpu_source_def source_ok_def)
  have p: "?p \<noteq> NULL" "tw_timers (bw_timers w) ?p = Some t" using t by (auto simp: bridge_timer_def split: if_splits)
  define tw where "tw = lp_thread_timer_disarm (be_disarm env) (be_me env) ?p (bw_timers w)"
  have tw: "world_ok tw" using world_ok_disarm parts by (simp add: tw_def parts_ok_def)
  obtain t' where t': "tw_timers tw ?p = Some t'" "only_counters t t'"
    using disarm_keeps_queue [OF _ p(2), of "be_disarm env" "be_me env"] parts by (auto simp: tw_def parts_ok_def)
  define w1 where "w1 = w\<lparr>bw_timers := tw\<rparr>"
  have b1: "bw_bridge w1 = ?b" "bw_hooks w1 = bw_hooks w" "bw_host w1 = bw_host w" by (simp_all add: w1_def)
  have at: "bridge_timer w1 = Some t'" using p(1) t'(1) by (simp add: bridge_timer_def w1_def)
  have w1: "parts_ok w1" "source_ok i w1" "source_events i w1 = source_events i w"
    using parts tw at t'(2) inactive t
    by (simp_all add: parts_ok_def source_ok_def source_events_def b1 timer_ready_def timer_queue_def only_counters_def) (simp add: w1_def)
  obtain w2 where w2: "drain_thread_timer env w1 = Some (map (recorded env generation) (source_events i w) @ quality_calls i w1, w2)"
    "source_step i w1 w2" using drain_timer_mode [OF w1(1,2), of env] inactive b1 g w1(3) by auto
  have host2: "bw_host w2 = bw_host w"
    using w2(1) b1 by (auto simp: drain_thread_timer_def record_thread_quality_def Let_def bind_eq_Some_conv
        split: if_splits option.splits prod.splits)
  have b2: "bw_bridge w2 = ?b" "parts_ok w2" using w2(2) b1 by (simp_all add: source_step_def)
  define timers where "timers = lp_thread_timer_delete (be_disarm env) (be_me env) ?p (bw_timers w2)"
  let ?b' = "idle_bridge LP_COLLECTOR_CPU ?b"
  let ?w' = "w2\<lparr>bw_bridge := ?b', bw_hooks := wanted_hooks ?b', bw_timers := timers\<rparr>"
  have token: "lb_scheduler_token ?b = 0" using mok mode by (simp add: mode_ok_def)
  have "stop_collector env LP_COLLECTOR_CPU generation w =
      Some (map (recorded env generation) (source_events i w) @ quality_calls i w1, ?w')"
    using inactive g w2(1) b2(1) token
    by (simp add: stop_collector_def stop_ticks_def tw_def [symmetric] w1_def [symmetric] apply_hooks_wanted upd_bridge_def
        idle_bridge_def wanted_hooks_def timers_def)
  moreover have "bridge_ok ?w'"
    using b2(2) world_ok_delete mok mode by (auto simp: bridge_ok_def parts_ok_def timers_def) (simp_all add: mode_ok_def idle_bridge_def)
  moreover have "tw_timers timers ?p = None"
    by (simp add: timers_def lp_thread_timer_delete_def Let_def split: option.split)
  ultimately show ?thesis using host2 samples_of_drain by fastforce
qed

lemma quiesced_session:
  assumes s: "session_ok k i h" and l: "tg_lifecycle (sh_targets h ! i) = LP_SKYNET_TARGET_ACTIVE"
  shows "\<exists>h'. api_target_quiesce env me k h = Some (True, h') \<and> session_ok k i h' \<and>
    tg_lifecycle (sh_targets h' ! i) = LP_SKYNET_TARGET_STOPPING \<and> sh_next_token h' = sh_next_token h \<and>
    session_queue i h' = session_queue i h \<and> session_draining i h' = session_draining i h"
proof -
  have ok: "host_ok h" "tokens_ok h" "i < LP_SKYNET_TARGET_CAPACITY" "k \<noteq> 0" "tg_token (sh_targets h ! i) = k"
    using s by (simp_all add: session_ok_def)
  have found: "find_target LP_SKYNET_TARGET_ACTIVE k h = Some i" by (rule find_target_unique [OF ok(1-3) l ok(5,4)])
  obtain h' where h': "api_target_quiesce env me k h = Some (True, h')" "quiet (stopping_host i h) h'" "host_ok h'"
    by (rule quiesce_cases [OF ok(1), of k env me]) (use found in auto)
  have "tokens h' = tokens h" "sh_next_token h' = sh_next_token h"
    using quiet_tokens [OF h'(2)] stopping_tokens [of i h] by simp_all
  moreover have len: "length (sh_targets (stopping_host i h)) = LP_SKYNET_TARGET_CAPACITY"
    using host_ok_length [OF ok(1)] by (simp add: stopping_host_def drop_active_parts upd_target_def)
  moreover have "sh_targets (stopping_host i h) ! i = (sh_targets h ! i)\<lparr>tg_lifecycle := LP_SKYNET_TARGET_STOPPING\<rparr>"
    using ok(3) host_ok_length [OF ok(1)] by (simp add: stopping_host_def drop_active_parts upd_target_def)
  ultimately have t: "tg_lifecycle (sh_targets h' ! i) = LP_SKYNET_TARGET_STOPPING" "tg_token (sh_targets h' ! i) = k" "tokens_ok h'"
    "sh_next_token h' = sh_next_token h"
    using quiet_sessions [OF h'(2), of i] ok by (simp_all add: keeps_session_def tokens_ok_def)
  then have s': "session_ok k i h'" using ok h'(3) by (simp add: session_ok_def)
  then show ?thesis using h'(1) t queues_at [OF queues_quiesce [OF h'(1)] s s'] by blast
qed

lemma released_target:
  assumes s: "session_ok k i h" and l: "tg_lifecycle (sh_targets h ! i) = LP_SKYNET_TARGET_STOPPING"
  shows "\<exists>h'. api_target_release k h = Some h' \<and> host_ok h' \<and> tokens_ok h' \<and> k \<notin> set (tokens h') \<and>
    sh_next_token h' = sh_next_token h"
proof -
  have ok: "host_ok h" "tokens_ok h" "i < LP_SKYNET_TARGET_CAPACITY" "k \<noteq> 0" "tg_token (sh_targets h ! i) = k"
    using s by (simp_all add: session_ok_def)
  let ?h = "upd_target i freed h"
  have rel: "api_target_release k h = Some ?h"
    using release_returns [OF ok(1), of k] find_target_unique [OF ok(1-3) l ok(5,4)] by simp
  have t: "tokens ?h = (tokens h)[i := 0]" "sh_next_token ?h = sh_next_token h"
    by (simp_all add: tokens_def upd_target_def map_update freed_def clear_target_def)
  have "l \<le> sh_next_token h" if "l \<in> set ((tokens h)[i := 0])" for l
    using ok(2) set_update_subset_insert [of "tokens h" i 0] that by (auto simp: tokens_ok_def)
  moreover have "a = b" if "a < length (tokens h)" "b < length (tokens h)" "(tokens h)[i := 0] ! a \<noteq> 0"
      "(tokens h)[i := 0] ! a = (tokens h)[i := 0] ! b" for a b
    using that ok(2) by (cases "a = i"; cases "b = i") (auto simp: tokens_ok_def)
  ultimately have tok: "tokens_ok ?h" by (simp add: tokens_ok_def t)
  have "k \<notin> set ((tokens h)[i := 0])"
  proof
    assume "k \<in> set ((tokens h)[i := 0])"
    then obtain j where j: "j < LP_SKYNET_TARGET_CAPACITY" "(tokens h)[i := 0] ! j = k"
      using length_tokens [OF ok(1)] by (auto simp: in_set_conv_nth)
    show False
    proof (cases "j = i")
      case True
      then show False using j ok(4) length_tokens [OF ok(1)] by simp
    next
      case False
      then have "tg_token (sh_targets h ! j) = k" using j host_ok_length [OF ok(1)] by (simp add: tokens_def)
      then show False using token_index [OF ok(1,2,3) j(1) ok(5) _ ok(4)] False by simp
    qed
  qed
  then show ?thesis using rel host_ok_freed [OF ok(1,3) l] tok t by simp
qed

lemma stop_in_scheduler:
  assumes ok: "bridge_ok w" and mode: "lb_scheduler_api (bw_bridge w)" and act: "lb_cpu_active (bw_bridge w)"
    and g: "lb_cpu_generation (bw_bridge w) = generation" and i: "source_ok i w"
    and room: "lb_profiler_work_depth (bw_bridge w) + 1 \<noteq> 0"
  shows "\<exists>calls w'. stop_collector env LP_COLLECTOR_CPU generation w = Some (calls, w') \<and> bridge_ok w' \<and>
    bw_bridge w' = idle_bridge LP_COLLECTOR_CPU (bw_bridge w) \<and> bw_timers w' = bw_timers w \<and>
    lb_scheduler_token (bw_bridge w) \<notin> set (tokens (bw_host w')) \<and>
    filter is_sample calls = map (recorded env generation) (source_events i w)"
proof -
  let ?b = "bw_bridge w" let ?k = "lb_scheduler_token ?b" let ?d = "lb_profiler_work_depth ?b"
  have mok: "mode_ok ?b" using ok by (simp add: bridge_ok_def)
  have active: "scheduler_active ?b" using mok mode act by (simp add: mode_ok_def scheduler_active_def)
  obtain w1 where w1: "lp_lua_bridge_begin_profiler_work True w = Some (True, w1)" "work_step (?d + 1) w w1"
    using begin_work [OF ok room] by blast
  then have b1: "bw_bridge w1 = ?b\<lparr>lb_profiler_work_depth := ?d + 1\<rparr>" "bridge_ok w1" "source_ok i w1"
    "source_events i w1 = source_events i w" using act i by (auto simp: work_step_def)
  have active1: "scheduler_active (bw_bridge w1)" "lb_scheduler_token (bw_bridge w1) = ?k" using active by (simp_all add: b1(1))
  have s1: "session_ok ?k i (bw_host w1)" using b1(3) active1 by (simp add: source_ok_def)
  have l1: "tg_lifecycle (sh_targets (bw_host w1) ! i) = LP_SKYNET_TARGET_ACTIVE" and drain1: "session_draining i (bw_host w1)"
    using cpu_source_any [OF b1(2) _ b1(3)] act active1 room b1(1) by (simp_all add: cpu_source_def source_live_def source_draining_def)
  have same1: "bw_timers w1 = bw_timers w" "sh_next_token (bw_host w1) = sh_next_token (bw_host w)"
  proof -
    have "w1 = at_depth (?d + 1) w \<or> w1 = (at_depth (?d + 1) w)\<lparr>bw_host := api_begin_event_drain ?k (bw_host w)\<rparr>"
      using w1(1) active by (auto simp: lp_lua_bridge_begin_profiler_work_def at_depth_def upd_bridge_def Let_def
          begin_event_drain_def scheduler_active_def split: if_splits)
    then show "bw_timers w1 = bw_timers w" "sh_next_token (bw_host w1) = sh_next_token (bw_host w)"
      using quiet_tokens [OF quiet_drains(1) [of "bw_host w" ?k]] by auto
  qed
  obtain h where h: "api_target_quiesce (be_host env) (be_me env) ?k (bw_host w1) = Some (True, h)" "session_ok ?k i h"
    "tg_lifecycle (sh_targets h ! i) = LP_SKYNET_TARGET_STOPPING" "sh_next_token h = sh_next_token (bw_host w1)"
    "session_queue i h = session_queue i (bw_host w1)" "session_draining i h = session_draining i (bw_host w1)"
    using quiesced_session [OF s1 l1, of "be_host env" "be_me env"] by blast
  define w2 where "w2 = w1\<lparr>bw_host := h\<rparr>"
  have b2: "bw_bridge w2 = bw_bridge w1" "bw_timers w2 = bw_timers w" "bw_host w2 = h" using same1 by (simp_all add: w2_def)
  have w2: "parts_ok w2" "source_ok i w2" "source_events i w2 = source_events i w"
    using b1(2,4) h(2,5) active1 same1
    by (simp_all add: b2 parts_ok_def bridge_ok_def source_ok_def source_events_def session_ok_def)
  obtain w3 where w3: "drain_cpu env w2 = Some (map (recorded env generation) (source_events i w) @ quality_calls i w2, w3)"
    "source_step i w2 w3" "source_draining i w3 = source_draining i w2"
    using drain_cpu_takes [OF w2(1,2), of env] w2(3) b2(1) b1(1) g by auto
  have active2: "scheduler_active (bw_bridge w2)" using active1 b2(1) by simp
  then have w3': "bw_bridge w3 = bw_bridge w1" "bw_timers w3 = bw_timers w" "sh_next_token (bw_host w3) = sh_next_token (bw_host w)"
    "tg_lifecycle (sh_targets (bw_host w3) ! i) = LP_SKYNET_TARGET_STOPPING" "parts_ok w3" "source_ok i w3"
    using w3(2) b2 h(3,4) same1 by (simp_all add: source_step_def)
  have "\<exists>w4. lp_lua_bridge_end_profiler_work True True w3 = Some w4 \<and> source_step i (at_depth ?d w3) w4"
  proof -
    have run: "lp_lua_bridge_end_profiler_work True True w3 =
        (if ?d = 0 then end_event_drain (at_depth ?d w3) else Some (at_depth ?d w3))"
      using room act w3'(1) b1(1) by (simp add: lp_lua_bridge_end_profiler_work_def at_depth_def upd_bridge_def Let_def)
    have "parts_ok (at_depth ?d w3)" "source_ok i (at_depth ?d w3)" using w3'(5,6) by simp_all
    from end_drain_source [OF this] this show ?thesis by (auto simp: run source_step_def)
  qed
  then obtain w4 where w4: "lp_lua_bridge_end_profiler_work True True w3 = Some w4" "source_step i (at_depth ?d w3) w4" by blast
  then have b4: "bw_bridge w4 = ?b" "bw_timers w4 = bw_timers w" "sh_next_token (bw_host w4) = sh_next_token (bw_host w)"
    "tg_lifecycle (sh_targets (bw_host w4) ! i) = LP_SKYNET_TARGET_STOPPING" "parts_ok w4" "source_ok i w4"
    using w3' b1(1) active by (simp_all add: source_step_def)
  have s4: "session_ok ?k i (bw_host w4)" using b4(1,6) active by (simp add: source_ok_def)
  obtain h5 where h5: "api_target_release ?k (bw_host w4) = Some h5" "host_ok h5" "tokens_ok h5" "?k \<notin> set (tokens h5)"
    using released_target [OF s4 b4(4)] by auto
  let ?b' = "idle_bridge LP_COLLECTOR_CPU ?b"
  let ?w' = "w4\<lparr>bw_bridge := ?b', bw_hooks := wanted_hooks ?b', bw_host := h5\<rparr>"
  have b: "?k \<noteq> 0" "lb_cpu_timer ?b = NULL" using active mok mode by (simp_all add: scheduler_active_def mode_ok_def)
  have ticks: "stop_ticks env w = Some (map (recorded env generation) (source_events i w) @ quality_calls i w2, w4)"
    using active w1(1) active1(2) h(1) w3(1) w4(1) by (simp add: stop_ticks_def w2_def [symmetric])
  have "?b' = ?b\<lparr>lb_cpu_active := False, lb_cpu_generation := 0, lb_scheduler_token := 0\<rparr>"
    using b(2) by (cases ?b) (simp add: idle_bridge_def)
  moreover have "wanted_hooks ?b' = wanted_hooks (?b\<lparr>lb_cpu_active := False, lb_cpu_generation := 0\<rparr>)"
    by (simp add: wanted_hooks_def idle_bridge_def)
  ultimately have "stop_collector env LP_COLLECTOR_CPU generation w =
      Some (map (recorded env generation) (source_events i w) @ quality_calls i w2, ?w')"
    using g ticks b(1) b4(1) h5(1)
    by (cases w4) (simp add: stop_collector_def apply_hooks_wanted upd_bridge_def Let_def)
  moreover have "bridge_ok ?w'"
    using b4(2,5) h5(2,3) mok mode by (auto simp: bridge_ok_def parts_ok_def) (simp_all add: mode_ok_def idle_bridge_def)
  ultimately show ?thesis using h5(4) b4(2) samples_of_drain by fastforce
qed

section \<open>Both modes together\<close>

text \<open>\<open>same_source b b'\<close>: the bridges differ at most in the handle of their source.\<close>

definition same_source :: "lp_lua_bridge \<Rightarrow> lp_lua_bridge \<Rightarrow> bool" where
  "same_source b b' \<longleftrightarrow> sourceless b' = sourceless b"

lemma start_result:
  assumes ok: "bridge_ok w" and g: "generation \<noteq> 0" and possible: "start_possible env w"
    and idle: "cfg_kind config = LP_COLLECTOR_CPU \<Longrightarrow> \<not> lb_cpu_active (bw_bridge w)"
  shows "\<exists>status w'. start_collector env generation config w = Some (status, w') \<and> bridge_ok w' \<and>
    (if status = LP_OK then same_source (recording_bridge (cfg_kind config) generation (bw_bridge w)) (bw_bridge w')
     else bw_bridge w' = bw_bridge w)"
proof (cases "cfg_kind config = LP_COLLECTOR_CPU")
  case False
  then obtain w' where "start_collector env generation config w = Some (LP_OK, w')" "bridge_ok w'"
    "bw_bridge w' = recording_bridge (cfg_kind config) generation (bw_bridge w)"
    using start_memory [OF ok g, of config env] by blast
  then show ?thesis by (intro exI [of _ LP_OK] exI [of _ w']) (simp add: same_source_def)
next
  case cpu: True
  note idle = idle [OF cpu]
  have same: "same_source (recording_bridge LP_COLLECTOR_CPU generation (bw_bridge w))
      (recording_bridge LP_COLLECTOR_CPU generation ((bw_bridge w)\<lparr>lb_cpu_timer := p\<rparr>))"
    "same_source (recording_bridge LP_COLLECTOR_CPU generation (bw_bridge w))
      (recording_bridge LP_COLLECTOR_CPU generation ((bw_bridge w)\<lparr>lb_scheduler_token := k\<rparr>))" for p k
    by (simp_all add: same_source_def sourceless_def recording_bridge_def)
  show ?thesis
  proof (cases "lb_scheduler_api (bw_bridge w)")
    case True
    then show ?thesis using start_in_scheduler [OF ok idle True g possible cpu] same(2) cpu by auto
  next
    case False
    then show ?thesis using start_in_thread [OF ok idle False g possible cpu] same(1) cpu ok by auto
  qed
qed

lemma stop_result:
  assumes ok: "bridge_ok w" and room: "lb_profiler_work_depth (bw_bridge w) + 1 \<noteq> 0" and k: "valid_kind kind"
    and act: "if kind = LP_COLLECTOR_CPU then lb_cpu_active (bw_bridge w) \<and> lb_cpu_generation (bw_bridge w) = generation
      else lb_memory_generation (bw_bridge w) = generation"
  shows "\<exists>calls w'. stop_collector env kind generation w = Some (calls, w') \<and> bridge_ok w' \<and>
    bw_bridge w' = idle_bridge kind (bw_bridge w) \<and>
    (\<forall>i. source_ok i w \<longrightarrow> filter is_sample calls =
      (if kind = LP_COLLECTOR_CPU then map (recorded env generation) (source_events i w) else []))"
proof (cases "kind = LP_COLLECTOR_CPU")
  case False
  then have "kind = LP_COLLECTOR_MEMORY" using k by (simp add: valid_kind_iff)
  then obtain w' where "stop_collector env kind generation w = Some ([], w')" "bridge_ok w'" "bw_bridge w' = idle_bridge kind (bw_bridge w)"
    using stop_memory [OF ok, of generation env] act by auto
  then show ?thesis using False by (intro exI [of _ "[]"] exI [of _ w']) simp
next
  case True
  then have act: "lb_cpu_active (bw_bridge w)" "lb_cpu_generation (bw_bridge w) = generation" using act by simp_all
  then obtain i where i: "source_ok i w" using ok by (auto simp: bridge_ok_def cpu_source_def)
  have "\<exists>calls w'. stop_collector env kind generation w = Some (calls, w') \<and> bridge_ok w' \<and>
      bw_bridge w' = idle_bridge kind (bw_bridge w) \<and> filter is_sample calls = map (recorded env generation) (source_events i w)"
  proof (cases "lb_scheduler_api (bw_bridge w)")
    case api: True
    show ?thesis using stop_in_scheduler [OF ok api act i room, of env] True by auto
  next
    case api: False
    show ?thesis using stop_in_thread [OF ok api act, of env i] True by auto
  qed
  moreover have "source_events j w = source_events i w" if "source_ok j w" for j
    using source_unique [OF that i] by (cases "scheduler_active (bw_bridge w)") (auto simp: source_events_def)
  ultimately show ?thesis using True by auto
qed

end
