(* ===== verification/Host_Neighbours.thy ===== *)
theory Host_Neighbours
  imports Bridge_Sources
begin

text \<open>
  The sessions of other services: no operation of the scheduler, of a worker or of another bridge
  changes the state of a session, its token, or the flag its own bridge sets while it drains.
\<close>

definition keeps_target :: "nat \<Rightarrow> skynet_host \<Rightarrow> skynet_host \<Rightarrow> bool" where
  "keeps_target i h h' \<longleftrightarrow>
     tg_lifecycle (sh_targets h' ! i) = tg_lifecycle (sh_targets h ! i) \<and> tg_token (sh_targets h' ! i) = tg_token (sh_targets h ! i) \<and>
     tg_draining_events (sh_targets h' ! i) = tg_draining_events (sh_targets h ! i)"

lemma keeps_same_targets: "sh_targets h' = sh_targets h \<Longrightarrow> keeps_target i h h'"
  by (simp add: keeps_target_def)

lemma keeps_failure: "keeps_target i h (host_failure h)"
  by (simp add: keeps_target_def host_failure_def)

lemma keeps_other_target: "j \<noteq> i \<Longrightarrow> keeps_target i h (upd_target j f h)"
  by (simp add: keeps_target_def upd_target_def)

lemma keeps_quiet_queues:
  assumes "quiet h h'" and "queues h' = queues h" and "i < length (sh_targets h)"
  shows "keeps_target i h h'"
proof -
  have len: "length (sh_targets h') = length (sh_targets h)" using assms(1) by (auto simp: quiet_def dest: list_all2_lengthD)
  have "queues h' ! i = queues h ! i" using assms(2) by simp
  then have "tg_draining_events (sh_targets h' ! i) = tg_draining_events (sh_targets h ! i)"
    using assms(3) len by (simp add: queues_def)
  then show ?thesis using quiet_sessions [OF assms(1,3)] by (simp add: keeps_target_def keeps_session_def)
qed

text \<open>The calls with a token that pin the target it names.\<close>

lemma keeps_pinned:
  assumes "pin_token token allow_stopping h = Some (j, h1)" and "token \<noteq> tg_token (sh_targets h ! i)"
    and "h' = upd_target j target_unpin (upd_target j f h1)"
  shows "keeps_target i h h'"
proof -
  have "j \<noteq> i" using pin_token_Some(3) [OF assms(1)] assms(2) by auto
  then show ?thesis using pin_token_Some(2) [OF assms(1)] by (simp add: assms(3) upd_target_upd keeps_other_target)
qed

lemma keeps_unpinned:
  assumes "pin_token token allow_stopping h = Some (j, h1)" shows "upd_target j target_unpin h1 = h"
  using pin_token_Some(2) [OF assms] by (simp add: upd_target_upd)

lemma keeps_with_token: "token \<noteq> tg_token (sh_targets h ! i) \<Longrightarrow> keeps_target i h (with_token token f h)"
  using keeps_pinned [of token True h] by (auto simp: with_token_def keeps_same_targets split: option.split)

lemma keeps_next_event:
  assumes "token \<noteq> tg_token (sh_targets h ! i)" and "api_next_event token has_event h = Some (e, h')"
  shows "keeps_target i h h'"
proof (cases "pin_token token True h")
  case None
  then show ?thesis using assms(2) by (simp add: api_next_event_def keeps_same_targets)
next
  case (Some p)
  obtain j h1 where p: "p = (j, h1)" by (cases p)
  show ?thesis
    using keeps_pinned [OF Some [unfolded p] assms(1) refl] keeps_unpinned [OF Some [unfolded p]] assms(2) Some p
    by (auto simp: api_next_event_def keeps_same_targets split: if_splits)
qed

lemma keeps_take_quality:
  assumes "token \<noteq> tg_token (sh_targets h ! i)" shows "keeps_target i h (snd (api_take_quality token h))"
  using keeps_pinned [of token True h _ _ i, OF _ assms refl]
  by (auto simp: api_take_quality_def case_prod_beta keeps_same_targets split: option.split)

text \<open>Dispatching, and the start and the end of a worker.\<close>

lemma queues_dispatch_enter:
  assumes ok: "host_ok h" shows "queues (lp_skynet_host_dispatch_enter env me handle h) = queues h"
proof -
  let ?h0 = "h\<lparr>sh_current_handle := (sh_current_handle h)(me := handle)\<rparr>" let ?p = "sh_current_worker h me"
  let ?h1 = "snd (sync_worker_timer env ?p (clear_slot env me ?h0))"
  have q: "queues ?h1 = queues h" by (simp add: queues_def [of ?h0]) (simp add: queues_def)
  have "quiet h ?h1" by (rule quiet_trans [OF quiet_handle quiet_trans [OF quiet_clear_slot quiet_sync_worker_timer]])
  then have ok1: "host_ok ?h1" by (rule quiet_host_ok [OF _ ok])
  show ?thesis
  proof (cases "pin_active_handle handle ?h1")
    case None
    then show ?thesis using q by (simp add: lp_skynet_host_dispatch_enter_def Let_def queues_def)
  next
    case (Some x)
    obtain i h2 where x: "x = (i, h2)" by (cases x)
    note pin = pin_active_handle_Some [OF Some [unfolded x]]
    have "i < length (sh_targets ?h1)" using pin(1) host_ok_length [OF ok1] by simp
    then show ?thesis
      using Some q x publish_slot_pinned [of i ?h1] unfolding lp_skynet_host_dispatch_enter_def
      by (simp add: Let_def pin(2))
  qed
qed

lemma queues_dispatch_leave: "queues (lp_skynet_host_dispatch_leave env me h) = queues h"
proof -
  have "queues (h\<lparr>sh_current_handle := f\<rparr>) = queues h" for h f by (simp add: queues_def)
  then show ?thesis by (simp add: lp_skynet_host_dispatch_leave_def Let_def)
qed

lemma worker_stop_targets: "sh_targets (lp_skynet_host_worker_stop me h) = sh_targets h"
  by (simp add: lp_skynet_host_worker_stop_def publish_slot_def release_signal_def free_worker_def upd_worker_def Let_def)

text \<open>A start takes a target that is free.\<close>

lemma start_keeps_flags:
  assumes ok: "host_ok h" and i: "i < LP_SKYNET_TARGET_CAPACITY" "tg_lifecycle (sh_targets h ! i) \<noteq> LP_SKYNET_TARGET_FREE"
    and start: "api_target_start env me handle main_state generation sample_hz has_token h = Some (r, h')"
  shows "tg_draining_events (sh_targets h' ! i) = tg_draining_events (sh_targets h ! i)"
proof (cases "h' = h")
  case False
  let ?p = "sh_current_worker h me" let ?token = "bump_token (sh_next_token h)"
  obtain j where j: "select_target handle h = Some j"
    using start False by (auto simp: api_target_start_def Let_def split: if_splits option.splits)
  note sel = select_target_Some [OF j ok]
  have ij: "i \<noteq> j" using sel(2) i(2) by auto
  let ?a = "active_host j handle ?token generation sample_hz main_state h"
  obtain synced h2 where sync: "sync_worker_timer env ?p (clear_slot env me ?a) = (synced, h2)"
    by (cases "sync_worker_timer env ?p (clear_slot env me ?a)")
  have "(if \<not> synced then map_option (\<lambda>h3. (None, h3)) (rollback_target_start j ?token h2)
        else Some (Some ?token, publish_slot ?p (Some j) ?token main_state 0 NULL h2)) = Some (r, h')"
    using start False j sync activate_target_plain [OF sel(2), of handle ?token generation sample_hz main_state]
    by (simp add: api_target_start_def Let_def split: if_splits)
  moreover have "tg_draining_events (sh_targets h3 ! i) = tg_draining_events (sh_targets h2 ! i)"
    if "rollback_target_start j ?token h2 = Some h3" for h3
    using that ij by (auto simp: rollback_target_start_def Let_def upd_target_def drop_active_parts split: if_splits option.splits)
  moreover have "tg_draining_events (sh_targets (publish_slot ?p (Some j) ?token main_state 0 NULL h2) ! i) =
      tg_draining_events (sh_targets h2 ! i)"
    using ij by (simp add: publish_slot_def Let_def upd_target_def upd_worker_def)
  ultimately have "tg_draining_events (sh_targets h' ! i) = tg_draining_events (sh_targets h2 ! i)"
    by (auto split: if_splits)
  moreover have "queues h2 = queues ?a" using queues_sync [of env ?p "clear_slot env me ?a"] by (simp add: sync)
  then have "queues h2 ! i = queues ?a ! i" and "length (sh_targets h2) = length (sh_targets ?a)"
    by (simp, metis queues_def length_map)
  then have "tg_draining_events (sh_targets h2 ! i) = tg_draining_events (sh_targets ?a ! i)"
    using i(1) host_ok_length [OF ok] by (simp add: queues_def active_host_def upd_target_def)
  ultimately show ?thesis using ij by (simp add: active_host_def upd_target_def)
qed simp

lemma start_keeps_target:
  assumes ok: "host_ok h" and i: "i < LP_SKYNET_TARGET_CAPACITY" "tg_lifecycle (sh_targets h ! i) \<noteq> LP_SKYNET_TARGET_FREE"
    and start: "api_target_start env me handle main_state generation sample_hz has_token h = Some (r, h')"
  shows "keeps_target i h h'"
proof -
  have len: "i < length (sh_targets h)" using i(1) host_ok_length [OF ok] by simp
  have "keeps_session (sh_targets h ! i) (sh_targets h' ! i)"
    using ok
  proof (cases rule: host_start_cases [where env = env and me = me and handle = handle and main_state = main_state
        and generation = generation and sample_hz = sample_hz and has_token = has_token])
    case (failed h1)
    then show ?thesis using start quiet_sessions [OF failed(2), of i] len by simp
  next
    case (started j h2 h1)
    note sel = select_target_Some [OF started(8) ok]
    have "i \<noteq> j" using sel(2) i(2) by auto
    then show ?thesis
      using quiet_sessions [OF started_quiet [OF ok started(8,9)], of i] started(10,11) start len
      by (simp add: active_host_def upd_target_def)
  qed (use start in simp)
  then show ?thesis using start_keeps_flags [OF assms] by (simp add: keeps_target_def keeps_session_def)
qed

section \<open>Operations of others\<close>

text \<open>An operation that is not one of the bridge that holds token \<open>k\<close>.\<close>

definition foreign_op :: "u64 \<Rightarrow> host_op \<Rightarrow> bool" where
  "foreign_op k op =
     (case op of
        TargetQuiesce env me token \<Rightarrow> token \<noteq> k
      | TargetRelease token \<Rightarrow> token \<noteq> k
      | PublishState me token state vm_state cfunction \<Rightarrow> token \<noteq> k
      | BeginEventDrain token \<Rightarrow> token \<noteq> k
      | EndEventDrain token \<Rightarrow> token \<noteq> k
      | NextEvent token has_event \<Rightarrow> token \<noteq> k
      | TakeHostQuality token \<Rightarrow> token \<noteq> k
      | _ \<Rightarrow> True)"

lemma foreign_op_keeps_target:
  assumes s: "session_ok k i h" and op: "host_op_step op h = Some h'" and foreign: "foreign_op k op"
  shows "keeps_target i h h'"
proof -
  have ok: "host_ok h" "i < LP_SKYNET_TARGET_CAPACITY" "tg_token (sh_targets h ! i) = k" "k \<noteq> 0"
    and len: "i < length (sh_targets h)"
    using s host_ok_length [of h] by (auto simp: session_ok_def)
  have live: "tg_lifecycle (sh_targets h ! i) \<noteq> LP_SKYNET_TARGET_FREE"
    using host_ok_target [OF ok(1,2)] ok(3,4) by (auto simp: target_ok_def)
  note quiet_case = keeps_quiet_queues [OF _ _ len]
  show ?thesis
  proof (cases op)
    case (WorkerStart env me id p)
    show ?thesis
    proof (cases "p = NULL \<or> sh_heap h p \<noteq> None")
      case True
      then show ?thesis using op WorkerStart by (simp add: host_op_step_def keeps_same_targets)
    next
      case False
      then have "sh_heap h p = None" by simp
      with ok(1) show ?thesis
      proof (cases rule: worker_start_cases [where env = env and me = me and worker_id = id])
        case (started j)
        let ?h = "(registered_host h p j (started_worker id j))\<lparr>sh_current_worker := (sh_current_worker h)(me := p)\<rparr>"
        have h': "h' = snd (sync_worker_timer env p ?h)" using op WorkerStart False started by (simp add: host_op_step_def)
        have same: "sh_targets ?h = sh_targets h" by (simp add: registered_host_def)
        have "keeps_target i ?h h'"
          unfolding h' by (rule keeps_quiet_queues [OF quiet_sync_worker_timer queues_sync]) (use len same in simp)
        then show ?thesis by (simp add: keeps_target_def same)
      next
        case failed
        then have "h' = host_failure h" using op WorkerStart False by (simp add: host_op_step_def)
        then show ?thesis by (simp add: keeps_failure)
      qed (use op WorkerStart False in \<open>simp add: host_op_step_def keeps_same_targets\<close>)
    qed
  next
    case (WorkerStop me)
    then show ?thesis using op by (auto simp: host_op_step_def worker_stop_targets intro: keeps_same_targets)
  next
    case (DispatchEnter env me handle)
    then show ?thesis
      using op quiet_case [OF quiet_dispatch_enter [OF ok(1)] queues_dispatch_enter [OF ok(1)]] by (auto simp: host_op_step_def)
  next
    case (DispatchLeave env me)
    then show ?thesis using op quiet_case [OF quiet_dispatch_leave queues_dispatch_leave] by (auto simp: host_op_step_def)
  next
    case (TargetStart env me handle main_state generation sample_hz has_token)
    then show ?thesis using op start_keeps_target [OF ok(1,2) live] by (auto simp: host_op_step_def)
  next
    case (TargetQuiesce env me token)
    then obtain r where r: "api_target_quiesce env me token h = Some (r, h')" using op by (auto simp: host_op_step_def)
    show ?thesis
    proof (rule quiesce_cases [OF ok(1), of token env me], goal_cases missing quiesced)
      case missing
      then show ?case using r by (simp add: keeps_same_targets)
    next
      case (quiesced j h1)
      then have "j \<noteq> i" "h1 = h'" using foreign TargetQuiesce ok(3) r by (auto simp: foreign_op_def)
      then have "keeps_target i h (stopping_host j h)"
        by (simp add: stopping_host_def keeps_target_def drop_active_parts upd_target_def)
      moreover have "keeps_session (sh_targets (stopping_host j h) ! i) (sh_targets h' ! i)"
        using quiet_sessions [OF quiesced(6), of i] len \<open>h1 = h'\<close> by (simp add: stopping_host_def drop_active_parts upd_target_def)
      moreover have "queues h' ! i = queues h ! i" using queues_quiesce [OF r] by simp
      then have "tg_draining_events (sh_targets h' ! i) = tg_draining_events (sh_targets h ! i)"
        using len host_ok_length [OF quiesced(7)] \<open>h1 = h'\<close> ok(2) by (simp add: queues_def)
      ultimately show ?case by (simp add: keeps_target_def keeps_session_def)
    qed
  next
    case (TargetRelease token)
    then have release: "api_target_release token h = Some h'" using op by (simp add: host_op_step_def)
    show ?thesis
    proof (cases "find_target LP_SKYNET_TARGET_STOPPING token h")
      case None
      then show ?thesis using release release_returns [OF ok(1), of token] by (simp add: keeps_same_targets)
    next
      case (Some j)
      have "j \<noteq> i" using find_target_Some(3) [OF Some ok(1)] ok(3) foreign TargetRelease by (auto simp: foreign_op_def)
      then show ?thesis
        using release release_returns [OF ok(1), of token] Some keeps_other_target [of j i h freed] by simp
    qed
  next
    case (PublishState me token state vm_state cfunction)
    then show ?thesis
      using op quiet_case [OF quiet_publish_state [OF ok(1)] queues_publish_state [OF ok(1)]] by (auto simp: host_op_step_def)
  next
    case (WorkerSignal info)
    then obtain request where r: "skynet_signal_handler info h = Some (h', request)" using op by (auto simp: host_op_step_def)
    then have "quiet h h'" by (auto intro: handler_returns [OF ok(1), of info])
    from quiet_sessions [OF this len] show ?thesis
      using handler_on_target [OF s r] by (simp add: keeps_target_def keeps_session_def session_draining_def)
  qed (use op foreign ok(3) keeps_with_token keeps_next_event keeps_take_quality in
      \<open>auto simp: host_op_step_def foreign_op_def api_begin_event_drain_def api_end_event_drain_def\<close>)
qed

lemma foreign_op_session:
  assumes s: "session_ok k i h" and small: "unat (sh_next_token h) < u64_max" and foreign: "foreign_op k op"
  shows "\<exists>h'. host_op_step op h = Some h' \<and> session_ok k i h' \<and> keeps_target i h h'"
proof -
  have ok: "host_ok h" "tokens_ok h" using s by (simp_all add: session_ok_def)
  obtain h' where h': "host_op_step op h = Some h'" "host_ok h'" using host_ok_op [OF ok(1), of op] by blast
  note keeps = foreign_op_keeps_target [OF s h'(1) foreign]
  have "tokens_ok h'" by (rule token_step_keeps(1) [OF token_step_op [OF ok(1) h'(1)] ok(2) small])
  then show ?thesis using s h' keeps by (auto simp: session_ok_def keeps_target_def)
qed

end
