(* ===== verification/Profiled_Vm.thy ===== *)
theory Profiled_Vm
  imports Bridge_Collectors Host_Neighbours Recorded_Export
begin

text \<open>
  A VM with its recorder: the runtime, the bridge as its host, and the timers or the skynet host
  below. Starts, stops, hooks, the profiler's own work, signals, and what the scheduler and other
  services do in between are the operations of one step function; the invariant ties the slots of
  the runtime to the fields of the bridge.
\<close>

section \<open>The steps\<close>

record profiled_vm =
  vm_runtime :: lp_runtime
  vm_seed :: u64
  vm_world :: bridge_world

text \<open>
  The host of the runtime is given anew for each start and stop, as what the bridge does in its
  present state; in between the stored one is not used.
\<close>

definition no_host :: lp_host_ops where
  "no_host = \<lparr>ho_start_collector = None, ho_stop_collector = None\<rparr>"

definition bridge_host :: "bridge_env \<Rightarrow> bridge_world \<Rightarrow> lp_host_ops" where
  "bridge_host env w =
     \<lparr>ho_start_collector = Some (\<lambda>L generation config. ([],
        case start_collector env generation config w of None \<Rightarrow> LP_ERR_HOST | Some (status, w') \<Rightarrow> status)),
      ho_stop_collector = Some (\<lambda>L kind generation.
        case stop_collector env kind generation w of None \<Rightarrow> [] | Some (calls, w') \<Rightarrow> calls)\<rparr>"

text \<open>Whether a start gets as far as the host: it is not refused, and the profile is there.\<close>

definition new_slot :: "'d doubles \<Rightarrow> start_env \<Rightarrow> lp_runtime \<Rightarrow> u64 \<Rightarrow> lp_collector_config \<Rightarrow> lp_collector_slot option" where
  "new_slot d senv rt seed config =
     (let next = bump_generation (rt_next_generation rt)
      in new_profiles d senv config (seed XOR (se_address senv XOR next))
           ((collector rt (cfg_kind config))\<lparr>cs_active := True, cs_generation := next, cs_config := config\<rparr>))"

definition reaches_host :: "'d doubles \<Rightarrow> start_env \<Rightarrow> lp_runtime \<Rightarrow> u64 \<Rightarrow> lp_collector_config \<Rightarrow> bool" where
  "reaches_host d senv rt seed config \<longleftrightarrow> start_refused rt config = None \<and> new_slot d senv rt seed config \<noteq> None"

definition with_host :: "lp_host_ops \<Rightarrow> lp_runtime \<Rightarrow> lp_runtime" where
  "with_host ops rt = rt\<lparr>rt_host_ops := ops\<rparr>"

definition vm_start ::
  "'d doubles \<Rightarrow> start_env \<Rightarrow> bridge_env \<Rightarrow> pointer \<Rightarrow> lp_collector_config \<Rightarrow> profiled_vm \<Rightarrow>
   ((lp_status \<times> u64 option) \<times> profiled_vm) option" where
  "vm_start d senv env L config vm = do {
     let rt = vm_runtime vm;
     (rt1, seed1, status, gen) \<leftarrow> lp_runtime_start d senv (with_host (bridge_host env (vm_world vm)) rt) (vm_seed vm) L config;
     w1 \<leftarrow> (if reaches_host d senv rt (vm_seed vm) config
           then map_option snd (start_collector env (bump_generation (rt_next_generation rt)) config (vm_world vm))
           else Some (vm_world vm));
     Some ((status, gen), \<lparr>vm_runtime = with_host no_host rt1, vm_seed = seed1, vm_world = w1\<rparr>)
   }"

definition vm_stop ::
  "'d doubles \<Rightarrow> bridge_env \<Rightarrow> pointer \<Rightarrow> lp_collector_kind \<Rightarrow> u64 \<Rightarrow> profiled_vm \<Rightarrow>
   ((lp_status \<times> lp_result option) \<times> profiled_vm) option" where
  "vm_stop d env L kind generation vm = do {
     let rt = vm_runtime vm;
     (rt1, status, res) \<leftarrow> lp_runtime_stop d (with_host (bridge_host env (vm_world vm)) rt) L kind generation;
     w1 \<leftarrow> (if stop_refused rt kind generation = None
           then map_option snd (stop_collector env kind generation (vm_world vm)) else Some (vm_world vm));
     Some ((status, res), vm\<lparr>vm_runtime := with_host no_host rt1, vm_world := w1\<rparr>)
   }"

text \<open>A hook makes its calls to the runtime.\<close>

definition vm_hook ::
  "'d doubles \<Rightarrow> (lp_runtime \<Rightarrow> bridge_world \<Rightarrow> (runtime_call list \<times> bridge_world) option) \<Rightarrow> profiled_vm \<Rightarrow> profiled_vm option" where
  "vm_hook d hook vm = do {
     (calls, w) \<leftarrow> hook (vm_runtime vm) (vm_world vm);
     rt \<leftarrow> runtime_calls d calls (vm_runtime vm);
     Some (vm\<lparr>vm_runtime := rt, vm_world := w\<rparr>)
   }"

definition hook_set :: "(lua_ProfileHooks \<Rightarrow> bool) \<Rightarrow> profiled_vm \<Rightarrow> bool" where
  "hook_set field vm = (case bw_hooks (vm_world vm) of None \<Rightarrow> False | Some hooks \<Rightarrow> field hooks)"

datatype vm_op =
    Vm_Start start_env bridge_env pointer lp_collector_config
  | Vm_Stop bridge_env pointer lp_collector_kind u64
  | Enter_Work
  | Leave_Work
  | Safe_Point_Hook bridge_env u32
  | State_Hook bridge_env pointer c_int pointer
  | Allocation_Hook bridge_env pointer lua_ProfileAllocEvent
  | Tick "siginfo option"
  | Others host_op

text \<open>
  What cannot happen does nothing: a hook that is not set is not called, \<open>2 ^ 32\<close> calls of the
  profiler do not nest, the allocator does not return an address in use, and neither the tokens
  nor the time of the process suffice for \<open>2 ^ 64\<close> sessions.
\<close>

definition possible :: "vm_op \<Rightarrow> profiled_vm \<Rightarrow> bool" where
  "possible op vm =
     (let w = vm_world vm; b = bw_bridge w; room = (lb_profiler_work_depth b + 1 \<noteq> 0)
      in case op of
           Vm_Start senv env L config \<Rightarrow> start_possible env w
         | Vm_Stop env L kind generation \<Rightarrow> room
         | Enter_Work \<Rightarrow> room
         | Leave_Work \<Rightarrow> lb_profiler_work_depth b \<noteq> 0
         | Safe_Point_Hook env pending \<Rightarrow> room \<and> hook_set hk_safe_point vm
         | State_Hook env L state cfunction \<Rightarrow> room \<and> hook_set hk_state_change vm
         | Allocation_Hook env L event \<Rightarrow> room \<and> hook_set hk_allocation vm
         | Tick info \<Rightarrow> True
         | Others op \<Rightarrow> foreign_op (lb_scheduler_token b) op \<and> unat (sh_next_token (bw_host w)) < u64_max)"

text \<open>The result of a stop, if there is one.\<close>

definition vm_step :: "'d doubles \<Rightarrow> vm_op \<Rightarrow> profiled_vm \<Rightarrow> (lp_result list \<times> profiled_vm) option" where
  "vm_step d op vm =
     (if \<not> possible op vm then Some ([], vm)
      else case op of
        Vm_Start senv env L config \<Rightarrow> map_option (\<lambda>(r, vm'). ([], vm')) (vm_start d senv env L config vm)
      | Vm_Stop env L kind generation \<Rightarrow>
          map_option (\<lambda>((status, res), vm'). (case res of None \<Rightarrow> [] | Some r \<Rightarrow> [r], vm')) (vm_stop d env L kind generation vm)
      | Enter_Work \<Rightarrow>
          map_option (\<lambda>(entered, w). ([], vm\<lparr>vm_world := w\<rparr>)) (lp_lua_bridge_begin_profiler_work True (vm_world vm))
      | Leave_Work \<Rightarrow>
          map_option (\<lambda>w. ([], vm\<lparr>vm_world := w\<rparr>)) (lp_lua_bridge_end_profiler_work True True (vm_world vm))
      | Safe_Point_Hook env pending \<Rightarrow> map_option (Pair []) (vm_hook d (\<lambda>rt. safe_point env pending) vm)
      | State_Hook env L state cfunction \<Rightarrow> map_option (Pair []) (vm_hook d (\<lambda>rt. state_change env L state cfunction) vm)
      | Allocation_Hook env L event \<Rightarrow> map_option (Pair []) (vm_hook d (\<lambda>rt. allocation d env rt L event) vm)
      | Tick info \<Rightarrow> map_option (\<lambda>w. ([], vm\<lparr>vm_world := w\<rparr>)) (bridge_tick info (vm_world vm))
      | Others op \<Rightarrow>
          map_option (\<lambda>h. ([], vm\<lparr>vm_world := (vm_world vm)\<lparr>bw_host := h\<rparr>\<rparr>)) (host_op_step op (bw_host (vm_world vm))))"

primrec vm_history :: "'d doubles \<Rightarrow> vm_op list \<Rightarrow> profiled_vm \<Rightarrow> (lp_result list \<times> profiled_vm) option" where
  "vm_history d [] vm = Some ([], vm)"
| "vm_history d (op # ops) vm = do {
     (rs, vm1) \<leftarrow> vm_step d op vm;
     (rs', vm2) \<leftarrow> vm_history d ops vm1;
     Some (rs @ rs', vm2)
   }"

text \<open>\<open>runtime_holder\<close> of the Lua module: the bridge, the runtime, and the two bound to each other.\<close>

definition new_vm :: "skynet_host \<Rightarrow> timer_world \<Rightarrow> bool \<times> lp_skynet_backend_status \<Rightarrow> pointer \<Rightarrow> pointer \<Rightarrow> u64 \<Rightarrow> profiled_vm option" where
  "new_vm h timers backend main_state address seed =
     map_option (\<lambda>rt. \<lparr>vm_runtime = rt, vm_seed = seed,
         vm_world = \<lparr>bw_bridge = lp_lua_bridge_bind address (lp_lua_bridge_init backend main_state),
           bw_timers = timers, bw_host = h, bw_hooks = None\<rparr>\<rparr>)
       (lp_runtime_new (address \<noteq> NULL) main_state (Some no_host))"

section \<open>The invariant\<close>

text \<open>A recorder is active in the bridge exactly when it is active in the runtime, under the same generation.\<close>

definition coupled :: "lp_runtime \<Rightarrow> lp_lua_bridge \<Rightarrow> bool" where
  "coupled rt b \<longleftrightarrow>
     (cs_active (collector rt LP_COLLECTOR_CPU) \<longleftrightarrow> lb_cpu_active b) \<and>
     cs_generation (collector rt LP_COLLECTOR_CPU) = lb_cpu_generation b \<and>
     (cs_active (collector rt LP_COLLECTOR_MEMORY) \<longleftrightarrow> lb_memory_active b) \<and>
     cs_generation (collector rt LP_COLLECTOR_MEMORY) = lb_memory_generation b"

definition vm_ok :: "profiled_vm \<Rightarrow> bool" where
  "vm_ok vm \<longleftrightarrow>
     runtime_ok (vm_runtime vm) \<and> rt_host_ops (vm_runtime vm) = no_host \<and> rates_checked (vm_runtime vm) \<and>
     bridge_ok (vm_world vm) \<and> coupled (vm_runtime vm) (bw_bridge (vm_world vm))"

text \<open>The VM reports texts that have at least the length it reports.\<close>

definition env_readable :: "bridge_env \<Rightarrow> bool" where
  "env_readable env \<longleftrightarrow> (\<forall>state n. \<forall>c \<in> set (fst (be_capture env state n)). frame_readable (frame_of c))"

definition vm_op_readable :: "vm_op \<Rightarrow> bool" where
  "vm_op_readable op =
     (case op of
        Vm_Start senv env L config \<Rightarrow> env_readable env
      | Vm_Stop env L kind generation \<Rightarrow> env_readable env
      | Safe_Point_Hook env pending \<Rightarrow> env_readable env
      | State_Hook env L state cfunction \<Rightarrow> env_readable env
      | Allocation_Hook env L event \<Rightarrow> env_readable env
      | _ \<Rightarrow> True)"

section \<open>Every step keeps it\<close>

lemma with_host_fields [simp]:
  "collector (with_host ops rt) k = collector rt k" "rt_host_ops (with_host ops rt) = ops"
  "rt_next_generation (with_host ops rt) = rt_next_generation rt" "rt_closing (with_host ops rt) = rt_closing rt"
  "rt_main_state (with_host ops rt) = rt_main_state rt" "rt_collectors (with_host ops rt) = rt_collectors rt"
  by (simp_all add: with_host_def collector_def)

lemma with_host_ok [simp]:
  "runtime_ok (with_host ops rt) = runtime_ok rt" "start_refused (with_host ops rt) config = start_refused rt config"
  "stop_refused (with_host ops rt) kind g = stop_refused rt kind g" "rates_checked (with_host ops rt) = rates_checked rt"
  "coupled (with_host ops rt) b = coupled rt b" "with_host ops' (with_host ops rt) = with_host ops' rt"
  by (simp_all add: runtime_ok_def start_refused_def stop_refused_def rates_checked_def coupled_def with_host_def collector_def)

lemma with_host_same: "rt_host_ops rt = ops \<Longrightarrow> with_host ops rt = rt"
  by (simp add: with_host_def)

text \<open>How a start that is not refused depends on what its host answers.\<close>

lemma start_status:
  assumes go: "start_refused rt config = None"
    and host: "\<And>L. f L (bump_generation (rt_next_generation rt)) config = ([], hs)" "ho_start_collector ops = Some f"
    and start: "lp_runtime_start d senv (with_host ops rt) seed L config = Some (rt', seed', status, gen)"
  shows "status = LP_OK \<longleftrightarrow> reaches_host d senv rt seed config \<and> hs = LP_OK"
proof -
  let ?k = "cfg_kind config"
  have g: "(\<not> valid_kind ?k) = False" "(?k = LP_COLLECTOR_MEMORY \<and> cfg_sample_bytes config = 0) = False"
    "(?k = LP_COLLECTOR_CPU \<and> (cfg_sample_hz config = 0 \<or> cfg_sample_hz config > 10000)) = False"
    "rt_closing (with_host ops rt) = False" "cs_active (collector (with_host ops rt) ?k) = False"
    using go by (auto simp: start_refused_def split: if_splits)
  show ?thesis
  proof (cases "new_slot d senv rt seed config")
    case None
    then show ?thesis
      using start unfolding lp_runtime_start_def Let_def
      by (simp only: g if_False) (simp add: reaches_host_def new_slot_def Let_def)
  next
    case (Some slot)
    then have "status = (if hs \<noteq> LP_OK then if hs = LP_ERR_NOMEM then hs else LP_ERR_HOST else LP_OK)"
      using start host(2) unfolding lp_runtime_start_def Let_def
      by (simp only: g if_False) (simp add: new_slot_def Let_def set_collector_def host(1) split: if_splits)
    then show ?thesis using Some go by (auto simp: reaches_host_def)
  qed
qed

lemma recorded_readable: "env_readable env \<Longrightarrow> runtime_call_readable (recorded env g v)"
  by (auto simp: env_readable_def recorded_def record_cpu_event_def capture_stack_def split: prod.split if_splits)
    (metis fst_conv)+

lemma no_stack_readable: "\<not> is_sample call \<Longrightarrow> runtime_call_readable call"
  by (cases call) (simp_all add: is_sample_def)

lemma samples_readable:
  assumes "filter is_sample calls = map (recorded env g) vs" and "env_readable env"
  shows "\<forall>call \<in> set calls. runtime_call_readable call"
proof
  fix call
  assume c: "call \<in> set calls"
  show "runtime_call_readable call"
  proof (cases "is_sample call")
    case True
    then have "call \<in> set (map (recorded env g) vs)" using c unfolding assms(1) [symmetric] by simp
    then show ?thesis using recorded_readable [OF assms(2)] by auto
  qed (rule no_stack_readable)
qed

lemma same_recordings_coupled: "same_recordings rt rt' \<Longrightarrow> coupled rt' b = coupled rt b"
  by (simp add: same_recordings_def coupled_def)

lemma same_recordings_rates: "same_recordings rt rt' \<Longrightarrow> rates_checked rt' = rates_checked rt"
proof -
  assume "same_recordings rt rt'"
  then have "cs_active (collector rt' k) = cs_active (collector rt k)" "cs_config (collector rt' k) = cs_config (collector rt k)"
    if "valid_kind k" for k using that by (auto simp: same_recordings_def valid_kind_iff)
  then show ?thesis unfolding rates_checked_def by fastforce
qed

lemma vm_ok_hook:
  assumes ok: "vm_ok vm" and hook: "hook (vm_runtime vm) (vm_world vm) = Some (calls, w')"
    and w': "bridge_ok w'" "bw_bridge w' = bw_bridge (vm_world vm)" and readable: "\<forall>call \<in> set calls. runtime_call_readable call"
  shows "\<exists>rt. runtime_calls d calls (vm_runtime vm) = Some rt \<and>
    vm_hook d hook vm = Some (vm\<lparr>vm_runtime := rt, vm_world := w'\<rparr>) \<and> vm_ok (vm\<lparr>vm_runtime := rt, vm_world := w'\<rparr>)"
proof -
  have "runtime_ok (vm_runtime vm)" using ok by (simp add: vm_ok_def)
  from runtime_calls_ok [OF this readable, of d] obtain rt where
    rt: "runtime_calls d calls (vm_runtime vm) = Some rt" "runtime_ok rt" "same_recordings (vm_runtime vm) rt"
    by (auto simp: records_ok_def)
  then show ?thesis
    using ok hook w' same_recordings_coupled [OF rt(3)] same_recordings_rates [OF rt(3)]
    by (simp add: vm_hook_def vm_ok_def same_recordings_def)
qed

lemma vm_ok_world: "vm_ok vm \<Longrightarrow> bridge_ok w \<Longrightarrow> (\<And>rt. coupled rt (bw_bridge w) = coupled rt (bw_bridge (vm_world vm))) \<Longrightarrow>
    vm_ok (vm\<lparr>vm_world := w\<rparr>)"
  by (simp add: vm_ok_def)

lemma coupled_depth [simp]: "coupled rt (b\<lparr>lb_profiler_work_depth := d\<rparr>) = coupled rt b"
  by (simp add: coupled_def)

text \<open>The operations that concern one kind leave the other alone.\<close>

lemma coupled_change:
  assumes old: "coupled rt b" and k: "valid_kind kind"
    and others: "\<forall>k. valid_kind k \<and> k \<noteq> kind \<longrightarrow>
      cs_active (collector rt' k) = cs_active (collector rt k) \<and> cs_generation (collector rt' k) = cs_generation (collector rt k)"
    and new: "if active then cs_active (collector rt' kind) \<and> cs_generation (collector rt' kind) = g \<and>
        sourceless b' = sourceless (recording_bridge kind g b)
      else collector rt' kind = zero_slot \<and> sourceless b' = sourceless (idle_bridge kind b)"
  shows "coupled rt' b'"
proof -
  have f: "lb_cpu_active b' = lb_cpu_active (sourceless b')" "lb_cpu_generation b' = lb_cpu_generation (sourceless b')"
    "lb_memory_active b' = lb_memory_active (sourceless b')" "lb_memory_generation b' = lb_memory_generation (sourceless b')"
    by (simp_all add: sourceless_def)
  have kinds: "kind = LP_COLLECTOR_CPU \<or> kind = LP_COLLECTOR_MEMORY" using k by (simp add: valid_kind_iff)
  show ?thesis
    using kinds
  proof
    assume cpu: "kind = LP_COLLECTOR_CPU"
    then have "cs_active (collector rt' LP_COLLECTOR_MEMORY) = cs_active (collector rt LP_COLLECTOR_MEMORY)"
      "cs_generation (collector rt' LP_COLLECTOR_MEMORY) = cs_generation (collector rt LP_COLLECTOR_MEMORY)"
      using others by (simp_all add: valid_kind_iff)
    then show ?thesis
      using old new cpu unfolding coupled_def f
      by (cases active) (simp_all add: recording_bridge_def idle_bridge_def sourceless_def zero_slot_def)
  next
    assume mem: "kind = LP_COLLECTOR_MEMORY"
    then have "cs_active (collector rt' LP_COLLECTOR_CPU) = cs_active (collector rt LP_COLLECTOR_CPU)"
      "cs_generation (collector rt' LP_COLLECTOR_CPU) = cs_generation (collector rt LP_COLLECTOR_CPU)"
      using others by (simp_all add: valid_kind_iff)
    then show ?thesis
      using old new mem unfolding coupled_def f
      by (cases active) (simp_all add: recording_bridge_def idle_bridge_def sourceless_def zero_slot_def)
  qed
qed

text \<open>Whatever state the bridge is in, its calls carry the stacks the VM reports.\<close>

lemma drain_timer_calls: "set (fst (drain_timer f t)) \<subseteq> range f"
proof (induction f t rule: drain_timer.induct)
  case (1 f t)
  show ?case
  proof (cases "lp_thread_timer_next t")
    case None
    then show ?thesis by (simp add: drain_timer.simps [of f t])
  next
    case (Some x)
    obtain e t1 where x: "x = (e, t1)" by (cases x)
    then show ?thesis
      using 1 [OF Some [unfolded x] refl] Some by (auto simp: drain_timer.simps [of f t] case_prod_beta)
  qed
qed

lemma drain_session_calls:
  assumes "drain_session f k h = Some r" shows "set (fst r) \<subseteq> range f"
proof (rule drain_session.raw_induct [OF _ assms, of "\<lambda>f k h r. set (fst r) \<subseteq> range f"])
  fix D :: "(lp_skynet_tick_event \<Rightarrow> runtime_call) \<Rightarrow> u64 \<Rightarrow> skynet_host \<Rightarrow> (runtime_call list \<times> skynet_host) option"
  fix g token h1 r1
  assume IH: "\<And>f k h r. D f k h = Some r \<Longrightarrow> set (fst r) \<subseteq> range f"
    and step: "(case api_next_event token True h1 of None \<Rightarrow> None | Some (None, h2) \<Rightarrow> Some ([], h2)
      | Some (Some e, h2) \<Rightarrow> D g token h2 \<bind> (\<lambda>(calls, h3). Some (g e # calls, h3))) = Some r1"
  then show "set (fst r1) \<subseteq> range g"
    by (fastforce simp: bind_eq_Some_conv split: option.splits prod.splits)
qed

lemma event_readable: "env_readable env \<Longrightarrow> runtime_call_readable (record_cpu_event env g state vm_state cfunction)"
  using recorded_readable [of env g "(state, vm_state, cfunction)"] by (simp add: recorded_def)

lemma drain_readable:
  assumes env: "env_readable env"
  shows "drain_thread_timer env w = Some (calls, w') \<Longrightarrow> \<forall>call \<in> set calls. runtime_call_readable call"
    "drain_scheduler env w = Some (calls, w') \<Longrightarrow> \<forall>call \<in> set calls. runtime_call_readable call"
    "drain_cpu env w = Some (calls, w') \<Longrightarrow> \<forall>call \<in> set calls. runtime_call_readable call"
proof -
  have from_range: "runtime_call_readable call" if "call \<in> set calls" "set calls \<subseteq> range f" "\<And>e. runtime_call_readable (f e)" for call calls f
    using that by auto
  note ev = event_readable [OF env]
  show timer: "\<forall>call \<in> set calls. runtime_call_readable call" if "drain_thread_timer env w = Some (calls, w')" for calls w'
  proof -
    let ?b = "bw_bridge w"
    let ?f = "\<lambda>e::lp_tick_event. record_cpu_event env (lb_cpu_generation ?b) (te_state e) (te_vm_state e) (te_cfunction e)"
    let ?p = "lb_cpu_timer ?b"
    note drain = that
    have quality: "runtime_call_readable q" if "record_thread_quality v = Some (q, v')" for q v v'
      using that by (auto simp: record_thread_quality_def Let_def split: if_splits option.splits prod.splits)
    show ?thesis
    proof (cases "?p = NULL")
      case True
      then show ?thesis using drain quality by (auto simp: drain_thread_timer_def Let_def bind_eq_Some_conv)
    next
      case False
      then obtain t where t: "tw_timers (bw_timers w) ?p = Some t"
        using drain by (auto simp: drain_thread_timer_def Let_def bind_eq_Some_conv split: option.splits)
      obtain cs t1 where d: "drain_timer ?f t = (cs, t1)" by (cases "drain_timer ?f t")
      then have "set cs \<subseteq> range ?f" using drain_timer_calls [of ?f t] by simp
      then have "runtime_call_readable call" if "call \<in> set cs" for call using from_range [OF that] ev by blast
      then show ?thesis using drain False t d quality by (auto simp: drain_thread_timer_def Let_def bind_eq_Some_conv)
    qed
  qed
  show sched: "\<forall>call \<in> set calls. runtime_call_readable call" if "drain_scheduler env w = Some (calls, w')" for calls w'
  proof -
    note drain = that
    let ?g = "lb_cpu_generation (bw_bridge w)"
    let ?f = "\<lambda>e::lp_skynet_tick_event. record_cpu_event env ?g (ke_state e) (ke_vm_state e) (ke_cfunction e)"
    obtain cs h where d: "drain_session ?f (lb_scheduler_token (bw_bridge w)) (bw_host w) = Some (cs, h)"
      and calls: "\<forall>call \<in> set calls. call \<in> set cs \<or> runtime_call_readable call"
      using drain by (auto simp: drain_scheduler_def Let_def bind_eq_Some_conv case_prod_beta)
    have "set cs \<subseteq> range ?f" using drain_session_calls [OF d] by simp
    then have "runtime_call_readable call" if "call \<in> set cs" for call using from_range [OF that] ev by blast
    then show ?thesis using calls by auto
  qed
  show "\<forall>call \<in> set calls. runtime_call_readable call" if "drain_cpu env w = Some (calls, w')" for calls w'
    using that timer sched by (auto simp: drain_cpu_def split: if_splits)
qed

lemma stop_readable:
  assumes env: "env_readable env" and stop: "stop_collector env kind generation w = Some (calls, w')"
  shows "\<forall>call \<in> set calls. runtime_call_readable call"
proof -
  have "calls = [] \<or> (\<exists>w1. stop_ticks env w = Some (calls, w1))"
    using stop by (auto simp: stop_collector_def Let_def bind_eq_Some_conv case_prod_beta split: if_splits)
  then show ?thesis
  proof
    assume "\<exists>w1. stop_ticks env w = Some (calls, w1)"
    then obtain v v' where "drain_cpu env v = Some (calls, v') \<or> drain_thread_timer env v = Some (calls, v')"
      by (auto simp: stop_ticks_def bind_eq_Some_conv case_prod_beta split: if_splits)
    then show ?thesis using drain_readable [OF env] by blast
  qed simp
qed

lemma bridge_host_readable: "env_readable env \<Longrightarrow> host_readable (bridge_host env w)"
  by (auto simp: host_readable_def bridge_host_def split: option.splits dest: stop_readable [OF _ sym] stop_readable)

lemma vm_ok_new:
  assumes new: "new_vm h timers backend main_state address seed = Some vm"
    and parts: "world_ok timers" "host_ok h" "tokens_ok h"
  shows "vm_ok vm"
proof -
  obtain rt where rt: "lp_runtime_new True main_state (Some no_host) = Some rt"
    and vm: "vm = \<lparr>vm_runtime = rt, vm_seed = seed,
         vm_world = \<lparr>bw_bridge = lp_lua_bridge_bind address (lp_lua_bridge_init backend main_state),
           bw_timers = timers, bw_host = h, bw_hooks = None\<rparr>\<rparr>"
    using new by (auto simp: new_vm_def lp_runtime_new_def split: if_splits)
  have slots: "collector rt LP_COLLECTOR_CPU = zero_slot" "collector rt LP_COLLECTOR_MEMORY = zero_slot" "rt_host_ops rt = no_host"
    using rt by (auto simp: lp_runtime_new_def collector_def split: if_splits)
  show ?thesis
    using lp_runtime_new_ok [OF rt] rates_checked_new [OF rt] slots parts
    by (simp add: vm vm_ok_def bridge_ok_def parts_ok_def coupled_def zero_slot_def mode_ok_def wanted_hooks_def
        lp_lua_bridge_bind_def lp_lua_bridge_init_def)
qed

lemma coupled_active: "coupled rt b \<Longrightarrow> valid_kind kind \<Longrightarrow> cs_active (collector rt kind) =
    (if kind = LP_COLLECTOR_CPU then lb_cpu_active b else lb_memory_active b)"
  "coupled rt b \<Longrightarrow> valid_kind kind \<Longrightarrow> cs_generation (collector rt kind) =
    (if kind = LP_COLLECTOR_CPU then lb_cpu_generation b else lb_memory_generation b)"
  by (auto simp: coupled_def valid_kind_iff)

lemma vm_stop_ok:
  assumes ok: "vm_ok vm" and env: "env_readable env" and room: "lb_profiler_work_depth (bw_bridge (vm_world vm)) + 1 \<noteq> 0"
  shows "\<exists>status res vm'. vm_stop d env L kind g vm = Some ((status, res), vm') \<and> vm_ok vm' \<and>
    (\<forall>r. res = Some r \<longrightarrow> result_ok r \<and> rate_ok r) \<and>
    (stop_refused (vm_runtime vm) kind g = None \<longrightarrow>
      status = LP_OK \<and> res \<noteq> None \<and> bw_bridge (vm_world vm') = idle_bridge kind (bw_bridge (vm_world vm)))"
proof -
  let ?rt = "vm_runtime vm" let ?w = "vm_world vm"
  let ?ops = "bridge_host env ?w"
  let ?rth = "with_host ?ops ?rt"
  have w: "bridge_ok ?w" and host: "rt_host_ops ?rt = no_host" and rates: "rates_checked ?rt" and old: "coupled ?rt (bw_bridge ?w)"
    using ok by (simp_all add: vm_ok_def)
  have rt: "runtime_ok ?rth" "host_readable (rt_host_ops ?rth)" "rates_checked ?rt" "coupled ?rt (bw_bridge ?w)"
    using ok bridge_host_readable [OF env] by (simp_all add: vm_ok_def)
  show ?thesis
  proof (cases "stop_refused ?rt kind g")
    case (Some status)
    then have "lp_runtime_stop d ?rth L kind g = Some (?rth, status, None)"
      using start_refused_result stop_refused_result [of ?rth kind g status d L] by simp
    then show ?thesis using ok Some by (simp add: vm_stop_def Let_def with_host_same [OF host])
  next
    case None
    then have go: "stop_refused ?rth kind g = None" by simp
    have kind: "valid_kind kind" "cs_active (collector ?rt kind)" "cs_generation (collector ?rt kind) = g"
      using None by (auto simp: stop_refused_def split: if_splits)
    obtain calls w' where w': "stop_collector env kind g ?w = Some (calls, w')" "bridge_ok w'"
      "bw_bridge w' = idle_bridge kind (bw_bridge ?w)"
      using stop_result [OF w room kind(1), of g env] coupled_active [OF rt(4) kind(1)] kind(2,3) by (auto split: if_splits)
    show ?thesis
    proof (rule stop_cases [OF rt(1,2) go, of d L])
      fix rt' res
      assume stop: "lp_runtime_stop d ?rth L kind g = Some (rt', LP_OK, Some res)"
        and rt': "runtime_ok rt'" "collector rt' kind = zero_slot" "result_ok res"
          "\<forall>k. valid_kind k \<and> k \<noteq> kind \<longrightarrow>
             cs_active (collector rt' k) = cs_active (collector ?rth k) \<and>
             cs_generation (collector rt' k) = cs_generation (collector ?rth k) \<and>
             cs_config (collector rt' k) = cs_config (collector ?rth k)"
      have rate: "rate_ok res" by (rule stopped_rate_ok [OF rt(1,2) _ stop]) (simp add: rt(3))
      have "coupled rt' (bw_bridge w')"
        by (rule coupled_change [OF rt(4) kind(1), of rt' False]) (use rt' w'(3) in simp_all)
      moreover have "rates_checked rt'"
        by (rule rates_checked_change [OF rt(3), of kind]) (use rt' in simp_all)
      ultimately have "vm_ok (vm\<lparr>vm_runtime := with_host no_host rt', vm_world := w'\<rparr>)"
        using rt' w'(2) by (simp add: vm_ok_def)
      then show ?thesis using stop rt'(3) rate w' None by (simp add: vm_stop_def Let_def)
    qed
  qed
qed

lemma vm_start_ok:
  assumes ok: "vm_ok vm" and env: "env_readable env" and possible: "start_possible env (vm_world vm)"
  shows "\<exists>status gen vm'. vm_start d senv env L config vm = Some ((status, gen), vm') \<and> vm_ok vm' \<and>
    (status \<noteq> LP_OK \<longrightarrow> bw_bridge (vm_world vm') = bw_bridge (vm_world vm)) \<and>
    (status = LP_OK \<longrightarrow> gen = Some (cs_generation (collector (vm_runtime vm') (cfg_kind config))) \<and>
      cs_active (collector (vm_runtime vm') (cfg_kind config)) \<and> cs_config (collector (vm_runtime vm') (cfg_kind config)) = config \<and>
      (\<forall>k. valid_kind k \<and> k \<noteq> cfg_kind config \<longrightarrow>
        cs_active (collector (vm_runtime vm') k) = cs_active (collector (vm_runtime vm) k) \<and>
        cs_generation (collector (vm_runtime vm') k) = cs_generation (collector (vm_runtime vm) k))) \<and>
    lb_profiler_work_depth (bw_bridge (vm_world vm')) = lb_profiler_work_depth (bw_bridge (vm_world vm))"
proof -
  let ?rt = "vm_runtime vm" let ?w = "vm_world vm" let ?k = "cfg_kind config"
  let ?ops = "bridge_host env ?w"
  let ?rth = "with_host ?ops ?rt" let ?g = "bump_generation (rt_next_generation ?rt)"
  have w: "bridge_ok ?w" and host: "rt_host_ops ?rt = no_host" and rates: "rates_checked ?rt" and old: "coupled ?rt (bw_bridge ?w)"
    using ok by (simp_all add: vm_ok_def)
  have rt: "runtime_ok ?rth" "host_readable (rt_host_ops ?rth)"
    using ok bridge_host_readable [OF env] by (simp_all add: vm_ok_def)
  show ?thesis
  proof (cases "start_refused ?rt config")
    case (Some status)
    then have "lp_runtime_start d senv ?rth (vm_seed vm) L config = Some (?rth, vm_seed vm, status, None)" "status \<noteq> LP_OK"
      using start_refused_result [of ?rth config status d senv "vm_seed vm" L] by (auto simp: start_refused_def split: if_splits)
    then have "vm_start d senv env L config vm =
        Some ((status, None), \<lparr>vm_runtime = ?rt, vm_seed = vm_seed vm, vm_world = ?w\<rparr>)"
      using Some by (simp add: vm_start_def Let_def with_host_same [OF host] reaches_host_def)
    also have "\<lparr>vm_runtime = ?rt, vm_seed = vm_seed vm, vm_world = ?w\<rparr> = vm" by (cases vm) simp
    finally show ?thesis using ok \<open>status \<noteq> LP_OK\<close> by simp
  next
    case None
    then have go: "start_refused ?rth config = None" by simp
    have kind: "valid_kind ?k" "\<not> cs_active (collector ?rt ?k)" "config_checked ?k config"
      using None by (auto simp: start_refused_def config_checked_def valid_kind_iff split: if_splits)
    obtain hs w' where w': "start_collector env ?g config ?w = Some (hs, w')" "bridge_ok w'"
      "if hs = LP_OK then same_source (recording_bridge ?k ?g (bw_bridge ?w)) (bw_bridge w') else bw_bridge w' = bw_bridge ?w"
      using start_result [OF w bump_generation_nonzero possible, of config] coupled_active(1) [OF old kind(1)] kind(2) by fastforce
    define w1 where "w1 = (if reaches_host d senv ?rt (vm_seed vm) config then w' else ?w)"
    have w1: "bridge_ok w1" "bw_bridge w1 = (if reaches_host d senv ?rt (vm_seed vm) config then bw_bridge w' else bw_bridge ?w)"
      using w w'(2) by (simp_all add: w1_def)
    show ?thesis
    proof (rule start_cases [OF rt go, of d senv "vm_seed vm" L])
      fix rt' seed' status gen
      assume start: "lp_runtime_start d senv ?rth (vm_seed vm) L config = Some (rt', seed', status, gen)"
        and rt': "runtime_ok rt'" "\<forall>k. valid_kind k \<and> k \<noteq> ?k \<longrightarrow>
            cs_active (collector rt' k) = cs_active (collector ?rth k) \<and>
            cs_generation (collector rt' k) = cs_generation (collector ?rth k) \<and>
            cs_config (collector rt' k) = cs_config (collector ?rth k)"
          "status = LP_OK \<and> gen = Some (bump_generation (rt_next_generation ?rth)) \<and> cs_active (collector rt' ?k) \<and>
            cs_generation (collector rt' ?k) = bump_generation (rt_next_generation ?rth) \<and>
            cs_config (collector rt' ?k) = config \<and>
            (ho_start_collector (rt_host_ops ?rth) = None \<longrightarrow> cs_stats (collector rt' ?k) = zero_stats)
          \<or> (status = LP_ERR_NOMEM \<or> status = LP_ERR_HOST) \<and> gen = None \<and> collector rt' ?k = zero_slot"
      have st: "status = LP_OK \<longleftrightarrow> reaches_host d senv ?rt (vm_seed vm) config \<and> hs = LP_OK"
        using start_status [OF None _ _ start] w'(1) by (auto simp: bridge_host_def)
      have run: "vm_start d senv env L config vm =
          Some ((status, gen), \<lparr>vm_runtime = with_host no_host rt', vm_seed = seed', vm_world = w1\<rparr>)"
        using start w'(1) by (simp add: vm_start_def Let_def w1_def)
      have rates': "rates_checked rt'"
        by (rule rates_checked_change [OF rates, of ?k]) (use rt'(2,3) kind(3) in auto)
      have "coupled rt' (bw_bridge w1)"
      proof (cases "status = LP_OK")
        case True
        show ?thesis
          by (rule coupled_change [OF old kind(1), of rt' True ?g])
            (use True st rt'(2,3) w'(3) in \<open>auto simp: w1 same_source_def\<close>)
      next
        case False
        then have same: "bw_bridge w1 = bw_bridge ?w" using st w'(3) by (auto simp: w1)
        have zero: "collector rt' ?k = zero_slot" using False rt'(3) by simp
        have idle: "\<not> cs_active (collector ?rt ?k) \<and> cs_generation (collector ?rt ?k) = 0"
          using kind(2) coupled_active [OF old kind(1)] w by (auto simp: bridge_ok_def mode_ok_def split: if_splits)
        have "cs_active (collector rt' k) = cs_active (collector ?rt k) \<and> cs_generation (collector rt' k) = cs_generation (collector ?rt k)"
          if "valid_kind k" for k
          using that rt'(2) zero idle by (cases "k = ?k") (simp_all add: zero_slot_def)
        then show ?thesis using old by (simp add: same coupled_def valid_kind_iff)
      qed
      then have "vm_ok \<lparr>vm_runtime = with_host no_host rt', vm_seed = seed', vm_world = w1\<rparr>"
        using rt'(1) rates' w1(1) by (simp add: vm_ok_def)
      moreover have "status \<noteq> LP_OK \<longrightarrow> bw_bridge w1 = bw_bridge ?w" using st w'(3) by (auto simp: w1)
      moreover have "lb_profiler_work_depth (bw_bridge w1) = lb_profiler_work_depth (bw_bridge ?w)"
      proof (cases "hs = LP_OK")
        case True
        then have "sourceless (bw_bridge w') = sourceless (recording_bridge ?k ?g (bw_bridge ?w))" using w'(3) by (simp add: same_source_def)
        then have "lb_profiler_work_depth (bw_bridge w') = lb_profiler_work_depth (bw_bridge ?w)"
          by (cases "bw_bridge w'", cases "bw_bridge ?w") (simp add: sourceless_def recording_bridge_def split: if_splits)
        then show ?thesis by (simp add: w1)
      qed (use w'(3) in \<open>simp add: w1\<close>)
      ultimately show ?thesis using run rt'(2,3) by auto
    qed
  qed
qed

text \<open>The hooks that are set are those of the active recorders.\<close>

lemma hook_active:
  assumes "vm_ok vm"
  shows "hook_set hk_safe_point vm \<longleftrightarrow> lb_cpu_active (bw_bridge (vm_world vm))"
    "hook_set hk_state_change vm \<longleftrightarrow> lb_cpu_active (bw_bridge (vm_world vm))"
    "hook_set hk_allocation vm \<longleftrightarrow> lb_memory_active (bw_bridge (vm_world vm))"
  using assms by (auto simp: vm_ok_def bridge_ok_def hook_set_def wanted_hooks_def)

lemma vm_work_ok:
  assumes ok: "vm_ok vm"
  shows "lb_profiler_work_depth (bw_bridge (vm_world vm)) + 1 \<noteq> 0 \<Longrightarrow>
      \<exists>w. lp_lua_bridge_begin_profiler_work True (vm_world vm) = Some (True, w) \<and> vm_ok (vm\<lparr>vm_world := w\<rparr>)"
    "lb_profiler_work_depth (bw_bridge (vm_world vm)) \<noteq> 0 \<Longrightarrow>
      \<exists>w. lp_lua_bridge_end_profiler_work True True (vm_world vm) = Some w \<and> vm_ok (vm\<lparr>vm_world := w\<rparr>)"
proof -
  have w: "bridge_ok (vm_world vm)" using ok by (simp add: vm_ok_def)
  have step: "vm_ok (vm\<lparr>vm_world := w\<rparr>)" if "work_step n (vm_world vm) w" for n w
    using vm_ok_world [OF ok, of w] that by (auto simp: work_step_def)
  show "\<exists>w. lp_lua_bridge_begin_profiler_work True (vm_world vm) = Some (True, w) \<and> vm_ok (vm\<lparr>vm_world := w\<rparr>)"
    if "lb_profiler_work_depth (bw_bridge (vm_world vm)) + 1 \<noteq> 0"
    using begin_work [OF w that] step by blast
  show "\<exists>w. lp_lua_bridge_end_profiler_work True True (vm_world vm) = Some w \<and> vm_ok (vm\<lparr>vm_world := w\<rparr>)"
    if "lb_profiler_work_depth (bw_bridge (vm_world vm)) \<noteq> 0"
    using end_work [OF w that] step by blast
qed

lemma bridge_tick_ok:
  assumes ok: "bridge_ok w"
  shows "\<exists>w'. bridge_tick info w = Some w' \<and> bridge_ok w' \<and> bw_bridge w' = bw_bridge w"
proof -
  have w: "bridge_ok w" "parts_ok w" using ok by (simp_all add: bridge_ok_def)
  show ?thesis
  proof (cases "lb_cpu_active (bw_bridge w)")
    case True
    then obtain i where i: "source_ok i w" using w(1) by (auto simp: bridge_ok_def cpu_source_def)
    have "lb_scheduler_token (bw_bridge w) \<noteq> 0 \<or> \<not> lb_scheduler_api (bw_bridge w)"
      using source_of_bridge [OF w(1) True i] by (simp add: source_of_def)
    from tick_source_law [OF w(2) i this, of info] obtain w' where
      w': "bridge_tick info w = Some w'" "source_step i w w'" "source_draining i w' = source_draining i w" by blast
    then show ?thesis using source_step_bridge [OF w(1) w'(2) i True w'(3)] by (auto simp: source_step_def)
  next
    case idle: False
    show ?thesis
    proof (cases "lb_scheduler_api (bw_bridge w)")
      case True
      have host: "host_ok (bw_host w)" "tokens_ok (bw_host w)" using w(2) by (simp_all add: parts_ok_def)
      obtain h request where h: "skynet_signal_handler info (bw_host w) = Some (h, request)" "quiet (bw_host w) h" "host_ok h"
        by (rule handler_returns [OF host(1)]) (auto dest: quiet_host_ok [OF _ host(1)])
      moreover have "tokens_ok h" using quiet_tokens [OF h(2)] host(2) by (simp add: tokens_ok_def)
      ultimately show ?thesis
        using w idle True by (auto simp: bridge_tick_def bridge_ok_def parts_ok_def)
    next
      case False
      obtain tw request where h: "timer_signal_handler info (bw_timers w) = Some (tw, request)" "world_ok tw"
        using world_ok_handler [of "bw_timers w" info] w(2) by (auto simp: parts_ok_def)
      then show ?thesis using w idle False by (auto simp: bridge_tick_def bridge_ok_def parts_ok_def)
    qed
  qed
qed

lemma vm_tick_ok:
  assumes ok: "vm_ok vm"
  shows "\<exists>w. bridge_tick info (vm_world vm) = Some w \<and> vm_ok (vm\<lparr>vm_world := w\<rparr>)"
proof -
  have "bridge_ok (vm_world vm)" using ok by (simp add: vm_ok_def)
  from bridge_tick_ok [OF this, of info] show ?thesis using vm_ok_world [OF ok] by fastforce
qed

lemma run_ticks_ok: "bridge_ok w \<Longrightarrow> run_ticks bridge_tick infos w = Some w' \<Longrightarrow> bridge_ok w' \<and> bw_bridge w' = bw_bridge w"
proof (induction infos arbitrary: w)
  case (Cons info infos)
  obtain w1 where "bridge_tick info w = Some w1" "bridge_ok w1" "bw_bridge w1 = bw_bridge w"
    using bridge_tick_ok [OF Cons.prems(1), of info] by blast
  then show ?case using Cons by auto
qed simp

text \<open>What others do to the host leaves the session of this VM as it is.\<close>

lemma vm_others_ok:
  assumes ok: "vm_ok vm" and foreign: "foreign_op (lb_scheduler_token (bw_bridge (vm_world vm))) op"
    and small: "unat (sh_next_token (bw_host (vm_world vm))) < u64_max"
  shows "\<exists>h. host_op_step op (bw_host (vm_world vm)) = Some h \<and> vm_ok (vm\<lparr>vm_world := (vm_world vm)\<lparr>bw_host := h\<rparr>\<rparr>)"
proof -
  let ?w = "vm_world vm" let ?b = "bw_bridge (vm_world vm)"
  have w: "bridge_ok ?w" "host_ok (bw_host ?w)" "tokens_ok (bw_host ?w)"
    using ok by (simp_all add: vm_ok_def bridge_ok_def parts_ok_def)
  obtain h where h: "host_op_step op (bw_host ?w) = Some h" "host_ok h" using host_ok_op [OF w(2), of op] by blast
  have tok: "tokens_ok h" by (rule token_step_keeps(1) [OF token_step_op [OF w(2) h(1)] w(3) small])
  have "bridge_ok (?w\<lparr>bw_host := h\<rparr>)"
  proof (cases "lb_cpu_active ?b \<and> scheduler_active ?b")
    case True
    then obtain i where i: "cpu_source i ?w" using w(1) by (auto simp: bridge_ok_def)
    then have "session_ok (lb_scheduler_token ?b) i (bw_host ?w)" using True by (simp add: cpu_source_def source_ok_def)
    from foreign_op_session [OF this small foreign] h(1) have
      "session_ok (lb_scheduler_token ?b) i h" "keeps_target i (bw_host ?w) h" by auto
    then have "cpu_source i (?w\<lparr>bw_host := h\<rparr>)"
      using i True by (simp add: cpu_source_def source_ok_def source_live_def source_draining_def session_draining_def keeps_target_def)
    then show ?thesis using w(1) h(2) tok by (auto simp: bridge_ok_def parts_ok_def)
  next
    case False
    then have "cpu_source i (?w\<lparr>bw_host := h\<rparr>) = cpu_source i ?w" if "lb_cpu_active ?b" for i
      using that by (simp add: cpu_source_def source_ok_def source_live_def source_draining_def bridge_timer_def)
    then show ?thesis using w(1) h(2) tok by (auto simp: bridge_ok_def parts_ok_def)
  qed
  then show ?thesis using h(1) vm_ok_world [OF ok] by fastforce
qed

lemma vm_hook_ok:
  assumes ok: "vm_ok vm" and room: "lb_profiler_work_depth (bw_bridge (vm_world vm)) + 1 \<noteq> 0" and env: "env_readable env"
  shows "hook_set hk_safe_point vm \<Longrightarrow> \<exists>vm'. vm_hook d (\<lambda>rt. safe_point env pending) vm = Some vm' \<and> vm_ok vm' \<and> bw_bridge (vm_world vm') = bw_bridge (vm_world vm)"
    "hook_set hk_state_change vm \<Longrightarrow> \<exists>vm'. vm_hook d (\<lambda>rt. state_change env L state cfunction) vm = Some vm' \<and> vm_ok vm' \<and> bw_bridge (vm_world vm') = bw_bridge (vm_world vm)"
    "\<exists>vm'. vm_hook d (\<lambda>rt. allocation d env rt L event) vm = Some vm' \<and> vm_ok vm' \<and> bw_bridge (vm_world vm') = bw_bridge (vm_world vm)"
proof -
  have w: "bridge_ok (vm_world vm)" and rt: "runtime_ok (vm_runtime vm)" using ok by (simp_all add: vm_ok_def)
  have source: "\<exists>i. source_ok i (vm_world vm)" if "lb_cpu_active (bw_bridge (vm_world vm))"
    using that w by (auto simp: bridge_ok_def cpu_source_def)
  note recordings = samples_readable [OF _ env]
  show "\<exists>vm'. vm_hook d (\<lambda>rt. safe_point env pending) vm = Some vm' \<and> vm_ok vm' \<and> bw_bridge (vm_world vm') = bw_bridge (vm_world vm)" if "hook_set hk_safe_point vm"
  proof -
    have act: "lb_cpu_active (bw_bridge (vm_world vm))" using that hook_active(1) [OF ok] by simp
    then obtain i where i: "source_ok i (vm_world vm)" using source by blast
    obtain w' where w': "safe_point env pending (vm_world vm) =
      Some (Safe_Point (lb_cpu_generation (bw_bridge (vm_world vm))) pending #
        map (recorded env (lb_cpu_generation (bw_bridge (vm_world vm)))) (source_events i (vm_world vm)) @
        quality_calls i (vm_world vm), w')" "bridge_ok w'" "bw_bridge w' = bw_bridge (vm_world vm)"
      using safe_point_result [OF w room act i, of env pending] by blast
    from vm_ok_hook [where hook = "\<lambda>rt. safe_point env pending", OF ok w'] show ?thesis
      using recordings [OF samples_of_drain] w'(3) by fastforce
  qed
  show "\<exists>vm'. vm_hook d (\<lambda>rt. state_change env L state cfunction) vm = Some vm' \<and> vm_ok vm' \<and> bw_bridge (vm_world vm') = bw_bridge (vm_world vm)" if "hook_set hk_state_change vm"
  proof -
    have act: "lb_cpu_active (bw_bridge (vm_world vm))" using that hook_active(2) [OF ok] by simp
    then obtain i where i: "source_ok i (vm_world vm)" using source by blast
    let ?g = "lb_cpu_generation (bw_bridge (vm_world vm))"
    obtain calls w' where w': "state_change env L state cfunction (vm_world vm) = Some (State_Change ?g state # calls, w')"
      "bridge_ok w'" "bw_bridge w' = bw_bridge (vm_world vm)"
      and calls: "filter is_sample calls =
        map (recorded env ?g) (if change_drains L state (vm_world vm) then source_events i (vm_world vm) else [])"
      using state_change_result [OF w room act i, of env L state cfunction] by (auto split: if_splits)
    from vm_ok_hook [where hook = "\<lambda>rt. state_change env L state cfunction", OF ok w'] show ?thesis
      using recordings [OF calls] w'(3) by fastforce
  qed
  show "\<exists>vm'. vm_hook d (\<lambda>rt. allocation d env rt L event) vm = Some vm' \<and> vm_ok vm' \<and> bw_bridge (vm_world vm') = bw_bridge (vm_world vm)"
  proof -
    obtain calls w' where w': "allocation d env (vm_runtime vm) L event (vm_world vm) = Some (calls, w')"
      "bridge_ok w'" "bw_bridge w' = bw_bridge (vm_world vm)"
      and samples: "\<forall>call \<in> set calls. is_sample call \<longrightarrow>
        (\<exists>g p n ws wo. call = Memory_Sample g p (fst (capture_stack env L)) (snd (capture_stack env L)) n ws wo)"
      using allocation_result [OF w rt, of d env L event] by blast
    have frames: "\<forall>f \<in> set (fst (capture_stack env L)). frame_readable f"
      using env by (auto simp: env_readable_def capture_stack_def case_prod_beta)
    have "\<forall>call \<in> set calls. runtime_call_readable call"
    proof
      fix call
      assume c: "call \<in> set calls"
      show "runtime_call_readable call"
      proof (cases "is_sample call")
        case True
        then show ?thesis using samples c frames by fastforce
      qed (rule no_stack_readable)
    qed
    then show ?thesis
      using vm_ok_hook [where hook = "\<lambda>rt. allocation d env rt L event", OF ok w'] w'(3) by fastforce
  qed
qed

section \<open>Histories\<close>

lemma vm_step_ok:
  assumes ok: "vm_ok vm" and readable: "vm_op_readable op"
  shows "\<exists>rs vm'. vm_step d op vm = Some (rs, vm') \<and> vm_ok vm' \<and> (\<forall>r \<in> set rs. result_ok r \<and> rate_ok r)"
proof (cases "possible op vm")
  case False
  then show ?thesis using ok by (simp add: vm_step_def)
next
  case can: True
  note step = vm_step_def can possible_def Let_def
  show ?thesis
  proof (cases op)
    case (Vm_Start senv env L config)
    then show ?thesis
      using vm_start_ok [OF ok, of env d senv L config] can readable by (auto simp: step vm_op_readable_def)
  next
    case (Vm_Stop env L kind g)
    then obtain status res vm' where stop: "vm_stop d env L kind g vm = Some ((status, res), vm')" "vm_ok vm'"
      "\<forall>r. res = Some r \<longrightarrow> result_ok r \<and> rate_ok r"
      using vm_stop_ok [OF ok, of env d L kind g] can readable by (auto simp: possible_def Let_def vm_op_readable_def)
    then show ?thesis using Vm_Stop can by (auto simp: vm_step_def split: option.split)
  next
    case Enter_Work
    then show ?thesis using vm_work_ok(1) [OF ok] can by (auto simp: step)
  next
    case Leave_Work
    then show ?thesis using vm_work_ok(2) [OF ok] can by (auto simp: step)
  next
    case (Safe_Point_Hook env pending)
    then show ?thesis using vm_hook_ok(1) [OF ok, of env d pending] can readable by (auto simp: step vm_op_readable_def)
  next
    case (State_Hook env L state cfunction)
    then show ?thesis
      using vm_hook_ok(2) [OF ok, of env d L state cfunction] can readable by (auto simp: step vm_op_readable_def)
  next
    case (Allocation_Hook env L event)
    then show ?thesis using vm_hook_ok(3) [OF ok, of env d L event] can readable by (auto simp: step vm_op_readable_def)
  next
    case (Tick info)
    then show ?thesis using vm_tick_ok [OF ok, of info] can by (auto simp: vm_step_def)
  next
    case (Others act)
    then show ?thesis using vm_others_ok [OF ok, of act] can by (auto simp: step)
  qed
qed

lemma vm_history_ok:
  "vm_ok vm \<Longrightarrow> \<forall>op \<in> set ops. vm_op_readable op \<Longrightarrow>
   \<exists>rs vm'. vm_history d ops vm = Some (rs, vm') \<and> vm_ok vm' \<and> (\<forall>r \<in> set rs. result_ok r \<and> rate_ok r)"
proof (induction ops arbitrary: vm)
  case Nil
  then show ?case by simp
next
  case (Cons op ops)
  then obtain rs vm1 where 1: "vm_step d op vm = Some (rs, vm1)" "vm_ok vm1" "\<forall>r \<in> set rs. result_ok r \<and> rate_ok r"
    using vm_step_ok [of vm op d] by auto
  from Cons.IH [OF 1(2)] Cons.prems(2) obtain rs' vm2 where "vm_history d ops vm1 = Some (rs', vm2)" "vm_ok vm2"
    "\<forall>r \<in> set rs'. result_ok r \<and> rate_ok r" by auto
  then show ?case using 1 by auto
qed

end
