(* ===== verification/Vm_Recording.thy ===== *)
theory Vm_Recording
  imports Profiled_Vm
begin

text \<open>
  What holds of every history of a VM with its recorder, from a new bridge in a process whose
  scheduler and timers have any history of their own: the recorders and the sources of their
  ticks belong together, no tick is lost or recorded twice, and the profiler does not profile
  itself.
\<close>

section \<open>A VM and its history\<close>

text \<open>What happened in the process before, and the arguments of the new VM.\<close>

record vm_setting =
  vs_host_ops :: "host_op list"
  vs_timer_ops :: "timer_op list"
  vs_backend :: "bool \<times> lp_skynet_backend_status"
  vs_main_state :: pointer
  vs_address :: pointer
  vs_seed :: u64

definition setting_ok :: "vm_setting \<Rightarrow> bool" where
  "setting_ok s \<longleftrightarrow> length (vs_host_ops s) < u64_max \<and> vs_address s \<noteq> NULL"

definition vm_from :: "'d doubles \<Rightarrow> vm_setting \<Rightarrow> vm_op list \<Rightarrow> (lp_result list \<times> profiled_vm) option" where
  "vm_from d s ops = do {
     h \<leftarrow> host_history (vs_host_ops s) initial_host;
     timers \<leftarrow> timer_history (vs_timer_ops s) initial_world;
     vm \<leftarrow> new_vm h timers (vs_backend s) (vs_main_state s) (vs_address s) (vs_seed s);
     vm_history d ops vm
   }"

text \<open>The source of the bridge: the session is at the first target with its token.\<close>

definition vm_source :: "bridge_world \<Rightarrow> nat" where
  "vm_source w =
     (case List.find (\<lambda>i. tg_token (sh_targets (bw_host w) ! i) = lb_scheduler_token (bw_bridge w)) [0..<LP_SKYNET_TARGET_CAPACITY] of
        None \<Rightarrow> 0 | Some i \<Rightarrow> i)"

definition queued_ticks :: "bridge_world \<Rightarrow> tick_view list" where
  "queued_ticks w = source_events (vm_source w) w"

definition ticks_come :: "bridge_world \<Rightarrow> bool" where
  "ticks_come w = source_live (vm_source w) w"

definition ticks_refused :: "bridge_world \<Rightarrow> bool" where
  "ticks_refused w = source_draining (vm_source w) w"

lemma vm_source_ok: "source_ok i w \<Longrightarrow> source_ok (vm_source w) w"
proof (cases "scheduler_active (bw_bridge w)")
  case True
  assume i: "source_ok i w"
  let ?P = "\<lambda>i. tg_token (sh_targets (bw_host w) ! i) = lb_scheduler_token (bw_bridge w)"
  have s: "session_ok (lb_scheduler_token (bw_bridge w)) i (bw_host w)" using i True by (simp add: source_ok_def)
  then obtain j where j: "List.find ?P [0..<LP_SKYNET_TARGET_CAPACITY] = Some j"
    by (cases "List.find ?P [0..<LP_SKYNET_TARGET_CAPACITY]") (auto simp: find_None_iff session_ok_def)
  then have "j < LP_SKYNET_TARGET_CAPACITY" "?P j" by (auto simp: find_Some_iff)
  then show ?thesis using s j True by (simp add: vm_source_def source_ok_def session_ok_def)
qed (simp add: source_ok_def)

lemma active_source:
  assumes "bridge_ok w" and "lb_cpu_active (bw_bridge w)" shows "cpu_source (vm_source w) w"
  using assms cpu_source_any vm_source_ok unfolding bridge_ok_def cpu_source_def by blast

lemma vm_source_same:
  assumes "bridge_ok w" and "lb_cpu_active (bw_bridge w)" and "source_ok i w"
  shows "source_events i w = queued_ticks w"
proof (cases "scheduler_active (bw_bridge w)")
  case True
  then show ?thesis using source_unique [OF assms(3) vm_source_ok [OF assms(3)]] by (simp add: queued_ticks_def)
next
  case False
  then show ?thesis by (simp add: queued_ticks_def source_events_def)
qed

lemma idle_source: "bridge_ok w \<Longrightarrow> \<not> lb_cpu_active (bw_bridge w) \<Longrightarrow> \<not> ticks_come w"
  by (auto simp: bridge_ok_def mode_ok_def ticks_come_def source_live_def scheduler_active_def bridge_timer_def split: if_splits)

lemma vm_from_ok:
  assumes "setting_ok s" and "\<forall>op \<in> set ops. vm_op_readable op"
  shows "\<exists>rs vm. vm_from d s ops = Some (rs, vm) \<and> vm_ok vm \<and> (\<forall>r \<in> set rs. result_ok r \<and> rate_ok r)"
proof -
  obtain h where h: "host_history (vs_host_ops s) initial_host = Some h" using host_ok_history [OF host_ok_initial] by blast
  obtain timers where timers: "timer_history (vs_timer_ops s) initial_world = Some timers"
    using world_ok_history [OF world_ok_initial] by blast
  obtain vm where vm: "new_vm h timers (vs_backend s) (vs_main_state s) (vs_address s) (vs_seed s) = Some vm"
    using assms(1) by (simp add: new_vm_def setting_ok_def lp_runtime_new_def)
  have "vm_ok vm"
    using vm_ok_new [OF vm history_world_ok [OF timers] initial_history(1,2) [OF h]] assms(1) by (simp add: setting_ok_def)
  from vm_history_ok [OF this assms(2)] show ?thesis using h timers vm by (simp add: vm_from_def)
qed

lemma vm_from_kept:
  assumes "setting_ok s" and "\<forall>op \<in> set ops. vm_op_readable op" and "vm_from d s ops = Some (rs, vm)"
  shows "vm_ok vm" "bridge_ok (vm_world vm)" "r \<in> set rs \<Longrightarrow> result_ok r \<and> rate_ok r"
  using vm_from_ok [OF assms(1,2), of d] assms(3) by (auto simp: vm_ok_def)

section \<open>Recorders and sources\<close>

text \<open>
  C3: whatever starts, stops, hooks, work of the profiler, signals and operations of other
  services happen, in any order, all of them return, and afterwards: the CPU recorder is active
  exactly while there is a timer or a session that delivers ticks to it; the hooks the VM calls are
  those of the active recorders; both layers know the recordings under the same generations; and
  while the profiler is at work, and only then, ticks are refused.
\<close>

theorem recorders_have_their_sources:
  assumes "setting_ok s" and "\<forall>op \<in> set ops. vm_op_readable op"
  shows "\<exists>rs vm. vm_from d s ops = Some (rs, vm) \<and>
    (ticks_come (vm_world vm) \<longleftrightarrow> cs_active (collector (vm_runtime vm) LP_COLLECTOR_CPU)) \<and>
    (hook_set hk_safe_point vm \<longleftrightarrow> cs_active (collector (vm_runtime vm) LP_COLLECTOR_CPU)) \<and>
    (hook_set hk_state_change vm \<longleftrightarrow> cs_active (collector (vm_runtime vm) LP_COLLECTOR_CPU)) \<and>
    (hook_set hk_allocation vm \<longleftrightarrow> cs_active (collector (vm_runtime vm) LP_COLLECTOR_MEMORY)) \<and>
    lb_cpu_generation (bw_bridge (vm_world vm)) = cs_generation (collector (vm_runtime vm) LP_COLLECTOR_CPU) \<and>
    lb_memory_generation (bw_bridge (vm_world vm)) = cs_generation (collector (vm_runtime vm) LP_COLLECTOR_MEMORY) \<and>
    (ticks_come (vm_world vm) \<longrightarrow> (ticks_refused (vm_world vm) \<longleftrightarrow> lb_profiler_work_depth (bw_bridge (vm_world vm)) \<noteq> 0))"
proof -
  obtain rs vm where vm: "vm_from d s ops = Some (rs, vm)" "vm_ok vm" using vm_from_ok [OF assms] by blast
  then have w: "bridge_ok (vm_world vm)" and both: "coupled (vm_runtime vm) (bw_bridge (vm_world vm))" by (simp_all add: vm_ok_def)
  have "ticks_come (vm_world vm) \<longleftrightarrow> lb_cpu_active (bw_bridge (vm_world vm))"
    "ticks_come (vm_world vm) \<longrightarrow> (ticks_refused (vm_world vm) \<longleftrightarrow> lb_profiler_work_depth (bw_bridge (vm_world vm)) \<noteq> 0)"
    using idle_source [OF w] active_source [OF w] by (auto simp: ticks_come_def ticks_refused_def cpu_source_def)
  then show ?thesis using vm(1) both hook_active [OF vm(2)] by (simp add: coupled_def)
qed

text \<open>
  What a VM recorded reaches the file. Each result that a stop hands out, in any history of
  the VM, can be exported when no allocation and no system call fails, the metric is one of its
  kind and the stacks have at most 16384 frames; the file then holds a profile in which a reader
  finds exactly the samples of the result.
\<close>

theorem vm_results_reach_the_file:
  assumes "setting_ok s" and "\<forall>op \<in> set ops. vm_op_readable op" and "vm_from d s ops = Some (rs, vm)" and "res \<in> set rs"
    and "metric_ok res sample_type" and "frame_total res \<le> 16384" and "sys_works sys path fs"
  shows "\<exists>profile p.
    lp_export_result_with_symbols sys env [] (Some res) (Some path) LP_EXPORT_PPROF sample_type symbols fs =
      (None, fs(path := Some (Regular (xe_gzfile sys profile) (export_mode path fs)))) \<and>
    decode_profile profile = Some p \<and> shows_result env symbols res p"
proof -
  have ok: "result_ok res" "rate_ok res" using vm_from_kept(3) [OF assms(1-4)] by simp_all
  then have profile: "res_cpu res \<noteq> None \<or> res_memory res \<noteq> None" by (auto simp: result_ok_def)
  obtain model buffer where m: "model_init env [] res sample_type symbols = (True, model)" "em_memory model = []"
    "encode_profile model (zero_buffer, []) = (True, (buffer, []))"
    using export_succeeds [OF ok assms(5,6)] by blast
  show ?thesis
    using lp_export_result_works [OF assms(7) profile m] model_shows_result [OF m(1,3)] by blast
qed

section \<open>The hooks\<close>

text \<open>
  C4: a safe point records exactly the ticks queued since the last one, each with the stack the VM
  has now, in the order in which they came, under the generation of the recording, and leaves the
  queue empty; nothing else of the bridge changes.
\<close>

theorem safe_point_records_the_queue:
  assumes "setting_ok s" and "\<forall>op \<in> set ops. vm_op_readable op" and "vm_from d s ops = Some (rs, vm)"
    and "hook_set hk_safe_point vm" and "lb_profiler_work_depth (bw_bridge (vm_world vm)) + 1 \<noteq> 0"
  shows "\<exists>calls w'. safe_point env pending (vm_world vm) = Some (calls, w') \<and>
    filter is_sample calls =
      map (recorded env (cs_generation (collector (vm_runtime vm) LP_COLLECTOR_CPU))) (queued_ticks (vm_world vm)) \<and>
    queued_ticks w' = [] \<and> bw_bridge w' = bw_bridge (vm_world vm)"
proof -
  let ?w = "vm_world vm" let ?g = "lb_cpu_generation (bw_bridge (vm_world vm))"
  have ok: "vm_ok vm" "bridge_ok ?w" using vm_from_kept(1,2) [OF assms(1-3)] by simp_all
  have act: "lb_cpu_active (bw_bridge ?w)" using hook_active(1) [OF ok(1)] assms(4) by simp
  have i: "source_ok (vm_source ?w) ?w" using active_source [OF ok(2) act] by (simp add: cpu_source_def)
  obtain w' where w': "safe_point env pending ?w = Some (Safe_Point ?g pending #
      map (recorded env ?g) (source_events (vm_source ?w) ?w) @ quality_calls (vm_source ?w) ?w, w')"
    "bridge_ok w'" "bw_bridge w' = bw_bridge ?w" "source_ok (vm_source ?w) w'" "source_events (vm_source ?w) w' = []"
    using safe_point_result [OF ok(2) assms(5) act i, of env pending] by blast
  have "queued_ticks w' = []" using vm_source_same [OF w'(2) _ w'(4)] w'(3,5) act by simp
  moreover have "?g = cs_generation (collector (vm_runtime vm) LP_COLLECTOR_CPU)"
    using ok(1) by (simp add: vm_ok_def coupled_def)
  ultimately show ?thesis
    using w' samples_of_drain [of env ?g] by (simp add: is_sample_def queued_ticks_def del: filter_append)
qed

text \<open>
  C5: the profiler does not profile itself. Whatever ticks arrive while it works, before and
  after it takes the queue, none of them is queued: what is recorded are the ticks of before the
  work, and after it the queue is empty.
\<close>

theorem work_is_not_sampled:
  assumes "setting_ok s" and "\<forall>op \<in> set ops. vm_op_readable op" and "vm_from d s ops = Some (rs, vm)"
    and "ticks_come (vm_world vm)" and "lb_profiler_work_depth (bw_bridge (vm_world vm)) + 1 \<noteq> 0"
  shows "\<exists>w1 w2 w3 w4 w5 calls. lp_lua_bridge_begin_profiler_work True (vm_world vm) = Some (True, w1) \<and>
    run_ticks bridge_tick before w1 = Some w2 \<and> drain_cpu env w2 = Some (calls, w3) \<and>
    run_ticks bridge_tick after w3 = Some w4 \<and> lp_lua_bridge_end_profiler_work True True w4 = Some w5 \<and>
    filter is_sample calls =
      map (recorded env (cs_generation (collector (vm_runtime vm) LP_COLLECTOR_CPU))) (queued_ticks (vm_world vm)) \<and>
    queued_ticks w5 = []"
proof -
  let ?w = "vm_world vm" let ?i = "vm_source (vm_world vm)" let ?g = "lb_cpu_generation (bw_bridge (vm_world vm))"
  have ok: "vm_ok vm" "bridge_ok ?w" using vm_from_kept(1,2) [OF assms(1-3)] by simp_all
  have act: "lb_cpu_active (bw_bridge ?w)" using idle_source [OF ok(2)] assms(4) by auto
  have i: "source_ok ?i ?w" using active_source [OF ok(2) act] by (simp add: cpu_source_def)
  obtain w1 where w1: "lp_lua_bridge_begin_profiler_work True ?w = Some (True, w1)"
    "work_step (lb_profiler_work_depth (bw_bridge ?w) + 1) ?w w1" using begin_work [OF ok(2) assms(5)] by blast
  then have b1: "bridge_ok w1" "source_ok ?i w1" "source_events ?i w1 = source_events ?i ?w" "lb_cpu_active (bw_bridge w1)"
    "lb_profiler_work_depth (bw_bridge w1) \<noteq> 0" "lb_cpu_generation (bw_bridge w1) = ?g"
    using act i assms(5) by (auto simp: work_step_def)
  have s1: "source_of ?i (bw_bridge w1) w1" "source_draining ?i w1"
    using source_of_bridge [OF b1(1,4,2)] cpu_source_any [OF b1(1,4,2)] b1(5) by (simp_all add: cpu_source_def)
  obtain w2 where w2: "run_ticks bridge_tick before w1 = Some w2" "source_of ?i (bw_bridge w1) w2" "source_draining ?i w2"
    "source_events ?i w2 = source_events ?i w1"
    using bridge_source.ticks_while_draining [OF s1, of before] by blast
  note b2 = run_ticks_ok [OF b1(1) w2(1)]
  obtain w3 where w3: "drain_cpu env w2 = Some (map (recorded env ?g) (source_events ?i w2) @ quality_calls ?i w2, w3)"
    "bridge_ok w3" "bw_bridge w3 = bw_bridge w1" "source_ok ?i w3" "source_events ?i w3 = []"
    using drain_bridge [of w2 ?i env] b2 b1(4,6) w2(2) by (auto simp: source_of_def)
  have s3: "source_of ?i (bw_bridge w1) w3" "source_draining ?i w3"
    using source_of_bridge [OF w3(2) _ w3(4)] cpu_source_any [OF w3(2) _ w3(4)] b1(4,5) w3(3) by (simp_all add: cpu_source_def)
  obtain w4 where w4: "run_ticks bridge_tick after w3 = Some w4" "source_of ?i (bw_bridge w1) w4" "source_events ?i w4 = []"
    using bridge_source.ticks_while_draining [OF s3, of after] w3(5) by auto
  have b4: "bridge_ok w4" "bw_bridge w4 = bw_bridge w1" "source_ok ?i w4"
    using run_ticks_ok [OF w3(2) w4(1)] w3(3) w4(2) by (simp_all add: source_of_def)
  obtain w5 where w5: "lp_lua_bridge_end_profiler_work True True w4 = Some w5"
    "work_step (lb_profiler_work_depth (bw_bridge w4) - 1) w4 w5"
    using end_work [OF b4(1)] b1(5) b4(2) by auto
  then have "bridge_ok w5" "source_ok ?i w5" "source_events ?i w5 = []" "lb_cpu_active (bw_bridge w5)"
    using b4 b1(4) w4(3) by (auto simp: work_step_def)
  then have "queued_ticks w5 = []" using vm_source_same by fastforce
  moreover have "?g = cs_generation (collector (vm_runtime vm) LP_COLLECTOR_CPU)"
    using ok(1) by (simp add: vm_ok_def coupled_def)
  ultimately show ?thesis
    using w1(1) w2(1,4) w3(1) w4(1) w5(1) b1(3) samples_of_drain [of env ?g]
    by (simp add: queued_ticks_def del: filter_append)
qed

section \<open>A coroutine that goes back to its host\<close>

text \<open>In a process without scheduler: the state the timer would name for a tick that comes now.\<close>

definition published_tick :: "bridge_world \<Rightarrow> tick_view option" where
  "published_tick w = map_option (\<lambda>t. timer_view (slot_event t)) (bridge_timer w)"

lemma with_timer_tick:
  assumes "with_timer f w = Some w'" and "\<And>t. slot_event (f t) = slot_event t"
  shows "published_tick w' = published_tick w"
  using assms by (auto simp: with_timer_def Let_def published_tick_def bridge_timer_def put_timer_def split: if_splits option.splits)

lemma end_work_tick:
  assumes "lp_lua_bridge_end_profiler_work True True w = Some w'" and "\<not> scheduler_active (bw_bridge w)"
  shows "published_tick w' = published_tick w"
proof -
  let ?d = "lb_profiler_work_depth (bw_bridge w)"
  have depth: "published_tick (at_depth n w) = published_tick w" for n by (simp add: published_tick_def bridge_timer_def)
  have "w' = w \<or> w' = at_depth (?d - 1) w \<or> with_timer lp_thread_timer_end_event_drain (at_depth (?d - 1) w) = Some w'"
    using assms by (auto simp: lp_lua_bridge_end_profiler_work_def at_depth_def [symmetric] Let_def end_event_drain_def split: if_splits)
  then show ?thesis
    using depth with_timer_tick [of lp_thread_timer_end_event_drain "at_depth (?d - 1) w" w']
    by (auto simp: lp_thread_timer_end_event_drain_def slot_event_def)
qed

lemma drain_tick:
  assumes ok: "source_ok i w" and mode: "\<not> scheduler_active (bw_bridge w)" and drain: "drain_cpu env w = Some (calls, w')"
  shows "published_tick w' = published_tick w" "bw_bridge w' = bw_bridge w"
proof -
  let ?p = "lb_cpu_timer (bw_bridge w)"
  let ?f = "\<lambda>e::lp_tick_event. record_cpu_event env (lb_cpu_generation (bw_bridge w)) (te_state e) (te_vm_state e) (te_cfunction e)"
  obtain t where t: "bridge_timer w = Some t" "timer_ready t" using ok mode by (auto simp: source_ok_def)
  then have p: "?p \<noteq> NULL" "tw_timers (bw_timers w) ?p = Some t" by (auto simp: bridge_timer_def split: if_splits)
  obtain r where r: "drain_timer ?f t = (map ?f (timer_queue t), t\<lparr>tt_ring := r\<rparr>)" using drain_timer_takes [OF t(2)] by blast
  have w': "w' = w\<lparr>bw_timers := put_timer ?p (fst (lp_thread_timer_take_quality (t\<lparr>tt_ring := r\<rparr>)))
      (put_timer ?p (t\<lparr>tt_ring := r\<rparr>) (bw_timers w))\<rparr>"
    using drain mode p by (simp add: drain_cpu_def drain_thread_timer_def Let_def r record_thread_quality_def case_prod_beta put_timer_def)
  show "bw_bridge w' = bw_bridge w" by (simp add: w')
  show "published_tick w' = published_tick w"
    using p t(1) by (simp add: w' published_tick_def bridge_timer_def put_timer_def lp_thread_timer_take_quality_def slot_event_def)
qed

text \<open>A tick queues at most what is published, and publishes nothing.\<close>

lemma tick_queues_published:
  assumes ok: "bridge_ok w" and i: "source_ok i w" and mode: "\<not> lb_scheduler_api (bw_bridge w)"
    and tick: "bridge_tick info w = Some w'"
  shows "published_tick w' = published_tick w \<and>
    set (source_events i w') \<subseteq> set (source_events i w) \<union> set_option (published_tick w)"
proof -
  let ?p = "lb_cpu_timer (bw_bridge w)"
  have inactive: "\<not> scheduler_active (bw_bridge w)" using mode by (simp add: scheduler_active_def)
  obtain t where t: "bridge_timer w = Some t" "timer_ready t" using i inactive by (auto simp: source_ok_def)
  then have p: "?p \<noteq> NULL" "tw_timers (bw_timers w) ?p = Some t" by (auto simp: bridge_timer_def split: if_splits)
  obtain timers request where run: "timer_signal_handler info (bw_timers w) = Some (timers, request)"
    and w': "w' = w\<lparr>bw_timers := timers\<rparr>" using tick mode by (auto simp: bridge_tick_def)
  have "tw_timers timers ?p = Some t \<or> (\<exists>j. tw_timers timers ?p = Some (fst (handle_tick j t)))"
    using run by (cases rule: timer_signal_cases) (use p(2) in \<open>auto simp: put_timer_def\<close>)
  then obtain t' where t': "tw_timers timers ?p = Some t'" "t' = t \<or> (\<exists>j. t' = fst (handle_tick j t))" by blast
  have queue: "slot_event t' = slot_event t \<and> set (timer_queue t') \<subseteq> insert (slot_event t) (set (timer_queue t))"
    using t'(2)
  proof
    assume "\<exists>j. t' = fst (handle_tick j t)"
    then obtain j request where tick: "handle_tick j t = (t', request)" by (metis prod.collapse)
    have ring: "ring_contents r = ring_contents (tt_ring t) @ [e]" if "ring_push e (tt_ring t) = Some r" for e r
      using ring_push_contents [OF _ that] t(2) by (simp add: timer_ready_def)
    show ?thesis
      using tick by (cases rule: tick_cases) (auto simp: slot_event_def timer_queue_def add_unstable_def add_dropped_def ring)
  qed auto
  have at: "bridge_timer w' = Some t'" "bw_bridge w' = bw_bridge w" using p(1) t'(1) by (simp_all add: w' bridge_timer_def)
  then show ?thesis
    using queue t(1) inactive by (auto simp: published_tick_def source_events_def)
qed

lemma ticks_queue_published:
  "bridge_ok w \<Longrightarrow> source_ok i w \<Longrightarrow> lb_cpu_active (bw_bridge w) \<Longrightarrow> \<not> lb_scheduler_api (bw_bridge w) \<Longrightarrow>
   run_ticks bridge_tick infos w = Some w' \<Longrightarrow>
   set (source_events i w') \<subseteq> set (source_events i w) \<union> set_option (published_tick w)"
proof (induction infos arbitrary: w)
  case (Cons info infos)
  obtain w1 where w1: "bridge_tick info w = Some w1" "run_ticks bridge_tick infos w1 = Some w'"
    using Cons.prems(5) by (auto simp: bind_eq_Some_conv)
  have b1: "bridge_ok w1" "bw_bridge w1 = bw_bridge w" using bridge_tick_ok [OF Cons.prems(1), of info] w1(1) by auto
  obtain v where "bridge_tick info w = Some v" "source_step i w v"
    using tick_source_law [of w i info] Cons.prems(1,2,4) by (auto simp: bridge_ok_def)
  then have i1: "source_ok i w1" using w1(1) by (simp add: source_step_def)
  note step = tick_queues_published [OF Cons.prems(1,2,4) w1(1)]
  show ?case using Cons.IH [OF b1(1) i1 _ _ w1(2)] Cons.prems(3,4) b1(2) step by auto
qed simp

text \<open>
  C6: when a coroutine goes back to its host, in a process without scheduler, the ticks that name
  it are recorded at once, while it is still on the stack; whatever ticks come from then on, until
  the VM publishes another state, name the main state, so that the coroutine may be collected.
\<close>

theorem left_coroutine_is_forgotten:
  assumes "setting_ok s" and "\<forall>op \<in> set ops. vm_op_readable op" and "vm_from d s ops = Some (rs, vm)"
    and "hook_set hk_state_change vm" and "lb_profiler_work_depth (bw_bridge (vm_world vm)) + 1 \<noteq> 0"
    and "\<not> lb_scheduler_api (bw_bridge (vm_world vm))" and "L \<noteq> lb_main_state (bw_bridge (vm_world vm))"
  shows "\<exists>calls w'. state_change env L LP_VM_HOST cfunction (vm_world vm) = Some (calls, w') \<and>
    filter is_sample calls =
      map (recorded env (cs_generation (collector (vm_runtime vm) LP_COLLECTOR_CPU))) (queued_ticks (vm_world vm)) \<and>
    (\<forall>infos w''. run_ticks bridge_tick infos w' = Some w'' \<longrightarrow>
      set (queued_ticks w'') \<subseteq> {(lb_main_state (bw_bridge (vm_world vm)), LP_VM_HOST, NULL)})"
proof -
  let ?w = "vm_world vm" let ?i = "vm_source (vm_world vm)" let ?b = "bw_bridge (vm_world vm)"
  have ok: "vm_ok vm" "bridge_ok ?w" using vm_from_kept(1,2) [OF assms(1-3)] by simp_all
  have act: "lb_cpu_active ?b" using hook_active(2) [OF ok(1)] assms(4) by simp
  have i: "source_ok ?i ?w" using active_source [OF ok(2) act] by (simp add: cpu_source_def)
  have inactive: "\<not> scheduler_active ?b" using assms(6) by (simp add: scheduler_active_def)
  obtain w1 w2 w3 w' calls where sc: "state_change env L LP_VM_HOST cfunction ?w =
      Some (State_Change (lb_cpu_generation ?b) LP_VM_HOST # calls, w')"
    "filter is_sample calls = map (recorded env (lb_cpu_generation ?b)) (source_events ?i ?w)"
    "publish_state env (lb_main_state ?b) LP_VM_HOST NULL w1 = Some w2" "bw_bridge w2 = bw_bridge w1"
    "bw_bridge w1 = ?b\<lparr>lb_profiler_work_depth := lb_profiler_work_depth ?b + 1\<rparr>"
    "drain_cpu env w2 = Some (calls, w3)" "lp_lua_bridge_end_profiler_work True True w3 = Some w'"
    "source_ok ?i w1" "bridge_ok w'" "bw_bridge w' = ?b" "source_ok ?i w'" "source_events ?i w' = []"
    by (rule state_change_coroutine [OF ok(2) assms(5) act i assms(7) inactive, of env cfunction])
  have mode2: "\<not> scheduler_active (bw_bridge w1)" "\<not> scheduler_active (bw_bridge w2)" using inactive sc(4,5) by simp_all
  obtain t where t: "bridge_timer w1 = Some t" using sc(8) mode2 by (auto simp: source_ok_def)
  have tick2: "published_tick w2 = Some (lb_main_state ?b, LP_VM_HOST, NULL)" "source_ok ?i w2"
    using sc(3,8) t mode2 by (auto simp: publish_state_def with_timer_def Let_def bridge_timer_def published_tick_def put_timer_def
        slot_event_def lp_thread_timer_publish_state_def publish_defs source_ok_def timer_ready_def split: if_splits option.splits)
  note b3 = drain_tick [OF tick2(2) mode2(2) sc(6)]
  have left: "published_tick w' = Some (lb_main_state ?b, LP_VM_HOST, NULL)"
    using end_work_tick [OF sc(7)] b3 mode2(2) tick2(1) by simp
  have act': "lb_cpu_active (bw_bridge w')" "\<not> lb_scheduler_api (bw_bridge w')" using act assms(6) sc(10) by simp_all
  have "set (queued_ticks w'') \<subseteq> {(lb_main_state ?b, LP_VM_HOST, NULL)}" if run: "run_ticks bridge_tick infos w' = Some w''" for infos w''
  proof -
    have w'': "bridge_ok w''" "bw_bridge w'' = bw_bridge w'" using run_ticks_ok [OF sc(9) run] by simp_all
    have "source_of ?i (bw_bridge w') w'" by (rule source_of_bridge [OF sc(9) act'(1) sc(11)])
    then have "source_ok ?i w''" using bridge_source.ticks_append [of ?i "bw_bridge w'" w' infos] run by (auto simp: source_of_def)
    then have "queued_ticks w'' = source_events ?i w''" using vm_source_same [OF w''(1)] w''(2) act'(1) by simp
    then show ?thesis using ticks_queue_published [OF sc(9,11) act' run] left sc(12) by simp
  qed
  moreover have "lb_cpu_generation ?b = cs_generation (collector (vm_runtime vm) LP_COLLECTOR_CPU)"
    using ok(1) by (simp add: vm_ok_def coupled_def)
  ultimately show ?thesis using sc(1,2) by (auto simp: queued_ticks_def is_sample_def)
qed

section \<open>Starts and stops\<close>

lemma stop_ticks_result:
  assumes "setting_ok s" and "\<forall>op \<in> set ops. vm_op_readable op" and "vm_from d s ops = Some (rs, vm)"
    and "env_readable env" and "stop_refused (vm_runtime vm) LP_COLLECTOR_CPU g = None"
    and "lb_profiler_work_depth (bw_bridge (vm_world vm)) + 1 \<noteq> 0"
  shows "\<exists>calls vm' res. stop_collector env LP_COLLECTOR_CPU g (vm_world vm) = Some (calls, vm_world vm') \<and>
    vm_stop d env L LP_COLLECTOR_CPU g vm = Some ((LP_OK, Some res), vm') \<and>
    filter is_sample calls = map (recorded env g) (queued_ticks (vm_world vm)) \<and>
    \<not> ticks_come (vm_world vm') \<and> \<not> hook_set hk_safe_point vm' \<and> \<not> hook_set hk_state_change vm' \<and>
    (if lb_scheduler_api (bw_bridge (vm_world vm))
     then lb_scheduler_token (bw_bridge (vm_world vm)) \<notin> set (tokens (bw_host (vm_world vm')))
     else tw_timers (bw_timers (vm_world vm')) (lb_cpu_timer (bw_bridge (vm_world vm))) = None)"
proof -
  let ?w = "vm_world vm" let ?i = "vm_source (vm_world vm)" let ?b = "bw_bridge (vm_world vm)"
  have ok: "vm_ok vm" "bridge_ok ?w" using vm_from_kept(1,2) [OF assms(1-3)] by simp_all
  then have act: "lb_cpu_active ?b" "lb_cpu_generation ?b = g"
    using assms(5) by (auto simp: vm_ok_def coupled_def stop_refused_def split: if_splits)
  have i: "source_ok ?i ?w" using active_source [OF ok(2) act(1)] by (simp add: cpu_source_def)
  obtain calls w' where stop: "stop_collector env LP_COLLECTOR_CPU g ?w = Some (calls, w')" "bridge_ok w'"
    "bw_bridge w' = idle_bridge LP_COLLECTOR_CPU ?b" "filter is_sample calls = map (recorded env g) (source_events ?i ?w)"
    "if lb_scheduler_api ?b then lb_scheduler_token ?b \<notin> set (tokens (bw_host w'))
     else tw_timers (bw_timers w') (lb_cpu_timer ?b) = None"
  proof (cases "lb_scheduler_api ?b")
    case True
    then show thesis using stop_in_scheduler [OF ok(2) True act i assms(6), of env] that by auto
  next
    case False
    then show thesis using stop_in_thread [OF ok(2) False act, of env ?i] that by auto
  qed
  obtain res vm' where vm': "vm_stop d env L LP_COLLECTOR_CPU g vm = Some ((LP_OK, Some res), vm')" "vm_ok vm'"
    using vm_stop_ok [OF ok(1) assms(4,6), of d L LP_COLLECTOR_CPU g] assms(5) by blast
  have w': "vm_world vm' = w'" using vm'(1) stop(1) assms(5) by (auto simp: vm_stop_def Let_def bind_eq_Some_conv)
  have idle: "\<not> lb_cpu_active (bw_bridge w')" by (simp add: stop(3) idle_bridge_def)
  then have "\<not> ticks_come w'" by (rule idle_source [OF stop(2)])
  then show ?thesis using stop(1,4,5) vm'(1) hook_active [OF vm'(2)] idle by (auto simp: w' queued_ticks_def)
qed

text \<open>
  C7: the stop of the CPU recorder records every tick still queued before it hands out the
  result, and leaves nothing behind: no timer or session, so that no later signal reaches the
  VM, and no CPU hook.
\<close>

theorem stop_records_the_rest_and_cleans_up:
  assumes "setting_ok s" and "\<forall>op \<in> set ops. vm_op_readable op" and "vm_from d s ops = Some (rs, vm)"
    and "env_readable env" and "stop_refused (vm_runtime vm) LP_COLLECTOR_CPU g = None"
    and "lb_profiler_work_depth (bw_bridge (vm_world vm)) + 1 \<noteq> 0"
  shows "\<exists>calls vm' res. stop_collector env LP_COLLECTOR_CPU g (vm_world vm) = Some (calls, vm_world vm') \<and>
    vm_stop d env L LP_COLLECTOR_CPU g vm = Some ((LP_OK, Some res), vm') \<and>
    filter is_sample calls = map (recorded env g) (queued_ticks (vm_world vm)) \<and>
    \<not> ticks_come (vm_world vm') \<and> \<not> hook_set hk_safe_point vm' \<and> \<not> hook_set hk_state_change vm' \<and>
    (if lb_scheduler_api (bw_bridge (vm_world vm))
     then lb_scheduler_token (bw_bridge (vm_world vm)) \<notin> set (tokens (bw_host (vm_world vm')))
     else tw_timers (bw_timers (vm_world vm')) (lb_cpu_timer (bw_bridge (vm_world vm))) = None)"
  by (rule stop_ticks_result [OF assms])

text \<open>
  C8: in a process without scheduler, a start that fails, whether the runtime refuses it, an
  allocation fails or the timer cannot be armed, leaves the bridge, its timers, the signal action
  and the hooks exactly as they were, and hands out no generation.
\<close>

theorem failed_vm_start_changes_nothing:
  assumes "setting_ok s" and "\<forall>op \<in> set ops. vm_op_readable op" and "vm_from d s ops = Some (rs, vm)"
    and "env_readable env" and "start_possible env (vm_world vm)" and "\<not> lb_scheduler_api (bw_bridge (vm_world vm))"
    and "vm_start d senv env L config vm = Some ((status, gen), vm')" and "status \<noteq> LP_OK"
  shows "vm_world vm' = vm_world vm \<and> gen = None"
proof -
  let ?rt = "vm_runtime vm" let ?w = "vm_world vm" let ?g = "bump_generation (rt_next_generation ?rt)"
  let ?rth = "with_host (bridge_host env ?w) ?rt"
  have ok: "vm_ok vm" "bridge_ok ?w" using vm_from_kept(1,2) [OF assms(1-3)] by simp_all
  have rt: "runtime_ok ?rth" "host_readable (rt_host_ops ?rth)"
    using ok(1) bridge_host_readable [OF assms(4)] by (simp_all add: vm_ok_def)
  obtain rt' seed' where start: "lp_runtime_start d senv ?rth (vm_seed vm) L config = Some (rt', seed', status, gen)"
    and world: "if reaches_host d senv ?rt (vm_seed vm) config
      then \<exists>hs. start_collector env ?g config ?w = Some (hs, vm_world vm') else vm_world vm' = ?w"
    using assms(7) by (auto simp: vm_start_def Let_def bind_eq_Some_conv split: if_splits)
  have "gen = None"
  proof (cases "start_refused ?rt config")
    case (Some r)
    then show ?thesis using start start_refused_result [of ?rth config r d senv "vm_seed vm" L] by simp
  next
    case None
    then have "start_refused ?rth config = None" by simp
    show ?thesis
      by (rule start_cases [OF rt \<open>start_refused ?rth config = None\<close>, of d senv "vm_seed vm" L]) (use start assms(8) in auto)
  qed
  moreover have "vm_world vm' = ?w"
  proof (cases "reaches_host d senv ?rt (vm_seed vm) config")
    case True
    then have refused: "start_refused ?rt config = None" by (simp add: reaches_host_def)
    have g: "?g \<noteq> 0" by simp
    obtain hs where hs: "start_collector env ?g config ?w = Some (hs, vm_world vm')" using world True by auto
    have "status = LP_OK \<longleftrightarrow> reaches_host d senv ?rt (vm_seed vm) config \<and> hs = LP_OK"
      using start_status [OF refused _ _ start] hs by (auto simp: bridge_host_def)
    then have "hs \<noteq> LP_OK" using assms(8) True by simp
    moreover have idle: "\<not> lb_cpu_active (bw_bridge ?w)" if "cfg_kind config = LP_COLLECTOR_CPU"
      using refused that ok(1) by (auto simp: start_refused_def vm_ok_def coupled_def split: if_splits)
    ultimately have cpu: "cfg_kind config = LP_COLLECTOR_CPU"
      using start_memory [OF ok(2) g, of config env] hs by fastforce
    show ?thesis
      using start_in_thread [OF ok(2) idle [OF cpu] assms(6) g assms(5) cpu] hs \<open>hs \<noteq> LP_OK\<close> by fastforce
  qed (use world in simp)
  ultimately show ?thesis by simp
qed

end
