(* ===== verification/Module_Options.thy ===== *)
theory Module_Options
  imports Recorded_Export
begin

text \<open>
  The argument checks of \<open>src/lua_module.c\<close>: what Lua code may pass to \<open>cpu.start\<close>,
  \<open>memory.start\<close> and \<open>result:write\<close>, and the error each other argument raises. A raised error
  (\<open>luaL_argerror\<close>, \<open>luaL_checktype\<close>) is a value of \<open>module_error\<close>.
\<close>

section \<open>Lua values\<close>

text \<open>
  A number has its integer, when it is of the integer subtype, and the text \<open>lua_tolstring\<close> makes
  of it. A table has its entries in the order of \<open>lua_next\<close> (a key that is not a string is
  \<open>None\<close>) and what \<open>__index\<close> answers for a key without an entry; \<open>None\<close>: it raises an error.
\<close>

datatype lua_arg =
    Arg_Nil
  | Arg_Boolean bool
  | Arg_Number "64 word option" bytes
  | Arg_String bytes
  | Arg_Table "(bytes option \<times> lua_arg) list" "bytes \<Rightarrow> lua_arg option"
  | Arg_Userdata pointer
  | Arg_Other

datatype module_error =
    Wrong_Type nat
  | Unknown_Option nat
  | Bad_Sample_Hz
  | Bad_Sample_Bytes
  | Bad_Track_Free
  | Bad_Format
  | Path_Expected
  | String_Expected
  | Has_NUL nat string
  | Metamethod_Error
  | Memory_Error

text \<open>A check that may raise, and what follows it.\<close>

primrec checked :: "module_error + 'a \<Rightarrow> ('a \<Rightarrow> module_error + 'b) \<Rightarrow> module_error + 'b" where
  "checked (Inl e) f = Inl e"
| "checked (Inr x) f = f x"

lemma checked_Inr: "checked r f = Inr y \<longleftrightarrow> (\<exists>x. r = Inr x \<and> f x = Inr y)"
  by (cases r) simp_all

text \<open>\<open>lua_getfield\<close>.\<close>

definition getfield :: "(bytes option \<times> lua_arg) list \<Rightarrow> (bytes \<Rightarrow> lua_arg option) \<Rightarrow> bytes \<Rightarrow> module_error + lua_arg" where
  "getfield entries index key =
     (case map_of entries (Some key) of
        Some v \<Rightarrow> Inr v
      | None \<Rightarrow> (case index key of Some v \<Rightarrow> Inr v | None \<Rightarrow> Inl Metamethod_Error))"

section \<open>The checks\<close>

definition check_no_unknown_options ::
  "nat \<Rightarrow> (bytes option \<times> lua_arg) list \<Rightarrow> bytes option \<Rightarrow> bytes option \<Rightarrow> module_error + unit" where
  "check_no_unknown_options arg entries first second =
     (if \<forall>(key, v) \<in> set entries. key \<noteq> None \<and> (first \<noteq> None \<and> key = first \<or> second \<noteq> None \<and> key = second)
      then Inr () else Inl (Unknown_Option arg))"

text \<open>The text with its length; numbers are converted, as by \<open>luaL_checklstring\<close>.\<close>

definition check_c_string :: "lua_arg \<Rightarrow> nat \<Rightarrow> string \<Rightarrow> module_error + bytes" where
  "check_c_string v argument name =
     (case (case v of Arg_String s \<Rightarrow> Some s | Arg_Number i s \<Rightarrow> Some s | _ \<Rightarrow> None) of
        None \<Rightarrow> Inl String_Expected
      | Some s \<Rightarrow> if 0 \<in> set s then Inl (Has_NUL argument name) else Inr s)"

definition LP_DEFAULT_SAMPLE_BYTES :: u64 where "LP_DEFAULT_SAMPLE_BYTES = 512 * 1024"

definition LP_DEFAULT_SAMPLE_HZ :: u32 where "LP_DEFAULT_SAMPLE_HZ = 100"

text \<open>What the value of an option makes of the configuration.\<close>

definition set_sample_hz :: "lua_arg \<Rightarrow> lp_collector_config \<Rightarrow> module_error + lp_collector_config" where
  "set_sample_hz v config =
     (case v of
        Arg_Nil \<Rightarrow> Inr config
      | Arg_Number (Some n) s \<Rightarrow>
          if sint n < 1 \<or> sint n > 10000 then Inl Bad_Sample_Hz else Inr (config\<lparr>cfg_sample_hz := ucast n\<rparr>)
      | _ \<Rightarrow> Inl Bad_Sample_Hz)"

definition set_sample_bytes :: "lua_arg \<Rightarrow> lp_collector_config \<Rightarrow> module_error + lp_collector_config" where
  "set_sample_bytes v config =
     (case v of
        Arg_Nil \<Rightarrow> Inr config
      | Arg_Number (Some n) s \<Rightarrow> if sint n < 1 then Inl Bad_Sample_Bytes else Inr (config\<lparr>cfg_sample_bytes := n\<rparr>)
      | _ \<Rightarrow> Inl Bad_Sample_Bytes)"

definition set_track_free :: "lua_arg \<Rightarrow> lp_collector_config \<Rightarrow> module_error + lp_collector_config" where
  "set_track_free v config =
     (case v of
        Arg_Nil \<Rightarrow> Inr config
      | Arg_Boolean b \<Rightarrow> Inr (config\<lparr>cfg_track_free := b\<rparr>)
      | _ \<Rightarrow> Inl Bad_Track_Free)"

text \<open>The arguments of a call are a list, \<open>lua_gettop\<close> its length.\<close>

definition cpu_config :: "lua_arg list \<Rightarrow> module_error + lp_collector_config" where
  "cpu_config args =
     (let config = zero_config\<lparr>cfg_kind := LP_COLLECTOR_CPU, cfg_sample_hz := LP_DEFAULT_SAMPLE_HZ\<rparr>
      in if args = [] \<or> hd args = Arg_Nil then Inr config
         else case hd args of
           Arg_Table entries index \<Rightarrow>
             checked (check_no_unknown_options 1 entries (Some (ascii ''sample_hz'')) None) (\<lambda>_.
             checked (getfield entries index (ascii ''sample_hz'')) (\<lambda>v. set_sample_hz v config))
         | _ \<Rightarrow> Inl (Wrong_Type 1))"

definition memory_config :: "lua_arg list \<Rightarrow> module_error + lp_collector_config" where
  "memory_config args =
     (let config = zero_config\<lparr>cfg_kind := LP_COLLECTOR_MEMORY, cfg_sample_bytes := LP_DEFAULT_SAMPLE_BYTES, cfg_track_free := False\<rparr>
      in if args = [] \<or> hd args = Arg_Nil then Inr config
         else case hd args of
           Arg_Table entries index \<Rightarrow>
             checked (check_no_unknown_options 1 entries (Some (ascii ''sample_bytes'')) (Some (ascii ''track_free''))) (\<lambda>_.
             checked (getfield entries index (ascii ''sample_bytes'')) (\<lambda>v.
             checked (set_sample_bytes v config) (\<lambda>config1.
             checked (getfield entries index (ascii ''track_free'')) (\<lambda>v. set_track_free v config1))))
         | _ \<Rightarrow> Inl (Wrong_Type 1))"

text \<open>The arguments of \<open>result_write\<close> after the result: path, format and sample type.\<close>

definition write_format :: "lua_arg \<Rightarrow> module_error + lp_export_format" where
  "write_format v =
     (if v = Arg_Nil then Inr LP_EXPORT_PPROF
      else checked (check_c_string v 3 ''format'') (\<lambda>name.
        if name = ascii ''pprof'' then Inr LP_EXPORT_PPROF
        else if name = ascii ''folded'' then Inr LP_EXPORT_FOLDED
        else Inl Bad_Format))"

definition write_sample :: "lua_arg \<Rightarrow> module_error + bytes option" where
  "write_sample v =
     (if v = Arg_Nil then Inr None else checked (check_c_string v 3 ''sample'') (\<lambda>s. Inr (Some s)))"

definition write_options :: "lua_arg list \<Rightarrow> module_error + bytes \<times> lp_export_format \<times> bytes option" where
  "write_options args =
     (case args of
        [] \<Rightarrow> Inl Path_Expected
      | path_arg # rest \<Rightarrow>
          checked (check_c_string path_arg 2 ''path'') (\<lambda>path.
            if rest = [] \<or> hd rest = Arg_Nil then Inr (path, LP_EXPORT_PPROF, None)
            else case hd rest of
              Arg_Table entries index \<Rightarrow>
                checked (check_no_unknown_options 3 entries (Some (ascii ''format'')) (Some (ascii ''sample''))) (\<lambda>_.
                checked (getfield entries index (ascii ''format'')) (\<lambda>v.
                checked (write_format v) (\<lambda>format.
                checked (getfield entries index (ascii ''sample'')) (\<lambda>v.
                checked (write_sample v) (\<lambda>sample_type. Inr (path, format, sample_type))))))
            | _ \<Rightarrow> Inl (Wrong_Type 3)))"

section \<open>What is accepted\<close>

lemma check_options_Inr:
  "check_no_unknown_options arg entries first second = Inr u \<longleftrightarrow>
     (\<forall>key \<in> fst ` set entries. key \<noteq> None \<and> (key = first \<or> key = second))"
proof -
  have "(\<forall>(key, v) \<in> set entries. key \<noteq> None \<and> (first \<noteq> None \<and> key = first \<or> second \<noteq> None \<and> key = second)) \<longleftrightarrow>
      (\<forall>key \<in> fst ` set entries. key \<noteq> None \<and> (key = first \<or> key = second))"
    by (simp add: case_prod_beta) metis
  then show ?thesis by (simp add: check_no_unknown_options_def)
qed

lemma positive_unsigned:
  fixes n :: "64 word"
  assumes "1 \<le> sint n"
  shows "n \<noteq> 0" "uint n = sint n"
proof -
  show "n \<noteq> 0" using assms by auto
  have "uint n = uint (word_of_int (sint n) :: 64 word)" by simp
  also have "\<dots> = sint n"
    using assms sint_lt [of n] unfolding uint_word_of_int by (intro mod_pos_pos_trivial) simp_all
  finally show "uint n = sint n" .
qed

lemma checked_rate:
  assumes "1 \<le> sint n" and "sint n \<le> 10000"
  shows "uint (ucast (n :: 64 word) :: u32) = sint n"
  using assms positive_unsigned(2) [OF assms(1)] by (simp add: uint_up_ucast unsigned_ucast_eq take_bit_int_eq_self)

lemma set_sample_hz_Inr:
  "set_sample_hz v config = Inr c \<longleftrightarrow>
     v = Arg_Nil \<and> c = config \<or>
     (\<exists>n s. v = Arg_Number (Some n) s \<and> 1 \<le> sint n \<and> sint n \<le> 10000 \<and> c = config\<lparr>cfg_sample_hz := ucast n\<rparr>)"
  by (auto simp: set_sample_hz_def split: lua_arg.splits option.splits)

lemma set_sample_bytes_Inr:
  "set_sample_bytes v config = Inr c \<longleftrightarrow>
     v = Arg_Nil \<and> c = config \<or> (\<exists>n s. v = Arg_Number (Some n) s \<and> 1 \<le> sint n \<and> c = config\<lparr>cfg_sample_bytes := n\<rparr>)"
  by (auto simp: set_sample_bytes_def split: lua_arg.splits option.splits)

lemma set_track_free_Inr:
  "set_track_free v config = Inr c \<longleftrightarrow>
     v = Arg_Nil \<and> c = config \<or> (\<exists>b. v = Arg_Boolean b \<and> c = config\<lparr>cfg_track_free := b\<rparr>)"
  by (auto simp: set_track_free_def split: lua_arg.splits)

lemma cpu_config_Inr:
  assumes "cpu_config args = Inr c"
  shows "cfg_kind c = LP_COLLECTOR_CPU \<and> 1 \<le> uint (cfg_sample_hz c) \<and> uint (cfg_sample_hz c) \<le> 10000"
  using assms checked_rate
  by (auto simp: cpu_config_def Let_def checked_Inr set_sample_hz_Inr LP_DEFAULT_SAMPLE_HZ_def split: if_splits lua_arg.splits)

lemma memory_config_Inr:
  assumes "memory_config args = Inr c"
  shows "cfg_kind c = LP_COLLECTOR_MEMORY \<and> cfg_sample_bytes c \<noteq> 0 \<and> uint (cfg_sample_bytes c) < 2 ^ 63"
proof -
  have range: "n \<noteq> 0 \<and> uint n < 2 ^ 63" if "1 \<le> sint n" for n :: "64 word"
    using that positive_unsigned [of n] sint_lt [of n] by simp
  show ?thesis
    using assms range
    by (auto simp: memory_config_def Let_def checked_Inr set_sample_bytes_Inr set_track_free_Inr LP_DEFAULT_SAMPLE_BYTES_def
        split: if_splits lua_arg.splits)
qed

text \<open>
  What callers may pass, said without the checks. The values of some named options: all nil when
  the argument is missing or nil, and otherwise those of a table that has no other keys.
\<close>

definition options_given :: "lua_arg list \<Rightarrow> string list \<Rightarrow> lua_arg list \<Rightarrow> bool" where
  "options_given args names values \<longleftrightarrow>
     (args = [] \<or> hd args = Arg_Nil) \<and> values = map (\<lambda>name. Arg_Nil) names \<or>
     (\<exists>entries index rest. args = Arg_Table entries index # rest \<and> (\<forall>(key, v) \<in> set entries. key \<in> (Some \<circ> ascii) ` set names) \<and>
       map (getfield entries index \<circ> ascii) names = map Inr values)"

text \<open>What an option may be, and what it then means; nil stands for the default.\<close>

definition rate_option :: "lua_arg \<Rightarrow> int \<Rightarrow> bool" where
  "rate_option v hz \<longleftrightarrow> v = Arg_Nil \<and> hz = 100 \<or> (\<exists>n s. v = Arg_Number (Some n) s \<and> sint n = hz \<and> 1 \<le> hz \<and> hz \<le> 10000)"

definition bytes_option :: "lua_arg \<Rightarrow> int \<Rightarrow> bool" where
  "bytes_option v bytes \<longleftrightarrow> v = Arg_Nil \<and> bytes = 524288 \<or> (\<exists>n s. v = Arg_Number (Some n) s \<and> sint n = bytes \<and> 1 \<le> bytes)"

definition flag_option :: "lua_arg \<Rightarrow> bool \<Rightarrow> bool" where
  "flag_option v flag \<longleftrightarrow> v = Arg_Nil \<and> \<not> flag \<or> v = Arg_Boolean flag"

definition text_option :: "lua_arg \<Rightarrow> bytes \<Rightarrow> bool" where
  "text_option v s \<longleftrightarrow> (v = Arg_String s \<or> (\<exists>i. v = Arg_Number i s)) \<and> 0 \<notin> set s"

definition format_option :: "lua_arg \<Rightarrow> lp_export_format \<Rightarrow> bool" where
  "format_option v format \<longleftrightarrow>
     (v = Arg_Nil \<or> text_option v (ascii ''pprof'')) \<and> format = LP_EXPORT_PPROF \<or>
     text_option v (ascii ''folded'') \<and> format = LP_EXPORT_FOLDED"

definition sample_option :: "lua_arg \<Rightarrow> bytes option \<Rightarrow> bool" where
  "sample_option v sample \<longleftrightarrow> (case sample of None \<Rightarrow> v = Arg_Nil | Some s \<Rightarrow> text_option v s)"

lemma check_c_string_iff: "check_c_string v argument name = Inr s \<longleftrightarrow> text_option v s"
  by (auto simp: check_c_string_def text_option_def split: lua_arg.splits)

lemma write_format_iff: "write_format v = Inr f \<longleftrightarrow> format_option v f"
proof -
  have "ascii ''pprof'' \<noteq> ascii ''folded''" by (simp add: ascii_def)
  then show ?thesis
    by (auto simp: write_format_def format_option_def checked_Inr check_c_string_iff text_option_def)
qed

lemma write_sample_iff: "write_sample v = Inr sample \<longleftrightarrow> sample_option v sample"
  by (cases sample) (auto simp: write_sample_def sample_option_def checked_Inr check_c_string_iff text_option_def)

lemma set_sample_hz_iff:
  assumes "cfg_sample_hz config = LP_DEFAULT_SAMPLE_HZ"
  shows "set_sample_hz v config = Inr c \<longleftrightarrow> (\<exists>hz. rate_option v hz \<and> c = config\<lparr>cfg_sample_hz := word_of_int hz\<rparr>)"
proof -
  have "ucast n = (word_of_int (sint n) :: u32)" for n :: u64 by transfer (simp add: take_bit_signed_take_bit)
  moreover have "config = config\<lparr>cfg_sample_hz := 100\<rparr>" using assms by (simp add: LP_DEFAULT_SAMPLE_HZ_def)
  ultimately show ?thesis by (auto simp: set_sample_hz_Inr rate_option_def)
qed

lemma set_sample_bytes_iff:
  assumes "cfg_sample_bytes config = LP_DEFAULT_SAMPLE_BYTES"
  shows "set_sample_bytes v config = Inr c \<longleftrightarrow> (\<exists>bytes. bytes_option v bytes \<and> c = config\<lparr>cfg_sample_bytes := word_of_int bytes\<rparr>)"
proof -
  have "config = config\<lparr>cfg_sample_bytes := 524288\<rparr>" using assms by (simp add: LP_DEFAULT_SAMPLE_BYTES_def)
  then show ?thesis by (auto simp: set_sample_bytes_Inr bytes_option_def)
qed

lemma set_track_free_iff:
  assumes "\<not> cfg_track_free config"
  shows "set_track_free v config = Inr c \<longleftrightarrow> (\<exists>flag. flag_option v flag \<and> c = config\<lparr>cfg_track_free := flag\<rparr>)"
proof -
  have "config = config\<lparr>cfg_track_free := False\<rparr>" using assms by simp
  then show ?thesis by (auto simp: set_track_free_Inr flag_option_def)
qed

lemma known_options:
  "(\<exists>u. check_no_unknown_options arg entries first second = Inr u) \<longleftrightarrow>
     (\<forall>(key, v) \<in> set entries. key \<noteq> None \<and> (key = first \<or> key = second))"
  by (auto simp: check_options_Inr case_prod_beta)

lemma rate_word: "rate_option v hz \<Longrightarrow> uint (word_of_int hz :: u32) = hz"
  by (auto simp: rate_option_def uint_word_of_int)

lemma bytes_word: "bytes_option v bytes \<Longrightarrow> uint (word_of_int bytes :: u64) = bytes"
  using positive_unsigned(2) by (auto simp: bytes_option_def)

lemma cpu_config_iff:
  "cpu_config args = Inr c \<longleftrightarrow>
     (\<exists>v hz. options_given args [''sample_hz''] [v] \<and> rate_option v hz \<and>
       c = zero_config\<lparr>cfg_kind := LP_COLLECTOR_CPU, cfg_sample_hz := word_of_int hz\<rparr>)"
proof -
  let ?config = "zero_config\<lparr>cfg_kind := LP_COLLECTOR_CPU, cfg_sample_hz := LP_DEFAULT_SAMPLE_HZ\<rparr>"
  have default: "?config = c \<longleftrightarrow> (\<exists>hz. rate_option Arg_Nil hz \<and> c = ?config\<lparr>cfg_sample_hz := word_of_int hz\<rparr>)"
    by (auto simp: rate_option_def LP_DEFAULT_SAMPLE_HZ_def)
  note set = set_sample_hz_iff [of ?config, simplified]
  show ?thesis
  proof (cases args)
    case Nil
    then show ?thesis using default by (simp add: cpu_config_def Let_def options_given_def)
  next
    case (Cons a rest)
    show ?thesis
    proof (cases a)
      case (Arg_Table entries index)
      have "fst ` set entries \<subseteq> {Some (ascii ''sample_hz'')} \<longleftrightarrow> (\<forall>(key, v) \<in> set entries. key = Some (ascii ''sample_hz''))" by auto
      then show ?thesis
        using Cons Arg_Table known_options [of 1 entries "Some (ascii ''sample_hz'')" None]
        by (simp add: cpu_config_def Let_def options_given_def checked_Inr set) (auto; metis)
    qed (use Cons default in \<open>simp_all add: cpu_config_def Let_def options_given_def\<close>)
  qed
qed

lemma memory_options_iff:
  assumes "cfg_sample_bytes config = LP_DEFAULT_SAMPLE_BYTES" and "\<not> cfg_track_free config"
  shows "checked (set_sample_bytes v config) (\<lambda>config1. checked flag_given (\<lambda>w. set_track_free w config1)) = Inr c \<longleftrightarrow>
    (\<exists>bytes w flag. bytes_option v bytes \<and> flag_given = Inr w \<and> flag_option w flag \<and>
      c = config\<lparr>cfg_sample_bytes := word_of_int bytes, cfg_track_free := flag\<rparr>)"
proof -
  have "set_track_free w (config\<lparr>cfg_sample_bytes := n\<rparr>) = Inr c \<longleftrightarrow>
      (\<exists>flag. flag_option w flag \<and> c = config\<lparr>cfg_sample_bytes := n, cfg_track_free := flag\<rparr>)" for w n
    using set_track_free_iff [of "config\<lparr>cfg_sample_bytes := n\<rparr>"] assms(2) by simp
  then show ?thesis unfolding checked_Inr set_sample_bytes_iff [OF assms(1)] by blast
qed

lemma memory_config_iff:
  "memory_config args = Inr c \<longleftrightarrow>
     (\<exists>v w bytes flag. options_given args [''sample_bytes'', ''track_free''] [v, w] \<and> bytes_option v bytes \<and> flag_option w flag \<and>
       c = zero_config\<lparr>cfg_kind := LP_COLLECTOR_MEMORY, cfg_sample_bytes := word_of_int bytes, cfg_track_free := flag\<rparr>)"
proof -
  let ?config = "zero_config\<lparr>cfg_kind := LP_COLLECTOR_MEMORY, cfg_sample_bytes := LP_DEFAULT_SAMPLE_BYTES, cfg_track_free := False\<rparr>"
  have default: "?config = c \<longleftrightarrow> (\<exists>bytes flag. bytes_option Arg_Nil bytes \<and> flag_option Arg_Nil flag \<and>
      c = ?config\<lparr>cfg_sample_bytes := word_of_int bytes, cfg_track_free := flag\<rparr>)"
    by (auto simp: bytes_option_def flag_option_def LP_DEFAULT_SAMPLE_BYTES_def)
  have defaults: "cfg_sample_bytes ?config = LP_DEFAULT_SAMPLE_BYTES" "\<not> cfg_track_free ?config" by simp_all
  show ?thesis
  proof (cases args)
    case Nil
    then show ?thesis using default by (simp add: memory_config_def Let_def options_given_def)
  next
    case (Cons a rest)
    show ?thesis
    proof (cases a)
      case (Arg_Table entries index)
      let ?get = "getfield entries index"
      have "options_given args [''sample_bytes'', ''track_free''] [v, w] \<longleftrightarrow>
          (\<exists>u. check_no_unknown_options 1 entries (Some (ascii ''sample_bytes'')) (Some (ascii ''track_free'')) = Inr u) \<and>
          ?get (ascii ''sample_bytes'') = Inr v \<and> ?get (ascii ''track_free'') = Inr w" for v w
        unfolding known_options using Cons Arg_Table by (auto simp: options_given_def)
      moreover have "memory_config args = Inr c \<longleftrightarrow>
          (\<exists>u. check_no_unknown_options 1 entries (Some (ascii ''sample_bytes'')) (Some (ascii ''track_free'')) = Inr u) \<and>
          (\<exists>v bytes w flag. ?get (ascii ''sample_bytes'') = Inr v \<and> bytes_option v bytes \<and>
            ?get (ascii ''track_free'') = Inr w \<and> flag_option w flag \<and>
            c = ?config\<lparr>cfg_sample_bytes := word_of_int bytes, cfg_track_free := flag\<rparr>)"
        unfolding memory_config_def Let_def Cons Arg_Table lua_arg.case list.sel
        by (simp add: memory_options_iff [OF defaults] checked_Inr [of "check_no_unknown_options _ _ _ _"] checked_Inr [of "?get _"])
      ultimately show ?thesis by (simp add: LP_DEFAULT_SAMPLE_BYTES_def) blast
    qed (use Cons default in \<open>simp_all add: memory_config_def Let_def options_given_def\<close>)
  qed
qed

lemma write_options_iff:
  "write_options args = Inr (path, format, sample) \<longleftrightarrow>
     (\<exists>v rest w x. args = v # rest \<and> text_option v path \<and> options_given rest [''format'', ''sample''] [w, x] \<and>
       format_option w format \<and> sample_option x sample)"
proof (cases args)
  case Nil
  then show ?thesis by (simp add: write_options_def)
next
  case args: (Cons v rest)
  have nil: "format_option Arg_Nil format \<and> sample_option Arg_Nil sample \<longleftrightarrow> format = LP_EXPORT_PPROF \<and> sample = None"
    by (auto simp: format_option_def sample_option_def text_option_def split: option.splits)
  show ?thesis
  proof (cases rest)
    case Nil
    then show ?thesis using args nil by (auto simp: write_options_def options_given_def checked_Inr check_c_string_iff)
  next
    case (Cons a others)
    show ?thesis
    proof (cases a)
      case (Arg_Table entries index)
      then show ?thesis
        using args Cons known_options [of 3 entries "Some (ascii ''format'')" "Some (ascii ''sample'')"]
        by (simp add: write_options_def options_given_def checked_Inr check_c_string_iff write_format_iff write_sample_iff) (auto; metis)
    qed (use args Cons nil in \<open>auto simp: write_options_def options_given_def checked_Inr check_c_string_iff\<close>)
  qed
qed

lemma cpu_config_accepted:
  assumes "cpu_config args = Inr c"
  shows "start_refused rt c \<noteq> Some LP_ERR_ARGUMENT \<and> config_checked LP_COLLECTOR_CPU c \<and> cfg_kind c = LP_COLLECTOR_CPU"
proof -
  have c: "cfg_kind c = LP_COLLECTOR_CPU" "1 \<le> uint (cfg_sample_hz c)" "uint (cfg_sample_hz c) \<le> 10000"
    using cpu_config_Inr [OF assms] by simp_all
  then have "cfg_sample_hz c \<noteq> 0" "\<not> cfg_sample_hz c > 10000" by (auto simp: word_less_def)
  then show ?thesis using c(1) by (simp add: start_refused_def valid_kind_iff config_checked_def)
qed

lemma memory_config_accepted:
  assumes "memory_config args = Inr c"
  shows "start_refused rt c \<noteq> Some LP_ERR_ARGUMENT \<and> config_checked LP_COLLECTOR_MEMORY c \<and> cfg_kind c = LP_COLLECTOR_MEMORY"
  using memory_config_Inr [OF assms] by (simp add: start_refused_def valid_kind_iff config_checked_def)

text \<open>
  C13: exactly the documented arguments are accepted, and what is accepted is what the layers below
  require. \<open>cpu.start\<close> takes nothing, nil, or a table with no key but \<open>sample_hz\<close>, an integer from 1 to
  10000; \<open>memory.start\<close> a table with no keys but \<open>sample_bytes\<close>, a positive integer, and \<open>track_free\<close>, a
  boolean; \<open>result:write\<close> a path without NUL bytes and a table with no keys but \<open>format\<close>, the text
  \<open>pprof\<close> or \<open>folded\<close>, and \<open>sample\<close>, a text without NUL bytes. The configuration has the values that
  were given or the defaults 100, 524288 and false, and the runtime does not refuse it as invalid.
  Every other argument raises an error.
\<close>

theorem accepted_options_are_valid:
  "(\<forall>c. cpu_config args = Inr c \<longleftrightarrow>
      (\<exists>v hz. options_given args [''sample_hz''] [v] \<and> rate_option v hz \<and> uint (cfg_sample_hz c) = hz \<and>
        c = zero_config\<lparr>cfg_kind := LP_COLLECTOR_CPU, cfg_sample_hz := word_of_int hz\<rparr>)) \<and>
   (\<forall>c. cpu_config args = Inr c \<longrightarrow>
      start_refused rt c \<noteq> Some LP_ERR_ARGUMENT \<and> config_checked LP_COLLECTOR_CPU c) \<and>
   (\<forall>c. memory_config args = Inr c \<longleftrightarrow>
      (\<exists>v w bytes flag. options_given args [''sample_bytes'', ''track_free''] [v, w] \<and> bytes_option v bytes \<and> flag_option w flag \<and>
        uint (cfg_sample_bytes c) = bytes \<and>
        c = zero_config\<lparr>cfg_kind := LP_COLLECTOR_MEMORY, cfg_sample_bytes := word_of_int bytes, cfg_track_free := flag\<rparr>)) \<and>
   (\<forall>c. memory_config args = Inr c \<longrightarrow>
      start_refused rt c \<noteq> Some LP_ERR_ARGUMENT \<and> config_checked LP_COLLECTOR_MEMORY c) \<and>
   (\<forall>path format sample. write_options args = Inr (path, format, sample) \<longleftrightarrow>
      (\<exists>v rest w x. args = v # rest \<and> text_option v path \<and> options_given rest [''format'', ''sample''] [w, x] \<and>
        format_option w format \<and> sample_option x sample))"
proof (intro conjI allI)
  show "cpu_config args = Inr c \<longleftrightarrow>
      (\<exists>v hz. options_given args [''sample_hz''] [v] \<and> rate_option v hz \<and> uint (cfg_sample_hz c) = hz \<and>
        c = zero_config\<lparr>cfg_kind := LP_COLLECTOR_CPU, cfg_sample_hz := word_of_int hz\<rparr>)" for c
    unfolding cpu_config_iff using rate_word by fastforce
  show "memory_config args = Inr c \<longleftrightarrow>
      (\<exists>v w bytes flag. options_given args [''sample_bytes'', ''track_free''] [v, w] \<and> bytes_option v bytes \<and> flag_option w flag \<and>
        uint (cfg_sample_bytes c) = bytes \<and>
        c = zero_config\<lparr>cfg_kind := LP_COLLECTOR_MEMORY, cfg_sample_bytes := word_of_int bytes, cfg_track_free := flag\<rparr>)" for c
    unfolding memory_config_iff using bytes_word by fastforce
qed (use cpu_config_accepted memory_config_accepted write_options_iff in blast)+

text \<open>\<open>cpu.start {sample_hz = 250}\<close>\<close>

definition example_args :: "lua_arg list" where
  "example_args = [Arg_Table [(Some (ascii ''sample_hz''), Arg_Number (Some 250) (ascii ''250''))] (\<lambda>key. Some Arg_Nil)]"

lemma example_args_accepted: "\<exists>c. cpu_config example_args = Inr c"
proof -
  have "sint (250 :: 64 word) = 250" by (simp add: sint_uint)
  then have hz: "set_sample_hz (Arg_Number (Some 250) s) c = Inr (c\<lparr>cfg_sample_hz := ucast (250 :: 64 word)\<rparr>)" for s c
    by (simp add: set_sample_hz_def)
  show ?thesis
    by (simp add: example_args_def cpu_config_def Let_def check_no_unknown_options_def getfield_def hz)
qed

lemma accepted_options_are_valid_witness:
  "\<exists>c. cpu_config example_args = Inr c \<and> config_checked LP_COLLECTOR_CPU c \<and> start_refused example_runtime c \<noteq> Some LP_ERR_ARGUMENT \<and>
    uint (cfg_sample_hz c) = 250"
proof -
  obtain c where c: "cpu_config example_args = Inr c" using example_args_accepted by blast
  note all = accepted_options_are_valid [of example_args example_runtime]
  obtain v hz where v: "options_given example_args [''sample_hz''] [v]" "rate_option v hz" "uint (cfg_sample_hz c) = hz"
    using conjunct1 [OF all] c by blast
  have "v = Arg_Number (Some 250) (ascii ''250'')"
    using v(1) by (auto simp: options_given_def example_args_def getfield_def)
  then have "hz = 250" using v(2) by (simp add: rate_option_def sint_uint)
  then show ?thesis using conjunct1 [OF conjunct2 [OF all]] c v(3) by blast
qed

end
