(* ===== verification/Lua_Symbols.thy ===== *)
theory Lua_Symbols
  imports Open_Addressing
begin

text \<open>
  \<open>src/lua_symbols.c\<close>: the names under which Lua code sees the C functions. A depth-first walk
  over \<open>_G\<close> and \<open>package.loaded\<close> joins the keys on its way with dots and keeps, for each
  function, the best name it meets: the shortest, of several the least.

  The tables of the VM are a parameter, a map from the address of a table to its entries in the
  order in which \<open>lua_next\<close> yields them; they may refer to each other in cycles.
\<close>

section \<open>The table of names\<close>

definition LP_LUA_SYMBOL_BITS :: nat where "LP_LUA_SYMBOL_BITS = 12"

definition LP_LUA_SYMBOL_CAPACITY :: nat where "LP_LUA_SYMBOL_CAPACITY = 4096"

definition LP_LUA_TABLE_CAPACITY :: nat where "LP_LUA_TABLE_CAPACITY = 4096"

definition LP_LUA_SYMBOL_MAX_DEPTH :: nat where "LP_LUA_SYMBOL_MAX_DEPTH = 6"

definition LP_LUA_SYMBOL_MAX_NAME :: nat where "LP_LUA_SYMBOL_MAX_NAME = 255"

text \<open>The length of a name is that of its list.\<close>

record lp_lua_symbol_entry =
  ly_function :: pointer
  ly_name :: bytes
  ly_used :: bool

record lp_lua_table_entry =
  lt_table :: pointer
  lt_prefix :: bytes

record lp_lua_symbols =
  ls_entries :: "lp_lua_symbol_entry list"
  ls_visited :: "lp_lua_table_entry list"
  ls_count :: nat
  ls_overflowed :: bool

text \<open>\<open>pointer_hash\<close> is the \<open>pointer_mix\<close> of the prelude.\<close>

definition pointer_hash :: "pointer \<Rightarrow> u64" where
  "pointer_hash pointer = pointer_mix pointer"

text \<open>\<open>memcmp(a, b, n) < 0\<close> for two texts of length \<open>n\<close>.\<close>

fun memcmp_less :: "bytes \<Rightarrow> bytes \<Rightarrow> bool" where
  "memcmp_less (x # xs) (y # ys) = (x < y \<or> x = y \<and> memcmp_less xs ys)"
| "memcmp_less xs ys = False"

definition better_name :: "lp_lua_symbol_entry \<Rightarrow> bytes \<Rightarrow> bool" where
  "better_name entry name \<longleftrightarrow>
     \<not> ly_used entry \<or> length name < length (ly_name entry) \<or>
     (length name = length (ly_name entry) \<and> memcmp_less name (ly_name entry))"

abbreviation names_function :: "pointer \<Rightarrow> lp_lua_symbol_entry \<Rightarrow> bool" where
  "names_function function entry \<equiv> ly_function entry = function"

definition record_name :: "lp_lua_symbols \<Rightarrow> pointer \<Rightarrow> bytes option \<Rightarrow> lp_lua_symbols" where
  "record_name symbols function name =
     (case name of
        None \<Rightarrow> symbols
      | Some name \<Rightarrow>
          if function = NULL \<or> length name = 0 then symbols
          else
            let symbols1 = (if length name > LP_LUA_SYMBOL_MAX_NAME then symbols\<lparr>ls_overflowed := True\<rparr> else symbols);
                name1 = take LP_LUA_SYMBOL_MAX_NAME name
            in case find_slot LP_LUA_SYMBOL_BITS ly_used (names_function function) (ls_entries symbols1) (pointer_hash function) of
                 None \<Rightarrow> symbols1\<lparr>ls_overflowed := True\<rparr>
               | Some index \<Rightarrow>
                   let entry = ls_entries symbols1 ! index
                   in if better_name entry name1
                      then symbols1\<lparr>ls_entries := (ls_entries symbols1)[index := \<lparr>ly_function = function, ly_name = name1, ly_used = True\<rparr>],
                             ls_count := (if ly_used entry then ls_count symbols1 else ls_count symbols1 + 1)\<rparr>
                      else symbols1)"

section \<open>The walk\<close>

text \<open>The loop over \<open>visited\<close>: the first entry of the table.\<close>

primrec visited_index :: "pointer \<Rightarrow> lp_lua_table_entry list \<Rightarrow> nat option" where
  "visited_index table [] = None"
| "visited_index table (e # es) = (if lt_table e = table then Some 0 else map_option Suc (visited_index table es))"

definition visit_table :: "lp_lua_symbols \<Rightarrow> pointer \<Rightarrow> bytes \<Rightarrow> bool \<times> lp_lua_symbols" where
  "visit_table symbols table prefix =
     (case visited_index table (ls_visited symbols) of
        Some i \<Rightarrow>
          let entry = ls_visited symbols ! i
          in if length prefix > length (lt_prefix entry) \<or>
               (length prefix = length (lt_prefix entry) \<and> \<not> memcmp_less prefix (lt_prefix entry))
             then (False, symbols)
             else (True, symbols\<lparr>ls_visited := (ls_visited symbols)[i := entry\<lparr>lt_prefix := prefix\<rparr>]\<rparr>)
      | None \<Rightarrow>
          if length (ls_visited symbols) = LP_LUA_TABLE_CAPACITY then (False, symbols\<lparr>ls_overflowed := True\<rparr>)
          else (True, symbols\<lparr>ls_visited := ls_visited symbols @ [\<lparr>lt_table = table, lt_prefix = prefix\<rparr>]\<rparr>))"

text \<open>The dot between prefix and key.\<close>

definition join_name :: "bytes \<Rightarrow> bytes \<Rightarrow> bytes" where
  "join_name prefix key = (if length prefix = 0 then key else prefix @ 46 # key)"

definition make_name :: "bytes \<Rightarrow> bytes \<Rightarrow> bytes option" where
  "make_name prefix key =
     (let wanted = length prefix + (if length prefix = 0 then 0 else 1) + length key
      in if wanted > LP_LUA_SYMBOL_MAX_NAME then None else Some (join_name prefix key))"

text \<open>A key or value, as far as the walk looks at it: \<open>Lua_CFunction f\<close> is one that \<open>lua_tocfunction\<close> maps to \<open>f\<close>.\<close>

datatype lua_value = Lua_String bytes | Lua_Table pointer | Lua_CFunction pointer | Lua_Other

type_synonym lua_tables = "pointer \<Rightarrow> (lua_value \<times> lua_value) list"

function scan_table :: "lua_tables \<Rightarrow> nat \<Rightarrow> pointer \<Rightarrow> bytes \<Rightarrow> lp_lua_symbols \<Rightarrow> lp_lua_symbols" where
  "scan_table G depth identity prefix symbols =
     (if identity = NULL then symbols
      else
        let (fresh, symbols1) = visit_table symbols identity prefix
        in if \<not> fresh then symbols1
           else fold (\<lambda>(key, v) s.
             case key of
               Lua_String k \<Rightarrow>
                 (case make_name prefix k of
                    None \<Rightarrow> s\<lparr>ls_overflowed := True\<rparr>
                  | Some name \<Rightarrow>
                      (case v of
                         Lua_CFunction f \<Rightarrow> record_name s f (Some name)
                       | Lua_Table t \<Rightarrow> if depth < LP_LUA_SYMBOL_MAX_DEPTH then scan_table G (depth + 1) t name s else s
                       | _ \<Rightarrow> s))
             | _ \<Rightarrow> s) (G identity) symbols1)"
  by pat_completeness auto

termination scan_table
  by (relation "measure (\<lambda>(G, depth, identity, prefix, symbols). LP_LUA_SYMBOL_MAX_DEPTH - depth)") auto

declare scan_table.simps [simp del]

definition empty_symbols :: lp_lua_symbols where
  "empty_symbols = \<lparr>ls_entries = replicate LP_LUA_SYMBOL_CAPACITY \<lparr>ly_function = NULL, ly_name = [], ly_used = False\<rparr>,
     ls_visited = [], ls_count = 0, ls_overflowed = False\<rparr>"

text \<open>
  \<open>memory\<close>: whether the three allocations succeed; \<open>loaded\<close>: the field \<open>LUA_LOADED_TABLE\<close> of
  the registry.
\<close>

definition lp_lua_symbols_collect ::
  "bool \<Rightarrow> bool \<times> bool \<times> bool \<Rightarrow> lua_tables \<Rightarrow> pointer \<Rightarrow> lua_value \<Rightarrow> lp_lua_symbols option" where
  "lp_lua_symbols_collect has_state memory G globals loaded =
     (let (symbols_memory, entries_memory, visited_memory) = memory
      in if \<not> has_state \<or> \<not> symbols_memory then None
         else if \<not> entries_memory \<or> \<not> visited_memory then None
         else
           let symbols1 = scan_table G 0 globals [] empty_symbols;
               symbols2 = symbols1\<lparr>ls_visited := []\<rparr>
           in Some (case loaded of Lua_Table t \<Rightarrow> scan_table G 0 t [] symbols2 | _ \<Rightarrow> symbols2))"

text \<open>The text and the length the callback reports.\<close>

definition lp_lua_symbols_lookup :: "lp_lua_symbols option \<Rightarrow> pointer \<Rightarrow> bytes option \<times> u64" where
  "lp_lua_symbols_lookup symbols function =
     (case symbols of
        None \<Rightarrow> (None, 0)
      | Some s \<Rightarrow>
          if function = NULL then (None, 0)
          else case find_slot LP_LUA_SYMBOL_BITS ly_used (names_function function) (ls_entries s) (pointer_hash function) of
                 None \<Rightarrow> (None, 0)
               | Some index \<Rightarrow>
                   let entry = ls_entries s ! index
                   in if ly_used entry then (Some (ly_name entry), of_nat (length (ly_name entry))) else (None, 0))"

definition lp_lua_symbols_count :: "lp_lua_symbols option \<Rightarrow> nat" where
  "lp_lua_symbols_count symbols = (case symbols of None \<Rightarrow> 0 | Some s \<Rightarrow> ls_count s)"

definition lp_lua_symbols_overflowed :: "lp_lua_symbols option \<Rightarrow> bool" where
  "lp_lua_symbols_overflowed symbols = (case symbols of None \<Rightarrow> False | Some s \<Rightarrow> ls_overflowed s)"

interpretation luatab: open_table LP_LUA_SYMBOL_BITS "ly_used :: lp_lua_symbol_entry \<Rightarrow> bool" ly_function "\<lambda>e. pointer_hash (ly_function e)" pointer_hash
  "\<lambda>k e. ly_function e = k"
  by unfold_locales (auto simp: LP_LUA_SYMBOL_BITS_def)

section \<open>The order of names\<close>

text \<open>Shorter names first, names of one length in the order of \<open>memcmp\<close>.\<close>

definition name_less :: "bytes \<Rightarrow> bytes \<Rightarrow> bool" where
  "name_less a b \<longleftrightarrow> length a < length b \<or> length a = length b \<and> memcmp_less a b"

definition name_le :: "bytes \<Rightarrow> bytes \<Rightarrow> bool" where
  "name_le a b \<longleftrightarrow> a = b \<or> name_less a b"

lemma memcmp_irrefl [simp]: "\<not> memcmp_less a a"
  by (induction a) auto

lemma memcmp_trans: "memcmp_less a b \<Longrightarrow> memcmp_less b c \<Longrightarrow> memcmp_less a c"
proof (induction a b arbitrary: c rule: memcmp_less.induct)
  case (1 x xs y ys)
  then show ?case by (cases c) (auto dest: order.strict_trans)
qed simp_all

lemma memcmp_total: "length a = length b \<Longrightarrow> a = b \<or> memcmp_less a b \<or> memcmp_less b a"
proof (induction a b rule: memcmp_less.induct)
  case (1 x xs y ys)
  then show ?case by (cases x y rule: linorder_cases) auto
qed auto

lemma memcmp_append: "length a = length b \<Longrightarrow> memcmp_less (a @ x) (b @ x) = memcmp_less a b"
  by (induction a b rule: memcmp_less.induct) auto

lemma name_le_refl [simp]: "name_le a a"
  by (simp add: name_le_def)

lemma name_le_trans: "name_le a b \<Longrightarrow> name_le b c \<Longrightarrow> name_le a c"
  using memcmp_trans [of a b c] by (auto simp: name_le_def name_less_def)

lemma not_name_less: "\<not> name_less a b \<longleftrightarrow> name_le b a"
  using memcmp_total [of a b] memcmp_trans [of a b a] memcmp_irrefl [of a] unfolding name_le_def name_less_def
  by (cases "length a" "length b" rule: linorder_cases) auto

lemma name_le_length: "name_le a b \<Longrightarrow> length a \<le> length b"
  by (auto simp: name_le_def name_less_def)

lemma name_le_join: "name_le p q \<Longrightarrow> name_le (join_name p k) (join_name q k)"
  by (auto simp: name_le_def name_less_def join_name_def memcmp_append)

lemma better_name_less: "better_name e n \<longleftrightarrow> \<not> ly_used e \<or> name_less n (ly_name e)"
  by (auto simp: better_name_def name_less_def)

section \<open>The names found\<close>

abbreviation names_ok :: "lp_lua_symbol_entry list \<Rightarrow> bool" where
  "names_ok \<equiv> table_ok LP_LUA_SYMBOL_BITS ly_used ly_function (\<lambda>e. pointer_hash (ly_function e)) pointer_hash"

text \<open>
  The invariant of a walk: a table of names, as many as counted, none longer than the limit, for
  no function null; each table visited once, and at most as many as there is room for.
\<close>

definition symbols_ok :: "lp_lua_symbols \<Rightarrow> bool" where
  "symbols_ok s \<longleftrightarrow>
     names_ok (ls_entries s) \<and> ls_count s = length (filter ly_used (ls_entries s)) \<and>
     (\<forall>e \<in> set (ls_entries s). ly_used e \<longrightarrow> ly_function e \<noteq> NULL \<and> ly_name e \<noteq> [] \<and> length (ly_name e) \<le> LP_LUA_SYMBOL_MAX_NAME) \<and>
     distinct (map lt_table (ls_visited s)) \<and> length (ls_visited s) \<le> LP_LUA_TABLE_CAPACITY"

definition name_of :: "lp_lua_symbols \<Rightarrow> pointer \<Rightarrow> bytes option" where
  "name_of s f = fst (lp_lua_symbols_lookup (Some s) f)"

definition prefix_of :: "lp_lua_symbols \<Rightarrow> pointer \<Rightarrow> bytes option" where
  "prefix_of s t = map_option (\<lambda>i. lt_prefix (ls_visited s ! i)) (visited_index t (ls_visited s))"

lemma capacity: "LP_LUA_SYMBOL_CAPACITY = 2 ^ LP_LUA_SYMBOL_BITS"
  by (simp add: LP_LUA_SYMBOL_CAPACITY_def LP_LUA_SYMBOL_BITS_def)

lemma name_of_used:
  assumes ok: "symbols_ok s"
  shows "name_of s f = Some n \<longleftrightarrow> (\<exists>e \<in> set (ls_entries s). ly_used e \<and> ly_function e = f \<and> ly_name e = n)"
proof -
  have t: "names_ok (ls_entries s)" and len: "length (ls_entries s) = 2 ^ LP_LUA_SYMBOL_BITS"
    using ok luatab.ok_length by (simp_all add: symbols_ok_def)
  show ?thesis
  proof
    assume n: "name_of s f = Some n"
    then obtain i where i: "luatab.slot_for f (ls_entries s) = Some i" "ly_used (ls_entries s ! i)" "ly_name (ls_entries s ! i) = n"
      by (auto simp: name_of_def lp_lua_symbols_lookup_def Let_def split: if_splits option.splits)
    then show "\<exists>e \<in> set (ls_entries s). ly_used e \<and> ly_function e = f \<and> ly_name e = n"
      using luatab.slot_for_used [OF t i(1,2)] luatab.slot_for_bound [OF i(1)] len by (metis nth_mem)
  next
    assume "\<exists>e \<in> set (ls_entries s). ly_used e \<and> ly_function e = f \<and> ly_name e = n"
    then obtain i where i: "i < 2 ^ LP_LUA_SYMBOL_BITS" "ly_used (ls_entries s ! i)" "ly_function (ls_entries s ! i) = f"
      "ly_name (ls_entries s ! i) = n" using len by (auto simp: in_set_conv_nth)
    moreover have "f \<noteq> NULL" using ok i len nth_mem [of i "ls_entries s"] by (auto simp: symbols_ok_def)
    ultimately show "name_of s f = Some n"
      using luatab.slot_for_present [OF t i(1-3)] by (simp add: name_of_def lp_lua_symbols_lookup_def Let_def)
  qed
qed

lemma visited_index_Some: "visited_index t es = Some i \<Longrightarrow> i < length es \<and> lt_table (es ! i) = t"
  by (induction es arbitrary: i) (auto split: if_splits)

lemma visited_index_None: "visited_index t es = None \<longleftrightarrow> t \<notin> lt_table ` set es"
  by (induction es) auto

lemma visited_index_snoc:
  "visited_index t (es @ [e]) = (case visited_index t es of Some i \<Rightarrow> Some i | None \<Rightarrow> if lt_table e = t then Some (length es) else None)"
  by (induction es) (auto split: option.splits)

lemma visited_index_update:
  "i < length es \<Longrightarrow> lt_table e = lt_table (es ! i) \<Longrightarrow> visited_index t (es[i := e]) = visited_index t es"
  by (induction es arbitrary: i) (auto simp: nth_Cons split: nat.splits)

text \<open>One offer of a name: the function is found under the better of the two, the others as before.\<close>

definition better_of :: "bytes option \<Rightarrow> bytes \<Rightarrow> bytes" where
  "better_of old n = (case old of None \<Rightarrow> n | Some m \<Rightarrow> if name_less n m then n else m)"

lemma count_update:
  assumes "i < length es" and "used e'"
  shows "length (filter used (es[i := e'])) = (if used (es ! i) then length (filter used es) else length (filter used es) + 1)"
  using assms
proof (induction es arbitrary: i)
  case (Cons e es)
  then show ?case by (cases i) auto
qed simp

lemma name_of_update:
  assumes ok: "symbols_ok s" and i: "i < length (ls_entries s)" and s': "s' = s\<lparr>ls_entries := (ls_entries s)[i := e], ls_count := c\<rparr>"
    and ok': "symbols_ok s'" and e: "ly_used e" "ly_function e = f"
    and slot: "ly_used (ls_entries s ! i) \<Longrightarrow> ly_function (ls_entries s ! i) = f"
  shows "name_of s' f = Some (ly_name e)" "g \<noteq> f \<Longrightarrow> name_of s' g = name_of s g"
proof -
  show "name_of s' f = Some (ly_name e)"
    unfolding name_of_used [OF ok'] using i e by (auto simp: s' set_update_memI)
  have "name_of s' g = Some n \<longleftrightarrow> name_of s g = Some n" if g: "g \<noteq> f" for g n
  proof -
    have at: "ls_entries s' ! j = ls_entries s ! j" if "j < length (ls_entries s)" "j \<noteq> i" for j using that by (simp add: s')
    have len: "length (ls_entries s') = length (ls_entries s)" by (simp add: s')
    have "(\<exists>j<length (ls_entries s). ly_used (ls_entries s' ! j) \<and> ly_function (ls_entries s' ! j) = g \<and> ly_name (ls_entries s' ! j) = n) \<longleftrightarrow>
        (\<exists>j<length (ls_entries s). ly_used (ls_entries s ! j) \<and> ly_function (ls_entries s ! j) = g \<and> ly_name (ls_entries s ! j) = n)"
    proof (rule ex_cong1)
      fix j
      show "(j < length (ls_entries s) \<and> ly_used (ls_entries s' ! j) \<and> ly_function (ls_entries s' ! j) = g \<and> ly_name (ls_entries s' ! j) = n) =
          (j < length (ls_entries s) \<and> ly_used (ls_entries s ! j) \<and> ly_function (ls_entries s ! j) = g \<and> ly_name (ls_entries s ! j) = n)"
        using at [of j] e g slot i by (cases "j = i") (auto simp: s')
    qed
    then show ?thesis unfolding name_of_used [OF ok'] name_of_used [OF ok] by (simp add: in_set_conv_nth Bex_def len) metis
  qed
  then show "name_of s' g = name_of s g" if "g \<noteq> f" using that by (metis not_None_eq)
qed

lemma record_name_cases:
  assumes ok: "symbols_ok s" and f: "f \<noteq> NULL" and n: "n \<noteq> []" "length n \<le> LP_LUA_SYMBOL_MAX_NAME"
  obtains (full) "record_name s f (Some n) = s\<lparr>ls_overflowed := True\<rparr>"
  | (recorded) s' where "record_name s f (Some n) = s'" "symbols_ok s'" "ls_overflowed s' = ls_overflowed s"
      "ls_visited s' = ls_visited s" "name_of s' f = Some (better_of (name_of s f) n)" "\<And>g. g \<noteq> f \<Longrightarrow> name_of s' g = name_of s g"
proof (cases "luatab.slot_for f (ls_entries s)")
  case None
  then show thesis using full f n by (simp add: record_name_def Let_def)
next
  case (Some i)
  let ?e = "ls_entries s ! i" let ?new = "\<lparr>ly_function = f, ly_name = n, ly_used = True\<rparr>"
  have t: "names_ok (ls_entries s)" using ok by (simp add: symbols_ok_def)
  have i: "i < length (ls_entries s)" using luatab.slot_for_bound [OF Some] luatab.ok_length [OF t] by simp
  have used: "ly_used ?e \<Longrightarrow> ly_function ?e = f" using luatab.slot_for_used [OF t Some] by simp
  have old: "name_of s f = (if ly_used ?e then Some (ly_name ?e) else None)"
    using Some f by (simp add: name_of_def lp_lua_symbols_lookup_def Let_def)
  have run: "record_name s f (Some n) = (if better_name ?e n
      then s\<lparr>ls_entries := (ls_entries s)[i := ?new], ls_count := (if ly_used ?e then ls_count s else ls_count s + 1)\<rparr> else s)"
    using f n Some by (simp add: record_name_def Let_def)
  show thesis
  proof (cases "better_name ?e n")
    case False
    then have "better_of (name_of s f) n = ly_name ?e" "ly_used ?e" by (auto simp: better_name_less better_of_def old)
    then show thesis using recorded [of s] run False ok old by simp
  next
    case True
    let ?s = "s\<lparr>ls_entries := (ls_entries s)[i := ?new], ls_count := (if ly_used ?e then ls_count s else ls_count s + 1)\<rparr>"
    have "names_ok ((ls_entries s)[i := ?new])"
      using luatab.ok_insert [OF t Some, of ?new] luatab.ok_rewrite [OF t luatab.slot_for_bound [OF Some], of ?new] used by (cases "ly_used ?e") auto
    moreover have "length (filter ly_used ((ls_entries s)[i := ?new])) = ls_count ?s"
      using count_update [OF i, of ly_used ?new] ok by (simp add: symbols_ok_def)
    moreover have "set ((ls_entries s)[i := ?new]) \<subseteq> insert ?new (set (ls_entries s))" by (rule set_update_subset_insert)
    ultimately have ok': "symbols_ok ?s" using ok f n unfolding symbols_ok_def by auto
    have "better_of (name_of s f) n = n" using True by (auto simp: better_name_less better_of_def old)
    then show thesis
      using recorded [of ?s] run True ok' name_of_update [OF ok i refl ok', of f] used by simp
  qed
qed

section \<open>One step of the walk\<close>

text \<open>What a walk may do to the tables: names and prefixes only become better, an overflow stays.\<close>

definition improves :: "lp_lua_symbols \<Rightarrow> lp_lua_symbols \<Rightarrow> bool" where
  "improves s s' \<longleftrightarrow>
     symbols_ok s' \<and> (ls_overflowed s \<longrightarrow> ls_overflowed s') \<and>
     (\<forall>f n. name_of s f = Some n \<longrightarrow> (\<exists>n'. name_of s' f = Some n' \<and> name_le n' n)) \<and>
     (\<forall>t p. prefix_of s t = Some p \<longrightarrow> (\<exists>q. prefix_of s' t = Some q \<and> name_le q p))"

lemma improves_refl [simp]: "symbols_ok s \<Longrightarrow> improves s s"
  by (auto simp: improves_def)

lemma improves_ok: "improves s s' \<Longrightarrow> symbols_ok s'" "improves s s' \<Longrightarrow> ls_overflowed s \<Longrightarrow> ls_overflowed s'"
  and improves_name: "improves s s' \<Longrightarrow> name_of s f = Some n \<Longrightarrow> \<exists>n'. name_of s' f = Some n' \<and> name_le n' n"
  and improves_prefix: "improves s s' \<Longrightarrow> prefix_of s t = Some p \<Longrightarrow> \<exists>q. prefix_of s' t = Some q \<and> name_le q p"
  by (simp_all add: improves_def)

lemma improves_trans: assumes "improves s s1" "improves s1 s2" shows "improves s s2"
proof -
  have "\<exists>n'. name_of s2 f = Some n' \<and> name_le n' n" if n: "name_of s f = Some n" for f n
  proof -
    obtain n1 where n1: "name_of s1 f = Some n1" "name_le n1 n" using improves_name [OF assms(1) n] by blast
    then show ?thesis using improves_name [OF assms(2) n1(1)] name_le_trans by blast
  qed
  moreover have "\<exists>q. prefix_of s2 t = Some q \<and> name_le q p" if p: "prefix_of s t = Some p" for t p
  proof -
    obtain q1 where q1: "prefix_of s1 t = Some q1" "name_le q1 p" using improves_prefix [OF assms(1) p] by blast
    then show ?thesis using improves_prefix [OF assms(2) q1(1)] name_le_trans by blast
  qed
  ultimately show ?thesis using improves_ok [OF assms(1)] improves_ok [OF assms(2)] unfolding improves_def by blast
qed

lemma name_of_entries: "ls_entries s' = ls_entries s \<Longrightarrow> name_of s' f = name_of s f"
  by (simp add: name_of_def lp_lua_symbols_lookup_def split: option.split)

lemma overflow_fields [simp]:
  "symbols_ok (s\<lparr>ls_overflowed := b\<rparr>) = symbols_ok s" "name_of (s\<lparr>ls_overflowed := b\<rparr>) f = name_of s f"
  "prefix_of (s\<lparr>ls_overflowed := b\<rparr>) t = prefix_of s t"
  by (simp add: symbols_ok_def, rule name_of_entries, simp, simp add: prefix_of_def)

lemma improves_overflow [simp]: "symbols_ok s \<Longrightarrow> improves s (s\<lparr>ls_overflowed := True\<rparr>)"
  by (simp add: improves_def)

lemma better_of_le: "name_le (better_of old n) n" "old = Some m \<Longrightarrow> name_le (better_of old n) m"
  "better_of old n = n \<or> old = Some (better_of old n)"
  using not_name_less by (auto simp: better_of_def name_le_def split: option.splits)

lemma record_name_improves:
  assumes ok: "symbols_ok s" and len: "length n \<le> LP_LUA_SYMBOL_MAX_NAME"
  shows "improves s (record_name s f (Some n))"
    "name_of (record_name s f (Some n)) g = Some m \<Longrightarrow> name_of s g = Some m \<or> g = f \<and> m = n"
    "f \<noteq> NULL \<Longrightarrow> n \<noteq> [] \<Longrightarrow> \<not> ls_overflowed (record_name s f (Some n)) \<Longrightarrow>
      \<exists>m. name_of (record_name s f (Some n)) f = Some m \<and> name_le m n"
    "prefix_of (record_name s f (Some n)) t = prefix_of s t"
proof -
  have "improves s (record_name s f (Some n)) \<and>
      (name_of (record_name s f (Some n)) g = Some m \<longrightarrow> name_of s g = Some m \<or> g = f \<and> m = n) \<and>
      (f \<noteq> NULL \<longrightarrow> n \<noteq> [] \<longrightarrow> \<not> ls_overflowed (record_name s f (Some n)) \<longrightarrow>
        (\<exists>m. name_of (record_name s f (Some n)) f = Some m \<and> name_le m n)) \<and>
      prefix_of (record_name s f (Some n)) t = prefix_of s t"
  proof (cases "f = NULL \<or> n = []")
    case True
    then show ?thesis using ok by (auto simp: record_name_def)
  next
    case False
    then have f: "f \<noteq> NULL" "n \<noteq> []" by simp_all
    show ?thesis
      using ok f len
    proof (cases rule: record_name_cases)
      case full
      then show ?thesis using ok by simp
    next
      case (recorded s')
      have prefixes: "prefix_of s' t = prefix_of s t" for t using recorded(4) by (simp add: prefix_of_def)
      have "\<exists>n'. name_of s' h = Some n' \<and> name_le n' l" if "name_of s h = Some l" for h l
        using that recorded(5,6) better_of_le(2) by (cases "h = f") auto
      then have "improves s s'" using recorded(2,3) prefixes by (auto simp: improves_def)
      moreover have "name_of s' g = Some m \<longrightarrow> name_of s g = Some m \<or> g = f \<and> m = n"
        using recorded(5,6) better_of_le(3) by (cases "g = f") auto
      ultimately show ?thesis using recorded(1,5) prefixes better_of_le(1) by auto
    qed
  qed
  then show "improves s (record_name s f (Some n))"
    "name_of (record_name s f (Some n)) g = Some m \<Longrightarrow> name_of s g = Some m \<or> g = f \<and> m = n"
    "f \<noteq> NULL \<Longrightarrow> n \<noteq> [] \<Longrightarrow> \<not> ls_overflowed (record_name s f (Some n)) \<Longrightarrow>
      \<exists>m. name_of (record_name s f (Some n)) f = Some m \<and> name_le m n"
    "prefix_of (record_name s f (Some n)) t = prefix_of s t" by simp_all
qed

text \<open>A table is walked when it is new or its name has become better.\<close>

lemma visit_table_cases:
  assumes ok: "symbols_ok s"
  obtains (full) "visit_table s t p = (False, s\<lparr>ls_overflowed := True\<rparr>)"
  | (known) q where "visit_table s t p = (False, s)" "prefix_of s t = Some q" "name_le q p"
  | (fresh) s' where "visit_table s t p = (True, s')" "improves s s'" "prefix_of s' t = Some p"
      "\<And>u. u \<noteq> t \<Longrightarrow> prefix_of s' u = prefix_of s u" "\<And>f. name_of s' f = name_of s f" "ls_overflowed s' = ls_overflowed s"
proof (cases "visited_index t (ls_visited s)")
  case None
  show thesis
  proof (cases "length (ls_visited s) = LP_LUA_TABLE_CAPACITY")
    case True
    then show thesis using full None by (simp add: visit_table_def)
  next
    case False
    let ?s = "s\<lparr>ls_visited := ls_visited s @ [\<lparr>lt_table = t, lt_prefix = p\<rparr>]\<rparr>"
    have "symbols_ok ?s" using ok None False by (auto simp: symbols_ok_def visited_index_None)
    moreover have names: "name_of ?s f = name_of s f" for f by (rule name_of_entries) simp
    moreover have others: "prefix_of ?s u = prefix_of s u" if "u \<noteq> t" for u
      using that visited_index_Some [of u "ls_visited s"]
      by (cases "visited_index u (ls_visited s)") (auto simp: prefix_of_def visited_index_snoc nth_append)
    moreover have "prefix_of ?s t = Some p" "prefix_of s t = None" using None by (simp_all add: prefix_of_def visited_index_snoc)
    moreover have "improves s ?s" unfolding improves_def
    proof (intro conjI allI impI)
      show "\<exists>q. prefix_of ?s u = Some q \<and> name_le q m" if "prefix_of s u = Some m" for u m
        using that others [of u] \<open>prefix_of s t = None\<close> by (cases "u = t") auto
    qed (use \<open>symbols_ok ?s\<close> names in simp_all)
    ultimately show thesis using fresh [of ?s] None False by (simp add: visit_table_def)
  qed
next
  case (Some i)
  let ?e = "ls_visited s ! i"
  have i: "i < length (ls_visited s)" "lt_table ?e = t" using visited_index_Some [OF Some] by simp_all
  have old: "prefix_of s t = Some (lt_prefix ?e)" using Some by (simp add: prefix_of_def)
  have run: "visit_table s t p = (if name_less p (lt_prefix ?e)
      then (True, s\<lparr>ls_visited := (ls_visited s)[i := ?e\<lparr>lt_prefix := p\<rparr>]\<rparr>) else (False, s))"
    using Some by (auto simp: visit_table_def Let_def name_less_def)
  show thesis
  proof (cases "name_less p (lt_prefix ?e)")
    case False
    then show thesis using known run old not_name_less by simp
  next
    case True
    let ?s = "s\<lparr>ls_visited := (ls_visited s)[i := ?e\<lparr>lt_prefix := p\<rparr>]\<rparr>"
    have index: "visited_index u (ls_visited ?s) = visited_index u (ls_visited s)" for u
      using visited_index_update [OF i(1)] by simp
    have "map lt_table (ls_visited ?s) = map lt_table (ls_visited s)" using i(1) by (simp add: map_update list_update_same_conv)
    then have "symbols_ok ?s" using ok by (simp add: symbols_ok_def)
    moreover have names: "name_of ?s f = name_of s f" for f by (rule name_of_entries) simp
    moreover have others: "prefix_of ?s u = prefix_of s u" if "u \<noteq> t" for u
      using that visited_index_Some [of u "ls_visited s"] i
      by (cases "visited_index u (ls_visited s)") (auto simp: prefix_of_def index [simplified] nth_list_update)
    moreover have now: "prefix_of ?s t = Some p" using Some i by (simp add: prefix_of_def index [simplified])
    moreover have "improves s ?s" unfolding improves_def
    proof (intro conjI allI impI)
      show "\<exists>q. prefix_of ?s u = Some q \<and> name_le q m" if "prefix_of s u = Some m" for u m
        using that others [of u] old now True by (cases "u = t") (auto simp: name_le_def)
    qed (use \<open>symbols_ok ?s\<close> names in simp_all)
    ultimately show thesis using fresh [of ?s] run True by simp
  qed
qed

section \<open>What the walk reaches\<close>

text \<open>The names of tables, along every path of string keys.\<close>

inductive table_named :: "lua_tables \<Rightarrow> pointer \<Rightarrow> bytes \<Rightarrow> pointer \<Rightarrow> bytes \<Rightarrow> bool" for G t p where
  here: "table_named G t p t p"
| below: "table_named G t p u q \<Longrightarrow> (Lua_String k, Lua_Table v) \<in> set (G u) \<Longrightarrow> table_named G t p v (join_name q k)"

text \<open>The names of functions: what Lua code can write to call them.\<close>

definition visible_as :: "lua_tables \<Rightarrow> pointer \<Rightarrow> bytes \<Rightarrow> pointer \<Rightarrow> bytes \<Rightarrow> bool" where
  "visible_as G t p f n \<longleftrightarrow>
     (\<exists>u q k. table_named G t p u q \<and> (Lua_String k, Lua_CFunction f) \<in> set (G u) \<and> n = join_name q k)"

lemma table_named_step:
  assumes "(Lua_String k, Lua_Table v) \<in> set (G t)" and "table_named G v (join_name p k) u q"
  shows "table_named G t p u q"
  using assms(2,1) by (induction rule: table_named.induct) (auto intro: table_named.intros)

lemma visible_as_step: "(Lua_String k, Lua_Table v) \<in> set (G t) \<Longrightarrow> visible_as G v (join_name p k) f n \<Longrightarrow> visible_as G t p f n"
  using table_named_step unfolding visible_as_def by blast

text \<open>The body of the loop over the entries of a table.\<close>

definition scan_entry :: "lua_tables \<Rightarrow> nat \<Rightarrow> bytes \<Rightarrow> lua_value \<times> lua_value \<Rightarrow> lp_lua_symbols \<Rightarrow> lp_lua_symbols" where
  "scan_entry G depth prefix e s =
     (case fst e of
        Lua_String k \<Rightarrow>
          (case make_name prefix k of
             None \<Rightarrow> s\<lparr>ls_overflowed := True\<rparr>
           | Some name \<Rightarrow>
               (case snd e of
                  Lua_CFunction f \<Rightarrow> record_name s f (Some name)
                | Lua_Table t \<Rightarrow> if depth < LP_LUA_SYMBOL_MAX_DEPTH then scan_table G (depth + 1) t name s else s
                | _ \<Rightarrow> s))
      | _ \<Rightarrow> s)"

lemma scan_table_entries:
  "scan_table G depth t p s =
     (if t = NULL then s
      else let (fresh, s1) = visit_table s t p in if \<not> fresh then s1 else fold (scan_entry G depth p) (G t) s1)"
proof -
  have body: "(\<lambda>(key, v) s. case key of
               Lua_String k \<Rightarrow>
                 (case make_name p k of
                    None \<Rightarrow> s\<lparr>ls_overflowed := True\<rparr>
                  | Some name \<Rightarrow>
                      (case v of
                         Lua_CFunction f \<Rightarrow> record_name s f (Some name)
                       | Lua_Table t \<Rightarrow> if depth < LP_LUA_SYMBOL_MAX_DEPTH then scan_table G (depth + 1) t name s else s
                       | _ \<Rightarrow> s))
             | _ \<Rightarrow> s) = scan_entry G depth p"
    by (intro ext) (simp add: scan_entry_def case_prod_beta)
  show ?thesis by (subst scan_table.simps) (simp only: body)
qed

text \<open>
  An entry has been dealt with: a function is known under a name as good as the one here, a table
  has been walked under such a name. The second only for a prefix that the depth cannot cut off.
\<close>

definition entry_done :: "lp_lua_symbols \<Rightarrow> bytes \<Rightarrow> lua_value \<times> lua_value \<Rightarrow> bool" where
  "entry_done s p e \<longleftrightarrow>
     (case e of
        (Lua_String k, Lua_CFunction f) \<Rightarrow> f \<noteq> NULL \<longrightarrow> (\<exists>n. name_of s f = Some n \<and> name_le n (join_name p k))
      | (Lua_String k, Lua_Table t) \<Rightarrow>
          t \<noteq> NULL \<longrightarrow> length p \<le> 10 \<longrightarrow> (\<exists>q. prefix_of s t = Some q \<and> name_le q (join_name p k))
      | _ \<Rightarrow> True)"

definition table_done :: "lua_tables \<Rightarrow> lp_lua_symbols \<Rightarrow> pointer \<Rightarrow> bytes \<Rightarrow> bool" where
  "table_done G s t p \<longleftrightarrow> (\<forall>e \<in> set (G t). entry_done s p e)"

lemma entry_done_improves: "improves s s' \<Longrightarrow> entry_done s p e \<Longrightarrow> entry_done s' p e"
proof -
  assume i: "improves s s'" and d: "entry_done s p e"
  have name: "\<exists>n'. name_of s' f = Some n' \<and> name_le n' m" if "\<exists>n. name_of s f = Some n \<and> name_le n m" for f m
    using that improves_name [OF i] name_le_trans by blast
  have prefix: "\<exists>q. prefix_of s' t = Some q \<and> name_le q m" if "\<exists>q. prefix_of s t = Some q \<and> name_le q m" for t m
    using that improves_prefix [OF i] name_le_trans by blast
  show "entry_done s' p e"
    using d name prefix by (auto simp: entry_done_def split: prod.splits lua_value.splits)
qed

text \<open>After a part of the walk that began in \<open>s\<close>: every name found since then is there to be seen.\<close>

definition walked :: "lua_tables \<Rightarrow> (pointer \<Rightarrow> bytes \<Rightarrow> bool) \<Rightarrow> lp_lua_symbols \<Rightarrow> lp_lua_symbols \<Rightarrow> bool" where
  "walked G seen s s' \<longleftrightarrow>
     improves s s' \<and> (\<forall>f n. name_of s' f = Some n \<longrightarrow> name_of s f = Some n \<or> seen f n)"

lemma walked_trans: "walked G seen s s1 \<Longrightarrow> walked G seen s1 s2 \<Longrightarrow> walked G seen s s2"
  using improves_trans unfolding walked_def by blast

lemma walked_mono: "walked G seen s s' \<Longrightarrow> (\<And>f n. seen f n \<Longrightarrow> seen' f n) \<Longrightarrow> walked G seen' s s'"
  unfolding walked_def by blast

lemma make_name_Some: "make_name p k = Some n \<Longrightarrow> n = join_name p k \<and> length n \<le> LP_LUA_SYMBOL_MAX_NAME"
  by (auto simp: make_name_def join_name_def Let_def split: if_splits)

lemma scan_table_walked: "symbols_ok s \<Longrightarrow> walked G (visible_as G t p) s (scan_table G depth t p s)"
proof (induction "LP_LUA_SYMBOL_MAX_DEPTH - depth" arbitrary: depth t p s rule: less_induct)
  case less
  have entry: "walked G (visible_as G t p) v (scan_entry G depth p e v)" if "symbols_ok v" "e \<in> set (G t)" for v e
  proof -
    obtain key x where e: "e = (key, x)" by (cases e)
    show ?thesis
    proof (cases key)
      case (Lua_String k)
      show ?thesis
      proof (cases "make_name p k")
        case None
        then show ?thesis using that(1) by (simp add: scan_entry_def e Lua_String walked_def)
      next
        case (Some n)
        note n = make_name_Some [OF Some]
        show ?thesis
        proof (cases x)
          case (Lua_CFunction f)
          have "visible_as G t p f n"
            using n that(2) table_named.here unfolding visible_as_def e Lua_String Lua_CFunction by blast
          then show ?thesis
            using record_name_improves(1,2) [OF that(1), of n f] n by (auto simp: scan_entry_def e Lua_String Some Lua_CFunction walked_def)
        next
          case (Lua_Table u)
          show ?thesis
          proof (cases "depth < LP_LUA_SYMBOL_MAX_DEPTH")
            case True
            then have "walked G (visible_as G u n) v (scan_table G (depth + 1) u n v)" by (intro less that(1)) simp
            then have "walked G (visible_as G t p) v (scan_table G (depth + 1) u n v)"
              using visible_as_step [of k u G t p] that(2) n by (auto simp: e Lua_String Lua_Table intro: walked_mono)
            then show ?thesis using True by (simp add: scan_entry_def e Lua_String Some Lua_Table)
          qed (use that(1) in \<open>simp add: scan_entry_def e Lua_String Some Lua_Table walked_def\<close>)
        qed (use that(1) in \<open>simp_all add: scan_entry_def e Lua_String Some walked_def\<close>)
      qed
    qed (use that(1) in \<open>simp_all add: scan_entry_def e walked_def\<close>)
  qed
  have entries: "walked G (visible_as G t p) v (fold (scan_entry G depth p) es v)" if "symbols_ok v" "set es \<subseteq> set (G t)" for es v
    using that
  proof (induction es arbitrary: v)
    case (Cons e es)
    have 1: "walked G (visible_as G t p) v (scan_entry G depth p e v)" using entry Cons.prems by simp
    then have "symbols_ok (scan_entry G depth p e v)" using improves_ok by (auto simp: walked_def)
    from Cons.IH [OF this] Cons.prems(2) 1 show ?case using walked_trans by auto
  qed (simp add: walked_def)
  have refl: "walked G (visible_as G t p) s s" using less.prems by (simp add: walked_def)
  show ?case
    using less.prems
  proof (cases rule: visit_table_cases [where t = t and p = p])
    case full
    have "scan_table G depth t p s = (if t = NULL then s else s\<lparr>ls_overflowed := True\<rparr>)"
      by (subst scan_table_entries) (simp add: full)
    then show ?thesis using refl less.prems by (simp add: walked_def)
  next
    case (known q)
    have "scan_table G depth t p s = s" by (subst scan_table_entries) (simp add: known(1))
    then show ?thesis using refl by simp
  next
    case (fresh s1)
    have run: "scan_table G depth t p s = (if t = NULL then s else fold (scan_entry G depth p) (G t) s1)"
      by (subst scan_table_entries) (simp add: fresh(1))
    have rest: "walked G (visible_as G t p) s1 (fold (scan_entry G depth p) (G t) s1)"
      using entries [OF improves_ok(1) [OF fresh(2)]] by simp
    have "walked G (visible_as G t p) s s1" using fresh(2,5) by (simp add: walked_def)
    from walked_trans [OF this rest] refl show ?thesis unfolding run by (auto split: if_split)
  qed
qed

section \<open>What the walk cannot miss\<close>

lemma scan_entry_improves: "symbols_ok s \<Longrightarrow> improves s (scan_entry G depth p e s)"
proof -
  assume ok: "symbols_ok s"
  have "improves s (record_name s f (Some n))" if "make_name p k = Some n" for f n k
    by (rule record_name_improves(1) [OF ok conjunct2 [OF make_name_Some [OF that]]])
  moreover have "improves s (scan_table G (depth + 1) t n s)" for t n
    using scan_table_walked [OF ok, of G t n "depth + 1"] by (simp add: walked_def)
  ultimately show ?thesis
    using ok by (auto simp: scan_entry_def split: lua_value.split option.split)
qed

lemma scan_entries_improve: "symbols_ok s \<Longrightarrow> improves s (fold (scan_entry G depth p) es s)"
proof (induction es arbitrary: s)
  case (Cons e es)
  note 1 = scan_entry_improves [OF Cons.prems, of G depth p e]
  from improves_trans [OF 1 Cons.IH [OF improves_ok(1) [OF 1]]] show ?case by simp
qed simp

text \<open>
  A walk that began in \<open>s\<close> has finished: its table is named at least as well, and every table
  named anew since then is done.
\<close>

definition finished :: "lua_tables \<Rightarrow> lp_lua_symbols \<Rightarrow> lp_lua_symbols \<Rightarrow> bool" where
  "finished G s s' \<longleftrightarrow> improves s s' \<and> (\<forall>t p. prefix_of s' t = Some p \<longrightarrow> prefix_of s t = Some p \<or> table_done G s' t p)"

lemma table_done_improves: "improves s s' \<Longrightarrow> table_done G s t p \<Longrightarrow> table_done G s' t p"
  using entry_done_improves unfolding table_done_def by blast

lemma finished_refl [simp]: "symbols_ok s \<Longrightarrow> finished G s s"
  by (simp add: finished_def)

lemma finished_trans:
  assumes 1: "finished G s s1" and 2: "finished G s1 s2" shows "finished G s s2"
proof -
  have i: "improves s s1" "improves s1 s2" using 1 2 by (simp_all add: finished_def)
  have "prefix_of s t = Some p \<or> table_done G s2 t p" if "prefix_of s2 t = Some p" for t p
  proof (cases "prefix_of s1 t = Some p")
    case True
    then show ?thesis using 1 table_done_improves [OF i(2)] unfolding finished_def by blast
  next
    case False
    then show ?thesis using 2 that unfolding finished_def by blast
  qed
  then show ?thesis using improves_trans [OF i] by (simp add: finished_def)
qed

definition keys_ok :: "lua_tables \<Rightarrow> bool" where
  "keys_ok G \<longleftrightarrow> (\<forall>t v. (Lua_String [], v) \<notin> set (G t))"

text \<open>Each level adds a dot and a key to the prefix, so that the prefix bounds the depth.\<close>

definition depth_ok :: "nat \<Rightarrow> bytes \<Rightarrow> bool" where
  "depth_ok depth p \<longleftrightarrow> depth = 0 \<or> 2 * depth \<le> length p + 1 \<and> p \<noteq> []"

lemma depth_ok_join: "depth_ok depth p \<Longrightarrow> k \<noteq> [] \<Longrightarrow> depth_ok (depth + 1) (join_name p k)"
  by (cases k) (auto simp: depth_ok_def join_name_def)

lemma scan_table_finished:
  assumes keys: "keys_ok G"
  shows "symbols_ok s \<Longrightarrow> depth_ok depth p \<Longrightarrow> \<not> ls_overflowed (scan_table G depth t p s) \<Longrightarrow>
    finished G s (scan_table G depth t p s) \<and> (t \<noteq> NULL \<longrightarrow> (\<exists>q. prefix_of (scan_table G depth t p s) t = Some q \<and> name_le q p))"
proof (induction "LP_LUA_SYMBOL_MAX_DEPTH - depth" arbitrary: depth t p s rule: less_induct)
  case less
  have entry: "finished G v (scan_entry G depth p e v) \<and> entry_done (scan_entry G depth p e v) p e"
    if "symbols_ok v" "e \<in> set (G t)" "\<not> ls_overflowed (scan_entry G depth p e v)" for v e
  proof -
    note v = that
    obtain key x where e: "e = (key, x)" by (cases e)
    show ?thesis
    proof (cases key)
      case (Lua_String k)
      then have k: "k \<noteq> []" using v(2) keys by (auto simp: keys_ok_def e)
      obtain n where Some: "make_name p k = Some n"
        using v(3) by (cases "make_name p k") (simp_all add: scan_entry_def e Lua_String)
      note n = make_name_Some [OF Some]
      have ne: "n \<noteq> []" using k n by (auto simp: join_name_def split: if_splits)
      show ?thesis
      proof (cases x)
        case (Lua_CFunction f)
        let ?v = "record_name v f (Some n)"
        have run: "scan_entry G depth p e v = ?v" by (simp add: scan_entry_def e Lua_String Some Lua_CFunction)
        have "finished G v ?v"
          using record_name_improves(1,4) [OF v(1) conjunct2 [OF n], of f] by (simp add: finished_def)
        moreover have "entry_done ?v p e"
          using record_name_improves(3) [OF v(1) conjunct2 [OF n], of f] n ne v(3) run by (simp add: entry_done_def e Lua_String Lua_CFunction)
        ultimately show ?thesis by (simp add: run)
      next
        case (Lua_Table u)
        show ?thesis
        proof (cases "depth < LP_LUA_SYMBOL_MAX_DEPTH")
          case True
          then have run: "scan_entry G depth p e v = scan_table G (depth + 1) u n v"
            by (simp add: scan_entry_def e Lua_String Some Lua_Table)
          have "depth_ok (depth + 1) n" using depth_ok_join [OF less.prems(2) k] n by simp
          then have "finished G v (scan_table G (depth + 1) u n v) \<and>
              (u \<noteq> NULL \<longrightarrow> (\<exists>q. prefix_of (scan_table G (depth + 1) u n v) u = Some q \<and> name_le q n))"
            using True v(1,3) run by (intro less.hyps) simp_all
          then show ?thesis using run n by (simp add: entry_done_def e Lua_String Lua_Table)
        next
          case False
          then have "length p > 10" using less.prems(2) by (auto simp: depth_ok_def LP_LUA_SYMBOL_MAX_DEPTH_def)
          then show ?thesis using False v(1) by (simp add: scan_entry_def entry_done_def e Lua_String Some Lua_Table)
        qed
      qed (use v(1) in \<open>simp_all add: scan_entry_def entry_done_def e Lua_String Some\<close>)
    qed (use v(1) in \<open>simp_all add: scan_entry_def entry_done_def e\<close>)
  qed
  have entries: "finished G v (fold (scan_entry G depth p) es v) \<and> (\<forall>e \<in> set es. entry_done (fold (scan_entry G depth p) es v) p e)"
    if "symbols_ok v" "set es \<subseteq> set (G t)" "\<not> ls_overflowed (fold (scan_entry G depth p) es v)" for es v
    using that
  proof (induction es arbitrary: v)
    case (Cons e es)
    let ?v = "scan_entry G depth p e v" let ?w = "fold (scan_entry G depth p) es (scan_entry G depth p e v)"
    have ok: "symbols_ok ?v" using improves_ok(1) [OF scan_entry_improves [OF Cons.prems(1)]] .
    have i: "improves ?v ?w" by (rule scan_entries_improve [OF ok])
    have "\<not> ls_overflowed ?v" using improves_ok(2) [OF i] Cons.prems(3) by auto
    then have 1: "finished G v ?v" "entry_done ?v p e" using entry [of v e] Cons.prems(1,2) by simp_all
    have 2: "finished G ?v ?w" "\<forall>e \<in> set es. entry_done ?w p e" using Cons.IH [OF ok] Cons.prems(2,3) by simp_all
    show ?case using finished_trans [OF 1(1) 2(1)] entry_done_improves [OF i 1(2)] 2(2) by simp
  qed simp
  show ?case
  proof (cases "t = NULL")
    case True
    then show ?thesis using less.prems(1) scan_table_entries [of G depth t p s] by simp
  next
    case nonnull: False
    show ?thesis
      using less.prems(1)
    proof (cases rule: visit_table_cases [where t = t and p = p])
      case full
      have "scan_table G depth t p s = s\<lparr>ls_overflowed := True\<rparr>"
        by (subst scan_table_entries) (simp add: full nonnull)
      then show ?thesis using less.prems(3) by simp
    next
      case (known q)
      have "scan_table G depth t p s = s" by (subst scan_table_entries) (simp add: known(1))
      then show ?thesis using less.prems(1) known(2,3) by simp
    next
      case (fresh s1)
      let ?w = "fold (scan_entry G depth p) (G t) s1"
      have run: "scan_table G depth t p s = ?w" by (subst scan_table_entries) (simp add: fresh(1) nonnull)
      have ok1: "symbols_ok s1" by (rule improves_ok(1) [OF fresh(2)])
      have e: "finished G s1 ?w" "table_done G ?w t p"
        using entries [OF ok1, of "G t"] less.prems(3) run by (simp_all add: table_done_def)
      have i: "improves s1 ?w" by (rule scan_entries_improve [OF ok1])
      have "prefix_of s u = Some q \<or> table_done G ?w u q" if "prefix_of ?w u = Some q" for u q
      proof (cases "prefix_of s1 u = Some q")
        case True
        then show ?thesis using fresh(3,4) e(2) by (cases "u = t") simp_all
      next
        case False
        then show ?thesis using e(1) that unfolding finished_def by blast
      qed
      then have "finished G s ?w" using improves_trans [OF fresh(2) i] by (simp add: finished_def)
      then show ?thesis using improves_prefix [OF i fresh(3)] run by simp
    qed
  qed
qed

section \<open>The symbols of a VM\<close>

lemma symbols_ok_empty: "symbols_ok empty_symbols"
proof -
  have "names_ok (ls_entries empty_symbols)"
    by (rule luatab.ok_empty) (simp_all add: empty_symbols_def capacity)
  then show ?thesis by (simp add: symbols_ok_def empty_symbols_def)
qed

lemma empty_lookup: "name_of empty_symbols f = None"
proof -
  have "name_of empty_symbols f \<noteq> Some n" for n
    unfolding name_of_used [OF symbols_ok_empty] by (simp add: empty_symbols_def)
  then show ?thesis by (cases "name_of empty_symbols f") auto
qed

text \<open>The two walks: the states before, between and after.\<close>

definition both_roots :: "pointer \<Rightarrow> lua_value \<Rightarrow> pointer list" where
  "both_roots globals loaded = globals # (case loaded of Lua_Table t \<Rightarrow> [t] | _ \<Rightarrow> [])"

lemma no_prefix: "ls_visited s = [] \<Longrightarrow> prefix_of s t = None"
  by (simp add: prefix_of_def)

lemma forget_visited:
  assumes "symbols_ok s"
  shows "symbols_ok (s\<lparr>ls_visited := []\<rparr>)" "name_of (s\<lparr>ls_visited := []\<rparr>) f = name_of s f"
  using assms by (simp add: symbols_ok_def, intro name_of_entries) simp

lemma collect_cases:
  assumes "lp_lua_symbols_collect has_state memory G globals loaded = Some s"
  obtains s1 where "s1 = scan_table G 0 globals [] empty_symbols" "symbols_ok s1"
    "\<And>f n. name_of s1 f = Some n \<Longrightarrow> visible_as G globals [] f n"
    "case loaded of Lua_Table t \<Rightarrow> s = scan_table G 0 t [] (s1\<lparr>ls_visited := []\<rparr>) | _ \<Rightarrow> s = s1\<lparr>ls_visited := []\<rparr>"
proof -
  let ?s1 = "scan_table G 0 globals [] empty_symbols"
  have "walked G (visible_as G globals []) empty_symbols ?s1" by (rule scan_table_walked [OF symbols_ok_empty])
  then have "symbols_ok ?s1" "\<And>f n. name_of ?s1 f = Some n \<Longrightarrow> visible_as G globals [] f n"
    using improves_ok(1) empty_lookup by (auto simp: walked_def)
  moreover have "case loaded of Lua_Table t \<Rightarrow> s = scan_table G 0 t [] (?s1\<lparr>ls_visited := []\<rparr>) | _ \<Rightarrow> s = ?s1\<lparr>ls_visited := []\<rparr>"
    using assms by (auto simp: lp_lua_symbols_collect_def Let_def split: if_splits prod.splits lua_value.splits)
  ultimately show thesis using that by blast
qed

lemma collect_ok:
  assumes "lp_lua_symbols_collect has_state memory G globals loaded = Some s"
  shows "symbols_ok s" "name_of s f = Some n \<Longrightarrow> \<exists>root \<in> set (both_roots globals loaded). visible_as G root [] f n"
proof -
  obtain s1 where s1: "symbols_ok s1" "\<And>f n. name_of s1 f = Some n \<Longrightarrow> visible_as G globals [] f n"
    "case loaded of Lua_Table t \<Rightarrow> s = scan_table G 0 t [] (s1\<lparr>ls_visited := []\<rparr>) | _ \<Rightarrow> s = s1\<lparr>ls_visited := []\<rparr>"
    by (rule collect_cases [OF assms]) (rule that)
  note forget = forget_visited [OF s1(1)]
  have "symbols_ok s \<and> (name_of s f = Some n \<longrightarrow> (\<exists>root \<in> set (both_roots globals loaded). visible_as G root [] f n))"
  proof (cases "\<exists>t. loaded = Lua_Table t")
    case True
    then obtain t where t: "loaded = Lua_Table t" by blast
    have "walked G (visible_as G t []) (s1\<lparr>ls_visited := []\<rparr>) s" using scan_table_walked [OF forget(1)] s1(3) t by simp
    then have "symbols_ok s" "name_of s f = Some n \<longrightarrow> visible_as G globals [] f n \<or> visible_as G t [] f n"
      unfolding walked_def forget(2) using improves_ok(1) s1(2) by blast+
    then show ?thesis by (simp add: both_roots_def t)
  next
    case False
    then have "s = s1\<lparr>ls_visited := []\<rparr>" using s1(3) by (auto split: lua_value.splits)
    then show ?thesis using forget s1(2) by (auto simp: both_roots_def)
  qed
  then show "symbols_ok s" "name_of s f = Some n \<Longrightarrow> \<exists>root \<in> set (both_roots globals loaded). visible_as G root [] f n" by simp_all
qed

text \<open>After a finished walk with everything done, every table and function is named at least as well.\<close>

lemma finished_names:
  assumes fin: "\<forall>t p. prefix_of s t = Some p \<longrightarrow> table_done G s t p"
    and root: "\<exists>q. prefix_of s t = Some q \<and> name_le q p" and addresses: "\<forall>u e. e \<in> set (G u) \<longrightarrow> snd e \<noteq> Lua_Table NULL"
    and named: "table_named G t p u q"
  shows "length q \<le> 10 \<Longrightarrow> \<exists>r. prefix_of s u = Some r \<and> name_le r q"
  using named
proof induction
  case here
  then show ?case using root by simp
next
  case (below u q k v)
  then have short: "length q \<le> 10" by (auto simp: join_name_def split: if_splits)
  then obtain r where r: "prefix_of s u = Some r" "name_le r q" using below.IH by blast
  then have "entry_done s r (Lua_String k, Lua_Table v)" using assms(1) below.hyps(2) by (auto simp: table_done_def)
  moreover have "v \<noteq> NULL" using addresses below.hyps(2) by force
  moreover have "length r \<le> 10" using name_le_length [OF r(2)] short by simp
  ultimately obtain r' where "prefix_of s v = Some r'" "name_le r' (join_name r k)" by (auto simp: entry_done_def)
  then show ?case using name_le_trans name_le_join [OF r(2)] by blast
qed

lemma walk_names:
  assumes keys: "keys_ok G" and addresses: "\<forall>u e. e \<in> set (G u) \<longrightarrow> snd e \<noteq> Lua_Table NULL"
    and ok: "symbols_ok s" "ls_visited s = []" and root: "root \<noteq> NULL"
    and fits: "\<not> ls_overflowed (scan_table G 0 root [] s)"
    and f: "table_named G root [] u q" "(Lua_String k, Lua_CFunction f) \<in> set (G u)" "f \<noteq> NULL" "length q \<le> 10"
  shows "\<exists>n. name_of (scan_table G 0 root [] s) f = Some n \<and> name_le n (join_name q k)"
proof -
  let ?s = "scan_table G 0 root [] s"
  have "finished G s ?s \<and> (root \<noteq> NULL \<longrightarrow> (\<exists>q. prefix_of ?s root = Some q \<and> name_le q []))"
    by (rule scan_table_finished [OF keys ok(1) _ fits]) (simp add: depth_ok_def)
  then have all: "\<forall>t p. prefix_of ?s t = Some p \<longrightarrow> table_done G ?s t p" and r: "\<exists>q. prefix_of ?s root = Some q \<and> name_le q []"
    using no_prefix [OF ok(2)] root by (auto simp: finished_def)
  obtain r where r: "prefix_of ?s u = Some r" "name_le r q" using finished_names [OF all r addresses f(1,4)] by blast
  then have "entry_done ?s r (Lua_String k, Lua_CFunction f)" using all f(2) by (auto simp: table_done_def)
  then obtain n where "name_of ?s f = Some n" "name_le n (join_name r k)" using f(3) by (auto simp: entry_done_def)
  then show ?thesis using name_le_trans name_le_join [OF r(2)] by blast
qed

text \<open>
  C14: a short name is not missed. When nothing overflowed, keys are not empty and tables have
  addresses, every C function that Lua code can name through \<open>_G\<close> or \<open>package.loaded\<close> in a table
  whose own name has at most ten characters is found, however the tables refer to each other. The
  name found is one under which it can be reached, and it is at least as good as each of its names
  in such tables: not longer and, at the same length, not greater. Names in tables whose own name is
  longer are not compared; \<open>deep_name_is_missed\<close> below shows that the walk may miss them.
\<close>

theorem symbol_has_the_best_name:
  assumes "lp_lua_symbols_collect has_state memory G globals loaded = Some s" and "\<not> lp_lua_symbols_overflowed (Some s)"
    and "keys_ok G" and "\<forall>u e. e \<in> set (G u) \<longrightarrow> snd e \<noteq> Lua_Table NULL" and "NULL \<notin> set (both_roots globals loaded)"
    and "root \<in> set (both_roots globals loaded)" and "table_named G root [] u q"
    and "(Lua_String k, Lua_CFunction f) \<in> set (G u)" and "f \<noteq> NULL" and "length q \<le> 10"
  shows "\<exists>n. lp_lua_symbols_lookup (Some s) f = (Some n, of_nat (length n)) \<and> name_le n (join_name q k) \<and>
    (\<exists>root \<in> set (both_roots globals loaded). visible_as G root [] f n)"
proof -
  have fits: "\<not> ls_overflowed s" using assms(2) by (simp add: lp_lua_symbols_overflowed_def)
  obtain s1 where s1: "s1 = scan_table G 0 globals [] empty_symbols" "symbols_ok s1"
    "case loaded of Lua_Table t \<Rightarrow> s = scan_table G 0 t [] (s1\<lparr>ls_visited := []\<rparr>) | _ \<Rightarrow> s = s1\<lparr>ls_visited := []\<rparr>"
    by (rule collect_cases [OF assms(1)]) (rule that)
  let ?s2 = "s1\<lparr>ls_visited := []\<rparr>"
  note forget = forget_visited [OF s1(2)]
  have later: "improves ?s2 s"
  proof (cases "\<exists>t. loaded = Lua_Table t")
    case True
    then obtain t where "loaded = Lua_Table t" by blast
    then show ?thesis using scan_table_walked [OF forget(1), of G t "[]" 0] s1(3) by (simp add: walked_def)
  next
    case False
    then have "s = ?s2" using s1(3) by (auto split: lua_value.splits)
    then show ?thesis using forget(1) by simp
  qed
  have "\<exists>n. name_of s f = Some n \<and> name_le n (join_name q k)"
  proof (cases "root = globals")
    case True
    have "\<not> ls_overflowed s1" using improves_ok(2) [OF later] fits by auto
    then obtain n where "name_of s1 f = Some n" "name_le n (join_name q k)"
      using walk_names [OF assms(3,4) symbols_ok_empty, of globals u q k f] True assms(5,7-10) s1(1)
      by (auto simp: empty_symbols_def both_roots_def)
    then show ?thesis using improves_name [OF later, of f n] forget(2) name_le_trans by auto
  next
    case False
    then have loaded: "loaded = Lua_Table root" using assms(6) by (auto simp: both_roots_def split: lua_value.splits)
    then have "s = scan_table G 0 root [] ?s2" using s1(3) by simp
    then show ?thesis
      using walk_names [OF assms(3,4) forget(1) _ _ _ assms(7-10)] fits assms(5,6) by auto
  qed
  then obtain n where n: "name_of s f = Some n" "name_le n (join_name q k)" by blast
  then have "lp_lua_symbols_lookup (Some s) f = (Some n, of_nat (length n))"
    by (auto simp: name_of_def lp_lua_symbols_lookup_def Let_def split: if_splits option.splits)
  then show ?thesis using n collect_ok(2) [OF assms(1) n(1)] by blast
qed

lemma distinct_map_filter_nth:
  "(\<And>i j. i < length xs \<Longrightarrow> j < length xs \<Longrightarrow> P (xs ! i) \<Longrightarrow> P (xs ! j) \<Longrightarrow> f (xs ! i) = f (xs ! j) \<Longrightarrow> i = j) \<Longrightarrow>
    distinct (map f (filter P xs))"
proof (induction xs)
  case (Cons x xs)
  have "distinct (map f (filter P xs))"
    by (rule Cons.IH) (use Cons.prems [of "Suc i" "Suc j" for i j] in auto)
  moreover have "f x \<notin> f ` {y \<in> set xs. P y}" if "P x"
    using Cons.prems [of 0 "Suc j" for j] that by (auto simp: in_set_conv_nth)
  ultimately show ?case by simp
qed simp

lemma used_functions_distinct: "symbols_ok s \<Longrightarrow> distinct (map ly_function (filter ly_used (ls_entries s)))"
proof (rule distinct_map_filter_nth)
  assume "symbols_ok s"
  then have "names_ok (ls_entries s)" by (simp add: symbols_ok_def)
  then show "i = j" if "i < length (ls_entries s)" "j < length (ls_entries s)" "ly_used (ls_entries s ! i)" "ly_used (ls_entries s ! j)"
    "ly_function (ls_entries s ! i) = ly_function (ls_entries s ! j)" for i j
    using luatab.ok_unique [of "ls_entries s" i j] luatab.ok_length [of "ls_entries s"] that by simp
qed

text \<open>
  C15: the walk ends and stays within its bounds for any tables, cyclic or not: at most 4096
  functions have a name, each is listed once and the count is their number; every name found has
  at most 255 bytes and can be used to reach the function.
\<close>

theorem symbols_are_bounded:
  assumes "lp_lua_symbols_collect has_state memory G globals loaded = Some s"
  shows "lp_lua_symbols_count (Some s) = card {f. fst (lp_lua_symbols_lookup (Some s) f) \<noteq> None} \<and>
    lp_lua_symbols_count (Some s) \<le> LP_LUA_SYMBOL_CAPACITY \<and>
    (\<forall>f n. fst (lp_lua_symbols_lookup (Some s) f) = Some n \<longrightarrow> f \<noteq> NULL \<and> n \<noteq> [] \<and> length n \<le> 255 \<and>
      (\<exists>root \<in> set (both_roots globals loaded). visible_as G root [] f n))"
proof -
  note ok = collect_ok(1) [OF assms]
  let ?es = "ls_entries s" let ?used = "filter ly_used (ls_entries s)"
  have len: "length ?es = LP_LUA_SYMBOL_CAPACITY" using ok luatab.ok_length by (simp add: symbols_ok_def capacity)
  have "{f. name_of s f \<noteq> None} = ly_function ` set ?used"
    using name_of_used [OF ok] by auto
  then have "card {f. name_of s f \<noteq> None} = length ?used"
    using used_functions_distinct [OF ok] by (metis distinct_card length_map set_map)
  moreover have "length ?used \<le> LP_LUA_SYMBOL_CAPACITY" using length_filter_le [of ly_used ?es] len by simp
  moreover have "ls_count s = length ?used" using ok by (simp add: symbols_ok_def)
  moreover have "f \<noteq> NULL \<and> n \<noteq> [] \<and> length n \<le> 255 \<and> (\<exists>root \<in> set (both_roots globals loaded). visible_as G root [] f n)"
    if n: "name_of s f = Some n" for f n
    using n collect_ok(2) [OF assms n] ok name_of_used [OF ok] by (auto simp: symbols_ok_def LP_LUA_SYMBOL_MAX_NAME_def)
  ultimately show ?thesis by (simp add: lp_lua_symbols_count_def name_of_def)
qed

section \<open>A small VM\<close>

text \<open>\<open>_G.print\<close>, \<open>_G.p\<close> and \<open>_G._G.print\<close> are one function; the table refers to itself.\<close>

definition one_table :: lua_tables where
  "one_table t = (if t = 4096 then [(Lua_String [112, 114], Lua_CFunction 77), (Lua_String [95], Lua_Table 4096),
     (Lua_String [112], Lua_CFunction 77)] else [])"

definition one_function :: lp_lua_symbols where
  "one_function = the (lp_lua_symbols_collect True (True, True, True) one_table 4096 Lua_Other)"

lemma first_probe: "\<not> ly_used (es ! probe_index 12 h 0) \<or> ly_function (es ! probe_index 12 h 0) = f \<Longrightarrow>
    find_slot 12 ly_used (names_function f) es h = Some (probe_index 12 h 0)"
  unfolding find_slot_def by (rule probe_loop_hit [where d = 0, simplified]) simp_all

lemma one_function_collected:
  "lp_lua_symbols_collect True (True, True, True) one_table 4096 Lua_Other = Some one_function" "\<not> ls_overflowed one_function"
proof -
  show "lp_lua_symbols_collect True (True, True, True) one_table 4096 Lua_Other = Some one_function"
    by (simp add: one_function_def lp_lua_symbols_collect_def Let_def)
  have less: "probe_index 12 h 0 < 4096" for h :: u64 using probe_index_less [of 12 h 0] by simp
  have len: "length (ls_entries empty_symbols) = 4096" by (simp add: empty_symbols_def LP_LUA_SYMBOL_CAPACITY_def)
  have free: "\<not> ly_used (ls_entries empty_symbols ! i)" if "i < 4096" for i
    using that by (simp add: empty_symbols_def LP_LUA_SYMBOL_CAPACITY_def)
  let ?v = "empty_symbols\<lparr>ls_visited := [\<lparr>lt_table = 4096, lt_prefix = []\<rparr>]\<rparr>"
  let ?i = "probe_index 12 (pointer_hash 77) 0"
  define named where "named n = ?v\<lparr>ls_entries := (ls_entries empty_symbols)[?i := \<lparr>ly_function = 77, ly_name = n, ly_used = True\<rparr>], ls_count := 1\<rparr>" for n
  have 1: "record_name ?v 77 (Some [112, 114]) = named [112, 114]"
    using less [of "pointer_hash 77"] free
    by (simp add: record_name_def named_def Let_def LP_LUA_SYMBOL_BITS_def LP_LUA_SYMBOL_MAX_NAME_def first_probe better_name_def empty_symbols_def)
  have 2: "record_name (named [112, 114]) 77 (Some [112]) = named [112]"
    using less [of "pointer_hash 77"] len
    by (simp add: record_name_def named_def Let_def LP_LUA_SYMBOL_BITS_def LP_LUA_SYMBOL_MAX_NAME_def first_probe better_name_def)
  have 3: "scan_table one_table (Suc 0) 4096 [95] (named [112, 114]) = named [112, 114]"
    by (subst scan_table_entries) (simp add: visit_table_def named_def)
  have "scan_table one_table 0 4096 [] empty_symbols = named [112]"
    by (subst scan_table_entries)
      (simp add: visit_table_def empty_symbols_def LP_LUA_TABLE_CAPACITY_def one_table_def scan_entry_def make_name_def join_name_def
        LP_LUA_SYMBOL_MAX_NAME_def LP_LUA_SYMBOL_MAX_DEPTH_def 1 [unfolded empty_symbols_def, simplified] 2 3)
  then show "\<not> ls_overflowed one_function"
    by (simp add: one_function_def lp_lua_symbols_collect_def Let_def named_def empty_symbols_def)
qed

theorem symbol_has_the_best_name_witness:
  "\<exists>n. lp_lua_symbols_lookup (Some one_function) 77 = (Some n, of_nat (length n)) \<and> name_le n (join_name [] [112]) \<and>
    (\<exists>root \<in> set (both_roots 4096 Lua_Other). visible_as one_table root [] 77 n)"
proof (rule symbol_has_the_best_name [OF one_function_collected(1)])
  show "\<not> lp_lua_symbols_overflowed (Some one_function)" using one_function_collected(2) by (simp add: lp_lua_symbols_overflowed_def)
  show "table_named one_table 4096 [] 4096 []" by (rule table_named.here)
qed (auto simp: keys_ok_def one_table_def both_roots_def)

theorem symbols_are_bounded_witness:
  "lp_lua_symbols_count (Some one_function) = card {f. fst (lp_lua_symbols_lookup (Some one_function) f) \<noteq> None}"
  using symbols_are_bounded [OF one_function_collected(1)] by simp

section \<open>A name that the walk misses\<close>

text \<open>
  \<open>visit_table\<close> compares names, not depths: a table met first at the sixth level is not walked
  again when it is met at the first under a longer name. Below, \<open>a.a.a.a.a.a\<close> and
  \<open>bbbbbbbbbbbb\<close> are one table; \<open>bbbbbbbbbbbb.s.f\<close>, two levels deep, is never recorded. This is
  why the best name is promised for tables with short names only.
\<close>

definition deep_tables :: lua_tables where
  "deep_tables t =
     (if t = 1 then [(Lua_String [97], Lua_Table 2), (Lua_String (replicate 12 98), Lua_Table 7)]
      else if t < 7 then [(Lua_String [97], Lua_Table (t + 1))]
      else if t = 7 then [(Lua_String [115], Lua_Table 8)]
      else if t = 8 then [(Lua_String [102], Lua_CFunction 77)] else [])"

lemma walk_afresh:
  "t \<noteq> NULL \<Longrightarrow> t \<notin> lt_table ` set (ls_visited s) \<Longrightarrow> length (ls_visited s) < LP_LUA_TABLE_CAPACITY \<Longrightarrow>
    scan_table G d t p s = fold (scan_entry G d p) (G t) (s\<lparr>ls_visited := ls_visited s @ [\<lparr>lt_table = t, lt_prefix = p\<rparr>]\<rparr>)"
  by (subst scan_table_entries) (simp add: visit_table_def visited_index_None [THEN iffD2])

lemma walk_known:
  "visited_index t (ls_visited s) = Some i \<Longrightarrow> length (lt_prefix (ls_visited s ! i)) < length p \<Longrightarrow> scan_table G d t p s = s"
  by (subst scan_table_entries) (simp add: visit_table_def)

lemma deep_name_is_missed:
  "\<exists>s. lp_lua_symbols_collect True (True, True, True) deep_tables 1 Lua_Other = Some s \<and> \<not> ls_overflowed s \<and>
    fst (lp_lua_symbols_lookup (Some s) 77) = None \<and>
    visible_as deep_tables 1 [] 77 (replicate 12 98 @ [46, 115, 46, 102])"
proof -
  define st where "st vs = empty_symbols\<lparr>ls_visited := map (\<lambda>(t, p). \<lparr>lt_table = t, lt_prefix = p\<rparr>) vs\<rparr>" for vs
  have limits: "LP_LUA_TABLE_CAPACITY = 4096" "LP_LUA_SYMBOL_MAX_NAME = 255" "LP_LUA_SYMBOL_MAX_DEPTH = 6"
    by (simp_all add: LP_LUA_TABLE_CAPACITY_def LP_LUA_SYMBOL_MAX_NAME_def LP_LUA_SYMBOL_MAX_DEPTH_def)
  have fresh: "scan_table deep_tables d t p (st vs) = fold (scan_entry deep_tables d p) (deep_tables t) (st (vs @ [(t, p)]))"
    if "t \<noteq> NULL" "t \<notin> fst ` set vs" "length vs < 10" for d t p vs
  proof -
    have "lt_table ` set (ls_visited (st vs)) = fst ` set vs" by (force simp: st_def)
    then show ?thesis using that limits by (simp add: walk_afresh st_def)
  qed
  note run = fresh limits deep_tables_def scan_entry_def make_name_def join_name_def
  have down: "scan_table deep_tables d n p (st vs) = scan_table deep_tables (Suc d) (n + 1) (p @ [46, 97]) (st (vs @ [(n, p)]))"
    if "n \<in> {2, 3, 4, 5, 6}" "n \<notin> fst ` set vs" "length vs < 10" "d < 6" "p \<noteq> []" "length p \<le> 20" for d n p vs
    using that by (auto simp: run)
  have last: "scan_table deep_tables d 7 p (st vs) = st (vs @ [(7, p)])"
    if "d = 6" "7 \<notin> fst ` set vs" "length vs < 10" "length p \<le> 20" for d p vs
    using that by (auto simp: run)
  have chain: "scan_table deep_tables (Suc 0) 2 [97] (st [(1, [])]) =
      st [(1, []), (2, [97]), (3, [97, 46, 97]), (4, [97, 46, 97, 46, 97]), (5, [97, 46, 97, 46, 97, 46, 97]),
        (6, [97, 46, 97, 46, 97, 46, 97, 46, 97]), (7, [97, 46, 97, 46, 97, 46, 97, 46, 97, 46, 97])]"
    by (simp add: down last)
  have known: "scan_table deep_tables d t p (st vs) = st vs" if "visited_index t (ls_visited (st vs)) = Some i"
    "length (snd (vs ! i)) < length p" "i < length vs" for d t p vs i
    by (rule walk_known [OF that(1)]) (use that(2,3) in \<open>simp add: st_def case_prod_beta\<close>)
  have "scan_table deep_tables 0 1 [] (st []) = st [(1, []), (2, [97]), (3, [97, 46, 97]), (4, [97, 46, 97, 46, 97]),
        (5, [97, 46, 97, 46, 97, 46, 97]), (6, [97, 46, 97, 46, 97, 46, 97, 46, 97]), (7, [97, 46, 97, 46, 97, 46, 97, 46, 97, 46, 97])]"
    by (simp add: run chain known [where i = 6] st_def [THEN arg_cong, of ls_visited])
  moreover have "st [] = empty_symbols" by (simp add: st_def empty_symbols_def)
  ultimately have "\<exists>vs. scan_table deep_tables 0 1 [] empty_symbols = st vs" by auto
  then obtain vs where vs: "scan_table deep_tables 0 1 [] empty_symbols = st vs" by blast
  have "name_of (st vs\<lparr>ls_visited := []\<rparr>) 77 = None"
    using empty_lookup name_of_entries [of "st vs\<lparr>ls_visited := []\<rparr>" empty_symbols] by (simp add: st_def)
  moreover have "visible_as deep_tables 1 [] 77 (replicate 12 98 @ [46, 115, 46, 102])"
  proof -
    have "table_named deep_tables 1 [] 7 (join_name [] (replicate 12 98))"
      by (rule table_named.below [OF table_named.here]) (simp add: deep_tables_def)
    then have "table_named deep_tables 1 [] 8 (join_name (join_name [] (replicate 12 98)) [115])"
      by (rule table_named.below) (simp add: deep_tables_def)
    moreover have "(Lua_String [102], Lua_CFunction 77) \<in> set (deep_tables 8)" by (simp add: deep_tables_def)
    moreover have "replicate 12 98 @ [46, 115, 46, 102] = join_name (join_name (join_name [] (replicate 12 98)) [115]) [102]"
      by (simp add: join_name_def)
    ultimately show ?thesis unfolding visible_as_def by blast
  qed
  ultimately show ?thesis
    using vs by (simp add: lp_lua_symbols_collect_def Let_def name_of_def) (simp add: st_def empty_symbols_def)
qed

end
