(* ===== verification/Lua_Module.thy ===== *)
theory Lua_Module
  imports Vm_Recording Module_Options Lua_Symbols
begin

text \<open>
  \<open>src/lua_module.c\<close>: the recorders and results that Lua code holds. Both are userdata, known by
  their addresses; a recorder keeps the result it will hand out as its second user value. Every
  function runs its body as work of the profiler, by a guard that Lua closes when the function
  returns or raises an error.

  The Lua API is a parameter where it allocates: which allocations succeed, and the addresses. The
  test points (\<open>LUAPROF_TESTING\<close>) are not compiled in.
\<close>

section \<open>Userdata\<close>

text \<open>\<open>lr_result\<close>: the second user value, \<open>None\<close> for nil. The runtime is always that of the module.\<close>

record lp_lua_recorder =
  lr_kind :: lp_collector_kind
  lr_generation :: u64
  lr_active :: bool
  lr_result :: "pointer option"

record lua_module =
  lm_vm :: profiled_vm
  lm_recorders :: "pointer \<Rightarrow> lp_lua_recorder option"
  lm_results :: "pointer \<Rightarrow> lp_result option"

text \<open>\<open>memset(result, 0, sizeof(*result))\<close>\<close>

definition zero_result :: lp_result where
  "zero_result = \<lparr>res_kind = 0, res_generation = 0, res_config = zero_config, res_stats = zero_stats,
     res_cpu = None, res_memory = None\<rparr>"

text \<open>\<open>luaL_checkudata\<close>\<close>

definition check_recorder :: "lua_arg \<Rightarrow> lua_module \<Rightarrow> (pointer \<times> lp_lua_recorder) option" where
  "check_recorder v m =
     (case v of Arg_Userdata p \<Rightarrow> map_option (Pair p) (lm_recorders m p) | _ \<Rightarrow> None)"

definition check_result :: "lua_arg \<Rightarrow> lua_module \<Rightarrow> (pointer \<times> lp_result) option" where
  "check_result v m =
     (case v of Arg_Userdata q \<Rightarrow> map_option (Pair q) (lm_results m q) | _ \<Rightarrow> None)"

definition kind_name :: "lp_collector_kind \<Rightarrow> string" where
  "kind_name kind = (if kind = LP_COLLECTOR_CPU then ''cpu'' else ''memory'')"

text \<open>\<open>%I\<close> and \<open>lua_pushinteger\<close> read the 64 bits as a signed number.\<close>

datatype stat_value = Stat_Integer int | Stat_Boolean bool | Stat_String string

definition stat_integer :: "u64 \<Rightarrow> stat_value" where
  "stat_integer w = Stat_Integer (sint w)"

text \<open>What a function returns; the last two are nil and a message.\<close>

datatype module_value =
    No_Value
  | True_Value
  | Recorder_Value pointer
  | Result_Value pointer
  | Text_Value bytes
  | Table_Value "string \<rightharpoonup> stat_value"
  | Nil_Message string
  | Nil_Error export_error

type_synonym module_outcome = "module_error + module_value"

section \<open>The guard\<close>

definition push_profiler_work_guard :: "bool \<Rightarrow> lua_module \<Rightarrow> (bool \<times> lua_module) option" where
  "push_profiler_work_guard has_guard m =
     (if \<not> has_guard then Some (False, m)
      else map_option (\<lambda>(entered, w). (entered, m\<lparr>lm_vm := (lm_vm m)\<lparr>vm_world := w\<rparr>\<rparr>))
        (lp_lua_bridge_begin_profiler_work True (vm_world (lm_vm m))))"

definition profiler_work_guard_close :: "lua_module \<Rightarrow> lua_module option" where
  "profiler_work_guard_close m =
     map_option (\<lambda>w. m\<lparr>lm_vm := (lm_vm m)\<lparr>vm_world := w\<rparr>\<rparr>) (lp_lua_bridge_end_profiler_work True True (vm_world (lm_vm m)))"

text \<open>Signals that come while the function works.\<close>

definition module_ticks :: "siginfo option list \<Rightarrow> lua_module \<Rightarrow> lua_module option" where
  "module_ticks infos m = map_option (\<lambda>w. m\<lparr>lm_vm := (lm_vm m)\<lparr>vm_world := w\<rparr>\<rparr>) (run_ticks bridge_tick infos (vm_world (lm_vm m)))"

text \<open>A function with its guard: \<open>lua_toclose\<close> has the guard closed on every way out of the body.\<close>

definition guarded :: "siginfo option list \<Rightarrow> (lua_module \<Rightarrow> ('a \<times> lua_module) option) \<Rightarrow> lua_module \<Rightarrow> ('a \<times> lua_module) option" where
  "guarded infos body m = do {
     (pushed, m1) \<leftarrow> push_profiler_work_guard True m;
     m2 \<leftarrow> module_ticks infos m1;
     (outcome, m3) \<leftarrow> body m2;
     m4 \<leftarrow> (if pushed then profiler_work_guard_close m3 else Some m3);
     Some (outcome, m4)
   }"

section \<open>Recorders\<close>

text \<open>
  What the environment decides in a call: the state it comes from, the addresses of a new recorder
  and its result, whether they and the message of an error can be allocated, and the signals.
\<close>

record call_env =
  ce_state :: pointer
  ce_start :: start_env
  ce_bridge :: bridge_env
  ce_recorder :: pointer
  ce_result :: pointer
  ce_memory :: "bool \<times> bool \<times> bool"
  ce_ticks :: "siginfo option list"

definition start_recorder :: "'d doubles \<Rightarrow> call_env \<Rightarrow> lp_collector_config \<Rightarrow> lua_module \<Rightarrow> (module_outcome \<times> lua_module) option" where
  "start_recorder d env config m =
     (let (recorder_memory, result_memory, message_memory) = ce_memory env; p = ce_recorder env; q = ce_result env
      in if \<not> recorder_memory then Some (Inl Memory_Error, m)
         else
           let recorder = \<lparr>lr_kind = cfg_kind config, lr_generation = 0, lr_active = False, lr_result = None\<rparr>;
               m1 = m\<lparr>lm_recorders := (lm_recorders m)(p \<mapsto> recorder)\<rparr>
           in if \<not> result_memory then Some (Inl Memory_Error, m1)
              else do {
                let recorder1 = recorder\<lparr>lr_result := Some q\<rparr>;
                let m2 = m1\<lparr>lm_results := (lm_results m)(q \<mapsto> zero_result), lm_recorders := (lm_recorders m)(p \<mapsto> recorder1)\<rparr>;
                ((status, generation), vm) \<leftarrow> vm_start d (ce_start env) (ce_bridge env) (ce_state env) config (lm_vm m2);
                let m3 = m2\<lparr>lm_vm := vm\<rparr>;
                if status \<noteq> LP_OK
                then Some (if message_memory
                    then Inr (Nil_Message (''luaprof '' @ kind_name (cfg_kind config) @ '' start failed: '' @ lp_status_string status))
                    else Inl Memory_Error, m3)
                else
                  let recorder2 = (case generation of None \<Rightarrow> recorder1 | Some g \<Rightarrow> recorder1\<lparr>lr_generation := g\<rparr>)
                  in Some (Inr (Recorder_Value p), m3\<lparr>lm_recorders := (lm_recorders m)(p \<mapsto> recorder2\<lparr>lr_active := True\<rparr>)\<rparr>)
              })"

definition cpu_start :: "'d doubles \<Rightarrow> call_env \<Rightarrow> lua_arg list \<Rightarrow> lua_module \<Rightarrow> (module_outcome \<times> lua_module) option" where
  "cpu_start d env args m = guarded (ce_ticks env) (\<lambda>m.
     case cpu_config args of Inl e \<Rightarrow> Some (Inl e, m) | Inr config \<Rightarrow> start_recorder d env config m) m"

definition memory_start :: "'d doubles \<Rightarrow> call_env \<Rightarrow> lua_arg list \<Rightarrow> lua_module \<Rightarrow> (module_outcome \<times> lua_module) option" where
  "memory_start d env args m = guarded (ce_ticks env) (\<lambda>m.
     case memory_config args of Inl e \<Rightarrow> Some (Inl e, m) | Inr config \<Rightarrow> start_recorder d env config m) m"

text \<open>The methods take their object as the first argument; \<open>_body\<close>: what follows the guard.\<close>

definition stop_body :: "'d doubles \<Rightarrow> call_env \<Rightarrow> lua_arg \<Rightarrow> lua_module \<Rightarrow> (module_outcome \<times> lua_module) option" where
  "stop_body d env self m = (
     case check_recorder self m of
       None \<Rightarrow> Some (Inl (Wrong_Type 1), m)
     | Some (p, recorder) \<Rightarrow>
         if \<not> lr_active recorder then Some (Inr (Nil_Message ''luaprof recorder is already stopped''), m)
         else
           case lr_result recorder of
             None \<Rightarrow> Some (Inl (Wrong_Type 1), m)
           | Some q \<Rightarrow>
               if lm_results m q = None then Some (Inl (Wrong_Type 1), m)
               else do {
                 ((status, result), vm) \<leftarrow> vm_stop d (ce_bridge env) (ce_state env) (lr_kind recorder) (lr_generation recorder) (lm_vm m);
                 let m1 = m\<lparr>lm_vm := vm\<rparr>;
                 if status \<noteq> LP_OK
                 then Some (Inr (Nil_Message (''luaprof '' @ kind_name (lr_kind recorder) @ '' stop failed: '' @ lp_status_string status)), m1)
                 else
                   let m2 = (case result of None \<Rightarrow> m1 | Some r \<Rightarrow> m1\<lparr>lm_results := (lm_results m1)(q \<mapsto> r)\<rparr>)
                   in Some (Inr (Result_Value q),
                        m2\<lparr>lm_recorders := (lm_recorders m)(p \<mapsto> recorder\<lparr>lr_active := False, lr_result := None\<rparr>)\<rparr>)
               })"

definition recorder_stop :: "'d doubles \<Rightarrow> call_env \<Rightarrow> lua_arg \<Rightarrow> lua_module \<Rightarrow> (module_outcome \<times> lua_module) option" where
  "recorder_stop d env self m = guarded (ce_ticks env) (stop_body d env self) m"

text \<open>The finalizer, also called when a recorder goes out of a scope as a \<open><close>\<close> variable.\<close>

definition gc_body :: "'d doubles \<Rightarrow> call_env \<Rightarrow> lua_arg \<Rightarrow> lua_module \<Rightarrow> (module_outcome \<times> lua_module) option" where
  "gc_body d env self m = (
     case check_recorder self m of
       None \<Rightarrow> Some (Inl (Wrong_Type 1), m)
     | Some (p, recorder) \<Rightarrow>
         if \<not> lr_active recorder then Some (Inr No_Value, m)
         else do {
           (ignored, vm) \<leftarrow> vm_stop d (ce_bridge env) (ce_state env) (lr_kind recorder) (lr_generation recorder) (lm_vm m);
           Some (Inr No_Value,
             m\<lparr>lm_vm := vm, lm_recorders := (lm_recorders m)(p \<mapsto> recorder\<lparr>lr_active := False\<rparr>)\<rparr>)
         })"

definition recorder_gc :: "'d doubles \<Rightarrow> call_env \<Rightarrow> lua_arg \<Rightarrow> lua_module \<Rightarrow> (module_outcome \<times> lua_module) option" where
  "recorder_gc d env self m = guarded (ce_ticks env) (gc_body d env self) m"

definition recorder_tostring :: "call_env \<Rightarrow> lua_arg \<Rightarrow> lua_module \<Rightarrow> (module_outcome \<times> lua_module) option" where
  "recorder_tostring env self m = guarded (ce_ticks env) (\<lambda>m.
     case check_recorder self m of
       None \<Rightarrow> Some (Inl (Wrong_Type 1), m)
     | Some (p, recorder) \<Rightarrow>
         Some (Inr (Text_Value (ascii ''luaprof.'' @ ascii (kind_name (lr_kind recorder)) @ ascii ''.recorder('' @
           ascii (if lr_active recorder then ''active'' else ''stopped'') @ ascii '', generation='' @
           decimal_int (lr_generation recorder) @ ascii '')'')), m)) m"

section \<open>Results\<close>

definition result_gc :: "call_env \<Rightarrow> lua_arg \<Rightarrow> lua_module \<Rightarrow> (module_outcome \<times> lua_module) option" where
  "result_gc env self m = guarded (ce_ticks env) (\<lambda>m.
     case check_result self m of
       None \<Rightarrow> Some (Inl (Wrong_Type 1), m)
     | Some (q, value) \<Rightarrow> Some (Inr No_Value, m\<lparr>lm_results := (lm_results m)(q \<mapsto> lp_result_dispose value)\<rparr>)) m"

definition result_tostring :: "call_env \<Rightarrow> lua_arg \<Rightarrow> lua_module \<Rightarrow> (module_outcome \<times> lua_module) option" where
  "result_tostring env self m = guarded (ce_ticks env) (\<lambda>m.
     case check_result self m of
       None \<Rightarrow> Some (Inl (Wrong_Type 1), m)
     | Some (q, value) \<Rightarrow>
         Some (Inr (Text_Value (ascii ''luaprof.'' @ ascii (kind_name (res_kind value)) @ ascii ''.result(generation='' @
           decimal_int (res_generation value) @ ascii '')'')), m)) m"

text \<open>The fields in the order in which they are set; \<open>samples\<close> is set twice for a memory result.\<close>

definition stats_fields :: "lp_result \<Rightarrow> (string \<times> stat_value) list" where
  "stats_fields value =
     (let s = res_stats value; c = res_config value
      in [(''kind'', Stat_String (kind_name (res_kind value))),
          (''generation'', stat_integer (res_generation value)),
          (''samples'', stat_integer (st_samples s)),
          (''active'', Stat_Boolean False),
          (''safe_points'', stat_integer (st_safe_points s)),
          (''pending_weight'', stat_integer (st_pending_weight s)),
          (''state_host'', stat_integer (st_state_host s)),
          (''state_lua'', stat_integer (st_state_lua s)),
          (''state_c'', stat_integer (st_state_c s)),
          (''state_gc'', stat_integer (st_state_gc s))] @
         (if res_kind value = LP_COLLECTOR_CPU then
           [(''sample_hz'', Stat_Integer (uint (cfg_sample_hz c))),
            (''sample_host'', stat_integer (st_sample_host s)),
            (''sample_lua'', stat_integer (st_sample_lua s)),
            (''sample_c'', stat_integer (st_sample_c s)),
            (''sample_gc'', stat_integer (st_sample_gc s)),
            (''overrun_events'', stat_integer (st_overrun_events s)),
            (''overrun_ticks'', stat_integer (st_overrun_ticks s)),
            (''dropped_events'', stat_integer (st_dropped_events s)),
            (''unstable_events'', stat_integer (st_unstable_events s)),
            (''profiler_overhead_events'', stat_integer (st_profiler_overhead_events s)),
            (''stale_events'', stat_integer (st_stale_events s)),
            (''timer_failures'', stat_integer (st_timer_failures s)),
            (''scheduler_workers'', stat_integer (st_scheduler_workers s)),
            (''stack_truncations'', stat_integer (st_stack_truncations s)),
            (''aggregate_overflows'', stat_integer (st_aggregate_overflows s)),
            (''symbol_overflows'', stat_integer (st_symbol_overflows s))] else []) @
         (if res_kind value = LP_COLLECTOR_MEMORY then
           [(''sample_bytes'', stat_integer (cfg_sample_bytes c)),
            (''track_free'', Stat_Boolean (cfg_track_free c)),
            (''allocation_events'', stat_integer (st_allocations s)),
            (''reallocation_events'', stat_integer (st_reallocations s)),
            (''free_events'', stat_integer (st_frees s)),
            (''allocation_failures'', stat_integer (st_allocation_failures s)),
            (''samples'', stat_integer (st_memory_samples s)),
            (''sampled_alloc_bytes'', stat_integer (st_sampled_alloc_bytes s)),
            (''alloc_space'', stat_integer (st_alloc_space s)),
            (''alloc_objects'', stat_integer (st_alloc_objects s)),
            (''inuse_space'', stat_integer (st_inuse_space s)),
            (''inuse_objects'', stat_integer (st_inuse_objects s)),
            (''live_map_overflows'', stat_integer (st_live_map_overflows s)),
            (''stack_truncations'', stat_integer (st_stack_truncations s)),
            (''aggregate_overflows'', stat_integer (st_aggregate_overflows s)),
            (''symbol_overflows'', stat_integer (st_symbol_overflows s))] else []))"

definition stats_table :: "lp_result \<Rightarrow> string \<rightharpoonup> stat_value" where
  "stats_table value = fold (\<lambda>(k, v) t. t(k \<mapsto> v)) (stats_fields value) Map.empty"

definition result_stats :: "call_env \<Rightarrow> lua_arg \<Rightarrow> lua_module \<Rightarrow> (module_outcome \<times> lua_module) option" where
  "result_stats env self m = guarded (ce_ticks env) (\<lambda>m.
     case check_result self m of
       None \<Rightarrow> Some (Inl (Wrong_Type 1), m)
     | Some (q, value) \<Rightarrow> Some (Inr (Table_Value (stats_table value)), m)) m"

text \<open>
  What the environment decides in a call of \<open>result:write\<close>: the VM's tables with their roots, the
  allocations of the collection and of the export, the file system and the native symbols.
\<close>

record write_env =
  we_tables :: lua_tables
  we_globals :: pointer
  we_loaded :: lua_value
  we_symbol_memory :: "bool \<times> bool \<times> bool"
  we_memory :: memory
  we_sys :: export_sys
  we_native :: native_env

text \<open>The names the export asks for: those of the collection, when there was memory for it.\<close>

definition lua_names :: "write_env \<Rightarrow> lp_export_symbols option" where
  "lua_names env =
     (let lua_symbols = lp_lua_symbols_collect True (we_symbol_memory env) (we_tables env) (we_globals env) (we_loaded env)
      in if lua_symbols = None then None else Some (Some (\<lambda>cfunction. lp_lua_symbols_lookup lua_symbols cfunction)))"

text \<open>\<open>args\<close>: the arguments after the result. The files are part of the outcome.\<close>

definition write_body ::
  "write_env \<Rightarrow> lua_arg \<Rightarrow> lua_arg list \<Rightarrow> files \<Rightarrow> lua_module \<Rightarrow> ((module_outcome \<times> files) \<times> lua_module) option" where
  "write_body wenv self args fs m = (
     case check_result self m of
       None \<Rightarrow> Some ((Inl (Wrong_Type 1), fs), m)
     | Some (q, value) \<Rightarrow>
         (case write_options args of
            Inl e \<Rightarrow> Some ((Inl e, fs), m)
          | Inr (path, format, sample_type) \<Rightarrow>
              (case lp_export_result_with_symbols (we_sys wenv) (we_native wenv) (we_memory wenv) (Some value) (Some path)
                      format sample_type (lua_names wenv) fs of
                 (None, fs1) \<Rightarrow> Some ((Inr True_Value, fs1), m)
               | (Some failure, fs1) \<Rightarrow> Some ((Inr (Nil_Error failure), fs1), m))))"

definition result_write ::
  "call_env \<Rightarrow> write_env \<Rightarrow> lua_arg \<Rightarrow> lua_arg list \<Rightarrow> files \<Rightarrow> lua_module \<Rightarrow> ((module_outcome \<times> files) \<times> lua_module) option" where
  "result_write env wenv self args fs m = guarded (ce_ticks env) (write_body wenv self args fs) m"

section \<open>The module\<close>

text \<open>\<open>runtime_holder\<close> when the module is opened first: the bridge, the runtime, the two bound to each other.\<close>

definition runtime_holder :: "vm_setting \<Rightarrow> skynet_host \<Rightarrow> timer_world \<Rightarrow> lua_module option" where
  "runtime_holder s h timers =
     map_option (\<lambda>vm. \<lparr>lm_vm = vm, lm_recorders = Map.empty, lm_results = Map.empty\<rparr>)
       (new_vm h timers (vs_backend s) (vs_main_state s) (vs_address s) (vs_seed s))"

section \<open>The end of the Lua state\<close>

text \<open>
  \<open>runtime_gc\<close>, called when the state is closed: \<open>lp_runtime_delete\<close> with the bridge as host, which
  stops what is still recording, CPU first. The state is the one before the final \<open>free\<close>.
\<close>

definition delete_recording :: "'d doubles \<Rightarrow> bridge_env \<Rightarrow> lp_collector_kind \<Rightarrow> profiled_vm \<Rightarrow> profiled_vm option" where
  "delete_recording d env kind vm = do {
     let rt = vm_runtime vm;
     let w = vm_world vm;
     rt1 \<leftarrow> delete_collector d kind (with_host (bridge_host env w) rt);
     w1 \<leftarrow> (if cs_active (collector rt kind)
           then map_option snd (stop_collector env kind (cs_generation (collector rt kind)) w) else Some w);
     Some (vm\<lparr>vm_runtime := with_host no_host rt1, vm_world := w1\<rparr>)
   }"

definition runtime_gc :: "'d doubles \<Rightarrow> bridge_env \<Rightarrow> lua_module \<Rightarrow> lua_module option" where
  "runtime_gc d env m = do {
     let vm = lm_vm m;
     vm1 \<leftarrow> delete_recording d env LP_COLLECTOR_CPU (vm\<lparr>vm_runtime := (vm_runtime vm)\<lparr>rt_closing := True\<rparr>\<rparr>);
     vm2 \<leftarrow> delete_recording d env LP_COLLECTOR_MEMORY vm1;
     Some (m\<lparr>lm_vm := vm2\<rparr>)
   }"

end
