(* ===== verification/Module_Calls.thy ===== *)
theory Module_Calls
  imports Lua_Module
begin

text \<open>
  What Lua code sees of the profiler: histories of calls of the module, with hooks, signals and
  other services in between. Each recorder that is active owns one of the two recordings of the
  runtime and gets its result; no call leaves the profiler at work, whether it returns or raises.
\<close>

section \<open>Histories\<close>

datatype module_op =
    Cpu_Start_Call call_env "lua_arg list"
  | Memory_Start_Call call_env "lua_arg list"
  | Recorder_Stop_Call call_env lua_arg
  | Recorder_Gc_Call call_env lua_arg
  | Recorder_Text_Call call_env lua_arg
  | Result_Gc_Call call_env lua_arg
  | Result_Text_Call call_env lua_arg
  | Result_Stats_Call call_env lua_arg
  | Result_Write_Call call_env write_env lua_arg "lua_arg list"
  | Free_Recorder pointer
  | Free_Result pointer
  | Vm_Event vm_op

definition enter_work :: "siginfo option list \<Rightarrow> lua_module \<Rightarrow> lua_module option" where
  "enter_work infos m = Option.bind (push_profiler_work_guard True m) (\<lambda>(pushed, m1). module_ticks infos m1)"

definition is_event :: "vm_op \<Rightarrow> bool" where
  "is_event op =
     (case op of Vm_Start _ _ _ _ \<Rightarrow> False | Vm_Stop _ _ _ _ \<Rightarrow> False | Enter_Work \<Rightarrow> False | Leave_Work \<Rightarrow> False | _ \<Rightarrow> True)"

text \<open>
  What cannot happen does nothing. The allocator returns addresses that are not in use; an object
  is freed after its finalizer, and a result only when no recorder refers to it.
\<close>

definition call_possible :: "module_op \<Rightarrow> lua_module \<Rightarrow> bool" where
  "call_possible op m =
     (let fresh = (\<lambda>env. lm_recorders m (ce_recorder env) = None \<and> lm_results m (ce_result env) = None \<and>
          (case enter_work (ce_ticks env) m of None \<Rightarrow> False | Some m1 \<Rightarrow> start_possible (ce_bridge env) (vm_world (lm_vm m1))))
      in case op of
           Cpu_Start_Call env args \<Rightarrow> fresh env
         | Memory_Start_Call env args \<Rightarrow> fresh env
         | Free_Recorder p \<Rightarrow> (case lm_recorders m p of None \<Rightarrow> False | Some r \<Rightarrow> \<not> lr_active r)
         | Free_Result q \<Rightarrow> (\<forall>p r. lm_recorders m p = Some r \<longrightarrow> lr_result r \<noteq> Some q)
         | Vm_Event op \<Rightarrow> is_event op
         | _ \<Rightarrow> True)"

text \<open>The call with its outcome, if it has one; the state includes the files.\<close>

definition module_step ::
  "'d doubles \<Rightarrow> module_op \<Rightarrow> lua_module \<times> files \<Rightarrow> (module_outcome option \<times> lua_module \<times> files) option" where
  "module_step d op state =
     (let (m, fs) = state; call = map_option (\<lambda>(r, m1). (Some r, m1, fs))
      in if \<not> call_possible op m then Some (None, m, fs)
         else case op of
           Cpu_Start_Call env args \<Rightarrow> call (cpu_start d env args m)
         | Memory_Start_Call env args \<Rightarrow> call (memory_start d env args m)
         | Recorder_Stop_Call env self \<Rightarrow> call (recorder_stop d env self m)
         | Recorder_Gc_Call env self \<Rightarrow> call (recorder_gc d env self m)
         | Recorder_Text_Call env self \<Rightarrow> call (recorder_tostring env self m)
         | Result_Gc_Call env self \<Rightarrow> call (result_gc env self m)
         | Result_Text_Call env self \<Rightarrow> call (result_tostring env self m)
         | Result_Stats_Call env self \<Rightarrow> call (result_stats env self m)
         | Result_Write_Call env wenv self args \<Rightarrow>
             map_option (\<lambda>((r, fs1), m1). (Some r, m1, fs1)) (result_write env wenv self args fs m)
         | Free_Recorder p \<Rightarrow> Some (None, m\<lparr>lm_recorders := (lm_recorders m)(p := None)\<rparr>, fs)
         | Free_Result q \<Rightarrow> Some (None, m\<lparr>lm_results := (lm_results m)(q := None)\<rparr>, fs)
         | Vm_Event op \<Rightarrow> map_option (\<lambda>(rs, vm). (None, m\<lparr>lm_vm := vm\<rparr>, fs)) (vm_step d op (lm_vm m)))"

primrec module_history ::
  "'d doubles \<Rightarrow> module_op list \<Rightarrow> lua_module \<times> files \<Rightarrow> (module_outcome option list \<times> lua_module \<times> files) option" where
  "module_history d [] state = Some ([], state)"
| "module_history d (op # ops) state = do {
     (r, state1) \<leftarrow> module_step d op state;
     (rs, state2) \<leftarrow> module_history d ops state1;
     Some (r # rs, state2)
   }"

definition call_of :: "module_op \<Rightarrow> call_env option" where
  "call_of op =
     (case op of
        Cpu_Start_Call env args \<Rightarrow> Some env | Memory_Start_Call env args \<Rightarrow> Some env
      | Recorder_Stop_Call env self \<Rightarrow> Some env | Recorder_Gc_Call env self \<Rightarrow> Some env
      | Recorder_Text_Call env self \<Rightarrow> Some env | Result_Gc_Call env self \<Rightarrow> Some env
      | Result_Text_Call env self \<Rightarrow> Some env | Result_Stats_Call env self \<Rightarrow> Some env
      | Result_Write_Call env wenv self args \<Rightarrow> Some env
      | _ \<Rightarrow> None)"

definition module_op_readable :: "module_op \<Rightarrow> bool" where
  "module_op_readable op \<longleftrightarrow>
     (\<forall>env. call_of op = Some env \<longrightarrow> env_readable (ce_bridge env)) \<and>
     (case op of Vm_Event op \<Rightarrow> vm_op_readable op | _ \<Rightarrow> True)"

text \<open>From the opening of the module, in a process with any history.\<close>

definition module_from ::
  "'d doubles \<Rightarrow> vm_setting \<Rightarrow> files \<Rightarrow> module_op list \<Rightarrow> (module_outcome option list \<times> lua_module \<times> files) option" where
  "module_from d s fs ops = do {
     h \<leftarrow> host_history (vs_host_ops s) initial_host;
     timers \<leftarrow> timer_history (vs_timer_ops s) initial_world;
     m \<leftarrow> runtime_holder s h timers;
     module_history d ops (m, fs)
   }"

section \<open>Who owns a recording\<close>

definition recording :: "profiled_vm \<Rightarrow> lp_collector_kind \<Rightarrow> u64 option" where
  "recording vm kind =
     (if cs_active (collector (vm_runtime vm) kind) then Some (cs_generation (collector (vm_runtime vm) kind)) else None)"

definition active_recorder :: "(pointer \<Rightarrow> lp_lua_recorder option) \<Rightarrow> lp_collector_kind \<Rightarrow> pointer \<Rightarrow> u64 \<Rightarrow> bool" where
  "active_recorder recorders kind p g \<longleftrightarrow>
     (\<exists>r. recorders p = Some r \<and> lr_active r \<and> lr_kind r = kind \<and> lr_generation r = g)"

text \<open>An active recorder has a result to hand out.\<close>

definition recorders_ok :: "(pointer \<Rightarrow> lp_lua_recorder option) \<Rightarrow> (pointer \<Rightarrow> lp_result option) \<Rightarrow> bool" where
  "recorders_ok recorders results \<longleftrightarrow>
     (\<forall>p r. recorders p = Some r \<longrightarrow> lr_active r \<longrightarrow> valid_kind (lr_kind r) \<and> (\<exists>q. lr_result r = Some q \<and> q \<in> dom results))"

text \<open>The recordings are those of the active recorders, under the same generations; no two are of one kind.\<close>

definition owners_ok :: "(pointer \<Rightarrow> lp_lua_recorder option) \<Rightarrow> profiled_vm \<Rightarrow> bool" where
  "owners_ok recorders vm \<longleftrightarrow>
     (\<forall>kind g. valid_kind kind \<longrightarrow> (recording vm kind = Some g \<longleftrightarrow> (\<exists>p. active_recorder recorders kind p g))) \<and>
     (\<forall>kind p p' g g'. active_recorder recorders kind p g \<longrightarrow> active_recorder recorders kind p' g' \<longrightarrow> p = p')"

text \<open>A result that has a profile is sound.\<close>

definition results_ok :: "(pointer \<Rightarrow> lp_result option) \<Rightarrow> bool" where
  "results_ok results \<longleftrightarrow>
     (\<forall>q res. results q = Some res \<longrightarrow> res_cpu res \<noteq> None \<or> res_memory res \<noteq> None \<longrightarrow> result_ok res \<and> rate_ok res)"

definition owned :: "lua_module \<Rightarrow> bool" where
  "owned m \<longleftrightarrow> recorders_ok (lm_recorders m) (lm_results m) \<and> owners_ok (lm_recorders m) (lm_vm m) \<and> results_ok (lm_results m)"

definition module_at :: "u32 \<Rightarrow> lua_module \<Rightarrow> bool" where
  "module_at n m \<longleftrightarrow>
     vm_ok (lm_vm m) \<and> \<not> rt_closing (vm_runtime (lm_vm m)) \<and>
     lb_profiler_work_depth (bw_bridge (vm_world (lm_vm m))) = n \<and> owned m"

text \<open>What entering and leaving the work, and the signals, leave as it is.\<close>

definition same_objects :: "lua_module \<Rightarrow> lua_module \<Rightarrow> bool" where
  "same_objects m m' \<longleftrightarrow>
     lm_recorders m' = lm_recorders m \<and> lm_results m' = lm_results m \<and> vm_runtime (lm_vm m') = vm_runtime (lm_vm m)"

lemma same_objects_owned: "same_objects m m' \<Longrightarrow> owned m' = owned m"
  by (simp add: same_objects_def owned_def owners_ok_def recording_def)

lemma same_objects_refl [simp]: "same_objects m m"
  by (simp add: same_objects_def)

lemma same_objects_trans: "same_objects m m1 \<Longrightarrow> same_objects m1 m2 \<Longrightarrow> same_objects m m2"
  by (simp add: same_objects_def)

lemma same_objects_world [simp]: "same_objects m (m\<lparr>lm_vm := (lm_vm m)\<lparr>vm_world := w\<rparr>\<rparr>)"
  by (simp add: same_objects_def)

text \<open>A change of the world only, to another depth.\<close>

lemma module_at_world:
  assumes "module_at n m" and "bridge_ok w" and "bw_bridge w = (bw_bridge (vm_world (lm_vm m)))\<lparr>lb_profiler_work_depth := n'\<rparr>"
  shows "module_at n' (m\<lparr>lm_vm := (lm_vm m)\<lparr>vm_world := w\<rparr>\<rparr>)"
  using assms same_objects_owned [OF same_objects_world [of m w]] by (simp add: module_at_def vm_ok_def)

lemma run_ticks_return: "bridge_ok w \<Longrightarrow> \<exists>w'. run_ticks bridge_tick infos w = Some w' \<and> bridge_ok w' \<and> bw_bridge w' = bw_bridge w"
proof (induction infos arbitrary: w)
  case (Cons info infos)
  obtain w1 where "bridge_tick info w = Some w1" "bridge_ok w1" "bw_bridge w1 = bw_bridge w"
    using bridge_tick_ok [OF Cons.prems, of info] by blast
  then show ?case using Cons.IH [of w1] by auto
qed simp

lemma enter_work_ok:
  assumes ok: "module_at 0 m"
  shows "\<exists>m1 m2. push_profiler_work_guard True m = Some (True, m1) \<and> module_ticks infos m1 = Some m2 \<and>
    enter_work infos m = Some m2 \<and> module_at 1 m2 \<and> same_objects m m2"
proof -
  let ?w = "vm_world (lm_vm m)"
  have w: "bridge_ok ?w" "lb_profiler_work_depth (bw_bridge ?w) = 0" using ok by (simp_all add: module_at_def vm_ok_def)
  obtain w1 where w1: "lp_lua_bridge_begin_profiler_work True ?w = Some (True, w1)" "work_step 1 ?w w1"
    using begin_work [OF w(1)] w(2) by auto
  then have b1: "bridge_ok w1" "bw_bridge w1 = (bw_bridge ?w)\<lparr>lb_profiler_work_depth := 1\<rparr>" by (simp_all add: work_step_def)
  obtain w2 where w2: "run_ticks bridge_tick infos w1 = Some w2" "bridge_ok w2" "bw_bridge w2 = bw_bridge w1"
    using run_ticks_return [OF b1(1)] by blast
  have "module_at 1 (m\<lparr>lm_vm := (lm_vm m)\<lparr>vm_world := w2\<rparr>\<rparr>)"
    using module_at_world [OF ok w2(2)] w2(3) b1(2) by simp
  then show ?thesis
    using w1(1) w2(1) by (simp add: push_profiler_work_guard_def module_ticks_def enter_work_def same_objects_def)
qed

lemma leave_work_ok:
  assumes ok: "module_at 1 m"
  shows "\<exists>m'. profiler_work_guard_close m = Some m' \<and> module_at 0 m' \<and> same_objects m m'"
proof -
  let ?w = "vm_world (lm_vm m)"
  have w: "bridge_ok ?w" "lb_profiler_work_depth (bw_bridge ?w) = 1" using ok by (simp_all add: module_at_def vm_ok_def)
  obtain w1 where "lp_lua_bridge_end_profiler_work True True ?w = Some w1" "work_step 0 ?w w1"
    using end_work [OF w(1)] w(2) by auto
  then show ?thesis
    using module_at_world [OF ok, of w1 0] by (auto simp: profiler_work_guard_close_def work_step_def)
qed

text \<open>
  A function with its guard keeps what its body keeps, on every way out.
\<close>

lemma guarded_ok:
  assumes ok: "module_at 0 m"
    and body: "\<And>m1. enter_work infos m = Some m1 \<Longrightarrow> module_at 1 m1 \<Longrightarrow> same_objects m m1 \<Longrightarrow>
      \<exists>r m2. body m1 = Some (r, m2) \<and> module_at 1 m2 \<and> P r m2"
    and same: "\<And>r m2 m3. P r m2 \<Longrightarrow> same_objects m2 m3 \<Longrightarrow> P r m3"
  shows "\<exists>r m'. guarded infos body m = Some (r, m') \<and> module_at 0 m' \<and> P r m'"
proof -
  obtain m0 m1 where m1: "push_profiler_work_guard True m = Some (True, m0)" "module_ticks infos m0 = Some m1"
    "enter_work infos m = Some m1" "module_at 1 m1" "same_objects m m1"
    using enter_work_ok [OF ok] by blast
  obtain r m2 where m2: "body m1 = Some (r, m2)" "module_at 1 m2" "P r m2" using body [OF m1(3-5)] by blast
  obtain m3 where "profiler_work_guard_close m2 = Some m3" "module_at 0 m3" "same_objects m2 m3"
    using leave_work_ok [OF m2(2)] by blast
  then show ?thesis using m1(1,2) m2 same by (auto simp: guarded_def)
qed

section \<open>Starts and stops\<close>

lemma set_collector_closing [simp]: "rt_closing (set_collector kind slot rt) = rt_closing rt"
  by (simp add: set_collector_def)

lemma reconcile_closing: "lp_runtime_memory_reconcile_live rt g old new n success = Some rt' \<Longrightarrow> rt_closing rt' = rt_closing rt"
  by (auto simp: lp_runtime_memory_reconcile_live_def split: option.splits)

lemma allocation_closing: "lp_runtime_allocation rt g old new n success = Some rt' \<Longrightarrow> rt_closing rt' = rt_closing rt"
  by (auto simp: lp_runtime_allocation_def Let_def dest!: reconcile_closing split: option.splits if_splits)

lemma sample_closing: "lp_runtime_memory_sample rt g x frames truncated n ws wo = Some rt' \<Longrightarrow> rt_closing rt' = rt_closing rt"
  "rt_closing (fst (lp_runtime_memory_sample_candidate d rt g new n success)) = rt_closing rt"
  by (auto simp: lp_runtime_memory_sample_def lp_runtime_memory_sample_candidate_def split: option.splits prod.splits)

lemma cpu_closing:
  "rt_closing (lp_runtime_safe_point rt g pending) = rt_closing rt" "rt_closing (lp_runtime_state_change rt g state) = rt_closing rt"
  "rt_closing (lp_runtime_cpu_sample rt g state cfunction frames truncated) = rt_closing rt"
  "rt_closing (lp_runtime_cpu_quality rt g dropped unstable overhead events ticks) = rt_closing rt"
  "rt_closing (lp_runtime_cpu_scheduler_quality rt g stale failures workers) = rt_closing rt"
  by (simp_all add: lp_runtime_safe_point_def lp_runtime_state_change_def lp_runtime_cpu_sample_def lp_runtime_cpu_quality_def
      lp_runtime_cpu_scheduler_quality_def Let_def split: option.split)

lemma runtime_calls_closing: "runtime_calls d calls rt = Some rt' \<Longrightarrow> rt_closing rt' = rt_closing rt"
proof (induction calls arbitrary: rt)
  case (Cons call calls)
  obtain rt1 where rt1: "runtime_apply d call rt = Some rt1" "runtime_calls d calls rt1 = Some rt'"
    using Cons.prems by (auto split: option.splits)
  then have "rt_closing rt1 = rt_closing rt"
    by (cases call) (auto simp: cpu_closing sample_closing(2) dest: allocation_closing reconcile_closing sample_closing(1))
  then show ?case using Cons.IH [OF rt1(2)] by simp
qed simp

lemma host_stop_closing: "host_stop d L kind g rt = Some rt' \<Longrightarrow> rt_closing rt' = rt_closing rt"
  by (auto simp: host_stop_def dest: runtime_calls_closing split: option.splits)

lemma runtime_stop_fields:
  assumes "lp_runtime_stop d rt L kind g = Some (rt', status, res)"
  shows "rt_closing rt' = rt_closing rt \<and> (\<forall>r. res = Some r \<longrightarrow> res_kind r = kind \<and> res_generation r = g \<and> status = LP_OK)"
  using assms by (auto simp: lp_runtime_stop_def Let_def dest: host_stop_closing split: if_splits option.splits)

lemma runtime_start_closing:
  assumes "lp_runtime_start d senv rt seed L config = Some (rt', seed', status, gen)"
  shows "rt_closing rt' = rt_closing rt"
  using assms by (auto simp: lp_runtime_start_def Let_def dest!: runtime_calls_closing split: if_splits option.splits prod.splits)

lemma vm_stop_fields:
  assumes "vm_stop d env L kind g vm = Some ((status, res), vm')"
  shows "rt_closing (vm_runtime vm') = rt_closing (vm_runtime vm)"
    "res = Some r \<Longrightarrow> res_kind r = kind \<and> res_generation r = g \<and> status = LP_OK"
  using assms by (auto simp: vm_stop_def Let_def bind_eq_Some_conv dest!: runtime_stop_fields)

lemma vm_start_closing:
  assumes "vm_start d senv env L config vm = Some (r, vm')"
  shows "rt_closing (vm_runtime vm') = rt_closing (vm_runtime vm)"
  using assms by (auto simp: vm_start_def Let_def bind_eq_Some_conv dest!: runtime_start_closing)

section \<open>Changes of the objects\<close>

lemma active_recorder_upd:
  "active_recorder (recorders(p' := r)) kind p g \<longleftrightarrow>
     (if p = p' then \<exists>r'. r = Some r' \<and> lr_active r' \<and> lr_kind r' = kind \<and> lr_generation r' = g else active_recorder recorders kind p g)"
  by (simp add: active_recorder_def)

lemma owners_ok_recording: "owners_ok recorders vm \<Longrightarrow> valid_kind kind \<Longrightarrow> recording vm kind = Some g \<longleftrightarrow> (\<exists>p. active_recorder recorders kind p g)"
  and owners_ok_one: "owners_ok recorders vm \<Longrightarrow> active_recorder recorders kind p g \<Longrightarrow> active_recorder recorders kind p' g' \<Longrightarrow> p = p'"
  unfolding owners_ok_def by blast+

lemma owners_ok_same:
  assumes "owners_ok recorders vm" and "\<And>kind p g. active_recorder recorders' kind p g = active_recorder recorders kind p g"
    and "\<And>kind. valid_kind kind \<Longrightarrow> recording vm' kind = recording vm kind"
  shows "owners_ok recorders' vm'"
  using assms by (simp add: owners_ok_def)

lemma idle_recorder:
  assumes "\<And>r. recorders p = Some r \<Longrightarrow> \<not> lr_active r" and "\<And>r. r' = Some r \<Longrightarrow> \<not> lr_active r"
  shows "active_recorder (recorders(p := r')) kind p' g = active_recorder recorders kind p' g"
  using assms by (auto simp: active_recorder_def)

lemma recorders_ok_upd:
  assumes "recorders_ok recorders results" and "\<And>r. r' = Some r \<Longrightarrow> lr_active r \<Longrightarrow> valid_kind (lr_kind r) \<and> (\<exists>q \<in> dom results. lr_result r = Some q)"
  shows "recorders_ok (recorders(p := r')) results"
  using assms by (auto simp: recorders_ok_def)

lemma recorders_ok_results: "recorders_ok recorders results \<Longrightarrow> dom results \<subseteq> dom results' \<Longrightarrow> recorders_ok recorders results'"
  unfolding recorders_ok_def by blast

lemma results_ok_upd:
  assumes "results_ok results" and "\<And>res. r = Some res \<Longrightarrow> res_cpu res \<noteq> None \<or> res_memory res \<noteq> None \<Longrightarrow> result_ok res \<and> rate_ok res"
  shows "results_ok (results(q := r))"
  using assms by (auto simp: results_ok_def)

lemma owners_start:
  assumes ok: "owners_ok recorders vm" and fresh: "recorders p = None" and k: "valid_kind (lr_kind r)" and r: "lr_active r"
    and before: "recording vm (lr_kind r) = None" and after: "recording vm' (lr_kind r) = Some (lr_generation r)"
    and others: "\<And>kind. valid_kind kind \<Longrightarrow> kind \<noteq> lr_kind r \<Longrightarrow> recording vm' kind = recording vm kind"
  shows "owners_ok (recorders(p \<mapsto> r)) vm'"
proof -
  have act: "active_recorder (recorders(p \<mapsto> r)) kind p' g \<longleftrightarrow>
      (if p' = p then kind = lr_kind r \<and> g = lr_generation r else active_recorder recorders kind p' g)" for kind p' g
    using r by (auto simp: active_recorder_def)
  have none: "\<not> active_recorder recorders kind p g" for kind g using fresh by (simp add: active_recorder_def)
  have old: "\<not> active_recorder recorders (lr_kind r) p' g" for p' g
    using owners_ok_recording [OF ok k, of g] before by auto
  have "recording vm' kind = Some g \<longleftrightarrow> (\<exists>p'. active_recorder (recorders(p \<mapsto> r)) kind p' g)" if "valid_kind kind" for kind g
  proof (cases "kind = lr_kind r")
    case True
    then show ?thesis using after act old by auto
  next
    case False
    then have "(\<exists>p'. active_recorder (recorders(p \<mapsto> r)) kind p' g) \<longleftrightarrow> (\<exists>p'. active_recorder recorders kind p' g)"
      using act none by (metis (full_types))
    then show ?thesis using owners_ok_recording [OF ok that] others [OF that False] by simp
  qed
  moreover have "p' = p''" if "active_recorder (recorders(p \<mapsto> r)) kind p' g" "active_recorder (recorders(p \<mapsto> r)) kind p'' g'" for kind p' p'' g g'
    using that old owners_ok_one [OF ok] unfolding act by (auto split: if_splits)
  ultimately show ?thesis by (simp add: owners_ok_def)
qed

lemma owners_stop:
  assumes ok: "owners_ok recorders vm" and p: "recorders p = Some r" "lr_active r" "\<not> lr_active r'"
    and after: "recording vm' (lr_kind r) = None"
    and others: "\<And>kind. valid_kind kind \<Longrightarrow> kind \<noteq> lr_kind r \<Longrightarrow> recording vm' kind = recording vm kind"
  shows "owners_ok (recorders(p \<mapsto> r')) vm'"
proof -
  have act: "active_recorder (recorders(p \<mapsto> r')) kind p' g \<longleftrightarrow> p' \<noteq> p \<and> active_recorder recorders kind p' g" for kind p' g
    using p(3) by (auto simp: active_recorder_def)
  have own: "active_recorder recorders (lr_kind r) p (lr_generation r)" using p by (simp add: active_recorder_def)
  have mine: "kind = lr_kind r" if "active_recorder recorders kind p g" for kind g using that p by (auto simp: active_recorder_def)
  have "recording vm' kind = Some g \<longleftrightarrow> (\<exists>p'. active_recorder (recorders(p \<mapsto> r')) kind p' g)" if "valid_kind kind" for kind g
  proof (cases "kind = lr_kind r")
    case True
    then show ?thesis using after act owners_ok_one [OF ok own] by auto
  next
    case False
    then have "(\<exists>p'. active_recorder (recorders(p \<mapsto> r')) kind p' g) \<longleftrightarrow> (\<exists>p'. active_recorder recorders kind p' g)"
      using act mine by metis
    then show ?thesis using owners_ok_recording [OF ok that] others [OF that False] by simp
  qed
  moreover have "p' = p''" if "active_recorder (recorders(p \<mapsto> r')) kind p' g" "active_recorder (recorders(p \<mapsto> r')) kind p'' g'" for kind p' p'' g g'
    using that owners_ok_one [OF ok] unfolding act by blast
  ultimately show ?thesis by (simp add: owners_ok_def)
qed

section \<open>What the functions do\<close>

lemma recording_bridge:
  assumes "vm_ok vm" and "valid_kind kind"
  shows "recording vm kind =
    (let b = bw_bridge (vm_world vm)
     in if kind = LP_COLLECTOR_CPU then (if lb_cpu_active b then Some (lb_cpu_generation b) else None)
        else if lb_memory_active b then Some (lb_memory_generation b) else None)"
  using assms coupled_active [of "vm_runtime vm" "bw_bridge (vm_world vm)" kind] by (auto simp: recording_def vm_ok_def Let_def)

lemma vm_start_recordings:
  assumes ok: "vm_ok vm" and env: "env_readable env" and possible: "start_possible env (vm_world vm)"
  obtains status gen vm' where "vm_start d senv env L config vm = Some ((status, gen), vm')" "vm_ok vm'"
    "rt_closing (vm_runtime vm') = rt_closing (vm_runtime vm)"
    "lb_profiler_work_depth (bw_bridge (vm_world vm')) = lb_profiler_work_depth (bw_bridge (vm_world vm))"
    "\<And>kind. valid_kind kind \<Longrightarrow> status \<noteq> LP_OK \<or> kind \<noteq> cfg_kind config \<Longrightarrow> recording vm' kind = recording vm kind"
    "status = LP_OK \<Longrightarrow> start_refused (vm_runtime vm) config = None \<and> (\<exists>g. gen = Some g \<and> recording vm' (cfg_kind config) = Some g)"
proof -
  obtain status gen vm' where vm': "vm_start d senv env L config vm = Some ((status, gen), vm')" "vm_ok vm'"
    "status \<noteq> LP_OK \<longrightarrow> bw_bridge (vm_world vm') = bw_bridge (vm_world vm)"
    "status = LP_OK \<longrightarrow> gen = Some (cs_generation (collector (vm_runtime vm') (cfg_kind config))) \<and>
      cs_active (collector (vm_runtime vm') (cfg_kind config)) \<and>
      (\<forall>k. valid_kind k \<and> k \<noteq> cfg_kind config \<longrightarrow>
        cs_active (collector (vm_runtime vm') k) = cs_active (collector (vm_runtime vm) k) \<and>
        cs_generation (collector (vm_runtime vm') k) = cs_generation (collector (vm_runtime vm) k))"
    "lb_profiler_work_depth (bw_bridge (vm_world vm')) = lb_profiler_work_depth (bw_bridge (vm_world vm))"
    using vm_start_ok [OF ok env possible, of d senv L config] by blast
  have "recording vm' kind = recording vm kind" if "valid_kind kind" "status \<noteq> LP_OK \<or> kind \<noteq> cfg_kind config" for kind
  proof (cases "status = LP_OK")
    case True
    then show ?thesis using vm'(4) that by (simp add: recording_def)
  next
    case False
    then show ?thesis using vm'(3) recording_bridge [OF ok that(1)] recording_bridge [OF vm'(2) that(1)] by simp
  qed
  moreover have "start_refused (vm_runtime vm) config = None" if "status = LP_OK"
  proof (rule ccontr)
    assume "start_refused (vm_runtime vm) config \<noteq> None"
    then obtain st where st: "start_refused (vm_runtime vm) config = Some st" by blast
    then have "st \<noteq> LP_OK" by (auto simp: start_refused_def split: if_splits)
    moreover have "lp_runtime_start d senv (with_host (bridge_host env (vm_world vm)) (vm_runtime vm)) (vm_seed vm) L config =
        Some (with_host (bridge_host env (vm_world vm)) (vm_runtime vm), vm_seed vm, st, None)"
      using st by (simp add: start_refused_result)
    ultimately show False using vm'(1) that by (auto simp: vm_start_def Let_def bind_eq_Some_conv)
  qed
  moreover have "\<exists>g. gen = Some g \<and> recording vm' (cfg_kind config) = Some g" if "status = LP_OK"
    using that vm'(4) by (simp add: recording_def)
  ultimately show thesis using that vm'(1,2,5) vm_start_closing [OF vm'(1)] by blast
qed

text \<open>What a start leaves, when it hands out a recorder and when it does not.\<close>

definition recordings_kept :: "lua_module \<Rightarrow> lua_module \<Rightarrow> bool" where
  "recordings_kept m m' \<longleftrightarrow>
     (\<forall>kind. valid_kind kind \<longrightarrow> recording (lm_vm m') kind = recording (lm_vm m) kind) \<and>
     (\<forall>kind p g. active_recorder (lm_recorders m') kind p g = active_recorder (lm_recorders m) kind p g)"

definition recording_started :: "lp_collector_kind \<Rightarrow> pointer \<Rightarrow> lua_module \<Rightarrow> lua_module \<Rightarrow> bool" where
  "recording_started kind p m m' \<longleftrightarrow>
     valid_kind kind \<and> recording (lm_vm m) kind = None \<and> (\<exists>g. active_recorder (lm_recorders m') kind p g) \<and>
     (\<forall>kind'. valid_kind kind' \<and> kind' \<noteq> kind \<longrightarrow> recording (lm_vm m') kind' = recording (lm_vm m) kind')"

lemma start_recorder_ok:
  assumes m: "module_at n m" and env: "env_readable (ce_bridge env)" and possible: "start_possible (ce_bridge env) (vm_world (lm_vm m))"
    and fresh: "lm_recorders m (ce_recorder env) = None" "lm_results m (ce_result env) = None"
  shows "\<exists>r m'. start_recorder d env config m = Some (r, m') \<and> module_at n m' \<and>
    (if r = Inr (Recorder_Value (ce_recorder env)) then recording_started (cfg_kind config) (ce_recorder env) m m'
     else recordings_kept m m' \<and> (\<forall>p. r \<noteq> Inr (Recorder_Value p)))"
proof -
  obtain recorder_memory result_memory message_memory where memory: "ce_memory env = (recorder_memory, result_memory, message_memory)"
    by (cases "ce_memory env") auto
  let ?p = "ce_recorder env" let ?q = "ce_result env"
  let ?r0 = "\<lparr>lr_kind = cfg_kind config, lr_generation = 0, lr_active = False, lr_result = None\<rparr>"
  let ?r1 = "?r0\<lparr>lr_result := Some ?q\<rparr>"
  have ok: "vm_ok (lm_vm m)" "owned m" using m by (simp_all add: module_at_def)
  then have parts: "recorders_ok (lm_recorders m) (lm_results m)" "owners_ok (lm_recorders m) (lm_vm m)" "results_ok (lm_results m)"
    by (simp_all add: owned_def)
  have idle: "active_recorder ((lm_recorders m)(?p \<mapsto> r)) kind p g = active_recorder (lm_recorders m) kind p g"
    if "\<not> lr_active r" for r kind p g using fresh(1) that by (intro idle_recorder) auto
  have results: "results_ok ((lm_results m)(?q \<mapsto> zero_result))"
    by (rule results_ok_upd [OF parts(3)]) (simp_all add: zero_result_def)
  have recorders: "recorders_ok ((lm_recorders m)(?p \<mapsto> r)) ((lm_results m)(?q \<mapsto> zero_result))"
    if "lr_active r \<Longrightarrow> valid_kind (lr_kind r) \<and> lr_result r = Some ?q" for r
    by (rule recorders_ok_upd [OF recorders_ok_results [OF parts(1)]]) (use that in auto)
  show ?thesis
  proof (cases "recorder_memory \<and> result_memory")
    case False
    let ?m1 = "m\<lparr>lm_recorders := (lm_recorders m)(?p \<mapsto> ?r0)\<rparr>"
    have "recorders_ok ((lm_recorders m)(?p \<mapsto> ?r0)) (lm_results m)" by (rule recorders_ok_upd [OF parts(1)]) simp
    moreover have "owners_ok ((lm_recorders m)(?p \<mapsto> ?r0)) (lm_vm m)" by (rule owners_ok_same [OF parts(2)]) (simp_all add: idle)
    ultimately have "module_at n ?m1" using m parts(3) by (simp add: module_at_def owned_def)
    moreover have "recordings_kept m ?m1" "recordings_kept m m" by (simp_all add: recordings_kept_def idle)
    moreover have "start_recorder d env config m = Some (Inl Memory_Error, m) \<or> start_recorder d env config m = Some (Inl Memory_Error, ?m1)"
      using False by (auto simp: start_recorder_def memory Let_def)
    ultimately show ?thesis using m by auto
  next
    case True
    obtain status gen vm where start: "vm_start d (ce_start env) (ce_bridge env) (ce_state env) config (lm_vm m) = Some ((status, gen), vm)" "vm_ok vm"
      "rt_closing (vm_runtime vm) = rt_closing (vm_runtime (lm_vm m))"
      "lb_profiler_work_depth (bw_bridge (vm_world vm)) = lb_profiler_work_depth (bw_bridge (vm_world (lm_vm m)))"
      and others: "\<And>kind. valid_kind kind \<Longrightarrow> status \<noteq> LP_OK \<or> kind \<noteq> cfg_kind config \<Longrightarrow> recording vm kind = recording (lm_vm m) kind"
      and started: "status = LP_OK \<Longrightarrow> start_refused (vm_runtime (lm_vm m)) config = None \<and>
        (\<exists>g. gen = Some g \<and> recording vm (cfg_kind config) = Some g)"
      by (rule vm_start_recordings [OF ok(1) env possible, of d "ce_start env" "ce_state env" config]) (rule that)
    show ?thesis
    proof (cases "status = LP_OK")
      case False
      let ?m2 = "m\<lparr>lm_vm := vm, lm_recorders := (lm_recorders m)(?p \<mapsto> ?r1), lm_results := (lm_results m)(?q \<mapsto> zero_result)\<rparr>"
      have same: "recording vm kind = recording (lm_vm m) kind" if "valid_kind kind" for kind using others [OF that] False by simp
      have "owners_ok ((lm_recorders m)(?p \<mapsto> ?r1)) vm" by (rule owners_ok_same [OF parts(2)]) (simp_all add: idle same)
      then have "module_at n ?m2" using m start(2-4) results recorders [of ?r1] by (simp add: module_at_def owned_def)
      moreover have "recordings_kept m ?m2" by (simp add: recordings_kept_def same idle)
      moreover have "\<exists>r. start_recorder d env config m = Some (r, ?m2) \<and> (\<forall>p. r \<noteq> Inr (Recorder_Value p))"
        using True start(1) False by (simp add: start_recorder_def memory Let_def)
      ultimately show ?thesis by auto
    next
      case ok': True
      then obtain g where g: "gen = Some g" "recording vm (cfg_kind config) = Some g" using started by blast
      let ?r2 = "?r1\<lparr>lr_generation := g, lr_active := True\<rparr>"
      let ?m3 = "m\<lparr>lm_vm := vm, lm_recorders := (lm_recorders m)(?p \<mapsto> ?r2), lm_results := (lm_results m)(?q \<mapsto> zero_result)\<rparr>"
      have kind: "valid_kind (cfg_kind config)" "recording (lm_vm m) (cfg_kind config) = None"
        using started [OF ok'] by (auto simp: start_refused_def recording_def split: if_splits)
      have "owners_ok ((lm_recorders m)(?p \<mapsto> ?r2)) vm"
        by (rule owners_start [OF parts(2) fresh(1)]) (use kind g(2) others in simp_all)
      then have "module_at n ?m3" using m start(2-4) results recorders [of ?r2] kind(1) by (simp add: module_at_def owned_def)
      moreover have "recording_started (cfg_kind config) ?p m ?m3"
        using kind others by (auto simp: recording_started_def active_recorder_def)
      moreover have "start_recorder d env config m = Some (Inr (Recorder_Value ?p), ?m3)"
        using True start(1) ok' g(1) by (simp add: start_recorder_def memory Let_def)
      ultimately show ?thesis by auto
    qed
  qed
qed

lemma active_not_refused:
  assumes m: "module_at n m" and p: "lm_recorders m p = Some r" "lr_active r"
  shows "stop_refused (vm_runtime (lm_vm m)) (lr_kind r) (lr_generation r) = None" "valid_kind (lr_kind r)"
    "recording (lm_vm m) (lr_kind r) = Some (lr_generation r)"
proof -
  have own: "recorders_ok (lm_recorders m) (lm_results m)" "owners_ok (lm_recorders m) (lm_vm m)" "runtime_ok (vm_runtime (lm_vm m))"
    "\<not> rt_closing (vm_runtime (lm_vm m))"
    using m by (simp_all add: module_at_def owned_def vm_ok_def)
  show kind: "valid_kind (lr_kind r)" using own(1) p by (simp add: recorders_ok_def)
  show rec: "recording (lm_vm m) (lr_kind r) = Some (lr_generation r)"
    using owners_ok_recording [OF own(2) kind] p by (auto simp: active_recorder_def)
  then have slot: "cs_active (collector (vm_runtime (lm_vm m)) (lr_kind r))"
    "cs_generation (collector (vm_runtime (lm_vm m)) (lr_kind r)) = lr_generation r"
    by (auto simp: recording_def split: if_splits)
  moreover have "lr_generation r \<noteq> 0"
    using slot own(3) kind by (auto simp: runtime_ok_def slot_ok_def valid_kind_iff)
  ultimately show "stop_refused (vm_runtime (lm_vm m)) (lr_kind r) (lr_generation r) = None"
    using kind own(4) by (simp add: stop_refused_def)
qed

lemma vm_stop_recordings:
  assumes ok: "vm_ok vm" and env: "env_readable env" and room: "lb_profiler_work_depth (bw_bridge (vm_world vm)) + 1 \<noteq> 0"
    and go: "stop_refused (vm_runtime vm) kind g = None"
  obtains res vm' where "vm_stop d env L kind g vm = Some ((LP_OK, Some res), vm')" "vm_ok vm'"
    "rt_closing (vm_runtime vm') = rt_closing (vm_runtime vm)"
    "lb_profiler_work_depth (bw_bridge (vm_world vm')) = lb_profiler_work_depth (bw_bridge (vm_world vm))"
    "recording vm' kind = None" "\<And>k. valid_kind k \<Longrightarrow> k \<noteq> kind \<Longrightarrow> recording vm' k = recording vm k"
    "result_ok res" "rate_ok res" "res_kind res = kind" "res_generation res = g"
proof -
  obtain status result vm' where stop: "vm_stop d env L kind g vm = Some ((status, result), vm')" "vm_ok vm'"
    "\<forall>r. result = Some r \<longrightarrow> result_ok r \<and> rate_ok r"
    "status = LP_OK \<and> result \<noteq> None \<and> bw_bridge (vm_world vm') = idle_bridge kind (bw_bridge (vm_world vm))"
    using vm_stop_ok [OF ok env room, of d L kind g] go by blast
  then obtain res where res: "result = Some res" by blast
  have kind: "valid_kind kind" using go by (auto simp: stop_refused_def split: if_splits)
  have "recording vm' k = (if k = kind then None else recording vm k)" if "valid_kind k" for k
    using recording_bridge [OF ok that] recording_bridge [OF stop(2) that] stop(4) that kind
    by (auto simp: idle_bridge_def Let_def valid_kind_iff split: if_splits)
  moreover have "lb_profiler_work_depth (idle_bridge kind b) = lb_profiler_work_depth b" for b by (simp add: idle_bridge_def)
  ultimately show thesis
    using that [of res vm'] stop res kind vm_stop_fields [OF stop(1)] by simp
qed

lemma active_recorder_stops:
  assumes m: "module_at n m" and room: "n + 1 \<noteq> 0" and env: "env_readable env" and p: "lm_recorders m p = Some r" "lr_active r"
  obtains q res vm where "lr_result r = Some q" "lm_results m q \<noteq> None"
    "vm_stop d env L (lr_kind r) (lr_generation r) (lm_vm m) = Some ((LP_OK, Some res), vm)"
    "module_at n (m\<lparr>lm_vm := vm, lm_results := (lm_results m)(q \<mapsto> res),
       lm_recorders := (lm_recorders m)(p \<mapsto> r\<lparr>lr_active := False, lr_result := None\<rparr>)\<rparr>)"
    "module_at n (m\<lparr>lm_vm := vm, lm_recorders := (lm_recorders m)(p \<mapsto> r\<lparr>lr_active := False\<rparr>)\<rparr>)"
    "result_ok res" "rate_ok res" "res_kind res = lr_kind r" "res_generation res = lr_generation r"
    "recording vm (lr_kind r) = None" "\<And>k. valid_kind k \<Longrightarrow> k \<noteq> lr_kind r \<Longrightarrow> recording vm k = recording (lm_vm m) k"
proof -
  have parts: "vm_ok (lm_vm m)" "recorders_ok (lm_recorders m) (lm_results m)" "owners_ok (lm_recorders m) (lm_vm m)"
    "results_ok (lm_results m)" "lb_profiler_work_depth (bw_bridge (vm_world (lm_vm m))) = n"
    using m by (simp_all add: module_at_def owned_def)
  obtain q where q: "lr_result r = Some q" "q \<in> dom (lm_results m)" using parts(2) p unfolding recorders_ok_def by blast
  obtain res vm where stop: "vm_stop d env L (lr_kind r) (lr_generation r) (lm_vm m) = Some ((LP_OK, Some res), vm)" "vm_ok vm"
    "rt_closing (vm_runtime vm) = rt_closing (vm_runtime (lm_vm m))"
    "lb_profiler_work_depth (bw_bridge (vm_world vm)) = lb_profiler_work_depth (bw_bridge (vm_world (lm_vm m)))"
    and rec: "recording vm (lr_kind r) = None" "\<And>k. valid_kind k \<Longrightarrow> k \<noteq> lr_kind r \<Longrightarrow> recording vm k = recording (lm_vm m) k"
    and res: "result_ok res" "rate_ok res" "res_kind res = lr_kind r" "res_generation res = lr_generation r"
    by (rule vm_stop_recordings [OF parts(1) env _ active_not_refused(1) [OF m p], of d L]) (use parts(5) room that in simp_all)
  have owners: "owners_ok ((lm_recorders m)(p \<mapsto> r')) vm" if "\<not> lr_active r'" for r'
    by (rule owners_stop [OF parts(3) p that rec]) simp_all
  have recs: "recorders_ok ((lm_recorders m)(p \<mapsto> r')) ((lm_results m)(q \<mapsto> res))" "recorders_ok ((lm_recorders m)(p \<mapsto> r')) (lm_results m)"
    if "\<not> lr_active r'" for r'
    using that recorders_ok_upd [OF recorders_ok_results [OF parts(2), of "(lm_results m)(q \<mapsto> res)"], of "Some r'" p]
      recorders_ok_upd [OF parts(2), of "Some r'" p] by auto
  have "results_ok ((lm_results m)(q \<mapsto> res))" by (rule results_ok_upd [OF parts(4)]) (use res in auto)
  then show thesis
    using that [OF q(1) _ stop(1) _ _ res rec] q(2) owners recs stop(2-4) m by (auto simp: module_at_def owned_def)
qed

section \<open>Every call keeps it\<close>

lemma vm_hook_closing: "vm_hook d hook vm = Some vm' \<Longrightarrow> rt_closing (vm_runtime vm') = rt_closing (vm_runtime vm)"
  by (auto simp: vm_hook_def bind_eq_Some_conv dest: runtime_calls_closing)

lemma bridge_same_recordings:
  assumes "vm_ok vm" "vm_ok vm'" and "bw_bridge (vm_world vm') = bw_bridge (vm_world vm)" and "valid_kind kind"
  shows "recording vm' kind = recording vm kind"
  using assms by (simp add: recording_bridge)

text \<open>A hook, a signal, or something another service does.\<close>

lemma vm_event_ok:
  assumes ok: "vm_ok vm" and event: "is_event op" and readable: "vm_op_readable op"
  shows "\<exists>vm'. vm_step d op vm = Some ([], vm') \<and> vm_ok vm' \<and> bw_bridge (vm_world vm') = bw_bridge (vm_world vm) \<and>
    rt_closing (vm_runtime vm') = rt_closing (vm_runtime vm)"
proof (cases "possible op vm")
  case False
  then show ?thesis using ok by (simp add: vm_step_def)
next
  case can: True
  note step = vm_step_def can possible_def Let_def
  have hook: ?thesis if "vm_step d op vm = map_option (Pair []) (vm_hook d hook vm)"
    "\<exists>vm'. vm_hook d hook vm = Some vm' \<and> vm_ok vm' \<and> bw_bridge (vm_world vm') = bw_bridge (vm_world vm)" for hook
    using that vm_hook_closing by fastforce
  have env: "env_readable env" if "op = Safe_Point_Hook env pending \<or> op = State_Hook env L state cfunction \<or> op = Allocation_Hook env L event"
    for env pending L state cfunction event using readable that by (auto simp: vm_op_readable_def)
  show ?thesis
  proof (cases op)
    case (Safe_Point_Hook env pending)
    then show ?thesis
      using hook [of "\<lambda>rt. safe_point env pending"] vm_hook_ok(1) [OF ok _ env, where d = d] can by (simp add: step)
  next
    case (State_Hook env L state cfunction)
    then show ?thesis
      using hook [of "\<lambda>rt. state_change env L state cfunction"] vm_hook_ok(2) [OF ok _ env, where d = d] can by (simp add: step)
  next
    case (Allocation_Hook env L event)
    then show ?thesis
      using hook [of "\<lambda>rt. allocation d env rt L event"] vm_hook_ok(3) [OF ok _ env, where d = d] can by (simp add: step)
  next
    case (Tick info)
    obtain w where "bridge_tick info (vm_world vm) = Some w" "bridge_ok w" "bw_bridge w = bw_bridge (vm_world vm)"
      using bridge_tick_ok [of "vm_world vm" info] ok by (auto simp: vm_ok_def)
    then show ?thesis using Tick vm_ok_world [OF ok] by (simp add: step)
  next
    case (Others hop)
    then have "foreign_op (lb_scheduler_token (bw_bridge (vm_world vm))) hop" "unat (sh_next_token (bw_host (vm_world vm))) < u64_max"
      using can by (simp_all add: possible_def Let_def)
    then obtain h where "host_op_step hop (bw_host (vm_world vm)) = Some h" "vm_ok (vm\<lparr>vm_world := (vm_world vm)\<lparr>bw_host := h\<rparr>\<rparr>)"
      using vm_others_ok [OF ok] by blast
    then show ?thesis using Others can by (simp add: step)
  qed (use event in \<open>simp_all add: is_event_def\<close>)
qed

lemma event_ok:
  assumes "module_at n m" and "is_event op" and "vm_op_readable op"
  shows "\<exists>vm. vm_step d op (lm_vm m) = Some ([], vm) \<and> module_at n (m\<lparr>lm_vm := vm\<rparr>) \<and> recordings_kept m (m\<lparr>lm_vm := vm\<rparr>)"
proof -
  have ok: "vm_ok (lm_vm m)" "owners_ok (lm_recorders m) (lm_vm m)" using assms(1) by (simp_all add: module_at_def owned_def)
  obtain vm where vm: "vm_step d op (lm_vm m) = Some ([], vm)" "vm_ok vm" "bw_bridge (vm_world vm) = bw_bridge (vm_world (lm_vm m))"
    "rt_closing (vm_runtime vm) = rt_closing (vm_runtime (lm_vm m))"
    using vm_event_ok [OF ok(1) assms(2,3)] by blast
  note same = bridge_same_recordings [OF ok(1) vm(2,3)]
  have "owners_ok (lm_recorders m) vm" by (rule owners_ok_same [OF ok(2) refl same])
  then show ?thesis using vm same assms(1) by (simp add: module_at_def owned_def recordings_kept_def)
qed

lemma kept_refl [simp]: "recordings_kept m m"
  by (simp add: recordings_kept_def)

lemma same_objects_recording: "same_objects m m' \<Longrightarrow> recording (lm_vm m') = recording (lm_vm m) \<and> lm_recorders m' = lm_recorders m \<and> lm_results m' = lm_results m"
  by (auto simp: same_objects_def recording_def fun_eq_iff)

lemma same_objects_kept:
  "same_objects m m1 \<Longrightarrow> recordings_kept m m' = recordings_kept m1 m'" "same_objects m' m2 \<Longrightarrow> recordings_kept m m' = recordings_kept m m2"
  "same_objects m m1 \<Longrightarrow> recording_started kind p m m' = recording_started kind p m1 m'"
  "same_objects m' m2 \<Longrightarrow> recording_started kind p m m' = recording_started kind p m m2"
  by (drule same_objects_recording, simp add: recordings_kept_def recording_started_def)+

lemma start_call_ok:
  assumes m: "module_at 0 m" and env: "env_readable (ce_bridge env)"
    and fresh: "lm_recorders m (ce_recorder env) = None" "lm_results m (ce_result env) = None"
    and possible: "\<And>m1. enter_work (ce_ticks env) m = Some m1 \<Longrightarrow> start_possible (ce_bridge env) (vm_world (lm_vm m1))"
    and kind: "\<And>c. config = Inr c \<Longrightarrow> cfg_kind c = kind"
  shows "\<exists>r m'. guarded (ce_ticks env) (\<lambda>m. case config of Inl e \<Rightarrow> Some (Inl e, m) | Inr c \<Rightarrow> start_recorder d env c m) m = Some (r, m') \<and>
    module_at 0 m' \<and>
    (if r = Inr (Recorder_Value (ce_recorder env)) then recording_started kind (ce_recorder env) m m'
     else recordings_kept m m' \<and> (\<forall>p. r \<noteq> Inr (Recorder_Value p)))"
proof (rule guarded_ok [OF m])
  fix m1
  assume enter: "enter_work (ce_ticks env) m = Some m1" and m1: "module_at 1 m1" and same: "same_objects m m1"
  note kept = same_objects_kept(1,3) [OF same]
  show "\<exists>r m2. (case config of Inl e \<Rightarrow> Some (Inl e, m1) | Inr c \<Rightarrow> start_recorder d env c m1) = Some (r, m2) \<and> module_at 1 m2 \<and>
    (if r = Inr (Recorder_Value (ce_recorder env)) then recording_started kind (ce_recorder env) m m2
     else recordings_kept m m2 \<and> (\<forall>p. r \<noteq> Inr (Recorder_Value p)))"
  proof (cases config)
    case (Inl e)
    then show ?thesis using m1 by (simp add: kept)
  next
    case (Inr c)
    have "lm_recorders m1 (ce_recorder env) = None" "lm_results m1 (ce_result env) = None"
      using fresh same_objects_recording [OF same] by simp_all
    from start_recorder_ok [OF m1 env possible [OF enter] this, of d c] show ?thesis
      using kind [OF Inr] unfolding Inr sum.case kept by blast
  qed
qed (simp add: same_objects_kept(2,4) split: if_splits)

text \<open>What a stop leaves of an active recorder, its recording and the others.\<close>

definition recording_stopped :: "pointer \<Rightarrow> lp_lua_recorder \<Rightarrow> pointer option \<Rightarrow> lua_module \<Rightarrow> lua_module \<Rightarrow> bool" where
  "recording_stopped p r result m m' \<longleftrightarrow>
     recording (lm_vm m') (lr_kind r) = None \<and>
     (\<forall>kind. valid_kind kind \<and> kind \<noteq> lr_kind r \<longrightarrow> recording (lm_vm m') kind = recording (lm_vm m) kind) \<and>
     lm_recorders m' = (lm_recorders m)(p \<mapsto> r\<lparr>lr_active := False, lr_result := result\<rparr>)"

lemma same_objects_stopped:
  "same_objects m m1 \<Longrightarrow> recording_stopped p r result m m' = recording_stopped p r result m1 m'"
  "same_objects m' m2 \<Longrightarrow> recording_stopped p r result m m' = recording_stopped p r result m m2"
  by (drule same_objects_recording, simp add: recording_stopped_def)+

lemma same_check: "same_objects m m1 \<Longrightarrow> check_recorder self m1 = check_recorder self m" "same_objects m m1 \<Longrightarrow> check_result self m1 = check_result self m"
  by (auto simp: check_recorder_def check_result_def dest: same_objects_recording split: lua_arg.split)

lemma check_recorder_Some: "check_recorder self m = Some (p, r) \<Longrightarrow> lm_recorders m p = Some r"
  and check_result_Some: "check_result self m = Some (q, res) \<Longrightarrow> lm_results m q = Some res"
  by (auto simp: check_recorder_def check_result_def split: lua_arg.splits)

lemma stop_call_ok:
  assumes m: "module_at 0 m" and env: "env_readable (ce_bridge env)" and p: "check_recorder self m = Some (p, r)"
  shows "\<exists>out m'. recorder_stop d env self m = Some (out, m') \<and> module_at 0 m' \<and>
    (if lr_active r
     then \<exists>q res. lr_result r = Some q \<and> out = Inr (Result_Value q) \<and> lm_results m' q = Some res \<and>
       result_ok res \<and> rate_ok res \<and> res_kind res = lr_kind r \<and> res_generation res = lr_generation r \<and>
       recording_stopped p r None m m'
     else out = Inr (Nil_Message ''luaprof recorder is already stopped'') \<and> same_objects m m')" (is "\<exists>out m'. _ \<and> _ \<and> ?P out m'")
  unfolding recorder_stop_def
proof (rule guarded_ok [OF m])
  fix m1
  assume m1: "module_at 1 m1" and same: "same_objects m m1"
  have p1: "check_recorder self m1 = Some (p, r)" "lm_recorders m1 p = Some r"
    using p same_check(1) [OF same] check_recorder_Some [of self m1] by auto
  show "\<exists>out m2. stop_body d env self m1 = Some (out, m2) \<and> module_at 1 m2 \<and> ?P out m2"
  proof (cases "lr_active r")
    case False
    then show ?thesis using m1 same p1 by (simp add: stop_body_def)
  next
    case True
    obtain q res vm where q: "lr_result r = Some q" "lm_results m1 q \<noteq> None"
      and stop: "vm_stop d (ce_bridge env) (ce_state env) (lr_kind r) (lr_generation r) (lm_vm m1) = Some ((LP_OK, Some res), vm)"
      and m2: "module_at 1 (m1\<lparr>lm_vm := vm, lm_results := (lm_results m1)(q \<mapsto> res),
         lm_recorders := (lm_recorders m1)(p \<mapsto> r\<lparr>lr_active := False, lr_result := None\<rparr>)\<rparr>)"
      and res: "result_ok res" "rate_ok res" "res_kind res = lr_kind r" "res_generation res = lr_generation r"
      and rec: "recording vm (lr_kind r) = None" "\<And>k. valid_kind k \<Longrightarrow> k \<noteq> lr_kind r \<Longrightarrow> recording vm k = recording (lm_vm m1) k"
      by (rule active_recorder_stops [OF m1 _ env p1(2) True, of d "ce_state env"]) (simp, rule that)
    let ?m2 = "m1\<lparr>lm_vm := vm, lm_results := (lm_results m1)(q \<mapsto> res),
         lm_recorders := (lm_recorders m1)(p \<mapsto> r\<lparr>lr_active := False, lr_result := None\<rparr>)\<rparr>"
    have run: "stop_body d env self m1 = Some (Inr (Result_Value q), ?m2)"
      using p1 True q stop by (simp add: stop_body_def Let_def)
    have "recording_stopped p r None m1 ?m2" using rec by (simp add: recording_stopped_def)
    then have "?P (Inr (Result_Value q)) ?m2" using True q(1) res same_objects_stopped(1) [OF same] by simp
    then show ?thesis using run m2 by blast
  qed
next
  fix out m2 m3
  assume P: "?P out m2" and same: "same_objects m2 m3"
  show "?P out m3"
    using P same_objects_recording [OF same] same_objects_stopped(2) [OF same] same_objects_trans [OF _ same] by (cases "lr_active r") auto
qed

lemma gc_call_ok:
  assumes m: "module_at 0 m" and env: "env_readable (ce_bridge env)" and p: "check_recorder self m = Some (p, r)"
  shows "\<exists>m'. recorder_gc d env self m = Some (Inr No_Value, m') \<and> module_at 0 m' \<and>
    (if lr_active r then recording_stopped p r (lr_result r) m m' \<and> lm_results m' = lm_results m else same_objects m m')"
    (is "\<exists>m'. _ \<and> _ \<and> ?P m'")
proof -
  have "\<exists>out m'. recorder_gc d env self m = Some (out, m') \<and> module_at 0 m' \<and> out = Inr No_Value \<and> ?P m'"
    unfolding recorder_gc_def
  proof (rule guarded_ok [OF m])
    fix m1
    assume m1: "module_at 1 m1" and same: "same_objects m m1"
    have p1: "check_recorder self m1 = Some (p, r)" "lm_recorders m1 p = Some r"
      using p same_check(1) [OF same] check_recorder_Some [of self m1] by auto
    show "\<exists>out m2. gc_body d env self m1 = Some (out, m2) \<and> module_at 1 m2 \<and> out = Inr No_Value \<and> ?P m2"
    proof (cases "lr_active r")
      case False
      then show ?thesis using m1 same p1 by (simp add: gc_body_def)
    next
      case True
      obtain res vm where stop: "vm_stop d (ce_bridge env) (ce_state env) (lr_kind r) (lr_generation r) (lm_vm m1) = Some ((LP_OK, Some res), vm)"
        and m2: "module_at 1 (m1\<lparr>lm_vm := vm, lm_recorders := (lm_recorders m1)(p \<mapsto> r\<lparr>lr_active := False\<rparr>)\<rparr>)"
        and rec: "recording vm (lr_kind r) = None" "\<And>k. valid_kind k \<Longrightarrow> k \<noteq> lr_kind r \<Longrightarrow> recording vm k = recording (lm_vm m1) k"
        by (rule active_recorder_stops [OF m1 _ env p1(2) True, of d "ce_state env"]) (simp, rule that)
      let ?m2 = "m1\<lparr>lm_vm := vm, lm_recorders := (lm_recorders m1)(p \<mapsto> r\<lparr>lr_active := False\<rparr>)\<rparr>"
      have "gc_body d env self m1 = Some (Inr No_Value, ?m2)" using p1 True stop by (simp add: gc_body_def)
      moreover have "recording_stopped p r (lr_result r) m1 ?m2" using rec by (simp add: recording_stopped_def)
      ultimately show ?thesis using True m2 same_objects_stopped(1) [OF same] same_objects_recording [OF same] by auto
    qed
  next
    fix out m2 m3
    assume P: "out = Inr No_Value \<and> ?P m2" and same: "same_objects m2 m3"
    show "out = Inr No_Value \<and> ?P m3"
      using P same_objects_recording [OF same] same_objects_stopped(2) [OF same] same_objects_trans [OF _ same] by (cases "lr_active r") auto
  qed
  then show ?thesis by blast
qed

lemma quiet_call_ok:
  assumes m: "module_at 0 m"
    and body: "\<And>m1. module_at 1 m1 \<Longrightarrow> same_objects m m1 \<Longrightarrow> \<exists>out m2. body m1 = Some (out, m2) \<and> module_at 1 m2 \<and> recordings_kept m1 m2"
  shows "\<exists>out m'. guarded infos body m = Some (out, m') \<and> module_at 0 m' \<and> recordings_kept m m'"
proof (rule guarded_ok [OF m])
  fix m1
  assume "module_at 1 m1" and same: "same_objects m m1"
  then show "\<exists>out m2. body m1 = Some (out, m2) \<and> module_at 1 m2 \<and> recordings_kept m m2"
    using body same_objects_kept(1) [OF same] by blast
qed (use same_objects_kept(2) in blast)

text \<open>A function that only looks at an object.\<close>

lemma reading_call_ok:
  assumes m: "module_at 0 m" and body: "\<And>m1. same_objects m m1 \<Longrightarrow> body m1 = Some (out, m1)"
  shows "\<exists>m'. guarded infos body m = Some (out, m') \<and> module_at 0 m' \<and> same_objects m m'"
proof -
  have "\<exists>out' m'. guarded infos body m = Some (out', m') \<and> module_at 0 m' \<and> out' = out \<and> same_objects m m'"
  proof (rule guarded_ok [OF m])
    fix m1
    assume "module_at 1 m1" and same: "same_objects m m1"
    then show "\<exists>r m2. body m1 = Some (r, m2) \<and> module_at 1 m2 \<and> r = out \<and> same_objects m m2" using body by blast
  qed (use same_objects_trans in blast)
  then show ?thesis by blast
qed

lemma stop_wrong_type:
  assumes "module_at 0 m" and "check_recorder self m = None"
  shows "\<exists>m'. recorder_stop d env self m = Some (Inl (Wrong_Type 1), m') \<and> module_at 0 m' \<and> same_objects m m'"
    "\<exists>m'. recorder_gc d env self m = Some (Inl (Wrong_Type 1), m') \<and> module_at 0 m' \<and> same_objects m m'"
  unfolding recorder_stop_def recorder_gc_def
  by (rule reading_call_ok [OF assms(1)], simp add: stop_body_def gc_body_def same_check assms(2))+

lemma text_calls_ok:
  assumes "module_at 0 m"
  shows "\<exists>out m'. recorder_tostring env self m = Some (out, m') \<and> module_at 0 m' \<and> same_objects m m'"
    "\<exists>out m'. result_tostring env self m = Some (out, m') \<and> module_at 0 m' \<and> same_objects m m'"
    "\<exists>m'. result_stats env self m = Some (case check_result self m of None \<Rightarrow> Inl (Wrong_Type 1)
       | Some (q, value) \<Rightarrow> Inr (Table_Value (stats_table value)), m') \<and> module_at 0 m' \<and> same_objects m m'"
proof -
  show "\<exists>out m'. recorder_tostring env self m = Some (out, m') \<and> module_at 0 m' \<and> same_objects m m'"
    unfolding recorder_tostring_def
    by (rule exI, rule reading_call_ok [OF assms, where out = "case check_recorder self m of None \<Rightarrow> Inl (Wrong_Type 1)
        | Some (p, recorder) \<Rightarrow> Inr (Text_Value (ascii ''luaprof.'' @ ascii (kind_name (lr_kind recorder)) @ ascii ''.recorder('' @
           ascii (if lr_active recorder then ''active'' else ''stopped'') @ ascii '', generation='' @
           decimal_int (lr_generation recorder) @ ascii '')''))"])
      (simp add: same_check split: option.split prod.split)
  show "\<exists>out m'. result_tostring env self m = Some (out, m') \<and> module_at 0 m' \<and> same_objects m m'"
    unfolding result_tostring_def
    by (rule exI, rule reading_call_ok [OF assms, where out = "case check_result self m of None \<Rightarrow> Inl (Wrong_Type 1)
        | Some (q, value) \<Rightarrow> Inr (Text_Value (ascii ''luaprof.'' @ ascii (kind_name (res_kind value)) @ ascii ''.result(generation='' @
           decimal_int (res_generation value) @ ascii '')''))"])
      (simp add: same_check split: option.split prod.split)
  show "\<exists>m'. result_stats env self m = Some (case check_result self m of None \<Rightarrow> Inl (Wrong_Type 1)
       | Some (q, value) \<Rightarrow> Inr (Table_Value (stats_table value)), m') \<and> module_at 0 m' \<and> same_objects m m'"
    unfolding result_stats_def
    by (rule reading_call_ok [OF assms]) (simp add: same_check split: option.split prod.split)
qed

text \<open>The outcome of \<open>result:write\<close> and the files it leaves.\<close>

definition write_outcome :: "write_env \<Rightarrow> (pointer \<times> lp_result) option \<Rightarrow> lua_arg list \<Rightarrow> files \<Rightarrow> module_outcome \<times> files" where
  "write_outcome wenv result args fs =
     (case result of
        None \<Rightarrow> (Inl (Wrong_Type 1), fs)
      | Some (q, value) \<Rightarrow>
          (case write_options args of
             Inl e \<Rightarrow> (Inl e, fs)
           | Inr (path, format, sample_type) \<Rightarrow>
               (case lp_export_result_with_symbols (we_sys wenv) (we_native wenv) (we_memory wenv) (Some value) (Some path)
                       format sample_type (lua_names wenv) fs of
                  (None, fs1) \<Rightarrow> (Inr True_Value, fs1)
                | (Some failure, fs1) \<Rightarrow> (Inr (Nil_Error failure), fs1))))"

lemma write_call_ok:
  assumes "module_at 0 m"
  shows "\<exists>m'. result_write env wenv self args fs m = Some (write_outcome wenv (check_result self m) args fs, m') \<and>
    module_at 0 m' \<and> same_objects m m'"
  unfolding result_write_def
  by (rule reading_call_ok [OF assms])
    (simp add: write_body_def write_outcome_def same_check split: option.split prod.split sum.split)

lemma result_gc_ok:
  assumes m: "module_at 0 m"
  shows "\<exists>out m'. result_gc env self m = Some (out, m') \<and> module_at 0 m' \<and> recordings_kept m m'"
  unfolding result_gc_def
proof (rule quiet_call_ok [OF m])
  fix m1
  assume m1: "module_at 1 m1"
  show "\<exists>out m2. (case check_result self m1 of
       None \<Rightarrow> Some (Inl (Wrong_Type 1), m1)
     | Some (q, value) \<Rightarrow> Some (Inr No_Value, m1\<lparr>lm_results := (lm_results m1)(q \<mapsto> lp_result_dispose value)\<rparr>)) = Some (out, m2) \<and>
    module_at 1 m2 \<and> recordings_kept m1 m2"
  proof (cases "check_result self m1")
    case None
    then show ?thesis using m1 by simp
  next
    case (Some r)
    obtain q old where r: "r = (q, old)" by (cases r)
    let ?m2 = "m1\<lparr>lm_results := (lm_results m1)(q \<mapsto> lp_result_dispose old)\<rparr>"
    have own: "recorders_ok (lm_recorders m1) (lm_results m1)" "results_ok (lm_results m1)" using m1 by (simp_all add: module_at_def owned_def)
    have "recorders_ok (lm_recorders m1) (lm_results ?m2)" by (rule recorders_ok_results [OF own(1)]) auto
    moreover have "results_ok (lm_results ?m2)"
      using results_ok_upd [OF own(2), of "Some (lp_result_dispose old)" q] by (simp add: lp_result_dispose_def)
    ultimately have "module_at 1 ?m2" using m1 by (simp add: module_at_def owned_def)
    moreover have "recordings_kept m1 ?m2" by (simp add: recordings_kept_def)
    ultimately show ?thesis using Some r by simp
  qed
qed

section \<open>Histories of the module\<close>

lemma start_step_ok:
  assumes m: "module_at 0 m" and readable: "module_op_readable op" and possible: "call_possible op m"
  shows "op = Cpu_Start_Call env args \<Longrightarrow> \<exists>r m'. cpu_start d env args m = Some (r, m') \<and> module_at 0 m' \<and>
      (if r = Inr (Recorder_Value (ce_recorder env)) then recording_started LP_COLLECTOR_CPU (ce_recorder env) m m'
       else recordings_kept m m' \<and> (\<forall>p. r \<noteq> Inr (Recorder_Value p)))"
    "op = Memory_Start_Call env args \<Longrightarrow> \<exists>r m'. memory_start d env args m = Some (r, m') \<and> module_at 0 m' \<and>
      (if r = Inr (Recorder_Value (ce_recorder env)) then recording_started LP_COLLECTOR_MEMORY (ce_recorder env) m m'
       else recordings_kept m m' \<and> (\<forall>p. r \<noteq> Inr (Recorder_Value p)))"
proof -
  have start: "start_possible (ce_bridge env) (vm_world (lm_vm m1))" if "call_possible op m" "enter_work (ce_ticks env) m = Some m1"
    "op = Cpu_Start_Call env args \<or> op = Memory_Start_Call env args" for m1
    using that by (auto simp: call_possible_def Let_def)
  have env: "env_readable (ce_bridge env)" "lm_recorders m (ce_recorder env) = None" "lm_results m (ce_result env) = None"
    if "op = Cpu_Start_Call env args \<or> op = Memory_Start_Call env args"
    using that readable possible by (auto simp: module_op_readable_def call_of_def call_possible_def)
  show "\<exists>r m'. cpu_start d env args m = Some (r, m') \<and> module_at 0 m' \<and>
      (if r = Inr (Recorder_Value (ce_recorder env)) then recording_started LP_COLLECTOR_CPU (ce_recorder env) m m'
       else recordings_kept m m' \<and> (\<forall>p. r \<noteq> Inr (Recorder_Value p)))" if "op = Cpu_Start_Call env args"
    unfolding cpu_start_def
    by (rule start_call_ok [OF m env]) (use that start [OF possible] cpu_config_Inr in blast)+
  show "\<exists>r m'. memory_start d env args m = Some (r, m') \<and> module_at 0 m' \<and>
      (if r = Inr (Recorder_Value (ce_recorder env)) then recording_started LP_COLLECTOR_MEMORY (ce_recorder env) m m'
       else recordings_kept m m' \<and> (\<forall>p. r \<noteq> Inr (Recorder_Value p)))" if "op = Memory_Start_Call env args"
    unfolding memory_start_def
    by (rule start_call_ok [OF m env]) (use that start [OF possible] memory_config_Inr in blast)+
qed

lemma free_ok:
  assumes m: "module_at n m"
  shows "(\<And>r. lm_recorders m p = Some r \<Longrightarrow> \<not> lr_active r) \<Longrightarrow> module_at n (m\<lparr>lm_recorders := (lm_recorders m)(p := None)\<rparr>)"
    "(\<forall>p r. lm_recorders m p = Some r \<longrightarrow> lr_result r \<noteq> Some q) \<Longrightarrow> module_at n (m\<lparr>lm_results := (lm_results m)(q := None)\<rparr>)"
proof -
  have own: "recorders_ok (lm_recorders m) (lm_results m)" "owners_ok (lm_recorders m) (lm_vm m)" "results_ok (lm_results m)"
    using m by (simp_all add: module_at_def owned_def)
  show "module_at n (m\<lparr>lm_recorders := (lm_recorders m)(p := None)\<rparr>)" if "\<And>r. lm_recorders m p = Some r \<Longrightarrow> \<not> lr_active r"
  proof -
    have "owners_ok ((lm_recorders m)(p := None)) (lm_vm m)"
      by (rule owners_ok_same [OF own(2)]) (use that in \<open>auto intro!: idle_recorder\<close>)
    moreover have "recorders_ok ((lm_recorders m)(p := None)) (lm_results m)" by (rule recorders_ok_upd [OF own(1)]) simp
    ultimately show ?thesis using m own(3) by (simp add: module_at_def owned_def)
  qed
  show "module_at n (m\<lparr>lm_results := (lm_results m)(q := None)\<rparr>)" if "\<forall>p r. lm_recorders m p = Some r \<longrightarrow> lr_result r \<noteq> Some q"
  proof -
    have "recorders_ok (lm_recorders m) ((lm_results m)(q := None))" using own(1) that unfolding recorders_ok_def by fastforce
    moreover have "results_ok ((lm_results m)(q := None))" by (rule results_ok_upd [OF own(3)]) simp
    ultimately show ?thesis using m own(2) by (simp add: module_at_def owned_def)
  qed
qed

lemma module_step_ok:
  assumes m: "module_at 0 m" and readable: "module_op_readable op"
  shows "\<exists>out m' fs'. module_step d op (m, fs) = Some (out, m', fs') \<and> module_at 0 m'"
proof (cases "call_possible op m")
  case False
  then show ?thesis using m by (simp add: module_step_def)
next
  case can: True
  note step = module_step_def can Let_def
  have env: "env_readable (ce_bridge env)" if "call_of op = Some env" for env using readable that by (simp add: module_op_readable_def)
  show ?thesis
  proof (cases op)
    case (Cpu_Start_Call env args)
    then show ?thesis using start_step_ok(1) [OF m readable can Cpu_Start_Call, of d] can by (auto simp: step)
  next
    case (Memory_Start_Call env args)
    then show ?thesis using start_step_ok(2) [OF m readable can Memory_Start_Call, of d] can by (auto simp: step)
  next
    case (Recorder_Stop_Call env self)
    then have "\<exists>out m'. recorder_stop d env self m = Some (out, m') \<and> module_at 0 m'"
      using stop_wrong_type(1) [OF m, of self d env] stop_call_ok [OF m, of env self _ _ d] env [of env]
      by (cases "check_recorder self m") (auto simp: call_of_def)
    then show ?thesis using Recorder_Stop_Call can by (auto simp: step)
  next
    case (Recorder_Gc_Call env self)
    then have "\<exists>out m'. recorder_gc d env self m = Some (out, m') \<and> module_at 0 m'"
      using stop_wrong_type(2) [OF m, of self d env] gc_call_ok [OF m, of env self _ _ d] env [of env]
      by (cases "check_recorder self m") (auto simp: call_of_def)
    then show ?thesis using Recorder_Gc_Call can by (auto simp: step)
  next
    case (Recorder_Text_Call env self)
    then show ?thesis using text_calls_ok(1) [OF m, of env self] can by (auto simp: step)
  next
    case (Result_Gc_Call env self)
    then show ?thesis using result_gc_ok [OF m, of env self] can by (auto simp: step)
  next
    case (Result_Text_Call env self)
    then show ?thesis using text_calls_ok(2) [OF m, of env self] can by (auto simp: step)
  next
    case (Result_Stats_Call env self)
    then show ?thesis using text_calls_ok(3) [OF m, of env self] can by (auto simp: step)
  next
    case (Result_Write_Call env wenv self args)
    then show ?thesis
      using write_call_ok [OF m, of env wenv self args fs] can by (cases "write_outcome wenv (check_result self m) args fs") (auto simp: step)
  next
    case (Free_Recorder p)
    then show ?thesis using free_ok(1) [OF m, of p] can by (auto simp: step call_possible_def split: option.splits)
  next
    case (Free_Result q)
    then show ?thesis using free_ok(2) [OF m, of q] can by (auto simp: step call_possible_def)
  next
    case (Vm_Event vop)
    then have "is_event vop" "vm_op_readable vop" using can readable by (simp_all add: call_possible_def module_op_readable_def)
    then show ?thesis using event_ok [OF m, of vop d] Vm_Event can by (auto simp: step)
  qed
qed

lemma module_history_ok:
  "module_at 0 m \<Longrightarrow> \<forall>op \<in> set ops. module_op_readable op \<Longrightarrow>
   \<exists>outs m' fs'. module_history d ops (m, fs) = Some (outs, m', fs') \<and> module_at 0 m'"
proof (induction ops arbitrary: m fs)
  case (Cons op ops)
  obtain out m1 fs1 where "module_step d op (m, fs) = Some (out, m1, fs1)" "module_at 0 m1"
    using module_step_ok [OF Cons.prems(1), of op d fs] Cons.prems(2) by auto
  then show ?case using Cons.IH [of m1 fs1] Cons.prems(2) by auto
qed simp

end
