(* ===== verification/Module_Recording.thy ===== *)
theory Module_Recording
  imports Module_Calls
begin

text \<open>
  The properties of the profiler as Lua code sees it, for every history of calls of the module with
  hooks, signals and other services in between.
\<close>

section \<open>Recorders\<close>

lemma module_from_ok:
  assumes "setting_ok s" and "\<forall>op \<in> set ops. module_op_readable op"
  shows "\<exists>outs m fs'. module_from d s fs ops = Some (outs, m, fs') \<and> module_at 0 m"
proof -
  obtain h where h: "host_history (vs_host_ops s) initial_host = Some h" using host_ok_history [OF host_ok_initial] by blast
  obtain timers where timers: "timer_history (vs_timer_ops s) initial_world = Some timers"
    using world_ok_history [OF world_ok_initial] by blast
  obtain vm where vm: "new_vm h timers (vs_backend s) (vs_main_state s) (vs_address s) (vs_seed s) = Some vm"
    using assms(1) by (simp add: new_vm_def setting_ok_def lp_runtime_new_def)
  let ?m = "\<lparr>lm_vm = vm, lm_recorders = Map.empty, lm_results = Map.empty\<rparr>"
  have "vm_ok vm"
    using vm_ok_new [OF vm history_world_ok [OF timers] initial_history(1,2) [OF h]] assms(1) by (simp add: setting_ok_def)
  moreover have "recording vm kind = None" if "valid_kind kind" for kind
    using vm that by (auto simp: recording_def new_vm_def lp_runtime_new_def collector_def zero_slot_def valid_kind_iff split: if_splits)
  moreover have "\<not> rt_closing (vm_runtime vm)" "lb_profiler_work_depth (bw_bridge (vm_world vm)) = 0"
    using vm by (auto simp: new_vm_def lp_runtime_new_def lp_lua_bridge_bind_def lp_lua_bridge_init_def case_prod_beta split: if_splits)
  ultimately have "module_at 0 ?m"
    by (simp add: module_at_def owned_def recorders_ok_def owners_ok_def results_ok_def active_recorder_def)
  from module_history_ok [OF this assms(2), of d fs] show ?thesis
    using h timers vm by (simp add: module_from_def runtime_holder_def)
qed

lemma module_from_kept:
  assumes "setting_ok s" and "\<forall>op \<in> set ops. module_op_readable op" and "module_from d s fs ops = Some (outs, m, fs1)"
  shows "module_at 0 m"
  using module_from_ok [OF assms(1,2), of d fs] assms(3) by auto

text \<open>
  C1: recorders and recordings belong together. Whatever Lua code does with the module, with
  hooks, signals and other services in between, every call returns or raises an error; afterwards
  a kind is being recorded exactly when one recorder, and only one, is active for it, under its
  generation; ticks come, and the hooks are set, exactly while a recorder wants them; and no call
  has left the profiler at work.
\<close>

theorem recorders_own_their_recordings:
  assumes "setting_ok s" and "\<forall>op \<in> set ops. module_op_readable op"
  shows "\<exists>outs m fs'. module_from d s fs ops = Some (outs, m, fs') \<and>
    (\<forall>kind g. valid_kind kind \<longrightarrow>
      (cs_active (collector (vm_runtime (lm_vm m)) kind) \<and> cs_generation (collector (vm_runtime (lm_vm m)) kind) = g \<longleftrightarrow>
       (\<exists>!p. active_recorder (lm_recorders m) kind p g)) \<and>
      (\<forall>p p' g'. active_recorder (lm_recorders m) kind p g \<and> active_recorder (lm_recorders m) kind p' g' \<longrightarrow> p = p')) \<and>
    (ticks_come (vm_world (lm_vm m)) \<longleftrightarrow> (\<exists>p g. active_recorder (lm_recorders m) LP_COLLECTOR_CPU p g)) \<and>
    (hook_set hk_allocation (lm_vm m) \<longleftrightarrow> (\<exists>p g. active_recorder (lm_recorders m) LP_COLLECTOR_MEMORY p g)) \<and>
    lb_profiler_work_depth (bw_bridge (vm_world (lm_vm m))) = 0"
proof -
  obtain outs m fs' where m: "module_from d s fs ops = Some (outs, m, fs')" "module_at 0 m"
    using module_from_ok [OF assms, of d fs] by blast
  let ?vm = "lm_vm m" let ?b = "bw_bridge (vm_world (lm_vm m))"
  have ok: "vm_ok ?vm" "bridge_ok (vm_world ?vm)" "owners_ok (lm_recorders m) ?vm" "lb_profiler_work_depth ?b = 0"
    using m(2) by (simp_all add: module_at_def owned_def vm_ok_def)
  have rec: "recording ?vm kind = Some g \<longleftrightarrow> cs_active (collector (vm_runtime ?vm) kind) \<and> cs_generation (collector (vm_runtime ?vm) kind) = g"
    for kind g by (auto simp: recording_def)
  have own: "recording ?vm kind = Some g \<longleftrightarrow> (\<exists>!p. active_recorder (lm_recorders m) kind p g)" if "valid_kind kind" for kind g
    using owners_ok_recording [OF ok(3) that] owners_ok_one [OF ok(3)] by blast
  have kinds: "valid_kind LP_COLLECTOR_CPU" "valid_kind LP_COLLECTOR_MEMORY" by (simp_all add: valid_kind_iff)
  have active: "(\<exists>p g. active_recorder (lm_recorders m) kind p g) \<longleftrightarrow> recording ?vm kind \<noteq> None" if "valid_kind kind" for kind
    using owners_ok_recording [OF ok(3) that] by auto
  have "ticks_come (vm_world ?vm) \<longleftrightarrow> lb_cpu_active ?b"
    using active_source [OF ok(2)] idle_source [OF ok(2)] by (auto simp: cpu_source_def ticks_come_def)
  then have "ticks_come (vm_world ?vm) \<longleftrightarrow> (\<exists>p g. active_recorder (lm_recorders m) LP_COLLECTOR_CPU p g)"
    unfolding active [OF kinds(1)] by (simp add: recording_bridge [OF ok(1) kinds(1)] Let_def)
  moreover have "hook_set hk_allocation ?vm \<longleftrightarrow> (\<exists>p g. active_recorder (lm_recorders m) LP_COLLECTOR_MEMORY p g)"
    unfolding active [OF kinds(2)] by (simp add: recording_bridge [OF ok(1) kinds(2)] Let_def hook_active(3) [OF ok(1)])
  moreover have "\<forall>kind g. valid_kind kind \<longrightarrow>
      (cs_active (collector (vm_runtime ?vm) kind) \<and> cs_generation (collector (vm_runtime ?vm) kind) = g \<longleftrightarrow>
       (\<exists>!p. active_recorder (lm_recorders m) kind p g)) \<and>
      (\<forall>p p' g'. active_recorder (lm_recorders m) kind p g \<and> active_recorder (lm_recorders m) kind p' g' \<longrightarrow> p = p')"
    using own owners_ok_one [OF ok(3)] unfolding rec by blast
  ultimately show ?thesis using m(1) ok(4) by (intro exI conjI)
qed

text \<open>
  C9: an active recorder gets its result. After any history, \<open>recorder:stop()\<close> on an active
  recorder always returns the result prepared for it, never an error: the samples of its own
  recording, of its kind and under its generation. The other kind goes on as before, the kind is
  free for a new recorder, and a second stop only says that the recorder is stopped.
\<close>

theorem active_recorder_gets_its_result:
  assumes "setting_ok s" and "\<forall>op \<in> set ops. module_op_readable op" and "module_from d s fs ops = Some (outs, m, fs1)"
    and "env_readable (ce_bridge env)" and "check_recorder self m = Some (p, r)" and "lr_active r"
  shows "\<exists>q res m1. recorder_stop d env self m = Some (Inr (Result_Value q), m1) \<and> lr_result r = Some q \<and>
    check_result (Arg_Userdata q) m1 = Some (q, res) \<and> res_kind res = lr_kind r \<and> res_generation res = lr_generation r \<and>
    (if lr_kind r = LP_COLLECTOR_CPU then res_cpu res \<noteq> None else res_memory res \<noteq> None) \<and>
    recording (lm_vm m1) (lr_kind r) = None \<and>
    (\<forall>kind. valid_kind kind \<and> kind \<noteq> lr_kind r \<longrightarrow> recording (lm_vm m1) kind = recording (lm_vm m) kind) \<and>
    (\<exists>m2. recorder_stop d env self m1 = Some (Inr (Nil_Message ''luaprof recorder is already stopped''), m2) \<and> same_objects m1 m2)"
proof -
  have m: "module_at 0 m" by (rule module_from_kept [OF assms(1-3)])
  obtain q res m1 where stop: "recorder_stop d env self m = Some (Inr (Result_Value q), m1)" "module_at 0 m1" "lr_result r = Some q"
    "lm_results m1 q = Some res" "result_ok res" "res_kind res = lr_kind r" "res_generation res = lr_generation r"
    "recording_stopped p r None m m1"
    using stop_call_ok [OF m assms(4,5), of d] assms(6) by auto
  have "check_recorder self m1 = Some (p, r\<lparr>lr_active := False, lr_result := None\<rparr>)"
    using stop(8) assms(5) by (auto simp: recording_stopped_def check_recorder_def split: lua_arg.splits)
  from stop_call_ok [OF stop(2) assms(4) this, of d] obtain m2 where
    "recorder_stop d env self m1 = Some (Inr (Nil_Message ''luaprof recorder is already stopped''), m2)" "same_objects m1 m2"
    by auto
  moreover have "check_result (Arg_Userdata q) m1 = Some (q, res)" using stop(4) by (simp add: check_result_def)
  moreover have "if lr_kind r = LP_COLLECTOR_CPU then res_cpu res \<noteq> None else res_memory res \<noteq> None"
    using stop(5,6) by (auto simp: result_ok_def)
  ultimately show ?thesis using stop unfolding recording_stopped_def by blast
qed

text \<open>
  C10: a recorder that is dropped does not record on. When an active recorder is collected, or its
  variable goes out of scope, its recording ends: no tick and no hook of its kind comes any more,
  the other kind goes on, and the kind can be started again.
\<close>

theorem dropped_recorder_stops:
  assumes "setting_ok s" and "\<forall>op \<in> set ops. module_op_readable op" and "module_from d s fs ops = Some (outs, m, fs1)"
    and "env_readable (ce_bridge env)" and "check_recorder self m = Some (p, r)" and "lr_active r"
  shows "\<exists>m1. recorder_gc d env self m = Some (Inr No_Value, m1) \<and>
    (if lr_kind r = LP_COLLECTOR_CPU
     then \<not> ticks_come (vm_world (lm_vm m1)) \<and> \<not> hook_set hk_safe_point (lm_vm m1) \<and> \<not> hook_set hk_state_change (lm_vm m1)
     else \<not> hook_set hk_allocation (lm_vm m1)) \<and>
    (\<forall>kind. valid_kind kind \<and> kind \<noteq> lr_kind r \<longrightarrow> recording (lm_vm m1) kind = recording (lm_vm m) kind) \<and>
    (\<forall>config. cfg_kind config = lr_kind r \<and> config_checked (lr_kind r) config \<and> cfg_sample_hz config \<le> 10000 \<longrightarrow>
      start_refused (vm_runtime (lm_vm m1)) config = None)"
proof -
  have m: "module_at 0 m" by (rule module_from_kept [OF assms(1-3)])
  have r: "lm_recorders m p = Some r" by (rule check_recorder_Some [OF assms(5)])
  have kind: "valid_kind (lr_kind r)" by (rule active_not_refused(2) [OF m r assms(6)])
  obtain m1 where gc: "recorder_gc d env self m = Some (Inr No_Value, m1)" "module_at 0 m1" "recording_stopped p r (lr_result r) m m1"
    using gc_call_ok [OF m assms(4,5), of d] assms(6) by auto
  let ?vm = "lm_vm m1"
  have ok: "vm_ok ?vm" "bridge_ok (vm_world ?vm)" "\<not> rt_closing (vm_runtime ?vm)"
    using gc(2) by (simp_all add: module_at_def vm_ok_def)
  have none: "recording ?vm (lr_kind r) = None" using gc(3) by (simp add: recording_stopped_def)
  then have quiet: "if lr_kind r = LP_COLLECTOR_CPU then \<not> lb_cpu_active (bw_bridge (vm_world ?vm))
      else \<not> lb_memory_active (bw_bridge (vm_world ?vm))"
    using recording_bridge [OF ok(1) kind] by (auto simp: Let_def split: if_splits)
  have "start_refused (vm_runtime ?vm) config = None"
    if "cfg_kind config = lr_kind r" "config_checked (lr_kind r) config" "cfg_sample_hz config \<le> 10000" for config
    using that none kind ok(3) by (auto simp: start_refused_def config_checked_def recording_def valid_kind_iff split: if_splits)
  then show ?thesis
    using gc quiet idle_source [OF ok(2)] hook_active [OF ok(1)] by (auto simp: recording_stopped_def)
qed

text \<open>
  C11: a start that fails changes no recording. Whatever arguments, missing memory, running
  recorder or failing timer make \<open>cpu.start\<close> or \<open>memory.start\<close> raise an error or return nil and a
  message, recordings and active recorders are as before; otherwise the recorder returned is the
  active one of a kind that was not recorded before.
\<close>

theorem failed_start_call_changes_nothing:
  assumes "setting_ok s" and "\<forall>op \<in> set ops. module_op_readable op" and "module_from d s fs ops = Some (outs, m, fs1)"
    and "env_readable (ce_bridge env)" and "call_possible (Cpu_Start_Call env args) m"
  shows "(\<exists>out m1. cpu_start d env args m = Some (out, m1) \<and> lb_profiler_work_depth (bw_bridge (vm_world (lm_vm m1))) = 0 \<and>
      (if out = Inr (Recorder_Value (ce_recorder env)) then recording_started LP_COLLECTOR_CPU (ce_recorder env) m m1
       else recordings_kept m m1 \<and> (\<forall>p. out \<noteq> Inr (Recorder_Value p)))) \<and>
    (\<exists>out m1. memory_start d env args m = Some (out, m1) \<and> lb_profiler_work_depth (bw_bridge (vm_world (lm_vm m1))) = 0 \<and>
      (if out = Inr (Recorder_Value (ce_recorder env)) then recording_started LP_COLLECTOR_MEMORY (ce_recorder env) m m1
       else recordings_kept m m1 \<and> (\<forall>p. out \<noteq> Inr (Recorder_Value p))))"
proof -
  have m: "module_at 0 m" by (rule module_from_kept [OF assms(1-3)])
  have possible: "call_possible (Memory_Start_Call env args) m" using assms(5) by (simp add: call_possible_def)
  have readable: "module_op_readable (Cpu_Start_Call env args)" "module_op_readable (Memory_Start_Call env args)"
    using assms(4) by (simp_all add: module_op_readable_def call_of_def)
  have depth: "lb_profiler_work_depth (bw_bridge (vm_world (lm_vm m1))) = 0" if "module_at 0 m1" for m1
    using that by (simp add: module_at_def)
  show ?thesis
    using start_step_ok(1) [OF m readable(1) assms(5) refl, of d] start_step_ok(2) [OF m readable(2) possible refl, of d] depth
    by (intro conjI) blast+
qed

section \<open>Results\<close>

lemma fold_updates: "fold (\<lambda>(k, v) t. t(k \<mapsto> v)) xs t = t ++ map_of (rev xs)"
  by (induction xs arbitrary: t) (auto simp: map_add_def fun_eq_iff split: option.split)

text \<open>
  What Lua reads for a total: 64-bit counters stay at their maximum, and from 2^63 on they are
  negative integers.
\<close>

definition lua_total :: "nat \<Rightarrow> stat_value" where
  "lua_total n = Stat_Integer (if n < 2 ^ 63 then int n else int (min u64_max n) - 2 ^ 64)"

lemma sint_u64: "sint w = (if uint w < 2 ^ 63 then uint w else uint w - 2 ^ 64)" for w :: u64
proof -
  have "uint w < 2 ^ 64" using uint_lt2p [of w] by simp
  then have "uint w div 2 ^ 63 = (if 2 ^ 63 \<le> uint w then 1 else 0)"
    using int_div_pos_eq [of "uint w" "2 ^ 63" 1 "uint w - 2 ^ 63"] by (simp add: div_pos_pos_trivial)
  then have "bit (uint w) 63 \<longleftrightarrow> 2 ^ 63 \<le> uint w" by (simp add: bit_iff_odd)
  then show ?thesis using \<open>uint w < 2 ^ 64\<close> by (simp add: sint_uint signed_take_bit_eq_take_bit_minus take_bit_int_eq_self)
qed

lemma stat_integer_counter: "stat_integer w = lua_total (unat w)"
proof -
  have "unat w < 2 ^ 63 \<longleftrightarrow> uint w < 2 ^ 63"
    using of_nat_less_iff [of "unat w" "2 ^ 63", where 'a = int] by simp
  moreover have "min u64_max (unat w) = unat w" using unat_le_u64_max [of w] by simp
  ultimately show ?thesis by (simp add: stat_integer_def lua_total_def sint_u64)
qed

lemma lua_total_min [simp]: "lua_total (min u64_max n) = lua_total n"
  by (simp add: lua_total_def min_def)

lemma lua_total_rate: "Stat_Integer (uint w) = lua_total (unat w)" for w :: u32
proof -
  have "unat w < 2 ^ 32" using unsigned_less [of w, where 'a = nat] by simp
  then show ?thesis by (simp add: lua_total_def)
qed

text \<open>
  The tables Lua code should see, by the totals of the samples that an export writes. What is
  counted without samples is read from the counters of the recording.
\<close>

definition common_stats :: "lp_result \<Rightarrow> (string \<times> stat_value) list" where
  "common_stats res =
     (let s = res_stats res
      in [(''generation'', lua_total (unat (res_generation res))), (''active'', Stat_Boolean False),
          (''safe_points'', lua_total (unat (st_safe_points s))), (''pending_weight'', lua_total (unat (st_pending_weight s))),
          (''state_host'', lua_total (unat (st_state_host s))), (''state_lua'', lua_total (unat (st_state_lua s))),
          (''state_c'', lua_total (unat (st_state_c s))), (''state_gc'', lua_total (unat (st_state_gc s))),
          (''stack_truncations'', lua_total (unat (st_stack_truncations s))),
          (''aggregate_overflows'', lua_total (unat (st_aggregate_overflows s))),
          (''symbol_overflows'', lua_total (unat (st_symbol_overflows s)))])"

definition expected_cpu_stats :: "lp_result \<Rightarrow> string \<rightharpoonup> stat_value" where
  "expected_cpu_stats res =
     (let s = res_stats res
      in map_of ([(''kind'', Stat_String ''cpu''), (''sample_hz'', lua_total (unat (cfg_sample_hz (res_config res)))),
          (''samples'', lua_total (sum_list (result_cpu_weights res))),
          (''sample_host'', lua_total (sum_list (result_state_weights LP_VM_HOST res))),
          (''sample_lua'', lua_total (sum_list (result_state_weights LP_VM_LUA res))),
          (''sample_c'', lua_total (sum_list (result_state_weights LP_VM_C res))),
          (''sample_gc'', lua_total (sum_list (result_state_weights LP_VM_GC res))),
          (''overrun_events'', lua_total (unat (st_overrun_events s))), (''overrun_ticks'', lua_total (unat (st_overrun_ticks s))),
          (''dropped_events'', lua_total (unat (st_dropped_events s))), (''unstable_events'', lua_total (unat (st_unstable_events s))),
          (''profiler_overhead_events'', lua_total (unat (st_profiler_overhead_events s))),
          (''stale_events'', lua_total (unat (st_stale_events s))), (''timer_failures'', lua_total (unat (st_timer_failures s))),
          (''scheduler_workers'', lua_total (unat (st_scheduler_workers s)))] @ common_stats res))"

definition expected_memory_stats :: "lp_result \<Rightarrow> string \<rightharpoonup> stat_value" where
  "expected_memory_stats res =
     (let s = res_stats res; total = (\<lambda>f. lua_total (sum_list (result_memory_field f res)))
      in map_of ([(''kind'', Stat_String ''memory''), (''sample_bytes'', lua_total (unat (cfg_sample_bytes (res_config res)))),
          (''track_free'', Stat_Boolean (cfg_track_free (res_config res))),
          (''samples'', total msv_sample_count), (''sampled_alloc_bytes'', total msv_sampled_bytes),
          (''alloc_space'', total msv_alloc_space), (''alloc_objects'', total msv_alloc_objects),
          (''inuse_space'', total msv_inuse_space), (''inuse_objects'', total msv_inuse_objects),
          (''allocation_events'', lua_total (unat (st_allocations s))),
          (''reallocation_events'', lua_total (unat (st_reallocations s))), (''free_events'', lua_total (unat (st_frees s))),
          (''allocation_failures'', lua_total (unat (st_allocation_failures s))),
          (''live_map_overflows'', lua_total (unat (st_live_map_overflows s)))] @ common_stats res))"

lemma map_eq_on:
  assumes "dom f \<subseteq> set ks \<union> A" and "dom g \<subseteq> set ks \<union> A" and "map f ks = map g ks" and "k \<notin> A"
  shows "f k = g k"
proof (cases "k \<in> set ks")
  case False
  then have "f k = None" "g k = None" using assms by blast+
  then show ?thesis by simp
qed (use assms(3) in simp)

lemmas stats_lists = stats_table_def stats_fields_def common_stats_def Let_def stat_integer_counter lua_total_rate

definition common_keys :: "string list" where
  "common_keys = [''kind'', ''generation'', ''active'', ''samples'', ''safe_points'', ''pending_weight'', ''state_host'', ''state_lua'',
     ''state_c'', ''state_gc'', ''stack_truncations'', ''aggregate_overflows'', ''symbol_overflows'']"

definition cpu_keys :: "string list" where
  "cpu_keys = common_keys @ [''sample_hz'', ''sample_host'', ''sample_lua'', ''sample_c'', ''sample_gc'', ''overrun_events'',
     ''overrun_ticks'', ''dropped_events'', ''unstable_events'', ''profiler_overhead_events'', ''stale_events'', ''timer_failures'',
     ''scheduler_workers'']"

definition memory_keys :: "string list" where
  "memory_keys = common_keys @ [''sample_bytes'', ''track_free'', ''sampled_alloc_bytes'', ''alloc_space'', ''alloc_objects'',
     ''allocation_events'', ''reallocation_events'', ''free_events'', ''allocation_failures'', ''live_map_overflows'']"

lemma cpu_stats_table:
  assumes "result_ok res" and kind: "res_kind res = LP_COLLECTOR_CPU"
  shows "stats_table res = expected_cpu_stats res"
proof
  note sums = conjunct1 [OF cpu_result_sums [OF assms]] cpu_result_state_sums [OF assms]
  note keys = stats_lists expected_cpu_stats_def cpu_keys_def common_keys_def kind
  have same: "map (stats_table res) cpu_keys = map (expected_cpu_stats res) cpu_keys"
    by (simp add: keys kind_name_def sums)
  have dom: "dom (stats_table res) \<subseteq> set cpu_keys \<union> {}" "dom (expected_cpu_stats res) \<subseteq> set cpu_keys \<union> {}"
    by (simp_all add: keys)
  show "stats_table res name = expected_cpu_stats res name" for name by (rule map_eq_on [OF dom same]) simp
qed

lemma memory_stats_table:
  assumes "result_ok res" and kind: "res_kind res = LP_COLLECTOR_MEMORY"
  shows "name \<notin> {''inuse_space'', ''inuse_objects''} \<Longrightarrow> stats_table res name = expected_memory_stats res name"
    "sum_list (result_memory_field msv_alloc_space res) < u64_max \<Longrightarrow>
      stats_table res ''inuse_space'' = expected_memory_stats res ''inuse_space''"
    "sum_list (result_memory_field msv_alloc_objects res) < u64_max \<Longrightarrow>
      stats_table res ''inuse_objects'' = expected_memory_stats res ''inuse_objects''"
proof -
  note sums = memory_result_sums [OF assms]
  note keys = stats_lists expected_memory_stats_def memory_keys_def common_keys_def kind
  have same: "map (stats_table res) memory_keys = map (expected_memory_stats res) memory_keys"
    by (simp add: keys kind_name_def sums)
  have dom: "dom (stats_table res) \<subseteq> set memory_keys \<union> {''inuse_space'', ''inuse_objects''}"
    "dom (expected_memory_stats res) \<subseteq> set memory_keys \<union> {''inuse_space'', ''inuse_objects''}"
    by (simp_all add: keys)
  show "stats_table res name = expected_memory_stats res name" if "name \<notin> {''inuse_space'', ''inuse_objects''}"
    by (rule map_eq_on [OF dom same that])
  have below: "w \<noteq> UINT64_MAX" if "unat w = min u64_max n" "n < u64_max" for w n
    using that by (auto simp: min_def)
  show "stats_table res ''inuse_space'' = expected_memory_stats res ''inuse_space''"
    if "sum_list (result_memory_field msv_alloc_space res) < u64_max"
  proof -
    have "st_alloc_space (res_stats res) \<noteq> UINT64_MAX" using sums by (intro below [OF _ that]) blast
    then show ?thesis using sums by (simp add: stats_lists expected_memory_stats_def kind)
  qed
  show "stats_table res ''inuse_objects'' = expected_memory_stats res ''inuse_objects''"
    if "sum_list (result_memory_field msv_alloc_objects res) < u64_max"
  proof -
    have "st_alloc_objects (res_stats res) \<noteq> UINT64_MAX" using sums by (intro below [OF _ that]) blast
    then show ?thesis using sums by (simp add: stats_lists expected_memory_stats_def kind)
  qed
qed

text \<open>
  C12: \<open>result:stats()\<close> agrees with the samples, in every field. For every result that was recorded
  the table has exactly the fields of its kind. The number of samples, and of those in each VM
  state, or the samples, sampled bytes, allocated space and objects, are the sums over the samples
  that an export writes; so are the space and objects in use while the allocation totals are below
  their 64-bit maximum. The other fields are the counters and options of the recording. All are
  read as signed 64-bit integers.
\<close>

theorem stats_agree_with_the_samples:
  assumes "setting_ok s" and "\<forall>op \<in> set ops. module_op_readable op" and "module_from d s fs ops = Some (outs, m, fs1)"
    and "check_result self m = Some (q, res)" and "res_cpu res \<noteq> None \<or> res_memory res \<noteq> None"
  shows "\<exists>t m1. result_stats env self m = Some (Inr (Table_Value t), m1) \<and>
    (if res_kind res = LP_COLLECTOR_CPU then t = expected_cpu_stats res
     else res_kind res = LP_COLLECTOR_MEMORY \<and>
       (\<forall>name. name \<notin> {''inuse_space'', ''inuse_objects''} \<longrightarrow> t name = expected_memory_stats res name) \<and>
       (sum_list (result_memory_field msv_alloc_space res) < u64_max \<longrightarrow>
         t ''inuse_space'' = expected_memory_stats res ''inuse_space'') \<and>
       (sum_list (result_memory_field msv_alloc_objects res) < u64_max \<longrightarrow>
         t ''inuse_objects'' = expected_memory_stats res ''inuse_objects''))"
proof -
  have m: "module_at 0 m" by (rule module_from_kept [OF assms(1-3)])
  have ok: "result_ok res"
    using m check_result_Some [OF assms(4)] assms(5) unfolding module_at_def owned_def results_ok_def by blast
  then have "res_kind res = LP_COLLECTOR_CPU \<or> res_kind res = LP_COLLECTOR_MEMORY" by (auto simp: result_ok_def)
  moreover obtain m1 where "result_stats env self m = Some (Inr (Table_Value (stats_table res)), m1)"
    using text_calls_ok(3) [OF m, of env self] assms(4) by auto
  ultimately show ?thesis using cpu_stats_table [OF ok] memory_stats_table [OF ok] by auto
qed

text \<open>
  C2: \<open>result:write(path)\<close> writes what was recorded. For every recorded result, when no allocation
  and no system call fails and its stacks have at most 16384 frames, the call returns true and the
  file at the path holds a profile in which a reader finds exactly the samples of the result, with
  the names under which Lua code sees the C functions; the result is as it was, to be written
  again.
\<close>

theorem written_file_shows_the_recording:
  assumes "setting_ok s" and "\<forall>op \<in> set ops. module_op_readable op" and "module_from d s fs ops = Some (outs, m, fs1)"
    and "check_result self m = Some (q, res)" and "res_cpu res \<noteq> None \<or> res_memory res \<noteq> None"
    and "write_options args = Inr (path, LP_EXPORT_PPROF, sample_type)"
    and "metric_ok res sample_type" and "frame_total res \<le> 16384" and "sys_works (we_sys wenv) path fs1" and "we_memory wenv = []"
  shows "\<exists>profile p m1.
    result_write env wenv self args fs1 m =
      Some ((Inr True_Value, fs1(path := Some (Regular (xe_gzfile (we_sys wenv) profile) (export_mode path fs1)))), m1) \<and>
    decode_profile profile = Some p \<and> shows_result (we_native wenv) (lua_names wenv) res p \<and>
    check_result self m1 = Some (q, res)"
proof -
  have m: "module_at 0 m" by (rule module_from_kept [OF assms(1-3)])
  have ok: "result_ok res" "rate_ok res"
    using m check_result_Some [OF assms(4)] assms(5) unfolding module_at_def owned_def results_ok_def by blast+
  obtain model buffer where model: "model_init (we_native wenv) [] res sample_type (lua_names wenv) = (True, model)" "em_memory model = []"
    "encode_profile model (zero_buffer, []) = (True, (buffer, []))"
    using export_succeeds [OF ok assms(7,8)] by blast
  obtain p where p: "decode_profile (buf_data buffer) = Some p" "shows_result (we_native wenv) (lua_names wenv) res p"
    using model_shows_result [OF model(1,3)] by blast
  obtain m1 where m1: "result_write env wenv self args fs1 m = Some (write_outcome wenv (check_result self m) args fs1, m1)" "same_objects m m1"
    using write_call_ok [OF m, of env wenv self args fs1] by blast
  have "write_outcome wenv (check_result self m) args fs1 =
      (Inr True_Value, fs1(path := Some (Regular (xe_gzfile (we_sys wenv) (buf_data buffer)) (export_mode path fs1))))"
    using lp_export_result_works [OF assms(9,5) model] assms(4,6,10) by (simp add: write_outcome_def)
  then show ?thesis using m1 p assms(4) same_check(2) [OF m1(2)] by auto
qed

section \<open>The end of the Lua state\<close>

lemma set_collector_other:
  "length (rt_collectors rt) = 2 \<Longrightarrow> valid_kind k \<Longrightarrow> valid_kind k' \<Longrightarrow>
    collector (set_collector k slot rt) k' = (if k' = k then slot else collector rt k')"
  by (auto simp: collector_def set_collector_def valid_kind_iff)

lemma delete_cpu:
  assumes ok: "runtime_ok rt" "bridge_ok w" "coupled rt (bw_bridge w)" and env: "env_readable env"
    and room: "lb_profiler_work_depth (bw_bridge w) + 1 \<noteq> 0"
  shows "\<exists>rt1 w1. delete_recording d env LP_COLLECTOR_CPU \<lparr>vm_runtime = rt, vm_seed = seed, vm_world = w\<rparr> =
      Some \<lparr>vm_runtime = rt1, vm_seed = seed, vm_world = w1\<rparr> \<and> bridge_ok w1 \<and> \<not> lb_cpu_active (bw_bridge w1) \<and>
    \<not> cs_active (collector rt1 LP_COLLECTOR_CPU) \<and> length (rt_collectors rt1) = 2 \<and>
    cs_active (collector rt1 LP_COLLECTOR_MEMORY) = lb_memory_active (bw_bridge w1) \<and>
    cs_generation (collector rt1 LP_COLLECTOR_MEMORY) = lb_memory_generation (bw_bridge w1)"
proof (cases "cs_active (collector rt LP_COLLECTOR_CPU)")
  case False
  then show ?thesis
    using assms by (simp add: delete_recording_def delete_collector_def coupled_def runtime_ok_def with_host_def collector_def)
next
  case True
  let ?g = "cs_generation (collector rt LP_COLLECTOR_CPU)" let ?rth = "with_host (bridge_host env w) rt"
  have kinds: "valid_kind LP_COLLECTOR_CPU" "valid_kind LP_COLLECTOR_MEMORY" by (simp_all add: valid_kind_iff)
  have act: "lb_cpu_active (bw_bridge w)" "lb_cpu_generation (bw_bridge w) = ?g" using ok(3) True by (simp_all add: coupled_def)
  obtain calls w1 where stop: "stop_collector env LP_COLLECTOR_CPU ?g w = Some (calls, w1)" "bridge_ok w1"
    "bw_bridge w1 = idle_bridge LP_COLLECTOR_CPU (bw_bridge w)"
    using stop_result [OF ok(2) room kinds(1), of ?g env] act by auto
  have "records_ok ?rth (runtime_calls d calls ?rth)"
    by (rule runtime_calls_ok) (use ok(1) stop_readable [OF env stop(1)] in simp_all)
  then obtain rt1 where rt1: "runtime_calls d calls ?rth = Some rt1" "runtime_ok rt1" "same_recordings ?rth rt1"
    by (auto simp: records_ok_def)
  have run: "host_stop d L LP_COLLECTOR_CPU ?g ?rth = Some rt1" for L
    using stop(1) rt1(1) by (simp add: host_stop_def bridge_host_def with_host_def)
  let ?slot = "(collector rt1 LP_COLLECTOR_CPU)\<lparr>cs_cpu_profile := None, cs_memory_profile := None, cs_active := False\<rparr>"
  have len: "length (rt_collectors rt1) = 2" using rt1(2) by (simp add: runtime_ok_def)
  have other: "collector (set_collector LP_COLLECTOR_CPU ?slot rt1) LP_COLLECTOR_MEMORY = collector rt1 LP_COLLECTOR_MEMORY"
    "collector (set_collector LP_COLLECTOR_CPU ?slot rt1) LP_COLLECTOR_CPU = ?slot"
    using set_collector_other [OF len kinds(1)] kinds by auto
  have "delete_recording d env LP_COLLECTOR_CPU \<lparr>vm_runtime = rt, vm_seed = seed, vm_world = w\<rparr> =
      Some \<lparr>vm_runtime = with_host no_host (set_collector LP_COLLECTOR_CPU ?slot rt1), vm_seed = seed, vm_world = w1\<rparr>"
    using True run stop(1) by (simp add: delete_recording_def delete_collector_def Let_def)
  moreover have "cs_active (collector rt1 LP_COLLECTOR_MEMORY) = lb_memory_active (bw_bridge w1)"
    "cs_generation (collector rt1 LP_COLLECTOR_MEMORY) = lb_memory_generation (bw_bridge w1)"
    using rt1(3) ok(3) stop(3) by (simp_all add: same_recordings_def coupled_def idle_bridge_def)
  ultimately show ?thesis
    using stop(2,3) other len by (simp add: idle_bridge_def)
qed

lemma delete_memory:
  assumes ok: "bridge_ok w" and act: "cs_active (collector rt LP_COLLECTOR_MEMORY) = lb_memory_active (bw_bridge w)"
    "cs_generation (collector rt LP_COLLECTOR_MEMORY) = lb_memory_generation (bw_bridge w)"
  shows "\<exists>rt1 w1. delete_recording d env LP_COLLECTOR_MEMORY \<lparr>vm_runtime = rt, vm_seed = seed, vm_world = w\<rparr> =
      Some \<lparr>vm_runtime = rt1, vm_seed = seed, vm_world = w1\<rparr> \<and> bridge_ok w1 \<and> \<not> lb_memory_active (bw_bridge w1) \<and>
    lb_cpu_active (bw_bridge w1) = lb_cpu_active (bw_bridge w)"
proof (cases "lb_memory_active (bw_bridge w)")
  case False
  then show ?thesis using assms by (simp add: delete_recording_def delete_collector_def with_host_def collector_def)
next
  case True
  obtain w1 where stop: "stop_collector env LP_COLLECTOR_MEMORY (cs_generation (collector rt LP_COLLECTOR_MEMORY)) w = Some ([], w1)" "bridge_ok w1"
    "bw_bridge w1 = idle_bridge LP_COLLECTOR_MEMORY (bw_bridge w)"
    using stop_memory [OF ok, of _ env] act(2) by auto
  then have "host_stop d L LP_COLLECTOR_MEMORY (cs_generation (collector rt LP_COLLECTOR_MEMORY)) (with_host (bridge_host env w) rt) =
      Some (with_host (bridge_host env w) rt)" for L
    by (simp add: host_stop_def bridge_host_def with_host_def)
  then show ?thesis using True act stop by (simp add: delete_recording_def delete_collector_def Let_def idle_bridge_def)
qed

text \<open>
  When the state is closed, whatever was recording ends: no tick comes any more and no hook is
  set, so that nothing refers to the runtime when it is freed.
\<close>

lemma closed_state_is_quiet:
  assumes "setting_ok s" and "\<forall>op \<in> set ops. module_op_readable op" and "module_from d s fs ops = Some (outs, m, fs1)"
    and "env_readable env"
  shows "\<exists>m1. runtime_gc d env m = Some m1 \<and> \<not> ticks_come (vm_world (lm_vm m1)) \<and> bw_hooks (vm_world (lm_vm m1)) = None"
proof -
  let ?rt = "(vm_runtime (lm_vm m))\<lparr>rt_closing := True\<rparr>" let ?w = "vm_world (lm_vm m)"
  have m: "module_at 0 m" by (rule module_from_kept [OF assms(1-3)])
  then have ok: "runtime_ok ?rt" "bridge_ok ?w" "coupled ?rt (bw_bridge ?w)" "lb_profiler_work_depth (bw_bridge ?w) = 0"
    by (simp_all add: module_at_def vm_ok_def runtime_ok_def coupled_def collector_def)
  have vm: "(lm_vm m)\<lparr>vm_runtime := ?rt\<rparr> = \<lparr>vm_runtime = ?rt, vm_seed = vm_seed (lm_vm m), vm_world = ?w\<rparr>"
    by (cases "lm_vm m") simp
  obtain rt1 w1 where 1: "delete_recording d env LP_COLLECTOR_CPU ((lm_vm m)\<lparr>vm_runtime := ?rt\<rparr>) =
      Some \<lparr>vm_runtime = rt1, vm_seed = vm_seed (lm_vm m), vm_world = w1\<rparr>" "bridge_ok w1" "\<not> lb_cpu_active (bw_bridge w1)"
    "cs_active (collector rt1 LP_COLLECTOR_MEMORY) = lb_memory_active (bw_bridge w1)"
    "cs_generation (collector rt1 LP_COLLECTOR_MEMORY) = lb_memory_generation (bw_bridge w1)"
    using delete_cpu [OF ok(1-3) assms(4), of d "vm_seed (lm_vm m)"] ok(4) unfolding vm by auto
  obtain rt2 w2 where 2: "delete_recording d env LP_COLLECTOR_MEMORY \<lparr>vm_runtime = rt1, vm_seed = vm_seed (lm_vm m), vm_world = w1\<rparr> =
      Some \<lparr>vm_runtime = rt2, vm_seed = vm_seed (lm_vm m), vm_world = w2\<rparr>" "bridge_ok w2" "\<not> lb_memory_active (bw_bridge w2)"
    "\<not> lb_cpu_active (bw_bridge w2)"
    using delete_memory [OF 1(2,4,5), of d env "vm_seed (lm_vm m)"] 1(3) by auto
  have "bw_hooks w2 = None" using 2(2-4) by (simp add: bridge_ok_def wanted_hooks_def)
  then show ?thesis using 1(1) 2 idle_source [OF 2(2)] by (simp add: runtime_gc_def Let_def)
qed

end
