(* ===== verification/Skynet_Slot.thy ===== *)
theory Skynet_Slot
  imports Skynet_Sessions
begin

text \<open>
  Ticks in the middle of \<open>publish_slot\<close>. The slot of a worker is written and read on the same
  thread, by the thread itself and by the signal handler that interrupts it, so that a tick finds
  the slot after some first part of the stores of \<open>publish_stores\<close>, in program order. Shown: the
  version makes a half-written slot invisible; such a tick is only counted, for the old owner.
\<close>

section \<open>A slot being written\<close>

definition partly_published ::
  "nat \<Rightarrow> nat option \<Rightarrow> u64 \<Rightarrow> pointer \<Rightarrow> c_int \<Rightarrow> pointer \<Rightarrow> lp_skynet_worker \<Rightarrow> lp_skynet_worker" where
  "partly_published k target token state vm_state cfunction =
     fold (\<lambda>store w. store w) (take k (publish_stores target token state vm_state cfunction))"

lemma odd_slot_version: "v AND 1 = 0 \<Longrightarrow> (v + 1) AND 1 \<noteq> 0" for v :: u64
  by (simp add: and_one_eq mod_2_eq_odd)

lemma partly_published_stages:
  "k = 0 \<or> k = 1 \<or> k = 2 \<or> k = 3 \<or> k = 4 \<or> k = 5 \<or> k = 6 \<or> k = 7 \<or> k = 8 \<or> 9 \<le> (k :: nat)"
  by arith

text \<open>Before the second change of the version, and from there on.\<close>

lemma partly_published_odd:
  assumes "worker_ok w" and "k \<noteq> 0" and "k < 7"
  shows "wk_slot_version (partly_published k target token state vm_state cfunction w) AND 1 \<noteq> 0"
    "wk_slot_quality_target (partly_published k target token state vm_state cfunction w) = wk_slot_target w"
    "wk_slot_quality_token (partly_published k target token state vm_state cfunction w) = wk_slot_token w"
  using assms partly_published_stages [of k] odd_slot_version [of "wk_slot_version w"]
  by (auto simp: partly_published_def publish_stores_def worker_ok_def)

definition same_slot :: "lp_skynet_worker \<Rightarrow> lp_skynet_worker \<Rightarrow> bool" where
  "same_slot w w' \<longleftrightarrow>
     wk_slot_version w = wk_slot_version w' \<and> wk_slot_target w = wk_slot_target w' \<and> wk_slot_token w = wk_slot_token w' \<and>
     slot_event_of w = slot_event_of w'"

lemma partly_published_done:
  assumes "7 \<le> k"
  shows "same_slot (partly_published k target token state vm_state cfunction w) (published target token state vm_state cfunction w)"
proof -
  have "k = 7 \<or> k = 8 \<or> 9 \<le> k" using assms by arith
  then show ?thesis
    by (auto simp: same_slot_def partly_published_def publish_stores_def published_def slot_event_of_def)
qed

lemma worker_tick_slot:
  assumes "same_slot w w'" and "wk_slot_version w' AND 1 = 0"
  shows "worker_tick info w h = worker_tick info w' h"
proof -
  have "wk_slot_state w = wk_slot_state w'" "slot_event_of w = slot_event_of w'" "wk_slot_target w = wk_slot_target w'"
    "wk_slot_token w = wk_slot_token w'" "wk_slot_version w = wk_slot_version w'"
    using assms(1) by (simp_all add: same_slot_def slot_event_of_def)
  then show ?thesis using assms(2) unfolding worker_tick_def by (simp split: option.split)
qed

lemma partly_published_flags:
  "wk_active (partly_published k target token state vm_state cfunction w) = wk_active w"
  using partly_published_stages [of k] by (auto simp: partly_published_def publish_stores_def)

text \<open>What a tick leaves of the targets, and what it requests.\<close>

definition tick_effect :: "(skynet_host \<times> pointer option) option \<Rightarrow> (lp_skynet_target list \<times> pointer option) option" where
  "tick_effect = map_option (\<lambda>(h, request). (sh_targets h, request))"

lemma tick_effect_worker:
  assumes "sh_targets h = sh_targets h'"
  shows "tick_effect (worker_tick info w h) = tick_effect (worker_tick info w h')"
  using assms
  by (auto simp: tick_effect_def worker_tick_def upd_target_def option.map_comp comp_def case_prod_beta split: option.split)

text \<open>
  C28: a half-written slot is never delivered. A timer signal that comes after any number of the
  stores of \<open>publish_slot\<close> has exactly the effect of a tick on the old slot, before the first
  store; of a tick on the new one, from the second change of the version on; and in between it
  queues nothing, requests nothing, and only counts one unstable tick for the session of the old
  slot.
\<close>

theorem torn_slot_only_counts:
  assumes "host_history ops initial_host = Some h" and "sh_heap h p = Some w" and "si_timer info" and "si_value info = p"
  shows "tick_effect (skynet_signal_handler (Some info)
      (upd_worker p (partly_published k target token state vm_state cfunction) h)) =
    (if k = 0 then tick_effect (skynet_signal_handler (Some info) h)
     else if k < 7
     then Some (case wk_slot_target w of None \<Rightarrow> sh_targets h
                | Some i \<Rightarrow> (sh_targets h)[i := record_slot_unstable (wk_slot_token w) info (sh_targets h ! i)], None)
     else tick_effect (skynet_signal_handler (Some info)
      (upd_worker p (partly_published 9 target token state vm_state cfunction) h)))"
proof -
  have ok: "host_ok h" by (rule history_host_ok [OF assms(1)])
  have w: "worker_ok w" "worker_registered h p w" using host_ok_worker [OF ok assms(2)] by simp_all
  let ?w = "\<lambda>k. partly_published k target token state vm_state cfunction w"
  let ?h = "\<lambda>k. upd_worker p (partly_published k target token state vm_state cfunction) h"
  have "p \<in> set (sh_workers h) - {NULL}" using registered_are_in_memory [OF ok] assms(2) by simp
  then have tick: "skynet_signal_handler (Some info) (?h k) = worker_tick info (?w k) (?h k)" for k
    using assms(2-4) w(2) partly_published_flags [of k target token state vm_state cfunction w]
    by (simp add: skynet_signal_handler_def Let_def registered_worker_def upd_worker_def worker_registered_def)
  have targets: "sh_targets (?h k) = sh_targets h" for k by (simp add: upd_worker_def)
  consider "k = 0" | (odd) "k \<noteq> 0" "k < 7" | (whole) "7 \<le> k" by arith
  then show ?thesis
  proof cases
    case 1
    have "partly_published 0 target token state vm_state cfunction = (\<lambda>w. w)" by (rule ext) (simp add: partly_published_def)
    then have "?h 0 = h" by (cases h) (simp add: upd_worker_def option.map_ident fun_upd_idem)
    then show ?thesis using 1 by simp
  next
    case odd
    note o = partly_published_odd [OF w(1) odd, of target token state vm_state cfunction]
    have "tick_effect (worker_tick info (?w k) (?h k)) = tick_effect (worker_tick info (?w k) h)"
      by (rule tick_effect_worker) (rule targets)
    then show ?thesis
      using odd o(1) by (simp add: tick worker_tick_def o(2,3) tick_effect_def upd_target_def split: option.split)
  next
    case whole
    have version: "wk_slot_version (?w 9) AND 1 = 0"
      using w(1) by (simp add: partly_published_def publish_stores_def worker_ok_def even_version add.commute [of 2])
    have "same_slot (?w k) (?w 9)"
      using partly_published_done [OF whole] partly_published_done [of 9] by (simp add: same_slot_def)
    then have "tick_effect (worker_tick info (?w k) (?h k)) = tick_effect (worker_tick info (?w 9) (?h 9))"
      using worker_tick_slot [OF _ version, of "?w k"] tick_effect_worker [of "?h k" "?h 9"] targets by simp
    then show ?thesis using whole by (simp add: tick)
  qed
qed

end
