(* ===== verification/Skynet_Runs.thy ===== *)
theory Skynet_Runs
  imports Skynet_Tokens Skynet_Slot
begin

text \<open>
  Runs of the host to which the properties are applied: a worker that dispatches a VM and starts
  a session on it, and the same with a kernel timer that cannot be set.
\<close>

section \<open>Starts that succeed and starts that fail\<close>

lemma sync_settime: "he_settime env \<Longrightarrow> fst (sync_worker_timer env p h)"
  by (simp add: sync_worker_timer_def Let_def)

definition may_start :: "host_env \<Rightarrow> nat \<Rightarrow> u32 \<Rightarrow> u32 \<Rightarrow> skynet_host \<Rightarrow> bool" where
  "may_start env me handle sample_hz h \<longleftrightarrow>
     handle \<noteq> 0 \<and> sample_hz \<noteq> 0 \<and> sh_current_worker h me \<noteq> NULL \<and> sh_current_handle h me = handle \<and>
     \<not> sh_host_failed h \<and> sh_active_targets h = 0 \<and> select_target handle h \<noteq> None \<and> he_events_memory env"

lemma start_succeeds:
  assumes ok: "host_ok h" and may: "may_start env me handle sample_hz h" and "he_settime env"
    and "main_state \<noteq> NULL" "generation \<noteq> 0"
  shows "\<exists>h'. api_target_start env me handle main_state generation sample_hz True h = Some (Some (bump_token (sh_next_token h)), h')"
proof -
  obtain i where i: "select_target handle h = Some i" using may by (auto simp: may_start_def)
  let ?a = "active_host i handle (bump_token (sh_next_token h)) generation sample_hz main_state h"
  let ?s = "sync_worker_timer env (sh_current_worker h me) (clear_slot env me ?a)"
  have "fst ?s" using sync_settime [OF assms(3)] .
  then obtain h2 where "?s = (True, h2)" by (cases ?s) simp
  then show ?thesis
    using assms(4,5) may i activate_target_plain [OF select_target_Some(2) [OF i ok], of handle]
    by (simp add: api_target_start_def Let_def may_start_def)
qed

lemma start_unsynced:
  assumes ok: "host_ok h" and may: "may_start env me handle sample_hz h" and "\<not> he_settime env"
    and "main_state \<noteq> NULL" "generation \<noteq> 0" and w: "sh_heap h (sh_current_worker h me) = Some w" "wk_armed_hz w = 0"
  shows "\<exists>h'. api_target_start env me handle main_state generation sample_hz True h = Some (None, h') \<and>
    sh_next_token h' = bump_token (sh_next_token h)"
proof -
  let ?p = "sh_current_worker h me" let ?token = "bump_token (sh_next_token h)"
  obtain i where i: "select_target handle h = Some i" using may by (auto simp: may_start_def)
  let ?a = "active_host i handle ?token generation sample_hz main_state h"
  let ?c = "clear_slot env me ?a"
  have start: "api_target_start env me handle main_state generation sample_hz True h =
      (let (synced, h2) = sync_worker_timer env ?p ?c
       in if \<not> synced then map_option (\<lambda>h3. (None, h3)) (rollback_target_start i ?token h2)
          else Some (Some ?token, publish_slot ?p (Some i) ?token main_state 0 NULL h2))"
    using assms(4,5) may i activate_target_plain [OF select_target_Some(2) [OF i ok], of handle]
    by (simp add: api_target_start_def Let_def may_start_def)
  have a: "sh_heap ?a = sh_heap h" "sh_active_targets ?a = 1" "sh_active_sample_hz ?a = sample_hz"
    "sh_current_worker ?a = sh_current_worker h" "sh_next_token ?a = ?token"
    using may by (simp_all add: active_host_def upd_target_def may_start_def)
  have q: "quiet ?a ?c" by simp
  have "wk_armed_hz (worker_at ?p ?c) = 0"
  proof -
    have "sh_heap (discard_pending env p target token h) = sh_heap h" for p target token and h :: skynet_host
      by (simp add: discard_pending_def upd_target_def split: option.split)
    then have "sh_heap ?c ?p = map_option (published None 0 NULL 0 NULL) (sh_heap h ?p)"
      using may publish_slot_worker [of ?p None 0 NULL 0 NULL ?a] a(1,4) by (simp add: clear_slot_def Let_def may_start_def)
    then show ?thesis using w by (simp add: worker_at_def published_def)
  qed
  then have "sync_worker_timer env ?p ?c = (False, record_active_timer_failure (host_failure ?c))"
    using may assms(3) q a(2,3) by (simp add: sync_worker_timer_def Let_def may_start_def quiet_def)
  moreover define h2 where "h2 = record_active_timer_failure (host_failure ?c)"
  moreover have q2: "quiet ?a h2"
    unfolding h2_def by (rule quiet_trans [OF q quiet_trans [OF quiet_failure quiet_record_failure]])
  moreover have "host_ok ?a" using host_ok_active [OF ok i] may by (simp add: may_start_def)
  ultimately have "api_target_start env me handle main_state generation sample_hz True h =
      Some (None, drop_active (upd_target i (\<lambda>_. freed (sh_targets h2 ! i)) h2))"
    using start quiet_rolled_back(1) [OF ok i _ q2 quiet_host_ok [OF q2]] may by (simp add: may_start_def)
  then show ?thesis using quiet_tokens [OF q2] a(5) by (simp add: drop_active_parts upd_target_def)
qed

section \<open>The runs\<close>

definition example_host_env :: host_env where
  "example_host_env = \<lparr>he_worker_memory = True, he_events_memory = True, he_signal_in_range = True,
     he_action_is_default = True, he_action_set = True, he_mask_read = True, he_was_blocked = False,
     he_timer_created = True, he_blocked = True, he_pending = [], he_settime = True\<rparr>"

definition failing_host_env :: host_env where
  "failing_host_env = example_host_env\<lparr>he_settime := False\<rparr>"

definition example_host_ops :: "host_op list" where
  "example_host_ops = [WorkerStart example_host_env 0 1 4096, DispatchEnter example_host_env 0 5]"

text \<open>Worker 1 at address 4096, on thread 0, which dispatches handle 5.\<close>

definition example_host :: skynet_host where
  "example_host =
     (registered_host initial_host 4096 0 ((started_worker 1 0)\<lparr>wk_slot_version := 2\<rparr>))
       \<lparr>sh_current_worker := (\<lambda>_. NULL)(0 := 4096), sh_current_handle := (\<lambda>_. 0)(0 := 5)\<rparr>"

lemma initial_place: "free_worker_place (replicate LP_SKYNET_WORKER_CAPACITY NULL) = Some 0"
  by (simp add: free_worker_place_def LP_SKYNET_WORKER_CAPACITY_def upt_rec)

lemma example_worker_start:
  "lp_skynet_host_worker_start example_host_env 0 1 4096 initial_host =
   (registered_host initial_host 4096 0 (started_worker 1 0))\<lparr>sh_current_worker := (\<lambda>_. NULL)(0 := 4096)\<rparr>"
  by (simp add: lp_skynet_host_worker_start_def initial_host_def example_host_env_def acquire_signal_def Let_def
      initial_place upd_worker_def sync_worker_timer_def registered_host_def started_worker_def zero_worker_def)

lemma example_dispatch_enter:
  "lp_skynet_host_dispatch_enter example_host_env 0 5
     ((registered_host initial_host 4096 0 (started_worker 1 0))\<lparr>sh_current_worker := (\<lambda>_. NULL)(0 := 4096)\<rparr>) = example_host"
proof -
  have pin: "pin_active_handle 5 h = None" if "sh_targets h = replicate LP_SKYNET_TARGET_CAPACITY zero_target" for h
    using that by (auto simp: pin_active_handle_def find_None_iff Let_def target_current_state_def target_state_def zero_target_def)
  have fold: "fold (\<lambda>store w. store w) (publish_stores None 0 0 0 0) (started_worker 1 0) = (started_worker 1 0)\<lparr>wk_slot_version := 2\<rparr>"
    by (simp add: publish_stores_fold published_def started_worker_def zero_worker_def)
  let ?h = "(registered_host initial_host 4096 0 (started_worker 1 0))
     \<lparr>sh_current_worker := (\<lambda>_. NULL)(0 := 4096), sh_current_handle := (\<lambda>_. 0)(0 := 5)\<rparr>"
  have clear: "clear_slot example_host_env 0 ?h = example_host"
    using fold
    by (simp add: clear_slot_def Let_def publish_slot_def upd_worker_def block_worker_signal_def discard_pending_def
        registered_host_def initial_host_def example_host_def worker_at_def started_worker_def zero_worker_def)
  have sync: "sync_worker_timer example_host_env 4096 example_host = (True, example_host)"
    by (simp add: sync_worker_timer_def Let_def example_host_def registered_host_def initial_host_def worker_at_def
        started_worker_def zero_worker_def)
  have h0: "sh_current_worker ?h 0 = 4096" by simp
  have "pin_active_handle 5 example_host = None" by (rule pin) (simp add: example_host_def registered_host_def initial_host_def)
  then show ?thesis
    using clear sync
    by (simp add: lp_skynet_host_dispatch_enter_def Let_def registered_host_def initial_host_def)
qed

lemma example_host_history: "host_history example_host_ops initial_host = Some example_host"
proof -
  have "sh_heap initial_host 4096 = None" by (simp add: initial_host_def)
  then show ?thesis
    by (simp add: example_host_ops_def host_op_step_def example_worker_start example_dispatch_enter)
qed

lemma example_host_ok: "host_ok example_host"
  by (rule history_host_ok [OF example_host_history])

lemma example_select: "select_target 5 example_host = Some 0"
proof -
  have "find (\<lambda>i. tg_lifecycle (replicate LP_SKYNET_TARGET_CAPACITY zero_target ! i) = 0) [0..<LP_SKYNET_TARGET_CAPACITY] = Some 0"
    by (simp add: LP_SKYNET_TARGET_CAPACITY_def upt_rec zero_target_def)
  then show ?thesis
    by (simp add: select_target_def example_host_def registered_host_def initial_host_def zero_target_def
        target_current_state_def target_state_def list_ex_iff)
qed

lemma example_may_start: "may_start example_host_env 0 5 100 example_host" "may_start failing_host_env 0 5 100 example_host"
  using example_select
  by (simp_all add: may_start_def example_host_env_def failing_host_env_def)
    (simp_all add: example_host_def registered_host_def initial_host_def)

lemma example_next_token: "bump_token (sh_next_token example_host) = 1"
  by (simp add: example_host_def registered_host_def initial_host_def bump_token_def)

lemma example_host_start:
  obtains h where "api_target_start example_host_env 0 5 8192 1 100 True example_host = Some (Some 1, h)"
proof -
  have "he_settime example_host_env" by (simp add: example_host_env_def)
  then show thesis
    using that start_succeeds [OF example_host_ok example_may_start(1), of 8192 1] by (auto simp: example_next_token)
qed

section \<open>Witnesses\<close>

lemma host_history_append:
  "host_history (ops @ ops') h = (case host_history ops h of None \<Rightarrow> None | Some h' \<Rightarrow> host_history ops' h')"
  by (induction ops arbitrary: h) (simp_all split: option.split)

definition example_session_ops :: "host_op list" where
  "example_session_ops = example_host_ops @ [TargetStart example_host_env 0 5 8192 1 100 True]"

lemma example_session:
  obtains h i w where "host_history example_session_ops initial_host = Some h" "i < LP_SKYNET_TARGET_CAPACITY"
    "tg_lifecycle (sh_targets h ! i) = LP_SKYNET_TARGET_ACTIVE" "tg_token (sh_targets h ! i) = 1"
    "sh_heap h 4096 = Some (published (Some i) 1 8192 0 NULL w)"
    "api_target_start example_host_env 0 5 8192 1 100 True example_host = Some (Some 1, h)"
proof -
  obtain h where h: "api_target_start example_host_env 0 5 8192 1 100 True example_host = Some (Some 1, h)" by (rule example_host_start)
  have history: "host_history example_session_ops initial_host = Some h"
    by (simp add: example_session_ops_def host_history_append example_host_history host_op_step_def h)
  have len: "length example_host_ops < u64_max" by (simp add: example_host_ops_def)
  note init = initial_history [OF example_host_history len]
  have p: "sh_current_worker example_host 0 = 4096" by (simp add: example_host_def)
  obtain i w where i: "i < LP_SKYNET_TARGET_CAPACITY" "tg_lifecycle (sh_targets h ! i) = LP_SKYNET_TARGET_ACTIVE"
    "tg_token (sh_targets h ! i) = 1" "sh_heap h (sh_current_worker example_host 0) = Some (published (Some i) 1 8192 0 NULL w)"
  proof (rule started_session [OF init(1) init(2) init(4) h], goal_cases)
    case (1 i w)
    show ?case by (rule that; fact)
  qed
  show thesis by (rule that [OF history i(1-3) i(4) [unfolded p] h])
qed

lemma failed_start_keeps_sessions_witness:
  "\<exists>h'. api_target_start failing_host_env 0 5 8192 1 100 True example_host = Some (None, h') \<and>
     sh_next_token h' = 1 \<and> sh_active_targets h' = 0 \<and> list_all2 keeps_session (sh_targets example_host) (sh_targets h')"
proof -
  have armed: "wk_armed_hz ((started_worker 1 0)\<lparr>wk_slot_version := 2\<rparr>) = 0" by (simp add: started_worker_def zero_worker_def)
  have "\<not> he_settime failing_host_env" by (simp add: failing_host_env_def)
  moreover have "sh_heap example_host (sh_current_worker example_host 0) = Some ((started_worker 1 0)\<lparr>wk_slot_version := 2\<rparr>)"
    by (simp add: example_host_def registered_host_def)
  ultimately obtain h' where h': "api_target_start failing_host_env 0 5 8192 1 100 True example_host = Some (None, h')"
    "sh_next_token h' = 1"
    using start_unsynced [OF example_host_ok example_may_start(2) _ _ _ _ armed, of 8192 1] unfolding example_next_token by force
  have "sh_active_targets example_host = 0" by (simp add: example_host_def registered_host_def initial_host_def)
  then show ?thesis using failed_start_keeps_sessions [OF example_host_history h'(1)] h' by auto
qed

lemma tick_reaches_drain_witness:
  "\<exists>h1 h2 h3. api_target_start example_host_env 0 5 8192 1 100 True example_host = Some (Some 1, h1) \<and>
     skynet_signal_handler (Some (example_info 4096)) (api_end_event_drain 1 h1) = Some (h2, Some 8192) \<and>
     api_next_event 1 True h2 = Some (Some \<lparr>ke_state = 8192, ke_vm_state = 0, ke_cfunction = NULL\<rparr>, h3)"
proof -
  obtain h1 where h1: "api_target_start example_host_env 0 5 8192 1 100 True example_host = Some (Some 1, h1)"
    by (rule example_host_start)
  have "length example_host_ops < u64_max" "si_timer (example_info 4096)"
    "si_value (example_info 4096) = sh_current_worker example_host 0"
    by (simp_all add: example_host_ops_def example_info_def example_host_def)
  from tick_reaches_drain [OF example_host_history this(1) h1 this(2,3)] h1 show ?thesis by blast
qed

lemma released_session_is_gone_witness:
  "\<exists>h h1 h2 h3. host_history example_session_ops initial_host = Some h \<and>
     api_target_quiesce example_host_env 0 1 h = Some (True, h1) \<and> api_target_release 1 h1 = Some h2 \<and>
     host_history [DispatchLeave example_host_env 0] h2 = Some h3 \<and> api_next_event 1 True h3 = Some (None, h3)"
proof -
  obtain h i w where h: "host_history example_session_ops initial_host = Some h" "i < LP_SKYNET_TARGET_CAPACITY"
    "tg_lifecycle (sh_targets h ! i) = LP_SKYNET_TARGET_ACTIVE" "tg_token (sh_targets h ! i) = 1"
    "sh_heap h 4096 = Some (published (Some i) 1 8192 0 NULL w)"
    "api_target_start example_host_env 0 5 8192 1 100 True example_host = Some (Some 1, h)"
    by (rule example_session)
  have len: "length example_session_ops < u64_max" "length example_session_ops + length [DispatchLeave example_host_env 0] < u64_max"
    by (simp_all add: example_session_ops_def example_host_ops_def)
  note init = initial_history [OF h(1) len(1)]
  have found: "find_target LP_SKYNET_TARGET_ACTIVE 1 h = Some i"
    by (rule find_target_unique [OF init(1,2) h(2,3,4)]) simp
  obtain h1 where h1: "api_target_quiesce example_host_env 0 1 h = Some (True, h1)" "host_ok h1"
    using init(1)
  proof (cases rule: quiesce_cases [where token = 1 and env = example_host_env and me = 0])
    case missing
    then show thesis using found by simp
  next
    case (quiesced j h1)
    then show thesis using that by simp
  qed
  obtain h2 where h2: "api_target_release 1 h1 = Some h2" "host_ok h2" by (rule host_ok_release [OF h1(2)])
  obtain h3 where h3: "host_history [DispatchLeave example_host_env 0] h2 = Some h3"
    using host_ok_history [OF h2(2)] by blast
  from released_session_is_gone [OF h(1) len(2) h1(1) h2(1) h3] have "api_next_event 1 True h3 = Some (None, h3)" by blast
  with h(1) h1(1) h2(1) h3 show ?thesis by blast
qed

lemma torn_slot_only_counts_witness:
  "\<exists>h i. host_history example_session_ops initial_host = Some h \<and>
     tick_effect (skynet_signal_handler (Some (example_info 4096)) (upd_worker 4096 (partly_published 3 None 0 NULL 0 NULL) h)) =
     Some ((sh_targets h)[i := record_slot_unstable 1 (example_info 4096) (sh_targets h ! i)], None)"
proof -
  obtain h i w where h: "host_history example_session_ops initial_host = Some h"
    "sh_heap h 4096 = Some (published (Some i) 1 8192 0 NULL w)"
    by (rule example_session) (rule that)
  have "si_timer (example_info 4096)" "si_value (example_info 4096) = 4096" by (simp_all add: example_info_def)
  from torn_slot_only_counts [OF h(1,2) this, where k = 3] h(1) show ?thesis by (auto simp: published_def)
qed

end
