(* ===== verification/Vm_Runs.thy ===== *)
theory Vm_Runs
  imports Vm_Recording Skynet_Runs
begin

text \<open>
  A run of a VM in a process without scheduler, to which the properties of \<open>Vm_Recording\<close> are
  applied: the CPU recorder is started, the VM runs Lua code, and a signal queues a tick.
\<close>

definition example_captured :: lua_ProfileFrame where
  "example_captured = \<lparr>lf_function = 5, lf_source = Some (ascii ''@a.lua''), lf_source_length = 6, lf_name = Some (ascii ''f''),
     lf_name_length = 1, lf_cfunction = NULL, lf_linedefined = 1, lf_currentline = 2, lf_kind = 0\<rparr>"

definition example_bridge_env :: bridge_env where
  "example_bridge_env = \<lparr>be_me = 0, be_capture = (\<lambda>state n. ([example_captured], 0)), be_timer_address = 4096,
     be_timer_memory = (True, True), be_arm = example_arm, be_disarm = example_disarm, be_host = example_host_env\<rparr>"

text \<open>The main state is 8192; the runtime is at 12288, its timer at 4096.\<close>

definition example_setting :: vm_setting where
  "example_setting = \<lparr>vs_host_ops = [], vs_timer_ops = [], vs_backend = (False, LP_SKYNET_BACKEND_ABSENT),
     vs_main_state = 8192, vs_address = 12288, vs_seed = 5\<rparr>"

definition idle_vm_world :: bridge_world where
  "idle_vm_world = \<lparr>bw_bridge = lp_lua_bridge_bind 12288 (lp_lua_bridge_init (False, LP_SKYNET_BACKEND_ABSENT) 8192),
     bw_timers = initial_world, bw_host = initial_host, bw_hooks = None\<rparr>"

definition armed_timer :: lp_thread_timer where
  "armed_timer = zero_thread_timer\<lparr>tt_signal_slot := 0, tt_signal_acquired := True, tt_timer_created := True, tt_active := True\<rparr>"

definition running_timer :: lp_thread_timer where
  "running_timer = lp_thread_timer_end_event_drain armed_timer"

text \<open>The world while the recorder is active, by what its timer holds.\<close>

definition recording_world :: "lp_thread_timer \<Rightarrow> bridge_world" where
  "recording_world t = \<lparr>bw_bridge = (bw_bridge idle_vm_world)\<lparr>lb_cpu_timer := 4096, lb_cpu_generation := 1, lb_cpu_active := True\<rparr>,
     bw_timers = put_timer 4096 t example_armed, bw_host = initial_host,
     bw_hooks = Some \<lparr>hk_safe_point = True, hk_state_change = True, hk_allocation = False\<rparr>\<rparr>"

definition lua_event :: lp_tick_event where
  "lua_event = \<lparr>te_state = 8192, te_vm_state = LP_VM_LUA, te_cfunction = NULL\<rparr>"

definition published_timer :: lp_thread_timer where
  "published_timer = lp_thread_timer_publish_state running_timer lua_event"

definition ticked_timer :: lp_thread_timer where
  "ticked_timer = fst (handle_tick (example_info 4096) published_timer)"

lemma example_env_readable: "env_readable example_bridge_env"
  by (simp add: env_readable_def example_bridge_env_def frame_of_def example_captured_def frame_readable_def ascii_def)

lemma example_setting_ok: "setting_ok example_setting"
  by (simp add: setting_ok_def example_setting_def)

lemma example_armed_timer: "tw_timers example_armed 4096 = Some armed_timer"
  by (simp add: example_armed_def lp_thread_timer_arm_def example_world_def put_timer_def initial_world_def
      acquire_timer_signal_def example_arm_def Let_def example_free_place zero_thread_timer_def armed_timer_def)

lemma example_world_starts:
  "start_collector example_bridge_env 1 example_config idle_vm_world = Some (LP_OK, recording_world running_timer)"
  by (simp add: start_collector_def acquire_ticks_def idle_vm_world_def example_bridge_env_def example_config_def Let_def
      lp_lua_bridge_bind_def lp_lua_bridge_init_def upd_bridge_def apply_hooks_wanted scheduler_active_def
      lp_thread_timer_new_def example_arm_ok [unfolded example_world_def] end_event_drain_def with_timer_def
      example_armed_timer wanted_hooks_def recording_world_def running_timer_def)

lemma example_start_possible: "start_possible example_bridge_env idle_vm_world"
  by (simp add: start_possible_def example_bridge_env_def idle_vm_world_def initial_world_def initial_host_def)

text \<open>The aggregates of the CPU recorder, and how many a call adds.\<close>

definition cpu_count :: "lp_runtime \<Rightarrow> nat" where
  "cpu_count rt = (case cs_cpu_profile (collector rt LP_COLLECTOR_CPU) of None \<Rightarrow> 0 | Some p \<Rightarrow> cp_aggregate_count p)"

lemma memory_calls_keep_cpu:
  assumes len: "length (rt_collectors rt) = 2"
  shows "lp_runtime_memory_reconcile_live rt g old new n success = Some rt' \<Longrightarrow>
      collector rt' LP_COLLECTOR_CPU = collector rt LP_COLLECTOR_CPU"
    "lp_runtime_memory_sample rt g x frames truncated n ws wo = Some rt' \<Longrightarrow>
      collector rt' LP_COLLECTOR_CPU = collector rt LP_COLLECTOR_CPU"
    "collector (fst (lp_runtime_memory_sample_candidate d rt g new n success)) LP_COLLECTOR_CPU = collector rt LP_COLLECTOR_CPU"
  using len
  by (auto simp: lp_runtime_memory_reconcile_live_def lp_runtime_memory_sample_def lp_runtime_memory_sample_candidate_def
      Let_def case_prod_beta split: option.splits)

lemma allocation_keeps_cpu:
  assumes len: "length (rt_collectors rt) = 2" and run: "lp_runtime_allocation rt g old new n success = Some rt'"
  shows "collector rt' LP_COLLECTOR_CPU = collector rt LP_COLLECTOR_CPU"
proof (cases "current_slot rt LP_COLLECTOR_MEMORY g")
  case (Some slot)
  have "lp_runtime_memory_reconcile_live (set_collector LP_COLLECTOR_MEMORY slot' rt) g old new n success = Some rt' \<Longrightarrow>
      collector rt' LP_COLLECTOR_CPU = collector rt LP_COLLECTOR_CPU" for slot'
    using memory_calls_keep_cpu(1) [of "set_collector LP_COLLECTOR_MEMORY slot' rt" g old new n success rt'] len by simp
  then show ?thesis using run by (auto simp: lp_runtime_allocation_def Some Let_def split: if_splits)
qed (use run in \<open>simp add: lp_runtime_allocation_def\<close>)

lemma runtime_call_count:
  assumes "length (rt_collectors rt) = 2" and "runtime_apply d call rt = Some rt'"
  shows "cpu_count rt' \<le> cpu_count rt + length (filter is_sample [call])"
proof (cases call)
  case (Cpu_Sample g state cfunction frames truncated)
  then show ?thesis
    using assms record_count
    by (auto simp: lp_runtime_cpu_sample_def cpu_count_def current_slot_def Let_def is_sample_def split: option.splits if_splits)
next
  case (Cpu_Quality g dropped unstable overhead events ticks)
  then show ?thesis
    using assms
    by (auto simp: lp_runtime_cpu_quality_def lp_cpu_profile_quality_def cpu_count_def current_slot_def Let_def split: option.splits if_splits)
next
  case (Allocation g old new n success)
  then show ?thesis using assms allocation_keeps_cpu by (fastforce simp: cpu_count_def)
next
  case (Reconcile_Live g old new n success)
  then show ?thesis using assms memory_calls_keep_cpu(1) by (fastforce simp: cpu_count_def)
next
  case (Memory_Sample g x frames truncated n ws wo)
  then show ?thesis using assms memory_calls_keep_cpu(2) by (fastforce simp: cpu_count_def)
next
  case (Sample_Candidate g new n success)
  then show ?thesis using assms memory_calls_keep_cpu(3) [of rt d g new n success] by (auto simp: cpu_count_def)
qed (use assms in \<open>auto simp: lp_runtime_safe_point_def lp_runtime_state_change_def lp_runtime_cpu_scheduler_quality_def
    cpu_count_def current_slot_def Let_def split: option.splits if_splits\<close>)

lemma runtime_calls_count:
  "runtime_ok rt \<Longrightarrow> \<forall>call\<in>set calls. runtime_call_readable call \<Longrightarrow> runtime_calls d calls rt = Some rt' \<Longrightarrow>
   cpu_count rt' \<le> cpu_count rt + length (filter is_sample calls)"
proof (induction calls arbitrary: rt)
  case (Cons call calls)
  obtain rt1 where rt1: "runtime_apply d call rt = Some rt1" "runtime_ok rt1"
    using runtime_apply_ok [OF Cons.prems(1), of call d] Cons.prems(2) by (auto simp: records_ok_def)
  then have "cpu_count rt1 \<le> cpu_count rt + length (filter is_sample [call])"
    using runtime_call_count [OF _ rt1(1)] Cons.prems(1) by (simp add: runtime_ok_def)
  moreover have "cpu_count rt' \<le> cpu_count rt1 + length (filter is_sample calls)"
    using Cons.IH [OF rt1(2)] Cons.prems rt1(1) by simp
  ultimately show ?case by (auto split: if_splits)
qed simp

definition example_start_op :: vm_op where
  "example_start_op = Vm_Start example_env example_bridge_env NULL example_config"

definition new_example_runtime :: lp_runtime where
  "new_example_runtime = \<lparr>rt_main_state = 8192, rt_host_ops = no_host, rt_next_generation = 0, rt_closing = False,
     rt_collectors = [zero_slot, zero_slot]\<rparr>"

lemma example_vm_starts:
  "\<exists>rt. vm_start d example_env example_bridge_env NULL example_config \<lparr>vm_runtime = new_example_runtime, vm_seed = 5, vm_world = idle_vm_world\<rparr> =
    Some ((LP_OK, Some 1), \<lparr>vm_runtime = rt, vm_seed = 5, vm_world = recording_world running_timer\<rparr>) \<and>
    \<not> rt_closing rt \<and> cpu_count rt = 0"
  by (simp add: vm_start_def Let_def lp_runtime_start_def with_host_def bridge_host_def new_example_runtime_def collector_def
      set_collector_def bump_generation_def reaches_host_def new_slot_def start_refused_def new_profiles_def lp_cpu_profile_new_all
      example_config_def example_env_def zero_slot_def example_world_starts [unfolded example_config_def]
      cpu_count_def zero_cpu_profile_def)

text \<open>The start, a state, and a signal.\<close>

definition example_vm_ops :: "vm_op list" where
  "example_vm_ops = [example_start_op, State_Hook example_bridge_env 8192 LP_VM_LUA NULL, Tick (Some (example_info 4096))]"

lemma example_ops_readable: "\<forall>op \<in> set example_vm_ops. vm_op_readable op"
  by (simp add: example_vm_ops_def vm_op_readable_def example_env_readable example_start_op_def)

lemma recording_fields [simp]:
  "lb_cpu_timer (bw_bridge (recording_world t)) = 4096" "lb_profiler_work_depth (bw_bridge (recording_world t)) = 0"
  "lb_scheduler_api (bw_bridge (recording_world t)) = False" "lb_main_state (bw_bridge (recording_world t)) = 8192"
  "tw_timers (bw_timers (recording_world t)) 4096 = Some t" "lb_cpu_generation (bw_bridge (recording_world t)) = 1"
  "\<not> scheduler_active (bw_bridge (recording_world t))" "lb_cpu_active (bw_bridge (recording_world t))"
  "bw_hooks (recording_world t) = Some \<lparr>hk_safe_point = True, hk_state_change = True, hk_allocation = False\<rparr>"
  "(recording_world t)\<lparr>bw_timers := put_timer 4096 t' (bw_timers (recording_world t))\<rparr> = recording_world t'"
  by (simp_all add: recording_world_def idle_vm_world_def lp_lua_bridge_bind_def lp_lua_bridge_init_def put_timer_def
      scheduler_active_def)

lemma example_publish:
  "state_change example_bridge_env 8192 LP_VM_LUA NULL (recording_world running_timer) =
   Some ([State_Change 1 LP_VM_LUA], recording_world published_timer)"
  by (simp add: state_change_def with_timer_def Let_def published_timer_def lua_event_def)

lemma example_armed_ok: "world_ok example_armed"
proof -
  have "world_ok example_world"
    using world_ok_new [OF world_ok_initial, of 4096] by (simp add: example_world_def initial_world_def)
  then show ?thesis by (rule world_ok_arm [OF _ example_arm_ok])
qed

lemma example_registered: "4096 \<in> set (tw_active_timers example_armed)"
proof -
  have "4096 \<in> {p. \<exists>t. tw_timers example_armed p = Some t \<and> tt_active t}"
    using example_armed_timer by (simp add: armed_timer_def)
  then show ?thesis using registered_are_active [OF example_armed_ok] by blast
qed

lemma published_fields:
  "tt_active published_timer" "\<not> tt_draining_events published_timer" "tt_slot_version published_timer = 2"
  "tt_ring published_timer = new_ring zero_tick_event" "slot_event published_timer = lua_event" "event_valid lua_event"
  by (simp_all add: published_timer_def running_timer_def armed_timer_def zero_thread_timer_def drain_defs
      lp_thread_timer_publish_state_def publish_defs slot_event_def lua_event_def event_valid_def sint_uint)

lemma example_bridge_tick: "bridge_tick (Some (example_info 4096)) (recording_world published_timer) = Some (recording_world ticked_timer)"
proof -
  have "tw_active_timers (bw_timers (recording_world t)) = tw_active_timers example_armed" for t
    by (simp add: recording_world_def put_timer_def)
  then have "timer_signal_handler (Some (example_info 4096)) (bw_timers (recording_world published_timer)) =
      Some (put_timer 4096 ticked_timer (bw_timers (recording_world published_timer)),
        snd (handle_tick (example_info 4096) published_timer))"
    using example_registered published_fields(1)
    by (simp add: timer_signal_handler_def Let_def ticked_timer_def case_prod_beta) (simp add: example_info_def case_prod_beta)
  then show ?thesis by (simp add: bridge_tick_def)
qed

lemma example_queue: "queued_ticks (recording_world ticked_timer) = [(8192, LP_VM_LUA, NULL)]"
proof -
  obtain r where r: "ring_push lua_event (new_ring zero_tick_event) = Some r"
    by (simp add: ring_push_def new_ring_def LP_TICK_RING_CAPACITY_def)
  have "fst (handle_tick (example_info 4096) published_timer) = (record_overrun (example_info 4096) published_timer)\<lparr>tt_ring := r\<rparr>"
    using handle_tick_accepts [of published_timer r "example_info 4096"] published_fields r by simp
  then have "timer_queue ticked_timer = [lua_event]"
    using ring_push_contents [OF _ r] by (simp add: ticked_timer_def timer_queue_def)
  then show ?thesis by (simp add: queued_ticks_def source_events_def bridge_timer_def lua_event_def)
qed

lemma example_new_vm:
  "new_vm initial_host initial_world (vs_backend example_setting) (vs_main_state example_setting) (vs_address example_setting)
     (vs_seed example_setting) = Some \<lparr>vm_runtime = new_example_runtime, vm_seed = 5, vm_world = idle_vm_world\<rparr>"
  by (simp add: new_vm_def example_setting_def lp_runtime_new_def new_example_runtime_def idle_vm_world_def)

lemma example_vm_runs:
  "\<exists>rt. vm_from d example_setting example_vm_ops =
     Some ([], \<lparr>vm_runtime = rt, vm_seed = 5, vm_world = recording_world ticked_timer\<rparr>) \<and> \<not> rt_closing rt \<and> cpu_count rt = 0"
proof -
  let ?vm = "\<lambda>rt t. \<lparr>vm_runtime = rt, vm_seed = 5, vm_world = recording_world t\<rparr>"
  let ?new = "\<lparr>vm_runtime = new_example_runtime, vm_seed = 5, vm_world = idle_vm_world\<rparr>"
  obtain rt where rt: "vm_start d example_env example_bridge_env NULL example_config ?new = Some ((LP_OK, Some 1), ?vm rt running_timer)"
    "\<not> rt_closing rt" "cpu_count rt = 0"
    using example_vm_starts by blast
  then have 1: "vm_step d example_start_op ?new = Some ([], ?vm rt running_timer)"
    using example_start_possible by (simp add: vm_step_def example_start_op_def possible_def Let_def)
  have "vm_from d example_setting [example_start_op] = Some ([], ?vm rt running_timer)"
    using 1 example_new_vm by (simp add: vm_from_def example_setting_def)
  then have "vm_ok (?vm rt running_timer)"
    by (rule vm_from_kept(1) [OF example_setting_ok, rotated]) (simp add: vm_op_readable_def example_start_op_def example_env_readable)
  then have "runtime_ok rt" by (simp add: vm_ok_def)
  then obtain rt' where rt': "runtime_calls d [State_Change 1 LP_VM_LUA] rt = Some rt'" "same_recordings rt rt'"
    using runtime_calls_ok [of rt "[State_Change 1 LP_VM_LUA]" d] by (auto simp: records_ok_def)
  have "cpu_count rt' \<le> cpu_count rt" using runtime_calls_count [OF \<open>runtime_ok rt\<close> _ rt'(1)] by (simp add: is_sample_def)
  then have kept: "\<not> rt_closing rt'" "cpu_count rt' = 0" using rt(2,3) rt'(2) by (simp_all add: same_recordings_def)
  have 2: "vm_step d (State_Hook example_bridge_env 8192 LP_VM_LUA NULL) (?vm rt running_timer) = Some ([], ?vm rt' published_timer)"
    using rt'(1) by (simp add: vm_step_def possible_def Let_def hook_set_def vm_hook_def example_publish)
  have 3: "vm_step d (Tick (Some (example_info 4096))) (?vm rt' published_timer) = Some ([], ?vm rt' ticked_timer)"
    by (simp add: vm_step_def possible_def Let_def example_bridge_tick)
  show ?thesis
    using example_new_vm 1 2 3 kept by (simp add: vm_from_def example_setting_def example_vm_ops_def)
qed

section \<open>Witnesses\<close>

lemma example_vm:
  obtains vm where "vm_from trivial_doubles example_setting example_vm_ops = Some ([], vm)"
    "vm_world vm = recording_world ticked_timer" "cs_generation (collector (vm_runtime vm) LP_COLLECTOR_CPU) = 1"
    "stop_refused (vm_runtime vm) LP_COLLECTOR_CPU 1 = None" "ticks_come (vm_world vm)" "cpu_count (vm_runtime vm) = 0"
proof -
  obtain rt where run: "vm_from trivial_doubles example_setting example_vm_ops =
      Some ([], \<lparr>vm_runtime = rt, vm_seed = 5, vm_world = recording_world ticked_timer\<rparr>)" (is "_ = Some ([], ?vm)")
    and rt: "\<not> rt_closing rt" "cpu_count rt = 0"
    using example_vm_runs by blast
  have ok: "vm_ok ?vm" by (rule vm_from_kept(1) [OF example_setting_ok example_ops_readable run])
  then have "cs_generation (collector rt LP_COLLECTOR_CPU) = 1" "cs_active (collector rt LP_COLLECTOR_CPU)" "bridge_ok (vm_world ?vm)"
    by (simp_all add: vm_ok_def coupled_def)
  moreover from this have "ticks_come (vm_world ?vm)"
    using active_source [of "vm_world ?vm"] by (simp add: ticks_come_def cpu_source_def)
  ultimately show thesis using that [OF run] rt by (simp add: stop_refused_def)
qed

lemma recorders_have_their_sources_witness:
  "\<exists>rs vm. vm_from trivial_doubles example_setting example_vm_ops = Some (rs, vm) \<and>
    ticks_come (vm_world vm) \<and> hook_set hk_safe_point vm \<and> cs_active (collector (vm_runtime vm) LP_COLLECTOR_CPU) \<and>
    \<not> hook_set hk_allocation vm \<and> \<not> cs_active (collector (vm_runtime vm) LP_COLLECTOR_MEMORY) \<and> \<not> ticks_refused (vm_world vm)"
proof -
  obtain vm where vm: "vm_from trivial_doubles example_setting example_vm_ops = Some ([], vm)"
    "vm_world vm = recording_world ticked_timer" "ticks_come (vm_world vm)"
    by (rule example_vm)
  have "hook_set hk_safe_point vm" "\<not> hook_set hk_allocation vm" using vm(2) by (simp_all add: hook_set_def)
  then show ?thesis
    using recorders_have_their_sources [OF example_setting_ok example_ops_readable, of trivial_doubles] vm by auto
qed

lemma safe_point_records_the_queue_witness:
  "\<exists>vm calls w'. vm_from trivial_doubles example_setting example_vm_ops = Some ([], vm) \<and>
    safe_point example_bridge_env 1 (vm_world vm) = Some (calls, w') \<and>
    filter is_sample calls = [recorded example_bridge_env 1 (8192, LP_VM_LUA, NULL)] \<and> queued_ticks w' = []"
proof -
  obtain vm where vm: "vm_from trivial_doubles example_setting example_vm_ops = Some ([], vm)"
    "vm_world vm = recording_world ticked_timer" "cs_generation (collector (vm_runtime vm) LP_COLLECTOR_CPU) = 1"
    by (rule example_vm)
  show ?thesis
    using safe_point_records_the_queue [OF example_setting_ok example_ops_readable vm(1), of example_bridge_env 1] vm
    by (auto simp: hook_set_def example_queue)
qed

lemma work_is_not_sampled_witness:
  "\<exists>vm w1 w2 w3 w4 w5 calls. vm_from trivial_doubles example_setting example_vm_ops = Some ([], vm) \<and>
    lp_lua_bridge_begin_profiler_work True (vm_world vm) = Some (True, w1) \<and>
    run_ticks bridge_tick [Some (example_info 4096)] w1 = Some w2 \<and> drain_cpu example_bridge_env w2 = Some (calls, w3) \<and>
    run_ticks bridge_tick [Some (example_info 4096)] w3 = Some w4 \<and> lp_lua_bridge_end_profiler_work True True w4 = Some w5 \<and>
    filter is_sample calls = [recorded example_bridge_env 1 (8192, LP_VM_LUA, NULL)] \<and> queued_ticks w5 = []"
proof -
  obtain vm where vm: "vm_from trivial_doubles example_setting example_vm_ops = Some ([], vm)"
    "vm_world vm = recording_world ticked_timer" "cs_generation (collector (vm_runtime vm) LP_COLLECTOR_CPU) = 1"
    "ticks_come (vm_world vm)"
    by (rule example_vm)
  have room: "lb_profiler_work_depth (bw_bridge (vm_world vm)) + 1 \<noteq> 0" by (simp add: vm(2))
  have "map (recorded example_bridge_env (cs_generation (collector (vm_runtime vm) LP_COLLECTOR_CPU))) (queued_ticks (vm_world vm)) =
      [recorded example_bridge_env 1 (8192, LP_VM_LUA, NULL)]" by (simp add: vm(2,3) example_queue)
  then show ?thesis
    using work_is_not_sampled [OF example_setting_ok example_ops_readable vm(1,4) room,
        of "[Some (example_info 4096)]" example_bridge_env "[Some (example_info 4096)]"] vm(1) by metis
qed

lemma left_coroutine_is_forgotten_witness:
  "\<exists>vm calls w' w''. vm_from trivial_doubles example_setting example_vm_ops = Some ([], vm) \<and>
    state_change example_bridge_env 16384 LP_VM_HOST NULL (vm_world vm) = Some (calls, w') \<and>
    filter is_sample calls = [recorded example_bridge_env 1 (8192, LP_VM_LUA, NULL)] \<and>
    run_ticks bridge_tick [] w' = Some w'' \<and> set (queued_ticks w'') \<subseteq> {(8192, LP_VM_HOST, NULL)}"
proof -
  obtain vm where vm: "vm_from trivial_doubles example_setting example_vm_ops = Some ([], vm)"
    "vm_world vm = recording_world ticked_timer" "cs_generation (collector (vm_runtime vm) LP_COLLECTOR_CPU) = 1"
    by (rule example_vm)
  have fits: "hook_set hk_state_change vm" "lb_profiler_work_depth (bw_bridge (vm_world vm)) + 1 \<noteq> 0"
    "\<not> lb_scheduler_api (bw_bridge (vm_world vm))" "16384 \<noteq> lb_main_state (bw_bridge (vm_world vm))"
    by (simp_all add: vm(2) hook_set_def)
  obtain calls w' where sc: "state_change example_bridge_env 16384 LP_VM_HOST NULL (vm_world vm) = Some (calls, w')"
    "filter is_sample calls = map (recorded example_bridge_env (cs_generation (collector (vm_runtime vm) LP_COLLECTOR_CPU)))
       (queued_ticks (vm_world vm))"
    "\<forall>infos w''. run_ticks bridge_tick infos w' = Some w'' \<longrightarrow>
       set (queued_ticks w'') \<subseteq> {(lb_main_state (bw_bridge (vm_world vm)), LP_VM_HOST, NULL)}"
    using left_coroutine_is_forgotten [OF example_setting_ok example_ops_readable vm(1) fits] by blast
  have "run_ticks bridge_tick [] w' = Some w'" by simp
  then have "set (queued_ticks w') \<subseteq> {(lb_main_state (bw_bridge (vm_world vm)), LP_VM_HOST, NULL)}" using sc(3) by blast
  then have "set (queued_ticks w') \<subseteq> {(8192, LP_VM_HOST, NULL)}" by (simp add: vm(2))
  moreover have "filter is_sample calls = [recorded example_bridge_env 1 (8192, LP_VM_LUA, NULL)]"
    using sc(2) by (simp add: vm(2,3) example_queue)
  ultimately show ?thesis using vm(1) sc(1) by auto
qed

lemma stop_records_the_rest_and_cleans_up_witness:
  "\<exists>vm calls vm' res. vm_from trivial_doubles example_setting example_vm_ops = Some ([], vm) \<and>
    stop_collector example_bridge_env LP_COLLECTOR_CPU 1 (vm_world vm) = Some (calls, vm_world vm') \<and>
    vm_stop trivial_doubles example_bridge_env NULL LP_COLLECTOR_CPU 1 vm = Some ((LP_OK, Some res), vm') \<and>
    filter is_sample calls = [recorded example_bridge_env 1 (8192, LP_VM_LUA, NULL)] \<and>
    \<not> ticks_come (vm_world vm') \<and> tw_timers (bw_timers (vm_world vm')) 4096 = None"
proof -
  obtain vm where vm: "vm_from trivial_doubles example_setting example_vm_ops = Some ([], vm)"
    "vm_world vm = recording_world ticked_timer" "stop_refused (vm_runtime vm) LP_COLLECTOR_CPU 1 = None"
    by (rule example_vm)
  have room: "lb_profiler_work_depth (bw_bridge (vm_world vm)) + 1 \<noteq> 0" by (simp add: vm(2))
  show ?thesis
    using stop_records_the_rest_and_cleans_up [OF example_setting_ok example_ops_readable vm(1) example_env_readable vm(3) room,
        of NULL] vm(1) by (auto simp: vm(2) example_queue)
qed

text \<open>A timer that the kernel does not start.\<close>

lemma failed_vm_start_changes_nothing_witness:
  "\<exists>vm vm' status. vm_from trivial_doubles example_setting [] = Some ([], vm) \<and>
    vm_start trivial_doubles example_env (example_bridge_env\<lparr>be_timer_memory := (True, False)\<rparr>) NULL example_config vm =
      Some ((status, None), vm') \<and> status \<noteq> LP_OK \<and> vm_world vm' = vm_world vm"
proof -
  let ?env = "example_bridge_env\<lparr>be_timer_memory := (True, False)\<rparr>"
  let ?vm = "\<lparr>vm_runtime = new_example_runtime, vm_seed = 5, vm_world = idle_vm_world\<rparr>"
  have run: "vm_from trivial_doubles example_setting [] = Some ([], ?vm)"
    using example_new_vm by (simp add: vm_from_def example_setting_def)
  have env: "env_readable ?env" "start_possible ?env (vm_world ?vm)"
    using example_env_readable example_start_possible by (simp_all add: env_readable_def start_possible_def)
  have fails: "start_collector ?env 1 example_config idle_vm_world = Some (LP_ERR_NOMEM, idle_vm_world)"
    by (simp add: start_collector_def acquire_ticks_def idle_vm_world_def example_config_def Let_def lp_lua_bridge_bind_def
        lp_lua_bridge_init_def upd_bridge_def lp_thread_timer_new_def)
  obtain gen vm' where start: "vm_start trivial_doubles example_env ?env NULL example_config ?vm = Some ((LP_ERR_NOMEM, gen), vm')"
    by (simp add: vm_start_def Let_def lp_runtime_start_def with_host_def bridge_host_def new_example_runtime_def collector_def
        set_collector_def bump_generation_def reaches_host_def new_slot_def start_refused_def new_profiles_def lp_cpu_profile_new_all
        example_config_def example_env_def zero_slot_def fails [unfolded example_config_def])
  have mode: "\<not> lb_scheduler_api (bw_bridge (vm_world ?vm))"
    by (simp add: idle_vm_world_def lp_lua_bridge_bind_def lp_lua_bridge_init_def)
  show ?thesis
    using failed_vm_start_changes_nothing [OF example_setting_ok _ run env mode start] run start by auto
qed

text \<open>The result of the run above, stopped.\<close>

lemma stopped_count:
  assumes ok: "runtime_ok rt" "host_readable (rt_host_ops rt)" and go: "stop_refused rt LP_COLLECTOR_CPU g = None"
    and stop: "lp_runtime_stop d rt L LP_COLLECTOR_CPU g = Some (rt', LP_OK, Some res)"
    and ops: "ho_stop_collector (rt_host_ops rt) = Some f"
    and calls: "\<And>L. f L LP_COLLECTOR_CPU g = calls"
  shows "lp_result_cpu_sample_count res \<le> cpu_count rt + length (filter is_sample calls)"
proof -
  have readable: "\<forall>call \<in> set calls. runtime_call_readable call"
    using ok(2) ops unfolding calls [of NULL, symmetric] by (simp add: host_readable_def)
  have "(\<not> valid_kind LP_COLLECTOR_CPU \<or> g = 0) = False" "rt_closing rt = False" "cs_active (collector rt LP_COLLECTOR_CPU)"
    "cs_generation (collector rt LP_COLLECTOR_CPU) = g" using go by (auto simp: stop_refused_def split: if_splits)
  then obtain rt1 where rt1: "runtime_calls d calls rt = Some rt1" "res_cpu res = cs_cpu_profile (collector rt1 LP_COLLECTOR_CPU)"
    "res_kind res = LP_COLLECTOR_CPU"
    using stop by (auto simp: lp_runtime_stop_def host_stop_def ops calls Let_def split: option.splits)
  then show ?thesis
    using runtime_calls_count [OF ok(1) readable rt1(1)]
    by (simp add: lp_result_cpu_sample_count_def cpu_count_def lp_cpu_profile_sample_count_def split: option.splits)
qed

lemma vm_history_snoc:
  "vm_history d ops vm = Some (rs, vm1) \<Longrightarrow> vm_step d op vm1 = Some (rs1, vm2) \<Longrightarrow>
   vm_history d (ops @ [op]) vm = Some (rs @ rs1, vm2)"
  by (induction ops arbitrary: vm rs) (auto simp: bind_eq_Some_conv)

lemma vm_from_snoc:
  "vm_from d s ops = Some (rs, vm1) \<Longrightarrow> vm_step d op vm1 = Some (rs1, vm2) \<Longrightarrow> vm_from d s (ops @ [op]) = Some (rs @ rs1, vm2)"
  using vm_history_snoc by (fastforce simp: vm_from_def bind_eq_Some_conv)

lemma vm_results_reach_the_file_witness:
  "\<exists>vm res profile p.
    vm_from trivial_doubles example_setting (example_vm_ops @ [Vm_Stop example_bridge_env NULL LP_COLLECTOR_CPU 1]) = Some ([res], vm) \<and>
    lp_export_result_with_symbols example_sys example_native [] (Some res) (Some (ascii ''a/p'')) LP_EXPORT_PPROF None None example_files =
      (None, example_files(ascii ''a/p'' := Some (Regular (xe_gzfile example_sys profile) 0x1a0))) \<and>
    decode_profile profile = Some p \<and> shows_result example_native None res p"
proof -
  let ?stop = "Vm_Stop example_bridge_env NULL LP_COLLECTOR_CPU 1" let ?ops = "example_vm_ops @ [?stop]"
  obtain vm where vm: "vm_from trivial_doubles example_setting example_vm_ops = Some ([], vm)"
    "vm_world vm = recording_world ticked_timer" "stop_refused (vm_runtime vm) LP_COLLECTOR_CPU 1 = None" "cpu_count (vm_runtime vm) = 0"
    by (rule example_vm)
  have room: "lb_profiler_work_depth (bw_bridge (vm_world vm)) + 1 \<noteq> 0" by (simp add: vm(2))
  obtain calls vm' res where stop: "stop_collector example_bridge_env LP_COLLECTOR_CPU 1 (vm_world vm) = Some (calls, vm_world vm')"
    "vm_stop trivial_doubles example_bridge_env NULL LP_COLLECTOR_CPU 1 vm = Some ((LP_OK, Some res), vm')"
    "filter is_sample calls = map (recorded example_bridge_env 1) (queued_ticks (vm_world vm))"
    using stop_ticks_result [OF example_setting_ok example_ops_readable vm(1) example_env_readable vm(3) room] by blast
  have "vm_step trivial_doubles ?stop vm = Some ([res], vm')"
    using stop(2) room by (simp add: vm_step_def possible_def Let_def)
  then have run: "vm_from trivial_doubles example_setting ?ops = Some ([res], vm')" using vm_from_snoc [OF vm(1)] by simp
  have readable: "\<forall>op \<in> set ?ops. vm_op_readable op"
    using example_ops_readable example_env_readable by (auto simp: vm_op_readable_def)
  let ?rth = "with_host (bridge_host example_bridge_env (vm_world vm)) (vm_runtime vm)"
  have rth: "runtime_ok ?rth" "host_readable (rt_host_ops ?rth)" "stop_refused ?rth LP_COLLECTOR_CPU 1 = None" "cpu_count ?rth = 0"
    using vm_from_kept(1) [OF example_setting_ok example_ops_readable vm(1)] bridge_host_readable [OF example_env_readable] vm(3,4)
    by (simp_all add: vm_ok_def cpu_count_def)
  obtain rt' where rt': "lp_runtime_stop trivial_doubles ?rth NULL LP_COLLECTOR_CPU 1 = Some (rt', LP_OK, Some res)"
    using stop(2) by (auto simp: vm_stop_def Let_def bind_eq_Some_conv)
  have "lp_result_cpu_sample_count res \<le> cpu_count ?rth + length (filter is_sample calls)"
    by (rule stopped_count [OF rth(1-3) rt', where f = "the (ho_stop_collector (bridge_host example_bridge_env (vm_world vm)))"])
      (simp_all add: bridge_host_def stop(1))
  moreover have "length (filter is_sample calls) = 1" by (simp add: stop(3) vm(2) example_queue)
  ultimately have count: "lp_result_cpu_sample_count res \<le> 1" using rth(4) by simp
  have ok: "result_ok res" "res_kind res = LP_COLLECTOR_CPU"
    by (rule stop_cases [OF rth(1-3), of trivial_doubles NULL]; use rt' in simp)+
  have "frame_total res \<le> 65 * length (result_spec res)" by (rule frame_total_le [OF ok(1)])
  moreover have "length (result_spec res) \<le> 1" using count ok(2) by (simp add: result_spec_def)
  ultimately have frames: "frame_total res \<le> 16384" by simp
  have works: "sys_works example_sys (ascii ''a/p'') example_files"
    using example_sys_ok [of True] by (simp add: sys_works_def example_sys_def example_files_def ascii_def)
  have mode: "export_mode (ascii ''a/p'') example_files = 0x1a0"
    by (simp add: export_mode_def example_files_def)
  show ?thesis
    using vm_results_reach_the_file [OF example_setting_ok readable run _ _ frames works, of None example_native None] run mode
    by (auto simp: metric_ok_def)
qed

end
