(* ===== verification/Module_Runs.thy ===== *)
theory Module_Runs
  imports Module_Recording Vm_Runs
begin

text \<open>
  A run of the module: Lua code opens it, starts the memory recorder, stops it and writes the
  result. The properties of \<open>Module_Recording\<close> are applied to it.
\<close>

text \<open>Recorders are allocated at 64, results at 128.\<close>

definition example_call :: call_env where
  "example_call = \<lparr>ce_state = NULL, ce_start = example_env, ce_bridge = example_bridge_env, ce_recorder = 64, ce_result = 128,
     ce_memory = (True, True, True), ce_ticks = []\<rparr>"

definition example_write :: write_env where
  "example_write = \<lparr>we_tables = one_table, we_globals = 4096, we_loaded = Lua_Other, we_symbol_memory = (True, True, True),
     we_memory = [], we_sys = example_sys, we_native = example_native\<rparr>"

definition new_module :: lua_module where
  "new_module = \<lparr>lm_vm = \<lparr>vm_runtime = new_example_runtime, vm_seed = 5, vm_world = idle_vm_world\<rparr>,
     lm_recorders = Map.empty, lm_results = Map.empty\<rparr>"

definition working_module :: lua_module where
  "working_module = new_module\<lparr>lm_vm := (lm_vm new_module)\<lparr>vm_world := at_depth 1 idle_vm_world\<rparr>\<rparr>"

lemma example_call_fields [simp]:
  "ce_state example_call = NULL" "ce_start example_call = example_env" "ce_bridge example_call = example_bridge_env"
  "ce_recorder example_call = 64" "ce_result example_call = 128" "ce_memory example_call = (True, True, True)" "ce_ticks example_call = []"
  by (simp_all add: example_call_def)

lemma example_opened: "module_from d example_setting fs [] = Some ([], new_module, fs)"
  using example_new_vm by (simp add: module_from_def example_setting_def runtime_holder_def new_module_def)

lemma new_module_ok: "module_at 0 new_module"
  by (rule module_from_kept [OF example_setting_ok _ example_opened]) simp

lemma example_enter: "push_profiler_work_guard True new_module = Some (True, working_module)"
  by (simp add: push_profiler_work_guard_def lp_lua_bridge_begin_profiler_work_def Let_def working_module_def new_module_def
      at_depth_def upd_bridge_def idle_vm_world_def lp_lua_bridge_bind_def lp_lua_bridge_init_def)

lemma example_enter_work: "enter_work [] new_module = Some working_module"
  by (simp add: enter_work_def example_enter module_ticks_def)

lemma example_call_possible: "call_possible (Cpu_Start_Call example_call args) new_module"
  "call_possible (Memory_Start_Call example_call args) new_module"
  using example_start_possible
  by (simp_all add: call_possible_def example_enter_work)
    (simp_all add: new_module_def working_module_def start_possible_def)

lemma fresh_memory_samples: "lp_memory_profile_new d a b n s t = Some p \<Longrightarrow> lp_memory_profile_sample_count p = 0"
  by (auto simp: lp_memory_profile_new_def next_random_def Let_def zero_memory_profile_def lp_memory_profile_sample_count_def
      split: if_splits)

definition memory_count :: "lp_runtime \<Rightarrow> nat" where
  "memory_count rt = (case cs_memory_profile (collector rt LP_COLLECTOR_MEMORY) of None \<Rightarrow> 0 | Some p \<Rightarrow> lp_memory_profile_sample_count p)"

lemma example_memory_vm:
  "\<exists>vm. vm_start trivial_doubles example_env example_bridge_env NULL config (lm_vm working_module) = Some ((LP_OK, Some 1), vm) \<and>
    memory_count (vm_runtime vm) = 0"
  if "memory_config [] = Inr config"
proof -
  have c: "cfg_kind config = LP_COLLECTOR_MEMORY" "cfg_sample_bytes config = 524288" "cfg_track_free config = False"
    using that by (auto simp: memory_config_def LP_DEFAULT_SAMPLE_BYTES_def)
  obtain p where p: "lp_memory_profile_new trivial_doubles True True 524288 (5 XOR 8192 XOR 1) False = Some p"
    by (simp add: lp_memory_profile_new_def case_prod_beta)
  show ?thesis
    using p fresh_memory_samples [OF p] c
    by (simp add: vm_start_def Let_def lp_runtime_start_def with_host_def bridge_host_def working_module_def new_module_def
        new_example_runtime_def collector_def set_collector_def bump_generation_def reaches_host_def new_slot_def start_refused_def
        new_profiles_def example_env_def zero_slot_def start_collector_def memory_count_def)
qed

lemma guarded_run:
  assumes "push_profiler_work_guard True m = Some (True, m1)" and "body m1 = Some (r, m2)" and "module_at 1 m2"
  obtains m3 where "guarded [] body m = Some (r, m3)" "module_at 0 m3" "same_objects m2 m3"
  using assms leave_work_ok [OF assms(3)] by (auto simp: guarded_def module_ticks_def)

lemma example_started:
  obtains m where "module_from trivial_doubles example_setting fs [Memory_Start_Call example_call []] =
      Some ([Some (Inr (Recorder_Value 64))], m, fs)"
    "lm_recorders m 64 = Some \<lparr>lr_kind = LP_COLLECTOR_MEMORY, lr_generation = 1, lr_active = True, lr_result = Some 128\<rparr>"
    "memory_count (vm_runtime (lm_vm m)) = 0"
proof -
  have "\<exists>config. memory_config [] = Inr config" by (simp add: memory_config_def Let_def)
  then obtain config where config: "memory_config [] = Inr config" by blast
  obtain vm where vm: "vm_start trivial_doubles example_env example_bridge_env NULL config (lm_vm working_module) = Some ((LP_OK, Some 1), vm)"
    "memory_count (vm_runtime vm) = 0"
    using example_memory_vm [OF config] by blast
  have kind: "cfg_kind config = LP_COLLECTOR_MEMORY" using memory_config_Inr [OF config] by simp
  let ?r = "\<lparr>lr_kind = LP_COLLECTOR_MEMORY, lr_generation = 1, lr_active = True, lr_result = Some 128\<rparr>"
  let ?m2 = "working_module\<lparr>lm_vm := vm, lm_recorders := (lm_recorders working_module)(64 \<mapsto> ?r),
    lm_results := (lm_results working_module)(128 \<mapsto> zero_result)\<rparr>"
  have run: "start_recorder trivial_doubles example_call config working_module = Some (Inr (Recorder_Value 64), ?m2)"
    using vm(1) kind by (simp add: start_recorder_def Let_def)
  have w: "module_at 1 working_module" using enter_work_ok [OF new_module_ok, of "[]"] example_enter_work by auto
  have "start_possible example_bridge_env (vm_world (lm_vm working_module))"
    "lm_recorders working_module 64 = None" "lm_results working_module 128 = None"
    using example_start_possible by (simp_all add: working_module_def new_module_def start_possible_def)
  then have m2: "module_at 1 ?m2"
    using start_recorder_ok [OF w, of example_call trivial_doubles config] run example_env_readable by auto
  obtain m where m: "guarded [] (\<lambda>m. case memory_config [] of Inl e \<Rightarrow> Some (Inl e, m)
      | Inr config \<Rightarrow> start_recorder trivial_doubles example_call config m) new_module = Some (Inr (Recorder_Value 64), m)"
    "module_at 0 m" "same_objects ?m2 m"
    by (rule guarded_run [OF example_enter _ m2, of "\<lambda>m. case memory_config [] of Inl e \<Rightarrow> Some (Inl e, m)
      | Inr config \<Rightarrow> start_recorder trivial_doubles example_call config m" "Inr (Recorder_Value 64)"])
      (simp add: config run, rule that)
  have "module_step trivial_doubles (Memory_Start_Call example_call []) (new_module, fs) = Some (Some (Inr (Recorder_Value 64)), m, fs)"
    using m(1) example_call_possible(2) by (simp add: module_step_def memory_start_def)
  then have "module_from trivial_doubles example_setting fs [Memory_Start_Call example_call []] = Some ([Some (Inr (Recorder_Value 64))], m, fs)"
    using example_opened [of trivial_doubles fs] by (simp add: module_from_def bind_eq_Some_conv) force
  then show thesis
    using that m(3) vm(2) by (simp add: same_objects_def)
qed

lemma stopped_memory_count:
  assumes "vm_ok vm" and "valid_kind LP_COLLECTOR_MEMORY" and "recording vm LP_COLLECTOR_MEMORY = Some g"
    and stop: "vm_stop d env L LP_COLLECTOR_MEMORY g vm = Some ((LP_OK, Some res), vm')"
  shows "lp_result_memory_sample_count res = memory_count (vm_runtime vm)"
proof -
  have g: "lb_memory_generation (bw_bridge (vm_world vm)) = g" "bridge_ok (vm_world vm)"
    using recording_bridge [OF assms(1,2)] assms(1,3) by (auto simp: Let_def vm_ok_def split: if_splits)
  let ?rt = "with_host (bridge_host env (vm_world vm)) (vm_runtime vm)"
  obtain w' where "stop_collector env LP_COLLECTOR_MEMORY g (vm_world vm) = Some ([], w')" using stop_memory [OF g(2,1)] by blast
  then have "host_stop d L' LP_COLLECTOR_MEMORY g ?rt = Some ?rt" for L'
    by (simp add: host_stop_def bridge_host_def with_host_def)
  then have "res_kind res = LP_COLLECTOR_MEMORY"
    "res_memory res = map_option lp_memory_profile_finish (cs_memory_profile (collector (vm_runtime vm) LP_COLLECTOR_MEMORY))"
    using stop by (auto simp: vm_stop_def lp_runtime_stop_def Let_def bind_eq_Some_conv split: if_splits)
  then show ?thesis
    by (simp add: memory_count_def lp_result_memory_sample_count_def lp_memory_profile_sample_count_def lp_memory_profile_finish_def
        split: option.split)
qed

definition example_module_ops :: "module_op list" where
  "example_module_ops = [Memory_Start_Call example_call [], Recorder_Stop_Call example_call (Arg_Userdata 64)]"

lemma example_module_readable: "\<forall>op \<in> set example_module_ops. module_op_readable op"
  "module_op_readable (Memory_Start_Call example_call [])"
  by (simp_all add: example_module_ops_def module_op_readable_def call_of_def example_env_readable)

lemma example_stopped:
  obtains m res where "module_from trivial_doubles example_setting fs example_module_ops =
      Some ([Some (Inr (Recorder_Value 64)), Some (Inr (Result_Value 128))], m, fs)"
    "check_result (Arg_Userdata 128) m = Some (128, res)" "res_kind res = LP_COLLECTOR_MEMORY" "res_memory res \<noteq> None"
    "frame_total res \<le> 16384" "result_memory_field f res = []"
proof -
  obtain m where m: "module_from trivial_doubles example_setting fs [Memory_Start_Call example_call []] =
      Some ([Some (Inr (Recorder_Value 64))], m, fs)"
    "lm_recorders m 64 = Some \<lparr>lr_kind = LP_COLLECTOR_MEMORY, lr_generation = 1, lr_active = True, lr_result = Some 128\<rparr>" (is "_ = Some ?r")
    "memory_count (vm_runtime (lm_vm m)) = 0"
    by (rule example_started)
  have ok: "module_at 0 m" by (rule module_from_kept [OF example_setting_ok _ m(1)]) (simp add: example_module_readable)
  obtain m1 m2 where enter: "push_profiler_work_guard True m = Some (True, m1)" "module_ticks [] m1 = Some m2" "module_at 1 m2" "same_objects m m2"
    using enter_work_ok [OF ok, of "[]"] by blast
  then have m12: "m1 = m2" by (simp add: module_ticks_def)
  have r2: "lm_recorders m2 64 = Some ?r" "memory_count (vm_runtime (lm_vm m2)) = 0"
    using enter(4) m(2,3) by (simp_all add: same_objects_def)
  obtain q res vm where stop: "lr_result ?r = Some q" "lm_results m2 q \<noteq> None"
    "vm_stop trivial_doubles example_bridge_env NULL (lr_kind ?r) (lr_generation ?r) (lm_vm m2) = Some ((LP_OK, Some res), vm)"
    "module_at 1 (m2\<lparr>lm_vm := vm, lm_results := (lm_results m2)(q \<mapsto> res),
       lm_recorders := (lm_recorders m2)(64 \<mapsto> ?r\<lparr>lr_active := False, lr_result := None\<rparr>)\<rparr>)"
    "result_ok res" "res_kind res = lr_kind ?r"
    by (rule active_recorder_stops [OF enter(3) _ example_env_readable r2(1), of trivial_doubles NULL]) (simp, simp, rule that)
  let ?m = "m2\<lparr>lm_vm := vm, lm_results := (lm_results m2)(128 \<mapsto> res),
       lm_recorders := (lm_recorders m2)(64 \<mapsto> ?r\<lparr>lr_active := False, lr_result := None\<rparr>)\<rparr>"
  have q: "q = 128" using stop(1) by simp
  have run: "stop_body trivial_doubles example_call (Arg_Userdata 64) m1 = Some (Inr (Result_Value 128), ?m)"
    using stop(2,3) q r2(1) by (simp add: m12 stop_body_def check_recorder_def Let_def)
  have at: "module_at 1 ?m" using stop(4) unfolding q .
  obtain m3 where m3: "guarded [] (stop_body trivial_doubles example_call (Arg_Userdata 64)) m = Some (Inr (Result_Value 128), m3)"
    "same_objects ?m m3"
    by (rule guarded_run [where body = "stop_body trivial_doubles example_call (Arg_Userdata 64)", OF enter(1) run at])
  have results: "lm_results m3 128 = Some res" using m3(2) by (simp add: same_objects_def)
  have vm2: "vm_ok (lm_vm m2)" "recording (lm_vm m2) LP_COLLECTOR_MEMORY = Some 1"
    using enter(3) active_not_refused(3) [OF enter(3) r2(1)] by (simp_all add: module_at_def)
  have count: "lp_result_memory_sample_count res = 0"
    using stopped_memory_count [OF vm2(1) _ vm2(2)] stop(3) r2(2) by (simp add: valid_kind_iff)
  have kind: "res_kind res = LP_COLLECTOR_MEMORY" using stop(6) by simp
  have step: "module_step trivial_doubles (Recorder_Stop_Call example_call (Arg_Userdata 64)) (m, fs) = Some (Some (Inr (Result_Value 128)), m3, fs)"
    using m3(1) by (simp add: module_step_def recorder_stop_def call_possible_def Let_def)
  have "module_from trivial_doubles example_setting fs example_module_ops =
      Some ([Some (Inr (Recorder_Value 64)), Some (Inr (Result_Value 128))], m3, fs)"
    using m(1) step by (auto simp: module_from_def example_module_ops_def bind_eq_Some_conv)
  moreover have "frame_total res \<le> 16384" using count kind by (simp add: frame_total_def result_spec_def)
  moreover have "result_memory_field f res = []" using count kind by (simp add: result_memory_field_def)
  moreover have "res_memory res \<noteq> None" using stop(5) kind by (auto simp: result_ok_def)
  ultimately show thesis using that results kind by (simp add: check_result_def)
qed

section \<open>Witnesses\<close>

lemma recorders_own_their_recordings_witness:
  "\<exists>outs m fs'. module_from trivial_doubles example_setting example_files example_module_ops = Some (outs, m, fs') \<and>
    lb_profiler_work_depth (bw_bridge (vm_world (lm_vm m))) = 0"
  using recorders_own_their_recordings [OF example_setting_ok example_module_readable(1), of trivial_doubles example_files] by blast

lemma active_recorder_gets_its_result_witness:
  "\<exists>m q m1. module_from trivial_doubles example_setting example_files [Memory_Start_Call example_call []] =
      Some ([Some (Inr (Recorder_Value 64))], m, example_files) \<and>
    recorder_stop trivial_doubles example_call (Arg_Userdata 64) m = Some (Inr (Result_Value q), m1) \<and>
    recording (lm_vm m1) LP_COLLECTOR_MEMORY = None"
proof -
  obtain m where m: "module_from trivial_doubles example_setting example_files [Memory_Start_Call example_call []] =
      Some ([Some (Inr (Recorder_Value 64))], m, example_files)"
    "lm_recorders m 64 = Some \<lparr>lr_kind = LP_COLLECTOR_MEMORY, lr_generation = 1, lr_active = True, lr_result = Some 128\<rparr>" (is "_ = Some ?r")
    by (rule example_started)
  then have "check_recorder (Arg_Userdata 64) m = Some (64, ?r)" by (simp add: check_recorder_def)
  from active_recorder_gets_its_result [OF example_setting_ok _ m(1) _ this, of example_call] show ?thesis
    using m(1) example_env_readable example_module_readable(2) by fastforce
qed

lemma dropped_recorder_stops_witness:
  "\<exists>m m1. module_from trivial_doubles example_setting example_files [Memory_Start_Call example_call []] =
      Some ([Some (Inr (Recorder_Value 64))], m, example_files) \<and>
    recorder_gc trivial_doubles example_call (Arg_Userdata 64) m = Some (Inr No_Value, m1) \<and> \<not> hook_set hk_allocation (lm_vm m1)"
proof -
  obtain m where m: "module_from trivial_doubles example_setting example_files [Memory_Start_Call example_call []] =
      Some ([Some (Inr (Recorder_Value 64))], m, example_files)"
    "lm_recorders m 64 = Some \<lparr>lr_kind = LP_COLLECTOR_MEMORY, lr_generation = 1, lr_active = True, lr_result = Some 128\<rparr>" (is "_ = Some ?r")
    by (rule example_started)
  then have "check_recorder (Arg_Userdata 64) m = Some (64, ?r)" by (simp add: check_recorder_def)
  from dropped_recorder_stops [OF example_setting_ok _ m(1) _ this, of example_call] show ?thesis
    using m(1) example_env_readable example_module_readable(2) by fastforce
qed

lemma failed_start_call_changes_nothing_witness:
  "\<exists>out m1. cpu_start trivial_doubles example_call [Arg_Other] new_module = Some (out, m1) \<and>
    lb_profiler_work_depth (bw_bridge (vm_world (lm_vm m1))) = 0"
  using failed_start_call_changes_nothing [OF example_setting_ok _ example_opened [of trivial_doubles example_files] _
      example_call_possible(1) [of "[Arg_Other]"]]
    example_env_readable by auto

lemma stats_agree_with_the_samples_witness:
  "\<exists>m t m1. module_from trivial_doubles example_setting example_files example_module_ops =
      Some ([Some (Inr (Recorder_Value 64)), Some (Inr (Result_Value 128))], m, example_files) \<and>
    result_stats example_call (Arg_Userdata 128) m = Some (Inr (Table_Value t), m1) \<and> t ''samples'' = Some (Stat_Integer 0) \<and>
    t ''kind'' = Some (Stat_String ''memory'') \<and> t ''inuse_space'' = Some (Stat_Integer 0)"
proof -
  obtain m res where m: "module_from trivial_doubles example_setting example_files example_module_ops =
      Some ([Some (Inr (Recorder_Value 64)), Some (Inr (Result_Value 128))], m, example_files)"
    "check_result (Arg_Userdata 128) m = Some (128, res)" "res_kind res = LP_COLLECTOR_MEMORY" "res_memory res \<noteq> None"
    "result_memory_field msv_sample_count res = []"
    by (rule example_stopped)
  have none: "result_memory_field f res = []" for f using m(5) by (simp add: result_memory_field_def)
  from stats_agree_with_the_samples [OF example_setting_ok example_module_readable(1) m(1,2), of example_call] m(3,4)
  obtain t m1 where "result_stats example_call (Arg_Userdata 128) m = Some (Inr (Table_Value t), m1)"
    "t ''samples'' = expected_memory_stats res ''samples''" "t ''kind'' = expected_memory_stats res ''kind''"
    "t ''inuse_space'' = expected_memory_stats res ''inuse_space''"
    by (auto simp: none)
  then show ?thesis using m(1) by (simp add: expected_memory_stats_def Let_def none lua_total_def)
qed

lemma written_file_shows_the_recording_witness:
  "\<exists>m res profile p m1. module_from trivial_doubles example_setting example_files example_module_ops =
      Some ([Some (Inr (Recorder_Value 64)), Some (Inr (Result_Value 128))], m, example_files) \<and>
    result_write example_call example_write (Arg_Userdata 128) [Arg_String (ascii ''a/p'')] example_files m =
      Some ((Inr True_Value, example_files(ascii ''a/p'' := Some (Regular (xe_gzfile example_sys profile) 0x1a0))), m1) \<and>
    decode_profile profile = Some p \<and> shows_result example_native (lua_names example_write) res p"
proof -
  obtain m res where m: "module_from trivial_doubles example_setting example_files example_module_ops =
      Some ([Some (Inr (Recorder_Value 64)), Some (Inr (Result_Value 128))], m, example_files)"
    "check_result (Arg_Userdata 128) m = Some (128, res)" "res_memory res \<noteq> None" "frame_total res \<le> 16384"
    by (rule example_stopped)
  have args: "write_options [Arg_String (ascii ''a/p'')] = Inr (ascii ''a/p'', LP_EXPORT_PPROF, None)"
    by (simp add: write_options_def check_c_string_def ascii_def)
  have works: "sys_works (we_sys example_write) (ascii ''a/p'') example_files"
    using example_sys_ok [of True] by (simp add: sys_works_def example_sys_def example_files_def ascii_def example_write_def)
  have mode: "export_mode (ascii ''a/p'') example_files = 0x1a0" by (simp add: export_mode_def example_files_def)
  from written_file_shows_the_recording [OF example_setting_ok example_module_readable(1) m(1,2) _ args _ m(4) works, of example_call]
  show ?thesis using m(1,3) mode by (auto simp: metric_ok_def example_write_def)
qed

end
