(* ===== verification/Module_Open.thy ===== *)
theory Module_Open
  imports Module_Runs
begin

text \<open>
  The opening of the module, \<open>luaopen_luaprof\<close> of \<open>src/lua_module.c\<close>: the metatables, the holder of
  the runtime with its guard, and the table of functions, as far as they are kept in the registry
  of the Lua state. The module may be opened again in the same state, and each call of the Lua API
  that allocates may raise an error in between.
\<close>

section \<open>The registry\<close>

datatype module_function =
    Cpu_Start | Memory_Start | Recorder_Stop | Recorder_Gc | Recorder_Tostring
  | Result_Stats | Result_Write | Result_Gc | Result_Tostring | Runtime_Gc | Profiler_Work_Guard_Close

text \<open>A field of a metatable: a function without or with its two upvalues, the metatable itself, or the name of the type.\<close>

datatype meta_field =
    Plain_Function module_function
  | Closure module_function pointer pointer
  | Own_Table
  | Type_Name string

text \<open>\<open>rg_holder\<close>: the holder and its user value, the guard; \<open>rg_module\<close>: what the holder holds.\<close>

record lua_registry =
  rg_holder :: "(pointer \<times> pointer) option"
  rg_module :: "lua_module option"
  rg_metatables :: "string \<Rightarrow> (string \<Rightarrow> meta_field option) option"

definition LP_RUNTIME_METATABLE :: string where "LP_RUNTIME_METATABLE = ''luaprof.runtime''"

definition LP_WORK_GUARD_METATABLE :: string where "LP_WORK_GUARD_METATABLE = ''luaprof.work_guard''"

definition LP_RECORDER_METATABLE :: string where "LP_RECORDER_METATABLE = ''luaprof.recorder''"

definition LP_RESULT_METATABLE :: string where "LP_RESULT_METATABLE = ''luaprof.result''"

text \<open>Updates of the registry, each made after the allocations it needs.\<close>

datatype open_step = New_Metatable string | Set_Field string string meta_field

primrec do_step :: "open_step \<Rightarrow> lua_registry \<Rightarrow> lua_registry" where
  "do_step (New_Metatable name) reg =
     reg\<lparr>rg_metatables := (rg_metatables reg)(name \<mapsto> [''__name'' \<mapsto> Type_Name name])\<rparr>"
| "do_step (Set_Field name key v) reg =
     reg\<lparr>rg_metatables := (rg_metatables reg)(name := map_option (\<lambda>t. t(key \<mapsto> v)) (rg_metatables reg name))\<rparr>"

text \<open>\<open>n\<close>: how many updates there is memory for; \<open>None\<close>: an error was raised, and the rest is left out.\<close>

fun run_steps :: "open_step list \<Rightarrow> nat \<Rightarrow> lua_registry \<Rightarrow> nat option \<times> lua_registry" where
  "run_steps [] n reg = (Some n, reg)"
| "run_steps (s # ss) 0 reg = (None, reg)"
| "run_steps (s # ss) (Suc n) reg = run_steps ss n (do_step s reg)"

text \<open>\<open>luaL_newmetatable\<close> creates a metatable that is not there yet; only then are its fields set.\<close>

definition metatable_steps :: "string \<Rightarrow> (string \<times> meta_field) list \<Rightarrow> lua_registry \<Rightarrow> open_step list" where
  "metatable_steps name entries reg =
     (if rg_metatables reg name \<noteq> None then []
      else New_Metatable name # map (\<lambda>(key, v). Set_Field name key v) entries)"

section \<open>Opening\<close>

definition create_runtime_metatables :: "nat \<Rightarrow> lua_registry \<Rightarrow> nat option \<times> lua_registry" where
  "create_runtime_metatables n reg =
     (case run_steps (metatable_steps LP_RUNTIME_METATABLE [(''__gc'', Plain_Function Runtime_Gc)] reg) n reg of
        (None, reg1) \<Rightarrow> (None, reg1)
      | (Some n1, reg1) \<Rightarrow>
          run_steps (metatable_steps LP_WORK_GUARD_METATABLE [(''__close'', Plain_Function Profiler_Work_Guard_Close)] reg1) n1 reg1)"

definition recorder_fields :: "pointer \<Rightarrow> pointer \<Rightarrow> (string \<times> meta_field) list" where
  "recorder_fields holder guard =
     [(''stop'', Closure Recorder_Stop holder guard), (''__index'', Own_Table),
      (''__gc'', Closure Recorder_Gc holder guard), (''__close'', Closure Recorder_Gc holder guard),
      (''__tostring'', Closure Recorder_Tostring holder guard)]"

definition result_fields :: "pointer \<Rightarrow> pointer \<Rightarrow> (string \<times> meta_field) list" where
  "result_fields holder guard =
     [(''stats'', Closure Result_Stats holder guard), (''write'', Closure Result_Write holder guard), (''__index'', Own_Table),
      (''__gc'', Closure Result_Gc holder guard), (''__tostring'', Closure Result_Tostring holder guard)]"

definition create_value_metatables :: "pointer \<Rightarrow> pointer \<Rightarrow> nat \<Rightarrow> lua_registry \<Rightarrow> nat option \<times> lua_registry" where
  "create_value_metatables holder guard n reg =
     (case run_steps (metatable_steps LP_RECORDER_METATABLE (recorder_fields holder guard) reg) n reg of
        (None, reg1) \<Rightarrow> (None, reg1)
      | (Some n1, reg1) \<Rightarrow>
          run_steps (metatable_steps LP_RESULT_METATABLE (result_fields holder guard) reg1) n1 reg1)"

text \<open>
  What the environment decides in an opening: the process around the state, the addresses of a new
  holder and guard. The holder, the guard and the entry of the registry are allocated; a failure
  before the entry leaves the registry as it was.
\<close>

record open_env =
  oe_setting :: vm_setting
  oe_host :: skynet_host
  oe_timers :: timer_world
  oe_holder :: pointer
  oe_guard :: pointer

definition open_holder :: "open_env \<Rightarrow> nat \<Rightarrow> lua_registry \<Rightarrow> (pointer \<times> pointer \<times> nat) option \<times> lua_registry" where
  "open_holder env n reg =
     (case rg_holder reg of
        Some (holder, guard) \<Rightarrow> (Some (holder, guard, n), reg)
      | None \<Rightarrow>
          (case runtime_holder (oe_setting env) (oe_host env) (oe_timers env) of
             None \<Rightarrow> (None, reg)
           | Some m \<Rightarrow>
               if n < 3 then (None, reg)
               else (Some (oe_holder env, oe_guard env, n - 3),
                     reg\<lparr>rg_holder := Some (oe_holder env, oe_guard env), rg_module := Some m\<rparr>)))"

text \<open>The table that is returned, and those of the two kinds of recorder.\<close>

record module_table =
  mt_version :: string
  mt_cpu :: "string \<Rightarrow> meta_field option"
  mt_memory :: "string \<Rightarrow> meta_field option"

definition module_functions :: "pointer \<Rightarrow> pointer \<Rightarrow> module_table" where
  "module_functions holder guard =
     \<lparr>mt_version = ''0.1.0'', mt_cpu = [''start'' \<mapsto> Closure Cpu_Start holder guard],
      mt_memory = [''start'' \<mapsto> Closure Memory_Start holder guard]\<rparr>"

text \<open>Three tables with five entries, and two closures.\<close>

definition luaopen_luaprof :: "open_env \<Rightarrow> nat \<Rightarrow> lua_registry \<Rightarrow> (module_error + module_table) \<times> lua_registry" where
  "luaopen_luaprof env n reg =
     (case create_runtime_metatables n reg of
        (None, reg1) \<Rightarrow> (Inl Memory_Error, reg1)
      | (Some n1, reg1) \<Rightarrow>
          (case open_holder env n1 reg1 of
             (None, reg2) \<Rightarrow> (Inl Memory_Error, reg2)
           | (Some (holder, guard, n2), reg2) \<Rightarrow>
               (case create_value_metatables holder guard n2 reg2 of
                  (None, reg3) \<Rightarrow> (Inl Memory_Error, reg3)
                | (Some n3, reg3) \<Rightarrow>
                    if n3 < 10 then (Inl Memory_Error, reg3) else (Inr (module_functions holder guard), reg3))))"

section \<open>What an opening leaves\<close>

definition metatable :: "string \<Rightarrow> (string \<times> meta_field) list \<Rightarrow> string \<Rightarrow> meta_field option" where
  "metatable name entries = fold (\<lambda>(key, v) t. t(key \<mapsto> v)) entries [''__name'' \<mapsto> Type_Name name]"

text \<open>The metatables that are complete.\<close>

definition complete :: "pointer \<Rightarrow> pointer \<Rightarrow> lua_registry \<Rightarrow> bool" where
  "complete holder guard reg \<longleftrightarrow>
     rg_metatables reg LP_RUNTIME_METATABLE = Some (metatable LP_RUNTIME_METATABLE [(''__gc'', Plain_Function Runtime_Gc)]) \<and>
     rg_metatables reg LP_WORK_GUARD_METATABLE =
       Some (metatable LP_WORK_GUARD_METATABLE [(''__close'', Plain_Function Profiler_Work_Guard_Close)]) \<and>
     rg_metatables reg LP_RECORDER_METATABLE = Some (metatable LP_RECORDER_METATABLE (recorder_fields holder guard)) \<and>
     rg_metatables reg LP_RESULT_METATABLE = Some (metatable LP_RESULT_METATABLE (result_fields holder guard))"

lemma run_steps_fold:
  "run_steps ss n reg =
     (if length ss \<le> n then (Some (n - length ss), fold do_step ss reg) else (None, fold do_step (take n ss) reg))"
  by (induction ss n reg rule: run_steps.induct) simp_all

lemma set_fields:
  "rg_metatables reg name = Some t \<Longrightarrow>
    fold do_step (map (\<lambda>(key, v). Set_Field name key v) entries) reg =
      reg\<lparr>rg_metatables := (rg_metatables reg)(name \<mapsto> fold (\<lambda>(key, v) t. t(key \<mapsto> v)) entries t)\<rparr>"
proof (induction entries arbitrary: reg t)
  case Nil
  then show ?case by (simp add: fun_upd_idem)
next
  case (Cons field entries)
  then show ?case by (cases field) (simp add: fun_upd_def cong: if_cong)
qed

lemma new_metatable_done:
  assumes "run_steps (metatable_steps name entries reg) n reg = (Some n', reg')" and "rg_metatables reg name = None"
  shows "reg' = reg\<lparr>rg_metatables := (rg_metatables reg)(name \<mapsto> metatable name entries)\<rparr>"
  using assms by (simp add: run_steps_fold metatable_steps_def set_fields metatable_def split: if_splits)

lemma metatable_known: "rg_metatables reg name \<noteq> None \<Longrightarrow> run_steps (metatable_steps name entries reg) n reg = (Some n, reg)"
  by (simp add: metatable_steps_def)

lemmas metatable_names = LP_RUNTIME_METATABLE_def LP_WORK_GUARD_METATABLE_def LP_RECORDER_METATABLE_def LP_RESULT_METATABLE_def

lemma opened_metatables:
  assumes "luaopen_luaprof env n reg = (Inr t, reg1)" and "rg_holder reg = None" and "rg_metatables reg = Map.empty"
  shows "rg_holder reg1 = Some (oe_holder env, oe_guard env) \<and> rg_module reg1 \<noteq> None \<and>
    rg_module reg1 = runtime_holder (oe_setting env) (oe_host env) (oe_timers env) \<and>
    t = module_functions (oe_holder env) (oe_guard env) \<and>
    rg_metatables reg1 = [
      LP_RUNTIME_METATABLE \<mapsto> metatable LP_RUNTIME_METATABLE [(''__gc'', Plain_Function Runtime_Gc)],
      LP_WORK_GUARD_METATABLE \<mapsto> metatable LP_WORK_GUARD_METATABLE [(''__close'', Plain_Function Profiler_Work_Guard_Close)],
      LP_RECORDER_METATABLE \<mapsto> metatable LP_RECORDER_METATABLE (recorder_fields (oe_holder env) (oe_guard env)),
      LP_RESULT_METATABLE \<mapsto> metatable LP_RESULT_METATABLE (result_fields (oe_holder env) (oe_guard env))]"
  using assms
  by (auto simp: luaopen_luaprof_def create_runtime_metatables_def create_value_metatables_def open_holder_def
      metatable_names dest!: new_metatable_done split: prod.splits option.splits if_splits)

lemma reopened:
  assumes "complete h g reg" and "rg_holder reg = Some (h', g')"
  shows "luaopen_luaprof env n reg = (if n < 10 then Inl Memory_Error else Inr (module_functions h' g'), reg)"
  using assms
  by (simp add: luaopen_luaprof_def create_runtime_metatables_def create_value_metatables_def open_holder_def
      metatable_known complete_def)

lemma complete_fields:
  assumes "complete h g reg"
  shows "\<exists>mt. rg_metatables reg LP_RECORDER_METATABLE = Some mt \<and> mt ''stop'' = Some (Closure Recorder_Stop h g) \<and>
      mt ''__gc'' = Some (Closure Recorder_Gc h g) \<and> mt ''__close'' = Some (Closure Recorder_Gc h g) \<and> mt ''__index'' = Some Own_Table"
    "\<exists>mt. rg_metatables reg LP_RESULT_METATABLE = Some mt \<and> mt ''stats'' = Some (Closure Result_Stats h g) \<and>
      mt ''write'' = Some (Closure Result_Write h g) \<and> mt ''__gc'' = Some (Closure Result_Gc h g) \<and> mt ''__index'' = Some Own_Table"
  using assms by (simp_all add: complete_def metatable_def recorder_fields_def result_fields_def)

text \<open>
  C16: a first opening that succeeds is complete and final. In a state that no opening has touched,
  neither one that succeeded nor one that failed, recorders get their methods and, as \<open>__gc\<close> and as \<open>__close\<close>, the function that stops them,
  results theirs; every function is a closure over the one holder, which holds the new runtime,
  and its guard. Opening the module again, in whatever process, changes nothing, and returns the
  same functions or lacks the memory for the tables it returns.
\<close>

theorem opened_module_is_complete:
  assumes "luaopen_luaprof env n reg = (Inr t, reg1)" and "rg_holder reg = None" and "rg_metatables reg = Map.empty"
  shows "\<exists>h g m. rg_holder reg1 = Some (h, g) \<and> rg_module reg1 = Some m \<and>
    runtime_holder (oe_setting env) (oe_host env) (oe_timers env) = Some m \<and>
    mt_cpu t ''start'' = Some (Closure Cpu_Start h g) \<and> mt_memory t ''start'' = Some (Closure Memory_Start h g) \<and>
    (\<exists>mt. rg_metatables reg1 LP_RECORDER_METATABLE = Some mt \<and> mt ''stop'' = Some (Closure Recorder_Stop h g) \<and>
      mt ''__gc'' = Some (Closure Recorder_Gc h g) \<and> mt ''__close'' = Some (Closure Recorder_Gc h g) \<and> mt ''__index'' = Some Own_Table) \<and>
    (\<exists>mt. rg_metatables reg1 LP_RESULT_METATABLE = Some mt \<and> mt ''stats'' = Some (Closure Result_Stats h g) \<and>
      mt ''write'' = Some (Closure Result_Write h g) \<and> mt ''__gc'' = Some (Closure Result_Gc h g) \<and> mt ''__index'' = Some Own_Table) \<and>
    (\<forall>name mt key f h' g'. rg_metatables reg1 name = Some mt \<and> mt key = Some (Closure f h' g') \<longrightarrow> h' = h \<and> g' = g) \<and>
    (\<forall>env' n'. luaopen_luaprof env' n' reg1 = (if n' < 10 then Inl Memory_Error else Inr t, reg1))"
proof -
  let ?h = "oe_holder env" and ?g = "oe_guard env"
  note opened = opened_metatables [OF assms]
  have complete: "complete ?h ?g reg1" using opened by (simp add: complete_def metatable_names)
  have again: "luaopen_luaprof env' n' reg1 = (if n' < 10 then Inl Memory_Error else Inr t, reg1)" for env' n'
    using reopened [OF complete] opened by simp
  have closures: "h' = ?h \<and> g' = ?g" if "rg_metatables reg1 name = Some mt" "mt key = Some (Closure f h' g')" for name mt key f h' g'
    using that opened by (auto simp: metatable_def recorder_fields_def result_fields_def split: if_splits)
  obtain m where m: "rg_module reg1 = Some m" using opened by blast
  have holder: "rg_holder reg1 = Some (?h, ?g)" "runtime_holder (oe_setting env) (oe_host env) (oe_timers env) = Some m"
    using opened m by simp_all
  have starts: "mt_cpu t ''start'' = Some (Closure Cpu_Start ?h ?g)" "mt_memory t ''start'' = Some (Closure Memory_Start ?h ?g)"
    using opened by (simp_all add: module_functions_def)
  show ?thesis
    by (rule exI [of _ ?h], rule exI [of _ ?g], rule exI [of _ m])
      (intro conjI; (rule holder m starts complete_fields [OF complete] | use closures again in blast))
qed

section \<open>An opening\<close>

definition empty_registry :: lua_registry where
  "empty_registry = \<lparr>rg_holder = None, rg_module = None, rg_metatables = Map.empty\<rparr>"

definition example_open :: open_env where
  "example_open = \<lparr>oe_setting = example_setting, oe_host = initial_host, oe_timers = initial_world, oe_holder = 256, oe_guard = 320\<rparr>"

lemma example_opens: "runtime_holder example_setting initial_host initial_world = Some new_module"
  using example_new_vm by (simp add: example_setting_def runtime_holder_def new_module_def)

lemmas run_open = luaopen_luaprof_def create_runtime_metatables_def create_value_metatables_def open_holder_def
  metatable_steps_def metatable_names recorder_fields_def result_fields_def empty_registry_def example_open_def example_opens
  run_steps_fold

lemma example_opening: "\<exists>reg1. luaopen_luaprof example_open 40 empty_registry = (Inr (module_functions 256 320), reg1)"
  by (simp add: run_open)

theorem opened_module_is_complete_witness:
  "\<exists>reg1. luaopen_luaprof example_open 40 empty_registry = (Inr (module_functions 256 320), reg1) \<and>
    luaopen_luaprof example_open 10 reg1 = (Inr (module_functions 256 320), reg1)"
proof -
  obtain reg1 where reg1: "luaopen_luaprof example_open 40 empty_registry = (Inr (module_functions 256 320), reg1)"
    using example_opening by blast
  have "rg_holder empty_registry = None" "rg_metatables empty_registry = Map.empty" by (simp_all add: empty_registry_def)
  from opened_module_is_complete [OF reg1 this]
  have again: "\<forall>env n. luaopen_luaprof env n reg1 = (if n < 10 then Inl Memory_Error else Inr (module_functions 256 320), reg1)"
    by blast
  show ?thesis by (rule exI [of _ reg1], rule conjI, rule reg1) (use again [THEN spec, THEN spec, of example_open 10] in simp)
qed

text \<open>
  An opening that fails halfway is not made good by a later one: \<open>luaL_newmetatable\<close> finds the
  metatable and its fields are not set. Here the memory lasts for the method \<open>stop\<close> only; the module
  opened afterwards makes recorders without a finalizer, which record on when they are dropped.
\<close>

definition halfway :: lua_registry where
  "halfway = \<lparr>rg_holder = Some (256, 320), rg_module = Some new_module, rg_metatables = [
     LP_RUNTIME_METATABLE \<mapsto> metatable LP_RUNTIME_METATABLE [(''__gc'', Plain_Function Runtime_Gc)],
     LP_WORK_GUARD_METATABLE \<mapsto> metatable LP_WORK_GUARD_METATABLE [(''__close'', Plain_Function Profiler_Work_Guard_Close)],
     LP_RECORDER_METATABLE \<mapsto> metatable LP_RECORDER_METATABLE [(''stop'', Closure Recorder_Stop 256 320)]]\<rparr>"

lemma opening_fails: "luaopen_luaprof example_open 9 empty_registry = (Inl Memory_Error, halfway)"
  by (simp add: run_open halfway_def metatable_def)

lemma opening_succeeds:
  "luaopen_luaprof example_open 40 halfway =
     (Inr (module_functions 256 320), halfway\<lparr>rg_metatables := (rg_metatables halfway)
        (LP_RESULT_METATABLE \<mapsto> metatable LP_RESULT_METATABLE (result_fields 256 320))\<rparr>)"
proof -
  have known: "rg_metatables halfway LP_RUNTIME_METATABLE \<noteq> None" "rg_metatables halfway LP_WORK_GUARD_METATABLE \<noteq> None"
    "rg_metatables halfway LP_RECORDER_METATABLE \<noteq> None" and holder: "rg_holder halfway = Some (256, 320)"
    by (simp_all add: halfway_def metatable_names)
  have new: "rg_metatables halfway LP_RESULT_METATABLE = None" by (simp add: halfway_def metatable_names)
  have "run_steps (metatable_steps LP_RESULT_METATABLE (result_fields 256 320) halfway) 40 halfway =
      (Some 34, halfway\<lparr>rg_metatables := (rg_metatables halfway)(LP_RESULT_METATABLE \<mapsto> metatable LP_RESULT_METATABLE (result_fields 256 320))\<rparr>)"
    using new by (simp add: run_steps_fold metatable_steps_def set_fields metatable_def) (simp add: result_fields_def)
  then show ?thesis
    by (simp add: holder metatable_known [OF known(1)] metatable_known [OF known(2)] metatable_known [OF known(3)] luaopen_luaprof_def create_runtime_metatables_def create_value_metatables_def open_holder_def)
qed

lemma failed_opening_is_not_repaired:
  "\<exists>reg1 t reg2 mt. luaopen_luaprof example_open 9 empty_registry = (Inl Memory_Error, reg1) \<and>
    luaopen_luaprof example_open 40 reg1 = (Inr t, reg2) \<and>
    rg_metatables reg2 LP_RECORDER_METATABLE = Some mt \<and> mt ''__gc'' = None \<and> mt ''__close'' = None"
proof (intro exI conjI)
  show "luaopen_luaprof example_open 9 empty_registry = (Inl Memory_Error, halfway)" by (rule opening_fails)
  show "luaopen_luaprof example_open 40 halfway = (Inr (module_functions 256 320), halfway\<lparr>rg_metatables := (rg_metatables halfway)
      (LP_RESULT_METATABLE \<mapsto> metatable LP_RESULT_METATABLE (result_fields 256 320))\<rparr>)" by (rule opening_succeeds)
  show "rg_metatables (halfway\<lparr>rg_metatables := (rg_metatables halfway)
      (LP_RESULT_METATABLE \<mapsto> metatable LP_RESULT_METATABLE (result_fields 256 320))\<rparr>) LP_RECORDER_METATABLE =
    Some (metatable LP_RECORDER_METATABLE [(''stop'', Closure Recorder_Stop 256 320)])"
    by (simp add: halfway_def metatable_names)
qed (simp_all add: metatable_def)

end
