(* ===== verification/Spec2Isabelle.thy ===== *)
theory Spec2Isabelle
  imports Recorded_Export Memory_Sampling Timer_Registry Pprof_Samples Pprof_Valid Skynet_Pins Module_Open
begin

text \<open>
  luaprof, a sampling profiler for Lua VMs, in Isabelle/HOL: the Lua module, the bridge to the VM,
  the portable recorder, the two sampling cores, the per-thread POSIX timers, the skynet host, the
  two resolvers of names, and the exporter.

  \<^bold>\<open>The program.\<close> A host (the Lua module, the skynet integration, or an embedding program)
  starts a recorder of one of two kinds with \<open>lp_runtime_start\<close>, feeds it through the
  \<open>lp_runtime_*\<close> calls, and stops it. The CPU recorder takes stacks at safe points, for ticks that a
  per-thread timer signal has left in a ring; the memory recorder samples allocations and may
  follow the sampled ones until they are freed. Both aggregate equal stacks. A stop hands out an
  \<open>lp_result\<close> that is read through accessors and can be exported to a file, as a gzipped
  \<open>profile.proto\<close> or as folded stacks. The Lua module wraps recorders and results in userdata; the
  bridge stands between the runtime and one VM: it arms a timer (or a session of the skynet host),
  sets the VM's hooks, takes stacks, and hands the queued ticks to the runtime.

  \<^bold>\<open>Theories and sources.\<close>

  \<^item> \<open>Luaprof_Prelude\<close>: word sizes, saturating arithmetic, the FNV hash (\<open>hash_bytes\<close>), lists.
  \<^item> \<open>Runtime_Types\<close>: the plain types of \<open>include/luaprof/runtime.h\<close> as datatypes and records.
  \<^item> \<open>Open_Addressing\<close>: linear probing as a locale; its laws are proved once and interpreted for the
    symbol table and for the aggregate tables of both cores.
  \<^item> \<open>Symbol_Store\<close>: \<open>intern_symbol\<close>, \<open>frame_hash\<close> and \<open>symbol_matches\<close>, declared alike in
    \<open>src/cpu_core.c\<close> and \<open>src/memory_core.c\<close>.
  \<^item> \<open>Cpu_Core\<close>: \<open>lp_cpu_profile_*\<close> of \<open>src/cpu_core.c\<close>.
  \<^item> \<open>Live_Map\<close>: the table of live allocations of \<open>src/memory_core.c\<close>: chains, free list, and the
    finite map they stand for.
  \<^item> \<open>Memory_Core\<close>, \<open>Memory_Sampling\<close>: \<open>lp_memory_profile_*\<close> of \<open>src/memory_core.c\<close>, and the
    choice of the sampled allocations.
  \<^item> \<open>Runtime\<close>, \<open>Recording_Results\<close>: \<open>src/runtime.c\<close>: slots, generations, starts and stops with
    host callbacks, recording calls, results; and what a stopped recording hands out.
  \<^item> \<open>Tick_Ring\<close>, \<open>Thread_Timer\<close>: the queue and the published slot of \<open>src/thread_timer.c\<close>, with
    the signal handler between any two accesses of the owner.
  \<^item> \<open>Timer_Registry\<close>: arming, disarming and deleting timers, the shared signal action and the
    handler's search for its timer.
  \<^item> \<open>Skynet_Target\<close>, \<open>Skynet_Pins\<close>: one profiled VM of \<open>src/skynet_host.c\<close>, its state and reader count
    in one word, and the interleaving of readers and ticks with starting, stopping and reclaiming.
  \<^item> \<open>Skynet_Host\<close>: the rest of \<open>src/skynet_host.c\<close>: the table of targets, the registry of workers,
    the signal handler, the dispatch boundaries and the interface of the bridge.
  \<^item> \<open>Skynet_Sessions\<close>, \<open>Skynet_Tokens\<close>, \<open>Skynet_Slot\<close>, \<open>Skynet_Runs\<close>: what every history of host
    operations keeps; the uniqueness of session tokens; ticks in the middle of a publication; the
    runs to which the properties are applied.
  \<^item> \<open>Native_Symbol\<close>: \<open>src/native_symbol.c\<close>: the mapping that contains an address, and the symbol
    tables of ELF files, read as bytes.
  \<^item> \<open>Protobuf_Wire\<close>: the growing buffer and the field encoding of \<open>src/pprof_exporter.c\<close>, with a
    parser of the wire format.
  \<^item> \<open>Pprof_Model\<close>: \<open>lp_export_model\<close>: strings, mappings, functions, locations, samples, metadata
    (\<open>model_init\<close> and what it calls).
  \<^item> \<open>Pprof_Refinement\<close>: the invariant of the tables and the proof that the model represents the
    result: \<open>result_spec\<close> says, without tables or indices, which frames and values each sample has.
  \<^item> \<open>Pprof_Encode\<close>, \<open>Pprof_Roundtrip\<close>, \<open>Pprof_Valid\<close>: \<open>encode_profile\<close>, a reader of
    \<open>profile.proto\<close>, what the reader sees, and the rules its input has to satisfy.
  \<^item> \<open>Pprof_Progress\<close>: the exporter succeeds for the results that recordings produce.
  \<^item> \<open>Pprof_Samples\<close>: the stack made of one CPU sample, and the conversions to \<open>int64_t\<close>.
  \<^item> \<open>Pprof_Files\<close>, \<open>Pprof_Folded\<close>: \<open>lp_export_result_with_symbols\<close>: temporary file, gzip stream,
    folded text, rename; and a reader of the folded text.
  \<^item> \<open>Recorded_Export\<close>: recorder, cores and exporter together.
  \<^item> \<open>Lua_Bridge\<close>: \<open>src/lua_bridge.c\<close> and \<open>src/skynet_backend.c\<close>: the drains, the guard of the
    profiler's own work, the three hooks, and the start and stop of a source of ticks.
  \<^item> \<open>Bridge_Sources\<close>, \<open>Bridge_Work\<close>, \<open>Bridge_Collectors\<close>: the interface of a source of ticks,
    with its two providers (timer and session); the drains and the profiler's work over it; starts
    and stops.
  \<^item> \<open>Host_Neighbours\<close>: what other services of a skynet process cannot do to a VM's session.
  \<^item> \<open>Profiled_Vm\<close>, \<open>Vm_Recording\<close>, \<open>Vm_Runs\<close>: bridge and runtime of one VM together, the histories
    of a VM, and the runs to which the properties are applied.
  \<^item> \<open>Lua_Symbols\<close>: \<open>src/lua_symbols.c\<close>: the walk over \<open>_G\<close> and \<open>package.loaded\<close> for the names of C
    functions.
  \<^item> \<open>Module_Options\<close>, \<open>Lua_Module\<close>: \<open>src/lua_module.c\<close>: the checks of arguments; recorders, results,
    their methods and finalizers, and the end of the Lua state.
  \<^item> \<open>Module_Calls\<close>, \<open>Module_Recording\<close>, \<open>Module_Runs\<close>: what every history of calls of the module
    keeps, what it means for Lua code, and runs.
  \<^item> \<open>Module_Open\<close>: the opening of the module: metatables, holder, table of functions.

  \<^bold>\<open>State.\<close> A C struct is a record with the fields of the struct; integers keep their width as
  words, sizes and indices that cannot overflow are naturals. Output parameters are components of
  the result, \<open>None\<close> where they are not written. Pointers to Lua objects and C functions are words.
  An array with a count is a list. An allocation that may fail is a Boolean argument, or the next
  element of a list of outcomes (\<open>memory\<close>) where many of them are made; past the end of the list
  every allocation succeeds.

  \<^bold>\<open>What the lemmas show.\<close> For each component an invariant and its preservation by every operation
  (\<open>cpu_profile_ok\<close>, \<open>memory_profile_ok\<close>, \<open>live_ok\<close>, \<open>runtime_ok\<close>, \<open>tables_ok\<close>), the behaviour of the
  operations on every branch, and the connection of statistics to what is exported. For the timers:
  no event is torn, lost, doubled or reordered; the registry holds exactly the active timers. For
  the skynet host: no reader uses a reclaimed target, every history of operations returns, and a
  released session is never reached again. For
  the exporter: the encoded bytes decode to the samples of the result; the profile passes the
  checks of a reader; a failed export leaves the files as they were. For the ELF parser: no read
  outside the file, and the nearest symbol is found. For the bridge: hooks and sources of ticks are
  on exactly for what is recorded, a safe point records what is queued, and the profiler's own work
  is not sampled. For the walk over the tables of Lua: it ends for cyclic tables too, the names found
  are usable, and no name in a table with a short name is missed. For the module: each active recorder owns one recording and gets its
  result; no call, whether it returns or raises, leaves the profiler at work; a written file shows
  what was recorded.

  \<^bold>\<open>Bounds and loops.\<close> Probing loops run over the fixed capacities of the tables (16384 and 262144 in
  the exporter). Chains of the live table are walked by \<open>partial_function (option)\<close>, and the walks are
  proved to end under the invariant. The loops of \<open>grow_array\<close>, \<open>buffer_varint\<close> and \<open>write_gzip\<close>
  terminate by measures, \<open>scan_table\<close> by the depth left to it. No definition uses fuel. \<open>Pprof_Progress\<close> assumes at most 16384 frames in
  all stacks of a result, since the function table of the exporter has that many places.

  \<^bold>\<open>Parameters.\<close> The floating-point operations and \<open>log\<close>, \<open>log1p\<close>, \<open>expm1\<close> (\<open>doubles\<close>); the host
  callbacks, as the sequences of recording calls they make; the results of the POSIX timer calls;
  the stacks of the VM (\<open>bridge_env\<close>); what \<open>dlsym\<close> finds; the tables of the VM, the arguments of a
  call, and which allocations of the Lua API succeed (\<open>lua_tables\<close>, \<open>lua_arg\<close>, \<open>call_env\<close>, \<open>open_env\<close>);
  \<open>dl_iterate_phdr\<close>, \<open>dladdr\<close> and the contents of files (\<open>native_env\<close>); the file system calls and the
  compression of zlib (\<open>export_sys\<close>). Their documented behaviour, where it is needed, is a named
  hypothesis (\<open>sys_ok\<close>, \<open>sys_works\<close>, \<open>host_readable\<close>) with a witness.

  \<^bold>\<open>Not modelled.\<close> Calls of the module that come from inside another call of it: an \<open>__index\<close>
  metamethod of an option table is a value or an error, and finalizers that the collector runs while
  a function allocates are steps before or after it. The functions that only free memory; the hooks
  under \<open>LUAPROF_TESTING\<close>; \<open>lp_runtime_main_state\<close>, which reads one field; checks of output pointers
  that no caller leaves null; the compile-time assertions; the texts of error messages that quote
  \<open>strerror\<close>; the example program, tests, tools, and the patches to third-party VMs.
\<close>

end
